(* ===== verification/Prelude.thy ===== *)
theory Prelude
  imports Main "HOL-Library.Word" "HOL-Library.Monad_Syntax" "HOL-Library.Multiset"
begin

unbundle bit_operations_syntax

text \<open>
  Shared vocabulary of the development: the machine integers of the ARM920T, the fault monad in
  which every operation that can fail a \<^verbatim>\<open>KASSERT\<close>/\<^verbatim>\<open>assert\<close> or make a wild access is written,
  checked array accesses, C's truncating division, byte-addressed memory, and the lemmas on words
  and lists that the components share.

  The build that is modelled is the debug build (\<^verbatim>\<open>make debug\<close>), in which a false
  \<^verbatim>\<open>KASSERT\<close> (include/system.h) or \<^verbatim>\<open>assert\<close> (include/user/syscalls.h) ends the run. A computation of
  type \<open>'a option\<close> is such a computation: \<open>None\<close> is "an assertion failed, or the code
  read or wrote outside an array or through a null pointer"; \<open>Some\<close> is a normal return. On every
  input where the model returns \<open>Some\<close> no assertion fails, so the release build, whose assertions
  are empty, returns the same.
\<close>

section \<open>Machine integers\<close>

type_synonym u32 = "32 word"
type_synonym u8 = "8 word"

text \<open>C's \<open>/\<close> and \<open>%\<close> on \<open>int\<close>: the quotient is rounded towards zero and the remainder has
  the sign of the dividend.\<close>

definition c_div :: "int \<Rightarrow> int \<Rightarrow> int" where
  "c_div a b = (if (a < 0) = (b < 0) then \<bar>a\<bar> div \<bar>b\<bar> else - (\<bar>a\<bar> div \<bar>b\<bar>))"

definition c_mod :: "int \<Rightarrow> int \<Rightarrow> int" where
  "c_mod a b = a - b * c_div a b"

lemma c_div_nonneg [simp]: "0 \<le> a \<Longrightarrow> 0 < b \<Longrightarrow> c_div a b = a div b"
  by (simp add: c_div_def)

lemma c_mod_nonneg [simp]: "0 \<le> a \<Longrightarrow> 0 < b \<Longrightarrow> c_mod a b = a mod b"
  by (simp add: c_mod_def minus_div_mult_eq_mod [symmetric] mult.commute)

section \<open>The fault monad\<close>

text \<open>\<open>kassert\<close> is \<^verbatim>\<open>KASSERT\<close> of include/system.h and \<^verbatim>\<open>assert\<close> of include/user/syscalls.h in
  the debug build.\<close>

named_theorems fault_eq "when a computation that may fault returns, and what"

definition kassert :: "bool \<Rightarrow> unit option" where
  "kassert b = (if b then Some () else None)"

lemma kassert_simps [simp]: "kassert True = Some ()" "kassert False = None"
  by (simp_all add: kassert_def)

lemma kassert_eq_Some [simp]: "kassert b = Some u \<longleftrightarrow> b"
  by (simp add: kassert_def)

lemma bind_kassert: "(kassert b \<bind> f) = (if b then f () else None)"
  by simp

lemma bind_kassert_Some [simp]: "(kassert b \<bind> f) = Some r \<longleftrightarrow> b \<and> f () = Some r"
  by (simp add: kassert_def)

lemma if_None_Some [simp]:
  "(if b then Some x else None) = Some y \<longleftrightarrow> b \<and> x = y"
  "(if b then None else Some x) = Some y \<longleftrightarrow> \<not> b \<and> x = y"
  by auto

text \<open>Array accesses: out of the array's bounds is a fault.\<close>

definition aget :: "'a list \<Rightarrow> nat \<Rightarrow> 'a option" where
  "aget xs i = (if i < length xs then Some (xs ! i) else None)"

definition aset :: "'a list \<Rightarrow> nat \<Rightarrow> 'a \<Rightarrow> 'a list option" where
  "aset xs i v = (if i < length xs then Some (xs[i := v]) else None)"

text \<open>The same with a C \<open>int\<close> as the index.\<close>

definition agetz :: "'a list \<Rightarrow> int \<Rightarrow> 'a option" where
  "agetz xs i = (if 0 \<le> i then aget xs (nat i) else None)"

definition asetz :: "'a list \<Rightarrow> int \<Rightarrow> 'a \<Rightarrow> 'a list option" where
  "asetz xs i v = (if 0 \<le> i then aset xs (nat i) v else None)"

lemma aget_eq_Some [fault_eq]: "aget xs i = Some x \<longleftrightarrow> i < length xs \<and> x = xs ! i"
  by (auto simp: aget_def)

lemma aget_in [simp]: "i < length xs \<Longrightarrow> aget xs i = Some (xs ! i)"
  by (simp add: aget_def)

lemma aget_out [simp]: "\<not> i < length xs \<Longrightarrow> aget xs i = None"
  by (simp add: aget_def)

lemma aset_eq_Some [fault_eq]: "aset xs i v = Some ys \<longleftrightarrow> i < length xs \<and> ys = xs[i := v]"
  by (auto simp: aset_def)

lemma aset_in [simp]: "i < length xs \<Longrightarrow> aset xs i v = Some (xs[i := v])"
  by (simp add: aset_def)

lemma aset_out [simp]: "\<not> i < length xs \<Longrightarrow> aset xs i v = None"
  by (simp add: aset_def)

lemma agetz_eq_Some [fault_eq]:
  "agetz xs i = Some x \<longleftrightarrow> 0 \<le> i \<and> nat i < length xs \<and> x = xs ! nat i"
  by (auto simp: agetz_def aget_eq_Some)

lemma agetz_in: "0 \<le> i \<Longrightarrow> nat i < length xs \<Longrightarrow> agetz xs i = Some (xs ! nat i)"
  by (simp add: agetz_def)

lemma asetz_eq_Some [fault_eq]:
  "asetz xs i v = Some ys \<longleftrightarrow> 0 \<le> i \<and> nat i < length xs \<and> ys = xs[nat i := v]"
  by (auto simp: asetz_def aset_eq_Some)

lemma asetz_in: "0 \<le> i \<Longrightarrow> nat i < length xs \<Longrightarrow> asetz xs i v = Some (xs[nat i := v])"
  by (simp add: asetz_def)

declare Option.bind_eq_Some_conv [fault_eq]

lemma bind_SomeE: "x \<bind> f = Some r \<Longrightarrow> (\<And>y. x = Some y \<Longrightarrow> f y = Some r \<Longrightarrow> P) \<Longrightarrow> P"
  by (cases x) simp_all

text \<open>C's \<^verbatim>\<open>int\<close> as an integer with the range checked: signed overflow is undefined, here a fault.\<close>

definition i32 :: "int \<Rightarrow> int option" where
  "i32 x = (if - 2147483648 \<le> x \<and> x < 2147483648 then Some x else None)"

lemma i32_eq_Some [fault_eq]: "i32 x = Some y \<longleftrightarrow> - 2147483648 \<le> x \<and> x < 2147483648 \<and> y = x"
  by (auto simp: i32_def)

lemma i32_in: "- 2147483648 \<le> x \<Longrightarrow> x < 2147483648 \<Longrightarrow> i32 x = Some x"
  by (simp add: i32_def)

text \<open>For running the model on closed inputs: a computation is evaluated before what follows it
  (\<open>bind_weak_cong\<close> as a congruence rule), and integer numerals as indices are natural ones.\<close>

lemma bind_weak_cong: "m = m' \<Longrightarrow> Option.bind m f = Option.bind m' f"
  by simp

lemma index_numeral:
  "agetz xs (numeral n) = aget xs (numeral n)" "agetz xs 0 = aget xs 0" "agetz xs 1 = aget xs 1"
  "asetz xs (numeral n) v = aset xs (numeral n) v" "asetz xs 0 v = aset xs 0 v" "asetz xs 1 v = aset xs 1 v"
  by (simp_all add: agetz_def asetz_def)

section \<open>Words\<close>


lemma unat_of_nat_u32: "n < 4294967296 \<Longrightarrow> unat (of_nat n :: u32) = n"
  by (simp add: unat_of_nat)

lemma of_nat_le_u32: "n < 4294967296 \<Longrightarrow> ((of_nat n :: u32) \<le> w) = (n \<le> unat w)"
  by (simp add: word_le_nat_alt unat_of_nat_u32)

lemma sint_u32_int:
  assumes "unat (w :: u32) < 2147483648"
  shows "sint w = int (unat w)"
proof -
  have "int (unat w) < 2147483648"
    using assms by linarith
  moreover have "- 2147483648 \<le> uint w"
    by (rule order_trans [of _ 0]) simp_all
  ultimately show ?thesis
    by (simp add: sint_uint signed_take_bit_int_eq_self_iff)
qed

lemma unat_Suc_u32: "unat (w :: u32) < 4294967295 \<Longrightarrow> unat (w + 1) = Suc (unat w)"
  by (simp add: unat_word_ariths)

lemma unat_pred_u32: "0 < unat (w :: u32) \<Longrightarrow> unat (w - 1) = unat w - 1"
  by (metis Suc_leI unat_1 unat_sub word_le_nat_alt One_nat_def)

lemma unat_wrap_succ:
  "0 < N \<Longrightarrow> N < 2147483648 \<Longrightarrow> unat (w :: u32) < N \<Longrightarrow>
   unat ((w + 1) mod of_nat N) = Suc (unat w) mod N"
  by (simp add: unat_mod_distrib unat_Suc_u32 unat_of_nat_u32)

lemma unat_wrap_pred:
  assumes "0 < N" "N < 2147483648" "unat (w :: u32) < N"
  shows "unat ((w - 1 + of_nat N) mod of_nat N) = (unat w + (N - 1)) mod N"
proof -
  have "w - 1 + of_nat N = w + of_nat (N - 1)"
    using assms(1) by (simp add: of_nat_diff)
  moreover have "unat (w + of_nat m) = unat w + m" if "m < N" for m
    using assms that by (simp add: unat_word_ariths unat_of_nat_u32)
  from this [of "N - 1"] have "unat (w + of_nat (N - 1)) = unat w + (N - 1)"
    using assms(1) by simp
  ultimately have "unat (w - 1 + of_nat N) = unat w + (N - 1)"
    by (simp only:)
  then show ?thesis
    using assms by (simp only: unat_mod_distrib unat_of_nat_u32)
qed

section \<open>Lists\<close>

lemma nth_update_if: "xs[i := x] ! j = (if i = j \<and> i < length xs then x else xs ! j)"
  by (cases "i = j"; cases "i < length xs") (simp_all add: list_update_beyond)

lemma wrap_mod: "a < 2 * N \<Longrightarrow> a mod N = (if a < N then a else a - N)" for a N :: nat
  by (auto simp: le_mod_geq)

lemma remove1_at:
  "p < length xs \<Longrightarrow> xs ! p = x \<Longrightarrow> (\<And>k. k < p \<Longrightarrow> xs ! k \<noteq> x) \<Longrightarrow>
   remove1 x xs = take p xs @ drop (Suc p) xs"
proof (induction xs arbitrary: p)
  case Nil
  then show ?case by simp
next
  case (Cons y ys)
  show ?case
  proof (cases p)
    case 0
    with Cons.prems show ?thesis by simp
  next
    case (Suc q)
    have "y \<noteq> x" using Cons.prems(3) [of 0] Suc by simp
    moreover have "remove1 x ys = take q ys @ drop (Suc q) ys"
      using Cons.prems Suc by (intro Cons.IH) (force+)
    ultimately show ?thesis using Suc by simp
  qed
qed

lemma ex_first:
  "x \<in> set xs \<Longrightarrow> \<exists>p<length xs. xs ! p = x \<and> (\<forall>k<p. xs ! k \<noteq> x)"
proof (induction xs)
  case Nil
  then show ?case by simp
next
  case (Cons y ys)
  show ?case
  proof (cases "y = x")
    case True
    then show ?thesis by (intro exI [of _ 0]) simp
  next
    case False
    with Cons obtain p where "p < length ys" "ys ! p = x" "\<forall>k<p. ys ! k \<noteq> x"
      by auto
    with False show ?thesis
      by (intro exI [of _ "Suc p"]) (auto simp: nth_Cons split: nat.splits)
  qed
qed

lemma add_mod_inj:
  fixes s k n N :: nat
  assumes "s < N" "k < N" "n < N" "(s + k) mod N = (s + n) mod N"
  shows "k = n"
  using assms by (auto simp: wrap_mod split: if_splits)

end
