(* ===== verification/CircBuf.thy ===== *)
theory CircBuf
  imports Prelude
begin

text \<open>
  The circular buffers of include/lib/circular_buffer.h. The header defines one C type and one set
  of functions per use of \<^verbatim>\<open>CIRCULAR_BUFFER_DEF(NAME, T, SIZE)\<close>; here the element type is a type
  variable and the macro's \<open>SIZE\<close> is the argument \<open>N\<close>. The indices are the source's
  \<^verbatim>\<open>uint32_t\<close>; \<^verbatim>\<open>NAME_get\<close> and \<^verbatim>\<open>NAME_rem\<close> convert them to \<^verbatim>\<open>int\<close>, as the source does.
  \<open>cb_list\<close> reads a buffer as the queue it stands for, \<open>cb_wf\<close> is the representation
  invariant; every operation is related to its list counterpart.
\<close>

section \<open>The buffer and its operations\<close>

(* src/include/lib/circular_buffer.h:14-20 *)
record 'a cbuf =
  cb_buf :: "'a list"
  cb_start :: u32
  cb_end :: u32
  cb_size :: u32

(* src/include/lib/circular_buffer.h:4-8 *)
datatype cb_code = CB_E_NONE | CB_E_FULL | CB_E_EMPTY | CB_E_DNE | CB_E_OOB

(* src/include/lib/circular_buffer.h:29-33 *)
definition cb_init :: "'a cbuf \<Rightarrow> 'a cbuf" where
  "cb_init cb = cb\<lparr>cb_start := 0, cb_end := 0, cb_size := 0\<rparr>"

(* src/include/lib/circular_buffer.h:35-42 *)
definition cb_push :: "nat \<Rightarrow> 'a \<Rightarrow> 'a cbuf \<Rightarrow> (cb_code \<times> 'a cbuf) option" where
  "cb_push N val cb =
     (if of_nat N \<le> cb_size cb then Some (CB_E_FULL, cb)
      else do {
        b \<leftarrow> aset (cb_buf cb) (unat (cb_end cb)) val;
        Some (CB_E_NONE,
          cb\<lparr>cb_buf := b, cb_end := (cb_end cb + 1) mod of_nat N, cb_size := cb_size cb + 1\<rparr>)
      })"

text \<open>The out-parameter \<^verbatim>\<open>*ret\<close> is written on success only: the result carries \<open>Some\<close> of what is
  stored there, \<open>None\<close> when it is left as it was.\<close>

(* src/include/lib/circular_buffer.h:44-64 *)
definition cb_get :: "nat \<Rightarrow> int \<Rightarrow> 'a cbuf \<Rightarrow> (cb_code \<times> 'a option) option" where
  "cb_get N i0 cb =
     (let start = sint (cb_start cb); size = sint (cb_size cb) in
      if cb_size cb = 0 then Some (CB_E_DNE, None)
      else
        let u = (if int N \<le> start + size then int N - start else size);
            v = (if int N \<le> start + size then sint (cb_end cb) else 0);
            r = start + u;
            i = i0 + start in
        if i < r then do { x \<leftarrow> agetz (cb_buf cb) i; Some (CB_E_NONE, Some x) }
        else
          let i' = i - r in
          if i' < v then do { x \<leftarrow> agetz (cb_buf cb) i'; Some (CB_E_NONE, Some x) }
          else Some (CB_E_DNE, None))"

(* src/include/lib/circular_buffer.h:66-70 *)
definition cb_top :: "'a cbuf \<Rightarrow> (cb_code \<times> 'a option) option" where
  "cb_top cb =
     (if cb_size cb = 0 then Some (CB_E_EMPTY, None)
      else do { x \<leftarrow> aget (cb_buf cb) (unat (cb_start cb)); Some (CB_E_NONE, Some x) })"

(* src/include/lib/circular_buffer.h:72-79 *)
definition cb_pop :: "nat \<Rightarrow> 'a cbuf \<Rightarrow> (cb_code \<times> 'a option \<times> 'a cbuf) option" where
  "cb_pop N cb =
     (if cb_size cb = 0 then Some (CB_E_EMPTY, None, cb)
      else do {
        x \<leftarrow> aget (cb_buf cb) (unat (cb_start cb));
        Some (CB_E_NONE, Some x,
          cb\<lparr>cb_start := (cb_start cb + 1) mod of_nat N, cb_size := cb_size cb - 1\<rparr>)
      })"

(* src/include/lib/circular_buffer.h:81-88 *)
definition cb_pop_end :: "nat \<Rightarrow> 'a cbuf \<Rightarrow> (cb_code \<times> 'a option \<times> 'a cbuf) option" where
  "cb_pop_end N cb =
     (if cb_size cb = 0 then Some (CB_E_EMPTY, None, cb)
      else
        let e = (cb_end cb - 1 + of_nat N) mod of_nat N in
        do {
          x \<leftarrow> aget (cb_buf cb) (unat e);
          Some (CB_E_NONE, Some x, cb\<lparr>cb_end := e, cb_size := cb_size cb - 1\<rparr>)
        })"

text \<open>The two search loops of \<^verbatim>\<open>NAME_rem\<close>: the first index in \<open>i..<u\<close> that holds \<open>val\<close>,
  \<open>u\<close> when there is none (\<^verbatim>\<open>goto SHIFT\<close> leaves the loop with the index of the match).\<close>

(* src/include/lib/circular_buffer.h:175-184 *)
function cb_scan :: "'a list \<Rightarrow> 'a \<Rightarrow> int \<Rightarrow> int \<Rightarrow> int option" where
  "cb_scan b val i u =
     (if i < u then do {
        x \<leftarrow> agetz b i;
        if x = val then Some i else cb_scan b val (i + 1) u }
      else Some i)"
  by pat_completeness auto
termination
  by (relation "measure (\<lambda>(b, val, i, u). nat (u - i))") auto

declare cb_scan.simps [simp del]

text \<open>The shifting loops: \<^verbatim>\<open>for (; i < u; ++i) buf[i] = buf[i+1]\<close>.\<close>

(* src/include/lib/circular_buffer.h:188-193 *)
function cb_shift :: "'a list \<Rightarrow> int \<Rightarrow> int \<Rightarrow> ('a list \<times> int) option" where
  "cb_shift b i u =
     (if i < u then do {
        x \<leftarrow> agetz b (i + 1);
        b' \<leftarrow> asetz b i x;
        cb_shift b' (i + 1) u }
      else Some (b, i))"
  by pat_completeness auto
termination
  by (relation "measure (\<lambda>(b, i, u). nat (u - i))") auto

declare cb_shift.simps [simp del]

(* src/include/lib/circular_buffer.h:167-197 *)
definition cb_rem :: "nat \<Rightarrow> 'a \<Rightarrow> 'a cbuf \<Rightarrow> (cb_code \<times> 'a cbuf) option" where
  "cb_rem N val cb =
     (let start = sint (cb_start cb); size = sint (cb_size cb) in
      if cb_size cb = 0 then Some (CB_E_EMPTY, cb)
      else
        let u = start + (if int N \<le> start + size then int N - start else size);
            v = (if int N \<le> start + size then sint (cb_end cb) else 0) in
        do {
          i \<leftarrow> cb_scan (cb_buf cb) val start u;
          j \<leftarrow> (if i < u then Some 0 else cb_scan (cb_buf cb) val 0 v);
          if \<not> i < u \<and> \<not> j < v then Some (CB_E_DNE, cb)
          else do {
            (b1, i1) \<leftarrow> cb_shift (cb_buf cb) i (u - 1);
            b2 \<leftarrow> (if i1 = u - 1 \<and> j < v
                    then do { x \<leftarrow> agetz b1 0; asetz b1 (u - 1) x } else Some b1);
            (b3, _) \<leftarrow> cb_shift b2 j (v - 1);
            Some (CB_E_NONE, cb\<lparr>cb_buf := b3,
              cb_end := (cb_end cb - 1 + of_nat N) mod of_nat N, cb_size := cb_size cb - 1\<rparr>)
          }
        })"

section \<open>The queue a buffer stands for\<close>

definition cb_wf :: "nat \<Rightarrow> 'a cbuf \<Rightarrow> bool" where
  "cb_wf N cb \<longleftrightarrow> 0 < N \<and> N < 2147483648 \<and> length (cb_buf cb) = N \<and>
     unat (cb_start cb) < N \<and> unat (cb_size cb) \<le> N \<and>
     unat (cb_end cb) = (unat (cb_start cb) + unat (cb_size cb)) mod N"

definition cb_list :: "nat \<Rightarrow> 'a cbuf \<Rightarrow> 'a list" where
  "cb_list N cb =
     map (\<lambda>k. cb_buf cb ! ((unat (cb_start cb) + k) mod N)) [0..<unat (cb_size cb)]"

lemma cb_wfD:
  assumes "cb_wf N cb"
  shows "0 < N" "N < 2147483648" "length (cb_buf cb) = N" "unat (cb_start cb) < N"
    "unat (cb_size cb) \<le> N" "unat (cb_end cb) = (unat (cb_start cb) + unat (cb_size cb)) mod N"
    "unat (cb_end cb) < N"
  using assms by (simp_all add: cb_wf_def)

lemma length_cb_list [simp]: "length (cb_list N cb) = unat (cb_size cb)"
  by (simp add: cb_list_def)

lemma cb_list_nth [simp]:
  "k < unat (cb_size cb) \<Longrightarrow> cb_list N cb ! k = cb_buf cb ! ((unat (cb_start cb) + k) mod N)"
  by (simp add: cb_list_def)

lemma cb_list_empty_iff: "cb_list N cb = [] \<longleftrightarrow> cb_size cb = 0"
  by (simp add: cb_list_def unat_eq_zero)

lemma cb_full_iff:
  "cb_wf N cb \<Longrightarrow> of_nat N \<le> cb_size cb \<longleftrightarrow> length (cb_list N cb) = N"
  by (auto simp: of_nat_le_u32 cb_wf_def)

lemma cb_init_wf: "0 < N \<Longrightarrow> N < 2147483648 \<Longrightarrow> length (cb_buf cb) = N \<Longrightarrow> cb_wf N (cb_init cb)"
  by (simp add: cb_wf_def cb_init_def)

lemma cb_init_list [simp]: "cb_list N (cb_init cb) = []"
  by (simp add: cb_list_def cb_init_def)

lemma cb_push_full:
  "cb_wf N cb \<Longrightarrow> length (cb_list N cb) = N \<Longrightarrow> cb_push N val cb = Some (CB_E_FULL, cb)"
  by (simp add: cb_push_def cb_full_iff)

lemma cb_push_ok:
  assumes wf: "cb_wf N cb" and room: "length (cb_list N cb) < N"
  shows "\<exists>cb'. cb_push N val cb = Some (CB_E_NONE, cb') \<and> cb_wf N cb' \<and>
    cb_list N cb' = cb_list N cb @ [val]"
proof -
  note [simp] = cb_wfD [OF wf]
  let ?s = "unat (cb_start cb)" and ?n = "unat (cb_size cb)"
  define cb' where "cb' = cb\<lparr>cb_buf := (cb_buf cb)[unat (cb_end cb) := val],
    cb_end := (cb_end cb + 1) mod of_nat N, cb_size := cb_size cb + 1\<rparr>"
  have n: "?n < N" using room by simp
  then have sz: "unat (cb_size cb + 1) = Suc ?n"
    using cb_wfD(2) [OF wf] by (intro unat_Suc_u32) linarith
  have push: "cb_push N val cb = Some (CB_E_NONE, cb')"
    using n cb_full_iff [OF wf] room by (simp add: cb_push_def cb'_def)
  have "unat ((cb_end cb + 1) mod of_nat N) = Suc (?s + ?n) mod N"
    by (subst unat_wrap_succ) (simp_all add: mod_Suc_eq)
  then have wf': "cb_wf N cb'"
    using n by (simp add: cb_wf_def cb'_def sz)
  have "cb_list N cb' = cb_list N cb @ [val]"
  proof (rule nth_equalityI)
    show "length (cb_list N cb') = length (cb_list N cb @ [val])"
      by (simp add: cb'_def sz)
  next
    fix k
    assume "k < length (cb_list N cb')"
    then have k: "k < Suc ?n" by (simp add: cb'_def sz)
    have "(?s + k) mod N \<noteq> (?s + ?n) mod N" if "k < ?n"
      using that n add_mod_inj [OF cb_wfD(4) [OF wf], of k ?n] by auto
    then show "cb_list N cb' ! k = (cb_list N cb @ [val]) ! k"
      using k by (auto simp: cb'_def sz nth_append less_Suc_eq)
  qed
  with push wf' show ?thesis by blast
qed

lemma cb_pop_empty: "cb_list N cb = [] \<Longrightarrow> cb_pop N cb = Some (CB_E_EMPTY, None, cb)"
  by (simp add: cb_pop_def cb_list_empty_iff)

lemma cb_top_empty: "cb_list N cb = [] \<Longrightarrow> cb_top cb = Some (CB_E_EMPTY, None)"
  by (simp add: cb_top_def cb_list_empty_iff)

lemma cb_nonempty:
  "cb_wf N cb \<Longrightarrow> cb_list N cb \<noteq> [] \<Longrightarrow> cb_size cb \<noteq> 0 \<and> 0 < unat (cb_size cb)"
  by (simp add: cb_list_empty_iff unat_gt_0)

lemma cb_hd:
  "cb_wf N cb \<Longrightarrow> cb_list N cb \<noteq> [] \<Longrightarrow> hd (cb_list N cb) = cb_buf cb ! unat (cb_start cb)"
  using cb_nonempty [of N cb] cb_wfD [of N cb] by (simp add: hd_conv_nth)

lemma cb_top_ok:
  "cb_wf N cb \<Longrightarrow> cb_list N cb \<noteq> [] \<Longrightarrow> cb_top cb = Some (CB_E_NONE, Some (hd (cb_list N cb)))"
  using cb_nonempty [of N cb] cb_wfD [of N cb] by (simp add: cb_top_def cb_hd)

lemma cb_pop_ok:
  assumes wf: "cb_wf N cb" and ne: "cb_list N cb \<noteq> []"
  shows "\<exists>cb'. cb_pop N cb = Some (CB_E_NONE, Some (hd (cb_list N cb)), cb') \<and> cb_wf N cb' \<and>
    cb_list N cb' = tl (cb_list N cb)"
proof -
  note [simp] = cb_wfD [OF wf] cb_nonempty [OF wf ne]
  let ?s = "unat (cb_start cb)" and ?n = "unat (cb_size cb)"
  define cb' where "cb' = cb\<lparr>cb_start := (cb_start cb + 1) mod of_nat N, cb_size := cb_size cb - 1\<rparr>"
  have sz: "unat (cb_size cb - 1) = ?n - 1"
    by (rule unat_pred_u32) simp
  have st: "unat ((cb_start cb + 1) mod of_nat N) = Suc ?s mod N"
    by (rule unat_wrap_succ) simp_all
  have pop: "cb_pop N cb = Some (CB_E_NONE, Some (hd (cb_list N cb)), cb')"
    by (simp add: cb_pop_def cb_hd [OF wf ne] cb'_def)
  have "(Suc ?s mod N + (?n - 1)) mod N = (?s + ?n) mod N"
    using cb_nonempty [OF wf ne] by (metis Suc_diff_1 add_Suc_shift mod_add_left_eq)
  then have wf': "cb_wf N cb'"
    by (simp add: cb_wf_def cb'_def sz st le_trans [OF diff_le_self cb_wfD(5) [OF wf]])
  have "cb_list N cb' = tl (cb_list N cb)"
  proof (rule nth_equalityI)
    fix k
    assume k: "k < length (cb_list N cb')"
    then have "Suc k < ?n" by (simp add: cb'_def sz)
    moreover have "(Suc ?s mod N + k) mod N = (?s + Suc k) mod N"
      by (simp add: mod_add_left_eq)
    ultimately show "cb_list N cb' ! k = tl (cb_list N cb) ! k"
      using k by (simp add: cb'_def sz st nth_tl)
  qed (simp add: cb'_def sz)
  with pop wf' show ?thesis by blast
qed

lemma cb_pop_end_ok:
  assumes wf: "cb_wf N cb" and ne: "cb_list N cb \<noteq> []"
  shows "\<exists>cb'. cb_pop_end N cb = Some (CB_E_NONE, Some (last (cb_list N cb)), cb') \<and> cb_wf N cb' \<and>
    cb_list N cb' = butlast (cb_list N cb)"
proof -
  note [simp] = cb_wfD [OF wf] cb_nonempty [OF wf ne]
  let ?s = "unat (cb_start cb)" and ?n = "unat (cb_size cb)"
  define e where "e = (cb_end cb - 1 + of_nat N) mod of_nat N"
  define cb' where "cb' = cb\<lparr>cb_end := e, cb_size := cb_size cb - 1\<rparr>"
  have sz: "unat (cb_size cb - 1) = ?n - 1"
    by (rule unat_pred_u32) simp
  have "unat e = ((?s + ?n) mod N + (N - 1)) mod N"
    unfolding e_def by (subst unat_wrap_pred) simp_all
  also have "\<dots> = (?s + ?n + (N - 1)) mod N"
    by (simp add: mod_add_left_eq)
  also have "?s + ?n + (N - 1) = (?s + (?n - 1)) + N"
    using cb_nonempty [OF wf ne] cb_wfD(1) [OF wf] by linarith
  finally have e: "unat e = (?s + (?n - 1)) mod N" by simp
  have "last (cb_list N cb) = cb_buf cb ! unat e"
    by (subst last_conv_nth) (simp_all add: ne e)
  moreover have "unat e < N" by (simp add: e)
  ultimately have pop: "cb_pop_end N cb = Some (CB_E_NONE, Some (last (cb_list N cb)), cb')"
    by (simp add: cb_pop_end_def cb'_def flip: e_def)
  have wf': "cb_wf N cb'"
    using e by (simp add: cb_wf_def cb'_def sz le_trans [OF diff_le_self cb_wfD(5) [OF wf]])
  have "cb_list N cb' = butlast (cb_list N cb)"
    by (rule nth_equalityI) (simp_all add: cb'_def sz nth_butlast)
  with pop wf' show ?thesis by blast
qed

lemma cb_pop_end_empty: "cb_list N cb = [] \<Longrightarrow> cb_pop_end N cb = Some (CB_E_EMPTY, None, cb)"
  by (simp add: cb_pop_end_def cb_list_empty_iff)

lemma cb_wf_sint:
  assumes "cb_wf N cb"
  shows "sint (cb_start cb) = int (unat (cb_start cb))" "sint (cb_size cb) = int (unat (cb_size cb))"
    "sint (cb_end cb) = int (unat (cb_end cb))"
proof -
  note D = cb_wfD [OF assms]
  show "sint (cb_start cb) = int (unat (cb_start cb))"
    by (rule sint_u32_int) (use D in linarith)
  show "sint (cb_size cb) = int (unat (cb_size cb))"
    by (rule sint_u32_int) (use D in linarith)
  show "sint (cb_end cb) = int (unat (cb_end cb))"
    by (rule sint_u32_int) (use D in linarith)
qed

text \<open>A well-formed buffer seen through \<^verbatim>\<open>int\<close> variables, as \<^verbatim>\<open>NAME_get\<close> and \<^verbatim>\<open>NAME_rem\<close> see it:
  the first segment is \<open>s..<u\<close> and the second \<open>0..<v\<close>.\<close>

lemma cb_wf_segments:
  assumes wf: "cb_wf N cb"
  obtains s n b where "s < N" "n \<le> N" "length b = N" "N < 2147483648"
    "cb_buf cb = b" "sint (cb_start cb) = int s" "sint (cb_size cb) = int n"
    "cb_size cb = 0 \<longleftrightarrow> n = 0" "N \<le> s + n \<longrightarrow> sint (cb_end cb) = int (s + n - N)"
    "cb_list N cb = map (\<lambda>k. b ! (if s + k < N then s + k else s + k - N)) [0..<n]"
proof
  note D = cb_wfD [OF wf]
  show "unat (cb_start cb) < N" "unat (cb_size cb) \<le> N" "length (cb_buf cb) = N" "N < 2147483648"
    "cb_buf cb = cb_buf cb"
    using D by simp_all
  show "sint (cb_start cb) = int (unat (cb_start cb))" "sint (cb_size cb) = int (unat (cb_size cb))"
    by (rule cb_wf_sint [OF wf])+
  show "cb_size cb = 0 \<longleftrightarrow> unat (cb_size cb) = 0"
    by (simp add: unat_eq_zero)
  show "N \<le> unat (cb_start cb) + unat (cb_size cb) \<longrightarrow>
    sint (cb_end cb) = int (unat (cb_start cb) + unat (cb_size cb) - N)"
    using D by (auto simp: cb_wf_sint(3) [OF wf] wrap_mod simp del: of_nat_unat)
  show "cb_list N cb = map (\<lambda>k. cb_buf cb !
      (if unat (cb_start cb) + k < N then unat (cb_start cb) + k else unat (cb_start cb) + k - N))
      [0..<unat (cb_size cb)]"
    unfolding cb_list_def using D by (intro map_cong) (auto simp: wrap_mod)
qed

lemma cb_get_nth:
  assumes wf: "cb_wf N cb"
  shows "cb_get N (int i) cb =
    Some (if i < length (cb_list N cb) then (CB_E_NONE, Some (cb_list N cb ! i))
          else (CB_E_DNE, None))"
proof -
  obtain s n b where S: "s < N" "n \<le> N" "length b = N" "N < 2147483648"
    and c: "cb_buf cb = b" "sint (cb_start cb) = int s" "sint (cb_size cb) = int n"
    "cb_size cb = 0 \<longleftrightarrow> n = 0"
    and E: "N \<le> s + n \<longrightarrow> sint (cb_end cb) = int (s + n - N)"
    and L: "cb_list N cb = map (\<lambda>k. b ! (if s + k < N then s + k else s + k - N)) [0..<n]"
    by (rule cb_wf_segments [OF wf])
  have read: "agetz b (int j) = (if j < N then Some (b ! j) else None)" for j
    using S by (auto simp: agetz_def aget_def)
  have fst_seg: "agetz b (int i + int s) = Some (b ! (s + i))" if "s + i < N"
    using that read [of "s + i"] by (simp add: add.commute)
  have snd_seg: "agetz b (int i + int s - int N) = Some (b ! (s + i - N))"
    if "\<not> s + i < N" "s + i - N < N"
    using that read [of "s + i - N"] by (simp add: of_nat_diff add.commute)
  have lt: "(int i + int s < int N) = (s + i < N)" by auto
  show ?thesis
  proof (cases "N \<le> s + n")
    case True
    then have "(int i + int s - int N < int (s + n - N)) = (i < n)" by auto
    with True S lt E show ?thesis
      by (simp add: cb_get_def Let_def c L fst_seg snd_seg)
  next
    case False
    have "(int i + int s < int s + int n) = (i < n)" by auto
    with False S fst_seg show ?thesis
      by (simp add: cb_get_def Let_def c L)
  qed
qed

section \<open>Removal of an element\<close>

lemma cb_scan_result:
  "0 \<le> i \<Longrightarrow> u \<le> int (length b) \<Longrightarrow>
   \<exists>j. cb_scan b val i u = Some j \<and> i \<le> j \<and> (i \<le> u \<longrightarrow> j \<le> u) \<and> (u \<le> i \<longrightarrow> j = i) \<and>
     (\<forall>k. i \<le> k \<and> k < j \<longrightarrow> b ! nat k \<noteq> val) \<and> (j < u \<longrightarrow> b ! nat j = val)"
proof (induction b val i u rule: cb_scan.induct)
  case (1 b val i u)
  show ?case
  proof (cases "i < u")
    case True
    then have rd: "agetz b i = Some (b ! nat i)"
      using 1 by (intro agetz_in) auto
    show ?thesis
    proof (cases "b ! nat i = val")
      case True
      then have "cb_scan b val i u = Some i"
        using \<open>i < u\<close> by (simp add: cb_scan.simps [of b val i u] rd)
      then show ?thesis using True \<open>i < u\<close>
        by (intro exI [of _ i] conjI allI impI) (linarith | simp)+
    next
      case False
      have "0 \<le> i + 1" using "1.prems" by simp
      from "1.IH" [OF \<open>i < u\<close> rd False this "1.prems"(2)] obtain j where
        j: "cb_scan b val (i + 1) u = Some j" "i + 1 \<le> j" "i + 1 \<le> u \<longrightarrow> j \<le> u"
        "\<forall>k. i + 1 \<le> k \<and> k < j \<longrightarrow> b ! nat k \<noteq> val" "j < u \<longrightarrow> b ! nat j = val"
        by blast
      have "b ! nat k \<noteq> val" if "i \<le> k" "k < j" for k
        using that j(4) False by (cases "k = i") auto
      moreover have "cb_scan b val i u = Some j"
        using \<open>i < u\<close> False j(1) by (simp add: cb_scan.simps [of b val i u] rd)
      ultimately show ?thesis using j \<open>i < u\<close> by auto
    qed
  next
    case False
    then show ?thesis by (auto simp: cb_scan.simps [of b val i u])
  qed
qed

lemma cb_shift_result:
  "0 \<le> i \<Longrightarrow> u < int (length b) \<Longrightarrow>
   \<exists>b'. cb_shift b i u = Some (b', max i u) \<and> length b' = length b \<and>
     (\<forall>k<length b. b' ! k = (if i \<le> int k \<and> int k < u then b ! Suc k else b ! k))"
proof (induction b i u rule: cb_shift.induct)
  case (1 b i u)
  show ?case
  proof (cases "i < u")
    case True
    define c where "c = b[nat i := b ! nat (i + 1)]"
    have rd: "agetz b (i + 1) = Some (b ! nat (i + 1))"
      and wr: "asetz b i (b ! nat (i + 1)) = Some c"
      using 1 True unfolding c_def by (auto intro: agetz_in asetz_in)
    have "0 \<le> i + 1" "u < int (length c)"
      using "1.prems" by (simp_all add: c_def)
    from "1.IH" [OF True rd wr this] obtain b' where b': "cb_shift c (i + 1) u = Some (b', max (i + 1) u)"
      "length b' = length c"
      "\<forall>k<length c. b' ! k = (if i + 1 \<le> int k \<and> int k < u then c ! Suc k else c ! k)"
      by blast
    have "cb_shift b i u = Some (b', max i u)"
      using True b'(1) by (simp add: cb_shift.simps [of b i u] rd wr)
    moreover have "b' ! k = (if i \<le> int k \<and> int k < u then b ! Suc k else b ! k)"
      if "k < length b" for k
    proof -
      obtain m where "i = int m"
        using "1.prems"(1) nonneg_int_cases by blast
      then have "c = b[m := b ! Suc m]"
        by (simp add: c_def nat_add_distrib)
      then show ?thesis
        using that b'(3) True \<open>i = int m\<close>
        by (cases "k = m") (auto simp: nth_list_update c_def)
    qed
    ultimately show ?thesis using b'(2) by (auto simp: c_def)
  next
    case False
    then show ?thesis by (auto simp: cb_shift.simps [of b i u])
  qed
qed

lemma cb_shift_nat:
  assumes "u \<le> length b"
  shows "\<exists>b'. cb_shift b (int i) (int u - 1) = Some (b', max (int i) (int u - 1)) \<and>
     length b' = length b \<and>
     (\<forall>k<length b. b' ! k = (if i \<le> k \<and> Suc k < u then b ! Suc k else b ! k))"
proof -
  have "int u - 1 < int (length b) \<or> length b = 0" using assms by auto
  then show ?thesis
  proof
    assume "int u - 1 < int (length b)"
    from cb_shift_result [OF _ this, of "int i"] obtain b' where
      b': "cb_shift b (int i) (int u - 1) = Some (b', max (int i) (int u - 1))" "length b' = length b"
      "\<forall>k<length b. b' ! k = (if int i \<le> int k \<and> int k < int u - 1 then b ! Suc k else b ! k)"
      by auto
    have "(int i \<le> int k \<and> int k < int u - 1) = (i \<le> k \<and> Suc k < u)" for k by auto
    with b' show ?thesis by auto
  next
    assume "length b = 0"
    with assms show ?thesis by (simp add: cb_shift.simps)
  qed
qed

text \<open>The list that removing position \<open>p\<close> leaves, read off by positions.\<close>

lemma drop_position:
  assumes "p < length xs" "length ys = length xs - 1"
    "\<And>k. k < p \<Longrightarrow> ys ! k = xs ! k" "\<And>k. p \<le> k \<Longrightarrow> k < length ys \<Longrightarrow> ys ! k = xs ! Suc k"
  shows "ys = take p xs @ drop (Suc p) xs"
  by (rule nth_equalityI) (use assms in \<open>auto simp: nth_append min_def\<close>)

text \<open>The code of \<^verbatim>\<open>NAME_rem\<close> from label \<^verbatim>\<open>SHIFT\<close> on, for a match at logical position \<open>p\<close>:
  \<open>i\<close> and \<open>j\<close> are where the two search loops stopped.\<close>

lemma cb_rem_shifts:
  fixes s n p N :: nat
  assumes S: "s < N" "n \<le> N" "length b = N" and p: "p < n"
    and u: "u = min N (s + n)" and v: "v = s + n - N"
    and i: "i = min u (s + p)" and j: "j = s + p - N"
  shows "\<exists>b1 b3. cb_shift b (int i) (int u - 1) = Some (b1, max (int i) (int u - 1)) \<and>
     length b1 = N \<and>
     cb_shift (if i < u \<and> j < v then b1[u - 1 := b1 ! 0] else b1)
       (int j) (int v - 1) = Some (b3, max (int j) (int v - 1)) \<and> length b3 = N \<and>
     (\<forall>k<n - 1. b3 ! ((s + k) mod N) =
        (if k < p then b ! ((s + k) mod N) else b ! ((s + Suc k) mod N)))"
proof -
  have "u \<le> length b" using S u by simp
  from cb_shift_nat [OF this, of i] S(3) obtain b1 where
    b1: "cb_shift b (int i) (int u - 1) = Some (b1, max (int i) (int u - 1))" "length b1 = N"
    and b1n: "\<And>m. m < N \<Longrightarrow> b1 ! m = (if i \<le> m \<and> Suc m < u then b ! Suc m else b ! m)"
    by blast
  define b2 where "b2 = (if i < u \<and> j < v then b1[u - 1 := b1 ! 0] else b1)"
  have "v \<le> N" using S v by simp
  then have "v \<le> length b2" using b1(2) by (simp add: b2_def)
  from cb_shift_nat [OF this, of j] obtain b3 where
    b3: "cb_shift b2 (int j) (int v - 1) = Some (b3, max (int j) (int v - 1))" "length b3 = N"
    and b3n: "\<And>m. m < N \<Longrightarrow> b3 ! m = (if j \<le> m \<and> Suc m < v then b2 ! Suc m else b2 ! m)"
    using b1(2) by (auto simp: b2_def)
  have "b3 ! ((s + k) mod N) = (if k < p then b ! ((s + k) mod N) else b ! ((s + Suc k) mod N))"
    if k: "k < n - 1" for k
  proof -
    have K: "s + k < 2 * N" "s + Suc k < 2 * N" using S k by simp_all
    have vs: "v \<le> s" "u \<le> N" "0 < u" using S u v p by simp_all
    show ?thesis
    proof (cases "s + p < N")
      case True
      then have ij: "i = s + p" "j = 0" "i < u"
        using p u i j by simp_all
      show ?thesis
      proof (cases "s + k < N")
        case True
        then have "b3 ! (s + k) = b2 ! (s + k)" using b3n vs by simp
        moreover have "b2 ! (s + k) = (if k < p then b ! (s + k) else if Suc (s + k) = N then b ! 0 else b ! Suc (s + k))"
        proof (cases "Suc (s + k) = u")
          case True
          then have "0 < v" "u = N" "N - 1 = s + k" using k u v by simp_all
          then show ?thesis
            using True b1n [of 0] b1(2) ij vs S by (simp add: b2_def)
        next
          case False
          then have "b2 ! (s + k) = b1 ! (s + k)" "Suc (s + k) < u"
            using True k u by (auto simp: b2_def nth_list_update)
          then show ?thesis using b1n [OF True] ij vs by simp
        qed
        ultimately show ?thesis
          using True K by (simp add: wrap_mod)
      next
        case False
        then have q: "Suc (s + k - N) < v" using k v by simp
        then have "b3 ! (s + k - N) = b2 ! Suc (s + k - N)"
          using b3n [of "s + k - N"] vs S ij by simp
        also have "\<dots> = b1 ! Suc (s + k - N)"
          using q vs ij b1(2) by (auto simp: b2_def nth_list_update)
        also have "\<dots> = b ! Suc (s + k - N)"
          using b1n [of "Suc (s + k - N)"] q vs S ij by simp
        finally show ?thesis
          using False True K by (simp add: wrap_mod Suc_diff_le)
      qed
    next
      case False
      then have ij: "i = u" "j = s + p - N" "u = N"
        using p u i j by simp_all
      have "b2 ! m = b ! m" if "m < N" for m
        using b1n [OF that] ij that by (auto simp: b2_def)
      then have "b3 ! m = (if j \<le> m \<and> Suc m < v then b ! Suc m else b ! m)" if "m < N" for m
        using b3n [OF that] that vs S(1) by simp
      moreover have "s + k - N < N" "s + k < N \<Longrightarrow> k < p" "N \<le> s + k \<Longrightarrow> Suc (s + k - N) < v"
        using K k v S False by simp_all
      ultimately show ?thesis
        using False K ij vs by (auto simp: wrap_mod Suc_diff_le)
    qed
  qed
  with b1 b3 show ?thesis unfolding b2_def by blast
qed

lemma cb_scan_hit:
  assumes "i \<le> q" "q < u" "u \<le> length b" "b ! q = val" "\<And>k. i \<le> k \<Longrightarrow> k < q \<Longrightarrow> b ! k \<noteq> val"
  shows "cb_scan b val (int i) (int u) = Some (int q)"
proof -
  obtain j where j: "cb_scan b val (int i) (int u) = Some j" "int i \<le> j" "j \<le> int u"
    "\<forall>k. int i \<le> k \<and> k < j \<longrightarrow> b ! nat k \<noteq> val" "j < int u \<longrightarrow> b ! nat j = val"
    using cb_scan_result [of "int i" "int u" b val] assms(1-3) by auto
  have "0 \<le> j" using j(2) by simp
  then obtain m where m: "j = int m" using nonneg_int_cases by blast
  have "\<not> q < m" using spec [OF j(4), of "int q"] assms(1,4) m by simp
  moreover have "i \<le> m" using j(2) m by simp
  then have "\<not> m < q" using j(5) assms(2) assms(5) [of m] m by auto
  ultimately show ?thesis using j(1) m by simp
qed

lemma cb_scan_miss:
  assumes "i \<le> u \<or> u = 0" "u \<le> length b" "\<And>k. i \<le> k \<Longrightarrow> k < u \<Longrightarrow> b ! k \<noteq> val"
  shows "cb_scan b val (int i) (int u) = Some (int (max i u))"
proof -
  obtain j where j: "cb_scan b val (int i) (int u) = Some j" "int i \<le> j"
    "int i \<le> int u \<longrightarrow> j \<le> int u" "int u \<le> int i \<longrightarrow> j = int i" "j < int u \<longrightarrow> b ! nat j = val"
    using cb_scan_result [of "int i" "int u" b val] assms(2) by auto
  have "j \<noteq> int m" if "i \<le> m" "m < u" for m
    using assms(3) [OF that] j(5) that by auto
  moreover have "0 \<le> j" using j(2) by simp
  then obtain m where "j = int m" using nonneg_int_cases by blast
  ultimately have "\<not> j < int u" using j(2) by auto
  with j show ?thesis by (auto simp: max_def)
qed

lemma cb_rem_empty: "cb_list N cb = [] \<Longrightarrow> cb_rem N val cb = Some (CB_E_EMPTY, cb)"
  by (simp add: cb_rem_def cb_list_empty_iff)

lemma cb_rem_bounds:
  assumes "s < N" "n \<le> (N::nat)" "N \<le> s + n \<longrightarrow> e = int (s + n - N)"
  shows "int s + (if int N \<le> int s + int n then int N - int s else int n) = int (min N (s + n))"
    "(if int N \<le> int s + int n then e else 0) = int (s + n - N)"
  using assms by auto

lemma cb_rem_missing:
  assumes wf: "cb_wf N cb" and ne: "cb_list N cb \<noteq> []" and nin: "val \<notin> set (cb_list N cb)"
  shows "cb_rem N val cb = Some (CB_E_DNE, cb)"
proof -
  obtain s n b where S: "s < N" "n \<le> N" "length b = N" "N < 2147483648"
    and c: "cb_buf cb = b" "sint (cb_start cb) = int s" "sint (cb_size cb) = int n"
    "cb_size cb = 0 \<longleftrightarrow> n = 0"
    and E: "N \<le> s + n \<longrightarrow> sint (cb_end cb) = int (s + n - N)"
    and L: "cb_list N cb = map (\<lambda>k. b ! (if s + k < N then s + k else s + k - N)) [0..<n]"
    by (rule cb_wf_segments [OF wf])
  have no: "b ! (if s + k < N then s + k else s + k - N) \<noteq> val" if "k < n" for k
    using nin that by (auto simp: L)
  have seg1: "b ! m \<noteq> val" if "s \<le> m" "m < min N (s + n)" for m
  proof -
    have "m - s < n" using that by (simp add: less_diff_conv2)
    from no [OF this] show ?thesis using that by simp
  qed
  have seg2: "b ! m \<noteq> val" if "m < s + n - N" for m
  proof -
    have "m + N - s < n" using that S by simp
    from no [OF this] show ?thesis using that S by simp
  qed
  have "cb_scan b val (int s) (int (min N (s + n))) = Some (int (max s (min N (s + n))))"
    using S seg1 by (intro cb_scan_miss) auto
  moreover have "cb_scan b val (int 0) (int (s + n - N)) = Some (int (max 0 (s + n - N)))"
    using S seg2 by (intro cb_scan_miss) auto
  moreover have "n \<noteq> 0" using ne L by auto
  ultimately show ?thesis
    using S by (simp add: cb_rem_def Let_def c cb_rem_bounds [OF S(1,2) E])
qed

lemma cb_rem_found:
  assumes wf: "cb_wf N cb" and mem: "val \<in> set (cb_list N cb)"
  shows "\<exists>cb'. cb_rem N val cb = Some (CB_E_NONE, cb') \<and> cb_wf N cb' \<and>
    cb_list N cb' = remove1 val (cb_list N cb)"
proof -
  obtain s n b where S: "s < N" "n \<le> N" "length b = N" "N < 2147483648"
    and c: "cb_buf cb = b" "sint (cb_start cb) = int s" "sint (cb_size cb) = int n"
    "cb_size cb = 0 \<longleftrightarrow> n = 0"
    and E: "N \<le> s + n \<longrightarrow> sint (cb_end cb) = int (s + n - N)"
    and L: "cb_list N cb = map (\<lambda>k. b ! (if s + k < N then s + k else s + k - N)) [0..<n]"
    by (rule cb_wf_segments [OF wf])
  obtain p where p: "p < n" "cb_list N cb ! p = val" and first: "\<And>k. k < p \<Longrightarrow> cb_list N cb ! k \<noteq> val"
    using ex_first [OF mem] L by auto
  define u v i j where "u = min N (s + n)" and "v = s + n - N" and "i = min u (s + p)" and "j = s + p - N"
  have at: "cb_list N cb ! k = b ! (if s + k < N then s + k else s + k - N)" if "k < n" for k
    using that L by simp
  have scan1: "cb_scan b val (int s) (int u) = Some (int i)"
  proof (cases "s + p < u")
    case True
    have "b ! m \<noteq> val" if "s \<le> m" "m < s + p" for m
      using first [of "m - s"] at [of "m - s"] p(1) that True by (simp add: u_def)
    then have "cb_scan b val (int s) (int u) = Some (int (s + p))"
      using True p S at [of p] by (intro cb_scan_hit) (simp_all add: u_def)
    with True show ?thesis by (simp add: i_def)
  next
    case False
    have "b ! m \<noteq> val" if "s \<le> m" "m < u" for m
    proof -
      have "m - s < p" using that False p(1) by (auto simp: u_def less_diff_conv2)
      then show ?thesis using first [of "m - s"] at [of "m - s"] p(1) that by (simp add: u_def)
    qed
    then have "cb_scan b val (int s) (int u) = Some (int (max s u))"
      using S by (intro cb_scan_miss) (simp_all add: u_def)
    moreover have "max s u = u" "i = u" using False p(1) S(1) by (auto simp: i_def u_def)
    ultimately show ?thesis by simp
  qed
  have scan2: "(if int i < int u then Some 0 else cb_scan b val 0 (int v)) = Some (int j)"
  proof (cases "i < u")
    case True
    then have "j = 0" by (auto simp: i_def j_def u_def min_def split: if_splits)
    with True show ?thesis by simp
  next
    case False
    then have N: "N \<le> s + p" using p(1) by (auto simp: i_def u_def min_def split: if_splits)
    have "b ! m \<noteq> val" if "m < j" for m
      using first [of "m + N - s"] at [of "m + N - s"] p(1) that S N by (simp add: j_def)
    then have "cb_scan b val (int 0) (int v) = Some (int j)"
      using N p S at [of p] by (intro cb_scan_hit) (simp_all add: v_def j_def)
    with False show ?thesis by simp
  qed
  have stop: "i < u \<or> j < v" using p(1) by (auto simp: i_def j_def u_def v_def)
  obtain b1 b3 where sh: "cb_shift b (int i) (int u - 1) = Some (b1, max (int i) (int u - 1))"
    "length b1 = N"
    "cb_shift (if i < u \<and> j < v then b1[u - 1 := b1 ! 0] else b1) (int j) (int v - 1)
       = Some (b3, max (int j) (int v - 1))" "length b3 = N"
    and b3: "\<And>k. k < n - 1 \<Longrightarrow> b3 ! ((s + k) mod N) =
        (if k < p then b ! ((s + k) mod N) else b ! ((s + Suc k) mod N))"
    using cb_rem_shifts [OF S(1-3) p(1) u_def v_def i_def j_def] by blast
  define cb' where "cb' = cb\<lparr>cb_buf := b3, cb_end := (cb_end cb - 1 + of_nat N) mod of_nat N,
    cb_size := cb_size cb - 1\<rparr>"
  have "u - 1 < N" "0 < N" "1 \<le> u" using S p(1) by (auto simp: u_def)
  then have mid: "(if max (int i) (int u - 1) = int u - 1 \<and> int j < int v
      then agetz b1 0 \<bind> asetz b1 (int u - 1) else Some b1) =
    Some (if i < u \<and> j < v then b1[u - 1 := b1 ! 0] else b1)"
    using sh(2) by (auto simp: agetz_def asetz_def aset_def nat_diff_distrib max_def)
  have "cb_size cb \<noteq> 0" "\<not> (\<not> int i < int u \<and> \<not> int j < int v)"
    using c p(1) stop by simp_all
  then have rem: "cb_rem N val cb = Some (CB_E_NONE, cb')"
    unfolding cb_rem_def Let_def c cb_rem_bounds [OF S(1,2) E] u_def [symmetric] v_def [symmetric]
    by (simp only: if_False scan1 scan2 sh(1,3) mid Option.bind.bind_lunit prod.case cb'_def)
  have n: "unat (cb_start cb) = s" "unat (cb_size cb) = n"
    using cb_wf_sint [OF wf] c(2,3) by linarith+
  have sz: "unat (cb_size cb - 1) = n - 1"
    using n p(1) by (subst unat_pred_u32) simp_all
  have "unat ((cb_end cb - 1 + of_nat N) mod of_nat N) = ((s + n) mod N + (N - 1)) mod N"
    using cb_wfD [OF wf] n by (subst unat_wrap_pred) simp_all
  also have "\<dots> = (s + n + (N - 1)) mod N"
    by (simp add: mod_add_left_eq)
  also have "s + n + (N - 1) = (s + (n - 1)) + N"
    using p(1) S(1) by linarith
  finally have "unat ((cb_end cb - 1 + of_nat N) mod of_nat N) = (s + (n - 1)) mod N"
    by simp
  then have wf': "cb_wf N cb'"
    using S sh(4) n by (simp add: cb_wf_def cb'_def sz)
  have nth': "cb_list N cb' ! k = b3 ! ((s + k) mod N)" if "k < n - 1" for k
    using that by (simp add: cb'_def sz n)
  have nth: "cb_list N cb ! k = b ! ((s + k) mod N)" if "k < n" for k
    using that by (simp add: n c)
  have "cb_list N cb' = take p (cb_list N cb) @ drop (Suc p) (cb_list N cb)"
    using p(1) nth' nth b3 by (intro drop_position) (simp_all add: cb'_def sz n c)
  also have "\<dots> = remove1 val (cb_list N cb)"
    using p first n by (intro remove1_at [symmetric]) simp_all
  finally show ?thesis using rem wf' by blast
qed

section \<open>The contract the users of a buffer rely on\<close>

text \<open>
  What the kernel's tid tracker, send queues and event queues and the servers' queues use of a
  buffer: a FIFO queue of bounded capacity, whose \<open>push\<close> refuses when full and whose \<open>pop\<close>
  refuses when empty, without changing it.
\<close>

locale bounded_fifo =
  fixes cap :: nat
    and wf :: "'q \<Rightarrow> bool"
    and items :: "'q \<Rightarrow> 'a list"
    and push :: "'a \<Rightarrow> 'q \<Rightarrow> (cb_code \<times> 'q) option"
    and pop :: "'q \<Rightarrow> (cb_code \<times> 'a option \<times> 'q) option"
  assumes bound: "wf q \<Longrightarrow> length (items q) \<le> cap"
    and push_room: "wf q \<Longrightarrow> length (items q) < cap \<Longrightarrow>
      \<exists>q'. push x q = Some (CB_E_NONE, q') \<and> wf q' \<and> items q' = items q @ [x]"
    and push_full: "wf q \<Longrightarrow> length (items q) = cap \<Longrightarrow> push x q = Some (CB_E_FULL, q)"
    and pop_some: "wf q \<Longrightarrow> items q \<noteq> [] \<Longrightarrow>
      \<exists>q'. pop q = Some (CB_E_NONE, Some (hd (items q)), q') \<and> wf q' \<and> items q' = tl (items q)"
    and pop_none: "wf q \<Longrightarrow> items q = [] \<Longrightarrow> pop q = Some (CB_E_EMPTY, None, q)"
begin

lemma push_returns: "wf q \<Longrightarrow> \<exists>r q'. push x q = Some (r, q') \<and> wf q'"
  using push_room push_full bound by (metis le_neq_implies_less)

lemma push_NONE:
  "wf q \<Longrightarrow> push x q = Some (CB_E_NONE, q') \<Longrightarrow>
    wf q' \<and> items q' = items q @ [x] \<and> length (items q) < cap"
  using push_room [of q x] push_full [of q x] bound [of q] by (cases "length (items q) < cap") auto

lemma push_not_NONE:
  "wf q \<Longrightarrow> push x q = Some (r, q') \<Longrightarrow> r \<noteq> CB_E_NONE \<Longrightarrow>
    q' = q \<and> r = CB_E_FULL \<and> length (items q) = cap"
  using push_room [of q x] push_full [of q x] bound [of q] by (cases "length (items q) < cap") auto

lemma pop_NONE:
  "wf q \<Longrightarrow> pop q = Some (CB_E_NONE, x, q') \<Longrightarrow>
    wf q' \<and> items q = the x # items q' \<and> x = Some (the x)"
  using pop_some [of q] pop_none [of q] by (cases "items q") auto

lemma pop_cases:
  "wf q \<Longrightarrow> pop q = Some (r, x, q') \<Longrightarrow>
    (r = CB_E_EMPTY \<and> x = None \<and> q' = q \<and> items q = []) \<or>
    (r = CB_E_NONE \<and> wf q' \<and> (\<exists>y. x = Some y \<and> items q = y # items q'))"
  using pop_some [of q] pop_none [of q] by (cases "items q") auto

end

interpretation cbq: bounded_fifo N "cb_wf N" "cb_list N" "cb_push N" "cb_pop N" for N
proof unfold_locales
  fix q :: "'a cbuf" and x :: 'a
  assume wf: "cb_wf N q"
  show "length (cb_list N q) \<le> N"
    using cb_wfD(5) [OF wf] by simp
  show "\<exists>q'. cb_push N x q = Some (CB_E_NONE, q') \<and> cb_wf N q' \<and> cb_list N q' = cb_list N q @ [x]"
    if "length (cb_list N q) < N"
    using cb_push_ok [OF wf that] by blast
  show "cb_push N x q = Some (CB_E_FULL, q)" if "length (cb_list N q) = N"
    using cb_push_full [OF wf that] .
  show "\<exists>q'. cb_pop N q = Some (CB_E_NONE, Some (hd (cb_list N q)), q') \<and> cb_wf N q' \<and>
      cb_list N q' = tl (cb_list N q)" if "cb_list N q \<noteq> []"
    using cb_pop_ok [OF wf that] by blast
  show "cb_pop N q = Some (CB_E_EMPTY, None, q)" if "cb_list N q = []"
    using cb_pop_empty [OF that] .
qed

text \<open>The buffers of \<^verbatim>\<open>EXT_CIRCULAR_BUFFER_DEF\<close> in addition give up their last element, an element by
  its place, and an element by its value.\<close>

locale indexed_fifo = bounded_fifo +
  fixes pop_end :: "'a \<Rightarrow> (cb_code \<times> 'b option \<times> 'a) option"
    and get :: "int \<Rightarrow> 'a \<Rightarrow> (cb_code \<times> 'b option) option"
    and rem :: "'b \<Rightarrow> 'a \<Rightarrow> (cb_code \<times> 'a) option"
  assumes pop_end_some: "wf q \<Longrightarrow> items q \<noteq> [] \<Longrightarrow>
      \<exists>q'. pop_end q = Some (CB_E_NONE, Some (last (items q)), q') \<and> wf q' \<and> items q' = butlast (items q)"
    and get_nth: "wf q \<Longrightarrow> i < length (items q) \<Longrightarrow> get (int i) q = Some (CB_E_NONE, Some (items q ! i))"
    and rem_found: "wf q \<Longrightarrow> x \<in> set (items q) \<Longrightarrow>
      \<exists>q'. rem x q = Some (CB_E_NONE, q') \<and> wf q' \<and> items q' = remove1 x (items q)"
    and rem_missing: "wf q \<Longrightarrow> x \<notin> set (items q) \<Longrightarrow> \<exists>r. r \<noteq> CB_E_NONE \<and> rem x q = Some (r, q)"
begin

lemma rem_cases:
  "wf q \<Longrightarrow> rem x q = Some (r, q') \<Longrightarrow>
    (r = CB_E_NONE \<and> x \<in> set (items q) \<and> wf q' \<and> items q' = remove1 x (items q)) \<or>
    (r \<noteq> CB_E_NONE \<and> x \<notin> set (items q) \<and> q' = q)"
  using rem_found [of q x] rem_missing [of q x] by (cases "x \<in> set (items q)") auto

lemma pop_then_push:
  assumes "wf p" "wf q" "items p \<noteq> []" "length (items q) < cap"
  shows "\<exists>p' q'. pop p = Some (CB_E_NONE, Some (hd (items p)), p') \<and> wf p' \<and> items p' = tl (items p) \<and>
    push (hd (items p)) q = Some (CB_E_NONE, q') \<and> wf q' \<and> items q' = items q @ [hd (items p)]"
  using pop_some [OF assms(1,3)] push_room [OF assms(2,4), of "hd (items p)"] by blast

end

section \<open>The contract, for the code's buffers\<close>

interpretation cbx: indexed_fifo N "cb_wf N" "cb_list N" "cb_push N" "cb_pop N" "cb_pop_end N" "cb_get N" "cb_rem N" for N
proof unfold_locales
  fix q :: "'a cbuf" and x :: 'a
  assume wf: "cb_wf N q"
  show "\<exists>q'. cb_pop_end N q = Some (CB_E_NONE, Some (last (cb_list N q)), q') \<and> cb_wf N q' \<and>
      cb_list N q' = butlast (cb_list N q)" if "cb_list N q \<noteq> []"
    using cb_pop_end_ok [OF wf that] by blast
  show "cb_get N (int i) q = Some (CB_E_NONE, Some (cb_list N q ! i))" if "i < length (cb_list N q)" for i
    using cb_get_nth [OF wf, of i] that by simp
  show "\<exists>q'. cb_rem N x q = Some (CB_E_NONE, q') \<and> cb_wf N q' \<and> cb_list N q' = remove1 x (cb_list N q)"
    if "x \<in> set (cb_list N q)"
    using cb_rem_found [OF wf that] by blast
  show "\<exists>r. r \<noteq> CB_E_NONE \<and> cb_rem N x q = Some (r, q)" if "x \<notin> set (cb_list N q)"
    using cb_rem_missing [OF wf _ that] cb_rem_empty [of N q x] by (cases "cb_list N q = []") auto
qed

text \<open>A buffer that holds given elements, for the examples.\<close>

definition cb_example :: "u32 cbuf" where
  "cb_example = \<lparr>cb_buf = [5, 6, 3, 4], cb_start = 2, cb_end = 2, cb_size = 4\<rparr>"

lemma cb_example_wf: "cb_wf 4 cb_example" "cb_list 4 cb_example = [3, 4, 5, 6]"
  by (simp_all add: cb_wf_def cb_list_def cb_example_def upt_rec)

text \<open>C11: A circular buffer of capacity \<open>N\<close> is a bounded queue. Push appends, or reports \<^verbatim>\<open>CB_E_FULL\<close> and changes
  nothing exactly when \<open>N\<close> elements are in it; pop and top give the first element, pop\_end the last, or \<^verbatim>\<open>CB_E_EMPTY\<close>
  when there is none; get gives the element at any position, across the wrap-around of the indices,
  and \<^verbatim>\<open>CB_E_DNE\<close> beyond the last.\<close>

theorem circular_buffer_fifo:
  assumes "cb_wf N cb"
  shows "(if length (cb_list N cb) = N then cb_push N x cb = Some (CB_E_FULL, cb)
      else \<exists>cb'. cb_push N x cb = Some (CB_E_NONE, cb') \<and> cb_wf N cb' \<and> cb_list N cb' = cb_list N cb @ [x]) \<and>
    (case cb_list N cb of
       [] \<Rightarrow> cb_pop N cb = Some (CB_E_EMPTY, None, cb) \<and> cb_top cb = Some (CB_E_EMPTY, None) \<and>
             cb_pop_end N cb = Some (CB_E_EMPTY, None, cb)
     | y # ys \<Rightarrow> cb_top cb = Some (CB_E_NONE, Some y) \<and>
         (\<exists>cb'. cb_pop N cb = Some (CB_E_NONE, Some y, cb') \<and> cb_wf N cb' \<and> cb_list N cb' = ys) \<and>
         (\<exists>cb'. cb_pop_end N cb = Some (CB_E_NONE, Some (last (y # ys)), cb') \<and> cb_wf N cb' \<and>
            cb_list N cb' = butlast (y # ys))) \<and>
    (\<forall>i. cb_get N (int i) cb = Some (if i < length (cb_list N cb) then (CB_E_NONE, Some (cb_list N cb ! i))
       else (CB_E_DNE, None)))"
proof (intro conjI allI)
  show "if length (cb_list N cb) = N then cb_push N x cb = Some (CB_E_FULL, cb)
      else \<exists>cb'. cb_push N x cb = Some (CB_E_NONE, cb') \<and> cb_wf N cb' \<and> cb_list N cb' = cb_list N cb @ [x]"
    using cbq.push_full [OF assms, of x] cbq.push_room [OF assms, of x] cbq.bound [OF assms]
    by (metis le_neq_implies_less)
  show "case cb_list N cb of
       [] \<Rightarrow> cb_pop N cb = Some (CB_E_EMPTY, None, cb) \<and> cb_top cb = Some (CB_E_EMPTY, None) \<and>
             cb_pop_end N cb = Some (CB_E_EMPTY, None, cb)
     | y # ys \<Rightarrow> cb_top cb = Some (CB_E_NONE, Some y) \<and>
         (\<exists>cb'. cb_pop N cb = Some (CB_E_NONE, Some y, cb') \<and> cb_wf N cb' \<and> cb_list N cb' = ys) \<and>
         (\<exists>cb'. cb_pop_end N cb = Some (CB_E_NONE, Some (last (y # ys)), cb') \<and> cb_wf N cb' \<and>
            cb_list N cb' = butlast (y # ys))"
    using cb_pop_ok [OF assms] cb_top_ok [OF assms] cb_pop_end_ok [OF assms]
    by (cases "cb_list N cb") (simp_all add: cb_pop_empty cb_top_empty cb_pop_end_empty)
  show "cb_get N (int i) cb = Some (if i < length (cb_list N cb) then (CB_E_NONE, Some (cb_list N cb ! i))
       else (CB_E_DNE, None))" for i
    by (rule cb_get_nth [OF assms])
qed

theorem circular_buffer_fifo_witness:
  "cb_push 4 7 cb_example = Some (CB_E_FULL, cb_example) \<and> cb_top cb_example = Some (CB_E_NONE, Some 3) \<and>
   cb_get 4 2 cb_example = Some (CB_E_NONE, Some 5)"
  using circular_buffer_fifo [OF cb_example_wf(1), of 7]
  by (auto simp: cb_example_wf(2) dest: spec [of _ "2::nat"])

text \<open>Removing a value from a circular buffer removes its first occurrence in queue order and keeps the order
  of the others, wherever the two shifting loops meet the wrap-around; it reports \<^verbatim>\<open>CB_E_DNE\<close>
  or \<^verbatim>\<open>CB_E_EMPTY\<close> and changes nothing when the value is not there.\<close>

theorem circular_buffer_rem:
  assumes "cb_wf N cb"
  shows "if x \<in> set (cb_list N cb)
    then \<exists>cb'. cb_rem N x cb = Some (CB_E_NONE, cb') \<and> cb_wf N cb' \<and> cb_list N cb' = remove1 x (cb_list N cb)
    else cb_rem N x cb = Some (if cb_list N cb = [] then CB_E_EMPTY else CB_E_DNE, cb)"
  using cb_rem_found [OF assms] cb_rem_missing [OF assms] cb_rem_empty by auto

theorem circular_buffer_rem_witness:
  "\<exists>cb'. cb_rem 4 5 cb_example = Some (CB_E_NONE, cb') \<and> cb_list 4 cb' = [3, 4, 6]"
  using circular_buffer_rem [OF cb_example_wf(1), of 5] by (auto simp: cb_example_wf(2))

end
