(* ===== verification/Tasks.thy ===== *)
theory Tasks
  imports CircBuf
begin

text \<open>
  The kernel's task data: the constants of include/defines.h and include/types.h, the task
  descriptor of include/lib/task/task.h, its initialisation and the task metrics of
  src/lib/task/task.c. A \<^verbatim>\<open>TaskDescriptor *\<close> always points into the kernel's array
  \<^verbatim>\<open>tasks[MAX_TASK]\<close>: it is modelled by its index, \<open>None\<close> being \<^verbatim>\<open>NULL\<close>.
\<close>

section \<open>Constants and enumerations\<close>

abbreviation MAX_TASK :: nat where "MAX_TASK \<equiv> 128"
abbreviation MAX_PRIORITY :: nat where "MAX_PRIORITY \<equiv> 32"
abbreviation NS_MAX_ENTRY :: nat where "NS_MAX_ENTRY \<equiv> 64"
abbreviation INTERRUPT_SIZE :: nat where "INTERRUPT_SIZE \<equiv> 1024"

(* src/include/defines.h:22-22 *)
definition USER_STACK_BASE :: u32 where "USER_STACK_BASE = 0x02000000"

(* src/include/defines.h:25-25 *)
definition USER_STACK_SIZE :: u32 where "USER_STACK_SIZE = 0x3c000"
definition USER_MODE :: u32 where "USER_MODE = 16"

text \<open>\<^verbatim>\<open>TID_ID\<close> of include/types.h, and the debug checks of include/debug/debug.h.\<close>

(* src/include/types.h:52-52 *)
definition TID_ID :: "u32 \<Rightarrow> u32" where
  "TID_ID tid = tid AND 0xffff"

(* src/include/debug/debug.h:65-65 *)
definition IS_VALID_ID :: "u32 \<Rightarrow> bool" where
  "IS_VALID_ID tid \<longleftrightarrow> 0 \<le> sint tid \<and> sint tid < int MAX_TASK"

(* src/include/debug/debug.h:67-67 *)
definition IS_VALID_TID :: "u32 \<Rightarrow> bool" where
  "IS_VALID_TID tid \<longleftrightarrow> 0 \<le> sint (TID_ID tid) \<and> sint (TID_ID tid) < int MAX_TASK"

(* src/include/debug/debug.h:64-64 *)
definition IS_VALID_USER_P :: "u32 \<Rightarrow> u32 \<Rightarrow> bool" where
  "IS_VALID_USER_P tid sp \<longleftrightarrow>
     USER_STACK_BASE - (TID_ID tid + 1) * USER_STACK_SIZE \<le> sp \<and>
     sp \<le> USER_STACK_BASE - TID_ID tid * USER_STACK_SIZE"

(* src/include/debug/debug.h:75-75 *)
definition IS_VALID_PRIORITY :: "int \<Rightarrow> bool" where
  "IS_VALID_PRIORITY p \<longleftrightarrow> 0 \<le> p \<and> p < 32"

(* src/include/lib/task/task.h:16-25 *)
datatype TaskStatus = TS_ACTIVE | TS_READY | TS_BLOCKED | TS_UNINIT | TS_ZOMBIE
  | TS_RCV_BL | TS_SND_BL | TS_RPL_BL

text \<open>The software interrupt numbers; \<open>TR_OTHER\<close> is any value outside the enumeration.\<close>

(* src/include/lib/task/task.h:28-49 *)
datatype TaskRequest = TR_PASS | TR_BLOCK | TR_CREATE | TR_MY_TID | TR_MY_PARENT_TID | TR_EXIT
  | TR_ASSERT | TR_SEND | TR_RECEIVE | TR_REPLY | TR_NS_REG | TR_NS_GET | TR_IRQ | TR_AWAIT_EVENT
  | TR_CREATE_W_ARGS | TR_HALT | TR_INFO_NPROC | TR_INFO_MEM | TR_INFO_CPU | TR_INFO_TASK
  | TR_OTHER u32

(* src/include/lib/task/task.h:51-54 *)
datatype InterruptType = IT_SWI | IT_IRQ

section \<open>The task descriptor\<close>

(* src/include/lib/task/task.h:57-80 *)
record TaskDescriptor =
  td_tid :: u32
  td_sp :: u32
  td_stack_base :: u32
  td_psr :: u32
  td_task :: u32
  td_status :: TaskStatus
  td_it :: InterruptType
  td_parent :: "nat option"
  td_next :: "nat option"
  td_priority :: int
  td_send_q :: "u32 cbuf"
  td_ret :: u32
  td_start_time :: u32
  td_running_time :: u32
  td_end_time :: u32

(* src/src/lib/task/task.c:36-47 *)
definition td_init :: "TaskDescriptor \<Rightarrow> TaskDescriptor" where
  "td_init td = td\<lparr>td_tid := 0, td_sp := 0, td_psr := 0, td_task := 0, td_status := TS_UNINIT,
     td_it := IT_SWI, td_stack_base := 0, td_parent := None, td_priority := 1,
     td_send_q := cb_init (td_send_q td)\<rparr>"

section \<open>Task metrics\<close>

definition TM_CLOCK_VALUE :: u32 where "TM_CLOCK_VALUE = 0xffffffff"

text \<open>\<^verbatim>\<open>tm_delta\<close>: timer 3 counts down; \<^verbatim>\<open>st\<close> and \<^verbatim>\<open>et\<close> are its values before and after the task ran,
  compared as \<^verbatim>\<open>int\<close>. \<^verbatim>\<open>st + TM_CLOCK_VALUE - et\<close> is unsigned arithmetic.\<close>

(* src/src/lib/task/task.c:64-75 *)
definition tm_delta :: "u32 \<Rightarrow> u32 \<Rightarrow> TaskDescriptor \<Rightarrow> TaskDescriptor" where
  "tm_delta st et td =
     (let delta = (if sint st < sint et then st + TM_CLOCK_VALUE - et else st - et)
      in td\<lparr>td_running_time := td_running_time td + delta, td_end_time := et\<rparr>)"

section \<open>The tid tracker\<close>

(* src/include/lib/task/task.h:91-93 *)
record TidTracker =
  tt_cb :: "u32 cbuf"

(* src/src/lib/task/task.c:32-34 *)
definition tt_size :: "TidTracker \<Rightarrow> int" where
  "tt_size tt = sint (cb_size (tt_cb tt))"

text \<open>The loop of \<^verbatim>\<open>tt_init\<close>: each id of the list is pushed, and the push must succeed.\<close>

(* src/src/lib/task/task.c:7-10 *)
fun tt_push_all :: "nat list \<Rightarrow> u32 cbuf \<Rightarrow> u32 cbuf option" where
  "tt_push_all [] cb = Some cb"
| "tt_push_all (i # is) cb = do {
     (r, cb') \<leftarrow> cb_push MAX_TASK (of_nat i) cb;
     kassert (r = CB_E_NONE);
     tt_push_all is cb' }"

(* src/src/lib/task/task.c:3-11 *)
definition tt_init :: "TidTracker \<Rightarrow> TidTracker option" where
  "tt_init tt = do {
     cb \<leftarrow> tt_push_all [0..<MAX_TASK] (cb_init (tt_cb tt));
     Some (tt\<lparr>tt_cb := cb\<rparr>) }"

(* src/src/lib/task/task.c:13-22 *)
definition tt_get :: "TidTracker \<Rightarrow> (u32 \<times> TidTracker) option" where
  "tt_get tt =
     (if tt_size tt \<le> 0 then Some (- 2, tt)
      else do {
        (r, x, cb) \<leftarrow> cb_pop MAX_TASK (tt_cb tt);
        kassert (r = CB_E_NONE);
        tid \<leftarrow> x;
        Some (tid, tt\<lparr>tt_cb := cb\<rparr>) })"

(* src/src/lib/task/task.c:24-30 *)
definition tt_return :: "u32 \<Rightarrow> TidTracker \<Rightarrow> TidTracker option" where
  "tt_return tid tt = do {
     (r, cb) \<leftarrow> cb_push MAX_TASK (tid + push_bit 16 1) (tt_cb tt);
     kassert (r = CB_E_NONE);
     Some (tt\<lparr>tt_cb := cb\<rparr>) }"

section \<open>Lemmas on tids\<close>

lemma unat_TID_ID: "unat (TID_ID tid) = unat tid mod 65536"
proof -
  have "(0xffff :: u32) = mask 16"
    by (simp add: mask_eq_exp_minus_1)
  then have "TID_ID tid = take_bit 16 tid"
    by (simp only: TID_ID_def take_bit_eq_mask)
  then have "unat (TID_ID tid) = take_bit 16 (unat tid)"
    by (simp only: unsigned_take_bit_eq)
  then show ?thesis
    by (simp add: take_bit_eq_mod)
qed

lemma unat_TID_ID_less: "unat (TID_ID tid) < 65536"
  by (simp add: unat_TID_ID)

text \<open>The version counter in the upper half of a tid does not change its id.\<close>

lemma TID_ID_next_version [simp]: "TID_ID (tid + 65536) = TID_ID tid"
proof -
  have "unat (tid + 65536) mod 65536 = unat tid mod 65536"
    by (simp add: unat_word_ariths mod_mod_cancel)
  then show ?thesis
    by (metis unat_TID_ID word_unat_eq_iff)
qed

lemma TID_ID_TID_ID [simp]: "TID_ID (TID_ID tid) = TID_ID tid"
  by (simp add: TID_ID_def and.assoc)

lemma TID_ID_of_nat: "i < 65536 \<Longrightarrow> unat (TID_ID (of_nat i)) = i"
  by (simp add: unat_TID_ID unat_of_nat)

lemma IS_VALID_ID_TID_ID: "IS_VALID_ID (TID_ID tid) \<longleftrightarrow> unat (TID_ID tid) < MAX_TASK"
  using unat_TID_ID_less [of tid] by (simp add: IS_VALID_ID_def sint_u32_int del: of_nat_unat)

section \<open>The tid tracker is a queue of free tids\<close>

definition tt_wf :: "TidTracker \<Rightarrow> bool" where
  "tt_wf tt \<longleftrightarrow> cb_wf MAX_TASK (tt_cb tt)"

definition tt_tids :: "TidTracker \<Rightarrow> u32 list" where
  "tt_tids tt = cb_list MAX_TASK (tt_cb tt)"

lemma tt_size_length: "tt_wf tt \<Longrightarrow> tt_size tt = int (length (tt_tids tt))"
  by (simp add: tt_wf_def tt_size_def tt_tids_def cb_wf_sint(2) del: of_nat_unat)

lemma tt_push_all_ok:
  "cb_wf MAX_TASK cb \<Longrightarrow> length (cb_list MAX_TASK cb) + length is \<le> MAX_TASK \<Longrightarrow>
   \<exists>cb'. tt_push_all is cb = Some cb' \<and> cb_wf MAX_TASK cb' \<and>
     cb_list MAX_TASK cb' = cb_list MAX_TASK cb @ map of_nat is"
proof (induction "is" arbitrary: cb)
  case Nil
  then show ?case by simp
next
  case (Cons i "is")
  obtain cb1 where c: "cb_push MAX_TASK (of_nat i) cb = Some (CB_E_NONE, cb1)"
    "cb_wf MAX_TASK cb1" "cb_list MAX_TASK cb1 = cb_list MAX_TASK cb @ [of_nat i]"
    using cb_push_ok [OF Cons.prems(1), of "of_nat i"] Cons.prems(2) by auto
  have "length (cb_list MAX_TASK cb1) + length is \<le> MAX_TASK"
    using c(3) Cons.prems(2) by (simp del: length_cb_list)
  from Cons.IH [OF c(2) this] c show ?case by auto
qed

lemma tt_init_ok:
  assumes "length (cb_buf (tt_cb tt)) = MAX_TASK"
  shows "\<exists>tt'. tt_init tt = Some tt' \<and> tt_wf tt' \<and> tt_tids tt' = map of_nat [0..<MAX_TASK]"
  using tt_push_all_ok [OF cb_init_wf, of "tt_cb tt" "[0..<MAX_TASK]"] assms
  by (auto simp: tt_init_def tt_wf_def tt_tids_def)

lemma tt_get_empty: "tt_wf tt \<Longrightarrow> tt_tids tt = [] \<Longrightarrow> tt_get tt = Some (- 2, tt)"
  by (simp add: tt_get_def tt_size_length)

lemma tt_get_ok:
  assumes "tt_wf tt" "tt_tids tt = tid # tids"
  shows "\<exists>tt'. tt_get tt = Some (tid, tt') \<and> tt_wf tt' \<and> tt_tids tt' = tids"
  using cb_pop_ok [of MAX_TASK "tt_cb tt"] assms tt_size_length [OF assms(1)]
  by (auto simp: tt_get_def tt_wf_def tt_tids_def)

lemma tt_return_ok:
  assumes "tt_wf tt" "length (tt_tids tt) < MAX_TASK"
  shows "\<exists>tt'. tt_return tid tt = Some tt' \<and> tt_wf tt' \<and>
    tt_tids tt' = tt_tids tt @ [tid + 65536]"
  using cb_push_ok [of MAX_TASK "tt_cb tt" "tid + 65536"] assms
  by (auto simp: tt_return_def tt_wf_def tt_tids_def push_bit_eq_mult)

lemma tt_return_full:
  assumes "tt_wf tt" "length (tt_tids tt) = MAX_TASK"
  shows "tt_return tid tt = None"
  using cb_push_full [of MAX_TASK "tt_cb tt"] assms
  by (simp add: tt_return_def tt_wf_def tt_tids_def)

end
