(* ===== verification/TaskQueue.thy ===== *)
theory TaskQueue
  imports Tasks
begin

text \<open>
  src/lib/task/task_queue.c: singly linked queues of task descriptors, linked through
  the descriptors' own \<^verbatim>\<open>next\<close> fields. The queue is a head, a tail and a size over the shared
  array \<^verbatim>\<open>tasks\<close>; an operation takes the array and returns it updated. \<open>tq_rep ts tq xs\<close> says that
  in the array \<open>ts\<close> the queue \<open>tq\<close> holds the descriptors \<open>xs\<close>, first to last.
\<close>

section \<open>The queue and its operations\<close>

type_synonym tds = "TaskDescriptor list"

(* src/include/lib/task/task_queue.h:18-22 *)
record task_queue =
  tq_head :: "nat option"
  tq_tail :: "nat option"
  tq_size :: int

(* src/include/lib/task/task_queue.h:8-15 *)
datatype tq_code = ETQ_NONE | ETQ_FULL | ETQ_EMPTY

(* src/src/lib/task/task_queue.c:3-7 *)
definition tq_init :: "task_queue \<Rightarrow> task_queue" where
  "tq_init tq = tq\<lparr>tq_head := None, tq_tail := None, tq_size := 0\<rparr>"

text \<open>\<^verbatim>\<open>p->next = v\<close>; through a null pointer it is a fault.\<close>

definition set_next :: "nat option \<Rightarrow> nat option \<Rightarrow> tds \<Rightarrow> tds option" where
  "set_next p v ts = do {
     t \<leftarrow> p;
     td \<leftarrow> aget ts t;
     aset ts t (td\<lparr>td_next := v\<rparr>) }"

(* src/src/lib/task/task_queue.c:9-20 *)
definition tq_push :: "task_queue \<Rightarrow> nat \<Rightarrow> tds \<Rightarrow> (tq_code \<times> task_queue \<times> tds) option" where
  "tq_push tq t ts =
     (if 0 < tq_size tq then do {
        ts' \<leftarrow> set_next (tq_tail tq) (Some t) ts;
        Some (ETQ_NONE, tq\<lparr>tq_tail := Some t, tq_size := tq_size tq + 1\<rparr>, ts')
      }
      else Some (ETQ_NONE,
        tq\<lparr>tq_head := Some t, tq_tail := Some t, tq_size := tq_size tq + 1\<rparr>, ts))"

text \<open>\<^verbatim>\<open>tq_pop\<close> returns its code with the popped pointer \<^verbatim>\<open>*t\<close> (\<open>None\<close> when it is not written).\<close>

(* src/src/lib/task/task_queue.c:22-38 *)
definition tq_pop :: "task_queue \<Rightarrow> tds \<Rightarrow> (tq_code \<times> nat option \<times> task_queue \<times> tds) option" where
  "tq_pop tq ts =
     (if tq_size tq < 1 then Some (ETQ_EMPTY, None, tq, ts)
      else do {
        t \<leftarrow> tq_head tq;
        td \<leftarrow> aget ts t;
        ts' \<leftarrow> set_next (Some t) None ts;
        let size = tq_size tq - 1;
            head = (if size = 0 then None else td_next td);
            tail = (if size = 0 then None else tq_tail tq);
            tail' = (if size \<le> 1 then head else tail) in
        Some (ETQ_NONE, Some t, \<lparr>tq_head = head, tq_tail = tail', tq_size = size\<rparr>, ts')
      })"

section \<open>The list a queue stands for\<close>

text \<open>\<open>tq_seg ts p xs\<close>: following \<^verbatim>\<open>next\<close> from \<open>p\<close> visits \<open>xs\<close>. The \<^verbatim>\<open>next\<close> of the last
  descriptor is not constrained: the code goes by the size.\<close>

fun tq_seg :: "tds \<Rightarrow> nat option \<Rightarrow> nat list \<Rightarrow> bool" where
  "tq_seg ts p [] = True"
| "tq_seg ts p (x # xs) = (p = Some x \<and> x < length ts \<and> tq_seg ts (td_next (ts ! x)) xs)"

definition tq_rep :: "tds \<Rightarrow> task_queue \<Rightarrow> nat list \<Rightarrow> bool" where
  "tq_rep ts tq xs \<longleftrightarrow>
     distinct xs \<and> tq_size tq = int (length xs) \<and> tq_seg ts (tq_head tq) xs \<and>
     (xs \<noteq> [] \<longrightarrow> tq_tail tq = Some (last xs))"

lemma tq_seg_in_bounds: "tq_seg ts p xs \<Longrightarrow> x \<in> set xs \<Longrightarrow> x < length ts"
proof (induction xs arbitrary: p)
  case Nil
  then show ?case by simp
next
  case (Cons y ys)
  show ?case
  proof (cases "x = y")
    case True
    then show ?thesis using Cons.prems by simp
  next
    case False
    have "tq_seg ts (td_next (ts ! y)) ys"
      using Cons.prems by simp
    moreover have "x \<in> set ys"
      using Cons.prems False by simp
    ultimately show ?thesis
      by (rule Cons.IH)
  qed
qed

lemma tq_rep_in_bounds: "tq_rep ts tq xs \<Longrightarrow> x \<in> set xs \<Longrightarrow> x < length ts"
  by (auto simp: tq_rep_def intro: tq_seg_in_bounds)

text \<open>Only the \<^verbatim>\<open>next\<close> fields of the members matter.\<close>

lemma tq_seg_cong:
  "length ts' = length ts \<Longrightarrow> (\<And>x. x \<in> set xs \<Longrightarrow> td_next (ts' ! x) = td_next (ts ! x)) \<Longrightarrow>
   tq_seg ts' p xs = tq_seg ts p xs"
  by (induction xs arbitrary: p) simp_all

lemma tq_rep_cong:
  "length ts' = length ts \<Longrightarrow> (\<And>x. x \<in> set xs \<Longrightarrow> td_next (ts' ! x) = td_next (ts ! x)) \<Longrightarrow>
   tq_rep ts' tq xs = tq_rep ts tq xs"
  by (simp add: tq_rep_def tq_seg_cong [of ts' ts xs])

lemma tq_seg_snoc:
  "tq_seg ts p xs \<Longrightarrow> xs \<noteq> [] \<Longrightarrow> distinct xs \<Longrightarrow> y \<notin> set xs \<Longrightarrow> y < length ts \<Longrightarrow>
   tq_seg (ts[last xs := (ts ! last xs)\<lparr>td_next := Some y\<rparr>]) p (xs @ [y])"
proof (induction ts p xs rule: tq_seg.induct)
  case (1 ts p)
  then show ?case by simp
next
  case (2 ts p x xs)
  show ?case
  proof (cases "xs = []")
    case True
    with "2.prems" show ?thesis by simp
  next
    case False
    then have "last xs \<noteq> x" using "2.prems"(3) last_in_set [of xs] by auto
    with 2 False show ?thesis by simp
  qed
qed

lemma tq_init_rep: "tq_rep ts (tq_init tq) []"
  by (simp add: tq_rep_def tq_init_def)

lemma tq_push_rep:
  assumes rep: "tq_rep ts tq xs" and y: "y \<notin> set xs" "y < length ts"
  shows "\<exists>tq' ts'. tq_push tq y ts = Some (ETQ_NONE, tq', ts') \<and> tq_rep ts' tq' (xs @ [y]) \<and>
    length ts' = length ts \<and> (\<forall>i. ts' ! i = ts ! i \<or> i \<in> set xs \<and> ts' ! i = (ts ! i)\<lparr>td_next := Some y\<rparr>)"
proof (cases "xs = []")
  case True
  with rep y show ?thesis by (simp add: tq_push_def tq_rep_def)
next
  case False
  let ?l = "last xs"
  have l: "?l \<in> set xs" "?l < length ts" "tq_tail tq = Some ?l" "0 < tq_size tq"
    using False rep tq_rep_in_bounds [OF rep, of ?l] by (auto simp: tq_rep_def)
  let ?ts = "ts[?l := (ts ! ?l)\<lparr>td_next := Some y\<rparr>]"
  have "tq_seg ?ts (tq_head tq) (xs @ [y])"
    using rep y False by (intro tq_seg_snoc) (auto simp: tq_rep_def)
  moreover have "?ts ! i = ts ! i \<or> i \<in> set xs \<and> ?ts ! i = (ts ! i)\<lparr>td_next := Some y\<rparr>" for i
    using l by (cases "i = ?l") auto
  ultimately show ?thesis
    using l y rep by (simp add: tq_push_def set_next_def tq_rep_def)
qed

lemma tq_pop_empty: "tq_rep ts tq [] \<Longrightarrow> tq_pop tq ts = Some (ETQ_EMPTY, None, tq, ts)"
  by (simp add: tq_pop_def tq_rep_def)

lemma tq_pop_rep:
  assumes rep: "tq_rep ts tq (x # xs)"
  shows "\<exists>tq'. tq_pop tq ts = Some (ETQ_NONE, Some x, tq', ts[x := (ts ! x)\<lparr>td_next := None\<rparr>]) \<and>
    tq_rep (ts[x := (ts ! x)\<lparr>td_next := None\<rparr>]) tq' xs \<and> x < length ts"
proof -
  let ?ts = "ts[x := (ts ! x)\<lparr>td_next := None\<rparr>]"
  have x: "x < length ts" "tq_head tq = Some x" "x \<notin> set xs" "distinct xs"
    "tq_size tq = 1 + int (length xs)"
    using rep by (auto simp: tq_rep_def)
  have seg: "tq_seg ts (td_next (ts ! x)) xs"
    using rep by (simp add: tq_rep_def)
  have "td_next (?ts ! z) = td_next (ts ! z)" if "z \<in> set xs" for z
    using that x(3) by (cases "z = x") simp_all
  then have "tq_seg ?ts (td_next (ts ! x)) xs"
    using seg by (simp add: tq_seg_cong [of ?ts ts xs])
  moreover have "tq_tail tq = Some (last xs)" if "xs \<noteq> []"
    using rep that by (simp add: tq_rep_def)
  moreover have "td_next (ts ! x) = Some (last xs)" if "length xs = 1"
    using seg that by (auto simp: length_Suc_conv)
  ultimately have rep': "tq_rep ?ts \<lparr>tq_head = (if xs = [] then None else td_next (ts ! x)),
      tq_tail = (if xs = [] then None else Some (last xs)), tq_size = int (length xs)\<rparr> xs"
    using x(4) by (simp add: tq_rep_def)
  show ?thesis
    using rep' x seg rep by (cases xs) (simp_all add: tq_pop_def set_next_def tq_rep_def Let_def)
qed

text \<open>Changing other fields of the descriptors does not disturb the queues.\<close>

definition same_links :: "tds \<Rightarrow> tds \<Rightarrow> bool" where
  "same_links ts ts' \<longleftrightarrow> map td_next ts = map td_next ts'"

lemma same_links_refl [simp]: "same_links ts ts"
  by (simp add: same_links_def)

lemma same_links_update:
  "t < length ts \<Longrightarrow> td_next td = td_next (ts ! t) \<Longrightarrow> same_links ts (ts[t := td])"
  by (simp add: same_links_def map_update) (metis list_update_id nth_map)

lemma same_linksD:
  assumes "same_links ts ts'"
  shows "length ts' = length ts" "i < length ts \<Longrightarrow> td_next (ts' ! i) = td_next (ts ! i)"
proof -
  show "length ts' = length ts"
    using assms unfolding same_links_def by (metis length_map)
  then show "td_next (ts' ! i) = td_next (ts ! i)" if "i < length ts"
    using assms that unfolding same_links_def by (metis nth_map)
qed

lemma same_links_tq_rep: "same_links ts ts' \<Longrightarrow> tq_rep ts tq xs \<Longrightarrow> tq_rep ts' tq xs"
  using tq_rep_cong [of ts' ts xs tq] tq_rep_in_bounds [of ts tq xs]
  by (simp add: same_linksD)

end
