(* ===== verification/ReadyQueue.thy ===== *)
theory ReadyQueue
  imports TaskQueue
begin

text \<open>
  src/lib/task/priority_queue.c: the ready queue, an array of \<^verbatim>\<open>MAX_PRIORITY\<close> task queues with a
  bit mask of those that are not empty, of which the highest set bit is found with
  \<^verbatim>\<open>__builtin_clz\<close>. \<open>pq_rep ts pq qs\<close> relates it to the abstract ready queue \<open>qs\<close>, one list of
  task indices for each priority. \<^verbatim>\<open>pq_dumb_pop\<close>, which searches the queues
  from the top, is the reference for \<^verbatim>\<open>pq_pop\<close>.
\<close>

section \<open>The queue and its operations\<close>

(* src/include/lib/task/priority_queue.h:10-14 *)
record priority_queue =
  pqs :: "task_queue list"
  pq_size :: int
  pq_state :: u32

(* src/include/lib/task/priority_queue.h:5-8 *)
datatype pq_code = PQ_NONE | PQ_ENOTFOUND | PQ_EMPTY | PQ_PRIORITY | PQ_TQ tq_code

(* src/src/lib/task/priority_queue.c:3-9 *)
definition pq_init :: "priority_queue \<Rightarrow> priority_queue" where
  "pq_init pq = pq\<lparr>pq_size := 0, pq_state := 0, pqs := map tq_init (pqs pq)\<rparr>"

text \<open>The guard lets \<^verbatim>\<open>priority == MAX_PRIORITY\<close> through; the access behind it is then out of
  bounds.\<close>

(* src/src/lib/task/priority_queue.c:11-17 *)
definition pq_push ::
  "priority_queue \<Rightarrow> int \<Rightarrow> nat \<Rightarrow> tds \<Rightarrow> (pq_code \<times> priority_queue \<times> tds) option" where
  "pq_push pq priority td ts =
     (if int MAX_PRIORITY < priority \<or> priority < 0 then Some (PQ_PRIORITY, pq, ts)
      else do {
        tq \<leftarrow> agetz (pqs pq) priority;
        (_, tq', ts') \<leftarrow> tq_push tq td ts;
        qs \<leftarrow> asetz (pqs pq) priority tq';
        Some (PQ_NONE, pq\<lparr>pqs := qs, pq_state := pq_state pq OR push_bit (nat priority) 1,
                          pq_size := pq_size pq + 1\<rparr>, ts')
      })"

text \<open>The search loop of \<^verbatim>\<open>pq_dumb_pop\<close>: \<open>i + 1\<close> iterations are left.\<close>

(* src/src/lib/task/priority_queue.c:22-30 *)
fun pq_dumb_loop ::
  "nat \<Rightarrow> priority_queue \<Rightarrow> tds \<Rightarrow> (pq_code \<times> nat option \<times> priority_queue \<times> tds) option" where
  "pq_dumb_loop 0 pq ts = Some (PQ_ENOTFOUND, None, pq, ts)"
| "pq_dumb_loop (Suc i) pq ts = do {
     tq \<leftarrow> aget (pqs pq) i;
     if 0 < tq_size tq then do {
       (_, t, tq', ts') \<leftarrow> tq_pop tq ts;
       qs \<leftarrow> aset (pqs pq) i tq';
       Some (PQ_NONE, t, pq\<lparr>pqs := qs, pq_size := pq_size pq - 1\<rparr>, ts') }
     else pq_dumb_loop i pq ts }"

(* src/src/lib/task/priority_queue.c:19-31 *)
definition pq_dumb_pop ::
  "priority_queue \<Rightarrow> tds \<Rightarrow> (pq_code \<times> nat option \<times> priority_queue \<times> tds) option" where
  "pq_dumb_pop pq ts =
     (if pq_size pq < 1 then Some (PQ_EMPTY, None, pq, ts)
      else pq_dumb_loop MAX_PRIORITY pq ts)"

text \<open>\<^verbatim>\<open>__builtin_clz\<close>: the number of leading zero bits; undefined on 0.\<close>

definition clz32 :: "u32 \<Rightarrow> nat option" where
  "clz32 w = (if w = 0 then None else Some (length (takeWhile (\<lambda>i. \<not> bit w i) (rev [0..<32]))))"

(* src/src/lib/task/priority_queue.c:36-52 *)
definition pq_pop ::
  "priority_queue \<Rightarrow> tds \<Rightarrow> (pq_code \<times> nat option \<times> priority_queue \<times> tds) option" where
  "pq_pop pq ts =
     (if pq_size pq < 1 then Some (PQ_EMPTY, None, pq, ts)
      else do {
        z \<leftarrow> clz32 (pq_state pq);
        let p = 31 - z;
        tq \<leftarrow> aget (pqs pq) p;
        (r, t, tq', ts') \<leftarrow> tq_pop tq ts;
        qs \<leftarrow> aset (pqs pq) p tq';
        let pq' = pq\<lparr>pqs := qs\<rparr>;
        if r \<noteq> ETQ_NONE then Some (PQ_TQ r, t, pq', ts')
        else Some (PQ_NONE, t,
          pq'\<lparr>pq_state := (if tq_size tq' = 0 then pq_state pq XOR push_bit p 1 else pq_state pq),
              pq_size := pq_size pq - 1\<rparr>, ts')
      })"

section \<open>The highest set bit\<close>

lemma clz32_highest:
  assumes "bit w p" "\<And>j. p < j \<Longrightarrow> j < 32 \<Longrightarrow> \<not> bit w j"
  shows "clz32 w = Some (31 - p)"
proof -
  have p: "p < 32" using assms(1) bit_imp_le_length by fastforce
  have split: "rev [0..<32] = rev [Suc p..<32] @ p # rev [0..<p]"
  proof -
    have "[0..<32] = [0..<p] @ p # [Suc p..<32]"
      using p by (metis upt_add_eq_append upt_conv_Cons le_add_diff_inverse less_imp_le zero_le add_0)
    then show ?thesis by simp
  qed
  have "takeWhile (\<lambda>i. \<not> bit w i) (rev [0..<32]) = rev [Suc p..<32]"
    unfolding split using assms by (subst takeWhile_append2) auto
  moreover have "w \<noteq> 0" using assms(1) by auto
  ultimately show ?thesis by (simp add: clz32_def)
qed

section \<open>The abstract ready queue\<close>

definition pq_rep :: "tds \<Rightarrow> priority_queue \<Rightarrow> nat list list \<Rightarrow> bool" where
  "pq_rep ts pq qs \<longleftrightarrow>
     length (pqs pq) = MAX_PRIORITY \<and> length qs = MAX_PRIORITY \<and> distinct (concat qs) \<and>
     pq_size pq = int (length (concat qs)) \<and>
     (\<forall>i<MAX_PRIORITY. tq_rep ts (pqs pq ! i) (qs ! i) \<and> (bit (pq_state pq) i \<longleftrightarrow> qs ! i \<noteq> []))"

text \<open>The priority that is served next, and what serving and enqueueing do to the lists.\<close>

definition rq_top :: "nat list list \<Rightarrow> nat option" where
  "rq_top qs = (case filter (\<lambda>i. qs ! i \<noteq> []) (rev [0..<length qs]) of [] \<Rightarrow> None | p # _ \<Rightarrow> Some p)"

definition rq_pop :: "nat list list \<Rightarrow> (nat \<times> nat list list) option" where
  "rq_pop qs = (case rq_top qs of None \<Rightarrow> None | Some p \<Rightarrow> Some (hd (qs ! p), qs[p := tl (qs ! p)]))"

definition rq_push :: "nat list list \<Rightarrow> nat \<Rightarrow> nat \<Rightarrow> nat list list" where
  "rq_push qs p t = qs[p := qs ! p @ [t]]"

lemma rq_top_Some:
  "rq_top qs = Some p \<longleftrightarrow>
   p < length qs \<and> qs ! p \<noteq> [] \<and> (\<forall>j. p < j \<longrightarrow> j < length qs \<longrightarrow> qs ! j = [])"
  (is "_ \<longleftrightarrow> ?P (length qs) p")
proof -
  let ?f = "\<lambda>n. filter (\<lambda>i. qs ! i \<noteq> []) (rev [0..<n])"
  have "(case ?f n of [] \<Rightarrow> None | p # _ \<Rightarrow> Some p) = Some p \<longleftrightarrow>
      p < n \<and> qs ! p \<noteq> [] \<and> (\<forall>j. p < j \<longrightarrow> j < n \<longrightarrow> qs ! j = [])" for n
  proof (induction n)
    case (Suc n)
    then show ?case
      by (cases "qs ! n = []") (auto simp: less_Suc_eq)
  qed simp
  then show ?thesis by (simp add: rq_top_def)
qed

lemma in_set_concat_nth: "x \<in> set (concat qs) \<longleftrightarrow> (\<exists>i<length qs. x \<in> set (qs ! i))"
  by (metis in_set_conv_nth UN_iff set_concat)

lemma rq_top_None: "rq_top qs = None \<longleftrightarrow> concat qs = []"
proof -
  have "rq_top qs = None \<longleftrightarrow> (\<forall>i<length qs. qs ! i = [])"
    unfolding rq_top_def using filter_empty_conv [of "\<lambda>i. qs ! i \<noteq> []" "rev [0..<length qs]"]
    by (cases "filter (\<lambda>i. qs ! i \<noteq> []) (rev [0..<length qs])") auto
  then show ?thesis
    by (simp add: all_set_conv_all_nth)
qed

text \<open>Replacing one of the lists.\<close>

lemma concat_update_mset:
  "i < length qs \<Longrightarrow>
   mset (concat (qs[i := q])) + mset (qs ! i) = mset (concat qs) + mset q"
proof (induction qs arbitrary: i)
  case (Cons x xs)
  then show ?case by (cases i) (auto simp: ac_simps)
qed simp

lemma rq_push_mset:
  "p < length qs \<Longrightarrow> mset (concat (rq_push qs p t)) = add_mset t (mset (concat qs))"
  using concat_update_mset [of p qs "qs ! p @ [t]"] by (simp add: rq_push_def)

lemma rq_pop_mset:
  assumes "p < length qs" "qs ! p = t # q"
  shows "mset (concat qs) = add_mset t (mset (concat (qs[p := q])))"
  using concat_update_mset [OF assms(1), of q] assms(2) by simp

lemma distinct_mset_eq: "mset xs = mset ys \<Longrightarrow> distinct xs = distinct ys"
  by (metis mset_eq_imp_distinct_iff)

section \<open>The operations refine the abstract ones\<close>

lemma pq_repD:
  assumes "pq_rep ts pq qs"
  shows "length (pqs pq) = 32" "length qs = 32" "distinct (concat qs)"
    "pq_size pq = int (length (concat qs))"
    "i < 32 \<Longrightarrow> tq_rep ts (pqs pq ! i) (qs ! i)"
    "i < 32 \<Longrightarrow> bit (pq_state pq) i \<longleftrightarrow> qs ! i \<noteq> []"
  using assms by (simp_all add: pq_rep_def)

lemma pq_rep_in_bounds:
  assumes "pq_rep ts pq qs" "t \<in> set (concat qs)"
  shows "t < length ts"
proof -
  obtain i where "i < 32" "t \<in> set (qs ! i)"
    using assms pq_repD(2) [OF assms(1)] in_set_concat_nth [of t qs] by auto
  then show ?thesis
    using pq_repD(5) [OF assms(1)] tq_rep_in_bounds by blast
qed

lemma pq_init_rep:
  assumes "length (pqs pq) = MAX_PRIORITY"
  shows "pq_rep ts (pq_init pq) (replicate MAX_PRIORITY [])"
  using assms by (simp add: pq_rep_def pq_init_def tq_init_rep)

lemma same_links_pq_rep:
  "same_links ts ts' \<Longrightarrow> pq_rep ts pq qs \<Longrightarrow> pq_rep ts' pq qs"
  by (auto simp: pq_rep_def intro: same_links_tq_rep)

lemma nth_disjoint:
  assumes "distinct (concat qs)" "i < length qs" "j < length qs" "i \<noteq> j" "x \<in> set (qs ! i)"
  shows "x \<notin> set (qs ! j)"
  using assms
proof (induction qs arbitrary: i j)
  case (Cons q qs)
  have D: "distinct (concat qs)" "\<And>k y. k < length qs \<Longrightarrow> y \<in> set q \<Longrightarrow> y \<notin> set (qs ! k)"
    using Cons.prems(1) in_set_concat_nth [of _ qs] by fastforce+
  show ?case
  proof (cases i)
    case 0
    with Cons.prems obtain k where "j = Suc k" by (cases j) auto
    with 0 Cons.prems D(2) show ?thesis by simp
  next
    case i: (Suc k)
    show ?thesis
    proof (cases j)
      case 0
      have "x \<notin> set q" using D(2) [of k x] Cons.prems i by auto
      with 0 show ?thesis by simp
    next
      case (Suc l)
      then show ?thesis
        using Cons.IH [OF D(1), of k l] Cons.prems i by simp
    qed
  qed
qed simp

definition same_but_next :: "TaskDescriptor \<Rightarrow> TaskDescriptor \<Rightarrow> bool" where
  "same_but_next td td' \<longleftrightarrow> (\<exists>v. td' = td\<lparr>td_next := v\<rparr>)"

lemma same_but_next_refl [simp]: "same_but_next td td"
  unfolding same_but_next_def by (rule exI [of _ "td_next td"]) simp

lemma same_but_next_upd [simp]: "same_but_next td (td\<lparr>td_next := v\<rparr>)"
  by (auto simp: same_but_next_def)

lemma same_but_next_fields:
  assumes "same_but_next td td'"
  shows "td_tid td' = td_tid td" "td_sp td' = td_sp td" "td_status td' = td_status td"
    "td_priority td' = td_priority td" "td_send_q td' = td_send_q td" "td_ret td' = td_ret td"
    "td_parent td' = td_parent td"
  using assms by (auto simp: same_but_next_def)

lemma pq_push_rep:
  assumes rep: "pq_rep ts pq qs" and t: "t \<notin> set (concat qs)" "t < length ts"
    and p: "p < MAX_PRIORITY"
  shows "\<exists>pq' ts'. pq_push pq (int p) t ts = Some (PQ_NONE, pq', ts') \<and>
    pq_rep ts' pq' (rq_push qs p t) \<and> length ts' = length ts \<and>
    (\<forall>i. same_but_next (ts ! i) (ts' ! i)) \<and> (\<forall>i. i \<notin> set (concat qs) \<longrightarrow> ts' ! i = ts ! i)"
proof -
  note D = pq_repD [OF rep]
  have nin: "t \<notin> set (qs ! p)"
    using t(1) p D(2) by auto
  obtain tq' ts' where push: "tq_push (pqs pq ! p) t ts = Some (ETQ_NONE, tq', ts')"
    and rep': "tq_rep ts' tq' (qs ! p @ [t])" and len: "length ts' = length ts"
    and upd: "\<And>i. ts' ! i = ts ! i \<or> i \<in> set (qs ! p) \<and> ts' ! i = (ts ! i)\<lparr>td_next := Some t\<rparr>"
    using tq_push_rep [OF D(5) [OF p] nin t(2)] by blast
  let ?pq = "pq\<lparr>pqs := (pqs pq)[p := tq'], pq_state := pq_state pq OR push_bit p 1,
    pq_size := pq_size pq + 1\<rparr>"
  have eq: "pq_push pq (int p) t ts = Some (PQ_NONE, ?pq, ts')"
    using p D(1) push by (simp add: pq_push_def agetz_in asetz_in)
  have m: "mset (concat (rq_push qs p t)) = add_mset t (mset (concat qs))"
    using p D(2) by (simp add: rq_push_mset)
  have "length (concat (rq_push qs p t)) = Suc (length (concat qs))"
    by (metis m size_mset size_add_mset)
  moreover have "distinct (concat (rq_push qs p t))"
  proof -
    have "distinct (t # concat qs)" using t(1) D(3) by simp
    then show ?thesis using m by (metis distinct_mset_eq mset.simps(2))
  qed
  moreover have "tq_rep ts' (pqs ?pq ! i) (rq_push qs p t ! i) \<and>
      (bit (pq_state ?pq) i \<longleftrightarrow> rq_push qs p t ! i \<noteq> [])" if i: "i < 32" for i
  proof (cases "i = p")
    case True
    then show ?thesis
      using rep' D p by (simp add: rq_push_def bit_or_iff bit_exp_iff)
  next
    case False
    have "tq_rep ts' (pqs pq ! i) (qs ! i)"
    proof -
      have "td_next (ts' ! x) = td_next (ts ! x)" if "x \<in> set (qs ! i)" for x
        using upd [of x] nth_disjoint [OF D(3), of i p x] that i p False D(2) by auto
      then show ?thesis
        using D(5) [OF i] tq_rep_cong [OF len, of "qs ! i" "pqs pq ! i"] by simp
    qed
    then show ?thesis
      using False D i by (simp add: rq_push_def bit_or_iff bit_exp_iff)
  qed
  ultimately have "pq_rep ts' ?pq (rq_push qs p t)"
    using D by (simp add: pq_rep_def rq_push_def)
  moreover have "same_but_next (ts ! i) (ts' ! i)" for i
    using upd [of i] by auto
  moreover have "ts' ! i = ts ! i" if "i \<notin> set (concat qs)" for i
    using upd [of i] that p D(2) by auto
  ultimately show ?thesis
    using eq len by blast
qed

text \<open>Popping the queue of priority \<open>p\<close>.\<close>

lemma pq_pop_at:
  assumes rep: "pq_rep ts pq qs" and p: "p < MAX_PRIORITY" "qs ! p = t # q"
  defines "ts' \<equiv> ts[t := (ts ! t)\<lparr>td_next := None\<rparr>]"
  shows "\<exists>tq'. tq_pop (pqs pq ! p) ts = Some (ETQ_NONE, Some t, tq', ts') \<and> tq_rep ts' tq' q \<and>
    t < length ts \<and> distinct (concat (qs[p := q])) \<and>
    pq_size pq - 1 = int (length (concat (qs[p := q]))) \<and>
    (\<forall>i<MAX_PRIORITY. i \<noteq> p \<longrightarrow> tq_rep ts' (pqs pq ! i) (qs ! i))"
proof -
  note D = pq_repD [OF rep]
  obtain tq' where pop: "tq_pop (pqs pq ! p) ts = Some (ETQ_NONE, Some t, tq', ts')"
    and rep': "tq_rep ts' tq' q" and t: "t < length ts"
    using tq_pop_rep [of ts "pqs pq ! p" t q] D(5) [OF p(1)] p(2) by (auto simp: ts'_def)
  have m: "mset (concat qs) = add_mset t (mset (concat (qs[p := q])))"
    using rq_pop_mset [of p qs t q] p D(2) by simp
  then have len: "length (concat qs) = Suc (length (concat (qs[p := q])))"
    by (metis size_mset size_add_mset)
  have "distinct (t # concat (qs[p := q]))"
    using m D(3) by (metis distinct_mset_eq mset.simps(2))
  moreover have "tq_rep ts' (pqs pq ! i) (qs ! i)" if i: "i < MAX_PRIORITY" "i \<noteq> p" for i
  proof -
    have "td_next (ts' ! x) = td_next (ts ! x)" if "x \<in> set (qs ! i)" for x
    proof -
      have "x \<noteq> t"
        using nth_disjoint [OF D(3), of p i t] that i p D(2) by auto
      then show ?thesis by (simp add: ts'_def)
    qed
    then show ?thesis
      using D(5) [OF i(1)] tq_rep_cong [of ts' ts "qs ! i" "pqs pq ! i"] by (simp add: ts'_def)
  qed
  ultimately show ?thesis
    using pop rep' t len D(4) by auto
qed

lemma pq_pop_empty:
  assumes "pq_rep ts pq qs" "concat qs = []"
  shows "pq_pop pq ts = Some (PQ_EMPTY, None, pq, ts)"
  using pq_repD(4) [OF assms(1)] assms(2) by (simp add: pq_pop_def)

lemma rq_pop_Some:
  "rq_pop qs = Some (t, qs') \<longleftrightarrow> (\<exists>p. rq_top qs = Some p \<and> t = hd (qs ! p) \<and> qs' = qs[p := tl (qs ! p)])"
  by (auto simp: rq_pop_def split: option.splits)

lemma rq_pop_None: "rq_pop qs = None \<longleftrightarrow> concat qs = []"
  using rq_top_None [of qs] by (auto simp: rq_pop_def split: option.splits)

lemma pq_pop_rep:
  assumes rep: "pq_rep ts pq qs" and pop: "rq_pop qs = Some (t, qs')"
  shows "\<exists>pq'. pq_pop pq ts = Some (PQ_NONE, Some t, pq', ts[t := (ts ! t)\<lparr>td_next := None\<rparr>]) \<and>
    pq_rep (ts[t := (ts ! t)\<lparr>td_next := None\<rparr>]) pq' qs' \<and> t < length ts"
proof -
  note D = pq_repD [OF rep]
  let ?ts = "ts[t := (ts ! t)\<lparr>td_next := None\<rparr>]"
  obtain p where top: "rq_top qs = Some p" and tq: "t = hd (qs ! p)" "qs' = qs[p := tl (qs ! p)]"
    using pop by (auto simp: rq_pop_Some)
  have p: "p < MAX_PRIORITY" "qs ! p = t # tl (qs ! p)" "bit (pq_state pq) p"
    using top D tq by (auto simp: rq_top_Some)
  have clz: "clz32 (pq_state pq) = Some (31 - p)"
    using top D by (intro clz32_highest) (auto simp: rq_top_Some)
  obtain tq' where at: "tq_pop (pqs pq ! p) ts = Some (ETQ_NONE, Some t, tq', ?ts)"
    "tq_rep ?ts tq' (tl (qs ! p))" "t < length ts" "distinct (concat qs')"
    "pq_size pq - 1 = int (length (concat qs'))"
    "\<And>i. i < MAX_PRIORITY \<Longrightarrow> i \<noteq> p \<Longrightarrow> tq_rep ?ts (pqs pq ! i) (qs ! i)"
    using pq_pop_at [OF rep p(1,2)] tq(2) by auto
  have size: "tq_size tq' = 0 \<longleftrightarrow> tl (qs ! p) = []"
    using at(2) unfolding tq_rep_def by (metis length_0_conv of_nat_eq_0_iff)
  let ?st = "if tq_size tq' = 0 then pq_state pq XOR push_bit p 1 else pq_state pq"
  let ?pq = "pq\<lparr>pqs := (pqs pq)[p := tq'], pq_state := ?st, pq_size := pq_size pq - 1\<rparr>"
  have "pq_pop pq ts = Some (PQ_NONE, Some t, ?pq, ?ts)"
    using p(1) D(1) at clz by (simp add: pq_pop_def)
  moreover have "bit ?st i \<longleftrightarrow> qs' ! i \<noteq> []" if "i < MAX_PRIORITY" for i
    using D(2) D(6) [OF that] p that size tq(2)
    by (cases "i = p") (auto simp: bit_xor_iff bit_exp_iff)
  then have "pq_rep ?ts ?pq qs'"
    using at D p(1) tq(2) by (auto simp: pq_rep_def nth_list_update)
  ultimately show ?thesis
    using at(3) by blast
qed

lemma pq_dumb_loop_pop:
  assumes rep: "pq_rep ts pq qs" and p: "p < n" "n \<le> MAX_PRIORITY" "qs ! p \<noteq> []"
    and above: "\<And>j. p < j \<Longrightarrow> j < n \<Longrightarrow> qs ! j = []"
    and pop: "tq_pop (pqs pq ! p) ts = Some (r, t, tq', ts')"
  shows "pq_dumb_loop n pq ts =
    Some (PQ_NONE, t, pq\<lparr>pqs := (pqs pq)[p := tq'], pq_size := pq_size pq - 1\<rparr>, ts')"
  using p above
proof (induction n)
  case (Suc n)
  note D = pq_repD [OF rep]
  have n: "n < MAX_PRIORITY" using Suc.prems by simp
  have size: "0 < tq_size (pqs pq ! n) \<longleftrightarrow> qs ! n \<noteq> []"
    using D(5) [OF n] by (simp add: tq_rep_def)
  show ?case
  proof (cases "p = n")
    case True
    then show ?thesis using size Suc.prems D(1) n pop by simp
  next
    case False
    then have "p < n" "qs ! n = []"
      using Suc.prems(1) Suc.prems(4) [of n] by auto
    then show ?thesis using size Suc D(1) n by simp
  qed
qed simp

text \<open>On a well-formed queue the linear search finds what the bit mask finds; it leaves the
  same queues and size but does not maintain the mask.\<close>

lemma pq_dumb_pop_agrees:
  assumes rep: "pq_rep ts pq qs" and pop: "pq_pop pq ts = Some (r, t, pq', ts')"
  shows "pq_dumb_pop pq ts = Some (r, t, pq'\<lparr>pq_state := pq_state pq\<rparr>, ts')"
proof (cases "rq_pop qs")
  case None
  then have e: "concat qs = []" by (simp add: rq_pop_None)
  then have "pq_size pq < 1" using pq_repD(4) [OF rep] by simp
  then show ?thesis using pq_pop_empty [OF rep e] pop by (simp add: pq_dumb_pop_def)
next
  case (Some tq)
  note D = pq_repD [OF rep]
  obtain p where top: "rq_top qs = Some p"
    using Some by (cases tq) (auto simp: rq_pop_Some)
  then have p: "p < MAX_PRIORITY" "qs ! p \<noteq> []" "\<And>j. p < j \<Longrightarrow> j < MAX_PRIORITY \<Longrightarrow> qs ! j = []"
    using D(2) by (auto simp: rq_top_Some)
  have clz: "clz32 (pq_state pq) = Some (31 - p)"
    using p D by (intro clz32_highest) auto
  have size: "\<not> pq_size pq < 1"
    using pop Some D(4) rq_pop_None [of qs] by (simp add: Suc_le_eq)
  obtain u q where q: "qs ! p = u # q" using p(2) by (cases "qs ! p") auto
  obtain tq' where at: "tq_pop (pqs pq ! p) ts =
      Some (ETQ_NONE, Some u, tq', ts[u := (ts ! u)\<lparr>td_next := None\<rparr>])"
    using pq_pop_at [OF rep p(1) q] by blast
  have "pq_dumb_pop pq ts = Some (PQ_NONE, Some u,
      pq\<lparr>pqs := (pqs pq)[p := tq'], pq_size := pq_size pq - 1\<rparr>, ts[u := (ts ! u)\<lparr>td_next := None\<rparr>])"
    using pq_dumb_loop_pop [OF rep p(1) order_refl p(2,3) at] size by (simp add: pq_dumb_pop_def)
  moreover have "pq_pop pq ts = Some (PQ_NONE, Some u,
      pq\<lparr>pqs := (pqs pq)[p := tq'], pq_size := pq_size pq - 1,
         pq_state := if tq_size tq' = 0 then pq_state pq XOR push_bit p 1 else pq_state pq\<rparr>,
      ts[u := (ts ! u)\<lparr>td_next := None\<rparr>])"
    using at clz size p(1) D(1) by (simp add: pq_pop_def)
  ultimately show ?thesis using pop by simp
qed

text \<open>FIFO within a priority: what is pushed at a priority is served after
  everything that is waiting there.\<close>

lemma rq_push_nth: "p < length qs \<Longrightarrow>
  rq_push qs p t ! i = (if i = p then qs ! p @ [t] else qs ! i)"
  by (simp add: rq_push_def nth_list_update)

lemma length_rq_push [simp]: "length (rq_push qs p t) = length qs"
  by (simp add: rq_push_def)

lemma rq_pop_mset_concat:
  assumes "rq_pop qs = Some (t, qs')"
  shows "mset (concat qs) = add_mset t (mset (concat qs'))"
proof -
  obtain p where p: "rq_top qs = Some p" "t = hd (qs ! p)" "qs' = qs[p := tl (qs ! p)]"
    using assms by (auto simp: rq_pop_Some)
  then show ?thesis
    using rq_pop_mset [of p qs t "tl (qs ! p)"] by (auto simp: rq_top_Some)
qed

section \<open>The interface of a ready queue\<close>

text \<open>
  What the scheduler relies on: tasks leave in order of priority, first in, first out within one.
  The representation relates a concrete queue, in a given heap of links, to the abstract lists.
\<close>

locale ready_queue =
  fixes rep :: "'h \<Rightarrow> 'q \<Rightarrow> nat list list \<Rightarrow> bool"
    and ok :: "'h \<Rightarrow> nat \<Rightarrow> bool"
    and levels :: nat
    and push :: "'q \<Rightarrow> int \<Rightarrow> nat \<Rightarrow> 'h \<Rightarrow> (pq_code \<times> 'q \<times> 'h) option"
    and pop :: "'q \<Rightarrow> 'h \<Rightarrow> (pq_code \<times> nat option \<times> 'q \<times> 'h) option"
  assumes levels: "rep h q qs \<Longrightarrow> length qs = levels"
    and push_ok: "rep h q qs \<Longrightarrow> t \<notin> set (concat qs) \<Longrightarrow> ok h t \<Longrightarrow> p < levels \<Longrightarrow>
      \<exists>q' h'. push q (int p) t h = Some (PQ_NONE, q', h') \<and> rep h' q' (rq_push qs p t) \<and>
        (\<forall>u. ok h u \<longrightarrow> ok h' u)"
    and pop_ok: "rep h q qs \<Longrightarrow> rq_pop qs = Some (t, qs') \<Longrightarrow>
      \<exists>q' h'. pop q h = Some (PQ_NONE, Some t, q', h') \<and> rep h' q' qs'"
    and pop_none: "rep h q qs \<Longrightarrow> concat qs = [] \<Longrightarrow> pop q h = Some (PQ_EMPTY, None, q, h)"
begin

lemma pop_returns: "rep h q qs \<Longrightarrow> \<exists>r. pop q h = Some r"
  using pop_ok pop_none by (cases "rq_pop qs") (fastforce simp: rq_pop_None)+

text \<open>Whoever is popped has the highest priority that is waiting and came first at it.\<close>

lemma pop_highest:
  assumes "rep h q qs" "pop q h = Some (PQ_NONE, Some t, q', h')"
  shows "\<exists>p<levels. qs ! p \<noteq> [] \<and> t = hd (qs ! p) \<and> (\<forall>j. p < j \<longrightarrow> j < levels \<longrightarrow> qs ! j = []) \<and>
    rep h' q' (qs[p := tl (qs ! p)])"
proof (cases "rq_pop qs")
  case None
  then show ?thesis using assms pop_none by (auto simp: rq_pop_None)
next
  case (Some r)
  obtain u qs' where r: "rq_pop qs = Some (u, qs')" using Some by (cases r) auto
  obtain p where "rq_top qs = Some p" "u = hd (qs ! p)" "qs' = qs[p := tl (qs ! p)]"
    using r by (auto simp: rq_pop_Some)
  with pop_ok [OF assms(1) r] assms levels [OF assms(1)] show ?thesis
    by (auto simp: rq_top_Some)
qed

text \<open>A task pushed above all that wait is served at once.\<close>

lemma push_pop_urgent:
  assumes "rep h q qs" "t \<notin> set (concat qs)" "ok h t" "p < levels"
    and urgent: "\<And>j. p \<le> j \<Longrightarrow> j < levels \<Longrightarrow> qs ! j = []"
    and push: "push q (int p) t h = Some (PQ_NONE, q', h')"
  shows "\<exists>q'' h''. pop q' h' = Some (PQ_NONE, Some t, q'', h'') \<and> rep h'' q'' qs"
proof -
  have rep': "rep h' q' (rq_push qs p t)"
    using push_ok [OF assms(1-4)] push by auto
  have len: "length qs = levels" using levels [OF assms(1)] .
  have "rq_top (rq_push qs p t) = Some p"
    using assms(4) urgent len by (auto simp: rq_top_Some rq_push_nth)
  then have "rq_pop (rq_push qs p t) = Some (t, qs)"
    using assms(4) urgent [of p] len by (simp add: rq_pop_def rq_push_nth rq_push_def)
      (metis list_update_id order_refl)
  from pop_ok [OF rep' this] show ?thesis by blast
qed

end

interpretation rdq: ready_queue pq_rep "\<lambda>ts t. t < length ts" 32 pq_push pq_pop
proof unfold_locales
  fix h :: tds and q :: priority_queue and qs :: "nat list list" and t p :: nat and qs'
  assume rep: "pq_rep h q qs"
  show "length qs = 32" using pq_repD(2) [OF rep] .
  show "concat qs = [] \<Longrightarrow> pq_pop q h = Some (PQ_EMPTY, None, q, h)"
    using pq_pop_empty [OF rep] .
  show "rq_pop qs = Some (t, qs') \<Longrightarrow>
      \<exists>q' h'. pq_pop q h = Some (PQ_NONE, Some t, q', h') \<and> pq_rep h' q' qs'"
    using pq_pop_rep [OF rep] by blast
  show "t \<notin> set (concat qs) \<Longrightarrow> t < length h \<Longrightarrow> p < 32 \<Longrightarrow>
      \<exists>q' h'. pq_push q (int p) t h = Some (PQ_NONE, q', h') \<and> pq_rep h' q' (rq_push qs p t) \<and>
        (\<forall>u. u < length h \<longrightarrow> u < length h')"
    using pq_push_rep [OF rep] by metis
qed

section \<open>The contract, for the code's queue\<close>

text \<open>C13: The bit mask, the 32 linked lists and their counters work together: a task pushed at a priority at and
  above which nobody waits is the next one popped, and the queue is then as it was.\<close>

theorem ready_queue_urgent:
  assumes "pq_rep ts pq qs" "t \<notin> set (concat qs)" "t < length ts" "p < MAX_PRIORITY"
    and "\<And>j. p \<le> j \<Longrightarrow> j < MAX_PRIORITY \<Longrightarrow> qs ! j = []"
  shows "\<exists>pq' ts' pq'' ts''. pq_push pq (int p) t ts = Some (PQ_NONE, pq', ts') \<and>
    pq_rep ts' pq' (rq_push qs p t) \<and>
    pq_pop pq' ts' = Some (PQ_NONE, Some t, pq'', ts'') \<and> pq_rep ts'' pq'' qs"
proof -
  obtain pq' ts' where push: "pq_push pq (int p) t ts = Some (PQ_NONE, pq', ts')"
    "pq_rep ts' pq' (rq_push qs p t)"
    using rdq.push_ok [OF assms(1-4)] by blast
  then show ?thesis using rdq.push_pop_urgent [OF assms push(1)] by blast
qed

definition example_td :: TaskDescriptor where
  "example_td = \<lparr>td_tid = 0, td_sp = 0, td_stack_base = 0, td_psr = 0, td_task = 0, td_status = TS_READY,
     td_it = IT_SWI, td_parent = None, td_next = None, td_priority = 7,
     td_send_q = \<lparr>cb_buf = [], cb_start = 0, cb_end = 0, cb_size = 0\<rparr>, td_ret = 0,
     td_start_time = 0, td_running_time = 0, td_end_time = 0\<rparr>"

definition example_pq :: priority_queue where
  "example_pq = pq_init \<lparr>pqs = replicate MAX_PRIORITY \<lparr>tq_head = None, tq_tail = None, tq_size = 0\<rparr>,
     pq_size = 0, pq_state = 0\<rparr>"

lemma example_rep: "pq_rep ts example_pq (replicate MAX_PRIORITY [])"
  by (simp add: example_pq_def pq_init_rep)

theorem ready_queue_urgent_witness:
  "\<exists>pq' ts' pq'' ts''. pq_push example_pq 7 1 (replicate 3 example_td) = Some (PQ_NONE, pq', ts') \<and>
    pq_pop pq' ts' = Some (PQ_NONE, Some 1, pq'', ts'')"
  using ready_queue_urgent [OF example_rep, of 1 "replicate 3 example_td" 7] by fastforce

text \<open>The constant-time pop, which finds the priority with \<^verbatim>\<open>__builtin_clz\<close>, returns the same code and task and
  leaves the same queues, size and links as the linear search; the linear search does not maintain the bit
  mask.\<close>

theorem dumb_pop_agrees:
  assumes "pq_rep ts pq qs" "pq_pop pq ts = Some (r, t, pq', ts')"
  shows "pq_dumb_pop pq ts = Some (r, t, pq'\<lparr>pq_state := pq_state pq\<rparr>, ts')"
  by (rule pq_dumb_pop_agrees [OF assms])

theorem dumb_pop_agrees_witness:
  "pq_dumb_pop example_pq (replicate 3 example_td) =
   Some (PQ_EMPTY, None, example_pq\<lparr>pq_state := pq_state example_pq\<rparr>, replicate 3 example_td)"
  by (rule dumb_pop_agrees [OF example_rep pq_pop_empty [OF example_rep]]) simp

text \<open>\<^verbatim>\<open>pq_push\<close> rejects negative priorities and those above 32 with \<^verbatim>\<open>PQ_PRIORITY\<close>, but its guard lets
  the priority 32 through to an access behind the end of the array of 32 queues.\<close>

theorem priority_32_out_of_bounds:
  "pq_push example_pq 32 t ts = None \<and> pq_push example_pq 33 t ts = Some (PQ_PRIORITY, example_pq, ts) \<and>
   pq_push example_pq (- 1) t ts = Some (PQ_PRIORITY, example_pq, ts)"
  by (simp add: pq_push_def agetz_def example_pq_def pq_init_def)

end
