(* ===== verification/InterruptMatrix.thy ===== *)
theory InterruptMatrix
  imports Tasks
begin

text \<open>
  src/lib/task/interrupt_matrix.c: one queue of waiting tasks for each of the ten interrupt events
  and a counter of the assertions nobody was waiting for. An event is the \<^verbatim>\<open>InterruptEvent\<close>
  number, which may come unchecked from a user stack: a number outside the \<^verbatim>\<open>switch\<close> fails its
  \<^verbatim>\<open>KASSERT\<close>.
\<close>

section \<open>Events and the matrix\<close>

abbreviation (input) IE_TC1UI :: u32 where "IE_TC1UI \<equiv> 4"
abbreviation (input) IE_TC3UI :: u32 where "IE_TC3UI \<equiv> 51"
abbreviation (input) IE_UART1 :: u32 where "IE_UART1 \<equiv> 52"
abbreviation (input) IE_UART1_RX :: u32 where "IE_UART1_RX \<equiv> 521"
abbreviation (input) IE_UART1_TX :: u32 where "IE_UART1_TX \<equiv> 522"
abbreviation (input) IE_UART1_RT :: u32 where "IE_UART1_RT \<equiv> 523"
abbreviation (input) IE_UART1_MI :: u32 where "IE_UART1_MI \<equiv> 524"
abbreviation (input) IE_UART2 :: u32 where "IE_UART2 \<equiv> 54"
abbreviation (input) IE_UART2_RX :: u32 where "IE_UART2_RX \<equiv> 541"
abbreviation (input) IE_UART2_TX :: u32 where "IE_UART2_TX \<equiv> 542"
abbreviation (input) IE_UART2_RT :: u32 where "IE_UART2_RT \<equiv> 543"
abbreviation (input) IE_UART2_MI :: u32 where "IE_UART2_MI \<equiv> 544"

type_synonym im_cb = "nat cbuf"

(* src/include/lib/task/interrupt_matrix.h:8-23 *)
record interrupt_matrix =
  im_TC1UI :: im_cb
  im_TC3UI :: im_cb
  im_UART2_RX :: im_cb
  im_UART2_TX :: im_cb
  im_UART2_RT :: im_cb
  im_UART2_MI :: im_cb
  im_UART1_RX :: im_cb
  im_UART1_TX :: im_cb
  im_UART1_RT :: im_cb
  im_UART1_MI :: im_cb
  im_stored_flag :: "u32 list"

(* src/src/lib/task/interrupt_matrix.c:3-19 *)
definition im_init :: "interrupt_matrix \<Rightarrow> interrupt_matrix" where
  "im_init im = im\<lparr>im_TC1UI := cb_init (im_TC1UI im), im_TC3UI := cb_init (im_TC3UI im),
     im_UART2_RX := cb_init (im_UART2_RX im), im_UART2_TX := cb_init (im_UART2_TX im),
     im_UART2_RT := cb_init (im_UART2_RT im), im_UART2_MI := cb_init (im_UART2_MI im),
     im_UART1_RX := cb_init (im_UART1_RX im), im_UART1_TX := cb_init (im_UART1_TX im),
     im_UART1_RT := cb_init (im_UART1_RT im), im_UART1_MI := cb_init (im_UART1_MI im),
     im_stored_flag := map (\<lambda>_. 0) (im_stored_flag im)\<rparr>"

text \<open>The \<^verbatim>\<open>switch\<close> over the events, once for reading a queue and once for writing it back.\<close>

(* src/src/lib/task/interrupt_matrix.c:112-149 *)
definition im_queue :: "interrupt_matrix \<Rightarrow> u32 \<Rightarrow> im_cb option" where
  "im_queue im ie =
     (if ie = IE_TC1UI then Some (im_TC1UI im)
      else if ie = IE_TC3UI then Some (im_TC3UI im)
      else if ie = IE_UART2_RX then Some (im_UART2_RX im)
      else if ie = IE_UART2_TX then Some (im_UART2_TX im)
      else if ie = IE_UART2_RT then Some (im_UART2_RT im)
      else if ie = IE_UART2_MI then Some (im_UART2_MI im)
      else if ie = IE_UART1_RX then Some (im_UART1_RX im)
      else if ie = IE_UART1_TX then Some (im_UART1_TX im)
      else if ie = IE_UART1_RT then Some (im_UART1_RT im)
      else if ie = IE_UART1_MI then Some (im_UART1_MI im)
      else None)"

definition im_store :: "u32 \<Rightarrow> im_cb \<Rightarrow> interrupt_matrix \<Rightarrow> interrupt_matrix" where
  "im_store ie cb im =
     (if ie = IE_TC1UI then im\<lparr>im_TC1UI := cb\<rparr>
      else if ie = IE_TC3UI then im\<lparr>im_TC3UI := cb\<rparr>
      else if ie = IE_UART2_RX then im\<lparr>im_UART2_RX := cb\<rparr>
      else if ie = IE_UART2_TX then im\<lparr>im_UART2_TX := cb\<rparr>
      else if ie = IE_UART2_RT then im\<lparr>im_UART2_RT := cb\<rparr>
      else if ie = IE_UART2_MI then im\<lparr>im_UART2_MI := cb\<rparr>
      else if ie = IE_UART1_RX then im\<lparr>im_UART1_RX := cb\<rparr>
      else if ie = IE_UART1_TX then im\<lparr>im_UART1_TX := cb\<rparr>
      else if ie = IE_UART1_RT then im\<lparr>im_UART1_RT := cb\<rparr>
      else if ie = IE_UART1_MI then im\<lparr>im_UART1_MI := cb\<rparr>
      else im)"

(* src/src/lib/task/interrupt_matrix.c:21-58 *)
definition im_push :: "interrupt_matrix \<Rightarrow> nat \<Rightarrow> u32 \<Rightarrow> (cb_code \<times> interrupt_matrix) option" where
  "im_push im td ie = do {
     cb \<leftarrow> im_queue im ie;
     (r, cb') \<leftarrow> cb_push MAX_TASK td cb;
     Some (r, im_store ie cb' im) }"

(* src/src/lib/task/interrupt_matrix.c:60-110 *)
definition im_pop :: "interrupt_matrix \<Rightarrow> u32 \<Rightarrow> (cb_code \<times> nat option \<times> interrupt_matrix) option" where
  "im_pop im ie = do {
     cb \<leftarrow> im_queue im ie;
     (r, td, cb') \<leftarrow> cb_pop MAX_TASK cb;
     kassert (r = CB_E_NONE);
     Some (r, td, im_store ie cb' im) }"

definition im_eventsize :: "interrupt_matrix \<Rightarrow> u32 \<Rightarrow> int option" where
  "im_eventsize im ie = do { cb \<leftarrow> im_queue im ie; Some (sint (cb_size cb)) }"

section \<open>The queues as a list\<close>

definition im_events :: "u32 list" where
  "im_events = [IE_TC1UI, IE_TC3UI, IE_UART2_RX, IE_UART2_TX, IE_UART2_RT, IE_UART2_MI,
     IE_UART1_RX, IE_UART1_TX, IE_UART1_RT, IE_UART1_MI]"

definition im_cbs :: "interrupt_matrix \<Rightarrow> im_cb list" where
  "im_cbs im = [im_TC1UI im, im_TC3UI im, im_UART2_RX im, im_UART2_TX im, im_UART2_RT im,
     im_UART2_MI im, im_UART1_RX im, im_UART1_TX im, im_UART1_RT im, im_UART1_MI im]"

definition im_lists :: "interrupt_matrix \<Rightarrow> nat list list" where
  "im_lists im = map (cb_list MAX_TASK) (im_cbs im)"

definition im_wf :: "interrupt_matrix \<Rightarrow> bool" where
  "im_wf im \<longleftrightarrow> length (im_stored_flag im) = INTERRUPT_SIZE \<and> (\<forall>cb\<in>set (im_cbs im). cb_wf MAX_TASK cb)"

text \<open>The tasks that wait for an event.\<close>

definition im_waiting :: "interrupt_matrix \<Rightarrow> u32 \<Rightarrow> nat list" where
  "im_waiting im ie = (case im_queue im ie of None \<Rightarrow> [] | Some cb \<Rightarrow> cb_list MAX_TASK cb)"

lemma length_im_cbs [simp]: "length (im_cbs im) = 10"
  by (simp add: im_cbs_def)

lemma length_im_lists [simp]: "length (im_lists im) = 10"
  by (simp add: im_lists_def)

lemma im_events_cases:
  assumes "ie \<in> set im_events"
  obtains k where "k < 10" "ie = im_events ! k"
proof -
  have len: "length im_events = 10" by (simp add: im_events_def)
  from assms obtain k where "k < length im_events" "ie = im_events ! k"
    by (metis in_set_conv_nth)
  with len that show thesis by simp
qed

lemma im_events_mem: "k < 10 \<Longrightarrow> im_events ! k \<in> set im_events"
  by (rule nth_mem) (simp add: im_events_def)

lemma im_queue_None: "im_queue im ie = None \<longleftrightarrow> ie \<notin> set im_events"
  by (simp add: im_queue_def im_events_def)

lemma nat_below_10:
  "k < 10 \<Longrightarrow> k = 0 \<or> k = 1 \<or> k = 2 \<or> k = 3 \<or> k = 4 \<or> k = 5 \<or> k = 6 \<or> k = 7 \<or> k = 8 \<or> k = (9::nat)"
  by arith

lemma im_queue_nth: "k < 10 \<Longrightarrow> im_queue im (im_events ! k) = Some (im_cbs im ! k)"
  by (drule nat_below_10, elim disjE) (simp_all add: im_queue_def im_events_def im_cbs_def)

lemma im_cbs_store: "k < 10 \<Longrightarrow> im_cbs (im_store (im_events ! k) cb im) = (im_cbs im)[k := cb]"
  by (drule nat_below_10, elim disjE) (simp_all add: im_store_def im_events_def im_cbs_def)

lemma im_stored_store [simp]: "im_stored_flag (im_store ie cb im) = im_stored_flag im"
  by (simp add: im_store_def)

lemma im_store_flag_commute [simp]: "im_cbs (im\<lparr>im_stored_flag := f\<rparr>) = im_cbs im"
  "im_lists (im\<lparr>im_stored_flag := f\<rparr>) = im_lists im"
  by (simp_all add: im_cbs_def im_lists_def)

lemma im_queue_flag [simp]: "im_queue (im\<lparr>im_stored_flag := f\<rparr>) ie = im_queue im ie"
  by (simp add: im_queue_def)

lemma im_waiting_nth: "k < 10 \<Longrightarrow> im_waiting im (im_events ! k) = im_lists im ! k"
  by (simp add: im_waiting_def im_queue_nth im_lists_def)

lemma im_waiting_flag [simp]: "im_waiting (im\<lparr>im_stored_flag := f\<rparr>) ie = im_waiting im ie"
  by (simp add: im_waiting_def)

lemma im_waiting_other: "ie \<notin> set im_events \<Longrightarrow> im_waiting im ie = []"
  by (simp add: im_waiting_def im_queue_None [THEN iffD2])

lemma im_lists_store:
  "k < 10 \<Longrightarrow> im_lists (im_store (im_events ! k) cb im) = (im_lists im)[k := cb_list MAX_TASK cb]"
  by (simp add: im_lists_def im_cbs_store map_update)

lemma im_wf_nth: "im_wf im \<Longrightarrow> k < 10 \<Longrightarrow> cb_wf MAX_TASK (im_cbs im ! k)"
  by (simp add: im_wf_def)

lemma im_wf_store: "im_wf im \<Longrightarrow> k < 10 \<Longrightarrow> cb_wf MAX_TASK cb \<Longrightarrow> im_wf (im_store (im_events ! k) cb im)"
  using set_update_subset_insert [of "im_cbs im" k cb] by (auto simp: im_wf_def im_cbs_store)

section \<open>The operations\<close>

lemma im_init_ok:
  assumes "length (im_stored_flag im) = INTERRUPT_SIZE" "\<forall>cb\<in>set (im_cbs im). length (cb_buf cb) = MAX_TASK"
  shows "im_wf (im_init im)" "concat (im_lists (im_init im)) = []"
    "im_stored_flag (im_init im) = replicate INTERRUPT_SIZE 0"
  using assms by (simp_all add: im_wf_def im_init_def im_cbs_def im_lists_def cb_init_wf map_replicate_const)

lemma im_eventsize_ok:
  "im_wf im \<Longrightarrow> k < 10 \<Longrightarrow> im_eventsize im (im_events ! k) = Some (int (length (im_lists im ! k)))"
  by (simp add: im_eventsize_def im_queue_nth im_lists_def cb_wf_sint [OF im_wf_nth] del: of_nat_unat)

lemma im_push_ok:
  assumes "im_wf im" "k < 10" "length (im_lists im ! k) < MAX_TASK"
  shows "\<exists>im'. im_push im td (im_events ! k) = Some (CB_E_NONE, im') \<and> im_wf im' \<and>
    im_lists im' = (im_lists im)[k := im_lists im ! k @ [td]] \<and>
    im_stored_flag im' = im_stored_flag im"
proof -
  obtain cb' where "cb_push MAX_TASK td (im_cbs im ! k) = Some (CB_E_NONE, cb')" "cb_wf MAX_TASK cb'"
    "cb_list MAX_TASK cb' = cb_list MAX_TASK (im_cbs im ! k) @ [td]"
    using cb_push_ok [OF im_wf_nth [OF assms(1,2)], of td] assms(2,3)
    by (auto simp: im_lists_def simp del: length_cb_list)
  then show ?thesis
    using assms by (simp add: im_push_def im_queue_nth im_lists_store im_wf_store im_lists_def [of im])
qed

lemma im_pop_ok:
  assumes "im_wf im" "k < 10" "im_lists im ! k = t # q"
  shows "\<exists>im'. im_pop im (im_events ! k) = Some (CB_E_NONE, Some t, im') \<and> im_wf im' \<and>
    im_lists im' = (im_lists im)[k := q] \<and> im_stored_flag im' = im_stored_flag im"
proof -
  have l: "cb_list MAX_TASK (im_cbs im ! k) = t # q"
    using assms(2,3) by (simp add: im_lists_def)
  obtain cb' where "cb_pop MAX_TASK (im_cbs im ! k) = Some (CB_E_NONE, Some t, cb')" "cb_wf MAX_TASK cb'"
    "cb_list MAX_TASK cb' = q"
    using cb_pop_ok [OF im_wf_nth [OF assms(1,2)]] l by auto
  then show ?thesis
    using assms by (simp add: im_pop_def im_queue_nth im_lists_store im_wf_store)
qed

end
