(* ===== verification/Memory.thy ===== *)
theory Memory
  imports Prelude
begin

text \<open>
  The memory of the board as the kernel sees it: a byte for every 32-bit address, words stored
  little-endian, the byte-by-byte copy loops of the message and task-creation handlers.
  The kernel's own globals are not in this memory: they are the fields of the kernel state.
\<close>

section \<open>Bytes and words\<close>

type_synonym mem = "u32 \<Rightarrow> u8"

definition word_at :: "mem \<Rightarrow> u32 \<Rightarrow> u32" where
  "word_at m a = ucast (m a) OR push_bit 8 (ucast (m (a + 1))) OR
     push_bit 16 (ucast (m (a + 2))) OR push_bit 24 (ucast (m (a + 3)))"

text \<open>\<^verbatim>\<open>ldr\<close> and \<^verbatim>\<open>str\<close> of the ARM920T: an access that is not aligned is made at the word that
  contains the address, and \<^verbatim>\<open>ldr\<close> rotates what it reads.\<close>

definition ldr :: "mem \<Rightarrow> u32 \<Rightarrow> u32" where
  "ldr m a = word_rotr (8 * unat (a AND 3)) (word_at m (a AND NOT 3))"

definition str :: "mem \<Rightarrow> u32 \<Rightarrow> u32 \<Rightarrow> mem" where
  "str m a v = (let b = a AND NOT 3 in
     m(b := ucast v, b + 1 := ucast (drop_bit 8 v), b + 2 := ucast (drop_bit 16 v),
       b + 3 := ucast (drop_bit 24 v)))"

text \<open>\<^verbatim>\<open>for (i = 0; i < n; ++i) dst[i] = src[i]\<close>, and the loop of \<^verbatim>\<open>ktd_create_args\<close>, which copies the
  last byte first.\<close>

definition copy_up :: "u32 \<Rightarrow> u32 \<Rightarrow> nat \<Rightarrow> mem \<Rightarrow> mem" where
  "copy_up dst src n m = fold (\<lambda>i m. m(dst + of_nat i := m (src + of_nat i))) [0..<n] m"

definition copy_down :: "u32 \<Rightarrow> u32 \<Rightarrow> nat \<Rightarrow> mem \<Rightarrow> mem" where
  "copy_down dst src n m = fold (\<lambda>i m. m(dst + of_nat i := m (src + of_nat i))) (rev [0..<n]) m"

text \<open>Storing a list of bytes, as the formatting routines do.\<close>

fun store_bytes :: "u32 \<Rightarrow> u8 list \<Rightarrow> mem \<Rightarrow> mem" where
  "store_bytes a [] m = m"
| "store_bytes a (b # bs) m = store_bytes (a + 1) bs (m(a := b))"

definition read_bytes :: "mem \<Rightarrow> u32 \<Rightarrow> nat \<Rightarrow> u8 list" where
  "read_bytes m a n = map (\<lambda>i. m (a + of_nat i)) [0..<n]"

section \<open>Words written are words read\<close>

lemma bit_word_at:
  "bit (word_at m a) n \<longleftrightarrow>
     (if n < 8 then bit (m a) n else if n < 16 then bit (m (a + 1)) (n - 8)
      else if n < 24 then bit (m (a + 2)) (n - 16) else n < 32 \<and> bit (m (a + 3)) (n - 24))"
  by (auto simp: word_at_def bit_or_iff bit_push_bit_iff bit_ucast_iff not_less
      dest: bit_imp_le_length)

lemma word_at_str: "word_at (str m a v) (a AND NOT 3) = v"
  by (rule bit_word_eqI)
    (auto simp: bit_word_at str_def Let_def bit_ucast_iff bit_drop_bit_eq dest: bit_imp_le_length)

lemma word_rotr_0: "word_rotr 0 w = w" for w :: u32
  by (rule bit_word_eqI) (simp add: bit_word_rotr_iff)

lemma ldr_str_aligned: "a AND 3 = 0 \<Longrightarrow> ldr (str m a v) a = v"
  using word_at_str [of m a v] by (simp add: ldr_def word_rotr_0)

text \<open>A store changes no byte outside the word that contains its address.\<close>

lemma str_other:
  "x \<notin> {a AND NOT 3, (a AND NOT 3) + 1, (a AND NOT 3) + 2, (a AND NOT 3) + 3} \<Longrightarrow>
   str m a v x = m x"
  by (simp add: str_def Let_def)

section \<open>Copying\<close>

definition addrs :: "u32 \<Rightarrow> nat \<Rightarrow> u32 set" where
  "addrs a n = (\<lambda>i. a + of_nat i) ` {..<n}"

lemma offset_inj:
  assumes "i < 4294967296" "j < 4294967296" "(a :: u32) + of_nat i = a + of_nat j"
  shows "i = j"
proof -
  have "(of_nat i :: u32) = of_nat j" using assms(3) by simp
  then show ?thesis using assms(1,2) by (metis unat_of_nat_u32)
qed

lemma fold_copy:
  assumes "distinct is" "\<And>i. i \<in> set is \<Longrightarrow> i < n" "n \<le> 4294967296"
    and "addrs dst n \<inter> addrs src n = {}"
  shows "fold (\<lambda>i m. m(dst + of_nat i := m (src + of_nat i))) is m x =
    (if \<exists>i\<in>set is. x = dst + of_nat i then m (src + (x - dst)) else m x)"
  using assms(1,2)
proof (induction "is" arbitrary: m)
  case Nil
  then show ?case by simp
next
  case (Cons k ks)
  let ?m = "m(dst + of_nat k := m (src + of_nat k))"
  have k: "k < n" using Cons.prems(2) by simp
  have src: "?m (src + of_nat j) = m (src + of_nat j)" if "j < n" for j
  proof -
    have "src + of_nat j \<noteq> dst + of_nat k"
      using assms(4) that k by (auto simp: addrs_def)
    then show ?thesis by simp
  qed
  let ?f = "\<lambda>i m. m(dst + of_nat i := m (src + of_nat i))"
  have IH: "fold ?f ks ?m x =
      (if \<exists>i\<in>set ks. x = dst + of_nat i then ?m (src + (x - dst)) else ?m x)"
    by (rule Cons.IH) (use Cons.prems in auto)
  have step: "fold ?f (k # ks) m x = fold ?f ks ?m x" by simp
  show ?case
  proof (cases "\<exists>i\<in>set ks. x = dst + of_nat i")
    case True
    then obtain i where i: "i \<in> set ks" "x = dst + of_nat i" by blast
    then have "x - dst = of_nat i" "i < n" using Cons.prems(2) by simp_all
    then have val: "?m (src + (x - dst)) = m (src + (x - dst))"
      using src [of i] by (simp only:)
    have "\<exists>i\<in>set (k # ks). x = dst + of_nat i" using True by auto
    then show ?thesis using step IH True val by (simp only: if_True)
  next
    case False
    show ?thesis
    proof (cases "x = dst + of_nat k")
      case True
      then have "?m x = m (src + (x - dst))" by simp
      moreover have "\<exists>i\<in>set (k # ks). x = dst + of_nat i" using True by auto
      ultimately show ?thesis using step IH False by (simp only: if_True if_False)
    next
      case no: False
      then have "?m x = m x" by simp
      moreover have "\<not> (\<exists>i\<in>set (k # ks). x = dst + of_nat i)" using no False by auto
      ultimately show ?thesis using step IH False by (simp only: if_False)
    qed
  qed
qed

lemma copy_up_disjoint:
  assumes "n \<le> 4294967296" "addrs dst n \<inter> addrs src n = {}"
  shows "copy_up dst src n m x = (if x \<in> addrs dst n then m (src + (x - dst)) else m x)"
  using fold_copy [of "[0..<n]" n dst src m x] assms by (auto simp: copy_up_def addrs_def)

lemma copy_down_disjoint:
  assumes "n \<le> 4294967296" "addrs dst n \<inter> addrs src n = {}"
  shows "copy_down dst src n m x = (if x \<in> addrs dst n then m (src + (x - dst)) else m x)"
  using fold_copy [of "rev [0..<n]" n dst src m x] assms by (auto simp: copy_down_def addrs_def)

lemma copy_up_read:
  assumes "n \<le> 4294967296" "addrs dst n \<inter> addrs src n = {}"
  shows "read_bytes (copy_up dst src n m) dst n = read_bytes m src n"
  using assms by (auto simp: read_bytes_def copy_up_disjoint addrs_def)

lemma copy_down_read:
  assumes "n \<le> 4294967296" "addrs dst n \<inter> addrs src n = {}"
  shows "read_bytes (copy_down dst src n m) dst n = read_bytes m src n"
  using assms by (auto simp: read_bytes_def copy_down_disjoint addrs_def)

text \<open>Whatever the overlap, a copy writes only its destination.\<close>

lemma fold_copy_frame:
  "(\<And>i. i \<in> set is \<Longrightarrow> x \<noteq> dst + of_nat i) \<Longrightarrow>
   fold (\<lambda>i m. m(dst + of_nat i := m (src + of_nat i))) is m x = m x"
  for x dst src :: u32
  by (induction "is" arbitrary: m) auto

lemma copy_up_frame: "x \<notin> addrs dst n \<Longrightarrow> copy_up dst src n m x = m x"
  by (auto simp: copy_up_def addrs_def intro: fold_copy_frame)

lemma copy_down_frame: "x \<notin> addrs dst n \<Longrightarrow> copy_down dst src n m x = m x"
  by (auto simp: copy_down_def addrs_def intro: fold_copy_frame)

lemma addrs_interval:
  assumes "unat a + n \<le> 4294967296"
  shows "x \<in> addrs a n \<longleftrightarrow> unat a \<le> unat x \<and> unat x < unat a + n"
proof
  assume "x \<in> addrs a n"
  then obtain i where i: "i < n" "x = a + of_nat i" by (auto simp: addrs_def)
  then have "unat x = unat a + i"
    using assms by (simp add: unat_word_ariths unat_of_nat)
  then show "unat a \<le> unat x \<and> unat x < unat a + n" using i by simp
next
  assume x: "unat a \<le> unat x \<and> unat x < unat a + n"
  have "x = a + of_nat (unat x - unat a)"
    using x by (simp add: of_nat_diff)
  then show "x \<in> addrs a n"
    using x unfolding addrs_def by (intro image_eqI [of _ _ "unat x - unat a"]) auto
qed

end
