(* ===== verification/BufferPack.thy ===== *)
theory BufferPack
  imports Prelude
begin

text \<open>
  Formatting: src/lib/buffer_pack.c, src/lib/i2a.c and src/lib/string.c. A routine that writes into
  a buffer returns the bytes it writes; the offset it returns is their number. Strings are read as
  byte lists that contain their terminating NUL: reading past the end of the list is a fault.
\<close>

section \<open>Packing numbers\<close>

(* src/src/lib/buffer_pack.c:3-6 *)
definition buf_pack_c :: "u8 \<Rightarrow> u8 list" where
  "buf_pack_c c = [c]"

text \<open>\<^verbatim>\<open>while ((i / d) >= base) d *= base\<close>. It need not end (base 1), and \<^verbatim>\<open>d\<close> may become 0 (base 0).\<close>

(* src/src/lib/buffer_pack.c:18-18 *)
partial_function (option) bp_scale :: "u32 \<Rightarrow> u32 \<Rightarrow> u32 \<Rightarrow> u32 option" where
  "bp_scale i base d =
     (if d = 0 then None
      else if base \<le> i div d then bp_scale i base (d * base) else Some d)"

text \<open>\<^verbatim>\<open>dgt\<close> is an \<^verbatim>\<open>int\<close>; the digit is stored as a \<^verbatim>\<open>char\<close>.\<close>

definition digit_char :: "u32 \<Rightarrow> u8" where
  "digit_char dgt = ucast (dgt + (if sint dgt < 10 then 48 else 97 - 10))"

(* src/src/lib/buffer_pack.c:19-28 *)
partial_function (option) bp_digits :: "nat \<Rightarrow> u32 \<Rightarrow> u32 \<Rightarrow> u32 \<Rightarrow> u8 list option" where
  "bp_digits n i base d =
     (if d = 0 then Some []
      else if base = 0 then None
      else
        let dgt = i div d; i' = i mod d; d' = d div base in
        if 0 < n \<or> 0 < sint dgt \<or> d' = 0
        then do { bs \<leftarrow> bp_digits (Suc n) i' base d'; Some (buf_pack_c (digit_char dgt) @ bs) }
        else bp_digits n i' base d')"

(* src/src/lib/buffer_pack.c:8-30 *)
definition buf_pack_ui32 :: "u32 \<Rightarrow> u32 \<Rightarrow> u8 list option" where
  "buf_pack_ui32 i base = do {
     d \<leftarrow> bp_scale i base 1;
     bp_digits 0 i base d }"

(* src/src/lib/buffer_pack.c:32-51 *)
definition buf_pack_t :: "u32 \<Rightarrow> u8 list" where
  "buf_pack_t t =
     (if sint t < 10 then buf_pack_c 48 @ buf_pack_c (ucast (t + 48))
      else buf_pack_c (ucast (word_of_int (c_div (sint t) 10) + 48 :: u32)) @
           buf_pack_c (ucast (word_of_int (c_mod (sint t) 10) + 48 :: u32)))"

(* src/src/lib/buffer_pack.c:53-63 *)
definition buf_pack_i32 :: "u32 \<Rightarrow> u8 list option" where
  "buf_pack_i32 i =
     (if sint i < 0 then do { bs \<leftarrow> buf_pack_ui32 (- i) 10; Some (buf_pack_c 45 @ bs) }
      else buf_pack_ui32 i 10)"

(* src/src/lib/buffer_pack.c:65-74 *)
fun buf_pack_str :: "u8 list \<Rightarrow> u8 list option" where
  "buf_pack_str [] = None"
| "buf_pack_str (c # str) =
     (if c = 0 then Some [] else do { bs \<leftarrow> buf_pack_str str; Some (buf_pack_c c @ bs) })"

section \<open>Formats\<close>

text \<open>The variable arguments, in order: integers and \<^verbatim>\<open>char *\<close>. Fetching an argument that is not
  there, or one of the other kind, is a fault.\<close>

datatype va = VInt u32 | VStr "u8 list"

fun va_int :: "va list \<Rightarrow> (u32 \<times> va list) option" where
  "va_int (VInt i # va) = Some (i, va)"
| "va_int _ = None"

fun va_str :: "va list \<Rightarrow> (u8 list \<times> va list) option" where
  "va_str (VStr s # va) = Some (s, va)"
| "va_str _ = None"

text \<open>\<open>out\<close> is what has been written; the result is all the bytes written and the return value.
  The characters are t (116), c (99), u (117), d (100), s (115) and the percent sign (37).\<close>

(* src/src/lib/buffer_pack.c:76-114 *)
fun buf_pack_fmt :: "u8 list \<Rightarrow> va list \<Rightarrow> u8 list \<Rightarrow> (u8 list \<times> int) option" where
  "buf_pack_fmt [] va out = None"
| "buf_pack_fmt (c # fmt) va out =
     (if c = 0 then Some (out, int (length out))
      else if c \<noteq> 37 then buf_pack_fmt fmt va (out @ buf_pack_c c)
      else (case fmt of
        [] \<Rightarrow> None
      | c # fmt \<Rightarrow>
          if c = 116 then do {
            (t, va) \<leftarrow> va_int va; buf_pack_fmt fmt va (out @ buf_pack_t t) }
          else if c = 99 then do {
            (ch, va) \<leftarrow> va_int va; buf_pack_fmt fmt va (out @ buf_pack_c (ucast ch)) }
          else if c = 117 then do {
            (u, va) \<leftarrow> va_int va; bs \<leftarrow> buf_pack_ui32 u 10; buf_pack_fmt fmt va (out @ bs) }
          else if c = 100 then do {
            (i, va) \<leftarrow> va_int va; bs \<leftarrow> buf_pack_i32 i; buf_pack_fmt fmt va (out @ bs) }
          else if c = 115 then do {
            (s, va) \<leftarrow> va_str va; bs \<leftarrow> buf_pack_str s; buf_pack_fmt fmt va (out @ bs) }
          else if c = 37 then buf_pack_fmt fmt va (out @ buf_pack_c c)
          else Some (out, -1)))"

(* src/src/lib/buffer_pack.c:117-128 *)
definition buf_pack_f :: "u8 list \<Rightarrow> va list \<Rightarrow> (u8 list \<times> int) option" where
  "buf_pack_f fmt va = buf_pack_fmt fmt va []"

text \<open>A C string literal of ASCII characters.\<close>

definition lit :: "string \<Rightarrow> u8 list" where
  "lit s = map of_char s @ [0]"

section \<open>Integers to strings, and strings\<close>

text \<open>The loops of \<^verbatim>\<open>ui2a\<close> are those of \<^verbatim>\<open>buf_pack_ui32\<close> (\<^verbatim>\<open>num\<close> and \<^verbatim>\<open>base\<close> are \<^verbatim>\<open>int\<close>s, but \<^verbatim>\<open>d\<close> is
  unsigned and makes the arithmetic unsigned). The result is the buffer and the size.\<close>

(* src/src/lib/i2a.c:3-20 *)
definition ui2a :: "u32 \<Rightarrow> u32 \<Rightarrow> (u8 list \<times> nat) option" where
  "ui2a num base = do {
     d \<leftarrow> bp_scale num base 1;
     bs \<leftarrow> bp_digits 0 num base d;
     Some (bs @ [0], length bs) }"

(* src/src/lib/i2a.c:22-33 *)
definition i2a :: "u32 \<Rightarrow> (u8 list \<times> nat) option" where
  "i2a num =
     (if sint num < 0 then do {
        (bf, usize) \<leftarrow> ui2a (- num) 10; Some (45 # bf, usize + 1) }
      else ui2a num 10)"

(* src/src/lib/string.c:4-11 *)
fun strlen :: "u8 list \<Rightarrow> nat option" where
  "strlen [] = None"
| "strlen (c # str) = (if c \<noteq> 0 then map_option Suc (strlen str) else Some 0)"

(* src/src/lib/string.c:15-18 *)
fun streq :: "u8 list \<Rightarrow> u8 list \<Rightarrow> bool option" where
  "streq (c # cs) (s # ss) =
     (if c \<noteq> 0 \<and> s \<noteq> 0 \<and> c = s then streq cs ss else Some (c = s \<and> c = 0))"
| "streq _ _ = None"

section \<open>The digits of a number\<close>

definition digits_val :: "nat \<Rightarrow> nat list \<Rightarrow> nat" where
  "digits_val b ds = fold (\<lambda>x a. a * b + x) ds 0"

lemma fold_digits: "fold (\<lambda>x a. a * b + x) ds a = a * b ^ length ds + digits_val b ds"
  unfolding digits_val_def
proof (induction ds arbitrary: a)
  case (Cons x ds)
  show ?case
    unfolding fold.simps o_apply Cons [of "a * b + x"] Cons [of "0 * b + x"]
    by (simp add: algebra_simps)
qed simp

lemma digits_val_Nil [simp]: "digits_val b [] = 0"
  by (simp add: digits_val_def)

lemma digits_val_Cons [simp]: "digits_val b (x # ds) = x * b ^ length ds + digits_val b ds"
  using fold_digits [of b ds x] by (simp add: digits_val_def)

lemma bp_scale_ok:
  assumes b: "2 \<le> unat base"
  shows "unat d = unat base ^ k \<Longrightarrow> unat base ^ k \<le> unat i \<or> k = 0 \<Longrightarrow>
    \<exists>d' k'. bp_scale i base d = Some d' \<and> unat d' = unat base ^ k' \<and> unat i < unat base ^ Suc k'"
proof (induction "unat i - unat base ^ k" arbitrary: d k rule: less_induct)
  case less
  have d: "d \<noteq> 0" using less.prems(1) b by auto
  show ?case
  proof (cases "base \<le> i div d")
    case False
    then have "unat i div unat d < unat base"
      by (simp add: word_le_nat_alt unat_div_distrib)
    then have "unat i < unat base ^ Suc k"
      using d less.prems(1) b by (simp add: div_less_iff_less_mult)
    then show ?thesis
      using False d less.prems(1) by (subst bp_scale.simps) auto
  next
    case True
    then have "unat base \<le> unat i div unat base ^ k"
      using less.prems(1) by (simp add: word_le_nat_alt unat_div_distrib)
    then have le: "unat base ^ Suc k \<le> unat i"
      using b by (simp add: less_eq_div_iff_mult_less_eq)
    have "unat i < 2 ^ 32"
      using unsigned_less [of i] by simp
    with le have "unat base ^ Suc k < 2 ^ 32"
      by (rule le_less_trans)
    then have d': "unat (d * base) = unat base ^ Suc k"
      using less.prems(1) by (simp add: unat_word_ariths mult.commute)
    have "unat base ^ k < unat base ^ Suc k" using b by simp
    then have "unat i - unat base ^ Suc k < unat i - unat base ^ k"
      using le by linarith
    from less.hyps [OF this d'] le show ?thesis
      using True d by (subst bp_scale.simps) auto
  qed
qed

lemma bp_digits_ok:
  assumes b: "2 \<le> unat base" "unat base \<le> 36"
  shows "unat d = unat base ^ k \<Longrightarrow> unat i < unat base ^ Suc k \<Longrightarrow>
    \<exists>ds. bp_digits n i base d = Some (map digit_char ds) \<and>
      digits_val (unat base) (map unat ds) = unat i \<and> (\<forall>x\<in>set ds. x < base) \<and> ds \<noteq> [] \<and>
      (if 0 < n then length ds = Suc k else length ds \<le> Suc k \<and> (hd ds = 0 \<longrightarrow> ds = [0]))"
proof (induction k arbitrary: d i n)
  case 0
  have d: "d = 1" using "0.prems"(1) by (metis power_0 unat_1 word_unat_eq_iff)
  have "unat i < unat base" using "0.prems"(2) by simp
  then have i: "i < base" by (simp add: word_less_nat_alt)
  have base: "(1::u32) div base = 0" "base \<noteq> 0"
    using b by (auto simp: word_arith_nat_div word_le_nat_alt)
  have "bp_digits n i base d = Some (map digit_char [i])"
    unfolding d using base
    by (subst bp_digits.simps) (simp add: Let_def bp_digits.simps [of _ _ _ 0] buf_pack_c_def)
  then show ?case
    using i by (intro exI [of _ "[i]"]) auto
next
  case (Suc k)
  let ?b = "unat base" and ?dgt = "i div d" and ?i = "i mod d" and ?d = "d div base"
  have d0: "d \<noteq> 0" using Suc.prems(1) b by auto
  have b0: "base \<noteq> 0" using b by auto
  have d': "unat ?d = ?b ^ k"
    using Suc.prems(1) b by (simp add: unat_div_distrib)
  then have d'0: "?d \<noteq> 0" using b by (metis power_not_zero unat_0 not_numeral_le_zero)
  have i': "unat ?i < ?b ^ Suc k"
    using Suc.prems(1) b by (simp add: unat_mod_distrib)
  have dgt: "unat ?dgt < ?b"
    using Suc.prems b by (simp add: unat_div_distrib less_mult_imp_div_less mult.commute)
  have sdgt: "sint ?dgt = int (unat ?dgt)"
    using dgt b by (intro sint_u32_int) simp
  have pos: "0 < sint ?dgt \<longleftrightarrow> 0 < unat ?dgt"
    unfolding sdgt by (simp only: of_nat_0_less_iff)
  have split: "unat i = unat ?dgt * ?b ^ Suc k + unat ?i"
  proof -
    have "unat ?dgt * unat d + unat ?i = unat i"
      by (simp add: unat_div_distrib unat_mod_distrib)
    then show ?thesis by (simp only: Suc.prems(1))
  qed
  show ?case
  proof (cases "0 < n \<or> 0 < unat ?dgt")
    case True
    obtain ds where ds: "bp_digits (Suc n) ?i base ?d = Some (map digit_char ds)"
      "digits_val ?b (map unat ds) = unat ?i" "\<forall>x\<in>set ds. x < base" "length ds = Suc k"
      using Suc.IH [OF d' i', of "Suc n"] by auto
    have "bp_digits n i base d = Some (map digit_char (?dgt # ds))"
      using True d0 b0 ds(1) pos
      by (subst bp_digits.simps) (auto simp: Let_def buf_pack_c_def)
    moreover have "?dgt < base" using dgt by (simp add: word_less_nat_alt)
    moreover have "digits_val ?b (map unat (?dgt # ds)) = unat i"
      using split ds(2,4) by simp
    moreover have "?dgt \<noteq> 0" if "n = 0" using True that by auto
    ultimately show ?thesis
      using ds(3,4) by (intro exI [of _ "?dgt # ds"]) auto
  next
    case False
    then have n: "n = 0" "unat ?dgt = 0" by auto
    obtain ds where ds: "bp_digits 0 ?i base ?d = Some (map digit_char ds)"
      "digits_val ?b (map unat ds) = unat ?i" "\<forall>x\<in>set ds. x < base" "ds \<noteq> []"
      "length ds \<le> Suc k" "hd ds = 0 \<longrightarrow> ds = [0]"
      using Suc.IH [OF d' i', of 0] by auto
    have "bp_digits n i base d = Some (map digit_char ds)"
      using n d0 b0 d'0 ds(1) pos
      by (subst bp_digits.simps) (simp add: Let_def)
    moreover have "digits_val ?b (map unat ds) = unat i"
      using split ds(2) n by simp
    ultimately show ?thesis
      using ds n by (intro exI [of _ ds]) auto
  qed
qed

text \<open>What \<^verbatim>\<open>buf_pack_ui32\<close> writes: the digits of the number, most significant first, without
  leading zeros.\<close>

lemma buf_pack_ui32_digits:
  assumes "2 \<le> unat base" "unat base \<le> 36"
  shows "\<exists>ds. buf_pack_ui32 i base = Some (map digit_char ds) \<and>
    digits_val (unat base) (map unat ds) = unat i \<and> (\<forall>x\<in>set ds. x < base) \<and> ds \<noteq> [] \<and>
    (hd ds = 0 \<longrightarrow> ds = [0])"
proof -
  obtain d k where d: "bp_scale i base 1 = Some d" "unat d = unat base ^ k"
    "unat i < unat base ^ Suc k"
    using bp_scale_ok [OF assms(1), of 1 0 i] by auto
  then show ?thesis
    using bp_digits_ok [OF assms d(2,3), of 0] by (simp add: buf_pack_ui32_def) blast
qed

end
