(* ===== verification/Kernel.thy ===== *)
theory Kernel
  imports ReadyQueue InterruptMatrix Memory BufferPack
begin

text \<open>
  The kernel: src/kernel/kernel.c, src/kernel/kernel_task.c, src/kernel/system.c and
  src/kernel/handlers/. The kernel state is the record of the kernel's globals, of user memory
  and of the device registers. A handler is a function from kernel states to kernel states that may
  fault; the task it handles is given by its index in \<^verbatim>\<open>tasks\<close>.

  Device registers are read as they are when the kernel is entered, apart from what a
  handler writes itself. The code that is not C, \<^verbatim>\<open>activate\<close>, is a transition of the
  environment (theory KernelRun).
\<close>

section \<open>The state\<close>

(* src/include/kernel/kernel.h:36-40 *)
record kstate =
  ks_mem :: mem
  ks_io :: "u32 \<Rightarrow> u32"
  ks_ksp :: u32
  ks_tasks :: tds
  ks_running :: "nat option"
  ks_tids :: TidTracker
  ks_pq :: priority_queue
  ks_im :: interrupt_matrix
  ks_ns :: u32

text \<open>Device registers of include/ts7200.h.\<close>

definition TIMER1_BASE :: u32 where "TIMER1_BASE = 0x80810000"
definition TIMER3_BASE :: u32 where "TIMER3_BASE = 0x80810080"
definition UART1_BASE :: u32 where "UART1_BASE = 0x808c0000"
definition UART2_BASE :: u32 where "UART2_BASE = 0x808d0000"
definition VIC1_BASE :: u32 where "VIC1_BASE = 0x800B0000"
definition VIC2_BASE :: u32 where "VIC2_BASE = 0x800C0000"
definition UART_CTRL_OFFSET :: u32 where "UART_CTRL_OFFSET = 0x14"
definition UART_INTR_OFFSET :: u32 where "UART_INTR_OFFSET = 0x1c"

definition TM_CLOCK_LDR :: u32 where "TM_CLOCK_LDR = TIMER3_BASE OR 0"
definition TM_CLOCK_VAL :: u32 where "TM_CLOCK_VAL = TIMER3_BASE OR 4"
definition TM_CLOCK_CTRL :: u32 where "TM_CLOCK_CTRL = TIMER3_BASE OR 8"
(* src/include/defines.h:20-20 *)
definition KERNEL_STACK_BASE :: u32 where "KERNEL_STACK_BASE = 0x01000000"
definition VIC1_ENABLED :: u32 where "VIC1_ENABLED = push_bit 4 1"
definition VIC2_ENABLED :: u32 where
  "VIC2_ENABLED = push_bit 19 1 OR push_bit 20 1 OR push_bit 22 1"

text \<open>Updating one descriptor, and \<^verbatim>\<open>pq_push(&pq_tasks, priority, td)\<close>, whose return code every caller
  ignores.\<close>

definition mod_td :: "nat \<Rightarrow> (TaskDescriptor \<Rightarrow> TaskDescriptor) \<Rightarrow> kstate \<Rightarrow> kstate option" where
  "mod_td t f s = do {
     td \<leftarrow> aget (ks_tasks s) t;
     Some (s\<lparr>ks_tasks := (ks_tasks s)[t := f td]\<rparr>) }"

definition k_push :: "int \<Rightarrow> nat \<Rightarrow> kstate \<Rightarrow> kstate option" where
  "k_push priority t s = do {
     (_, pq, ts) \<leftarrow> pq_push (ks_pq s) priority t (ks_tasks s);
     Some (s\<lparr>ks_pq := pq, ks_tasks := ts\<rparr>) }"

definition k_ready :: "nat \<Rightarrow> kstate \<Rightarrow> kstate option" where
  "k_ready t s = do {
     td \<leftarrow> aget (ks_tasks s) t;
     k_push (td_priority td) t s }"

text \<open>The word at offset \<open>n\<close> of a task's saved stack: its system call arguments are there.\<close>

definition arg :: "kstate \<Rightarrow> TaskDescriptor \<Rightarrow> u32 \<Rightarrow> u32" where
  "arg s td n = ldr (ks_mem s) (td_sp td + n)"

section \<open>Creating tasks\<close>

definition user_stack :: "u32 \<Rightarrow> u32" where
  "user_stack tid = USER_STACK_BASE - TID_ID tid * USER_STACK_SIZE"

text \<open>\<^verbatim>\<open>stmfd sp, {r8}\<close> stores below \<^verbatim>\<open>sp\<close> and leaves \<^verbatim>\<open>sp\<close> as it is.\<close>

(* src/src/kernel/kernel_task.c:3-26 *)
definition ktd_create ::
  "nat \<Rightarrow> u32 \<Rightarrow> u32 \<Rightarrow> int \<Rightarrow> TaskStatus \<Rightarrow> nat option \<Rightarrow> kstate \<Rightarrow> kstate option" where
  "ktd_create t tid task priority status parent s =
     (let sp = user_stack tid;
          s1 = s\<lparr>ks_mem := str (ks_mem s) (sp - 4) task\<rparr> in
      mod_td t (\<lambda>td. td\<lparr>td_sp := sp - 60, td_tid := tid, td_psr := USER_MODE, td_task := task,
        td_status := status, td_it := IT_SWI, td_parent := parent, td_priority := priority,
        td_next := None, td_ret := 0, td_send_q := cb_init (td_send_q td),
        td_start_time := ks_io s TM_CLOCK_VAL, td_running_time := 0\<rparr>) s1)"

text \<open>The stack pointer below the arguments, which are rounded up to whole words.\<close>

definition args_base :: "u32 \<Rightarrow> int \<Rightarrow> u32" where
  "args_base sp argsize =
     sp - (if c_mod argsize 4 = 0 then word_of_int argsize
           else word_of_int (4 * (c_div argsize 4 + 1)))"

(* src/src/kernel/kernel_task.c:29-64 *)
definition ktd_create_args ::
  "nat \<Rightarrow> u32 \<Rightarrow> u32 \<Rightarrow> int \<Rightarrow> TaskStatus \<Rightarrow> nat option \<Rightarrow> u32 \<Rightarrow> int \<Rightarrow> kstate \<Rightarrow> kstate option" where
  "ktd_create_args t tid task priority status parent args argsize s =
     (let sp0 = user_stack tid;
          sp1 = (if 0 < argsize then args_base sp0 argsize else sp0);
          mem = (if 0 < argsize then copy_down sp1 args (nat argsize) (ks_mem s) else ks_mem s);
          ret = (if 0 < argsize then sp1 else 0);
          sp2 = (if 0 < argsize then sp1 - 4 else sp0);
          s1 = s\<lparr>ks_mem := str mem (sp2 - 4) task\<rparr> in
      mod_td t (\<lambda>td. td\<lparr>td_sp := sp2 - 60, td_tid := tid, td_psr := USER_MODE, td_task := task,
        td_status := status, td_it := IT_SWI, td_parent := parent, td_priority := priority,
        td_next := None, td_ret := ret, td_send_q := cb_init (td_send_q td),
        td_start_time := ks_io s TM_CLOCK_VAL, td_running_time := 0\<rparr>) s1)"

(* src/src/kernel/handlers/create.c:3-23 *)
definition create :: "nat \<Rightarrow> kstate \<Rightarrow> kstate option" where
  "create t s = do {
     (tid, tids) \<leftarrow> tt_get (ks_tids s);
     let s = s\<lparr>ks_tids := tids\<rparr>;
     td \<leftarrow> aget (ks_tasks s) t;
     let priority = sint (arg s td 4);
     let task = arg s td 8;
     kassert (IS_VALID_PRIORITY priority);
     if sint tid < 0 then do {
       s \<leftarrow> mod_td t (td_ret_update (\<lambda>_. - 2)) s;
       kassert False;
       Some s }
     else do {
       let nt = unat (TID_ID tid);
       s \<leftarrow> ktd_create nt tid task priority TS_READY (Some t) s;
       s \<leftarrow> k_push priority nt s;
       mod_td t (td_ret_update (\<lambda>_. tid)) s } }"

(* src/src/kernel/handlers/create.c:26-49 *)
definition create_w_args :: "nat \<Rightarrow> kstate \<Rightarrow> kstate option" where
  "create_w_args t s = do {
     (tid, tids) \<leftarrow> tt_get (ks_tids s);
     let s = s\<lparr>ks_tids := tids\<rparr>;
     td \<leftarrow> aget (ks_tasks s) t;
     let priority = sint (arg s td 4);
     let task = arg s td 8;
     let args = arg s td 12;
     let argsize = sint (arg s td 16);
     kassert (IS_VALID_PRIORITY priority);
     if sint tid < 0 then do {
       s \<leftarrow> mod_td t (td_ret_update (\<lambda>_. - 2)) s;
       kassert False;
       Some s }
     else do {
       let nt = unat (TID_ID tid);
       s \<leftarrow> ktd_create_args nt tid task priority TS_READY (Some t) args argsize s;
       s \<leftarrow> k_push priority nt s;
       mod_td t (td_ret_update (\<lambda>_. tid)) s } }"

section \<open>Messages\<close>

text \<open>The delivery of a message, which \<^verbatim>\<open>send_handler\<close> and \<^verbatim>\<open>receive_handler\<close> spell out
  alike: the steps 1 to 4 of their comments.\<close>

(* src/src/kernel/handlers/msg.c:20-51 *)
definition deliver :: "nat \<Rightarrow> nat \<Rightarrow> kstate \<Rightarrow> kstate option" where
  "deliver st rt s = do {
     std \<leftarrow> aget (ks_tasks s) st;
     rtd \<leftarrow> aget (ks_tasks s) rt;
     let smsg = arg s std 8;
     let msg_len = sint (arg s std 12);
     kassert (smsg \<noteq> 0);
     kassert (IS_VALID_USER_P (td_tid std) smsg);
     kassert (0 < msg_len \<and> msg_len < 5000);
     let rtid = arg s rtd 4;
     let rmsg = arg s rtd 8;
     kassert (IS_VALID_USER_P (td_tid rtd) rtid);
     kassert (IS_VALID_USER_P (td_tid rtd) rmsg);
     kassert (rmsg \<noteq> 0);
     let m = copy_up rmsg smsg (nat msg_len) (ks_mem s);
     let m = str m rtid (td_tid std);
     s \<leftarrow> mod_td rt (td_status_update (\<lambda>_. TS_READY)) (s\<lparr>ks_mem := m\<rparr>);
     s \<leftarrow> k_ready rt s;
     mod_td st (td_status_update (\<lambda>_. TS_RPL_BL)) s }"

(* src/src/kernel/handlers/msg.c:3-64 *)
definition send_handler :: "nat \<Rightarrow> kstate \<Rightarrow> kstate option" where
  "send_handler t s = do {
     std \<leftarrow> aget (ks_tasks s) t;
     let stid = TID_ID (arg s std 4);
     kassert (IS_VALID_ID stid);
     let rt = unat stid;
     rtd \<leftarrow> aget (ks_tasks s) rt;
     kassert (td_status rtd \<noteq> TS_UNINIT);
     kassert (td_status rtd \<noteq> TS_ZOMBIE);
     s \<leftarrow> (if td_status rtd = TS_SND_BL then deliver t rt s
          else do {
            (r, q) \<leftarrow> cb_push MAX_TASK (td_tid std) (td_send_q rtd);
            kassert (r = CB_E_NONE);
            s \<leftarrow> mod_td rt (td_send_q_update (\<lambda>_. q)) s;
            mod_td t (td_status_update (\<lambda>_. TS_RCV_BL)) s });
     mod_td t (td_ret_update (\<lambda>_. 0)) s }"

(* src/src/kernel/handlers/msg.c:66-125 *)
definition receive_handler :: "nat \<Rightarrow> kstate \<Rightarrow> kstate option" where
  "receive_handler t s = do {
     rtd \<leftarrow> aget (ks_tasks s) t;
     s \<leftarrow> (if 0 < cb_size (td_send_q rtd) then do {
            (r, x, q) \<leftarrow> cb_pop MAX_TASK (td_send_q rtd);
            kassert (r = CB_E_NONE);
            stid \<leftarrow> x;
            s \<leftarrow> mod_td t (td_send_q_update (\<lambda>_. q)) s;
            kassert (IS_VALID_ID (TID_ID stid));
            let st = unat (TID_ID stid);
            std \<leftarrow> aget (ks_tasks s) st;
            kassert (td_status std \<noteq> TS_UNINIT \<and> td_status std \<noteq> TS_ZOMBIE);
            deliver st t s }
          else mod_td t (td_status_update (\<lambda>_. TS_SND_BL)) s);
     mod_td t (td_ret_update (\<lambda>_. 0)) s }"

(* src/src/kernel/handlers/msg.c:128-168 *)
definition reply_handler :: "nat \<Rightarrow> kstate \<Rightarrow> kstate option" where
  "reply_handler t s = do {
     rtd \<leftarrow> aget (ks_tasks s) t;
     let stid = TID_ID (arg s rtd 4);
     let rreply = arg s rtd 8;
     let msg_len = sint (arg s rtd 12);
     kassert (IS_VALID_ID stid);
     kassert (IS_VALID_USER_P (td_tid rtd) rreply);
     kassert (0 < msg_len \<and> msg_len < 5000);
     let st = unat stid;
     std \<leftarrow> aget (ks_tasks s) st;
     let sreply = arg s std 16;
     kassert (td_status rtd = TS_READY);
     kassert (td_status std = TS_RPL_BL);
     kassert (IS_VALID_USER_P (td_tid std) sreply);
     let s = s\<lparr>ks_mem := copy_up sreply rreply (nat msg_len) (ks_mem s)\<rparr>;
     s \<leftarrow> mod_td st (td_status_update (\<lambda>_. TS_READY)) s;
     s \<leftarrow> k_ready st s;
     s \<leftarrow> mod_td t (td_ret_update (\<lambda>_. 0) \<circ> td_status_update (\<lambda>_. TS_READY)) s;
     k_ready t s }"

section \<open>Interrupts\<close>

(* src/src/kernel/handlers/interrupt.c:18-45 *)
definition get_interrupt_ret :: "u32 \<Rightarrow> kstate \<Rightarrow> u32 option" where
  "get_interrupt_ret ie s =
     (if ie = IE_TC1UI then Some (ks_io s (TIMER1_BASE OR 4))
      else if ie = IE_TC3UI then Some (ks_io s (TIMER3_BASE OR 4))
      else if ie \<in> {IE_UART2_TX, IE_UART2_RX, IE_UART2_MI, IE_UART2_RT, IE_UART1_TX, IE_UART1_RX,
                    IE_UART1_MI, IE_UART1_RT} then Some 0
      else None)"

(* src/src/kernel/handlers/interrupt.c:47-49 *)
definition remove_assert :: "u32 \<Rightarrow> kstate \<Rightarrow> kstate option" where
  "remove_assert ie s = do {
     f \<leftarrow> aset (im_stored_flag (ks_im s)) (unat ie) 0;
     Some (s\<lparr>ks_im := (ks_im s)\<lparr>im_stored_flag := f\<rparr>\<rparr>) }"

(* src/src/kernel/handlers/interrupt.c:51-53 *)
definition store_assert :: "u32 \<Rightarrow> kstate \<Rightarrow> kstate option" where
  "store_assert ie s = do {
     n \<leftarrow> aget (im_stored_flag (ks_im s)) (unat ie);
     f \<leftarrow> aset (im_stored_flag (ks_im s)) (unat ie) (n + 1);
     Some (s\<lparr>ks_im := (ks_im s)\<lparr>im_stored_flag := f\<rparr>\<rparr>) }"

text \<open>The \<^verbatim>\<open>while\<close> loop of \<^verbatim>\<open>wakeall\<close>.\<close>

(* src/src/kernel/handlers/interrupt.c:55-64 *)
partial_function (option) wakeall :: "u32 \<Rightarrow> kstate \<Rightarrow> kstate option" where
  "wakeall ie s = do {
     n \<leftarrow> im_eventsize (ks_im s) ie;
     if 0 < n then do {
       (r, x, im) \<leftarrow> im_pop (ks_im s) ie;
       kassert (r = CB_E_NONE);
       t \<leftarrow> x;
       ret \<leftarrow> get_interrupt_ret ie s;
       s \<leftarrow> mod_td t (td_ret_update (\<lambda>_. ret)) (s\<lparr>ks_im := im\<rparr>);
       s \<leftarrow> k_ready t s;
       wakeall ie s }
     else Some s }"

text \<open>Registers that \<^verbatim>\<open>clear_interrupt\<close> writes: a bit of a control register is cleared, or 1 is
  written to a clear register.\<close>

definition io_clear_bit :: "u32 \<Rightarrow> nat \<Rightarrow> (u32 \<Rightarrow> u32) \<Rightarrow> u32 \<Rightarrow> u32" where
  "io_clear_bit a b io = io(a := io a AND NOT (push_bit b 1))"

(* src/src/kernel/handlers/interrupt.c:66-103 *)
definition clear_interrupt :: "u32 \<Rightarrow> kstate \<Rightarrow> kstate option" where
  "clear_interrupt ie s =
     (let io = ks_io s; ctrl1 = UART1_BASE + UART_CTRL_OFFSET; ctrl2 = UART2_BASE + UART_CTRL_OFFSET in
      if ie = IE_TC1UI then Some (s\<lparr>ks_io := io(TIMER1_BASE OR 0xc := 1)\<rparr>)
      else if ie = IE_TC3UI then Some (s\<lparr>ks_io := io(TIMER3_BASE OR 0xc := 1)\<rparr>)
      else if ie = IE_UART2_TX then Some (s\<lparr>ks_io := io_clear_bit ctrl2 5 io\<rparr>)
      else if ie = IE_UART2_RX then Some (s\<lparr>ks_io := io_clear_bit ctrl2 4 io\<rparr>)
      else if ie = IE_UART2_RT then Some (s\<lparr>ks_io := io_clear_bit ctrl2 6 io\<rparr>)
      else if ie = IE_UART2_MI then
        Some (s\<lparr>ks_io := (io_clear_bit ctrl2 3 io)(UART2_BASE OR UART_INTR_OFFSET := 1)\<rparr>)
      else if ie = IE_UART1_TX then Some (s\<lparr>ks_io := io_clear_bit ctrl1 5 io\<rparr>)
      else if ie = IE_UART1_RX then Some (s\<lparr>ks_io := io_clear_bit ctrl1 4 io\<rparr>)
      else if ie = IE_UART1_RT then Some (s\<lparr>ks_io := io_clear_bit ctrl1 6 io\<rparr>)
      else if ie = IE_UART1_MI then
        Some (s\<lparr>ks_io := (io_clear_bit ctrl1 3 io)(UART1_BASE OR UART_INTR_OFFSET := 1)\<rparr>)
      else None)"

(* src/src/kernel/handlers/interrupt.c:105-107 *)
definition is_interrupt_stored :: "u32 \<Rightarrow> kstate \<Rightarrow> bool option" where
  "is_interrupt_stored ie s = do {
     n \<leftarrow> aget (im_stored_flag (ks_im s)) (unat ie);
     Some (n \<noteq> 0) }"

text \<open>The UART events share one interrupt line and are told apart by the UART's own
  interrupt register.\<close>

definition uart_asserted :: "u32 \<Rightarrow> u32 \<Rightarrow> u32 \<Rightarrow> kstate \<Rightarrow> bool" where
  "uart_asserted ie base bits s \<longleftrightarrow>
     bit (ks_io s (VIC2_BASE OR 0)) (unat (ie - 32)) \<and>
     ks_io s (base OR UART_INTR_OFFSET) AND bits \<noteq> 0"

(* src/src/kernel/handlers/interrupt.c:109-168 *)
definition is_interrupt_asserted :: "u32 \<Rightarrow> kstate \<Rightarrow> bool option" where
  "is_interrupt_asserted ie s =
     (if ie < 32 then Some (bit (ks_io s (VIC1_BASE OR 0)) (unat ie))
      else if ie < 64 then Some (bit (ks_io s (VIC2_BASE OR 0)) (unat (ie - 32)))
      else if ie = IE_UART2_TX then Some (uart_asserted IE_UART2 UART2_BASE 0x4 s)
      else if ie = IE_UART2_RX then Some (uart_asserted IE_UART2 UART2_BASE 0x2 s)
      else if ie = IE_UART2_RT then Some (uart_asserted IE_UART2 UART2_BASE 0x8 s)
      else if ie = IE_UART2_MI then Some (uart_asserted IE_UART2 UART2_BASE 0x1 s)
      else if ie = IE_UART1_TX then Some (uart_asserted IE_UART1 UART1_BASE 0x4 s)
      else if ie = IE_UART1_RX then Some (uart_asserted IE_UART1 UART1_BASE 0x2 s)
      else if ie = IE_UART1_RT then Some (uart_asserted IE_UART1 UART1_BASE 0x8 s)
      else if ie = IE_UART1_MI then Some (uart_asserted IE_UART1 UART1_BASE 0x1 s)
      else None)"

(* src/src/kernel/handlers/interrupt.c:170-183 *)
definition event_register :: "nat \<Rightarrow> kstate \<Rightarrow> kstate option" where
  "event_register t s = do {
     td \<leftarrow> aget (ks_tasks s) t;
     let ie = arg s td 4;
     stored \<leftarrow> is_interrupt_stored ie s;
     if stored then do {
       ret \<leftarrow> get_interrupt_ret ie s;
       s \<leftarrow> mod_td t (td_ret_update (\<lambda>_. ret)) s;
       s \<leftarrow> k_ready t s;
       remove_assert ie s }
     else do {
       (_, im) \<leftarrow> im_push (ks_im s) t ie;
       Some (s\<lparr>ks_im := im\<rparr>) } }"

(* src/src/kernel/handlers/interrupt.c:3-16 *)
definition WakePriority :: "u32 list" where
  "WakePriority = [IE_UART2_TX, IE_UART2_RX, IE_TC1UI, IE_TC3UI, IE_UART1_TX, IE_UART1_RX,
     IE_UART1_RT, IE_UART1_MI, IE_UART2_RT, IE_UART2_MI]"

fun event_wake_loop :: "u32 list \<Rightarrow> kstate \<Rightarrow> kstate option" where
  "event_wake_loop [] s = Some s"
| "event_wake_loop (ie # ies) s = do {
     asserted \<leftarrow> is_interrupt_asserted ie s;
     stored \<leftarrow> (if asserted then Some False else is_interrupt_stored ie s);
     if asserted \<or> stored then do {
       n \<leftarrow> im_eventsize (ks_im s) ie;
       if 0 < n then do {
         s \<leftarrow> wakeall ie s;
         s \<leftarrow> clear_interrupt ie s;
         remove_assert ie s }
       else do {
         s \<leftarrow> store_assert ie s;
         s \<leftarrow> clear_interrupt ie s;
         event_wake_loop ies s } }
     else event_wake_loop ies s }"

(* src/src/kernel/handlers/interrupt.c:185-204 *)
definition event_wake :: "kstate \<Rightarrow> kstate option" where
  "event_wake s = event_wake_loop WakePriority s"

section \<open>The name server's tid\<close>

(* src/src/kernel/handlers/nameserver.c:4-11 *)
definition ns_register :: "nat \<Rightarrow> kstate \<Rightarrow> kstate option" where
  "ns_register t s = do {
     td \<leftarrow> aget (ks_tasks s) t;
     kassert (IS_VALID_TID (td_tid td));
     kassert (IS_VALID_USER_P (td_tid td) (td_sp td));
     Some (s\<lparr>ks_ns := td_tid td\<rparr>) }"

(* src/src/kernel/handlers/nameserver.c:13-17 *)
definition ns_get :: "nat \<Rightarrow> kstate \<Rightarrow> kstate option" where
  "ns_get t s = do {
     td \<leftarrow> aget (ks_tasks s) t;
     kassert (td_status td \<noteq> TS_ZOMBIE \<and> td_status td \<noteq> TS_UNINIT);
     mod_td t (td_ret_update (\<lambda>_. ks_ns s)) s }"

section \<open>Information about tasks\<close>

(* src/src/kernel/kernel.c:178-180 *)
definition get_tid :: "nat \<Rightarrow> kstate \<Rightarrow> kstate option" where
  "get_tid t s = mod_td t (\<lambda>td. td\<lparr>td_ret := td_tid td\<rparr>) s"

(* src/src/kernel/kernel.c:182-184 *)
definition get_parentTid :: "nat \<Rightarrow> kstate \<Rightarrow> kstate option" where
  "get_parentTid t s = do {
     td \<leftarrow> aget (ks_tasks s) t;
     ret \<leftarrow> (case td_parent td of
              None \<Rightarrow> Some (- 1)
            | Some p \<Rightarrow> do { ptd \<leftarrow> aget (ks_tasks s) p; Some (td_tid ptd) });
     mod_td t (td_ret_update (\<lambda>_. ret)) s }"

(* src/src/kernel/system.c:34-39 *)
definition calc_mem_usage :: "kstate \<Rightarrow> u32" where
  "calc_mem_usage s = (KERNEL_STACK_BASE - ks_ksp s) div KERNEL_STACK_BASE"

(* src/src/kernel/kernel.c:186-197 *)
definition calc_cpu_time :: "nat \<Rightarrow> kstate \<Rightarrow> u32 option" where
  "calc_cpu_time t s = do {
     td \<leftarrow> aget (ks_tasks s) t;
     let id = unat (TID_ID (arg s td 4));
     other \<leftarrow> aget (ks_tasks s) id;
     let now = ks_io s TM_CLOCK_VAL;
     kassert (sint now < sint (td_start_time other));
     let total = sint (td_start_time other - now);
     kassert (total \<noteq> 0);
     Some (word_of_int (c_div (sint (td_running_time other * 100)) total)) }"

text \<open>The strings of \<^verbatim>\<open>task_info\<close>; the box-drawing characters are three bytes each in UTF-8.\<close>

definition TEXT_colour :: "u8 \<Rightarrow> string \<Rightarrow> u8 list" where
  "TEXT_colour c s = [27, 91, 51, c, 109] @ map of_char s @ [27, 91, 51, 48, 109, 0]"

fun stat_text :: "TaskStatus \<Rightarrow> u8 list" where
  "stat_text TS_ACTIVE = TEXT_colour 50 ''ACTIV''"
| "stat_text TS_READY = TEXT_colour 50 ''READY''"
| "stat_text TS_BLOCKED = TEXT_colour 49 ''REGBL''"
| "stat_text TS_UNINIT = TEXT_colour 49 ''UNINI''"
| "stat_text TS_ZOMBIE = TEXT_colour 49 ''ZOMBI''"
| "stat_text TS_RCV_BL = TEXT_colour 49 ''RCVBL''"
| "stat_text TS_SND_BL = TEXT_colour 51 ''SNDBL''"
| "stat_text TS_RPL_BL = TEXT_colour 49 ''RPLBL''"

definition info_head :: "u8 list" where
  "info_head = [11] @ map of_char '' TID'' @ [9, 0xe2, 0x94, 0x82] @ map of_char ''  PRI'' @
     [9, 0xe2, 0x94, 0x82] @ map of_char ''STAT'' @ [10, 0]"

definition info_rule :: "u8 list" where
  "info_rule = concat (replicate 21 [0xe2, 0x94, 0x80]) @ [10, 0]"

definition info_row :: "u8 list" where
  "info_row = map of_char '' %d  '' @ [9, 0xe2, 0x94, 0x82] @ map of_char ''  %d  '' @
     [9, 0xe2, 0x94, 0x82] @ map of_char ''%s'' @ [10, 0]"

fun info_rows :: "nat list \<Rightarrow> tds \<Rightarrow> u8 list option" where
  "info_rows [] ts = Some []"
| "info_rows (i # is) ts = do {
     td \<leftarrow> aget ts i;
     bs \<leftarrow> (if td_status td \<noteq> TS_ZOMBIE \<and> td_status td \<noteq> TS_UNINIT
           then map_option fst (buf_pack_f info_row
             [VInt (of_nat i), VInt (word_of_int (td_priority td)), VStr (stat_text (td_status td))])
           else Some []);
     rest \<leftarrow> info_rows is ts;
     Some (bs @ rest) }"

text \<open>The text of \<^verbatim>\<open>task_info\<close>: what its calls of the formatting routines write one after the other.\<close>

(* src/src/kernel/kernel.c:214-221 *)
definition info_text :: "tds \<Rightarrow> u8 list option" where
  "info_text ts = do {
     b1 \<leftarrow> buf_pack_str info_head;
     (b2, _) \<leftarrow> buf_pack_f info_rule [];
     b3 \<leftarrow> info_rows [0..<MAX_TASK] ts;
     Some (b1 @ b2 @ b3) }"

text \<open>The code does not check the caller's pointer. A text that does not lie within the caller's stack as a
  whole (a null pointer, the kernel's globals, another task's stack, an array that is too short for
  the end of the stack) is a write outside the caller's memory: a fault.\<close>

definition in_stack :: "u32 \<Rightarrow> u32 \<Rightarrow> nat \<Rightarrow> bool" where
  "in_stack tid p n \<longleftrightarrow>
     n \<le> unat USER_STACK_SIZE \<and> IS_VALID_USER_P tid p \<and> IS_VALID_USER_P tid (p + of_nat n)"

(* src/src/kernel/kernel.c:199-223 *)
definition task_info :: "nat \<Rightarrow> kstate \<Rightarrow> (u32 \<times> kstate) option" where
  "task_info t s = do {
     td \<leftarrow> aget (ks_tasks s) t;
     let buf = arg s td 4;
     bs \<leftarrow> info_text (ks_tasks s);
     kassert (in_stack (td_tid td) buf (length bs));
     Some (of_nat (length bs), s\<lparr>ks_mem := store_bytes buf bs (ks_mem s)\<rparr>) }"

section \<open>The dispatcher, the scheduler and the start\<close>

text \<open>A request leaves the kernel running or ends it (\<^verbatim>\<open>KABORT\<close>, \<^verbatim>\<open>KEXIT\<close>).\<close>

datatype kresult = K_run kstate | K_exit kstate

definition set_ret :: "nat \<Rightarrow> u32 \<Rightarrow> kstate \<Rightarrow> kstate option" where
  "set_ret t v s = mod_td t (td_ret_update (\<lambda>_. v)) s"

(* src/src/kernel/kernel.c:226-306 *)
definition handle_run :: "nat \<Rightarrow> TaskRequest \<Rightarrow> kstate \<Rightarrow> kstate option" where
  "handle_run t req s = (case req of
     TR_IRQ \<Rightarrow> event_wake s \<bind> k_ready t
   | TR_AWAIT_EVENT \<Rightarrow> event_register t s
   | TR_SEND \<Rightarrow> send_handler t s
   | TR_RECEIVE \<Rightarrow> receive_handler t s
   | TR_REPLY \<Rightarrow> reply_handler t s
   | TR_PASS \<Rightarrow> k_ready t s
   | TR_BLOCK \<Rightarrow> mod_td t (td_status_update (\<lambda>_. TS_BLOCKED)) s \<bind> k_ready t
   | TR_CREATE \<Rightarrow> create t s \<bind> k_ready t
   | TR_CREATE_W_ARGS \<Rightarrow> create_w_args t s \<bind> k_ready t
   | TR_MY_TID \<Rightarrow> get_tid t s \<bind> k_ready t
   | TR_MY_PARENT_TID \<Rightarrow> get_parentTid t s \<bind> k_ready t
   | TR_NS_REG \<Rightarrow> ns_register t s \<bind> k_ready t
   | TR_NS_GET \<Rightarrow> ns_get t s \<bind> k_ready t
   | TR_EXIT \<Rightarrow> do {
       s \<leftarrow> mod_td t (td_status_update (\<lambda>_. TS_ZOMBIE)) s;
       td \<leftarrow> aget (ks_tasks s) t;
       tids \<leftarrow> tt_return (td_tid td) (ks_tids s);
       Some (s\<lparr>ks_tids := tids\<rparr>) }
   | TR_INFO_NPROC \<Rightarrow>
       set_ret t (of_nat MAX_TASK - cb_size (tt_cb (ks_tids s))) s \<bind> k_ready t
   | TR_INFO_MEM \<Rightarrow> set_ret t (calc_mem_usage s) s \<bind> k_ready t
   | TR_INFO_CPU \<Rightarrow> do { v \<leftarrow> calc_cpu_time t s; s \<leftarrow> set_ret t v s; k_ready t s }
   | TR_INFO_TASK \<Rightarrow> do { (v, s) \<leftarrow> task_info t s; s \<leftarrow> set_ret t v s; k_ready t s }
   | _ \<Rightarrow> None)"

(* src/src/kernel/kernel.c:225-311 *)
definition handle :: "nat \<Rightarrow> TaskRequest \<Rightarrow> kstate \<Rightarrow> kresult option" where
  "handle t req s = (case req of
     TR_ASSERT \<Rightarrow> Some (K_exit s)
   | TR_HALT \<Rightarrow> Some (K_exit (s\<lparr>ks_io := (ks_io s)(VIC1_BASE + 0x14 := VIC1_ENABLED,
                                                   VIC2_BASE + 0x14 := VIC2_ENABLED)\<rparr>))
   | _ \<Rightarrow> map_option K_run (handle_run t req s))"

(* src/src/kernel/kernel.c:68-81 *)
definition schedule :: "kstate \<Rightarrow> (nat option \<times> kstate) option" where
  "schedule s =
     (if pq_size (ks_pq s) = 0 then Some (None, s)
      else do {
        (ret, td, pq, ts) \<leftarrow> pq_pop (ks_pq s) (ks_tasks s);
        kassert (ret = PQ_NONE \<and> td \<noteq> None);
        Some (td, s\<lparr>ks_pq := pq, ks_tasks := ts, ks_running := td\<rparr>) })"

(* src/src/kernel/kernel.c:313-315 *)
definition no_tasks :: "kstate \<Rightarrow> bool" where
  "no_tasks s \<longleftrightarrow> cb_size (tt_cb (ks_tids s)) = of_nat MAX_TASK"

(* src/src/kernel/system.c:17-26 *)
definition interrupt_init :: "kstate \<Rightarrow> kstate" where
  "interrupt_init s = s\<lparr>ks_io := (ks_io s)(VIC1_BASE + 0x10 := VIC1_ENABLED,
                                            VIC2_BASE + 0x10 := VIC2_ENABLED)\<rparr>"

(* src/src/lib/task/task.c:55-62 *)
definition tm_init :: "kstate \<Rightarrow> kstate" where
  "tm_init s = s\<lparr>ks_io := (ks_io s)(TM_CLOCK_LDR := TM_CLOCK_VALUE, TM_CLOCK_CTRL := 0x80)\<rparr>"

text \<open>The entry point of the first task, \<^verbatim>\<open>&Bootstrap\<close>, is the linker's: an argument.\<close>

(* src/src/kernel/kernel.c:34-66 *)
definition initialize :: "u32 \<Rightarrow> kstate \<Rightarrow> kstate option" where
  "initialize bootstrap s = do {
     let s = interrupt_init s;
     let s = s\<lparr>ks_tasks := map td_init (ks_tasks s)\<rparr>;
     tids \<leftarrow> tt_init (ks_tids s);
     let s = s\<lparr>ks_tids := tids, ks_pq := pq_init (ks_pq s), ks_im := im_init (ks_im s)\<rparr>;
     let s = tm_init s;
     (tid, tids) \<leftarrow> tt_get (ks_tids s);
     let s = s\<lparr>ks_tids := tids\<rparr>;
     s \<leftarrow> ktd_create (unat (TID_ID tid)) tid bootstrap 0 TS_READY None s;
     k_push 0 (unat (TID_ID tid)) s }"

end
