(* ===== verification/KernelInv.thy ===== *)
theory KernelInv
  imports Kernel
begin

text \<open>
  The invariant of the kernel and its preservation by every operation of the handlers.

  \<open>kinv s qs cur\<close> says of a kernel state \<open>s\<close>: the ready queue stands for the lists
  \<open>qs\<close>; \<open>cur\<close> are the tasks the kernel holds in its hands (the one that was activated, or one
  that is about to be pushed); a task can run exactly when it is in one of these places or
  waits in the interrupt matrix, and it is there once; the free
  tids are those of the slots without a task; a task in a send queue is
  receive blocked, and is in one send queue, once.
\<close>

section \<open>The invariant\<close>

definition live :: "TaskDescriptor \<Rightarrow> bool" where
  "live td \<longleftrightarrow> td_status td \<noteq> TS_UNINIT \<and> td_status td \<noteq> TS_ZOMBIE"

definition runnable :: "TaskDescriptor \<Rightarrow> bool" where
  "runnable td \<longleftrightarrow> td_status td = TS_READY \<or> td_status td = TS_BLOCKED"

abbreviation tid_ix :: "u32 \<Rightarrow> nat" where "tid_ix tid \<equiv> unat (TID_ID tid)"

definition send_list :: "TaskDescriptor \<Rightarrow> u32 list" where
  "send_list td = cb_list MAX_TASK (td_send_q td)"

definition senders :: "tds \<Rightarrow> u32 list" where
  "senders ts = concat (map send_list ts)"

definition td_ok :: "nat \<Rightarrow> TaskDescriptor \<Rightarrow> bool" where
  "td_ok t td \<longleftrightarrow> cb_wf MAX_TASK (td_send_q td) \<and> td_status td \<noteq> TS_ACTIVE \<and>
     (live td \<longrightarrow> tid_ix (td_tid td) = t \<and> 0 \<le> td_priority td \<and> td_priority td < int MAX_PRIORITY)"

definition tasks_ok :: "tds \<Rightarrow> bool" where
  "tasks_ok ts \<longleftrightarrow> length ts = MAX_TASK \<and> (\<forall>t<MAX_TASK. td_ok t (ts ! t))"

definition free_ok :: "tds \<Rightarrow> u32 list \<Rightarrow> bool" where
  "free_ok ts tids \<longleftrightarrow> distinct (map tid_ix tids) \<and>
     set (map tid_ix tids) = {t. t < MAX_TASK \<and> \<not> live (ts ! t)}"

definition send_ok :: "tds \<Rightarrow> bool" where
  "send_ok ts \<longleftrightarrow> distinct (map tid_ix (senders ts)) \<and>
     (\<forall>x\<in>set (senders ts). tid_ix x < MAX_TASK \<and> td_status (ts ! tid_ix x) = TS_RCV_BL)"

definition places :: "nat list list \<Rightarrow> interrupt_matrix \<Rightarrow> nat list \<Rightarrow> nat multiset" where
  "places qs im cur = mset cur + mset (concat qs) + mset (concat (im_lists im))"

definition run_ok :: "tds \<Rightarrow> nat multiset \<Rightarrow> bool" where
  "run_ok ts P \<longleftrightarrow> P = mset_set {t. t < MAX_TASK \<and> runnable (ts ! t)}"

definition prio_ok :: "tds \<Rightarrow> nat list list \<Rightarrow> bool" where
  "prio_ok ts qs \<longleftrightarrow> (\<forall>i<MAX_PRIORITY. \<forall>t\<in>set (qs ! i). td_priority (ts ! t) = int i)"

definition kinv :: "kstate \<Rightarrow> nat list list \<Rightarrow> nat list \<Rightarrow> bool" where
  "kinv s qs cur \<longleftrightarrow>
     tasks_ok (ks_tasks s) \<and> pq_rep (ks_tasks s) (ks_pq s) qs \<and> prio_ok (ks_tasks s) qs \<and>
     tt_wf (ks_tids s) \<and> free_ok (ks_tasks s) (tt_tids (ks_tids s)) \<and>
     im_wf (ks_im s) \<and> run_ok (ks_tasks s) (places qs (ks_im s) cur) \<and>
     send_ok (ks_tasks s)"

lemma kinvD:
  assumes "kinv s qs cur"
  shows "tasks_ok (ks_tasks s)" "pq_rep (ks_tasks s) (ks_pq s) qs" "prio_ok (ks_tasks s) qs"
    "tt_wf (ks_tids s)" "free_ok (ks_tasks s) (tt_tids (ks_tids s))" "im_wf (ks_im s)"
    "run_ok (ks_tasks s) (places qs (ks_im s) cur)" "send_ok (ks_tasks s)"
    "length (ks_tasks s) = MAX_TASK"
  using assms by (simp_all add: kinv_def tasks_ok_def)

text \<open>Memory, registers and the remaining globals do not matter.\<close>

lemma kinv_irrelevant [simp]:
  "kinv (s\<lparr>ks_mem := m\<rparr>) qs cur = kinv s qs cur"
  "kinv (s\<lparr>ks_io := io\<rparr>) qs cur = kinv s qs cur"
  "kinv (s\<lparr>ks_ksp := k\<rparr>) qs cur = kinv s qs cur"
  "kinv (s\<lparr>ks_running := r\<rparr>) qs cur = kinv s qs cur"
  "kinv (s\<lparr>ks_ns := n\<rparr>) qs cur = kinv s qs cur"
  by (simp_all add: kinv_def)

section \<open>What the invariant depends on\<close>

text \<open>The fields of a descriptor the invariant speaks of.\<close>

definition td_core :: "TaskDescriptor \<Rightarrow> u32 \<times> TaskStatus \<times> int \<times> u32 list \<times> bool" where
  "td_core td = (td_tid td, td_status td, td_priority td, send_list td, cb_wf MAX_TASK (td_send_q td))"

lemma td_core_fields:
  assumes "td_core td = td_core td'"
  shows "td_tid td = td_tid td'" "td_status td = td_status td'" "td_priority td = td_priority td'"
    "send_list td = send_list td'" "live td = live td'" "runnable td = runnable td'"
    "td_ok t td = td_ok t td'"
  using assms by (auto simp: td_core_def live_def runnable_def td_ok_def)

lemma same_but_next_core: "same_but_next td td' \<Longrightarrow> td_core td' = td_core td"
  by (auto simp: same_but_next_def td_core_def send_list_def)

lemma senders_cong:
  assumes "length ts' = length ts" "\<And>t. t < length ts \<Longrightarrow> send_list (ts' ! t) = send_list (ts ! t)"
  shows "senders ts' = senders ts"
proof -
  have "map send_list ts' = map send_list ts"
    using assms by (intro nth_equalityI) auto
  then show ?thesis by (simp add: senders_def)
qed

lemma core_cong:
  assumes len: "length ts' = length ts"
    and core: "\<And>t. t < length ts \<Longrightarrow> td_core (ts' ! t) = td_core (ts ! t)"
    and ok: "tasks_ok ts"
  shows "tasks_ok ts'" "free_ok ts' tids = free_ok ts tids" "send_ok ts' = send_ok ts"
    "run_ok ts' P = run_ok ts P"
proof -
  have l: "length ts = MAX_TASK" using ok by (simp add: tasks_ok_def)
  note F = td_core_fields [OF core]
  show "tasks_ok ts'"
    using ok len F(7) by (simp add: tasks_ok_def)
  have "{t. t < MAX_TASK \<and> \<not> live (ts' ! t)} = {t. t < MAX_TASK \<and> \<not> live (ts ! t)}"
    using F(5) l by auto
  then show "free_ok ts' tids = free_ok ts tids" by (simp add: free_ok_def)
  have "{t. t < MAX_TASK \<and> runnable (ts' ! t)} = {t. t < MAX_TASK \<and> runnable (ts ! t)}"
    using F(6) l by auto
  then show "run_ok ts' P = run_ok ts P" by (simp add: run_ok_def)
  have "senders ts' = senders ts"
    using senders_cong [OF len F(4)] .
  then show "send_ok ts' = send_ok ts"
    using F(2) l by (auto simp: send_ok_def)
qed

lemma prio_ok_cong:
  assumes "\<And>t. t \<in> set (concat qs) \<Longrightarrow> td_priority (ts' ! t) = td_priority (ts ! t)"
    and "prio_ok ts qs" "length qs = MAX_PRIORITY"
  shows "prio_ok ts' qs"
  unfolding prio_ok_def
proof (intro allI impI ballI)
  fix i t
  assume "i < MAX_PRIORITY" "t \<in> set (qs ! i)"
  moreover from this have "t \<in> set (concat qs)"
    using assms(3) in_set_concat_nth [of t qs] by auto
  ultimately show "td_priority (ts' ! t) = int i"
    using assms(1,2) by (simp add: prio_ok_def)
qed

text \<open>Where the tasks are.\<close>

lemma run_ok_mem: "run_ok ts P \<Longrightarrow> t \<in># P \<longleftrightarrow> t < MAX_TASK \<and> runnable (ts ! t)"
  by (simp add: run_ok_def)

lemma run_ok_count: "run_ok ts P \<Longrightarrow> count P t \<le> 1"
  by (simp add: run_ok_def count_mset_set')

lemma kinv_cur:
  assumes "kinv s qs (t # cur)"
  shows "t < MAX_TASK" "runnable (ks_tasks s ! t)" "live (ks_tasks s ! t)"
    "t \<notin> set (concat qs)" "t \<notin> set cur" "t \<notin> set (concat (im_lists (ks_im s)))"
    "td_ok t (ks_tasks s ! t)"
proof -
  let ?P = "places qs (ks_im s) (t # cur)"
  note D = kinvD [OF assms]
  have "t \<in># ?P" by (simp add: places_def)
  then show t: "t < MAX_TASK" "runnable (ks_tasks s ! t)"
    using run_ok_mem [OF D(7)] by auto
  then show "live (ks_tasks s ! t)"
    by (auto simp: live_def runnable_def)
  have "count (mset cur) t + count (mset (concat qs)) t + count (mset (concat (im_lists (ks_im s)))) t = 0"
    using run_ok_count [OF D(7), of t] by (simp add: places_def)
  then show "t \<notin> set (concat qs)" "t \<notin> set cur" "t \<notin> set (concat (im_lists (ks_im s)))"
    unfolding add_is_0 count_mset_0_iff by blast+
  show "td_ok t (ks_tasks s ! t)"
    using D(1) t by (simp add: tasks_ok_def)
qed

lemma kinv_distinct:
  assumes "kinv s qs cur"
  shows "distinct cur" "distinct (concat (im_lists (ks_im s)))"
proof -
  have "count (places qs (ks_im s) cur) a \<le> 1" for a
    using run_ok_count [OF kinvD(7) [OF assms]] .
  then have c: "count (mset cur) a + count (mset (concat (im_lists (ks_im s)))) a \<le> 1" for a
    by (metis (no_types) add.assoc add.commute count_union le_add1 le_trans places_def)
  have *: "count (mset xs) a = (if a \<in> set xs then 1 else 0)" if "count (mset xs) a \<le> 1"
    for a :: nat and xs
    using that by (metis count_mset_0_iff le_0_eq le_SucE One_nat_def)
  show "distinct cur" "distinct (concat (im_lists (ks_im s)))"
    unfolding distinct_count_atmost_1 using * c add_leD1 add_leD2 by blast+
qed

text \<open>Nobody that can run is in a send queue.\<close>

lemma runnable_not_sender:
  assumes "send_ok ts" "runnable (ts ! t)"
  shows "t \<notin> tid_ix ` set (senders ts)"
  using assms by (auto simp: send_ok_def runnable_def)

section \<open>Updates that do not matter\<close>

lemma mod_td_Some: "t < length (ks_tasks s) \<Longrightarrow>
    mod_td t f s = Some (s\<lparr>ks_tasks := (ks_tasks s)[t := f (ks_tasks s ! t)]\<rparr>)"
  by (simp add: mod_td_def)

lemma mod_td_eq_Some [fault_eq]: "mod_td t f s = Some s' \<longleftrightarrow>
    t < length (ks_tasks s) \<and> s' = s\<lparr>ks_tasks := (ks_tasks s)[t := f (ks_tasks s ! t)]\<rparr>"
  by (auto simp: mod_td_def fault_eq)

lemma kinv_update:
  assumes inv: "kinv s qs cur" and t: "t < MAX_TASK"
    and core: "td_core td = td_core (ks_tasks s ! t)" and nxt: "td_next td = td_next (ks_tasks s ! t)"
  shows "kinv (s\<lparr>ks_tasks := (ks_tasks s)[t := td]\<rparr>) qs cur"
proof -
  note D = kinvD [OF inv]
  let ?ts = "(ks_tasks s)[t := td]"
  have c: "td_core (?ts ! i) = td_core (ks_tasks s ! i)" for i
    using core t D(9) by (cases "i = t") simp_all
  have links: "same_links (ks_tasks s) ?ts"
    using t D(9) nxt by (intro same_links_update) simp_all
  note C = core_cong [of ?ts "ks_tasks s", OF length_list_update c D(1)]
  have "prio_ok ?ts qs"
    using D(3) pq_repD(2) [OF D(2)] td_core_fields(3) [OF c]
    by (intro prio_ok_cong [of qs ?ts "ks_tasks s"]) simp_all
  then show ?thesis
    using D C same_links_pq_rep [OF links D(2)] by (simp add: kinv_def)
qed

lemma kinv_mod_td:
  assumes "kinv s qs cur" "mod_td t f s = Some s'"
    and "\<And>td. td_core (f td) = td_core td" "\<And>td. td_next (f td) = td_next td"
  shows "kinv s' qs cur"
  using assms kinvD(9) [OF assms(1)] by (auto simp: mod_td_eq_Some intro: kinv_update)

lemma td_core_simps [simp]:
  "td_core (td\<lparr>td_ret := r\<rparr>) = td_core td"
  "td_core (td\<lparr>td_next := n\<rparr>) = td_core td"
  "td_core (td\<lparr>td_running_time := x\<rparr>) = td_core td"
  "td_core (td\<lparr>td_end_time := x\<rparr>) = td_core td"
  "td_core (td\<lparr>td_sp := x\<rparr>) = td_core td"
  "td_core (td\<lparr>td_psr := x\<rparr>) = td_core td"
  "td_core (td\<lparr>td_it := i\<rparr>) = td_core td"
  by (simp_all add: td_core_def send_list_def)

section \<open>Pushing on the ready queue\<close>

lemma k_push_ok:
  assumes inv: "kinv s qs (t # cur)" and p: "td_priority (ks_tasks s ! t) = p"
  shows "\<exists>s'. k_push p t s = Some s' \<and> kinv s' (rq_push qs (nat p) t) cur \<and>
    (\<forall>i. same_but_next (ks_tasks s ! i) (ks_tasks s' ! i)) \<and>
    ks_mem s' = ks_mem s \<and> ks_io s' = ks_io s \<and> ks_im s' = ks_im s \<and> ks_tids s' = ks_tids s \<and>
    ks_running s' = ks_running s \<and> ks_ns s' = ks_ns s"
proof -
  note D = kinvD [OF inv] and C = kinv_cur [OF inv]
  have prio: "0 \<le> p" "nat p < MAX_PRIORITY" "int (nat p) = p"
    using C(3,7) p by (auto simp: td_ok_def)
  obtain pq' ts' where push: "pq_push (ks_pq s) p t (ks_tasks s) = Some (PQ_NONE, pq', ts')"
    and rep: "pq_rep ts' pq' (rq_push qs (nat p) t)" and len: "length ts' = length (ks_tasks s)"
    and nxt: "\<And>i. same_but_next (ks_tasks s ! i) (ts' ! i)"
    using pq_push_rep [OF D(2) C(4) _ prio(2)] C(1) D(9) prio(3) by auto
  have core: "td_core (ts' ! i) = td_core (ks_tasks s ! i)" for i
    using same_but_next_core [OF nxt] .
  note CC = core_cong [OF len core D(1)]
  have qs: "length qs = MAX_PRIORITY" using pq_repD(2) [OF D(2)] .
  have "prio_ok ts' (rq_push qs (nat p) t)"
    using D(3) td_core_fields(3) [OF core] p qs prio
    by (auto simp: prio_ok_def rq_push_nth)
  moreover have "places (rq_push qs (nat p) t) (ks_im s) cur = places qs (ks_im s) (t # cur)"
    using rq_push_mset [of "nat p" qs t] prio(2) qs by (simp add: places_def)
  ultimately show ?thesis
    using push rep CC D nxt by (simp add: k_push_def kinv_def)
qed

lemma k_ready_ok:
  assumes inv: "kinv s qs (t # cur)"
  shows "\<exists>s'. k_ready t s = Some s' \<and>
    kinv s' (rq_push qs (nat (td_priority (ks_tasks s ! t))) t) cur \<and>
    (\<forall>i. same_but_next (ks_tasks s ! i) (ks_tasks s' ! i)) \<and>
    ks_mem s' = ks_mem s \<and> ks_io s' = ks_io s \<and> ks_im s' = ks_im s \<and> ks_tids s' = ks_tids s \<and>
    ks_running s' = ks_running s \<and> ks_ns s' = ks_ns s"
  using k_push_ok [OF inv refl] kinvD(9) [OF inv] kinv_cur(1) [OF inv]
  by (simp add: k_ready_def)

lemma kinv_k_ready:
  assumes "kinv s qs (t # cur)" "k_ready t s = Some s'"
  shows "kinv s' (rq_push qs (nat (td_priority (ks_tasks s ! t))) t) cur"
  using k_ready_ok [OF assms(1)] assms(2) by auto

section \<open>Changing the status of a task\<close>

text \<open>The effect of a new descriptor in slot \<open>t\<close> that keeps the queue links, on
  each part of the invariant.\<close>

lemma mset_set_insert_remove:
  assumes "finite A"
  shows "x \<notin> A \<Longrightarrow> mset_set (insert x A) = add_mset x (mset_set A)"
    "x \<in> A \<Longrightarrow> mset_set A = add_mset x (mset_set (A - {x}))"
  using assms by (simp_all add: mset_set.remove)

lemma run_ok_enter:
  assumes "run_ok ts P" "length ts = MAX_TASK" "t < MAX_TASK" "\<not> runnable (ts ! t)" "runnable td"
  shows "run_ok (ts[t := td]) (add_mset t P)"
proof -
  have "{i. i < MAX_TASK \<and> runnable (ts[t := td] ! i)} =
      insert t {i. i < MAX_TASK \<and> runnable (ts ! i)}"
    using assms(2,3,5) by (auto simp: nth_update_if)
  then show ?thesis using assms(1,4) by (simp add: run_ok_def)
qed

lemma run_ok_leave:
  assumes "run_ok ts (add_mset t P)" "length ts = MAX_TASK" "\<not> runnable td"
  shows "run_ok (ts[t := td]) P"
proof -
  let ?R = "{i. i < MAX_TASK \<and> runnable (ts ! i)}"
  have t: "t \<in> ?R" using run_ok_mem [OF assms(1), of t] by simp
  have "{i. i < MAX_TASK \<and> runnable (ts[t := td] ! i)} = ?R - {t}"
    using assms(2,3) t by (auto simp: nth_update_if)
  moreover have "add_mset t P = add_mset t (mset_set (?R - {t}))"
    using assms(1) mset_set_insert_remove(2) [OF _ t] by (simp add: run_ok_def)
  ultimately show ?thesis by (simp add: run_ok_def)
qed

lemma run_ok_same:
  assumes "run_ok ts P" "length ts = MAX_TASK" "runnable td = runnable (ts ! t)"
  shows "run_ok (ts[t := td]) P"
proof -
  have "{i. i < MAX_TASK \<and> runnable (ts[t := td] ! i)} = {i. i < MAX_TASK \<and> runnable (ts ! i)}"
    using assms(2,3) by (auto simp: nth_update_if)
  then show ?thesis using assms(1) by (simp add: run_ok_def)
qed

lemma send_ok_status:
  assumes "send_ok ts" "t \<notin> tid_ix ` set (senders ts)" "send_list td = send_list (ts ! t)"
  shows "send_ok (ts[t := td])"
proof -
  have "senders (ts[t := td]) = senders ts"
    using assms(3) by (intro senders_cong) (auto simp: nth_update_if)
  moreover have "td_status (ts[t := td] ! tid_ix x) = td_status (ts ! tid_ix x)"
    if "x \<in> set (senders ts)" for x
    using assms(2) that by (cases "tid_ix x = t") auto
  ultimately show ?thesis
    using assms(1) by (simp add: send_ok_def)
qed

lemma free_ok_live:
  assumes "free_ok ts tids" "length ts = MAX_TASK" "live td = live (ts ! t)"
  shows "free_ok (ts[t := td]) tids"
proof -
  have "{i. i < MAX_TASK \<and> \<not> live (ts[t := td] ! i)} = {i. i < MAX_TASK \<and> \<not> live (ts ! i)}"
    using assms(2,3) by (auto simp: nth_update_if)
  then show ?thesis using assms(1) by (simp add: free_ok_def)
qed

lemma tasks_ok_update: "tasks_ok ts \<Longrightarrow> td_ok t td \<Longrightarrow> tasks_ok (ts[t := td])"
  by (auto simp: tasks_ok_def nth_update_if)

lemma prio_ok_update:
  "prio_ok ts qs \<Longrightarrow> length qs = MAX_PRIORITY \<Longrightarrow> td_priority td = td_priority (ts ! t) \<Longrightarrow>
   prio_ok (ts[t := td]) qs"
  by (rule prio_ok_cong [of qs "ts[t := td]" ts]) (auto simp: nth_update_if)

text \<open>Setting the status of a live task that is in no send queue.\<close>

lemma kinv_set_status:
  assumes inv: "kinv s qs cur" and t: "t < MAX_TASK" "live (ks_tasks s ! t)"
    and send: "t \<notin> tid_ix ` set (senders (ks_tasks s))"
    and st: "st \<noteq> TS_UNINIT" "st \<noteq> TS_ZOMBIE" "st \<noteq> TS_ACTIVE"
    and run: "run_ok ((ks_tasks s)[t := (ks_tasks s ! t)\<lparr>td_status := st\<rparr>]) (places qs (ks_im s) cur')"
  shows "kinv (s\<lparr>ks_tasks := (ks_tasks s)[t := (ks_tasks s ! t)\<lparr>td_status := st\<rparr>]\<rparr>) qs cur'"
proof -
  note D = kinvD [OF inv]
  let ?td = "(ks_tasks s ! t)\<lparr>td_status := st\<rparr>"
  have links: "same_links (ks_tasks s) ((ks_tasks s)[t := ?td])"
    using t D(9) by (intro same_links_update) simp_all
  have live: "live ?td" using st by (simp add: live_def)
  have "td_ok t (ks_tasks s ! t)" using D(1) t by (simp add: tasks_ok_def)
  then have "td_ok t ?td" using t(2) st by (simp add: td_ok_def)
  then have "tasks_ok ((ks_tasks s)[t := ?td])" using D(1) by (intro tasks_ok_update)
  moreover have "send_ok ((ks_tasks s)[t := ?td])"
    using D(8) send by (rule send_ok_status) (simp add: send_list_def)
  moreover have "prio_ok ((ks_tasks s)[t := ?td]) qs"
    using D(3) pq_repD(2) [OF D(2)] by (rule prio_ok_update) simp
  ultimately show ?thesis
    using D run same_links_pq_rep [OF links D(2)] free_ok_live [OF D(5,9), of ?td t] live t(2)
    by (simp add: kinv_def)
qed

lemma kinv_wake:
  assumes inv: "kinv s qs cur" and t: "t < MAX_TASK"
    and st: "td_status (ks_tasks s ! t) \<in> {TS_SND_BL, TS_RPL_BL}"
  shows "kinv (s\<lparr>ks_tasks := (ks_tasks s)[t := (ks_tasks s ! t)\<lparr>td_status := TS_READY\<rparr>]\<rparr>) qs (t # cur)"
proof -
  note D = kinvD [OF inv]
  have "t \<notin> tid_ix ` set (senders (ks_tasks s))"
    using D(8) st by (auto simp: send_ok_def)
  moreover have "run_ok ((ks_tasks s)[t := (ks_tasks s ! t)\<lparr>td_status := TS_READY\<rparr>])
      (places qs (ks_im s) (t # cur))"
    using run_ok_enter [OF D(7,9) t, of "(ks_tasks s ! t)\<lparr>td_status := TS_READY\<rparr>"] st
    by (auto simp: places_def runnable_def)
  ultimately show ?thesis
    using st by (intro kinv_set_status [OF inv t]) (auto simp: live_def)
qed

lemma kinv_stay:
  assumes inv: "kinv s qs (t # cur)" and st: "st \<in> {TS_READY, TS_BLOCKED}"
  shows "kinv (s\<lparr>ks_tasks := (ks_tasks s)[t := (ks_tasks s ! t)\<lparr>td_status := st\<rparr>]\<rparr>) qs (t # cur)"
proof -
  note D = kinvD [OF inv] and C = kinv_cur [OF inv]
  have "run_ok ((ks_tasks s)[t := (ks_tasks s ! t)\<lparr>td_status := st\<rparr>]) (places qs (ks_im s) (t # cur))"
    using C(2) st by (intro run_ok_same [OF D(7,9)]) (auto simp: runnable_def)
  then show ?thesis
    using st runnable_not_sender [OF D(8) C(2)]
    by (intro kinv_set_status [OF inv C(1,3)]) auto
qed

lemma kinv_block:
  assumes inv: "kinv s qs (t # cur)" and st: "st \<in> {TS_SND_BL, TS_RPL_BL}"
  shows "kinv (s\<lparr>ks_tasks := (ks_tasks s)[t := (ks_tasks s ! t)\<lparr>td_status := st\<rparr>]\<rparr>) qs cur"
proof -
  note D = kinvD [OF inv] and C = kinv_cur [OF inv]
  have "run_ok ((ks_tasks s)[t := (ks_tasks s ! t)\<lparr>td_status := st\<rparr>]) (places qs (ks_im s) cur)"
    using D(7) st by (intro run_ok_leave [OF _ D(9)]) (auto simp: runnable_def places_def)
  then show ?thesis
    using st runnable_not_sender [OF D(8) C(2)]
    by (intro kinv_set_status [OF inv C(1,3)]) auto
qed

text \<open>From receive blocked to reply blocked, once the task has been taken out of the send queue.\<close>

lemma kinv_reply_blocked:
  assumes inv: "kinv s qs cur" and t: "t < MAX_TASK"
    and st: "td_status (ks_tasks s ! t) = TS_RCV_BL" "t \<notin> tid_ix ` set (senders (ks_tasks s))"
  shows "kinv (s\<lparr>ks_tasks := (ks_tasks s)[t := (ks_tasks s ! t)\<lparr>td_status := TS_RPL_BL\<rparr>]\<rparr>) qs cur"
proof -
  note D = kinvD [OF inv]
  have "run_ok ((ks_tasks s)[t := (ks_tasks s ! t)\<lparr>td_status := TS_RPL_BL\<rparr>]) (places qs (ks_im s) cur)"
    using st by (intro run_ok_same [OF D(7,9)]) (auto simp: runnable_def)
  then show ?thesis
    using st by (intro kinv_set_status [OF inv t]) (auto simp: live_def)
qed

section \<open>Send queues\<close>

lemma senders_update_mset:
  assumes "i < length ts"
  shows "mset (senders (ts[i := td])) + mset (send_list (ts ! i)) =
    mset (senders ts) + mset (send_list td)"
  using concat_update_mset [of i "map send_list ts" "send_list td"] assms
  by (simp add: senders_def map_update)

lemma send_list_in_senders: "i < length ts \<Longrightarrow> x \<in> set (send_list (ts ! i)) \<Longrightarrow> x \<in> set (senders ts)"
  by (auto simp: senders_def)

lemma distinct_map_concat_part:
  "distinct (map f (concat xss)) \<Longrightarrow> xs \<in> set xss \<Longrightarrow> distinct (map f xs)"
  by (induction xss) auto

text \<open>A send queue holds different tasks that cannot run: it never fills up while somebody runs.\<close>

lemma send_queue_room:
  assumes inv: "kinv s qs (t # cur)" and r: "r < MAX_TASK"
  shows "length (send_list (ks_tasks s ! r)) < MAX_TASK"
proof -
  note D = kinvD [OF inv] and C = kinv_cur [OF inv]
  let ?q = "send_list (ks_tasks s ! r)" and ?S = "senders (ks_tasks s)"
  have "distinct (map tid_ix ?q)"
    using D(8,9) r distinct_map_concat_part [of tid_ix "map send_list (ks_tasks s)"]
    by (simp add: send_ok_def senders_def)
  moreover have sub: "set (map tid_ix ?q) \<subseteq> {..<MAX_TASK} - {t}"
  proof
    fix i assume "i \<in> set (map tid_ix ?q)"
    then obtain x where x: "x \<in> set ?S" "i = tid_ix x"
      using send_list_in_senders [of r "ks_tasks s"] r D(9) by auto
    then show "i \<in> {..<MAX_TASK} - {t}"
      using D(8) runnable_not_sender [OF D(8) C(2)] by (auto simp: send_ok_def)
  qed
  ultimately have "length ?q \<le> card ({..<MAX_TASK} - {t})"
    using card_mono [OF _ sub] by (metis distinct_card length_map finite_Diff finite_lessThan)
  also have "\<dots> < MAX_TASK" using C(1) by simp
  finally show ?thesis .
qed

text \<open>A sender is appended to the receiver's queue and becomes receive blocked.\<close>

lemma kinv_enqueue:
  assumes inv: "kinv s qs (t # cur)" and r: "r < MAX_TASK" "live (ks_tasks s ! r)"
  shows "\<exists>q. cb_push MAX_TASK (td_tid (ks_tasks s ! t)) (td_send_q (ks_tasks s ! r)) = Some (CB_E_NONE, q) \<and>
    cb_list MAX_TASK q = send_list (ks_tasks s ! r) @ [td_tid (ks_tasks s ! t)] \<and>
    (let ts1 = (ks_tasks s)[r := (ks_tasks s ! r)\<lparr>td_send_q := q\<rparr>] in
     kinv (s\<lparr>ks_tasks := ts1[t := (ts1 ! t)\<lparr>td_status := TS_RCV_BL\<rparr>]\<rparr>) qs cur)"
proof -
  note D = kinvD [OF inv] and C = kinv_cur [OF inv]
  let ?ts = "ks_tasks s" and ?tid = "td_tid (ks_tasks s ! t)"
  have rok: "td_ok r (?ts ! r)" using D(1) r by (simp add: tasks_ok_def)
  have tid: "tid_ix ?tid = t" using C(3,7) by (simp add: td_ok_def)
  obtain q where push: "cb_push MAX_TASK ?tid (td_send_q (?ts ! r)) = Some (CB_E_NONE, q)"
    and q: "cb_wf MAX_TASK q" "cb_list MAX_TASK q = send_list (?ts ! r) @ [?tid]"
    using cb_push_ok [of MAX_TASK "td_send_q (?ts ! r)" ?tid] rok send_queue_room [OF inv r(1)]
    by (auto simp: td_ok_def send_list_def)
  let ?r = "(?ts ! r)\<lparr>td_send_q := q\<rparr>"
  let ?ts1 = "?ts[r := ?r]"
  let ?t = "(?ts1 ! t)\<lparr>td_status := TS_RCV_BL\<rparr>"
  let ?ts2 = "?ts1[t := ?t]"
  have len: "length ?ts2 = MAX_TASK" using D(9) by simp
  have ri: "?ts1 ! r = ?r" using r D(9) by simp
  have links: "same_links ?ts ?ts2"
    unfolding same_links_def using r C(1) D(9)
    by (intro nth_equalityI) (auto simp: nth_update_if)
  have tr: "td_ok r ?r" using rok q(1) by (auto simp: td_ok_def live_def)
  then have ok1: "tasks_ok ?ts1" using D(1) by (intro tasks_ok_update)
  then have "td_ok t (?ts1 ! t)" using C(1) by (simp add: tasks_ok_def)
  moreover have live1: "live (?ts1 ! t)" using C(3) r(2) by (auto simp: nth_update_if live_def)
  ultimately have "td_ok t ?t" by (auto simp: td_ok_def live_def)
  then have ok2: "tasks_ok ?ts2" by (rule tasks_ok_update [OF ok1])
  have live_r: "live ?r = live (?ts ! r)" by (simp add: live_def)
  have f1: "free_ok ?ts1 (tt_tids (ks_tids s))"
    using free_ok_live [OF D(5,9), of ?r r] live_r by simp
  have "live ?t" by (simp add: live_def)
  then have f2: "free_ok ?ts2 (tt_tids (ks_tids s))"
    using free_ok_live [OF f1, of ?t t] live1 D(9) by simp
  have r1: "run_ok ?ts1 (places qs (ks_im s) (t # cur))"
    by (rule run_ok_same [OF D(7,9)]) (simp add: runnable_def)
  have r2: "run_ok ?ts2 (places qs (ks_im s) cur)"
  proof (rule run_ok_leave)
    show "run_ok ?ts1 (add_mset t (places qs (ks_im s) cur))"
      using r1 by (simp add: places_def)
  qed (simp_all add: D(9) runnable_def)
  have p: "prio_ok ?ts2 qs"
    using D(3) pq_repD(2) [OF D(2)]
    by (intro prio_ok_cong [of qs ?ts2 ?ts]) (simp_all add: nth_update_if)
  have m1: "mset (senders ?ts1) = add_mset ?tid (mset (senders ?ts))"
    using senders_update_mset [of r ?ts ?r] r D(9) q(2) by (simp add: send_list_def)
  have "mset (senders ?ts2) = mset (senders ?ts1)"
    using senders_update_mset [of t ?ts1 ?t] C(1) D(9) by (simp add: send_list_def)
  then have m: "mset (senders ?ts2) = add_mset ?tid (mset (senders ?ts))" using m1 by simp
  then have set2: "set (senders ?ts2) = insert ?tid (set (senders ?ts))"
    by (metis set_mset_add_mset_insert set_mset_mset)
  have "mset (map tid_ix (senders ?ts2)) = mset (t # map tid_ix (senders ?ts))"
    using m tid by (simp add: mset_map)
  moreover have "distinct (t # map tid_ix (senders ?ts))"
    using D(8) runnable_not_sender [OF D(8) C(2)] by (simp add: send_ok_def)
  ultimately have d: "distinct (map tid_ix (senders ?ts2))"
    by (rule distinct_mset_eq [THEN iffD2])
  have "send_ok ?ts2"
    unfolding send_ok_def
  proof (intro conjI ballI d)
    fix x assume "x \<in> set (senders ?ts2)"
    then consider "x = ?tid" | "x \<in> set (senders ?ts)" using set2 by auto
    then have "tid_ix x < MAX_TASK \<and> td_status (?ts2 ! tid_ix x) = TS_RCV_BL"
    proof cases
      case 1
      then show ?thesis using tid C(1) D(9) by simp
    next
      case 2
      then have "tid_ix x < MAX_TASK" "td_status (?ts ! tid_ix x) = TS_RCV_BL"
        using D(8) by (auto simp: send_ok_def)
      then show ?thesis using r D(9) by (auto simp: nth_update_if)
    qed
    then show "tid_ix x < MAX_TASK" "td_status (?ts2 ! tid_ix x) = TS_RCV_BL" by auto
  qed
  then have "kinv (s\<lparr>ks_tasks := ?ts2\<rparr>) qs cur"
    using ok2 f2 r2 p D same_links_pq_rep [OF links D(2)] by (simp add: kinv_def)
  then show ?thesis using push q(2) by (simp add: Let_def)
qed

text \<open>The first sender is taken out of a queue.\<close>

lemma kinv_dequeue:
  assumes inv: "kinv s qs cur" and r: "r < MAX_TASK" and x: "send_list (ks_tasks s ! r) = x # xs"
  shows "\<exists>q. cb_pop MAX_TASK (td_send_q (ks_tasks s ! r)) = Some (CB_E_NONE, Some x, q) \<and>
    cb_list MAX_TASK q = xs \<and>
    (let ts1 = (ks_tasks s)[r := (ks_tasks s ! r)\<lparr>td_send_q := q\<rparr>] in
     kinv (s\<lparr>ks_tasks := ts1\<rparr>) qs cur \<and> tid_ix x \<notin> tid_ix ` set (senders ts1) \<and>
     tid_ix x < MAX_TASK \<and> td_status (ks_tasks s ! tid_ix x) = TS_RCV_BL)"
proof -
  note D = kinvD [OF inv]
  let ?ts = "ks_tasks s"
  have rok: "td_ok r (?ts ! r)" using D(1) r by (simp add: tasks_ok_def)
  obtain q where pop: "cb_pop MAX_TASK (td_send_q (?ts ! r)) = Some (CB_E_NONE, Some x, q)"
    and q: "cb_wf MAX_TASK q" "cb_list MAX_TASK q = xs"
    using cb_pop_ok [of MAX_TASK "td_send_q (?ts ! r)"] rok x
    by (auto simp: td_ok_def send_list_def)
  let ?r = "(?ts ! r)\<lparr>td_send_q := q\<rparr>"
  let ?ts1 = "?ts[r := ?r]"
  have xin: "x \<in> set (senders ?ts)" using send_list_in_senders [of r ?ts x] r D(9) x by simp
  have links: "same_links ?ts ?ts1" using r D(9) by (intro same_links_update) simp_all
  have "td_ok r ?r" using rok q(1) by (auto simp: td_ok_def live_def)
  then have ok1: "tasks_ok ?ts1" using D(1) by (intro tasks_ok_update)
  have f1: "free_ok ?ts1 (tt_tids (ks_tids s))"
    using free_ok_live [OF D(5,9), of ?r r] by (simp add: live_def)
  have r1: "run_ok ?ts1 (places qs (ks_im s) cur)"
    by (rule run_ok_same [OF D(7,9)]) (simp add: runnable_def)
  have p: "prio_ok ?ts1 qs"
    using D(3) pq_repD(2) [OF D(2)] by (rule prio_ok_update) simp
  have m: "mset (senders ?ts) = add_mset x (mset (senders ?ts1))"
    using senders_update_mset [of r ?ts ?r] r D(9) q(2) x by (simp add: send_list_def)
  then have "mset (map tid_ix (senders ?ts)) = mset (tid_ix x # map tid_ix (senders ?ts1))"
    by (simp add: mset_map)
  then have d: "distinct (tid_ix x # map tid_ix (senders ?ts1))"
    using D(8) distinct_mset_eq unfolding send_ok_def by metis
  have sub: "set (senders ?ts1) \<subseteq> set (senders ?ts)"
    using m by (metis set_mset_mset set_mset_add_mset_insert subset_insertI)
  have st: "td_status (?ts1 ! i) = td_status (?ts ! i)" for i
    by (simp add: nth_update_if)
  have "send_ok ?ts1"
    using d sub D(8) by (auto simp: send_ok_def st)
  then have "kinv (s\<lparr>ks_tasks := ?ts1\<rparr>) qs cur"
    using ok1 f1 r1 p D same_links_pq_rep [OF links D(2)] by (simp add: kinv_def)
  moreover have "tid_ix x \<notin> tid_ix ` set (senders ?ts1)" using d by simp
  moreover have "tid_ix x < MAX_TASK" "td_status (?ts ! tid_ix x) = TS_RCV_BL"
    using D(8) xin by (auto simp: send_ok_def)
  ultimately show ?thesis using pop q(2) by (simp add: Let_def)
qed

section \<open>Exit and creation\<close>

lemma kinv_exit:
  assumes inv: "kinv s qs (t # cur)"
  shows "\<exists>tt'. tt_return (td_tid (ks_tasks s ! t)) (ks_tids s) = Some tt' \<and>
    tt_tids tt' = tt_tids (ks_tids s) @ [td_tid (ks_tasks s ! t) + 65536] \<and>
    kinv (s\<lparr>ks_tasks := (ks_tasks s)[t := (ks_tasks s ! t)\<lparr>td_status := TS_ZOMBIE\<rparr>], ks_tids := tt'\<rparr>) qs cur"
proof -
  note D = kinvD [OF inv] and C = kinv_cur [OF inv]
  let ?ts = "ks_tasks s" and ?tid = "td_tid (ks_tasks s ! t)" and ?tids = "tt_tids (ks_tids s)"
  let ?t = "(?ts ! t)\<lparr>td_status := TS_ZOMBIE\<rparr>"
  let ?ts2 = "?ts[t := ?t]"
  have tid: "tid_ix ?tid = t" using C(3,7) by (simp add: td_ok_def)
  have free: "distinct (map tid_ix ?tids)" "set (map tid_ix ?tids) = {t. t < MAX_TASK \<and> \<not> live (?ts ! t)}"
    using D(5) by (simp_all add: free_ok_def)
  have t: "t \<notin> set (map tid_ix ?tids)" using free(2) C(3) by simp
  have "length ?tids = card (set (map tid_ix ?tids))"
    using distinct_card [OF free(1)] by simp
  also have "\<dots> \<le> card ({..<MAX_TASK} - {t})"
    using t free(2) by (intro card_mono) auto
  also have "\<dots> < MAX_TASK" using C(1) by simp
  finally obtain tt' where ret: "tt_return ?tid (ks_tids s) = Some tt'" "tt_wf tt'"
    "tt_tids tt' = ?tids @ [?tid + 65536]"
    using tt_return_ok [OF D(4)] by blast
  have links: "same_links ?ts ?ts2" using C(1) D(9) by (intro same_links_update) simp_all
  have "td_ok t ?t" using C(7) by (auto simp: td_ok_def live_def)
  then have ok: "tasks_ok ?ts2" by (rule tasks_ok_update [OF D(1)])
  have r: "run_ok ?ts2 (places qs (ks_im s) cur)"
    using D(7,9) by (intro run_ok_leave) (simp_all add: places_def runnable_def)
  have snd: "send_ok ?ts2"
    using D(8) runnable_not_sender [OF D(8) C(2)] by (rule send_ok_status) (simp add: send_list_def)
  have p: "prio_ok ?ts2 qs"
    using D(3) pq_repD(2) [OF D(2)] by (rule prio_ok_update) simp
  have "{i. i < MAX_TASK \<and> \<not> live (?ts2 ! i)} = insert t {i. i < MAX_TASK \<and> \<not> live (?ts ! i)}"
    using C(1) D(9) by (auto simp: nth_update_if live_def)
  then have "free_ok ?ts2 (tt_tids tt')"
    using free t tid ret(3) by (simp add: free_ok_def)
  then have "kinv (s\<lparr>ks_tasks := ?ts2, ks_tids := tt'\<rparr>) qs cur"
    using ok r snd p ret(2) D same_links_pq_rep [OF links D(2)] by (simp add: kinv_def)
  then show ?thesis using ret by blast
qed

text \<open>A slot outside the queues may be given any \<^verbatim>\<open>next\<close>.\<close>

lemma pq_rep_outside:
  assumes rep: "pq_rep ts pq qs" and t: "t \<notin> set (concat qs)"
  shows "pq_rep (ts[t := td]) pq qs"
  unfolding pq_rep_def
proof (intro conjI allI impI)
  note D = pq_repD [OF rep]
  show "length (pqs pq) = MAX_PRIORITY" "length qs = MAX_PRIORITY" "distinct (concat qs)"
    "pq_size pq = int (length (concat qs))" using D by simp_all
  fix i assume i: "i < MAX_PRIORITY"
  then show "bit (pq_state pq) i \<longleftrightarrow> qs ! i \<noteq> []" using D(6) by simp
  have "td_next (ts[t := td] ! x) = td_next (ts ! x)" if "x \<in> set (qs ! i)" for x
    using that t i D(2) in_set_concat_nth [of x qs] by (auto simp: nth_update_if)
  then show "tq_rep (ts[t := td]) (pqs pq ! i) (qs ! i)"
    using tq_rep_cong [of "ts[t := td]" ts "qs ! i" "pqs pq ! i"] D(5) [OF i] by simp
qed

text \<open>A descriptor for a new task in the slot of a free tid.\<close>

lemma kinv_new_task:
  assumes inv: "kinv s qs cur" and tids: "tt_tids (ks_tids s) = tid # tids"
    and tt: "tt_wf tt'" "tt_tids tt' = tids"
    and td: "td_tid td = tid" "td_status td = TS_READY" "td_priority td = p"
      "0 \<le> p" "p < int MAX_PRIORITY" "cb_wf MAX_TASK (td_send_q td)" "send_list td = []"
  shows "kinv (s\<lparr>ks_tasks := (ks_tasks s)[tid_ix tid := td], ks_tids := tt'\<rparr>) qs (tid_ix tid # cur)"
proof -
  note D = kinvD [OF inv]
  let ?ts = "ks_tasks s" and ?n = "tid_ix tid"
  let ?ts2 = "?ts[?n := td]"
  have free: "distinct (map tid_ix (tid # tids))"
    "set (map tid_ix (tid # tids)) = {t. t < MAX_TASK \<and> \<not> live (?ts ! t)}"
    using D(5) tids by (simp_all add: free_ok_def)
  then have n: "?n < MAX_TASK" "\<not> live (?ts ! ?n)" by auto
  then have nrun: "\<not> runnable (?ts ! ?n)" by (auto simp: live_def runnable_def)
  have "?n \<notin># places qs (ks_im s) cur" using run_ok_mem [OF D(7)] nrun by simp
  then have nq: "?n \<notin> set (concat qs)" by (simp add: places_def)
  have live: "live td" "runnable td" using td(2) by (simp_all add: live_def runnable_def)
  have "td_ok ?n td" using td by (simp add: td_ok_def)
  then have ok: "tasks_ok ?ts2" by (rule tasks_ok_update [OF D(1)])
  have rep: "pq_rep ?ts2 (ks_pq s) qs" by (rule pq_rep_outside [OF D(2) nq])
  have prio: "prio_ok ?ts2 qs"
  proof (rule prio_ok_cong [OF _ D(3) pq_repD(2) [OF D(2)]])
    fix t assume "t \<in> set (concat qs)"
    then show "td_priority (?ts2 ! t) = td_priority (?ts ! t)"
      using nq by (auto simp: nth_update_if)
  qed
  have run: "run_ok ?ts2 (places qs (ks_im s) (?n # cur))"
    using run_ok_enter [OF D(7,9) n(1) nrun live(2)] by (simp add: places_def)
  have "{i. i < MAX_TASK \<and> \<not> live (?ts2 ! i)} = {i. i < MAX_TASK \<and> \<not> live (?ts ! i)} - {?n}"
    using live(1) n D(9) by (auto simp: nth_update_if)
  also have "\<dots> = set (map tid_ix tids)"
    unfolding free(2) [symmetric] using free(1) by simp
  finally have fr: "free_ok ?ts2 tids" using free(1) by (simp add: free_ok_def)
  have m: "mset (senders ?ts2) + mset (send_list (?ts ! ?n)) = mset (senders ?ts)"
    using senders_update_mset [of ?n ?ts td] n(1) D(9) td(7) by simp
  have dS: "distinct (map tid_ix (senders ?ts2) @ map tid_ix (send_list (?ts ! ?n)))"
  proof -
    have "mset (map tid_ix (senders ?ts2) @ map tid_ix (send_list (?ts ! ?n))) = mset (map tid_ix (senders ?ts))"
      unfolding mset_append mset_map image_mset_union [symmetric] m ..
    then show ?thesis using D(8) distinct_mset_eq unfolding send_ok_def by metis
  qed
  have sub: "set (senders ?ts2) \<subseteq> set (senders ?ts)"
    using m by (metis Un_upper1 set_mset_mset set_mset_union)
  have "send_ok ?ts2"
    unfolding send_ok_def
  proof (intro conjI ballI)
    show "distinct (map tid_ix (senders ?ts2))" using dS by simp
    fix x assume "x \<in> set (senders ?ts2)"
    then have x: "tid_ix x < MAX_TASK" "td_status (?ts ! tid_ix x) = TS_RCV_BL"
      using sub D(8) by (auto simp: send_ok_def)
    then have "tid_ix x \<noteq> ?n" using n(2) by (auto simp: live_def)
    then show "tid_ix x < MAX_TASK" "td_status (?ts2 ! tid_ix x) = TS_RCV_BL" using x by simp_all
  qed
  then show ?thesis
    using ok rep prio run fr tt D by (simp add: kinv_def)
qed

section \<open>Waiting for events\<close>

lemma places_im_push:
  assumes "k < 10" "im_lists im' = (im_lists im)[k := im_lists im ! k @ [t]]"
  shows "places qs im' cur = places qs im (t # cur)"
  using concat_update_mset [of k "im_lists im" "im_lists im ! k @ [t]"] assms by (simp add: places_def)

lemma places_im_pop:
  assumes "k < 10" "im_lists im ! k = t # q" "im_lists im' = (im_lists im)[k := q]"
  shows "places qs im' (t # cur) = places qs im cur"
  using concat_update_mset [of k "im_lists im" q] assms by (simp add: places_def)

lemma kinv_im_push:
  assumes inv: "kinv s qs (t # cur)" and k: "k < 10"
  shows "\<exists>im'. im_push (ks_im s) t (im_events ! k) = Some (CB_E_NONE, im') \<and>
    im_lists im' = (im_lists (ks_im s))[k := im_lists (ks_im s) ! k @ [t]] \<and>
    im_stored_flag im' = im_stored_flag (ks_im s) \<and> kinv (s\<lparr>ks_im := im'\<rparr>) qs cur"
proof -
  note D = kinvD [OF inv] and C = kinv_cur [OF inv]
  let ?q = "im_lists (ks_im s) ! k"
  have sub: "set ?q \<subseteq> set (concat (im_lists (ks_im s)))"
    using k in_set_concat_nth [of _ "im_lists (ks_im s)"] by auto
  have "?q \<in> set (im_lists (ks_im s))" using k by simp
  then have dist: "distinct ?q"
    using kinv_distinct(2) [OF inv] distinct_map_concat_part [of "\<lambda>x. x" "im_lists (ks_im s)"] by simp
  have "set ?q \<subseteq> {..<MAX_TASK} - {t}"
  proof
    fix i assume i: "i \<in> set ?q"
    then have "i \<in># places qs (ks_im s) (t # cur)" using sub by (auto simp: places_def)
    then show "i \<in> {..<MAX_TASK} - {t}"
      using run_ok_mem [OF D(7), of i] C(6) i sub by auto
  qed
  then have "length ?q \<le> card ({..<MAX_TASK} - {t})"
    using card_mono [of "{..<MAX_TASK} - {t}" "set ?q"] distinct_card [OF dist] by simp
  also have "\<dots> < MAX_TASK" using C(1) by simp
  finally obtain im' where im: "im_push (ks_im s) t (im_events ! k) = Some (CB_E_NONE, im')" "im_wf im'"
    "im_lists im' = (im_lists (ks_im s))[k := ?q @ [t]]" "im_stored_flag im' = im_stored_flag (ks_im s)"
    using im_push_ok [OF D(6) k] by blast
  moreover have "kinv (s\<lparr>ks_im := im'\<rparr>) qs cur"
    using D im(2) places_im_push [OF k im(3)] by (simp add: kinv_def)
  ultimately show ?thesis by blast
qed

lemma kinv_im_pop:
  assumes inv: "kinv s qs cur" and k: "k < 10" and q: "im_lists (ks_im s) ! k = t # q"
  shows "\<exists>im'. im_pop (ks_im s) (im_events ! k) = Some (CB_E_NONE, Some t, im') \<and>
    im_lists im' = (im_lists (ks_im s))[k := q] \<and>
    im_stored_flag im' = im_stored_flag (ks_im s) \<and> kinv (s\<lparr>ks_im := im'\<rparr>) qs (t # cur)"
proof -
  note D = kinvD [OF inv]
  obtain im' where im: "im_pop (ks_im s) (im_events ! k) = Some (CB_E_NONE, Some t, im')" "im_wf im'"
    "im_lists im' = (im_lists (ks_im s))[k := q]" "im_stored_flag im' = im_stored_flag (ks_im s)"
    using im_pop_ok [OF D(6) k q] by blast
  moreover have "kinv (s\<lparr>ks_im := im'\<rparr>) qs (t # cur)"
    using D im(2) places_im_pop [OF k q im(3)] by (simp add: kinv_def)
  ultimately show ?thesis by blast
qed

lemma kinv_flags:
  assumes "kinv s qs cur" "length f = INTERRUPT_SIZE"
  shows "kinv (s\<lparr>ks_im := (ks_im s)\<lparr>im_stored_flag := f\<rparr>\<rparr>) qs cur"
  using assms by (simp add: kinv_def im_wf_def places_def)

end
