(* ===== verification/Handlers.thy ===== *)
theory Handlers
  imports KernelInv
begin

text \<open>
  Every handler of the kernel keeps the invariant: with the activated task in the kernel's hands
  before, and with nothing in its hands after. The operations that take no user data (the scheduler,
  the interrupt wake-up, the start) are shown to return.
\<close>

section \<open>Small steps\<close>

lemma kinv_set_ret:
  assumes "kinv s qs cur" "mod_td t (td_ret_update (\<lambda>_. v)) s = Some s'"
  shows "kinv s' qs cur"
  by (rule kinv_mod_td [OF assms]) simp_all

lemma kinv_nth: "kinv s qs cur \<Longrightarrow> t < MAX_TASK \<Longrightarrow> td_ok t (ks_tasks s ! t)"
  using kinvD(1) by (simp add: tasks_ok_def)

text \<open>What pushing leaves as it was.\<close>

lemma k_push_frame:
  assumes "k_push p t s = Some s'"
  shows "ks_mem s' = ks_mem s" "ks_io s' = ks_io s" "ks_im s' = ks_im s" "ks_tids s' = ks_tids s"
    "ks_running s' = ks_running s" "ks_ns s' = ks_ns s"
  using assms by (auto simp: k_push_def fault_eq)

lemma k_ready_frame:
  assumes "k_ready t s = Some s'"
  shows "ks_mem s' = ks_mem s" "ks_io s' = ks_io s" "ks_im s' = ks_im s" "ks_tids s' = ks_tids s"
    "ks_running s' = ks_running s" "ks_ns s' = ks_ns s"
  using assms k_push_frame by (auto simp: k_ready_def fault_eq)

lemma mod_td_frame:
  assumes "mod_td t f s = Some s'"
  shows "ks_mem s' = ks_mem s" "ks_io s' = ks_io s" "ks_im s' = ks_im s" "ks_tids s' = ks_tids s"
    "ks_pq s' = ks_pq s" "ks_ns s' = ks_ns s"
  using assms by (auto simp: mod_td_eq_Some)

lemma k_ready_core:
  assumes "kinv s qs (t # cur)" "k_ready t s = Some s'"
  shows "td_core (ks_tasks s' ! i) = td_core (ks_tasks s ! i)" "length (ks_tasks s') = MAX_TASK"
    "senders (ks_tasks s') = senders (ks_tasks s)"
proof -
  have c: "td_core (ks_tasks s' ! i) = td_core (ks_tasks s ! i)" for i
    using k_ready_ok [OF assms(1)] assms(2) by (auto dest: same_but_next_core)
  then show "td_core (ks_tasks s' ! i) = td_core (ks_tasks s ! i)" .
  show l: "length (ks_tasks s') = MAX_TASK"
    using kinvD(9) [OF kinv_k_ready [OF assms]] .
  show "senders (ks_tasks s') = senders (ks_tasks s)"
    using l kinvD(9) [OF assms(1)] td_core_fields(4) [OF c] by (intro senders_cong) simp_all
qed

section \<open>Messages\<close>

text \<open>Delivery from a sender that is running to a receiver that is send blocked.\<close>

lemma kinv_deliver_send:
  assumes inv: "kinv s qs (t # cur)" and rt: "td_status (ks_tasks s ! rt) = TS_SND_BL"
    and del: "deliver t rt s = Some s'"
  shows "\<exists>qs'. kinv s' qs' cur"
proof -
  obtain m s1 s2 where
    s1: "mod_td rt (td_status_update (\<lambda>_. TS_READY)) (s\<lparr>ks_mem := m\<rparr>) = Some s1" and
    s2: "k_ready rt s1 = Some s2" and s': "mod_td t (td_status_update (\<lambda>_. TS_RPL_BL)) s2 = Some s'"
    using del by (auto simp: deliver_def fault_eq Let_def)
  have "rt < MAX_TASK" using s1 kinvD(9) [OF inv] by (simp add: mod_td_eq_Some)
  then have k1: "kinv s1 qs (rt # t # cur)"
    using kinv_wake [of "s\<lparr>ks_mem := m\<rparr>" qs "t # cur" rt] inv rt s1
    by (simp add: mod_td_eq_Some)
  have "kinv s2 (rq_push qs (nat (td_priority (ks_tasks s1 ! rt))) rt) (t # cur)"
    by (rule kinv_k_ready [OF k1 s2])
  then show ?thesis
    using kinv_block [of s2 _ t cur TS_RPL_BL] s' by (auto simp: mod_td_eq_Some)
qed

text \<open>Delivery from a receive blocked sender to a receiver that is running.\<close>

lemma kinv_deliver_receive:
  assumes inv: "kinv s qs (rt # cur)" and st: "st < MAX_TASK"
    and rcv: "td_status (ks_tasks s ! st) = TS_RCV_BL" "st \<notin> tid_ix ` set (senders (ks_tasks s))"
    and del: "deliver st rt s = Some s'"
  shows "\<exists>qs'. kinv s' qs' cur"
proof -
  obtain m s1 s2 where
    s1: "mod_td rt (td_status_update (\<lambda>_. TS_READY)) (s\<lparr>ks_mem := m\<rparr>) = Some s1" and
    s2: "k_ready rt s1 = Some s2" and s': "mod_td st (td_status_update (\<lambda>_. TS_RPL_BL)) s2 = Some s'"
    using del by (auto simp: deliver_def fault_eq Let_def)
  have k1: "kinv s1 qs (rt # cur)"
    using kinv_stay [of "s\<lparr>ks_mem := m\<rparr>" qs rt cur TS_READY] inv s1 by (simp add: mod_td_eq_Some)
  have k2: "kinv s2 (rq_push qs (nat (td_priority (ks_tasks s1 ! rt))) rt) cur"
    by (rule kinv_k_ready [OF k1 s2])
  have "st \<noteq> rt" using kinv_cur(2) [OF inv] rcv(1) by (auto simp: runnable_def)
  then have "td_status (ks_tasks s1 ! st) = TS_RCV_BL"
    using s1 rcv(1) by (simp add: mod_td_eq_Some)
  then have "td_status (ks_tasks s2 ! st) = TS_RCV_BL"
    using td_core_fields(2) [OF k_ready_core(1) [OF k1 s2]] by simp
  moreover have "senders (ks_tasks s1) = senders (ks_tasks s)"
    using s1 by (auto simp: mod_td_eq_Some nth_update_if send_list_def intro!: senders_cong)
  then have "st \<notin> tid_ix ` set (senders (ks_tasks s2))"
    using k_ready_core(3) [OF k1 s2] rcv(2) by simp
  ultimately show ?thesis
    using kinv_reply_blocked [OF k2 st] s' by (auto simp: mod_td_eq_Some)
qed

lemma kinv_send_handler:
  assumes inv: "kinv s qs (t # cur)" and h: "send_handler t s = Some s'"
  shows "\<exists>qs'. kinv s' qs' cur"
proof -
  define rt where "rt = unat (TID_ID (arg s (ks_tasks s ! t) 4))"
  let ?rtd = "ks_tasks s ! rt"
  obtain s1 where rt: "rt < MAX_TASK" "live ?rtd" and
    s1: "(if td_status ?rtd = TS_SND_BL then deliver t rt s
          else do {
            (r, q) \<leftarrow> cb_push MAX_TASK (td_tid (ks_tasks s ! t)) (td_send_q ?rtd);
            kassert (r = CB_E_NONE);
            s \<leftarrow> mod_td rt (td_send_q_update (\<lambda>_. q)) s;
            mod_td t (td_status_update (\<lambda>_. TS_RCV_BL)) s }) = Some s1"
    and s': "mod_td t (td_ret_update (\<lambda>_. 0)) s1 = Some s'"
    using h kinvD(9) [OF inv] unfolding send_handler_def rt_def
    by (auto simp: aget_eq_Some Option.bind_eq_Some_conv live_def Let_def simp del: bind_kassert_Some)
  have "\<exists>qs'. kinv s1 qs' cur"
  proof (cases "td_status ?rtd = TS_SND_BL")
    case True
    then show ?thesis using kinv_deliver_send [OF inv] s1 by simp
  next
    case False
    obtain q where q: "cb_push MAX_TASK (td_tid (ks_tasks s ! t)) (td_send_q ?rtd) = Some (CB_E_NONE, q)"
      "let ts1 = (ks_tasks s)[rt := ?rtd\<lparr>td_send_q := q\<rparr>] in
        kinv (s\<lparr>ks_tasks := ts1[t := (ts1 ! t)\<lparr>td_status := TS_RCV_BL\<rparr>]\<rparr>) qs cur"
      using kinv_enqueue [OF inv rt] by blast
    then show ?thesis
      using s1 False by (auto simp: mod_td_eq_Some Let_def fault_eq)
  qed
  then show ?thesis using s' kinv_set_ret by blast
qed

lemma kinv_receive_handler:
  assumes inv: "kinv s qs (t # cur)" and h: "receive_handler t s = Some s'"
  shows "\<exists>qs'. kinv s' qs' cur"
proof -
  note C = kinv_cur [OF inv]
  let ?rtd = "ks_tasks s ! t"
  have empty: "0 < cb_size (td_send_q ?rtd) \<longleftrightarrow> send_list ?rtd \<noteq> []"
    by (simp add: send_list_def cb_list_empty_iff word_gt_0)
  have "\<exists>s1 qs'. mod_td t (td_ret_update (\<lambda>_. 0)) s1 = Some s' \<and> kinv s1 qs' cur"
  proof (cases "send_list ?rtd")
    case Nil
    then obtain s1 where s1: "mod_td t (td_status_update (\<lambda>_. TS_SND_BL)) s = Some s1"
      "mod_td t (td_ret_update (\<lambda>_. 0)) s1 = Some s'"
      using h empty by (auto simp: receive_handler_def Option.bind_eq_Some_conv aget_eq_Some)
    then have "kinv s1 qs cur"
      using kinv_block [OF inv, of TS_SND_BL] by (simp add: mod_td_eq_Some)
    then show ?thesis using s1(2) by blast
  next
    case (Cons x xs)
    obtain q where q: "cb_pop MAX_TASK (td_send_q ?rtd) = Some (CB_E_NONE, Some x, q)"
      and k: "kinv (s\<lparr>ks_tasks := (ks_tasks s)[t := ?rtd\<lparr>td_send_q := q\<rparr>]\<rparr>) qs (t # cur)"
      and x: "tid_ix x \<notin> tid_ix ` set (senders ((ks_tasks s)[t := ?rtd\<lparr>td_send_q := q\<rparr>]))"
        "tid_ix x < MAX_TASK" "td_status (ks_tasks s ! tid_ix x) = TS_RCV_BL"
      using kinv_dequeue [OF inv C(1) Cons] by (auto simp: Let_def)
    let ?s1 = "s\<lparr>ks_tasks := (ks_tasks s)[t := ?rtd\<lparr>td_send_q := q\<rparr>]\<rparr>"
    obtain s1 where s1: "deliver (tid_ix x) t ?s1 = Some s1"
      "mod_td t (td_ret_update (\<lambda>_. 0)) s1 = Some s'"
      using h empty Cons q C(1) kinvD(9) [OF inv]
      by (auto simp: receive_handler_def Option.bind_eq_Some_conv aget_eq_Some mod_td_Some Let_def)
    have "tid_ix x \<noteq> t" using C(2) x(3) by (auto simp: runnable_def)
    then show ?thesis
      using kinv_deliver_receive [OF k x(2) _ _ s1(1)] x s1(2) by auto
  qed
  then show ?thesis using kinv_set_ret by blast
qed

lemma kinv_reply_handler:
  assumes inv: "kinv s qs (t # cur)" and h: "reply_handler t s = Some s'"
  shows "\<exists>qs'. kinv s' qs' cur"
proof -
  define st where "st = unat (TID_ID (arg s (ks_tasks s ! t) 4))"
  obtain m s1 s2 s3 where st: "td_status (ks_tasks s ! st) = TS_RPL_BL" and
    s1: "mod_td st (td_status_update (\<lambda>_. TS_READY)) (s\<lparr>ks_mem := m\<rparr>) = Some s1" and
    s2: "k_ready st s1 = Some s2" and
    s3: "mod_td t (td_ret_update (\<lambda>_. 0) \<circ> td_status_update (\<lambda>_. TS_READY)) s2 = Some s3" and
    s': "k_ready t s3 = Some s'"
    using h by (auto simp: reply_handler_def fault_eq Let_def st_def)
  have "st < MAX_TASK" using s1 kinvD(9) [OF inv] by (simp add: mod_td_eq_Some)
  then have k1: "kinv s1 qs (st # t # cur)"
    using kinv_wake [of "s\<lparr>ks_mem := m\<rparr>" qs "t # cur" st] inv st s1
    by (simp add: mod_td_eq_Some)
  obtain qs2 where k2: "kinv s2 qs2 (t # cur)" using kinv_k_ready [OF k1 s2] by blast
  let ?s2 = "s2\<lparr>ks_tasks := (ks_tasks s2)[t := (ks_tasks s2 ! t)\<lparr>td_status := TS_READY\<rparr>]\<rparr>"
  have "kinv ?s2 qs2 (t # cur)" using kinv_stay [OF k2, of TS_READY] by simp
  moreover have "mod_td t (td_ret_update (\<lambda>_. 0)) ?s2 = Some s3"
    using s3 by (auto simp: mod_td_eq_Some)
  ultimately have "kinv s3 qs2 (t # cur)" by (rule kinv_set_ret)
  then show ?thesis using kinv_k_ready s' by blast
qed

section \<open>Creation\<close>

text \<open>\<^verbatim>\<open>ktd_create\<close> and \<^verbatim>\<open>ktd_create_args\<close> put the same kind of descriptor into the slot.\<close>

definition fresh_td :: "u32 \<Rightarrow> int \<Rightarrow> TaskDescriptor \<Rightarrow> bool" where
  "fresh_td tid p td \<longleftrightarrow> td_tid td = tid \<and> td_status td = TS_READY \<and> td_priority td = p \<and>
     td_next td = None \<and> cb_wf MAX_TASK (td_send_q td) \<and> send_list td = []"

lemma td_ok_send_init:
  "td_ok t td \<Longrightarrow> cb_wf MAX_TASK (cb_init (td_send_q td)) \<and> cb_list MAX_TASK (cb_init (td_send_q td)) = []"
  using cb_wfD(3) [of MAX_TASK "td_send_q td"] by (auto simp: td_ok_def intro: cb_init_wf)

lemma ktd_create_fresh:
  assumes "ktd_create t tid task p TS_READY par s = Some s'" "td_ok t (ks_tasks s ! t)"
  shows "fresh_td tid p (ks_tasks s' ! t)" "t < length (ks_tasks s)"
    "s' = s\<lparr>ks_mem := ks_mem s', ks_tasks := (ks_tasks s)[t := ks_tasks s' ! t]\<rparr>"
  using assms td_ok_send_init [OF assms(2)]
  by (auto simp: ktd_create_def mod_td_eq_Some fresh_td_def send_list_def Let_def)

lemma ktd_create_args_fresh:
  assumes "ktd_create_args t tid task p TS_READY par args n s = Some s'" "td_ok t (ks_tasks s ! t)"
  shows "fresh_td tid p (ks_tasks s' ! t)" "t < length (ks_tasks s)"
    "s' = s\<lparr>ks_mem := ks_mem s', ks_tasks := (ks_tasks s)[t := ks_tasks s' ! t]\<rparr>"
  using assms(1) td_ok_send_init [OF assms(2)] unfolding ktd_create_args_def Let_def mod_td_eq_Some
  by (simp_all add: fresh_td_def send_list_def)

lemma kinv_fresh:
  assumes inv: "kinv s qs cur" and tids: "tt_tids (ks_tids s) = tid # tids"
    and tt: "tt_wf tt'" "tt_tids tt' = tids"
    and td: "fresh_td tid p td" "0 \<le> p" "p < int MAX_PRIORITY"
    and s': "s' = s\<lparr>ks_tids := tt', ks_mem := m, ks_tasks := (ks_tasks s)[tid_ix tid := td]\<rparr>"
  shows "kinv s' qs (tid_ix tid # cur)"
  using kinv_new_task [OF inv tids tt, of td p] td unfolding s'
  by (simp add: fresh_td_def kinv_def)

lemma tt_get_cases:
  assumes "tt_wf tt" "tt_get tt = Some (tid, tt')" "\<not> sint tid < 0"
  shows "\<exists>tids. tt_tids tt = tid # tids \<and> tt_wf tt' \<and> tt_tids tt' = tids"
proof (cases "tt_tids tt")
  case Nil
  then show ?thesis using assms tt_get_empty [OF assms(1)] by simp
next
  case (Cons x xs)
  then show ?thesis using assms tt_get_ok [OF assms(1) Cons] by auto
qed

lemma free_tid_slot:
  assumes "kinv s qs cur" "tt_tids (ks_tids s) = tid # tids"
  shows "tid_ix tid < MAX_TASK" "td_ok (tid_ix tid) (ks_tasks s ! tid_ix tid)"
proof -
  show "tid_ix tid < MAX_TASK"
    using kinvD(5) [OF assms(1)] assms(2) by (auto simp: free_ok_def)
  then show "td_ok (tid_ix tid) (ks_tasks s ! tid_ix tid)" by (rule kinv_nth [OF assms(1)])
qed

lemma kinv_creation:
  assumes inv: "kinv s qs (t # cur)" and get: "tt_get (ks_tids s) = Some (tid, tt')"
    "\<not> sint tid < 0" and p: "IS_VALID_PRIORITY p"
    and fresh: "td_ok (tid_ix tid) (ks_tasks s ! tid_ix tid) \<Longrightarrow> fresh_td tid p (ks_tasks s1 ! tid_ix tid)"
    and s1: "td_ok (tid_ix tid) (ks_tasks s ! tid_ix tid) \<Longrightarrow> s1 = s\<lparr>ks_tids := tt', ks_mem := ks_mem s1,
      ks_tasks := (ks_tasks s)[tid_ix tid := ks_tasks s1 ! tid_ix tid]\<rparr>"
    and s2: "k_push p (tid_ix tid) s1 = Some s2"
    and s': "mod_td t (td_ret_update (\<lambda>_. v)) s2 = Some s'"
  shows "\<exists>qs'. kinv s' qs' (t # cur)"
proof -
  obtain tids where tids: "tt_tids (ks_tids s) = tid # tids" "tt_wf tt'" "tt_tids tt' = tids"
    using tt_get_cases [OF kinvD(4) [OF inv] get] by blast
  note ok = free_tid_slot(2) [OF inv tids(1)]
  have k1: "kinv s1 qs (tid_ix tid # t # cur)"
    using p by (intro kinv_fresh [OF inv tids fresh [OF ok] _ _ s1 [OF ok]]) (simp_all add: IS_VALID_PRIORITY_def)
  have "td_priority (ks_tasks s1 ! tid_ix tid) = p"
    using fresh [OF ok] by (simp add: fresh_td_def)
  then have "kinv s2 (rq_push qs (nat p) (tid_ix tid)) (t # cur)"
    using k_push_ok [OF k1] s2 by auto
  then show ?thesis using kinv_set_ret [OF _ s'] by blast
qed

lemma kinv_create:
  assumes inv: "kinv s qs (t # cur)" and h: "create t s = Some s'"
  shows "\<exists>qs'. kinv s' qs' (t # cur)"
proof -
  obtain tid tt' task p s1 s2 where get: "tt_get (ks_tids s) = Some (tid, tt')" "\<not> sint tid < 0"
    and p: "IS_VALID_PRIORITY p"
    and s1: "ktd_create (tid_ix tid) tid task p TS_READY (Some t) (s\<lparr>ks_tids := tt'\<rparr>) = Some s1"
    and s2: "k_push p (tid_ix tid) s1 = Some s2"
    and s': "mod_td t (td_ret_update (\<lambda>_. tid)) s2 = Some s'"
    using h by (auto simp: create_def Let_def Option.bind_eq_Some_conv split: if_splits)
  show ?thesis
    using ktd_create_fresh(1,3) [OF s1] by (intro kinv_creation [OF inv get p _ _ s2 s']) simp_all
qed

lemma kinv_create_w_args:
  assumes inv: "kinv s qs (t # cur)" and h: "create_w_args t s = Some s'"
  shows "\<exists>qs'. kinv s' qs' (t # cur)"
proof -
  obtain tid tt' task p args n s1 s2 where get: "tt_get (ks_tids s) = Some (tid, tt')" "\<not> sint tid < 0"
    and p: "IS_VALID_PRIORITY p"
    and s1: "ktd_create_args (tid_ix tid) tid task p TS_READY (Some t) args n (s\<lparr>ks_tids := tt'\<rparr>) = Some s1"
    and s2: "k_push p (tid_ix tid) s1 = Some s2"
    and s': "mod_td t (td_ret_update (\<lambda>_. tid)) s2 = Some s'"
    using h by (auto simp: create_w_args_def Let_def Option.bind_eq_Some_conv split: if_splits)
  show ?thesis
    using ktd_create_args_fresh(1,3) [OF s1] by (intro kinv_creation [OF inv get p _ _ s2 s']) simp_all
qed

section \<open>Interrupts\<close>

lemma get_interrupt_ret_total: "ie \<in> set im_events \<Longrightarrow> \<exists>v. get_interrupt_ret ie s = Some v"
  by (auto simp: im_events_def get_interrupt_ret_def)

lemma clear_interrupt_total:
  "ie \<in> set im_events \<Longrightarrow> \<exists>io. clear_interrupt ie s = Some (s\<lparr>ks_io := io\<rparr>)"
  by (auto simp: im_events_def clear_interrupt_def Let_def)

lemma is_interrupt_asserted_total:
  "ie \<in> set im_events \<Longrightarrow> \<exists>b. is_interrupt_asserted ie s = Some b"
  by (auto simp: im_events_def is_interrupt_asserted_def)

lemma event_flag_index: "ie \<in> set im_events \<Longrightarrow> unat ie < INTERRUPT_SIZE"
  by (auto simp: im_events_def)

lemma set_WakePriority: "set WakePriority = set im_events"
  by (auto simp: WakePriority_def im_events_def)

text \<open>\<^verbatim>\<open>wakeall\<close> empties the queue of its event and pushes the waiting tasks, first come first
  served, on the ready queue.\<close>

definition wake_push :: "tds \<Rightarrow> nat list \<Rightarrow> nat list list \<Rightarrow> nat list list" where
  "wake_push ts w qs = fold (\<lambda>t qs. rq_push qs (nat (td_priority (ts ! t))) t) w qs"

lemma wake_push_simps [simp]:
  "wake_push ts [] qs = qs"
  "wake_push ts (t # w) qs = wake_push ts w (rq_push qs (nat (td_priority (ts ! t))) t)"
  by (simp_all add: wake_push_def)

lemma length_wake_push [simp]: "length (wake_push ts w qs) = length qs"
  by (induction w arbitrary: qs) simp_all

lemma wake_push_nth:
  "(\<And>t. t \<in> set w \<Longrightarrow> nat (td_priority (ts ! t)) < length qs) \<Longrightarrow> i < length qs \<Longrightarrow>
   wake_push ts w qs ! i = qs ! i @ filter (\<lambda>t. nat (td_priority (ts ! t)) = i) w"
  by (induction w arbitrary: qs) (auto simp: rq_push_nth)

lemma wake_push_cong:
  "(\<And>t. t \<in> set w \<Longrightarrow> td_priority (ts ! t) = td_priority (ts' ! t)) \<Longrightarrow>
   wake_push ts w qs = wake_push ts' w qs"
  by (induction w arbitrary: qs) simp_all

lemma wakeall_ok:
  assumes k: "k < 10"
  shows "kinv s qs cur \<Longrightarrow> im_lists (ks_im s) ! k = w \<Longrightarrow>
    \<exists>s'. wakeall (im_events ! k) s = Some s' \<and> kinv s' (wake_push (ks_tasks s) w qs) cur \<and>
      im_lists (ks_im s') = (im_lists (ks_im s))[k := []] \<and>
      im_stored_flag (ks_im s') = im_stored_flag (ks_im s) \<and> ks_io s' = ks_io s \<and>
      ks_mem s' = ks_mem s \<and> ks_tids s' = ks_tids s \<and>
      (\<forall>i. td_core (ks_tasks s' ! i) = td_core (ks_tasks s ! i))"
proof (induction w arbitrary: s qs)
  case Nil
  then have "im_eventsize (ks_im s) (im_events ! k) = Some 0"
    using im_eventsize_ok [OF kinvD(6) k] by simp
  moreover have "im_lists (ks_im s) = (im_lists (ks_im s))[k := []]"
    using Nil.prems(2) list_update_id [of "im_lists (ks_im s)" k] by simp
  ultimately show ?case using Nil.prems(1) by (subst wakeall.simps) simp
next
  case (Cons t w)
  let ?ie = "im_events ! k"
  have ie: "?ie \<in> set im_events" using k by (rule im_events_mem)
  have size: "im_eventsize (ks_im s) ?ie = Some (1 + int (length w))"
    using im_eventsize_ok [OF kinvD(6) [OF Cons.prems(1)] k] Cons.prems(2) by simp
  obtain im' where pop: "im_pop (ks_im s) ?ie = Some (CB_E_NONE, Some t, im')"
    "im_lists im' = (im_lists (ks_im s))[k := w]" "im_stored_flag im' = im_stored_flag (ks_im s)"
    and k1: "kinv (s\<lparr>ks_im := im'\<rparr>) qs (t # cur)"
    using kinv_im_pop [OF Cons.prems(1) k Cons.prems(2)] by blast
  obtain v where v: "get_interrupt_ret ?ie s = Some v"
    using get_interrupt_ret_total [OF ie] by blast
  have t: "t < MAX_TASK" "length (ks_tasks s) = MAX_TASK"
    using kinv_cur(1) [OF k1] kinvD(9) [OF Cons.prems(1)] by simp_all
  let ?s2 = "s\<lparr>ks_im := im', ks_tasks := (ks_tasks s)[t := (ks_tasks s ! t)\<lparr>td_ret := v\<rparr>]\<rparr>"
  have mod: "mod_td t (td_ret_update (\<lambda>_. v)) (s\<lparr>ks_im := im'\<rparr>) = Some ?s2"
    using t by (simp add: mod_td_Some)
  have k2: "kinv ?s2 qs (t # cur)" by (rule kinv_set_ret [OF k1 mod])
  let ?p = "td_priority (ks_tasks s ! t)"
  obtain s3 where s3: "k_ready t ?s2 = Some s3" "kinv s3 (rq_push qs (nat ?p) t) cur"
    using k_ready_ok [OF k2] t by auto
  have core: "td_core (ks_tasks s3 ! i) = td_core (ks_tasks s ! i)" for i
    using k_ready_core(1) [OF k2 s3(1), of i] by (simp add: nth_update_if)
  have "im_lists (ks_im s3) ! k = w"
    using k_ready_frame(3) [OF s3(1)] pop(2) k by simp
  from Cons.IH [OF s3(2) this] obtain s' where s': "wakeall ?ie s3 = Some s'"
    "kinv s' (wake_push (ks_tasks s3) w (rq_push qs (nat ?p) t)) cur"
    "im_lists (ks_im s') = (im_lists (ks_im s3))[k := []]"
    "im_stored_flag (ks_im s') = im_stored_flag (ks_im s3)" "ks_io s' = ks_io s3"
    "ks_mem s' = ks_mem s3" "ks_tids s' = ks_tids s3"
    "\<forall>i. td_core (ks_tasks s' ! i) = td_core (ks_tasks s3 ! i)" by blast
  have "wakeall ?ie s = Some s'"
    using size pop(1) v mod s3(1) s'(1) by (subst wakeall.simps) simp
  moreover have "wake_push (ks_tasks s3) w qs' = wake_push (ks_tasks s) w qs'" for qs'
    using td_core_fields(3) [OF core] by (intro wake_push_cong) simp
  ultimately show ?case
    using s' k_ready_frame [OF s3(1)] pop(2,3) core by simp
qed

lemma is_interrupt_stored_eq:
  "im_wf (ks_im s) \<Longrightarrow> unat ie < INTERRUPT_SIZE \<Longrightarrow>
   is_interrupt_stored ie s = Some (im_stored_flag (ks_im s) ! unat ie \<noteq> 0)"
  by (simp add: is_interrupt_stored_def im_wf_def)

lemma store_assert_ok:
  assumes "kinv s qs cur" "ie \<in> set im_events"
  shows "\<exists>s'. store_assert ie s = Some s' \<and> kinv s' qs cur \<and> ks_io s' = ks_io s \<and>
    ks_tasks s' = ks_tasks s \<and> im_lists (ks_im s') = im_lists (ks_im s) \<and>
    im_stored_flag (ks_im s') =
      (im_stored_flag (ks_im s))[unat ie := im_stored_flag (ks_im s) ! unat ie + 1]"
  using event_flag_index [OF assms(2)] kinvD(6) [OF assms(1)]
  by (simp add: store_assert_def im_wf_def kinv_flags [OF assms(1)])

lemma remove_assert_ok:
  assumes "kinv s qs cur" "unat ie < INTERRUPT_SIZE"
  shows "\<exists>s'. remove_assert ie s = Some s' \<and> kinv s' qs cur \<and> ks_io s' = ks_io s \<and>
    ks_tasks s' = ks_tasks s \<and> im_lists (ks_im s') = im_lists (ks_im s) \<and>
    im_stored_flag (ks_im s') = (im_stored_flag (ks_im s))[unat ie := 0]"
  using assms(2) kinvD(6) [OF assms(1)]
  by (simp add: remove_assert_def im_wf_def kinv_flags [OF assms(1)])

text \<open>The wake-up always returns and keeps the invariant; it stops at the first pending event
  somebody waits for.\<close>

lemma event_wake_loop_ok:
  assumes "set ies \<subseteq> set im_events"
  shows "kinv s qs cur \<Longrightarrow> \<exists>s' qs'. event_wake_loop ies s = Some s' \<and> kinv s' qs' cur"
  using assms
proof (induction ies arbitrary: s)
  case Nil
  then show ?case by auto
next
  case (Cons ie ies)
  then have ie: "ie \<in> set im_events" by simp
  then obtain k where k: "k < 10" "ie = im_events ! k" by (rule im_events_cases)
  obtain b where b: "is_interrupt_asserted ie s = Some b"
    using is_interrupt_asserted_total [OF ie] by blast
  obtain c where c: "is_interrupt_stored ie s = Some c"
    using is_interrupt_stored_eq [OF kinvD(6) [OF Cons.prems(1)] event_flag_index [OF ie]] by blast
  have size: "im_eventsize (ks_im s) ie = Some (int (length (im_lists (ks_im s) ! k)))"
    using im_eventsize_ok [OF kinvD(6) [OF Cons.prems(1)] k(1)] k(2) by simp
  show ?case
  proof (cases "b \<or> c")
    case False
    then show ?thesis using b c Cons by simp
  next
    case pending: True
    show ?thesis
    proof (cases "im_lists (ks_im s) ! k = []")
      case True
      obtain s1 where s1: "store_assert ie s = Some s1" "kinv s1 qs cur"
        using store_assert_ok [OF Cons.prems(1) ie] by blast
      obtain io where "clear_interrupt ie s1 = Some (s1\<lparr>ks_io := io\<rparr>)"
        using clear_interrupt_total [OF ie] by blast
      then show ?thesis
        using b c pending size True s1 Cons.IH [of "s1\<lparr>ks_io := io\<rparr>"] Cons.prems(2)
        by (cases b) simp_all
    next
      case False
      obtain s1 qs1 where s1: "wakeall ie s = Some s1" "kinv s1 qs1 cur"
        using wakeall_ok [OF k(1) Cons.prems(1) refl] k(2) by blast
      obtain io where io: "clear_interrupt ie s1 = Some (s1\<lparr>ks_io := io\<rparr>)"
        using clear_interrupt_total [OF ie] by blast
      obtain s2 where "remove_assert ie (s1\<lparr>ks_io := io\<rparr>) = Some s2" "kinv s2 qs1 cur"
        using remove_assert_ok [of "s1\<lparr>ks_io := io\<rparr>" qs1 cur ie] s1(2) event_flag_index [OF ie] by auto
      then show ?thesis
        using b c pending size False s1(1) io by (cases b) auto
    qed
  qed
qed

lemma event_wake_ok: "kinv s qs cur \<Longrightarrow> \<exists>s' qs'. event_wake s = Some s' \<and> kinv s' qs' cur"
  using event_wake_loop_ok [of WakePriority s qs cur] set_WakePriority by (simp add: event_wake_def)

lemma kinv_event_register:
  assumes inv: "kinv s qs (t # cur)" and h: "event_register t s = Some s'"
  shows "\<exists>qs'. kinv s' qs' cur"
proof -
  define ie where "ie = arg s (ks_tasks s ! t) 4"
  note C = kinv_cur [OF inv]
  obtain b where b: "is_interrupt_stored ie s = Some b"
    using h by (auto simp: event_register_def Let_def fault_eq ie_def)
  then have i: "unat ie < INTERRUPT_SIZE"
    using kinvD(6) [OF inv] by (auto simp: is_interrupt_stored_def im_wf_def fault_eq)
  show ?thesis
  proof (cases b)
    case True
    then obtain v s1 s2 where v: "get_interrupt_ret ie s = Some v"
      "mod_td t (td_ret_update (\<lambda>_. v)) s = Some s1" "k_ready t s1 = Some s2"
      "remove_assert ie s2 = Some s'"
      using h b C(1) kinvD(9) [OF inv]
      by (auto simp: event_register_def Let_def Option.bind_eq_Some_conv aget_eq_Some ie_def)
    have "kinv s1 qs (t # cur)" using kinv_set_ret [OF inv v(2)] .
    then obtain qs2 where "kinv s2 qs2 cur" using kinv_k_ready v(3) by blast
    then show ?thesis using remove_assert_ok [OF _ i] v(4) by fastforce
  next
    case False
    then obtain r im where im: "im_push (ks_im s) t ie = Some (r, im)" "s' = s\<lparr>ks_im := im\<rparr>"
      using h b C(1) kinvD(9) [OF inv]
      by (auto simp: event_register_def Let_def Option.bind_eq_Some_conv aget_eq_Some ie_def)
    then have "im_queue (ks_im s) ie \<noteq> None" by (auto simp: im_push_def fault_eq)
    then have "ie \<in> set im_events" using im_queue_None [of "ks_im s" ie] by simp
    then obtain k where k: "k < 10" "ie = im_events ! k" by (rule im_events_cases)
    then show ?thesis using kinv_im_push [OF inv k(1)] im by auto
  qed
qed

section \<open>The dispatcher\<close>

lemma kinv_then_ready:
  assumes "\<exists>qs'. kinv s qs' (t # cur)" "k_ready t s = Some s'"
  shows "\<exists>qs'. kinv s' qs' cur"
  using assms kinv_k_ready by blast

lemma kinv_task_info:
  assumes "kinv s qs cur" "task_info t s = Some (v, s')"
  shows "kinv s' qs cur"
  using assms by (auto simp: task_info_def fault_eq Let_def)

text \<open>The preservation theorem: whatever the request, and whatever its arguments are,
  when the handler returns the invariant holds again.\<close>

lemma kinv_handle_run:
  assumes inv: "kinv s qs (t # cur)" and h: "handle_run t req s = Some s'"
  shows "\<exists>qs'. kinv s' qs' cur"
proof (cases req)
  case TR_IRQ
  then obtain s1 where "event_wake s = Some s1" "k_ready t s1 = Some s'"
    using h by (auto simp: handle_run_def fault_eq)
  then show ?thesis using event_wake_ok [OF inv] kinv_then_ready by fastforce
next
  case TR_AWAIT_EVENT
  then show ?thesis using h kinv_event_register [OF inv] by (simp add: handle_run_def)
next
  case TR_SEND
  then show ?thesis using h kinv_send_handler [OF inv] by (simp add: handle_run_def)
next
  case TR_RECEIVE
  then show ?thesis using h kinv_receive_handler [OF inv] by (simp add: handle_run_def)
next
  case TR_REPLY
  then show ?thesis using h kinv_reply_handler [OF inv] by (simp add: handle_run_def)
next
  case TR_PASS
  then show ?thesis using h kinv_k_ready [OF inv] by (auto simp: handle_run_def)
next
  case TR_BLOCK
  then obtain s1 where s1: "mod_td t (td_status_update (\<lambda>_. TS_BLOCKED)) s = Some s1"
    "k_ready t s1 = Some s'"
    using h by (auto simp: handle_run_def fault_eq)
  have "kinv s1 qs (t # cur)"
    using kinv_stay [OF inv, of TS_BLOCKED] s1(1) by (simp add: mod_td_eq_Some)
  then show ?thesis using kinv_then_ready s1(2) by blast
next
  case TR_CREATE
  then show ?thesis using h kinv_create [OF inv] kinv_then_ready by (auto simp: handle_run_def fault_eq)
next
  case TR_CREATE_W_ARGS
  then show ?thesis
    using h kinv_create_w_args [OF inv] kinv_then_ready by (auto simp: handle_run_def fault_eq)
next
  case TR_MY_TID
  then obtain s1 where s1: "mod_td t (\<lambda>td. td\<lparr>td_ret := td_tid td\<rparr>) s = Some s1" "k_ready t s1 = Some s'"
    using h by (auto simp: handle_run_def get_tid_def fault_eq)
  have "kinv s1 qs (t # cur)" by (rule kinv_mod_td [OF inv s1(1)]) simp_all
  then show ?thesis using kinv_then_ready s1(2) by blast
next
  case TR_MY_PARENT_TID
  then obtain v s1 where "mod_td t (td_ret_update (\<lambda>_. v)) s = Some s1" "k_ready t s1 = Some s'"
    using h by (auto simp: handle_run_def get_parentTid_def Option.bind_eq_Some_conv)
  then show ?thesis using kinv_set_ret [OF inv] kinv_then_ready by blast
next
  case TR_NS_REG
  then obtain n where "k_ready t (s\<lparr>ks_ns := n\<rparr>) = Some s'"
    using h by (auto simp: handle_run_def ns_register_def fault_eq)
  moreover have "kinv (s\<lparr>ks_ns := n\<rparr>) qs (t # cur)" using inv by simp
  ultimately show ?thesis using kinv_k_ready by blast
next
  case TR_NS_GET
  then obtain v s1 where "mod_td t (td_ret_update (\<lambda>_. v)) s = Some s1" "k_ready t s1 = Some s'"
    using h by (auto simp: handle_run_def ns_get_def Option.bind_eq_Some_conv)
  then show ?thesis using kinv_set_ret [OF inv] kinv_then_ready by blast
next
  case TR_EXIT
  then show ?thesis
    using h kinv_exit [OF inv] kinv_cur(1) [OF inv] kinvD(9) [OF inv]
    by (auto simp: handle_run_def mod_td_Some)
next
  case TR_INFO_NPROC
  then obtain v s1 where "mod_td t (td_ret_update (\<lambda>_. v)) s = Some s1" "k_ready t s1 = Some s'"
    using h by (auto simp: handle_run_def set_ret_def Option.bind_eq_Some_conv)
  then show ?thesis using kinv_set_ret [OF inv] kinv_then_ready by blast
next
  case TR_INFO_MEM
  then obtain v s1 where "mod_td t (td_ret_update (\<lambda>_. v)) s = Some s1" "k_ready t s1 = Some s'"
    using h by (auto simp: handle_run_def set_ret_def Option.bind_eq_Some_conv)
  then show ?thesis using kinv_set_ret [OF inv] kinv_then_ready by blast
next
  case TR_INFO_CPU
  then obtain v s1 where "mod_td t (td_ret_update (\<lambda>_. v)) s = Some s1" "k_ready t s1 = Some s'"
    using h by (auto simp: handle_run_def set_ret_def Option.bind_eq_Some_conv)
  then show ?thesis using kinv_set_ret [OF inv] kinv_then_ready by blast
next
  case TR_INFO_TASK
  then obtain v s1 s2 where "task_info t s = Some (v, s1)"
    "mod_td t (td_ret_update (\<lambda>_. v)) s1 = Some s2" "k_ready t s2 = Some s'"
    using h by (auto simp: handle_run_def set_ret_def Option.bind_eq_Some_conv)
  then show ?thesis using kinv_set_ret [OF kinv_task_info [OF inv]] kinv_then_ready by blast
qed (use h in \<open>simp_all add: handle_run_def\<close>)

section \<open>The scheduler\<close>

lemma schedule_idle: "kinv s qs cur \<Longrightarrow> concat qs = [] \<Longrightarrow> schedule s = Some (None, s)"
  using pq_repD(4) [OF kinvD(2)] by (fastforce simp: schedule_def)

lemma schedule_ok:
  assumes inv: "kinv s qs cur" and pop: "rq_pop qs = Some (t, qs')"
  shows "\<exists>s'. schedule s = Some (Some t, s') \<and> kinv s' qs' (t # cur) \<and> ks_running s' = Some t \<and>
    ks_mem s' = ks_mem s \<and> ks_io s' = ks_io s \<and> ks_im s' = ks_im s \<and> ks_tids s' = ks_tids s \<and>
    (\<forall>i. same_but_next (ks_tasks s ! i) (ks_tasks s' ! i))"
proof -
  note D = kinvD [OF inv]
  let ?ts = "(ks_tasks s)[t := (ks_tasks s ! t)\<lparr>td_next := None\<rparr>]"
  obtain pq' where pq: "pq_pop (ks_pq s) (ks_tasks s) = Some (PQ_NONE, Some t, pq', ?ts)"
    "pq_rep ?ts pq' qs'" "t < length (ks_tasks s)"
    using pq_pop_rep [OF D(2) pop] by blast
  have ne: "concat qs \<noteq> []" using pop rq_pop_None [of qs] by auto
  let ?s = "s\<lparr>ks_pq := pq', ks_tasks := ?ts, ks_running := Some t\<rparr>"
  have sch: "schedule s = Some (Some t, ?s)"
    using pq ne pq_repD(4) [OF D(2)] by (simp add: schedule_def)
  have same: "same_but_next (ks_tasks s ! i) (?ts ! i)" for i
    using pq(3) by (cases "i = t") simp_all
  have core: "td_core (?ts ! i) = td_core (ks_tasks s ! i)" for i
    using same_but_next_core [OF same] .
  note C = core_cong [of ?ts "ks_tasks s", OF length_list_update core D(1)]
  have m: "mset (concat qs) = add_mset t (mset (concat qs'))"
    by (rule rq_pop_mset_concat [OF pop])
  obtain p where p: "rq_top qs = Some p" "qs' = qs[p := tl (qs ! p)]"
    using pop by (auto simp: rq_pop_Some)
  have "prio_ok (ks_tasks s) qs'"
    using D(3) p by (auto simp: prio_ok_def nth_update_if dest: list.set_sel(2) [rotated])
      (metis list.set_sel(2) tl_Nil empty_iff list.set(1))
  then have pr: "prio_ok ?ts qs'"
    using pq_repD(2) [OF pq(2)] td_core_fields(3) [OF core]
    by (intro prio_ok_cong [of qs' ?ts "ks_tasks s"]) simp_all
  have "places qs' (ks_im s) (t # cur) = places qs (ks_im s) cur"
    using m by (simp add: places_def)
  then have "kinv ?s qs' (t # cur)"
    using pq(2) C D pr by (simp add: kinv_def)
  then show ?thesis using same sch by auto
qed

section \<open>The start\<close>

text \<open>What the types of the globals give: the lengths of the arrays.\<close>

definition kstate_typed :: "kstate \<Rightarrow> bool" where
  "kstate_typed s \<longleftrightarrow> length (ks_tasks s) = MAX_TASK \<and>
     (\<forall>td\<in>set (ks_tasks s). length (cb_buf (td_send_q td)) = MAX_TASK) \<and>
     length (cb_buf (tt_cb (ks_tids s))) = MAX_TASK \<and> length (pqs (ks_pq s)) = MAX_PRIORITY \<and>
     length (im_stored_flag (ks_im s)) = INTERRUPT_SIZE \<and>
     (\<forall>cb\<in>set (im_cbs (ks_im s)). length (cb_buf cb) = MAX_TASK)"

lemma kinv_initial:
  assumes ty: "length (ks_tasks s) = MAX_TASK"
      "\<forall>td\<in>set (ks_tasks s). td_status td = TS_UNINIT \<and> cb_wf MAX_TASK (td_send_q td) \<and> send_list td = []"
    and tt: "tt_wf (ks_tids s)" "tt_tids (ks_tids s) = map of_nat [0..<MAX_TASK]"
    and pq: "pq_rep (ks_tasks s) (ks_pq s) (replicate MAX_PRIORITY [])"
    and im: "im_wf (ks_im s)" "concat (im_lists (ks_im s)) = []"
  shows "kinv s (replicate MAX_PRIORITY []) []"
proof -
  have td: "td_status (ks_tasks s ! t) = TS_UNINIT \<and> cb_wf MAX_TASK (td_send_q (ks_tasks s ! t))"
    if "t < MAX_TASK" for t
    using ty that by (simp add: nth_mem)
  have ids: "map tid_ix (map of_nat [0..<MAX_TASK]) = [0..<MAX_TASK]"
    by (rule nth_equalityI) (simp_all add: TID_ID_of_nat)
  have "tasks_ok (ks_tasks s)" using ty(1) td by (auto simp: tasks_ok_def td_ok_def live_def)
  moreover have "free_ok (ks_tasks s) (tt_tids (ks_tids s))"
    using td unfolding free_ok_def tt(2) ids by (auto simp: live_def)
  moreover have none: "{t. t < MAX_TASK \<and> runnable (ks_tasks s ! t)} = {}"
    using td by (auto simp: runnable_def)
  have "run_ok (ks_tasks s) (places (replicate MAX_PRIORITY []) (ks_im s) [])"
    unfolding run_ok_def places_def im(2) none by simp
  moreover have "send_ok (ks_tasks s)"
  proof -
    have "senders (ks_tasks s) = []" using ty(2) by (auto simp: senders_def)
    then show ?thesis by (simp add: send_ok_def)
  qed
  moreover have "prio_ok (ks_tasks s) (replicate MAX_PRIORITY [])" by (simp add: prio_ok_def)
  ultimately show ?thesis using pq tt(1) im(1) by (simp add: kinv_def)
qed

lemma initialize_ok:
  assumes "kstate_typed s"
  shows "\<exists>s'. initialize bootstrap s = Some s' \<and> kinv s' (rq_push (replicate MAX_PRIORITY []) 0 0) [] \<and>
    tt_tids (ks_tids s') = map of_nat [1..<MAX_TASK]"
proof -
  note T = assms [unfolded kstate_typed_def]
  obtain tt where tt: "tt_init (ks_tids s) = Some tt" "tt_wf tt" "tt_tids tt = map of_nat [0..<MAX_TASK]"
    using tt_init_ok [of "ks_tids s"] T by blast
  define s1 where "s1 = tm_init ((interrupt_init s)\<lparr>ks_tasks := map td_init (ks_tasks s),
    ks_tids := tt, ks_pq := pq_init (ks_pq s), ks_im := im_init (ks_im s)\<rparr>)"
  have ts: "ks_tasks s1 = map td_init (ks_tasks s)" "ks_tids s1 = tt" "ks_pq s1 = pq_init (ks_pq s)"
    "ks_im s1 = im_init (ks_im s)"
    by (simp_all add: s1_def tm_init_def interrupt_init_def)
  have k1: "kinv s1 (replicate MAX_PRIORITY []) []"
  proof (rule kinv_initial)
    show "\<forall>td\<in>set (ks_tasks s1). td_status td = TS_UNINIT \<and> cb_wf MAX_TASK (td_send_q td) \<and> send_list td = []"
      using T unfolding ts by (auto simp: td_init_def send_list_def intro: cb_init_wf)
  qed (use T tt in \<open>simp_all add: ts pq_init_rep im_init_ok\<close>)
  have tids: "tt_tids (ks_tids s1) = 0 # map of_nat [1..<MAX_TASK]"
    unfolding ts(2) tt(3) by (subst upt_conv_Cons) simp_all
  obtain tt' where get: "tt_get (ks_tids s1) = Some (0, tt')" "tt_wf tt'" "tt_tids tt' = map of_nat [1..<MAX_TASK]"
    using tt_get_ok [OF kinvD(4) [OF k1] tids] by blast
  note ok = free_tid_slot [OF k1 tids]
  obtain s2 where s2: "ktd_create (tid_ix 0) 0 bootstrap 0 TS_READY None (s1\<lparr>ks_tids := tt'\<rparr>) = Some s2"
    using ok(1) kinvD(9) [OF k1] by (simp add: ktd_create_def Let_def mod_td_Some)
  note fresh = ktd_create_fresh [OF s2]
  have eq: "s2 = s1\<lparr>ks_tids := tt', ks_mem := ks_mem s2,
      ks_tasks := (ks_tasks s1)[tid_ix 0 := ks_tasks s2 ! tid_ix 0]\<rparr>"
    using fresh(3) ok(2) by simp
  have k2: "kinv s2 (replicate MAX_PRIORITY []) (tid_ix 0 # [])"
    by (rule kinv_fresh [OF k1 tids get(2,3) fresh(1) _ _ eq]) (use ok(2) in simp_all)
  have "td_priority (ks_tasks s2 ! tid_ix 0) = 0"
    using fresh(1) ok(2) by (simp add: fresh_td_def)
  then obtain s3 where s3: "k_push 0 (tid_ix 0) s2 = Some s3"
    "kinv s3 (rq_push (replicate MAX_PRIORITY []) (nat 0) (tid_ix 0)) []"
    using k_push_ok [OF k2] by blast
  have "ks_tids s3 = tt'"
    using k_push_frame(4) [OF s3(1)] by (subst (asm) eq) simp
  moreover have "initialize bootstrap s = Some s3"
    using tt(1) get(1) s2 s3(1)
    by (simp add: initialize_def Let_def s1_def tm_init_def interrupt_init_def)
  moreover have "tid_ix 0 = 0" by (simp add: unat_TID_ID)
  ultimately show ?thesis using s3 get(3) by simp
qed

end
