(* ===== verification/KernelRun.thy ===== *)
theory KernelRun
  imports Handlers
begin

text \<open>
  The main loop of src/kernel/kernel.c as a transition system: the kernel schedules a task, the task
  runs (\<^verbatim>\<open>activate\<close>: it may change memory, the device registers and its saved registers in any way)
  and comes back with a request, which is handled. The invariant holds in every
  reachable state. The second half says what the message passing, the creation and the
  wake-up handlers do.
\<close>

section \<open>One turn of the main loop\<close>

text \<open>What the outside does during \<^verbatim>\<open>activate\<close>.\<close>

record turn =
  tn_mem :: mem
  tn_io :: "u32 \<Rightarrow> u32"
  tn_sp :: u32
  tn_psr :: u32
  tn_it :: InterruptType
  tn_req :: TaskRequest

(* src/src/kernel/kernel.c:83-176 *)
definition activate :: "turn \<Rightarrow> nat \<Rightarrow> kstate \<Rightarrow> kstate option" where
  "activate e t s = mod_td t
     (\<lambda>td. td\<lparr>td_sp := tn_sp e, td_psr := tn_psr e, td_it := tn_it e\<rparr>)
     (s\<lparr>ks_mem := tn_mem e, ks_io := tn_io e\<rparr>)"

datatype outcome = Running kstate | Stopped kstate

fun turn_result :: "kresult \<Rightarrow> outcome" where
  "turn_result (K_run s) = Running s"
| "turn_result (K_exit s) = Stopped s"

lemma turn_result_Running [simp]: "turn_result r = Running s \<longleftrightarrow> r = K_run s"
  by (cases r) auto

(* src/src/kernel/system.c:28-32 *)
definition interrupt_cleanup :: "kstate \<Rightarrow> kstate" where
  "interrupt_cleanup s = s\<lparr>ks_io := (ks_io s)(VIC1_BASE + 0x14 := VIC1_ENABLED,
                                               VIC2_BASE + 0x14 := VIC2_ENABLED)\<rparr>"

(* src/src/kernel/kernel.c:376-402 *)
definition main_turn :: "turn \<Rightarrow> kstate \<Rightarrow> outcome option" where
  "main_turn e s = do {
     (td, s) \<leftarrow> schedule s;
     (case td of
        None \<Rightarrow> Some (if no_tasks s then Stopped (interrupt_cleanup s) else Running s)
      | Some t \<Rightarrow> do {
          let st = ks_io s TM_CLOCK_VAL;
          s \<leftarrow> activate e t s;
          let et = ks_io s TM_CLOCK_VAL;
          s \<leftarrow> mod_td t (tm_delta st et) s;
          r \<leftarrow> handle t (tn_req e) s;
          Some (turn_result r) }) }"

inductive kstep :: "kstate \<Rightarrow> kstate \<Rightarrow> bool" where
  turn: "main_turn e s = Some (Running s') \<Longrightarrow> kstep s s'"

text \<open>A state is reachable from some start: any contents of the globals, which are then initialised.\<close>

inductive kreach :: "kstate \<Rightarrow> bool" where
  start: "kstate_typed s0 \<Longrightarrow> initialize bootstrap s0 = Some s \<Longrightarrow> kreach s"
| step: "kreach s \<Longrightarrow> kstep s s' \<Longrightarrow> kreach s'"

inductive_cases kstep_cases: "kstep s s'"

section \<open>The invariant holds in every reachable state\<close>

lemma kinv_activate:
  assumes "kinv s qs cur" "activate e t s = Some s'"
  shows "kinv s' qs cur"
proof (rule kinv_mod_td)
  show "kinv (s\<lparr>ks_mem := tn_mem e, ks_io := tn_io e\<rparr>) qs cur" using assms(1) by simp
  show "mod_td t (\<lambda>td. td\<lparr>td_sp := tn_sp e, td_psr := tn_psr e, td_it := tn_it e\<rparr>)
      (s\<lparr>ks_mem := tn_mem e, ks_io := tn_io e\<rparr>) = Some s'"
    using assms(2) by (simp add: activate_def)
qed simp_all

lemma tm_delta_core: "td_core (tm_delta st et td) = td_core td" "td_next (tm_delta st et td) = td_next td"
  by (simp_all add: tm_delta_def Let_def)

lemma handle_K_run: "handle t req s = Some (K_run s') \<Longrightarrow> handle_run t req s = Some s'"
  by (cases req) (auto simp: handle_def)

lemma kinv_main_turn:
  assumes inv: "kinv s qs []" and turn: "main_turn e s = Some (Running s')"
  shows "\<exists>qs'. kinv s' qs' []"
proof (cases "rq_pop qs")
  case None
  then have "schedule s = Some (None, s)"
    using schedule_idle [OF inv] rq_pop_None by blast
  then show ?thesis using turn inv by (auto simp: main_turn_def split: if_splits)
next
  case (Some p)
  then obtain t qs1 where pop: "rq_pop qs = Some (t, qs1)" by (cases p) auto
  obtain s1 where s1: "schedule s = Some (Some t, s1)" "kinv s1 qs1 [t]"
    using schedule_ok [OF inv pop] by blast
  obtain s2 s3 where s2: "activate e t s1 = Some s2"
    and s3: "mod_td t (tm_delta (ks_io s1 TM_CLOCK_VAL) (ks_io s2 TM_CLOCK_VAL)) s2 = Some s3"
    and h: "handle t (tn_req e) s3 = Some (K_run s')"
    using turn s1(1) by (auto simp: main_turn_def Let_def Option.bind_eq_Some_conv)
  have "kinv s3 qs1 [t]"
    by (rule kinv_mod_td [OF kinv_activate [OF s1(2) s2] s3]) (simp_all add: tm_delta_core)
  then show ?thesis using kinv_handle_run handle_K_run [OF h] by blast
qed

lemma kreach_kinv: "kreach s \<Longrightarrow> \<exists>qs. kinv s qs []"
proof (induction rule: kreach.induct)
  case (start s0 bootstrap s)
  then show ?case using initialize_ok [OF start(1), of bootstrap] by auto
next
  case (step s s')
  then show ?case using kinv_main_turn by (auto elim!: kstep_cases)
qed

section \<open>What message passing does\<close>

text \<open>The conditions \<^verbatim>\<open>KASSERT\<close>ed of the arguments of a sender and of a receiver, and
  the memory after the delivery.\<close>

definition snd_msg :: "kstate \<Rightarrow> nat \<Rightarrow> u32" where
  "snd_msg s t = arg s (ks_tasks s ! t) 8"

definition snd_len :: "kstate \<Rightarrow> nat \<Rightarrow> nat" where
  "snd_len s t = nat (sint (arg s (ks_tasks s ! t) 12))"

definition rcv_tid :: "kstate \<Rightarrow> nat \<Rightarrow> u32" where
  "rcv_tid s t = arg s (ks_tasks s ! t) 4"

definition rcv_msg :: "kstate \<Rightarrow> nat \<Rightarrow> u32" where
  "rcv_msg s t = arg s (ks_tasks s ! t) 8"

definition snd_args_ok :: "kstate \<Rightarrow> nat \<Rightarrow> bool" where
  "snd_args_ok s t \<longleftrightarrow> snd_msg s t \<noteq> 0 \<and> IS_VALID_USER_P (td_tid (ks_tasks s ! t)) (snd_msg s t) \<and>
     0 < sint (arg s (ks_tasks s ! t) 12) \<and> sint (arg s (ks_tasks s ! t) 12) < 5000"

definition rcv_args_ok :: "kstate \<Rightarrow> nat \<Rightarrow> bool" where
  "rcv_args_ok s t \<longleftrightarrow> rcv_msg s t \<noteq> 0 \<and> IS_VALID_USER_P (td_tid (ks_tasks s ! t)) (rcv_msg s t) \<and>
     IS_VALID_USER_P (td_tid (ks_tasks s ! t)) (rcv_tid s t)"

definition delivered :: "kstate \<Rightarrow> nat \<Rightarrow> nat \<Rightarrow> mem" where
  "delivered s st rt = str (copy_up (rcv_msg s rt) (snd_msg s st) (snd_len s st) (ks_mem s))
     (rcv_tid s rt) (td_tid (ks_tasks s ! st))"

lemmas msg_defs = snd_msg_def snd_len_def rcv_tid_def rcv_msg_def snd_args_ok_def rcv_args_ok_def
  delivered_def

lemma deliver_unfold:
  assumes "st < length (ks_tasks s)" "rt < length (ks_tasks s)" "snd_args_ok s st" "rcv_args_ok s rt"
  shows "deliver st rt s = do {
    s \<leftarrow> mod_td rt (td_status_update (\<lambda>_. TS_READY)) (s\<lparr>ks_mem := delivered s st rt\<rparr>);
    s \<leftarrow> k_ready rt s;
    mod_td st (td_status_update (\<lambda>_. TS_RPL_BL)) s }"
  using assms by (simp add: deliver_def msg_defs Let_def bind_kassert)

lemma deliver_mem:
  assumes "deliver st rt s = Some s'"
  shows "ks_mem s' = delivered s st rt"
proof -
  obtain s1 s2 where "mod_td rt (td_status_update (\<lambda>_. TS_READY)) (s\<lparr>ks_mem := delivered s st rt\<rparr>) = Some s1"
    "k_ready rt s1 = Some s2" "mod_td st (td_status_update (\<lambda>_. TS_RPL_BL)) s2 = Some s'"
    using assms by (auto simp: deliver_def msg_defs Let_def Option.bind_eq_Some_conv aget_eq_Some)
  then show ?thesis using mod_td_frame(1) k_ready_frame(1) by fastforce
qed

lemma status_upd: "td_status (td\<lparr>td_status := x\<rparr>) = x" by simp

text \<open>Delivery to a waiting receiver: it returns; the receiver is ready, behind the ready tasks of its
  priority, and the sender waits for the reply.\<close>

lemma deliver_send_ok:
  assumes inv: "kinv s qs (t # cur)" and rt: "rt < MAX_TASK" "td_status (ks_tasks s ! rt) = TS_SND_BL"
    and args: "snd_args_ok s t" "rcv_args_ok s rt"
  shows "\<exists>s'. deliver t rt s = Some s' \<and>
    kinv s' (rq_push qs (nat (td_priority (ks_tasks s ! rt))) rt) cur \<and>
    ks_mem s' = delivered s t rt \<and>
    (\<forall>i. td_status (ks_tasks s' ! i) = (if i = t then TS_RPL_BL else if i = rt then TS_READY
           else td_status (ks_tasks s ! i))) \<and>
    (\<forall>i. send_list (ks_tasks s' ! i) = send_list (ks_tasks s ! i))"
proof -
  note C = kinv_cur [OF inv] and D = kinvD [OF inv]
  have ne: "rt \<noteq> t" using C(2) rt(2) by (auto simp: runnable_def)
  let ?s1 = "s\<lparr>ks_mem := delivered s t rt,
    ks_tasks := (ks_tasks s)[rt := (ks_tasks s ! rt)\<lparr>td_status := TS_READY\<rparr>]\<rparr>"
  have m1: "mod_td rt (td_status_update (\<lambda>_. TS_READY)) (s\<lparr>ks_mem := delivered s t rt\<rparr>) = Some ?s1"
    using rt(1) D(9) by (simp add: mod_td_Some)
  have k1: "kinv ?s1 qs (rt # t # cur)"
    using kinv_wake [of "s\<lparr>ks_mem := delivered s t rt\<rparr>" qs "t # cur" rt] inv rt by simp
  obtain s2 where s2: "k_ready rt ?s1 = Some s2"
    "kinv s2 (rq_push qs (nat (td_priority (ks_tasks ?s1 ! rt))) rt) (t # cur)"
    using k_ready_ok [OF k1] by blast
  note core = k_ready_core [OF k1 s2(1)]
  let ?s' = "s2\<lparr>ks_tasks := (ks_tasks s2)[t := (ks_tasks s2 ! t)\<lparr>td_status := TS_RPL_BL\<rparr>]\<rparr>"
  have "mod_td t (td_status_update (\<lambda>_. TS_RPL_BL)) s2 = Some ?s'"
    using C(1) core(2) by (simp add: mod_td_Some)
  then have del: "deliver t rt s = Some ?s'"
    using deliver_unfold [of t s rt] C(1) rt(1) D(9) args m1 s2(1) by simp
  have "kinv ?s' (rq_push qs (nat (td_priority (ks_tasks ?s1 ! rt))) rt) cur"
    using kinv_block [OF s2(2), of TS_RPL_BL] by simp
  moreover have "td_priority (ks_tasks ?s1 ! rt) = td_priority (ks_tasks s ! rt)"
    using rt(1) D(9) by simp
  moreover have "td_status (ks_tasks ?s' ! i) = (if i = t then TS_RPL_BL else if i = rt then TS_READY
      else td_status (ks_tasks s ! i))" for i
    using td_core_fields(2) [OF core(1), of i] C(1) core(2) rt(1) D(9) ne
    by (auto simp: nth_update_if)
  moreover have "send_list (ks_tasks ?s' ! i) = send_list (ks_tasks s ! i)" for i
    using td_core_fields(4) [OF core(1), of i] by (auto simp: nth_update_if send_list_def)
  ultimately show ?thesis using del deliver_mem [OF del] by auto
qed

text \<open>Delivery to a running receiver, from a sender taken out of its queue.\<close>

lemma deliver_receive_ok:
  assumes inv: "kinv s qs (rt # cur)" and st: "st < MAX_TASK"
    and rcv: "td_status (ks_tasks s ! st) = TS_RCV_BL" "st \<notin> tid_ix ` set (senders (ks_tasks s))"
    and args: "snd_args_ok s st" "rcv_args_ok s rt"
  shows "\<exists>s'. deliver st rt s = Some s' \<and>
    kinv s' (rq_push qs (nat (td_priority (ks_tasks s ! rt))) rt) cur \<and>
    ks_mem s' = delivered s st rt \<and>
    (\<forall>i. td_status (ks_tasks s' ! i) = (if i = st then TS_RPL_BL else if i = rt then TS_READY
           else td_status (ks_tasks s ! i))) \<and>
    (\<forall>i. send_list (ks_tasks s' ! i) = send_list (ks_tasks s ! i))"
proof -
  note C = kinv_cur [OF inv] and D = kinvD [OF inv]
  have ne: "st \<noteq> rt" using C(2) rcv(1) by (auto simp: runnable_def)
  let ?s1 = "s\<lparr>ks_mem := delivered s st rt,
    ks_tasks := (ks_tasks s)[rt := (ks_tasks s ! rt)\<lparr>td_status := TS_READY\<rparr>]\<rparr>"
  have m1: "mod_td rt (td_status_update (\<lambda>_. TS_READY)) (s\<lparr>ks_mem := delivered s st rt\<rparr>) = Some ?s1"
    using C(1) D(9) by (simp add: mod_td_Some)
  have k1: "kinv ?s1 qs (rt # cur)"
    using kinv_stay [of "s\<lparr>ks_mem := delivered s st rt\<rparr>" qs rt cur TS_READY] inv by simp
  obtain s2 where s2: "k_ready rt ?s1 = Some s2"
    "kinv s2 (rq_push qs (nat (td_priority (ks_tasks ?s1 ! rt))) rt) cur"
    using k_ready_ok [OF k1] by blast
  note core = k_ready_core [OF k1 s2(1)]
  let ?s' = "s2\<lparr>ks_tasks := (ks_tasks s2)[st := (ks_tasks s2 ! st)\<lparr>td_status := TS_RPL_BL\<rparr>]\<rparr>"
  have "mod_td st (td_status_update (\<lambda>_. TS_RPL_BL)) s2 = Some ?s'"
    using st core(2) by (simp add: mod_td_Some)
  then have del: "deliver st rt s = Some ?s'"
    using deliver_unfold [of st s rt] C(1) st D(9) args m1 s2(1) by simp
  have "senders (ks_tasks ?s1) = senders (ks_tasks s)"
    by (auto simp: nth_update_if send_list_def intro!: senders_cong)
  then have "st \<notin> tid_ix ` set (senders (ks_tasks s2))"
    using core(3) rcv(2) by simp
  moreover have "td_status (ks_tasks s2 ! st) = TS_RCV_BL"
    using td_core_fields(2) [OF core(1), of st] rcv(1) ne by simp
  ultimately have "kinv ?s' (rq_push qs (nat (td_priority (ks_tasks ?s1 ! rt))) rt) cur"
    using kinv_reply_blocked [OF s2(2) st] by simp
  moreover have "td_priority (ks_tasks ?s1 ! rt) = td_priority (ks_tasks s ! rt)"
    using C(1) D(9) by simp
  moreover have "td_status (ks_tasks ?s' ! i) = (if i = st then TS_RPL_BL else if i = rt then TS_READY
      else td_status (ks_tasks s ! i))" for i
    using td_core_fields(2) [OF core(1), of i] st core(2) C(1) D(9) ne
    by (auto simp: nth_update_if)
  moreover have "send_list (ks_tasks ?s' ! i) = send_list (ks_tasks s ! i)" for i
    using td_core_fields(4) [OF core(1), of i] by (auto simp: nth_update_if send_list_def)
  ultimately show ?thesis using del deliver_mem [OF del] by auto
qed

text \<open>The handlers around it.\<close>

lemma set_ret_ok:
  assumes "kinv s qs cur" "t < MAX_TASK"
  shows "\<exists>s'. mod_td t (td_ret_update (\<lambda>_. v)) s = Some s' \<and> kinv s' qs cur \<and> ks_mem s' = ks_mem s \<and>
    (\<forall>i. td_core (ks_tasks s' ! i) = td_core (ks_tasks s ! i)) \<and> td_ret (ks_tasks s' ! t) = v"
  using assms kinvD(9) [OF assms(1)] kinv_set_ret [OF assms(1), of t v]
  by (simp add: mod_td_Some nth_update_if)

definition send_to :: "kstate \<Rightarrow> nat \<Rightarrow> nat" where
  "send_to s t = tid_ix (arg s (ks_tasks s ! t) 4)"

lemma send_handler_split:
  assumes "t < length (ks_tasks s)" "send_to s t < MAX_TASK" "length (ks_tasks s) = MAX_TASK"
    "live (ks_tasks s ! send_to s t)"
  shows "send_handler t s = (if td_status (ks_tasks s ! send_to s t) = TS_SND_BL then deliver t (send_to s t) s
      else do {
        (r, q) \<leftarrow> cb_push MAX_TASK (td_tid (ks_tasks s ! t)) (td_send_q (ks_tasks s ! send_to s t));
        kassert (r = CB_E_NONE);
        s \<leftarrow> mod_td (send_to s t) (td_send_q_update (\<lambda>_. q)) s;
        mod_td t (td_status_update (\<lambda>_. TS_RCV_BL)) s }) \<bind> mod_td t (td_ret_update (\<lambda>_. 0))"
  using assms by (simp add: send_handler_def send_to_def Let_def IS_VALID_ID_TID_ID live_def bind_kassert)

lemma send_waiting_ok:
  assumes inv: "kinv s qs (t # cur)"
    and rt: "send_to s t = rt" "rt < MAX_TASK" "td_status (ks_tasks s ! rt) = TS_SND_BL"
    and args: "snd_args_ok s t" "rcv_args_ok s rt"
  shows "\<exists>s'. send_handler t s = Some s' \<and>
    kinv s' (rq_push qs (nat (td_priority (ks_tasks s ! rt))) rt) cur \<and>
    ks_mem s' = delivered s t rt \<and>
    (\<forall>i. td_status (ks_tasks s' ! i) = (if i = t then TS_RPL_BL else if i = rt then TS_READY
           else td_status (ks_tasks s ! i)))"
proof -
  note C = kinv_cur [OF inv] and D = kinvD [OF inv]
  obtain s1 where s1: "deliver t rt s = Some s1"
    "kinv s1 (rq_push qs (nat (td_priority (ks_tasks s ! rt))) rt) cur" "ks_mem s1 = delivered s t rt"
    "\<forall>i. td_status (ks_tasks s1 ! i) = (if i = t then TS_RPL_BL else if i = rt then TS_READY
           else td_status (ks_tasks s ! i))"
    using deliver_send_ok [OF inv rt(2,3) args] by blast
  obtain s' where s': "mod_td t (td_ret_update (\<lambda>_. 0)) s1 = Some s'"
    "kinv s' (rq_push qs (nat (td_priority (ks_tasks s ! rt))) rt) cur" "ks_mem s' = ks_mem s1"
    "\<forall>i. td_core (ks_tasks s' ! i) = td_core (ks_tasks s1 ! i)"
    using set_ret_ok [OF s1(2) C(1), of 0] by blast
  have "send_handler t s = Some s'"
    using send_handler_split [of t s] rt C(1) D(9) s1(1) s'(1) by (simp add: live_def)
  moreover have "td_status (ks_tasks s' ! i) = td_status (ks_tasks s1 ! i)" for i
    using s'(4) by (auto dest: spec td_core_fields(2))
  ultimately show ?thesis using s' s1 by auto
qed

text \<open>A send to a live task that is not waiting always returns: the sender is queued.\<close>

lemma send_queued_ok:
  assumes inv: "kinv s qs (t # cur)"
    and rt: "send_to s t = rt" "rt < MAX_TASK" "live (ks_tasks s ! rt)"
      "td_status (ks_tasks s ! rt) \<noteq> TS_SND_BL"
  shows "\<exists>s'. send_handler t s = Some s' \<and> kinv s' qs cur \<and> ks_mem s' = ks_mem s \<and>
    td_status (ks_tasks s' ! t) = TS_RCV_BL \<and>
    (\<forall>i<MAX_TASK. send_list (ks_tasks s' ! i) =
       send_list (ks_tasks s ! i) @ (if i = rt then [td_tid (ks_tasks s ! t)] else []))"
proof -
  note C = kinv_cur [OF inv] and D = kinvD [OF inv]
  obtain q where q: "cb_push MAX_TASK (td_tid (ks_tasks s ! t)) (td_send_q (ks_tasks s ! rt)) = Some (CB_E_NONE, q)"
    "cb_list MAX_TASK q = send_list (ks_tasks s ! rt) @ [td_tid (ks_tasks s ! t)]"
    "let ts1 = (ks_tasks s)[rt := (ks_tasks s ! rt)\<lparr>td_send_q := q\<rparr>] in
     kinv (s\<lparr>ks_tasks := ts1[t := (ts1 ! t)\<lparr>td_status := TS_RCV_BL\<rparr>]\<rparr>) qs cur"
    using kinv_enqueue [OF inv rt(2,3)] by blast
  define ts1 where "ts1 = (ks_tasks s)[rt := (ks_tasks s ! rt)\<lparr>td_send_q := q\<rparr>]"
  let ?s1 = "s\<lparr>ks_tasks := ts1[t := (ts1 ! t)\<lparr>td_status := TS_RCV_BL\<rparr>]\<rparr>"
  have k1: "kinv ?s1 qs cur" using q(3) by (simp add: Let_def ts1_def)
  obtain s' where s': "mod_td t (td_ret_update (\<lambda>_. 0)) ?s1 = Some s'" "kinv s' qs cur"
    "ks_mem s' = ks_mem ?s1" "\<forall>i. td_core (ks_tasks s' ! i) = td_core (ks_tasks ?s1 ! i)"
    using set_ret_ok [OF k1 C(1), of 0] by blast
  have "send_handler t s = Some s'"
    using send_handler_split [of t s] rt C(1) D(9) q(1) s'(1) by (simp add: mod_td_Some ts1_def)
  moreover have "td_status (ks_tasks s' ! t) = TS_RCV_BL"
    using td_core_fields(2) [OF spec [OF s'(4), of t]] C(1) D(9) by (simp add: ts1_def)
  moreover have "send_list (ks_tasks s' ! i) =
       send_list (ks_tasks s ! i) @ (if i = rt then [td_tid (ks_tasks s ! t)] else [])" for i
    using td_core_fields(4) [OF spec [OF s'(4), of i]] q(2) rt(2) C(1) D(9)
    by (auto simp: ts1_def nth_update_if send_list_def)
  ultimately show ?thesis using s' by auto
qed

text \<open>A receive takes the sender that has waited longest.\<close>

lemma receive_queued_ok:
  assumes inv: "kinv s qs (t # cur)" and q: "send_list (ks_tasks s ! t) = x # xs"
    and args: "snd_args_ok s (tid_ix x)" "rcv_args_ok s t"
  shows "\<exists>s'. receive_handler t s = Some s' \<and>
    kinv s' (rq_push qs (nat (td_priority (ks_tasks s ! t))) t) cur \<and>
    ks_mem s' = delivered s (tid_ix x) t \<and> send_list (ks_tasks s' ! t) = xs \<and>
    (\<forall>i. td_status (ks_tasks s' ! i) = (if i = tid_ix x then TS_RPL_BL else if i = t then TS_READY
           else td_status (ks_tasks s ! i)))"
proof -
  note C = kinv_cur [OF inv] and D = kinvD [OF inv]
  obtain q where q': "cb_pop MAX_TASK (td_send_q (ks_tasks s ! t)) = Some (CB_E_NONE, Some x, q)"
    "cb_list MAX_TASK q = xs"
    and k: "kinv (s\<lparr>ks_tasks := (ks_tasks s)[t := (ks_tasks s ! t)\<lparr>td_send_q := q\<rparr>]\<rparr>) qs (t # cur)"
    and x: "tid_ix x \<notin> tid_ix ` set (senders ((ks_tasks s)[t := (ks_tasks s ! t)\<lparr>td_send_q := q\<rparr>]))"
      "tid_ix x < MAX_TASK" "td_status (ks_tasks s ! tid_ix x) = TS_RCV_BL"
    using kinv_dequeue [OF inv C(1) q] by (auto simp: Let_def)
  let ?s1 = "s\<lparr>ks_tasks := (ks_tasks s)[t := (ks_tasks s ! t)\<lparr>td_send_q := q\<rparr>]\<rparr>"
  have ne: "tid_ix x \<noteq> t" using C(2) x(3) by (auto simp: runnable_def)
  have args1: "snd_args_ok ?s1 (tid_ix x)" "rcv_args_ok ?s1 t" "delivered ?s1 (tid_ix x) t = delivered s (tid_ix x) t"
    using args ne C(1) D(9) by (simp_all add: msg_defs arg_def)
  have x1: "td_status (ks_tasks ?s1 ! tid_ix x) = TS_RCV_BL" using x(3) ne by simp
  obtain s2 where s2: "deliver (tid_ix x) t ?s1 = Some s2"
    "kinv s2 (rq_push qs (nat (td_priority (ks_tasks ?s1 ! t))) t) cur"
    "ks_mem s2 = delivered ?s1 (tid_ix x) t"
    "\<forall>i. td_status (ks_tasks s2 ! i) = (if i = tid_ix x then TS_RPL_BL else if i = t then TS_READY
           else td_status (ks_tasks ?s1 ! i))"
    "\<forall>i. send_list (ks_tasks s2 ! i) = send_list (ks_tasks ?s1 ! i)"
    using deliver_receive_ok [OF k x(2) x1 _ args1(1,2)] x(1) by auto
  obtain s' where s': "mod_td t (td_ret_update (\<lambda>_. 0)) s2 = Some s'"
    "kinv s' (rq_push qs (nat (td_priority (ks_tasks ?s1 ! t))) t) cur" "ks_mem s' = ks_mem s2"
    "\<forall>i. td_core (ks_tasks s' ! i) = td_core (ks_tasks s2 ! i)"
    using set_ret_ok [OF s2(2) C(1), of 0] by blast
  have "0 < cb_size (td_send_q (ks_tasks s ! t))"
    using q cb_list_empty_iff [of MAX_TASK "td_send_q (ks_tasks s ! t)"]
    by (simp add: send_list_def word_gt_0)
  moreover have "TS_RCV_BL \<noteq> TS_UNINIT \<and> TS_RCV_BL \<noteq> TS_ZOMBIE" by simp
  ultimately have "receive_handler t s = Some s'"
    using q'(1) C(1) D(9) x(2) x1 s2(1) s'(1)
    by (simp add: receive_handler_def mod_td_Some IS_VALID_ID_TID_ID Let_def)
  moreover have "td_status (ks_tasks s' ! i) = td_status (ks_tasks s2 ! i)"
    "send_list (ks_tasks s' ! i) = send_list (ks_tasks s2 ! i)" for i
    using s'(4) by (auto dest: spec td_core_fields)
  moreover have "td_status (ks_tasks ?s1 ! i) = td_status (ks_tasks s ! i)" for i
    by (simp add: nth_update_if)
  ultimately show ?thesis
    using s' s2 args1(3) q'(2) C(1) D(9) by (auto simp: send_list_def)
qed

text \<open>A receive with nobody waiting blocks the receiver.\<close>

lemma receive_empty_ok:
  assumes inv: "kinv s qs (t # cur)" and q: "send_list (ks_tasks s ! t) = []"
  shows "\<exists>s'. receive_handler t s = Some s' \<and> kinv s' qs cur \<and> ks_mem s' = ks_mem s \<and>
    td_status (ks_tasks s' ! t) = TS_SND_BL"
proof -
  note C = kinv_cur [OF inv] and D = kinvD [OF inv]
  let ?s1 = "s\<lparr>ks_tasks := (ks_tasks s)[t := (ks_tasks s ! t)\<lparr>td_status := TS_SND_BL\<rparr>]\<rparr>"
  have k1: "kinv ?s1 qs cur" using kinv_block [OF inv, of TS_SND_BL] by simp
  obtain s' where s': "mod_td t (td_ret_update (\<lambda>_. 0)) ?s1 = Some s'" "kinv s' qs cur"
    "ks_mem s' = ks_mem ?s1" "\<forall>i. td_core (ks_tasks s' ! i) = td_core (ks_tasks ?s1 ! i)"
    using set_ret_ok [OF k1 C(1), of 0] by blast
  have "cb_size (td_send_q (ks_tasks s ! t)) = 0"
    using q by (simp add: send_list_def cb_list_empty_iff)
  then have "receive_handler t s = Some s'"
    using C(1) D(9) s'(1) by (simp add: receive_handler_def mod_td_Some)
  moreover have "td_status (ks_tasks s' ! t) = TS_SND_BL"
    using td_core_fields(2) [OF spec [OF s'(4), of t]] C(1) D(9) by simp
  ultimately show ?thesis using s' by auto
qed

end
