(* ===== verification/KernelProps.thy ===== *)
theory KernelProps
  imports KernelRun
begin

text \<open>
  Reply, creation, exit and wake-up, each with everything it does; the user stacks; and the
  properties of the kernel that rest on the invariant, with states that satisfy their hypotheses.
\<close>

section \<open>Reply\<close>

definition rpl_msg :: "kstate \<Rightarrow> nat \<Rightarrow> u32" where
  "rpl_msg s t = arg s (ks_tasks s ! t) 8"

definition rpl_len :: "kstate \<Rightarrow> nat \<Rightarrow> nat" where
  "rpl_len s t = nat (sint (arg s (ks_tasks s ! t) 12))"

definition rpl_buf :: "kstate \<Rightarrow> nat \<Rightarrow> u32" where
  "rpl_buf s t = arg s (ks_tasks s ! t) 16"

definition rpl_args_ok :: "kstate \<Rightarrow> nat \<Rightarrow> nat \<Rightarrow> bool" where
  "rpl_args_ok s t st \<longleftrightarrow> IS_VALID_USER_P (td_tid (ks_tasks s ! t)) (rpl_msg s t) \<and>
     0 < sint (arg s (ks_tasks s ! t) 12) \<and> sint (arg s (ks_tasks s ! t) 12) < 5000 \<and>
     IS_VALID_USER_P (td_tid (ks_tasks s ! st)) (rpl_buf s st)"

lemma reply_ok:
  assumes inv: "kinv s qs (t # cur)" and st: "send_to s t = st" "st < MAX_TASK"
      "td_status (ks_tasks s ! st) = TS_RPL_BL"
    and ready: "td_status (ks_tasks s ! t) = TS_READY" and args: "rpl_args_ok s t st"
  shows "\<exists>s'. reply_handler t s = Some s' \<and>
    kinv s' (rq_push (rq_push qs (nat (td_priority (ks_tasks s ! st))) st)
                     (nat (td_priority (ks_tasks s ! t))) t) cur \<and>
    ks_mem s' = copy_up (rpl_buf s st) (rpl_msg s t) (rpl_len s t) (ks_mem s) \<and>
    (\<forall>i. td_status (ks_tasks s' ! i) = (if i = st then TS_READY else td_status (ks_tasks s ! i)))"
proof -
  note C = kinv_cur [OF inv] and D = kinvD [OF inv]
  have ne: "st \<noteq> t" using ready st(3) by auto
  define m where "m = copy_up (rpl_buf s st) (rpl_msg s t) (rpl_len s t) (ks_mem s)"
  let ?s1 = "s\<lparr>ks_mem := m, ks_tasks := (ks_tasks s)[st := (ks_tasks s ! st)\<lparr>td_status := TS_READY\<rparr>]\<rparr>"
  have m1: "mod_td st (td_status_update (\<lambda>_. TS_READY)) (s\<lparr>ks_mem := m\<rparr>) = Some ?s1"
    using st(2) D(9) by (simp add: mod_td_Some)
  have k1: "kinv ?s1 qs (st # t # cur)"
    using kinv_wake [of "s\<lparr>ks_mem := m\<rparr>" qs "t # cur" st] inv st by simp
  obtain s2 where s2: "k_ready st ?s1 = Some s2"
    "kinv s2 (rq_push qs (nat (td_priority (ks_tasks ?s1 ! st))) st) (t # cur)"
    using k_ready_ok [OF k1] by blast
  note core = k_ready_core [OF k1 s2(1)]
  let ?f = "td_ret_update (\<lambda>_. 0) \<circ> td_status_update (\<lambda>_. TS_READY)"
  let ?s3 = "s2\<lparr>ks_tasks := (ks_tasks s2)[t := ?f (ks_tasks s2 ! t)]\<rparr>"
  have m3: "mod_td t ?f s2 = Some ?s3" using C(1) core(2) by (simp add: mod_td_Some)
  have rdy2: "td_status (ks_tasks s2 ! t) = TS_READY"
    using td_core_fields(2) [OF core(1), of t] ready ne by simp
  have fcore: "td_core (?f (ks_tasks s2 ! t)) = td_core (ks_tasks s2 ! t)"
    using rdy2 by (simp add: td_core_def send_list_def)
  have k3: "kinv ?s3 (rq_push qs (nat (td_priority (ks_tasks ?s1 ! st))) st) (t # cur)"
    using s2(2) C(1) fcore by (intro kinv_update) simp_all
  obtain s' where s': "k_ready t ?s3 = Some s'"
    "kinv s' (rq_push (rq_push qs (nat (td_priority (ks_tasks ?s1 ! st))) st)
       (nat (td_priority (ks_tasks ?s3 ! t))) t) cur"
    using k_ready_ok [OF k3] by blast
  have "reply_handler t s = Some s'"
    using st C(1) D(9) args ready m1 s2(1) m3 s'(1) unfolding reply_handler_def rpl_args_ok_def
    by (simp add: Let_def IS_VALID_ID_TID_ID send_to_def [symmetric] rpl_msg_def rpl_buf_def
        rpl_len_def m_def)
  moreover have "td_priority (ks_tasks ?s1 ! st) = td_priority (ks_tasks s ! st)"
    using st(2) D(9) by simp
  moreover have "td_priority (ks_tasks ?s3 ! t) = td_priority (ks_tasks s ! t)"
    using td_core_fields(3) [OF core(1), of t] C(1) core(2) ne by simp
  moreover have "ks_mem s' = m"
    using k_ready_frame(1) [OF s'(1)] k_ready_frame(1) [OF s2(1)] by simp
  moreover have "td_status (ks_tasks s' ! i) = (if i = st then TS_READY else td_status (ks_tasks s ! i))" for i
    using td_core_fields(2) [OF k_ready_core(1) [OF k3 s'(1)], of i] td_core_fields(2) [OF core(1), of i]
      rdy2 st(2) D(9) C(1) core(2) ready ne by (auto simp: nth_update_if)
  ultimately show ?thesis using s'(2) by (auto simp: m_def)
qed

section \<open>Creation and exit\<close>

lemma times4_aligned: "(4 * k :: u32) AND NOT 3 = 4 * k"
proof -
  have k: "4 * k = push_bit 2 k" and m: "(3 :: u32) = mask 2"
    by (simp_all add: push_bit_eq_mult mask_eq_exp_minus_1)
  show ?thesis
    unfolding k m by (rule bit_word_eqI) (auto simp: bit_and_iff bit_not_iff bit_push_bit_iff bit_mask_iff)
qed

lemma times4_and3: "(4 * k :: u32) AND 3 = 0"
proof -
  have k: "4 * k = push_bit 2 k" and m: "(3 :: u32) = mask 2"
    by (simp_all add: push_bit_eq_mult mask_eq_exp_minus_1)
  show ?thesis
    unfolding k m by (rule bit_word_eqI) (auto simp: bit_and_iff bit_push_bit_iff bit_mask_iff)
qed

lemma user_stack_times4: "user_stack tid = 4 * (0x800000 - TID_ID tid * 0xf000)"
  by (simp add: user_stack_def USER_STACK_BASE_def USER_STACK_SIZE_def)

text \<open>The entry point is the last word that \<^verbatim>\<open>activate\<close> pops (\<^verbatim>\<open>lr\<close>, then \<^verbatim>\<open>r0-r12\<close> and the \<^verbatim>\<open>pc\<close>).\<close>

lemma str_entry: "word_at (str m (4 * k - 4) v) (4 * k - 60 + 56) = v"
proof -
  have "4 * k - 4 = 4 * (k - 1)" "4 * k - 60 + 56 = 4 * (k - 1)" by (simp_all add: algebra_simps)
  then show ?thesis using word_at_str [of m "4 * (k - 1)" v] by (simp only: times4_aligned)
qed

lemma create_ok:
  assumes inv: "kinv s qs (t # cur)" and tids: "tt_tids (ks_tids s) = tid # tids" "\<not> sint tid < 0"
    and p: "p = sint (arg s (ks_tasks s ! t) 4)" "IS_VALID_PRIORITY p"
  defines "n \<equiv> tid_ix tid"
  shows "\<exists>s'. create t s = Some s' \<and> kinv s' (rq_push qs (nat p) n) (t # cur) \<and>
    tt_tids (ks_tids s') = tids \<and> td_ret (ks_tasks s' ! t) = tid \<and>
    td_tid (ks_tasks s' ! n) = tid \<and> td_status (ks_tasks s' ! n) = TS_READY \<and>
    td_priority (ks_tasks s' ! n) = p \<and> td_parent (ks_tasks s' ! n) = Some t \<and>
    send_list (ks_tasks s' ! n) = [] \<and>
    word_at (ks_mem s') (td_sp (ks_tasks s' ! n) + 56) = arg s (ks_tasks s ! t) 8 \<and>
    (\<forall>i. i \<noteq> n \<longrightarrow> td_core (ks_tasks s' ! i) = td_core (ks_tasks s ! i))"
proof -
  note C = kinv_cur [OF inv] and D = kinvD [OF inv]
  let ?task = "arg s (ks_tasks s ! t) 8"
  obtain tt' where tt: "tt_get (ks_tids s) = Some (tid, tt')" "tt_wf tt'" "tt_tids tt' = tids"
    using tt_get_ok [OF D(4) tids(1)] by blast
  note slot = free_tid_slot [OF inv tids(1)]
  let ?s0 = "s\<lparr>ks_tids := tt'\<rparr>"
  obtain s1 where s1: "ktd_create n tid ?task p TS_READY (Some t) ?s0 = Some s1"
    using slot(1) D(9) by (simp add: ktd_create_def Let_def mod_td_Some n_def)
  note fresh = ktd_create_fresh [OF s1]
  have okn: "td_ok n (ks_tasks ?s0 ! n)" using slot(2) by (simp add: n_def)
  have eq: "s1 = s\<lparr>ks_tids := tt', ks_mem := ks_mem s1, ks_tasks := (ks_tasks s)[n := ks_tasks s1 ! n]\<rparr>"
    using fresh(3) [OF okn] by simp
  have f: "fresh_td tid p (ks_tasks s1 ! n)" by (rule fresh(1) [OF okn])
  have k1: "kinv s1 qs (n # t # cur)"
    using kinv_fresh [OF inv tids(1) tt(2,3) f [unfolded n_def] _ _ eq [unfolded n_def]] p(2)
    by (simp add: n_def IS_VALID_PRIORITY_def)
  have nt: "n \<noteq> t" using kinv_cur(5) [OF k1] by auto
  have pn: "td_priority (ks_tasks s1 ! n) = p" using f by (simp add: fresh_td_def)
  obtain s2 where s2: "k_push p n s1 = Some s2" "kinv s2 (rq_push qs (nat p) n) (t # cur)"
    and same: "\<And>i. same_but_next (ks_tasks s1 ! i) (ks_tasks s2 ! i)" and mem: "ks_mem s2 = ks_mem s1"
    and tds: "ks_tids s2 = ks_tids s1"
    using k_push_ok [OF k1 pn] by blast
  obtain s' where s': "mod_td t (td_ret_update (\<lambda>_. tid)) s2 = Some s'"
    "kinv s' (rq_push qs (nat p) n) (t # cur)" "ks_mem s' = ks_mem s2"
    "\<forall>i. td_core (ks_tasks s' ! i) = td_core (ks_tasks s2 ! i)" "td_ret (ks_tasks s' ! t) = tid"
    using set_ret_ok [OF s2(2) C(1), of tid] by blast
  have "create t s = Some s'"
    using tt(1) C(1) D(9) p tids(2) s1 s2(1) s'(1)
    by (simp add: create_def Let_def arg_def n_def)
  moreover have n': "ks_tasks s' ! n = ks_tasks s2 ! n"
    using s'(1) nt by (auto simp: mod_td_eq_Some)
  moreover have "same_but_next (ks_tasks s1 ! n) (ks_tasks s2 ! n)" by (rule same)
  then have "td_sp (ks_tasks s2 ! n) = td_sp (ks_tasks s1 ! n)" "td_parent (ks_tasks s2 ! n) = td_parent (ks_tasks s1 ! n)"
    "td_core (ks_tasks s2 ! n) = td_core (ks_tasks s1 ! n)"
    by (simp_all add: same_but_next_fields same_but_next_core)
  moreover have "td_sp (ks_tasks s1 ! n) = user_stack tid - 60" "td_parent (ks_tasks s1 ! n) = Some t"
    "ks_mem s1 = str (ks_mem s) (user_stack tid - 4) ?task"
    using s1 slot(1) D(9) by (auto simp: ktd_create_def Let_def mod_td_eq_Some)
  moreover have "word_at (str (ks_mem s) (user_stack tid - 4) ?task) (user_stack tid - 60 + 56) = ?task"
    unfolding user_stack_times4 by (rule str_entry)
  moreover have "td_core (ks_tasks s' ! i) = td_core (ks_tasks s ! i)" if "i \<noteq> n" for i
  proof -
    have "ks_tasks s1 ! i = ks_tasks s ! i" by (subst eq) (simp add: that [symmetric])
    then show ?thesis using s'(4) same_but_next_core [OF same, of i] by simp
  qed
  moreover have "tt_tids (ks_tids s') = tids"
    using mod_td_frame(4) [OF s'(1)] tds tt(3) by (subst (asm) eq) simp
  moreover have "td_tid (ks_tasks s2 ! n) = tid" "td_status (ks_tasks s2 ! n) = TS_READY"
    "td_priority (ks_tasks s2 ! n) = p" "send_list (ks_tasks s2 ! n) = []"
    using f td_core_fields [OF same_but_next_core [OF same, of n]] by (simp_all add: fresh_td_def)
  ultimately show ?thesis using s' mem by auto
qed

text \<open>Without a free tid, or with one whose version has run into the sign bit, creation fails.\<close>

lemma create_fails:
  assumes inv: "kinv s qs cur"
    and tids: "tt_tids (ks_tids s) = [] \<or> (\<exists>tid tids. tt_tids (ks_tids s) = tid # tids \<and> sint tid < 0)"
  shows "create t s = None"
proof -
  note D = kinvD [OF inv]
  have "\<exists>tid tt'. tt_get (ks_tids s) = Some (tid, tt') \<and> sint tid < 0"
    using tids tt_get_empty [OF D(4)] tt_get_ok [OF D(4)] by fastforce
  then obtain tid tt' where "tt_get (ks_tids s) = Some (tid, tt')" "sint tid < 0" by blast
  then show ?thesis
    by (auto simp: create_def Let_def bind_eq_None_conv)
qed

section \<open>The interrupt wake-up\<close>

text \<open>An event is pending when its line is asserted or an earlier assertion was stored.\<close>

definition pending :: "u32 \<Rightarrow> kstate \<Rightarrow> bool" where
  "pending ie s \<longleftrightarrow> is_interrupt_asserted ie s = Some True \<or>
     im_stored_flag (ks_im s) ! unat ie \<noteq> 0"

definition ev_flag :: "u32 \<Rightarrow> kstate \<Rightarrow> u32" where
  "ev_flag ie s = im_stored_flag (ks_im s) ! unat ie"

text \<open>Masking an event in the device does not change what the kernel reads of the other
  events that come after it.\<close>

lemma io_addresses:
  "TIMER1_BASE OR 0xc \<notin> {VIC1_BASE OR 0, VIC2_BASE OR 0, UART1_BASE OR UART_INTR_OFFSET, UART2_BASE OR UART_INTR_OFFSET}"
  "TIMER3_BASE OR 0xc \<notin> {VIC1_BASE OR 0, VIC2_BASE OR 0, UART1_BASE OR UART_INTR_OFFSET, UART2_BASE OR UART_INTR_OFFSET}"
  "UART1_BASE + UART_CTRL_OFFSET \<notin> {VIC1_BASE OR 0, VIC2_BASE OR 0, UART1_BASE OR UART_INTR_OFFSET, UART2_BASE OR UART_INTR_OFFSET}"
  "UART2_BASE + UART_CTRL_OFFSET \<notin> {VIC1_BASE OR 0, VIC2_BASE OR 0, UART1_BASE OR UART_INTR_OFFSET, UART2_BASE OR UART_INTR_OFFSET}"
  "UART1_BASE OR UART_INTR_OFFSET \<notin> {VIC1_BASE OR 0, VIC2_BASE OR 0, UART2_BASE OR UART_INTR_OFFSET}"
  by (simp_all add: TIMER1_BASE_def TIMER3_BASE_def VIC1_BASE_def VIC2_BASE_def UART1_BASE_def
      UART2_BASE_def UART_CTRL_OFFSET_def UART_INTR_OFFSET_def)

lemma asserted_cong:
  "(\<And>a. a \<in> {VIC1_BASE OR 0, VIC2_BASE OR 0, UART1_BASE OR UART_INTR_OFFSET, UART2_BASE OR UART_INTR_OFFSET} \<Longrightarrow>
     ks_io s' a = ks_io s a) \<Longrightarrow> is_interrupt_asserted ie s' = is_interrupt_asserted ie s"
  by (simp add: is_interrupt_asserted_def uart_asserted_def)

lemma clear_interrupt_asserted:
  assumes "clear_interrupt ie s = Some s'" "ie \<in> set im_events" "ie \<noteq> IE_UART1_MI" "ie \<noteq> IE_UART2_MI"
  shows "is_interrupt_asserted ie' s' = is_interrupt_asserted ie' s"
  using assms io_addresses
  by (intro asserted_cong) (auto simp: clear_interrupt_def Let_def im_events_def io_clear_bit_def)

lemma clear_UART1_MI_asserted:
  assumes "clear_interrupt IE_UART1_MI s = Some s'" "ie' = IE_UART2_RT \<or> ie' = IE_UART2_MI"
  shows "is_interrupt_asserted ie' s' = is_interrupt_asserted ie' s"
  using assms io_addresses
  by (auto simp: clear_interrupt_def Let_def io_clear_bit_def is_interrupt_asserted_def uart_asserted_def)

lemma wake_mem: "WakePriority = pre @ ie # post \<Longrightarrow> ie \<in> set im_events"
proof -
  assume "WakePriority = pre @ ie # post"
  then have "set WakePriority = set (pre @ ie # post)" by (rule arg_cong)
  then show "ie \<in> set im_events" using set_WakePriority by auto
qed

lemma clear_later:
  assumes "clear_interrupt ie s = Some s'" "WakePriority = pre @ ie # post" "ie' \<in> set post"
  shows "is_interrupt_asserted ie' s' = is_interrupt_asserted ie' s"
proof -
  have ie: "ie \<in> set im_events" by (rule wake_mem [OF assms(2)])
  have "ie = IE_UART1_MI \<longrightarrow> post = [IE_UART2_RT, IE_UART2_MI]" "ie \<noteq> IE_UART2_MI"
    using assms(2,3) unfolding WakePriority_def by (auto simp: Cons_eq_append_conv)
  then show ?thesis
    using clear_interrupt_asserted [OF assms(1) ie] clear_UART1_MI_asserted [of s s' ie'] assms(1,3)
    by (cases "ie = IE_UART1_MI") auto
qed

lemma distinct_WakePriority: "distinct WakePriority"
  by (simp add: WakePriority_def)

lemma event_flags_differ: "ie \<in> set im_events \<Longrightarrow> ie' \<in> set im_events \<Longrightarrow> ie \<noteq> ie' \<Longrightarrow> unat ie \<noteq> unat ie'"
  by (simp add: word_unat_eq_iff)

text \<open>One event of the loop: nobody waits, and the assertion is stored if it is pending.\<close>

lemma wake_skip:
  assumes inv: "kinv s qs cur" and ie: "WakePriority = pre @ ie # post" and none: "im_waiting (ks_im s) ie = []"
  shows "\<exists>s1. event_wake_loop (ie # ies) s = event_wake_loop ies s1 \<and> kinv s1 qs cur \<and>
    ks_tasks s1 = ks_tasks s \<and> im_lists (ks_im s1) = im_lists (ks_im s) \<and>
    im_stored_flag (ks_im s1) = (if pending ie s
      then (im_stored_flag (ks_im s))[unat ie := ev_flag ie s + 1] else im_stored_flag (ks_im s)) \<and>
    (\<forall>ie'\<in>set post. is_interrupt_asserted ie' s1 = is_interrupt_asserted ie' s)"
proof -
  have mem: "ie \<in> set im_events" by (rule wake_mem [OF ie])
  then obtain k where k: "k < 10" "ie = im_events ! k" by (rule im_events_cases)
  obtain b where b: "is_interrupt_asserted ie s = Some b"
    using is_interrupt_asserted_total [OF mem] by blast
  have c: "is_interrupt_stored ie s = Some (ev_flag ie s \<noteq> 0)"
    using is_interrupt_stored_eq [OF kinvD(6) [OF inv] event_flag_index [OF mem]] by (simp add: ev_flag_def)
  have size: "im_eventsize (ks_im s) ie = Some 0"
    using im_eventsize_ok [OF kinvD(6) [OF inv] k(1)] k none im_waiting_nth [OF k(1)] by simp
  show ?thesis
  proof (cases "pending ie s")
    case False
    then have "event_wake_loop (ie # ies) s = event_wake_loop ies s"
      using b c by (auto simp: pending_def ev_flag_def)
    then show ?thesis using False inv by auto
  next
    case True
    then have p: "b \<or> ev_flag ie s \<noteq> 0" using b by (auto simp: pending_def ev_flag_def)
    obtain s0 where s0: "store_assert ie s = Some s0" "kinv s0 qs cur" "ks_io s0 = ks_io s"
      "ks_tasks s0 = ks_tasks s" "im_lists (ks_im s0) = im_lists (ks_im s)"
      "im_stored_flag (ks_im s0) = (im_stored_flag (ks_im s))[unat ie := ev_flag ie s + 1]"
      using store_assert_ok [OF inv mem] unfolding ev_flag_def by blast
    obtain io where io: "clear_interrupt ie s0 = Some (s0\<lparr>ks_io := io\<rparr>)"
      using clear_interrupt_total [OF mem] by blast
    have "event_wake_loop (ie # ies) s = event_wake_loop ies (s0\<lparr>ks_io := io\<rparr>)"
      using b c p size s0(1) io by (cases b) simp_all
    moreover have "is_interrupt_asserted ie' (s0\<lparr>ks_io := io\<rparr>) = is_interrupt_asserted ie' s"
      if "ie' \<in> set post" for ie'
    proof -
      have "is_interrupt_asserted ie' s0 = is_interrupt_asserted ie' s"
        using s0(3) by (intro asserted_cong) simp
      then show ?thesis using clear_later [OF io ie that] by simp
    qed
    ultimately show ?thesis using True s0 by (intro exI [of _ "s0\<lparr>ks_io := io\<rparr>"]) simp
  qed
qed

lemma wake_hit:
  assumes inv: "kinv s qs cur" and mem: "ie \<in> set im_events" and p: "pending ie s"
    and w: "im_waiting (ks_im s) ie \<noteq> []"
  shows "\<exists>s'. event_wake_loop (ie # ies) s = Some s' \<and>
    kinv s' (wake_push (ks_tasks s) (im_waiting (ks_im s) ie) qs) cur \<and>
    (\<forall>ie'. im_waiting (ks_im s') ie' = (if ie' = ie then [] else im_waiting (ks_im s) ie')) \<and>
    im_stored_flag (ks_im s') = (im_stored_flag (ks_im s))[unat ie := 0]"
proof -
  obtain k where k: "k < 10" "ie = im_events ! k" using mem by (rule im_events_cases)
  obtain b where b: "is_interrupt_asserted ie s = Some b"
    using is_interrupt_asserted_total [OF mem] by blast
  have c: "is_interrupt_stored ie s = Some (ev_flag ie s \<noteq> 0)"
    using is_interrupt_stored_eq [OF kinvD(6) [OF inv] event_flag_index [OF mem]] by (simp add: ev_flag_def)
  have p': "b \<or> ev_flag ie s \<noteq> 0" using p b by (auto simp: pending_def ev_flag_def)
  have wk: "im_waiting (ks_im s) ie = im_lists (ks_im s) ! k" using im_waiting_nth [OF k(1)] k(2) by simp
  have size: "im_eventsize (ks_im s) ie = Some (int (length (im_lists (ks_im s) ! k)))"
    using im_eventsize_ok [OF kinvD(6) [OF inv] k(1)] k by simp
  obtain s1 where s1: "wakeall ie s = Some s1"
    "kinv s1 (wake_push (ks_tasks s) (im_lists (ks_im s) ! k) qs) cur"
    "im_lists (ks_im s1) = (im_lists (ks_im s))[k := []]"
    "im_stored_flag (ks_im s1) = im_stored_flag (ks_im s)"
    using wakeall_ok [OF k(1) inv refl] k(2) by blast
  obtain io where io: "clear_interrupt ie s1 = Some (s1\<lparr>ks_io := io\<rparr>)"
    using clear_interrupt_total [OF mem] by blast
  obtain s' where s': "remove_assert ie (s1\<lparr>ks_io := io\<rparr>) = Some s'"
    "kinv s' (wake_push (ks_tasks s) (im_lists (ks_im s) ! k) qs) cur"
    "im_lists (ks_im s') = im_lists (ks_im s1)"
    "im_stored_flag (ks_im s') = (im_stored_flag (ks_im s1))[unat ie := 0]"
    using remove_assert_ok [of "s1\<lparr>ks_io := io\<rparr>" _ cur ie] s1(2) event_flag_index [OF mem] by fastforce
  have "event_wake_loop (ie # ies) s = Some s'"
    using b c p' size w wk s1(1) io s'(1) by (cases b) simp_all
  moreover have "im_waiting (ks_im s') ie' = (if ie' = ie then [] else im_waiting (ks_im s) ie')" for ie'
  proof (cases "ie' \<in> set im_events")
    case False
    then show ?thesis using im_waiting_other by simp
  next
    case True
    then obtain j where j: "j < 10" "ie' = im_events ! j" by (rule im_events_cases)
    have "im_events ! j = im_events ! k \<longleftrightarrow> j = k"
      using j(1) k(1) nth_eq_iff_index_eq [of im_events j k] by (simp add: im_events_def)
    then show ?thesis
      using j k s'(3) s1(3) by (simp add: im_waiting_nth nth_list_update)
  qed
  ultimately show ?thesis using s' s1(4) wk by auto
qed

text \<open>The whole wake-up: the waiters of the first event in \<^verbatim>\<open>WakePriority\<close> that is pending and
  waited for are pushed on the ready queue in the order in which they came, with the event's
  flag reset; pending events before it, for which nobody waits, are counted in their flags;
  later events are not looked at.\<close>

lemma event_wake_loop_first:
  assumes "WakePriority = done @ pre @ ie # post" "kinv s qs cur"
    and "\<And>ie'. ie' \<in> set pre \<Longrightarrow> pending ie' s \<Longrightarrow> im_waiting (ks_im s) ie' = []"
    and "pending ie s" "im_waiting (ks_im s) ie \<noteq> []"
  shows "\<exists>s'. event_wake_loop (pre @ ie # post) s = Some s' \<and>
    kinv s' (wake_push (ks_tasks s) (im_waiting (ks_im s) ie) qs) cur \<and>
    (\<forall>ie'. im_waiting (ks_im s') ie' = (if ie' = ie then [] else im_waiting (ks_im s) ie')) \<and>
    (\<forall>ie'\<in>set im_events. ev_flag ie' s' = (if ie' = ie then 0
       else if ie' \<in> set pre \<and> pending ie' s then ev_flag ie' s + 1 else ev_flag ie' s))"
  using assms
proof (induction pre arbitrary: "done" s)
  case Nil
  have mem: "ie \<in> set im_events" using wake_mem [of "done" ie post] Nil.prems(1) by simp
  obtain s' where s': "event_wake_loop (ie # post) s = Some s'"
    "kinv s' (wake_push (ks_tasks s) (im_waiting (ks_im s) ie) qs) cur"
    "\<forall>ie'. im_waiting (ks_im s') ie' = (if ie' = ie then [] else im_waiting (ks_im s) ie')"
    "im_stored_flag (ks_im s') = (im_stored_flag (ks_im s))[unat ie := 0]"
    using wake_hit [OF Nil.prems(2) mem Nil.prems(4,5)] by blast
  moreover have "length (im_stored_flag (ks_im s)) = INTERRUPT_SIZE"
    using kinvD(6) [OF Nil.prems(2)] by (simp add: im_wf_def)
  then have "ev_flag ie' s' = (if ie' = ie then 0 else ev_flag ie' s)" if "ie' \<in> set im_events" for ie'
    using event_flags_differ [OF mem that] event_flag_index [OF mem] s'(4)
    by (auto simp: ev_flag_def nth_update_if)
  ultimately show ?case by simp
next
  case (Cons x pre)
  have x: "WakePriority = done @ x # (pre @ ie # post)" using Cons.prems(1) by simp
  then have mem: "x \<in> set im_events" by (rule wake_mem)
  have nx: "x \<notin> set (pre @ ie # post)"
    using distinct_WakePriority unfolding x by simp
  have sub: "set (pre @ ie # post) \<subseteq> set im_events"
    unfolding set_WakePriority [symmetric] x by auto
  show ?case
  proof (cases "im_waiting (ks_im s) x = []")
    case False
    then have np: "\<not> pending x s" using Cons.prems(3) by auto
    obtain b where b: "is_interrupt_asserted x s = Some b"
      using is_interrupt_asserted_total [OF mem] by blast
    have "is_interrupt_stored x s = Some (ev_flag x s \<noteq> 0)"
      using is_interrupt_stored_eq [OF kinvD(6) [OF Cons.prems(2)] event_flag_index [OF mem]]
      by (simp add: ev_flag_def)
    then have step: "event_wake_loop (x # pre @ ie # post) s = event_wake_loop (pre @ ie # post) s"
      using b np by (auto simp: pending_def ev_flag_def)
    have "WakePriority = (done @ [x]) @ pre @ ie # post" using x by simp
    from Cons.IH [OF this Cons.prems(2) _ Cons.prems(4,5)] Cons.prems(3)
    show ?thesis using np by (auto simp: step simp del: event_wake_loop.simps)
  next
    case True
    obtain s1 where s1: "event_wake_loop (x # (pre @ ie # post)) s = event_wake_loop (pre @ ie # post) s1"
      "kinv s1 qs cur" "ks_tasks s1 = ks_tasks s" "im_lists (ks_im s1) = im_lists (ks_im s)"
      "im_stored_flag (ks_im s1) = (if pending x s
        then (im_stored_flag (ks_im s))[unat x := ev_flag x s + 1] else im_stored_flag (ks_im s))"
      "\<forall>ie'\<in>set (pre @ ie # post). is_interrupt_asserted ie' s1 = is_interrupt_asserted ie' s"
      using wake_skip [OF Cons.prems(2) x True] by blast
    have len: "length (im_stored_flag (ks_im s)) = INTERRUPT_SIZE"
      using kinvD(6) [OF Cons.prems(2)] by (simp add: im_wf_def)
    have flag: "ev_flag ie' s1 = (if ie' = x \<and> pending x s then ev_flag ie' s + 1 else ev_flag ie' s)"
      if "ie' \<in> set im_events" for ie'
      using event_flags_differ [OF mem that] event_flag_index [OF mem] s1(5) len
      by (auto simp: ev_flag_def nth_update_if)
    have later: "pending ie' s1 = pending ie' s" "im_waiting (ks_im s1) ie' = im_waiting (ks_im s) ie'"
      if "ie' \<in> set (pre @ ie # post)" for ie'
    proof -
      have e: "ie' \<in> set im_events" "ie' \<noteq> x" using that sub nx by auto
      then show "pending ie' s1 = pending ie' s"
        using s1(6) that flag [OF e(1)] by (auto simp: pending_def ev_flag_def)
      show "im_waiting (ks_im s1) ie' = im_waiting (ks_im s) ie'"
        using e(1) s1(4) by (auto elim!: im_events_cases simp: im_waiting_nth)
    qed
    have wait: "im_waiting (ks_im s1) ie' = im_waiting (ks_im s) ie'" for ie'
      using s1(4) im_waiting_other [of ie'] by (cases "ie' \<in> set im_events")
        (auto elim!: im_events_cases simp: im_waiting_nth)
    have "WakePriority = (done @ [x]) @ pre @ ie # post" using x by simp
    from Cons.IH [OF this s1(2)] later Cons.prems(3-5)
    obtain s' where s': "event_wake_loop (pre @ ie # post) s1 = Some s'"
      "kinv s' (wake_push (ks_tasks s1) (im_waiting (ks_im s1) ie) qs) cur"
      "\<forall>ie'. im_waiting (ks_im s') ie' = (if ie' = ie then [] else im_waiting (ks_im s1) ie')"
      "\<forall>ie'\<in>set im_events. ev_flag ie' s' = (if ie' = ie then 0
         else if ie' \<in> set pre \<and> pending ie' s1 then ev_flag ie' s1 + 1 else ev_flag ie' s1)"
      by auto
    have "ev_flag ie' s' = (if ie' = ie then 0
        else if ie' \<in> set (x # pre) \<and> pending ie' s then ev_flag ie' s + 1 else ev_flag ie' s)"
      if "ie' \<in> set im_events" for ie'
      using s'(4) that flag [OF that] later(1) [of ie'] nx by auto
    then show ?thesis
      using s' s1(1,3) wait by (auto simp del: event_wake_loop.simps)
  qed
qed

end
