(* ===== verification/KernelTheorems.thy ===== *)
theory KernelTheorems
  imports KernelProps
begin

text \<open>
  The properties of the kernel, and the concrete states on which their hypotheses hold: a state
  with two tasks in the middle of an exchange (\<open>demo\<close>) and the zeroed globals the kernel starts
  from (\<open>zero_state\<close>).
\<close>

section \<open>Concrete states\<close>

definition empty_cb :: "'a \<Rightarrow> 'a cbuf" where
  "empty_cb x = \<lparr>cb_buf = replicate MAX_TASK x, cb_start = 0, cb_end = 0, cb_size = 0\<rparr>"

definition cb_holding :: "'a \<Rightarrow> 'a list \<Rightarrow> 'a cbuf" where
  "cb_holding x xs = \<lparr>cb_buf = xs @ replicate (MAX_TASK - length xs) x, cb_start = 0,
     cb_end = of_nat (length xs), cb_size = of_nat (length xs)\<rparr>"

definition zero_td :: TaskDescriptor where
  "zero_td = \<lparr>td_tid = 0, td_sp = 0, td_stack_base = 0, td_psr = 0, td_task = 0,
     td_status = TS_ACTIVE, td_it = IT_SWI, td_parent = None, td_next = None, td_priority = 0,
     td_send_q = empty_cb 0, td_ret = 0, td_start_time = 0, td_running_time = 0, td_end_time = 0\<rparr>"

definition zero_im :: interrupt_matrix where
  "zero_im = \<lparr>im_TC1UI = empty_cb 0, im_TC3UI = empty_cb 0, im_UART2_RX = empty_cb 0,
     im_UART2_TX = empty_cb 0, im_UART2_RT = empty_cb 0, im_UART2_MI = empty_cb 0,
     im_UART1_RX = empty_cb 0, im_UART1_TX = empty_cb 0, im_UART1_RT = empty_cb 0,
     im_UART1_MI = empty_cb 0, im_stored_flag = replicate INTERRUPT_SIZE 0\<rparr>"

definition zero_pq :: priority_queue where
  "zero_pq = \<lparr>pqs = replicate MAX_PRIORITY \<lparr>tq_head = None, tq_tail = None, tq_size = 0\<rparr>,
     pq_size = 0, pq_state = 0\<rparr>"

definition zero_state :: kstate where
  "zero_state = \<lparr>ks_mem = (\<lambda>_. 0), ks_io = (\<lambda>_. 0), ks_ksp = KERNEL_STACK_BASE - 64,
     ks_tasks = replicate MAX_TASK zero_td, ks_running = None, ks_tids = \<lparr>tt_cb = empty_cb 0\<rparr>,
     ks_pq = zero_pq, ks_im = zero_im, ks_ns = 0\<rparr>"

text \<open>Tasks 0 and 1 exist, with stacks and system call arguments; the other 126 tids are free.\<close>

definition demo_td :: "nat \<Rightarrow> u32 \<Rightarrow> TaskStatus \<Rightarrow> u32 list \<Rightarrow> TaskDescriptor" where
  "demo_td n sp st q = zero_td\<lparr>td_tid := of_nat n, td_sp := sp, td_status := st, td_priority := 1,
     td_send_q := cb_holding 0 q\<rparr>"

definition demo_mem :: mem where
  "demo_mem = str (str (str (str (str (str (str (str (\<lambda>_. 0)
     0x01FFFF04 1) 0x01FFFF08 0x01FFFF80) 0x01FFFF0c 4) 0x01FFFF10 0x01FFFFC0) 0x01FFFF80 0x04030201)
     0x01FC0004 0x01FC0080) 0x01FC0008 0x01FC00C0) 0x01FC000c 4"

definition demo :: "TaskStatus \<Rightarrow> TaskStatus \<Rightarrow> u32 list \<Rightarrow> mem \<Rightarrow> kstate" where
  "demo st0 st1 q1 m = zero_state\<lparr>ks_mem := m,
     ks_tasks := demo_td 0 0x01FFFF00 st0 [] # demo_td 1 0x01FC0000 st1 q1 #
       replicate 126 (zero_td\<lparr>td_status := TS_UNINIT\<rparr>),
     ks_tids := \<lparr>tt_cb = cb_holding 0 (map of_nat [2..<128])\<rparr>\<rparr>"

lemma empty_cb_wf: "cb_wf MAX_TASK (empty_cb x)" "cb_list MAX_TASK (empty_cb x) = []"
  by (simp_all add: cb_wf_def cb_list_def empty_cb_def)

lemma zero_state_typed: "kstate_typed zero_state"
  by (simp add: kstate_typed_def zero_state_def zero_td_def zero_im_def zero_pq_def empty_cb_def im_cbs_def)

lemma demo_tasks:
  "length (ks_tasks (demo st0 st1 q1 m)) = MAX_TASK"
  "ks_tasks (demo st0 st1 q1 m) ! 0 = demo_td 0 0x01FFFF00 st0 []"
  "ks_tasks (demo st0 st1 q1 m) ! Suc 0 = demo_td 1 0x01FC0000 st1 q1"
  "2 \<le> i \<Longrightarrow> i < MAX_TASK \<Longrightarrow> ks_tasks (demo st0 st1 q1 m) ! i = zero_td\<lparr>td_status := TS_UNINIT\<rparr>"
  by (auto simp: demo_def nth_Cons')

lemma demo_td_fields [simp]:
  "td_tid (demo_td n sp st q) = of_nat n" "td_sp (demo_td n sp st q) = sp"
  "td_status (demo_td n sp st q) = st" "td_priority (demo_td n sp st q) = 1"
  by (simp_all add: demo_td_def)

lemma cb_holding_wf:
  assumes "length q < MAX_TASK"
  shows "cb_wf MAX_TASK (cb_holding x q)" "cb_list MAX_TASK (cb_holding x q) = q"
proof -
  have l: "unat (of_nat (length q) :: u32) = length q" using assms by (simp add: unat_of_nat)
  show "cb_wf MAX_TASK (cb_holding x q)"
    using assms l by (simp add: cb_holding_def cb_wf_def)
  show "cb_list MAX_TASK (cb_holding x q) = q"
    using assms l by (intro nth_equalityI) (simp_all add: cb_holding_def nth_append)
qed

lemma demo_td_queue:
  assumes "length q < MAX_TASK"
  shows "cb_wf MAX_TASK (td_send_q (demo_td n sp st q))" "send_list (demo_td n sp st q) = q"
  using cb_holding_wf [OF assms] by (simp_all add: demo_td_def send_list_def)

lemma map_tid_ix_of_nat: "(\<And>i. i \<in> set xs \<Longrightarrow> i < 65536) \<Longrightarrow> map tid_ix (map of_nat xs) = xs"
  by (induction xs) (simp_all add: TID_ID_of_nat)

lemma demo_kinv:
  assumes st: "st0 \<in> {TS_READY, TS_RCV_BL, TS_SND_BL, TS_RPL_BL}" "st1 \<in> {TS_READY, TS_RCV_BL, TS_SND_BL, TS_RPL_BL}"
    and q: "q1 = (if st0 = TS_RCV_BL then [0] else [])"
    and cur: "cur = (if st0 = TS_READY then [0] else []) @ (if st1 = TS_READY then [1] else [])"
  shows "kinv (demo st0 st1 q1 m) (replicate MAX_PRIORITY []) cur"
proof -
  let ?s = "demo st0 st1 q1 m" and ?d = "zero_td\<lparr>td_status := TS_UNINIT\<rparr>"
  have lq: "length q1 < MAX_TASK" using q by simp
  have cases: "i = 0 \<or> i = Suc 0 \<or> 2 \<le> i" for i :: nat by arith
  have td: "ks_tasks ?s ! i = (if i = 0 then demo_td 0 0x01FFFF00 st0 [] else
      if i = 1 then demo_td 1 0x01FC0000 st1 q1 else ?d)" if "i < MAX_TASK" for i
    using demo_tasks(2,3) demo_tasks(4) [where i = i] cases [of i] that by auto
  have dead: "td_ok i ?d" "\<not> live ?d" "\<not> runnable ?d" "send_list ?d = []" for i
    by (simp_all add: td_ok_def live_def runnable_def send_list_def zero_td_def empty_cb_wf)
  have lv: "live (demo_td 0 0x01FFFF00 st0 [])" "live (demo_td 1 0x01FC0000 st1 q1)"
    using st by (auto simp: live_def)
  have "td_ok 0 (demo_td 0 0x01FFFF00 st0 [])" "td_ok 1 (demo_td 1 0x01FC0000 st1 q1)"
    using st demo_td_queue(1) [of "[]"] demo_td_queue(1) [OF lq] by (auto simp: td_ok_def unat_TID_ID)
  then have "tasks_ok (ks_tasks ?s)"
    using dead(1) by (simp add: tasks_ok_def demo_tasks(1) td)
  moreover have "ks_pq ?s = pq_init zero_pq"
    by (simp add: demo_def zero_state_def zero_pq_def pq_init_def tq_init_def)
  then have "pq_rep (ks_tasks ?s) (ks_pq ?s) (replicate MAX_PRIORITY [])"
    using pq_init_rep [of zero_pq "ks_tasks ?s"] by (simp add: zero_pq_def)
  moreover have tids: "tt_tids (ks_tids ?s) = map of_nat [2..<128]" "tt_wf (ks_tids ?s)"
  proof -
    show "tt_tids (ks_tids ?s) = map of_nat [2..<128]" "tt_wf (ks_tids ?s)"
      using cb_holding_wf [of "map of_nat [2..<128]" "0 :: u32"]
      by (simp_all add: demo_def tt_tids_def tt_wf_def del: upt_rec_numeral)
  qed
  moreover have "free_ok (ks_tasks ?s) (tt_tids (ks_tids ?s))"
  proof -
    have "map tid_ix (map of_nat [2..<128]) = [2..<128]"
      by (rule map_tid_ix_of_nat) (auto simp only: set_upt atLeastLessThan_iff)
    moreover have "{t. t < MAX_TASK \<and> \<not> live (ks_tasks ?s ! t)} = {2..<128}"
      using lv dead(2) by (auto simp: td split: if_splits)
    ultimately show ?thesis unfolding tids(1) free_ok_def
      by (simp only: distinct_upt set_upt simp_thms)
  qed
  moreover have im: "im_wf (ks_im ?s)" "concat (im_lists (ks_im ?s)) = []"
    by (simp_all add: demo_def zero_state_def zero_im_def im_wf_def im_cbs_def im_lists_def empty_cb_wf)
  moreover have "run_ok (ks_tasks ?s) (places (replicate MAX_PRIORITY []) (ks_im ?s) cur)"
  proof -
    have r: "runnable (demo_td 0 0x01FFFF00 st0 []) \<longleftrightarrow> st0 = TS_READY"
      "runnable (demo_td 1 0x01FC0000 st1 q1) \<longleftrightarrow> st1 = TS_READY"
      using st by (auto simp: runnable_def)
    have "runnable (ks_tasks ?s ! t) \<longleftrightarrow> t \<in> set cur" if "t < MAX_TASK" for t
      unfolding td [OF that] cur using r dead(3) by (cases "t = 0"; cases "t = 1") simp_all
    moreover have "set cur \<subseteq> {..<MAX_TASK}" by (auto simp: cur)
    ultimately have "{t. t < MAX_TASK \<and> runnable (ks_tasks ?s ! t)} = set cur" by auto
    moreover have "distinct cur" by (simp add: cur)
    ultimately show ?thesis unfolding run_ok_def places_def im(2)
      by (simp add: mset_set_set)
  qed
  moreover have "send_ok (ks_tasks ?s)"
  proof -
    have "senders (ks_tasks ?s) = q1"
      using demo_td_queue(2) [of "[]"] demo_td_queue(2) [OF lq] dead(4)
      by (simp add: senders_def demo_def map_replicate_const)
    moreover have "td_status (ks_tasks ?s ! 0) = st0" by (simp add: demo_tasks)
    ultimately show ?thesis using q by (auto simp: send_ok_def unat_TID_ID)
  qed
  ultimately show ?thesis by (simp add: kinv_def prio_ok_def)
qed

lemma demo_args:
  "ldr demo_mem 0x01FFFF04 = 1" "ldr demo_mem 0x01FFFF08 = 0x01FFFF80" "ldr demo_mem 0x01FFFF0c = 4"
  "ldr demo_mem 0x01FFFF10 = 0x01FFFFC0" "ldr demo_mem 0x01FC0004 = 0x01FC0080"
  "ldr demo_mem 0x01FC0008 = 0x01FC00C0" "ldr demo_mem 0x01FC000c = 4"
  by (simp_all add: demo_mem_def ldr_def str_def word_at_def Let_def word_rotr_0)

lemma demo_reads:
  "read_bytes demo_mem 0x01FFFF80 4 = [1, 2, 3, 4]"
  by (simp add: demo_mem_def str_def Let_def read_bytes_def upt_rec)

section \<open>Every reachable state\<close>

text \<open>C1: In every state the kernel can reach, whatever the tasks do: the ready queue is a well-formed
  queue of lists \<open>qs\<close>; a task is \<^verbatim>\<open>TS_READY\<close> or \<^verbatim>\<open>TS_BLOCKED\<close> exactly when it is in
  the ready queue or in an event queue, and then it is there once, at its own priority (no task that
  can run is ever lost or queued twice); the tasks in the send queues are receive blocked
  and in one send queue only; the free tids are those of the dead slots; a live task's tid has
  its slot's id.\<close>

theorem kernel_invariant:
  assumes "kreach s"
  shows "\<exists>qs. pq_rep (ks_tasks s) (ks_pq s) qs \<and>
    (\<forall>t<MAX_TASK. count (mset (concat qs) + mset (concat (im_lists (ks_im s)))) t =
       (if runnable (ks_tasks s ! t) then 1 else 0)) \<and>
    (\<forall>p<MAX_PRIORITY. \<forall>t\<in>set (qs ! p). td_priority (ks_tasks s ! t) = int p) \<and>
    distinct (map tid_ix (senders (ks_tasks s))) \<and>
    (\<forall>x\<in>set (senders (ks_tasks s)). td_status (ks_tasks s ! tid_ix x) = TS_RCV_BL) \<and>
    distinct (map tid_ix (tt_tids (ks_tids s))) \<and>
    set (map tid_ix (tt_tids (ks_tids s))) = {t. t < MAX_TASK \<and> \<not> live (ks_tasks s ! t)} \<and>
    (\<forall>t<MAX_TASK. live (ks_tasks s ! t) \<longrightarrow> tid_ix (td_tid (ks_tasks s ! t)) = t)"
proof -
  obtain qs where inv: "kinv s qs []" using kreach_kinv [OF assms] by blast
  note D = kinvD [OF inv]
  have "mset (concat qs) + mset (concat (im_lists (ks_im s))) =
      mset_set {t. t < MAX_TASK \<and> runnable (ks_tasks s ! t)}"
    using D(7) by (simp add: run_ok_def places_def)
  then show ?thesis
    using D by (intro exI [of _ qs]) (auto simp: prio_ok_def send_ok_def free_ok_def tasks_ok_def
        td_ok_def count_mset_set')
qed

lemma zero_start: "\<exists>s. initialize 0x00218000 zero_state = Some s \<and> kreach s"
  using initialize_ok [OF zero_state_typed] kreach.start [OF zero_state_typed] by blast

text \<open>The hypothesis holds in the state the kernel starts in.\<close>

theorem kernel_invariant_witness:
  "\<exists>s qs. initialize 0x00218000 zero_state = Some s \<and> pq_rep (ks_tasks s) (ks_pq s) qs"
  using zero_start kernel_invariant by blast

text \<open>C6: The scheduler returns the task that is first in the ready queue of the highest priority at
  which a task is ready, removes exactly that task and makes it the running task; when nothing is
  ready it returns \<^verbatim>\<open>NULL\<close> and changes nothing.\<close>

theorem schedule_highest:
  assumes "kreach s"
  shows "\<exists>qs. pq_rep (ks_tasks s) (ks_pq s) qs \<and>
    (if concat qs = [] then schedule s = Some (None, s)
     else \<exists>p t s'. schedule s = Some (Some t, s') \<and> p < MAX_PRIORITY \<and> qs ! p \<noteq> [] \<and>
       t = hd (qs ! p) \<and> (\<forall>j. p < j \<and> j < MAX_PRIORITY \<longrightarrow> qs ! j = []) \<and>
       pq_rep (ks_tasks s') (ks_pq s') (qs[p := tl (qs ! p)]) \<and> ks_running s' = Some t \<and>
       td_priority (ks_tasks s ! t) = int p \<and> runnable (ks_tasks s ! t))"
proof -
  obtain qs where inv: "kinv s qs []" using kreach_kinv [OF assms] by blast
  note D = kinvD [OF inv]
  have "\<exists>p t s'. schedule s = Some (Some t, s') \<and> p < MAX_PRIORITY \<and> qs ! p \<noteq> [] \<and>
       t = hd (qs ! p) \<and> (\<forall>j. p < j \<and> j < MAX_PRIORITY \<longrightarrow> qs ! j = []) \<and>
       pq_rep (ks_tasks s') (ks_pq s') (qs[p := tl (qs ! p)]) \<and> ks_running s' = Some t \<and>
       td_priority (ks_tasks s ! t) = int p \<and> runnable (ks_tasks s ! t)" if "concat qs \<noteq> []"
  proof -
    have "rq_pop qs \<noteq> None" using that rq_pop_None by blast
    then obtain t qs' where pop: "rq_pop qs = Some (t, qs')" by auto
    obtain s' where s': "schedule s = Some (Some t, s')" "kinv s' qs' [t]" "ks_running s' = Some t"
      "\<forall>i. same_but_next (ks_tasks s ! i) (ks_tasks s' ! i)"
      using schedule_ok [OF inv pop] by blast
    obtain p where p: "rq_top qs = Some p" "t = hd (qs ! p)" "qs' = qs[p := tl (qs ! p)]"
      using pop by (auto simp: rq_pop_Some)
    have "runnable (ks_tasks s ! t)"
      using kinv_cur(2) [OF s'(2)] s'(4) td_core_fields(6) [OF same_but_next_core] by blast
    then show ?thesis
      using p s' kinvD(2) [OF s'(2)] D(3) pq_repD(2) [OF D(2)]
      by (intro exI [of _ p] exI [of _ t] exI [of _ s']) (auto simp: rq_top_Some prio_ok_def)
  qed
  then show ?thesis using D(2) schedule_idle [OF inv] by (intro exI [of _ qs]) auto
qed

theorem schedule_highest_witness:
  "\<exists>s. initialize 0x00218000 zero_state = Some s \<and> schedule s \<noteq> None"
proof -
  obtain s where s: "initialize 0x00218000 zero_state = Some s" "kreach s" using zero_start by blast
  show ?thesis using s(1) schedule_highest [OF s(2)] by (auto split: if_splits)
qed

section \<open>Message passing\<close>

text \<open>Reading back what a delivery wrote.\<close>

lemma delivered_read:
  assumes "snd_len s t < 5000"
    and "addrs (rcv_msg s r) (snd_len s t) \<inter> addrs (snd_msg s t) (snd_len s t) = {}"
    and "addrs (rcv_tid s r AND NOT 3) 4 \<inter> addrs (rcv_msg s r) (snd_len s t) = {}"
  shows "read_bytes (delivered s t r) (rcv_msg s r) (snd_len s t) =
    read_bytes (ks_mem s) (snd_msg s t) (snd_len s t)"
proof -
  let ?n = "snd_len s t" and ?m = "copy_up (rcv_msg s r) (snd_msg s t) (snd_len s t) (ks_mem s)"
  have "delivered s t r x = ?m x" if "x \<in> addrs (rcv_msg s r) ?n" for x
  proof -
    let ?b = "rcv_tid s r AND NOT 3"
    have "?b + of_nat i \<in> addrs ?b 4" if "i < 4" for i using that by (auto simp: addrs_def)
    from this [of 0] this [of 1] this [of 2] this [of 3]
    have "x \<notin> {?b, ?b + 1, ?b + 2, ?b + 3}" using assms(3) that by auto
    then show ?thesis unfolding delivered_def by (rule str_other)
  qed
  then have "read_bytes (delivered s t r) (rcv_msg s r) ?n = read_bytes ?m (rcv_msg s r) ?n"
    by (auto simp: read_bytes_def addrs_def)
  then show ?thesis using copy_up_read [of ?n] assms(1,2) by simp
qed

lemma delivered_tid: "rcv_tid s r AND 3 = 0 \<Longrightarrow> ldr (delivered s t r) (rcv_tid s r) = td_tid (ks_tasks s ! t)"
  by (simp add: delivered_def ldr_str_aligned)

definition bufs_apart :: "kstate \<Rightarrow> nat \<Rightarrow> nat \<Rightarrow> bool" where
  "bufs_apart s t r \<longleftrightarrow> addrs (rcv_msg s r) (snd_len s t) \<inter> addrs (snd_msg s t) (snd_len s t) = {} \<and>
     addrs (rcv_tid s r AND NOT 3) 4 \<inter> addrs (rcv_msg s r) (snd_len s t) = {} \<and> rcv_tid s r AND 3 = 0"

lemma snd_len_bound: "snd_args_ok s t \<Longrightarrow> snd_len s t < 5000"
  by (auto simp: snd_args_ok_def snd_len_def)

text \<open>C2: Send to a receiver that waits in Receive. The handler returns with the message copied byte for
  byte from the sender's buffer to the receiver's, the sender's tid stored through the receiver's tid
  pointer, the receiver ready at the end of the queue of its priority, the sender reply blocked and
  every other task's status as before.\<close>

theorem send_delivers:
  assumes "kinv s qs [t]" "send_to s t = r" "r < MAX_TASK" "td_status (ks_tasks s ! r) = TS_SND_BL"
    and "snd_args_ok s t" "rcv_args_ok s r" "bufs_apart s t r"
  shows "\<exists>s'. send_handler t s = Some s' \<and>
    read_bytes (ks_mem s') (rcv_msg s r) (snd_len s t) = read_bytes (ks_mem s) (snd_msg s t) (snd_len s t) \<and>
    ldr (ks_mem s') (rcv_tid s r) = td_tid (ks_tasks s ! t) \<and>
    kinv s' (rq_push qs (nat (td_priority (ks_tasks s ! r))) r) [] \<and>
    (\<forall>i. td_status (ks_tasks s' ! i) = (if i = t then TS_RPL_BL else if i = r then TS_READY
       else td_status (ks_tasks s ! i)))"
  using send_waiting_ok [OF assms(1-6)] delivered_read [OF snd_len_bound [OF assms(5)]] delivered_tid
    assms(7) by (fastforce simp: bufs_apart_def)

lemma demo_exchange:
  assumes "length (ks_tasks s) = MAX_TASK" "ks_mem s = demo_mem"
    "td_sp (ks_tasks s ! 0) = 0x01FFFF00" "td_tid (ks_tasks s ! 0) = 0"
    "td_sp (ks_tasks s ! 1) = 0x01FC0000" "td_tid (ks_tasks s ! 1) = 1"
  shows "send_to s 0 = 1" "snd_args_ok s 0" "rcv_args_ok s 1" "bufs_apart s 0 1"
    "rcv_msg s 1 = 0x01FC00C0" "snd_len s 0 = 4" "snd_msg s 0 = 0x01FFFF80"
proof -
  show "send_to s 0 = 1" by (simp add: send_to_def arg_def assms demo_args unat_TID_ID del: One_nat_def)
  show m: "rcv_msg s 1 = 0x01FC00C0" "snd_len s 0 = 4" "snd_msg s 0 = 0x01FFFF80"
    by (simp_all add: msg_defs arg_def assms demo_args del: One_nat_def)
  have t: "rcv_tid s 1 = 0x01FC0080" by (simp add: msg_defs arg_def assms demo_args del: One_nat_def)
  have "TID_ID 0 = 0" "TID_ID 1 = 1" by (simp_all add: TID_ID_def)
  then show "snd_args_ok s 0" "rcv_args_ok s 1"
    by (simp_all add: snd_args_ok_def rcv_args_ok_def m t IS_VALID_USER_P_def assms USER_STACK_BASE_def
        USER_STACK_SIZE_def arg_def demo_args del: One_nat_def)
  show "bufs_apart s 0 1"
    unfolding bufs_apart_def m t by (simp add: addrs_def lessThan_nat_numeral lessThan_Suc)
qed

lemma demo_base:
  "length (ks_tasks (demo a b q m)) = MAX_TASK" "ks_mem (demo a b q m) = m"
  "td_sp (ks_tasks (demo a b q m) ! 0) = 0x01FFFF00" "td_tid (ks_tasks (demo a b q m) ! 0) = 0"
  "td_sp (ks_tasks (demo a b q m) ! 1) = 0x01FC0000" "td_tid (ks_tasks (demo a b q m) ! 1) = 1"
  by (simp_all add: demo_tasks) (simp_all add: demo_def)

theorem send_delivers_witness:
  "\<exists>s'. send_handler 0 (demo TS_READY TS_SND_BL [] demo_mem) = Some s' \<and>
    read_bytes (ks_mem s') 0x01FC00C0 4 = [1, 2, 3, 4]"
proof -
  let ?s = "demo TS_READY TS_SND_BL [] demo_mem"
  have "kinv ?s (replicate MAX_PRIORITY []) [0]" by (rule demo_kinv) simp_all
  moreover note demo_exchange [OF demo_base [of TS_READY TS_SND_BL "[]" demo_mem]]
  moreover have "td_status (ks_tasks ?s ! 1) = TS_SND_BL" by (simp add: demo_tasks)
  ultimately show ?thesis
    using send_delivers [of ?s "replicate MAX_PRIORITY []" 0 1] demo_reads
    by (simp add: demo_base del: One_nat_def) blast
qed

text \<open>C3: Receive with senders waiting. The handler takes the sender that has waited longest out of the send
  queue, leaving the others in their order, and delivers its message and tid; the receiver is ready
  again and that sender is reply blocked.\<close>

theorem receive_delivers:
  assumes "kinv s qs [t]" "send_list (ks_tasks s ! t) = x # xs"
    and "snd_args_ok s (tid_ix x)" "rcv_args_ok s t" "bufs_apart s (tid_ix x) t"
  shows "\<exists>s'. receive_handler t s = Some s' \<and> send_list (ks_tasks s' ! t) = xs \<and>
    read_bytes (ks_mem s') (rcv_msg s t) (snd_len s (tid_ix x)) =
      read_bytes (ks_mem s) (snd_msg s (tid_ix x)) (snd_len s (tid_ix x)) \<and>
    ldr (ks_mem s') (rcv_tid s t) = td_tid (ks_tasks s ! tid_ix x) \<and>
    kinv s' (rq_push qs (nat (td_priority (ks_tasks s ! t))) t) [] \<and>
    (\<forall>i. td_status (ks_tasks s' ! i) = (if i = tid_ix x then TS_RPL_BL else if i = t then TS_READY
       else td_status (ks_tasks s ! i)))"
  using receive_queued_ok [OF assms(1-4)] delivered_read [OF snd_len_bound [OF assms(3)]] delivered_tid
    assms(5) by (fastforce simp: bufs_apart_def)

theorem receive_delivers_witness:
  "\<exists>s'. receive_handler 1 (demo TS_RCV_BL TS_READY [0] demo_mem) = Some s' \<and>
    read_bytes (ks_mem s') 0x01FC00C0 4 = [1, 2, 3, 4] \<and> send_list (ks_tasks s' ! 1) = []"
proof -
  let ?s = "demo TS_RCV_BL TS_READY [0] demo_mem"
  have "kinv ?s (replicate MAX_PRIORITY []) [1]" by (rule demo_kinv) simp_all
  moreover note demo_exchange [OF demo_base [of TS_RCV_BL TS_READY "[0]" demo_mem]]
  moreover have "send_list (ks_tasks ?s ! 1) = [0]" using demo_td_queue(2) [of "[0]"] by (simp add: demo_tasks)
  moreover have "tid_ix 0 = 0" by (simp add: unat_TID_ID)
  ultimately show ?thesis
    using receive_delivers [of ?s "replicate MAX_PRIORITY []" 1 0 "[]"] demo_reads
    by (simp add: demo_base del: One_nat_def) blast
qed

text \<open>C7: It does not matter who comes first. Two states with the same memory in which tasks \<open>a\<close> and
  \<open>b\<close> have made the same calls, Send and Receive: in the first \<open>b\<close> is waiting and \<open>a\<close> sends, in
  the second \<open>a\<close> is first in \<open>b\<close>'s send queue and \<open>b\<close> receives. Both handlers return and leave the
  same memory, \<open>a\<close> reply blocked and \<open>b\<close> ready.\<close>

theorem rendezvous_order:
  assumes "kinv s1 qs1 [a]" "send_to s1 a = b" "b < MAX_TASK" "td_status (ks_tasks s1 ! b) = TS_SND_BL"
    and "kinv s2 qs2 [b]" "send_list (ks_tasks s2 ! b) = x # xs" "tid_ix x = a"
    and "ks_mem s2 = ks_mem s1"
    and "\<And>i. i \<in> {a, b} \<Longrightarrow> td_sp (ks_tasks s2 ! i) = td_sp (ks_tasks s1 ! i) \<and>
           td_tid (ks_tasks s2 ! i) = td_tid (ks_tasks s1 ! i)"
    and "snd_args_ok s1 a" "rcv_args_ok s1 b"
  shows "\<exists>s1' s2'. send_handler a s1 = Some s1' \<and> receive_handler b s2 = Some s2' \<and>
    ks_mem s1' = ks_mem s2' \<and>
    td_status (ks_tasks s1' ! a) = TS_RPL_BL \<and> td_status (ks_tasks s2' ! a) = TS_RPL_BL \<and>
    td_status (ks_tasks s1' ! b) = TS_READY \<and> td_status (ks_tasks s2' ! b) = TS_READY"
proof -
  have same: "snd_args_ok s2 a" "rcv_args_ok s2 b" "delivered s2 a b = delivered s1 a b"
    using assms(8-11) by (simp_all add: msg_defs arg_def)
  have ne: "a \<noteq> b" using kinv_cur(2) [OF assms(1)] assms(4) by (auto simp: runnable_def)
  obtain s1' where "send_handler a s1 = Some s1'" "ks_mem s1' = delivered s1 a b"
    "\<forall>i. td_status (ks_tasks s1' ! i) = (if i = a then TS_RPL_BL else if i = b then TS_READY
       else td_status (ks_tasks s1 ! i))"
    using send_waiting_ok [OF assms(1-4,10,11)] by blast
  moreover obtain s2' where "receive_handler b s2 = Some s2'" "ks_mem s2' = delivered s2 a b"
    "\<forall>i. td_status (ks_tasks s2' ! i) = (if i = a then TS_RPL_BL else if i = b then TS_READY
       else td_status (ks_tasks s2 ! i))"
    using receive_queued_ok [OF assms(5,6)] same(1,2) unfolding assms(7) by blast
  ultimately show ?thesis using same(3) ne by auto
qed

theorem rendezvous_order_witness:
  "\<exists>s1' s2'. send_handler 0 (demo TS_READY TS_SND_BL [] demo_mem) = Some s1' \<and>
    receive_handler 1 (demo TS_RCV_BL TS_READY [0] demo_mem) = Some s2' \<and> ks_mem s1' = ks_mem s2'"
proof -
  let ?s = "demo TS_READY TS_SND_BL [] demo_mem" and ?r = "demo TS_RCV_BL TS_READY [0] demo_mem"
  have "kinv ?s (replicate MAX_PRIORITY []) [0]" "kinv ?r (replicate MAX_PRIORITY []) [1]"
    by (rule demo_kinv; simp)+
  moreover note demo_exchange [OF demo_base [of TS_READY TS_SND_BL "[]" demo_mem]]
  moreover have "send_list (ks_tasks ?r ! 1) = [0]" using demo_td_queue(2) [of "[0]"] by (simp add: demo_tasks)
  moreover have "td_status (ks_tasks ?s ! 1) = TS_SND_BL" by (simp add: demo_tasks)
  moreover have "tid_ix 0 = 0" by (simp add: unat_TID_ID)
  moreover have "td_sp (ks_tasks ?r ! i) = td_sp (ks_tasks ?s ! i) \<and>
      td_tid (ks_tasks ?r ! i) = td_tid (ks_tasks ?s ! i)" if "i \<in> {0, 1}" for i
    using that by (auto simp: demo_base demo_tasks)
  ultimately show ?thesis
    using rendezvous_order [of ?s "replicate MAX_PRIORITY []" 0 1 ?r "replicate MAX_PRIORITY []" 0 "[]"]
    by (simp add: demo_base del: One_nat_def) blast
qed

text \<open>C4: Reply to a task that is reply blocked copies the reply byte for byte into the buffer the sender
  gave to Send, and makes both tasks ready: the sender enters the ready queue before the replier.\<close>

theorem reply_delivers:
  assumes "kinv s qs [t]" "send_to s t = st" "st < MAX_TASK" "td_status (ks_tasks s ! st) = TS_RPL_BL"
    and "td_status (ks_tasks s ! t) = TS_READY" "rpl_args_ok s t st"
    and "addrs (rpl_buf s st) (rpl_len s t) \<inter> addrs (rpl_msg s t) (rpl_len s t) = {}"
  shows "\<exists>s'. reply_handler t s = Some s' \<and>
    read_bytes (ks_mem s') (rpl_buf s st) (rpl_len s t) = read_bytes (ks_mem s) (rpl_msg s t) (rpl_len s t) \<and>
    kinv s' (rq_push (rq_push qs (nat (td_priority (ks_tasks s ! st))) st)
                     (nat (td_priority (ks_tasks s ! t))) t) [] \<and>
    (\<forall>i. td_status (ks_tasks s' ! i) = (if i = st then TS_READY else td_status (ks_tasks s ! i)))"
proof -
  have "rpl_len s t < 5000" using assms(6) by (auto simp: rpl_args_ok_def rpl_len_def)
  then show ?thesis
    using reply_ok [OF assms(1-6)] copy_up_read [of "rpl_len s t"] assms(7) by fastforce
qed

text \<open>Task 1 replies to task 0: at its stack pointer it has the tid 0, its reply and the length.\<close>

definition demo_reply_mem :: mem where
  "demo_reply_mem = str (str (str (str (str (\<lambda>_. 0)
     0x01FFFF10 0x01FFFFC0) 0x01FC0004 0) 0x01FC0008 0x01FC00C0) 0x01FC000c 4) 0x01FC00C0 0x08070605"

theorem reply_delivers_witness:
  "\<exists>s'. reply_handler 1 (demo TS_RPL_BL TS_READY [] demo_reply_mem) = Some s' \<and>
    read_bytes (ks_mem s') 0x01FFFFC0 4 = [5, 6, 7, 8]"
proof -
  let ?s = "demo TS_RPL_BL TS_READY [] demo_reply_mem"
  have a: "ldr demo_reply_mem 0x01FFFF10 = 0x01FFFFC0" "ldr demo_reply_mem 0x01FC0004 = 0"
    "ldr demo_reply_mem 0x01FC0008 = 0x01FC00C0" "ldr demo_reply_mem 0x01FC000c = 4"
    "read_bytes demo_reply_mem 0x01FC00C0 4 = [5, 6, 7, 8]"
    by (simp_all add: demo_reply_mem_def ldr_def str_def word_at_def Let_def word_rotr_0 read_bytes_def upt_rec)
  have "TID_ID 0 = 0" "TID_ID 1 = 1" by (simp_all add: TID_ID_def)
  note b = demo_base [of TS_RPL_BL TS_READY "[]" demo_reply_mem] this
  have v: "send_to ?s 1 = 0" "rpl_buf ?s 0 = 0x01FFFFC0" "rpl_len ?s 1 = 4" "rpl_msg ?s 1 = 0x01FC00C0"
    by (simp_all add: send_to_def rpl_buf_def rpl_len_def rpl_msg_def arg_def b a del: One_nat_def)
  have r: "rpl_args_ok ?s 1 0"
    by (simp add: rpl_args_ok_def v arg_def b a IS_VALID_USER_P_def USER_STACK_BASE_def
        USER_STACK_SIZE_def del: One_nat_def)
  have d: "addrs 0x01FFFFC0 4 \<inter> addrs 0x01FC00C0 4 = {}"
    by (simp add: addrs_def lessThan_nat_numeral lessThan_Suc)
  have "kinv ?s (replicate MAX_PRIORITY []) [1]" by (rule demo_kinv) simp_all
  moreover have "td_status (ks_tasks ?s ! 0) = TS_RPL_BL" "td_status (ks_tasks ?s ! 1) = TS_READY"
    by (simp_all add: demo_tasks)
  ultimately show ?thesis
    using reply_delivers [of ?s "replicate MAX_PRIORITY []" 1 0] v r d a(5) b(2)
    by (simp del: One_nat_def) blast
qed

text \<open>C9: No send queue ever overflows: a Send by the running task to any live task that is not waiting
  in Receive returns, with the sender's tid appended to the receiver's queue and the sender receive
  blocked, although the queue has room for only \<^verbatim>\<open>MAX_TASK\<close> tids and nothing checks who is in it.\<close>

theorem send_never_overflows:
  assumes "kinv s qs [t]" "send_to s t = r" "r < MAX_TASK" "live (ks_tasks s ! r)"
    and "td_status (ks_tasks s ! r) \<noteq> TS_SND_BL"
  shows "\<exists>s'. send_handler t s = Some s' \<and> kinv s' qs [] \<and> td_status (ks_tasks s' ! t) = TS_RCV_BL \<and>
    send_list (ks_tasks s' ! r) = send_list (ks_tasks s ! r) @ [td_tid (ks_tasks s ! t)] \<and>
    length (send_list (ks_tasks s' ! r)) \<le> MAX_TASK"
proof -
  obtain s' where s': "send_handler t s = Some s'" "kinv s' qs []" "td_status (ks_tasks s' ! t) = TS_RCV_BL"
    "send_list (ks_tasks s' ! r) = send_list (ks_tasks s ! r) @ [td_tid (ks_tasks s ! t)]"
    using send_queued_ok [OF assms(1-5)] assms(3) by auto
  then show ?thesis using send_queue_room [OF assms(1,3)] by auto
qed

theorem send_never_overflows_witness:
  "\<exists>s'. send_handler 0 (demo TS_READY TS_RPL_BL [] demo_mem) = Some s' \<and> send_list (ks_tasks s' ! 1) = [0]"
proof -
  let ?s = "demo TS_READY TS_RPL_BL [] demo_mem"
  have "kinv ?s (replicate MAX_PRIORITY []) [0]" by (rule demo_kinv) simp_all
  moreover note demo_exchange(1) [OF demo_base [of TS_READY TS_RPL_BL "[]" demo_mem]]
  moreover have "td_status (ks_tasks ?s ! 1) = TS_RPL_BL" by (simp add: demo_tasks)
  moreover have "send_list (ks_tasks ?s ! 1) = []" using demo_td_queue(2) [of "[]"] by (simp add: demo_tasks)
  ultimately show ?thesis
    using send_never_overflows [of ?s "replicate MAX_PRIORITY []" 0 1]
    by (simp add: demo_base live_def del: One_nat_def) blast
qed

section \<open>Creation\<close>

text \<open>C8: Create takes the free tid that has been free longest, gives it to a task in the tid's slot that
  has the requested priority and entry point, is ready at the end of its priority's queue, has an empty
  send queue and the creator as its parent, and whose saved registers end in the entry point, so
  that its first activation starts there; the creator gets the tid, and the other tasks are unchanged.\<close>

theorem create_task:
  assumes "kinv s qs [t]" "tt_tids (ks_tids s) = tid # tids" "0 \<le> sint tid"
    and "p = sint (arg s (ks_tasks s ! t) 4)" "0 \<le> p" "p < int MAX_PRIORITY"
  shows "\<exists>s'. create t s = Some s' \<and> kinv s' (rq_push qs (nat p) (tid_ix tid)) [t] \<and>
    tt_tids (ks_tids s') = tids \<and> td_ret (ks_tasks s' ! t) = tid \<and>
    td_tid (ks_tasks s' ! tid_ix tid) = tid \<and> td_status (ks_tasks s' ! tid_ix tid) = TS_READY \<and>
    td_priority (ks_tasks s' ! tid_ix tid) = p \<and> td_parent (ks_tasks s' ! tid_ix tid) = Some t \<and>
    send_list (ks_tasks s' ! tid_ix tid) = [] \<and>
    word_at (ks_mem s') (td_sp (ks_tasks s' ! tid_ix tid) + 56) = arg s (ks_tasks s ! t) 8 \<and>
    (\<forall>i. i \<noteq> tid_ix tid \<longrightarrow> td_core (ks_tasks s' ! i) = td_core (ks_tasks s ! i))"
  using create_ok [OF assms(1,2) _ assms(4)] assms(3,5,6) by (simp add: IS_VALID_PRIORITY_def)

theorem create_task_witness:
  "\<exists>s'. create 0 (demo TS_READY TS_SND_BL [] demo_mem) = Some s' \<and> td_tid (ks_tasks s' ! 2) = 2 \<and>
    td_priority (ks_tasks s' ! 2) = 1"
proof -
  let ?s = "demo TS_READY TS_SND_BL [] demo_mem"
  have inv: "kinv ?s (replicate MAX_PRIORITY []) [0]" by (rule demo_kinv) simp_all
  have up: "[2..<128] = 2 # [3..<128]" by (subst upt_conv_Cons) simp_all
  have tids: "tt_tids (ks_tids ?s) = 2 # map of_nat [3..<128]"
  proof -
    have "tt_tids (ks_tids ?s) = map of_nat [2..<128]"
      using cb_holding_wf [of "map of_nat [2..<128]" "0 :: u32"]
      by (simp add: demo_def tt_tids_def del: upt_rec_numeral)
    then show ?thesis unfolding up by (simp del: upt_rec_numeral)
  qed
  have p: "1 = sint (arg ?s (ks_tasks ?s ! 0) 4)"
    by (simp add: arg_def demo_base demo_args)
  have "tid_ix 2 = 2" by (simp add: unat_TID_ID)
  then show ?thesis
    using create_task [OF inv tids _ p] by (simp del: upt_rec_numeral) blast
qed

text \<open>Create does not return a task, in the debug build, when no tid is free, and also when the next free tid
  is negative: after 32768 lives of a slot its version reaches the sign bit, \<^verbatim>\<open>tid < 0\<close> takes the
  tid for the "out of tids" code and the slot is lost.\<close>

theorem create_out_of_tids:
  assumes "kinv s qs [t]"
    and "tt_tids (ks_tids s) = [] \<or> (\<exists>tids. tt_tids (ks_tids s) = tid # tids \<and> sint tid < 0)"
  shows "create t s = None"
  using create_fails [OF assms(1)] assms(2) by blast

text \<open>The state in which task 2's slot has been used 32768 times.\<close>

definition worn_state :: kstate where
  "worn_state = (demo TS_READY TS_SND_BL [] demo_mem)\<lparr>ks_tids :=
     \<lparr>tt_cb = cb_holding 0 (0x80000002 # map of_nat [3..<128])\<rparr>\<rparr>"

theorem create_fails_witness: "create 0 worn_state = None"
proof -
  let ?d = "demo TS_READY TS_SND_BL [] demo_mem"
  have inv: "kinv ?d (replicate MAX_PRIORITY []) [0]" by (rule demo_kinv) simp_all
  have up: "[2..<128] = 2 # [3..<128]" by (subst upt_conv_Cons) simp_all
  have old: "tt_tids (ks_tids ?d) = map of_nat [2..<128]"
    using cb_holding_wf [of "map of_nat [2..<128]" "0 :: u32"]
    by (simp add: demo_def tt_tids_def del: upt_rec_numeral)
  have new: "tt_tids (ks_tids worn_state) = 0x80000002 # map of_nat [3..<128]" "tt_wf (ks_tids worn_state)"
    using cb_holding_wf [of "0x80000002 # map of_nat [3..<128]" "0 :: u32"]
    by (simp_all add: worn_state_def tt_tids_def tt_wf_def del: upt_rec_numeral)
  have "tid_ix 0x80000002 = tid_ix 2" by (simp add: unat_TID_ID)
  then have "map tid_ix (tt_tids (ks_tids worn_state)) = map tid_ix (tt_tids (ks_tids ?d))"
    unfolding new(1) old up by (simp del: upt_rec_numeral)
  then have "free_ok (ks_tasks ?d) (tt_tids (ks_tids worn_state))"
    using kinvD(5) [OF inv] by (simp add: free_ok_def del: set_map)
  moreover have same: "ks_tasks worn_state = ks_tasks ?d" "ks_pq worn_state = ks_pq ?d" "ks_im worn_state = ks_im ?d"
    by (simp_all add: worn_state_def)
  ultimately have "kinv worn_state (replicate MAX_PRIORITY []) [0]"
    using inv new(2) by (simp only: kinv_def same)
  moreover have "sint (0x80000002 :: u32) < 0" by simp
  ultimately show ?thesis using create_out_of_tids new(1) by blast
qed

section \<open>Interrupts\<close>

text \<open>C5: An interrupt wakes the waiters of one event: the first in \<^verbatim>\<open>WakePriority\<close> that is pending (asserted
  in the hardware, or stored) and waited for. All its waiters enter the ready queue, each behind the ready tasks of its
  priority and in the order in which they came; the event's queue is empty and its flag 0
  afterwards. Pending events before it, which nobody waits for, are counted in their
  flags; no other queue or flag changes.\<close>

theorem event_wake_first:
  assumes "kinv s qs cur" "WakePriority = pre @ ie # post"
    and "pending ie s" "im_waiting (ks_im s) ie \<noteq> []"
    and "\<And>ie'. ie' \<in> set pre \<Longrightarrow> pending ie' s \<Longrightarrow> im_waiting (ks_im s) ie' = []"
  shows "\<exists>s'. event_wake s = Some s' \<and>
    kinv s' (wake_push (ks_tasks s) (im_waiting (ks_im s) ie) qs) cur \<and>
    (\<forall>ie'. im_waiting (ks_im s') ie' = (if ie' = ie then [] else im_waiting (ks_im s) ie')) \<and>
    (\<forall>ie'\<in>set im_events. ev_flag ie' s' = (if ie' = ie then 0
       else if ie' \<in> set pre \<and> pending ie' s then ev_flag ie' s + 1 else ev_flag ie' s))"
  using event_wake_loop_first [of "[]" pre ie post s qs cur] assms by (simp add: event_wake_def del: event_wake_loop.simps)

text \<open>Task 0 waits for the periodic timer, whose interrupt line is set.\<close>

definition waiting_state :: kstate where
  "waiting_state = (demo TS_READY TS_SND_BL [] demo_mem)\<lparr>ks_im := zero_im\<lparr>im_TC3UI := cb_holding 0 [0]\<rparr>,
     ks_io := (\<lambda>_. 0)(VIC2_BASE OR 0 := push_bit 19 1)\<rparr>"

lemma waiting_state_kinv: "kinv waiting_state (replicate MAX_PRIORITY []) []"
proof -
  let ?d = "demo TS_READY TS_SND_BL [] demo_mem"
  have inv: "kinv ?d (replicate MAX_PRIORITY []) [0]" by (rule demo_kinv) simp_all
  have same: "ks_tasks waiting_state = ks_tasks ?d" "ks_pq waiting_state = ks_pq ?d" "ks_tids waiting_state = ks_tids ?d"
    by (simp_all add: waiting_state_def)
  have im: "im_wf (ks_im waiting_state)"
    using cb_holding_wf [of "[0 :: nat]" 0]
    by (simp add: waiting_state_def im_wf_def im_cbs_def zero_im_def empty_cb_wf)
  have "concat (im_lists (ks_im waiting_state)) = [0]"
    using cb_holding_wf [of "[0 :: nat]" 0]
    by (simp add: waiting_state_def im_lists_def im_cbs_def zero_im_def empty_cb_wf)
  moreover have "concat (im_lists (ks_im ?d)) = []"
    by (simp add: demo_def zero_state_def zero_im_def im_cbs_def im_lists_def empty_cb_wf)
  ultimately have "places (replicate MAX_PRIORITY []) (ks_im waiting_state) [] =
      places (replicate MAX_PRIORITY []) (ks_im ?d) [0]"
    by (simp only: places_def) simp
  then show ?thesis using inv im unfolding kinv_def same by simp
qed

theorem event_wake_first_witness:
  "\<exists>s'. event_wake waiting_state = Some s' \<and> im_waiting (ks_im s') IE_TC3UI = [] \<and>
    kinv s' (rq_push (replicate MAX_PRIORITY []) 1 0) []"
proof -
  let ?s = waiting_state
  have w: "im_waiting (ks_im ?s) IE_TC3UI = [0]"
    using cb_holding_wf [of "[0 :: nat]" 0]
    by (simp add: waiting_state_def im_waiting_def im_queue_def zero_im_def)
  have "bit (push_bit 19 1 :: u32) 19" by (simp add: bit_exp_iff)
  then have p: "pending IE_TC3UI ?s"
    by (simp add: pending_def is_interrupt_asserted_def waiting_state_def)
  have none: "im_waiting (ks_im ?s) ie' = []" if "ie' \<in> {IE_UART2_TX, IE_UART2_RX, IE_TC1UI}" for ie'
    using that by (auto simp: waiting_state_def im_waiting_def im_queue_def zero_im_def empty_cb_wf)
  have pr: "td_priority (ks_tasks ?s ! 0) = 1" by (simp add: waiting_state_def demo_tasks)
  show ?thesis
    using event_wake_first [OF waiting_state_kinv, of "[IE_UART2_TX, IE_UART2_RX, IE_TC1UI]" IE_TC3UI
      "[IE_UART1_TX, IE_UART1_RX, IE_UART1_RT, IE_UART1_MI, IE_UART2_RT, IE_UART2_MI]"] w p none pr
    by (simp add: WakePriority_def) (metis (full_types))
qed

section \<open>Requests that cannot fail\<close>

lemma mod_td_total: "t < length (ks_tasks s) \<Longrightarrow> \<exists>s'. mod_td t f s = Some s'"
  by (simp add: mod_td_Some)

lemma ret_then_ready:
  assumes "kinv s qs (t # cur)"
  shows "\<exists>s1 s'. mod_td t (td_ret_update (\<lambda>_. v)) s = Some s1 \<and> k_ready t s1 = Some s'"
proof -
  obtain s1 where "mod_td t (td_ret_update (\<lambda>_. v)) s = Some s1" "kinv s1 qs (t # cur)"
    using set_ret_ok [OF assms kinv_cur(1) [OF assms], of v] by blast
  then show ?thesis using k_ready_ok by blast
qed

text \<open>The task list that \<^verbatim>\<open>TR_INFO_TASK\<close> prints is always produced.\<close>

lemma buf_pack_ui32_total: "\<exists>bs. buf_pack_ui32 u 10 = Some bs"
  using buf_pack_ui32_digits [of 10 u] by auto

lemma buf_pack_i32_total: "\<exists>bs. buf_pack_i32 i = Some bs"
  using buf_pack_ui32_total [of "- i"] buf_pack_ui32_total [of i] by (auto simp: buf_pack_i32_def)

lemma buf_pack_str_lit: "\<forall>c\<in>set cs. c \<noteq> 0 \<Longrightarrow> buf_pack_str (cs @ [0]) = Some cs"
  by (induction cs) (simp_all add: buf_pack_c_def)

lemma buf_pack_fmt_text:
  "\<forall>c\<in>set cs. c \<noteq> 0 \<and> c \<noteq> 37 \<Longrightarrow>
   buf_pack_fmt (cs @ [0]) va out = Some (out @ cs, int (length (out @ cs)))"
  by (induction cs arbitrary: out) (simp_all add: buf_pack_c_def)

lemma stat_text_total: "\<exists>bs. buf_pack_str (stat_text st) = Some bs"
  by (cases st) (simp_all add: TEXT_colour_def)

lemma info_row_total:
  "\<exists>r. buf_pack_f info_row [VInt i, VInt p, VStr (stat_text st)] = Some r"
proof -
  obtain a b c where "buf_pack_i32 i = Some a" "buf_pack_i32 p = Some b" "buf_pack_str (stat_text st) = Some c"
    using buf_pack_i32_total stat_text_total by blast
  then show ?thesis by (simp add: buf_pack_f_def info_row_def)
qed

lemma info_rows_total: "(\<And>i. i \<in> set is \<Longrightarrow> i < length ts) \<Longrightarrow> \<exists>bs. info_rows is ts = Some bs"
proof (induction "is")
  case (Cons i "is")
  then obtain bs where "info_rows is ts = Some bs" by auto
  moreover obtain r where "buf_pack_f info_row [VInt (of_nat i), VInt (word_of_int (td_priority (ts ! i))),
      VStr (stat_text (td_status (ts ! i)))] = Some r"
    using info_row_total by blast
  ultimately show ?case using Cons.prems by simp
qed simp

lemma info_head_total: "\<exists>b. buf_pack_str info_head = Some b"
  by (simp add: info_head_def)

lemma info_rule_total: "\<exists>b. buf_pack_f info_rule [] = Some b"
proof -
  have "buf_pack_fmt ((concat (replicate 21 [0xe2, 0x94, 0x80]) @ [10]) @ [0]) [] [] =
      Some ([] @ concat (replicate 21 [0xe2, 0x94, 0x80]) @ [10], int (length ([] @ concat (replicate 21 [0xe2, 0x94, 0x80 :: u8]) @ [10])))"
    by (rule buf_pack_fmt_text) auto
  then show ?thesis unfolding info_rule_def buf_pack_f_def append_assoc append.simps by blast
qed

lemma info_text_total: "length ts = MAX_TASK \<Longrightarrow> \<exists>bs. info_text ts = Some bs"
proof -
  assume "length ts = MAX_TASK"
  then obtain b3 where "info_rows [0..<MAX_TASK] ts = Some b3"
    using info_rows_total [of "[0..<MAX_TASK]" ts] by (auto simp only: set_upt atLeastLessThan_iff)
  moreover obtain b1 b2 where "buf_pack_str info_head = Some b1" "buf_pack_f info_rule [] = Some b2"
    using info_head_total info_rule_total by blast
  ultimately show ?thesis by (cases b2) (simp add: info_text_def del: upt_rec_numeral)
qed

text \<open>The requests that need nothing of their arguments, and the room that \<open>TR_INFO_TASK\<close> needs in its caller's stack.\<close>

definition safe_request :: "TaskRequest \<Rightarrow> bool" where
  "safe_request r \<longleftrightarrow> r \<in> {TR_IRQ, TR_PASS, TR_BLOCK, TR_MY_TID, TR_EXIT, TR_NS_GET, TR_INFO_NPROC, TR_INFO_MEM}"

definition info_fits :: "nat \<Rightarrow> kstate \<Rightarrow> bool" where
  "info_fits t s \<longleftrightarrow> (\<exists>bs. info_text (ks_tasks s) = Some bs \<and>
     in_stack (td_tid (ks_tasks s ! t)) (arg s (ks_tasks s ! t) 4) (length bs))"

text \<open>The requests that end by setting the caller's return value and making it ready again.\<close>

lemma returns_value:
  assumes "kinv s qs [t]" "\<And>s'. mod_td t (td_ret_update (\<lambda>_. v)) s \<bind> k_ready t = Some s' \<Longrightarrow> handle_run t req s = Some s'"
  shows "\<exists>s'. handle_run t req s = Some s'"
  using ret_then_ready [OF assms(1), of v] assms(2) by fastforce

lemma get_tid_returns:
  assumes "kinv s qs [t]"
  shows "\<exists>s'. handle_run t TR_MY_TID s = Some s'"
proof (rule returns_value [OF assms, of "td_tid (ks_tasks s ! t)"])
  have "get_tid t s = mod_td t (td_ret_update (\<lambda>_. td_tid (ks_tasks s ! t))) s"
    using kinv_cur(1) [OF assms] kinvD(9) [OF assms] by (simp add: get_tid_def mod_td_Some)
  then show "handle_run t TR_MY_TID s = Some s'"
    if "mod_td t (td_ret_update (\<lambda>_. td_tid (ks_tasks s ! t))) s \<bind> k_ready t = Some s'" for s'
    using that by (simp add: handle_run_def)
qed

lemma ns_get_returns:
  assumes "kinv s qs [t]"
  shows "\<exists>s'. handle_run t TR_NS_GET s = Some s'"
  by (rule returns_value [OF assms, of "ks_ns s"])
    (use kinv_cur(1,3) [OF assms] kinvD(9) [OF assms] in \<open>auto simp: handle_run_def ns_get_def live_def\<close>)

lemma wake_returns:
  assumes "kinv s qs [t]"
  shows "\<exists>s'. handle_run t TR_IRQ s = Some s'"
proof -
  obtain s1 qs1 where "event_wake s = Some s1" "kinv s1 qs1 [t]" using event_wake_ok [OF assms] by blast
  then show ?thesis using k_ready_ok by (fastforce simp: handle_run_def)
qed

lemma info_returns:
  assumes "kinv s qs [t]" "info_fits t s"
  shows "\<exists>s'. handle_run t TR_INFO_TASK s = Some s'"
proof -
  obtain v s1 where s1: "task_info t s = Some (v, s1)"
    using assms(2) kinv_cur(1) [OF assms(1)] kinvD(9) [OF assms(1)] by (auto simp: task_info_def info_fits_def Let_def)
  have "\<exists>s2 s'. mod_td t (td_ret_update (\<lambda>_. v)) s1 = Some s2 \<and> k_ready t s2 = Some s'"
    by (rule ret_then_ready [OF kinv_task_info [OF assms(1) s1]])
  then show ?thesis using s1 by (auto simp: handle_run_def set_ret_def)
qed

lemma safe_request_returns:
  assumes "kinv s qs [t]" "safe_request req"
  shows "\<exists>s'. handle_run t req s = Some s'"
proof -
  note C = kinv_cur [OF assms(1)] and D = kinvD [OF assms(1)]
  consider "req = TR_IRQ" | "req = TR_PASS" | "req = TR_BLOCK" | "req = TR_MY_TID" | "req = TR_EXIT"
    | "req = TR_NS_GET" | "req = TR_INFO_NPROC" | "req = TR_INFO_MEM"
    using assms(2) by (auto simp: safe_request_def)
  then show ?thesis
  proof cases
    case 2
    then show ?thesis using k_ready_ok [OF assms(1)] by (auto simp: handle_run_def)
  next
    case 3
    then show ?thesis
      using kinv_stay [OF assms(1), of TS_BLOCKED] k_ready_ok C(1) D(9)
      by (fastforce simp: handle_run_def mod_td_Some)
  next
    case 5
    then show ?thesis using kinv_exit [OF assms(1)] C(1) D(9) by (auto simp: handle_run_def mod_td_Some)
  next
    case 7
    show ?thesis unfolding 7
      by (rule returns_value [OF assms(1), of "of_nat MAX_TASK - cb_size (tt_cb (ks_tids s))"]) (simp add: handle_run_def set_ret_def)
  next
    case 8
    show ?thesis unfolding 8
      by (rule returns_value [OF assms(1), of "calc_mem_usage s"]) (simp add: handle_run_def set_ret_def)
  qed (use wake_returns get_tid_returns ns_get_returns assms(1) in blast)+
qed

text \<open>C10: The kernel handles a hardware interrupt, Pass, Block, MyTid, Exit, GetNS, the number of processes (NProcs)
  and the memory usage (MemUsage) without a failed \<^verbatim>\<open>KASSERT\<close> or a wild access, whatever is in memory and in the
  registers, in every state that satisfies the invariant; and the list of tasks (TaskInfo) too, if the text, whose length
  the code does not check, fits into the caller's stack from the pointer that the caller gives. The processor time is not
  among them: \<^verbatim>\<open>calc_cpu_time\<close> asserts something about the clock.\<close>

theorem requests_return:
  assumes "kinv s qs [t]" "safe_request req \<or> req = TR_INFO_TASK \<and> info_fits t s"
  shows "\<exists>s'. handle_run t req s = Some s'"
  using safe_request_returns [OF assms(1)] info_returns [OF assms(1)] assms(2) by blast

theorem requests_return_witness:
  "\<exists>s'. handle_run 0 TR_IRQ (demo TS_READY TS_SND_BL [] demo_mem) = Some s'"
proof (rule requests_return)
  show "kinv (demo TS_READY TS_SND_BL [] demo_mem) (replicate MAX_PRIORITY []) [0]"
    by (rule demo_kinv) simp_all
qed (simp add: safe_request_def)

text \<open>With no task ready the kernel never finds one again: as long as some task exists the main loop
  turns without activating anybody and without changing the state, whatever the devices do (it runs
  with interrupts off and looks at no device). The system needs a task that is always ready.\<close>

theorem idle_spins:
  assumes "kinv s qs []" "concat qs = []" "t < MAX_TASK" "live (ks_tasks s ! t)"
  shows "main_turn e s = Some (Running s)"
proof -
  note D = kinvD [OF assms(1)]
  let ?ids = "map tid_ix (tt_tids (ks_tids s))"
  have "distinct ?ids" "set ?ids \<subseteq> {..<MAX_TASK} - {t}"
    using D(5) assms(4) by (auto simp: free_ok_def simp del: set_map)
  then have "length ?ids \<le> card ({..<MAX_TASK} - {t})"
    by (metis card_mono distinct_card finite_Diff finite_lessThan)
  then have "length (tt_tids (ks_tids s)) < MAX_TASK" using assms(3) by simp
  then have "unat (cb_size (tt_cb (ks_tids s))) < MAX_TASK" by (simp add: tt_tids_def)
  then have "\<not> no_tasks s" by (auto simp: no_tasks_def)
  then show ?thesis using schedule_idle [OF assms(1,2)] by (simp add: main_turn_def)
qed

theorem idle_spins_witness: "\<forall>e. main_turn e waiting_state = Some (Running waiting_state)"
proof (intro allI, rule idle_spins [OF waiting_state_kinv])
  show "concat (replicate MAX_PRIORITY []) = []" by simp
  show "0 < MAX_TASK" by simp
  show "live (ks_tasks waiting_state ! 0)" by (simp add: waiting_state_def demo_tasks live_def)
qed

section \<open>Stacks\<close>

lemma unat_user_stack:
  assumes "tid_ix tid < MAX_TASK"
  shows "unat (user_stack tid) = 0x2000000 - tid_ix tid * 0x3c000"
proof -
  have "unat (TID_ID tid * USER_STACK_SIZE) = tid_ix tid * 0x3c000"
    using assms by (simp add: USER_STACK_SIZE_def unat_word_ariths)
  moreover have "TID_ID tid * USER_STACK_SIZE \<le> USER_STACK_BASE"
    using assms calculation by (simp add: word_le_nat_alt USER_STACK_BASE_def)
  ultimately show ?thesis by (simp add: user_stack_def unat_sub USER_STACK_BASE_def)
qed

text \<open>The stacks of tasks with different ids do not overlap, and all lie in memory
  above address 0x200000.\<close>

theorem stacks_disjoint:
  assumes "tid_ix a < MAX_TASK" "tid_ix b < MAX_TASK" "tid_ix a \<noteq> tid_ix b"
  shows "{unat (user_stack a) - unat USER_STACK_SIZE ..< unat (user_stack a)} \<inter>
      {unat (user_stack b) - unat USER_STACK_SIZE ..< unat (user_stack b)} = {} \<and>
    0x200000 + unat USER_STACK_SIZE \<le> unat (user_stack a)"
proof
  have s: "unat USER_STACK_SIZE = 0x3c000" by (simp add: USER_STACK_SIZE_def)
  show "0x200000 + unat USER_STACK_SIZE \<le> unat (user_stack a)"
    using assms(1) by (simp add: unat_user_stack s)
  consider "tid_ix a + 1 \<le> tid_ix b" | "tid_ix b + 1 \<le> tid_ix a" using assms(3) by linarith
  then show "{unat (user_stack a) - unat USER_STACK_SIZE ..< unat (user_stack a)} \<inter>
      {unat (user_stack b) - unat USER_STACK_SIZE ..< unat (user_stack b)} = {}"
    using assms(1,2) by cases (auto simp: unat_user_stack s)
qed

theorem stacks_disjoint_witness: "0x200000 + unat USER_STACK_SIZE \<le> unat (user_stack 5)"
  using stacks_disjoint [of 5 6] by (simp add: unat_TID_ID)

text \<open>The stack of the task with id 68 contains the top of the kernel's own stack: with more than 68
  tasks the kernel and a task write the same memory.\<close>

theorem stack_68_is_kernel_stack:
  "unat (user_stack 68) - unat USER_STACK_SIZE \<le> unat (KERNEL_STACK_BASE - 4096) \<and>
   unat KERNEL_STACK_BASE < unat (user_stack 68) \<and> tid_ix 68 < MAX_TASK"
  by (simp add: unat_user_stack unat_TID_ID USER_STACK_SIZE_def KERNEL_STACK_BASE_def)

end
