(* ===== verification/TrainQueue.thy ===== *)
theory TrainQueue
  imports Prelude
begin

text \<open>
  The priority queue of the path search, lib/train/priority_queue.c: a binary heap in an array,
  with a map from values to positions. The theorems show that it never loses or invents an
  element, that adding keeps the heap order, and that from a heap the first pop returns a
  minimum; and that popping does not keep the heap order, because it exchanges a node with its
  left child without looking whether the right one is smaller still.
\<close>

section \<open>The queue and its operations\<close>

abbreviation INT_MAX :: int where "INT_MAX \<equiv> 2147483647"
abbreviation MAX_TPQ_SIZE :: nat where "MAX_TPQ_SIZE \<equiv> 144"

(* src/include/lib/train/priority_queue.h:9-12 *)
record tp_queue_node =
  tq_priority :: int
  tq_val :: int

text \<open>\<^verbatim>\<open>map\<close> is never initialised: \<open>None\<close> is an indeterminate entry.\<close>

(* src/include/lib/train/priority_queue.h:14-18 *)
record tp_queue =
  tq_tree :: "tp_queue_node list"
  tq_map :: "int option list"
  tq_size :: int

(* src/src/lib/train/priority_queue.c:3-3 *)
definition tq_parent :: "int \<Rightarrow> int" where
  "tq_parent i = c_div (i - 1) 2"

(* src/src/lib/train/priority_queue.c:4-4 *)
definition tq_left :: "int \<Rightarrow> int" where
  "tq_left i = 2 * i + 1"

(* src/src/lib/train/priority_queue.c:5-5 *)
definition tq_right :: "int \<Rightarrow> int" where
  "tq_right i = 2 * i + 2"

(* src/src/lib/train/priority_queue.c:6-6 *)
definition tq_null :: "tp_queue_node \<Rightarrow> bool" where
  "tq_null n = (tq_priority n = INT_MAX)"

(* src/src/lib/train/priority_queue.c:9-16 *)
definition tpq_init :: "tp_queue \<Rightarrow> tp_queue option" where
  "tpq_init q = (if MAX_TPQ_SIZE \<le> length (tq_tree q)
     then Some (q\<lparr>tq_size := 0,
       tq_tree := replicate MAX_TPQ_SIZE \<lparr>tq_priority = INT_MAX, tq_val = 0\<rparr> @ drop MAX_TPQ_SIZE (tq_tree q)\<rparr>)
     else None)"

text \<open>The exchange of the nodes at \<open>i\<close> and \<open>p\<close> and of their entries in the map.\<close>

(* src/src/lib/train/priority_queue.c:32-37 *)
definition tq_swap :: "tp_queue \<Rightarrow> int \<Rightarrow> int \<Rightarrow> tp_queue option" where
  "tq_swap q i p = do {
     t \<leftarrow> agetz (tq_tree q) p;
     n \<leftarrow> agetz (tq_tree q) i;
     tr \<leftarrow> asetz (tq_tree q) p n;
     tr \<leftarrow> asetz tr i t;
     ni \<leftarrow> agetz tr i;
     m \<leftarrow> asetz (tq_map q) (tq_val ni) (Some i);
     np \<leftarrow> agetz tr p;
     m \<leftarrow> asetz m (tq_val np) (Some p);
     Some (q\<lparr>tq_tree := tr, tq_map := m\<rparr>) }"

lemma tq_parent_less: "0 < i \<Longrightarrow> 0 \<le> tq_parent i \<and> tq_parent i < i"
  by (simp add: tq_parent_def)

lemma tq_parent_0: "tq_parent 0 = 0"
  by (simp add: tq_parent_def c_div_def)

(* src/src/lib/train/priority_queue.c:30-41 *)
function tq_up :: "tp_queue \<Rightarrow> int \<Rightarrow> tp_queue option" where
  "tq_up q i =
     (let p = tq_parent i in
      if \<not> - 1 < p then Some q
      else do {
        np \<leftarrow> agetz (tq_tree q) p;
        ni \<leftarrow> agetz (tq_tree q) i;
        if tq_priority ni < tq_priority np
        then do { q \<leftarrow> tq_swap q i p; tq_up q p }
        else Some q })"
  by pat_completeness auto
termination
proof (relation "measure (\<lambda>(q, i). nat i)")
  fix q :: tp_queue and i p np ni q'
  assume *: "p = tq_parent i" "\<not> \<not> - 1 < p" "agetz (tq_tree q) p = Some np"
    "agetz (tq_tree q) i = Some ni" "tq_priority ni < tq_priority np"
  have "0 < i"
  proof (rule ccontr)
    assume "\<not> 0 < i"
    then have "i = 0" using *(4) by (auto simp: agetz_def split: if_splits)
    then show False using * by (simp add: tq_parent_0)
  qed
  then show "((q', p), q, i) \<in> measure (\<lambda>(q, i). nat i)"
    using tq_parent_less [of i] *(1) by simp
qed simp

declare tq_up.simps [simp del]

(* src/src/lib/train/priority_queue.c:19-45 *)
definition tpq_add :: "tp_queue \<Rightarrow> int \<Rightarrow> int \<Rightarrow> (int \<times> tp_queue) option" where
  "tpq_add q val priority = do {
     let i = tq_size q;
     tr \<leftarrow> asetz (tq_tree q) i \<lparr>tq_priority = priority, tq_val = val\<rparr>;
     m \<leftarrow> asetz (tq_map q) val (Some i);
     q \<leftarrow> tq_up (q\<lparr>tq_tree := tr, tq_map := m\<rparr>) i;
     Some (0, q\<lparr>tq_size := tq_size q + 1\<rparr>) }"

(* src/src/lib/train/priority_queue.c:62-84 *)
function tq_down :: "tp_queue \<Rightarrow> int \<Rightarrow> tp_queue option" where
  "tq_down q i =
     (let l = tq_left i; r = tq_right i in do {
        nl \<leftarrow> agetz (tq_tree q) l;
        ni \<leftarrow> agetz (tq_tree q) i;
        if tq_priority nl < tq_priority ni \<and> \<not> tq_null nl
        then do { q' \<leftarrow> tq_swap q i l; tq_down q' l }
        else do {
          nr \<leftarrow> agetz (tq_tree q) r;
          if tq_priority nr < tq_priority ni \<and> \<not> tq_null nr
          then do { q' \<leftarrow> tq_swap q i r; tq_down q' r }
          else Some q }})"
  by pat_completeness auto
termination
proof (relation "measure (\<lambda>(q, i). length (tq_tree q) - nat i)")
  have len: "length (tq_tree q') = length (tq_tree q)" if "tq_swap q i p = Some q'" for q i p q'
    using that by (auto simp: tq_swap_def fault_eq)
  show "((q', l), q, i) \<in> measure (\<lambda>(q, i). length (tq_tree q) - nat i)"
    if "l = tq_left i" "agetz (tq_tree q) l = Some nl" "agetz (tq_tree q) i = Some ni" "tq_swap q i l = Some q'"
    for q i l nl ni q'
    using that len [OF that(4)] by (auto simp: agetz_eq_Some tq_left_def)
  show "((q', r), q, i) \<in> measure (\<lambda>(q, i). length (tq_tree q) - nat i)"
    if "r = tq_right i" "agetz (tq_tree q) i = Some ni" "agetz (tq_tree q) r = Some nr" "tq_swap q i r = Some q'"
    for q i r nr ni q'
    using that len [OF that(4)] by (auto simp: agetz_eq_Some tq_right_def)
qed simp

declare tq_down.simps [simp del]

(* src/src/lib/train/priority_queue.c:48-89 *)
definition tpq_pop :: "tp_queue \<Rightarrow> (int \<times> tp_queue) option" where
  "tpq_pop q = do {
     ret \<leftarrow> agetz (tq_tree q) 0;
     let i = tq_size q - 1;
     n \<leftarrow> agetz (tq_tree q) i;
     tr \<leftarrow> asetz (tq_tree q) 0 n;
     tr \<leftarrow> asetz tr i \<lparr>tq_priority = INT_MAX, tq_val = 0\<rparr>;
     q \<leftarrow> tq_down (q\<lparr>tq_tree := tr\<rparr>) 0;
     Some (tq_val ret, q\<lparr>tq_size := tq_size q - 1\<rparr>) }"

(* src/src/lib/train/priority_queue.c:91-115 *)
definition tpq_dec_priority :: "tp_queue \<Rightarrow> int \<Rightarrow> int \<Rightarrow> (int \<times> tp_queue) option" where
  "tpq_dec_priority q val priority = do {
     mi \<leftarrow> agetz (tq_map q) val;
     i \<leftarrow> mi;
     n \<leftarrow> agetz (tq_tree q) i;
     tr \<leftarrow> asetz (tq_tree q) i (n\<lparr>tq_priority := priority\<rparr>);
     q \<leftarrow> tq_up (q\<lparr>tq_tree := tr\<rparr>) i;
     Some (0, q) }"

section \<open>The elements of a queue\<close>

text \<open>\<open>tq_inv n q\<close>: the first \<open>n\<close> places of the tree are taken, the others are null.\<close>

definition tq_inv :: "nat \<Rightarrow> tp_queue \<Rightarrow> bool" where
  "tq_inv n q \<longleftrightarrow> length (tq_tree q) = MAX_TPQ_SIZE \<and> length (tq_map q) = MAX_TPQ_SIZE \<and> n \<le> MAX_TPQ_SIZE \<and>
     (\<forall>k<MAX_TPQ_SIZE. 0 \<le> tq_val (tq_tree q ! k) \<and> tq_val (tq_tree q ! k) < int MAX_TPQ_SIZE \<and>
        (if k < n then tq_priority (tq_tree q ! k) < INT_MAX else tq_null (tq_tree q ! k)))"

definition tq_items :: "tp_queue \<Rightarrow> tp_queue_node multiset" where
  "tq_items q = filter_mset (\<lambda>n. \<not> tq_null n) (mset (tq_tree q))"

definition tpq_ok :: "tp_queue \<Rightarrow> bool" where
  "tpq_ok q \<longleftrightarrow> 0 \<le> tq_size q \<and> tq_inv (nat (tq_size q)) q"

definition tq_prio :: "tp_queue \<Rightarrow> nat \<Rightarrow> int" where
  "tq_prio q k = tq_priority (tq_tree q ! k)"

lemma tq_invD:
  assumes "tq_inv n q"
  shows "length (tq_tree q) = MAX_TPQ_SIZE" "length (tq_map q) = MAX_TPQ_SIZE" "n \<le> MAX_TPQ_SIZE"
    "k < MAX_TPQ_SIZE \<Longrightarrow> 0 \<le> tq_val (tq_tree q ! k) \<and> tq_val (tq_tree q ! k) < int MAX_TPQ_SIZE"
    "k < n \<Longrightarrow> tq_prio q k < INT_MAX" "n \<le> k \<Longrightarrow> k < MAX_TPQ_SIZE \<Longrightarrow> tq_prio q k = INT_MAX"
  using assms by (auto simp: tq_inv_def tq_prio_def tq_null_def split: if_splits)

lemma tq_swap_ok:
  assumes inv: "tq_inv n q" and i: "i < n" "p < n" "i \<noteq> p"
  shows "\<exists>q'. tq_swap q (int i) (int p) = Some q' \<and> tq_inv n q' \<and> tq_items q' = tq_items q \<and>
    tq_tree q' = (tq_tree q)[p := tq_tree q ! i, i := tq_tree q ! p] \<and> tq_size q' = tq_size q"
proof -
  note d = tq_invD [OF inv]
  have l: "i < MAX_TPQ_SIZE" "p < MAX_TPQ_SIZE" using i d(3) by auto
  let ?tr = "(tq_tree q)[p := tq_tree q ! i, i := tq_tree q ! p]"
  obtain m where m: "tq_swap q (int i) (int p) = Some (q\<lparr>tq_tree := ?tr, tq_map := m\<rparr>)" "length m = MAX_TPQ_SIZE"
    using l i d(1,2) d(4) [OF l(1)] d(4) [OF l(2)]
    by (auto simp: tq_swap_def agetz_in asetz_in nth_update_if nat_less_iff)
  have "tq_inv n (q\<lparr>tq_tree := ?tr, tq_map := m\<rparr>)"
    using inv i l m(2) by (auto simp: tq_inv_def nth_update_if)
  moreover have "mset ?tr = mset (tq_tree q)"
    using l d(1) by (simp add: mset_swap)
  ultimately show ?thesis using m by (auto simp: tq_items_def)
qed

lemma tq_prio_update:
  "tq_tree q' = (tq_tree q)[p := tq_tree q ! i, i := tq_tree q ! p] \<Longrightarrow> i < length (tq_tree q) \<Longrightarrow> p < length (tq_tree q) \<Longrightarrow>
   tq_prio q' k = (if k = i then tq_prio q p else if k = p then tq_prio q i else tq_prio q k)"
  by (simp add: tq_prio_def nth_update_if)

text \<open>The heap order: a node is not smaller than its parent, the position \<open>(k - 1) div 2\<close>.\<close>

definition tq_heap :: "nat \<Rightarrow> tp_queue \<Rightarrow> bool" where
  "tq_heap n q \<longleftrightarrow> (\<forall>k. 0 < k \<and> k < n \<longrightarrow> tq_prio q ((k - 1) div 2) \<le> tq_prio q k)"

lemma tq_heap_min: "tq_heap n q \<Longrightarrow> k < n \<Longrightarrow> tq_prio q 0 \<le> tq_prio q k"
proof (induction k rule: less_induct)
  case (less k)
  show ?case
  proof (cases "k = 0")
    case False
    then have "(k - 1) div 2 < k" "tq_prio q ((k - 1) div 2) \<le> tq_prio q k"
      using less.prems by (auto simp: tq_heap_def)
    then show ?thesis using less by force
  qed simp
qed

text \<open>Sifting up: the heap order may fail between position \<open>i\<close> and its parent only.\<close>

definition tq_heap_but :: "nat \<Rightarrow> nat \<Rightarrow> tp_queue \<Rightarrow> bool" where
  "tq_heap_but n i q \<longleftrightarrow>
     (\<forall>k. 0 < k \<and> k < n \<and> k \<noteq> i \<longrightarrow> tq_prio q ((k - 1) div 2) \<le> tq_prio q k) \<and>
     (\<forall>k. 0 < i \<and> 0 < k \<and> k < n \<and> (k - 1) div 2 = i \<longrightarrow> tq_prio q ((i - 1) div 2) \<le> tq_prio q k)"

lemma tq_parent_int: "0 < i \<Longrightarrow> tq_parent (int i) = int ((i - 1) div 2)"
  by (simp add: tq_parent_def zdiv_int of_nat_diff)

lemma tq_up_ok:
  "tq_inv n q \<Longrightarrow> i < n \<Longrightarrow>
   \<exists>q'. tq_up q (int i) = Some q' \<and> tq_inv n q' \<and> tq_items q' = tq_items q \<and> tq_size q' = tq_size q \<and>
     (tq_heap_but n i q \<longrightarrow> tq_heap n q')"
proof (induction i arbitrary: q rule: less_induct)
  case (less i)
  note d = tq_invD [OF less.prems(1)]
  have i: "i < MAX_TPQ_SIZE" using less.prems(2) d(3) by simp
  show ?case
  proof (cases "i = 0")
    case True
    then have "tq_up q (int i) = Some q"
      using d(1) by (simp add: tq_up.simps tq_parent_0 agetz_in)
    then show ?thesis using less.prems True by (auto simp: tq_heap_but_def tq_heap_def)
  next
    case False
    define p where "p = (i - 1) div 2"
    have p: "p < i" "tq_parent (int i) = int p" using False by (simp_all add: p_def tq_parent_int)
    have unf: "tq_up q (int i) = (if tq_prio q i < tq_prio q p then tq_swap q (int i) (int p) \<bind> (\<lambda>q. tq_up q (int p))
        else Some q)"
      using p i d(1) by (simp add: tq_up.simps [of q] agetz_in tq_prio_def Let_def)
    show ?thesis
    proof (cases "tq_prio q i < tq_prio q p")
      case lt: True
      obtain q1 where q1: "tq_swap q (int i) (int p) = Some q1" "tq_inv n q1" "tq_items q1 = tq_items q"
        "tq_tree q1 = (tq_tree q)[p := tq_tree q ! i, i := tq_tree q ! p]" "tq_size q1 = tq_size q"
        using tq_swap_ok [OF less.prems(1,2), of p] p less.prems(2) by auto
      have pr: "tq_prio q1 k = (if k = i then tq_prio q p else if k = p then tq_prio q i else tq_prio q k)" for k
        using tq_prio_update [OF q1(4)] i p d(1) by simp
      have "tq_heap_but n p q1" if h: "tq_heap_but n i q"
        unfolding tq_heap_but_def
      proof (intro conjI allI impI; elim conjE)
        have ord: "tq_prio q ((k - 1) div 2) \<le> tq_prio q k" if "0 < k" "k < n" "k \<noteq> i" for k
          using h that by (simp add: tq_heap_but_def)
        have chd: "tq_prio q p \<le> tq_prio q k" if "0 < k" "k < n" "(k - 1) div 2 = i" for k
          using h that False by (auto simp: tq_heap_but_def p_def)
        show "tq_prio q1 ((k - 1) div 2) \<le> tq_prio q1 k" if "0 < k" "k < n" "k \<noteq> p" for k
        proof -
          consider "k = i" | "k \<noteq> i" "(k - 1) div 2 = i" | "k \<noteq> i" "(k - 1) div 2 = p"
            | "k \<noteq> i" "(k - 1) div 2 \<noteq> i" "(k - 1) div 2 \<noteq> p" by blast
          then show ?thesis
          proof cases
            case 1
            then show ?thesis using pr p_def lt p(1) by simp
          next
            case 2
            then show ?thesis using pr chd that p(1) by simp
          next
            case 3
            then show ?thesis using pr ord [of k] that lt by simp
          next
            case 4
            then show ?thesis using pr ord [of k] that by simp
          qed
        qed
        show "tq_prio q1 ((p - 1) div 2) \<le> tq_prio q1 k" if "0 < p" "0 < k" "k < n" "(k - 1) div 2 = p" for k
        proof -
          have "tq_prio q ((p - 1) div 2) \<le> tq_prio q p" using ord [of p] that(1) p(1) less.prems(2) by simp
          moreover have "(p - 1) div 2 \<noteq> p" "(p - 1) div 2 \<noteq> i" "k \<noteq> p" using that p(1) by auto
          moreover have "k \<noteq> i \<Longrightarrow> tq_prio q p \<le> tq_prio q k" using ord [of k] that by simp
          ultimately show ?thesis using pr by auto
        qed
      qed
      then show ?thesis
        using less.IH [OF p(1) q1(2)] p(1) less.prems(2) q1(1,3,5) unf lt by auto
    next
      case nlt: False
      have "tq_heap n q" if "tq_heap_but n i q"
        using that nlt by (auto simp: tq_heap_but_def tq_heap_def p_def)
      then show ?thesis using unf nlt less.prems by auto
    qed
  qed
qed

section \<open>Adding and popping\<close>

lemma tq_items_update:
  "length (tq_tree q) = MAX_TPQ_SIZE \<Longrightarrow> k < MAX_TPQ_SIZE \<Longrightarrow>
   filter_mset (\<lambda>n. \<not> tq_null n) (mset ((tq_tree q)[k := x])) =
     (if tq_null x then {#} else {#x#}) + (tq_items q - (if tq_null (tq_tree q ! k) then {#} else {#tq_tree q ! k#}))"
  by (simp add: tq_items_def mset_update filter_diff_mset)

lemma tpq_add_ok:
  assumes ok: "tpq_ok q" and room: "tq_size q < int MAX_TPQ_SIZE"
    and v: "0 \<le> v" "v < int MAX_TPQ_SIZE" and p: "p < INT_MAX"
  shows "\<exists>q'. tpq_add q v p = Some (0, q') \<and> tpq_ok q' \<and> tq_size q' = tq_size q + 1 \<and>
    tq_items q' = add_mset \<lparr>tq_priority = p, tq_val = v\<rparr> (tq_items q) \<and>
    (tq_heap (nat (tq_size q)) q \<longrightarrow> tq_heap (nat (tq_size q')) q')"
proof -
  obtain n where n: "tq_size q = int n" using ok by (metis tpq_ok_def nonneg_int_cases)
  then have inv: "tq_inv n q" and nl: "n < MAX_TPQ_SIZE" using ok room by (simp_all add: tpq_ok_def)
  note d = tq_invD [OF inv]
  let ?x = "\<lparr>tq_priority = p, tq_val = v\<rparr>"
  define q1 where "q1 = q\<lparr>tq_tree := (tq_tree q)[n := ?x], tq_map := (tq_map q)[nat v := Some (int n)]\<rparr>"
  have inv1: "tq_inv (Suc n) q1"
    using inv nl v p by (auto simp: tq_inv_def q1_def nth_update_if tq_null_def split: if_splits)
  have items1: "tq_items q1 = add_mset ?x (tq_items q)"
    using tq_items_update [OF d(1) nl, of ?x] d(6) [of n] nl p
    by (simp add: q1_def tq_items_def tq_null_def tq_prio_def)
  have heap1: "tq_heap_but (Suc n) n q1" if "tq_heap n q"
    using that nl d(1) by (auto simp: tq_heap_but_def tq_heap_def tq_prio_def q1_def nth_update_if)
  obtain q2 where q2: "tq_up q1 (int n) = Some q2" "tq_inv (Suc n) q2" "tq_items q2 = tq_items q1"
    "tq_size q2 = tq_size q1" "tq_heap_but (Suc n) n q1 \<longrightarrow> tq_heap (Suc n) q2"
    using tq_up_ok [OF inv1, of n] by auto
  let ?q' = "q2\<lparr>tq_size := tq_size q2 + 1\<rparr>"
  have "tpq_add q v p = Some (0, ?q')"
    using n nl v d(1,2) q2(1) by (simp add: tpq_add_def asetz_in q1_def nat_less_iff)
  moreover have "nat (tq_size ?q') = Suc n" "tq_size ?q' = tq_size q + 1"
    using q2(4) n by (simp_all add: q1_def)
  moreover have "tq_inv (Suc n) ?q'" "tq_items ?q' = tq_items q2" "tq_heap (Suc n) ?q' = tq_heap (Suc n) q2"
    using q2(2) by (simp_all add: tq_inv_def tq_items_def tq_heap_def tq_prio_def)
  ultimately show ?thesis
    using q2 items1 heap1 n by (auto simp: tpq_ok_def)
qed

lemma tq_down_ok:
  "tq_inv n q \<Longrightarrow> n \<le> 71 \<Longrightarrow> i < n \<or> i = 0 \<Longrightarrow>
   \<exists>q'. tq_down q (int i) = Some q' \<and> tq_inv n q' \<and> tq_items q' = tq_items q \<and> tq_size q' = tq_size q"
proof (induction "MAX_TPQ_SIZE - i" arbitrary: i q rule: less_induct)
  case (less i q)
  note d = tq_invD [OF less.prems(1)]
  have b: "2 * i + 2 < MAX_TPQ_SIZE" using less.prems(2,3) by auto
  define l r where "l = 2 * i + 1" and "r = 2 * i + 2"
  have lr: "tq_left (int i) = int l" "tq_right (int i) = int r" "l < MAX_TPQ_SIZE" "r < MAX_TPQ_SIZE" "i < MAX_TPQ_SIZE"
    using b by (simp_all add: l_def r_def tq_left_def tq_right_def)
  have child: "c < n" if "tq_prio q c < INT_MAX" "c < MAX_TPQ_SIZE" for c
    using d(6) [of c] that by (cases "n \<le> c") auto
  have null: "tq_null (tq_tree q ! c) \<longleftrightarrow> tq_prio q c = INT_MAX" for c
    by (simp add: tq_null_def tq_prio_def)
  have unf: "tq_down q (int i) =
     (if tq_prio q l < tq_prio q i \<and> tq_prio q l \<noteq> INT_MAX then tq_swap q (int i) (int l) \<bind> (\<lambda>q. tq_down q (int l))
      else if tq_prio q r < tq_prio q i \<and> tq_prio q r \<noteq> INT_MAX then tq_swap q (int i) (int r) \<bind> (\<lambda>q. tq_down q (int r))
      else Some q)"
    using lr d(1) by (simp add: tq_down.simps [of q] agetz_in Let_def null) (simp add: tq_prio_def)
  have step: "\<exists>q'. (tq_swap q (int i) (int c) \<bind> (\<lambda>q. tq_down q (int c))) = Some q' \<and> tq_inv n q' \<and>
      tq_items q' = tq_items q \<and> tq_size q' = tq_size q"
    if c: "i < c" "c < MAX_TPQ_SIZE" "tq_prio q c < tq_prio q i" "tq_prio q c \<noteq> INT_MAX" for c
  proof -
    have "tq_prio q c \<le> INT_MAX"
      using d(5) [of c] d(6) [of c] c(2) by (cases "c < n") auto
    then have cn: "c < n" using child c(2,4) by simp
    obtain q1 where q1: "tq_swap q (int i) (int c) = Some q1" "tq_inv n q1" "tq_items q1 = tq_items q"
      "tq_size q1 = tq_size q"
      using tq_swap_ok [OF less.prems(1), of i c] c(1) cn by auto
    show ?thesis
      using less.hyps [OF _ q1(2) less.prems(2), of c] c(1,2) cn q1 by auto
  qed
  show ?case
    unfolding unf using step [of l] step [of r] lr(3,4) less.prems by (auto simp: l_def r_def)
qed

lemma tpq_pop_ok:
  assumes ok: "tpq_ok q" and n: "0 < tq_size q" "tq_size q \<le> 72"
  shows "\<exists>x q'. tpq_pop q = Some (tq_val x, q') \<and> tpq_ok q' \<and> tq_size q' = tq_size q - 1 \<and>
    x \<in># tq_items q \<and> tq_items q' = tq_items q - {#x#} \<and>
    (tq_heap (nat (tq_size q)) q \<longrightarrow> (\<forall>y \<in># tq_items q. tq_priority x \<le> tq_priority y))"
proof -
  define n where "n = nat (tq_size q) - 1"
  have sz: "tq_size q = int (Suc n)" "n \<le> 71" using n by (simp_all add: n_def)
  then have inv: "tq_inv (Suc n) q" using ok by (simp add: tpq_ok_def nat_add_distrib)
  note d = tq_invD [OF inv]
  let ?x = "tq_tree q ! 0" and ?null = "\<lparr>tq_priority = INT_MAX, tq_val = 0\<rparr>"
  define q1 where "q1 = q\<lparr>tq_tree := (tq_tree q)[0 := tq_tree q ! n, n := ?null]\<rparr>"
  have inv1: "tq_inv n q1"
    using inv sz(2) by (auto simp: tq_inv_def q1_def nth_update_if tq_null_def)
  have nn: "\<not> tq_null (tq_tree q ! k)" if "k < Suc n" for k
    using d(5) [OF that] by (simp add: tq_null_def tq_prio_def)
  have mem: "tq_tree q ! k \<in># tq_items q" if "k < Suc n" for k
    using nn [OF that] that d(1) sz(2) by (simp add: tq_items_def)
  have items1: "tq_items q1 = tq_items q - {#?x#}"
  proof (cases "n = 0")
    case True
    then show ?thesis
      using tq_items_update [OF d(1), of 0 ?null] nn [of 0] by (simp add: q1_def tq_items_def tq_null_def)
  next
    case False
    let ?q0 = "q\<lparr>tq_tree := (tq_tree q)[0 := tq_tree q ! n]\<rparr>"
    have 0: "tq_items ?q0 = add_mset (tq_tree q ! n) (tq_items q - {#?x#})"
      using tq_items_update [OF d(1), of 0 "tq_tree q ! n"] nn [of 0] nn [of n] by (simp add: tq_items_def)
    show ?thesis
      using tq_items_update [of ?q0 n ?null] d(1) sz(2) nn [of n] False 0
      by (simp add: q1_def tq_items_def tq_null_def)
  qed
  obtain q2 where q2: "tq_down q1 (int 0) = Some q2" "tq_inv n q2" "tq_items q2 = tq_items q1" "tq_size q2 = tq_size q1"
    using tq_down_ok [OF inv1 sz(2), of 0] by auto
  let ?q' = "q2\<lparr>tq_size := tq_size q2 - 1\<rparr>"
  have "tpq_pop q = Some (tq_val ?x, ?q')"
    using sz d(1) q2(1) by (simp add: tpq_pop_def agetz_in asetz_in q1_def)
  moreover have "tq_size ?q' = int n" using q2(4) sz(1) by (simp add: q1_def)
  moreover have "tq_inv n ?q'" "tq_items ?q' = tq_items q2" using q2(2) by (simp_all add: tq_inv_def tq_items_def)
  moreover have "tq_priority ?x \<le> tq_priority y" if "tq_heap (Suc n) q" "y \<in># tq_items q" for y
  proof -
    from that(2) obtain k where k: "k < MAX_TPQ_SIZE" "y = tq_tree q ! k" "\<not> tq_null y"
      using d(1) by (auto simp: tq_items_def in_set_conv_nth)
    then have "k < Suc n" using d(6) [of k] by (cases "k < Suc n") (auto simp: tq_null_def tq_prio_def)
    then show ?thesis using tq_heap_min [OF that(1)] k(2) by (simp add: tq_prio_def)
  qed
  ultimately show ?thesis
    using q2 items1 mem [of 0] sz(1) by (intro exI [of _ ?x] exI [of _ ?q']) (auto simp: tpq_ok_def nat_add_distrib)
qed

lemma tpq_init_ok:
  assumes "length (tq_tree q) = MAX_TPQ_SIZE" "length (tq_map q) = MAX_TPQ_SIZE"
  shows "\<exists>q'. tpq_init q = Some q' \<and> tpq_ok q' \<and> tq_size q' = 0 \<and> tq_items q' = {#} \<and> tq_heap 0 q'"
  using assms by (auto simp: tpq_init_def tpq_ok_def tq_inv_def tq_items_def tq_heap_def tq_null_def)

section \<open>The contract the path search relies on\<close>

text \<open>A bag of prioritised values with a capacity: an addition puts one element in while there is
  room, a pop takes some element out as long as the bag is not too large to be popped.\<close>

locale work_bag =
  fixes cap :: int and safe :: int
    and ok :: "'q \<Rightarrow> bool" and qsize :: "'q \<Rightarrow> int" and items :: "'q \<Rightarrow> tp_queue_node multiset"
    and add :: "'q \<Rightarrow> int \<Rightarrow> int \<Rightarrow> (int \<times> 'q) option" and pop :: "'q \<Rightarrow> (int \<times> 'q) option"
  assumes size_items: "ok q \<Longrightarrow> qsize q = int (size (items q))"
    and add_law: "ok q \<Longrightarrow> qsize q < cap \<Longrightarrow> 0 \<le> v \<Longrightarrow> v < cap \<Longrightarrow> p < INT_MAX \<Longrightarrow>
      \<exists>q'. add q v p = Some (0, q') \<and> ok q' \<and> items q' = add_mset \<lparr>tq_priority = p, tq_val = v\<rparr> (items q)"
    and pop_law: "ok q \<Longrightarrow> 0 < qsize q \<Longrightarrow> qsize q \<le> safe \<Longrightarrow>
      \<exists>x q'. pop q = Some (tq_val x, q') \<and> ok q' \<and> x \<in># items q \<and> items q' = items q - {#x#}"
begin

definition vals :: "'q \<Rightarrow> int multiset" where
  "vals q = image_mset tq_val (items q)"

lemma size_vals: "ok q \<Longrightarrow> qsize q = int (size (vals q))"
  by (simp add: size_items vals_def)

lemma add_vals: "ok q \<Longrightarrow> qsize q < cap \<Longrightarrow> 0 \<le> v \<Longrightarrow> v < cap \<Longrightarrow> p < INT_MAX \<Longrightarrow>
    \<exists>q'. add q v p = Some (0, q') \<and> ok q' \<and> vals q' = add_mset v (vals q)"
  using add_law [of q v p] by (auto simp: vals_def)

lemma pop_vals: "ok q \<Longrightarrow> 0 < qsize q \<Longrightarrow> qsize q \<le> safe \<Longrightarrow>
    \<exists>v q'. pop q = Some (v, q') \<and> ok q' \<and> v \<in># vals q \<and> vals q' = vals q - {#v#}"
  using pop_law [of q] by (auto simp: vals_def image_mset_Diff)

end

lemma tq_size_items: "tpq_ok q \<Longrightarrow> tq_size q = int (size (tq_items q))"
proof -
  assume ok: "tpq_ok q"
  define n where "n = nat (tq_size q)"
  have inv: "tq_inv n q" and n: "tq_size q = int n" using ok by (simp_all add: tpq_ok_def n_def)
  note d = tq_invD [OF inv]
  have "size (tq_items q) = length (filter (\<lambda>n. \<not> tq_null n) (tq_tree q))"
    by (simp add: tq_items_def flip: size_mset)
  also have "\<dots> = card {k. k < length (tq_tree q) \<and> \<not> tq_null (tq_tree q ! k)}"
    by (rule length_filter_conv_card)
  also have "{k. k < length (tq_tree q) \<and> \<not> tq_null (tq_tree q ! k)} = {..<n}"
    using d by (force simp: tq_null_def tq_prio_def not_less [symmetric])
  finally show ?thesis using n by simp
qed

interpretation tqb: work_bag "int MAX_TPQ_SIZE" 72 tpq_ok tq_size tq_items tpq_add tpq_pop
proof unfold_locales
  fix q :: tp_queue
  show "tq_size q = int (size (tq_items q))" if "tpq_ok q"
    using tq_size_items [OF that] .
  show "\<exists>q'. tpq_add q v p = Some (0, q') \<and> tpq_ok q' \<and> tq_items q' = add_mset \<lparr>tq_priority = p, tq_val = v\<rparr> (tq_items q)"
    if "tpq_ok q" "tq_size q < int MAX_TPQ_SIZE" "0 \<le> v" "v < int MAX_TPQ_SIZE" "p < INT_MAX" for v p
    using tpq_add_ok [OF that] by blast
  show "\<exists>x q'. tpq_pop q = Some (tq_val x, q') \<and> tpq_ok q' \<and> x \<in># tq_items q \<and> tq_items q' = tq_items q - {#x#}"
    if "tpq_ok q" "0 < tq_size q" "tq_size q \<le> 72"
    using tpq_pop_ok [OF that] by blast
qed

section \<open>What the queue does\<close>

definition tq_new :: tp_queue where
  "tq_new = \<lparr>tq_tree = replicate 144 \<lparr>tq_priority = 0, tq_val = 0\<rparr>, tq_map = replicate 144 None, tq_size = 0\<rparr>"

text \<open>The queue is a bag: while it has fewer than 144 elements \<^verbatim>\<open>tpq_add\<close> inserts the value with
  its priority and nothing else, and keeps a heap a heap; while it has 1 to 72 \<^verbatim>\<open>tpq_pop\<close> reads
  inside the tree and removes exactly one of the elements, whose value it returns. If the tree is a
  heap, that element has the least priority.\<close>

theorem train_queue_bag:
  assumes "tpq_ok q"
  shows "(tq_size q < int MAX_TPQ_SIZE \<and> 0 \<le> v \<and> v < int MAX_TPQ_SIZE \<and> p < INT_MAX \<longrightarrow>
      (\<exists>q'. tpq_add q v p = Some (0, q') \<and> tpq_ok q' \<and> tq_size q' = tq_size q + 1 \<and>
        tq_items q' = add_mset \<lparr>tq_priority = p, tq_val = v\<rparr> (tq_items q) \<and>
        (tq_heap (nat (tq_size q)) q \<longrightarrow> tq_heap (nat (tq_size q')) q'))) \<and>
    (0 < tq_size q \<and> tq_size q \<le> 72 \<longrightarrow>
      (\<exists>x q'. tpq_pop q = Some (tq_val x, q') \<and> tpq_ok q' \<and> tq_size q' = tq_size q - 1 \<and>
        x \<in># tq_items q \<and> tq_items q' = tq_items q - {#x#} \<and>
        (tq_heap (nat (tq_size q)) q \<longrightarrow> (\<forall>y \<in># tq_items q. tq_priority x \<le> tq_priority y))))"
  using tpq_add_ok [OF assms] tpq_pop_ok [OF assms] by blast

theorem train_queue_bag_witness:
  "\<exists>q0 q. tpq_init tq_new = Some q0 \<and> tpq_add q0 7 100 = Some (0, q) \<and>
     tq_items q = {#\<lparr>tq_priority = 100, tq_val = 7\<rparr>#}"
proof -
  obtain q0 where q0: "tpq_init tq_new = Some q0" "tpq_ok q0" "tq_size q0 = 0" "tq_items q0 = {#}"
    using tpq_init_ok [of tq_new] by (auto simp: tq_new_def)
  then show ?thesis
    using train_queue_bag [OF q0(2), of 7 100] by auto
qed

text \<open>The queue is not a priority queue: with the priorities 1, 3, 2 and 5 added in this order,
  three pops return the values of 1, 3 and 2. The first pop moves 5 to the root and exchanges it
  with its left child 3, although the right child 2 is smaller.\<close>

theorem train_queue_pops_out_of_order:
  "do { q \<leftarrow> tpq_init tq_new;
        (_, q) \<leftarrow> tpq_add q 10 1; (_, q) \<leftarrow> tpq_add q 30 3; (_, q) \<leftarrow> tpq_add q 20 2; (_, q) \<leftarrow> tpq_add q 50 5;
        (a, q) \<leftarrow> tpq_pop q; (b, q) \<leftarrow> tpq_pop q; (c, q) \<leftarrow> tpq_pop q; Some [a, b, c] } = Some [10, 30, 20]"
  by (simp add: tq_new_def tpq_init_def tpq_add_def tq_up.simps tq_swap_def tpq_pop_def tq_down.simps
      tq_parent_def c_div_def tq_left_def tq_right_def tq_null_def nth_update_if index_numeral
      cong: bind_weak_cong if_weak_cong)

end
