(* ===== verification/TrackData.thy ===== *)
theory TrackData
  imports BufferPack
begin

text \<open>
  The track graph: include/lib/train/track_node.h and lib/train/track_data.c. A track is the array
  of its \<open>TRACK_MAX\<close> nodes. A \<^verbatim>\<open>track_node *\<close> into it is the node's index, \<open>None\<close> for \<^verbatim>\<open>NULL\<close>; a
  \<^verbatim>\<open>track_edge *\<close> is the index of the node that owns the edge and the edge's place in
  \<^verbatim>\<open>edge[2]\<close>. The tables of \<^verbatim>\<open>init_tracka\<close> and \<^verbatim>\<open>init_trackb\<close> are transcribed statement group by
  statement group: one \<open>N\<close> entry holds the assignments to one node, in the order of the
  source. The lemmas show that both tracks are well formed: a consistent bidirectional graph.
\<close>

section \<open>Nodes and edges\<close>

(* src/include/lib/train/track_node.h:13-20 *)
datatype node_type = NODE_NONE | NODE_SENSOR | NODE_BRANCH | NODE_MERGE | NODE_ENTER | NODE_EXIT

abbreviation (input) DIR_AHEAD :: nat where "DIR_AHEAD \<equiv> 0"
abbreviation (input) DIR_STRAIGHT :: nat where "DIR_STRAIGHT \<equiv> 0"
abbreviation (input) DIR_CURVED :: nat where "DIR_CURVED \<equiv> 1"

type_synonym node_ptr = "nat option"
type_synonym edge_ptr = "(nat \<times> nat) option"

(* src/include/lib/train/track_node.h:30-34 *)
record track_edge =
  e_reverse :: edge_ptr
  e_src :: node_ptr
  e_dest :: node_ptr
  e_dist :: int

text \<open>A \<^verbatim>\<open>const char *\<close> is the bytes up to and with the terminating zero.\<close>

(* src/include/lib/train/track_node.h:36-44 *)
record track_node =
  n_reserver :: int
  n_name :: "u8 list option"
  n_type :: node_type
  n_id :: int
  n_num :: int
  n_reverse :: node_ptr
  n_edge :: "track_edge list"

type_synonym track = "track_node list"

definition cstr :: "string \<Rightarrow> u8 list" where
  "cstr s = map of_char s @ [0]"

section \<open>The tables\<close>

abbreviation TRACK_MAX :: nat where "TRACK_MAX \<equiv> 144"

(* src/src/lib/train/track_data.c:7-11 *)
definition zero_node :: track_node where
  "zero_node =
     \<lparr>n_reserver = 0, n_name = None, n_type = NODE_NONE, n_id = 0, n_num = 0, n_reverse = None,
      n_edge = replicate 2 \<lparr>e_reverse = None, e_src = None, e_dest = None, e_dist = 0\<rparr>\<rparr>"

(* src/src/lib/train/track_data.c:13-17 *)
definition add_ids :: "track \<Rightarrow> track option" where
  "add_ids t = (if TRACK_MAX \<le> length t
     then Some (fold (\<lambda>i t. t[i := (t ! i)\<lparr>n_id := int i\<rparr>]) [0..<TRACK_MAX] t) else None)"

text \<open>One entry of a table: \<open>N i name type num reverse edges\<close> are the assignments to
  \<^verbatim>\<open>track[i]\<close> (\<open>num\<close> is \<open>None\<close> for the nodes that the table gives no number), \<open>E d reverse src dest
  dist\<close> those to \<^verbatim>\<open>track[i].edge[d]\<close>.\<close>

datatype edge_data = E nat "nat \<times> nat" nat nat int
datatype node_data = N nat string node_type "int option" nat "edge_data list"

fun edge_assign :: "edge_data \<Rightarrow> track_node \<Rightarrow> track_node" where
  "edge_assign (E d r s t k) n =
     n\<lparr>n_edge := (n_edge n)[d := \<lparr>e_reverse = Some r, e_src = Some s, e_dest = Some t, e_dist = k\<rparr>]\<rparr>"

fun node_fill :: "node_data \<Rightarrow> track_node \<Rightarrow> track_node" where
  "node_fill (N i nm ty num rv es) n =
     fold edge_assign es
       (n\<lparr>n_name := Some (cstr nm), n_type := ty,
          n_num := (case num of None \<Rightarrow> n_num n | Some k \<Rightarrow> k), n_reverse := Some rv\<rparr>)"

fun node_assign :: "node_data \<Rightarrow> track \<Rightarrow> track option" where
  "node_assign (N i nm ty num rv es) t =
     do { n \<leftarrow> aget t i; aset t i (node_fill (N i nm ty num rv es) n) }"

fun assign_all :: "node_data list \<Rightarrow> track \<Rightarrow> track option" where
  "assign_all [] t = Some t"
| "assign_all (d # ds) t = do { t \<leftarrow> node_assign d t; assign_all ds t }"

(* src/src/lib/train/track_data.c:42-185 *)
definition tracka_0 :: "node_data list" where
  "tracka_0 = [
     N 0 ''A1'' NODE_SENSOR (Some 0) 1 [E DIR_AHEAD (102, DIR_STRAIGHT) 0 103 231],
     N 1 ''A2'' NODE_SENSOR (Some 1) 0 [E DIR_AHEAD (132, DIR_AHEAD) 1 133 504],
     N 2 ''A3'' NODE_SENSOR (Some 2) 3 [E DIR_AHEAD (107, DIR_AHEAD) 2 106 43],
     N 3 ''A4'' NODE_SENSOR (Some 3) 2 [E DIR_AHEAD (30, DIR_AHEAD) 3 31 437],
     N 4 ''A5'' NODE_SENSOR (Some 4) 5 [E DIR_AHEAD (84, DIR_STRAIGHT) 4 85 231],
     N 5 ''A6'' NODE_SENSOR (Some 5) 4 [E DIR_AHEAD (24, DIR_AHEAD) 5 25 642],
     N 6 ''A7'' NODE_SENSOR (Some 6) 7 [E DIR_AHEAD (26, DIR_AHEAD) 6 27 470],
     N 7 ''A8'' NODE_SENSOR (Some 7) 6 [E DIR_AHEAD (82, DIR_CURVED) 7 83 229],
     N 8 ''A9'' NODE_SENSOR (Some 8) 9 [E DIR_AHEAD (22, DIR_AHEAD) 8 23 289],
     N 9 ''A10'' NODE_SENSOR (Some 9) 8 [E DIR_AHEAD (80, DIR_CURVED) 9 81 229],
     N 10 ''A11'' NODE_SENSOR (Some 10) 11 [E DIR_AHEAD (80, DIR_STRAIGHT) 10 81 518],
     N 11 ''A12'' NODE_SENSOR (Some 11) 10 [E DIR_AHEAD (138, DIR_AHEAD) 11 139 43],
     N 12 ''A13'' NODE_SENSOR (Some 12) 13 [E DIR_AHEAD (86, DIR_CURVED) 12 87 236],
     N 13 ''A14'' NODE_SENSOR (Some 13) 12 [E DIR_AHEAD (130, DIR_AHEAD) 13 131 325],
     N 14 ''A15'' NODE_SENSOR (Some 14) 15 [E DIR_AHEAD (134, DIR_AHEAD) 14 135 144],
     N 15 ''A16'' NODE_SENSOR (Some 15) 14 [E DIR_AHEAD (86, DIR_STRAIGHT) 15 87 417],
     N 16 ''B1'' NODE_SENSOR (Some 16) 17 [E DIR_AHEAD (60, DIR_AHEAD) 16 61 404],
     N 17 ''B2'' NODE_SENSOR (Some 17) 16 [E DIR_AHEAD (110, DIR_STRAIGHT) 17 111 231]]"

(* src/src/lib/train/track_data.c:186-329 *)
definition tracka_1 :: "node_data list" where
  "tracka_1 = [
     N 18 ''B3'' NODE_SENSOR (Some 18) 19 [E DIR_AHEAD (32, DIR_AHEAD) 18 33 201],
     N 19 ''B4'' NODE_SENSOR (Some 19) 18 [E DIR_AHEAD (110, DIR_CURVED) 19 111 239],
     N 20 ''B5'' NODE_SENSOR (Some 20) 21 [E DIR_AHEAD (51, DIR_AHEAD) 20 50 404],
     N 21 ''B6'' NODE_SENSOR (Some 21) 20 [E DIR_AHEAD (104, DIR_STRAIGHT) 21 105 231],
     N 22 ''B7'' NODE_SENSOR (Some 22) 23 [E DIR_AHEAD (8, DIR_AHEAD) 22 9 289],
     N 23 ''B8'' NODE_SENSOR (Some 23) 22 [E DIR_AHEAD (136, DIR_AHEAD) 23 137 43],
     N 24 ''B9'' NODE_SENSOR (Some 24) 25 [E DIR_AHEAD (5, DIR_AHEAD) 24 4 642],
     N 25 ''B10'' NODE_SENSOR (Some 25) 24 [E DIR_AHEAD (140, DIR_AHEAD) 25 141 50],
     N 26 ''B11'' NODE_SENSOR (Some 26) 27 [E DIR_AHEAD (6, DIR_AHEAD) 26 7 470],
     N 27 ''B12'' NODE_SENSOR (Some 27) 26 [E DIR_AHEAD (142, DIR_AHEAD) 27 143 50],
     N 28 ''B13'' NODE_SENSOR (Some 28) 29 [E DIR_AHEAD (118, DIR_CURVED) 28 119 239],
     N 29 ''B14'' NODE_SENSOR (Some 29) 28 [E DIR_AHEAD (62, DIR_AHEAD) 29 63 201],
     N 30 ''B15'' NODE_SENSOR (Some 30) 31 [E DIR_AHEAD (3, DIR_AHEAD) 30 2 437],
     N 31 ''B16'' NODE_SENSOR (Some 31) 30 [E DIR_AHEAD (109, DIR_AHEAD) 31 108 50],
     N 32 ''C1'' NODE_SENSOR (Some 32) 33 [E DIR_AHEAD (18, DIR_AHEAD) 32 19 201],
     N 33 ''C2'' NODE_SENSOR (Some 33) 32 [E DIR_AHEAD (116, DIR_CURVED) 33 117 246],
     N 34 ''C3'' NODE_SENSOR (Some 34) 35 [E DIR_AHEAD (128, DIR_AHEAD) 34 129 514],
     N 35 ''C4'' NODE_SENSOR (Some 35) 34 [E DIR_AHEAD (88, DIR_STRAIGHT) 35 89 239]]"

(* src/src/lib/train/track_data.c:330-473 *)
definition tracka_2 :: "node_data list" where
  "tracka_2 = [
     N 36 ''C5'' NODE_SENSOR (Some 36) 37 [E DIR_AHEAD (91, DIR_AHEAD) 36 90 61],
     N 37 ''C6'' NODE_SENSOR (Some 37) 36 [E DIR_AHEAD (108, DIR_STRAIGHT) 37 109 433],
     N 38 ''C7'' NODE_SENSOR (Some 38) 39 [E DIR_AHEAD (114, DIR_STRAIGHT) 38 115 231],
     N 39 ''C8'' NODE_SENSOR (Some 39) 38 [E DIR_AHEAD (85, DIR_AHEAD) 39 84 128],
     N 40 ''C9'' NODE_SENSOR (Some 40) 41 [E DIR_AHEAD (108, DIR_CURVED) 40 109 326],
     N 41 ''C10'' NODE_SENSOR (Some 41) 40 [E DIR_AHEAD (111, DIR_AHEAD) 41 110 128],
     N 42 ''C11'' NODE_SENSOR (Some 42) 43 [E DIR_AHEAD (105, DIR_AHEAD) 42 104 120],
     N 43 ''C12'' NODE_SENSOR (Some 43) 42 [E DIR_AHEAD (106, DIR_CURVED) 43 107 333],
     N 44 ''C13'' NODE_SENSOR (Some 44) 45 [E DIR_AHEAD (71, DIR_AHEAD) 44 70 875],
     N 45 ''C14'' NODE_SENSOR (Some 45) 44 [E DIR_AHEAD (101, DIR_AHEAD) 45 100 43],
     N 46 ''C15'' NODE_SENSOR (Some 46) 47 [E DIR_AHEAD (58, DIR_AHEAD) 46 59 404],
     N 47 ''C16'' NODE_SENSOR (Some 47) 46 [E DIR_AHEAD (90, DIR_STRAIGHT) 47 91 239],
     N 48 ''D1'' NODE_SENSOR (Some 48) 49 [E DIR_AHEAD (120, DIR_CURVED) 48 121 246],
     N 49 ''D2'' NODE_SENSOR (Some 49) 48 [E DIR_AHEAD (66, DIR_AHEAD) 49 67 201],
     N 50 ''D3'' NODE_SENSOR (Some 50) 51 [E DIR_AHEAD (98, DIR_STRAIGHT) 50 99 239],
     N 51 ''D4'' NODE_SENSOR (Some 51) 50 [E DIR_AHEAD (20, DIR_AHEAD) 51 21 404],
     N 52 ''D5'' NODE_SENSOR (Some 52) 53 [E DIR_AHEAD (68, DIR_AHEAD) 52 69 376],
     N 53 ''D6'' NODE_SENSOR (Some 53) 52 [E DIR_AHEAD (96, DIR_CURVED) 53 97 239]]"

(* src/src/lib/train/track_data.c:474-617 *)
definition tracka_3 :: "node_data list" where
  "tracka_3 = [
     N 54 ''D7'' NODE_SENSOR (Some 54) 55 [E DIR_AHEAD (96, DIR_STRAIGHT) 54 97 309],
     N 55 ''D8'' NODE_SENSOR (Some 55) 54 [E DIR_AHEAD (70, DIR_AHEAD) 55 71 384],
     N 56 ''D9'' NODE_SENSOR (Some 56) 57 [E DIR_AHEAD (74, DIR_AHEAD) 56 75 369],
     N 57 ''D10'' NODE_SENSOR (Some 57) 56 [E DIR_AHEAD (94, DIR_STRAIGHT) 57 95 316],
     N 58 ''D11'' NODE_SENSOR (Some 58) 59 [E DIR_AHEAD (46, DIR_AHEAD) 58 47 404],
     N 59 ''D12'' NODE_SENSOR (Some 59) 58 [E DIR_AHEAD (92, DIR_STRAIGHT) 59 93 231],
     N 60 ''D13'' NODE_SENSOR (Some 60) 61 [E DIR_AHEAD (16, DIR_AHEAD) 60 17 404],
     N 61 ''D14'' NODE_SENSOR (Some 61) 60 [E DIR_AHEAD (112, DIR_STRAIGHT) 61 113 239],
     N 62 ''D15'' NODE_SENSOR (Some 62) 63 [E DIR_AHEAD (29, DIR_AHEAD) 62 28 201],
     N 63 ''D16'' NODE_SENSOR (Some 63) 62 [E DIR_AHEAD (112, DIR_CURVED) 63 113 246],
     N 64 ''E1'' NODE_SENSOR (Some 64) 65 [E DIR_AHEAD (122, DIR_CURVED) 64 123 239],
     N 65 ''E2'' NODE_SENSOR (Some 65) 64 [E DIR_AHEAD (79, DIR_AHEAD) 65 78 201],
     N 66 ''E3'' NODE_SENSOR (Some 66) 67 [E DIR_AHEAD (49, DIR_AHEAD) 66 48 201],
     N 67 ''E4'' NODE_SENSOR (Some 67) 66 [E DIR_AHEAD (98, DIR_CURVED) 67 99 239],
     N 68 ''E5'' NODE_SENSOR (Some 68) 69 [E DIR_AHEAD (52, DIR_AHEAD) 68 53 376],
     N 69 ''E6'' NODE_SENSOR (Some 69) 68 [E DIR_AHEAD (99, DIR_AHEAD) 69 98 50],
     N 70 ''E7'' NODE_SENSOR (Some 70) 71 [E DIR_AHEAD (55, DIR_AHEAD) 70 54 384],
     N 71 ''E8'' NODE_SENSOR (Some 71) 70 [E DIR_AHEAD (44, DIR_AHEAD) 71 45 875]]"

(* src/src/lib/train/track_data.c:618-761 *)
definition tracka_4 :: "node_data list" where
  "tracka_4 = [
     N 72 ''E9'' NODE_SENSOR (Some 72) 73 [E DIR_AHEAD (94, DIR_CURVED) 72 95 239],
     N 73 ''E10'' NODE_SENSOR (Some 73) 72 [E DIR_AHEAD (77, DIR_AHEAD) 73 76 376],
     N 74 ''E11'' NODE_SENSOR (Some 74) 75 [E DIR_AHEAD (56, DIR_AHEAD) 74 57 369],
     N 75 ''E12'' NODE_SENSOR (Some 75) 74 [E DIR_AHEAD (93, DIR_AHEAD) 75 92 50],
     N 76 ''E13'' NODE_SENSOR (Some 76) 77 [E DIR_AHEAD (113, DIR_AHEAD) 76 112 43],
     N 77 ''E14'' NODE_SENSOR (Some 77) 76 [E DIR_AHEAD (73, DIR_AHEAD) 77 72 376],
     N 78 ''E15'' NODE_SENSOR (Some 78) 79 [E DIR_AHEAD (104, DIR_CURVED) 78 105 246],
     N 79 ''E16'' NODE_SENSOR (Some 79) 78 [E DIR_AHEAD (65, DIR_AHEAD) 79 64 201],
     N 80 ''BR1'' NODE_BRANCH (Some 1) 81 [E DIR_STRAIGHT (10, DIR_AHEAD) 80 11 518,
       E DIR_CURVED (9, DIR_AHEAD) 80 8 229],
     N 81 ''MR1'' NODE_MERGE (Some 1) 80 [E DIR_AHEAD (82, DIR_STRAIGHT) 81 83 188],
     N 82 ''BR2'' NODE_BRANCH (Some 2) 83 [E DIR_STRAIGHT (81, DIR_AHEAD) 82 80 188,
       E DIR_CURVED (7, DIR_AHEAD) 82 6 229],
     N 83 ''MR2'' NODE_MERGE (Some 2) 82 [E DIR_AHEAD (84, DIR_CURVED) 83 85 185],
     N 84 ''BR3'' NODE_BRANCH (Some 3) 85 [E DIR_STRAIGHT (4, DIR_AHEAD) 84 5 231,
       E DIR_CURVED (83, DIR_AHEAD) 84 82 185],
     N 85 ''MR3'' NODE_MERGE (Some 3) 84 [E DIR_AHEAD (39, DIR_AHEAD) 85 38 128],
     N 86 ''BR4'' NODE_BRANCH (Some 4) 87 [E DIR_STRAIGHT (15, DIR_AHEAD) 86 14 417,
       E DIR_CURVED (12, DIR_AHEAD) 86 13 236],
     N 87 ''MR4'' NODE_MERGE (Some 4) 86 [E DIR_AHEAD (102, DIR_CURVED) 87 103 185]]"

(* src/src/lib/train/track_data.c:762-901 *)
definition tracka_5 :: "node_data list" where
  "tracka_5 = [
     N 88 ''BR5'' NODE_BRANCH (Some 5) 89 [E DIR_STRAIGHT (35, DIR_AHEAD) 88 34 239,
       E DIR_CURVED (92, DIR_CURVED) 88 93 371],
     N 89 ''MR5'' NODE_MERGE (Some 5) 88 [E DIR_AHEAD (115, DIR_AHEAD) 89 114 155],
     N 90 ''BR6'' NODE_BRANCH (Some 6) 91 [E DIR_STRAIGHT (47, DIR_AHEAD) 90 46 239,
       E DIR_CURVED (114, DIR_CURVED) 90 115 371],
     N 91 ''MR6'' NODE_MERGE (Some 6) 90 [E DIR_AHEAD (36, DIR_AHEAD) 91 37 61],
     N 92 ''BR7'' NODE_BRANCH (Some 7) 93 [E DIR_STRAIGHT (59, DIR_AHEAD) 92 58 231,
       E DIR_CURVED (88, DIR_CURVED) 92 89 371],
     N 93 ''MR7'' NODE_MERGE (Some 7) 92 [E DIR_AHEAD (75, DIR_AHEAD) 93 74 50],
     N 94 ''BR8'' NODE_BRANCH (Some 8) 95 [E DIR_STRAIGHT (57, DIR_AHEAD) 94 56 316,
       E DIR_CURVED (72, DIR_AHEAD) 94 73 239],
     N 95 ''MR8'' NODE_MERGE (Some 8) 94 [E DIR_AHEAD (97, DIR_AHEAD) 95 96 155],
     N 96 ''BR9'' NODE_BRANCH (Some 9) 97 [E DIR_STRAIGHT (54, DIR_AHEAD) 96 55 309,
       E DIR_CURVED (53, DIR_AHEAD) 96 52 239],
     N 97 ''MR9'' NODE_MERGE (Some 9) 96 [E DIR_AHEAD (95, DIR_AHEAD) 97 94 155],
     N 98 ''BR10'' NODE_BRANCH (Some 10) 99 [E DIR_STRAIGHT (50, DIR_AHEAD) 98 51 239,
       E DIR_CURVED (67, DIR_AHEAD) 98 66 239],
     N 99 ''MR10'' NODE_MERGE (Some 10) 98 [E DIR_AHEAD (69, DIR_AHEAD) 99 68 50],
     N 100 ''BR11'' NODE_BRANCH (Some 11) 101 [E DIR_STRAIGHT (103, DIR_AHEAD) 100 102 188,
       E DIR_CURVED (106, DIR_STRAIGHT) 100 107 495],
     N 101 ''MR11'' NODE_MERGE (Some 11) 100 [E DIR_AHEAD (45, DIR_AHEAD) 101 44 43]]"

(* src/src/lib/train/track_data.c:902-1041 *)
definition tracka_6 :: "node_data list" where
  "tracka_6 = [
     N 102 ''BR12'' NODE_BRANCH (Some 12) 103 [E DIR_STRAIGHT (0, DIR_AHEAD) 102 1 231,
       E DIR_CURVED (87, DIR_AHEAD) 102 86 185],
     N 103 ''MR12'' NODE_MERGE (Some 12) 102 [E DIR_AHEAD (100, DIR_STRAIGHT) 103 101 188],
     N 104 ''BR13'' NODE_BRANCH (Some 13) 105 [E DIR_STRAIGHT (21, DIR_AHEAD) 104 20 231,
       E DIR_CURVED (78, DIR_AHEAD) 104 79 246],
     N 105 ''MR13'' NODE_MERGE (Some 13) 104 [E DIR_AHEAD (42, DIR_AHEAD) 105 43 120],
     N 106 ''BR14'' NODE_BRANCH (Some 14) 107 [E DIR_STRAIGHT (100, DIR_CURVED) 106 101 495,
       E DIR_CURVED (43, DIR_AHEAD) 106 42 333],
     N 107 ''MR14'' NODE_MERGE (Some 14) 106 [E DIR_AHEAD (2, DIR_AHEAD) 107 3 43],
     N 108 ''BR15'' NODE_BRANCH (Some 15) 109 [E DIR_STRAIGHT (37, DIR_AHEAD) 108 36 433,
       E DIR_CURVED (40, DIR_AHEAD) 108 41 326],
     N 109 ''MR15'' NODE_MERGE (Some 15) 108 [E DIR_AHEAD (31, DIR_AHEAD) 109 30 50],
     N 110 ''BR16'' NODE_BRANCH (Some 16) 111 [E DIR_STRAIGHT (17, DIR_AHEAD) 110 16 231,
       E DIR_CURVED (19, DIR_AHEAD) 110 18 239],
     N 111 ''MR16'' NODE_MERGE (Some 16) 110 [E DIR_AHEAD (41, DIR_AHEAD) 111 40 128],
     N 112 ''BR17'' NODE_BRANCH (Some 17) 113 [E DIR_STRAIGHT (61, DIR_AHEAD) 112 60 239,
       E DIR_CURVED (63, DIR_AHEAD) 112 62 246],
     N 113 ''MR17'' NODE_MERGE (Some 17) 112 [E DIR_AHEAD (76, DIR_AHEAD) 113 77 43],
     N 114 ''BR18'' NODE_BRANCH (Some 18) 115 [E DIR_STRAIGHT (38, DIR_AHEAD) 114 39 231,
       E DIR_CURVED (90, DIR_CURVED) 114 91 371],
     N 115 ''MR18'' NODE_MERGE (Some 18) 114 [E DIR_AHEAD (89, DIR_AHEAD) 115 88 155]]"

(* src/src/lib/train/track_data.c:1042-1191 *)
definition tracka_7 :: "node_data list" where
  "tracka_7 = [
     N 116 ''BR153'' NODE_BRANCH (Some 153) 117 [E DIR_STRAIGHT (124, DIR_AHEAD) 116 125 253,
       E DIR_CURVED (33, DIR_AHEAD) 116 32 246],
     N 117 ''MR153'' NODE_MERGE (Some 153) 116 [E DIR_AHEAD (118, DIR_STRAIGHT) 117 119 0],
     N 118 ''BR154'' NODE_BRANCH (Some 154) 119 [E DIR_STRAIGHT (117, DIR_AHEAD) 118 116 0,
       E DIR_CURVED (28, DIR_AHEAD) 118 29 239],
     N 119 ''MR154'' NODE_MERGE (Some 154) 118 [E DIR_AHEAD (123, DIR_AHEAD) 119 122 0],
     N 120 ''BR155'' NODE_BRANCH (Some 155) 121 [E DIR_STRAIGHT (126, DIR_AHEAD) 120 127 282,
       E DIR_CURVED (48, DIR_AHEAD) 120 49 246],
     N 121 ''MR155'' NODE_MERGE (Some 155) 120 [E DIR_AHEAD (122, DIR_STRAIGHT) 121 123 0],
     N 122 ''BR156'' NODE_BRANCH (Some 156) 123 [E DIR_STRAIGHT (121, DIR_AHEAD) 122 120 0,
       E DIR_CURVED (64, DIR_AHEAD) 122 65 239],
     N 123 ''MR156'' NODE_MERGE (Some 156) 122 [E DIR_AHEAD (119, DIR_AHEAD) 123 118 0],
     N 124 ''EN1'' NODE_ENTER None 125 [E DIR_AHEAD (116, DIR_STRAIGHT) 124 117 253],
     N 125 ''EX1'' NODE_EXIT None 124 [],
     N 126 ''EN2'' NODE_ENTER None 127 [E DIR_AHEAD (120, DIR_STRAIGHT) 126 121 282],
     N 127 ''EX2'' NODE_EXIT None 126 [],
     N 128 ''EN3'' NODE_ENTER None 129 [E DIR_AHEAD (34, DIR_AHEAD) 128 35 514],
     N 129 ''EX3'' NODE_EXIT None 128 [],
     N 130 ''EN4'' NODE_ENTER None 131 [E DIR_AHEAD (13, DIR_AHEAD) 130 12 325],
     N 131 ''EX4'' NODE_EXIT None 130 [],
     N 132 ''EN5'' NODE_ENTER None 133 [E DIR_AHEAD (1, DIR_AHEAD) 132 0 504],
     N 133 ''EX5'' NODE_EXIT None 132 [],
     N 134 ''EN6'' NODE_ENTER None 135 [E DIR_AHEAD (14, DIR_AHEAD) 134 15 144],
     N 135 ''EX6'' NODE_EXIT None 134 [],
     N 136 ''EN7'' NODE_ENTER None 137 [E DIR_AHEAD (23, DIR_AHEAD) 136 22 43],
     N 137 ''EX7'' NODE_EXIT None 136 []]"

(* src/src/lib/train/track_data.c:1192-1221 *)
definition tracka_8 :: "node_data list" where
  "tracka_8 = [
     N 138 ''EN8'' NODE_ENTER None 139 [E DIR_AHEAD (11, DIR_AHEAD) 138 10 43],
     N 139 ''EX8'' NODE_EXIT None 138 [],
     N 140 ''EN9'' NODE_ENTER None 141 [E DIR_AHEAD (25, DIR_AHEAD) 140 24 50],
     N 141 ''EX9'' NODE_EXIT None 140 [],
     N 142 ''EN10'' NODE_ENTER None 143 [E DIR_AHEAD (27, DIR_AHEAD) 142 26 50],
     N 143 ''EX10'' NODE_EXIT None 142 []]"

definition tracka_data :: "node_data list" where
  "tracka_data = tracka_0 @ tracka_1 @ tracka_2 @ tracka_3 @ tracka_4 @ tracka_5 @ tracka_6 @ tracka_7 @ tracka_8"

(* src/src/lib/train/track_data.c:1227-1370 *)
definition trackb_0 :: "node_data list" where
  "trackb_0 = [
     N 0 ''A1'' NODE_SENSOR (Some 0) 1 [E DIR_AHEAD (102, DIR_STRAIGHT) 0 103 231],
     N 1 ''A2'' NODE_SENSOR (Some 1) 0 [E DIR_AHEAD (132, DIR_AHEAD) 1 133 504],
     N 2 ''A3'' NODE_SENSOR (Some 2) 3 [E DIR_AHEAD (107, DIR_AHEAD) 2 106 43],
     N 3 ''A4'' NODE_SENSOR (Some 3) 2 [E DIR_AHEAD (30, DIR_AHEAD) 3 31 437],
     N 4 ''A5'' NODE_SENSOR (Some 4) 5 [E DIR_AHEAD (84, DIR_STRAIGHT) 4 85 231],
     N 5 ''A6'' NODE_SENSOR (Some 5) 4 [E DIR_AHEAD (24, DIR_AHEAD) 5 25 642],
     N 6 ''A7'' NODE_SENSOR (Some 6) 7 [E DIR_AHEAD (26, DIR_AHEAD) 6 27 470],
     N 7 ''A8'' NODE_SENSOR (Some 7) 6 [E DIR_AHEAD (82, DIR_CURVED) 7 83 229],
     N 8 ''A9'' NODE_SENSOR (Some 8) 9 [E DIR_AHEAD (22, DIR_AHEAD) 8 23 289],
     N 9 ''A10'' NODE_SENSOR (Some 9) 8 [E DIR_AHEAD (80, DIR_CURVED) 9 81 229],
     N 10 ''A11'' NODE_SENSOR (Some 10) 11 [E DIR_AHEAD (80, DIR_STRAIGHT) 10 81 282],
     N 11 ''A12'' NODE_SENSOR (Some 11) 10 [E DIR_AHEAD (14, DIR_AHEAD) 11 15 814],
     N 12 ''A13'' NODE_SENSOR (Some 12) 13 [E DIR_AHEAD (86, DIR_CURVED) 12 87 236],
     N 13 ''A14'' NODE_SENSOR (Some 13) 12 [E DIR_AHEAD (130, DIR_AHEAD) 13 131 325],
     N 14 ''A15'' NODE_SENSOR (Some 14) 15 [E DIR_AHEAD (11, DIR_AHEAD) 14 10 814],
     N 15 ''A16'' NODE_SENSOR (Some 15) 14 [E DIR_AHEAD (86, DIR_STRAIGHT) 15 87 275],
     N 16 ''B1'' NODE_SENSOR (Some 16) 17 [E DIR_AHEAD (60, DIR_AHEAD) 16 61 404],
     N 17 ''B2'' NODE_SENSOR (Some 17) 16 [E DIR_AHEAD (110, DIR_STRAIGHT) 17 111 231]]"

(* src/src/lib/train/track_data.c:1371-1514 *)
definition trackb_1 :: "node_data list" where
  "trackb_1 = [
     N 18 ''B3'' NODE_SENSOR (Some 18) 19 [E DIR_AHEAD (32, DIR_AHEAD) 18 33 201],
     N 19 ''B4'' NODE_SENSOR (Some 19) 18 [E DIR_AHEAD (110, DIR_CURVED) 19 111 239],
     N 20 ''B5'' NODE_SENSOR (Some 20) 21 [E DIR_AHEAD (51, DIR_AHEAD) 20 50 404],
     N 21 ''B6'' NODE_SENSOR (Some 21) 20 [E DIR_AHEAD (104, DIR_STRAIGHT) 21 105 231],
     N 22 ''B7'' NODE_SENSOR (Some 22) 23 [E DIR_AHEAD (8, DIR_AHEAD) 22 9 289],
     N 23 ''B8'' NODE_SENSOR (Some 23) 22 [E DIR_AHEAD (134, DIR_AHEAD) 23 135 43],
     N 24 ''B9'' NODE_SENSOR (Some 24) 25 [E DIR_AHEAD (5, DIR_AHEAD) 24 4 642],
     N 25 ''B10'' NODE_SENSOR (Some 25) 24 [E DIR_AHEAD (136, DIR_AHEAD) 25 137 50],
     N 26 ''B11'' NODE_SENSOR (Some 26) 27 [E DIR_AHEAD (6, DIR_AHEAD) 26 7 470],
     N 27 ''B12'' NODE_SENSOR (Some 27) 26 [E DIR_AHEAD (138, DIR_AHEAD) 27 139 50],
     N 28 ''B13'' NODE_SENSOR (Some 28) 29 [E DIR_AHEAD (118, DIR_CURVED) 28 119 239],
     N 29 ''B14'' NODE_SENSOR (Some 29) 28 [E DIR_AHEAD (62, DIR_AHEAD) 29 63 201],
     N 30 ''B15'' NODE_SENSOR (Some 30) 31 [E DIR_AHEAD (3, DIR_AHEAD) 30 2 437],
     N 31 ''B16'' NODE_SENSOR (Some 31) 30 [E DIR_AHEAD (109, DIR_AHEAD) 31 108 50],
     N 32 ''C1'' NODE_SENSOR (Some 32) 33 [E DIR_AHEAD (18, DIR_AHEAD) 32 19 201],
     N 33 ''C2'' NODE_SENSOR (Some 33) 32 [E DIR_AHEAD (116, DIR_CURVED) 33 117 246],
     N 34 ''C3'' NODE_SENSOR (Some 34) 35 [E DIR_AHEAD (128, DIR_AHEAD) 34 129 514],
     N 35 ''C4'' NODE_SENSOR (Some 35) 34 [E DIR_AHEAD (88, DIR_STRAIGHT) 35 89 239]]"

(* src/src/lib/train/track_data.c:1515-1658 *)
definition trackb_2 :: "node_data list" where
  "trackb_2 = [
     N 36 ''C5'' NODE_SENSOR (Some 36) 37 [E DIR_AHEAD (91, DIR_AHEAD) 36 90 61],
     N 37 ''C6'' NODE_SENSOR (Some 37) 36 [E DIR_AHEAD (108, DIR_STRAIGHT) 37 109 433],
     N 38 ''C7'' NODE_SENSOR (Some 38) 39 [E DIR_AHEAD (114, DIR_STRAIGHT) 38 115 231],
     N 39 ''C8'' NODE_SENSOR (Some 39) 38 [E DIR_AHEAD (85, DIR_AHEAD) 39 84 128],
     N 40 ''C9'' NODE_SENSOR (Some 40) 41 [E DIR_AHEAD (108, DIR_CURVED) 40 109 326],
     N 41 ''C10'' NODE_SENSOR (Some 41) 40 [E DIR_AHEAD (111, DIR_AHEAD) 41 110 128],
     N 42 ''C11'' NODE_SENSOR (Some 42) 43 [E DIR_AHEAD (105, DIR_AHEAD) 42 104 120],
     N 43 ''C12'' NODE_SENSOR (Some 43) 42 [E DIR_AHEAD (106, DIR_CURVED) 43 107 333],
     N 44 ''C13'' NODE_SENSOR (Some 44) 45 [E DIR_AHEAD (71, DIR_AHEAD) 44 70 780],
     N 45 ''C14'' NODE_SENSOR (Some 45) 44 [E DIR_AHEAD (101, DIR_AHEAD) 45 100 50],
     N 46 ''C15'' NODE_SENSOR (Some 46) 47 [E DIR_AHEAD (58, DIR_AHEAD) 46 59 404],
     N 47 ''C16'' NODE_SENSOR (Some 47) 46 [E DIR_AHEAD (90, DIR_STRAIGHT) 47 91 239],
     N 48 ''D1'' NODE_SENSOR (Some 48) 49 [E DIR_AHEAD (120, DIR_CURVED) 48 121 246],
     N 49 ''D2'' NODE_SENSOR (Some 49) 48 [E DIR_AHEAD (66, DIR_AHEAD) 49 67 201],
     N 50 ''D3'' NODE_SENSOR (Some 50) 51 [E DIR_AHEAD (98, DIR_STRAIGHT) 50 99 239],
     N 51 ''D4'' NODE_SENSOR (Some 51) 50 [E DIR_AHEAD (20, DIR_AHEAD) 51 21 404],
     N 52 ''D5'' NODE_SENSOR (Some 52) 53 [E DIR_AHEAD (68, DIR_AHEAD) 52 69 282],
     N 53 ''D6'' NODE_SENSOR (Some 53) 52 [E DIR_AHEAD (96, DIR_CURVED) 53 97 229]]"

(* src/src/lib/train/track_data.c:1659-1802 *)
definition trackb_3 :: "node_data list" where
  "trackb_3 = [
     N 54 ''D7'' NODE_SENSOR (Some 54) 55 [E DIR_AHEAD (96, DIR_STRAIGHT) 54 97 309],
     N 55 ''D8'' NODE_SENSOR (Some 55) 54 [E DIR_AHEAD (70, DIR_AHEAD) 55 71 376],
     N 56 ''D9'' NODE_SENSOR (Some 56) 57 [E DIR_AHEAD (74, DIR_AHEAD) 56 75 282],
     N 57 ''D10'' NODE_SENSOR (Some 57) 56 [E DIR_AHEAD (94, DIR_STRAIGHT) 57 95 316],
     N 58 ''D11'' NODE_SENSOR (Some 58) 59 [E DIR_AHEAD (46, DIR_AHEAD) 58 47 404],
     N 59 ''D12'' NODE_SENSOR (Some 59) 58 [E DIR_AHEAD (92, DIR_STRAIGHT) 59 93 231],
     N 60 ''D13'' NODE_SENSOR (Some 60) 61 [E DIR_AHEAD (16, DIR_AHEAD) 60 17 404],
     N 61 ''D14'' NODE_SENSOR (Some 61) 60 [E DIR_AHEAD (112, DIR_STRAIGHT) 61 113 239],
     N 62 ''D15'' NODE_SENSOR (Some 62) 63 [E DIR_AHEAD (29, DIR_AHEAD) 62 28 201],
     N 63 ''D16'' NODE_SENSOR (Some 63) 62 [E DIR_AHEAD (112, DIR_CURVED) 63 113 246],
     N 64 ''E1'' NODE_SENSOR (Some 64) 65 [E DIR_AHEAD (122, DIR_CURVED) 64 123 239],
     N 65 ''E2'' NODE_SENSOR (Some 65) 64 [E DIR_AHEAD (79, DIR_AHEAD) 65 78 201],
     N 66 ''E3'' NODE_SENSOR (Some 66) 67 [E DIR_AHEAD (49, DIR_AHEAD) 66 48 201],
     N 67 ''E4'' NODE_SENSOR (Some 67) 66 [E DIR_AHEAD (98, DIR_CURVED) 67 99 239],
     N 68 ''E5'' NODE_SENSOR (Some 68) 69 [E DIR_AHEAD (52, DIR_AHEAD) 68 53 282],
     N 69 ''E6'' NODE_SENSOR (Some 69) 68 [E DIR_AHEAD (99, DIR_AHEAD) 69 98 50],
     N 70 ''E7'' NODE_SENSOR (Some 70) 71 [E DIR_AHEAD (55, DIR_AHEAD) 70 54 376],
     N 71 ''E8'' NODE_SENSOR (Some 71) 70 [E DIR_AHEAD (44, DIR_AHEAD) 71 45 780]]"

(* src/src/lib/train/track_data.c:1803-1946 *)
definition trackb_4 :: "node_data list" where
  "trackb_4 = [
     N 72 ''E9'' NODE_SENSOR (Some 72) 73 [E DIR_AHEAD (94, DIR_CURVED) 72 95 239],
     N 73 ''E10'' NODE_SENSOR (Some 73) 72 [E DIR_AHEAD (77, DIR_AHEAD) 73 76 282],
     N 74 ''E11'' NODE_SENSOR (Some 74) 75 [E DIR_AHEAD (56, DIR_AHEAD) 74 57 282],
     N 75 ''E12'' NODE_SENSOR (Some 75) 74 [E DIR_AHEAD (93, DIR_AHEAD) 75 92 43],
     N 76 ''E13'' NODE_SENSOR (Some 76) 77 [E DIR_AHEAD (113, DIR_AHEAD) 76 112 43],
     N 77 ''E14'' NODE_SENSOR (Some 77) 76 [E DIR_AHEAD (73, DIR_AHEAD) 77 72 282],
     N 78 ''E15'' NODE_SENSOR (Some 78) 79 [E DIR_AHEAD (104, DIR_CURVED) 78 105 246],
     N 79 ''E16'' NODE_SENSOR (Some 79) 78 [E DIR_AHEAD (65, DIR_AHEAD) 79 64 201],
     N 80 ''BR1'' NODE_BRANCH (Some 1) 81 [E DIR_STRAIGHT (10, DIR_AHEAD) 80 11 282,
       E DIR_CURVED (9, DIR_AHEAD) 80 8 229],
     N 81 ''MR1'' NODE_MERGE (Some 1) 80 [E DIR_AHEAD (82, DIR_STRAIGHT) 81 83 188],
     N 82 ''BR2'' NODE_BRANCH (Some 2) 83 [E DIR_STRAIGHT (81, DIR_AHEAD) 82 80 188,
       E DIR_CURVED (7, DIR_AHEAD) 82 6 229],
     N 83 ''MR2'' NODE_MERGE (Some 2) 82 [E DIR_AHEAD (84, DIR_CURVED) 83 85 185],
     N 84 ''BR3'' NODE_BRANCH (Some 3) 85 [E DIR_STRAIGHT (4, DIR_AHEAD) 84 5 231,
       E DIR_CURVED (83, DIR_AHEAD) 84 82 185],
     N 85 ''MR3'' NODE_MERGE (Some 3) 84 [E DIR_AHEAD (39, DIR_AHEAD) 85 38 128],
     N 86 ''BR4'' NODE_BRANCH (Some 4) 87 [E DIR_STRAIGHT (15, DIR_AHEAD) 86 14 275,
       E DIR_CURVED (12, DIR_AHEAD) 86 13 236],
     N 87 ''MR4'' NODE_MERGE (Some 4) 86 [E DIR_AHEAD (102, DIR_CURVED) 87 103 185]]"

(* src/src/lib/train/track_data.c:1947-2086 *)
definition trackb_5 :: "node_data list" where
  "trackb_5 = [
     N 88 ''BR5'' NODE_BRANCH (Some 5) 89 [E DIR_STRAIGHT (35, DIR_AHEAD) 88 34 239,
       E DIR_CURVED (92, DIR_CURVED) 88 93 371],
     N 89 ''MR5'' NODE_MERGE (Some 5) 88 [E DIR_AHEAD (115, DIR_AHEAD) 89 114 155],
     N 90 ''BR6'' NODE_BRANCH (Some 6) 91 [E DIR_STRAIGHT (47, DIR_AHEAD) 90 46 239,
       E DIR_CURVED (114, DIR_CURVED) 90 115 371],
     N 91 ''MR6'' NODE_MERGE (Some 6) 90 [E DIR_AHEAD (36, DIR_AHEAD) 91 37 61],
     N 92 ''BR7'' NODE_BRANCH (Some 7) 93 [E DIR_STRAIGHT (59, DIR_AHEAD) 92 58 231,
       E DIR_CURVED (88, DIR_CURVED) 92 89 371],
     N 93 ''MR7'' NODE_MERGE (Some 7) 92 [E DIR_AHEAD (75, DIR_AHEAD) 93 74 43],
     N 94 ''BR8'' NODE_BRANCH (Some 8) 95 [E DIR_STRAIGHT (57, DIR_AHEAD) 94 56 316,
       E DIR_CURVED (72, DIR_AHEAD) 94 73 239],
     N 95 ''MR8'' NODE_MERGE (Some 8) 94 [E DIR_AHEAD (97, DIR_AHEAD) 95 96 155],
     N 96 ''BR9'' NODE_BRANCH (Some 9) 97 [E DIR_STRAIGHT (54, DIR_AHEAD) 96 55 309,
       E DIR_CURVED (53, DIR_AHEAD) 96 52 229],
     N 97 ''MR9'' NODE_MERGE (Some 9) 96 [E DIR_AHEAD (95, DIR_AHEAD) 97 94 155],
     N 98 ''BR10'' NODE_BRANCH (Some 10) 99 [E DIR_STRAIGHT (50, DIR_AHEAD) 98 51 239,
       E DIR_CURVED (67, DIR_AHEAD) 98 66 239],
     N 99 ''MR10'' NODE_MERGE (Some 10) 98 [E DIR_AHEAD (69, DIR_AHEAD) 99 68 50],
     N 100 ''BR11'' NODE_BRANCH (Some 11) 101 [E DIR_STRAIGHT (103, DIR_AHEAD) 100 102 188,
       E DIR_CURVED (106, DIR_STRAIGHT) 100 107 495],
     N 101 ''MR11'' NODE_MERGE (Some 11) 100 [E DIR_AHEAD (45, DIR_AHEAD) 101 44 50]]"

(* src/src/lib/train/track_data.c:2087-2226 *)
definition trackb_6 :: "node_data list" where
  "trackb_6 = [
     N 102 ''BR12'' NODE_BRANCH (Some 12) 103 [E DIR_STRAIGHT (0, DIR_AHEAD) 102 1 231,
       E DIR_CURVED (87, DIR_AHEAD) 102 86 185],
     N 103 ''MR12'' NODE_MERGE (Some 12) 102 [E DIR_AHEAD (100, DIR_STRAIGHT) 103 101 188],
     N 104 ''BR13'' NODE_BRANCH (Some 13) 105 [E DIR_STRAIGHT (21, DIR_AHEAD) 104 20 231,
       E DIR_CURVED (78, DIR_AHEAD) 104 79 246],
     N 105 ''MR13'' NODE_MERGE (Some 13) 104 [E DIR_AHEAD (42, DIR_AHEAD) 105 43 120],
     N 106 ''BR14'' NODE_BRANCH (Some 14) 107 [E DIR_STRAIGHT (100, DIR_CURVED) 106 101 495,
       E DIR_CURVED (43, DIR_AHEAD) 106 42 333],
     N 107 ''MR14'' NODE_MERGE (Some 14) 106 [E DIR_AHEAD (2, DIR_AHEAD) 107 3 43],
     N 108 ''BR15'' NODE_BRANCH (Some 15) 109 [E DIR_STRAIGHT (37, DIR_AHEAD) 108 36 433,
       E DIR_CURVED (40, DIR_AHEAD) 108 41 326],
     N 109 ''MR15'' NODE_MERGE (Some 15) 108 [E DIR_AHEAD (31, DIR_AHEAD) 109 30 50],
     N 110 ''BR16'' NODE_BRANCH (Some 16) 111 [E DIR_STRAIGHT (17, DIR_AHEAD) 110 16 231,
       E DIR_CURVED (19, DIR_AHEAD) 110 18 239],
     N 111 ''MR16'' NODE_MERGE (Some 16) 110 [E DIR_AHEAD (41, DIR_AHEAD) 111 40 128],
     N 112 ''BR17'' NODE_BRANCH (Some 17) 113 [E DIR_STRAIGHT (61, DIR_AHEAD) 112 60 239,
       E DIR_CURVED (63, DIR_AHEAD) 112 62 246],
     N 113 ''MR17'' NODE_MERGE (Some 17) 112 [E DIR_AHEAD (76, DIR_AHEAD) 113 77 43],
     N 114 ''BR18'' NODE_BRANCH (Some 18) 115 [E DIR_STRAIGHT (38, DIR_AHEAD) 114 39 231,
       E DIR_CURVED (90, DIR_CURVED) 114 91 371],
     N 115 ''MR18'' NODE_MERGE (Some 18) 114 [E DIR_AHEAD (89, DIR_AHEAD) 115 88 155]]"

(* src/src/lib/train/track_data.c:2227-2376 *)
definition trackb_7 :: "node_data list" where
  "trackb_7 = [
     N 116 ''BR153'' NODE_BRANCH (Some 153) 117 [E DIR_STRAIGHT (124, DIR_AHEAD) 116 125 253,
       E DIR_CURVED (33, DIR_AHEAD) 116 32 246],
     N 117 ''MR153'' NODE_MERGE (Some 153) 116 [E DIR_AHEAD (118, DIR_STRAIGHT) 117 119 0],
     N 118 ''BR154'' NODE_BRANCH (Some 154) 119 [E DIR_STRAIGHT (117, DIR_AHEAD) 118 116 0,
       E DIR_CURVED (28, DIR_AHEAD) 118 29 239],
     N 119 ''MR154'' NODE_MERGE (Some 154) 118 [E DIR_AHEAD (123, DIR_AHEAD) 119 122 0],
     N 120 ''BR155'' NODE_BRANCH (Some 155) 121 [E DIR_STRAIGHT (126, DIR_AHEAD) 120 127 282,
       E DIR_CURVED (48, DIR_AHEAD) 120 49 246],
     N 121 ''MR155'' NODE_MERGE (Some 155) 120 [E DIR_AHEAD (122, DIR_STRAIGHT) 121 123 0],
     N 122 ''BR156'' NODE_BRANCH (Some 156) 123 [E DIR_STRAIGHT (121, DIR_AHEAD) 122 120 0,
       E DIR_CURVED (64, DIR_AHEAD) 122 65 239],
     N 123 ''MR156'' NODE_MERGE (Some 156) 122 [E DIR_AHEAD (119, DIR_AHEAD) 123 118 0],
     N 124 ''EN1'' NODE_ENTER None 125 [E DIR_AHEAD (116, DIR_STRAIGHT) 124 117 253],
     N 125 ''EX1'' NODE_EXIT None 124 [],
     N 126 ''EN2'' NODE_ENTER None 127 [E DIR_AHEAD (120, DIR_STRAIGHT) 126 121 282],
     N 127 ''EX2'' NODE_EXIT None 126 [],
     N 128 ''EN3'' NODE_ENTER None 129 [E DIR_AHEAD (34, DIR_AHEAD) 128 35 514],
     N 129 ''EX3'' NODE_EXIT None 128 [],
     N 130 ''EN4'' NODE_ENTER None 131 [E DIR_AHEAD (13, DIR_AHEAD) 130 12 325],
     N 131 ''EX4'' NODE_EXIT None 130 [],
     N 132 ''EN5'' NODE_ENTER None 133 [E DIR_AHEAD (1, DIR_AHEAD) 132 0 504],
     N 133 ''EX5'' NODE_EXIT None 132 [],
     N 134 ''EN7'' NODE_ENTER None 135 [E DIR_AHEAD (23, DIR_AHEAD) 134 22 43],
     N 135 ''EX7'' NODE_EXIT None 134 [],
     N 136 ''EN9'' NODE_ENTER None 137 [E DIR_AHEAD (25, DIR_AHEAD) 136 24 50],
     N 137 ''EX9'' NODE_EXIT None 136 []]"

(* src/src/lib/train/track_data.c:2377-2386 *)
definition trackb_8 :: "node_data list" where
  "trackb_8 = [
     N 138 ''EN10'' NODE_ENTER None 139 [E DIR_AHEAD (27, DIR_AHEAD) 138 26 50],
     N 139 ''EX10'' NODE_EXIT None 138 []]"

definition trackb_data :: "node_data list" where
  "trackb_data = trackb_0 @ trackb_1 @ trackb_2 @ trackb_3 @ trackb_4 @ trackb_5 @ trackb_6 @ trackb_7 @ trackb_8"

section \<open>Initialisation and lookup\<close>

(* src/src/lib/train/track_data.c:38-41 *)
definition init_tracka :: "track \<Rightarrow> track option" where
  "init_tracka t = do {
     t \<leftarrow> (if TRACK_MAX \<le> length t then Some (replicate TRACK_MAX zero_node @ drop TRACK_MAX t) else None);
     t \<leftarrow> add_ids t;
     assign_all tracka_data t }"

(* src/src/lib/train/track_data.c:1224-1226 *)
definition init_trackb :: "track \<Rightarrow> track option" where
  "init_trackb t = do {
     t \<leftarrow> (if TRACK_MAX \<le> length t then Some (replicate TRACK_MAX zero_node @ drop TRACK_MAX t) else None);
     t \<leftarrow> add_ids t;
     assign_all trackb_data t }"

text \<open>The lookup of a node by its name. A null name is handed to \<^verbatim>\<open>streq\<close>, which reads through
  it: a fault.\<close>

fun trhr_from :: "track_node list \<Rightarrow> u8 list \<Rightarrow> int \<Rightarrow> int option" where
  "trhr_from [] nm i = Some (- 1)"
| "trhr_from (n # ns) nm i = do {
     s \<leftarrow> n_name n;
     b \<leftarrow> streq s nm;
     if b then Some i else trhr_from ns nm (i + 1) }"

(* src/src/lib/train/track_data.c:28-36 *)
definition trhr :: "track \<Rightarrow> u8 list \<Rightarrow> int option" where
  "trhr t nm = (if TRACK_MAX \<le> length t then trhr_from (take TRACK_MAX t) nm 0 else None)"

section \<open>Well-formed tracks\<close>

text \<open>\<open>edge_ok t i d\<close>: edge \<open>d\<close> of node \<open>i\<close> leads from \<open>i\<close> to a node of the track, is not shorter
  than nothing, and its reverse edge leaves the reverse of its destination for the reverse of
  \<open>i\<close>, over the same distance, and has this edge as its reverse.\<close>

definition n_edges :: "node_type \<Rightarrow> nat" where
  "n_edges ty = (case ty of NODE_SENSOR \<Rightarrow> 1 | NODE_MERGE \<Rightarrow> 1 | NODE_ENTER \<Rightarrow> 1 | NODE_BRANCH \<Rightarrow> 2
                 | NODE_EXIT \<Rightarrow> 0 | NODE_NONE \<Rightarrow> 0)"

fun reverse_type :: "node_type \<Rightarrow> node_type" where
  "reverse_type NODE_SENSOR = NODE_SENSOR"
| "reverse_type NODE_BRANCH = NODE_MERGE"
| "reverse_type NODE_MERGE = NODE_BRANCH"
| "reverse_type NODE_ENTER = NODE_EXIT"
| "reverse_type NODE_EXIT = NODE_ENTER"
| "reverse_type NODE_NONE = NODE_NONE"

definition edge_ok :: "track \<Rightarrow> nat \<Rightarrow> nat \<Rightarrow> bool" where
  "edge_ok t i d = (let e = n_edge (t ! i) ! d in
     e_src e = Some i \<and> 0 \<le> e_dist e \<and> e_dist e < 2000 \<and>
     (case (e_dest e, e_reverse e) of
        (Some j, Some (k, d')) \<Rightarrow>
          j < length t \<and> k < length t \<and> n_type (t ! j) \<noteq> NODE_NONE \<and> n_reverse (t ! j) = Some k \<and>
          d' < n_edges (n_type (t ! k)) \<and>
          (let r = n_edge (t ! k) ! d' in
             e_dest r = n_reverse (t ! i) \<and> e_dist r = e_dist e \<and> e_reverse r = Some (i, d))
      | _ \<Rightarrow> False))"

definition node_ok :: "track \<Rightarrow> nat \<Rightarrow> bool" where
  "node_ok t i = (let n = t ! i in
     n_id n = int i \<and> length (n_edge n) = 2 \<and>
     (n_type n = NODE_NONE \<or>
      (case n_reverse n of
         Some j \<Rightarrow> j < length t \<and> j \<noteq> i \<and> n_reverse (t ! j) = Some i \<and>
                   n_type (t ! j) = reverse_type (n_type n)
       | None \<Rightarrow> False) \<and>
      list_all (edge_ok t i) [0..<n_edges (n_type n)]))"

definition wf_track :: "track \<Rightarrow> bool" where
  "wf_track t = (length t = TRACK_MAX \<and> (\<forall>i \<in> set [0..<length t]. node_ok t i))"

text \<open>The nodes that a table leaves in a track, written down directly.\<close>

fun built :: "node_data \<Rightarrow> track_node" where
  "built (N i nm ty num rv es) = node_fill (N i nm ty num rv es) (zero_node\<lparr>n_id := int i\<rparr>)"

definition fresh_node :: "nat \<Rightarrow> track_node" where
  "fresh_node i = zero_node\<lparr>n_id := int i\<rparr>"

fun data_index :: "node_data \<Rightarrow> nat" where
  "data_index (N i nm ty num rv es) = i"

lemma built_fill: "built d = node_fill d (fresh_node (data_index d))"
  by (cases d) (simp add: fresh_node_def)

lemma node_assign_index: "node_assign d t =
  do { n \<leftarrow> aget t (data_index d); aset t (data_index d) (node_fill d n) }"
  by (cases d) simp

lemma assign_all_built:
  "map data_index ds = [k..<k + length ds] \<Longrightarrow> length pre = k \<Longrightarrow>
   assign_all ds (pre @ map fresh_node [k..<k + length ds] @ post) = Some (pre @ map built ds @ post)"
proof (induction ds arbitrary: k pre)
  case (Cons d ds)
  have k: "data_index d = k" and ds: "map data_index ds = [Suc k..<Suc k + length ds]"
    using Cons.prems(1) by (simp_all add: upt_conv_Cons del: upt_Suc)
  have "assign_all (d # ds) (pre @ map fresh_node [k..<k + length (d # ds)] @ post) =
        assign_all ds ((pre @ [built d]) @ map fresh_node [Suc k..<Suc k + length ds] @ post)"
    using Cons.prems(2) k
    by (simp add: node_assign_index built_fill upt_conv_Cons nth_append list_update_append del: upt_Suc)
  then show ?case
    using Cons.IH [OF ds, of "pre @ [built d]"] Cons.prems(2) by simp
qed simp

lemma add_ids_zero: "add_ids (replicate TRACK_MAX zero_node) = Some (map fresh_node [0..<TRACK_MAX])"
proof -
  have "fold (\<lambda>i t. t[i := (t ! i)\<lparr>n_id := int i\<rparr>]) [0..<m] (replicate n zero_node) =
        map fresh_node [0..<m] @ replicate (n - m) zero_node" if "m \<le> n" for m n
    using that
  proof (induction m)
    case (Suc m)
    then obtain k where k: "n = Suc m + k" using le_Suc_ex by blast
    from Suc have "fold (\<lambda>i t. t[i := (t ! i)\<lparr>n_id := int i\<rparr>]) [0..<m] (replicate n zero_node) =
        map fresh_node [0..<m] @ replicate (n - m) zero_node" by simp
    then show ?case
      using k by (simp add: Suc_diff_le fresh_node_def nth_append list_update_append)
  qed simp
  from this [of TRACK_MAX TRACK_MAX] show ?thesis
    by (simp add: add_ids_def del: upt_rec_numeral)
qed

text \<open>What the two tables leave in the arrays. Track B has 140 nodes: the last four stay zero.\<close>

definition tracka_nodes :: track where
  "tracka_nodes = map built tracka_data"

definition trackb_nodes :: track where
  "trackb_nodes = map built trackb_data @ map fresh_node [140..<144]"

lemma upt_0_numeral: "[0..<144] = 0 # 1 # [2..<144]" "[0..<140] = 0 # 1 # [2..<140]"
  by (simp_all add: upt_conv_Cons numeral_2_eq_2 del: upt_rec_numeral)

lemma tracka_index: "map data_index tracka_data = [0..<144]"
  unfolding upt_0_numeral by (simp add: tracka_data_def tracka_0_def tracka_1_def tracka_2_def tracka_3_def tracka_4_def tracka_5_def tracka_6_def tracka_7_def tracka_8_def)

lemma trackb_index: "map data_index trackb_data = [0..<140]"
  unfolding upt_0_numeral by (simp add: trackb_data_def trackb_0_def trackb_1_def trackb_2_def trackb_3_def trackb_4_def trackb_5_def trackb_6_def trackb_7_def trackb_8_def)

lemma tracka_length: "length tracka_data = 144"
  using arg_cong [OF tracka_index, of length] by (simp del: upt_rec_numeral)

lemma trackb_length: "length trackb_data = 140"
  using arg_cong [OF trackb_index, of length] by (simp del: upt_rec_numeral)

lemma init_tracka_nodes: "length t = TRACK_MAX \<Longrightarrow> init_tracka t = Some tracka_nodes"
  using assign_all_built [of tracka_data 0 "[]" "[]"] tracka_index
  by (simp add: init_tracka_def add_ids_zero tracka_nodes_def tracka_length del: upt_rec_numeral)

lemma init_trackb_nodes: "length t = TRACK_MAX \<Longrightarrow> init_trackb t = Some trackb_nodes"
proof -
  have "map fresh_node [0..<144] = map fresh_node [0..<140] @ map fresh_node [140..<144]"
    using upt_add_eq_append [of 0 140 4] by (simp del: upt_rec_numeral)
  moreover assume "length t = TRACK_MAX"
  ultimately show ?thesis
    using assign_all_built [of trackb_data 0 "[]" "map fresh_node [140..<144]"] trackb_index
    by (simp add: init_trackb_def add_ids_zero trackb_nodes_def trackb_length del: upt_rec_numeral)
qed

lemma tracka_lens:
  "length tracka_0 = 18"
  "length tracka_1 = 18"
  "length tracka_2 = 18"
  "length tracka_3 = 18"
  "length tracka_4 = 16"
  "length tracka_5 = 14"
  "length tracka_6 = 14"
  "length tracka_7 = 22"
  "length tracka_8 = 6"
  by (simp_all add: tracka_0_def tracka_1_def tracka_2_def tracka_3_def tracka_4_def tracka_5_def tracka_6_def tracka_7_def tracka_8_def)

lemma trackb_lens:
  "length trackb_0 = 18"
  "length trackb_1 = 18"
  "length trackb_2 = 18"
  "length trackb_3 = 18"
  "length trackb_4 = 16"
  "length trackb_5 = 14"
  "length trackb_6 = 14"
  "length trackb_7 = 22"
  "length trackb_8 = 2"
  by (simp_all add: trackb_0_def trackb_1_def trackb_2_def trackb_3_def trackb_4_def trackb_5_def trackb_6_def trackb_7_def trackb_8_def)

lemma nth_part:
  "length pre = n \<Longrightarrow> n \<le> i \<Longrightarrow> i < n + length x \<Longrightarrow> (pre @ x @ post) ! i = x ! (i - n)"
  by (auto simp: nth_append)

text \<open>Entry \<open>i\<close> of a table is found in one of the table's parts.\<close>

lemma tracka_part:
  "0 \<le> i \<Longrightarrow> i < 18 \<Longrightarrow> tracka_data ! i = tracka_0 ! (i - 0)"
  "18 \<le> i \<Longrightarrow> i < 36 \<Longrightarrow> tracka_data ! i = tracka_1 ! (i - 18)"
  "36 \<le> i \<Longrightarrow> i < 54 \<Longrightarrow> tracka_data ! i = tracka_2 ! (i - 36)"
  "54 \<le> i \<Longrightarrow> i < 72 \<Longrightarrow> tracka_data ! i = tracka_3 ! (i - 54)"
  "72 \<le> i \<Longrightarrow> i < 88 \<Longrightarrow> tracka_data ! i = tracka_4 ! (i - 72)"
  "88 \<le> i \<Longrightarrow> i < 102 \<Longrightarrow> tracka_data ! i = tracka_5 ! (i - 88)"
  "102 \<le> i \<Longrightarrow> i < 116 \<Longrightarrow> tracka_data ! i = tracka_6 ! (i - 102)"
  "116 \<le> i \<Longrightarrow> i < 138 \<Longrightarrow> tracka_data ! i = tracka_7 ! (i - 116)"
  "138 \<le> i \<Longrightarrow> i < 144 \<Longrightarrow> tracka_data ! i = tracka_8 ! (i - 138)"
  unfolding tracka_data_def
  using nth_part [of "[]" 0 i tracka_0 "tracka_1 @ tracka_2 @ tracka_3 @ tracka_4 @ tracka_5 @ tracka_6 @ tracka_7 @ tracka_8"]
    nth_part [of "tracka_0" 18 i tracka_1 "tracka_2 @ tracka_3 @ tracka_4 @ tracka_5 @ tracka_6 @ tracka_7 @ tracka_8"]
    nth_part [of "tracka_0 @ tracka_1" 36 i tracka_2 "tracka_3 @ tracka_4 @ tracka_5 @ tracka_6 @ tracka_7 @ tracka_8"]
    nth_part [of "tracka_0 @ tracka_1 @ tracka_2" 54 i tracka_3 "tracka_4 @ tracka_5 @ tracka_6 @ tracka_7 @ tracka_8"]
    nth_part [of "tracka_0 @ tracka_1 @ tracka_2 @ tracka_3" 72 i tracka_4 "tracka_5 @ tracka_6 @ tracka_7 @ tracka_8"]
    nth_part [of "tracka_0 @ tracka_1 @ tracka_2 @ tracka_3 @ tracka_4" 88 i tracka_5 "tracka_6 @ tracka_7 @ tracka_8"]
    nth_part [of "tracka_0 @ tracka_1 @ tracka_2 @ tracka_3 @ tracka_4 @ tracka_5" 102 i tracka_6 "tracka_7 @ tracka_8"]
    nth_part [of "tracka_0 @ tracka_1 @ tracka_2 @ tracka_3 @ tracka_4 @ tracka_5 @ tracka_6" 116 i tracka_7 "tracka_8"]
    nth_part [of "tracka_0 @ tracka_1 @ tracka_2 @ tracka_3 @ tracka_4 @ tracka_5 @ tracka_6 @ tracka_7" 138 i tracka_8 "[]"]
  by (simp_all add: tracka_lens)

lemma trackb_part:
  "0 \<le> i \<Longrightarrow> i < 18 \<Longrightarrow> trackb_data ! i = trackb_0 ! (i - 0)"
  "18 \<le> i \<Longrightarrow> i < 36 \<Longrightarrow> trackb_data ! i = trackb_1 ! (i - 18)"
  "36 \<le> i \<Longrightarrow> i < 54 \<Longrightarrow> trackb_data ! i = trackb_2 ! (i - 36)"
  "54 \<le> i \<Longrightarrow> i < 72 \<Longrightarrow> trackb_data ! i = trackb_3 ! (i - 54)"
  "72 \<le> i \<Longrightarrow> i < 88 \<Longrightarrow> trackb_data ! i = trackb_4 ! (i - 72)"
  "88 \<le> i \<Longrightarrow> i < 102 \<Longrightarrow> trackb_data ! i = trackb_5 ! (i - 88)"
  "102 \<le> i \<Longrightarrow> i < 116 \<Longrightarrow> trackb_data ! i = trackb_6 ! (i - 102)"
  "116 \<le> i \<Longrightarrow> i < 138 \<Longrightarrow> trackb_data ! i = trackb_7 ! (i - 116)"
  "138 \<le> i \<Longrightarrow> i < 140 \<Longrightarrow> trackb_data ! i = trackb_8 ! (i - 138)"
  unfolding trackb_data_def
  using nth_part [of "[]" 0 i trackb_0 "trackb_1 @ trackb_2 @ trackb_3 @ trackb_4 @ trackb_5 @ trackb_6 @ trackb_7 @ trackb_8"]
    nth_part [of "trackb_0" 18 i trackb_1 "trackb_2 @ trackb_3 @ trackb_4 @ trackb_5 @ trackb_6 @ trackb_7 @ trackb_8"]
    nth_part [of "trackb_0 @ trackb_1" 36 i trackb_2 "trackb_3 @ trackb_4 @ trackb_5 @ trackb_6 @ trackb_7 @ trackb_8"]
    nth_part [of "trackb_0 @ trackb_1 @ trackb_2" 54 i trackb_3 "trackb_4 @ trackb_5 @ trackb_6 @ trackb_7 @ trackb_8"]
    nth_part [of "trackb_0 @ trackb_1 @ trackb_2 @ trackb_3" 72 i trackb_4 "trackb_5 @ trackb_6 @ trackb_7 @ trackb_8"]
    nth_part [of "trackb_0 @ trackb_1 @ trackb_2 @ trackb_3 @ trackb_4" 88 i trackb_5 "trackb_6 @ trackb_7 @ trackb_8"]
    nth_part [of "trackb_0 @ trackb_1 @ trackb_2 @ trackb_3 @ trackb_4 @ trackb_5" 102 i trackb_6 "trackb_7 @ trackb_8"]
    nth_part [of "trackb_0 @ trackb_1 @ trackb_2 @ trackb_3 @ trackb_4 @ trackb_5 @ trackb_6" 116 i trackb_7 "trackb_8"]
    nth_part [of "trackb_0 @ trackb_1 @ trackb_2 @ trackb_3 @ trackb_4 @ trackb_5 @ trackb_6 @ trackb_7" 138 i trackb_8 "[]"]
  by (simp_all add: trackb_lens)

lemma tracka_nth: "i < 144 \<Longrightarrow> tracka_nodes ! i = built (tracka_data ! i)"
  using tracka_length by (simp add: tracka_nodes_def)

lemma trackb_nth:
  "i < 140 \<Longrightarrow> trackb_nodes ! i = built (trackb_data ! i)"
  "140 \<le> i \<Longrightarrow> i < 144 \<Longrightarrow> trackb_nodes ! i = fresh_node i"
  using trackb_length by (simp_all add: trackb_nodes_def nth_append del: upt_rec_numeral)

lemma nodes_length [simp]: "length tracka_nodes = 144" "length trackb_nodes = 144"
  by (simp_all add: tracka_nodes_def trackb_nodes_def tracka_length trackb_length)

lemmas tracka_at = tracka_nth tracka_part
  tracka_0_def tracka_1_def tracka_2_def tracka_3_def tracka_4_def tracka_5_def tracka_6_def tracka_7_def tracka_8_def
lemmas trackb_at = trackb_nth trackb_part
  trackb_0_def trackb_1_def trackb_2_def trackb_3_def trackb_4_def trackb_5_def trackb_6_def trackb_7_def trackb_8_def

lemma edge_range: "[0..<Suc 0] = [0]" "[0..<2] = [0, Suc 0]"
  by (simp_all add: upt_conv_Cons)

definition null_edge :: track_edge where
  "null_edge = \<lparr>e_reverse = None, e_src = None, e_dest = None, e_dist = 0\<rparr>"

lemma built_simps:
  "built (N i nm ty num rv []) =
     \<lparr>n_reserver = 0, n_name = Some (cstr nm), n_type = ty, n_id = int i,
      n_num = (case num of None \<Rightarrow> 0 | Some k \<Rightarrow> k), n_reverse = Some rv,
      n_edge = [null_edge, null_edge]\<rparr>"
  "built (N i nm ty num rv [E 0 r s t k]) =
     \<lparr>n_reserver = 0, n_name = Some (cstr nm), n_type = ty, n_id = int i,
      n_num = (case num of None \<Rightarrow> 0 | Some k \<Rightarrow> k), n_reverse = Some rv,
      n_edge = [\<lparr>e_reverse = Some r, e_src = Some s, e_dest = Some t, e_dist = k\<rparr>, null_edge]\<rparr>"
  "built (N i nm ty num rv [E 0 r s t k, E 1 r' s' t' k']) =
     \<lparr>n_reserver = 0, n_name = Some (cstr nm), n_type = ty, n_id = int i,
      n_num = (case num of None \<Rightarrow> 0 | Some k \<Rightarrow> k), n_reverse = Some rv,
      n_edge = [\<lparr>e_reverse = Some r, e_src = Some s, e_dest = Some t, e_dist = k\<rparr>,
                \<lparr>e_reverse = Some r', e_src = Some s', e_dest = Some t', e_dist = k'\<rparr>]\<rparr>"
  by (simp_all add: zero_node_def null_edge_def numeral_2_eq_2 split: option.split)

lemma fresh_node_eq:
  "fresh_node i = \<lparr>n_reserver = 0, n_name = None, n_type = NODE_NONE, n_id = int i, n_num = 0,
     n_reverse = None, n_edge = [null_edge, null_edge]\<rparr>"
  by (simp add: fresh_node_def zero_node_def null_edge_def numeral_2_eq_2)

declare built.simps [simp del] built_simps [simplified, simp]

lemmas wf_defs = node_ok_def edge_ok_def n_edges_def fresh_node_eq Let_def edge_range

lemma tracka_ok_1:
  "node_ok tracka_nodes 0" "node_ok tracka_nodes 1"
  "\<forall>i \<in> set [2..<20]. node_ok tracka_nodes i"
  "\<forall>i \<in> set [20..<40]. node_ok tracka_nodes i"
  by (simp_all add: wf_defs tracka_at cong: if_weak_cong)

lemma tracka_ok_2:
  "\<forall>i \<in> set [40..<60]. node_ok tracka_nodes i"
  "\<forall>i \<in> set [60..<80]. node_ok tracka_nodes i"
  "\<forall>i \<in> set [80..<88]. node_ok tracka_nodes i"
  by (simp_all add: wf_defs tracka_at cong: if_weak_cong)

lemma tracka_ok_3:
  "\<forall>i \<in> set [88..<96]. node_ok tracka_nodes i"
  "\<forall>i \<in> set [96..<104]. node_ok tracka_nodes i"
  "\<forall>i \<in> set [104..<112]. node_ok tracka_nodes i"
  by (simp_all add: wf_defs tracka_at cong: if_weak_cong)

lemma tracka_ok_4:
  "\<forall>i \<in> set [112..<120]. node_ok tracka_nodes i"
  "\<forall>i \<in> set [120..<130]. node_ok tracka_nodes i"
  "\<forall>i \<in> set [130..<144]. node_ok tracka_nodes i"
  by (simp_all add: wf_defs tracka_at cong: if_weak_cong)

lemmas tracka_ok = tracka_ok_1 tracka_ok_2 tracka_ok_3 tracka_ok_4

lemma trackb_ok_1:
  "node_ok trackb_nodes 0" "node_ok trackb_nodes 1"
  "\<forall>i \<in> set [2..<20]. node_ok trackb_nodes i"
  "\<forall>i \<in> set [20..<40]. node_ok trackb_nodes i"
  by (simp_all add: wf_defs trackb_at cong: if_weak_cong)

lemma trackb_ok_2:
  "\<forall>i \<in> set [40..<60]. node_ok trackb_nodes i"
  "\<forall>i \<in> set [60..<80]. node_ok trackb_nodes i"
  "\<forall>i \<in> set [80..<88]. node_ok trackb_nodes i"
  by (simp_all add: wf_defs trackb_at cong: if_weak_cong)

lemma trackb_ok_3:
  "\<forall>i \<in> set [88..<96]. node_ok trackb_nodes i"
  "\<forall>i \<in> set [96..<104]. node_ok trackb_nodes i"
  "\<forall>i \<in> set [104..<112]. node_ok trackb_nodes i"
  by (simp_all add: wf_defs trackb_at cong: if_weak_cong)

lemma trackb_ok_4:
  "\<forall>i \<in> set [112..<120]. node_ok trackb_nodes i"
  "\<forall>i \<in> set [120..<130]. node_ok trackb_nodes i"
  "\<forall>i \<in> set [130..<144]. node_ok trackb_nodes i"
  by (simp_all add: wf_defs trackb_at cong: if_weak_cong)

lemmas trackb_ok = trackb_ok_1 trackb_ok_2 trackb_ok_3 trackb_ok_4

lemma wf_trackI:
  assumes "length t = 144" "node_ok t 0" "node_ok t 1" "\<And>i. 2 \<le> i \<Longrightarrow> i < 144 \<Longrightarrow> node_ok t i"
  shows "wf_track t"
proof -
  have "node_ok t i" if "i < 144" for i
    using assms that by (cases "i = 0"; cases "i = 1") auto
  then show ?thesis
    using assms(1) by (simp add: wf_track_def)
qed

lemma ball_upt_append:
  "(\<forall>i \<in> set [a..<b]. P i) \<Longrightarrow> (\<forall>i \<in> set [b..<c]. P i) \<Longrightarrow> (\<forall>i \<in> set [a..<c]. P i)" for a b c :: nat
  by (simp del: upt_rec_numeral) (metis atLeastLessThan_iff not_le)

lemma wf_tracka: "wf_track tracka_nodes"
proof (rule wf_trackI)
  show "node_ok tracka_nodes i" if "2 \<le> i" "i < 144" for i
    using tracka_ok(3) [THEN ball_upt_append, OF tracka_ok(4), THEN ball_upt_append, OF tracka_ok(5), THEN ball_upt_append, OF tracka_ok(6), THEN ball_upt_append, OF tracka_ok(7),
      THEN ball_upt_append, OF tracka_ok(8), THEN ball_upt_append, OF tracka_ok(9), THEN ball_upt_append, OF tracka_ok(10), THEN ball_upt_append, OF tracka_ok(11), THEN ball_upt_append, OF tracka_ok(12), THEN ball_upt_append, OF tracka_ok(13)] that
    by (simp del: upt_rec_numeral)
qed (rule nodes_length tracka_ok)+

lemma wf_trackb: "wf_track trackb_nodes"
proof (rule wf_trackI)
  show "node_ok trackb_nodes i" if "2 \<le> i" "i < 144" for i
    using trackb_ok(3) [THEN ball_upt_append, OF trackb_ok(4), THEN ball_upt_append, OF trackb_ok(5), THEN ball_upt_append, OF trackb_ok(6), THEN ball_upt_append, OF trackb_ok(7),
      THEN ball_upt_append, OF trackb_ok(8), THEN ball_upt_append, OF trackb_ok(9), THEN ball_upt_append, OF trackb_ok(10), THEN ball_upt_append, OF trackb_ok(11), THEN ball_upt_append, OF trackb_ok(12), THEN ball_upt_append, OF trackb_ok(13)] that
    by (simp del: upt_rec_numeral)
qed (rule nodes_length trackb_ok)+

section \<open>Names\<close>

fun data_name :: "node_data \<Rightarrow> string" where
  "data_name (N i nm ty num rv es) = nm"

definition c_string :: "string \<Rightarrow> bool" where
  "c_string s = list_all (\<lambda>c. (of_char c :: u8) \<noteq> 0) s"

lemma of_char_u8_inj: "(of_char c :: u8) = of_char d \<longleftrightarrow> c = d"
proof
  assume e: "(of_char c :: u8) = of_char d"
  have "unat (of_char c :: u8) = of_char c" for c
  proof -
    have "(of_char c :: u8) = of_nat (of_char c)" by (cases c) (simp add: of_char_def)
    then show ?thesis by (simp only: unat_of_nat) simp
  qed
  with e have "(of_char c :: nat) = of_char d"
    by metis
  then show "c = d" by simp
qed simp

lemma streq_cstr: "c_string s \<Longrightarrow> c_string t \<Longrightarrow> streq (cstr s) (cstr t) = Some (s = t)"
proof (induction s arbitrary: t)
  case Nil
  then show ?case by (cases t) (simp_all add: cstr_def c_string_def)
next
  case (Cons c s)
  then show ?case
    by (cases t) (auto simp: cstr_def c_string_def of_char_u8_inj)
qed

lemma built_name: "n_name (built d) = Some (cstr (data_name d))"
proof -
  have "n_name (fold edge_assign es n) = n_name n" for es n
  proof (induction es arbitrary: n)
    case (Cons e es)
    then show ?case by (cases e) simp
  qed simp
  then show ?thesis by (cases d) (simp add: built.simps)
qed

lemma trhr_from_skip:
  "list_all (\<lambda>d. c_string (data_name d)) ds \<Longrightarrow> c_string nm \<Longrightarrow> nm \<notin> set (map data_name ds) \<Longrightarrow>
   trhr_from (map built ds @ ns) (cstr nm) k = trhr_from ns (cstr nm) (k + int (length ds))"
  by (induction ds arbitrary: k) (auto simp: built_name streq_cstr algebra_simps)

lemma trhr_from_hit:
  assumes "list_all (\<lambda>d. c_string (data_name d)) ds" "distinct (map data_name ds)" "j < length ds"
  shows "trhr_from (map built ds @ ns) (cstr (data_name (ds ! j))) k = Some (k + int j)"
proof -
  define pre post where "pre = take j ds" and "post = drop (Suc j) ds"
  have ds: "ds = pre @ ds ! j # post" and len: "length pre = j"
    using assms(3) by (simp_all add: pre_def post_def id_take_nth_drop)
  have "distinct (map data_name (pre @ ds ! j # post))"
    "list_all (\<lambda>d. c_string (data_name d)) (pre @ ds ! j # post)"
    using assms(1,2) ds by simp_all
  then have "trhr_from (map built (pre @ ds ! j # post) @ ns) (cstr (data_name (ds ! j))) k = Some (k + int j)"
    using trhr_from_skip [of pre "data_name (ds ! j)" "built (ds ! j) # map built post @ ns" k] len
    by (auto simp: built_name streq_cstr)
  with ds show ?thesis by simp
qed

text \<open>The tables' names are pairwise different strings.\<close>

lemma tracka_names: "distinct (map data_name tracka_data)"
  by (simp add: tracka_data_def tracka_0_def tracka_1_def tracka_2_def tracka_3_def tracka_4_def tracka_5_def tracka_6_def tracka_7_def tracka_8_def)

lemma trackb_names: "distinct (map data_name trackb_data)"
  by (simp add: trackb_data_def trackb_0_def trackb_1_def trackb_2_def trackb_3_def trackb_4_def trackb_5_def trackb_6_def trackb_7_def trackb_8_def)

lemma tracka_c_strings: "list_all (\<lambda>d. c_string (data_name d)) tracka_data"
  by (simp add: c_string_def tracka_data_def tracka_0_def tracka_1_def tracka_2_def tracka_3_def tracka_4_def tracka_5_def tracka_6_def tracka_7_def tracka_8_def)

lemma trackb_c_strings: "list_all (\<lambda>d. c_string (data_name d)) trackb_data"
  by (simp add: c_string_def trackb_data_def trackb_0_def trackb_1_def trackb_2_def trackb_3_def trackb_4_def trackb_5_def trackb_6_def trackb_7_def trackb_8_def)

lemma trhr_tracka:
  "i < 144 \<Longrightarrow> trhr tracka_nodes (cstr (data_name (tracka_data ! i))) = Some (int i)"
  "c_string nm \<Longrightarrow> nm \<notin> set (map data_name tracka_data) \<Longrightarrow> trhr tracka_nodes (cstr nm) = Some (- 1)"
  using trhr_from_hit [OF tracka_c_strings tracka_names, of i "[]" 0]
    trhr_from_skip [OF tracka_c_strings, of nm "[]" 0]
  by (simp_all add: trhr_def tracka_length tracka_nodes_def)

lemma trhr_trackb:
  "i < 140 \<Longrightarrow> trhr trackb_nodes (cstr (data_name (trackb_data ! i))) = Some (int i)"
  "c_string nm \<Longrightarrow> nm \<notin> set (map data_name trackb_data) \<Longrightarrow> trhr trackb_nodes (cstr nm) = None"
  using trhr_from_hit [OF trackb_c_strings trackb_names, of i "map fresh_node [140..<144]" 0]
    trhr_from_skip [OF trackb_c_strings, of nm "map fresh_node [140..<144]" 0]
  by (simp_all add: trhr_def trackb_length trackb_nodes_def fresh_node_eq)


section \<open>The tracks\<close>

text \<open>C35: Initialising an array of \<open>TRACK_MAX\<close> nodes with \<^verbatim>\<open>init_tracka\<close> or \<^verbatim>\<open>init_trackb\<close> always
  returns, whatever the array held, and leaves a well-formed track: every node carries its index
  as its id, a sensor, merge or enter node has one edge, a branch two, an exit none; the reverse
  of a node's reverse is the node, a branch reverses to a merge and an enter to an exit; every
  edge leads from its owner to a node of the track over a distance from 0 to 1999 mm, and its
  reverse edge runs from the reverse of its destination to the reverse of its source, over the
  same distance, and has it as its reverse.\<close>

theorem tracks_consistent:
  "length t = TRACK_MAX \<Longrightarrow>
   (\<exists>ta. init_tracka t = Some ta \<and> wf_track ta) \<and> (\<exists>tb. init_trackb t = Some tb \<and> wf_track tb)"
  using init_tracka_nodes init_trackb_nodes wf_tracka wf_trackb by blast

theorem tracks_consistent_witness:
  "\<exists>ta. init_tracka (replicate 144 zero_node) = Some ta \<and> wf_track ta"
  using tracks_consistent [of "replicate 144 zero_node"] by simp

text \<open>Looking a node up by its name finds it: \<^verbatim>\<open>trhr\<close> on track A returns \<open>i\<close> for the name
  of node \<open>i\<close>, for each of the 144 nodes, and -1 for every other string; on track B it returns
  \<open>i\<close> for each of the 140 nodes the table names, but a string that is no name makes it read
  through the null names of the last four nodes.\<close>

theorem trhr_finds:
  assumes "init_tracka t = Some ta" "init_trackb t = Some tb" "length t = TRACK_MAX"
  shows "(\<forall>i<144. \<exists>nm. n_name (ta ! i) = Some nm \<and> trhr ta nm = Some (int i)) \<and>
    (\<forall>i<140. \<exists>nm. n_name (tb ! i) = Some nm \<and> trhr tb nm = Some (int i)) \<and>
    (\<forall>s. c_string s \<longrightarrow>
       (trhr ta (cstr s) = Some (- 1) \<longleftrightarrow> Some (cstr s) \<notin> n_name ` set ta) \<and>
       (trhr tb (cstr s) = None \<longleftrightarrow> Some (cstr s) \<notin> n_name ` set tb))"
proof -
  have t: "ta = tracka_nodes" "tb = trackb_nodes"
    using assms init_tracka_nodes init_trackb_nodes by simp_all
  have eqs: "cstr s = cstr s' \<longleftrightarrow> s = s'" for s s'
    by (auto simp: cstr_def of_char_u8_inj inj_map_eq_map inj_def)
  have nmA: "n_name ` set ta = (\<lambda>d. Some (cstr (data_name d))) ` set tracka_data"
    unfolding t tracka_nodes_def by (simp add: image_image built_name)
  have nmB: "n_name ` set tb = insert None ((\<lambda>d. Some (cstr (data_name d))) ` set trackb_data)"
    unfolding t trackb_nodes_def
    by (simp add: image_Un image_image built_name fresh_node_eq image_constant_conv del: upt_rec_numeral)
  have A: "trhr ta (cstr s) = Some (- 1) \<longleftrightarrow> Some (cstr s) \<notin> n_name ` set ta" if "c_string s" for s
  proof (cases "s \<in> set (map data_name tracka_data)")
    case True
    then obtain i where "i < 144" "s = data_name (tracka_data ! i)"
      by (auto simp: in_set_conv_nth tracka_length)
    with True show ?thesis using trhr_tracka(1) [of i] by (auto simp: nmA [unfolded t] t)
  next
    case False
    with that show ?thesis using trhr_tracka(2) [of s] nmA eqs t by auto
  qed
  have B: "trhr tb (cstr s) = None \<longleftrightarrow> Some (cstr s) \<notin> n_name ` set tb" if "c_string s" for s
  proof (cases "s \<in> set (map data_name trackb_data)")
    case True
    then obtain i where "i < 140" "s = data_name (trackb_data ! i)"
      by (auto simp: in_set_conv_nth trackb_length)
    with True show ?thesis using trhr_trackb(1) [of i] by (auto simp: nmB [unfolded t] t)
  next
    case False
    with that show ?thesis using trhr_trackb(2) [of s] nmB eqs t by auto
  qed
  show ?thesis
    using A B trhr_tracka(1) trhr_trackb(1)
    by (auto simp: t tracka_nth trackb_nth built_name)
qed

theorem trhr_finds_witness:
  "\<exists>ta tb. init_tracka (replicate 144 zero_node) = Some ta \<and> init_trackb (replicate 144 zero_node) = Some tb \<and>
     trhr ta (cstr ''nowhere'') = Some (- 1) = (Some (cstr ''nowhere'') \<notin> n_name ` set ta) \<and>
     (\<exists>nm. n_name (tb ! 7) = Some nm \<and> trhr tb nm = Some 7)"
proof -
  obtain ta tb where t: "init_tracka (replicate 144 zero_node) = Some ta"
    "init_trackb (replicate 144 zero_node) = Some tb"
    using init_tracka_nodes init_trackb_nodes by force
  note f = trhr_finds [OF t, simplified]
  have "c_string ''nowhere''" by (simp add: c_string_def)
  moreover have "\<exists>nm. n_name (tb ! 7) = Some nm \<and> trhr tb nm = Some (int 7)"
    using f [THEN conjunct2, THEN conjunct1, rule_format, of 7] by simp
  ultimately show ?thesis using t f by auto
qed

end
