(* ===== verification/TrackNode.thy ===== *)
theory TrackNode
  imports TrackData CircBuf
begin

text \<open>
  The searches over the track graph, lib/train/track_node.c. A walk is a sequence of edges taken
  forwards; its length is the sum of their distances. The searches are breadth-first over a
  circular buffer of \<open>BFS_Q_SIZE\<close> node pointers, and give up when it is full.
\<close>

section \<open>Reading the track\<close>

text \<open>\<open>node_at t p\<close> is \<^verbatim>\<open>*p\<close>: a null pointer or one outside the track is a fault.\<close>

definition node_at :: "track \<Rightarrow> node_ptr \<Rightarrow> track_node option" where
  "node_at t p = do { i \<leftarrow> p; aget t i }"

text \<open>\<open>exits t i d s j\<close>: edge \<open>d\<close> of node \<open>i\<close> leads to node \<open>j\<close> over the distance \<open>s\<close>.\<close>

definition exits :: "track \<Rightarrow> nat \<Rightarrow> nat \<Rightarrow> int \<Rightarrow> nat \<Rightarrow> bool" where
  "exits t i d s j = (i < length t \<and> d < n_edges (n_type (t ! i)) \<and>
     e_dist (n_edge (t ! i) ! d) = s \<and> e_dest (n_edge (t ! i) ! d) = Some j)"

inductive walk :: "track \<Rightarrow> nat \<Rightarrow> nat \<Rightarrow> int \<Rightarrow> nat \<Rightarrow> bool" for t where
  stop: "walk t i 0 0 i"
| go: "walk t i k s j \<Longrightarrow> exits t j d s' m \<Longrightarrow> walk t i (Suc k) (s + s') m"

inductive_cases walk_SucE: "walk t i (Suc k) s j"
inductive_simps walk_0: "walk t i 0 s j"

lemma walk_first: "exits t i d s j \<Longrightarrow> walk t j k s' m \<Longrightarrow> walk t i (Suc k) (s + s') m"
proof (induction k arbitrary: m s')
  case 0
  then show ?case using walk.go [OF walk.stop, of t i d s j] by (simp add: walk_0)
next
  case (Suc k)
  from Suc.prems(2) obtain s1 s2 j' d' where
    *: "s' = s1 + s2" "walk t j k s1 j'" "exits t j' d' s2 m"
    by (rule walk_SucE)
  from Suc.IH [OF Suc.prems(1) *(2)] *(3) have "walk t i (Suc (Suc k)) (s + s1 + s2) m"
    by (rule walk.go)
  with *(1) show ?case by (simp add: add.assoc)
qed

lemma walk_SucD:
  "walk t i (Suc k) s m \<Longrightarrow> \<exists>d s1 j s2. exits t i d s1 j \<and> walk t j k s2 m \<and> s = s1 + s2"
proof (induction k arbitrary: s m)
  case 0
  then show ?case by (auto simp: walk_0 elim!: walk_SucE)
next
  case (Suc k)
  from Suc.prems obtain s1 s2 j d where *: "s = s1 + s2" "walk t i (Suc k) s1 j" "exits t j d s2 m"
    by (rule walk_SucE)
  from Suc.IH [OF *(2)] obtain d' a j' b where
    "exits t i d' a j'" "walk t j' k b j" "s1 = a + b" by blast
  moreover have "walk t j' (Suc k) (b + s2) m"
    using walk.go [OF calculation(2) *(3)] .
  ultimately show ?case using *(1) by (metis add.assoc)
qed

section \<open>Well-formed tracks\<close>

lemma wf_node: "wf_track t \<Longrightarrow> i < TRACK_MAX \<Longrightarrow> node_ok t i"
  by (simp add: wf_track_def)

lemma wf_length [simp]: "wf_track t \<Longrightarrow> length t = TRACK_MAX"
  by (simp add: wf_track_def)

lemma wf_id: "wf_track t \<Longrightarrow> i < TRACK_MAX \<Longrightarrow> n_id (t ! i) = int i"
  using wf_node [of t i] by (simp add: node_ok_def Let_def)

lemma wf_n_edge: "wf_track t \<Longrightarrow> i < TRACK_MAX \<Longrightarrow> length (n_edge (t ! i)) = 2"
  using wf_node [of t i] by (simp add: node_ok_def Let_def)

lemma n_edges_le: "n_edges ty \<le> 2"
  by (simp add: n_edges_def split: node_type.split)

lemma n_edges_NONE [simp]: "n_edges NODE_NONE = 0"
  by (simp add: n_edges_def)

lemma wf_edge:
  assumes "wf_track t" "i < TRACK_MAX" "d < n_edges (n_type (t ! i))"
  shows "edge_ok t i d"
proof -
  have "n_type (t ! i) \<noteq> NODE_NONE" using assms(3) by (cases "n_type (t ! i)") simp_all
  then show ?thesis
    using wf_node [OF assms(1,2)] assms(3) by (simp add: node_ok_def Let_def list_all_iff)
qed

lemma wf_exits:
  assumes "wf_track t" "i < TRACK_MAX" "d < n_edges (n_type (t ! i))"
  obtains s j where "exits t i d s j" "0 \<le> s" "s < 2000" "j < TRACK_MAX" "n_type (t ! j) \<noteq> NODE_NONE"
    "e_dest (n_edge (t ! i) ! d) = Some j" "e_dist (n_edge (t ! i) ! d) = s"
  using wf_edge [OF assms] assms that
  by (auto simp: edge_ok_def exits_def Let_def split: option.splits)

lemma exitsD:
  assumes "wf_track t" "exits t i d s j"
  shows "i < TRACK_MAX" "j < TRACK_MAX" "0 \<le> s" "s < 2000" "n_type (t ! j) \<noteq> NODE_NONE"
  using wf_exits [OF assms(1), of i d] assms by (force simp: exits_def)+

text \<open>The way back: the reverse of an edge leads from the reverse of its end to the reverse of
  its start.\<close>

lemma exits_reverse:
  assumes wf: "wf_track t" and e: "exits t i d s j"
  shows "\<exists>i' j' d'. n_reverse (t ! i) = Some i' \<and> n_reverse (t ! j) = Some j' \<and> exits t j' d' s i'"
proof -
  have i: "i < TRACK_MAX" "d < n_edges (n_type (t ! i))"
    using e wf by (auto simp: exits_def)
  then have "n_type (t ! i) \<noteq> NODE_NONE" by (cases "n_type (t ! i)") simp_all
  then obtain i' where "n_reverse (t ! i) = Some i'"
    using wf_node [OF wf i(1)] by (auto simp: node_ok_def Let_def split: option.splits)
  then show ?thesis
    using wf_edge [OF wf i] e
    by (auto simp: edge_ok_def exits_def Let_def split: option.splits)
qed

lemma walk_reverse:
  assumes wf: "wf_track t"
  shows "walk t i k s j \<Longrightarrow> n_reverse (t ! i) = Some i' \<Longrightarrow> n_reverse (t ! j) = Some j' \<Longrightarrow>
    walk t j' k s i'"
proof (induction arbitrary: j' rule: walk.induct)
  case (stop i)
  then show ?case by (auto intro: walk.stop)
next
  case (go i k s j d s' m)
  from exits_reverse [OF wf go.hyps(2)] go.prems(2) obtain j1 d1 where
    *: "n_reverse (t ! j) = Some j1" "exits t j' d1 s' j1" by auto
  from walk_first [OF *(2) go.IH [OF go.prems(1) *(1)]] show ?case
    by (simp add: add.commute)
qed

lemma walk_end: "walk t i k s j \<Longrightarrow> wf_track t \<Longrightarrow> i < TRACK_MAX \<Longrightarrow> j < TRACK_MAX"
  by (induction rule: walk.induct) (auto dest: exitsD)

lemma walk_nonneg: "walk t i k s j \<Longrightarrow> wf_track t \<Longrightarrow> 0 \<le> s"
  by (induction rule: walk.induct) (auto dest: exitsD)

section \<open>The searches\<close>

text \<open>The array \<^verbatim>\<open>dist\<close> (\<^verbatim>\<open>nse\<close>) starts uninitialised: \<open>None\<close> is an indeterminate value, and reading it is
  a fault. A pointer to the result, as \<^verbatim>\<open>bfs_q_pop\<close> has, is written on success.\<close>

type_synonym scratch = "int option list"

abbreviation BFS_Q_SIZE :: nat where "BFS_Q_SIZE \<equiv> 16"

definition rd_scratch :: "scratch \<Rightarrow> int \<Rightarrow> int option" where
  "rd_scratch a i = do { v \<leftarrow> agetz a i; v }"

text \<open>The start of a search: \<^verbatim>\<open>bfs_q_init\<close>, the scratch entry of the start node, its push.\<close>

definition bfs_start :: "track \<Rightarrow> node_ptr \<Rightarrow> int \<Rightarrow> (scratch \<times> node_ptr cbuf) option" where
  "bfs_start t node v = do {
     n \<leftarrow> node_at t node;
     a \<leftarrow> asetz (replicate TRACK_MAX None) (n_id n) (Some v);
     (_, q) \<leftarrow> cb_push BFS_Q_SIZE node
       (cb_init \<lparr>cb_buf = replicate BFS_Q_SIZE None, cb_start = 0, cb_end = 0, cb_size = 0\<rparr>);
     Some (a, q) }"

text \<open>Following one edge: \<^verbatim>\<open>next = node->edge[dir].dest; dist[next->id] = \<close>the value computed from
  the edge's distance and the node's entry\<^verbatim>\<open>; r = bfs_q_push(&q, next)\<close>.\<close>

definition bfs_visit :: "track \<Rightarrow> (int \<Rightarrow> int \<Rightarrow> int) \<Rightarrow> nat \<Rightarrow> track_node \<Rightarrow> scratch \<times> node_ptr cbuf \<Rightarrow>
    (cb_code \<times> scratch \<times> node_ptr cbuf) option" where
  "bfs_visit t f dir n = (\<lambda>(a, q). do {
     e \<leftarrow> aget (n_edge n) dir;
     m \<leftarrow> node_at t (e_dest e);
     v \<leftarrow> rd_scratch a (n_id n);
     a \<leftarrow> asetz a (n_id m) (Some (f (e_dist e) v));
     (r, q) \<leftarrow> cb_push BFS_Q_SIZE (e_dest e) q;
     Some (r, a, q) })"

(* src/src/lib/train/track_node.c:16-43 *)
fun dist_to_node_loop :: "track \<Rightarrow> node_ptr \<Rightarrow> nat \<Rightarrow> scratch \<Rightarrow> node_ptr cbuf \<Rightarrow> int option" where
  "dist_to_node_loop t dest 0 a q = Some (- 1)"
| "dist_to_node_loop t dest (Suc d) a q =
    (if cb_size q = 0 then Some (- 1)
     else do {
       (r, x, q) \<leftarrow> cb_pop BFS_Q_SIZE q;
       if r \<noteq> CB_E_NONE then Some (- 1)
       else do {
         node \<leftarrow> x;
         n \<leftarrow> node_at t node;
         if node = dest then rd_scratch a (n_id n)
         else if n_type n = NODE_BRANCH then do {
           (r, a, q) \<leftarrow> bfs_visit t (+) DIR_CURVED n (a, q);
           if r \<noteq> CB_E_NONE then Some (- 1)
           else do {
             (r, a, q) \<leftarrow> bfs_visit t (+) DIR_STRAIGHT n (a, q);
             if r \<noteq> CB_E_NONE then Some (- 1) else dist_to_node_loop t dest d a q }}
         else if n_type n = NODE_EXIT then dist_to_node_loop t dest d a q
         else do {
           (r, a, q) \<leftarrow> bfs_visit t (+) DIR_AHEAD n (a, q);
           if r \<noteq> CB_E_NONE then Some (- 1) else dist_to_node_loop t dest d a q }}})"

(* src/src/lib/train/track_node.c:6-46 *)
definition dist_to_node :: "track \<Rightarrow> node_ptr \<Rightarrow> node_ptr \<Rightarrow> int option" where
  "dist_to_node t node dest = do {
     (a, q) \<leftarrow> bfs_start t node 0;
     dist_to_node_loop t dest BFS_Q_SIZE a q }"

(* src/src/lib/train/track_node.c:49-64 *)
definition tn_get_dir :: "track \<Rightarrow> node_ptr \<Rightarrow> node_ptr \<Rightarrow> int option" where
  "tn_get_dir t prev node = do {
     p \<leftarrow> node_at t prev;
     if n_type p = NODE_BRANCH then do {
       s \<leftarrow> aget (n_edge p) DIR_STRAIGHT;
       if e_dest s = node then Some (int DIR_STRAIGHT)
       else do {
         c \<leftarrow> aget (n_edge p) DIR_CURVED;
         if e_dest c = node then Some (int DIR_CURVED) else Some (- 1) }}
     else Some (int DIR_AHEAD) }"

(* src/src/lib/train/track_node.c:69-87 *)
definition get_prev_branch_dir :: "track \<Rightarrow> node_ptr \<Rightarrow> int option" where
  "get_prev_branch_dir t node = do {
     n \<leftarrow> node_at t node;
     rn \<leftarrow> node_at t (n_reverse n);
     e \<leftarrow> aget (n_edge rn) DIR_AHEAD;
     p \<leftarrow> node_at t (e_dest e);
     if n_type p = NODE_BRANCH then do {
       s \<leftarrow> aget (n_edge p) DIR_STRAIGHT;
       if e_dest s = node then Some (int DIR_STRAIGHT)
       else do {
         c \<leftarrow> aget (n_edge p) DIR_CURVED;
         if e_dest c = node then Some (int DIR_CURVED) else Some (- 1) }}
     else Some (int DIR_AHEAD) }"

text \<open>The loop of \<^verbatim>\<open>node_nearby_sd\<close> has no counter; \<open>None\<close> is also its value when it does not end.\<close>

(* src/src/lib/train/track_node.c:101-136 *)
partial_function (option) node_nearby_loop ::
    "track \<Rightarrow> node_ptr \<Rightarrow> int \<Rightarrow> scratch \<Rightarrow> node_ptr cbuf \<Rightarrow> bool option" where
  "node_nearby_loop t dest sd a q =
    (if cb_size q = 0 then Some False
     else do {
       (r, x, q) \<leftarrow> cb_pop BFS_Q_SIZE q;
       if r \<noteq> CB_E_NONE then Some False
       else do {
         node \<leftarrow> x;
         n \<leftarrow> node_at t node;
         if node = dest then Some True
         else if n_type n = NODE_BRANCH then do {
           (r, a, q) \<leftarrow> bfs_visit t (\<lambda>k v. v) DIR_CURVED n (a, q);
           if r \<noteq> CB_E_NONE then Some False
           else do {
             (r, a, q) \<leftarrow> bfs_visit t (\<lambda>k v. v) DIR_STRAIGHT n (a, q);
             if r \<noteq> CB_E_NONE then Some False else node_nearby_loop t dest sd a q }}
         else if n_type n = NODE_EXIT then node_nearby_loop t dest sd a q
         else if n_type n = NODE_SENSOR then do {
           v \<leftarrow> rd_scratch a (n_id n);
           if sd < v + 1 then node_nearby_loop t dest sd a q
           else do {
             (r, a, q) \<leftarrow> bfs_visit t (\<lambda>k v. v + 1) DIR_AHEAD n (a, q);
             if r \<noteq> CB_E_NONE then Some False else node_nearby_loop t dest sd a q }}
         else do {
           (r, a, q) \<leftarrow> bfs_visit t (\<lambda>k v. v) DIR_AHEAD n (a, q);
           if r \<noteq> CB_E_NONE then Some False else node_nearby_loop t dest sd a q }}})"

(* src/src/lib/train/track_node.c:91-139 *)
definition node_nearby_sd :: "track \<Rightarrow> node_ptr \<Rightarrow> node_ptr \<Rightarrow> int \<Rightarrow> bool option" where
  "node_nearby_sd t node dest sd = do {
     (a, q) \<leftarrow> bfs_start t node 0;
     node_nearby_loop t dest sd a q }"

(* src/include/lib/train/track_node.h:50-53 *)
record poss_sensor =
  ps_dist :: int
  ps_node :: node_ptr

abbreviation POSSIBLE_NODE_LIST_SIZE :: nat where "POSSIBLE_NODE_LIST_SIZE \<equiv> 5"

text \<open>\<^verbatim>\<open>next_poss_sensors\<close> pushes before it writes the distance; otherwise a step is \<open>bfs_visit\<close>'s.\<close>

definition bfs_push_visit :: "track \<Rightarrow> nat \<Rightarrow> track_node \<Rightarrow> scratch \<times> node_ptr cbuf \<Rightarrow>
    (cb_code \<times> scratch \<times> node_ptr cbuf) option" where
  "bfs_push_visit t dir n = (\<lambda>(a, q). do {
     e \<leftarrow> aget (n_edge n) dir;
     (r, q) \<leftarrow> cb_push BFS_Q_SIZE (e_dest e) q;
     m \<leftarrow> node_at t (e_dest e);
     v \<leftarrow> rd_scratch a (n_id n);
     a \<leftarrow> asetz a (n_id m) (Some (e_dist e + v));
     Some (r, a, q) })"

(* src/src/lib/train/track_node.c:156-185 *)
fun next_poss_loop :: "track \<Rightarrow> nat \<Rightarrow> scratch \<Rightarrow> node_ptr cbuf \<Rightarrow> poss_sensor cbuf \<Rightarrow>
    (int \<times> poss_sensor cbuf) option" where
  "next_poss_loop t 0 a q pnl = Some (- 1, pnl)"
| "next_poss_loop t (Suc d) a q pnl =
    (if cb_size q = 0 then Some (- 1, pnl)
     else do {
       (r, x, q) \<leftarrow> cb_pop BFS_Q_SIZE q;
       if r \<noteq> CB_E_NONE then Some (- 1, pnl)
       else do {
         node \<leftarrow> x;
         n \<leftarrow> node_at t node;
         if n_type n = NODE_BRANCH then do {
           (r, a, q) \<leftarrow> bfs_push_visit t DIR_STRAIGHT n (a, q);
           if r \<noteq> CB_E_NONE then Some (- 1, pnl)
           else do {
             (r, a, q) \<leftarrow> bfs_push_visit t DIR_CURVED n (a, q);
             if r \<noteq> CB_E_NONE then Some (- 1, pnl) else next_poss_loop t d a q pnl }}
         else if n_type n = NODE_SENSOR then do {
           v \<leftarrow> rd_scratch a (n_id n);
           (r, pnl) \<leftarrow> cb_push POSSIBLE_NODE_LIST_SIZE \<lparr>ps_dist = v, ps_node = node\<rparr> pnl;
           if r \<noteq> CB_E_NONE then Some (- 1, pnl) else next_poss_loop t d a q pnl }
         else if n_type n = NODE_EXIT then next_poss_loop t d a q pnl
         else do {
           (r, a, q) \<leftarrow> bfs_push_visit t DIR_AHEAD n (a, q);
           if r \<noteq> CB_E_NONE then Some (- 1, pnl) else next_poss_loop t d a q pnl }}})"

(* src/src/lib/train/track_node.c:143-188 *)
definition next_poss_sensors :: "track \<Rightarrow> node_ptr \<Rightarrow> int \<Rightarrow> poss_sensor cbuf \<Rightarrow>
    (int \<times> poss_sensor cbuf) option" where
  "next_poss_sensors t node start_dist pnl = do {
     (a, q) \<leftarrow> bfs_start t node start_dist;
     next_poss_loop t BFS_Q_SIZE a q pnl }"

section \<open>What the searches keep\<close>

text \<open>\<open>bfs_inv t P a q\<close>: the queue is a well-formed buffer of nodes of the track that have an
  entry in the scratch array, and every entry \<open>v\<close> of the array, for node \<open>i\<close>, satisfies \<open>P i v\<close>.\<close>

definition bfs_inv :: "track \<Rightarrow> (nat \<Rightarrow> int \<Rightarrow> bool) \<Rightarrow> scratch \<Rightarrow> node_ptr cbuf \<Rightarrow> bool" where
  "bfs_inv t P a q \<longleftrightarrow> length a = TRACK_MAX \<and> cb_wf BFS_Q_SIZE q \<and>
     (\<forall>x \<in> set (cb_list BFS_Q_SIZE q). \<exists>i<TRACK_MAX. x = Some i \<and> n_type (t ! i) \<noteq> NODE_NONE \<and> a ! i \<noteq> None) \<and>
     (\<forall>i<TRACK_MAX. \<forall>v. a ! i = Some v \<longrightarrow> P i v)"

lemma node_at_in [simp]: "wf_track t \<Longrightarrow> i < TRACK_MAX \<Longrightarrow> node_at t (Some i) = Some (t ! i)"
  by (simp add: node_at_def)

lemma rd_scratch_in:
  "length a = TRACK_MAX \<Longrightarrow> i < TRACK_MAX \<Longrightarrow> a ! i = Some v \<Longrightarrow> rd_scratch a (int i) = Some v"
  by (simp add: rd_scratch_def agetz_in)

lemma bfs_start_ok:
  assumes "wf_track t" "i < TRACK_MAX" "n_type (t ! i) \<noteq> NODE_NONE" "P i v"
  obtains a q where "bfs_start t (Some i) v = Some (a, q)" "bfs_inv t P a q"
    "cb_list BFS_Q_SIZE q = [Some i]"
proof -
  let ?q = "cb_init \<lparr>cb_buf = replicate BFS_Q_SIZE None, cb_start = 0, cb_end = 0, cb_size = 0\<rparr> :: node_ptr cbuf"
  have "cb_wf BFS_Q_SIZE ?q" by (rule cb_init_wf) (simp_all add: cb_init_def)
  then obtain q where q: "cb_push BFS_Q_SIZE (Some i) ?q = Some (CB_E_NONE, q)" "cb_wf BFS_Q_SIZE q"
    "cb_list BFS_Q_SIZE q = [Some i]"
    using cbq.push_room [of BFS_Q_SIZE ?q "Some i"] by auto
  let ?a = "(replicate TRACK_MAX None)[i := Some v]"
  have "bfs_start t (Some i) v = Some (?a, q)"
    using assms q by (simp add: bfs_start_def wf_id asetz_in)
  moreover have "bfs_inv t P ?a q"
    using assms q by (auto simp: bfs_inv_def nth_update_if split: if_splits)
  ultimately show thesis using that q by blast
qed

lemma bfs_visit_ok:
  assumes wf: "wf_track t" and inv: "bfs_inv t P a q" and i: "a ! i \<noteq> None"
    and e: "exits t i d s j" and P: "\<And>v. P i v \<Longrightarrow> P j (f s v)"
  obtains r a' q' where "bfs_visit t f d (t ! i) (a, q) = Some (r, a', q')" "bfs_inv t P a' q'"
    "a' ! i \<noteq> None"
    "r = CB_E_NONE \<Longrightarrow> cb_list BFS_Q_SIZE q' = cb_list BFS_Q_SIZE q @ [Some j]"
    "r \<noteq> CB_E_NONE \<Longrightarrow> length (cb_list BFS_Q_SIZE q) = BFS_Q_SIZE"
proof -
  note lt = exitsD [OF wf e]
  obtain v where v: "a ! i = Some v" using i by auto
  have Pj: "P j (f s v)" using inv v lt(1) P by (auto simp: bfs_inv_def)
  have d: "d < 2" "e_dest (n_edge (t ! i) ! d) = Some j" "e_dist (n_edge (t ! i) ! d) = s"
    using e n_edges_le [of "n_type (t ! i)"] by (auto simp: exits_def)
  obtain r q' where push: "cb_push BFS_Q_SIZE (Some j) q = Some (r, q')"
    using cbq.push_returns [of BFS_Q_SIZE q "Some j"] inv by (auto simp: bfs_inv_def)
  let ?a = "a[j := Some (f s v)]"
  have eq: "bfs_visit t f d (t ! i) (a, q) = Some (r, ?a, q')"
    using d lt v push inv wf
    by (simp add: bfs_visit_def wf_n_edge wf_id rd_scratch_in asetz_in bfs_inv_def)
  have keep: "\<forall>x \<in> insert (Some j) (set (cb_list BFS_Q_SIZE q)).
      \<exists>k<TRACK_MAX. x = Some k \<and> n_type (t ! k) \<noteq> NODE_NONE \<and> ?a ! k \<noteq> None"
  proof
    fix x assume "x \<in> insert (Some j) (set (cb_list BFS_Q_SIZE q))"
    then obtain k where "k < TRACK_MAX" "x = Some k" "n_type (t ! k) \<noteq> NODE_NONE" "k = j \<or> a ! k \<noteq> None"
      using inv lt unfolding bfs_inv_def by blast
    then show "\<exists>k<TRACK_MAX. x = Some k \<and> n_type (t ! k) \<noteq> NODE_NONE \<and> ?a ! k \<noteq> None"
      using inv by (intro exI [of _ k]) (auto simp: nth_update_if bfs_inv_def)
  qed
  have vals: "length ?a = TRACK_MAX \<and> (\<forall>i<TRACK_MAX. \<forall>v. ?a ! i = Some v \<longrightarrow> P i v)"
    using inv Pj by (auto simp: bfs_inv_def nth_update_if)
  have "cb_wf BFS_Q_SIZE q' \<and> set (cb_list BFS_Q_SIZE q') \<subseteq> insert (Some j) (set (cb_list BFS_Q_SIZE q))"
    using cbq.push_NONE [of BFS_Q_SIZE q "Some j" q'] cbq.push_not_NONE [of BFS_Q_SIZE q "Some j" r q']
      push inv by (cases "r = CB_E_NONE") (auto simp: bfs_inv_def)
  with keep vals have inv': "bfs_inv t P ?a q'"
    unfolding bfs_inv_def by (meson subset_iff)
  show thesis
  proof (rule that [OF eq inv'])
    show "?a ! i \<noteq> None" using i by (simp add: nth_update_if)
    show "cb_list BFS_Q_SIZE q' = cb_list BFS_Q_SIZE q @ [Some j]" if "r = CB_E_NONE"
      using cbq.push_NONE [of BFS_Q_SIZE q "Some j" q'] push inv that by (auto simp: bfs_inv_def)
    show "length (cb_list BFS_Q_SIZE q) = BFS_Q_SIZE" if "r \<noteq> CB_E_NONE"
      using cbq.push_not_NONE [of BFS_Q_SIZE q "Some j" r q'] push inv that by (auto simp: bfs_inv_def)
  qed
qed

lemma bfs_pop_ok:
  assumes inv: "bfs_inv t P a q" and sz: "cb_size q \<noteq> 0"
  obtains i q' where "cb_pop BFS_Q_SIZE q = Some (CB_E_NONE, Some (Some i), q')" "bfs_inv t P a q'"
    "i < TRACK_MAX" "n_type (t ! i) \<noteq> NODE_NONE" "a ! i \<noteq> None"
    "cb_list BFS_Q_SIZE q = Some i # cb_list BFS_Q_SIZE q'"
proof -
  have wf: "cb_wf BFS_Q_SIZE q" and ne: "cb_list BFS_Q_SIZE q \<noteq> []"
    using inv sz by (auto simp: bfs_inv_def cb_list_empty_iff)
  from cbq.pop_some [OF this] obtain q' where q': "cb_wf BFS_Q_SIZE q'"
    "cb_pop BFS_Q_SIZE q = Some (CB_E_NONE, Some (hd (cb_list BFS_Q_SIZE q)), q')"
    "cb_list BFS_Q_SIZE q' = tl (cb_list BFS_Q_SIZE q)" by auto
  have c: "cb_list BFS_Q_SIZE q = hd (cb_list BFS_Q_SIZE q) # cb_list BFS_Q_SIZE q'"
    using ne q'(3) by (simp add: hd_Cons_tl)
  have "hd (cb_list BFS_Q_SIZE q) \<in> set (cb_list BFS_Q_SIZE q)"
    using ne by simp
  then obtain i where i: "i < TRACK_MAX" "hd (cb_list BFS_Q_SIZE q) = Some i"
    "n_type (t ! i) \<noteq> NODE_NONE" "a ! i \<noteq> None"
    using inv by (auto simp: bfs_inv_def)
  have "set (cb_list BFS_Q_SIZE q') \<subseteq> set (cb_list BFS_Q_SIZE q)"
    using c by (metis set_subset_Cons)
  then have "bfs_inv t P a q'"
    using inv q'(1) unfolding bfs_inv_def by blast
  then show thesis using that q' i c by simp
qed

lemma wf_exits_ex:
  "wf_track t \<Longrightarrow> i < TRACK_MAX \<Longrightarrow> d < n_edges (n_type (t ! i)) \<Longrightarrow> \<exists>s j. exits t i d s j"
  using wf_exits by metis

lemma branch_exits:
  assumes "wf_track t" "i < TRACK_MAX"
  shows "n_type (t ! i) = NODE_BRANCH \<Longrightarrow> (\<exists>s j. exits t i DIR_STRAIGHT s j) \<and> (\<exists>s j. exits t i DIR_CURVED s j)"
  by (simp add: n_edges_def wf_exits_ex [OF assms])

lemma ahead_exits:
  assumes "wf_track t" "i < TRACK_MAX"
  shows "n_type (t ! i) \<noteq> NODE_NONE \<Longrightarrow> n_type (t ! i) \<noteq> NODE_EXIT \<Longrightarrow> \<exists>s j. exits t i DIR_AHEAD s j"
  by (cases "n_type (t ! i)") (simp_all add: n_edges_def wf_exits_ex [OF assms])

lemma dist_to_node_loop_ok:
  assumes wf: "wf_track t"
    and P: "\<And>i v d s j. P i v \<Longrightarrow> exits t i d s j \<Longrightarrow> P j (s + v)"
  shows "bfs_inv t P a q \<Longrightarrow>
    \<exists>r. dist_to_node_loop t (Some b) d a q = Some r \<and> (r = - 1 \<or> P b r)"
proof (induction d arbitrary: a q)
  case 0
  then show ?case by simp
next
  case (Suc d)
  show ?case
  proof (cases "cb_size q = 0")
    case True
    then show ?thesis by simp
  next
    case False
    from bfs_pop_ok [OF Suc.prems False] obtain i q1 where
      pop: "cb_pop BFS_Q_SIZE q = Some (CB_E_NONE, Some (Some i), q1)" "bfs_inv t P a q1"
        "i < TRACK_MAX" "n_type (t ! i) \<noteq> NODE_NONE" "a ! i \<noteq> None" by metis
    then obtain v where v: "a ! i = Some v" by auto
    then have Pv: "P i v" using pop by (auto simp: bfs_inv_def)
    note step = bfs_visit_ok [OF wf, where P = P and f = "(+)", OF _ _ _ P]
    consider "i = b" | "i \<noteq> b" "n_type (t ! i) = NODE_BRANCH" | "i \<noteq> b" "n_type (t ! i) = NODE_EXIT"
      | "i \<noteq> b" "n_type (t ! i) \<noteq> NODE_BRANCH" "n_type (t ! i) \<noteq> NODE_EXIT" by blast
    then show ?thesis
    proof cases
      case 1
      then show ?thesis
        using False pop wf v Pv by (auto simp: rd_scratch_in wf_id bfs_inv_def)
    next
      case 2
      then obtain s j s' j' where e: "exits t i DIR_CURVED s j" "exits t i DIR_STRAIGHT s' j'"
        using branch_exits [OF wf pop(3)] by blast
      from step [OF pop(2,5) e(1) _ e(1)] obtain r1 a1 q2 where
        1: "bfs_visit t (+) DIR_CURVED (t ! i) (a, q1) = Some (r1, a1, q2)" "bfs_inv t P a1 q2" "a1 ! i \<noteq> None"
        by metis
      from step [OF 1(2,3) e(2) _ e(2)] obtain r2 a2 q3 where
        2: "bfs_visit t (+) DIR_STRAIGHT (t ! i) (a1, q2) = Some (r2, a2, q3)" "bfs_inv t P a2 q3"
        by metis
      show ?thesis
        using \<open>i \<noteq> b\<close> \<open>n_type (t ! i) = NODE_BRANCH\<close> False pop(1,3) wf 1(1) 2(1) Suc.IH [OF 2(2)] by simp
    next
      case 3
      then show ?thesis using False pop(1,3) wf Suc.IH [OF pop(2)] by simp
    next
      case 4
      then obtain s j where e: "exits t i DIR_AHEAD s j"
        using ahead_exits [OF wf pop(3)] pop(4) by blast
      from step [OF pop(2,5) e _ e] obtain r1 a1 q2 where
        1: "bfs_visit t (+) DIR_AHEAD (t ! i) (a, q1) = Some (r1, a1, q2)" "bfs_inv t P a1 q2"
        by metis
      show ?thesis using 4 False pop(1,3) wf 1(1) Suc.IH [OF 1(2)] by simp
    qed
  qed
qed

section \<open>How far the distance search sees\<close>

text \<open>With room in the queue, one turn of the loop replaces the first node by its successors.\<close>

lemma exits_cases:
  "exits t i d s j \<Longrightarrow> n_type (t ! i) = NODE_BRANCH \<and> (d = DIR_STRAIGHT \<or> d = DIR_CURVED) \<or>
    n_type (t ! i) \<noteq> NODE_BRANCH \<and> n_type (t ! i) \<noteq> NODE_EXIT \<and> d = DIR_AHEAD"
  by (auto simp: exits_def n_edges_def split: node_type.splits)

lemma exits_fun: "exits t i d s j \<Longrightarrow> exits t i d s' j' \<Longrightarrow> s' = s \<and> j' = j"
  by (simp add: exits_def)

lemma dist_to_node_expand:
  assumes wf: "wf_track t"
    and P: "\<And>i v d s j. P i v \<Longrightarrow> exits t i d s j \<Longrightarrow> P j (s + v)"
    and inv: "bfs_inv t P a q" and q: "cb_list BFS_Q_SIZE q = Some i # rest"
    and ne: "i \<noteq> b" and room: "length rest + 2 \<le> BFS_Q_SIZE"
  shows "\<exists>a' q' js. dist_to_node_loop t (Some b) (Suc d) a q = dist_to_node_loop t (Some b) d a' q' \<and>
    bfs_inv t P a' q' \<and> cb_list BFS_Q_SIZE q' = rest @ map Some js \<and> length js \<le> 2 \<and>
    (\<forall>d s j. exits t i d s j \<longrightarrow> j \<in> set js)"
proof -
  have sz: "cb_size q \<noteq> 0" using q cb_list_empty_iff [of BFS_Q_SIZE q] by auto
  from bfs_pop_ok [OF inv sz] q obtain q1 where
    pop: "cb_pop BFS_Q_SIZE q = Some (CB_E_NONE, Some (Some i), q1)" "bfs_inv t P a q1"
      "i < TRACK_MAX" "n_type (t ! i) \<noteq> NODE_NONE" "a ! i \<noteq> None" "cb_list BFS_Q_SIZE q1 = rest"
    by (metis list.inject option.inject)
  note step = bfs_visit_ok [OF wf, where P = P and f = "(+)", OF _ _ _ P]
  consider "n_type (t ! i) = NODE_BRANCH" | "n_type (t ! i) = NODE_EXIT"
    | "n_type (t ! i) \<noteq> NODE_BRANCH" "n_type (t ! i) \<noteq> NODE_EXIT" by blast
  then show ?thesis
  proof cases
    case 1
    then obtain s j s' j' where e: "exits t i DIR_CURVED s j" "exits t i DIR_STRAIGHT s' j'"
      using branch_exits [OF wf pop(3)] by blast
    from step [OF pop(2,5) e(1) _ e(1)] pop(6) room obtain a1 q2 where
      1: "bfs_visit t (+) DIR_CURVED (t ! i) (a, q1) = Some (CB_E_NONE, a1, q2)" "bfs_inv t P a1 q2"
        "a1 ! i \<noteq> None" "cb_list BFS_Q_SIZE q2 = rest @ [Some j]"
      by (metis add_leE nat_less_le numeral_eq_Suc not_add_less1 less_eq_Suc_le add_Suc_right zero_less_Suc)
    from step [OF 1(2,3) e(2) _ e(2)] 1(4) room obtain a2 q3 where
      2: "bfs_visit t (+) DIR_STRAIGHT (t ! i) (a1, q2) = Some (CB_E_NONE, a2, q3)" "bfs_inv t P a2 q3"
        "cb_list BFS_Q_SIZE q3 = rest @ [Some j, Some j']"
      by (metis append.assoc append_Cons append_Nil length_append_singleton not_less_eq_eq add_2_eq_Suc' order_refl)
    have "j'' \<in> {j, j'}" if "exits t i d'' s'' j''" for d'' s'' j''
      using exits_cases [OF that] e that by (auto dest: exits_fun)
    then show ?thesis
      using 1(1) 2 \<open>n_type (t ! i) = NODE_BRANCH\<close> sz pop(1,3) wf ne
      by (intro exI [of _ a2] exI [of _ q3] exI [of _ "[j, j']"]) auto
  next
    case 2
    then have "\<not> exits t i d'' s'' j''" for d'' s'' j'' using exits_cases by fastforce
    then show ?thesis
      using 2 sz pop wf ne by (intro exI [of _ a] exI [of _ q1] exI [of _ "[]"]) auto
  next
    case 3
    then obtain s j where e: "exits t i DIR_AHEAD s j"
      using ahead_exits [OF wf pop(3)] pop(4) by blast
    from step [OF pop(2,5) e _ e] pop(6) room obtain a1 q2 where
      1: "bfs_visit t (+) DIR_AHEAD (t ! i) (a, q1) = Some (CB_E_NONE, a1, q2)" "bfs_inv t P a1 q2"
        "cb_list BFS_Q_SIZE q2 = rest @ [Some j]"
      by (metis add_leE nat_less_le numeral_eq_Suc not_add_less1 less_eq_Suc_le add_Suc_right zero_less_Suc)
    have "j'' = j" if "exits t i d'' s'' j''" for d'' s'' j''
      using exits_cases [OF that] 3 e that by (auto dest: exits_fun)
    then show ?thesis
      using 1 3 sz pop(1,3) wf ne
      by (intro exI [of _ a1] exI [of _ q2] exI [of _ "[j]"]) auto
  qed
qed

text \<open>\<open>near t k i b\<close>: node \<open>b\<close> is at most \<open>k\<close> edges ahead of \<open>i\<close>.\<close>

definition near :: "track \<Rightarrow> nat \<Rightarrow> nat \<Rightarrow> nat \<Rightarrow> bool" where
  "near t k i b = (\<exists>m s. m \<le> k \<and> walk t i m s b)"

lemma near_step: "near t k i b \<Longrightarrow> i \<noteq> b \<Longrightarrow> \<exists>k' d s j. k = Suc k' \<and> exits t i d s j \<and> near t k' j b"
  unfolding near_def by (metis Suc_le_D Suc_le_mono not0_implies_Suc walk_0 walk_SucD)

text \<open>The queue holds nodes \<open>xs\<close> of one level, from which up to \<open>k\<close> edges matter, and then
  nodes \<open>ys\<close> of the next. As every node has at most two successors, the turns left and the
  queue's capacity suffice for all of them.\<close>

lemma dist_to_node_loop_near:
  assumes wf: "wf_track t"
    and P: "\<And>i v d s j. P i v \<Longrightarrow> exits t i d s j \<Longrightarrow> P j (s + v)"
  shows "bfs_inv t P a q \<Longrightarrow> cb_list BFS_Q_SIZE q = map Some (xs @ ys) \<Longrightarrow> xs \<noteq> [] \<Longrightarrow>
    (\<exists>x \<in> set xs. near t k x b) \<or> (\<exists>k'. k = Suc k' \<and> (\<exists>y \<in> set ys. near t k' y b)) \<Longrightarrow>
    length xs * (2 * 2 ^ k) + length ys * 2 ^ k \<le> d + length xs + length ys \<Longrightarrow>
    length xs * (2 * 2 ^ k) + length ys * 2 ^ k \<le> BFS_Q_SIZE \<Longrightarrow>
    \<exists>r. dist_to_node_loop t (Some b) d a q = Some r \<and> P b r"
proof (induction d arbitrary: a q xs ys k)
  case 0
  then obtain x xs' where xs: "xs = x # xs'" by (cases xs) auto
  have "length xs * 2 \<le> length xs * (2 * 2 ^ k)" "length ys \<le> length ys * 2 ^ k" by simp_all
  with 0(5) xs show ?case by simp
next
  case (Suc d)
  then obtain i xs' where xs: "xs = i # xs'" by (cases xs) auto
  note q = Suc.prems(2) [unfolded xs, simplified]
  have sz: "cb_size q \<noteq> 0" using q cb_list_empty_iff [of BFS_Q_SIZE q] by auto
  show ?case
  proof (cases "i = b")
    case True
    from bfs_pop_ok [OF Suc.prems(1) sz] q obtain q1 where
      "cb_pop BFS_Q_SIZE q = Some (CB_E_NONE, Some (Some i), q1)" "i < TRACK_MAX" "a ! i \<noteq> None"
      by (metis list.inject option.inject)
    then show ?thesis
      using True sz wf Suc.prems(1) by (auto simp: rd_scratch_in wf_id bfs_inv_def)
  next
    case False
    define A :: nat where "A = 2 ^ k"
    have A: "1 \<le> A" "length xs' \<le> length xs' * A" "length ys \<le> length ys * A" by (simp_all add: A_def)
    have B: "2 * A + length xs' * (2 * A) + length ys * A \<le> Suc d + Suc (length xs') + length ys"
      "2 * A + length xs' * (2 * A) + length ys * A \<le> 16"
      using Suc.prems(5,6) by (simp_all add: xs A_def)
    then have "length (map Some xs' @ map Some ys) + 2 \<le> BFS_Q_SIZE"
      using A mult.left_commute [of "length xs'" 2 A] by (simp only: length_map length_append)
    from dist_to_node_expand [where P = P and d = d, OF wf _ Suc.prems(1) q False this] P
    obtain a' q' js where
      st: "dist_to_node_loop t (Some b) (Suc d) a q = dist_to_node_loop t (Some b) d a' q'"
        "bfs_inv t P a' q'" "cb_list BFS_Q_SIZE q' = map Some (xs' @ (ys @ js))" "length js \<le> 2"
        "\<forall>d s j. exits t i d s j \<longrightarrow> j \<in> set js" by auto
    have js: "length js * A \<le> 2 * A" "length js * A + 2 \<le> length js + 2 * A"
    proof -
      show le: "length js * A \<le> 2 * A" using st(4) by simp
      have "(2 - length js) * 1 \<le> (2 - length js) * A" using A(1) by (intro mult_le_mono) simp_all
      then show "length js * A + 2 \<le> length js + 2 * A"
        using st(4) le by (simp only: diff_mult_distrib mult_1_right)
    qed
    have C: "length xs' * (2 * A) + length (ys @ js) * A \<le> d + length xs' + length (ys @ js)"
      "length xs' * (2 * A) + length (ys @ js) * A \<le> BFS_Q_SIZE"
      unfolding length_append add_mult_distrib using B js by linarith+
    have goal: "(\<exists>x \<in> set xs'. near t k x b) \<or> (\<exists>k'. k = Suc k' \<and> (\<exists>y \<in> set (ys @ js). near t k' y b))"
      using Suc.prems(4) near_step [of t k i b] False st(5) xs by fastforce
    show ?thesis
    proof (cases "xs' = []")
      case False
      show ?thesis
        unfolding st(1) by (rule Suc.IH [OF st(2,3) False goal]) (use C in \<open>simp_all add: A_def\<close>)
    next
      case True
      with goal obtain k' where k': "k = Suc k'" "\<exists>y \<in> set (ys @ js). near t k' y b" by auto
      have st3: "cb_list BFS_Q_SIZE q' = map Some ((ys @ js) @ [])" using st(3) True by simp
      show ?thesis
        unfolding st(1)
        by (rule Suc.IH [OF st(2) st3, of k']) (use C k' True in \<open>auto simp: A_def\<close>)
    qed
  qed
qed

text \<open>C40: On a well-formed track \<^verbatim>\<open>dist_to_node\<close> returns for every pair of nodes: it neither reads an
  uninitialised distance nor leaves an array. Its answer is -1 or the length of a walk from the
  node to the destination; and for a destination at most three edges ahead it is never -1.\<close>

theorem dist_to_node_correct:
  assumes wf: "wf_track t" and i: "i < TRACK_MAX" "n_type (t ! i) \<noteq> NODE_NONE"
  shows "\<exists>r. dist_to_node t (Some i) (Some b) = Some r \<and> (r = - 1 \<or> (\<exists>k. walk t i k r b)) \<and>
    (\<forall>k s. k \<le> 3 \<and> walk t i k s b \<longrightarrow> (\<exists>k'. walk t i k' r b))"
proof -
  let ?P = "\<lambda>j v. \<exists>k. walk t i k v j"
  have P: "?P j (s + v)" if "?P i' v" "exits t i' d s j" for i' v d s j
    using that walk.go by (metis add.commute)
  obtain a q where s: "bfs_start t (Some i) 0 = Some (a, q)" "bfs_inv t ?P a q"
    "cb_list BFS_Q_SIZE q = [Some i]"
    using bfs_start_ok [OF wf i, of ?P 0] walk.stop by blast
  have "\<exists>r. dist_to_node_loop t (Some b) BFS_Q_SIZE a q = Some r \<and> (r = - 1 \<or> ?P b r)"
    by (rule dist_to_node_loop_ok [OF wf _ s(2)]) (rule P)
  then obtain r where r: "dist_to_node t (Some i) (Some b) = Some r" "r = - 1 \<or> ?P b r"
    using s(1) by (auto simp: dist_to_node_def)
  have "?P b r" if "k \<le> 3" "walk t i k s b" for k s
  proof -
    have "near t 3 i b" using that near_def by blast
    then have "\<exists>r. dist_to_node_loop t (Some b) BFS_Q_SIZE a q = Some r \<and> ?P b r"
      by (intro dist_to_node_loop_near [OF wf _ s(2), where k = 3 and xs = "[i]" and ys = "[]"])
        (use s(3) P in auto)
    with s(1) r(1) show ?thesis by (auto simp: dist_to_node_def)
  qed
  with r show ?thesis by blast
qed

theorem dist_to_node_correct_witness:
  "\<exists>r k. dist_to_node tracka_nodes (Some 0) (Some 103) = Some r \<and> walk tracka_nodes 0 k r 103"
proof -
  have "n_type (tracka_nodes ! 0) \<noteq> NODE_NONE" "exits tracka_nodes 0 0 231 103"
    by (simp_all add: exits_def tracka_at n_edges_def)
  then show ?thesis
    using dist_to_node_correct [OF wf_tracka, of 0 103] walk_first [OF _ walk.stop] by fastforce
qed

text \<open>The tracks can be driven backwards: on the tracks that \<^verbatim>\<open>init_tracka\<close> and \<^verbatim>\<open>init_trackb\<close> set
  up, for every walk from node \<open>i\<close> to node \<open>j\<close> there is a walk from the reverse of \<open>j\<close> to the
  reverse of \<open>i\<close> with as many edges and the same length.\<close>

theorem walks_reverse:
  assumes "init_tracka t0 = Some t \<or> init_trackb t0 = Some t" "length t0 = TRACK_MAX"
    and "walk t i k s j" "i < TRACK_MAX" "n_type (t ! i) \<noteq> NODE_NONE"
  shows "\<exists>i' j'. n_reverse (t ! i) = Some i' \<and> n_reverse (t ! j) = Some j' \<and> walk t j' k s i'"
proof -
  have wf: "wf_track t"
    using assms(1,2) init_tracka_nodes init_trackb_nodes wf_tracka wf_trackb by auto
  have "\<exists>i'. n_reverse (t ! i) = Some i'"
    using wf_node [OF wf assms(4)] assms(5) by (auto simp: node_ok_def Let_def split: option.splits)
  moreover have "\<exists>j'. n_reverse (t ! j) = Some j'"
    using assms(3) calculation wf by (cases rule: walk.cases) (auto dest: exits_reverse)
  ultimately show ?thesis using walk_reverse [OF wf assms(3)] by blast
qed

theorem walks_reverse_witness:
  "walk tracka_nodes 102 1 231 1"
proof -
  have "exits tracka_nodes 0 0 231 103" "n_type (tracka_nodes ! 0) \<noteq> NODE_NONE"
    "n_reverse (tracka_nodes ! 0) = Some 1" "n_reverse (tracka_nodes ! 103) = Some 102"
    by (simp_all add: exits_def tracka_at n_edges_def)
  then show ?thesis
    using walks_reverse [of "replicate 144 zero_node" tracka_nodes 0 1 231 103]
      walk_first [OF _ walk.stop, of tracka_nodes 0 0 231 103] init_tracka_nodes by simp
qed

section \<open>The other searches\<close>

lemma tn_get_dir_ok:
  assumes "wf_track t" "i < TRACK_MAX" "exits t i d s j"
    "n_type (t ! i) = NODE_BRANCH \<Longrightarrow> e_dest (n_edge (t ! i) ! DIR_STRAIGHT) \<noteq> e_dest (n_edge (t ! i) ! DIR_CURVED)"
  shows "tn_get_dir t (Some i) (Some j) = Some (int d)"
  using assms exits_cases [OF assms(3)] by (auto simp: tn_get_dir_def wf_n_edge exits_def)

end
