(* ===== verification/TrackSwitch.thy ===== *)
theory TrackSwitch
  imports TrackNode
begin

text \<open>
  Following the track as the switches lie: lib/train/track_switch.c. The loops have no counter of
  their own; they are partial functions whose value \<open>None\<close> means "does not return, or faults", and
  the theorems show that on both tracks they return for every setting of the switches.
\<close>

section \<open>The functions\<close>

abbreviation (input) SW_STRAIGHT :: int where "SW_STRAIGHT \<equiv> 33"
abbreviation (input) SW_CURVE :: int where "SW_CURVE \<equiv> 34"

abbreviation SWITCH_SIZE :: nat where "SWITCH_SIZE \<equiv> 157"

(* src/include/lib/train/switch.h:11-15 *)
record switch =
  sw_state :: int
  sw_branch :: node_ptr
  sw_merge :: node_ptr

text \<open>One turn of the loops' bodies: the distance to the next node and that node, \<open>Some None\<close> at an
  exit.\<close>

(* src/src/lib/train/track_switch.c:8-24 *)
definition follow :: "switch list \<Rightarrow> track \<Rightarrow> node_ptr \<Rightarrow> (int \<times> node_ptr) option option" where
  "follow sw t node = do {
     n \<leftarrow> node_at t node;
     if n_type n = NODE_EXIT then Some None
     else do {
       dir \<leftarrow> (if n_type n = NODE_BRANCH then do {
                 s \<leftarrow> agetz sw (n_num n);
                 Some (if sw_state s = SW_STRAIGHT then DIR_STRAIGHT else DIR_CURVED) }
               else Some DIR_AHEAD);
       e \<leftarrow> aget (n_edge n) dir;
       Some (Some (e_dist e, e_dest e)) }}"

text \<open>The result: the return value and what is left in \<^verbatim>\<open>*pos\<close>, whose node is written on success
  only.\<close>

(* src/src/lib/train/track_switch.c:7-28 *)
partial_function (option) next_sensor_inc ::
    "switch list \<Rightarrow> track \<Rightarrow> node_ptr \<Rightarrow> poss_sensor \<Rightarrow> (int \<times> poss_sensor) option" where
  "next_sensor_inc sw t node pos = do {
     n \<leftarrow> node_at t node;
     if n_type n = NODE_SENSOR then Some (0, pos\<lparr>ps_node := node\<rparr>)
     else do {
       st \<leftarrow> follow sw t node;
       case st of None \<Rightarrow> Some (- 1, pos)
       | Some (k, m) \<Rightarrow> next_sensor_inc sw t m (pos\<lparr>ps_dist := ps_dist pos + k\<rparr>) }}"

(* src/src/lib/train/track_switch.c:3-29 *)
definition GetNextSensorINC :: "switch list \<Rightarrow> track \<Rightarrow> node_ptr \<Rightarrow> poss_sensor \<Rightarrow> (int \<times> poss_sensor) option" where
  "GetNextSensorINC sw t n pos = next_sensor_inc sw t n (pos\<lparr>ps_dist := 0\<rparr>)"

text \<open>The do-while loop of \<^verbatim>\<open>GetNextSensorEXC\<close>: its body once, then the loop of the other, whose
  test and body are the same.\<close>

(* src/src/lib/train/track_switch.c:31-57 *)
definition GetNextSensorEXC :: "switch list \<Rightarrow> track \<Rightarrow> node_ptr \<Rightarrow> poss_sensor \<Rightarrow> (int \<times> poss_sensor) option" where
  "GetNextSensorEXC sw t n pos = do {
     st \<leftarrow> follow sw t n;
     case st of None \<Rightarrow> Some (- 1, pos\<lparr>ps_dist := 0\<rparr>)
     | Some (k, m) \<Rightarrow> next_sensor_inc sw t m (pos\<lparr>ps_dist := 0 + k\<rparr>) }"

(* src/src/lib/train/track_switch.c:59-61 *)
definition GetPrevSensorINC :: "switch list \<Rightarrow> track \<Rightarrow> node_ptr \<Rightarrow> poss_sensor \<Rightarrow> (int \<times> poss_sensor) option" where
  "GetPrevSensorINC sw t n pos = do { m \<leftarrow> node_at t n; GetNextSensorINC sw t (n_reverse m) pos }"

(* src/src/lib/train/track_switch.c:63-65 *)
definition GetPrevSensorEXC :: "switch list \<Rightarrow> track \<Rightarrow> node_ptr \<Rightarrow> poss_sensor \<Rightarrow> (int \<times> poss_sensor) option" where
  "GetPrevSensorEXC sw t n pos = do { m \<leftarrow> node_at t n; GetNextSensorEXC sw t (n_reverse m) pos }"

(* src/src/lib/train/track_switch.c:71-92 *)
partial_function (option) dist_between_loop ::
    "switch list \<Rightarrow> track \<Rightarrow> node_ptr \<Rightarrow> node_ptr \<Rightarrow> int \<Rightarrow> int option" where
  "dist_between_loop sw t n end' dist =
     (if n = end' then Some dist
      else do {
        st \<leftarrow> follow sw t n;
        case st of None \<Rightarrow> Some (- 1)
        | Some (k, m) \<Rightarrow>
            let dist = dist + k in
            if dist < 0 \<or> 50000 < dist then Some (- 1) else dist_between_loop sw t m end' dist })"

(* src/src/lib/train/track_switch.c:67-95 *)
definition dist_between_nodes :: "switch list \<Rightarrow> track \<Rightarrow> node_ptr \<Rightarrow> node_ptr \<Rightarrow> int option" where
  "dist_between_nodes sw t start end' = dist_between_loop sw t start end' 0"

section \<open>The way the switches lie\<close>

text \<open>\<open>rides halt sw t i k s j\<close>: from node \<open>i\<close>, as the switches \<open>sw\<close> lie, \<open>k\<close> edges lead to node \<open>j\<close>
  over the distance \<open>s\<close>, through no \<open>halt\<close> node strictly in between.\<close>

definition set_way :: "switch list \<Rightarrow> track \<Rightarrow> nat \<Rightarrow> nat" where
  "set_way sw t i = (if n_type (t ! i) = NODE_BRANCH
     then (if sw_state (sw ! nat (n_num (t ! i))) = SW_STRAIGHT then DIR_STRAIGHT else DIR_CURVED)
     else DIR_AHEAD)"

fun rides :: "(nat \<Rightarrow> bool) \<Rightarrow> switch list \<Rightarrow> track \<Rightarrow> nat \<Rightarrow> nat \<Rightarrow> int \<Rightarrow> nat \<Rightarrow> bool" where
  "rides halt sw t i 0 s j = (s = 0 \<and> i = j)"
| "rides halt sw t i (Suc k) s j = (\<exists>s1 m. exits t i (set_way sw t i) s1 m \<and>
     (k = 0 \<or> \<not> halt m) \<and> rides halt sw t m k (s - s1) j)"

definition is_sensor :: "track \<Rightarrow> nat \<Rightarrow> bool" where
  "is_sensor t i = (n_type (t ! i) = NODE_SENSOR)"

text \<open>The switches of a track are those of the table the code keeps.\<close>

definition switches_ok :: "track \<Rightarrow> bool" where
  "switches_ok t = (\<forall>i \<in> set [0..<length t]. n_type (t ! i) = NODE_BRANCH \<longrightarrow>
     0 \<le> n_num (t ! i) \<and> n_num (t ! i) < int SWITCH_SIZE)"

lemma follow_cases:
  assumes wf: "wf_track t" "switches_ok t" "length sw = SWITCH_SIZE"
    and i: "i < TRACK_MAX" "n_type (t ! i) \<noteq> NODE_NONE"
  shows "n_type (t ! i) = NODE_EXIT \<Longrightarrow> follow sw t (Some i) = Some None"
    "n_type (t ! i) \<noteq> NODE_EXIT \<Longrightarrow>
      \<exists>s j. exits t i (set_way sw t i) s j \<and> follow sw t (Some i) = Some (Some (s, Some j))"
proof -
  show "follow sw t (Some i) = Some None" if "n_type (t ! i) = NODE_EXIT"
    using that wf i by (simp add: follow_def)
next
  assume ne: "n_type (t ! i) \<noteq> NODE_EXIT"
  let ?d = "set_way sw t i"
  have "\<exists>s j. exits t i ?d s j"
    using branch_exits [OF wf(1) i(1)] ahead_exits [OF wf(1) i(1)] i(2) ne by (auto simp: set_way_def)
  then obtain s j where e: "exits t i ?d s j" by blast
  have num: "0 \<le> n_num (t ! i) \<and> nat (n_num (t ! i)) < length sw" if "n_type (t ! i) = NODE_BRANCH"
    using that wf i by (auto simp: switches_ok_def)
  have "follow sw t (Some i) = Some (Some (s, Some j))"
    using e i ne wf num
    by (cases "n_type (t ! i) = NODE_BRANCH"; cases "sw_state (sw ! nat (n_num (t ! i))) = SW_STRAIGHT")
      (simp_all add: follow_def set_way_def exits_def wf_n_edge agetz_in)
  with e show "\<exists>s j. exits t i ?d s j \<and> follow sw t (Some i) = Some (Some (s, Some j))" by blast
qed

text \<open>\<open>ends_within t k i\<close>: whatever way is taken, a sensor or an exit is at most \<open>k\<close> edges ahead of
  node \<open>i\<close>, or is \<open>i\<close>.\<close>

fun ends_within :: "track \<Rightarrow> nat \<Rightarrow> nat \<Rightarrow> bool" where
  "ends_within t 0 i = (n_type (t ! i) = NODE_SENSOR \<or> n_type (t ! i) = NODE_EXIT)"
| "ends_within t (Suc k) i = (n_type (t ! i) = NODE_SENSOR \<or> n_type (t ! i) = NODE_EXIT \<or>
     list_all (\<lambda>d. ends_within t k (the (e_dest (n_edge (t ! i) ! d)))) [0..<n_edges (n_type (t ! i))])"

lemma ends_within_step:
  "ends_within t k i \<Longrightarrow> n_type (t ! i) \<noteq> NODE_SENSOR \<Longrightarrow> n_type (t ! i) \<noteq> NODE_EXIT \<Longrightarrow> exits t i d s j \<Longrightarrow>
   \<exists>k'. k = Suc k' \<and> ends_within t k' j"
  by (cases k) (force simp: exits_def list_all_iff)+

lemma next_sensor_inc_stop:
  assumes wf: "wf_track t" "switches_ok t" "length sw = SWITCH_SIZE" and i: "i < TRACK_MAX"
  shows "n_type (t ! i) = NODE_SENSOR \<Longrightarrow> next_sensor_inc sw t (Some i) pos = Some (0, pos\<lparr>ps_node := Some i\<rparr>)"
    "n_type (t ! i) = NODE_EXIT \<Longrightarrow> next_sensor_inc sw t (Some i) pos = Some (- 1, pos)"
  using follow_cases(1) [OF wf i] wf i by (simp_all add: next_sensor_inc.simps)

lemma next_sensor_inc_ok:
  assumes wf: "wf_track t" "switches_ok t" "length sw = SWITCH_SIZE"
  shows "ends_within t n i \<Longrightarrow> i < TRACK_MAX \<Longrightarrow> n_type (t ! i) \<noteq> NODE_NONE \<Longrightarrow>
    \<exists>r pos' k s j. next_sensor_inc sw t (Some i) pos = Some (r, pos') \<and> k \<le> n \<and> rides (is_sensor t) sw t i k s j \<and>
      ps_dist pos' = ps_dist pos + s \<and> (k = 0 \<or> n_type (t ! i) \<noteq> NODE_SENSOR) \<and>
      (r = 0 \<and> n_type (t ! j) = NODE_SENSOR \<and> ps_node pos' = Some j \<or>
       r = - 1 \<and> n_type (t ! j) = NODE_EXIT \<and> ps_node pos' = ps_node pos)"
proof (induction n arbitrary: i pos)
  case (0 i)
  then have "n_type (t ! i) = NODE_SENSOR \<or> n_type (t ! i) = NODE_EXIT" by simp
  then show ?case
    using next_sensor_inc_stop [OF wf 0(2)] by (auto intro!: exI [of _ "0::nat"])
next
  case (Suc n)
  consider "n_type (t ! i) = NODE_SENSOR" | "n_type (t ! i) = NODE_EXIT"
    | "n_type (t ! i) \<noteq> NODE_SENSOR" "n_type (t ! i) \<noteq> NODE_EXIT" by blast
  then show ?case
  proof cases
    case 3
    obtain s j where e: "exits t i (set_way sw t i) s j" "follow sw t (Some i) = Some (Some (s, Some j))"
      using follow_cases(2) [OF wf Suc.prems(2,3) 3(2)] by blast
    note j = exitsD [OF wf(1) e(1)]
    have "ends_within t n j"
      using ends_within_step [OF Suc.prems(1) 3 e(1)] by simp
    define pos1 where "pos1 = pos\<lparr>ps_dist := ps_dist pos + s\<rparr>"
    have p1: "ps_dist pos1 = ps_dist pos + s" "ps_node pos1 = ps_node pos" by (simp_all add: pos1_def)
    from Suc.IH [OF \<open>ends_within t n j\<close> j(2,5), of pos1] obtain r pos' k s' m where
      *: "next_sensor_inc sw t (Some j) pos1 = Some (r, pos')" "k \<le> n"
        "rides (is_sensor t) sw t j k s' m" "ps_dist pos' = ps_dist pos + s + s'" "k = 0 \<or> n_type (t ! j) \<noteq> NODE_SENSOR"
        "r = 0 \<and> n_type (t ! m) = NODE_SENSOR \<and> ps_node pos' = Some m \<or>
         r = - 1 \<and> n_type (t ! m) = NODE_EXIT \<and> ps_node pos' = ps_node pos"
      unfolding p1 by blast
    have "next_sensor_inc sw t (Some i) pos = Some (r, pos')"
      using 3 wf Suc.prems(2) e(2) *(1) by (subst next_sensor_inc.simps) (simp add: pos1_def)
    moreover have "rides (is_sensor t) sw t i (Suc k) (s + s') m"
      using e(1) *(3,5) unfolding rides.simps by (intro exI [of _ s] exI [of _ j]) (simp add: is_sensor_def)
    ultimately show ?thesis
      using *(2,4,6) 3 by (intro exI [of _ r] exI [of _ pos'] exI [of _ "Suc k"] exI [of _ "s + s'"] exI [of _ m]) auto
  next
    case 1
    then show ?thesis
      using next_sensor_inc_stop(1) [OF wf Suc.prems(2)]
      by (intro exI [of _ 0] exI [of _ "pos\<lparr>ps_node := Some i\<rparr>"] exI [of _ "0::nat"] exI [of _ "0::int"] exI [of _ i]) simp
  next
    case 2
    then show ?thesis
      using next_sensor_inc_stop(2) [OF wf Suc.prems(2)]
      by (intro exI [of _ "- 1"] exI [of _ pos] exI [of _ "0::nat"] exI [of _ "0::int"] exI [of _ i]) simp
  qed
qed

text \<open>Neither track has a stretch of more than five edges without a sensor or an exit.\<close>

lemma ends_within_rules:
  "n_type (t ! i) = NODE_SENSOR \<Longrightarrow> ends_within t k i"
  "n_type (t ! i) = NODE_EXIT \<Longrightarrow> ends_within t k i"
  "n_type (t ! i) = NODE_MERGE \<Longrightarrow> ends_within t (Suc k) i = ends_within t k (the (e_dest (n_edge (t ! i) ! 0)))"
  "n_type (t ! i) = NODE_ENTER \<Longrightarrow> ends_within t (Suc k) i = ends_within t k (the (e_dest (n_edge (t ! i) ! 0)))"
  "n_type (t ! i) = NODE_BRANCH \<Longrightarrow> ends_within t (Suc k) i =
     (ends_within t k (the (e_dest (n_edge (t ! i) ! 0))) \<and> ends_within t k (the (e_dest (n_edge (t ! i) ! 1))))"
  by (cases k; simp add: n_edges_def edge_range)+

declare ends_within.simps [simp del]

lemma track_sensors:
  "\<forall>i \<in> set [2..<80]. n_type (tracka_nodes ! i) = NODE_SENSOR" "n_type (tracka_nodes ! 0) = NODE_SENSOR"
  "n_type (tracka_nodes ! 1) = NODE_SENSOR"
  "\<forall>i \<in> set [2..<80]. n_type (trackb_nodes ! i) = NODE_SENSOR" "n_type (trackb_nodes ! 0) = NODE_SENSOR"
  "n_type (trackb_nodes ! 1) = NODE_SENSOR"
  by (simp_all add: tracka_at trackb_at)

lemma tracka_ends: "\<forall>i \<in> set [80..<144]. ends_within tracka_nodes (Suc (Suc (Suc (Suc (Suc 0))))) i"
  by (simp add: ends_within_rules tracka_at)

lemma trackb_ends: "\<forall>i \<in> set [80..<140]. ends_within trackb_nodes (Suc (Suc (Suc (Suc (Suc 0))))) i"
  by (simp add: ends_within_rules trackb_at)

text \<open>\<open>stall t k i\<close>: no way from node \<open>i\<close> takes more than \<open>k\<close> edges of length zero in a row.\<close>

fun stall :: "track \<Rightarrow> nat \<Rightarrow> nat \<Rightarrow> bool" where
  "stall t 0 i = list_all (\<lambda>d. 0 < e_dist (n_edge (t ! i) ! d)) [0..<n_edges (n_type (t ! i))]"
| "stall t (Suc k) i = list_all (\<lambda>d. 0 < e_dist (n_edge (t ! i) ! d) \<or>
     stall t k (the (e_dest (n_edge (t ! i) ! d)))) [0..<n_edges (n_type (t ! i))]"

lemma stall_step: "stall t k i \<Longrightarrow> exits t i d s j \<Longrightarrow> 0 < s \<or> (\<exists>k'. k = Suc k' \<and> stall t k' j)"
  by (cases k) (force simp: exits_def list_all_iff)+

lemma stall_up: "stall t k i \<Longrightarrow> stall t (Suc k) i"
proof (induction k arbitrary: i)
  case 0
  then show ?case by (auto simp: list_all_iff)
next
  case (Suc k)
  show ?case
    unfolding stall.simps(2) [of t "Suc k"]
    using Suc.prems Suc.IH by (auto simp: list_all_iff simp del: stall.simps(1))
qed

lemma stall_mono: "k \<le> k' \<Longrightarrow> stall t k i \<Longrightarrow> stall t k' i"
  by (induction rule: dec_induct) (auto dest: stall_up simp del: stall.simps)

text \<open>The edges of length zero are those between the four switches at the centre of the track.\<close>

lemma stall_to:
  "0 < e_dist (n_edge (t ! i) ! 0) \<or> stall t k (the (e_dest (n_edge (t ! i) ! 0))) \<Longrightarrow>
   n_edges (n_type (t ! i)) = 1 \<or> n_edges (n_type (t ! i)) = 2 \<and>
     (0 < e_dist (n_edge (t ! i) ! 1) \<or> stall t k (the (e_dest (n_edge (t ! i) ! 1)))) \<Longrightarrow>
   stall t (Suc k) i"
  by (auto simp: edge_range)

lemma tracka_stall_0:
  "\<forall>i \<in> set [2..<80]. stall tracka_nodes 0 i" "\<forall>i \<in> set [80..<117]. stall tracka_nodes 0 i"
  "\<forall>i \<in> set [124..<144]. stall tracka_nodes 0 i" "stall tracka_nodes 0 0" "stall tracka_nodes 0 1"
  "stall tracka_nodes 0 120"
  by (simp_all add: tracka_at n_edges_def edge_range fresh_node_eq)

lemma tracka_stall: "i < 144 \<Longrightarrow> stall tracka_nodes 3 i"
proof -
  have 0: "stall tracka_nodes 0 116" "stall tracka_nodes 0 120"
    using tracka_stall_0(2,6) by (simp_all del: stall.simps upt_rec_numeral)
  then have 1: "stall tracka_nodes (Suc 0) 118" "stall tracka_nodes (Suc 0) 122"
    by (intro stall_to; simp add: tracka_at n_edges_def del: stall.simps)+
  then have 2: "stall tracka_nodes (Suc (Suc 0)) 119" "stall tracka_nodes (Suc (Suc 0)) 123"
    by (intro stall_to; simp add: tracka_at n_edges_def del: stall.simps)+
  then have 3: "stall tracka_nodes (Suc (Suc (Suc 0))) 117" "stall tracka_nodes (Suc (Suc (Suc 0))) 121"
    by (intro stall_to; simp add: tracka_at n_edges_def del: stall.simps)+
  assume "i < 144"
  then consider "i \<in> {117, 121}" | "i \<in> {119, 123}" | "i \<in> {118, 122}"
    | "i = 0" | "i = 1" | "i = 120" | "i \<in> {2..<80}" | "i \<in> {80..<117}" | "i \<in> {124..<144}"
    by force
  then show ?thesis
    by cases (use 1 2 3 tracka_stall_0 in
      \<open>auto simp: numeral_3_eq_3 simp del: stall.simps upt_rec_numeral intro: stall_mono [of "Suc 0"]
         stall_mono [of "Suc (Suc 0)"] stall_mono [of 0]\<close>)
qed

lemma trackb_stall_0:
  "\<forall>i \<in> set [2..<80]. stall trackb_nodes 0 i" "\<forall>i \<in> set [80..<117]. stall trackb_nodes 0 i"
  "\<forall>i \<in> set [124..<144]. stall trackb_nodes 0 i" "stall trackb_nodes 0 0" "stall trackb_nodes 0 1"
  "stall trackb_nodes 0 120"
  by (simp_all add: trackb_at n_edges_def edge_range fresh_node_eq)

lemma trackb_stall: "i < 144 \<Longrightarrow> stall trackb_nodes 3 i"
proof -
  have 0: "stall trackb_nodes 0 116" "stall trackb_nodes 0 120"
    using trackb_stall_0(2,6) by (simp_all del: stall.simps upt_rec_numeral)
  then have 1: "stall trackb_nodes (Suc 0) 118" "stall trackb_nodes (Suc 0) 122"
    by (intro stall_to; simp add: trackb_at n_edges_def del: stall.simps)+
  then have 2: "stall trackb_nodes (Suc (Suc 0)) 119" "stall trackb_nodes (Suc (Suc 0)) 123"
    by (intro stall_to; simp add: trackb_at n_edges_def del: stall.simps)+
  then have 3: "stall trackb_nodes (Suc (Suc (Suc 0))) 117" "stall trackb_nodes (Suc (Suc (Suc 0))) 121"
    by (intro stall_to; simp add: trackb_at n_edges_def del: stall.simps)+
  assume "i < 144"
  then consider "i \<in> {117, 121}" | "i \<in> {119, 123}" | "i \<in> {118, 122}"
    | "i = 0" | "i = 1" | "i = 120" | "i \<in> {2..<80}" | "i \<in> {80..<117}" | "i \<in> {124..<144}"
    by force
  then show ?thesis
    by cases (use 1 2 3 trackb_stall_0 in
      \<open>auto simp: numeral_3_eq_3 simp del: stall.simps upt_rec_numeral intro: stall_mono [of "Suc 0"]
         stall_mono [of "Suc (Suc 0)"] stall_mono [of 0]\<close>)
qed

lemma tracka_switches: "switches_ok tracka_nodes"
proof -
  have "\<forall>i \<in> set [80..<144]. n_type (tracka_nodes ! i) = NODE_BRANCH \<longrightarrow>
      0 \<le> n_num (tracka_nodes ! i) \<and> n_num (tracka_nodes ! i) < int SWITCH_SIZE"
    by (simp add: tracka_at)
  moreover have "n_type (tracka_nodes ! i) = NODE_SENSOR" if "i < 80" for i
    using track_sensors(1-3) that by (cases "i = 0"; cases "i = 1") (simp_all del: upt_rec_numeral)
  ultimately show ?thesis
    unfolding switches_ok_def by (auto simp: not_less [symmetric] simp del: upt_rec_numeral)
qed

lemma trackb_switches: "switches_ok trackb_nodes"
proof -
  have "\<forall>i \<in> set [80..<144]. n_type (trackb_nodes ! i) = NODE_BRANCH \<longrightarrow>
      0 \<le> n_num (trackb_nodes ! i) \<and> n_num (trackb_nodes ! i) < int SWITCH_SIZE"
    by (simp add: trackb_at fresh_node_eq)
  moreover have "n_type (trackb_nodes ! i) = NODE_SENSOR" if "i < 80" for i
    using track_sensors(4-6) that by (cases "i = 0"; cases "i = 1") (simp_all del: upt_rec_numeral)
  ultimately show ?thesis
    unfolding switches_ok_def by (auto simp: not_less [symmetric] simp del: upt_rec_numeral)
qed

section \<open>Tracks that can be driven\<close>

text \<open>What the functions of this file need of the track they run on.\<close>

locale drivable_track =
  fixes t :: track
  assumes wf: "wf_track t"
    and switches: "switches_ok t"
    and ends: "i < TRACK_MAX \<Longrightarrow> n_type (t ! i) \<noteq> NODE_NONE \<Longrightarrow> ends_within t 5 i"
    and stalls: "i < TRACK_MAX \<Longrightarrow> stall t 3 i"
begin

lemma inc_returns:
  assumes "length sw = SWITCH_SIZE" "i < TRACK_MAX" "n_type (t ! i) \<noteq> NODE_NONE"
  shows "\<exists>r pos' k s j. next_sensor_inc sw t (Some i) pos = Some (r, pos') \<and> k \<le> 5 \<and>
    rides (is_sensor t) sw t i k s j \<and> ps_dist pos' = ps_dist pos + s \<and> (k = 0 \<or> n_type (t ! i) \<noteq> NODE_SENSOR) \<and>
    (r = 0 \<and> n_type (t ! j) = NODE_SENSOR \<and> ps_node pos' = Some j \<or>
     r = - 1 \<and> n_type (t ! j) = NODE_EXIT \<and> ps_node pos' = ps_node pos)"
  using next_sensor_inc_ok [OF wf switches assms(1) ends [OF assms(2,3)] assms(2,3)] .

lemma exc_returns:
  assumes sw: "length sw = SWITCH_SIZE" and i: "i < TRACK_MAX" "n_type (t ! i) \<noteq> NODE_NONE"
  shows "\<exists>r pos' k s j. GetNextSensorEXC sw t (Some i) pos = Some (r, pos') \<and> k \<le> 6 \<and>
    rides (is_sensor t) sw t i k s j \<and> ps_dist pos' = s \<and>
    (r = 0 \<and> 0 < k \<and> n_type (t ! j) = NODE_SENSOR \<and> ps_node pos' = Some j \<or>
     r = - 1 \<and> n_type (t ! j) = NODE_EXIT \<and> ps_node pos' = ps_node pos)"
proof (cases "n_type (t ! i) = NODE_EXIT")
  case True
  then show ?thesis
    using follow_cases(1) [OF wf switches sw i]
    by (intro exI [of _ "- 1"] exI [of _ "pos\<lparr>ps_dist := 0\<rparr>"] exI [of _ "0::nat"] exI [of _ "0::int"] exI [of _ i])
      (simp add: GetNextSensorEXC_def)
next
  case False
  then obtain s j where e: "exits t i (set_way sw t i) s j" "follow sw t (Some i) = Some (Some (s, Some j))"
    using follow_cases(2) [OF wf switches sw i] by blast
  note j = exitsD [OF wf e(1)]
  define pos1 where "pos1 = pos\<lparr>ps_dist := s\<rparr>"
  have p1: "ps_dist pos1 = s" "ps_node pos1 = ps_node pos" by (simp_all add: pos1_def)
  from inc_returns [OF sw j(2,5), of pos1] obtain r pos' k s' m where
    *: "next_sensor_inc sw t (Some j) pos1 = Some (r, pos')" "k \<le> 5"
      "rides (is_sensor t) sw t j k s' m" "ps_dist pos' = s + s'" "k = 0 \<or> n_type (t ! j) \<noteq> NODE_SENSOR"
      "r = 0 \<and> n_type (t ! m) = NODE_SENSOR \<and> ps_node pos' = Some m \<or>
       r = - 1 \<and> n_type (t ! m) = NODE_EXIT \<and> ps_node pos' = ps_node pos"
    unfolding p1 by blast
  have "GetNextSensorEXC sw t (Some i) pos = Some (r, pos')"
    using e(2) *(1) by (simp add: GetNextSensorEXC_def pos1_def)
  moreover have "rides (is_sensor t) sw t i (Suc k) (s + s') m"
    using e(1) *(3,5) unfolding rides.simps by (intro exI [of _ s] exI [of _ j]) (simp add: is_sensor_def)
  ultimately show ?thesis
    using *(2,4,6)
    by (intro exI [of _ r] exI [of _ pos'] exI [of _ "Suc k"] exI [of _ "s + s'"] exI [of _ m]) auto
qed

text \<open>The loop of \<^verbatim>\<open>dist_between_nodes\<close> ends: the distance grows at least once in four turns, and
  stops the loop beyond 50000.\<close>

lemma dist_loop_returns:
  assumes sw: "length sw = SWITCH_SIZE"
  shows "stall t k i \<Longrightarrow> i < TRACK_MAX \<Longrightarrow> n_type (t ! i) \<noteq> NODE_NONE \<Longrightarrow> 0 \<le> d \<Longrightarrow> d \<le> 50000 \<Longrightarrow>
    \<exists>r. dist_between_loop sw t (Some i) (Some b) d = Some r \<and>
      (r = - 1 \<or> d \<le> r \<and> r \<le> 50000 \<and> (\<exists>n. rides ((=) b) sw t i n (r - d) b))"
proof (induction "(nat (50000 - d), k)" arbitrary: k i d rule: wf_induct_rule [OF wf_lex_prod [OF wf_less_than wf_less_than]])
  case 1
  note i = 1(3,4)
  show ?case
  proof (cases "i = b")
    case True
    have "\<exists>n. rides ((=) b) sw t b n 0 b" by (rule exI [of _ "0::nat"]) simp
    then show ?thesis
      using True 1(5,6) by (simp add: dist_between_loop.simps)
  next
    case ne: False
    show ?thesis
    proof (cases "n_type (t ! i) = NODE_EXIT")
      case True
      then show ?thesis
        using follow_cases(1) [OF wf switches sw i] ne by (simp add: dist_between_loop.simps)
    next
      case False
      then obtain s j where e: "exits t i (set_way sw t i) s j" "follow sw t (Some i) = Some (Some (s, Some j))"
        using follow_cases(2) [OF wf switches sw i] by blast
      note j = exitsD [OF wf e(1)]
      have unf: "dist_between_loop sw t (Some i) (Some b) d =
          (if 50000 < d + s then Some (- 1) else dist_between_loop sw t (Some j) (Some b) (d + s))"
        using ne e(2) 1(5) j(3) by (simp add: dist_between_loop.simps [of sw t "Some i"])
      show ?thesis
      proof (cases "50000 < d + s")
        case True
        then show ?thesis using unf by simp
      next
        case le: False
        have "\<exists>r. dist_between_loop sw t (Some j) (Some b) (d + s) = Some r \<and>
            (r = - 1 \<or> d + s \<le> r \<and> r \<le> 50000 \<and> (\<exists>n. rides ((=) b) sw t j n (r - (d + s)) b))"
        proof (cases "0 < s")
          case True
          then have "((nat (50000 - (d + s)), 3), (nat (50000 - d), k)) \<in> less_than <*lex*> less_than"
            using le 1(5) by simp
          then show ?thesis
            by (rule 1(1)) (use stalls [OF j(2)] j(2,5) 1(5) le True in auto)
        next
          case False
          then obtain k' where k': "k = Suc k'" "stall t k' j"
            using stall_step [OF 1(2) e(1)] by blast
          have "((nat (50000 - (d + s)), k'), (nat (50000 - d), k)) \<in> less_than <*lex*> less_than"
            using False j(3) k' by simp
          then show ?thesis
            by (rule 1(1)) (use k' j(2,3,5) 1(5) le in auto)
        qed
        then obtain r where r: "dist_between_loop sw t (Some j) (Some b) (d + s) = Some r"
          "r = - 1 \<or> d + s \<le> r \<and> r \<le> 50000 \<and> (\<exists>n. rides ((=) b) sw t j n (r - (d + s)) b)" by blast
        have "d \<le> r \<and> (\<exists>n. rides ((=) b) sw t i n (r - d) b)" if "r \<noteq> - 1"
        proof -
          from r(2) that obtain n where n: "d + s \<le> r" "rides ((=) b) sw t j n (r - (d + s)) b" by blast
          show ?thesis
          proof (cases "j = b")
            case True
            then have "r = d + s"
              using r(1) by (simp add: dist_between_loop.simps)
            then have "rides ((=) b) sw t i (Suc 0) (r - d) b"
              using e(1) True by auto
            then show ?thesis using n(1) j(3) by (intro conjI exI [of _ "Suc 0"]) auto
          next
            case False
            then have "rides ((=) b) sw t i (Suc n) (r - d) b"
              using e(1) n(2) unfolding rides.simps
              by (intro exI [of _ s] exI [of _ j]) (simp add: algebra_simps)
            then show ?thesis using n(1) j(3) by (intro conjI exI [of _ "Suc n"]) auto
          qed
        qed
        then show ?thesis using unf le r by auto
      qed
    qed
  qed
qed

end

lemma five: "(5::nat) = Suc (Suc (Suc (Suc (Suc 0))))"
  by simp

interpretation ta: drivable_track tracka_nodes
proof unfold_locales
  fix i assume i: "i < TRACK_MAX" "n_type (tracka_nodes ! i) \<noteq> NODE_NONE"
  show "ends_within tracka_nodes 5 i"
  proof (cases "i < 80")
    case True
    then have "n_type (tracka_nodes ! i) = NODE_SENSOR"
      using track_sensors(1-3) by (cases "i = 0"; cases "i = 1") (simp_all del: upt_rec_numeral)
    then show ?thesis by (rule ends_within_rules)
  next
    case False
    then have "ends_within tracka_nodes (Suc (Suc (Suc (Suc (Suc 0))))) i"
      using tracka_ends i by (simp del: upt_rec_numeral)
    then show ?thesis by (simp only: five)
  qed
qed (simp_all add: wf_tracka tracka_switches tracka_stall)

interpretation tb: drivable_track trackb_nodes
proof unfold_locales
  fix i assume i: "i < TRACK_MAX" "n_type (trackb_nodes ! i) \<noteq> NODE_NONE"
  show "ends_within trackb_nodes 5 i"
  proof (cases "i < 80")
    case True
    then have "n_type (trackb_nodes ! i) = NODE_SENSOR"
      using track_sensors(4-6) by (cases "i = 0"; cases "i = 1") (simp_all del: upt_rec_numeral)
    then show ?thesis by (rule ends_within_rules)
  next
    case False
    moreover have "i < 140" using i by (cases "i < 140") (simp_all add: trackb_nth fresh_node_eq)
    ultimately have "ends_within trackb_nodes (Suc (Suc (Suc (Suc (Suc 0))))) i"
      using trackb_ends by (simp del: upt_rec_numeral)
    then show ?thesis by (simp only: five)
  qed
qed (simp_all add: wf_trackb trackb_switches trackb_stall)

section \<open>The functions, on both tracks\<close>

text \<open>C38: On the tracks set up by \<^verbatim>\<open>init_tracka\<close> and \<^verbatim>\<open>init_trackb\<close>, from every node and however the
  switches lie, \<^verbatim>\<open>GetNextSensorINC\<close> and \<^verbatim>\<open>GetNextSensorEXC\<close> return after at most five (six) edges.
  They follow the switches through no sensor on the way: either to a sensor, with 0, the sensor
  and its distance in \<^verbatim>\<open>*pos\<close>; or to an exit, with -1. \<^verbatim>\<open>EXC\<close> reports a sensor ahead of the node
  even when the node is one.\<close>

theorem next_sensor_reached:
  assumes "init_tracka t0 = Some t \<or> init_trackb t0 = Some t" "length t0 = TRACK_MAX"
    and "length sw = SWITCH_SIZE" "i < TRACK_MAX" "n_type (t ! i) \<noteq> NODE_NONE"
  shows "(\<exists>r pos' k s j. GetNextSensorINC sw t (Some i) pos = Some (r, pos') \<and> k \<le> 5 \<and>
      rides (is_sensor t) sw t i k s j \<and> ps_dist pos' = s \<and> (k = 0 \<or> n_type (t ! i) \<noteq> NODE_SENSOR) \<and>
      (r = 0 \<and> n_type (t ! j) = NODE_SENSOR \<and> ps_node pos' = Some j \<or>
       r = - 1 \<and> n_type (t ! j) = NODE_EXIT \<and> ps_node pos' = ps_node pos)) \<and>
    (\<exists>r pos' k s j. GetNextSensorEXC sw t (Some i) pos = Some (r, pos') \<and> k \<le> 6 \<and>
      rides (is_sensor t) sw t i k s j \<and> ps_dist pos' = s \<and>
      (r = 0 \<and> 0 < k \<and> n_type (t ! j) = NODE_SENSOR \<and> ps_node pos' = Some j \<or>
       r = - 1 \<and> n_type (t ! j) = NODE_EXIT \<and> ps_node pos' = ps_node pos))"
proof -
  have "t = tracka_nodes \<or> t = trackb_nodes"
    using assms(1,2) init_tracka_nodes init_trackb_nodes by auto
  then have "drivable_track t"
    using ta.drivable_track_axioms tb.drivable_track_axioms by auto
  from drivable_track.inc_returns [OF this assms(3-5), of "pos\<lparr>ps_dist := 0\<rparr>"]
    drivable_track.exc_returns [OF this assms(3-5), of pos]
  show ?thesis by (simp add: GetNextSensorINC_def)
qed

theorem next_sensor_reached_witness:
  "\<exists>r pos' j. GetNextSensorEXC (replicate 157 \<lparr>sw_state = 33, sw_branch = None, sw_merge = None\<rparr>) tracka_nodes
     (Some 0) \<lparr>ps_dist = 7, ps_node = None\<rparr> = Some (r, pos') \<and>
     (r = 0 \<and> n_type (tracka_nodes ! j) = NODE_SENSOR \<or> r = - 1 \<and> n_type (tracka_nodes ! j) = NODE_EXIT)"
proof -
  have "n_type (tracka_nodes ! 0) \<noteq> NODE_NONE" using track_sensors(2) by simp
  then show ?thesis
    using next_sensor_reached [of "replicate 144 zero_node" tracka_nodes
      "replicate 157 \<lparr>sw_state = 33, sw_branch = None, sw_merge = None\<rparr>" 0 "\<lparr>ps_dist = 7, ps_node = None\<rparr>"]
    by (auto simp: init_tracka_nodes)
qed

text \<open>On both tracks \<^verbatim>\<open>dist_between_nodes\<close> returns for every two nodes and every setting of the
  switches, although the train may circle for ever and some edges have length zero: its answer is
  -1, or at most 50000 and the distance at which the way the switches lie first reaches the end
  node.\<close>

theorem dist_between_returns:
  assumes "init_tracka t0 = Some t \<or> init_trackb t0 = Some t" "length t0 = TRACK_MAX"
    and "length sw = SWITCH_SIZE" "i < TRACK_MAX" "n_type (t ! i) \<noteq> NODE_NONE"
  shows "\<exists>r. dist_between_nodes sw t (Some i) (Some b) = Some r \<and>
    (r = - 1 \<or> 0 \<le> r \<and> r \<le> 50000 \<and> (\<exists>n. rides ((=) b) sw t i n r b))"
proof -
  have "t = tracka_nodes \<or> t = trackb_nodes"
    using assms(1,2) init_tracka_nodes init_trackb_nodes by auto
  then have d: "drivable_track t"
    using ta.drivable_track_axioms tb.drivable_track_axioms by auto
  show ?thesis
    using drivable_track.dist_loop_returns [OF d assms(3) drivable_track.stalls [OF d assms(4)] assms(4,5), of 0 b]
    by (simp add: dist_between_nodes_def)
qed

theorem dist_between_returns_witness:
  "\<exists>r. dist_between_nodes (replicate 157 \<lparr>sw_state = 34, sw_branch = None, sw_merge = None\<rparr>) tracka_nodes
     (Some 0) (Some 44) = Some r \<and> r \<le> 50000"
proof -
  have "n_type (tracka_nodes ! 0) \<noteq> NODE_NONE" using track_sensors(2) by simp
  then show ?thesis
    using dist_between_returns [of "replicate 144 zero_node" tracka_nodes
      "replicate 157 \<lparr>sw_state = 34, sw_branch = None, sw_merge = None\<rparr>" 0 44]
    by (auto simp: init_tracka_nodes)
qed

end
