(* ===== verification/PathFinding.thy ===== *)
theory PathFinding
  imports TrainQueue TrackSwitch
begin

text \<open>
  Paths, lib/train/path_finding.c. A path is found by Dijkstra's algorithm over the queue of
  \<^verbatim>\<open>priority_queue.c\<close> and then driven along: \<^verbatim>\<open>ahead\<close> and \<^verbatim>\<open>behind\<close> are circular buffers of
  \<open>TRACK_MAX\<close> node pointers. The search is written once for the three copies the program has
  (path_finding.c, user/train/driver.c, lib/train/reservation.c), which differ in the edges they
  follow out of a node: that choice is an argument. The field \<^verbatim>\<open>track\<close> of a path, a pointer to the
  nodes, is the list of the nodes.
\<close>

section \<open>Data\<close>

(* src/include/lib/train/path_finding.h:19-31 *)
record path =
  p_active :: bool
  p_ready :: bool
  p_done :: bool
  p_path_len :: u32
  p_track :: track
  p_start :: node_ptr
  p_end :: node_ptr
  p_current :: node_ptr
  p_ahead :: "node_ptr cbuf"
  p_behind :: "node_ptr cbuf"
  p_pred :: "int list"

(* src/include/lib/train/path_finding.h:33-36 *)
record sw_config =
  sc_sw :: node_ptr
  sc_state_required :: int

section \<open>The search\<close>

text \<open>The locals of the search; \<^verbatim>\<open>prev\<close> is the caller's array.\<close>

(* src/src/lib/train/path_finding.c:222-228 *)
record dij =
  d_dist :: "int list"
  d_prev :: "int list"
  d_vist :: "int list"
  d_q :: tp_queue

(* src/src/lib/train/path_finding.c:260-274 *)
fun dij_edges :: "track \<Rightarrow> int \<Rightarrow> nat list \<Rightarrow> dij \<Rightarrow> dij option" where
  "dij_edges t u [] s = Some s"
| "dij_edges t u (i # is) s = do {
     n \<leftarrow> agetz t u;
     e \<leftarrow> aget (n_edge n) i;
     m \<leftarrow> node_at t (e_dest e);
     let v = n_id m;
     du \<leftarrow> agetz (d_dist s) u;
     let alt = du + e_dist e;
     vv \<leftarrow> agetz (d_vist s) v;
     dv \<leftarrow> agetz (d_dist s) v;
     s \<leftarrow> (if vv = 0 \<and> alt < dv then do {
             dist \<leftarrow> asetz (d_dist s) v alt;
             prev \<leftarrow> asetz (d_prev s) v u;
             (_, q) \<leftarrow> tpq_add (d_q s) v alt;
             Some (s\<lparr>d_dist := dist, d_prev := prev, d_q := q\<rparr>) }
           else Some s);
     dij_edges t u is s }"

(* src/src/lib/train/path_finding.c:251-275 *)
partial_function (option) dij_loop :: "(track_node \<Rightarrow> nat list option) \<Rightarrow> track \<Rightarrow> int \<Rightarrow> dij \<Rightarrow> dij option" where
  "dij_loop sel t did s =
     (if 0 < tq_size (d_q s) then do {
        (u, q) \<leftarrow> tpq_pop (d_q s);
        if u = did then Some (s\<lparr>d_q := q\<rparr>)
        else do {
          vist \<leftarrow> asetz (d_vist s) u 1;
          n \<leftarrow> agetz t u;
          is \<leftarrow> sel n;
          s \<leftarrow> dij_edges t u is (s\<lparr>d_q := q, d_vist := vist\<rparr>);
          dij_loop sel t did s }}
      else Some s)"

text \<open>The search from node \<open>s\<close> to node \<open>d\<close>; its result is the array \<^verbatim>\<open>prev\<close>, the caller's, which is
  overwritten. The queue is an uninitialised local: its contents are arguments of the proofs.\<close>

(* src/src/lib/train/path_finding.c:239-249 *)
definition dij_start :: "int \<Rightarrow> int list \<Rightarrow> tp_queue \<Rightarrow> dij option" where
  "dij_start sid prev q = (if TRACK_MAX \<le> length prev then do {
     q \<leftarrow> tpq_init q;
     let dist = replicate TRACK_MAX INT_MAX;
     dist \<leftarrow> asetz dist sid 0;
     (_, q) \<leftarrow> tpq_add q sid 0;
     Some \<lparr>d_dist = dist, d_prev = replicate TRACK_MAX (- 1) @ drop TRACK_MAX prev,
           d_vist = replicate TRACK_MAX 0, d_q = q\<rparr> } else None)"

(* src/src/lib/train/path_finding.c:239-240 *)
definition path_search :: "(track_node \<Rightarrow> nat list option) \<Rightarrow> track \<Rightarrow> node_ptr \<Rightarrow> node_ptr \<Rightarrow> int list \<Rightarrow>
    tp_queue \<Rightarrow> dij option" where
  "path_search sel t s d prev q = do {
     ns \<leftarrow> node_at t s;
     nd \<leftarrow> node_at t d;
     st \<leftarrow> dij_start (n_id ns) prev q;
     dij_loop sel t (n_id nd) st }"

text \<open>All edges of a node: \<^verbatim>\<open>for (i = 0; i < nedges[track[u].type]; ++i)\<close>.\<close>

(* src/src/lib/train/path_finding.c:231-237 *)
definition all_edges :: "track_node \<Rightarrow> nat list option" where
  "all_edges n = Some [0..<n_edges (n_type n)]"

(* src/src/lib/train/path_finding.c:221-276 *)
definition dij_path_find :: "track \<Rightarrow> node_ptr \<Rightarrow> node_ptr \<Rightarrow> int list \<Rightarrow> tp_queue \<Rightarrow> int list option" where
  "dij_path_find t s d prev q = do { st \<leftarrow> path_search all_edges t s d prev q; Some (d_prev st) }"

section \<open>Paths\<close>

(* src/src/lib/train/path_finding.c:6-17 *)
definition path_init :: "path \<Rightarrow> track \<Rightarrow> path" where
  "path_init p track =
     p\<lparr>p_current := None, p_start := None, p_end := None, p_ready := False, p_active := False,
       p_done := False, p_path_len := 0, p_track := track,
       p_ahead := cb_init (p_ahead p), p_behind := cb_init (p_behind p)\<rparr>"

(* src/src/lib/train/path_finding.c:23-47 *)
definition path_next :: "path \<Rightarrow> path option" where
  "path_next p = do {
     kassert (p_active p);
     p \<leftarrow> (if p_current p \<noteq> None then do {
            (r, b) \<leftarrow> cb_push TRACK_MAX (p_current p) (p_behind p);
            kassert (r = CB_E_NONE);
            Some (p\<lparr>p_behind := b, p_current := None\<rparr>) }
          else Some p);
     p \<leftarrow> (if 0 < cb_size (p_ahead p) then do {
            (r, x, a) \<leftarrow> cb_pop TRACK_MAX (p_ahead p);
            kassert (r = CB_E_NONE);
            next' \<leftarrow> x;
            Some (p\<lparr>p_ahead := a, p_current := next'\<rparr>) }
          else Some p);
     Some (if p_current p = None \<and> cb_size (p_ahead p) = 0 then p\<lparr>p_active := False, p_done := True\<rparr> else p) }"

(* src/src/lib/train/path_finding.c:49-51 *)
definition path_arrived :: "path \<Rightarrow> bool" where
  "path_arrived p = p_done p"

text \<open>The search of \<^verbatim>\<open>path_follow_to\<close>: the index and the node at which its loop stops. The index is
  an \<^verbatim>\<open>int\<close> that is compared with the unsigned size.\<close>

(* src/src/lib/train/path_finding.c:60-66 *)
function path_seek :: "node_ptr cbuf \<Rightarrow> node_ptr \<Rightarrow> nat \<Rightarrow> node_ptr \<Rightarrow> (nat \<times> node_ptr) option" where
  "path_seek a t i tn =
     (if i < unat (cb_size a) then do {
        (r, x) \<leftarrow> cb_get TRACK_MAX (int i) a;
        kassert (r = CB_E_NONE);
        tn \<leftarrow> x;
        if tn = t then Some (i, tn) else path_seek a t (Suc i) tn }
      else Some (i, tn))"
  by pat_completeness auto
termination
  by (relation "measure (\<lambda>(a, t, i, tn). unat (cb_size a) - i)") auto

declare path_seek.simps [simp del]

text \<open>\<^verbatim>\<open>for (; i >= 0; --i) path_next(p)\<close>: \<open>i + 1\<close> steps.\<close>

(* src/src/lib/train/path_finding.c:73-75 *)
fun path_steps :: "nat \<Rightarrow> path \<Rightarrow> path option" where
  "path_steps 0 p = Some p"
| "path_steps (Suc n) p = do { p \<leftarrow> path_next p; path_steps n p }"

(* src/src/lib/train/path_finding.c:54-77 *)
definition path_follow_to :: "path \<Rightarrow> node_ptr \<Rightarrow> (int \<times> path) option" where
  "path_follow_to p t = do {
     (i, tn) \<leftarrow> path_seek (p_ahead p) t 0 None;
     if tn \<noteq> t then Some (- 1, p)
     else do { p \<leftarrow> path_steps (Suc i) p; Some (0, p) } }"

(* src/src/lib/train/path_finding.c:84-96 *)
definition path_get_switch_config :: "track \<Rightarrow> node_ptr \<Rightarrow> node_ptr \<Rightarrow> int option" where
  "path_get_switch_config t t1 t2 = do {
     n \<leftarrow> node_at t t1;
     kassert (n_type n = NODE_BRANCH);
     e \<leftarrow> aget (n_edge n) DIR_STRAIGHT;
     if e_dest e = t2 then Some (int DIR_STRAIGHT)
     else do {
       e \<leftarrow> aget (n_edge n) DIR_CURVED;
       if e_dest e = t2 then Some (int DIR_CURVED) else Some 0 }}"

(* src/src/lib/train/path_finding.c:98-107 *)
definition track_node_dist :: "track \<Rightarrow> node_ptr \<Rightarrow> node_ptr \<Rightarrow> int option" where
  "track_node_dist t t1 t2 = do {
     kassert (t1 \<noteq> None \<and> t2 \<noteq> None);
     n \<leftarrow> node_at t t1;
     kassert (n_type n \<noteq> NODE_EXIT);
     dir \<leftarrow> (if n_type n = NODE_BRANCH then path_get_switch_config t t1 t2 else Some (int DIR_AHEAD));
     e \<leftarrow> agetz (n_edge n) dir;
     Some (e_dist e) }"

text \<open>The switches that the next \<open>dist\<close> millimetres need. \<^verbatim>\<open>tr_path_get\<close> leaves \<^verbatim>\<open>next\<close> as it is
  when it fails, which it does not for an index below the size; a full list of configurations
  drops the switch.\<close>

(* src/src/lib/train/path_finding.c:139-157 *)
function path_switches_loop :: "path \<Rightarrow> int \<Rightarrow> nat \<Rightarrow> int \<Rightarrow> node_ptr \<Rightarrow> sw_config cbuf \<Rightarrow> sw_config cbuf option" where
  "path_switches_loop p dist i d cur cfgs =
     (if i < unat (cb_size (p_ahead p)) then do {
        (_, x) \<leftarrow> cb_get TRACK_MAX (int i) (p_ahead p);
        next' \<leftarrow> x;
        n \<leftarrow> node_at (p_track p) cur;
        cfgs \<leftarrow> (if n_type n = NODE_BRANCH then do {
                   dir \<leftarrow> path_get_switch_config (p_track p) cur next';
                   (_, c) \<leftarrow> cb_push TRACK_MAX \<lparr>sc_sw = cur, sc_state_required = dir\<rparr> cfgs;
                   Some c }
                 else Some cfgs);
        k \<leftarrow> track_node_dist (p_track p) cur next';
        let d = d + k;
        if dist \<le> d then Some cfgs else path_switches_loop p dist (Suc i) d next' cfgs }
      else Some cfgs)"
  by pat_completeness auto
termination
  by (relation "measure (\<lambda>(p, dist, i, d, cur, cfgs). unat (cb_size (p_ahead p)) - i)") auto

declare path_switches_loop.simps [simp del]

(* src/src/lib/train/path_finding.c:129-158 *)
definition path_switches_in_next_dist :: "path \<Rightarrow> sw_config cbuf \<Rightarrow> int \<Rightarrow> sw_config cbuf option" where
  "path_switches_in_next_dist p cfgs dist =
     path_switches_loop p dist 0 0 (if p_current p = None then p_start p else p_current p) cfgs"

(* src/src/lib/train/path_finding.c:168-172 *)
definition path_set_destination :: "path \<Rightarrow> node_ptr \<Rightarrow> node_ptr \<Rightarrow> path" where
  "path_set_destination p start end' = p\<lparr>p_start := start, p_end := end', p_current := None\<rparr>"

text \<open>The walk back along the predecessors into \<^verbatim>\<open>buf\<close>, and the pushes in the other order.\<close>

(* src/src/lib/train/path_finding.c:192-196 *)
partial_function (option) path_collect :: "int list \<Rightarrow> int \<Rightarrow> int option list \<Rightarrow> nat \<Rightarrow> (int option list \<times> nat) option" where
  "path_collect pred i buf n =
     (if i \<noteq> - 1 then do {
        buf \<leftarrow> aset buf n (Some i);
        i \<leftarrow> agetz pred i;
        path_collect pred i buf (Suc n) }
      else Some (buf, n))"

(* src/src/lib/train/path_finding.c:198-200 *)
fun path_push_all :: "int option list \<Rightarrow> nat \<Rightarrow> path \<Rightarrow> path option" where
  "path_push_all buf 0 p = Some p"
| "path_push_all buf (Suc n) p = do {
     b \<leftarrow> aget buf n;
     k \<leftarrow> b;
     _ \<leftarrow> agetz (p_track p) k;
     (_, a) \<leftarrow> cb_push TRACK_MAX (Some (nat k)) (p_ahead p);
     path_push_all buf n (p\<lparr>p_ahead := a\<rparr>) }"

text \<open>\<^verbatim>\<open>path_generate\<close>, after its search: \<open>search\<close> is the search it calls.\<close>

(* src/src/lib/train/path_finding.c:174-208 *)
definition path_generate_with ::
    "(track \<Rightarrow> node_ptr \<Rightarrow> node_ptr \<Rightarrow> int list \<Rightarrow> int list option) \<Rightarrow> path \<Rightarrow> (int \<times> path) option" where
  "path_generate_with search p = do {
     kassert (p_start p \<noteq> None);
     kassert (p_end p \<noteq> None);
     kassert (p_start p \<noteq> p_end p);
     ns \<leftarrow> node_at (p_track p) (p_start p);
     ne \<leftarrow> node_at (p_track p) (p_end p);
     pred \<leftarrow> search (p_track p) (p_start p) (p_end p) (p_pred p);
     let p = p\<lparr>p_pred := pred\<rparr>;
     ps \<leftarrow> agetz pred (n_id ns);
     kassert (ps = - 1);
     buf \<leftarrow> aset (replicate TRACK_MAX None) 0 (Some (n_id ne));
     i \<leftarrow> agetz pred (n_id ne);
     (buf, n) \<leftarrow> path_collect pred i buf 1;
     p \<leftarrow> path_push_all buf n p;
     if cb_size (p_ahead p) < 2 then Some (- 1, p) else Some (0, p\<lparr>p_ready := True\<rparr>) }"

(* src/src/lib/train/path_finding.c:174-208 *)
definition path_generate :: "tp_queue \<Rightarrow> path \<Rightarrow> (int \<times> path) option" where
  "path_generate q = path_generate_with (\<lambda>t s d prev. dij_path_find t s d prev q)"

(* src/src/lib/train/path_finding.c:210-219 *)
definition path_start :: "path \<Rightarrow> node_ptr \<Rightarrow> path option" where
  "path_start p start_node = do {
     kassert (p_start p \<noteq> None);
     kassert (p_end p \<noteq> None);
     kassert (start_node = p_start p);
     (_, p) \<leftarrow> path_follow_to (p\<lparr>p_active := True\<rparr>) start_node;
     Some p }"

text \<open>\<^verbatim>\<open>path_to_str\<close> writes the names of the nodes ahead, six to a line.\<close>

(* src/src/lib/train/path_finding.c:113-124 *)
function path_str_loop :: "path \<Rightarrow> nat \<Rightarrow> int \<Rightarrow> u8 list option" where
  "path_str_loop p i x =
     (if i < unat (cb_size (p_ahead p)) then do {
        (_, tn) \<leftarrow> cb_get TRACK_MAX (int i) (p_ahead p);
        tn \<leftarrow> tn;
        n \<leftarrow> node_at (p_track p) tn;
        name \<leftarrow> n_name n;
        b1 \<leftarrow> buf_pack_str name;
        b2 \<leftarrow> buf_pack_str (cstr '' '');
        b3 \<leftarrow> (if x = 5 then buf_pack_str (10 # cstr ''  '') else Some []);
        rest \<leftarrow> path_str_loop p (Suc i) (if x = 5 then 0 else x + 1);
        Some (b1 @ b2 @ b3 @ rest) }
      else Some [])"
  by pat_completeness auto
termination
  by (relation "measure (\<lambda>(p, i, x). unat (cb_size (p_ahead p)) - i)") auto

declare path_str_loop.simps [simp del]

(* src/src/lib/train/path_finding.c:109-126 *)
definition path_to_str :: "path \<Rightarrow> u8 list option" where
  "path_to_str p = do { bs \<leftarrow> path_str_loop p 0 0; Some (bs @ buf_pack_c 0) }"

end
