(* ===== verification/PathSearch.thy ===== *)
theory PathSearch
  imports PathFinding
begin

text \<open>
  The search of \<open>PathFinding\<close> is correct for every choice of edges: it ends, reads and writes
  inside its arrays, never pops a queue too large to be popped, and leaves in \<^verbatim>\<open>prev\<close> a route from
  the start to the destination exactly when there is one. The order in which the queue returns its
  elements is not used: that is why the defect of the queue costs the shortest path only.
\<close>

section \<open>Routes\<close>

definition picks :: "(track_node \<Rightarrow> nat list option) \<Rightarrow> track \<Rightarrow> nat \<Rightarrow> int \<Rightarrow> nat \<Rightarrow> bool" where
  "picks sel t u s v = (\<exists>is d. sel (t ! u) = Some is \<and> d \<in> set is \<and> exits t u d s v)"

inductive route :: "(track_node \<Rightarrow> nat list option) \<Rightarrow> track \<Rightarrow> nat list \<Rightarrow> int \<Rightarrow> bool" for sel t where
  route_one: "route sel t [v] 0"
| route_snoc: "route sel t xs s \<Longrightarrow> picks sel t (last xs) s' v \<Longrightarrow> route sel t (xs @ [v]) (s + s')"

text \<open>\<open>links prev xs\<close>: \<^verbatim>\<open>prev\<close> leads back along \<open>xs\<close>, to -1 at its head.\<close>

definition links :: "int list \<Rightarrow> nat list \<Rightarrow> bool" where
  "links prev xs \<longleftrightarrow> xs \<noteq> [] \<and> prev ! hd xs = - 1 \<and>
     (\<forall>i. Suc i < length xs \<longrightarrow> prev ! (xs ! Suc i) = int (xs ! i))"

lemma links_one: "prev ! v = - 1 \<Longrightarrow> links prev [v]"
  by (simp add: links_def)

lemma links_snoc: "links prev xs \<Longrightarrow> prev ! v = int (last xs) \<Longrightarrow> links prev (xs @ [v])"
  by (auto simp: links_def nth_append last_conv_nth less_Suc_eq hd_append)
    (metis diff_Suc_Suc diff_zero)

locale search_graph =
  fixes sel :: "track_node \<Rightarrow> nat list option" and t :: track
  assumes wf: "wf_track t"
    and sel_total: "i < TRACK_MAX \<Longrightarrow> n_type (t ! i) \<noteq> NODE_NONE \<Longrightarrow>
      \<exists>is. sel (t ! i) = Some is \<and> set is \<subseteq> {..<n_edges (n_type (t ! i))} \<and> length is \<le> n_edges (n_type (t ! i))"
    and few_branches: "card {i. i < TRACK_MAX \<and> n_type (t ! i) = NODE_BRANCH} \<le> 71"
begin

definition relaxed :: "nat list \<Rightarrow> dij \<Rightarrow> nat \<Rightarrow> nat \<Rightarrow> bool" where
  "relaxed ord s u d = (\<forall>k v. exits t u d k v \<longrightarrow> v \<in> set ord \<or> d_dist s ! v \<le> d_dist s ! u + k)"

definition reached :: "nat list \<Rightarrow> dij \<Rightarrow> nat \<Rightarrow> bool" where
  "reached ord s v = (\<exists>u \<in> set ord. \<exists>k. d_prev s ! v = int u \<and> picks sel t u k v \<and>
     d_dist s ! v = d_dist s ! u + k \<and> d_dist s ! v < INT_MAX)"

text \<open>\<open>core sid ord s\<close>: the nodes \<open>ord\<close> have been visited, in this order.\<close>

definition core :: "nat \<Rightarrow> nat list \<Rightarrow> dij \<Rightarrow> bool" where
  "core sid ord s \<longleftrightarrow>
     (length (d_dist s) = TRACK_MAX \<and> length (d_prev s) = TRACK_MAX \<and> length (d_vist s) = TRACK_MAX \<and> tpq_ok (d_q s)) \<and>
     (distinct ord \<and> set ord \<subseteq> {..<TRACK_MAX} \<and> (\<forall>v<TRACK_MAX. (d_vist s ! v = 0) = (v \<notin> set ord))) \<and>
     (sid < TRACK_MAX \<and> n_type (t ! sid) \<noteq> NODE_NONE \<and> d_dist s ! sid = 0 \<and> d_prev s ! sid = - 1) \<and>
     (\<forall>v<TRACK_MAX. v = sid \<or> d_dist s ! v = INT_MAX \<and> d_prev s ! v = - 1 \<or> reached ord s v) \<and>
     (\<forall>k<length ord. (ord ! k = sid \<or> (\<exists>j<k. d_prev s ! (ord ! k) = int (ord ! j))) \<and>
        d_dist s ! (ord ! k) \<le> 2000 * int k) \<and>
     (\<forall>v<TRACK_MAX. 0 \<le> d_dist s ! v \<and> (d_dist s ! v < INT_MAX \<longrightarrow> d_dist s ! v \<le> 2000 * int (length ord))) \<and>
     (\<forall>x \<in># tqb.vals (d_q s). \<exists>v<TRACK_MAX. x = int v \<and> d_dist s ! v < INT_MAX) \<and>
     (\<forall>v<TRACK_MAX. d_dist s ! v < INT_MAX \<longrightarrow> v \<in> set ord \<or> int v \<in># tqb.vals (d_q s))"

lemma coreD:
  assumes "core sid ord s"
  shows "length (d_dist s) = TRACK_MAX" "length (d_prev s) = TRACK_MAX" "length (d_vist s) = TRACK_MAX"
    "tpq_ok (d_q s)" "distinct ord" "u \<in> set ord \<Longrightarrow> u < TRACK_MAX"
    "v < TRACK_MAX \<Longrightarrow> (d_vist s ! v = 0) = (v \<notin> set ord)"
    "sid < TRACK_MAX" "n_type (t ! sid) \<noteq> NODE_NONE" "d_dist s ! sid = 0" "d_prev s ! sid = - 1"
    "v < TRACK_MAX \<Longrightarrow> v = sid \<or> d_dist s ! v = INT_MAX \<and> d_prev s ! v = - 1 \<or> reached ord s v"
    "k < length ord \<Longrightarrow> ord ! k = sid \<or> (\<exists>j<k. d_prev s ! (ord ! k) = int (ord ! j))"
    "k < length ord \<Longrightarrow> d_dist s ! (ord ! k) \<le> 2000 * int k"
    "v < TRACK_MAX \<Longrightarrow> 0 \<le> d_dist s ! v"
    "v < TRACK_MAX \<Longrightarrow> d_dist s ! v < INT_MAX \<Longrightarrow> d_dist s ! v \<le> 2000 * int (length ord)"
    "x \<in># tqb.vals (d_q s) \<Longrightarrow> \<exists>v<TRACK_MAX. x = int v \<and> d_dist s ! v < INT_MAX"
    "v < TRACK_MAX \<Longrightarrow> d_dist s ! v < INT_MAX \<Longrightarrow> v \<in> set ord \<or> int v \<in># tqb.vals (d_q s)"
  using assms unfolding core_def by blast+

lemma core_typed: "core sid ord s \<Longrightarrow> v < TRACK_MAX \<Longrightarrow> d_dist s ! v < INT_MAX \<Longrightarrow> n_type (t ! v) \<noteq> NODE_NONE"
  using coreD(9) [of sid ord s] coreD(12) [of sid ord s v] by (auto simp: reached_def picks_def dest: exitsD [OF wf])

lemma core_ord_len: "core sid ord s \<Longrightarrow> length ord \<le> TRACK_MAX"
proof -
  assume c: "core sid ord s"
  have "card (set ord) \<le> card {..<TRACK_MAX}" using coreD(6) [OF c] by (intro card_mono) auto
  then show ?thesis using distinct_card [OF coreD(5) [OF c]] by simp
qed

lemma visited_dist:
  assumes "core sid ord s" "u \<in> set ord"
  shows "d_dist s ! u \<le> 2000 * (int (length ord) - 1)" "d_dist s ! u < INT_MAX - 2000"
proof -
  obtain k where k: "k < length ord" "u = ord ! k" using assms(2) by (metis in_set_conv_nth)
  then show "d_dist s ! u \<le> 2000 * (int (length ord) - 1)"
    using coreD(14) [OF assms(1) k(1)] by simp
  then show "d_dist s ! u < INT_MAX - 2000" using core_ord_len [OF assms(1)] by simp
qed

section \<open>Relaxing the edges of a node\<close>

lemma relax_update:
  assumes c: "core sid ord s" and u: "u \<in> set ord" and e: "picks sel t u k v"
    and v: "v \<notin> set ord" "d_dist s ! u + k < d_dist s ! v"
    and q: "tpq_ok q'" "tqb.vals q' = add_mset (int v) (tqb.vals (d_q s))"
  shows "core sid ord (s\<lparr>d_dist := (d_dist s)[v := d_dist s ! u + k], d_prev := (d_prev s)[v := int u], d_q := q'\<rparr>)"
    (is "core sid ord ?s")
proof -
  have ke: "0 \<le> k" "k < 2000" "u < TRACK_MAX" "v < TRACK_MAX"
    using e exitsD [OF wf] by (auto simp: picks_def)
  note len = coreD(1,2,3) [OF c]
  have vs: "v \<noteq> sid" using v(2) coreD(10) [OF c] coreD(15) [OF c ke(3)] ke(1) by auto
  have uv: "u \<noteq> v" using u v(1) by auto
  have dist: "d_dist ?s ! w = (if w = v then d_dist s ! u + k else d_dist s ! w)" for w
    using len ke(4) by (simp add: nth_update_if)
  have prev: "d_prev ?s ! w = (if w = v then int u else d_prev s ! w)" for w
    using len ke(4) by (simp add: nth_update_if)
  have alt: "d_dist s ! u + k \<le> 2000 * int (length ord)" "d_dist s ! u + k < INT_MAX"
    using visited_dist [OF c u] ke by simp_all
  have r: "w = sid \<or> d_dist ?s ! w = INT_MAX \<and> d_prev ?s ! w = - 1 \<or> reached ord ?s w" if "w < TRACK_MAX" for w
  proof (cases "w = v")
    case True
    have "reached ord ?s v"
      unfolding reached_def using u e alt(2) uv dist prev by auto
    with True show ?thesis by simp
  next
    case False
    have "reached ord s w \<Longrightarrow> reached ord ?s w"
      using v(1) False dist prev unfolding reached_def by fastforce
    then show ?thesis using coreD(12) [OF c that] False dist prev by auto
  qed
  have o: "(ord ! i = sid \<or> (\<exists>j<i. d_prev ?s ! (ord ! i) = int (ord ! j))) \<and> d_dist ?s ! (ord ! i) \<le> 2000 * int i"
    if "i < length ord" for i
  proof -
    have "ord ! i \<noteq> v" using v(1) that by auto
    then show ?thesis using coreD(13,14) [OF c that] dist prev by auto
  qed
  have b: "0 \<le> d_dist ?s ! w \<and> (d_dist ?s ! w < INT_MAX \<longrightarrow> d_dist ?s ! w \<le> 2000 * int (length ord))"
    if "w < TRACK_MAX" for w
    using coreD(15,16) [OF c that] coreD(15) [OF c ke(3)] ke(1) alt dist by simp
  have x: "\<exists>w<TRACK_MAX. x = int w \<and> d_dist ?s ! w < INT_MAX" if "x \<in># tqb.vals q'" for x
  proof (cases "x = int v")
    case True
    then show ?thesis using ke(4) alt(2) dist by (intro exI [of _ v]) simp
  next
    case False
    then have "x \<in># tqb.vals (d_q s)" using that q(2) by simp
    then obtain w where "w < TRACK_MAX" "x = int w" "d_dist s ! w < INT_MAX"
      using coreD(17) [OF c] by blast
    then show ?thesis using False dist by (intro exI [of _ w]) simp
  qed
  have f: "w \<in> set ord \<or> int w \<in># tqb.vals q'" if "w < TRACK_MAX" "d_dist ?s ! w < INT_MAX" for w
    using that coreD(18) [OF c that(1)] dist q(2) by (cases "w = v") auto
  have sid: "d_dist ?s ! sid = 0" "d_prev ?s ! sid = - 1"
    using vs coreD(10,11) [OF c] dist prev by simp_all
  have sub: "set ord \<subseteq> {..<TRACK_MAX}" using coreD(6) [OF c] by auto
  show ?thesis
    unfolding core_def
    using len q(1) coreD(5,7,8,9) [OF c] sub sid r o b x f by simp
qed

lemma dij_edge_ok:
  assumes c: "core sid ord s" and u: "u \<in> set ord" and sel: "sel (t ! u) = Some js" "d \<in> set js"
    and d: "d < n_edges (n_type (t ! u))" and room: "tq_size (d_q s) < int TRACK_MAX"
  shows "\<exists>s'. dij_edges t (int u) (d # is) s = dij_edges t (int u) is s' \<and> core sid ord s' \<and>
    tq_size (d_q s') \<le> tq_size (d_q s) + 1 \<and> relaxed ord s' u d \<and>
    (\<forall>w \<in> set ord. \<forall>d. relaxed ord s w d \<longrightarrow> relaxed ord s' w d)"
proof -
  have ul: "u < TRACK_MAX" using coreD(6) [OF c u] .
  from wf_exits [OF wf ul d] obtain k v where e: "exits t u d k v" "0 \<le> k" "v < TRACK_MAX"
    "e_dest (n_edge (t ! u) ! d) = Some v" "e_dist (n_edge (t ! u) ! d) = k" by blast
  have p: "picks sel t u k v" using sel e(1) by (auto simp: picks_def)
  note len = coreD(1,2,3) [OF c]
  let ?alt = "d_dist s ! u + k"
  have d2: "d < 2" using d n_edges_le [of "n_type (t ! u)"] by linarith
  have unf: "dij_edges t (int u) (d # is) s =
      (if v \<notin> set ord \<and> ?alt < d_dist s ! v
       then do { (_, q) \<leftarrow> tpq_add (d_q s) (int v) ?alt;
                 dij_edges t (int u) is (s\<lparr>d_dist := (d_dist s)[v := ?alt], d_prev := (d_prev s)[v := int u], d_q := q\<rparr>) }
       else dij_edges t (int u) is s)"
    using ul e d2 len wf coreD(7) [OF c e(3)]
    by (simp add: agetz_in asetz_in wf_n_edge wf_id Let_def split: prod.split option.split)
      (auto split: Option.bind_splits)
  show ?thesis
  proof (cases "v \<notin> set ord \<and> ?alt < d_dist s ! v")
    case True
    have alt: "?alt < INT_MAX" using visited_dist(2) [OF c u] exitsD(4) [OF wf e(1)] by simp
    obtain q' where q': "tpq_add (d_q s) (int v) ?alt = Some (0, q')" "tpq_ok q'"
      "tqb.vals q' = add_mset (int v) (tqb.vals (d_q s))"
      using tqb.add_vals [OF coreD(4) [OF c] room _ _ alt, of "int v"] e(3) by auto
    let ?s = "s\<lparr>d_dist := (d_dist s)[v := ?alt], d_prev := (d_prev s)[v := int u], d_q := q'\<rparr>"
    have "core sid ord ?s"
      by (rule relax_update [OF c u p _ _ q'(2,3)]) (use True in auto)
    moreover have "tq_size q' = tq_size (d_q s) + 1"
      using tqb.size_vals [OF q'(2)] tqb.size_vals [OF coreD(4) [OF c]] q'(3) by simp
    moreover have "u \<noteq> v" using True u by auto
    then have "relaxed ord ?s u d"
      using e(1) len e(3) by (auto simp: relaxed_def nth_update_if dest: exits_fun)
    moreover have "relaxed ord ?s w d'" if "w \<in> set ord" "relaxed ord s w d'" for w d'
    proof -
      have "w \<noteq> v" using True that(1) by auto
      then show ?thesis
        using that(2) True len e(3) by (fastforce simp: relaxed_def nth_update_if)
    qed
    ultimately show ?thesis using unf True q'(1) by (intro exI [of _ ?s]) simp
  next
    case False
    then have "relaxed ord s u d"
      using e(1) by (auto simp: relaxed_def dest: exits_fun)
    then show ?thesis using unf False c by (intro exI [of _ s]) auto
  qed
qed

lemma dij_edges_ok:
  assumes u: "u \<in> set ord" and sel: "sel (t ! u) = Some js"
  shows "core sid ord s \<Longrightarrow> set is \<subseteq> set js \<Longrightarrow> set is \<subseteq> {..<n_edges (n_type (t ! u))} \<Longrightarrow>
    tq_size (d_q s) + int (length is) \<le> int TRACK_MAX \<Longrightarrow>
    \<exists>s'. dij_edges t (int u) is s = Some s' \<and> core sid ord s' \<and>
      tq_size (d_q s') \<le> tq_size (d_q s) + int (length is) \<and> (\<forall>d \<in> set is. relaxed ord s' u d) \<and>
      (\<forall>w \<in> set ord. \<forall>d. relaxed ord s w d \<longrightarrow> relaxed ord s' w d)"
proof (induction "is" arbitrary: s)
  case (Cons d ds)
  from dij_edge_ok [OF Cons.prems(1) u sel, of d ds] Cons.prems obtain s1 where
    1: "dij_edges t (int u) (d # ds) s = dij_edges t (int u) ds s1" "core sid ord s1"
      "tq_size (d_q s1) \<le> tq_size (d_q s) + 1" "relaxed ord s1 u d"
      "\<forall>w \<in> set ord. \<forall>d. relaxed ord s w d \<longrightarrow> relaxed ord s1 w d" by auto
  from Cons.IH [OF 1(2)] Cons.prems 1(3) obtain s2 where
    2: "dij_edges t (int u) ds s1 = Some s2" "core sid ord s2"
      "tq_size (d_q s2) \<le> tq_size (d_q s1) + int (length ds)" "\<forall>d \<in> set ds. relaxed ord s2 u d"
      "\<forall>w \<in> set ord. \<forall>d. relaxed ord s1 w d \<longrightarrow> relaxed ord s2 w d" by auto
  show ?case using 1 2 u by (intro exI [of _ s2]) auto
qed auto

text \<open>A node that comes out of the queue a second time changes nothing.\<close>

lemma dij_edges_again:
  assumes c: "core sid ord s" and u: "u \<in> set ord"
  shows "set is \<subseteq> {..<n_edges (n_type (t ! u))} \<Longrightarrow> \<forall>d \<in> set is. relaxed ord s u d \<Longrightarrow>
    dij_edges t (int u) is s = Some s"
proof (induction "is")
  case (Cons d ds)
  have ul: "u < TRACK_MAX" and d: "d < n_edges (n_type (t ! u))" using coreD(6) [OF c u] Cons.prems(1) by auto
  from wf_exits [OF wf this] obtain k v where e: "exits t u d k v" "v < TRACK_MAX"
    "e_dest (n_edge (t ! u) ! d) = Some v" "e_dist (n_edge (t ! u) ! d) = k" by blast
  have "\<not> (d_vist s ! v = 0 \<and> d_dist s ! u + k < d_dist s ! v)"
    using Cons.prems(2) e(1) coreD(7) [OF c e(2)] unfolding relaxed_def by (metis list.set_intros(1) not_le)
  then have "dij_edges t (int u) (d # ds) s = dij_edges t (int u) ds s"
    using ul e d n_edges_le [of "n_type (t ! u)"] coreD(1,2,3) [OF c] wf
    by (auto simp: agetz_in wf_n_edge wf_id Let_def)
  then show ?case using Cons by auto
qed simp

section \<open>The loop\<close>

definition pending_sum :: "nat list \<Rightarrow> int" where
  "pending_sum ord = (\<Sum>u\<leftarrow>ord. int (n_edges (n_type (t ! u))) - 1)"

definition loop_inv :: "nat \<Rightarrow> nat \<Rightarrow> nat list \<Rightarrow> dij \<Rightarrow> bool" where
  "loop_inv sid did ord s \<longleftrightarrow> core sid ord s \<and> did \<notin> set ord \<and>
     (\<forall>u \<in> set ord. \<forall>js d. sel (t ! u) = Some js \<and> d \<in> set js \<longrightarrow> relaxed ord s u d) \<and>
     tq_size (d_q s) \<le> 1 + pending_sum ord"

lemma pending_sum_le: "core sid ord s \<Longrightarrow> pending_sum ord \<le> 71"
proof -
  assume c: "core sid ord s"
  have d: "distinct ord" using coreD(5) [OF c] .
  have "pending_sum ord = (\<Sum>u \<in> set ord. int (n_edges (n_type (t ! u))) - 1)"
    unfolding pending_sum_def using d by (simp add: sum_list_distinct_conv_sum_set)
  also have "\<dots> \<le> (\<Sum>u \<in> set ord. if n_type (t ! u) = NODE_BRANCH then 1 else 0)"
    by (intro sum_mono) (auto simp: n_edges_def split: node_type.splits)
  also have "\<dots> = int (card {u \<in> set ord. n_type (t ! u) = NODE_BRANCH})"
    by (simp add: sum.If_cases Int_def)
  also have "\<dots> \<le> int (card {i. i < TRACK_MAX \<and> n_type (t ! i) = NODE_BRANCH})"
    using coreD(6) [OF c] by (intro of_nat_mono card_mono) auto
  also have "\<dots> \<le> 71" using few_branches by simp
  finally show ?thesis .
qed

text \<open>Popping and marking a node.\<close>

lemma pop_core:
  assumes c: "core sid ord s" and q: "tpq_ok q" "tqb.vals q = tqb.vals (d_q s) - {#int u#}"
    and u: "u < TRACK_MAX" "d_dist s ! u < INT_MAX" "u = sid \<or> ord \<noteq> []"
  shows "core sid (if u \<in> set ord then ord else ord @ [u]) (s\<lparr>d_q := q, d_vist := (d_vist s)[u := 1]\<rparr>)"
    (is "core sid ?ord ?s")
proof -
  have ord: "set ?ord = insert u (set ord)" by auto
  have sub: "set ?ord \<subseteq> {..<TRACK_MAX}" using coreD(6) [OF c] u(1) by auto
  have d: "distinct ?ord" using coreD(5) [OF c] by simp
  have v: "(d_vist ?s ! v = 0) = (v \<notin> set ?ord)" if "v < TRACK_MAX" for v
    using coreD(7) [OF c that] coreD(3) [OF c] that unfolding ord by (auto simp: nth_update_if)
  have r: "w = sid \<or> d_dist ?s ! w = INT_MAX \<and> d_prev ?s ! w = - 1 \<or> reached ?ord ?s w" if "w < TRACK_MAX" for w
  proof -
    have "reached ord s w \<Longrightarrow> reached ?ord ?s w" unfolding reached_def ord by auto
    then show ?thesis using coreD(12) [OF c that] by auto
  qed
  have o: "(?ord ! i = sid \<or> (\<exists>j<i. d_prev ?s ! (?ord ! i) = int (?ord ! j))) \<and> d_dist ?s ! (?ord ! i) \<le> 2000 * int i"
    if "i < length ?ord" for i
  proof (cases "i < length ord")
    case True
    then have "?ord ! k = ord ! k" if "k \<le> i" for k using that by (auto simp: nth_append)
    then have eq: "?ord ! i = ord ! i" "j < i \<Longrightarrow> ?ord ! j = ord ! j" for j by auto
    have "ord ! i = sid \<or> (\<exists>j<i. d_prev s ! (ord ! i) = int (?ord ! j))"
      using coreD(13) [OF c True] eq(2) by metis
    then show ?thesis using coreD(14) [OF c True] unfolding eq(1) by simp
  next
    case False
    then have n: "u \<notin> set ord" "i = length ord" using that by (auto split: if_splits)
    have "u = sid \<or> (\<exists>j<length ord. d_prev s ! u = int (ord ! j))"
      using coreD(12) [OF c u(1)] u(2) by (auto simp: reached_def in_set_conv_nth)
    then show ?thesis using n coreD(16) [OF c u(1,2)] by (auto simp: nth_append)
  qed
  have b: "0 \<le> d_dist ?s ! w \<and> (d_dist ?s ! w < INT_MAX \<longrightarrow> d_dist ?s ! w \<le> 2000 * int (length ?ord))"
    if "w < TRACK_MAX" for w
    using coreD(15,16) [OF c that] by auto
  have x: "\<exists>w<TRACK_MAX. x = int w \<and> d_dist ?s ! w < INT_MAX" if "x \<in># tqb.vals q" for x
    using that coreD(17) [OF c, of x] q(2) by (auto dest: in_diffD)
  have f: "w \<in> set ?ord \<or> int w \<in># tqb.vals q" if "w < TRACK_MAX" "d_dist ?s ! w < INT_MAX" for w
    using coreD(18) [OF c that(1)] that(2) q(2) unfolding ord
    by (cases "w = u") (auto simp: in_diff_count)
  show ?thesis
    unfolding core_def
    using coreD(1,2,3,8,9,10,11) [OF c] q(1) d sub v r o b x f by simp
qed

lemma sel_ok:
  assumes "core sid ord s" "u < TRACK_MAX" "d_dist s ! u < INT_MAX"
  obtains js where "sel (t ! u) = Some js" "set js \<subseteq> {..<n_edges (n_type (t ! u))}"
    "length js \<le> n_edges (n_type (t ! u))"
  using sel_total [OF assms(2) core_typed [OF assms]] by blast

text \<open>One turn of the loop at a node other than the destination.\<close>

lemma turn_ok:
  assumes inv: "loop_inv sid did ord s" and q: "tpq_ok q" "tqb.vals q = tqb.vals (d_q s) - {#int u#}"
    "int u \<in># tqb.vals (d_q s)" and u: "u < TRACK_MAX" "d_dist s ! u < INT_MAX" "u \<noteq> did"
    and sel: "sel (t ! u) = Some js" "set js \<subseteq> {..<n_edges (n_type (t ! u))}" "length js \<le> n_edges (n_type (t ! u))"
  shows "\<exists>s' ord'. dij_edges t (int u) js (s\<lparr>d_q := q, d_vist := (d_vist s)[u := 1]\<rparr>) = Some s' \<and>
    loop_inv sid did ord' s' \<and> length ord' \<le> TRACK_MAX \<and>
    3 * (144 - int (length ord')) + tq_size (d_q s') < 3 * (144 - int (length ord)) + tq_size (d_q s)"
proof -
  have c: "core sid ord s" and sz: "tq_size (d_q s) \<le> 1 + pending_sum ord" and nd: "did \<notin> set ord"
    and rel: "\<And>w js d. w \<in> set ord \<Longrightarrow> sel (t ! w) = Some js \<Longrightarrow> d \<in> set js \<Longrightarrow> relaxed ord s w d"
    using inv by (auto simp: loop_inv_def)
  let ?s = "s\<lparr>d_q := q, d_vist := (d_vist s)[u := 1]\<rparr>"
  let ?ord = "if u \<in> set ord then ord else ord @ [u]"
  have qs: "tq_size q = tq_size (d_q s) - 1"
  proof -
    have "tqb.vals (d_q s) = add_mset (int u) (tqb.vals q)" using q(2,3) by simp
    then show ?thesis using tqb.size_vals [OF q(1)] tqb.size_vals [OF coreD(4) [OF c]] by simp
  qed
  have "u = sid \<or> ord \<noteq> []"
    using coreD(12) [OF c u(1)] u(2) by (auto simp: reached_def)
  note core' = pop_core [OF c q(1,2) u(1,2) this]
  have rel': "relaxed ?ord ?s w d" if "relaxed ord s w d" for w d
    using that by (auto simp: relaxed_def)
  show ?thesis
  proof (cases "u \<in> set ord")
    case True
    have "dij_edges t (int u) js ?s = Some ?s"
      by (rule dij_edges_again [OF core'])
        (use True sel rel [OF True sel(1)] rel' in auto)
    moreover have "loop_inv sid did ord ?s"
      using core' True nd rel rel' qs sz by (auto simp: loop_inv_def)
    ultimately show ?thesis
      using qs core_ord_len [OF c] by (intro exI [of _ ?s] exI [of _ ord]) simp
  next
    case False
    let ?o = "ord @ [u]"
    have cq: "core sid ?o ?s" using core' False by simp
    have "pending_sum ord \<le> 71" using pending_sum_le [OF c] .
    then have room: "tq_size (d_q ?s) + int (length js) \<le> int TRACK_MAX"
      using sz qs sel(3) n_edges_le [of "n_type (t ! u)"] by simp
    obtain s' where s': "dij_edges t (int u) js ?s = Some s'" "core sid ?o s'"
      "tq_size (d_q s') \<le> tq_size (d_q ?s) + int (length js)" "\<forall>d \<in> set js. relaxed ?o s' u d"
      "\<forall>w \<in> set ?o. \<forall>d. relaxed ?o ?s w d \<longrightarrow> relaxed ?o s' w d"
      using dij_edges_ok [OF _ sel(1) cq _ sel(2) room] by auto
    have "relaxed ?o s' w d" if "w \<in> set ?o" "sel (t ! w) = Some js'" "d \<in> set js'" for w js' d
    proof (cases "w = u")
      case True
      then show ?thesis using that s'(4) sel(1) by auto
    next
      case False
      then show ?thesis using that rel rel' \<open>u \<notin> set ord\<close> s'(5) by auto
    qed
    moreover have "pending_sum ?o = pending_sum ord + int (n_edges (n_type (t ! u))) - 1"
      by (simp add: pending_sum_def)
    ultimately have "loop_inv sid did ?o s'"
      using s'(2,3) nd u(3) sz qs sel(3) by (auto simp: loop_inv_def)
    moreover have "int (length js) \<le> 2" using sel(3) n_edges_le [of "n_type (t ! u)"] by simp
    ultimately show ?thesis
      using s'(1,3) qs core_ord_len [OF s'(2)] by (intro exI [of _ s'] exI [of _ ?o]) simp
  qed
qed

definition no_route :: "nat \<Rightarrow> nat \<Rightarrow> bool" where
  "no_route sid did = (\<nexists>xs k. route sel t xs k \<and> hd xs = sid \<and> last xs = did)"

lemma route_start_in:
  assumes c: "\<And>u k v. u \<in> S \<Longrightarrow> picks sel t u k v \<Longrightarrow> v \<in> S"
  shows "route sel t xs k \<Longrightarrow> hd xs \<in> S \<Longrightarrow> xs \<noteq> [] \<and> last xs \<in> S"
proof (induction rule: route.induct)
  case (route_snoc xs s s' v)
  then show ?case using c by (cases xs) auto
qed simp

lemma empty_no_route:
  assumes inv: "loop_inv sid did ord s" and e: "tq_size (d_q s) = 0" and did: "did < TRACK_MAX"
  shows "no_route sid did" "d_dist s ! did = INT_MAX"
proof -
  have c: "core sid ord s" and nd: "did \<notin> set ord" using inv by (auto simp: loop_inv_def)
  have "tqb.vals (d_q s) = {#}"
    using tqb.size_vals [OF coreD(4) [OF c]] e by simp
  then have all: "v \<in> set ord" if "v < TRACK_MAX" "d_dist s ! v < INT_MAX" for v
    using coreD(18) [OF c that] by simp
  have step: "v \<in> set ord" if u: "u \<in> set ord" and p: "picks sel t u k v" for u k v
  proof -
    obtain js d where "sel (t ! u) = Some js" "d \<in> set js" "exits t u d k v"
      using p by (auto simp: picks_def)
    moreover from this have "relaxed ord s u d" using inv u by (auto simp: loop_inv_def)
    ultimately have "v \<in> set ord \<or> d_dist s ! v \<le> d_dist s ! u + k" "v < TRACK_MAX" "k < 2000"
      using exitsD [OF wf] by (auto simp: relaxed_def)
    then show ?thesis using all visited_dist(2) [OF c u] by fastforce
  qed
  have closed: "last xs \<in> set ord" if "route sel t xs k" "hd xs \<in> set ord" for xs k
    using route_start_in [where S = "set ord", OF _ that] step by blast
  have "sid \<in> set ord" using all [OF coreD(8) [OF c]] coreD(10) [OF c] by simp
  then show "no_route sid did" using closed nd by (auto simp: no_route_def)
  show "d_dist s ! did = INT_MAX"
    using all [OF did] nd coreD(12) [OF c did] \<open>sid \<in> set ord\<close> by (auto simp: reached_def)
qed

lemma dij_loop_ok:
  assumes did: "did < TRACK_MAX"
  shows "loop_inv sid did ord s \<Longrightarrow> length ord \<le> TRACK_MAX \<Longrightarrow>
    \<exists>s0 q ord'. dij_loop sel t (int did) s = Some (s0\<lparr>d_q := q\<rparr>) \<and> core sid ord' s0 \<and> did \<notin> set ord' \<and>
      (d_dist s0 ! did < INT_MAX \<or> d_dist s0 ! did = INT_MAX \<and> no_route sid did)"
proof (induction "nat (3 * (144 - int (length ord)) + tq_size (d_q s))" arbitrary: ord s rule: less_induct)
  case less
  note inv = less.prems(1)
  have c: "core sid ord s" and nd: "did \<notin> set ord" and sz: "tq_size (d_q s) \<le> 1 + pending_sum ord"
    using inv by (auto simp: loop_inv_def)
  have ge: "0 \<le> tq_size (d_q s)" using coreD(4) [OF c] by (simp add: tpq_ok_def)
  show ?case
  proof (cases "tq_size (d_q s) = 0")
    case True
    then have "dij_loop sel t (int did) s = Some (s\<lparr>d_q := d_q s\<rparr>)" by (simp add: dij_loop.simps)
    then show ?thesis using empty_no_route [OF inv True did] c nd by blast
  next
    case False
    then have pos: "0 < tq_size (d_q s)" using ge by simp
    have "tq_size (d_q s) \<le> 72" using sz pending_sum_le [OF c] by simp
    from tqb.pop_vals [OF coreD(4) [OF c] pos this] obtain x q where
      pop: "tpq_pop (d_q s) = Some (x, q)" "tpq_ok q" "x \<in># tqb.vals (d_q s)"
        "tqb.vals q = tqb.vals (d_q s) - {#x#}" by blast
    obtain u where u: "u < TRACK_MAX" "x = int u" "d_dist s ! u < INT_MAX"
      using coreD(17) [OF c pop(3)] by blast
    show ?thesis
    proof (cases "u = did")
      case True
      then have "dij_loop sel t (int did) s = Some (s\<lparr>d_q := q\<rparr>)"
        using pos pop(1) u(2) by (simp add: dij_loop.simps)
      then show ?thesis using True c nd u(3) by blast
    next
      case False
      obtain js where js: "sel (t ! u) = Some js" "set js \<subseteq> {..<n_edges (n_type (t ! u))}"
        "length js \<le> n_edges (n_type (t ! u))"
        using sel_ok [OF c u(1,3)] by blast
      obtain s' ord' where s': "dij_edges t (int u) js (s\<lparr>d_q := q, d_vist := (d_vist s)[u := 1]\<rparr>) = Some s'"
        "loop_inv sid did ord' s'" "length ord' \<le> TRACK_MAX"
        "3 * (144 - int (length ord')) + tq_size (d_q s') < 3 * (144 - int (length ord)) + tq_size (d_q s)"
        using turn_ok [OF inv pop(2) _ _ u(1,3) False js] pop(3,4) u(2) by auto
      have "dij_loop sel t (int did) s = dij_loop sel t (int did) s'"
        using pos pop(1) u False js(1) s'(1) coreD(3) [OF c] wf
        by (simp add: dij_loop.simps [of sel t "int did" s] asetz_in agetz_in)
      moreover have "nat (3 * (144 - int (length ord')) + tq_size (d_q s')) < nat (3 * (144 - int (length ord)) + tq_size (d_q s))"
        using s'(3,4) less.prems(2) pos by simp
      ultimately show ?thesis using less.hyps [OF _ s'(2,3)] by simp
    qed
  qed
qed

section \<open>The whole search\<close>

lemma core_chain_ord:
  assumes c: "core sid ord s"
  shows "k < length ord \<Longrightarrow>
    \<exists>xs. route sel t xs (d_dist s ! (ord ! k)) \<and> hd xs = sid \<and> last xs = ord ! k \<and> links (d_prev s) xs \<and>
      distinct xs \<and> set xs \<subseteq> set (take (Suc k) ord)"
proof (induction k rule: less_induct)
  case (less k)
  note k = less.prems
  have kt: "ord ! k < TRACK_MAX" using coreD(6) [OF c] k by simp
  show ?case
  proof (cases "ord ! k = sid")
    case True
    then show ?thesis
      using coreD(10,11) [OF c] k by (intro exI [of _ "[sid]"]) (auto simp: links_one take_Suc_conv_app_nth intro: route_one)
  next
    case False
    then obtain j where j: "j < k" "d_prev s ! (ord ! k) = int (ord ! j)"
      using coreD(13) [OF c k] by blast
    then have "reached ord s (ord ! k)" using coreD(12) [OF c kt] False by auto
    then obtain e where e: "picks sel t (ord ! j) e (ord ! k)" "d_dist s ! (ord ! k) = d_dist s ! (ord ! j) + e"
      using j(2) by (auto simp: reached_def)
    obtain xs where xs: "route sel t xs (d_dist s ! (ord ! j))" "hd xs = sid" "last xs = ord ! j"
      "links (d_prev s) xs" "distinct xs" "set xs \<subseteq> set (take (Suc j) ord)"
      using less.IH [OF j(1)] j(1) k by auto
    have "ord ! k \<notin> set (take (Suc j) ord)"
      using coreD(5) [OF c] j(1) k by (auto simp: in_set_conv_nth nth_eq_iff_index_eq)
    moreover have "set (take (Suc j) ord) \<subseteq> set (take k ord)" using j(1) by (intro set_take_subset_set_take) simp
    ultimately show ?thesis
      using xs e k j(2) route_snoc [OF xs(1), of e "ord ! k"] links_snoc [OF xs(4)]
      by (intro exI [of _ "xs @ [ord ! k]"])
        (auto simp: take_Suc_conv_app_nth links_def)
  qed
qed

lemma core_chain:
  assumes c: "core sid ord s" and v: "v < TRACK_MAX" "d_dist s ! v < INT_MAX" "v \<notin> set ord"
  shows "\<exists>xs. route sel t xs (d_dist s ! v) \<and> hd xs = sid \<and> last xs = v \<and> links (d_prev s) xs \<and> distinct xs"
proof (cases "v = sid")
  case True
  then show ?thesis using coreD(10,11) [OF c] by (intro exI [of _ "[sid]"]) (auto simp: links_one intro: route_one)
next
  case False
  then obtain u e where u: "u \<in> set ord" "d_prev s ! v = int u" "picks sel t u e v" "d_dist s ! v = d_dist s ! u + e"
    using coreD(12) [OF c v(1)] v(2) by (auto simp: reached_def)
  then obtain k where k: "k < length ord" "u = ord ! k" by (metis in_set_conv_nth)
  from core_chain_ord [OF c k(1)] obtain xs where
    xs: "route sel t xs (d_dist s ! u)" "hd xs = sid" "last xs = u" "links (d_prev s) xs" "distinct xs" "set xs \<subseteq> set ord"
    using k(2) set_take_subset by fastforce
  then show ?thesis
    using u v(3) route_snoc [OF xs(1), of e v] links_snoc [OF xs(4), of v]
    by (intro exI [of _ "xs @ [v]"]) (auto simp: links_def)
qed

lemma dij_start_ok:
  assumes sid: "sid < TRACK_MAX" "n_type (t ! sid) \<noteq> NODE_NONE"
    and len: "length prev = TRACK_MAX" "length (tq_tree q) = MAX_TPQ_SIZE" "length (tq_map q) = MAX_TPQ_SIZE"
  shows "\<exists>s. dij_start (int sid) prev q = Some s \<and> loop_inv sid did [] s"
proof -
  obtain q0 where q0: "tpq_init q = Some q0" "tpq_ok q0" "tq_size q0 = 0" "tq_items q0 = {#}"
    using tpq_init_ok [OF len(2,3)] by blast
  have "\<exists>q'. tpq_add q0 (int sid) 0 = Some (0, q') \<and> tpq_ok q' \<and> tqb.vals q' = add_mset (int sid) (tqb.vals q0)"
    by (rule tqb.add_vals [OF q0(2)]) (use q0(3) sid in auto)
  then obtain q1 where q1: "tpq_add q0 (int sid) 0 = Some (0, q1)" "tpq_ok q1" "tqb.vals q1 = {#int sid#}"
    using q0(4) by (auto simp: tqb.vals_def)
  let ?s = "\<lparr>d_dist = (replicate TRACK_MAX INT_MAX)[sid := 0], d_prev = replicate TRACK_MAX (- 1),
      d_vist = replicate TRACK_MAX 0, d_q = q1\<rparr>"
  have "dij_start (int sid) prev q = Some ?s"
    using q0(1) q1(1) sid(1) len(1) by (simp add: dij_start_def asetz_in)
  moreover have "core sid [] ?s"
    using sid q1 by (auto simp: core_def nth_update_if)
  moreover have "tq_size q1 = 1" using tqb.size_vals [OF q1(2)] q1(3) by simp
  ultimately show ?thesis by (auto simp: loop_inv_def pending_sum_def)
qed

lemma path_search_ok:
  assumes sid: "sid < TRACK_MAX" "n_type (t ! sid) \<noteq> NODE_NONE" and did: "did < TRACK_MAX"
    and len: "length prev = TRACK_MAX" "length (tq_tree q) = MAX_TPQ_SIZE" "length (tq_map q) = MAX_TPQ_SIZE"
  shows "\<exists>s. path_search sel t (Some sid) (Some did) prev q = Some s \<and> length (d_prev s) = TRACK_MAX \<and>
    d_prev s ! sid = - 1 \<and>
    ((\<exists>xs. route sel t xs (d_dist s ! did) \<and> hd xs = sid \<and> last xs = did \<and> links (d_prev s) xs \<and> distinct xs) \<or>
     d_prev s ! did = - 1 \<and> no_route sid did \<and> did \<noteq> sid)"
proof -
  obtain s0 where s0: "dij_start (int sid) prev q = Some s0" "loop_inv sid did [] s0"
    using dij_start_ok [OF sid len] by blast
  obtain s1 q1 ord where s1: "dij_loop sel t (int did) s0 = Some (s1\<lparr>d_q := q1\<rparr>)" "core sid ord s1"
    "did \<notin> set ord" "d_dist s1 ! did < INT_MAX \<or> d_dist s1 ! did = INT_MAX \<and> no_route sid did"
    using dij_loop_ok [OF did s0(2)] by auto
  have eq: "path_search sel t (Some sid) (Some did) prev q = Some (s1\<lparr>d_q := q1\<rparr>)"
    using wf sid did s0(1) s1(1) by (simp add: path_search_def wf_id)
  have "did \<noteq> sid" if "no_route sid did"
    using that route_one [of sel t sid] by (force simp: no_route_def)
  moreover have "d_prev s1 ! did = - 1" if "d_dist s1 ! did = INT_MAX"
    using coreD(12) [OF s1(2) did] coreD(11) [OF s1(2)] that by (auto simp: reached_def)
  moreover have "\<exists>xs. route sel t xs (d_dist s1 ! did) \<and> hd xs = sid \<and> last xs = did \<and> links (d_prev s1) xs \<and> distinct xs"
    if "d_dist s1 ! did < INT_MAX"
    using core_chain [OF s1(2) did that s1(3)] .
  ultimately show ?thesis
    using eq s1(4) coreD(2,11) [OF s1(2)] by auto
qed

end

end
