(* ===== verification/PathTheorems.thy ===== *)
theory PathTheorems
  imports PathSearch
begin

text \<open>
  What the operations on paths do: \<^verbatim>\<open>path_generate\<close> turns the search's \<^verbatim>\<open>prev\<close> into the route in
  \<^verbatim>\<open>ahead\<close>, and \<^verbatim>\<open>path_next\<close> and \<^verbatim>\<open>path_follow_to\<close> move along it. The search itself is that of
  \<open>PathSearch\<close>, here on the two tracks of the program.
\<close>

section \<open>From predecessors to a path\<close>

lemma path_collect_ok:
  "(\<forall>i. Suc i < length ys \<longrightarrow> prev ! (ys ! Suc i) = int (ys ! i)) \<Longrightarrow> (ys \<noteq> [] \<longrightarrow> prev ! hd ys = - 1) \<Longrightarrow>
   set ys \<subseteq> {..<length prev} \<Longrightarrow> n + length ys \<le> length buf \<Longrightarrow>
   \<exists>buf'. path_collect prev (if ys = [] then - 1 else int (last ys)) buf n = Some (buf', n + length ys) \<and>
     length buf' = length buf \<and> (\<forall>i<n. buf' ! i = buf ! i) \<and>
     (\<forall>i<length ys. buf' ! (n + i) = Some (int (rev ys ! i)))"
proof (induction ys arbitrary: buf n rule: rev_induct)
  case Nil
  then show ?case by (simp add: path_collect.simps)
next
  case (snoc y ys)
  have nx: "prev ! y = (if ys = [] then - 1 else int (last ys))"
    using snoc.prems(2) snoc.prems(1) [rule_format, of "length ys - 1"]
    by (cases "ys = []") (auto simp: nth_append last_conv_nth)
  have "\<forall>i. Suc i < length ys \<longrightarrow> prev ! (ys ! Suc i) = int (ys ! i)"
  proof (intro allI impI)
    fix i assume "Suc i < length ys"
    then show "prev ! (ys ! Suc i) = int (ys ! i)" using snoc.prems(1) [rule_format, of i] by (simp add: nth_append)
  qed
  moreover have "ys \<noteq> [] \<longrightarrow> prev ! hd ys = - 1" using snoc.prems(2) by (cases ys) simp_all
  ultimately obtain buf' where b: "path_collect prev (prev ! y) (buf[n := Some (int y)]) (Suc n) = Some (buf', Suc n + length ys)"
    "length buf' = length buf" "\<forall>i<Suc n. buf' ! i = buf[n := Some (int y)] ! i"
    "\<forall>i<length ys. buf' ! (Suc n + i) = Some (int (rev ys ! i))"
    using snoc.IH [of "Suc n" "buf[n := Some (int y)]"] snoc.prems(3,4) unfolding nx by auto
  have "path_collect prev (int y) buf n = Some (buf', n + length (ys @ [y]))"
    using snoc.prems(3,4) b(1) by (simp add: path_collect.simps [of prev "int y"] agetz_in)
  moreover have "buf' ! i = buf ! i" if "i < n" for i using b(3) that by simp
  moreover have "buf' ! (n + i) = Some (int (rev (ys @ [y]) ! i))" if "i < length (ys @ [y])" for i
  proof (cases i)
    case 0
    then show ?thesis using b(3) snoc.prems(4) by simp
  next
    case (Suc j)
    then show ?thesis using b(4) that by simp
  qed
  ultimately show ?case using b(2) by auto
qed

lemma path_push_all_ok:
  "(\<forall>i<n. buf ! i = Some (int (ws ! i)) \<and> ws ! i < length (p_track p)) \<Longrightarrow> n \<le> length buf \<Longrightarrow> n \<le> length ws \<Longrightarrow>
   cb_wf TRACK_MAX (p_ahead p) \<Longrightarrow> length (cb_list TRACK_MAX (p_ahead p)) + n \<le> TRACK_MAX \<Longrightarrow>
   \<exists>a. path_push_all buf n p = Some (p\<lparr>p_ahead := a\<rparr>) \<and> cb_wf TRACK_MAX a \<and>
     cb_list TRACK_MAX a = cb_list TRACK_MAX (p_ahead p) @ map Some (rev (take n ws))"
proof (induction n arbitrary: p)
  case 0
  then show ?case by (intro exI [of _ "p_ahead p"]) simp
next
  case (Suc n)
  obtain a where a: "cb_push TRACK_MAX (Some (ws ! n)) (p_ahead p) = Some (CB_E_NONE, a)" "cb_wf TRACK_MAX a"
    "cb_list TRACK_MAX a = cb_list TRACK_MAX (p_ahead p) @ [Some (ws ! n)]"
    using cbq.push_room [OF Suc.prems(4), of "Some (ws ! n)"] Suc.prems(5) by auto
  let ?p = "p\<lparr>p_ahead := a\<rparr>"
  have "\<exists>b. path_push_all buf n ?p = Some (?p\<lparr>p_ahead := b\<rparr>) \<and> cb_wf TRACK_MAX b \<and>
      cb_list TRACK_MAX b = cb_list TRACK_MAX (p_ahead ?p) @ map Some (rev (take n ws))"
    by (rule Suc.IH) (use Suc.prems a(2,3) in auto)
  then obtain b where b: "path_push_all buf n ?p = Some (?p\<lparr>p_ahead := b\<rparr>)" "cb_wf TRACK_MAX b"
    "cb_list TRACK_MAX b = cb_list TRACK_MAX a @ map Some (rev (take n ws))" by auto
  have "path_push_all buf (Suc n) p = Some (p\<lparr>p_ahead := b\<rparr>)"
    using Suc.prems(1,2) a(1) b(1) by (simp add: agetz_in)
  then show ?case
    using a(3) b(2,3) Suc.prems(3) by (auto simp: take_Suc_conv_app_nth)
qed

lemma links_bound: "links prev xs \<Longrightarrow> distinct xs \<Longrightarrow> set xs \<subseteq> {..<TRACK_MAX} \<Longrightarrow> length xs \<le> TRACK_MAX"
  using card_mono [of "{..<TRACK_MAX}" "set xs"] by (simp add: distinct_card)

lemma path_generate_with_ok:
  assumes t: "wf_track (p_track p)" "p_start p = Some sid" "p_end p = Some did" "sid \<noteq> did"
      "sid < TRACK_MAX" "did < TRACK_MAX"
    and find: "search (p_track p) (Some sid) (Some did) (p_pred p) = Some pred" "length pred = TRACK_MAX" "pred ! sid = - 1"
    and xs: "links pred xs" "distinct xs" "set xs \<subseteq> {..<TRACK_MAX}" "last xs = did"
    and a: "cb_wf TRACK_MAX (p_ahead p)" "cb_list TRACK_MAX (p_ahead p) = []"
  shows "\<exists>a. cb_wf TRACK_MAX a \<and> cb_list TRACK_MAX a = map Some xs \<and>
    path_generate_with search p = (if length xs < 2 then Some (- 1, p\<lparr>p_pred := pred, p_ahead := a\<rparr>)
      else Some (0, p\<lparr>p_pred := pred, p_ahead := a, p_ready := True\<rparr>))"
proof -
  have ne: "xs \<noteq> []" using xs(1) by (simp add: links_def)
  define ys where "ys = butlast xs"
  have eq: "xs = ys @ [did]" using ne xs(4) by (auto simp: ys_def)
  have lk: "\<forall>i. Suc i < length xs \<longrightarrow> pred ! (xs ! Suc i) = int (xs ! i)" "pred ! hd xs = - 1"
    using xs(1) by (simp_all add: links_def)
  have len: "length xs \<le> TRACK_MAX" using links_bound [OF xs(1-3)] .
  let ?buf0 = "(replicate TRACK_MAX None)[0 := Some (int did)]"
  have nx: "pred ! did = (if ys = [] then - 1 else int (last ys))"
    using lk(2) lk(1) [rule_format, of "length ys - 1"] unfolding eq
    by (cases "ys = []") (auto simp: nth_append last_conv_nth)
  have "\<exists>buf'. path_collect pred (if ys = [] then - 1 else int (last ys)) ?buf0 1 = Some (buf', 1 + length ys) \<and>
      length buf' = length ?buf0 \<and> (\<forall>i<1. buf' ! i = ?buf0 ! i) \<and>
      (\<forall>i<length ys. buf' ! (1 + i) = Some (int (rev ys ! i)))"
  proof (rule path_collect_ok)
    show "\<forall>i. Suc i < length ys \<longrightarrow> pred ! (ys ! Suc i) = int (ys ! i)"
    proof (intro allI impI)
      fix i assume "Suc i < length ys"
      then show "pred ! (ys ! Suc i) = int (ys ! i)" using lk(1) [rule_format, of i] by (simp add: eq nth_append)
    qed
  qed (use lk(2) xs(3) find(2) len in \<open>auto simp: eq\<close>)
  then obtain buf where buf: "path_collect pred (pred ! did) ?buf0 1 = Some (buf, length xs)"
    "length buf = TRACK_MAX" "buf ! 0 = Some (int did)" "\<forall>i<length ys. buf ! Suc i = Some (int (rev ys ! i))"
    unfolding nx by (auto simp: eq)
  have bi: "buf ! i = Some (int (rev xs ! i)) \<and> rev xs ! i < length (p_track p)" if "i < length xs" for i
  proof
    show "buf ! i = Some (int (rev xs ! i))" using that buf(3,4) by (cases i) (auto simp: eq)
    have "rev xs ! i \<in> set (rev xs)" using that by (intro nth_mem) simp
    then show "rev xs ! i < length (p_track p)" using xs(3) t(1) by auto
  qed
  let ?p = "p\<lparr>p_pred := pred\<rparr>"
  have "\<exists>a. path_push_all buf (length xs) ?p = Some (?p\<lparr>p_ahead := a\<rparr>) \<and> cb_wf TRACK_MAX a \<and>
      cb_list TRACK_MAX a = cb_list TRACK_MAX (p_ahead ?p) @ map Some (rev (take (length xs) (rev xs)))"
    by (rule path_push_all_ok) (use bi buf(2) len a in auto)
  then obtain a' where a': "path_push_all buf (length xs) ?p = Some (?p\<lparr>p_ahead := a'\<rparr>)" "cb_wf TRACK_MAX a'"
    "cb_list TRACK_MAX a' = map Some xs"
    using a(2) by auto
  have sz: "unat (cb_size a') = length xs" using a'(3) by (metis length_cb_list length_map)
  have cmp: "cb_size a' < 2 \<longleftrightarrow> length xs < 2"
    by (simp add: word_less_nat_alt sz)
  have "agetz pred (int did) = Some (pred ! did)" "agetz pred (int sid) = Some (- 1)"
    using t find by (simp_all add: agetz_in)
  then have "path_generate_with search p = (if cb_size a' < 2 then Some (- 1, ?p\<lparr>p_ahead := a'\<rparr>)
      else Some (0, ?p\<lparr>p_ahead := a', p_ready := True\<rparr>))"
    using t find a' buf(1) by (simp add: path_generate_with_def wf_id)
  then show ?thesis using a' cmp by auto
qed

section \<open>The search on the program's tracks\<close>

lemma all_edges_total:
  "\<exists>is. all_edges n = Some is \<and> set is \<subseteq> {..<n_edges (n_type n)} \<and> length is \<le> n_edges (n_type n)"
  by (auto simp: all_edges_def)

lemma picks_all_edges: "picks all_edges t u k v \<longleftrightarrow> (\<exists>d. exits t u d k v)"
  by (auto simp: picks_def all_edges_def exits_def)

lemma few_branches_64:
  assumes "\<And>i. i < 80 \<Longrightarrow> n_type (t ! i) = NODE_SENSOR"
  shows "card {i. i < TRACK_MAX \<and> n_type (t ! i) = NODE_BRANCH} \<le> 71"
proof -
  have "{i. i < TRACK_MAX \<and> n_type (t ! i) = NODE_BRANCH} \<subseteq> {80..<144}"
    using assms by (force simp: not_less [symmetric])
  then have "card {i. i < TRACK_MAX \<and> n_type (t ! i) = NODE_BRANCH} \<le> card {80..<144::nat}"
    by (intro card_mono) simp_all
  then show ?thesis by simp
qed

lemma tracka_sensors: "i < 80 \<Longrightarrow> n_type (tracka_nodes ! i) = NODE_SENSOR"
  using track_sensors(1-3) by (cases "i = 0"; cases "i = 1") (simp_all del: upt_rec_numeral)

lemma trackb_sensors: "i < 80 \<Longrightarrow> n_type (trackb_nodes ! i) = NODE_SENSOR"
  using track_sensors(4-6) by (cases "i = 0"; cases "i = 1") (simp_all del: upt_rec_numeral)

interpretation sa: search_graph all_edges tracka_nodes
  by unfold_locales (use wf_tracka all_edges_total few_branches_64 [OF tracka_sensors] in auto)

interpretation sb: search_graph all_edges trackb_nodes
  by unfold_locales (use wf_trackb all_edges_total few_branches_64 [OF trackb_sensors] in auto)

text \<open>A search of the two: what the callers need of it.\<close>

lemma find_route:
  assumes t: "t = tracka_nodes \<or> t = trackb_nodes"
    and n: "sid < TRACK_MAX" "n_type (t ! sid) \<noteq> NODE_NONE" "did < TRACK_MAX"
    and len: "length prev = TRACK_MAX" "length (tq_tree q) = MAX_TPQ_SIZE" "length (tq_map q) = MAX_TPQ_SIZE"
  shows "\<exists>pred. dij_path_find t (Some sid) (Some did) prev q = Some pred \<and> length pred = TRACK_MAX \<and> pred ! sid = - 1 \<and>
    ((\<exists>xs k. route all_edges t xs k \<and> hd xs = sid \<and> last xs = did \<and> links pred xs \<and> distinct xs) \<or>
     pred ! did = - 1 \<and> did \<noteq> sid \<and> (\<nexists>xs k. route all_edges t xs k \<and> hd xs = sid \<and> last xs = did))"
proof -
  have "search_graph all_edges t"
    using t sa.search_graph_axioms sb.search_graph_axioms by auto
  from search_graph.path_search_ok [OF this n len] show ?thesis
    unfolding search_graph.no_route_def [OF \<open>search_graph all_edges t\<close>]
    by (auto simp: dij_path_find_def) blast+
qed

lemma route_nodes: "route sel t xs k \<Longrightarrow> wf_track t \<Longrightarrow> hd xs < TRACK_MAX \<Longrightarrow> xs \<noteq> [] \<and> set xs \<subseteq> {..<TRACK_MAX}"
proof (induction rule: route.induct)
  case (route_snoc xs s s' v)
  then show ?case by (cases xs) (auto simp: picks_def dest: exitsD)
qed simp

text \<open>C16: On both tracks, from every node to every node, \<^verbatim>\<open>dij_path_find\<close> returns: its queue never
  overflows and is never popped with an index outside the heap. When the destination can be
  reached, following \<^verbatim>\<open>prev\<close> from it visits the nodes of a route, each joined to the next by an
  edge and none twice, back to the start, whose entry is -1; when it cannot, its entry is -1.\<close>

theorem search_finds_route:
  assumes "init_tracka t0 = Some t \<or> init_trackb t0 = Some t" "length t0 = TRACK_MAX"
    and "sid < TRACK_MAX" "n_type (t ! sid) \<noteq> NODE_NONE" "did < TRACK_MAX"
    and "length prev = TRACK_MAX" "length (tq_tree q) = MAX_TPQ_SIZE" "length (tq_map q) = MAX_TPQ_SIZE"
  shows "\<exists>pred. dij_path_find t (Some sid) (Some did) prev q = Some pred \<and> pred ! sid = - 1 \<and>
    ((\<exists>xs k. route all_edges t xs k \<and> hd xs = sid \<and> last xs = did \<and> links pred xs \<and> distinct xs) \<or>
     pred ! did = - 1 \<and> did \<noteq> sid \<and> (\<nexists>xs k. route all_edges t xs k \<and> hd xs = sid \<and> last xs = did))"
proof -
  have "t = tracka_nodes \<or> t = trackb_nodes"
    using assms(1,2) init_tracka_nodes init_trackb_nodes by auto
  from find_route [OF this assms(3-8)] show ?thesis by blast
qed

theorem search_finds_route_witness:
  "\<exists>pred. dij_path_find tracka_nodes (Some 2) (Some 44) (replicate 144 0) tq_new = Some pred \<and> pred ! 2 = - 1"
  using search_finds_route [of "replicate 144 zero_node" tracka_nodes 2 44 "replicate 144 0" tq_new]
    tracka_sensors [of 2] by (auto simp: init_tracka_nodes tq_new_def)

definition path_ready_to_generate :: "path \<Rightarrow> nat \<Rightarrow> nat \<Rightarrow> bool" where
  "path_ready_to_generate p sid did \<longleftrightarrow> p_start p = Some sid \<and> p_end p = Some did \<and>
     cb_wf TRACK_MAX (p_ahead p) \<and> cb_list TRACK_MAX (p_ahead p) = [] \<and> length (p_pred p) = TRACK_MAX"

text \<open>C17: On both tracks \<^verbatim>\<open>path_generate\<close>, called for two different nodes on a path with nothing
  ahead, returns and fails no assertion: with 0, the path ready and in \<^verbatim>\<open>ahead\<close> a route from the start
  to the end, no node twice, when there is one; with -1 and the path not made ready otherwise,
  and then \<^verbatim>\<open>ahead\<close> holds the end node alone.\<close>

theorem generate_route:
  assumes "init_tracka t0 = Some (p_track p) \<or> init_trackb t0 = Some (p_track p)" "length t0 = TRACK_MAX"
    and "path_ready_to_generate p sid did" "sid \<noteq> did"
    and "sid < TRACK_MAX" "n_type (p_track p ! sid) \<noteq> NODE_NONE" "did < TRACK_MAX"
    and "length (tq_tree q) = MAX_TPQ_SIZE" "length (tq_map q) = MAX_TPQ_SIZE"
  shows "\<exists>r p' xs. path_generate q p = Some (r, p') \<and> cb_wf TRACK_MAX (p_ahead p') \<and>
    cb_list TRACK_MAX (p_ahead p') = map Some xs \<and>
    (r = 0 \<and> p_ready p' \<and> distinct xs \<and> (\<exists>k. route all_edges (p_track p) xs k \<and> hd xs = sid \<and> last xs = did) \<or>
     r = - 1 \<and> p_ready p' = p_ready p \<and> xs = [did] \<and>
       (\<nexists>xs k. route all_edges (p_track p) xs k \<and> hd xs = sid \<and> last xs = did))"
proof -
  let ?t = "p_track p"
  have t: "?t = tracka_nodes \<or> ?t = trackb_nodes"
    using assms(1,2) init_tracka_nodes init_trackb_nodes by auto
  then have wf: "wf_track ?t" using wf_tracka wf_trackb by auto
  note p = assms(3) [unfolded path_ready_to_generate_def]
  obtain pred where f: "dij_path_find ?t (Some sid) (Some did) (p_pred p) q = Some pred" "length pred = TRACK_MAX"
    "pred ! sid = - 1"
    "(\<exists>xs k. route all_edges ?t xs k \<and> hd xs = sid \<and> last xs = did \<and> links pred xs \<and> distinct xs) \<or>
     pred ! did = - 1 \<and> did \<noteq> sid \<and> (\<nexists>xs k. route all_edges ?t xs k \<and> hd xs = sid \<and> last xs = did)"
    using find_route [OF t assms(5-7) _ assms(8,9), of "p_pred p"] p by blast
  note gen = path_generate_with_ok [OF wf _ _ assms(4,5,7), where search = "\<lambda>t s d prev. dij_path_find t s d prev q",
      folded path_generate_def, OF _ _ f(1-3)]
  from f(4) show ?thesis
  proof (elim disjE exE conjE)
    fix xs k
    assume xs: "route all_edges ?t xs k" "hd xs = sid" "last xs = did" "links pred xs" "distinct xs"
    then have ns: "set xs \<subseteq> {..<TRACK_MAX}" using route_nodes [OF xs(1) wf] assms(5) by simp
    have "\<not> length xs < 2"
      using xs(2-4) assms(4) by (cases xs; cases "tl xs") (auto simp: links_def)
    with gen [OF _ _ xs(4,5) ns xs(3)] p xs show ?thesis by fastforce
  next
    assume none: "pred ! did = - 1" "\<nexists>xs k. route all_edges ?t xs k \<and> hd xs = sid \<and> last xs = did"
    have "\<exists>a. cb_wf TRACK_MAX a \<and> cb_list TRACK_MAX a = map Some [did] \<and>
        path_generate q p = Some (- 1, p\<lparr>p_pred := pred, p_ahead := a\<rparr>)"
      using gen [of "[did]"] p none(1) assms(7) by (simp add: links_one)
    then show ?thesis using none(2) by fastforce
  qed
qed

theorem generate_route_witness:
  "\<exists>p r p'. path_ready_to_generate p 0 44 \<and> path_generate tq_new p = Some (r, p')"
proof -
  let ?b = "cb_init \<lparr>cb_buf = replicate 144 None, cb_start = 0, cb_end = 0, cb_size = 0\<rparr> :: node_ptr cbuf"
  let ?p = "\<lparr>p_active = False, p_ready = False, p_done = False, p_path_len = 0, p_track = tracka_nodes, p_start = Some 0,
    p_end = Some 44, p_current = None, p_ahead = ?b, p_behind = ?b, p_pred = replicate 144 0\<rparr>"
  have "cb_wf TRACK_MAX ?b" by (rule cb_init_wf) (simp_all add: cb_init_def)
  then have "path_ready_to_generate ?p 0 44" by (simp add: path_ready_to_generate_def)
  then show ?thesis
    using generate_route [of "replicate 144 zero_node" ?p 0 44 tq_new] tracka_sensors [of 0]
    by (fastforce simp: init_tracka_nodes tq_new_def)
qed

end
