(* ===== verification/PathFollow.thy ===== *)
theory PathFollow
  imports PathTheorems
begin

text \<open>
  Driving along a path. \<open>trail p\<close> is all of the path: what lies behind, the current node, what
  lies ahead. Moving along the path never loses or reorders a node of it.
\<close>

definition p_list :: "node_ptr cbuf \<Rightarrow> node_ptr list" where
  "p_list = cb_list TRACK_MAX"

definition trail :: "path \<Rightarrow> node_ptr list" where
  "trail p = p_list (p_behind p) @ (if p_current p = None then [] else [p_current p]) @ p_list (p_ahead p)"

definition path_wf :: "path \<Rightarrow> bool" where
  "path_wf p \<longleftrightarrow> cb_wf TRACK_MAX (p_ahead p) \<and> cb_wf TRACK_MAX (p_behind p) \<and> length (trail p) \<le> TRACK_MAX \<and>
     None \<notin> set (p_list (p_ahead p))"

lemma path_next_ok:
  assumes wf: "path_wf p" and act: "p_active p"
  shows "\<exists>p'. path_next p = Some p' \<and> path_wf p' \<and> trail p' = trail p \<and> p_track p' = p_track p \<and>
    (case p_list (p_ahead p) of
       x # xs \<Rightarrow> p_current p' = x \<and> p_list (p_ahead p') = xs \<and> p_active p' \<and> p_done p' = p_done p
     | [] \<Rightarrow> p_current p' = None \<and> p_list (p_ahead p') = [] \<and> \<not> p_active p' \<and> p_done p')"
proof -
  note d = wf [unfolded path_wf_def]
  obtain p1 where p1: "(if p_current p \<noteq> None then do {
            (r, b) \<leftarrow> cb_push TRACK_MAX (p_current p) (p_behind p);
            kassert (r = CB_E_NONE);
            Some (p\<lparr>p_behind := b, p_current := None\<rparr>) }
          else Some p) = Some p1"
      "p_current p1 = None" "cb_wf TRACK_MAX (p_behind p1)" "p_ahead p1 = p_ahead p" "p_active p1 = p_active p"
      "p_done p1 = p_done p" "p_track p1 = p_track p"
      "p_list (p_behind p1) = p_list (p_behind p) @ (if p_current p = None then [] else [p_current p])"
  proof (cases "p_current p = None")
    case True
    then show thesis using that [of p] d by simp
  next
    case False
    then have "length (p_list (p_behind p)) < TRACK_MAX" using d by (simp add: trail_def split: if_splits)
    then obtain b where "cb_push TRACK_MAX (p_current p) (p_behind p) = Some (CB_E_NONE, b)" "cb_wf TRACK_MAX b"
      "cb_list TRACK_MAX b = cb_list TRACK_MAX (p_behind p) @ [p_current p]"
      using cbq.push_room [of TRACK_MAX "p_behind p"] d by (auto simp: p_list_def)
    then show thesis using that [of "p\<lparr>p_behind := b, p_current := None\<rparr>"] False by (simp add: p_list_def)
  qed
  show ?thesis
  proof (cases "p_list (p_ahead p)")
    case Nil
    then have sz: "cb_size (p_ahead p) = 0" by (simp add: p_list_def cb_list_empty_iff)
    let ?p' = "p1\<lparr>p_active := False, p_done := True\<rparr>"
    have "path_next p = Some ?p'" unfolding path_next_def p1(1) using act sz p1(2,4) by simp
    then show ?thesis
      using d p1 Nil by (intro exI [of _ ?p']) (auto simp: path_wf_def trail_def)
  next
    case (Cons x xs)
    then have sz: "0 < cb_size (p_ahead p)"
      using cb_list_empty_iff [of TRACK_MAX "p_ahead p"] by (auto simp: p_list_def word_neq_0_conv)
    have "x \<noteq> None" using d Cons by (metis list.set_intros(1))
    obtain a where a: "cb_pop TRACK_MAX (p_ahead p) = Some (CB_E_NONE, Some x, a)" "cb_wf TRACK_MAX a"
      "cb_list TRACK_MAX a = xs"
      using cbq.pop_some [of TRACK_MAX "p_ahead p"] Cons d by (auto simp: p_list_def)
    let ?p' = "p1\<lparr>p_ahead := a, p_current := x\<rparr>"
    have "path_next p = Some ?p'"
      unfolding path_next_def p1(1) using act sz p1(2,4) a(1) \<open>x \<noteq> None\<close> by auto
    moreover have tr: "trail ?p' = trail p"
      unfolding trail_def using p1(2-8) Cons a(3) \<open>x \<noteq> None\<close> by (auto simp: p_list_def)
    moreover have "path_wf ?p'"
      unfolding path_wf_def tr using d p1(2-8) Cons a(2,3) by (auto simp: p_list_def)
    ultimately show ?thesis
      using Cons a(3) act p1(5-7) by (intro exI [of _ ?p']) (auto simp: p_list_def)
  qed
qed

lemma path_steps_ok:
  "path_wf p \<Longrightarrow> p_active p \<Longrightarrow> Suc n \<le> length (p_list (p_ahead p)) \<Longrightarrow>
   \<exists>p'. path_steps (Suc n) p = Some p' \<and> path_wf p' \<and> trail p' = trail p \<and> p_active p' \<and> p_track p' = p_track p \<and>
     p_done p' = p_done p \<and> p_current p' = p_list (p_ahead p) ! n \<and> p_list (p_ahead p') = drop (Suc n) (p_list (p_ahead p))"
proof (induction n arbitrary: p)
  case 0
  then obtain x xs where "p_list (p_ahead p) = x # xs" by (cases "p_list (p_ahead p)") auto
  then show ?case using path_next_ok [OF 0(1,2)] by auto
next
  case (Suc n)
  then obtain x xs where xs: "p_list (p_ahead p) = x # xs" by (cases "p_list (p_ahead p)") auto
  obtain p1 where p1: "path_next p = Some p1" "path_wf p1" "trail p1 = trail p" "p_list (p_ahead p1) = xs" "p_active p1"
    "p_done p1 = p_done p" "p_track p1 = p_track p"
    using path_next_ok [OF Suc.prems(1,2)] xs by auto
  have "path_steps (Suc (Suc n)) p = path_steps (Suc n) p1" using p1(1) by simp
  then show ?case
    using Suc.IH [OF p1(2,5)] Suc.prems(3) p1 xs by (auto simp del: path_steps.simps)
qed

lemma path_seek_ok:
  assumes wf: "cb_wf TRACK_MAX a"
  shows "i \<le> length (p_list a) \<Longrightarrow>
    path_seek a t i tn = Some (let js = filter (\<lambda>j. p_list a ! j = t) [i..<length (p_list a)] in
      case js of j # _ \<Rightarrow> (j, t) | [] \<Rightarrow> (length (p_list a), if i = length (p_list a) then tn else last (p_list a)))"
proof (induction "length (p_list a) - i" arbitrary: i tn)
  case 0
  then have "i = unat (cb_size a)" by (simp add: p_list_def)
  then have "path_seek a t i tn = Some (i, tn)" by (subst path_seek.simps) simp
  then show ?case using \<open>i = unat (cb_size a)\<close> by (simp add: p_list_def)
next
  case (Suc n)
  then have lt: "i < length (p_list a)" by simp
  have unf: "path_seek a t i tn = (if p_list a ! i = t then Some (i, t) else path_seek a t (Suc i) (p_list a ! i))"
    using lt cb_get_nth [OF wf, of i] by (simp add: path_seek.simps [of a t i] p_list_def)
  show ?case
  proof (cases "p_list a ! i = t")
    case True
    then show ?thesis using unf lt by (simp add: upt_conv_Cons)
  next
    case False
    have "path_seek a t (Suc i) (p_list a ! i) = Some (let js = filter (\<lambda>j. p_list a ! j = t) [Suc i..<length (p_list a)] in
      case js of j # _ \<Rightarrow> (j, t) | [] \<Rightarrow> (length (p_list a), if Suc i = length (p_list a) then p_list a ! i else last (p_list a)))"
      using Suc(1) [of "Suc i"] Suc(2) lt by simp
    moreover have "last (p_list a) = p_list a ! i" if "Suc i = length (p_list a)"
      using that by (metis diff_Suc_1 last_conv_nth length_0_conv nat.distinct(1))
    ultimately show ?thesis using unf False lt by (auto simp: upt_conv_Cons split: list.splits)
  qed
qed

text \<open>Following a path never loses a node of it. For an active, well-formed path and a node
  \<open>x\<close>, \<^verbatim>\<open>path_follow_to\<close> returns. If \<open>x\<close> is not ahead it returns -1 and changes nothing; otherwise
  it returns 0, the current node is then \<open>x\<close> at its first place ahead, what was before it has
  moved behind in the same order, what comes after it is still ahead, and the path is not done.\<close>

theorem follow_keeps_trail:
  assumes "path_wf p" "p_active p" "x \<noteq> None"
  shows "\<exists>r p'. path_follow_to p x = Some (r, p') \<and> path_wf p' \<and> trail p' = trail p \<and> p_track p' = p_track p \<and>
    (if x \<in> set (p_list (p_ahead p))
     then r = 0 \<and> p_current p' = x \<and> p_active p' \<and> p_done p' = p_done p \<and>
       (\<exists>ys. p_list (p_ahead p) = ys @ x # p_list (p_ahead p') \<and> x \<notin> set ys)
     else r = - 1 \<and> p' = p)"
proof -
  let ?xs = "p_list (p_ahead p)"
  let ?js = "filter (\<lambda>j. ?xs ! j = x) [0..<length ?xs]"
  have wf: "cb_wf TRACK_MAX (p_ahead p)" using assms(1) by (simp add: path_wf_def)
  note seek = path_seek_ok [OF wf, of 0 x None]
  show ?thesis
  proof (cases "x \<in> set ?xs")
    case False
    then have js: "?js = []" by (auto simp: filter_empty_conv)
    obtain i tn where "path_seek (p_ahead p) x 0 None = Some (i, tn)" "tn \<noteq> x"
    proof (cases "?xs = []")
      case True
      then show thesis using seek js assms(3) that [of 0 None] by auto
    next
      case ne: False
      then have "last ?xs \<noteq> x" using False last_in_set by metis
      then show thesis using seek js ne that by simp
    qed
    then show ?thesis using False assms(1) by (simp add: path_follow_to_def)
  next
    case True
    from ex_first [OF True] obtain j where j: "j < length ?xs" "?xs ! j = x" "\<forall>k<j. ?xs ! k \<noteq> x" by blast
    have "[0..<length ?xs] = [0..<j] @ j # [Suc j..<length ?xs]"
      using j(1) upt_add_eq_append [of 0 j "length ?xs - j"] by (simp add: upt_conv_Cons)
    then have "?js = j # filter (\<lambda>j. ?xs ! j = x) [Suc j..<length ?xs]"
      using j(2,3) by (simp add: filter_empty_conv)
    then have s: "path_seek (p_ahead p) x 0 None = Some (j, x)" using seek by simp
    obtain p' where p': "path_steps (Suc j) p = Some p'" "path_wf p'" "trail p' = trail p" "p_active p'" "p_done p' = p_done p"
      "p_current p' = x" "p_list (p_ahead p') = drop (Suc j) ?xs"
      "p_track p' = p_track p"
      using path_steps_ok [OF assms(1,2), of j] j(1,2) by auto
    have "?xs = take j ?xs @ x # drop (Suc j) ?xs" using j(1,2) by (metis id_take_nth_drop)
    moreover have "x \<notin> set (take j ?xs)" using j(3) by (auto simp: in_set_conv_nth)
    ultimately show ?thesis
      using s p' True by (auto simp: path_follow_to_def simp del: path_steps.simps)
  qed
qed

theorem follow_keeps_trail_witness:
  "\<exists>p p'. trail p = [Some 3, Some 7, Some 9] \<and> path_follow_to p (Some 7) = Some (0, p') \<and> p_current p' = Some 7 \<and>
     trail p' = trail p"
proof -
  let ?b = "cb_init \<lparr>cb_buf = replicate 144 None, cb_start = 0, cb_end = 0, cb_size = 0\<rparr> :: node_ptr cbuf"
  have b: "cb_wf TRACK_MAX ?b" by (rule cb_init_wf) (simp_all add: cb_init_def)
  obtain a1 where a1: "cb_wf TRACK_MAX a1" "cb_list TRACK_MAX a1 = [Some (3::nat)]"
    using cbq.push_room [OF b, of "Some 3"] by auto
  obtain a2 where a2: "cb_wf TRACK_MAX a2" "cb_list TRACK_MAX a2 = [Some (3::nat), Some 7]"
    using cbq.push_room [OF a1(1), of "Some 7"] a1(2) by auto
  obtain a3 where a3: "cb_wf TRACK_MAX a3" "cb_list TRACK_MAX a3 = [Some (3::nat), Some 7, Some 9]"
    using cbq.push_room [OF a2(1), of "Some 9"] a2(2) by auto
  let ?p = "\<lparr>p_active = True, p_ready = True, p_done = False, p_path_len = 0, p_track = tracka_nodes, p_start = Some 3,
    p_end = Some 9, p_current = None, p_ahead = a3, p_behind = ?b, p_pred = replicate 144 0\<rparr>"
  have "path_wf ?p" "trail ?p = [Some 3, Some 7, Some 9]"
    using a3 b by (simp_all add: path_wf_def trail_def p_list_def)
  then show ?thesis
    using follow_keeps_trail [of ?p "Some 7"] a3 by (fastforce simp: p_list_def)
qed

end
