(* ===== verification/PathExample.thy ===== *)
theory PathExample
  imports PathFollow
begin

text \<open>
  A run of the search on track A: because the queue does not return its elements in order, the
  path found is not the shortest.
\<close>

lemmas search_eval = path_search_def dij_start_def tq_new_def tpq_init_def tpq_add_def tq_up.simps tq_swap_def
  tpq_pop_def tq_down.simps tq_parent_def c_div_def tq_left_def tq_right_def tq_null_def index_numeral
  dij_loop.simps node_at_def all_edges_def n_edges_def edge_range

lemma let_weak_cong: "m = m' \<Longrightarrow> Let m f = Let m' f"
  by simp

text \<open>Updates are kept sorted by their index, so that later ones replace earlier ones.\<close>

lemma update_sort: "i < j \<Longrightarrow> xs[j := y, i := x] = xs[i := x, j := y]"
  by (simp add: list_update_swap)

text \<open>The first turns of the search, and the search from there: eleven turns, then the rest.\<close>

fun dij_turns :: "nat \<Rightarrow> track \<Rightarrow> int \<Rightarrow> dij \<Rightarrow> dij option" where
  "dij_turns 0 t did s = Some s"
| "dij_turns (Suc k) t did s = do {
     kassert (0 < tq_size (d_q s));
     (u, q) \<leftarrow> tpq_pop (d_q s);
     kassert (u \<noteq> did);
     vist \<leftarrow> asetz (d_vist s) u 1;
     n \<leftarrow> agetz t u;
     ds \<leftarrow> all_edges n;
     s \<leftarrow> dij_edges t u ds (s\<lparr>d_q := q, d_vist := vist\<rparr>);
     dij_turns k t did s }"

lemma dij_turns_loop: "dij_turns k t did s = Some s' \<Longrightarrow> dij_loop all_edges t did s = dij_loop all_edges t did s'"
proof (induction k arbitrary: s)
  case (Suc k)
  then show ?case
    by (subst dij_loop.simps) (auto simp: Option.bind_eq_Some_conv kassert_def split: if_splits)
qed simp

definition half_way :: dij where
  "half_way =
     \<lparr>d_dist = (replicate TRACK_MAX INT_MAX)
        [94 := 0, 56 := 316, 73 := 239, 17 := 1301, 28 := 1105, 60 := 897, 58 := 966, 62 := 904, 76 := 615,
         75 := 685, 112 := 658, 92 := 735, 89 := 1106, 114 := 1261, 119 := 1344],
      d_prev = (replicate TRACK_MAX (- 1))
        [17 := 60, 28 := 62, 56 := 94, 60 := 112, 58 := 92, 62 := 112, 73 := 94, 75 := 56, 76 := 73, 112 := 76,
         92 := 75, 89 := 92, 119 := 28, 114 := 89],
      d_vist = (replicate TRACK_MAX 0)
        [28 := 1, 56 := 1, 60 := 1, 62 := 1, 94 := 1, 73 := 1, 76 := 1, 112 := 1, 75 := 1, 92 := 1, 89 := 1],
      d_q = \<lparr>tq_tree = (replicate TRACK_MAX \<lparr>tq_priority = INT_MAX, tq_val = 0\<rparr>)
               [0 := \<lparr>tq_priority = 1301, tq_val = 17\<rparr>, Suc 0 := \<lparr>tq_priority = 1301, tq_val = 17\<rparr>,
                0 := \<lparr>tq_priority = 1261, tq_val = 114\<rparr>, Suc 0 := \<lparr>tq_priority = 1301, tq_val = 17\<rparr>,
                2 := \<lparr>tq_priority = 966, tq_val = 58\<rparr>, 3 := \<lparr>tq_priority = 1344, tq_val = 119\<rparr>],
             tq_map = (replicate TRACK_MAX None)
               [17 := Some 1, 56 := Some 1, 60 := Some 0, 62 := Some 1, 94 := Some 0, 73 := Some 0, 76 := Some 1,
                75 := Some 1, 112 := Some 1, 75 := Some 1, 112 := Some 0, 60 := Some 2, 92 := Some 0, 58 := Some 2,
                62 := Some 0, 28 := Some 3, 17 := Some 3, 28 := Some 0, 17 := Some 1, 89 := Some 0, 114 := Some 0,
                119 := Some 3],
             tq_size = 4\<rparr>\<rparr>"

lemma search_first_half:
  "(do { st \<leftarrow> dij_start 94 (replicate 144 0) tq_new;
         dij_turns (Suc (Suc (Suc (Suc (Suc (Suc (Suc (Suc (Suc (Suc (Suc 0))))))))))) tracka_nodes 91 st }) = Some half_way"
  by (simp add: half_way_def search_eval tracka_at update_sort
      cong: bind_weak_cong if_weak_cong let_weak_cong option.case_cong_weak)

lemma search_second_half:
  "map_option (\<lambda>s. (d_dist s ! 91, d_prev s ! 91)) (dij_loop all_edges tracka_nodes 91 half_way) = Some (1632, 114)"
  by (simp add: half_way_def search_eval tracka_at update_sort
      cong: bind_weak_cong if_weak_cong let_weak_cong option.case_cong_weak)

lemma search_94_91:
  "map_option (\<lambda>s. (d_dist s ! 91, d_prev s ! 91))
     (path_search all_edges tracka_nodes (Some 94) (Some 91) (replicate 144 0) tq_new) = Some (1632, 114)"
proof -
  have ids: "n_id (tracka_nodes ! 94) = 94" "n_id (tracka_nodes ! 91) = 91"
    using wf_id [OF wf_tracka, of 94] wf_id [OF wf_tracka, of 91] by simp_all
  obtain st where st: "dij_start 94 (replicate 144 0) tq_new = Some st"
    "dij_turns (Suc (Suc (Suc (Suc (Suc (Suc (Suc (Suc (Suc (Suc (Suc 0))))))))))) tracka_nodes 91 st = Some half_way"
    using search_first_half by (auto simp only: Option.bind_eq_Some_conv)
  have "path_search all_edges tracka_nodes (Some 94) (Some 91) (replicate 144 0) tq_new =
      dij_loop all_edges tracka_nodes 91 st"
    using st(1) by (simp add: path_search_def node_at_in [OF wf_tracka] ids)
  also have "\<dots> = dij_loop all_edges tracka_nodes 91 half_way" by (rule dij_turns_loop [OF st(2)])
  finally show ?thesis using search_second_half by simp
qed

lemma picksI: "exits t u d s v \<Longrightarrow> picks all_edges t u s v"
  by (auto simp: picks_all_edges)

lemma route_94_91: "route all_edges tracka_nodes [94, 56, 75, 92, 58, 47, 91] 1609"
proof -
  have e: "picks all_edges tracka_nodes 94 316 56" "picks all_edges tracka_nodes 56 369 75"
    "picks all_edges tracka_nodes 75 50 92" "picks all_edges tracka_nodes 92 231 58"
    "picks all_edges tracka_nodes 58 404 47" "picks all_edges tracka_nodes 47 239 91"
    by (auto intro!: picksI [where d = 0] simp: exits_def tracka_at n_edges_def)
  note snoc = route_snoc [of all_edges tracka_nodes, where xs = "x # xs" for x xs, simplified]
  have "route all_edges tracka_nodes [94, 56] 316" using snoc [of 94 "[]" 0, OF route_one] e(1) by simp
  then have "route all_edges tracka_nodes [94, 56, 75] 685" using snoc [of 94 "[56]" 316 369 75] e(2) by simp
  then have "route all_edges tracka_nodes [94, 56, 75, 92] 735" using snoc [of 94 "[56, 75]" 685 50 92] e(3) by simp
  then have "route all_edges tracka_nodes [94, 56, 75, 92, 58] 966" using snoc [of 94 "[56, 75, 92]" 735 231 58] e(4) by simp
  then have "route all_edges tracka_nodes [94, 56, 75, 92, 58, 47] 1370"
    using snoc [of 94 "[56, 75, 92, 58]" 966 404 47] e(5) by simp
  then show ?thesis using snoc [of 94 "[56, 75, 92, 58, 47]" 1370 239 91] e(6) by simp
qed

text \<open>The path found need not be the shortest. On track A, from BR8 (node 94) to MR6 (node 91)
  the search settles on 1632 mm, coming from node 114, although a route of 1609 mm exists.\<close>

theorem search_not_shortest:
  "init_tracka (replicate 144 zero_node) = Some tracka_nodes \<and>
   (\<exists>s. path_search all_edges tracka_nodes (Some 94) (Some 91) (replicate 144 0) tq_new = Some s \<and>
      d_dist s ! 91 = 1632 \<and> d_prev s ! 91 = 114) \<and>
   route all_edges tracka_nodes [94, 56, 75, 92, 58, 47, 91] 1609"
  using search_94_91 route_94_91 by (auto simp: init_tracka_nodes)

end
