(* ===== verification/ClockServer.thy ===== *)
theory ClockServer
  imports Tasks
begin

text \<open>
  The clock server: lib/clockserver_queue.c and user/clockserver.c. The queue is a list of the
  waiting tasks, linked through the array \<^verbatim>\<open>nodes\<close>, ordered by the tick at which they wake. The
  server's loop is a step function: one received request, the new state and the replies sent.
\<close>

section \<open>The queue\<close>

abbreviation CSQ_MAX_SIZE :: nat where "CSQ_MAX_SIZE \<equiv> 128"

datatype csq_code = CSQ_NONE | CSQ_E_FULL | CSQ_E_EMPTY | CSQ_E_EXIST | CSQ_E_READY | CSQ_E_TID

(* src/include/lib/clockserver_queue.h:13-17 *)
record csq_node =
  cn_tid :: u32
  cn_ticks :: u32
  cn_next :: "nat option"

(* src/include/lib/clockserver_queue.h:22-26 *)
record cs_queue =
  csq_size :: int
  csq_nodes :: "csq_node list"
  csq_head :: "nat option"

(* src/src/lib/clockserver_queue.c:3-7 *)
definition csq_node_init :: "u32 \<Rightarrow> csq_node" where
  "csq_node_init tid = \<lparr>cn_tid = tid, cn_ticks = 0, cn_next = None\<rparr>"

(* src/src/lib/clockserver_queue.c:9-17 *)
definition csq_init :: cs_queue where
  "csq_init = \<lparr>csq_size = 0, csq_nodes = map (\<lambda>i. csq_node_init (of_nat i)) [0..<CSQ_MAX_SIZE], csq_head = None\<rparr>"

text \<open>The search of \<^verbatim>\<open>csq_add\<close>: the node before the place of the new one, and the node at it. The
  \<^verbatim>\<open>int\<close> ticks are compared with the node's \<^verbatim>\<open>uint32_t\<close>: as unsigned.\<close>

(* src/src/lib/clockserver_queue.c:30-42 *)
partial_function (option) csq_place :: "csq_node list \<Rightarrow> u32 \<Rightarrow> nat option \<Rightarrow> nat option \<Rightarrow> (nat option \<times> nat option) option" where
  "csq_place ns ticks prv cur =
     (case cur of None \<Rightarrow> Some (prv, None)
      | Some c \<Rightarrow> do {
          n \<leftarrow> aget ns c;
          if ticks < cn_ticks n then Some (prv, cur) else csq_place ns ticks cur (cn_next n) })"

(* src/src/lib/clockserver_queue.c:19-53 *)
definition csq_add :: "cs_queue \<Rightarrow> u32 \<Rightarrow> u32 \<Rightarrow> (csq_code \<times> cs_queue) option" where
  "csq_add q tid0 ticks = (let tid = TID_ID tid0 in
     if of_nat CSQ_MAX_SIZE < tid then Some (CSQ_E_TID, q)
     else if csq_size q = int CSQ_MAX_SIZE - 1 then Some (CSQ_E_FULL, q)
     else do {
       let new = unat tid;
       n \<leftarrow> aget (csq_nodes q) new;
       ns \<leftarrow> aset (csq_nodes q) new (n\<lparr>cn_ticks := ticks\<rparr>);
       (prv, cur) \<leftarrow> csq_place ns ticks None (csq_head q);
       (ns, head) \<leftarrow> (case prv of
           Some p \<Rightarrow> do { np \<leftarrow> aget ns p; ns \<leftarrow> aset ns p (np\<lparr>cn_next := Some new\<rparr>); Some (ns, csq_head q) }
         | None \<Rightarrow> Some (ns, Some new));
       n \<leftarrow> aget ns new;
       ns \<leftarrow> aset ns new (n\<lparr>cn_next := cur\<rparr>);
       Some (CSQ_NONE, q\<lparr>csq_nodes := ns, csq_head := head, csq_size := csq_size q + 1\<rparr>) })"

(* src/src/lib/clockserver_queue.c:55-60 *)
definition csq_check :: "cs_queue \<Rightarrow> u32 \<Rightarrow> int option" where
  "csq_check q ticks = do {
     h \<leftarrow> csq_head q;
     n \<leftarrow> aget (csq_nodes q) h;
     Some (if ticks \<le> cn_ticks n then 1 else 0) }"

(* src/src/lib/clockserver_queue.c:62-74 *)
definition csq_pop :: "cs_queue \<Rightarrow> u32 \<Rightarrow> (csq_code \<times> u32 option \<times> cs_queue) option" where
  "csq_pop q ticks = (case csq_head q of
      None \<Rightarrow> Some (CSQ_E_EMPTY, None, q)
    | Some h \<Rightarrow> do {
        n \<leftarrow> aget (csq_nodes q) h;
        if ticks < cn_ticks n then Some (CSQ_E_READY, None, q)
        else Some (CSQ_NONE, Some (cn_tid n), q\<lparr>csq_head := cn_next n, csq_size := csq_size q - 1\<rparr>) })"

(* src/src/lib/clockserver_queue.c:79-86 *)
partial_function (option) csq_find_loop :: "csq_node list \<Rightarrow> u32 \<Rightarrow> nat option \<Rightarrow> nat option option" where
  "csq_find_loop ns tid cur =
     (case cur of None \<Rightarrow> Some None
      | Some c \<Rightarrow> do { n \<leftarrow> aget ns c; if cn_tid n = tid then Some cur else csq_find_loop ns tid (cn_next n) })"

(* src/src/lib/clockserver_queue.c:76-87 *)
definition csq_find :: "cs_queue \<Rightarrow> u32 \<Rightarrow> nat option option" where
  "csq_find q tid = csq_find_loop (csq_nodes q) (TID_ID tid) (csq_head q)"

section \<open>The server\<close>

(* src/include/user/clockserver.h:26-32 *)
datatype csreq_type = CSREQ_DELAY | CSREQ_UNTIL | CSREQ_TIME | CSREQ_UPDATE | CSREQ_HALT

(* src/include/user/clockserver.h:34-38 *)
record cs_req =
  cr_type :: csreq_type
  cr_tid :: u32
  cr_ticks :: u32

text \<open>What a reply carries: an \<^verbatim>\<open>int\<close>, or a \<^verbatim>\<open>CSNReply\<close> with the tasks to wake and their number (-1
  is \<open>CSN_EXIT_CODE\<close>). The reply to a halt is whatever the variable holds: \<open>CS_any\<close>.\<close>

(* src/include/user/clockserver.h:40-45 *)
datatype cs_reply = CS_int u32 | CS_notify "u32 list" int | CS_any

(* src/src/user/clockserver.c:116-123 *)
record cs_state =
  cs_csq :: cs_queue
  cs_ticks :: u32
  cs_exit :: bool
  cs_not_tid :: u32

abbreviation CS_PROCESS_NUM :: nat where "CS_PROCESS_NUM \<equiv> 5"

text \<open>\<^verbatim>\<open>for (i = 0; i < CS_PROCESS_NUM; i++)\<close>: the tasks that are popped.\<close>

(* src/src/user/clockserver.c:187-194 *)
fun cs_pop_ready :: "nat \<Rightarrow> cs_queue \<Rightarrow> u32 \<Rightarrow> (u32 list \<times> cs_queue) option" where
  "cs_pop_ready 0 q ticks = Some ([], q)"
| "cs_pop_ready (Suc i) q ticks = do {
     (r, tid, q) \<leftarrow> csq_pop q ticks;
     if r \<noteq> CSQ_NONE then Some ([], q)
     else do { tid \<leftarrow> tid; (ids, q) \<leftarrow> cs_pop_ready i q ticks; Some (tid # ids, q) } }"

text \<open>One request. The new state is \<open>None\<close> when the server has exited. A request that would fail an
  assertion is a fault.\<close>

(* src/src/user/clockserver.c:144-216 *)
definition cs_handle :: "cs_state \<Rightarrow> u32 \<Rightarrow> cs_req \<Rightarrow> (cs_state option \<times> (u32 \<times> cs_reply) list) option" where
  "cs_handle s req_tid req = do {
     kassert (IS_VALID_TID req_tid);
     case cr_type req of
       CSREQ_DELAY \<Rightarrow> do {
         kassert (IS_VALID_TID (cr_tid req));
         (ret, q) \<leftarrow> csq_add (cs_csq s) req_tid (cs_ticks s + cr_ticks req);
         kassert (ret = CSQ_NONE);
         Some (Some (s\<lparr>cs_csq := q\<rparr>), []) }
     | CSREQ_UNTIL \<Rightarrow> do {
         kassert (0 < cr_ticks req);
         kassert (IS_VALID_TID (cr_tid req));
         kassert (\<not> cr_ticks req < cs_ticks s);
         (ret, q) \<leftarrow> csq_add (cs_csq s) req_tid (cr_ticks req);
         kassert (ret = CSQ_NONE);
         Some (Some (s\<lparr>cs_csq := q\<rparr>), []) }
     | CSREQ_TIME \<Rightarrow> Some (Some s, [(req_tid, CS_int (cs_ticks s))])
     | CSREQ_UPDATE \<Rightarrow>
         (if cs_exit s then Some (None, [(cs_not_tid s, CS_notify [] (- 1))])
          else do {
            let ticks = cs_ticks s + 1;
            (ids, q) \<leftarrow> cs_pop_ready CS_PROCESS_NUM (cs_csq s) ticks;
            Some (Some (s\<lparr>cs_ticks := ticks, cs_csq := q\<rparr>), [(req_tid, CS_notify ids (int (length ids)))]) })
     | CSREQ_HALT \<Rightarrow> Some (Some (s\<lparr>cs_exit := True\<rparr>), [(req_tid, CS_any)]) }"

text \<open>The notifier, when it has the server's reply: the tasks it replies to, and whether it goes on.\<close>

(* src/src/user/clockserver.c:94-105 *)
definition cs_notifier :: "cs_reply \<Rightarrow> (bool \<times> (u32 \<times> cs_reply) list) option" where
  "cs_notifier r = (case r of
      CS_notify tids n \<Rightarrow> do {
        kassert (- 1 \<le> n \<and> n \<le> int CS_PROCESS_NUM);
        if n = - 1 then Some (False, [])
        else do {
          kassert (nat n \<le> length tids);
          kassert (\<forall>tid \<in> set (take (nat n) tids). IS_VALID_TID tid);
          Some (True, map (\<lambda>tid. (tid, CS_int 0)) (take (nat n) tids)) } }
    | _ \<Rightarrow> None)"

section \<open>The list a queue stands for\<close>

text \<open>\<open>cn_seg ns p xs\<close>: following \<^verbatim>\<open>next\<close> from \<open>p\<close> visits the nodes \<open>xs\<close> and ends.\<close>

fun cn_seg :: "csq_node list \<Rightarrow> nat option \<Rightarrow> nat list \<Rightarrow> bool" where
  "cn_seg ns p [] = (p = None)"
| "cn_seg ns p (x # xs) = (p = Some x \<and> x < length ns \<and> cn_seg ns (cn_next (ns ! x)) xs)"

definition csq_rep :: "cs_queue \<Rightarrow> (nat \<times> u32) list \<Rightarrow> bool" where
  "csq_rep q ws \<longleftrightarrow> length (csq_nodes q) = CSQ_MAX_SIZE \<and> (\<forall>i<CSQ_MAX_SIZE. cn_tid (csq_nodes q ! i) = of_nat i) \<and>
     csq_size q = int (length ws) \<and> distinct (map fst ws) \<and> cn_seg (csq_nodes q) (csq_head q) (map fst ws) \<and>
     (\<forall>(i, k) \<in> set ws. cn_ticks (csq_nodes q ! i) = k) \<and> sorted (map snd ws)"

text \<open>The specification of an addition: behind everything that wakes no later.\<close>

definition cs_insert :: "nat \<times> u32 \<Rightarrow> (nat \<times> u32) list \<Rightarrow> (nat \<times> u32) list" where
  "cs_insert w ws = takeWhile (\<lambda>v. snd v \<le> snd w) ws @ w # dropWhile (\<lambda>v. snd v \<le> snd w) ws"

lemma cn_seg_cong:
  "length ns' = length ns \<Longrightarrow> (\<And>x. x \<in> set xs \<Longrightarrow> cn_next (ns' ! x) = cn_next (ns ! x)) \<Longrightarrow> cn_seg ns' p xs = cn_seg ns p xs"
  by (induction xs arbitrary: p) simp_all

lemma cn_seg_bounds: "cn_seg ns p xs \<Longrightarrow> x \<in> set xs \<Longrightarrow> x < length ns"
  by (induction xs arbitrary: p) auto

lemma csq_place_ok:
  "cn_seg ns cur (map fst ws) \<Longrightarrow> (\<forall>(i, k) \<in> set ws. cn_ticks (ns ! i) = k) \<Longrightarrow>
   csq_place ns ticks prv cur =
     Some (let as = takeWhile (\<lambda>v. snd v \<le> ticks) ws; bs = dropWhile (\<lambda>v. snd v \<le> ticks) ws in
       (if as = [] then prv else Some (fst (last as)), if bs = [] then None else Some (fst (hd bs))))"
proof (induction ws arbitrary: prv cur)
  case Nil
  then show ?case by (simp add: csq_place.simps)
next
  case (Cons w ws)
  obtain x k where w: "w = (x, k)" by fastforce
  have x: "cur = Some x" "x < length ns" "cn_ticks (ns ! x) = k" "cn_seg ns (cn_next (ns ! x)) (map fst ws)"
    using Cons.prems w by auto
  show ?case
  proof (cases "ticks < k")
    case True
    moreover have "\<not> k \<le> ticks" using True by simp
    ultimately show ?thesis using x(1-3) unfolding w csq_place.simps [of ns ticks prv] by simp
  next
    case False
    then have "k \<le> ticks" by simp
    then show ?thesis
      using x w Cons.IH [OF x(4), of "Some x"] Cons.prems(2)
      by (simp add: csq_place.simps[of ns ticks prv] Let_def False split: if_splits)
  qed
qed

lemma cn_seg_head: "cn_seg ns p xs \<Longrightarrow> p = (if xs = [] then None else Some (hd xs))"
  by (cases xs) auto

lemma nth_update_notin: "i \<notin> set xs \<Longrightarrow> x \<in> set xs \<Longrightarrow> ns[i := v] ! x = ns ! x"
  by (metis nth_list_update_neq)

lemma nth_update_field: "f v = f (xs ! a) \<Longrightarrow> f (xs[a := v] ! j) = f (xs ! j)"
proof (cases "a < length xs")
  case True
  moreover assume "f v = f (xs ! a)"
  ultimately show ?thesis by (cases "a = j") simp_all
next
  case False
  then have "xs[a := v] = xs" by (simp add: list_update_beyond)
  then show ?thesis by simp
qed

lemma csq_update_keeps [simp]:
  "cn_tid (ns[a := (ns ! a)\<lparr>cn_next := v\<rparr>] ! j) = cn_tid (ns ! j)"
  "cn_ticks (ns[a := (ns ! a)\<lparr>cn_next := v\<rparr>] ! j) = cn_ticks (ns ! j)"
  "cn_tid (ns[a := (ns ! a)\<lparr>cn_ticks := k\<rparr>] ! j) = cn_tid (ns ! j)"
  by (rule nth_update_field, simp)+

lemma cn_seg_insert:
  assumes "cn_seg ns h (as @ bs)" "distinct (as @ bs)" "i \<notin> set (as @ bs)" "i < length ns"
    and ns1: "ns1 = (if as = [] then ns else ns[last as := (ns ! last as)\<lparr>cn_next := Some i\<rparr>])"
    and ns2: "ns2 = ns1[i := (ns1 ! i)\<lparr>cn_next := (if bs = [] then None else Some (hd bs))\<rparr>]"
  shows "cn_seg ns2 (if as = [] then Some i else h) (as @ i # bs)"
  using assms(1-3) ns1 ns2
proof (induction as arbitrary: h ns1 ns2)
  case Nil
  have "cn_seg ns2 h bs"
    using Nil by (subst cn_seg_cong [of _ ns]) (auto simp: nth_update_notin [where xs = bs])
  then show ?case
    using Nil assms(4) cn_seg_head [of ns2 h bs] by (auto simp: nth_list_update)
next
  case (Cons a as)
  have a: "h = Some a" "a < length ns" "a \<noteq> i" "cn_seg ns (cn_next (ns ! a)) (as @ bs)"
    using Cons.prems by auto
  show ?case
  proof (cases "as = []")
    case True
    have n2: "length ns2 = length ns" "ns2 ! a = (ns ! a)\<lparr>cn_next := Some i\<rparr>"
      "cn_next (ns2 ! i) = (if bs = [] then None else Some (hd bs))"
      using Cons.prems True a(2,3) assms(4) by (auto simp: nth_list_update)
    have "cn_seg ns2 (cn_next (ns ! a)) bs"
      using a(4) True Cons.prems
      by (subst cn_seg_cong [of _ ns]) (auto simp: nth_update_notin [where xs = bs])
    then show ?thesis
      using True a(1,2) assms(4) n2 cn_seg_head [of ns2 _ bs] by auto
  next
    case False
    have "cn_seg ns2 (if as = [] then Some i else cn_next (ns ! a)) (as @ i # bs)"
      using Cons.IH [of "cn_next (ns ! a)"] a Cons.prems False by auto
    moreover have "a \<noteq> last as"
      using Cons.prems(2) False last_in_set by fastforce
    ultimately show ?thesis
      using a False Cons.prems(4,5) assms(4) by (auto simp: nth_list_update)
  qed
qed

lemma csq_rep_init: "csq_rep csq_init []"
  by (simp add: csq_rep_def csq_init_def csq_node_init_def)

lemma csq_rep_bounds: "csq_rep q ws \<Longrightarrow> i \<in> fst ` set ws \<Longrightarrow> i < CSQ_MAX_SIZE"
  using cn_seg_bounds [of "csq_nodes q" "csq_head q" "map fst ws" i] by (auto simp: csq_rep_def)

lemma takeWhile_dropWhile_sorted:
  "sorted (map f ws) \<Longrightarrow> b \<in> set (dropWhile (\<lambda>v. f v \<le> k) ws) \<Longrightarrow> k \<le> f b"
proof (induction ws)
  case (Cons v vs)
  then show ?case by (cases "f v \<le> k") auto
qed simp

lemma sorted_cs_insert:
  assumes "sorted (map snd ws)"
  shows "sorted (map snd (cs_insert w ws))"
proof -
  let ?as = "takeWhile (\<lambda>v. snd v \<le> snd w) ws" and ?bs = "dropWhile (\<lambda>v. snd v \<le> snd w) ws"
  have "sorted (map snd ?as @ map snd ?bs)" using assms by (simp flip: map_append)
  then have "sorted (map snd ?as)" "sorted (map snd ?bs)" by (simp_all only: sorted_append)
  moreover have "\<forall>b \<in> set ?bs. snd w \<le> snd b" using takeWhile_dropWhile_sorted [OF assms] by blast
  moreover have "\<forall>b \<in> set ?as. snd b \<le> snd w" using set_takeWhileD by fastforce
  ultimately show ?thesis
    unfolding cs_insert_def map_append list.map sorted_append sorted_simps set_map list.set by fastforce
qed

lemma set_cs_insert: "set (cs_insert w ws) = insert w (set ws)"
proof -
  have "set ws = set (takeWhile (\<lambda>v. snd v \<le> snd w) ws @ dropWhile (\<lambda>v. snd v \<le> snd w) ws)" by simp
  then show ?thesis unfolding cs_insert_def set_append by auto
qed

lemma distinct_cs_insert:
  assumes "distinct (map fst ws)" "i \<notin> fst ` set ws"
  shows "distinct (map fst (cs_insert (i, k) ws))"
proof -
  let ?A = "map fst (takeWhile (\<lambda>v. snd v \<le> k) ws)" and ?B = "map fst (dropWhile (\<lambda>v. snd v \<le> k) ws)"
  have AB: "?A @ ?B = map fst ws" by (simp flip: map_append)
  then have "distinct (?A @ ?B)" "i \<notin> set (?A @ ?B)" using assms by simp_all
  then show ?thesis by (simp add: cs_insert_def)
qed

lemma length_cs_insert [simp]: "length (cs_insert w ws) = Suc (length ws)"
proof -
  have "length ws = length (takeWhile (\<lambda>v. snd v \<le> snd w) ws @ dropWhile (\<lambda>v. snd v \<le> snd w) ws)" by simp
  then show ?thesis unfolding cs_insert_def length_append by simp
qed

text \<open>An addition of a task that does not sleep yet inserts it behind everything that wakes no later.\<close>

lemma csq_add_rep:
  assumes rep: "csq_rep q ws" and i: "i = unat (TID_ID tid)" "i < CSQ_MAX_SIZE" "i \<notin> fst ` set ws"
    and room: "length ws < CSQ_MAX_SIZE - 1"
  shows "\<exists>q'. csq_add q tid ticks = Some (CSQ_NONE, q') \<and> csq_rep q' (cs_insert (i, ticks) ws)"
proof -
  let ?as = "takeWhile (\<lambda>v. snd v \<le> ticks) ws" and ?bs = "dropWhile (\<lambda>v. snd v \<le> ticks) ws"
  let ?A = "map fst ?as" and ?B = "map fst ?bs"
  let ?next = "if ?bs = [] then None else Some (fst (hd ?bs))"
  define ns where "ns = (csq_nodes q)[i := (csq_nodes q ! i)\<lparr>cn_ticks := ticks\<rparr>]"
  define ns1 where "ns1 = (if ?A = [] then ns else ns[last ?A := (ns ! last ?A)\<lparr>cn_next := Some i\<rparr>])"
  define ns2 where "ns2 = ns1[i := (ns1 ! i)\<lparr>cn_next := (if ?B = [] then None else Some (hd ?B))\<rparr>]"
  have AB: "?A @ ?B = map fst ws" by (simp flip: map_append)
  have r: "length (csq_nodes q) = CSQ_MAX_SIZE" "\<forall>i<CSQ_MAX_SIZE. cn_tid (csq_nodes q ! i) = of_nat i"
    "csq_size q = int (length ws)" "distinct (map fst ws)" "cn_seg (csq_nodes q) (csq_head q) (map fst ws)"
    "\<forall>(i, k) \<in> set ws. cn_ticks (csq_nodes q ! i) = k" "sorted (map snd ws)"
    using rep by (simp_all add: csq_rep_def)
  have seg: "cn_seg ns (csq_head q) (map fst ws)"
    using r(1,5) i(2) by (subst cn_seg_cong [of _ "csq_nodes q"]) (simp_all add: ns_def nth_list_update)
  have tk: "\<forall>(j, k) \<in> set ws. cn_ticks (ns ! j) = k"
    using r(1,6) i(2,3) by (force simp: ns_def nth_list_update)
  have place: "csq_place ns ticks None (csq_head q) =
      Some (if ?as = [] then None else Some (fst (last ?as)), if ?bs = [] then None else Some (fst (hd ?bs)))"
    using csq_place_ok [OF seg tk, of ticks None] by (simp add: Let_def)
  have seg2: "cn_seg ns2 (if ?A = [] then Some i else csq_head q) (?A @ i # ?B)"
    by (rule cn_seg_insert [OF _ _ _ _ ns1_def ns2_def]) (use AB seg r i in \<open>auto simp: ns_def\<close>)
  have la: "last ?A < CSQ_MAX_SIZE" if "?A \<noteq> []"
  proof -
    have "last ?A \<in> set (?A @ ?B)" using last_in_set [OF that] unfolding set_append by (rule UnI1)
    then have "last ?A \<in> fst ` set ws" unfolding AB by simp
    then show ?thesis by (rule csq_rep_bounds [OF rep])
  qed
  have len: "length ns2 = CSQ_MAX_SIZE" using r(1) by (simp add: ns2_def ns1_def ns_def)
  have keep: "cn_tid (ns2 ! j) = cn_tid (csq_nodes q ! j)" "cn_ticks (ns2 ! j) = (if j = i then ticks else cn_ticks (csq_nodes q ! j))"
    if "j < CSQ_MAX_SIZE" for j
    using that r(1) unfolding ns2_def ns1_def by (simp_all add: ns_def nth_list_update)
  have "csq_add q tid ticks = Some (CSQ_NONE, q\<lparr>csq_nodes := ns2, csq_head := (if ?A = [] then Some i else csq_head q),
      csq_size := csq_size q + 1\<rparr>)"
  proof (cases "?as = []")
    case True
    then show ?thesis
      using r(1,3) i(1,2) room place la
      by (simp add: csq_add_def word_less_nat_alt Let_def aget_def aset_def ns2_def ns1_def ns_def hd_map split: if_splits)
  next
    case False
    then show ?thesis
      using r(1,3) i(1,2) room place la
      by (simp add: csq_add_def word_less_nat_alt Let_def aget_def aset_def ns2_def ns1_def ns_def hd_map last_map split: if_splits)
  qed
  moreover have "csq_rep (q\<lparr>csq_nodes := ns2, csq_head := (if ?A = [] then Some i else csq_head q), csq_size := csq_size q + 1\<rparr>)
      (cs_insert (i, ticks) ws)"
  proof -
    have d: "distinct (map fst (cs_insert (i, ticks) ws))"
      using r(4) i(3) by (rule distinct_cs_insert)
    have tid: "cn_tid (ns2 ! j) = of_nat j" if "j < CSQ_MAX_SIZE" for j
      using keep(1) [OF that] r(2) that by simp
    have tick: "cn_ticks (ns2 ! j) = k" if "(j, k) \<in> set (cs_insert (i, ticks) ws)" for j k
    proof (cases "(j, k) = (i, ticks)")
      case True
      then show ?thesis using keep(2) i(2) by simp
    next
      case False
      then have w: "(j, k) \<in> set ws" using that False unfolding set_cs_insert by blast
      then have "j < CSQ_MAX_SIZE" "j \<noteq> i"
        using csq_rep_bounds [OF rep, of j] i(3) by (force, force)
      then show ?thesis using keep(2) r(6) w by auto
    qed
    have "cn_seg ns2 (if ?A = [] then Some i else csq_head q) (map fst (cs_insert (i, ticks) ws))"
      using seg2 by (simp only: cs_insert_def map_append list.map fst_conv snd_conv)
    then show ?thesis
      using d len tid tick r(3) sorted_cs_insert [OF r(7)] unfolding csq_rep_def
      by (simp only: cs_queue.simps cs_queue.select_convs cs_queue.surjective length_cs_insert) auto
  qed
  ultimately show ?thesis by blast
qed

section \<open>The server on the list\<close>

text \<open>The sleepers one update wakes.\<close>

definition cs_due :: "nat \<Rightarrow> u32 \<Rightarrow> (nat \<times> u32) list \<Rightarrow> (nat \<times> u32) list" where
  "cs_due n ticks ws = takeWhile (\<lambda>w. snd w \<le> ticks) (take n ws)"

lemma csq_pop_rep:
  assumes "csq_rep q ((i, k) # ws)" "k \<le> ticks"
  shows "\<exists>q'. csq_pop q ticks = Some (CSQ_NONE, Some (of_nat i), q') \<and> csq_rep q' ws"
proof -
  let ?q = "q\<lparr>csq_head := cn_next (csq_nodes q ! i), csq_size := csq_size q - 1\<rparr>"
  have "i < CSQ_MAX_SIZE" "csq_head q = Some i" "cn_ticks (csq_nodes q ! i) = k"
    "length (csq_nodes q) = CSQ_MAX_SIZE" "cn_tid (csq_nodes q ! i) = of_nat i"
    using assms by (auto simp: csq_rep_def)
  then have "csq_pop q ticks = Some (CSQ_NONE, Some (of_nat i), ?q)"
    using assms(2) by (simp add: csq_pop_def not_less)
  moreover have "csq_rep ?q ws" using assms(1) by (simp add: csq_rep_def)
  ultimately show ?thesis by blast
qed

lemma csq_pop_none:
  assumes "csq_rep q ws" "cs_due (Suc n) ticks ws = []"
  shows "\<exists>r. r \<noteq> CSQ_NONE \<and> csq_pop q ticks = Some (r, None, q)"
proof (cases ws)
  case Nil
  then show ?thesis using assms by (simp add: csq_rep_def csq_pop_def)
next
  case (Cons w ws')
  then obtain i k where w: "w = (i, k)" by fastforce
  have "ticks < k" using assms(2) Cons w by (simp add: cs_due_def not_le split: if_splits)
  then show ?thesis using assms(1) Cons w by (simp add: csq_rep_def csq_pop_def)
qed

lemma cs_pop_ready_rep:
  "csq_rep q ws \<Longrightarrow> \<exists>q'. cs_pop_ready n q ticks = Some (map (of_nat \<circ> fst) (cs_due n ticks ws), q') \<and>
     csq_rep q' (drop (length (cs_due n ticks ws)) ws)"
proof (induction n arbitrary: q ws)
  case 0
  then show ?case by (simp add: cs_due_def)
next
  case (Suc n)
  show ?case
  proof (cases "cs_due (Suc n) ticks ws = []")
    case True
    then show ?thesis using csq_pop_none [OF Suc.prems True] Suc.prems by auto
  next
    case False
    then obtain i k ws' where w: "ws = (i, k) # ws'" "k \<le> ticks"
      by (cases ws) (auto simp: cs_due_def split: if_splits)
    obtain q' where q': "csq_pop q ticks = Some (CSQ_NONE, Some (of_nat i), q')" "csq_rep q' ws'"
      using csq_pop_rep Suc.prems w by blast
    obtain q'' where "cs_pop_ready n q' ticks = Some (map (of_nat \<circ> fst) (cs_due n ticks ws'), q'')"
      "csq_rep q'' (drop (length (cs_due n ticks ws')) ws')"
      using Suc.IH [OF q'(2)] by blast
    then show ?thesis using q' w by (simp add: cs_due_def)
  qed
qed

(* src/src/user/clockserver.c:125-134 *)
definition cs_start :: "u32 \<Rightarrow> cs_state" where
  "cs_start not_tid = \<lparr>cs_csq = csq_init, cs_ticks = 0, cs_exit = False, cs_not_tid = not_tid\<rparr>"

lemma cs_update:
  assumes "csq_rep (cs_csq s) ws" "\<not> cs_exit s" "IS_VALID_TID r" "cr_type req = CSREQ_UPDATE"
  defines "D \<equiv> cs_due CS_PROCESS_NUM (cs_ticks s + 1) ws"
  shows "\<exists>q'. cs_handle s r req = Some (Some (s\<lparr>cs_ticks := cs_ticks s + 1, cs_csq := q'\<rparr>),
           [(r, CS_notify (map (of_nat \<circ> fst) D) (int (length D)))]) \<and> csq_rep q' (drop (length D) ws)"
proof -
  obtain q' where "cs_pop_ready CS_PROCESS_NUM (cs_csq s) (cs_ticks s + 1) = Some (map (of_nat \<circ> fst) D, q')"
    "csq_rep q' (drop (length D) ws)"
    using cs_pop_ready_rep [OF assms(1)] unfolding D_def by blast
  then show ?thesis using assms(2-4) by (auto simp: cs_handle_def Let_def)
qed

text \<open>\<open>cs_updates n\<close>: the next \<open>n\<close> requests are updates; the tasks they wake.\<close>

fun cs_updates :: "nat \<Rightarrow> u32 \<Rightarrow> cs_state \<Rightarrow> (cs_state \<times> u32 list) option" where
  "cs_updates 0 r s = Some (s, [])"
| "cs_updates (Suc n) r s = do {
     (s, rs) \<leftarrow> cs_handle s r \<lparr>cr_type = CSREQ_UPDATE, cr_tid = 0, cr_ticks = 0\<rparr>;
     s \<leftarrow> s;
     ids \<leftarrow> (case rs of [(_, CS_notify ids _)] \<Rightarrow> Some ids | _ \<Rightarrow> None);
     (s, more) \<leftarrow> cs_updates n r s;
     Some (s, ids @ more) }"

lemma cs_due_set: "length D > j \<Longrightarrow> D = cs_due n t ws \<Longrightarrow> D ! j = ws ! j \<and> snd (ws ! j) \<le> t"
  unfolding cs_due_def
  by (metis (no_types, lifting) length_takeWhile_le min.strict_boundedE length_take nth_mem nth_take order_less_le_trans
      set_takeWhileD takeWhile_nth)

lemma cs_due_stop:
  assumes "sorted (map snd ws)" "length (cs_due n t ws) \<le> j" "length (cs_due n t ws) < n" "j < length ws"
  shows "t < snd (ws ! j)"
proof -
  let ?d = "length (cs_due n t ws)"
  have "?d < length (take n ws)" using assms by simp
  then have "\<not> snd (take n ws ! ?d) \<le> t"
    unfolding cs_due_def by (rule nth_length_takeWhile)
  then have "t < snd (ws ! ?d)" using assms by simp
  also have "\<dots> \<le> snd (ws ! j)"
    using sorted_nth_mono [OF assms(1), of ?d j] assms by simp
  finally show ?thesis .
qed

lemma length_cs_due: "length (cs_due n t ws) \<le> n"
  unfolding cs_due_def using length_takeWhile_le [of "\<lambda>w. snd w \<le> t" "take n ws"] by simp

lemma cs_updates_total:
  "csq_rep (cs_csq s) ws \<Longrightarrow> \<not> cs_exit s \<Longrightarrow> IS_VALID_TID r \<Longrightarrow> \<exists>s' woken. cs_updates n r s = Some (s', woken)"
proof (induction n arbitrary: s ws)
  case (Suc n)
  let ?req = "\<lparr>cr_type = CSREQ_UPDATE, cr_tid = 0, cr_ticks = 0\<rparr>"
  define D where "D = cs_due CS_PROCESS_NUM (cs_ticks s + 1) ws"
  obtain q' where h: "cs_handle s r ?req = Some (Some (s\<lparr>cs_ticks := cs_ticks s + 1, cs_csq := q'\<rparr>),
      [(r, CS_notify (map (of_nat \<circ> fst) D) (int (length D)))])" and rep: "csq_rep q' (drop (length D) ws)"
    using cs_update [OF Suc.prems(1,2,3), of ?req] unfolding D_def by auto
  obtain s' woken where "cs_updates n r (s\<lparr>cs_ticks := cs_ticks s + 1, cs_csq := q'\<rparr>) = Some (s', woken)"
    using Suc.IH [of "s\<lparr>cs_ticks := cs_ticks s + 1, cs_csq := q'\<rparr>" "drop (length D) ws"] rep Suc.prems(2,3) by auto
  then show ?case using h by simp
qed simp

lemma cs_updates_wake:
  "csq_rep (cs_csq s) ws \<Longrightarrow> j < length ws \<Longrightarrow> ws ! j = (i, k) \<Longrightarrow> \<not> cs_exit s \<Longrightarrow> IS_VALID_TID r \<Longrightarrow>
   unat (cs_ticks s) + n < 2 ^ 32 \<Longrightarrow> max 1 (unat k - unat (cs_ticks s)) + j div CS_PROCESS_NUM \<le> n \<Longrightarrow>
   \<exists>s' woken. cs_updates n r s = Some (s', woken) \<and> of_nat i \<in> set woken"
proof (induction n arbitrary: s ws j)
  case 0
  then show ?case by simp
next
  case (Suc n)
  let ?t = "cs_ticks s + 1"
  define D where "D = cs_due CS_PROCESS_NUM ?t ws"
  let ?req = "\<lparr>cr_type = CSREQ_UPDATE, cr_tid = 0, cr_ticks = 0\<rparr>"
  obtain q' where h: "cs_handle s r ?req = Some (Some (s\<lparr>cs_ticks := ?t, cs_csq := q'\<rparr>),
      [(r, CS_notify (map (of_nat \<circ> fst) D) (int (length D)))])" and rep: "csq_rep q' (drop (length D) ws)"
    using cs_update [OF Suc.prems(1,4,5), of ?req] unfolding D_def by auto
  let ?s = "s\<lparr>cs_ticks := ?t, cs_csq := q'\<rparr>"
  have t: "unat ?t = unat (cs_ticks s) + 1"
    using Suc.prems(6) by (simp add: unat_word_ariths)
  have run: "\<exists>s' woken. cs_updates n r ?s = Some (s', woken)"
    using cs_updates_total [of ?s] rep Suc.prems(4,5) by simp
  show ?case
  proof (cases "j < length D")
    case True
    then have "D ! j = (i, k)" using cs_due_set [OF True D_def] Suc.prems(3) by simp
    then have "(i, k) \<in> set D" using nth_mem [OF True] by simp
    then show ?thesis using h run by (force simp: image_iff)
  next
    case False
    have dj: "length D \<le> CS_PROCESS_NUM" unfolding D_def by (rule length_cs_due)
    have "max 1 (unat k - unat ?t) + (j - length D) div CS_PROCESS_NUM \<le> n"
    proof (cases "length D = CS_PROCESS_NUM")
      case True
      then have "j div CS_PROCESS_NUM = Suc ((j - length D) div CS_PROCESS_NUM)"
        using False by (simp add: le_div_geq)
      moreover have "max 1 (unat k - unat ?t) \<le> max 1 (unat k - unat (cs_ticks s))" using t by simp
      ultimately show ?thesis using Suc.prems(7) by linarith
    next
      case ne: False
      have "sorted (map snd ws)" using Suc.prems(1) by (simp add: csq_rep_def)
      then have "?t < k"
        using cs_due_stop [of ws CS_PROCESS_NUM ?t j] ne dj False Suc.prems(2,3) unfolding D_def by simp
      then have "unat ?t < unat k" by (simp add: word_less_nat_alt)
      moreover have "(j - length D) div CS_PROCESS_NUM \<le> j div CS_PROCESS_NUM" by (rule div_le_mono) simp
      ultimately show ?thesis using Suc.prems(7) t by auto
    qed
    moreover have "drop (length D) ws ! (j - length D) = (i, k)" using False Suc.prems(2,3) by simp
    ultimately have "\<exists>s' woken. cs_updates n r ?s = Some (s', woken) \<and> of_nat i \<in> set woken"
      using Suc.IH [of ?s "drop (length D) ws" "j - length D"] rep Suc.prems(2,4-6) False t by simp
    then show ?thesis using h by auto
  qed
qed

section \<open>Histories of the server\<close>

text \<open>What the server was asked and what it did. A task that asks to sleep is blocked in its Send until it
  is woken, so it asks again only when every earlier sleep of its has ended: \<open>awake\<close>. \<open>asked\<close> records
  each sleep (task, deadline), \<open>woken\<close> each wake-up (task, tick).\<close>

definition times_of :: "nat \<Rightarrow> (nat \<times> u32) list \<Rightarrow> u32 list" where
  "times_of i xs = map snd (filter (\<lambda>x. fst x = i) xs)"

definition cs_deadline :: "cs_state \<Rightarrow> cs_req \<Rightarrow> u32" where
  "cs_deadline s req = (if cr_type req = CSREQ_DELAY then cs_ticks s + cr_ticks req else cr_ticks req)"

inductive cs_history :: "cs_state \<Rightarrow> (nat \<times> u32) list \<Rightarrow> (nat \<times> u32) list \<Rightarrow> bool" where
  start: "cs_history (cs_start not_tid) [] []"
| sleep: "cs_history s' (asked @ [(unat (TID_ID r), cs_deadline s req)]) woken"
  if "cs_history s asked woken" "cr_type req = CSREQ_DELAY \<or> cr_type req = CSREQ_UNTIL"
    "length (times_of (unat (TID_ID r)) asked) = length (times_of (unat (TID_ID r)) woken)"
    "cs_handle s r req = Some (Some s', rs)"
| update: "cs_history s' asked (woken @ map (\<lambda>t. (unat t, cs_ticks s')) ids)"
  if "cs_history s asked woken" "cr_type req = CSREQ_UPDATE" "cs_handle s r req = Some (Some s', [(r, CS_notify ids m)])"
| other: "cs_history s' asked woken"
  if "cs_history s asked woken" "cr_type req = CSREQ_TIME \<or> cr_type req = CSREQ_HALT" "cs_handle s r req = Some (Some s', rs)"

lemma times_of_append [simp]: "times_of i (xs @ ys) = times_of i xs @ times_of i ys"
  by (simp add: times_of_def)

lemma times_of_Cons: "times_of i (x # xs) = (if fst x = i then snd x # times_of i xs else times_of i xs)"
  by (simp add: times_of_def)

lemma times_of_Nil [simp]: "times_of i [] = []"
  by (simp add: times_of_def)

lemma times_of_eq_Nil: "times_of i xs = [] \<longleftrightarrow> i \<notin> fst ` set xs"
  by (auto simp: times_of_def filter_empty_conv)

lemma times_of_cs_insert:
  assumes "i \<notin> fst ` set ws"
  shows "times_of j (cs_insert (i, k) ws) = times_of j ws @ times_of j [(i, k)]"
proof -
  let ?as = "takeWhile (\<lambda>v. snd v \<le> k) ws" and ?bs = "dropWhile (\<lambda>v. snd v \<le> k) ws"
  have ws: "ws = ?as @ ?bs" by simp
  then have "times_of j ws = times_of j ?as @ times_of j ?bs"
    using times_of_append [of j ?as ?bs] by metis
  moreover have "times_of i ws = []" using assms by (simp add: times_of_eq_Nil)
  ultimately show ?thesis by (cases "j = i") (simp_all add: cs_insert_def times_of_Cons)
qed

lemma takeWhile_take_split: "xs = takeWhile P (take n xs) @ drop (length (takeWhile P (take n xs))) xs"
proof -
  let ?m = "length (takeWhile P (take n xs))"
  have "takeWhile P (take n xs) = take ?m (take n xs)" by (rule takeWhile_eq_take)
  moreover have "?m \<le> n" using length_takeWhile_le [of P "take n xs"] by simp
  ultimately have "takeWhile P (take n xs) = take ?m xs" by (simp add: take_take min_absorb1)
  then show ?thesis by (metis append_take_drop_id)
qed

definition cs_inv :: "cs_state \<Rightarrow> (nat \<times> u32) list \<Rightarrow> (nat \<times> u32) list \<Rightarrow> bool" where
  "cs_inv s asked woken \<longleftrightarrow> (\<exists>ws. csq_rep (cs_csq s) ws \<and>
     (\<forall>i. \<exists>fin. times_of i asked = fin @ times_of i ws \<and> list_all2 (\<le>) fin (times_of i woken)))"

lemma csq_rep_room:
  assumes "csq_rep q ws" "i < CSQ_MAX_SIZE" "i \<notin> fst ` set ws"
  shows "length ws \<le> CSQ_MAX_SIZE - 1"
proof -
  have "fst ` set ws \<subseteq> {..<CSQ_MAX_SIZE} - {i}" using csq_rep_bounds [OF assms(1)] assms(3) by auto
  then have "card (fst ` set ws) \<le> card ({..<CSQ_MAX_SIZE} - {i})" by (intro card_mono) simp
  moreover have "card (fst ` set ws) = length ws"
    using assms(1) distinct_card [of "map fst ws"] by (simp add: csq_rep_def)
  ultimately show ?thesis using assms(2) by simp
qed

lemma csq_add_some:
  assumes "csq_rep q ws" "IS_VALID_TID tid" "unat (TID_ID tid) \<notin> fst ` set ws" "csq_add q tid ticks = Some (CSQ_NONE, q')"
  shows "csq_rep q' (cs_insert (unat (TID_ID tid), ticks) ws)"
proof -
  have i: "unat (TID_ID tid) < CSQ_MAX_SIZE"
    using assms(2) IS_VALID_ID_TID_ID [of tid] by (simp add: IS_VALID_TID_def IS_VALID_ID_def)
  have "csq_size q \<noteq> int CSQ_MAX_SIZE - 1" using assms(4) by (auto simp: csq_add_def Let_def split: if_splits)
  then have "length ws < CSQ_MAX_SIZE - 1"
    using csq_rep_room [OF assms(1) i assms(3)] assms(1) by (simp add: csq_rep_def)
  then show ?thesis using csq_add_rep [OF assms(1) refl i assms(3), of ticks] assms(4) by auto
qed

lemma cs_inv_sleep:
  assumes inv: "cs_inv s asked woken" and req: "cr_type req = CSREQ_DELAY \<or> cr_type req = CSREQ_UNTIL"
    and awake: "length (times_of (unat (TID_ID r)) asked) = length (times_of (unat (TID_ID r)) woken)"
    and h: "cs_handle s r req = Some (Some s', rs)"
  shows "cs_inv s' (asked @ [(unat (TID_ID r), cs_deadline s req)]) woken"
proof -
  let ?i = "unat (TID_ID r)"
  obtain ws where rep: "csq_rep (cs_csq s) ws"
    and hist: "\<forall>i. \<exists>fin. times_of i asked = fin @ times_of i ws \<and> list_all2 (\<le>) fin (times_of i woken)"
    using inv unfolding cs_inv_def by blast
  have "times_of ?i ws = []"
    using spec [OF hist, of ?i] awake by (auto dest: list_all2_lengthD)
  then have i: "?i \<notin> fst ` set ws" by (simp add: times_of_eq_Nil)
  have "IS_VALID_TID r" "csq_add (cs_csq s) r (cs_deadline s req) = Some (CSQ_NONE, cs_csq s')"
    using h req by (auto simp: cs_handle_def cs_deadline_def fault_eq split: if_splits)
  then have "csq_rep (cs_csq s') (cs_insert (?i, cs_deadline s req) ws)"
    by (rule csq_add_some [OF rep _ i])
  moreover have "\<exists>fin. times_of j (asked @ [(?i, cs_deadline s req)]) = fin @ times_of j (cs_insert (?i, cs_deadline s req) ws) \<and>
      list_all2 (\<le>) fin (times_of j woken)" for j
    using spec [OF hist, of j] times_of_cs_insert [OF i] by auto
  ultimately show ?thesis unfolding cs_inv_def by blast
qed

lemma cs_inv_update:
  assumes inv: "cs_inv s asked woken" and req: "cr_type req = CSREQ_UPDATE"
    and h: "cs_handle s r req = Some (Some s', [(r, CS_notify ids m)])"
  shows "cs_inv s' asked (woken @ map (\<lambda>t. (unat t, cs_ticks s')) ids)"
proof -
  obtain ws where rep: "csq_rep (cs_csq s) ws"
    and hist: "\<forall>i. \<exists>fin. times_of i asked = fin @ times_of i ws \<and> list_all2 (\<le>) fin (times_of i woken)"
    using inv unfolding cs_inv_def by blast
  define D where "D = cs_due CS_PROCESS_NUM (cs_ticks s + 1) ws"
  have ok: "\<not> cs_exit s" "IS_VALID_TID r" using h req by (auto simp: cs_handle_def fault_eq split: if_splits)
  obtain q' where "s' = s\<lparr>cs_ticks := cs_ticks s + 1, cs_csq := q'\<rparr>" "ids = map (of_nat \<circ> fst) D"
    and rep': "csq_rep q' (drop (length D) ws)"
    using cs_update [OF rep ok req] h unfolding D_def by auto
  then have s': "cs_csq s' = q'" "cs_ticks s' = cs_ticks s + 1" "ids = map (of_nat \<circ> fst) D" by simp_all
  have "ws = D @ drop (length D) ws"
    unfolding D_def cs_due_def
    by (rule takeWhile_take_split)
  then have split_ws: "times_of i ws = times_of i D @ times_of i (drop (length D) ws)" for i
    by (metis times_of_append)
  have "unat (of_nat (fst w) :: u32) = fst w" if "w \<in> set D" for w
  proof -
    have "w \<in> set ws" using that \<open>ws = _\<close> by (metis UnI1 set_append)
    then show ?thesis using csq_rep_bounds [OF rep, of "fst w"] by (simp add: unat_of_nat)
  qed
  then have "map (\<lambda>t. (unat t, cs_ticks s')) ids = map (\<lambda>w. (fst w, cs_ticks s')) D"
    unfolding s'(3) by (simp add: comp_def del: of_nat_unat)
  then have new: "times_of i (map (\<lambda>t. (unat t, cs_ticks s')) ids) = map (\<lambda>_. cs_ticks s') (times_of i D)" for i
    by (simp add: times_of_def filter_map comp_def)
  have early: "list_all2 (\<le>) (times_of i D) (map (\<lambda>_. cs_ticks s') (times_of i D))" for i
    by (auto simp: list_all2_conv_all_nth times_of_def s'(2) D_def cs_due_def dest!: nth_mem set_takeWhileD) 
  have "\<exists>fin. times_of i asked = fin @ times_of i (drop (length D) ws) \<and>
      list_all2 (\<le>) fin (times_of i (woken @ map (\<lambda>t. (unat t, cs_ticks s')) ids))" for i
  proof -
    obtain fin where "times_of i asked = fin @ times_of i ws" "list_all2 (\<le>) fin (times_of i woken)"
      using hist by blast
    then show ?thesis
      using split_ws [of i] new [of i] early [of i]
      by (intro exI [of _ "fin @ times_of i D"]) (simp add: list_all2_appendI)
  qed
  then show ?thesis using rep' s'(1) unfolding cs_inv_def by blast
qed

lemma cs_inv_history: "cs_history s asked woken \<Longrightarrow> cs_inv s asked woken"
proof (induction rule: cs_history.induct)
  case (start not_tid)
  then show ?case using csq_rep_init by (auto simp: cs_inv_def cs_start_def intro!: exI [of _ "[]"])
next
  case (other s asked woken req r s' rs)
  then have "cs_csq s' = cs_csq s" by (auto simp: cs_handle_def fault_eq split: if_splits)
  then show ?case using other.IH by (simp add: cs_inv_def)
qed (blast intro: cs_inv_sleep cs_inv_update)+

section \<open>Properties\<close>

text \<open>C15: In every history of the clock server, the n-th wake-up of a task follows its n-th sleep and
  comes at a tick that is not before the deadline of that sleep, however the requests of the tasks and
  the updates interleave.\<close>

theorem clock_no_early_wake:
  assumes "cs_history s asked woken" and "n < length (times_of i woken)"
  shows "n < length (times_of i asked) \<and> times_of i asked ! n \<le> times_of i woken ! n"
proof -
  obtain ws fin where "times_of i asked = fin @ times_of i ws" "list_all2 (\<le>) fin (times_of i woken)"
    using cs_inv_history [OF assms(1)] unfolding cs_inv_def by blast
  then show ?thesis
    using assms(2) by (auto simp: list_all2_conv_all_nth nth_append)
qed

lemma clock_sleep_one:
  obtains s where "cs_handle (cs_start 2) 1 \<lparr>cr_type = CSREQ_DELAY, cr_tid = 1, cr_ticks = 1\<rparr> = Some (Some s, [])"
    "csq_rep (cs_csq s) [(1, 1)]" "cs_ticks s = 0" "\<not> cs_exit s"
proof -
  obtain q where q: "csq_add csq_init 1 1 = Some (CSQ_NONE, q)" "csq_rep q [(1, 1)]"
    using csq_add_rep [OF csq_rep_init refl, of 1 1] by (auto simp: TID_ID_def cs_insert_def)
  have "cs_handle (cs_start 2) 1 \<lparr>cr_type = CSREQ_DELAY, cr_tid = 1, cr_ticks = 1\<rparr> = Some (Some (cs_start 2\<lparr>cs_csq := q\<rparr>), [])"
    using q(1) by (simp add: cs_handle_def cs_start_def IS_VALID_TID_def TID_ID_def)
  then show thesis by (rule that) (use q in \<open>simp_all add: cs_start_def\<close>)
qed

theorem clock_no_early_wake_witness:
  "\<exists>s asked woken. cs_history s asked woken \<and> times_of 1 asked = [1] \<and> times_of 1 woken = [1] \<and>
     times_of 1 asked ! 0 \<le> times_of 1 woken ! 0"
proof -
  let ?delay = "\<lparr>cr_type = CSREQ_DELAY, cr_tid = 1, cr_ticks = 1\<rparr>"
  let ?update = "\<lparr>cr_type = CSREQ_UPDATE, cr_tid = 0, cr_ticks = 0\<rparr>"
  have tid: "unat (TID_ID 1) = 1" "IS_VALID_TID 2" by (simp_all add: TID_ID_def IS_VALID_TID_def)
  obtain s where s: "cs_handle (cs_start 2) 1 ?delay = Some (Some s, [])"
    "csq_rep (cs_csq s) [(1, 1)]" "cs_ticks s = 0" "\<not> cs_exit s"
    by (rule clock_sleep_one)
  have h1: "cs_history s [(1, 1)] []"
    using cs_history.sleep [OF cs_history.start _ _ s(1)] by (simp add: tid cs_deadline_def cs_start_def times_of_def)
  obtain q where u: "cs_handle s 2 ?update = Some (Some (s\<lparr>cs_ticks := 1, cs_csq := q\<rparr>), [(2, CS_notify [1] 1)])"
    using cs_update [OF s(2,4) tid(2), of ?update] s(3) by (auto simp: cs_due_def)
  have h2: "cs_history (s\<lparr>cs_ticks := 1, cs_csq := q\<rparr>) [(1, 1)] [(1, 1)]"
    using cs_history.update [OF h1 _ u] by simp
  show ?thesis
    by (intro exI conjI, rule h2) (use clock_no_early_wake [OF h2, of 0 1] in \<open>auto simp: times_of_def\<close>)
qed

text \<open>C27: A sleeping task is woken: when the next requests are updates, the task at place \<open>j\<close> of the
  queue with deadline \<open>k\<close> is among the tasks woken by \<open>n\<close> of them as soon as \<open>n\<close> covers the ticks to the
  deadline (at least one update) and the \<open>j div 5\<close> updates that wake the tasks before it, five at a time.
  No update faults.\<close>

theorem clock_wakes_within:
  assumes "csq_rep (cs_csq s) ws" "j < length ws" "ws ! j = (i, k)" "\<not> cs_exit s" "IS_VALID_TID r"
    and "unat (cs_ticks s) + n < 2 ^ 32"
    and "max 1 (unat k - unat (cs_ticks s)) + j div CS_PROCESS_NUM \<le> n"
  shows "\<exists>s' woken. cs_updates n r s = Some (s', woken) \<and> of_nat i \<in> set woken"
  by (rule cs_updates_wake [OF assms])

theorem clock_wakes_within_witness:
  "\<exists>s s' woken. cs_handle (cs_start 2) 1 \<lparr>cr_type = CSREQ_DELAY, cr_tid = 1, cr_ticks = 1\<rparr> = Some (Some s, []) \<and>
     cs_updates 1 2 s = Some (s', woken) \<and> 1 \<in> set woken"
proof -
  obtain s where s: "cs_handle (cs_start 2) 1 \<lparr>cr_type = CSREQ_DELAY, cr_tid = 1, cr_ticks = 1\<rparr> = Some (Some s, [])"
    "csq_rep (cs_csq s) [(1, 1)]" "cs_ticks s = 0" "\<not> cs_exit s"
    by (rule clock_sleep_one)
  have v: "IS_VALID_TID 2" by (simp add: TID_ID_def IS_VALID_TID_def)
  obtain s' woken where "cs_updates 1 2 s = Some (s', woken)" "of_nat 1 \<in> set woken"
    using clock_wakes_within [OF s(2) _ _ s(4) v, of 0 1 1 1] s(3) by auto
  then show ?thesis using s(1) by fastforce
qed

end
