(* ===== verification/NameServer.thy ===== *)
theory NameServer
  imports CircBuf
begin

text \<open>
  The name server: lib/nameserver_store.c and user/nameserver.c. The store is the array of the
  registered tids; the server keeps, for each name, a circular buffer of the tasks that wait for it.
  One received request is a step: the new state (\<open>None\<close> when the server has exited) and the replies.
\<close>

section \<open>The store\<close>

abbreviation NS_MAX_ENTRY :: nat where "NS_MAX_ENTRY \<equiv> 64"
abbreviation NS_DNE :: u32 where "NS_DNE \<equiv> - 1"
abbreviation NS_EMPTY :: u32 where "NS_EMPTY \<equiv> - 2"
abbreviation NS_FULL :: u32 where "NS_FULL \<equiv> - 3"

(* src/include/lib/nameserver_store.h:13-16 *)
record ns_store =
  nss_entries :: "u32 list"
  nss_size :: int

(* src/src/lib/nameserver_store.c:4-9 *)
definition nss_init :: ns_store where
  "nss_init = \<lparr>nss_entries = replicate NS_MAX_ENTRY NS_DNE, nss_size = 0\<rparr>"

(* src/src/lib/nameserver_store.c:11-16 *)
definition nss_get :: "ns_store \<Rightarrow> int \<Rightarrow> u32 option" where
  "nss_get nss key = do {
     kassert (0 \<le> key \<and> key < int NS_MAX_ENTRY);
     if nss_size nss \<le> 0 then Some NS_EMPTY else agetz (nss_entries nss) key }"

(* src/src/lib/nameserver_store.c:18-26 *)
definition nss_set :: "ns_store \<Rightarrow> int \<Rightarrow> u32 \<Rightarrow> (u32 \<times> ns_store) option" where
  "nss_set nss key tid = do {
     kassert (0 \<le> key \<and> key < int NS_MAX_ENTRY);
     if nss_size nss = int NS_MAX_ENTRY - 1 then Some (NS_FULL, nss)
     else do {
       es \<leftarrow> asetz (nss_entries nss) key tid;
       Some (0, nss\<lparr>nss_size := nss_size nss + 1, nss_entries := es\<rparr>) } }"

section \<open>The server\<close>

abbreviation NS_Q :: nat where "NS_Q \<equiv> 5"

(* src/include/user/nameserver.h:12-16 *)
datatype ns_service = NS_WHOIS | NS_REGISTERAS | NS_STOP

(* src/include/user/nameserver.h:18-21 *)
record ns_req =
  nr_type :: ns_service
  nr_name :: int

(* src/src/user/nameserver.c:8-18 *)
record ns_state =
  ns_store :: ns_store
  ns_name_q :: "u32 cbuf list"

text \<open>The buffers start as whatever the stack holds; \<^verbatim>\<open>ns_q_init\<close> empties each.\<close>

(* src/src/user/nameserver.c:13-18 *)
definition ns_start :: "u32 cbuf list \<Rightarrow> ns_state" where
  "ns_start qs = \<lparr>ns_store = nss_init, ns_name_q = map cb_init qs\<rparr>"

text \<open>The loop of a registration: \<open>size\<close> pops, each answered with the new tid.\<close>

(* src/src/user/nameserver.c:40-44 *)
fun ns_drain :: "nat \<Rightarrow> u32 \<Rightarrow> u32 cbuf \<Rightarrow> ((u32 \<times> u32) list \<times> u32 cbuf) option" where
  "ns_drain 0 who q = Some ([], q)"
| "ns_drain (Suc i) who q = do {
     (r, tid, q) \<leftarrow> cb_pop NS_Q q;
     kassert (r = CB_E_NONE);
     tid \<leftarrow> tid;
     (out, q) \<leftarrow> ns_drain i who q;
     Some ((tid, who) # out, q) }"

(* src/src/user/nameserver.c:24-53 *)
definition ns_handle :: "ns_state \<Rightarrow> u32 \<Rightarrow> ns_req \<Rightarrow> (ns_state option \<times> (u32 \<times> u32) list) option" where
  "ns_handle s requestor req = (case nr_type req of
     NS_WHOIS \<Rightarrow> do {
       ret \<leftarrow> nss_get (ns_store s) (nr_name req);
       if ret = - 1 then do {
         q \<leftarrow> agetz (ns_name_q s) (nr_name req);
         (r, q) \<leftarrow> cb_push NS_Q requestor q;
         qs \<leftarrow> asetz (ns_name_q s) (nr_name req) q;
         kassert (r = CB_E_NONE);
         Some (Some (s\<lparr>ns_name_q := qs\<rparr>), []) }
       else do {
         kassert (0 \<le> sint ret);
         Some (Some s, [(requestor, ret)]) } }
   | NS_REGISTERAS \<Rightarrow> do {
       (ret, st) \<leftarrow> nss_set (ns_store s) (nr_name req) requestor;
       q \<leftarrow> agetz (ns_name_q s) (nr_name req);
       (out, q) \<leftarrow> ns_drain (nat (sint (cb_size q))) requestor q;
       qs \<leftarrow> asetz (ns_name_q s) (nr_name req) q;
       Some (Some \<lparr>ns_store = st, ns_name_q = qs\<rparr>, out @ [(requestor, ret)]) }
   | NS_STOP \<Rightarrow> Some (None, [(requestor, requestor)]))"

section \<open>The directory a state stands for\<close>

text \<open>\<open>ns_rep s c regs wait\<close>: \<open>c\<close> registrations have been made, \<open>regs\<close> has the tid of each registered
  name and \<open>wait\<close> the tasks that wait for each name, in the order they asked.\<close>

definition ns_rep :: "ns_state \<Rightarrow> nat \<Rightarrow> (nat \<Rightarrow> u32 option) \<Rightarrow> (nat \<Rightarrow> u32 list) \<Rightarrow> bool" where
  "ns_rep s c regs wait \<longleftrightarrow>
     nss_size (ns_store s) = int c \<and> length (nss_entries (ns_store s)) = NS_MAX_ENTRY \<and>
     length (ns_name_q s) = NS_MAX_ENTRY \<and>
     (\<forall>n<NS_MAX_ENTRY. nss_entries (ns_store s) ! n = (case regs n of None \<Rightarrow> NS_DNE | Some t \<Rightarrow> t) \<and>
        (\<forall>t. regs n = Some t \<longrightarrow> 0 \<le> sint t) \<and>
        cb_wf NS_Q (ns_name_q s ! n) \<and> cb_list NS_Q (ns_name_q s ! n) = wait n)"

lemma ns_start_rep:
  assumes "length qs = NS_MAX_ENTRY" "\<forall>q \<in> set qs. length (cb_buf q) = NS_Q"
  shows "ns_rep (ns_start qs) 0 (\<lambda>_. None) (\<lambda>_. [])"
  using assms by (auto simp: ns_rep_def ns_start_def nss_init_def cb_init_wf)

lemma ns_drain_ok:
  "cb_wf NS_Q q \<Longrightarrow> cb_list NS_Q q = xs \<Longrightarrow>
   \<exists>q'. ns_drain (length xs) who q = Some (map (\<lambda>t. (t, who)) xs, q') \<and> cb_wf NS_Q q' \<and> cb_list NS_Q q' = []"
proof (induction xs arbitrary: q)
  case (Cons x xs)
  obtain q1 where "cb_pop NS_Q q = Some (CB_E_NONE, Some x, q1)" "cb_wf NS_Q q1" "cb_list NS_Q q1 = xs"
    using cbq.pop_some [OF Cons.prems(1)] Cons.prems(2) by auto
  then show ?case using Cons.IH [of q1] by auto
qed simp

lemma ns_drain_all:
  assumes "cb_wf NS_Q q"
  shows "\<exists>q'. ns_drain (nat (sint (cb_size q))) who q = Some (map (\<lambda>t. (t, who)) (cb_list NS_Q q), q') \<and>
    cb_wf NS_Q q' \<and> cb_list NS_Q q' = []"
proof -
  have "nat (sint (cb_size q)) = length (cb_list NS_Q q)"
    using cb_wf_sint [OF assms] by simp
  then show ?thesis using ns_drain_ok [OF assms refl] by simp
qed

lemma ns_whois_known:
  assumes "ns_rep s c regs wait" "n < NS_MAX_ENTRY" "regs n = Some t" "0 < c"
  shows "ns_handle s r \<lparr>nr_type = NS_WHOIS, nr_name = int n\<rparr> = Some (Some s, [(r, t)])"
proof -
  have "nss_get (ns_store s) (int n) = Some t" "0 \<le> sint t" "t \<noteq> - 1"
    using assms by (auto simp: ns_rep_def nss_get_def agetz_def)
  then show ?thesis by (simp add: ns_handle_def)
qed

lemma ns_whois_waits:
  assumes "ns_rep s c regs wait" "n < NS_MAX_ENTRY" "regs n = None" "0 < c" "length (wait n) < NS_Q"
  shows "\<exists>s'. ns_handle s r \<lparr>nr_type = NS_WHOIS, nr_name = int n\<rparr> = Some (Some s', []) \<and>
    ns_rep s' c regs (wait(n := wait n @ [r]))"
proof -
  let ?q = "ns_name_q s ! n"
  have "nss_get (ns_store s) (int n) = Some (- 1)" and q: "cb_wf NS_Q ?q" "cb_list NS_Q ?q = wait n"
    using assms by (auto simp: ns_rep_def nss_get_def agetz_def)
  moreover obtain q' where "cb_push NS_Q r ?q = Some (CB_E_NONE, q')" "cb_wf NS_Q q'" "cb_list NS_Q q' = wait n @ [r]"
    using cbq.push_room [OF q(1), of r] assms(5) q(2) by auto
  ultimately show ?thesis
    using assms by (auto simp: ns_handle_def agetz_def asetz_def ns_rep_def nth_list_update)
qed

lemma ns_register_answers:
  assumes rep: "ns_rep s c regs wait" and n: "n < NS_MAX_ENTRY" and r: "0 \<le> sint r"
    and set: "nss_set (ns_store s) (int n) r = Some (ret, st)"
  shows "\<exists>q. cb_wf NS_Q q \<and> cb_list NS_Q q = [] \<and>
    ns_handle s r \<lparr>nr_type = NS_REGISTERAS, nr_name = int n\<rparr> =
      Some (Some \<lparr>ns_store = st, ns_name_q = (ns_name_q s)[n := q]\<rparr>, map (\<lambda>t. (t, r)) (wait n) @ [(r, ret)])"
proof -
  have q: "cb_wf NS_Q (ns_name_q s ! n)" "cb_list NS_Q (ns_name_q s ! n) = wait n" "n < length (ns_name_q s)"
    using rep n by (auto simp: ns_rep_def)
  then show ?thesis
    using ns_drain_all [OF q(1), of r] set by (auto simp: ns_handle_def agetz_def asetz_def)
qed

lemma ns_register_ok:
  assumes rep: "ns_rep s c regs wait" and n: "n < NS_MAX_ENTRY" and r: "0 \<le> sint r" and c: "c < NS_MAX_ENTRY - 1"
  shows "\<exists>s'. ns_handle s r \<lparr>nr_type = NS_REGISTERAS, nr_name = int n\<rparr> =
      Some (Some s', map (\<lambda>t. (t, r)) (wait n) @ [(r, 0)]) \<and>
    ns_rep s' (c + 1) (regs(n \<mapsto> r)) (wait(n := []))"
proof -
  let ?st = "(ns_store s)\<lparr>nss_size := int c + 1, nss_entries := (nss_entries (ns_store s))[n := r]\<rparr>"
  have "nss_set (ns_store s) (int n) r = Some (0, ?st)"
    using rep n c by (auto simp: nss_set_def ns_rep_def asetz_def)
  then show ?thesis
    using ns_register_answers [OF rep n r] rep n r by (fastforce simp: ns_rep_def nth_list_update)
qed

lemma ns_register_full:
  assumes rep: "ns_rep s (NS_MAX_ENTRY - 1) regs wait" and n: "n < NS_MAX_ENTRY" and r: "0 \<le> sint r"
  shows "\<exists>s'. ns_handle s r \<lparr>nr_type = NS_REGISTERAS, nr_name = int n\<rparr> =
      Some (Some s', map (\<lambda>t. (t, r)) (wait n) @ [(r, NS_FULL)]) \<and>
    ns_rep s' (NS_MAX_ENTRY - 1) regs (wait(n := []))"
proof -
  have "nss_set (ns_store s) (int n) r = Some (NS_FULL, ns_store s)"
    using rep n by (auto simp: nss_set_def ns_rep_def)
  then show ?thesis
    using ns_register_answers [OF rep n r] rep n r by (fastforce simp: ns_rep_def nth_list_update)
qed

section \<open>Runs of the server refine a directory\<close>

text \<open>The specification: a directory of the registered names with its waiting tasks. It is undefined
  (\<open>None\<close>) where the server has no room (63 registrations, five waiting tasks), before the first
  registration and for a stop.\<close>

record directory =
  d_count :: nat
  d_regs :: "nat \<Rightarrow> u32 option"
  d_wait :: "nat \<Rightarrow> u32 list"

definition dir_step :: "directory \<Rightarrow> u32 \<Rightarrow> ns_req \<Rightarrow> (directory \<times> (u32 \<times> u32) list) option" where
  "dir_step d r req = (let n = nat (nr_name req) in
     if nr_name req < 0 \<or> NS_MAX_ENTRY \<le> n \<or> sint r < 0 then None
     else case nr_type req of
       NS_WHOIS \<Rightarrow>
         if d_count d = 0 then None
         else (case d_regs d n of
             Some t \<Rightarrow> Some (d, [(r, t)])
           | None \<Rightarrow> if length (d_wait d n) < NS_Q then Some (d\<lparr>d_wait := (d_wait d)(n := d_wait d n @ [r])\<rparr>, []) else None)
     | NS_REGISTERAS \<Rightarrow>
         if d_count d < NS_MAX_ENTRY - 1
         then Some (d\<lparr>d_count := d_count d + 1, d_regs := (d_regs d)(n \<mapsto> r), d_wait := (d_wait d)(n := [])\<rparr>,
                map (\<lambda>t. (t, r)) (d_wait d n) @ [(r, 0)])
         else None
     | NS_STOP \<Rightarrow> None)"

fun dir_run :: "directory \<Rightarrow> (u32 \<times> ns_req) list \<Rightarrow> (directory \<times> (u32 \<times> u32) list) option" where
  "dir_run d [] = Some (d, [])"
| "dir_run d ((r, req) # reqs) = do { (d, out) \<leftarrow> dir_step d r req; (d, out') \<leftarrow> dir_run d reqs; Some (d, out @ out') }"

fun ns_run :: "ns_state \<Rightarrow> (u32 \<times> ns_req) list \<Rightarrow> (ns_state \<times> (u32 \<times> u32) list) option" where
  "ns_run s [] = Some (s, [])"
| "ns_run s ((r, req) # reqs) = do {
     (s, out) \<leftarrow> ns_handle s r req; s \<leftarrow> s; (s, out') \<leftarrow> ns_run s reqs; Some (s, out @ out') }"

definition dir_rep :: "ns_state \<Rightarrow> directory \<Rightarrow> bool" where
  "dir_rep s d = ns_rep s (d_count d) (d_regs d) (d_wait d)"

lemma dir_step_refines:
  assumes rep: "dir_rep s d" and step: "dir_step d r req = Some (d', out)"
  shows "\<exists>s'. ns_handle s r req = Some (Some s', out) \<and> dir_rep s' d'"
proof -
  obtain ty k where req: "req = \<lparr>nr_type = ty, nr_name = k\<rparr>" by (cases req) auto
  have "0 \<le> k" using step unfolding req dir_step_def by (auto simp: Let_def split: if_splits)
  then obtain n where k: "k = int n" by (metis nonneg_int_cases)
  note st = step [unfolded req k dir_step_def, simplified]
  have n: "n < NS_MAX_ENTRY" and r: "0 \<le> sint r" using st by (auto split: if_splits)
  note rep' = rep [unfolded dir_rep_def]
  show ?thesis
  proof (cases ty)
    case NS_WHOIS
    then have c: "0 < d_count d" using st by (auto split: if_splits)
    show ?thesis
    proof (cases "d_regs d n")
      case None
      then have "length (d_wait d n) < NS_Q" "out = []" "d' = d\<lparr>d_wait := (d_wait d)(n := d_wait d n @ [r])\<rparr>"
        using st NS_WHOIS by (auto split: if_splits)
      then show ?thesis
        using ns_whois_waits [OF rep' n None c] unfolding req k NS_WHOIS by (simp add: dir_rep_def)
    next
      case (Some t)
      then have "out = [(r, t)]" "d' = d" using st NS_WHOIS by (auto split: if_splits)
      then show ?thesis
        using ns_whois_known [OF rep' n Some c] rep unfolding req k NS_WHOIS by simp
    qed
  next
    case NS_REGISTERAS
    then have "d_count d < NS_MAX_ENTRY - 1" "out = map (\<lambda>t. (t, r)) (d_wait d n) @ [(r, 0)]"
      "d' = d\<lparr>d_count := d_count d + 1, d_regs := (d_regs d)(n \<mapsto> r), d_wait := (d_wait d)(n := [])\<rparr>"
      using st by (auto split: if_splits)
    then show ?thesis
      using ns_register_ok [OF rep' n r] unfolding req k NS_REGISTERAS by (simp add: dir_rep_def)
  next
    case NS_STOP
    then show ?thesis using st by (auto split: if_splits)
  qed
qed

lemma dir_run_refines:
  "dir_rep s d \<Longrightarrow> dir_run d reqs = Some (d', out) \<Longrightarrow> \<exists>s'. ns_run s reqs = Some (s', out) \<and> dir_rep s' d'"
proof (induction reqs arbitrary: s d out)
  case (Cons x reqs)
  obtain r req where x: "x = (r, req)" by fastforce
  obtain d1 out1 out2 where run: "dir_step d r req = Some (d1, out1)" "dir_run d1 reqs = Some (d', out2)" "out = out1 @ out2"
    using Cons.prems(2) x by (auto simp: fault_eq)
  obtain s1 where s1: "ns_handle s r req = Some (Some s1, out1)" "dir_rep s1 d1"
    using dir_step_refines [OF Cons.prems(1) run(1)] by blast
  then show ?case using Cons.IH [OF s1(2) run(2)] run(3) x by auto
qed simp

definition dir_empty :: directory where
  "dir_empty = \<lparr>d_count = 0, d_regs = \<lambda>_. None, d_wait = \<lambda>_. []\<rparr>"

section \<open>Properties\<close>

text \<open>C28: The name server implements the directory: on every sequence of requests the directory
  serves (names in range, a registration first, at most 63 registrations, at most five tasks waiting for
  a name), the server faults on none and sends the directory's replies in its order: a registered
  name is answered at once with the tid last registered, an unregistered one when it is registered.\<close>

theorem name_server_refines:
  assumes "length qs = NS_MAX_ENTRY" "\<forall>q \<in> set qs. length (cb_buf q) = NS_Q"
    and "dir_run dir_empty reqs = Some (d, out)"
  shows "\<exists>s. ns_run (ns_start qs) reqs = Some (s, out) \<and> dir_rep s d"
  by (rule dir_run_refines [OF _ assms(3)])
    (use ns_start_rep [OF assms(1,2)] in \<open>simp add: dir_rep_def dir_empty_def\<close>)

text \<open>Task 5 registers name 3; 6 asks for name 4 and waits, 7 asks for name 3 and is answered; 8 registers
  name 4, which answers 6.\<close>

theorem name_server_refines_witness:
  "\<exists>s. ns_run (ns_start (replicate NS_MAX_ENTRY \<lparr>cb_buf = replicate NS_Q 0, cb_start = 9, cb_end = 9, cb_size = 9\<rparr>))
     [(5, \<lparr>nr_type = NS_REGISTERAS, nr_name = 3\<rparr>), (6, \<lparr>nr_type = NS_WHOIS, nr_name = 4\<rparr>),
      (7, \<lparr>nr_type = NS_WHOIS, nr_name = 3\<rparr>), (8, \<lparr>nr_type = NS_REGISTERAS, nr_name = 4\<rparr>)] =
     Some (s, [(5, 0), (7, 5), (6, 8), (8, 0)])"
proof -
  let ?qs = "replicate NS_MAX_ENTRY \<lparr>cb_buf = replicate NS_Q (0 :: u32), cb_start = 9, cb_end = 9, cb_size = 9\<rparr>"
  let ?reqs = "[(5, \<lparr>nr_type = NS_REGISTERAS, nr_name = 3\<rparr>), (6, \<lparr>nr_type = NS_WHOIS, nr_name = 4\<rparr>),
      (7, \<lparr>nr_type = NS_WHOIS, nr_name = 3\<rparr>), (8, \<lparr>nr_type = NS_REGISTERAS, nr_name = 4\<rparr>)]"
  have "\<exists>d. dir_run dir_empty ?reqs = Some (d, [(5, 0), (7, 5), (6, 8), (8, 0)])"
    by (simp add: dir_empty_def dir_step_def)
  then obtain d where "dir_run dir_empty ?reqs = Some (d, [(5, 0), (7, 5), (6, 8), (8, 0)])" by blast
  then show ?thesis using name_server_refines [of ?qs ?reqs d] by auto
qed

text \<open>Where the directory ends: before the first registration every WhoIs fails an assertion of the
  server (the store answers -2, not -1), and after 63 registrations (of the same name or not) a
  registration is refused, yet every task that waits for the name is answered with the refused task's
  tid, and later callers wait again.\<close>

theorem name_server_limits:
  assumes "length qs = NS_MAX_ENTRY" "n < NS_MAX_ENTRY" "0 \<le> sint r" "ns_rep s (NS_MAX_ENTRY - 1) regs wait"
  shows "ns_handle (ns_start qs) r \<lparr>nr_type = NS_WHOIS, nr_name = int n\<rparr> = None \<and>
    (\<exists>s'. ns_handle s r \<lparr>nr_type = NS_REGISTERAS, nr_name = int n\<rparr> =
        Some (Some s', map (\<lambda>t. (t, r)) (wait n) @ [(r, NS_FULL)]) \<and>
      ns_rep s' (NS_MAX_ENTRY - 1) regs (wait(n := [])))"
proof
  show "ns_handle (ns_start qs) r \<lparr>nr_type = NS_WHOIS, nr_name = int n\<rparr> = None"
    using assms(2) by (simp add: ns_handle_def ns_start_def nss_get_def nss_init_def)
qed (rule ns_register_full [OF assms(4,2,3)])

lemma name_server_full:
  obtains s where "ns_rep s (NS_MAX_ENTRY - 1) (\<lambda>n. if n = 3 then Some 5 else None) (\<lambda>_. [])"
proof -
  have "ns_rep (ns_start (replicate NS_MAX_ENTRY \<lparr>cb_buf = replicate NS_Q 0, cb_start = 0, cb_end = 0, cb_size = 0\<rparr>))
      0 (\<lambda>_. None) (\<lambda>_. [])"
    by (rule ns_start_rep) simp_all
  then have "\<exists>s. ns_rep s 1 (\<lambda>n. if n = 3 then Some 5 else None) (\<lambda>_. [])"
    using ns_register_ok [of _ 0 "\<lambda>_. None" "\<lambda>_. []" 3 5] by (fastforce simp: fun_upd_def)
  then have "\<exists>s. ns_rep s (1 + k) (\<lambda>n. if n = 3 then Some 5 else None) (\<lambda>_. [])" if "k < NS_MAX_ENTRY - 1" for k
    using that
  proof (induction k)
    case (Suc k)
    then obtain s where s: "ns_rep s (1 + k) (\<lambda>n. if n = 3 then Some 5 else None) (\<lambda>_. [])" by auto
    have "(\<lambda>n. if n = 3 then Some 5 else None)(3 \<mapsto> 5 :: u32) = (\<lambda>n :: nat. if n = 3 then Some 5 else None)" "(\<lambda>_. [])(3 := []) = (\<lambda>_ :: nat. [] :: u32 list)"
      by auto
    then show ?case using ns_register_ok [OF s, of 3 5] Suc.prems by auto
  qed simp
  from this [of "NS_MAX_ENTRY - 2"] show thesis using that by (auto simp: numeral_eq_Suc)
qed

theorem name_server_limits_witness:
  "\<exists>s s'. ns_rep s (NS_MAX_ENTRY - 1) (\<lambda>n. if n = 3 then Some 5 else None) (\<lambda>_. []) \<and>
     ns_handle s 9 \<lparr>nr_type = NS_REGISTERAS, nr_name = 4\<rparr> = Some (Some s', [(9, NS_FULL)])"
proof -
  obtain s where s: "ns_rep s (NS_MAX_ENTRY - 1) (\<lambda>n. if n = 3 then Some 5 else None) (\<lambda>_. [])"
    by (rule name_server_full)
  let ?qs = "replicate NS_MAX_ENTRY \<lparr>cb_buf = replicate NS_Q (0 :: u32), cb_start = 0, cb_end = 0, cb_size = 0\<rparr>"
  show ?thesis using name_server_limits [of ?qs 4 9, OF _ _ _ s] s by (fastforce simp del: One_nat_def)
qed

end
