(* ===== verification/Reservation.thy ===== *)
theory Reservation
  imports PathTheorems
begin

text \<open>
  Track reservations, lib/train/reservation.c, and the reservation manager's step,
  user/train/reservation_manager.c. A \<^verbatim>\<open>pather\<close> holds copies of the track's nodes, one reservation per
  node and a count per train. The copies' edges and reverses still point at the nodes of the
  original track, so the model keeps both: \<open>t\<close> is the original, which the node pointers of every
  operation refer to (the driver passes the positions of its trains, nodes of the original), and \<open>pr_track\<close> the copies.
\<close>

section \<open>Data\<close>

(* src/include/lib/train/reservation.h:14-17 *)
record reservation =
  rv_train :: int
  rv_reserved :: bool

(* src/include/lib/train/reservation.h:19-23 *)
record pather =
  pr_track :: track
  pr_reserv :: "reservation list"
  pr_nreservs :: "int list"

abbreviation TRAIN_MAX :: nat where "TRAIN_MAX \<equiv> 81"
abbreviation PATHER_Q_SIZE :: nat where "PATHER_Q_SIZE \<equiv> TRACK_MAX"

(* src/src/lib/train/reservation.c:5-8 *)
definition reserv_init :: reservation where
  "reserv_init = \<lparr>rv_train = - 1, rv_reserved = False\<rparr>"

(* src/src/lib/train/reservation.c:10-22 *)
definition pather_init :: "track \<Rightarrow> pather option" where
  "pather_init t = (if TRACK_MAX \<le> length t
     then Some \<lparr>pr_track = map (\<lambda>n. n\<lparr>n_reserver := - 1\<rparr>) (take TRACK_MAX t),
                pr_reserv = replicate TRACK_MAX reserv_init, pr_nreservs = replicate TRAIN_MAX 0\<rparr>
     else None)"

section \<open>The regions\<close>

text \<open>The queues are \<^verbatim>\<open>tn_q\<close>, circular buffers of \<open>PATHER_Q_SIZE\<close> node pointers; a push that fails is a
  failed assertion. The four searches share the step that follows the edges of a node: \<open>f\<close> is the
  entry that is written for the next node in \<^verbatim>\<open>dist\<close> or \<^verbatim>\<open>prev\<close>.\<close>

definition tn_q_empty :: "node_ptr cbuf" where
  "tn_q_empty = cb_init \<lparr>cb_buf = replicate PATHER_Q_SIZE None, cb_start = 0, cb_end = 0, cb_size = 0\<rparr>"

definition tn_visit :: "track \<Rightarrow> (track_edge \<Rightarrow> scratch \<Rightarrow> int option) \<Rightarrow> nat \<Rightarrow> track_node \<Rightarrow>
    scratch \<times> node_ptr cbuf \<Rightarrow> (scratch \<times> node_ptr cbuf) option" where
  "tn_visit t f dir n = (\<lambda>(a, q). do {
     e \<leftarrow> aget (n_edge n) dir;
     m \<leftarrow> node_at t (e_dest e);
     v \<leftarrow> f e a;
     a \<leftarrow> asetz a (n_id m) (Some v);
     (r, q) \<leftarrow> cb_push PATHER_Q_SIZE (e_dest e) q;
     kassert (r = CB_E_NONE);
     Some (a, q) })"

(* src/src/lib/train/reservation.c:45-63 *)
definition tn_expand :: "track \<Rightarrow> (track_edge \<Rightarrow> scratch \<Rightarrow> int option) \<Rightarrow> track_node \<Rightarrow>
    scratch \<times> node_ptr cbuf \<Rightarrow> (scratch \<times> node_ptr cbuf) option" where
  "tn_expand t f n s =
     (if n_type n = NODE_BRANCH then do { s \<leftarrow> tn_visit t f DIR_CURVED n s; tn_visit t f DIR_STRAIGHT n s }
      else if n_type n = NODE_EXIT then Some s
      else tn_visit t f DIR_AHEAD n s)"

definition add_dist :: "track_node \<Rightarrow> track_edge \<Rightarrow> scratch \<Rightarrow> int option" where
  "add_dist n e a = do { v \<leftarrow> rd_scratch a (n_id n); Some (e_dist e + v) }"

definition tn_start :: "track \<Rightarrow> node_ptr \<Rightarrow> int \<Rightarrow> (scratch \<times> node_ptr cbuf) option" where
  "tn_start t node v = do {
     n \<leftarrow> node_at t node;
     a \<leftarrow> asetz (replicate TRACK_MAX None) (n_id n) (Some v);
     (_, q) \<leftarrow> cb_push PATHER_Q_SIZE node tn_q_empty;
     Some (a, q) }"

text \<open>The loops have no counter: \<open>None\<close> is also their value when they do not end. The push to the
  result is not checked: a full result drops the node.\<close>

(* src/src/lib/train/reservation.c:36-64 *)
partial_function (option) get_all_nodes_loop ::
    "track \<Rightarrow> int \<Rightarrow> scratch \<Rightarrow> node_ptr cbuf \<Rightarrow> node_ptr cbuf \<Rightarrow> node_ptr cbuf option" where
  "get_all_nodes_loop t max_dist a q nodes =
     (if 0 < cb_size q then do {
        (r, x, q) \<leftarrow> cb_pop PATHER_Q_SIZE q;
        kassert (r = CB_E_NONE);
        node \<leftarrow> x;
        n \<leftarrow> node_at t node;
        d \<leftarrow> rd_scratch a (n_id n);
        if max_dist < d then get_all_nodes_loop t max_dist a q nodes
        else do {
          (_, nodes) \<leftarrow> cb_push PATHER_Q_SIZE node nodes;
          (a, q) \<leftarrow> tn_expand t (add_dist n) n (a, q);
          get_all_nodes_loop t max_dist a q nodes }}
      else Some nodes)"

(* src/src/lib/train/reservation.c:24-67 *)
definition get_all_nodes_in_dist :: "track \<Rightarrow> node_ptr \<Rightarrow> int \<Rightarrow> node_ptr cbuf option" where
  "get_all_nodes_in_dist t node max_dist = do {
     (a, q) \<leftarrow> tn_start t node 0;
     get_all_nodes_loop t max_dist a q tn_q_empty }"

(* src/src/lib/train/reservation.c:83-114 *)
partial_function (option) get_all_to_sen_loop ::
    "track \<Rightarrow> int \<Rightarrow> scratch \<Rightarrow> node_ptr cbuf \<Rightarrow> node_ptr cbuf \<Rightarrow> node_ptr cbuf option" where
  "get_all_to_sen_loop t min_dist a q nodes =
     (if 0 < cb_size q then do {
        (r, x, q) \<leftarrow> cb_pop PATHER_Q_SIZE q;
        kassert (r = CB_E_NONE);
        node \<leftarrow> x;
        n \<leftarrow> node_at t node;
        stop \<leftarrow> (if n_type n = NODE_SENSOR then do { d \<leftarrow> rd_scratch a (n_id n); Some (min_dist < d) } else Some False);
        if stop then get_all_to_sen_loop t min_dist a q nodes
        else do {
          (_, nodes) \<leftarrow> cb_push PATHER_Q_SIZE node nodes;
          (a, q) \<leftarrow> tn_expand t (add_dist n) n (a, q);
          get_all_to_sen_loop t min_dist a q nodes }}
      else Some nodes)"

(* src/src/lib/train/reservation.c:71-117 *)
definition get_all_to_sen_in_dist :: "track \<Rightarrow> node_ptr \<Rightarrow> int \<Rightarrow> node_ptr cbuf option" where
  "get_all_to_sen_in_dist t node min_dist = do {
     (a, q) \<leftarrow> tn_start t node 0;
     get_all_to_sen_loop t min_dist a q tn_q_empty }"

section \<open>Reserving and freeing\<close>

(* src/src/lib/train/reservation.c:120-126 *)
definition reservation_reserve :: "reservation \<Rightarrow> int \<Rightarrow> reservation" where
  "reservation_reserve r trn = r\<lparr>rv_reserved := True, rv_train := trn\<rparr>"

(* src/src/lib/train/reservation.c:128-134 *)
definition reservation_free :: "reservation \<Rightarrow> int \<Rightarrow> reservation" where
  "reservation_free r trn = r\<lparr>rv_reserved := False, rv_train := - 1\<rparr>"

definition dest_reverse :: "track \<Rightarrow> track_node \<Rightarrow> nat \<Rightarrow> node_ptr option" where
  "dest_reverse t n dir = do { e \<leftarrow> aget (n_edge n) dir; m \<leftarrow> node_at t (e_dest e); Some (n_reverse m) }"

text \<open>The nodes that \<^verbatim>\<open>pather_reserve_node\<close> and \<^verbatim>\<open>pather_free_node\<close> change for a node, in their order. They
  change no edge, no reverse, no type, so the pointers are read once, before the changes.\<close>

(* src/src/lib/train/reservation.c:149-187 *)
definition res_zone :: "track \<Rightarrow> node_ptr \<Rightarrow> node_ptr list option" where
  "res_zone t tn = do {
     n \<leftarrow> node_at t tn;
     if n_type n = NODE_BRANCH then do {
       s \<leftarrow> dest_reverse t n DIR_STRAIGHT;
       c \<leftarrow> dest_reverse t n DIR_CURVED;
       Some [tn, s, c] }
     else if n_type n = NODE_EXIT then Some [tn]
     else do {
       e \<leftarrow> aget (n_edge n) DIR_AHEAD;
       m \<leftarrow> node_at t (e_dest e);
       if n_type m = NODE_MERGE then do {
         b \<leftarrow> node_at t (n_reverse m);
         c \<leftarrow> dest_reverse t b DIR_CURVED;
         s \<leftarrow> dest_reverse t b DIR_STRAIGHT;
         Some [n_reverse m, c, s] }
       else Some [tn, n_reverse m] } }"

text \<open>\<^verbatim>\<open>x->reserver = v; r = &p->reserv[x->id]; \<close>and the change of \<^verbatim>\<open>*r\<close>, for each node of the zone.\<close>

(* src/src/lib/train/reservation.c:168-171 *)
fun mark_nodes :: "int \<Rightarrow> (reservation \<Rightarrow> reservation) \<Rightarrow> node_ptr list \<Rightarrow> track \<Rightarrow> reservation list \<Rightarrow>
    (track \<times> reservation list) option" where
  "mark_nodes v f [] t rs = Some (t, rs)"
| "mark_nodes v f (x # xs) t rs = do {
     i \<leftarrow> x;
     n \<leftarrow> aget t i;
     t \<leftarrow> aset t i (n\<lparr>n_reserver := v\<rparr>);
     r \<leftarrow> agetz rs (n_id n);
     rs \<leftarrow> asetz rs (n_id n) (f r);
     mark_nodes v f xs t rs }"

(* src/src/lib/train/reservation.c:137-191 *)
definition pather_reserve_node :: "track \<Rightarrow> pather \<Rightarrow> int \<Rightarrow> node_ptr \<Rightarrow> (int \<times> track \<times> pather) option" where
  "pather_reserve_node t p trn tn = do {
     n \<leftarrow> node_at t tn;
     r \<leftarrow> agetz (pr_reserv p) (n_id n);
     if rv_reserved r \<and> rv_train r \<noteq> trn then Some (- 1, t, p)
     else if rv_reserved r then Some (0, t, p)
     else do {
       zone \<leftarrow> res_zone t tn;
       (t, rs) \<leftarrow> mark_nodes trn (\<lambda>r. reservation_reserve r trn) zone t (pr_reserv p);
       k \<leftarrow> agetz (pr_nreservs p) trn;
       ks \<leftarrow> asetz (pr_nreservs p) trn (k + 1);
       Some (0, t, p\<lparr>pr_reserv := rs, pr_nreservs := ks\<rparr>) } }"

(* src/src/lib/train/reservation.c:193-248 *)
definition pather_free_node :: "track \<Rightarrow> pather \<Rightarrow> int \<Rightarrow> node_ptr \<Rightarrow> (int \<times> track \<times> pather) option" where
  "pather_free_node t p trn tn = do {
     n \<leftarrow> node_at t tn;
     r \<leftarrow> agetz (pr_reserv p) (n_id n);
     if rv_reserved r \<and> rv_train r \<noteq> trn then Some (- 1, t, p)
     else if \<not> rv_reserved r then Some (- 2, t, p)
     else do {
       zone \<leftarrow> res_zone t tn;
       (t, rs) \<leftarrow> mark_nodes (- 1) (\<lambda>r. reservation_free r trn) zone t (pr_reserv p);
       k \<leftarrow> agetz (pr_nreservs p) trn;
       ks \<leftarrow> asetz (pr_nreservs p) trn (k - 1);
       Some (0, t, p\<lparr>pr_reserv := rs, pr_nreservs := ks\<rparr>) } }"

text \<open>The two loops over the nodes of a region. \<^verbatim>\<open>tn_q_get\<close> leaves \<^verbatim>\<open>tn\<close> as it was when it fails, which
  it does not for an index below the size.\<close>

(* src/src/lib/train/reservation.c:260-268 *)
function reserve_nodes :: "node_ptr cbuf \<Rightarrow> nat \<Rightarrow> track \<Rightarrow> pather \<Rightarrow> int \<Rightarrow> (int \<times> track \<times> pather) option" where
  "reserve_nodes nodes i t p trn =
     (if i < unat (cb_size nodes) then do {
        (_, tn) \<leftarrow> cb_get PATHER_Q_SIZE (int i) nodes;
        tn \<leftarrow> tn;
        (r, t, p) \<leftarrow> pather_reserve_node t p trn tn;
        if r \<noteq> 0 then Some (- 1, t, p) else reserve_nodes nodes (Suc i) t p trn }
      else Some (0, t, p))"
  by pat_completeness auto
termination
  by (relation "measure (\<lambda>(nodes, i, t, p, trn). unat (cb_size nodes) - i)") auto

declare reserve_nodes.simps [simp del]

(* src/src/lib/train/reservation.c:253-269 *)
definition pather_reserve_to_sensor :: "track \<Rightarrow> pather \<Rightarrow> int \<Rightarrow> node_ptr \<Rightarrow> int \<Rightarrow> (int \<times> track \<times> pather) option" where
  "pather_reserve_to_sensor t p trn next_pos dist = do {
     nodes \<leftarrow> get_all_to_sen_in_dist t next_pos dist;
     reserve_nodes nodes 0 t p trn }"

(* src/src/lib/train/reservation.c:283-301 *)
function reserve_plain :: "track \<Rightarrow> node_ptr cbuf \<Rightarrow> nat \<Rightarrow> pather \<Rightarrow> int \<Rightarrow> (int \<times> pather) option" where
  "reserve_plain t nodes i p trn =
     (if i < unat (cb_size nodes) then do {
        (_, tn) \<leftarrow> cb_get PATHER_Q_SIZE (int i) nodes;
        tn \<leftarrow> tn;
        n \<leftarrow> node_at t tn;
        r \<leftarrow> agetz (pr_reserv p) (n_id n);
        if rv_reserved r \<and> rv_train r \<noteq> trn then Some (- 1, p)
        else if rv_reserved r then reserve_plain t nodes (Suc i) p trn
        else do {
          rs \<leftarrow> asetz (pr_reserv p) (n_id n) \<lparr>rv_train = trn, rv_reserved = True\<rparr>;
          k \<leftarrow> agetz (pr_nreservs p) trn;
          ks \<leftarrow> asetz (pr_nreservs p) trn (k + 1);
          reserve_plain t nodes (Suc i) (p\<lparr>pr_reserv := rs, pr_nreservs := ks\<rparr>) trn }}
      else Some (0, p))"
  by pat_completeness auto
termination
  by (relation "measure (\<lambda>(t, nodes, i, p, trn). unat (cb_size nodes) - i)") auto

declare reserve_plain.simps [simp del]

(* src/src/lib/train/reservation.c:275-302 *)
definition pather_reserve :: "track \<Rightarrow> pather \<Rightarrow> int \<Rightarrow> node_ptr \<Rightarrow> int \<Rightarrow> (int \<times> pather) option" where
  "pather_reserve t p trn next_pos dist = do {
     nodes \<leftarrow> get_all_nodes_in_dist t next_pos dist;
     reserve_plain t nodes 0 p trn }"

text \<open>The array \<^verbatim>\<open>prev\<close> of the next two is written and never read; its entries are the nodes' ids here, -1
  for \<^verbatim>\<open>NULL\<close>.\<close>

definition set_prev :: "track_node \<Rightarrow> track_edge \<Rightarrow> scratch \<Rightarrow> int option" where
  "set_prev n e a = Some (n_id n)"

(* src/src/lib/train/reservation.c:319-347 *)
partial_function (option) get_all_res_loop ::
    "track \<Rightarrow> pather \<Rightarrow> node_ptr \<Rightarrow> scratch \<Rightarrow> node_ptr cbuf \<Rightarrow> node_ptr cbuf \<Rightarrow> node_ptr cbuf option" where
  "get_all_res_loop t p ignore a q nodes =
     (if 0 < cb_size q then do {
        (r, x, q) \<leftarrow> cb_pop PATHER_Q_SIZE q;
        kassert (r = CB_E_NONE);
        node \<leftarrow> x;
        n \<leftarrow> node_at t node;
        rv \<leftarrow> agetz (pr_reserv p) (n_id n);
        if node = ignore \<or> \<not> rv_reserved rv then get_all_res_loop t p ignore a q nodes
        else do {
          (_, nodes) \<leftarrow> cb_push PATHER_Q_SIZE node nodes;
          (a, q) \<leftarrow> tn_expand t (set_prev n) n (a, q);
          get_all_res_loop t p ignore a q nodes }}
      else Some nodes)"

(* src/src/lib/train/reservation.c:307-350 *)
definition pather_get_all_res_nodes :: "track \<Rightarrow> pather \<Rightarrow> node_ptr \<Rightarrow> node_ptr \<Rightarrow> node_ptr cbuf option" where
  "pather_get_all_res_nodes t p node ignore = do {
     (a, q) \<leftarrow> tn_start t node (- 1);
     get_all_res_loop t p ignore a q tn_q_empty }"

(* src/src/lib/train/reservation.c:364-393 *)
partial_function (option) free_nodes_loop ::
    "int \<Rightarrow> int \<Rightarrow> scratch \<Rightarrow> node_ptr cbuf \<Rightarrow> track \<Rightarrow> pather \<Rightarrow> (int \<times> track \<times> pather) option" where
  "free_nodes_loop trn ret a q t p =
     (if 0 < cb_size q then do {
        (r, x, q) \<leftarrow> cb_pop PATHER_Q_SIZE q;
        kassert (r = CB_E_NONE);
        node \<leftarrow> x;
        n \<leftarrow> node_at t node;
        rv \<leftarrow> agetz (pr_reserv p) (n_id n);
        if \<not> rv_reserved rv then free_nodes_loop trn ret a q t p
        else do {
          (r, t, p) \<leftarrow> pather_free_node t p trn node;
          let ret = (if r \<noteq> 0 then r else ret);
          (a, q) \<leftarrow> tn_expand t (set_prev n) n (a, q);
          free_nodes_loop trn ret a q t p }}
      else Some (ret, t, p))"

(* src/src/lib/train/reservation.c:352-396 *)
definition pather_free_nodes :: "track \<Rightarrow> pather \<Rightarrow> int \<Rightarrow> node_ptr \<Rightarrow> (int \<times> track \<times> pather) option" where
  "pather_free_nodes t p trn node = do {
     (a, q) \<leftarrow> tn_start t node (- 1);
     free_nodes_loop trn 0 a q t p }"

(* src/src/lib/train/reservation.c:401-406 *)
definition pather_free_before :: "track \<Rightarrow> pather \<Rightarrow> int \<Rightarrow> node_ptr \<Rightarrow> (int \<times> track \<times> pather) option" where
  "pather_free_before t p trn node = do {
     n \<leftarrow> node_at t node;
     rv \<leftarrow> agetz (pr_reserv p) (n_id n);
     if \<not> rv_reserved rv then Some (- 1, t, p) else pather_free_nodes t p trn (n_reverse n) }"

section \<open>The search with reservations\<close>

text \<open>The search of \<open>PathFinding\<close> on the copies, with one more assertion: a node that is taken from the
  queue and is another train's is a failed assertion.\<close>

(* src/src/lib/train/reservation.c:449-452 *)
definition unreserved_edges :: "int \<Rightarrow> track_node \<Rightarrow> nat list option" where
  "unreserved_edges trnum n = (if n_reserver n \<noteq> - 1 \<and> n_reserver n \<noteq> trnum then None else all_edges n)"

(* src/src/lib/train/reservation.c:409-466 *)
definition res_path_find :: "tp_queue \<Rightarrow> track \<Rightarrow> node_ptr \<Rightarrow> node_ptr \<Rightarrow> int list \<Rightarrow> int \<Rightarrow> int list option" where
  "res_path_find q t s d prev trnum = do {
     st \<leftarrow> path_search (unreserved_edges trnum) t s d prev q;
     Some (d_prev st) }"

(* src/src/lib/train/reservation.c:468-496 *)
definition pather_generate :: "tp_queue \<Rightarrow> path \<Rightarrow> int \<Rightarrow> (int \<times> path) option" where
  "pather_generate q p trn = do {
     ne \<leftarrow> node_at (p_track p) (p_end p);
     pred \<leftarrow> res_path_find q (p_track p) (p_start p) (p_end p) (p_pred p) trn;
     let p = p\<lparr>p_pred := pred\<rparr>;
     buf \<leftarrow> aset (replicate TRACK_MAX None) 0 (Some (n_id ne));
     i \<leftarrow> agetz pred (n_id ne);
     (buf, n) \<leftarrow> path_collect pred i buf 1;
     p \<leftarrow> path_push_all buf n p;
     if cb_size (p_ahead p) < 2 then Some (- 1, p) else Some (0, p\<lparr>p_ready := True\<rparr>) }"

(* src/src/lib/train/reservation.c:499-502 *)
definition pather_path :: "tp_queue \<Rightarrow> pather \<Rightarrow> path \<Rightarrow> int \<Rightarrow> (int \<times> path) option" where
  "pather_path q pr p trn = pather_generate q (p\<lparr>p_track := pr_track pr\<rparr>) trn"

section \<open>The reservation manager\<close>

(* src/include/user/train/reservation_manager.h:9-13 *)
datatype rm_req_type = RM_RESERVE | RM_FREE | RM_GEN

(* src/include/user/train/reservation_manager.h:15-21 *)
record rm_req =
  rm_type :: rm_req_type
  rm_tr_num :: int
  rm_node :: node_ptr
  rm_dist :: int
  rm_p :: path

text \<open>One request: the value of the reply, the new nodes and reservations, and the path, which the
  sender's pointer lets the manager change. What it prints of the reservations is left out.\<close>

(* src/src/user/train/reservation_manager.c:81-96 *)
definition rm_handle :: "tp_queue \<Rightarrow> track \<Rightarrow> pather \<Rightarrow> rm_req \<Rightarrow> (int \<times> track \<times> pather \<times> path) option" where
  "rm_handle q t p req = (case rm_type req of
     RM_RESERVE \<Rightarrow> do {
       (r, t, p) \<leftarrow> pather_reserve_to_sensor t p (rm_tr_num req) (rm_node req) (rm_dist req);
       Some (r, t, p, rm_p req) }
   | RM_FREE \<Rightarrow> do {
       (r, t, p) \<leftarrow> pather_free_before t p (rm_tr_num req) (rm_node req);
       Some (r, t, p, rm_p req) }
   | RM_GEN \<Rightarrow> do {
       (r, pth) \<leftarrow> pather_path q p (rm_p req) (rm_tr_num req);
       Some (r, t, p, pth) })"

end
