(* ===== verification/ReservationTheorems.thy ===== *)
theory ReservationTheorems
  imports Reservation
begin

text \<open>
  What the reservations of \<open>Reservation\<close> keep and promise: a reservation that is granted is the
  train's, all other reservations of the train stay, freeing takes back what reserving did. And what
  they do not promise: a reservation can take nodes from another train, and the search for a route
  does not see reservations at all.
\<close>

section \<open>Changing the reservers leaves the graph as it is\<close>

definition same_graph :: "track \<Rightarrow> track \<Rightarrow> bool" where
  "same_graph t t' \<longleftrightarrow> length t' = length t \<and>
     (\<forall>i<length t. (t' ! i)\<lparr>n_reserver := 0\<rparr> = (t ! i)\<lparr>n_reserver := 0\<rparr>)"

lemma same_graph_refl [simp]: "same_graph t t"
  by (simp add: same_graph_def)

lemma same_graph_trans: "same_graph t t' \<Longrightarrow> same_graph t' t'' \<Longrightarrow> same_graph t t''"
  by (simp add: same_graph_def)

lemma same_graph_length: "same_graph t t' \<Longrightarrow> length t' = length t"
  by (simp add: same_graph_def)

lemma same_node:
  assumes "same_graph t t'" "i < length t"
  shows "n_type (t' ! i) = n_type (t ! i)" "n_id (t' ! i) = n_id (t ! i)" "n_reverse (t' ! i) = n_reverse (t ! i)"
    "n_edge (t' ! i) = n_edge (t ! i)" "n_num (t' ! i) = n_num (t ! i)" "n_name (t' ! i) = n_name (t ! i)"
proof -
  have eq: "(t' ! i)\<lparr>n_reserver := 0\<rparr> = (t ! i)\<lparr>n_reserver := 0\<rparr>" using assms by (simp add: same_graph_def)
  show "n_type (t' ! i) = n_type (t ! i)" "n_id (t' ! i) = n_id (t ! i)" "n_reverse (t' ! i) = n_reverse (t ! i)"
    "n_edge (t' ! i) = n_edge (t ! i)" "n_num (t' ! i) = n_num (t ! i)" "n_name (t' ! i) = n_name (t ! i)"
    using arg_cong [OF eq, of n_type] arg_cong [OF eq, of n_id] arg_cong [OF eq, of n_reverse]
      arg_cong [OF eq, of n_edge] arg_cong [OF eq, of n_num] arg_cong [OF eq, of n_name] by simp_all
qed

lemma same_graph_update: "same_graph t (t[i := (t ! i)\<lparr>n_reserver := v\<rparr>])"
  unfolding same_graph_def
proof (intro conjI allI impI)
  fix j
  assume "j < length t"
  then show "(t[i := (t ! i)\<lparr>n_reserver := v\<rparr>] ! j)\<lparr>n_reserver := 0\<rparr> = (t ! j)\<lparr>n_reserver := 0\<rparr>"
    by (cases "i = j") simp_all
qed simp

lemma same_graph_edge_ok:
  assumes g: "same_graph t t'" and ok: "edge_ok t i d" and i: "i < length t"
  shows "edge_ok t' i d"
proof -
  let ?e = "n_edge (t ! i) ! d"
  obtain j k d' where e: "e_dest ?e = Some j" "e_reverse ?e = Some (k, d')"
    using ok by (simp add: edge_ok_def Let_def split: option.splits prod.splits)
  have ok': "e_src ?e = Some i" "0 \<le> e_dist ?e" "e_dist ?e < 2000" "j < length t" "k < length t"
      "n_type (t ! j) \<noteq> NODE_NONE" "n_reverse (t ! j) = Some k" "d' < n_edges (n_type (t ! k))"
      "e_dest (n_edge (t ! k) ! d') = n_reverse (t ! i)" "e_dist (n_edge (t ! k) ! d') = e_dist ?e"
      "e_reverse (n_edge (t ! k) ! d') = Some (i, d)"
    using ok e by (simp_all add: edge_ok_def Let_def)
  show ?thesis
    unfolding edge_ok_def Let_def same_node [OF g i] e option.case prod.case same_graph_length [OF g]
      same_node [OF g ok'(4)] same_node [OF g ok'(5)]
    using ok' by simp
qed

lemma same_graph_node_ok:
  assumes g: "same_graph t t'" and ok: "node_ok t i" and i: "i < length t"
  shows "node_ok t' i"
proof (cases "n_type (t ! i) = NODE_NONE")
  case True
  then show ?thesis
    using ok by (simp add: node_ok_def Let_def same_node [OF g i])
next
  case False
  then obtain j where j: "n_reverse (t ! i) = Some j" "j < length t" "j \<noteq> i" "n_reverse (t ! j) = Some i"
    "n_type (t ! j) = reverse_type (n_type (t ! i))" "list_all (edge_ok t i) [0..<n_edges (n_type (t ! i))]"
    using ok by (auto simp: node_ok_def Let_def split: option.splits)
  have "list_all (edge_ok t' i) [0..<n_edges (n_type (t ! i))]"
    using j(6) same_graph_edge_ok [OF g _ i] by (simp add: list_all_iff)
  then show ?thesis
    using ok j(1-5)
    by (simp add: node_ok_def Let_def same_node [OF g i] same_node [OF g j(2)] same_graph_length [OF g])
qed

lemma same_graph_wf:
  assumes g: "same_graph t t'" and wf: "wf_track t"
  shows "wf_track t'"
proof -
  have "node_ok t' i" if "i < length t'" for i
    using same_graph_node_ok [OF g wf_node [OF wf]] that wf same_graph_length [OF g] by simp
  then show ?thesis
    using wf same_graph_length [OF g] unfolding wf_track_def by (simp del: upt_rec_numeral)
qed

section \<open>The zone of a node\<close>

text \<open>On a well-formed track the zone of every node is made of nodes of the track and has the node in it.\<close>

lemma wf_reverse:
  assumes "wf_track t" "i < TRACK_MAX" "n_type (t ! i) \<noteq> NODE_NONE"
  obtains j where "n_reverse (t ! i) = Some j" "j < TRACK_MAX" "n_reverse (t ! j) = Some i"
    "n_type (t ! j) = reverse_type (n_type (t ! i))"
  using wf_node [OF assms(1,2)] assms by (auto simp: node_ok_def Let_def split: option.splits)

lemma dest_reverse_ok:
  assumes "wf_track t" "i < TRACK_MAX" "d < n_edges (n_type (t ! i))"
  obtains j k where "e_dest (n_edge (t ! i) ! d) = Some j" "j < TRACK_MAX" "n_type (t ! j) \<noteq> NODE_NONE"
    "n_reverse (t ! j) = Some k" "k < TRACK_MAX" "dest_reverse t (t ! i) d = Some (Some k)"
proof -
  obtain j where j: "e_dest (n_edge (t ! i) ! d) = Some j" "j < TRACK_MAX" "n_type (t ! j) \<noteq> NODE_NONE"
    using wf_exits [OF assms] by metis
  obtain k where k: "n_reverse (t ! j) = Some k" "k < TRACK_MAX" using wf_reverse [OF assms(1) j(2,3)] by blast
  have "d < 2" using assms(3) n_edges_le [of "n_type (t ! i)"] by simp
  then have "dest_reverse t (t ! i) d = Some (Some k)"
    using j k assms by (simp add: dest_reverse_def wf_n_edge)
  then show thesis using that j k by blast
qed

lemma ahead_edges: "ty \<noteq> NODE_NONE \<Longrightarrow> ty \<noteq> NODE_EXIT \<Longrightarrow> DIR_AHEAD < n_edges ty"
  by (cases ty) (simp_all add: n_edges_def)

lemma branch_edges: "ty = NODE_BRANCH \<Longrightarrow> d < 2 \<Longrightarrow> d < n_edges ty"
  by (simp add: n_edges_def)

text \<open>The predecessor of a merge is the reverse of where one of the edges of the merge's reverse leads.\<close>

lemma merge_back:
  assumes wf: "wf_track t" and i: "i < TRACK_MAX" "DIR_AHEAD < n_edges (n_type (t ! i))"
    and j: "e_dest (n_edge (t ! i) ! DIR_AHEAD) = Some j" "n_reverse (t ! j) = Some b"
  obtains d where "d < n_edges (n_type (t ! b))" "dest_reverse t (t ! b) d = Some (Some i)"
proof -
  obtain s where e: "exits t i DIR_AHEAD s j" using i j wf by (auto simp: exits_def)
  obtain i' d where r: "n_reverse (t ! i) = Some i'" "exits t b d s i'"
    using exits_reverse [OF wf e] j by auto
  have ty: "n_type (t ! i) \<noteq> NODE_NONE" using i(2) by (cases "n_type (t ! i)") simp_all
  have b: "b < TRACK_MAX" "i' < TRACK_MAX" using exitsD [OF wf r(2)] by simp_all
  have "n_reverse (t ! i') = Some i" using wf_reverse [OF wf i(1) ty] r(1) by (metis option.inject)
  moreover have d: "d < n_edges (n_type (t ! b))" "e_dest (n_edge (t ! b) ! d) = Some i'"
    using r(2) by (simp_all add: exits_def)
  moreover have "d < 2" using d(1) n_edges_le [of "n_type (t ! b)"] by simp
  ultimately show thesis
    using that [of d] b wf by (simp add: dest_reverse_def wf_n_edge)
qed

lemma res_zone_ok:
  assumes wf: "wf_track t" and i: "i < TRACK_MAX" "n_type (t ! i) \<noteq> NODE_NONE"
  obtains xs where "res_zone t (Some i) = Some (map Some xs)" "i \<in> set xs" "set xs \<subseteq> {..<TRACK_MAX}"
proof (cases "n_type (t ! i) = NODE_BRANCH")
  case True
  obtain s where "dest_reverse t (t ! i) DIR_STRAIGHT = Some (Some s)" "s < TRACK_MAX"
    using dest_reverse_ok [OF wf i(1) branch_edges [OF True]] by (metis zero_less_numeral)
  moreover obtain c where "dest_reverse t (t ! i) DIR_CURVED = Some (Some c)" "c < TRACK_MAX"
    using dest_reverse_ok [OF wf i(1) branch_edges [OF True]] by (metis one_less_numeral_iff semiring_norm(76))
  ultimately show thesis
    using that [of "[i, s, c]"] True wf i by (simp add: res_zone_def)
next
  case nb: False
  show thesis
  proof (cases "n_type (t ! i) = NODE_EXIT")
    case True
    then show thesis using that [of "[i]"] wf i by (simp add: res_zone_def)
  next
    case False
    then have d: "DIR_AHEAD < n_edges (n_type (t ! i))" using ahead_edges i(2) by blast
    obtain j k where j: "e_dest (n_edge (t ! i) ! DIR_AHEAD) = Some j" "j < TRACK_MAX" "n_type (t ! j) \<noteq> NODE_NONE"
      "n_reverse (t ! j) = Some k" "k < TRACK_MAX"
      using dest_reverse_ok [OF wf i(1) d] by metis
    show thesis
    proof (cases "n_type (t ! j) = NODE_MERGE")
      case True
      have k: "n_type (t ! k) = NODE_BRANCH"
        using wf_reverse [OF wf j(2,3)] j(4) True by (metis option.inject reverse_type.simps(3))
      obtain s where s: "dest_reverse t (t ! k) DIR_STRAIGHT = Some (Some s)" "s < TRACK_MAX"
        using dest_reverse_ok [OF wf j(5) branch_edges [OF k]] by (metis zero_less_numeral)
      obtain c where c: "dest_reverse t (t ! k) DIR_CURVED = Some (Some c)" "c < TRACK_MAX"
        using dest_reverse_ok [OF wf j(5) branch_edges [OF k]] by (metis one_less_numeral_iff semiring_norm(76))
      obtain d' where d': "d' < n_edges (n_type (t ! k))" "dest_reverse t (t ! k) d' = Some (Some i)"
        by (rule merge_back [OF wf i(1) d j(1,4)])
      have "d' = 0 \<or> d' = 1" using d'(1) k by (auto simp: n_edges_def)
      then have "i = s \<or> i = c" using d'(2) s(1) c(1) by auto
      then show thesis
        using that [of "[k, c, s]"] nb False True wf i j s c by (auto simp: res_zone_def wf_n_edge)
    next
      case nm: False
      then show thesis
        using that [of "[i, k]"] nb False wf i j by (simp add: res_zone_def wf_n_edge)
    qed
  qed
qed

lemma same_graph_sym: "same_graph t t' \<Longrightarrow> same_graph t' t"
  by (simp add: same_graph_def)

lemma node_at_same:
  assumes "same_graph t t'"
  shows "node_at t' x = map_option (\<lambda>n. n\<lparr>n_reserver := n_reserver (t' ! the x)\<rparr>) (node_at t x)"
proof (cases x)
  case (Some i)
  show ?thesis
  proof (cases "i < length t")
    case True
    have eq: "(t' ! i)\<lparr>n_reserver := 0\<rparr> = (t ! i)\<lparr>n_reserver := 0\<rparr>" using assms True by (simp add: same_graph_def)
    have "t' ! i = ((t' ! i)\<lparr>n_reserver := 0\<rparr>)\<lparr>n_reserver := n_reserver (t' ! i)\<rparr>" by simp
    then have "t' ! i = (t ! i)\<lparr>n_reserver := n_reserver (t' ! i)\<rparr>" unfolding eq by simp
    then show ?thesis using Some True same_graph_length [OF assms] by (simp add: node_at_def)
  qed (use Some same_graph_length [OF assms] in \<open>simp add: node_at_def\<close>)
qed (simp add: node_at_def)

lemma dest_reverse_same:
  assumes "same_graph t t'"
  shows "dest_reverse t' (n\<lparr>n_reserver := v\<rparr>) d = dest_reverse t n d"
  by (auto simp: dest_reverse_def node_at_same [OF assms] split: option.splits bind_splits)

lemma res_zone_same:
  assumes "same_graph t t'"
  shows "res_zone t' x = res_zone t x"
proof (cases "node_at t x")
  case None
  then show ?thesis by (simp add: res_zone_def node_at_same [OF assms])
next
  case (Some n)
  show ?thesis
  proof (cases "aget (n_edge n) DIR_AHEAD")
    case None
    then show ?thesis using Some by (simp add: res_zone_def node_at_same [OF assms] dest_reverse_same [OF assms])
  next
    case e: (Some e)
    show ?thesis
    proof (cases "node_at t (e_dest e)")
      case None
      then show ?thesis using Some e by (simp add: res_zone_def node_at_same [OF assms] dest_reverse_same [OF assms])
    next
      case m: (Some m)
      then show ?thesis using Some e
        by (cases "node_at t (n_reverse m)")
          (simp_all add: res_zone_def node_at_same [OF assms] dest_reverse_same [OF assms])
    qed
  qed
qed

section \<open>Marking\<close>

lemma mark_nodes_ok:
  assumes "wf_track t" "length rs = TRACK_MAX" "set xs \<subseteq> {..<TRACK_MAX}"
  shows "\<exists>t' rs'. mark_nodes v f (map Some xs) t rs = Some (t', rs') \<and> same_graph t t' \<and> length rs' = TRACK_MAX \<and>
    (\<forall>j<TRACK_MAX. n_reserver (t' ! j) = (if j \<in> set xs then v else n_reserver (t ! j))) \<and>
    (\<forall>j<TRACK_MAX. rs' ! j = (f ^^ count_list xs j) (rs ! j))"
  using assms
proof (induction xs arbitrary: t rs)
  case (Cons x xs)
  let ?t = "t[x := (t ! x)\<lparr>n_reserver := v\<rparr>]" and ?rs = "rs[x := f (rs ! x)]"
  have x: "x < TRACK_MAX" using Cons.prems by simp
  have g: "same_graph t ?t" by (rule same_graph_update)
  obtain t' rs' where t': "mark_nodes v f (map Some xs) ?t ?rs = Some (t', rs')" "same_graph ?t t'" "length rs' = TRACK_MAX"
    "\<forall>j<TRACK_MAX. n_reserver (t' ! j) = (if j \<in> set xs then v else n_reserver (?t ! j))"
    "\<forall>j<TRACK_MAX. rs' ! j = (f ^^ count_list xs j) (?rs ! j)"
    using Cons.IH [OF same_graph_wf [OF g Cons.prems(1)], of ?rs] Cons.prems by auto
  have "mark_nodes v f (map Some (x # xs)) t rs = Some (t', rs')"
    using t'(1) x Cons.prems by (simp add: wf_id agetz_in asetz_in)
  moreover have "n_reserver (t' ! j) = (if j \<in> set (x # xs) then v else n_reserver (t ! j))" if "j < TRACK_MAX" for j
    using t'(4) that x Cons.prems(1) by (auto simp: nth_list_update)
  moreover have "rs' ! j = (f ^^ count_list (x # xs) j) (rs ! j)" if "j < TRACK_MAX" for j
    using t'(5) that x Cons.prems(2) by (auto simp: nth_list_update funpow_swap1)
  ultimately show ?case using same_graph_trans [OF g t'(2)] t'(3) by blast
qed simp

section \<open>One node\<close>

definition res_wf :: "track \<Rightarrow> pather \<Rightarrow> bool" where
  "res_wf t p \<longleftrightarrow> wf_track t \<and> length (pr_reserv p) = TRACK_MAX \<and> length (pr_nreservs p) = TRAIN_MAX"

definition owned :: "pather \<Rightarrow> nat \<Rightarrow> int \<Rightarrow> bool" where
  "owned p i trn \<longleftrightarrow> rv_reserved (pr_reserv p ! i) \<and> rv_train (pr_reserv p ! i) = trn"

definition taken :: "pather \<Rightarrow> nat \<Rightarrow> int \<Rightarrow> bool" where
  "taken p i trn \<longleftrightarrow> rv_reserved (pr_reserv p ! i) \<and> rv_train (pr_reserv p ! i) \<noteq> trn"

definition reserv_kept :: "pather \<Rightarrow> pather \<Rightarrow> nat \<Rightarrow> bool" where
  "reserv_kept p p' i \<longleftrightarrow> pr_reserv p' ! i = pr_reserv p ! i"

lemma reserv_kept_owner: "reserv_kept p p' i \<Longrightarrow> owned p' i trn = owned p i trn" "reserv_kept p p' i \<Longrightarrow> taken p' i trn = taken p i trn"
  by (simp_all add: reserv_kept_def owned_def taken_def)

lemma owned_taken: "owned p i trn \<Longrightarrow> \<not> taken p i trn"
  by (simp add: owned_def taken_def)

text \<open>A node that the code may mark when it grants the nodes \<open>xs\<close>: it lies in the zone of one that is free.\<close>

definition in_zone :: "track \<Rightarrow> nat \<Rightarrow> nat \<Rightarrow> bool" where
  "in_zone t x j \<longleftrightarrow> (\<exists>zs. res_zone t (Some x) = Some zs \<and> Some j \<in> set zs)"

definition may_take :: "track \<Rightarrow> pather \<Rightarrow> nat list \<Rightarrow> nat \<Rightarrow> bool" where
  "may_take t p xs j \<longleftrightarrow> (\<exists>x \<in> set xs. \<not> rv_reserved (pr_reserv p ! x) \<and> in_zone t x j)"

lemma may_take_later:
  assumes "may_take t' p' xs j" "same_graph t t'" "\<forall>x \<in> set xs. reserv_kept p p' x \<or> owned p' x trn"
  shows "may_take t p xs j"
proof -
  obtain x where x: "x \<in> set xs" "\<not> rv_reserved (pr_reserv p' ! x)" "in_zone t' x j"
    using assms(1) by (auto simp: may_take_def)
  have "reserv_kept p p' x" using assms(3) x(1,2) by (auto simp: owned_def)
  then show ?thesis using x res_zone_same [OF assms(2)] by (auto simp: may_take_def in_zone_def reserv_kept_def)
qed

lemma may_take_Cons: "may_take t p (x # xs) j \<longleftrightarrow> may_take t p [x] j \<or> may_take t p xs j"
  by (auto simp: may_take_def)

lemma reserv_kept_refl [simp]: "reserv_kept p p i"
  by (simp add: reserv_kept_def)

lemma reserv_kept_trans: "reserv_kept p p1 i \<Longrightarrow> reserv_kept p1 p2 i \<Longrightarrow> reserv_kept p p2 i"
  by (simp add: reserv_kept_def)

lemma pather_init_wf:
  assumes "wf_track t"
  obtains p where "pather_init t = Some p" "res_wf t p" "\<And>i. i < TRACK_MAX \<Longrightarrow> pr_reserv p ! i = reserv_init"
proof (rule that)
  show "pather_init t = Some \<lparr>pr_track = map (\<lambda>n. n\<lparr>n_reserver := - 1\<rparr>) (take TRACK_MAX t),
      pr_reserv = replicate TRACK_MAX reserv_init, pr_nreservs = replicate TRAIN_MAX 0\<rparr>"
    using assms by (simp add: pather_init_def)
qed (use assms in \<open>simp_all add: res_wf_def\<close>)

lemma funpow_reserve: "((\<lambda>r. reservation_reserve r trn) ^^ n) r = (if n = 0 then r else reservation_reserve r trn)"
  by (induction n) (simp_all add: reservation_reserve_def)

lemma funpow_free: "((\<lambda>r. reservation_free r trn) ^^ n) r = (if n = 0 then r else reservation_free r trn)"
  by (induction n) (simp_all add: reservation_free_def)

lemma count_list_0: "count_list xs j = 0 \<longleftrightarrow> j \<notin> set xs"
  by (simp add: count_list_0_iff)

text \<open>What a granted reservation changes: the zone, and the train's count.\<close>

lemma reserve_node_free:
  assumes wf: "res_wf t p" and i: "i < TRACK_MAX" "n_type (t ! i) \<noteq> NODE_NONE" and trn: "0 \<le> trn" "trn < int TRAIN_MAX"
    and free: "\<not> rv_reserved (pr_reserv p ! i)"
  obtains t' rs xs where "res_zone t (Some i) = Some (map Some xs)" "i \<in> set xs" "set xs \<subseteq> {..<TRACK_MAX}"
    "pather_reserve_node t p trn (Some i) = Some (0, t', p\<lparr>pr_reserv := rs,
       pr_nreservs := (pr_nreservs p)[nat trn := pr_nreservs p ! nat trn + 1]\<rparr>)"
    "same_graph t t'" "length rs = TRACK_MAX"
    "\<And>j. j < TRACK_MAX \<Longrightarrow> n_reserver (t' ! j) = (if j \<in> set xs then trn else n_reserver (t ! j))"
    "\<And>j. j < TRACK_MAX \<Longrightarrow> rs ! j = (if j \<in> set xs then reservation_reserve (pr_reserv p ! j) trn else pr_reserv p ! j)"
proof -
  have w: "wf_track t" "length (pr_reserv p) = TRACK_MAX" "length (pr_nreservs p) = TRAIN_MAX"
    using wf by (simp_all add: res_wf_def)
  obtain xs where xs: "res_zone t (Some i) = Some (map Some xs)" "i \<in> set xs" "set xs \<subseteq> {..<TRACK_MAX}"
    by (rule res_zone_ok [OF w(1) i])
  obtain t' rs where m: "mark_nodes trn (\<lambda>r. reservation_reserve r trn) (map Some xs) t (pr_reserv p) = Some (t', rs)"
    "same_graph t t'" "length rs = TRACK_MAX"
    "\<forall>j<TRACK_MAX. n_reserver (t' ! j) = (if j \<in> set xs then trn else n_reserver (t ! j))"
    "\<forall>j<TRACK_MAX. rs ! j = ((\<lambda>r. reservation_reserve r trn) ^^ count_list xs j) (pr_reserv p ! j)"
    using mark_nodes_ok [OF w(1,2) xs(3)] by blast
  have "pather_reserve_node t p trn (Some i) = Some (0, t', p\<lparr>pr_reserv := rs,
       pr_nreservs := (pr_nreservs p)[nat trn := pr_nreservs p ! nat trn + 1]\<rparr>)"
    using w i trn free xs(1) m(1) by (simp add: pather_reserve_node_def wf_id agetz_in agetz_def asetz_def)
  then show thesis
    using that [OF xs _ m(2,3)] m(4,5) by (simp add: funpow_reserve count_list_0)
qed

lemma reserve_node_ok:
  assumes wf: "res_wf t p" and i: "i < TRACK_MAX" "n_type (t ! i) \<noteq> NODE_NONE" and trn: "0 \<le> trn" "trn < int TRAIN_MAX"
  shows "if taken p i trn then pather_reserve_node t p trn (Some i) = Some (- 1, t, p)
    else \<exists>t' p'. pather_reserve_node t p trn (Some i) = Some (0, t', p') \<and> same_graph t t' \<and> res_wf t' p' \<and>
      owned p' i trn \<and> (\<forall>j<TRACK_MAX. reserv_kept p p' j \<or> owned p' j trn \<and> may_take t p [i] j)"
proof -
  have w: "wf_track t" "length (pr_reserv p) = TRACK_MAX" using wf by (simp_all add: res_wf_def)
  consider "taken p i trn" | "owned p i trn" "\<not> taken p i trn" | "\<not> rv_reserved (pr_reserv p ! i)" "\<not> taken p i trn"
    by (auto simp: taken_def owned_def)
  then show ?thesis
  proof cases
    case 1
    then show ?thesis using w i by (simp add: pather_reserve_node_def wf_id agetz_in taken_def)
  next
    case 2
    then show ?thesis using wf w i by (simp add: pather_reserve_node_def wf_id agetz_in owned_def reserv_kept_def)
  next
    case 3
    obtain t' rs xs where r: "res_zone t (Some i) = Some (map Some xs)" "i \<in> set xs" "set xs \<subseteq> {..<TRACK_MAX}"
      "pather_reserve_node t p trn (Some i) = Some (0, t', p\<lparr>pr_reserv := rs,
         pr_nreservs := (pr_nreservs p)[nat trn := pr_nreservs p ! nat trn + 1]\<rparr>)"
      "same_graph t t'" "length rs = TRACK_MAX"
      "\<And>j. j < TRACK_MAX \<Longrightarrow> n_reserver (t' ! j) = (if j \<in> set xs then trn else n_reserver (t ! j))"
      "\<And>j. j < TRACK_MAX \<Longrightarrow> rs ! j = (if j \<in> set xs then reservation_reserve (pr_reserv p ! j) trn else pr_reserv p ! j)"
      by (rule reserve_node_free [OF wf i trn 3(1)]) (rule that, assumption+)
    let ?p = "p\<lparr>pr_reserv := rs, pr_nreservs := (pr_nreservs p)[nat trn := pr_nreservs p ! nat trn + 1]\<rparr>"
    have zone: "may_take t p [i] j" if "j \<in> set xs" for j using that r(1) 3(1) by (simp add: may_take_def in_zone_def)
    have "if j \<in> set xs then owned ?p j trn else reserv_kept p ?p j" if "j < TRACK_MAX" for j
      using r(8) [OF that] by (simp add: owned_def reserv_kept_def reservation_reserve_def)
    then have own: "owned ?p i trn" "\<forall>j<TRACK_MAX. reserv_kept p ?p j \<or> owned ?p j trn \<and> may_take t p [i] j"
      using r(2) i(1) zone by (metis, metis)
    have "res_wf t' ?p" using wf same_graph_wf [OF r(5) w(1)] r(6) by (simp add: res_wf_def)
    then show ?thesis using 3(2) r(4,5) own by simp
  qed
qed

section \<open>A region\<close>

definition node_list :: "node_ptr cbuf \<Rightarrow> nat list \<Rightarrow> bool" where
  "node_list q xs \<longleftrightarrow> cb_wf PATHER_Q_SIZE q \<and> cb_list PATHER_Q_SIZE q = map Some xs"

lemma node_list_get:
  "node_list q xs \<Longrightarrow> i < length xs \<Longrightarrow> cb_get PATHER_Q_SIZE (int i) q = Some (CB_E_NONE, Some (Some (xs ! i)))"
  using cb_get_nth [of PATHER_Q_SIZE q i] length_cb_list [of PATHER_Q_SIZE q] by (auto simp: node_list_def)

lemma node_list_size: "node_list q xs \<Longrightarrow> unat (cb_size q) = length xs"
  using length_cb_list [of PATHER_Q_SIZE q] by (simp add: node_list_def del: length_cb_list)

lemma reserve_nodes_ok:
  assumes "node_list q xs" and "\<forall>x \<in> set xs. x < TRACK_MAX \<and> n_type (t ! x) \<noteq> NODE_NONE"
    and "0 \<le> trn" "trn < int TRAIN_MAX" and "res_wf t p"
  shows "\<exists>r t' p'. reserve_nodes q i t p trn = Some (r, t', p') \<and> same_graph t t' \<and>
    (\<forall>j<TRACK_MAX. reserv_kept p p' j \<or> owned p' j trn \<and> may_take t p (drop i xs) j) \<and>
    (if \<exists>x \<in> set (drop i xs). taken p' x trn then r = - 1 else r = 0 \<and> (\<forall>x \<in> set (drop i xs). owned p' x trn))"
  using assms
proof (induction "length xs - i" arbitrary: i t p)
  case 0
  then have "drop i xs = []" "\<not> i < unat (cb_size q)" using node_list_size by auto
  then show ?case by (simp add: reserve_nodes.simps [of q] reserv_kept_def)
next
  case (Suc n)
  then have i: "i < length xs" by simp
  let ?x = "xs ! i" and ?xs = "drop (Suc i) xs"
  have x: "?x < TRACK_MAX" "n_type (t ! ?x) \<noteq> NODE_NONE" using Suc.prems(2) nth_mem [OF i] by auto
  have dr: "drop i xs = ?x # ?xs" using i by (simp add: Cons_nth_drop_Suc)
  note step = reserve_nodes.simps [of q i t p trn] node_list_get [OF Suc.prems(1) i] node_list_size [OF Suc.prems(1)]
  note node = reserve_node_ok [OF Suc.prems(5) x Suc.prems(3,4)]
  show ?case
  proof (cases "taken p ?x trn")
    case True
    then show ?thesis using node i by (auto simp: step dr reserv_kept_def)
  next
    case False
    then obtain t1 p1 where 1: "pather_reserve_node t p trn (Some ?x) = Some (0, t1, p1)" "same_graph t t1" "res_wf t1 p1"
      "owned p1 ?x trn" "\<forall>j<TRACK_MAX. reserv_kept p p1 j \<or> owned p1 j trn \<and> may_take t p [?x] j"
      using node by auto
    have "length t = TRACK_MAX" using Suc.prems(5) by (simp add: res_wf_def)
    then have ty: "\<forall>x \<in> set xs. x < TRACK_MAX \<and> n_type (t1 ! x) \<noteq> NODE_NONE"
      using Suc.prems(2) same_node(1) [OF 1(2)] by simp
    have n: "n = length xs - Suc i" using Suc.hyps(2) by simp
    obtain r t' p' where 2: "reserve_nodes q (Suc i) t1 p1 trn = Some (r, t', p')" "same_graph t1 t'"
      "\<forall>j<TRACK_MAX. reserv_kept p1 p' j \<or> owned p' j trn \<and> may_take t1 p1 ?xs j"
      "if \<exists>x \<in> set ?xs. taken p' x trn then r = - 1 else r = 0 \<and> (\<forall>x \<in> set ?xs. owned p' x trn)"
      using Suc.hyps(1) [OF n Suc.prems(1) ty Suc.prems(3,4) 1(3)] by blast
    have eq: "reserve_nodes q i t p trn = Some (r, t', p')" using i 1(1) 2(1) by (simp add: step)
    have own: "owned p' ?x trn" using 1(4) 2(3) x(1) reserv_kept_owner(1) by blast
    have "may_take t p ?xs j" if "may_take t1 p1 ?xs j" for j
      by (rule may_take_later [OF that 1(2)]) (use 1(5) ty in \<open>auto dest: in_set_dropD\<close>)
    then have "reserv_kept p p' j \<or> owned p' j trn \<and> may_take t p (?x # ?xs) j" if "j < TRACK_MAX" for j
      using 1(5) 2(3) that reserv_kept_trans [of p p1 j p'] reserv_kept_owner(1) [of p1 p' j trn] may_take_Cons [of t p ?x ?xs j] by blast
    then show ?thesis
      using eq same_graph_trans [OF 1(2) 2(2)] 2(4) own owned_taken [OF own] unfolding dr by auto
  qed
qed

section \<open>Freeing takes back what reserving did\<close>

lemma track_eqI:
  assumes "same_graph t t'" "\<And>j. j < length t \<Longrightarrow> n_reserver (t' ! j) = n_reserver (t ! j)"
  shows "t' = t"
proof (rule nth_equalityI)
  fix j
  assume "j < length t'"
  then have j: "j < length t" using same_graph_length [OF assms(1)] by simp
  then show "t' ! j = t ! j"
    using node_at_same [OF assms(1), of "Some j"] assms(2) [OF j] same_graph_length [OF assms(1)]
    by (simp add: node_at_def)
qed (use same_graph_length [OF assms(1)] in simp)

lemma free_after_reserve:
  assumes wf: "res_wf t p" and i: "i < TRACK_MAX" "n_type (t ! i) \<noteq> NODE_NONE" and trn: "0 \<le> trn" "trn < int TRAIN_MAX"
    and zone: "res_zone t (Some i) = Some (map Some xs)"
    and free: "\<forall>j \<in> set xs. pr_reserv p ! j = reserv_init \<and> n_reserver (t ! j) = - 1"
  shows "\<exists>t' p'. pather_reserve_node t p trn (Some i) = Some (0, t', p') \<and>
    pather_free_node t' p' trn (Some i) = Some (0, t, p)"
proof -
  have w: "wf_track t" "length (pr_reserv p) = TRACK_MAX" "length (pr_nreservs p) = TRAIN_MAX"
    using wf by (simp_all add: res_wf_def)
  obtain zs where zs: "res_zone t (Some i) = Some (map Some zs)" "i \<in> set zs" by (rule res_zone_ok [OF w(1) i])
  have same: "ys = xs" if "res_zone t (Some i) = Some (map Some ys)" for ys
    using that zone by (simp add: inj_map_eq_map)
  have xs: "i \<in> set xs" using zs same by blast
  have nr: "\<not> rv_reserved (pr_reserv p ! i)" using free xs by (auto simp: reserv_init_def)
  obtain t' rs ys where r: "res_zone t (Some i) = Some (map Some ys)" "i \<in> set ys" "set ys \<subseteq> {..<TRACK_MAX}"
    "pather_reserve_node t p trn (Some i) = Some (0, t', p\<lparr>pr_reserv := rs,
       pr_nreservs := (pr_nreservs p)[nat trn := pr_nreservs p ! nat trn + 1]\<rparr>)"
    "same_graph t t'" "length rs = TRACK_MAX"
    "\<And>j. j < TRACK_MAX \<Longrightarrow> n_reserver (t' ! j) = (if j \<in> set ys then trn else n_reserver (t ! j))"
    "\<And>j. j < TRACK_MAX \<Longrightarrow> rs ! j = (if j \<in> set ys then reservation_reserve (pr_reserv p ! j) trn else pr_reserv p ! j)"
    by (rule reserve_node_free [OF wf i trn nr]) (rule that, assumption+)
  have ys: "ys = xs" by (rule same [OF r(1)])
  note w' = same_graph_wf [OF r(5) w(1)]
  obtain t'' rs'' where m: "mark_nodes (- 1) (\<lambda>r. reservation_free r trn) (map Some xs) t' rs = Some (t'', rs'')"
    "same_graph t' t''" "length rs'' = TRACK_MAX"
    "\<forall>j<TRACK_MAX. n_reserver (t'' ! j) = (if j \<in> set xs then - 1 else n_reserver (t' ! j))"
    "\<forall>j<TRACK_MAX. rs'' ! j = ((\<lambda>r. reservation_free r trn) ^^ count_list xs j) (rs ! j)"
    using mark_nodes_ok [OF w' r(6) r(3) [unfolded ys]] by blast
  have "t'' = t"
    by (rule track_eqI [OF same_graph_trans [OF r(5) m(2)]]) (use m(4) r(7) ys free w(1) in auto)
  moreover have "rs'' = pr_reserv p"
  proof (rule nth_equalityI)
    fix j
    assume "j < length rs''"
    then have "rs'' ! j = (if j \<in> set xs then reservation_free (rs ! j) trn else rs ! j)"
      using m(3,5) by (simp add: funpow_free count_list_0)
    then show "rs'' ! j = pr_reserv p ! j"
      using \<open>j < length rs''\<close> m(3) r(8) ys free
      by (auto simp: reservation_free_def reservation_reserve_def reserv_init_def)
  qed (use m(3) w(2) in simp)
  moreover have "rs ! i = reservation_reserve (pr_reserv p ! i) trn" using r(8) [OF i(1)] xs ys by simp
  ultimately have "pather_free_node t' (p\<lparr>pr_reserv := rs,
       pr_nreservs := (pr_nreservs p)[nat trn := pr_nreservs p ! nat trn + 1]\<rparr>) trn (Some i) = Some (0, t, p)"
    using w' w i trn m(1) r(6) zone
    by (simp add: pather_free_node_def wf_id agetz_in agetz_def asetz_def reservation_reserve_def res_zone_same [OF r(5)])
  then show ?thesis using r(4) by blast
qed

section \<open>The search does not see reservations\<close>

lemma dij_loop_sel_imp:
  assumes "dij_loop sel t did s = Some r" "\<forall>n \<in> set t. sel n = sel' n"
  shows "dij_loop sel' t did s = Some r"
proof -
  have "(\<forall>n \<in> set t. sel n = sel' n) \<longrightarrow> dij_loop sel' t did s = Some r"
  proof (rule dij_loop.raw_induct [where P = "\<lambda>sel t did s r. (\<forall>n \<in> set t. sel n = sel' n) \<longrightarrow> dij_loop sel' t did s = Some r",
        OF _ assms(1)], intro impI)
    fix loop :: "(track_node \<Rightarrow> nat list option) \<Rightarrow> track \<Rightarrow> int \<Rightarrow> dij \<Rightarrow> dij option"
      and t s did r and sel :: "track_node \<Rightarrow> nat list option"
    assume IH: "\<And>sel t did s r. loop sel t did s = Some r \<Longrightarrow>
        (\<forall>n \<in> set t. sel n = sel' n) \<longrightarrow> dij_loop sel' t did s = Some r"
      and body: "(if 0 < tq_size (d_q s) then do {
          (u, q) \<leftarrow> tpq_pop (d_q s);
          if u = did then Some (s\<lparr>d_q := q\<rparr>)
          else do {
            vist \<leftarrow> asetz (d_vist s) u 1;
            n \<leftarrow> agetz t u;
            is \<leftarrow> sel n;
            s \<leftarrow> dij_edges t u is (s\<lparr>d_q := q, d_vist := vist\<rparr>);
            loop sel t did s }}
        else Some s) = Some r"
      and eq: "\<forall>n \<in> set t. sel n = sel' n"
    have e: "sel n = sel' n" if "agetz t u = Some n" for u n
      using eq that by (auto simp: agetz_def aget_def split: if_splits)
    note simps = dij_loop.simps [of sel' t did s]
    show "dij_loop sel' t did s = Some r"
    proof (cases "0 < tq_size (d_q s)")
      case False
      then show ?thesis using body unfolding simps by simp
    next
      case True
      then obtain u q where pop: "tpq_pop (d_q s) = Some (u, q)"
        using body by (auto simp: Option.bind_eq_Some_conv)
      show ?thesis
      proof (cases "u = did")
        case True
        then show ?thesis using body pop \<open>0 < tq_size (d_q s)\<close> by (simp add: simps)
      next
        case False
        then obtain vist n ds s1 where "asetz (d_vist s) u 1 = Some vist" "agetz t u = Some n" "sel n = Some ds"
          "dij_edges t u ds (s\<lparr>d_q := q, d_vist := vist\<rparr>) = Some s1" "loop sel t did s1 = Some r"
          using body pop \<open>0 < tq_size (d_q s)\<close> by (auto simp: Option.bind_eq_Some_conv)
        then show ?thesis using False pop \<open>0 < tq_size (d_q s)\<close> IH eq e by (simp add: simps)
      qed
    qed
  qed
  then show ?thesis using assms(2) by blast
qed

lemma path_search_sel:
  assumes "\<forall>n \<in> set t. sel n = sel' n"
  shows "path_search sel t s d prev q = path_search sel' t s d prev q"
proof -
  have "dij_loop sel t did st = dij_loop sel' t did st" for did st
    using dij_loop_sel_imp [of sel t did st _ sel'] dij_loop_sel_imp [of sel' t did st _ sel] assms
    by (cases "dij_loop sel t did st"; cases "dij_loop sel' t did st") auto
  then show ?thesis by (simp add: path_search_def)
qed

text \<open>No operation changes the copies of the nodes.\<close>

lemma mark_copies: "pather_reserve_node t p trn tn = Some (r, t', p') \<Longrightarrow> pr_track p' = pr_track p"
  "pather_free_node t p trn tn = Some (r, t', p') \<Longrightarrow> pr_track p' = pr_track p"
  by (auto simp: pather_reserve_node_def pather_free_node_def Option.bind_eq_Some_conv split: if_splits)

lemma reserve_nodes_copies: "reserve_nodes nodes i t p trn = Some (r, t', p') \<Longrightarrow> pr_track p' = pr_track p"
proof (induction nodes i t p trn rule: reserve_nodes.induct)
  case (1 nodes i t p trn)
  show ?case
  proof (cases "i < unat (cb_size nodes)")
    case True
    then obtain c tn r1 t1 p1 where *: "cb_get PATHER_Q_SIZE (int i) nodes = Some (c, Some tn)"
      "pather_reserve_node t p trn tn = Some (r1, t1, p1)"
      "(if r1 \<noteq> 0 then Some (- 1, t1, p1) else reserve_nodes nodes (Suc i) t1 p1 trn) = Some (r, t', p')"
      using 1(2) by (auto simp: reserve_nodes.simps [of nodes i] Option.bind_eq_Some_conv)
    then show ?thesis
      using 1(1) [OF True *(1), of c "Some tn" tn "(r1, t1, p1)" r1 "(t1, p1)" t1 p1] mark_copies(1) [OF *(2)]
      by (auto split: if_splits)
  qed (use 1(2) in \<open>simp add: reserve_nodes.simps [of nodes i]\<close>)
qed

lemma free_nodes_copies:
  assumes "free_nodes_loop trn ret a q t p = Some y"
  shows "pr_track (snd (snd y)) = pr_track p"
proof (rule free_nodes_loop.raw_induct [where P = "\<lambda>trn ret a q t p y. pr_track (snd (snd y)) = pr_track p", OF _ assms])
  fix loop :: "int \<Rightarrow> int \<Rightarrow> scratch \<Rightarrow> node_ptr cbuf \<Rightarrow> track \<Rightarrow> pather \<Rightarrow> (int \<times> track \<times> pather) option"
    and trn ret a q t p y
  assume IH: "\<And>trn ret a q t p y. loop trn ret a q t p = Some y \<Longrightarrow> pr_track (snd (snd y)) = pr_track p"
    and body: "(if 0 < cb_size q then do {
        (r, x, q) \<leftarrow> cb_pop PATHER_Q_SIZE q;
        kassert (r = CB_E_NONE);
        node \<leftarrow> x;
        n \<leftarrow> node_at t node;
        rv \<leftarrow> agetz (pr_reserv p) (n_id n);
        if \<not> rv_reserved rv then loop trn ret a q t p
        else do {
          (r, t, p) \<leftarrow> pather_free_node t p trn node;
          let ret = (if r \<noteq> 0 then r else ret);
          (a, q) \<leftarrow> tn_expand t (set_prev n) n (a, q);
          loop trn ret a q t p }}
      else Some (ret, t, p)) = Some y"
  show "pr_track (snd (snd y)) = pr_track p"
    using body by (auto simp: Option.bind_eq_Some_conv split: if_splits dest!: IH mark_copies)
qed

lemma rm_handle_copies: "rm_handle q t p req = Some (r, t', p', pth) \<Longrightarrow> pr_track p' = pr_track p"
  by (auto simp: rm_handle_def pather_reserve_to_sensor_def pather_free_before_def pather_free_nodes_def
      Option.bind_eq_Some_conv split: rm_req_type.splits if_splits dest!: reserve_nodes_copies free_nodes_copies)

text \<open>The requests a manager serves, from its start: the nodes, the reservations.\<close>

inductive rm_reached :: "track \<Rightarrow> track \<Rightarrow> pather \<Rightarrow> bool" for t0 where
  start: "pather_init t0 = Some p \<Longrightarrow> rm_reached t0 t0 p"
| request: "rm_reached t0 t p \<Longrightarrow> rm_handle q t p req = Some (r, t', p', pth) \<Longrightarrow> rm_reached t0 t' p'"

lemma rm_reached_copies:
  "rm_reached t0 t p \<Longrightarrow> pr_track p = map (\<lambda>n. n\<lparr>n_reserver := - 1\<rparr>) (take TRACK_MAX t0)"
  by (induction rule: rm_reached.induct) (auto simp: pather_init_def rm_handle_copies split: if_splits)

section \<open>Properties\<close>

text \<open>C37: On both tracks the loop of \<^verbatim>\<open>pather_reserve_to_sensor\<close>, for every region (every list of nodes of
  the track) and every state of the reservations, returns, and it takes no node from another train except through the
  zone of a free one: a reservation that the call changes becomes the train's and lies in the zone of a node of the
  region that was free before the call; every other reservation stays as it was, so that the train keeps what it
  had. If a node of the region is another train's before the call and in no such zone, the call is refused (-1) and the
  node stays the other train's; in particular a single node of another train is refused and no reservation
  changes. When the call returns 0 every node of the region is the train's, when it returns -1 one of them is
  another train's. The track stays the same graph.\<close>

theorem reserve_region_exclusive:
  assumes "init_tracka t0 = Some ta \<or> init_trackb t0 = Some ta" "length t0 = TRACK_MAX" "same_graph ta t"
    and "length (pr_reserv p) = TRACK_MAX" "length (pr_nreservs p) = TRAIN_MAX" "0 \<le> trn" "trn < int TRAIN_MAX"
    and "node_list q xs" "\<forall>x \<in> set xs. x < TRACK_MAX \<and> n_type (t ! x) \<noteq> NODE_NONE"
  shows "\<exists>r t' p'. reserve_nodes q 0 t p trn = Some (r, t', p') \<and> same_graph t t' \<and>
    (\<forall>j<TRACK_MAX. reserv_kept p p' j \<or> owned p' j trn \<and> may_take t p xs j) \<and>
    (\<forall>j<TRACK_MAX. owned p j trn \<longrightarrow> owned p' j trn) \<and>
    (\<forall>x \<in> set xs. taken p x trn \<and> \<not> may_take t p xs x \<longrightarrow> r = - 1 \<and> reserv_kept p p' x) \<and>
    (if \<exists>x \<in> set xs. taken p' x trn then r = - 1 else r = 0 \<and> (\<forall>x \<in> set xs. owned p' x trn))"
proof -
  have "wf_track ta" using assms(1,2) init_tracka_nodes init_trackb_nodes wf_tracka wf_trackb by auto
  then have "res_wf t p" using same_graph_wf [OF assms(3)] assms(4,5) by (simp add: res_wf_def)
  from reserve_nodes_ok [OF assms(8,9,6,7) this, of 0] obtain r t' p' where
    r: "reserve_nodes q 0 t p trn = Some (r, t', p')" "same_graph t t'"
      "\<forall>j<TRACK_MAX. reserv_kept p p' j \<or> owned p' j trn \<and> may_take t p xs j"
      "if \<exists>x \<in> set xs. taken p' x trn then r = - 1 else r = 0 \<and> (\<forall>x \<in> set xs. owned p' x trn)"
    unfolding drop_0 by blast
  have "r = - 1 \<and> reserv_kept p p' x" if "x \<in> set xs" "taken p x trn" "\<not> may_take t p xs x" for x
    using that r(3,4) assms(9) reserv_kept_owner(2) [of p p' x trn] by (auto split: if_splits)
  then show ?thesis using r reserv_kept_owner(1) by (intro exI [of _ r] exI [of _ t'] exI [of _ p']) blast
qed

lemma node_list_one: obtains q where "node_list q [i]"
proof -
  have "cb_wf PATHER_Q_SIZE tn_q_empty" unfolding tn_q_empty_def by (rule cb_init_wf) simp_all
  moreover have "cb_list PATHER_Q_SIZE tn_q_empty = []" by (simp add: tn_q_empty_def)
  ultimately show thesis
    using cbq.push_room [of PATHER_Q_SIZE tn_q_empty "Some i"] that by (auto simp: node_list_def)
qed

text \<open>A reservation that is granted, and one that is refused because train 58 holds the node.\<close>

theorem reserve_region_exclusive_witness:
  "\<exists>q p t' p' t1. pather_init tracka_nodes = Some p \<and> node_list q [2] \<and>
     reserve_nodes q 0 tracka_nodes p 24 = Some (0, t', p') \<and> owned p' 2 24 \<and>
     (\<exists>p1. reserve_nodes q 0 tracka_nodes (p\<lparr>pr_reserv := (pr_reserv p)[2 := \<lparr>rv_train = 58, rv_reserved = True\<rparr>]\<rparr>) 24 =
       Some (- 1, t1, p1) \<and> owned p1 2 58)"
proof -
  obtain p where p: "pather_init tracka_nodes = Some p" "res_wf tracka_nodes p" "\<And>i. i < TRACK_MAX \<Longrightarrow> pr_reserv p ! i = reserv_init"
    by (rule pather_init_wf [OF wf_tracka]) (rule that, assumption+)
  obtain q where q: "node_list q [2]" by (rule node_list_one)
  let ?p = "p\<lparr>pr_reserv := (pr_reserv p)[2 := \<lparr>rv_train = 58, rv_reserved = True\<rparr>]\<rparr>"
  have i: "init_tracka (replicate 144 zero_node) = Some tracka_nodes" by (rule init_tracka_nodes) simp
  have l: "length (pr_reserv p) = TRACK_MAX" "length (pr_nreservs p) = TRAIN_MAX" using p(2) by (simp_all add: res_wf_def)
  have n: "\<forall>x \<in> set [2]. x < TRACK_MAX \<and> n_type (tracka_nodes ! x) \<noteq> NODE_NONE" using tracka_sensors [of 2] by simp
  have tr: "0 \<le> (24 :: int)" "24 < int TRAIN_MAX" and len: "length (replicate 144 zero_node) = TRACK_MAX" by simp_all
  have l': "length (pr_reserv ?p) = TRACK_MAX" "length (pr_nreservs ?p) = TRAIN_MAX" using l by simp_all
  note ex = reserve_region_exclusive [OF disjI1 [OF i] len same_graph_refl _ _ tr q n]
  from ex [OF l] obtain r t' p' where 1: "reserve_nodes q 0 tracka_nodes p 24 = Some (r, t', p')"
    "\<forall>j<TRACK_MAX. reserv_kept p p' j \<or> owned p' j 24 \<and> may_take tracka_nodes p [2] j"
    "if \<exists>x \<in> set [2]. taken p' x 24 then r = - 1 else r = 0 \<and> (\<forall>x \<in> set [2]. owned p' x 24)"
    by blast
  have "\<not> taken p' 2 24" using 1(2) [rule_format, of 2] p(3) [of 2] by (auto simp: taken_def owned_def reserv_kept_def reserv_init_def)
  then have "r = 0" "owned p' 2 24" using 1(3) by simp_all
  moreover from ex [OF l'] obtain r1 t1 p1 where 2: "reserve_nodes q 0 tracka_nodes ?p 24 = Some (r1, t1, p1)"
    "\<forall>x \<in> set [2]. taken ?p x 24 \<and> \<not> may_take tracka_nodes ?p [2] x \<longrightarrow> r1 = - 1 \<and> reserv_kept ?p p1 x"
    by blast
  have "taken ?p 2 24" "\<not> may_take tracka_nodes ?p [2] 2" using l(1) by (simp_all add: taken_def may_take_def)
  then have "r1 = - 1" "owned p1 2 58" using 2(2) l(1) by (simp_all add: reserv_kept_def owned_def)
  ultimately show ?thesis using p(1) q 1(1) 2(1) by (intro exI [of _ q] exI [of _ p] exI [of _ t'] exI [of _ p'] exI [of _ t1]) simp
qed

text \<open>C39: On both tracks, for every node whose zone (the nodes a reservation of it marks) is free,
  \<^verbatim>\<open>pather_reserve_node\<close> grants it and \<^verbatim>\<open>pather_free_node\<close> by the same train then restores the
  nodes, the reservations and the counts to what they were.\<close>

theorem reserve_free_roundtrip:
  assumes "init_tracka t0 = Some ta \<or> init_trackb t0 = Some ta" "length t0 = TRACK_MAX" "same_graph ta t"
    and "length (pr_reserv p) = TRACK_MAX" "length (pr_nreservs p) = TRAIN_MAX" "0 \<le> trn" "trn < int TRAIN_MAX"
    and "i < TRACK_MAX" "n_type (t ! i) \<noteq> NODE_NONE" "res_zone t (Some i) = Some (map Some xs)"
    and "\<forall>j \<in> set xs. pr_reserv p ! j = reserv_init \<and> n_reserver (t ! j) = - 1"
  shows "\<exists>t' p'. pather_reserve_node t p trn (Some i) = Some (0, t', p') \<and>
    pather_free_node t' p' trn (Some i) = Some (0, t, p)"
proof -
  have "wf_track ta" using assms(1,2) init_tracka_nodes init_trackb_nodes wf_tracka wf_trackb by auto
  then have "res_wf t p" using same_graph_wf [OF assms(3)] assms(4,5) by (simp add: res_wf_def)
  from free_after_reserve [OF this assms(8,9,6,7,10,11)] show ?thesis .
qed

lemma zone_114: "res_zone tracka_nodes (Some 114) = Some [Some 114, Some 38, Some 90]"
  by (simp add: res_zone_def dest_reverse_def node_at_def tracka_at)

lemma zone_47: "res_zone tracka_nodes (Some 47) = Some [Some 90, Some 114, Some 47]"
  by (simp add: res_zone_def dest_reverse_def node_at_def tracka_at)

text \<open>The nodes of track A with reservers that say that nobody holds them.\<close>

definition free_nodes :: track where
  "free_nodes = map (\<lambda>n. n\<lparr>n_reserver := - 1\<rparr>) tracka_nodes"

lemma free_nodes_graph: "same_graph tracka_nodes free_nodes"
  by (simp add: same_graph_def free_nodes_def)

theorem reserve_free_roundtrip_witness:
  "\<exists>p t' p'. pather_init free_nodes = Some p \<and> pather_reserve_node free_nodes p 24 (Some 114) = Some (0, t', p') \<and>
     pather_free_node t' p' 24 (Some 114) = Some (0, free_nodes, p)"
proof -
  obtain p where p: "pather_init free_nodes = Some p" "res_wf free_nodes p"
    "\<And>i. i < TRACK_MAX \<Longrightarrow> pr_reserv p ! i = reserv_init"
    by (rule pather_init_wf [OF same_graph_wf [OF free_nodes_graph wf_tracka]]) (rule that, assumption+)
  have "init_tracka (replicate 144 zero_node) = Some tracka_nodes" by (rule init_tracka_nodes) simp
  moreover have "res_zone free_nodes (Some 114) = Some (map Some [114, 38, 90])"
    using zone_114 by (simp add: res_zone_same [OF free_nodes_graph])
  moreover have "n_type (free_nodes ! 114) \<noteq> NODE_NONE" by (simp add: free_nodes_def tracka_at)
  moreover have "\<forall>j \<in> set [114, 38, 90]. pr_reserv p ! j = reserv_init \<and> n_reserver (free_nodes ! j) = - 1"
    using p(3) by (simp add: free_nodes_def)
  ultimately show ?thesis
    using reserve_free_roundtrip [of "replicate 144 zero_node" tracka_nodes free_nodes p 24 114 "[114, 38, 90]"]
      free_nodes_graph p(1,2) by (auto simp: res_wf_def)
qed

text \<open>A reservation is not exclusive: on track A, from the start, train 24 reserves the branch BR18
  (node 114), then train 58 reserves the sensor C16 (node 47) and is granted it; now BR18, which train 24
  reserved and never freed, is train 58's, and train 24 cannot free it. The zone of node 47
  has the two branches that face each other over the curved track, of which only node 47 was checked.\<close>

theorem reservation_stolen:
  "\<exists>p t1 p1 t2 p2. pather_init tracka_nodes = Some p \<and>
     pather_reserve_node tracka_nodes p 24 (Some 114) = Some (0, t1, p1) \<and> owned p1 114 24 \<and>
     pather_reserve_node t1 p1 58 (Some 47) = Some (0, t2, p2) \<and> owned p2 114 58 \<and>
     pather_free_node t2 p2 24 (Some 114) = Some (- 1, t2, p2)"
proof -
  have wf: "wf_track tracka_nodes" by (rule wf_tracka)
  obtain p where p: "pather_init tracka_nodes = Some p" "res_wf tracka_nodes p"
    and init: "\<And>i. i < TRACK_MAX \<Longrightarrow> pr_reserv p ! i = reserv_init"
    by (rule pather_init_wf [OF wf]) (rule that, assumption+)
  have 1: "114 < TRACK_MAX" "n_type (tracka_nodes ! 114) \<noteq> NODE_NONE" "\<not> rv_reserved (pr_reserv p ! 114)"
    using init by (simp_all add: tracka_at reserv_init_def)
  obtain t1 rs1 xs1 where r1: "res_zone tracka_nodes (Some 114) = Some (map Some xs1)" "114 \<in> set xs1" "set xs1 \<subseteq> {..<TRACK_MAX}"
    "pather_reserve_node tracka_nodes p 24 (Some 114) = Some (0, t1, p\<lparr>pr_reserv := rs1,
       pr_nreservs := (pr_nreservs p)[nat 24 := pr_nreservs p ! nat 24 + 1]\<rparr>)"
    "same_graph tracka_nodes t1" "length rs1 = TRACK_MAX"
    "\<And>j. j < TRACK_MAX \<Longrightarrow> n_reserver (t1 ! j) = (if j \<in> set xs1 then 24 else n_reserver (tracka_nodes ! j))"
    "\<And>j. j < TRACK_MAX \<Longrightarrow> rs1 ! j = (if j \<in> set xs1 then reservation_reserve (pr_reserv p ! j) 24 else pr_reserv p ! j)"
    by (rule reserve_node_free [OF p(2) 1(1,2) _ _ 1(3), of 24], simp, simp) (rule that, assumption+)
  let ?p1 = "p\<lparr>pr_reserv := rs1, pr_nreservs := (pr_nreservs p)[nat 24 := pr_nreservs p ! nat 24 + 1]\<rparr>"
  have "map Some xs1 = map Some [114, 38, 90]" using r1(1) zone_114 by simp
  then have xs1: "xs1 = [114, 38, 90]" by (simp only: inj_map_eq_map [OF inj_Some])
  have own1: "owned ?p1 114 24" using r1(8) [of 114] xs1 by (simp add: owned_def reservation_reserve_def)
  have wf1: "res_wf t1 ?p1" using p(2) r1(5,6) same_graph_wf [OF r1(5) wf] by (simp add: res_wf_def)
  have 2: "47 < TRACK_MAX" "n_type (t1 ! 47) \<noteq> NODE_NONE" "\<not> rv_reserved (pr_reserv ?p1 ! 47)"
    using r1(8) [of 47] init [of 47] xs1 tracka_sensors [of 47] same_node(1) [OF r1(5), of 47]
    by (simp_all add: reserv_init_def)
  obtain t2 rs2 xs2 where r2: "res_zone t1 (Some 47) = Some (map Some xs2)" "47 \<in> set xs2" "set xs2 \<subseteq> {..<TRACK_MAX}"
    "pather_reserve_node t1 ?p1 58 (Some 47) = Some (0, t2, ?p1\<lparr>pr_reserv := rs2,
       pr_nreservs := (pr_nreservs ?p1)[nat 58 := pr_nreservs ?p1 ! nat 58 + 1]\<rparr>)"
    "same_graph t1 t2" "length rs2 = TRACK_MAX"
    "\<And>j. j < TRACK_MAX \<Longrightarrow> n_reserver (t2 ! j) = (if j \<in> set xs2 then 58 else n_reserver (t1 ! j))"
    "\<And>j. j < TRACK_MAX \<Longrightarrow> rs2 ! j = (if j \<in> set xs2 then reservation_reserve (pr_reserv ?p1 ! j) 58 else pr_reserv ?p1 ! j)"
    by (rule reserve_node_free [OF wf1 2(1,2) _ _ 2(3), of 58], simp, simp) (rule that, assumption+)
  let ?p2 = "?p1\<lparr>pr_reserv := rs2, pr_nreservs := (pr_nreservs ?p1)[nat 58 := pr_nreservs ?p1 ! nat 58 + 1]\<rparr>"
  have "map Some xs2 = map Some [90, 114, 47]" using r2(1) zone_47 by (simp add: res_zone_same [OF r1(5)])
  then have xs2: "xs2 = [90, 114, 47]" by (simp only: inj_map_eq_map [OF inj_Some])
  have own2: "owned ?p2 114 58" using r2(8) [of 114] xs2 by (simp add: owned_def reservation_reserve_def)
  have "wf_track t2" using same_graph_wf [OF r2(5)] wf1 by (simp add: res_wf_def)
  then have "pather_free_node t2 ?p2 24 (Some 114) = Some (- 1, t2, ?p2)"
    using own2 r2(6) by (simp add: pather_free_node_def wf_id agetz_in owned_def)
  then show ?thesis using p(1) r1(4) own1 r2(4) own2 by blast
qed

text \<open>Whatever the reservation manager has served since its start, the route it finds for a train is
  the one that is found with no reservation at all: the search looks for the reservers in the copies of
  the nodes, and the reservations write them in the original. Its assertion never fails.\<close>

theorem search_ignores_reservations:
  assumes "rm_reached t0 t p" "TRACK_MAX \<le> length t0"
  shows "res_path_find q (pr_track p) s d prev trn = dij_path_find (pr_track p) s d prev q \<and>
    pr_track p = map (\<lambda>n. n\<lparr>n_reserver := - 1\<rparr>) (take TRACK_MAX t0)"
proof
  show tr: "pr_track p = map (\<lambda>n. n\<lparr>n_reserver := - 1\<rparr>) (take TRACK_MAX t0)"
    by (rule rm_reached_copies [OF assms(1)])
  have "path_search (unreserved_edges trn) (pr_track p) s d prev q = path_search all_edges (pr_track p) s d prev q"
    by (rule path_search_sel) (auto simp: tr unreserved_edges_def)
  then show "res_path_find q (pr_track p) s d prev trn = dij_path_find (pr_track p) s d prev q"
    by (simp add: res_path_find_def dij_path_find_def)
qed

theorem search_ignores_reservations_witness:
  "\<exists>p. pather_init tracka_nodes = Some p \<and>
     res_path_find tq_new (pr_track p) (Some 2) (Some 44) (replicate 144 0) 24 =
       dij_path_find (pr_track p) (Some 2) (Some 44) (replicate 144 0) tq_new"
proof -
  obtain p where p: "pather_init tracka_nodes = Some p" by (rule pather_init_wf [OF wf_tracka])
  have "TRACK_MAX \<le> length tracka_nodes" by simp
  from search_ignores_reservations [OF rm_reached.start [OF p] this, of tq_new "Some 2" "Some 44" "replicate 144 0" 24] p
  show ?thesis by blast
qed

end
