(* ===== verification/EventWindow.thy ===== *)
theory EventWindow
  imports TrackNode
begin

text \<open>
  Event windows, lib/train/event_window.c. A window groups the keys of the sensor events that are
  expected together; the manager holds \<open>TRACK_MAX\<close> windows, each either available or queued, and maps
  the keys in use to their windows. An \<^verbatim>\<open>event_window *\<close> is the window's index in the manager's array.
\<close>

section \<open>Data\<close>

abbreviation KEY_MAX :: nat where "KEY_MAX \<equiv> 64"
abbreviation EVENT_MAX :: nat where "EVENT_MAX \<equiv> 3"
abbreviation (input) EV_HIT :: nat where "EV_HIT \<equiv> 1"
abbreviation (input) EV_TIMEOUT :: nat where "EV_TIMEOUT \<equiv> 2"

(* src/include/lib/train/event_window.h:31-36 *)
record event_window =
  ew_key_offset :: int
  ew_node :: node_ptr
  ew_nevents :: int
  ew_num_event :: "int list"

(* src/include/lib/train/event_window.h:40-46 *)
record ev_wm =
  wm_window :: "event_window list"
  wm_avail :: "nat cbuf"
  wm_queue :: "nat cbuf"
  wm_map :: "nat option list"
  wm_key :: int

section \<open>Operations\<close>

(* src/src/lib/train/event_window.c:6-15 *)
definition event_window_init :: event_window where
  "event_window_init = \<lparr>ew_key_offset = - 1, ew_node = None, ew_nevents = 0, ew_num_event = replicate EVENT_MAX 0\<rparr>"

(* src/src/lib/train/event_window.c:26-31 *)
fun ev_push_windows :: "nat list \<Rightarrow> nat cbuf \<Rightarrow> nat cbuf option" where
  "ev_push_windows [] q = Some q"
| "ev_push_windows (i # is) q = do {
     (r, q) \<leftarrow> cb_push TRACK_MAX i q;
     kassert (r \<noteq> CB_E_FULL);
     ev_push_windows is q }"

text \<open>The manager before its initialisation is an argument: only the buffers' cells remain.\<close>

(* src/src/lib/train/event_window.c:18-36 *)
definition ev_wm_init :: "ev_wm \<Rightarrow> ev_wm option" where
  "ev_wm_init wm = do {
     q \<leftarrow> ev_push_windows [0..<TRACK_MAX] (cb_init (wm_avail wm));
     Some \<lparr>wm_window = replicate TRACK_MAX event_window_init, wm_avail = q, wm_queue = cb_init (wm_queue wm),
           wm_map = replicate KEY_MAX None, wm_key = 0\<rparr> }"

(* src/src/lib/train/event_window.c:43-73 *)
definition ev_wm_add_to_window :: "ev_wm \<Rightarrow> int \<Rightarrow> node_ptr \<Rightarrow> (int \<times> ev_wm) option" where
  "ev_wm_add_to_window wm key node = do {
     kassert (0 \<le> key \<and> key < int KEY_MAX);
     m \<leftarrow> agetz (wm_map wm) key;
     if m \<noteq> None then Some (- 1, wm)
     else do {
       (r, w) \<leftarrow> cb_get TRACK_MAX 0 (wm_avail wm);
       kassert (r = CB_E_NONE);
       w \<leftarrow> w;
       win \<leftarrow> aget (wm_window wm) w;
       let win = (if ew_node win = None
         then win\<lparr>ew_key_offset := key, ew_node := node, ew_nevents := 0, ew_num_event := replicate EVENT_MAX 0\<rparr>
         else win);
       ws \<leftarrow> aset (wm_window wm) w (win\<lparr>ew_nevents := ew_nevents win + 1\<rparr>);
       mp \<leftarrow> asetz (wm_map wm) key (Some w);
       Some (0, wm\<lparr>wm_window := ws, wm_map := mp\<rparr>) } }"

text \<open>The codes of the buffers, as \<^verbatim>\<open>int\<close>: they are 0 exactly for success.\<close>

fun cb_int :: "cb_code \<Rightarrow> int" where
  "cb_int CB_E_NONE = 0"
| "cb_int CB_E_FULL = 1"
| "cb_int CB_E_EMPTY = 2"
| "cb_int CB_E_DNE = 3"
| "cb_int CB_E_OOB = 4"

(* src/src/lib/train/event_window.c:77-84 *)
definition ev_wm_next_window :: "ev_wm \<Rightarrow> (int \<times> ev_wm) option" where
  "ev_wm_next_window wm = do {
     (r, w, a) \<leftarrow> cb_pop TRACK_MAX (wm_avail wm);
     if r \<noteq> CB_E_NONE then Some (cb_int r, wm)
     else do {
       w \<leftarrow> w;
       (r, q) \<leftarrow> cb_push TRACK_MAX w (wm_queue wm);
       Some (cb_int r, wm\<lparr>wm_avail := a, wm_queue := q\<rparr>) } }"

(* src/src/lib/train/event_window.c:87-89 *)
definition ev_wm_next_key :: "ev_wm \<Rightarrow> ev_wm" where
  "ev_wm_next_key wm = wm\<lparr>wm_key := c_mod (wm_key wm + 1) (int KEY_MAX)\<rparr>"

(* src/src/lib/train/event_window.c:99-120 *)
definition ev_wm_res_to_window :: "ev_wm \<Rightarrow> int \<Rightarrow> int \<Rightarrow> (int \<times> ev_wm) option" where
  "ev_wm_res_to_window wm key res = do {
     kassert (0 \<le> key \<and> key < int KEY_MAX);
     kassert (0 \<le> res \<and> res < int EVENT_MAX);
     m \<leftarrow> agetz (wm_map wm) key;
     case m of None \<Rightarrow> Some (- 1, wm)
     | Some w \<Rightarrow> do {
         win \<leftarrow> aget (wm_window wm) w;
         k \<leftarrow> agetz (ew_num_event win) res;
         ne \<leftarrow> asetz (ew_num_event win) res (k + 1);
         ws \<leftarrow> aset (wm_window wm) w (win\<lparr>ew_num_event := ne\<rparr>);
         to \<leftarrow> aget ne EV_TIMEOUT;
         hit \<leftarrow> aget ne EV_HIT;
         Some (if ew_nevents win = to then 1 else if 1 < hit then 2 else if ew_nevents win = to + hit then 3 else 0,
               wm\<lparr>wm_window := ws\<rparr>) } }"

text \<open>The entries of \<open>n\<close> keys from \<open>k\<close> on, modulo \<open>KEY_MAX\<close>.\<close>

(* src/src/lib/train/event_window.c:141-145 *)
fun ev_clear_keys :: "nat \<Rightarrow> int \<Rightarrow> nat option list \<Rightarrow> nat option list option" where
  "ev_clear_keys 0 k mp = Some mp"
| "ev_clear_keys (Suc n) k mp = do {
     mp \<leftarrow> asetz mp (c_mod k (int KEY_MAX)) None;
     ev_clear_keys n (k + 1) mp }"

(* src/src/lib/train/event_window.c:123-153 *)
definition ev_wm_delete_if_complete :: "ev_wm \<Rightarrow> int \<Rightarrow> (int \<times> ev_wm) option" where
  "ev_wm_delete_if_complete wm key = do {
     kassert (0 \<le> key \<and> key < int KEY_MAX);
     m \<leftarrow> agetz (wm_map wm) key;
     case m of None \<Rightarrow> Some (- 1, wm)
     | Some w \<Rightarrow> do {
         win \<leftarrow> aget (wm_window wm) w;
         to \<leftarrow> aget (ew_num_event win) EV_TIMEOUT;
         hit \<leftarrow> aget (ew_num_event win) EV_HIT;
         if ew_nevents win \<noteq> to + hit then Some (- 2, wm)
         else do {
           (r, q) \<leftarrow> cb_rem TRACK_MAX w (wm_queue wm);
           if r \<noteq> CB_E_NONE then Some (- 3, wm\<lparr>wm_queue := q\<rparr>)
           else do {
             mp \<leftarrow> ev_clear_keys (nat (ew_nevents win)) (ew_key_offset win) (wm_map wm);
             ws \<leftarrow> aset (wm_window wm) w event_window_init;
             (r, a) \<leftarrow> cb_push TRACK_MAX w (wm_avail wm);
             let wm = wm\<lparr>wm_window := ws, wm_avail := a, wm_queue := q, wm_map := mp\<rparr>;
             Some (if r \<noteq> CB_E_NONE then - 4 else 0, wm) } } } }"

(* src/src/lib/train/event_window.c:156-161 *)
definition ev_wm_get_window_tn :: "ev_wm \<Rightarrow> int \<Rightarrow> node_ptr option" where
  "ev_wm_get_window_tn wm key = do {
     kassert (0 \<le> key \<and> key < int KEY_MAX);
     m \<leftarrow> agetz (wm_map wm) key;
     w \<leftarrow> m;
     win \<leftarrow> aget (wm_window wm) w;
     Some (ew_node win) }"

text \<open>A window given back: its node and its key offset are reset, and it is available.\<close>

(* src/src/lib/train/event_window.c:176-180 *)
definition ev_release :: "ev_wm \<Rightarrow> nat \<Rightarrow> (cb_code \<times> ev_wm) option" where
  "ev_release wm w = do {
     win \<leftarrow> aget (wm_window wm) w;
     ws \<leftarrow> aset (wm_window wm) w (win\<lparr>ew_node := None, ew_key_offset := - 1\<rparr>);
     (r, a) \<leftarrow> cb_push TRACK_MAX w (wm_avail wm);
     Some (r, wm\<lparr>wm_window := ws, wm_avail := a\<rparr>) }"

(* src/src/lib/train/event_window.c:169-183 *)
partial_function (option) ev_delete_loop :: "ev_wm \<Rightarrow> (int \<times> ev_wm) option" where
  "ev_delete_loop wm =
     (if 0 < cb_size (wm_queue wm) then do {
        (r, w, q) \<leftarrow> cb_pop TRACK_MAX (wm_queue wm);
        kassert (r = CB_E_NONE);
        w \<leftarrow> w;
        win \<leftarrow> aget (wm_window wm) w;
        mp \<leftarrow> ev_clear_keys (nat (ew_nevents win)) (ew_key_offset win) (wm_map wm);
        (r, wm) \<leftarrow> ev_release (wm\<lparr>wm_queue := q, wm_map := mp\<rparr>) w;
        kassert (r = CB_E_NONE);
        ev_delete_loop wm }
      else Some (0, wm))"

(* src/src/lib/train/event_window.c:163-184 *)
definition ev_wm_delete_all :: "ev_wm \<Rightarrow> (int \<times> ev_wm) option" where
  "ev_wm_delete_all wm = do {
     kassert (cb_size (wm_queue wm) + cb_size (wm_avail wm) = of_nat TRACK_MAX);
     ev_delete_loop wm }"

text \<open>The inner loop of \<^verbatim>\<open>ev_wm_invalidate_after\<close> runs until \<open>k\<close> equals the end; \<open>k\<close> is reduced modulo
  \<open>KEY_MAX\<close>, the end is not. \<open>None\<close> is also the value of a loop that does not end.\<close>

(* src/src/lib/train/event_window.c:214-218 *)
partial_function (option) ev_unmap :: "int \<Rightarrow> int \<Rightarrow> nat option list \<Rightarrow> nat option list option" where
  "ev_unmap k stop mp =
     (if k \<noteq> stop then do {
        mp \<leftarrow> asetz mp k None;
        ev_unmap (c_mod (k + 1) (int KEY_MAX)) stop mp }
      else Some mp)"

(* src/src/lib/train/event_window.c:195-227 *)
partial_function (option) ev_invalidate_loop :: "nat option \<Rightarrow> ev_wm \<Rightarrow> (int \<times> ev_wm) option" where
  "ev_invalidate_loop end' wm =
     (if cb_size (wm_queue wm) = 0 then do {
        kassert (cb_size (wm_queue wm) + cb_size (wm_avail wm) = of_nat TRACK_MAX);
        Some (0, wm) }
      else do {
        (r, w, q) \<leftarrow> cb_pop_end TRACK_MAX (wm_queue wm);
        if r \<noteq> CB_E_NONE then Some (- 1, wm)
        else do {
          w \<leftarrow> w;
          win \<leftarrow> aget (wm_window wm) w;
          kassert (0 \<le> ew_nevents win);
          if Some w = end' then do {
            (r, q) \<leftarrow> cb_push TRACK_MAX w q;
            let wm = wm\<lparr>wm_queue := q\<rparr>;
            if r \<noteq> CB_E_NONE then Some (- 1, wm)
            else do {
              kassert (cb_size (wm_queue wm) + cb_size (wm_avail wm) = of_nat TRACK_MAX);
              Some (0, wm) } }
          else do {
            mp \<leftarrow> ev_unmap (ew_key_offset win) (ew_key_offset win + ew_nevents win) (wm_map wm);
            (r, wm) \<leftarrow> ev_release (wm\<lparr>wm_queue := q, wm_map := mp\<rparr>) w;
            if r \<noteq> CB_E_NONE then Some (- 1, wm)
            else ev_invalidate_loop end' wm } } })"

(* src/src/lib/train/event_window.c:186-228 *)
definition ev_wm_invalidate_after :: "ev_wm \<Rightarrow> int \<Rightarrow> (int \<times> ev_wm) option" where
  "ev_wm_invalidate_after wm key = do {
     kassert (0 \<le> key \<and> key < int KEY_MAX);
     end' \<leftarrow> agetz (wm_map wm) key;
     ev_invalidate_loop end' wm }"

section \<open>The windows are never lost\<close>

text \<open>\<open>ev_ok wm qs as\<close>: \<open>qs\<close> are the queued windows and \<open>as\<close> the available ones; together they are all
  windows, each once. A queued window has its first key and at least one event; of the available ones
  only the first may have been opened.\<close>

definition opened :: "event_window \<Rightarrow> bool" where
  "opened win \<longleftrightarrow> 0 \<le> ew_key_offset win \<and> ew_key_offset win < int KEY_MAX \<and> 0 < ew_nevents win \<and> ew_node win \<noteq> None"

definition closed :: "event_window \<Rightarrow> bool" where
  "closed win \<longleftrightarrow> ew_key_offset win = - 1 \<and> ew_node win = None"

definition ev_ok :: "ev_wm \<Rightarrow> nat list \<Rightarrow> nat list \<Rightarrow> bool" where
  "ev_ok wm qs as \<longleftrightarrow>
     (cb_wf TRACK_MAX (wm_queue wm) \<and> cb_list TRACK_MAX (wm_queue wm) = qs) \<and>
     (cb_wf TRACK_MAX (wm_avail wm) \<and> cb_list TRACK_MAX (wm_avail wm) = as) \<and>
     (distinct (qs @ as) \<and> set (qs @ as) = {..<TRACK_MAX}) \<and>
     (length (wm_window wm) = TRACK_MAX \<and> (\<forall>w<TRACK_MAX. length (ew_num_event (wm_window wm ! w)) = EVENT_MAX)) \<and>
     (length (wm_map wm) = KEY_MAX \<and> (\<forall>k<KEY_MAX. \<forall>w. wm_map wm ! k = Some w \<longrightarrow> w < TRACK_MAX)) \<and>
     (\<forall>w \<in> set qs. opened (wm_window wm ! w)) \<and>
     (\<forall>w \<in> set (tl as). closed (wm_window wm ! w)) \<and>
     (as \<noteq> [] \<longrightarrow> opened (wm_window wm ! hd as) \<or> closed (wm_window wm ! hd as))"

lemma ev_okD:
  assumes "ev_ok wm qs as"
  shows "cb_wf TRACK_MAX (wm_queue wm)" "cb_list TRACK_MAX (wm_queue wm) = qs"
    "cb_wf TRACK_MAX (wm_avail wm)" "cb_list TRACK_MAX (wm_avail wm) = as"
    "distinct (qs @ as)" "set (qs @ as) = {..<TRACK_MAX}" "length (wm_window wm) = TRACK_MAX"
    "\<And>w. w < TRACK_MAX \<Longrightarrow> length (ew_num_event (wm_window wm ! w)) = EVENT_MAX"
    "length (wm_map wm) = KEY_MAX" "\<And>k w. k < KEY_MAX \<Longrightarrow> wm_map wm ! k = Some w \<Longrightarrow> w < TRACK_MAX"
    "\<And>w. w \<in> set qs \<Longrightarrow> opened (wm_window wm ! w)" "\<And>w. w \<in> set (tl as) \<Longrightarrow> closed (wm_window wm ! w)"
    "as \<noteq> [] \<Longrightarrow> opened (wm_window wm ! hd as) \<or> closed (wm_window wm ! hd as)"
  using assms unfolding ev_ok_def by blast+

lemma ev_ok_total: "ev_ok wm qs as \<Longrightarrow> length qs + length as = TRACK_MAX"
  using distinct_card [of "qs @ as"] by (simp add: ev_ok_def)

lemma ev_ok_sizes:
  assumes "ev_ok wm qs as"
  shows "cb_size (wm_queue wm) + cb_size (wm_avail wm) = of_nat TRACK_MAX"
proof -
  have "unat (cb_size (wm_queue wm)) = length qs" "unat (cb_size (wm_avail wm)) = length as"
    using length_cb_list [of TRACK_MAX "wm_queue wm"] length_cb_list [of TRACK_MAX "wm_avail wm"] ev_okD(2,4) [OF assms]
    by simp_all
  moreover have "length qs + length as = TRACK_MAX" by (rule ev_ok_total [OF assms])
  ultimately have "unat (cb_size (wm_queue wm)) + unat (cb_size (wm_avail wm)) = TRACK_MAX" by linarith
  then show ?thesis by (simp add: word_unat_eq_iff unat_word_ariths)
qed

lemma ev_push_windows_ok:
  "cb_wf TRACK_MAX q \<Longrightarrow> length (cb_list TRACK_MAX q) + length ws \<le> TRACK_MAX \<Longrightarrow>
   \<exists>q'. ev_push_windows ws q = Some q' \<and> cb_wf TRACK_MAX q' \<and> cb_list TRACK_MAX q' = cb_list TRACK_MAX q @ ws"
proof (induction ws arbitrary: q)
  case (Cons w ws)
  obtain q1 where "cb_push TRACK_MAX w q = Some (CB_E_NONE, q1)" "cb_wf TRACK_MAX q1"
    "cb_list TRACK_MAX q1 = cb_list TRACK_MAX q @ [w]"
    using cbq.push_room [OF Cons.prems(1), of w] Cons.prems(2) by auto
  then show ?case using Cons.IH [of q1] Cons.prems(2) by auto
qed simp

lemma ev_wm_init_ok:
  assumes "length (cb_buf (wm_avail wm0)) = TRACK_MAX" "length (cb_buf (wm_queue wm0)) = TRACK_MAX"
  shows "\<exists>wm. ev_wm_init wm0 = Some wm \<and> ev_ok wm [] [0..<TRACK_MAX]"
proof -
  have a: "cb_wf TRACK_MAX (cb_init (wm_avail wm0))" "cb_wf TRACK_MAX (cb_init (wm_queue wm0))"
    using assms by (simp_all add: cb_init_wf)
  obtain q where q: "ev_push_windows [0..<TRACK_MAX] (cb_init (wm_avail wm0)) = Some q" "cb_wf TRACK_MAX q"
    "cb_list TRACK_MAX q = [0..<TRACK_MAX]"
    using ev_push_windows_ok [OF a(1), of "[0..<TRACK_MAX]"] by (auto simp del: upt_rec_numeral)
  have "closed event_window_init" by (simp add: closed_def event_window_init_def)
  moreover have "set (tl [0..<TRACK_MAX]) \<subseteq> {..<TRACK_MAX}" by (simp only: tl_upt) auto
  ultimately show ?thesis
    using a q unfolding ev_ok_def ev_wm_init_def
    by (auto simp: event_window_init_def subset_iff simp del: upt_rec_numeral)
qed

lemma ev_ok_window:
  assumes ok: "ev_ok wm qs as" and win: "length (ew_num_event win) = EVENT_MAX"
    and st: "w \<in> set qs \<Longrightarrow> opened win" "w \<in> set (tl as) \<Longrightarrow> closed win" "as \<noteq> [] \<Longrightarrow> w = hd as \<Longrightarrow> opened win \<or> closed win"
  shows "ev_ok (wm\<lparr>wm_window := (wm_window wm)[w := win]\<rparr>) qs as"
proof -
  have "opened ((wm_window wm)[w := win] ! v)" if "v \<in> set qs" for v
    using that st(1) ev_okD(11) [OF ok] by (cases "v = w"; cases "w < length (wm_window wm)") (auto simp: list_update_beyond)
  moreover have "closed ((wm_window wm)[w := win] ! v)" if "v \<in> set (tl as)" for v
    using that st(2) ev_okD(12) [OF ok] by (cases "v = w"; cases "w < length (wm_window wm)") (auto simp: list_update_beyond)
  moreover have "opened ((wm_window wm)[w := win] ! hd as) \<or> closed ((wm_window wm)[w := win] ! hd as)" if "as \<noteq> []"
    using that st(3) ev_okD(13) [OF ok] by (cases "hd as = w"; cases "w < length (wm_window wm)") (auto simp: list_update_beyond)
  moreover have "length (ew_num_event ((wm_window wm)[w := win] ! v)) = EVENT_MAX" if "v < TRACK_MAX" for v
    using that win ev_okD(7,8) [OF ok] by (cases "v = w") auto
  ultimately show ?thesis
    using ok unfolding ev_ok_def by simp
qed

lemma ev_ok_map:
  assumes ok: "ev_ok wm qs as" and mp: "length mp = KEY_MAX" "\<And>k w. k < KEY_MAX \<Longrightarrow> mp ! k = Some w \<Longrightarrow> w < TRACK_MAX"
  shows "ev_ok (wm\<lparr>wm_map := mp\<rparr>) qs as"
  using ok mp unfolding ev_ok_def by simp

lemma ev_ok_cleared:
  assumes ok: "ev_ok wm qs as" and mp: "length mp = KEY_MAX" "\<forall>i<KEY_MAX. mp ! i = wm_map wm ! i \<or> mp ! i = None"
  shows "ev_ok (wm\<lparr>wm_map := mp\<rparr>) qs as"
proof (rule ev_ok_map [OF ok mp(1)])
  fix k w
  assume "k < KEY_MAX" "mp ! k = Some w"
  then have "wm_map wm ! k = Some w" using mp(2) by force
  then show "w < TRACK_MAX" by (rule ev_okD(10) [OF ok \<open>k < KEY_MAX\<close>])
qed

lemma ev_ok_key: "ev_ok wm qs as \<Longrightarrow> ev_ok (wm\<lparr>wm_key := k\<rparr>) qs as"
  unfolding ev_ok_def by simp

section \<open>Each operation\<close>

lemma ev_add_ok:
  assumes ok: "ev_ok wm qs as" and key: "0 \<le> key" "key < int KEY_MAX" and node: "node \<noteq> None" and as: "as \<noteq> []"
  shows "\<exists>r wm'. ev_wm_add_to_window wm key node = Some (r, wm') \<and> ev_ok wm' qs as \<and> (r = 0 \<or> r = - 1) \<and>
    (r = 0 \<longrightarrow> opened (wm_window wm' ! hd as) \<and> wm_map wm' ! nat key = Some (hd as))"
proof (cases "wm_map wm ! nat key")
  case (Some w)
  then show ?thesis using ok key ev_okD(9) [OF ok] by (simp add: ev_wm_add_to_window_def agetz_def)
next
  case None
  let ?w = "hd as"
  let ?win = "wm_window wm ! ?w"
  let ?win1 = "if ew_node ?win = None then ?win\<lparr>ew_key_offset := key, ew_node := node, ew_nevents := 0,
      ew_num_event := replicate EVENT_MAX 0\<rparr> else ?win"
  let ?win2 = "?win1\<lparr>ew_nevents := ew_nevents ?win1 + 1\<rparr>"
  let ?wm = "wm\<lparr>wm_window := (wm_window wm)[?w := ?win2]\<rparr>"
  let ?wm2 = "?wm\<lparr>wm_map := (wm_map wm)[nat key := Some ?w]\<rparr>"
  have "?w \<in> set (qs @ as)" using hd_in_set [OF as] by simp
  then have w: "?w < TRACK_MAX" unfolding ev_okD(6) [OF ok] by simp
  have "cb_get TRACK_MAX (int 0) (wm_avail wm) = Some (CB_E_NONE, Some (cb_list TRACK_MAX (wm_avail wm) ! 0))"
    by (rule cbx.get_nth) (use ev_okD(3,4) [OF ok] as in auto)
  then have get: "cb_get TRACK_MAX 0 (wm_avail wm) = Some (CB_E_NONE, Some ?w)"
    using ev_okD(4) [OF ok] as by (simp add: hd_conv_nth)
  have eq: "ev_wm_add_to_window wm key node = Some (0, ?wm2)"
    using None get key w ev_okD(7,9) [OF ok] by (simp add: ev_wm_add_to_window_def agetz_def asetz_def Let_def)
  have op: "opened ?win2"
    using ev_okD(13) [OF ok as] key node by (auto simp: opened_def closed_def)
  have "?w \<notin> set (tl as)" using ev_okD(5) [OF ok] as by (cases as) auto
  then have "ev_ok ?wm qs as"
    by (intro ev_ok_window [OF ok]) (use op ev_okD(8) [OF ok w] in auto)
  then have "ev_ok ?wm2 qs as"
    by (rule ev_ok_map) (use w key ev_okD(9,10) [OF ok] in \<open>auto simp: nth_list_update split: if_splits\<close>)
  then show ?thesis using eq op w key ev_okD(7,9) [OF ok] by auto
qed

lemma in_tl: "x \<in> set (tl xs) \<Longrightarrow> x \<in> set xs"
  by (cases xs) simp_all

lemma ev_next_window_ok:
  assumes ok: "ev_ok wm qs as" and as: "as \<noteq> []" and op: "opened (wm_window wm ! hd as)"
  shows "\<exists>wm'. ev_wm_next_window wm = Some (0, wm') \<and> ev_ok wm' (qs @ [hd as]) (tl as) \<and>
    wm_window wm' = wm_window wm \<and> wm_map wm' = wm_map wm"
proof -
  have room: "length (cb_list TRACK_MAX (wm_queue wm)) < TRACK_MAX"
    using ev_ok_total [OF ok] ev_okD(2) [OF ok] as by (cases as) auto
  have ne: "cb_list TRACK_MAX (wm_avail wm) \<noteq> []" using ev_okD(4) [OF ok] as by simp
  obtain a q where aq: "cb_pop TRACK_MAX (wm_avail wm) = Some (CB_E_NONE, Some (hd as), a)" "cb_wf TRACK_MAX a"
    "cb_list TRACK_MAX a = tl as" "cb_push TRACK_MAX (hd as) (wm_queue wm) = Some (CB_E_NONE, q)" "cb_wf TRACK_MAX q"
    "cb_list TRACK_MAX q = qs @ [hd as]"
    using cbx.pop_then_push [OF ev_okD(3) [OF ok] ev_okD(1) [OF ok] ne room] ev_okD(2,4) [OF ok] by auto
  have "ev_ok (wm\<lparr>wm_avail := a, wm_queue := q\<rparr>) (qs @ [hd as]) (tl as)"
    using ok aq op as ev_okD(12) [OF ok] unfolding ev_ok_def
    by (cases as) (auto dest: in_tl)
  then show ?thesis using aq by (simp add: ev_wm_next_window_def)
qed

lemma ev_clear_keys_ok:
  "length mp = KEY_MAX \<Longrightarrow> 0 \<le> k \<Longrightarrow> \<exists>mp'. ev_clear_keys n k mp = Some mp' \<and> length mp' = KEY_MAX \<and>
     (\<forall>i<KEY_MAX. mp' ! i = mp ! i \<or> mp' ! i = None)"
proof (induction n arbitrary: k mp)
  case (Suc n)
  have k: "c_mod k (int KEY_MAX) = k mod int KEY_MAX" using Suc.prems by simp
  obtain mp' where "ev_clear_keys n (k + 1) (mp[nat (k mod int KEY_MAX) := None]) = Some mp'" "length mp' = KEY_MAX"
    "\<forall>i<KEY_MAX. mp' ! i = mp[nat (k mod int KEY_MAX) := None] ! i \<or> mp' ! i = None"
    using Suc.IH [of "mp[nat (k mod int KEY_MAX) := None]" "k + 1"] Suc.prems by auto
  then show ?case
    using Suc.prems k by (auto simp: asetz_def nat_less_iff nth_list_update split: if_splits)
qed simp

lemma ev_release_ok:
  assumes ok: "ev_ok wm (us @ w # vs) as" and q: "cb_wf TRACK_MAX q" "cb_list TRACK_MAX q = us @ vs"
    and win: "length (ew_num_event win) = EVENT_MAX" "closed win"
  shows "\<exists>a. cb_push TRACK_MAX w (wm_avail wm) = Some (CB_E_NONE, a) \<and>
    ev_ok (wm\<lparr>wm_queue := q, wm_window := (wm_window wm)[w := win], wm_avail := a\<rparr>) (us @ vs) (as @ [w])"
proof -
  have "length (cb_list TRACK_MAX (wm_avail wm)) < TRACK_MAX"
    using ev_ok_total [OF ok] ev_okD(4) [OF ok] by simp
  then obtain a where a: "cb_push TRACK_MAX w (wm_avail wm) = Some (CB_E_NONE, a)" "cb_wf TRACK_MAX a"
    "cb_list TRACK_MAX a = as @ [w]"
    using cbq.push_room [OF ev_okD(3) [OF ok], of w] ev_okD(4) [OF ok] by auto
  have w: "w < TRACK_MAX" using ev_okD(6) [OF ok] by auto
  have other: "(wm_window wm)[w := win] ! v = wm_window wm ! v" if "v \<noteq> w" for v using that by simp
  have dist: "distinct (us @ vs @ as)" "w \<notin> set (us @ vs @ as)" using ev_okD(5) [OF ok] by auto
  have "\<forall>v \<in> set (us @ vs). opened ((wm_window wm)[w := win] ! v)"
  proof
    fix v
    assume v: "v \<in> set (us @ vs)"
    then have "v \<noteq> w" "v \<in> set (us @ w # vs)" using dist(2) by auto
    then show "opened ((wm_window wm)[w := win] ! v)" using ev_okD(11) [OF ok] other by metis
  qed
  moreover have "\<forall>v \<in> set (tl (as @ [w])). closed ((wm_window wm)[w := win] ! v)"
  proof
    fix v
    assume "v \<in> set (tl (as @ [w]))"
    then have "v = w \<or> v \<in> set (tl as)" by (cases as) auto
    then show "closed ((wm_window wm)[w := win] ! v)"
      using win(2) w ev_okD(7,12) [OF ok] by (cases "v = w") auto
  qed
  moreover have "opened ((wm_window wm)[w := win] ! hd (as @ [w])) \<or> closed ((wm_window wm)[w := win] ! hd (as @ [w]))"
    using win(2) w ev_okD(7,13) [OF ok] dist by (cases as) auto
  moreover have "\<forall>v<TRACK_MAX. length (ew_num_event ((wm_window wm)[w := win] ! v)) = EVENT_MAX"
    using win(1) w ev_okD(7,8) [OF ok] by (auto simp: nth_list_update)
  moreover have "set (us @ vs @ as @ [w]) = {..<TRACK_MAX}" using ev_okD(6) [OF ok] by auto
  ultimately have "ev_ok (wm\<lparr>wm_queue := q, wm_window := (wm_window wm)[w := win], wm_avail := a\<rparr>) (us @ vs) (as @ [w])"
    using ok a q dist unfolding ev_ok_def by (simp del: set_append) auto
  then show ?thesis using a by blast
qed

lemma ev_delete_ok:
  assumes ok: "ev_ok wm qs as" and key: "0 \<le> key" "key < int KEY_MAX"
  shows "\<exists>r wm' qs' as'. ev_wm_delete_if_complete wm key = Some (r, wm') \<and> ev_ok wm' qs' as' \<and> r \<noteq> - 4 \<and>
    (r \<noteq> 0 \<longrightarrow> qs' = qs \<and> as' = as \<and> wm_window wm' = wm_window wm)"
proof (cases "wm_map wm ! nat key")
  case None
  then show ?thesis using ok key ev_okD(9) [OF ok] by (auto simp: ev_wm_delete_if_complete_def agetz_def)
next
  case (Some w)
  let ?win = "wm_window wm ! w"
  have m: "agetz (wm_map wm) key = Some (Some w)" using Some key ev_okD(9) [OF ok] by (simp add: agetz_def)
  have w: "w < TRACK_MAX" using ev_okD(10) [OF ok, of "nat key"] Some key by simp
  note win = ev_okD(7) [OF ok] ev_okD(8) [OF ok w]
  show ?thesis
  proof (cases "ew_nevents ?win = ew_num_event ?win ! EV_TIMEOUT + ew_num_event ?win ! EV_HIT")
    case False
    then show ?thesis using ok m w win key by (auto simp: ev_wm_delete_if_complete_def)
  next
    case complete: True
    show ?thesis
    proof (cases "w \<in> set qs")
      case False
      then obtain r where "r \<noteq> CB_E_NONE" "cb_rem TRACK_MAX w (wm_queue wm) = Some (r, wm_queue wm)"
        using cbx.rem_missing [OF ev_okD(1) [OF ok], of w] ev_okD(2) [OF ok] by auto
      then show ?thesis using ok m w win key complete by (auto simp: ev_wm_delete_if_complete_def)
    next
      case True
      then obtain us vs where uv: "qs = us @ w # vs" "w \<notin> set us" by (meson split_list_first)
      then have rm: "remove1 w qs = us @ vs" by (simp add: remove1_append)
      obtain q where q: "cb_rem TRACK_MAX w (wm_queue wm) = Some (CB_E_NONE, q)" "cb_wf TRACK_MAX q"
        "cb_list TRACK_MAX q = us @ vs"
        using cbx.rem_found [OF ev_okD(1) [OF ok], of w] ev_okD(2) [OF ok] True rm by auto
      have op: "opened ?win" by (rule ev_okD(11) [OF ok True])
      obtain mp where mp: "ev_clear_keys (nat (ew_nevents ?win)) (ew_key_offset ?win) (wm_map wm) = Some mp"
        "length mp = KEY_MAX" "\<forall>i<KEY_MAX. mp ! i = wm_map wm ! i \<or> mp ! i = None"
        using ev_clear_keys_ok [OF ev_okD(9) [OF ok]] op unfolding opened_def by blast
      have "ev_ok (wm\<lparr>wm_map := mp\<rparr>) (us @ w # vs) as"
        using ev_ok_cleared [OF ok mp(2,3)] uv(1) by simp
      from ev_release_ok [OF this q(2,3), of event_window_init]
      obtain a where a: "cb_push TRACK_MAX w (wm_avail wm) = Some (CB_E_NONE, a)"
        "ev_ok (wm\<lparr>wm_map := mp, wm_queue := q, wm_window := (wm_window wm)[w := event_window_init], wm_avail := a\<rparr>)
           (us @ vs) (as @ [w])"
        by (auto simp: event_window_init_def closed_def)
      have "ev_wm_delete_if_complete wm key =
          Some (0, wm\<lparr>wm_map := mp, wm_queue := q, wm_window := (wm_window wm)[w := event_window_init], wm_avail := a\<rparr>)"
        using m w win key complete q(1) mp(1) a(1) by (simp add: ev_wm_delete_if_complete_def Let_def)
      then show ?thesis using a(2) by force
    qed
  qed
qed

lemma ev_delete_loop_ok:
  "ev_ok wm qs as \<Longrightarrow> \<exists>wm' as'. ev_delete_loop wm = Some (0, wm') \<and> ev_ok wm' [] as'"
proof (induction qs arbitrary: wm as)
  case Nil
  then have "cb_size (wm_queue wm) = 0" using ev_okD(2) [OF Nil] by (simp add: cb_list_empty_iff)
  then show ?case using Nil by (subst ev_delete_loop.simps) auto
next
  case (Cons w qs)
  note ok = Cons.prems
  let ?win = "wm_window wm ! w"
  have "cb_list TRACK_MAX (wm_queue wm) \<noteq> []" using ev_okD(2) [OF ok] by simp
  then obtain q where q: "cb_pop TRACK_MAX (wm_queue wm) = Some (CB_E_NONE, Some w, q)" "cb_wf TRACK_MAX q"
    "cb_list TRACK_MAX q = [] @ qs"
    using cbq.pop_some [OF ev_okD(1) [OF ok]] ev_okD(2) [OF ok] by auto
  have sz: "cb_size (wm_queue wm) \<noteq> 0"
    using cb_list_empty_iff [of TRACK_MAX "wm_queue wm"] ev_okD(2) [OF ok] by simp
  have w: "w < TRACK_MAX" using ev_okD(6) [OF ok] by auto
  have op: "opened ?win" using ev_okD(11) [OF ok] by simp
  obtain mp where mp: "ev_clear_keys (nat (ew_nevents ?win)) (ew_key_offset ?win) (wm_map wm) = Some mp"
    "length mp = KEY_MAX" "\<forall>i<KEY_MAX. mp ! i = wm_map wm ! i \<or> mp ! i = None"
    using ev_clear_keys_ok [OF ev_okD(9) [OF ok]] op unfolding opened_def by blast
  let ?new = "?win\<lparr>ew_node := None, ew_key_offset := - 1\<rparr>"
  have "ev_ok (wm\<lparr>wm_map := mp\<rparr>) ([] @ w # qs) as"
    using ev_ok_cleared [OF ok mp(2,3)] by simp
  from ev_release_ok [OF this q(2,3), of ?new] ev_okD(8) [OF ok w]
  obtain a where a: "cb_push TRACK_MAX w (wm_avail wm) = Some (CB_E_NONE, a)"
    "ev_ok (wm\<lparr>wm_map := mp, wm_queue := q, wm_window := (wm_window wm)[w := ?new], wm_avail := a\<rparr>) qs (as @ [w])"
    by (auto simp: closed_def)
  from Cons.IH [OF a(2)] obtain wm' as' where
    "ev_delete_loop (wm\<lparr>wm_map := mp, wm_queue := q, wm_window := (wm_window wm)[w := ?new], wm_avail := a\<rparr>) = Some (0, wm')"
    "ev_ok wm' [] as'" by blast
  moreover have "wm\<lparr>wm_map := mp, wm_queue := q, wm_window := (wm_window wm)[w := ?new], wm_avail := a\<rparr> =
      wm\<lparr>wm_queue := q, wm_map := mp, wm_window := (wm_window wm)[w := ?new], wm_avail := a\<rparr>" by simp
  ultimately show ?case
    using q(1) sz w ev_okD(7) [OF ok] mp(1) a(1)
    by (subst ev_delete_loop.simps) (auto simp: ev_release_def word_gt_0)
qed

lemma ev_delete_all_ok:
  assumes "ev_ok wm qs as"
  shows "\<exists>wm' as'. ev_wm_delete_all wm = Some (0, wm') \<and> ev_ok wm' [] as'"
  using ev_delete_loop_ok [OF assms] ev_ok_sizes [OF assms] by (simp add: ev_wm_delete_all_def)

lemma ev_res_ok:
  assumes ok: "ev_ok wm qs as" and key: "0 \<le> key" "key < int KEY_MAX" and res: "0 \<le> res" "res < int EVENT_MAX"
  shows "\<exists>r wm'. ev_wm_res_to_window wm key res = Some (r, wm') \<and> ev_ok wm' qs as"
proof (cases "wm_map wm ! nat key")
  case None
  then show ?thesis using ok key res ev_okD(9) [OF ok] by (simp add: ev_wm_res_to_window_def agetz_def)
next
  case (Some w)
  let ?win = "wm_window wm ! w"
  let ?ne = "(ew_num_event ?win)[nat res := ew_num_event ?win ! nat res + 1]"
  have w: "w < TRACK_MAX" using ev_okD(10) [OF ok, of "nat key"] Some key by simp
  have "ev_ok (wm\<lparr>wm_window := (wm_window wm)[w := ?win\<lparr>ew_num_event := ?ne\<rparr>]\<rparr>) qs as"
    by (rule ev_ok_window [OF ok])
      (use ev_okD(8) [OF ok w] ev_okD(11,12,13) [OF ok] in \<open>auto simp: opened_def closed_def\<close>)
  then show ?thesis
    using Some key res w ev_okD(7,9) [OF ok] ev_okD(8) [OF ok w]
    by (simp add: ev_wm_res_to_window_def agetz_def asetz_def)
qed

section \<open>Invalidation\<close>

lemma c_mod_next: "0 \<le> k \<Longrightarrow> k < int KEY_MAX \<Longrightarrow> 0 \<le> c_mod (k + 1) (int KEY_MAX) \<and> c_mod (k + 1) (int KEY_MAX) < int KEY_MAX"
  by simp

text \<open>The loop ends when the keys of the window do not reach the end of the key range, and never otherwise.\<close>

lemma ev_unmap_ends:
  "length mp = KEY_MAX \<Longrightarrow> 0 \<le> k \<Longrightarrow> k + int n < int KEY_MAX \<Longrightarrow>
   \<exists>mp'. ev_unmap k (k + int n) mp = Some mp' \<and> length mp' = KEY_MAX \<and> (\<forall>i<KEY_MAX. mp' ! i = mp ! i \<or> mp' ! i = None)"
proof (induction n arbitrary: k mp)
  case 0
  then show ?case by (subst ev_unmap.simps) simp
next
  case (Suc n)
  have k: "c_mod (k + 1) (int KEY_MAX) = k + 1" using Suc.prems by simp
  obtain mp' where mp': "ev_unmap (k + 1) (k + 1 + int n) (mp[nat k := None]) = Some mp'" "length mp' = KEY_MAX"
    "\<forall>i<KEY_MAX. mp' ! i = mp[nat k := None] ! i \<or> mp' ! i = None"
    using Suc.IH [of "mp[nat k := None]" "k + 1"] Suc.prems by auto
  have "ev_unmap k (k + int (Suc n)) mp = Some mp'"
  proof -
    have eq: "k + int (Suc n) = k + 1 + int n" by simp
    show ?thesis unfolding eq using Suc.prems mp'(1) k by (subst ev_unmap.simps) (simp add: asetz_def)
  qed
  moreover have "mp' ! i = mp ! i \<or> mp' ! i = None" if "i < KEY_MAX" for i
    using mp'(3) Suc.prems(1) that by (cases "i = nat k") auto
  ultimately show ?case using mp'(2) by blast
qed

lemma ev_unmap_never:
  assumes "ev_unmap k stop mp = Some mp'"
  shows "\<not> (0 \<le> k \<and> k < int KEY_MAX \<and> int KEY_MAX \<le> stop)"
proof (rule ev_unmap.raw_induct [where P = "\<lambda>k stop mp mp'. \<not> (0 \<le> k \<and> k < int KEY_MAX \<and> int KEY_MAX \<le> stop)", OF _ assms])
  fix loop :: "int \<Rightarrow> int \<Rightarrow> nat option list \<Rightarrow> nat option list option" and k stop mp mp'
  assume IH: "\<And>k stop mp mp'. loop k stop mp = Some mp' \<Longrightarrow> \<not> (0 \<le> k \<and> k < int KEY_MAX \<and> int KEY_MAX \<le> stop)"
    and body: "(if k \<noteq> stop then do {
        mp \<leftarrow> asetz mp k None;
        loop (c_mod (k + 1) (int KEY_MAX)) stop mp }
      else Some mp) = Some mp'"
  show "\<not> (0 \<le> k \<and> k < int KEY_MAX \<and> int KEY_MAX \<le> stop)"
  proof
    assume k: "0 \<le> k \<and> k < int KEY_MAX \<and> int KEY_MAX \<le> stop"
    then have "loop (c_mod (k + 1) (int KEY_MAX)) stop (mp[nat k := None]) = Some mp'"
      using body by (auto simp: Option.bind_eq_Some_conv asetz_eq_Some)
    from IH [OF this] show False using k c_mod_next by blast
  qed
qed

lemma ev_unmap_clears:
  assumes "ev_unmap k stop mp = Some mp'"
  shows "length mp' = length mp \<and> (\<forall>i<length mp. mp' ! i = mp ! i \<or> mp' ! i = None)"
proof (rule ev_unmap.raw_induct [where P = "\<lambda>k stop mp mp'. length mp' = length mp \<and>
    (\<forall>i<length mp. mp' ! i = mp ! i \<or> mp' ! i = None)", OF _ assms])
  fix loop :: "int \<Rightarrow> int \<Rightarrow> nat option list \<Rightarrow> nat option list option" and k stop mp mp'
  assume IH: "\<And>k stop mp mp'. loop k stop mp = Some mp' \<Longrightarrow> length mp' = length mp \<and>
      (\<forall>i<length mp. mp' ! i = mp ! i \<or> mp' ! i = None)"
    and body: "(if k \<noteq> stop then do {
        mp \<leftarrow> asetz mp k None;
        loop (c_mod (k + 1) (int KEY_MAX)) stop mp }
      else Some mp) = Some mp'"
  show "length mp' = length mp \<and> (\<forall>i<length mp. mp' ! i = mp ! i \<or> mp' ! i = None)"
  proof (cases "k = stop")
    case False
    then have b: "nat k < length mp" "loop (c_mod (k + 1) (int KEY_MAX)) stop (mp[nat k := None]) = Some mp'"
      using body by (auto simp: Option.bind_eq_Some_conv asetz_eq_Some)
    have "mp' ! i = mp ! i \<or> mp' ! i = None" if "i < length mp" for i
      using IH [OF b(2)] that by (cases "i = nat k") auto
    then show ?thesis using IH [OF b(2)] by simp
  qed (use body in simp)
qed

text \<open>One turn of the loop on the last window of the queue.\<close>

lemma ev_invalidate_turn:
  assumes ok: "ev_ok wm (qs @ [w]) as" and e: "Some w \<noteq> e"
  shows "(case ev_unmap (ew_key_offset (wm_window wm ! w)) (ew_key_offset (wm_window wm ! w) + ew_nevents (wm_window wm ! w))
        (wm_map wm) of
      None \<Rightarrow> ev_invalidate_loop e wm = None
    | Some mp \<Rightarrow> \<exists>wm'. ev_invalidate_loop e wm = ev_invalidate_loop e wm' \<and> ev_ok wm' qs (as @ [w]) \<and>
        (\<forall>v \<in> set qs. wm_window wm' ! v = wm_window wm ! v))"
proof -
  let ?win = "wm_window wm ! w"
  let ?new = "?win\<lparr>ew_node := None, ew_key_offset := - 1\<rparr>"
  have "cb_list TRACK_MAX (wm_queue wm) \<noteq> []" using ev_okD(2) [OF ok] by simp
  then obtain q where q: "cb_pop_end TRACK_MAX (wm_queue wm) = Some (CB_E_NONE, Some w, q)" "cb_wf TRACK_MAX q"
    "cb_list TRACK_MAX q = qs @ []"
    using cbx.pop_end_some [OF ev_okD(1) [OF ok]] ev_okD(2) [OF ok] by auto
  have sz: "cb_size (wm_queue wm) \<noteq> 0"
    using cb_list_empty_iff [of TRACK_MAX "wm_queue wm"] ev_okD(2) [OF ok] by simp
  have w: "w < TRACK_MAX" using ev_okD(6) [OF ok] by auto
  have op: "opened ?win" using ev_okD(11) [OF ok] by simp
  show ?thesis
  proof (cases "ev_unmap (ew_key_offset ?win) (ew_key_offset ?win + ew_nevents ?win) (wm_map wm)")
    case None
    have "ev_invalidate_loop e wm = None"
      using None q(1) sz w e op ev_okD(7) [OF ok] by (subst ev_invalidate_loop.simps) (simp add: opened_def)
    then show ?thesis using None by simp
  next
    case (Some mp)
    have mp: "length mp = KEY_MAX" "\<forall>i<KEY_MAX. mp ! i = wm_map wm ! i \<or> mp ! i = None"
      using ev_unmap_clears [OF Some] ev_okD(9) [OF ok] by auto
    have ok': "ev_ok (wm\<lparr>wm_map := mp\<rparr>) (qs @ w # []) as" using ev_ok_cleared [OF ok mp] by simp
    have ne: "length (ew_num_event ?new) = EVENT_MAX" "closed ?new"
      using ev_okD(8) [OF ok w] by (simp_all add: closed_def)
    from ev_release_ok [OF ok' q(2,3) ne]
    obtain a where a: "cb_push TRACK_MAX w (wm_avail wm) = Some (CB_E_NONE, a)"
      "ev_ok (wm\<lparr>wm_map := mp, wm_queue := q, wm_window := (wm_window wm)[w := ?new], wm_avail := a\<rparr>) qs (as @ [w])"
      by auto
    let ?wm = "wm\<lparr>wm_queue := q, wm_map := mp, wm_window := (wm_window wm)[w := ?new], wm_avail := a\<rparr>"
    have "ev_invalidate_loop e wm = ev_invalidate_loop e ?wm"
      using Some q(1) sz w e op ev_okD(7) [OF ok] a(1)
      by (subst ev_invalidate_loop.simps) (simp add: opened_def ev_release_def)
    moreover have "?wm = wm\<lparr>wm_map := mp, wm_queue := q, wm_window := (wm_window wm)[w := ?new], wm_avail := a\<rparr>"
      by simp
    then have "ev_ok ?wm qs (as @ [w])" using a(2) by (simp only:)
    moreover have "wm_window ?wm ! v = wm_window wm ! v" if "v \<in> set qs" for v
    proof -
      have "w \<noteq> v" using that ev_okD(5) [OF ok] by auto
      then show ?thesis by simp
    qed
    ultimately show ?thesis using Some by auto
  qed
qed

lemma ev_invalidate_end:
  assumes ok: "ev_ok wm qs as" and e: "qs = [] \<or> e = Some (last qs)"
  shows "\<exists>wm'. ev_invalidate_loop e wm = Some (0, wm') \<and> ev_ok wm' qs as"
proof (cases "qs = []")
  case True
  then have "cb_size (wm_queue wm) = 0" using ev_okD(2) [OF ok] by (simp add: cb_list_empty_iff)
  then show ?thesis using ok ev_ok_sizes [OF ok] by (subst ev_invalidate_loop.simps) simp
next
  case False
  let ?w = "last qs"
  have ne: "cb_list TRACK_MAX (wm_queue wm) \<noteq> []" using ev_okD(2) [OF ok] False by simp
  then obtain q where q: "cb_pop_end TRACK_MAX (wm_queue wm) = Some (CB_E_NONE, Some ?w, q)" "cb_wf TRACK_MAX q"
    "cb_list TRACK_MAX q = butlast qs"
    using cbx.pop_end_some [OF ev_okD(1) [OF ok]] ev_okD(2) [OF ok] by auto
  have "length (cb_list TRACK_MAX q) < TRACK_MAX"
    using q(3) ev_ok_total [OF ok] False by (cases qs rule: rev_cases) auto
  then obtain q' where q': "cb_push TRACK_MAX ?w q = Some (CB_E_NONE, q')" "cb_wf TRACK_MAX q'" "cb_list TRACK_MAX q' = qs"
    using cbq.push_room [OF q(2), of ?w] q(3) False by auto
  have sz: "cb_size (wm_queue wm) \<noteq> 0"
    using cb_list_empty_iff [of TRACK_MAX "wm_queue wm"] ne by simp
  have w: "?w \<in> set qs" using False by simp
  then have "?w < TRACK_MAX" "opened (wm_window wm ! ?w)" using ev_okD(6) [OF ok] ev_okD(11) [OF ok] by auto
  moreover have ok': "ev_ok (wm\<lparr>wm_queue := q'\<rparr>) qs as" using ok q'(2,3) unfolding ev_ok_def by simp
  moreover have "e = Some ?w" using e False by simp
  ultimately show ?thesis
    using q(1) q'(1) sz ev_okD(7) [OF ok] ev_ok_sizes [OF ok']
    by (subst ev_invalidate_loop.simps) (simp add: opened_def)
qed

definition wraps :: "event_window \<Rightarrow> bool" where
  "wraps win \<longleftrightarrow> int KEY_MAX \<le> ew_key_offset win + ew_nevents win"

lemma ev_unmap_wraps:
  assumes ok: "ev_ok wm qs as" and w: "w \<in> set qs"
  defines "win \<equiv> wm_window wm ! w"
  shows "ev_unmap (ew_key_offset win) (ew_key_offset win + ew_nevents win) (wm_map wm) = None \<longleftrightarrow> wraps win"
proof
  have op: "0 \<le> ew_key_offset win" "ew_key_offset win < int KEY_MAX" "0 < ew_nevents win"
    using ev_okD(11) [OF ok w] by (simp_all add: opened_def win_def)
  show "ev_unmap (ew_key_offset win) (ew_key_offset win + ew_nevents win) (wm_map wm) = None" if "wraps win"
    using ev_unmap_never [of "ew_key_offset win" "ew_key_offset win + ew_nevents win" "wm_map wm"] op that
    by (cases "ev_unmap (ew_key_offset win) (ew_key_offset win + ew_nevents win) (wm_map wm)") (auto simp: wraps_def)
  show "wraps win" if "ev_unmap (ew_key_offset win) (ew_key_offset win + ew_nevents win) (wm_map wm) = None"
  proof (rule ccontr)
    assume "\<not> wraps win"
    then have "ew_key_offset win + int (nat (ew_nevents win)) < int KEY_MAX" using op by (simp add: wraps_def)
    from ev_unmap_ends [OF ev_okD(9) [OF ok] op(1) this] show False using op that by simp
  qed
qed

lemma ev_invalidate_loop_ok:
  assumes "ev_ok wm (us @ vs) as" and "us = [] \<or> e = Some (last us)" and "\<forall>w \<in> set vs. Some w \<noteq> e"
  shows "if \<exists>w \<in> set vs. wraps (wm_window wm ! w) then ev_invalidate_loop e wm = None
    else \<exists>wm'. ev_invalidate_loop e wm = Some (0, wm') \<and> ev_ok wm' us (as @ rev vs)"
  using assms
proof (induction vs arbitrary: wm as rule: rev_induct)
  case Nil
  then show ?case using ev_invalidate_end [of wm us as e] by simp
next
  case (snoc w vs)
  have ok: "ev_ok wm ((us @ vs) @ [w]) as" using snoc.prems(1) by simp
  have "Some w \<noteq> e" using snoc.prems(3) by simp
  note turn = ev_invalidate_turn [OF ok this]
  have um: "ev_unmap (ew_key_offset (wm_window wm ! w)) (ew_key_offset (wm_window wm ! w) + ew_nevents (wm_window wm ! w))
      (wm_map wm) = None \<longleftrightarrow> wraps (wm_window wm ! w)"
    by (rule ev_unmap_wraps [OF ok]) simp
  show ?case
  proof (cases "wraps (wm_window wm ! w)")
    case True
    then show ?thesis using um turn by simp
  next
    case False
    then obtain wm' where wm': "ev_invalidate_loop e wm = ev_invalidate_loop e wm'" "ev_ok wm' (us @ vs) (as @ [w])"
      "\<forall>v \<in> set (us @ vs). wm_window wm' ! v = wm_window wm ! v"
      using um turn by (auto split: option.splits)
    have "(\<exists>v \<in> set vs. wraps (wm_window wm' ! v)) = (\<exists>v \<in> set (vs @ [w]). wraps (wm_window wm ! v))"
      using wm'(3) False by auto
    moreover have "\<forall>w \<in> set vs. Some w \<noteq> e" using snoc.prems(3) by simp
    moreover have "(as @ [w]) @ rev vs = as @ rev (vs @ [w])" by simp
    ultimately show ?thesis using snoc.IH [OF wm'(2) snoc.prems(2)] unfolding wm'(1) by (simp only:)
  qed
qed

section \<open>Properties\<close>

text \<open>How the event handling uses a manager: keys are added with a node, and a new window is started only
  when the current one has an event.\<close>

inductive ev_reach :: "ev_wm \<Rightarrow> bool" where
  init: "ev_reach wm" if "length (cb_buf (wm_avail wm0)) = TRACK_MAX" "length (cb_buf (wm_queue wm0)) = TRACK_MAX"
    "ev_wm_init wm0 = Some wm"
| add: "ev_reach wm'" if "ev_reach wm" "node \<noteq> None" "ev_wm_add_to_window wm key node = Some (r, wm')"
| next_window: "ev_reach wm'" if "ev_reach wm" "cb_get TRACK_MAX 0 (wm_avail wm) = Some (CB_E_NONE, Some w)"
    "opened (wm_window wm ! w)" "ev_wm_next_window wm = Some (r, wm')"
| next_key: "ev_reach (ev_wm_next_key wm)" if "ev_reach wm"
| result: "ev_reach wm'" if "ev_reach wm" "ev_wm_res_to_window wm key res = Some (r, wm')"
| delete: "ev_reach wm'" if "ev_reach wm" "ev_wm_delete_if_complete wm key = Some (r, wm')"
| delete_all: "ev_reach wm'" if "ev_reach wm" "ev_wm_delete_all wm = Some (r, wm')"
| invalidate: "ev_reach wm'" if "ev_reach wm" "ev_wm_invalidate_after wm key = Some (r, wm')"

lemma split_at_end:
  obtains us vs where "qs = us @ vs" "us = [] \<or> e = Some (last us)" "\<forall>w \<in> set vs. Some w \<noteq> e"
proof (cases "\<exists>w \<in> set qs. Some w = e")
  case True
  then obtain w where w: "w \<in> set qs" "Some w = e" by blast
  then obtain us vs where "qs = us @ w # vs" "w \<notin> set vs" by (meson split_list_last)
  then show thesis using that [of "us @ [w]" vs] w by auto
qed (use that [of "[]" qs] in auto)

lemma ev_get_current: "ev_ok wm qs as \<Longrightarrow> cb_get TRACK_MAX 0 (wm_avail wm) = Some (CB_E_NONE, Some w) \<Longrightarrow> as \<noteq> [] \<and> w = hd as"
  using cb_get_nth [OF ev_okD(3), of wm qs as 0] ev_okD(4) [of wm qs as]
  by (auto simp: hd_conv_nth split: if_splits)

lemma ev_add_as: "ev_ok wm qs as \<Longrightarrow> ev_wm_add_to_window wm key node = Some (r, wm') \<Longrightarrow> r = - 1 \<and> wm' = wm \<or> as \<noteq> []"
  using cb_get_nth [OF ev_okD(3), of wm qs as 0] ev_okD(4) [of wm qs as]
  by (auto simp: ev_wm_add_to_window_def fault_eq split: if_splits)

lemma ev_reach_ok: "ev_reach wm \<Longrightarrow> \<exists>qs as. ev_ok wm qs as"
proof (induction rule: ev_reach.induct)
  case (init wm0 wm)
  then show ?case using ev_wm_init_ok by force
next
  case (add wm node key r wm')
  then obtain qs as where ok: "ev_ok wm qs as" by blast
  have key: "0 \<le> key" "key < int KEY_MAX" using add(3) by (auto simp: ev_wm_add_to_window_def fault_eq)
  show ?case
  proof (cases "as = []")
    case True
    then show ?thesis using ev_add_as [OF ok add(3)] ok by blast
  next
    case False
    then show ?thesis using ev_add_ok [OF ok key add(2) False] add(3) by fastforce
  qed
next
  case (next_window wm w r wm')
  then obtain qs as where ok: "ev_ok wm qs as" by blast
  then show ?case using ev_next_window_ok [OF ok] ev_get_current [OF ok next_window(2)] next_window(3,4) by fastforce
next
  case (next_key wm)
  then show ?case using ev_ok_key unfolding ev_wm_next_key_def by blast
next
  case (result wm key res r wm')
  then obtain qs as where ok: "ev_ok wm qs as" by blast
  have "0 \<le> key" "key < int KEY_MAX" "0 \<le> res" "res < int EVENT_MAX"
    using result(2) by (auto simp: ev_wm_res_to_window_def fault_eq)
  then show ?case using ev_res_ok [OF ok] result(2) by fastforce
next
  case (delete wm key r wm')
  then obtain qs as where ok: "ev_ok wm qs as" by blast
  have "0 \<le> key" "key < int KEY_MAX" using delete(2) by (auto simp: ev_wm_delete_if_complete_def fault_eq)
  then show ?case using ev_delete_ok [OF ok] delete(2) by fastforce
next
  case (delete_all wm r wm')
  then show ?case using ev_delete_all_ok by fastforce
next
  case (invalidate wm key r wm')
  then obtain qs as where ok: "ev_ok wm qs as" by blast
  have "0 \<le> key" "key < int KEY_MAX" using invalidate(2) by (auto simp: ev_wm_invalidate_after_def fault_eq)
  then have inv: "ev_invalidate_loop (wm_map wm ! nat key) wm = Some (r, wm')"
    using invalidate(2) ev_okD(9) [OF ok] by (simp add: ev_wm_invalidate_after_def agetz_def)
  obtain us vs where "qs = us @ vs" "us = [] \<or> wm_map wm ! nat key = Some (last us)" "\<forall>w \<in> set vs. Some w \<noteq> wm_map wm ! nat key"
    by (rule split_at_end)
  then show ?case using ev_invalidate_loop_ok [of wm us vs as "wm_map wm ! nat key"] ok inv by (auto split: if_splits)
qed

text \<open>C34: No window is ever lost or held twice: in every state the event handling can reach, the queued and
  the available windows are all windows, each once, so that the assertions about the sizes hold; a
  result and a deletion for any key return, a deletion never finds the buffer of available windows full, and
  the deletion of all windows returns with none queued.\<close>

theorem event_windows_kept:
  assumes "ev_reach wm"
  shows "distinct (cb_list TRACK_MAX (wm_queue wm) @ cb_list TRACK_MAX (wm_avail wm)) \<and>
    set (cb_list TRACK_MAX (wm_queue wm) @ cb_list TRACK_MAX (wm_avail wm)) = {..<TRACK_MAX} \<and>
    cb_size (wm_queue wm) + cb_size (wm_avail wm) = of_nat TRACK_MAX \<and>
    (\<forall>key \<in> {0..<int KEY_MAX}. (\<exists>r wm'. ev_wm_delete_if_complete wm key = Some (r, wm') \<and> r \<noteq> - 4) \<and>
       (\<forall>res \<in> {0..<int EVENT_MAX}. ev_wm_res_to_window wm key res \<noteq> None)) \<and>
    (\<exists>wm'. ev_wm_delete_all wm = Some (0, wm') \<and> cb_list TRACK_MAX (wm_queue wm') = [])"
proof -
  obtain qs as where ok: "ev_ok wm qs as" using ev_reach_ok [OF assms] by blast
  have "\<exists>r wm'. ev_wm_delete_if_complete wm key = Some (r, wm') \<and> r \<noteq> - 4" if "key \<in> {0..<int KEY_MAX}" for key
    using ev_delete_ok [OF ok, of key] that by auto
  moreover have "ev_wm_res_to_window wm key res \<noteq> None" if "key \<in> {0..<int KEY_MAX}" "res \<in> {0..<int EVENT_MAX}" for key res
    using ev_res_ok [OF ok, of key res] that by auto
  moreover have "\<exists>wm'. ev_wm_delete_all wm = Some (0, wm') \<and> cb_list TRACK_MAX (wm_queue wm') = []"
    using ev_delete_all_ok [OF ok] ev_okD(2) by blast
  ultimately show ?thesis using ev_okD(2,4,5,6) [OF ok] ev_ok_sizes [OF ok] by simp
qed

text \<open>A manager's memory before its initialisation, and the manager after it.\<close>

definition ev_raw :: ev_wm where
  "ev_raw = \<lparr>wm_window = [], wm_avail = \<lparr>cb_buf = replicate TRACK_MAX 0, cb_start = 7, cb_end = 7, cb_size = 7\<rparr>,
     wm_queue = \<lparr>cb_buf = replicate TRACK_MAX 0, cb_start = 7, cb_end = 7, cb_size = 7\<rparr>, wm_map = [], wm_key = 9\<rparr>"

lemma ev_raw_start: obtains wm where "ev_wm_init ev_raw = Some wm" "ev_reach wm" "ev_ok wm [] [0..<TRACK_MAX]"
proof -
  have len: "length (cb_buf (wm_avail ev_raw)) = TRACK_MAX" "length (cb_buf (wm_queue ev_raw)) = TRACK_MAX"
    by (simp_all add: ev_raw_def)
  then obtain wm where "ev_wm_init ev_raw = Some wm" "ev_ok wm [] [0..<TRACK_MAX]" using ev_wm_init_ok by blast
  then show thesis using that ev_reach.init [OF len] by blast
qed

theorem event_windows_kept_witness:
  "\<exists>wm wm'. ev_wm_init ev_raw = Some wm \<and> cb_size (wm_queue wm) + cb_size (wm_avail wm) = of_nat TRACK_MAX \<and>
     ev_wm_delete_all wm = Some (0, wm')"
proof -
  obtain wm where wm: "ev_wm_init ev_raw = Some wm" "ev_reach wm" by (rule ev_raw_start)
  show ?thesis using event_windows_kept [OF wm(2)] wm(1) by blast
qed

text \<open>\<^verbatim>\<open>ev_wm_invalidate_after\<close> on a reachable state, where \<open>vs\<close> are the windows queued after that of the
  key (all of them when it has none): when one of \<open>vs\<close> has keys up to the last one, 63, it does not return,
  for its loop compares a key reduced modulo 64 with an end that is not reduced; otherwise it
  returns 0 and the windows up to that of the key stay queued. No index of the loop is ever outside
  the map, so \<open>None\<close> here is a loop that does not end.\<close>

theorem invalidate_after_ends:
  assumes "ev_reach wm" "0 \<le> key" "key < int KEY_MAX"
    and "cb_list TRACK_MAX (wm_queue wm) = us @ vs" "us = [] \<or> wm_map wm ! nat key = Some (last us)"
    and "\<forall>w \<in> set vs. Some w \<noteq> wm_map wm ! nat key"
  shows "if \<exists>w \<in> set vs. ew_key_offset (wm_window wm ! w) + ew_nevents (wm_window wm ! w) \<ge> int KEY_MAX
    then ev_wm_invalidate_after wm key = None
    else \<exists>wm'. ev_wm_invalidate_after wm key = Some (0, wm') \<and> cb_list TRACK_MAX (wm_queue wm') = us"
proof -
  obtain qs as where ok: "ev_ok wm qs as" using ev_reach_ok [OF assms(1)] by blast
  then have ok': "ev_ok wm (us @ vs) as" using ev_okD(2) [OF ok] assms(4) by simp
  have "ev_wm_invalidate_after wm key = ev_invalidate_loop (wm_map wm ! nat key) wm"
    using assms(2,3) ev_okD(9) [OF ok] by (simp add: ev_wm_invalidate_after_def agetz_def)
  then show ?thesis
    using ev_invalidate_loop_ok [OF ok' assms(5,6)] ev_okD(2) unfolding wraps_def by (auto split: if_splits)
qed

text \<open>Key 63 in a window of its own, behind the window of key 62, as a manager has after 64 keys.\<close>

lemma ev_add_fresh:
  assumes ok: "ev_ok wm qs as" and key: "0 \<le> key" "key < int KEY_MAX" and as: "as \<noteq> []"
    and new: "wm_map wm ! nat key = None" "closed (wm_window wm ! hd as)"
  shows "ev_wm_add_to_window wm key node = Some (0, wm\<lparr>wm_window := (wm_window wm)[hd as :=
      (wm_window wm ! hd as)\<lparr>ew_key_offset := key, ew_node := node, ew_num_event := replicate EVENT_MAX 0, ew_nevents := 1\<rparr>],
      wm_map := (wm_map wm)[nat key := Some (hd as)]\<rparr>)"
proof -
  have "hd as \<in> set (qs @ as)" using hd_in_set [OF as] by simp
  then have w: "hd as < TRACK_MAX" unfolding ev_okD(6) [OF ok] by simp
  have "cb_get TRACK_MAX (int 0) (wm_avail wm) = Some (CB_E_NONE, Some (cb_list TRACK_MAX (wm_avail wm) ! 0))"
    by (rule cbx.get_nth) (use ev_okD(3,4) [OF ok] as in auto)
  then show ?thesis
    using new key w as ev_okD(4,7,9) [OF ok]
    by (simp add: ev_wm_add_to_window_def agetz_def asetz_def Let_def closed_def hd_conv_nth)
qed

lemma ev_open_one:
  assumes ok: "ev_ok wm qs as" "ev_reach wm" and key: "0 \<le> key" "key < int KEY_MAX" and as: "as \<noteq> []"
    and new: "wm_map wm ! nat key = None" "closed (wm_window wm ! hd as)"
  obtains wm' where "ev_reach wm'" "ev_ok wm' (qs @ [hd as]) (tl as)"
    "wm_map wm' = (wm_map wm)[nat key := Some (hd as)]"
    "ew_key_offset (wm_window wm' ! hd as) = key" "ew_nevents (wm_window wm' ! hd as) = 1"
    "\<forall>v. v \<noteq> hd as \<longrightarrow> wm_window wm' ! v = wm_window wm ! v"
proof -
  let ?wm1 = "wm\<lparr>wm_window := (wm_window wm)[hd as := (wm_window wm ! hd as)\<lparr>ew_key_offset := key, ew_node := Some 2,
      ew_num_event := replicate EVENT_MAX 0, ew_nevents := 1\<rparr>], wm_map := (wm_map wm)[nat key := Some (hd as)]\<rparr>"
  have "hd as \<in> set (qs @ as)" using hd_in_set [OF as] by simp
  then have w: "hd as < length (wm_window wm)" unfolding ev_okD(6,7) [OF ok(1)] by simp
  have add: "ev_wm_add_to_window wm key (Some 2) = Some (0, ?wm1)" by (rule ev_add_fresh [OF ok(1) key as new])
  have r1: "ev_reach ?wm1" by (rule ev_reach.add [OF ok(2) _ add]) simp
  have ok1: "ev_ok ?wm1 qs as" and op: "opened (wm_window ?wm1 ! hd as)"
    using ev_add_ok [OF ok(1) key, of "Some 2"] as add by auto
  obtain wm2 where n: "ev_wm_next_window ?wm1 = Some (0, wm2)" "ev_ok wm2 (qs @ [hd as]) (tl as)"
    "wm_window wm2 = wm_window ?wm1" "wm_map wm2 = wm_map ?wm1"
    using ev_next_window_ok [OF ok1 as op] by blast
  have "cb_get TRACK_MAX (int 0) (wm_avail ?wm1) = Some (CB_E_NONE, Some (cb_list TRACK_MAX (wm_avail ?wm1) ! 0))"
    by (rule cbx.get_nth) (use ev_okD(3,4) [OF ok1] as in auto)
  then have "cb_get TRACK_MAX 0 (wm_avail ?wm1) = Some (CB_E_NONE, Some (hd as))"
    using ev_okD(4) [OF ok1] as by (simp add: hd_conv_nth)
  then have "ev_reach wm2" using ev_reach.next_window [OF r1 _ op n(1)] by blast
  then show thesis using that [of wm2] n(2-4) w by simp
qed

theorem invalidate_after_ends_witness:
  "\<exists>wm. ev_reach wm \<and> cb_list TRACK_MAX (wm_queue wm) = [0, 1] \<and> wm_map wm ! 62 = Some 0 \<and> wm_map wm ! 63 = Some 1 \<and>
     ev_wm_invalidate_after wm 62 = None"
proof -
  obtain wm0 where wm0: "ev_wm_init ev_raw = Some wm0" "ev_reach wm0" "ev_ok wm0 [] [0..<TRACK_MAX]" by (rule ev_raw_start)
  have upt: "[0..<TRACK_MAX] = 0 # 1 # [2..<TRACK_MAX]" by (simp add: upt_conv_Cons numeral_2_eq_2 del: upt_rec_numeral)
  have init: "wm_map wm0 = replicate KEY_MAX None" using wm0(1) by (auto simp: ev_wm_init_def fault_eq)
  have cl: "closed (wm_window wm0 ! 0)" "closed (wm_window wm0 ! 1)"
    using wm0(1) by (auto simp: ev_wm_init_def fault_eq closed_def event_window_init_def)
  obtain wm1 where wm1: "ev_reach wm1" "ev_ok wm1 [0] (1 # [2..<TRACK_MAX])" "wm_map wm1 = (wm_map wm0)[62 := Some 0]"
    "\<forall>v. v \<noteq> 0 \<longrightarrow> wm_window wm1 ! v = wm_window wm0 ! v"
    using ev_open_one [OF wm0(3,2), of 62] cl(1) init unfolding upt by (auto simp del: upt_rec_numeral)
  have "closed (wm_window wm1 ! 1)" using wm1(4) cl(2) by simp
  then obtain wm2 where wm2: "ev_reach wm2" "ev_ok wm2 [0, 1] [2..<TRACK_MAX]" "wm_map wm2 = (wm_map wm1)[63 := Some 1]"
    "ew_key_offset (wm_window wm2 ! 1) = 63" "ew_nevents (wm_window wm2 ! 1) = 1"
    using ev_open_one [OF wm1(2,1), of 63] wm1(3) init by (auto simp del: upt_rec_numeral)
  have q: "cb_list TRACK_MAX (wm_queue wm2) = [0, 1]" by (rule ev_okD(2) [OF wm2(2)])
  have m: "wm_map wm2 ! 62 = Some 0" "wm_map wm2 ! 63 = Some 1" using wm2(3) wm1(3) init by simp_all
  have "ev_wm_invalidate_after wm2 62 = None"
    using invalidate_after_ends [OF wm2(1), of 62 "[0]" "[1]"] q m wm2(4,5) by simp
  then show ?thesis using wm2(1) q m by blast
qed

end
