(* ===== verification/TrainModel.thy ===== *)
theory TrainModel
  imports Prelude
begin

text \<open>
  The train model, lib/train/train_model.c: tables of measured speeds and of distances while
  accelerating and stopping, interpolation between their points (Lagrange polynomials, with a straight
  line where the polynomial leaves the interval between two points), the square root used for standard
  deviations, and the step of a snapshot (\<^verbatim>\<open>trainUpdateDist\<close>), by which the estimator moves its trains.

  The arithmetic is on C's \<^verbatim>\<open>int\<close>. A result outside its 32 bits is undefined in C, as is a division
  by zero: here they are faults, so a theorem that a function returns says that neither happens.
\<close>

section \<open>Signed arithmetic\<close>

definition idiv :: "int \<Rightarrow> int \<Rightarrow> int option" where
  "idiv a b = (if b = 0 then None else i32 (c_div a b))"

lemma idiv_pos:
  assumes "0 \<le> a" "a < 2147483648" "0 < b"
  shows "idiv a b = Some (a div b)"
proof -
  have "0 \<le> a div b" "a div b \<le> a"
    using assms zdiv_mono2 [of a 1 b] by (simp_all add: pos_imp_zdiv_nonneg_iff)
  then show ?thesis using assms by (simp add: idiv_def i32_def)
qed

section \<open>The tables\<close>

abbreviation TRAIN_MODEL_SIZE :: nat where "TRAIN_MODEL_SIZE \<equiv> 15"

(* src/include/lib/train/train_model.h:17-22 *)
record TrainModel =
  tm_train_num :: int
  tm_x :: "int list"
  tm_y :: "int list"
  tm_t :: "int list"

(* src/include/lib/train/train_model.h:24-32 *)
record TrainModelSnapshot =
  sn_cur_gear :: int
  sn_start_gear :: int
  sn_end_gear :: int
  sn_duration :: int
  sn_elapsed :: int
  sn_last_sen_ts :: int
  sn_model :: TrainModel

abbreviation gears :: "int list" where
  "gears \<equiv> [0, 10, 20, 30, 40, 50, 60, 70, 80, 90, 100, 110, 120, 130, 140]"

(* src/src/lib/train/train_model.c:4-8 *)
definition TR_77_VELO :: TrainModel where
  "TR_77_VELO = \<lparr>tm_train_num = 77, tm_x = gears,
     tm_y = [0, 100, 410, 870, 1340, 1360, 1670, 2220, 2712, 3381, 4063, 4785, 5337, 5936, 6728],
     tm_t = replicate 15 0\<rparr>"

(* src/src/lib/train/train_model.c:10-15 *)
definition TR_77_STP_DIST :: TrainModel where
  "TR_77_STP_DIST = \<lparr>tm_train_num = 77, tm_x = gears,
     tm_y = [0, 0, 0, 0, 0, 13564, 34176, 94045, 168608, 277890, 402523, 570764, 730057, 954537, 1215350],
     tm_t = [0, 0, 0, 0, 0, 20, 54, 84, 128, 156, 188, 224, 271, 294, 336]\<rparr>"

(* src/src/lib/train/train_model.c:17-22 *)
definition TR_77_ACCEL_DIST :: TrainModel where
  "TR_77_ACCEL_DIST = \<lparr>tm_train_num = 77, tm_x = gears,
     tm_y = [0, 0, 0, 0, 0, 25580, 88240, 184186, 296202, 396204, 528630, 650541, 831305, 1014943, 1257763],
     tm_t = [0, 0, 0, 0, 0, 50, 115, 185, 259, 292, 331, 357, 381, 420, 440]\<rparr>"

(* src/src/lib/train/train_model.c:27-31 *)
definition TR_78_VELO :: TrainModel where
  "TR_78_VELO = \<lparr>tm_train_num = 78, tm_x = gears,
     tm_y = [0, 0, 0, 0, 246, 856, 1076, 1586, 1961, 2434, 2967, 3621, 4174, 4658, 4908],
     tm_t = replicate 15 0\<rparr>"

(* src/src/lib/train/train_model.c:33-38 *)
definition TR_78_STP_DIST :: TrainModel where
  "TR_78_STP_DIST = \<lparr>tm_train_num = 78, tm_x = gears,
     tm_y = [0, 0, 0, 0, 0, 34620, 75504, 114471, 178925, 242086, 326093, 439092, 607723, 755534, 955263],
     tm_t = [0, 0, 0, 0, 0, 30, 60, 97, 124, 162, 189, 228, 274, 304, 327]\<rparr>"

(* src/src/lib/train/train_model.c:40-45 *)
definition TR_78_ACCEL_DIST :: TrainModel where
  "TR_78_ACCEL_DIST = \<lparr>tm_train_num = 78, tm_x = gears,
     tm_y = [0, 0, 0, 0, 0, 73062, 139978, 170076, 264766, 335648, 496600, 592868, 686840, 783246, 898044],
     tm_t = [0, 0, 0, 0, 0, 240, 280, 318, 356, 392, 430, 468, 500, 540, 595]\<rparr>"

(* src/src/lib/train/train_model.c:50-54 *)
definition TR_79_VELO :: TrainModel where
  "TR_79_VELO = \<lparr>tm_train_num = 79, tm_x = gears,
     tm_y = [0, 20, 100, 400, 662, 1071, 1680, 2255, 2785, 3389, 4083, 4684, 5392, 6128, 6707],
     tm_t = replicate 15 0\<rparr>"

(* src/src/lib/train/train_model.c:56-61 *)
definition TR_79_STP_DIST :: TrainModel where
  "TR_79_STP_DIST = \<lparr>tm_train_num = 79, tm_x = gears,
     tm_y = [0, 0, 0, 0, 0, 10984, 48299, 120840, 188456, 288503, 415125, 568893, 773016, 976814, 1242868],
     tm_t = [0, 0, 0, 0, 0, 54, 84, 104, 134, 171, 198, 229, 255, 284, 337]\<rparr>"

(* src/src/lib/train/train_model.c:63-68 *)
definition TR_79_ACCEL_DIST :: TrainModel where
  "TR_79_ACCEL_DIST = \<lparr>tm_train_num = 79, tm_x = gears,
     tm_y = [0, 0, 0, 0, 0, 25136, 92205, 197452, 333512, 433081, 588099, 718499, 864020, 1065962, 1259344],
     tm_t = [0, 0, 0, 0, 0, 100, 155, 214, 261, 299, 332, 356, 387, 410, 440]\<rparr>"

section \<open>Statistics\<close>

(* src/src/lib/train/train_model.c:79-84 *)
definition zero_limit :: "int \<Rightarrow> int" where
  "zero_limit x = (if x < 0 then 0 else x)"

lemma zero_limit_nonneg [simp]: "0 \<le> zero_limit x"
  by (simp add: zero_limit_def)

lemma zero_limit_ge [simp]: "x \<le> zero_limit x"
  by (simp add: zero_limit_def)

(* src/src/lib/train/train_model.c:86-91 *)
definition cap :: "int \<Rightarrow> int \<Rightarrow> int" where
  "cap x c = (if c < x then c else x)"

(* src/src/lib/train/train_model.c:72-77 *)
definition c_abs :: "int \<Rightarrow> int option" where
  "c_abs x = (if x < 0 then i32 (x * - 1) else Some x)"

text \<open>\<^verbatim>\<open>TOP2BITS\<close> masks with \<^verbatim>\<open>3L << 30\<close>, a \<^verbatim>\<open>long\<close>. On the ARM a \<^verbatim>\<open>long\<close> has 32 bits, the mask is negative and
  the shift to the right copies the sign: the values are 0, 1, -2 and -1. On the host of the unit tests a
  \<^verbatim>\<open>long\<close> has 64 bits and the values are 0 to 3.\<close>

(* src/include/lib/train/train_model.h:4-5 *)
definition top2bits :: "u32 \<Rightarrow> u32" where
  "top2bits x = signed_drop_bit 30 (x AND push_bit 30 3)"

definition top2bits_host :: "u32 \<Rightarrow> u32" where
  "top2bits_host x = drop_bit 30 (x AND push_bit 30 3)"

(* src/src/lib/train/train_model.c:100-110 *)
fun usqrt_loop :: "(u32 \<Rightarrow> u32) \<Rightarrow> nat \<Rightarrow> u32 \<Rightarrow> u32 \<Rightarrow> u32 \<Rightarrow> u32" where
  "usqrt_loop t2 0 x a r = a"
| "usqrt_loop t2 (Suc i) x a r =
     (let r = push_bit 2 r + t2 x; x = push_bit 2 x; a = push_bit 1 a; e = push_bit 1 a + 1 in
      if e \<le> r then usqrt_loop t2 i x (a + 1) (r - e) else usqrt_loop t2 i x a r)"

(* src/src/lib/train/train_model.c:93-113 *)
definition usqrt :: "(u32 \<Rightarrow> u32) \<Rightarrow> int \<Rightarrow> u32" where
  "usqrt t2 x = usqrt_loop t2 32 (word_of_int x) 0 0 div 65535"

text \<open>The loops over a list: \<^verbatim>\<open>sum += \<close>the next term.\<close>

fun sum_loop :: "(int \<Rightarrow> int option) \<Rightarrow> int list \<Rightarrow> int \<Rightarrow> int option" where
  "sum_loop f [] s = Some s"
| "sum_loop f (x # xs) s = do { y \<leftarrow> f x; s \<leftarrow> i32 (s + y); sum_loop f xs s }"

(* src/src/lib/train/train_model.c:115-123 *)
definition mean :: "int list \<Rightarrow> int \<Rightarrow> int option" where
  "mean list n = do {
     kassert (nat n \<le> length list);
     sum \<leftarrow> sum_loop Some (take (nat n) list) 0;
     idiv sum n }"

(* src/src/lib/train/train_model.c:125-139 *)
definition standard_deviation :: "(u32 \<Rightarrow> u32) \<Rightarrow> int list \<Rightarrow> int \<Rightarrow> int option" where
  "standard_deviation t2 list n = do {
     avg \<leftarrow> mean list n;
     inter_sum \<leftarrow> sum_loop (\<lambda>x. do { diff \<leftarrow> i32 (x - avg); i32 (diff * diff) }) (take (nat n) list) 0;
     m \<leftarrow> i32 (n - 1);
     inter_sum \<leftarrow> idiv inter_sum m;
     Some (sint (usqrt t2 inter_sum)) }"

section \<open>Interpolation\<close>

text \<open>\<^verbatim>\<open>frac\<close> after the factors of the points \<open>is\<close>.\<close>

(* src/src/lib/train/train_model.c:182-188 *)
fun lagrange_loop :: "int list \<Rightarrow> nat \<Rightarrow> int \<Rightarrow> nat list \<Rightarrow> int \<Rightarrow> int option" where
  "lagrange_loop xs point x [] frac = Some frac"
| "lagrange_loop xs point x (i # is') frac =
     (if i \<noteq> point then do {
        xi \<leftarrow> aget xs i;
        xp \<leftarrow> aget xs point;
        d \<leftarrow> i32 (x - xi);
        frac \<leftarrow> i32 (frac * d);
        e \<leftarrow> i32 (xp - xi);
        frac \<leftarrow> idiv frac e;
        lagrange_loop xs point x is' frac }
      else lagrange_loop xs point x is' frac)"

(* src/src/lib/train/train_model.c:180-191 *)
definition get_lagrange_basis_partial :: "TrainModel \<Rightarrow> nat \<Rightarrow> int \<Rightarrow> nat \<Rightarrow> nat \<Rightarrow> int option" where
  "get_lagrange_basis_partial tm point x head tail = do {
     frac \<leftarrow> aget (tm_y tm) point;
     lagrange_loop (tm_x tm) point x [head..<tail] frac }"

(* src/src/lib/train/train_model.c:142-153 *)
definition get_lagrange_basis :: "TrainModel \<Rightarrow> nat \<Rightarrow> int \<Rightarrow> int option" where
  "get_lagrange_basis tm point x = do {
     frac \<leftarrow> aget (tm_y tm) point;
     lagrange_loop (tm_x tm) point x [0..<TRAIN_MODEL_SIZE] frac }"

(* src/src/lib/train/train_model.c:203-205 *)
fun basis_sum :: "(nat \<Rightarrow> int option) \<Rightarrow> nat list \<Rightarrow> int \<Rightarrow> int option" where
  "basis_sum f [] val = Some val"
| "basis_sum f (i # is') val = do { b \<leftarrow> f i; val \<leftarrow> i32 (val + b); basis_sum f is' val }"

(* src/src/lib/train/train_model.c:156-163 *)
definition interpolate :: "TrainModel \<Rightarrow> int \<Rightarrow> int option" where
  "interpolate tm setting =
     basis_sum (\<lambda>i. get_lagrange_basis tm i setting) [0..<TRAIN_MODEL_SIZE] 0"

(* src/src/lib/train/train_model.c:165-176 *)
definition linear_interpolate :: "TrainModel \<Rightarrow> int \<Rightarrow> int option" where
  "linear_interpolate tm setting = do {
     let fl = c_div setting 10 * 10;
     let frac = setting - fl;
     lower \<leftarrow> agetz (tm_y tm) (c_div fl 10);
     upper \<leftarrow> agetz (tm_y tm) (c_div fl 10 + 1);
     d \<leftarrow> i32 (upper - lower);
     p \<leftarrow> i32 (d * frac);
     q \<leftarrow> idiv p 10;
     i32 (lower + q) }"

(* src/src/lib/train/train_model.c:194-219 *)
definition interpolatePartial :: "TrainModel \<Rightarrow> int \<Rightarrow> nat \<Rightarrow> nat \<Rightarrow> int option" where
  "interpolatePartial tm setting head tail = do {
     kassert (head < tail);
     kassert (head < tail \<and> tail \<le> TRAIN_MODEL_SIZE);
     val \<leftarrow> basis_sum (\<lambda>i. get_lagrange_basis_partial tm i setting head tail) [head..<tail] 0;
     let fl = c_div setting 10 * 10;
     val \<leftarrow> (if fl \<noteq> setting then do {
              lo \<leftarrow> agetz (tm_y tm) (c_div fl 10);
              if val < lo then linear_interpolate tm setting
              else do {
                hi \<leftarrow> agetz (tm_y tm) (c_div fl 10 + 1);
                if hi < val then linear_interpolate tm setting else Some val } }
            else Some val);
     Some (zero_limit val) }"

(* src/src/lib/train/train_model.c:221-228 *)
definition easyInterpolation :: "TrainModel \<Rightarrow> int \<Rightarrow> int option" where
  "easyInterpolation tm setting =
     (if int TRAIN_MODEL_SIZE * (10 div 2) < setting then interpolatePartial tm setting 8 TRAIN_MODEL_SIZE
      else interpolatePartial tm setting 0 10)"

section \<open>The gear reached after a time\<close>

text \<open>Both loops of \<^verbatim>\<open>estimateGear\<close> skip the point after one that they drop, by a second \<^verbatim>\<open>i++\<close>.\<close>

(* src/src/lib/train/train_model.c:249-262 *)
function slope_loop :: "int list \<Rightarrow> int list \<Rightarrow> nat \<Rightarrow> int \<Rightarrow> int \<Rightarrow> (int \<times> int) option" where
  "slope_loop gear model i num_data slope =
     (if i < TRAIN_MODEL_SIZE - 1 then do {
        m1 \<leftarrow> aget model (i + 1);
        m0 \<leftarrow> aget model i;
        g1 \<leftarrow> aget gear (i + 1);
        g0 \<leftarrow> aget gear i;
        dm \<leftarrow> i32 (m1 - m0);
        dg \<leftarrow> i32 (g1 - g0);
        local \<leftarrow> idiv dm dg;
        kassert (0 \<le> local);
        if 0 < local then do {
          s \<leftarrow> i32 (slope + local);
          slope_loop gear model (i + 1) (num_data + 1) s }
        else slope_loop gear model (i + 2) num_data slope }
      else Some (num_data, slope))"
  by pat_completeness auto
termination by (relation "measure (\<lambda>(_, _, i, _, _). TRAIN_MODEL_SIZE - i)") simp_all

(* src/src/lib/train/train_model.c:270-279 *)
function offset_loop :: "int list \<Rightarrow> int list \<Rightarrow> int \<Rightarrow> nat \<Rightarrow> int \<Rightarrow> int \<Rightarrow> (int \<times> int) option" where
  "offset_loop gear model slope i num_data offset =
     (if i < TRAIN_MODEL_SIZE then do {
        y \<leftarrow> aget model i;
        if 0 < y then do {
          g \<leftarrow> aget gear i;
          p \<leftarrow> i32 (slope * g);
          d \<leftarrow> i32 (y - p);
          s \<leftarrow> i32 (offset + d);
          offset_loop gear model slope (i + 1) (num_data + 1) s }
        else offset_loop gear model slope (i + 2) num_data offset }
      else Some (num_data, offset))"
  by pat_completeness auto
termination by (relation "measure (\<lambda>(_, _, _, i, _, _). TRAIN_MODEL_SIZE - i)") simp_all

declare slope_loop.simps [simp del] offset_loop.simps [simp del]

text \<open>The line through the points, which is the same for every \<^verbatim>\<open>point\<close>: slope and offset. (The bounds \<^verbatim>\<open>lower\<close> and
  \<^verbatim>\<open>upper\<close> that \<^verbatim>\<open>estimateGear\<close> computes from \<^verbatim>\<open>point\<close> and the middle of the table are not used.)\<close>

(* src/src/lib/train/train_model.c:236-281 *)
definition gear_line :: "int list \<Rightarrow> int list \<Rightarrow> (int \<times> int) option" where
  "gear_line gear model = do {
     _ \<leftarrow> aget model (TRAIN_MODEL_SIZE div 2);
     (num_data, slope) \<leftarrow> slope_loop gear model 0 0 0;
     slope \<leftarrow> idiv slope num_data;
     (num_data, offset) \<leftarrow> offset_loop gear model slope 0 0 0;
     offset \<leftarrow> idiv offset num_data;
     Some (slope, offset) }"

(* src/src/lib/train/train_model.c:233-290 *)
definition estimateGear :: "int list \<Rightarrow> int list \<Rightarrow> int \<Rightarrow> int option" where
  "estimateGear gear model point = do {
     (slope, offset) \<leftarrow> gear_line gear model;
     p \<leftarrow> i32 (point - offset);
     q \<leftarrow> idiv p slope;
     g \<leftarrow> aget gear (TRAIN_MODEL_SIZE - 1);
     let res = cap q g;
     kassert (0 \<le> res);
     Some res }"

section \<open>The models of the trains\<close>

(* src/src/lib/train/train_model.c:294-318 *)
definition getStoppingDistanceModel :: "TrainModel \<Rightarrow> int \<Rightarrow> TrainModel option" where
  "getStoppingDistanceModel tm train_num =
     (if train_num = 1 then Some (tm\<lparr>tm_train_num := 1, tm_x := gears,
        tm_y := [0, 0, 0, 0, 0, 13564, 34176, 94045, 168608, 277890, 402523, 570764, 730057, 954537, 1215350],
        tm_t := [0, 0, 0, 0, 0, 20, 54, 84, 128, 156, 188, 224, 271, 294, 336]\<rparr>)
      else if train_num = 77 then Some TR_77_STP_DIST
      else if train_num = 78 then Some TR_78_STP_DIST
      else if train_num = 79 then Some TR_79_STP_DIST
      else do { kassert False; Some tm })"

(* src/src/lib/train/train_model.c:320-342 *)
definition getVelocityModel :: "TrainModel \<Rightarrow> int \<Rightarrow> TrainModel option" where
  "getVelocityModel tm train_num =
     (if train_num = 1 \<or> train_num = 2 \<or> train_num = 3 then Some (tm\<lparr>tm_x := gears,
        tm_y := [0, 100, 400, 900, 1300, 1400, 1700, 2200, 2700, 3400, 4000, 4800, 5300, 6000, 6700]\<rparr>)
      else if train_num = 77 then Some TR_77_VELO
      else if train_num = 78 then Some TR_78_VELO
      else if train_num = 79 then Some TR_79_VELO
      else do { kassert False; Some tm })"

(* src/src/lib/train/train_model.c:344-363 *)
definition getAccelerationDistanceModel :: "TrainModel \<Rightarrow> int \<Rightarrow> TrainModel option" where
  "getAccelerationDistanceModel tm train_num =
     (if train_num = 1 \<or> train_num = 2 \<or> train_num = 3 then Some TR_77_ACCEL_DIST
      else if train_num = 77 then Some TR_77_ACCEL_DIST
      else if train_num = 78 then Some TR_78_ACCEL_DIST
      else if train_num = 79 then Some TR_79_ACCEL_DIST
      else do { kassert False; Some tm })"

section \<open>Correcting the speed, and a step of the model\<close>

abbreviation (input) ACCEPTED :: int where "ACCEPTED \<equiv> 0"
abbreviation (input) REJECTED :: int where "REJECTED \<equiv> 1"
abbreviation (input) ALPHA :: int where "ALPHA \<equiv> 50"

(* src/src/lib/train/train_model.c:365-384 *)
definition alphaUpdate :: "TrainModelSnapshot \<Rightarrow> int \<Rightarrow> int \<Rightarrow> (int \<times> TrainModelSnapshot) option" where
  "alphaUpdate tms dist ts = do {
     mVelocity \<leftarrow> agetz (tm_y (sn_model tms)) (c_div (sn_cur_gear tms) 10);
     p \<leftarrow> i32 (dist * 1000);
     dt \<leftarrow> i32 (ts - sn_last_sen_ts tms);
     velocity \<leftarrow> idiv p dt;
     if sn_start_gear tms = sn_end_gear tms then do {
       a \<leftarrow> i32 (velocity * ALPHA);
       b \<leftarrow> i32 (mVelocity * (100 - ALPHA));
       c \<leftarrow> i32 (a + b);
       uVelocity \<leftarrow> idiv c 100;
       d \<leftarrow> i32 (uVelocity - mVelocity);
       d \<leftarrow> c_abs d;
       if c_div uVelocity 4 < d then Some (REJECTED, tms)
       else do {
         y \<leftarrow> asetz (tm_y (sn_model tms)) (c_div (sn_cur_gear tms) 10) uVelocity;
         Some (ACCEPTED, tms\<lparr>sn_model := (sn_model tms)\<lparr>tm_y := y\<rparr>\<rparr>) } }
     else Some (REJECTED, tms) }"

text \<open>The branches of \<^verbatim>\<open>trainUpdateDist\<close>. The local tables are filled before they are read, so their initial
  contents do not matter.\<close>

definition tm_undef :: TrainModel where
  "tm_undef = \<lparr>tm_train_num = 0, tm_x = replicate 15 0, tm_y = replicate 15 0, tm_t = replicate 15 0\<rparr>"

(* src/src/lib/train/train_model.c:402-421 *)
definition tud_accelerate :: "TrainModelSnapshot \<Rightarrow> int \<Rightarrow> (int \<times> TrainModelSnapshot) option" where
  "tud_accelerate tms train_num = do {
     m \<leftarrow> getAccelerationDistanceModel tm_undef train_num;
     te \<leftarrow> agetz (tm_t m) (c_div (sn_end_gear tms) 10);
     tb \<leftarrow> agetz (tm_t m) (c_div (sn_start_gear tms) 10);
     dt \<leftarrow> i32 (te - tb);
     (new_gear, tms) \<leftarrow> (if sn_duration tms < dt then do {
         g \<leftarrow> estimateGear (tm_x m) (tm_t m) (sn_duration tms);
         let g = (if sn_end_gear tms < g then sn_end_gear tms else g);
         let g = (if g < sn_cur_gear tms then sn_cur_gear tms else g);
         Some (g, tms) }
       else Some (sn_end_gear tms, tms\<lparr>sn_start_gear := sn_end_gear tms\<rparr>));
     d1 \<leftarrow> easyInterpolation m new_gear;
     d0 \<leftarrow> easyInterpolation m (sn_cur_gear tms);
     dist \<leftarrow> i32 (d1 - d0);
     let dist = zero_limit dist;
     kassert (sn_cur_gear tms \<le> new_gear);
     kassert (0 \<le> dist);
     Some (dist, tms\<lparr>sn_cur_gear := new_gear\<rparr>) }"

(* src/src/lib/train/train_model.c:424-440 *)
definition tud_decelerate :: "TrainModelSnapshot \<Rightarrow> int \<Rightarrow> (int \<times> TrainModelSnapshot) option" where
  "tud_decelerate tms train_num = do {
     m \<leftarrow> getStoppingDistanceModel tm_undef train_num;
     tb \<leftarrow> agetz (tm_t m) (c_div (sn_start_gear tms) 10);
     te \<leftarrow> agetz (tm_t m) (c_div (sn_end_gear tms) 10);
     dt \<leftarrow> i32 (tb - te);
     (new_gear, tms) \<leftarrow> (if sn_duration tms < dt then do {
         p \<leftarrow> i32 (tb - sn_duration tms);
         g \<leftarrow> estimateGear (tm_x m) (tm_t m) p;
         let g = (if g < sn_end_gear tms then sn_end_gear tms else g);
         let g = (if sn_cur_gear tms < g then sn_cur_gear tms else g);
         Some (g, tms) }
       else Some (sn_end_gear tms, tms\<lparr>sn_start_gear := sn_end_gear tms\<rparr>));
     d1 \<leftarrow> easyInterpolation m (sn_cur_gear tms);
     d0 \<leftarrow> easyInterpolation m new_gear;
     dist \<leftarrow> i32 (d1 - d0);
     let dist = zero_limit dist;
     kassert (new_gear \<le> sn_cur_gear tms);
     kassert (0 \<le> dist);
     Some (dist, tms\<lparr>sn_cur_gear := new_gear\<rparr>) }"

(* src/src/lib/train/train_model.c:388-444 *)
definition trainUpdateDist :: "TrainModelSnapshot \<Rightarrow> int \<Rightarrow> (int \<times> TrainModelSnapshot) option" where
  "trainUpdateDist tms train_num = do {
     d \<leftarrow> i32 (sn_duration tms + sn_elapsed tms);
     let tms = tms\<lparr>sn_duration := d\<rparr>;
     if sn_start_gear tms = sn_end_gear tms then do {
       v \<leftarrow> agetz (tm_y (sn_model tms)) (c_div (sn_start_gear tms) 10);
       dist \<leftarrow> i32 (v * sn_elapsed tms);
       Some (dist, tms\<lparr>sn_duration := 0\<rparr>) }
     else if sn_start_gear tms < sn_end_gear tms then tud_accelerate tms train_num
     else tud_decelerate tms train_num }"

section \<open>No overflow in the interpolation\<close>

text \<open>The size of \<^verbatim>\<open>frac\<close> for all settings of an interval \<open>[lo, hi]\<close>: every factor is at most the distance of the
  far end of the interval from the point, and division by the distance of the points rounds down.\<close>

primrec frac_bound :: "nat \<Rightarrow> int \<Rightarrow> int \<Rightarrow> nat list \<Rightarrow> int \<Rightarrow> int option" where
  "frac_bound p lo hi [] b = Some b"
| "frac_bound p lo hi (i # is') b =
     (if i \<noteq> p then
        (let m = b * max \<bar>lo - 10 * int i\<bar> \<bar>hi - 10 * int i\<bar> in
         if m < 2147483648 then frac_bound p lo hi is' (m div \<bar>10 * int p - 10 * int i\<bar>) else None)
      else frac_bound p lo hi is' b)"

primrec basis_bound :: "(nat \<Rightarrow> int option) \<Rightarrow> nat list \<Rightarrow> int \<Rightarrow> int option" where
  "basis_bound f [] v = Some v"
| "basis_bound f (i # is') v =
     (case f i of None \<Rightarrow> None | Some b \<Rightarrow> if v + b < 2147483648 then basis_bound f is' (v + b) else None)"

lemma gears_nth: "i < 15 \<Longrightarrow> gears ! i = 10 * int i"
  by (simp add: nth_Cons' numeral_eq_Suc less_Suc_eq) (elim disjE; simp)

lemma c_div_abs: "b \<noteq> 0 \<Longrightarrow> \<bar>c_div a b\<bar> = \<bar>a\<bar> div \<bar>b\<bar>"
  by (auto simp: c_div_def pos_imp_zdiv_nonneg_iff)

lemma idiv_bound:
  assumes "\<bar>a\<bar> \<le> m" "m < 2147483648" "b \<noteq> 0"
  shows "\<exists>q. idiv a b = Some q \<and> \<bar>q\<bar> \<le> m div \<bar>b\<bar>"
proof -
  have 1: "\<bar>c_div a b\<bar> \<le> m div \<bar>b\<bar>"
    using assms by (simp add: c_div_abs zdiv_mono1)
  moreover have "m div \<bar>b\<bar> \<le> m"
    using assms zdiv_mono2 [of m 1 "\<bar>b\<bar>"] by simp
  ultimately show ?thesis
    using assms by (auto simp: idiv_def i32_def abs_le_iff)
qed

lemma lagrange_loop_bound:
  assumes "lo \<le> x" "x \<le> hi" "\<bar>lo\<bar> < 1000" "\<bar>hi\<bar> < 1000" "p < 15"
  shows "\<bar>frac\<bar> \<le> b \<Longrightarrow> frac_bound p lo hi is b = Some b' \<Longrightarrow> \<forall>i \<in> set is. i < 15 \<Longrightarrow>
    \<exists>f. lagrange_loop gears p x is frac = Some f \<and> \<bar>f\<bar> \<le> b'"
proof (induction "is" arbitrary: frac b)
  case Nil
  then show ?case by simp
next
  case (Cons i js)
  show ?case
  proof (cases "i = p")
    case True
    then show ?thesis using Cons.IH [OF Cons.prems(1)] Cons.prems(2,3) by simp
  next
    case False
    have i: "i < 15" "gears ! i = 10 * int i" "gears ! p = 10 * int p"
      using Cons.prems(3) assms(5) by (simp_all add: gears_nth)
    define D where "D = max \<bar>lo - 10 * int i\<bar> \<bar>hi - 10 * int i\<bar>"
    have D: "\<bar>x - 10 * int i\<bar> \<le> D" using assms(1,2) by (auto simp: D_def)
    have m: "b * D < 2147483648" "frac_bound p lo hi js (b * D div \<bar>10 * int p - 10 * int i\<bar>) = Some b'"
      using Cons.prems(2) False by (auto simp: D_def Let_def split: if_splits)
    have f: "\<bar>frac * (x - 10 * int i)\<bar> \<le> b * D"
      unfolding abs_mult using Cons.prems(1) D by (intro mult_mono) auto
    obtain q where q: "idiv (frac * (x - 10 * int i)) (10 * int p - 10 * int i) = Some q"
        "\<bar>q\<bar> \<le> b * D div \<bar>10 * int p - 10 * int i\<bar>"
      using idiv_bound [OF f m(1), of "10 * int p - 10 * int i"] False by auto
    have r: "i32 (x - 10 * int i) = Some (x - 10 * int i)"
        "i32 (frac * (x - 10 * int i)) = Some (frac * (x - 10 * int i))"
        "i32 (10 * int p - 10 * int i) = Some (10 * int p - 10 * int i)"
      using f m(1) assms i(1) by (auto simp: i32_def abs_le_iff)
    have a: "aget gears i = Some (10 * int i)" "aget gears p = Some (10 * int p)"
      using i assms(5) by (simp_all add: aget_def)
    show ?thesis
      using Cons.IH [OF q(2) m(2)] Cons.prems(3) False
      by (simp only: lagrange_loop.simps a r q(1) bind.bind_lunit if_True) simp
  qed
qed

lemma basis_sum_bound:
  assumes "\<And>i. i \<in> set is \<Longrightarrow> case g i of None \<Rightarrow> True | Some b \<Rightarrow> \<exists>f'. f i = Some f' \<and> \<bar>f'\<bar> \<le> b"
  shows "\<bar>v\<bar> \<le> w \<Longrightarrow> basis_bound g is w = Some w' \<Longrightarrow> \<exists>v'. basis_sum f is v = Some v' \<and> \<bar>v'\<bar> \<le> w'"
  using assms
proof (induction "is" arbitrary: v w)
  case Nil
  then show ?case by simp
next
  case (Cons i js)
  then obtain b where b: "g i = Some b" "w + b < 2147483648" "basis_bound g js (w + b) = Some w'"
    by (auto split: option.splits if_splits)
  obtain f' where f': "f i = Some f'" "\<bar>f'\<bar> \<le> b"
    using Cons.prems(3) [of i] b(1) by auto
  have v: "\<bar>v + f'\<bar> \<le> w + b" using f'(2) Cons.prems(1) by linarith
  then have "i32 (v + f') = Some (v + f')"
    using b(2) by (simp add: i32_def abs_le_iff)
  then show ?case using Cons.IH [OF v b(3)] Cons.prems(3) f'(1) by simp
qed

text \<open>The tables that are interpolated: fifteen points, not above these values.\<close>

definition point_max :: "int list" where
  "point_max = [0, 100, 410, 900, 1340, 73062, 139978, 197452, 333512, 433081, 588099, 718499, 864020, 1065962, 1259344]"

definition table_ok :: "TrainModel \<Rightarrow> bool" where
  "table_ok tm \<longleftrightarrow> tm_x tm = gears \<and> list_all2 (\<lambda>y b. 0 \<le> y \<and> y \<le> b) (tm_y tm) point_max"

lemma tables_ok:
  "table_ok TR_77_ACCEL_DIST" "table_ok TR_78_ACCEL_DIST" "table_ok TR_79_ACCEL_DIST"
  "table_ok TR_77_STP_DIST" "table_ok TR_78_STP_DIST" "table_ok TR_79_STP_DIST"
  by (simp_all add: table_ok_def point_max_def TR_77_ACCEL_DIST_def TR_78_ACCEL_DIST_def TR_79_ACCEL_DIST_def
      TR_77_STP_DIST_def TR_78_STP_DIST_def TR_79_STP_DIST_def)

definition interval_bound :: "int \<Rightarrow> int \<Rightarrow> nat \<Rightarrow> nat \<Rightarrow> int option" where
  "interval_bound lo hi head tail =
     basis_bound (\<lambda>p. frac_bound p lo hi [head..<tail] (point_max ! p)) [head..<tail] 0"

lemmas bound_eval = interval_bound_def point_max_def upt_rec Let_def

lemma interval_bounds:
  "interval_bound 0 38 0 10 \<noteq> None"
  "interval_bound 38 75 0 10 \<noteq> None"
  "interval_bound 76 108 8 15 \<noteq> None"
  "interval_bound 108 140 8 15 \<noteq> None"
  by (simp_all add: bound_eval)

lemma table_okD:
  assumes "table_ok tm"
  shows "tm_x tm = gears" "length (tm_y tm) = 15" "p < 15 \<Longrightarrow> 0 \<le> tm_y tm ! p \<and> tm_y tm ! p \<le> point_max ! p"
    "p < 15 \<Longrightarrow> tm_y tm ! p \<le> 1259344"
proof -
  have P: "length point_max = 15" "list_all (\<lambda>b. b \<le> 1259344) point_max" by (simp_all add: point_max_def)
  then show "tm_x tm = gears" "length (tm_y tm) = 15"
    and 1: "p < 15 \<Longrightarrow> 0 \<le> tm_y tm ! p \<and> tm_y tm ! p \<le> point_max ! p"
    using assms by (auto simp: table_ok_def list_all2_conv_all_nth)
  show "p < 15 \<Longrightarrow> tm_y tm ! p \<le> 1259344"
    using 1 P by (force simp: list_all_length)
qed

lemma basis_sum_total:
  assumes "table_ok tm" "interval_bound lo hi head tail \<noteq> None" "lo \<le> s" "s \<le> hi" "\<bar>lo\<bar> < 1000" "\<bar>hi\<bar> < 1000"
    "tail \<le> 15"
  shows "\<exists>v. basis_sum (\<lambda>i. get_lagrange_basis_partial tm i s head tail) [head..<tail] 0 = Some v \<and>
    \<bar>v\<bar> \<le> the (interval_bound lo hi head tail)"
proof (rule basis_sum_bound [where g = "\<lambda>p. frac_bound p lo hi [head..<tail] (point_max ! p)" and w = 0])
  fix i assume "i \<in> set [head..<tail]"
  then have i: "i < 15" using assms(7) by simp
  note T = table_okD [OF assms(1)]
  show "case frac_bound i lo hi [head..<tail] (point_max ! i) of None \<Rightarrow> True
      | Some b \<Rightarrow> \<exists>f'. get_lagrange_basis_partial tm i s head tail = Some f' \<and> \<bar>f'\<bar> \<le> b"
    using lagrange_loop_bound [OF assms(3-6) i, of "tm_y tm ! i" "point_max ! i" "[head..<tail]"]
      T(1,2) T(3) [OF i] i assms(7)
    by (auto simp: get_lagrange_basis_partial_def split: option.split)
qed (use assms(2) in \<open>auto simp: interval_bound_def\<close>)

lemma linear_total:
  assumes "table_ok tm" "0 \<le> s" "s < 140"
  shows "\<exists>v. linear_interpolate tm s = Some v"
proof -
  note T = table_okD [OF assms(1)]
  let ?k = "nat (s div 10)"
  have k: "s div 10 * 10 div 10 = s div 10" "0 \<le> s div 10" "s div 10 < 14" "?k < 15" "Suc ?k < 15"
    using assms(2,3) by auto
  define lo where "lo = tm_y tm ! ?k"
  define up where "up = tm_y tm ! Suc ?k"
  have b: "0 \<le> lo" "lo \<le> 1259344" "0 \<le> up" "up \<le> 1259344"
    using T(3,4) [OF k(4)] T(3,4) [OF k(5)] by (simp_all add: lo_def up_def)
  have g: "agetz (tm_y tm) (s div 10) = Some lo" "agetz (tm_y tm) (s div 10 + 1) = Some up"
    using k T(2) by (simp_all add: agetz_def aget_def lo_def up_def nat_add_distrib)
  have m: "0 \<le> s - s div 10 * 10" "s - s div 10 * 10 \<le> 9" using assms(2) by linarith+
  have p: "\<bar>(up - lo) * (s - s div 10 * 10)\<bar> \<le> 1259344 * 9"
    unfolding abs_mult using b m by (intro mult_mono) auto
  obtain q where q: "idiv ((up - lo) * (s - s div 10 * 10)) 10 = Some q" "\<bar>q\<bar> \<le> 1259344 * 9 div \<bar>10\<bar>"
    using idiv_bound [OF p, of 10] by auto
  have "i32 (up - lo) = Some (up - lo)" "i32 (lo + q) = Some (lo + q)"
    "i32 ((up - lo) * (s - s div 10 * 10)) = Some ((up - lo) * (s - s div 10 * 10))"
    using b q(2) p by (simp_all add: i32_def abs_le_iff)
  then show ?thesis
    using assms(2) k(1,2) g q(1) by (simp add: linear_interpolate_def Let_def)
qed

lemma interpolatePartial_total:
  assumes "table_ok tm" "interval_bound lo hi head tail \<noteq> None" "0 \<le> lo" "lo \<le> s" "s \<le> hi" "hi \<le> 140"
    "head < tail" "tail \<le> 15"
  shows "\<exists>v. interpolatePartial tm s head tail = Some v"
proof -
  note T = table_okD [OF assms(1)]
  obtain v where v: "basis_sum (\<lambda>i. get_lagrange_basis_partial tm i s head tail) [head..<tail] 0 = Some v"
    using basis_sum_total [OF assms(1,2,4,5)] assms(3-8) by auto
  have s: "0 \<le> s" using assms(3,4) by simp
  then have d: "c_div s 10 = s div 10" "c_div (s div 10 * 10) 10 = s div 10" "0 \<le> s div 10" by auto
  have lin: "s div 10 * 10 \<noteq> s \<Longrightarrow> \<exists>v. linear_interpolate tm s = Some v"
    using linear_total [OF assms(1) s] assms(5,6) by (cases "s = 140") auto
  have g: "s div 10 * 10 \<noteq> s \<Longrightarrow> nat (s div 10) < length (tm_y tm) \<and> nat (s div 10 + 1) < length (tm_y tm)"
    using T(2) s assms(5,6) by auto
  show ?thesis
    using v d lin g assms(7,8)
    by (cases "s div 10 * 10 = s") (auto simp: interpolatePartial_def Let_def agetz_def aget_def)
qed

lemma interpolatePartial_nonneg: "interpolatePartial tm s head tail = Some v \<Longrightarrow> 0 \<le> v"
  unfolding interpolatePartial_def Let_def Option.bind_eq_Some_conv
  by (elim exE conjE) (simp add: zero_limit_def split: if_splits)

lemma basis_sum_less: "basis_sum f is v = Some w \<Longrightarrow> v < 2147483648 \<Longrightarrow> w < 2147483648"
  by (induction f "is" v rule: basis_sum.induct) (auto simp: fault_eq)

lemma easyInterpolation_less:
  assumes "easyInterpolation tm s = Some v" shows "v < 2147483648"
proof -
  have lin: "linear_interpolate tm s = Some w \<Longrightarrow> w < 2147483648" for w
    unfolding linear_interpolate_def Let_def Option.bind_eq_Some_conv i32_eq_Some by (elim exE conjE) simp
  have "interpolatePartial tm s head tail = Some v \<Longrightarrow> v < 2147483648" for head tail
    unfolding interpolatePartial_def Let_def Option.bind_eq_Some_conv
    by (auto simp: zero_limit_def fault_eq split: if_splits dest!: basis_sum_less lin)
  then show ?thesis using assms by (auto simp: easyInterpolation_def split: if_splits)
qed

lemma easyInterpolation_total:
  assumes "table_ok tm" "0 \<le> s" "s \<le> 140"
  shows "\<exists>v. easyInterpolation tm s = Some v \<and> 0 \<le> v"
proof -
  note I = interpolatePartial_total [OF assms(1)]
  consider "s \<le> 38" | "38 \<le> s" "s \<le> 75" | "76 \<le> s" "s \<le> 108" | "108 \<le> s" by linarith
  then have "\<exists>v. easyInterpolation tm s = Some v"
  proof cases
    case 1 then show ?thesis
      using I [OF interval_bounds(1), of s] assms(2) by (simp add: easyInterpolation_def)
  next
    case 2 then show ?thesis
      using I [OF interval_bounds(2), of s] by (simp add: easyInterpolation_def)
  next
    case 3 then show ?thesis
      using I [OF interval_bounds(3), of s] by (simp add: easyInterpolation_def)
  next
    case 4 then show ?thesis
      using I [OF interval_bounds(4), of s] assms(3) by (simp add: easyInterpolation_def)
  qed
  then show ?thesis
    by (auto simp: easyInterpolation_def dest: interpolatePartial_nonneg split: if_splits)
qed

section \<open>Exact at the measured points\<close>

text \<open>At the point \<open>k\<close> the basis polynomial of \<open>k\<close> is the value itself, since each factor is divided by
  itself, and every other one has a factor 0.\<close>

lemma idiv_mult: "\<bar>f * e\<bar> < 2147483648 \<Longrightarrow> e \<noteq> 0 \<Longrightarrow> idiv (f * e) e = Some f"
proof -
  assume a: "\<bar>f * e\<bar> < 2147483648" and e: "e \<noteq> 0"
  have "\<bar>c_div (f * e) e\<bar> = \<bar>f\<bar>" using e by (simp add: c_div_abs abs_mult)
  moreover have "\<bar>f\<bar> * 1 \<le> \<bar>f\<bar> * \<bar>e\<bar>" using e by (intro mult_left_mono) auto
  moreover have "c_div (f * e) e = f"
    using e by (auto simp: c_div_def abs_mult zero_le_mult_iff mult_less_0_iff not_less)
  ultimately show ?thesis using a e by (auto simp: idiv_def i32_def abs_mult)
qed

lemma lagrange_at_point:
  assumes "p < 15" "\<bar>frac\<bar> \<le> 10000000"
  shows "\<forall>i \<in> set is. i < 15 \<Longrightarrow> lagrange_loop gears p (10 * int p) is frac = Some frac"
proof (induction "is")
  case (Cons i js)
  let ?e = "10 * int p - 10 * int i"
  have i: "i < 15" "aget gears i = Some (10 * int i)" "aget gears p = Some (10 * int p)"
    using Cons.prems assms(1) by (simp_all add: aget_def gears_nth)
  have "\<bar>frac * ?e\<bar> \<le> 10000000 * 150"
    unfolding abs_mult using assms i(1) by (intro mult_mono) auto
  then have f: "i32 (frac * ?e) = Some (frac * ?e)" "\<bar>frac * ?e\<bar> < 2147483648"
    by (auto simp: i32_def)
  have "i32 ?e = Some ?e" using assms(1) i(1) by (auto simp: i32_def)
  then show ?case
    using Cons i f idiv_mult [of frac ?e] by (cases "i = p") auto
qed simp

lemma lagrange_at_other:
  assumes "p < 15" "k < 15" "k \<noteq> p"
  shows "\<forall>i \<in> set is. i < 15 \<Longrightarrow> k \<in> set is \<or> frac = 0 \<Longrightarrow>
    lagrange_loop gears p (10 * int k) is frac = Some f \<Longrightarrow> f = 0"
proof (induction "is" arbitrary: frac)
  case (Cons i js)
  have i: "aget gears i = Some (10 * int i)" "aget gears p = Some (10 * int p)"
    using Cons.prems(1) assms(1) by (simp_all add: aget_def gears_nth)
  show ?case
  proof (cases "i = p")
    case True
    then show ?thesis using Cons assms(3) by auto
  next
    case False
    then obtain q where q: "idiv (frac * (10 * int k - 10 * int i)) (10 * int p - 10 * int i) = Some q"
        "lagrange_loop gears p (10 * int k) js q = Some f"
      using Cons.prems(3) i by (auto simp: fault_eq)
    have "q = 0" if "k = i \<or> frac = 0"
      using q(1) that False by (auto simp: idiv_def i32_def c_div_def)
    then show ?thesis using Cons.IH [OF _ _ q(2)] Cons.prems(1,2) by auto
  qed
qed simp

lemma basis_sum_single:
  assumes "\<And>i f'. i \<in> set is \<Longrightarrow> f i = Some f' \<Longrightarrow> f' = (if i = k then y else 0)" "distinct is"
  shows "basis_sum f is v = Some v' \<Longrightarrow> v' = v + (if k \<in> set is then y else 0)"
  using assms
proof (induction "is" arbitrary: v)
  case (Cons i js)
  then obtain b where b: "f i = Some b" "basis_sum f js (v + b) = Some v'"
    by (auto simp: fault_eq)
  have "v' = (v + b) + (if k \<in> set js then y else 0)"
    using Cons.IH [OF b(2)] Cons.prems(2,3) by auto
  moreover have "b = (if i = k then y else 0)" using Cons.prems(2) [of i] b(1) by auto
  ultimately show ?case using Cons.prems(3) by auto
qed simp

lemma interpolatePartial_exact:
  assumes "table_ok tm" "interpolatePartial tm (10 * int k) head tail = Some v" "head \<le> k" "k < tail" "tail \<le> 15"
  shows "v = tm_y tm ! k"
proof -
  note T = table_okD [OF assms(1)]
  obtain w where w: "basis_sum (\<lambda>i. get_lagrange_basis_partial tm i (10 * int k) head tail) [head..<tail] 0 = Some w"
    "v = zero_limit w"
    using assms(2) by (auto simp: interpolatePartial_def Let_def fault_eq)
  have b: "f' = (if i = k then tm_y tm ! k else 0)"
    if i: "i \<in> set [head..<tail]" and f: "get_lagrange_basis_partial tm i (10 * int k) head tail = Some f'" for i f'
  proof (cases "i = k")
    case True
    have "\<bar>tm_y tm ! k\<bar> \<le> 10000000" using T(3,4) [of k] assms(4,5) by auto
    then show ?thesis
      using True f lagrange_at_point [of k "tm_y tm ! k" "[head..<tail]"] T(1,2) assms(4,5)
      by (auto simp: get_lagrange_basis_partial_def fault_eq)
  next
    case False
    then show ?thesis
      using f i lagrange_at_other [of i k "[head..<tail]"] T(1,2) assms(3-5)
      by (auto simp: get_lagrange_basis_partial_def fault_eq)
  qed
  have "w = 0 + (if k \<in> set [head..<tail] then tm_y tm ! k else 0)"
    by (rule basis_sum_single [OF b _ w(1)]) auto
  then show ?thesis
    using w(2) assms(3-5) T(3) [of k] by (simp add: zero_limit_def)
qed

lemma easyInterpolation_exact:
  assumes "table_ok tm" "k < 15"
  shows "easyInterpolation tm (10 * int k) = Some (tm_y tm ! k)"
proof -
  obtain v where v: "easyInterpolation tm (10 * int k) = Some v"
    using easyInterpolation_total [OF assms(1), of "10 * int k"] assms(2) by auto
  moreover have "v = tm_y tm ! k"
    using v interpolatePartial_exact [OF assms(1)] assms(2)
    by (cases "75 < 10 * int k") (auto simp: easyInterpolation_def)
  ultimately show ?thesis by simp
qed

section \<open>Ramps\<close>

text \<open>The tables of the ramps: interpolation and the line through the times make sense on them.\<close>

definition ramp_ok :: "TrainModel \<Rightarrow> bool" where
  "ramp_ok m \<longleftrightarrow> table_ok m \<and> length (tm_t m) = 15 \<and> list_all (\<lambda>t. 0 \<le> t \<and> t \<le> 595) (tm_t m) \<and>
     (case gear_line (tm_x m) (tm_t m) of None \<Rightarrow> False
      | Some (slope, offset) \<Rightarrow> 0 < slope \<and> offset \<le> 0 \<and> - 200 \<le> offset)"

lemma gear_lines:
  "gear_line (tm_x TR_77_ACCEL_DIST) (tm_t TR_77_ACCEL_DIST) = Some (4, - 91)"
  "gear_line (tm_x TR_78_ACCEL_DIST) (tm_t TR_78_ACCEL_DIST) = Some (5, - 69)"
  "gear_line (tm_x TR_79_ACCEL_DIST) (tm_t TR_79_ACCEL_DIST) = Some (4, - 82)"
  "gear_line (tm_x TR_77_STP_DIST) (tm_t TR_77_STP_DIST) = Some (3, - 107)"
  "gear_line (tm_x TR_78_STP_DIST) (tm_t TR_78_STP_DIST) = Some (2, - 3)"
  "gear_line (tm_x TR_79_STP_DIST) (tm_t TR_79_STP_DIST) = Some (3, - 100)"
  by code_simp+

lemma ramps_ok:
  "ramp_ok TR_77_ACCEL_DIST" "ramp_ok TR_78_ACCEL_DIST" "ramp_ok TR_79_ACCEL_DIST"
  "ramp_ok TR_77_STP_DIST" "ramp_ok TR_78_STP_DIST" "ramp_ok TR_79_STP_DIST"
  by (simp_all add: ramp_ok_def tables_ok gear_lines)
     (simp_all add: TR_77_ACCEL_DIST_def TR_78_ACCEL_DIST_def TR_79_ACCEL_DIST_def
      TR_77_STP_DIST_def TR_78_STP_DIST_def TR_79_STP_DIST_def)

definition calibrated :: "int \<Rightarrow> bool" where
  "calibrated tr \<longleftrightarrow> tr = 77 \<or> tr = 78 \<or> tr = 79"

lemma ramp_tables:
  assumes "calibrated tr"
  obtains m n where "getAccelerationDistanceModel tm_undef tr = Some m" "ramp_ok m"
    "getStoppingDistanceModel tm_undef tr = Some n" "ramp_ok n"
  using assms that by (auto simp: calibrated_def getAccelerationDistanceModel_def getStoppingDistanceModel_def ramps_ok)

lemma ramp_time:
  assumes "ramp_ok m" "0 \<le> g" "g \<le> 140"
  shows "\<exists>t. agetz (tm_t m) (c_div g 10) = Some t \<and> 0 \<le> t \<and> t \<le> 595"
  using assms by (auto simp: ramp_ok_def agetz_def list_all_length)

lemma estimateGear_total:
  assumes "ramp_ok m" "0 \<le> t" "t \<le> 1000"
  shows "\<exists>g. estimateGear (tm_x m) (tm_t m) t = Some g \<and> 0 \<le> g \<and> g \<le> 140"
proof -
  obtain sl off where l: "gear_line (tm_x m) (tm_t m) = Some (sl, off)" "0 < sl" "off \<le> 0" "- 200 \<le> off"
    and x: "tm_x m = gears"
    using assms(1) table_okD(1) by (auto simp: ramp_ok_def split: option.splits)
  have q: "idiv (t - off) sl = Some ((t - off) div sl)" "0 \<le> (t - off) div sl"
    using l assms by (auto intro!: idiv_pos simp: pos_imp_zdiv_nonneg_iff)
  have "i32 (t - off) = Some (t - off)" using l assms by (simp add: i32_def)
  then show ?thesis using l(1) q x by (simp add: estimateGear_def cap_def aget_def)
qed

text \<open>Well-formed snapshots: gears of the tables, speeds in range, and the current gear on its way from the
  start of a ramp to its end.\<close>

definition snap_ok :: "TrainModelSnapshot \<Rightarrow> bool" where
  "snap_ok s \<longleftrightarrow> 0 \<le> sn_cur_gear s \<and> sn_cur_gear s \<le> 140 \<and> 0 \<le> sn_start_gear s \<and> sn_start_gear s \<le> 140 \<and>
     0 \<le> sn_end_gear s \<and> sn_end_gear s \<le> 140 \<and> 0 \<le> sn_duration s \<and>
     (sn_start_gear s < sn_end_gear s \<longrightarrow> sn_cur_gear s \<le> sn_end_gear s) \<and>
     (sn_end_gear s < sn_start_gear s \<longrightarrow> sn_end_gear s \<le> sn_cur_gear s) \<and>
     length (tm_y (sn_model s)) = 15 \<and> list_all (\<lambda>v. 0 \<le> v \<and> v \<le> 10000) (tm_y (sn_model s))"

text \<open>The table by which a snapshot moves, and the distance along it between two gears.\<close>

definition ramp_table :: "TrainModelSnapshot \<Rightarrow> int \<Rightarrow> TrainModel option" where
  "ramp_table s tr = (if sn_start_gear s < sn_end_gear s then getAccelerationDistanceModel tm_undef tr
     else getStoppingDistanceModel tm_undef tr)"

definition ramp_dist :: "TrainModel \<Rightarrow> int \<Rightarrow> int \<Rightarrow> int" where
  "ramp_dist m g h = (if g \<le> h then the (easyInterpolation m h) - the (easyInterpolation m g)
     else the (easyInterpolation m g) - the (easyInterpolation m h))"

lemma ramp_diff:
  assumes "ramp_ok m" "0 \<le> g" "g \<le> 140" "0 \<le> h" "h \<le> 140"
  obtains a b where "easyInterpolation m g = Some a" "easyInterpolation m h = Some b" "i32 (a - b) = Some (a - b)"
    "i32 (b - a) = Some (b - a)"
proof -
  obtain a b where ab: "easyInterpolation m g = Some a" "easyInterpolation m h = Some b" "0 \<le> a" "0 \<le> b"
    using easyInterpolation_total [of m g] easyInterpolation_total [of m h] assms by (auto simp: ramp_ok_def)
  moreover have "a < 2147483648" "b < 2147483648"
    using ab easyInterpolation_less by auto
  ultimately show ?thesis using that by (auto simp: i32_def)
qed

text \<open>What a step of a ramp does.\<close>

definition ramp_step :: "TrainModel \<Rightarrow> TrainModelSnapshot \<Rightarrow> int \<Rightarrow> TrainModelSnapshot \<Rightarrow> bool" where
  "ramp_step m s d s' \<longleftrightarrow> 0 \<le> d \<and> ramp_dist m (sn_cur_gear s) (sn_cur_gear s') \<le> d \<and>
     (s' = s\<lparr>sn_cur_gear := sn_cur_gear s'\<rparr> \<and> sn_duration s < 595 \<or>
      s' = s\<lparr>sn_cur_gear := sn_end_gear s, sn_start_gear := sn_end_gear s\<rparr>)"

lemma ramp_step_cases:
  assumes "ramp_step m s d s'"
  obtains g where "s' = s\<lparr>sn_cur_gear := g\<rparr>" "sn_duration s < 595"
  | "s' = s\<lparr>sn_cur_gear := sn_end_gear s, sn_start_gear := sn_end_gear s\<rparr>"
  using assms by (auto simp: ramp_step_def)

lemma tud_accelerate_step:
  assumes "snap_ok s" "getAccelerationDistanceModel tm_undef tr = Some m" "ramp_ok m" "sn_start_gear s < sn_end_gear s"
  shows "\<exists>d s'. tud_accelerate s tr = Some (d, s') \<and> ramp_step m s d s' \<and>
    sn_cur_gear s \<le> sn_cur_gear s' \<and> sn_cur_gear s' \<le> sn_end_gear s"
proof -
  note S = assms(1) [unfolded snap_ok_def]
  obtain te tb where t: "agetz (tm_t m) (c_div (sn_end_gear s) 10) = Some te"
      "agetz (tm_t m) (c_div (sn_start_gear s) 10) = Some tb" "0 \<le> te" "te \<le> 595" "0 \<le> tb" "tb \<le> 595"
    using ramp_time [OF assms(3), of "sn_end_gear s"] ramp_time [OF assms(3), of "sn_start_gear s"] S by auto
  then have dt: "i32 (te - tb) = Some (te - tb)" by (simp add: i32_def)
  have dist: "\<exists>a b. easyInterpolation m (sn_cur_gear s) = Some a \<and> easyInterpolation m g = Some b \<and>
      i32 (b - a) = Some (b - a)" if "sn_cur_gear s \<le> g" "g \<le> sn_end_gear s" for g
    by (rule ramp_diff [OF assms(3), of "sn_cur_gear s" g]) (use S that in auto)
  show ?thesis
  proof (cases "sn_duration s < te - tb")
    case True
    then obtain e where e: "estimateGear (tm_x m) (tm_t m) (sn_duration s) = Some e"
      using estimateGear_total [OF assms(3), of "sn_duration s"] S t by auto
    define g where "g = (if (if sn_end_gear s < e then sn_end_gear s else e) < sn_cur_gear s then sn_cur_gear s
      else (if sn_end_gear s < e then sn_end_gear s else e))"
    have g: "sn_cur_gear s \<le> g" "g \<le> sn_end_gear s" using S assms(4) by (auto simp: g_def)
    obtain a b where ab: "easyInterpolation m (sn_cur_gear s) = Some a" "easyInterpolation m g = Some b"
      "i32 (b - a) = Some (b - a)" using dist [OF g] by blast
    have "tud_accelerate s tr = Some (zero_limit (b - a), s\<lparr>sn_cur_gear := g\<rparr>)"
      using True assms(2) t dt e ab g by (simp add: tud_accelerate_def Let_def g_def [symmetric])
    then show ?thesis
      using g ab True t by (auto simp: ramp_step_def ramp_dist_def)
  next
    case False
    have g: "sn_cur_gear s \<le> sn_end_gear s" using S assms(4) by simp
    obtain a b where ab: "easyInterpolation m (sn_cur_gear s) = Some a" "easyInterpolation m (sn_end_gear s) = Some b"
      "i32 (b - a) = Some (b - a)" using dist [OF g] by blast
    have "tud_accelerate s tr = Some (zero_limit (b - a), s\<lparr>sn_start_gear := sn_end_gear s, sn_cur_gear := sn_end_gear s\<rparr>)"
      using False assms(2) t dt ab g
      by (simp add: tud_accelerate_def)
    then show ?thesis
      using g ab by (auto simp: ramp_step_def ramp_dist_def)
  qed
qed

lemma tud_decelerate_step:
  assumes "snap_ok s" "getStoppingDistanceModel tm_undef tr = Some m" "ramp_ok m" "sn_end_gear s < sn_start_gear s"
  shows "\<exists>d s'. tud_decelerate s tr = Some (d, s') \<and> ramp_step m s d s' \<and>
    sn_end_gear s \<le> sn_cur_gear s' \<and> sn_cur_gear s' \<le> sn_cur_gear s"
proof -
  note S = assms(1) [unfolded snap_ok_def]
  obtain te tb where t: "agetz (tm_t m) (c_div (sn_end_gear s) 10) = Some te"
      "agetz (tm_t m) (c_div (sn_start_gear s) 10) = Some tb" "0 \<le> te" "te \<le> 595" "0 \<le> tb" "tb \<le> 595"
    using ramp_time [OF assms(3), of "sn_end_gear s"] ramp_time [OF assms(3), of "sn_start_gear s"] S by auto
  then have dt: "i32 (tb - te) = Some (tb - te)" by (simp add: i32_def)
  have dist: "\<exists>a b. easyInterpolation m (sn_cur_gear s) = Some a \<and> easyInterpolation m g = Some b \<and>
      i32 (a - b) = Some (a - b)" if "sn_end_gear s \<le> g" "g \<le> sn_cur_gear s" for g
    by (rule ramp_diff [OF assms(3), of "sn_cur_gear s" g]) (use S that in auto)
  show ?thesis
  proof (cases "sn_duration s < tb - te")
    case True
    then have p: "i32 (tb - sn_duration s) = Some (tb - sn_duration s)" "0 \<le> tb - sn_duration s"
      "tb - sn_duration s \<le> 1000"
      using t S by (auto simp: i32_def)
    then obtain e where e: "estimateGear (tm_x m) (tm_t m) (tb - sn_duration s) = Some e"
      using estimateGear_total [OF assms(3), of "tb - sn_duration s"] by auto
    define g where "g = (if sn_cur_gear s < (if e < sn_end_gear s then sn_end_gear s else e) then sn_cur_gear s
      else (if e < sn_end_gear s then sn_end_gear s else e))"
    have g: "sn_end_gear s \<le> g" "g \<le> sn_cur_gear s" using S assms(4) by (auto simp: g_def)
    obtain a b where ab: "easyInterpolation m (sn_cur_gear s) = Some a" "easyInterpolation m g = Some b"
      "i32 (a - b) = Some (a - b)" using dist [OF g] by blast
    have "tud_decelerate s tr = Some (zero_limit (a - b), s\<lparr>sn_cur_gear := g\<rparr>)"
      using True assms(2) t dt p e ab g by (simp add: tud_decelerate_def Let_def g_def [symmetric])
    then show ?thesis
      using g ab True t by (auto simp: ramp_step_def ramp_dist_def)
  next
    case False
    have g: "sn_end_gear s \<le> sn_cur_gear s" using S assms(4) by simp
    obtain a b where ab: "easyInterpolation m (sn_cur_gear s) = Some a" "easyInterpolation m (sn_end_gear s) = Some b"
      "i32 (a - b) = Some (a - b)" using dist [of "sn_end_gear s"] g by auto
    have "tud_decelerate s tr = Some (zero_limit (a - b), s\<lparr>sn_start_gear := sn_end_gear s, sn_cur_gear := sn_end_gear s\<rparr>)"
      using False assms(2) t dt ab g
      by (simp add: tud_decelerate_def)
    then show ?thesis
      using g ab by (auto simp: ramp_step_def ramp_dist_def)
  qed
qed

text \<open>Ticks: the estimator writes the time that has passed since the last one and asks for the distance.\<close>

definition tick :: "int \<Rightarrow> TrainModelSnapshot \<Rightarrow> int \<Rightarrow> (int \<times> TrainModelSnapshot) option" where
  "tick tr s e = trainUpdateDist (s\<lparr>sn_elapsed := e\<rparr>) tr"

fun ticks :: "int \<Rightarrow> TrainModelSnapshot \<Rightarrow> int list \<Rightarrow> (int \<times> TrainModelSnapshot) option" where
  "ticks tr s [] = Some (0, s)"
| "ticks tr s (e # es) = do {
     (d, s) \<leftarrow> tick tr s e;
     (sum, s) \<leftarrow> ticks tr s es;
     Some (d + sum, s) }"

lemma tick_constant:
  assumes "snap_ok s" "sn_start_gear s = sn_end_gear s" "0 \<le> e" "sn_duration s + e \<le> 200000"
  shows "\<exists>d. tick tr s e = Some (d, s\<lparr>sn_elapsed := e, sn_duration := 0\<rparr>) \<and> 0 \<le> d \<and>
    d = tm_y (sn_model s) ! nat (sn_start_gear s div 10) * e"
proof -
  note S = assms(1) [unfolded snap_ok_def]
  define v where "v = tm_y (sn_model s) ! nat (sn_start_gear s div 10)"
  have k: "nat (sn_start_gear s div 10) < 15" using S by auto
  then have v: "agetz (tm_y (sn_model s)) (sn_start_gear s div 10) = Some v" "0 \<le> v" "v \<le> 10000"
    using S by (auto simp: agetz_def v_def list_all_length)
  have "e \<le> 200000" using assms(4) S by simp
  then have "v * e \<le> 10000 * 200000"
    using v(2,3) assms(3) by (intro mult_mono) simp_all
  moreover have "0 \<le> v * e" using v(2) assms(3) by simp
  ultimately have "i32 (v * e) = Some (v * e)" "0 \<le> v * e" by (auto simp: i32_def)
  moreover have "i32 (sn_duration s + e) = Some (sn_duration s + e)"
    using assms(3,4) S by (auto simp: i32_def)
  ultimately show ?thesis
    using assms(2) v(1) S by (simp add: tick_def trainUpdateDist_def Let_def v_def)
qed

lemma tick_ramp:
  assumes "snap_ok s" "calibrated tr" "sn_start_gear s \<noteq> sn_end_gear s" "0 \<le> e" "sn_duration s + e \<le> 200000"
    "ramp_table s tr = Some m"
  shows "\<exists>d s'. tick tr s e = Some (d, s') \<and> ramp_step m (s\<lparr>sn_elapsed := e, sn_duration := sn_duration s + e\<rparr>) d s' \<and>
    snap_ok s' \<and> (sn_cur_gear s \<le> sn_cur_gear s' \<and> sn_cur_gear s' \<le> sn_end_gear s \<or>
      sn_end_gear s \<le> sn_cur_gear s' \<and> sn_cur_gear s' \<le> sn_cur_gear s)"
proof -
  let ?s = "s\<lparr>sn_elapsed := e, sn_duration := sn_duration s + e\<rparr>"
  have ok: "snap_ok ?s" using assms(1,4) by (simp add: snap_ok_def)
  have i: "i32 (sn_duration s + e) = Some (sn_duration s + e)"
    using assms(1,4,5) by (simp add: i32_def snap_ok_def)
  obtain a b where ab: "getAccelerationDistanceModel tm_undef tr = Some a" "ramp_ok a"
    "getStoppingDistanceModel tm_undef tr = Some b" "ramp_ok b" using ramp_tables [OF assms(2)] .
  have rs: "snap_ok s'" if "ramp_step m ?s d s'" "min (sn_cur_gear s) (sn_end_gear s) \<le> sn_cur_gear s'"
      "sn_cur_gear s' \<le> max (sn_cur_gear s) (sn_end_gear s)" for d s'
    using that(1) unfolding ramp_step_def
  proof (elim conjE disjE)
    assume "s' = ?s\<lparr>sn_cur_gear := sn_cur_gear s'\<rparr>"
    then obtain g where "s' = ?s\<lparr>sn_cur_gear := g\<rparr>" by blast
    then show ?thesis using ok that(2,3) by (auto simp: snap_ok_def)
  next
    assume "s' = ?s\<lparr>sn_cur_gear := sn_end_gear ?s, sn_start_gear := sn_end_gear ?s\<rparr>"
    then show ?thesis using ok by (simp add: snap_ok_def)
  qed
  show ?thesis
  proof (cases "sn_start_gear s < sn_end_gear s")
    case True
    then have "m = a" using assms(6) ab by (simp add: ramp_table_def)
    with tud_accelerate_step [OF ok ab(1,2)] True obtain d s' where
      "tud_accelerate ?s tr = Some (d, s')" "ramp_step m ?s d s'"
      "sn_cur_gear s \<le> sn_cur_gear s'" "sn_cur_gear s' \<le> sn_end_gear s" by auto
    then show ?thesis using True i rs by (auto simp: tick_def trainUpdateDist_def)
  next
    case False
    then have "m = b" using assms(6) ab by (simp add: ramp_table_def)
    with tud_decelerate_step [OF ok ab(3,4)] False assms(3) obtain d s' where
      "tud_decelerate ?s tr = Some (d, s')" "ramp_step m ?s d s'"
      "sn_end_gear s \<le> sn_cur_gear s'" "sn_cur_gear s' \<le> sn_cur_gear s" by auto
    then show ?thesis using False assms(3) i rs by (auto simp: tick_def trainUpdateDist_def)
  qed
qed

lemma ticks_constant:
  "snap_ok s \<Longrightarrow> sn_start_gear s = sn_end_gear s \<Longrightarrow> \<forall>e \<in> set es. 0 \<le> e \<Longrightarrow>
    sn_duration s + sum_list es \<le> 200000 \<Longrightarrow>
    \<exists>d s'. ticks tr s es = Some (d, s') \<and> 0 \<le> d \<and> snap_ok s' \<and> sn_start_gear s' = sn_end_gear s \<and>
      sn_cur_gear s' = sn_cur_gear s \<and> sn_end_gear s' = sn_end_gear s"
proof (induction es arbitrary: s)
  case (Cons e es)
  let ?s = "s\<lparr>sn_elapsed := e, sn_duration := 0\<rparr>"
  have "0 \<le> sum_list es" "0 \<le> sn_duration s"
    using Cons.prems(1,3) by (auto intro!: sum_list_nonneg simp: snap_ok_def)
  then have e: "0 \<le> e" "sn_duration s + e \<le> 200000" "sum_list es \<le> 200000" using Cons.prems(3,4) by auto
  from tick_constant [OF Cons.prems(1,2) e(1,2)] obtain d where
    d: "tick tr s e = Some (d, ?s)" "0 \<le> d" by blast
  have "snap_ok ?s" using Cons.prems(1) by (simp add: snap_ok_def)
  with Cons.IH [of ?s] Cons.prems(2,3) e(3) obtain x s' where "ticks tr ?s es = Some (x, s')" "0 \<le> x" "snap_ok s'"
    "sn_start_gear s' = sn_end_gear s" "sn_cur_gear s' = sn_cur_gear s" "sn_end_gear s' = sn_end_gear s"
    by auto
  then show ?case using d by simp
qed simp

lemma ramp_dist_split:
  "g \<le> h \<and> h \<le> k \<or> k \<le> h \<and> h \<le> g \<Longrightarrow> ramp_dist m g k = ramp_dist m g h + ramp_dist m h k"
  by (auto simp: ramp_dist_def)

lemma ticks_ramp:
  "snap_ok s \<Longrightarrow> calibrated tr \<Longrightarrow> sn_start_gear s \<noteq> sn_end_gear s \<Longrightarrow> ramp_table s tr = Some m \<Longrightarrow>
    \<forall>e \<in> set es. 0 \<le> e \<Longrightarrow> sn_duration s + sum_list es \<le> 200000 \<Longrightarrow> 595 \<le> sn_duration s + sum_list es \<Longrightarrow>
    es \<noteq> [] \<Longrightarrow>
    \<exists>d s'. ticks tr s es = Some (d, s') \<and> ramp_dist m (sn_cur_gear s) (sn_end_gear s) \<le> d \<and> snap_ok s' \<and>
      sn_start_gear s' = sn_end_gear s \<and> sn_cur_gear s' = sn_end_gear s \<and> sn_end_gear s' = sn_end_gear s"
proof (induction es arbitrary: s)
  case (Cons e es)
  let ?s = "s\<lparr>sn_elapsed := e, sn_duration := sn_duration s + e\<rparr>"
  have "0 \<le> sum_list es" using Cons.prems(5) by (auto intro!: sum_list_nonneg)
  then have e: "0 \<le> e" "sn_duration s + e \<le> 200000" using Cons.prems(5,6) by auto
  obtain d s1 where d: "tick tr s e = Some (d, s1)" "ramp_step m ?s d s1" "snap_ok s1"
    "sn_cur_gear s \<le> sn_cur_gear s1 \<and> sn_cur_gear s1 \<le> sn_end_gear s \<or>
     sn_end_gear s \<le> sn_cur_gear s1 \<and> sn_cur_gear s1 \<le> sn_cur_gear s"
    using tick_ramp [OF Cons.prems(1-3) e Cons.prems(4)] by blast
  have rd: "ramp_dist m (sn_cur_gear s) (sn_cur_gear s1) \<le> d" using d(2) by (simp add: ramp_step_def)
  show ?case
  proof (cases "sn_start_gear s1 = sn_end_gear s1")
    case True
    then have s1: "s1 = ?s\<lparr>sn_cur_gear := sn_end_gear s, sn_start_gear := sn_end_gear s\<rparr>"
      using Cons.prems(3) by (cases rule: ramp_step_cases [OF d(2)]) auto
    have "sn_duration s1 + sum_list es \<le> 200000" using s1 Cons.prems(6) by simp
    from ticks_constant [where tr = tr, OF d(3) True _ this] Cons.prems(5) obtain x s' where
      "ticks tr s1 es = Some (x, s')" "0 \<le> x" "snap_ok s'" "sn_start_gear s' = sn_end_gear s1"
      "sn_cur_gear s' = sn_cur_gear s1" "sn_end_gear s' = sn_end_gear s1" by auto
    then show ?thesis using d(1) rd s1 by simp
  next
    case False
    then have s1: "s1 = ?s\<lparr>sn_cur_gear := sn_cur_gear s1\<rparr>" "sn_duration s + e < 595"
      using d(2) by (auto simp: ramp_step_def)
    then obtain g where g: "s1 = ?s\<lparr>sn_cur_gear := g\<rparr>" by blast
    have "es \<noteq> []" using s1(2) Cons.prems(7) by auto
    moreover have "ramp_table s1 tr = Some m" using Cons.prems(4) by (simp add: g ramp_table_def)
    ultimately obtain x s' where "ticks tr s1 es = Some (x, s')" "ramp_dist m g (sn_end_gear s) \<le> x" "snap_ok s'"
      "sn_start_gear s' = sn_end_gear s" "sn_cur_gear s' = sn_end_gear s" "sn_end_gear s' = sn_end_gear s"
      using Cons.IH [OF d(3) Cons.prems(2)] Cons.prems(3,5-7) by (auto simp: g)
    moreover have "ramp_dist m (sn_cur_gear s) (sn_end_gear s) =
        ramp_dist m (sn_cur_gear s) g + ramp_dist m g (sn_end_gear s)"
      using d(4) by (intro ramp_dist_split) (auto simp: g)
    ultimately show ?thesis using d(1) rd by (auto simp: g)
  qed
qed simp

section \<open>Theorems\<close>

text \<open>C36: A change of speed completes: for each calibrated train, from a well-formed snapshot whose start gear differs
  from its end gear, any ticks that are not negative, that sum to at least 595 (the longest time in the tables) and that
  with the time already spent on the ramp stay within 200000 bring the train exactly to its end gear and end the ramp. No
  tick on the way overflows an \<^verbatim>\<open>int\<close>, divides by zero, reads outside a table or fails an assertion, and the distances
  add up to at least the distance between the two gears in the table (they may add up to more, because the interpolated
  distances are not monotone and a negative step counts as 0). The bound is needed: the code adds the tick to that time and, once
  the ramp is over, multiplies it by the velocity, both in 32 bits, so that a tick near 2147483647 overflows; 200000 ticks are over half an hour.\<close>

theorem train_ramp_completes:
  assumes "snap_ok s" "calibrated tr" "sn_start_gear s \<noteq> sn_end_gear s" "ramp_table s tr = Some m"
    "\<forall>e \<in> set es. 0 \<le> e" "sn_duration s + sum_list es \<le> 200000" "595 \<le> sum_list es"
  shows "\<exists>d s'. ticks tr s es = Some (d, s') \<and> ramp_dist m (sn_cur_gear s) (sn_end_gear s) \<le> d \<and> snap_ok s' \<and>
    sn_start_gear s' = sn_end_gear s \<and> sn_cur_gear s' = sn_end_gear s \<and> sn_end_gear s' = sn_end_gear s"
proof -
  have "es \<noteq> []" using assms(7) by auto
  then show ?thesis
    using ticks_ramp [OF assms(1-6)] assms(1,7) by (auto simp: snap_ok_def)
qed

theorem train_ramp_completes_witness:
  "\<exists>d s'. ticks 78 \<lparr>sn_cur_gear = 30, sn_start_gear = 30, sn_end_gear = 120, sn_duration = 0, sn_elapsed = 0,
       sn_last_sen_ts = - 1, sn_model = TR_78_VELO\<rparr> [100, 250, 250] = Some (d, s') \<and>
     686840 \<le> d \<and> sn_cur_gear s' = 120"
proof -
  let ?s = "\<lparr>sn_cur_gear = 30, sn_start_gear = 30, sn_end_gear = 120, sn_duration = 0, sn_elapsed = 0,
       sn_last_sen_ts = - 1, sn_model = TR_78_VELO\<rparr>"
  have "ramp_dist TR_78_ACCEL_DIST 30 120 = 686840"
    using easyInterpolation_exact [OF tables_ok(2), of 3] easyInterpolation_exact [OF tables_ok(2), of 12]
    by (simp add: ramp_dist_def TR_78_ACCEL_DIST_def)
  moreover have "snap_ok ?s" by (simp add: snap_ok_def TR_78_VELO_def)
  moreover have "ramp_table ?s 78 = Some TR_78_ACCEL_DIST"
    by (simp add: ramp_table_def getAccelerationDistanceModel_def)
  ultimately show ?thesis
    using train_ramp_completes [of ?s 78 TR_78_ACCEL_DIST "[100, 250, 250]"] by (auto simp: calibrated_def)
qed

text \<open>Interpolation never faults on a table of the trains, for any gear between 0 and 140 (times ten): no product
  of the Lagrange form leaves 32 bits. At the measured points it returns exactly the measured value, in spite of the
  truncating divisions.\<close>

theorem interpolation_exact:
  assumes "table_ok tm" "0 \<le> g" "g \<le> 140" "k < 15"
  shows "(\<exists>v. easyInterpolation tm g = Some v \<and> 0 \<le> v) \<and> easyInterpolation tm (10 * int k) = Some (tm_y tm ! k)"
  using easyInterpolation_total [OF assms(1-3)] easyInterpolation_exact [OF assms(1,4)] by blast

theorem interpolation_exact_witness:
  "(\<exists>v. easyInterpolation TR_79_STP_DIST 77 = Some v \<and> 0 \<le> v) \<and> easyInterpolation TR_79_STP_DIST 120 = Some 773016"
  using interpolation_exact [OF tables_ok(6), of 77 12] by (simp add: TR_79_STP_DIST_def)

end
