(* ===== verification/Estimator.thy ===== *)
theory Estimator
  imports TrackSwitch TrainModel
begin

text \<open>
  The position estimator, lib/train/estimator.c: where each train is on the track, as the model of its
  speed says, and the correction of both when a sensor is hit. A \<^verbatim>\<open>train *\<close> is the train's index in the
  estimator's array. The trains on an edge are in the list \<^verbatim>\<open>tr_at\<close> of the node that the edge leaves, the
  farthest from the node first.

  The loop that moves a train, the searches and the update of a train, which calls itself for the trains
  in its way, have no bound of their own: they are partial functions, \<open>None\<close> being "does not return,
  or faults". Times and distances are unbounded integers here; the distance of a tick comes from the
  train model, where the 32 bits of an \<^verbatim>\<open>int\<close> are checked.
\<close>

section \<open>Data\<close>

abbreviation TRAIN_MAX :: nat where "TRAIN_MAX \<equiv> 81"
abbreviation NUM_TRAINS :: nat where "NUM_TRAINS \<equiv> 5"
abbreviation SENSOR_SIZE :: nat where "SENSOR_SIZE \<equiv> 80"
abbreviation TN_LIST_SIZE :: nat where "TN_LIST_SIZE \<equiv> 16"
abbreviation (input) INT_MIN :: int where "INT_MIN \<equiv> - 2147483648"
abbreviation (input) INT_MAX :: int where "INT_MAX \<equiv> 2147483647"

(* src/include/lib/train/estimator.h:20-25 *)
record pos_event =
  pe_pos :: node_ptr
  pe_dir :: int
  pe_off :: int
  pe_ts :: int

(* src/include/lib/train/estimator.h:30-33 *)
record swi =
  swi_state :: int
  swi_conf :: int

(* src/include/lib/train/estimator.h:39-49 *)
record train =
  tr_num :: int
  tr_len :: int
  tr_next_pos :: pos_event
  tr_curr_pos :: pos_event
  tr_next_sen :: node_ptr
  tr_last_sen :: node_ptr
  tr_snapshot :: TrainModelSnapshot

(* src/include/lib/train/estimator.h:51-56 *)
record train_crumb =
  tc_train :: "nat option"
  tc_ts :: int
  tc_speed :: int

(* src/include/lib/train/estimator.h:58-61 *)
record tn_crumbs =
  cr_crumb :: "train_crumb list"
  cr_num :: int

(* src/include/lib/train/estimator.h:67-70 *)
record track_node_dir =
  nd_node :: node_ptr
  nd_dir :: int

text \<open>\<^verbatim>\<open>sensor[]\<close>, which nothing reads or writes, is left out.\<close>

(* src/include/lib/train/estimator.h:83-94 *)
record estimator =
  es_train :: "train list"
  es_sw :: "swi list"
  es_sen_reg :: "nat cbuf list"
  es_tr_at :: "nat cbuf list list"
  es_tmap :: "int list"
  es_crumb :: "tn_crumbs list list"
  es_ntrains :: int
  es_last_ts :: int

text \<open>Elements of the two-dimensional arrays.\<close>

definition aget2 :: "'a list list \<Rightarrow> int \<times> int \<Rightarrow> 'a option" where
  "aget2 xss = (\<lambda>(i, d). do { row \<leftarrow> agetz xss i; agetz row d })"

definition aset2 :: "'a list list \<Rightarrow> int \<times> int \<Rightarrow> 'a \<Rightarrow> 'a list list option" where
  "aset2 xss = (\<lambda>(i, d) x. do { row \<leftarrow> agetz xss i; row \<leftarrow> asetz row d x; asetz xss i row })"

definition mod_train :: "nat \<Rightarrow> (train \<Rightarrow> train) \<Rightarrow> estimator \<Rightarrow> estimator option" where
  "mod_train k f est = do {
     tr \<leftarrow> aget (es_train est) k;
     ts \<leftarrow> aset (es_train est) k (f tr);
     Some (est\<lparr>es_train := ts\<rparr>) }"

definition mod_pos :: "nat \<Rightarrow> (pos_event \<Rightarrow> pos_event) \<Rightarrow> estimator \<Rightarrow> estimator option" where
  "mod_pos k f = mod_train k (\<lambda>tr. tr\<lparr>tr_curr_pos := f (tr_curr_pos tr)\<rparr>)"

section \<open>The lists of trains\<close>

text \<open>The loop takes every train of the list out and puts it back; \<^verbatim>\<open>tr\<close> becomes \<^verbatim>\<open>NULL\<close> when it has been put
  before a train that is not as far.\<close>

(* src/src/lib/train/estimator.c:19-33 *)
fun tr_at_insert_loop :: "train list \<Rightarrow> nat \<Rightarrow> nat option \<Rightarrow> nat cbuf \<Rightarrow> (nat option \<times> nat cbuf) option" where
  "tr_at_insert_loop trains 0 tr q = Some (tr, q)"
| "tr_at_insert_loop trains (Suc i) tr q = do {
     (_, x, q) \<leftarrow> cb_pop NUM_TRAINS q;
     other \<leftarrow> x;
     kassert (Some other \<noteq> tr);
     (tr, q) \<leftarrow> (case tr of None \<Rightarrow> Some (None, q)
       | Some k \<Rightarrow> do {
           a \<leftarrow> aget trains k;
           b \<leftarrow> aget trains other;
           if pe_off (tr_curr_pos b) < pe_off (tr_curr_pos a) then do {
             (_, q) \<leftarrow> cb_push NUM_TRAINS k q;
             Some (None, q) }
           else Some (tr, q) });
     (r, q) \<leftarrow> cb_push NUM_TRAINS other q;
     kassert (r = CB_E_NONE);
     tr_at_insert_loop trains i tr q }"

(* src/src/lib/train/estimator.c:14-40 *)
definition tr_at_list_insert :: "train list \<Rightarrow> nat cbuf \<Rightarrow> nat \<Rightarrow> nat cbuf option" where
  "tr_at_list_insert trains q k = do {
     (tr, q) \<leftarrow> tr_at_insert_loop trains (nat (sint (cb_size q))) (Some k) q;
     case tr of None \<Rightarrow> Some q
     | Some k \<Rightarrow> do { (_, q) \<leftarrow> cb_push NUM_TRAINS k q; Some q } }"

text \<open>The two steps that the code takes together: find the list, change it.\<close>

definition put_at :: "int \<times> int \<Rightarrow> nat \<Rightarrow> estimator \<Rightarrow> estimator option" where
  "put_at at k est = do {
     q \<leftarrow> aget2 (es_tr_at est) at;
     q \<leftarrow> tr_at_list_insert (es_train est) q k;
     l \<leftarrow> aset2 (es_tr_at est) at q;
     Some (est\<lparr>es_tr_at := l\<rparr>) }"

definition take_from :: "int \<times> int \<Rightarrow> nat \<Rightarrow> estimator \<Rightarrow> estimator option" where
  "take_from at k est = do {
     q \<leftarrow> aget2 (es_tr_at est) at;
     (r, q) \<leftarrow> cb_rem NUM_TRAINS k q;
     kassert (r = CB_E_NONE);
     l \<leftarrow> aset2 (es_tr_at est) at q;
     Some (est\<lparr>es_tr_at := l\<rparr>) }"

section \<open>Setting up\<close>

(* src/src/lib/train/estimator.c:43-53 *)
definition train_uninit :: "train \<Rightarrow> train" where
  "train_uninit t = t\<lparr>tr_num := - 1,
     tr_curr_pos := (tr_curr_pos t)\<lparr>pe_pos := None, pe_dir := int DIR_AHEAD, pe_ts := INT_MIN\<rparr>,
     tr_next_pos := (tr_next_pos t)\<lparr>pe_pos := None, pe_dir := 0, pe_ts := INT_MIN\<rparr>,
     tr_next_sen := None\<rparr>"

(* src/src/lib/train/estimator.c:55-57 *)
definition est_last_ts :: "estimator \<Rightarrow> int" where
  "est_last_ts est = es_last_ts est"

(* src/src/lib/train/estimator.c:59-63 *)
definition est_get_train :: "estimator \<Rightarrow> int \<Rightarrow> nat option option" where
  "est_get_train est num = do {
     i \<leftarrow> agetz (es_tmap est) num;
     if i = - 1 then Some None
     else do { kassert (0 \<le> i \<and> nat i < length (es_train est)); Some (Some (nat i)) } }"

definition no_crumbs :: tn_crumbs where
  "no_crumbs = \<lparr>cr_crumb = replicate NUM_TRAINS \<lparr>tc_train = None, tc_ts = - 1, tc_speed = - 1\<rparr>, cr_num = 0\<rparr>"

text \<open>The memory before the initialisation is an argument: what the code does not write stays.\<close>

(* src/src/lib/train/estimator.c:65-102 *)
definition est_init :: "estimator \<Rightarrow> estimator option" where
  "est_init est = do {
     kassert (length (es_train est) = NUM_TRAINS \<and> length (es_tr_at est) = TRACK_MAX \<and>
       list_all (\<lambda>row. length row = 2) (es_tr_at est) \<and> length (es_sen_reg est) = SENSOR_SIZE);
     Some \<lparr>es_train = map train_uninit (es_train est),
       es_sw = replicate SWITCH_SIZE \<lparr>swi_state = int DIR_CURVED, swi_conf = 50\<rparr>,
       es_sen_reg = map cb_init (es_sen_reg est),
       es_tr_at = map (map cb_init) (es_tr_at est),
       es_tmap = replicate TRAIN_MAX (- 1),
       es_crumb = replicate TRACK_MAX (replicate 2 no_crumbs),
       es_ntrains = 0, es_last_ts = 0\<rparr> }"

(* src/src/lib/train/estimator.c:141-168 *)
definition est_add_tr :: "track \<Rightarrow> estimator \<Rightarrow> int \<Rightarrow> pos_event \<Rightarrow> (int \<times> estimator) option" where
  "est_add_tr t est num pe =
     (if num < 1 \<or> int TRAIN_MAX < num then Some (- 1, est)
      else do {
        tmap \<leftarrow> asetz (es_tmap est) num (es_ntrains est);
        kassert (0 \<le> es_ntrains est);
        let k = nat (es_ntrains est);
        let est = est\<lparr>es_tmap := tmap, es_ntrains := es_ntrains est + 1\<rparr>;
        tr \<leftarrow> aget (es_train est) k;
        let pos = pe\<lparr>pe_dir := int DIR_AHEAD\<rparr>;
        m \<leftarrow> getVelocityModel (sn_model (tr_snapshot tr)) num;
        est \<leftarrow> mod_train k (\<lambda>tr. tr\<lparr>tr_num := num, tr_curr_pos := pos, tr_len := 200, tr_next_sen := None,
                  tr_last_sen := None,
                  tr_snapshot := (tr_snapshot tr)\<lparr>sn_cur_gear := 0, sn_start_gear := 0, sn_end_gear := 0,
                    sn_duration := 0, sn_last_sen_ts := - 1, sn_model := m\<rparr>\<rparr>) est;
        n \<leftarrow> node_at t (pe_pos pos);
        est \<leftarrow> put_at (n_id n, pe_dir pos) k est;
        kassert (0 \<le> pe_ts pos);
        Some (0, est) })"

text \<open>One of the trains that \<^verbatim>\<open>est_init_trains\<close> adds: a train number, the name of a node and an offset. \<^verbatim>\<open>pe.dir\<close> is
  not set there, and \<^verbatim>\<open>est_add_tr\<close> does not read it.\<close>

definition add_at :: "track \<Rightarrow> int \<Rightarrow> int \<Rightarrow> string \<Rightarrow> int \<Rightarrow> estimator \<Rightarrow> (int \<times> estimator) option" where
  "add_at t ts num nm off est = do {
     i \<leftarrow> trhr t (cstr nm);
     kassert (0 \<le> i);
     est_add_tr t est num \<lparr>pe_pos = Some (nat i), pe_dir = 0, pe_off = off, pe_ts = ts\<rparr> }"

(* src/src/lib/train/estimator.c:104-138 *)
definition est_init_trains :: "track \<Rightarrow> estimator \<Rightarrow> int \<Rightarrow> int \<Rightarrow> estimator option" where
  "est_init_trains t est ts track =
     (if track = 1 then do {
        (_, est) \<leftarrow> add_at t ts 78 ''A8'' 0 est;
        (_, est) \<leftarrow> add_at t ts 79 ''A5'' 0 est;
        (_, est) \<leftarrow> add_at t ts 77 ''A10'' 0 est;
        Some est }
      else do {
        (r, est) \<leftarrow> add_at t ts 77 ''A1'' 5 est;
        kassert (r = 0);
        (r, est) \<leftarrow> add_at t ts 78 ''A1'' 0 est;
        kassert (r = 0);
        (r, est) \<leftarrow> add_at t ts 79 ''A13'' 5 est;
        kassert (r = 0);
        Some est })"

(* src/src/lib/train/estimator.c:170-179 *)
definition est_tr_curr_pos :: "estimator \<Rightarrow> int \<Rightarrow> pos_event option option" where
  "est_tr_curr_pos est num = do {
     i \<leftarrow> agetz (es_tmap est) num;
     if i = - 1 then Some None
     else do { tr \<leftarrow> agetz (es_train est) i; Some (Some (tr_curr_pos tr)) } }"

(* src/src/lib/train/estimator.c:181-190 *)
definition est_tr_next_pos :: "estimator \<Rightarrow> int \<Rightarrow> pos_event option option" where
  "est_tr_next_pos est num = do {
     i \<leftarrow> agetz (es_tmap est) num;
     if i = - 1 then Some None
     else do { tr \<leftarrow> agetz (es_train est) i; Some (Some (tr_next_pos tr)) } }"

section \<open>Moving trains\<close>

(* src/src/lib/train/estimator.c:375-393 *)
definition est_estimate_sw_dir :: "estimator \<Rightarrow> int \<Rightarrow> int option" where
  "est_estimate_sw_dir est sw_num = do {
     sw \<leftarrow> agetz (es_sw est) sw_num;
     if 50 \<le> swi_conf sw then Some (swi_state sw)
     else if swi_conf sw = 0 then Some (if swi_state sw = 0 then 1 else 0)
     else do { kassert False; Some (- 1) } }"

text \<open>The distance, and what is left in \<^verbatim>\<open>*ret_next\<close> and \<^verbatim>\<open>*ret_dir\<close>, which an exit leaves unwritten.\<close>

(* src/src/lib/train/estimator.c:397-430 *)
definition est_next_node :: "track \<Rightarrow> estimator \<Rightarrow> nat \<Rightarrow> (int \<times> (node_ptr \<times> int) option) option" where
  "est_next_node t est k = do {
     tr \<leftarrow> aget (es_train est) k;
     let p = tr_curr_pos tr;
     cur \<leftarrow> node_at t (pe_pos p);
     if n_type cur = NODE_EXIT then Some (- 1, None)
     else do {
       kassert (pe_dir p = int DIR_STRAIGHT \<or> pe_dir p = int DIR_CURVED);
       e \<leftarrow> agetz (n_edge cur) (pe_dir p);
       next \<leftarrow> node_at t (e_dest e);
       next_dir \<leftarrow> (if n_type next = NODE_BRANCH then est_estimate_sw_dir est (n_num next) else Some (int DIR_AHEAD));
       Some (e_dist e - pe_off p, Some (e_dest e, next_dir)) } }"

(* src/src/lib/train/estimator.c:445-464 *)
definition est_move_train_to_node_unsafe :: "track \<Rightarrow> estimator \<Rightarrow> nat \<Rightarrow> node_ptr \<Rightarrow> (int \<times> estimator) option" where
  "est_move_train_to_node_unsafe t est k dest = do {
     tr \<leftarrow> aget (es_train est) k;
     let p = tr_curr_pos tr;
     kassert (pe_dir p = 0 \<or> pe_dir p = 1);
     n \<leftarrow> node_at t (pe_pos p);
     est \<leftarrow> take_from (n_id n, pe_dir p) k est;
     est \<leftarrow> mod_pos k (\<lambda>p. p\<lparr>pe_pos := dest, pe_off := 0, pe_dir := int DIR_AHEAD\<rparr>) est;
     m \<leftarrow> node_at t dest;
     est \<leftarrow> put_at (n_id m, int DIR_AHEAD) k est;
     Some (0, est) }"

text \<open>The loop over the trains of the list, from its end: the first that the move would reach.\<close>

(* src/src/lib/train/estimator.c:494-503 *)
fun est_blocker :: "train list \<Rightarrow> nat \<Rightarrow> int \<Rightarrow> nat cbuf \<Rightarrow> nat \<Rightarrow> nat option option" where
  "est_blocker trains k dist q 0 = Some None"
| "est_blocker trains k dist q (Suc i) = do {
     (_, x) \<leftarrow> cb_get NUM_TRAINS (int i) q;
     other \<leftarrow> x;
     if other = k then est_blocker trains k dist q i
     else do {
       o' \<leftarrow> aget trains other;
       tr \<leftarrow> aget trains k;
       let po = tr_curr_pos o';
       let p = tr_curr_pos tr;
       kassert (pe_pos po = pe_pos p);
       if pe_off p < pe_off po \<and> pe_off po \<le> pe_off p + dist then Some (Some other)
       else est_blocker trains k dist q i } }"

text \<open>A train in the way on the same edge: with \<^verbatim>\<open>force\<close> the train is moved up to 1 mm behind it.\<close>

(* src/src/lib/train/estimator.c:504-525 *)
definition est_blocked :: "track \<Rightarrow> pos_event \<Rightarrow> nat \<Rightarrow> bool \<Rightarrow> nat \<Rightarrow> estimator \<Rightarrow> int \<Rightarrow> (int \<times> estimator) option" where
  "est_blocked t orig k force other est dist =
     (if force then do {
        tr \<leftarrow> aget (es_train est) k;
        let p = tr_curr_pos tr;
        kassert (pe_dir p = 0 \<or> pe_dir p = 1);
        n \<leftarrow> node_at t (pe_pos p);
        est \<leftarrow> take_from (n_id n, pe_dir p) k est;
        o' \<leftarrow> aget (es_train est) other;
        let off = pe_off (tr_curr_pos o') - 1;
        kassert (0 < off);
        est \<leftarrow> mod_pos k (\<lambda>p. p\<lparr>pe_off := off\<rparr>) est;
        est \<leftarrow> put_at (n_id n, pe_dir p) k est;
        Some (dist - (off - pe_off p), est) }
      else do {
        est \<leftarrow> mod_pos k (\<lambda>_. orig) est;
        Some (- 1, est) })"

text \<open>A train that stands on the next node: with \<^verbatim>\<open>force\<close> the train is moved to the end of its edge. It has
  been taken out of its list before.\<close>

(* src/src/lib/train/estimator.c:556-569 *)
definition est_occupied :: "track \<Rightarrow> pos_event \<Rightarrow> nat \<Rightarrow> bool \<Rightarrow> estimator \<Rightarrow> int \<Rightarrow> int \<Rightarrow> (int \<times> estimator) option" where
  "est_occupied t orig k force est dist dist_to_next =
     (if force then do {
        est \<leftarrow> mod_pos k (\<lambda>p. p\<lparr>pe_off := pe_off p + dist_to_next\<rparr>) est;
        tr \<leftarrow> aget (es_train est) k;
        n \<leftarrow> node_at t (pe_pos (tr_curr_pos tr));
        est \<leftarrow> put_at (n_id n, pe_dir (tr_curr_pos tr)) k est;
        Some (dist - dist_to_next, est) }
      else do {
        est \<leftarrow> mod_pos k (\<lambda>_. orig) est;
        Some (- 1, est) })"

text \<open>Whether the last train of a list, the nearest to its node, stands on the node.\<close>

(* src/src/lib/train/estimator.c:550-554 *)
definition est_node_taken :: "estimator \<Rightarrow> int \<times> int \<Rightarrow> bool option" where
  "est_node_taken est at = do {
     q \<leftarrow> aget2 (es_tr_at est) at;
     if cb_size q = 0 then Some False
     else do {
       (_, x) \<leftarrow> cb_get NUM_TRAINS (sint (cb_size q) - 1) q;
       other \<leftarrow> x;
       o' \<leftarrow> aget (es_train est) other;
       Some (pe_off (tr_curr_pos o') = 0) } }"

text \<open>A turn of the loop ends the function (\<open>Inl\<close>, with the result) or leads to the next turn (\<open>Inr\<close>, with what
  the loop changes). \<open>at\<close> is the list that \<^verbatim>\<open>tr_at\<close> points to. First the part with the edge clear.\<close>

type_synonym move_result = "int \<times> estimator \<times> track_node_dir cbuf"
type_synonym move_state = "(int \<times> int) \<times> estimator \<times> int \<times> track_node_dir cbuf"

(* src/src/lib/train/estimator.c:529-588 *)
definition est_advance :: "track \<Rightarrow> pos_event \<Rightarrow> nat \<Rightarrow> bool \<Rightarrow> move_state \<Rightarrow> (move_result + move_state) option" where
  "est_advance t orig k force = (\<lambda>(at, est, dist, past). do {
     (dist_to_next, nx) \<leftarrow> est_next_node t est k;
     if dist_to_next < 0 then do {
       est \<leftarrow> mod_pos k (\<lambda>_. orig) est;
       Some (Inl (- 2, est, past)) }
     else do {
       (next, next_dir) \<leftarrow> nx;
       kassert (next_dir = int DIR_AHEAD \<or> next_dir = int DIR_STRAIGHT \<or> next_dir = int DIR_CURVED);
       est \<leftarrow> take_from at k est;
       if dist_to_next \<le> dist then do {
         m \<leftarrow> node_at t next;
         taken \<leftarrow> est_node_taken est (n_id m, next_dir);
         if taken then do {
           (r, est) \<leftarrow> est_occupied t orig k force est dist dist_to_next;
           Some (Inl (r, est, past)) }
         else do {
           est \<leftarrow> mod_pos k (\<lambda>p. p\<lparr>pe_pos := next, pe_dir := next_dir, pe_off := 0\<rparr>) est;
           kassert (next_dir = 0 \<or> next_dir = 1);
           (r, past) \<leftarrow> cb_push TN_LIST_SIZE \<lparr>nd_node = next, nd_dir = next_dir\<rparr> past;
           kassert (r = CB_E_NONE);
           est \<leftarrow> put_at (n_id m, next_dir) k est;
           Some (Inr ((n_id m, next_dir), est, dist - dist_to_next, past)) } }
       else do {
         est \<leftarrow> mod_pos k (\<lambda>p. p\<lparr>pe_off := pe_off p + dist\<rparr>) est;
         est \<leftarrow> put_at at k est;
         Some (Inr (at, est, 0, past)) } } })"

(* src/src/lib/train/estimator.c:490-588 *)
definition est_turn :: "track \<Rightarrow> pos_event \<Rightarrow> nat \<Rightarrow> bool \<Rightarrow> move_state \<Rightarrow> (move_result + move_state) option" where
  "est_turn t orig k force = (\<lambda>(at, est, dist, past). do {
     q \<leftarrow> aget2 (es_tr_at est) at;
     b \<leftarrow> est_blocker (es_train est) k dist q (nat (sint (cb_size q)));
     case b of Some other \<Rightarrow> do {
         (r, est) \<leftarrow> est_blocked t orig k force other est dist;
         Some (Inl (r, est, past)) }
     | None \<Rightarrow> est_advance t orig k force (at, est, dist, past) })"

(* src/src/lib/train/estimator.c:489-591 *)
partial_function (option) est_forward_loop :: "track \<Rightarrow> pos_event \<Rightarrow> nat \<Rightarrow> bool \<Rightarrow> move_state \<Rightarrow> move_result option" where
  "est_forward_loop t orig k force st = (case st of (at, est, dist, past) \<Rightarrow> do {
     tr \<leftarrow> aget (es_train est) k;
     n \<leftarrow> node_at t (pe_pos (tr_curr_pos tr));
     if \<not> (0 < dist \<and> n_type n \<noteq> NODE_EXIT) then Some (dist, est, past)
     else do {
       x \<leftarrow> est_turn t orig k force st;
       case x of Inl res \<Rightarrow> Some res | Inr st \<Rightarrow> est_forward_loop t orig k force st } })"

(* src/src/lib/train/estimator.c:473-592 *)
definition est_move_train_forward :: "track \<Rightarrow> estimator \<Rightarrow> nat \<Rightarrow> int \<Rightarrow> bool \<Rightarrow> track_node_dir cbuf \<Rightarrow>
    move_result option" where
  "est_move_train_forward t est k dist force past = do {
     tr \<leftarrow> aget (es_train est) k;
     let p = tr_curr_pos tr;
     n \<leftarrow> node_at t (pe_pos p);
     if n_type n = NODE_EXIT then Some (0, est, past)
     else do {
       kassert (pe_dir p = 0 \<or> pe_dir p = 1);
       est_forward_loop t p k force ((n_id n, pe_dir p), est, dist, past) } }"

end
