(* ===== verification/EstimatorUpdate.thy ===== *)
theory EstimatorUpdate
  imports Estimator
begin

text \<open>
  The estimator's updates: the marks that trains leave behind them (registrations at the sensors they
  pass in the model, and crumbs at the nodes), the search for the train that hit a sensor, the progress
  of the trains with time, and the events of the track.
\<close>

section \<open>Crumbs\<close>

text \<open>One of the loops of the recovery; its minimum \<^verbatim>\<open>min_ts\<close> is never updated.\<close>

(* src/src/lib/train/estimator.c:206-214 *)
fun crumb_scan :: "train_crumb list \<Rightarrow> nat \<Rightarrow> nat \<Rightarrow> nat option \<Rightarrow> nat option option" where
  "crumb_scan cs i 0 min_tr = Some min_tr"
| "crumb_scan cs i (Suc n) min_tr = do {
     c \<leftarrow> aget cs i;
     kassert (tc_ts c \<noteq> INT_MAX);
     crumb_scan cs (i + 1) n (if tc_train c \<noteq> None \<and> tc_ts c < INT_MAX then tc_train c else min_tr) }"

text \<open>A switch behind which a crumb was sought is taken to be faulty.\<close>

(* src/src/lib/train/estimator.c:231-243 *)
definition est_mark_faulty :: "estimator \<Rightarrow> track_node \<Rightarrow> estimator option" where
  "est_mark_faulty est n =
     (if n_type n = NODE_BRANCH then do {
        sw \<leftarrow> agetz (es_sw est) (n_num n);
        c \<leftarrow> (if 50 \<le> swi_conf sw then Some 0 else if swi_conf sw = 0 then Some 50
              else do { kassert False; Some 0 });
        sws \<leftarrow> asetz (es_sw est) (n_num n) (sw\<lparr>swi_conf := c\<rparr>);
        Some (est\<lparr>es_sw := sws\<rparr>) }
      else Some est)"

(* src/src/lib/train/estimator.c:192-247 *)
definition est_recover_train_from_node_crumbs :: "track \<Rightarrow> estimator \<Rightarrow> node_ptr \<Rightarrow> (nat option \<times> estimator) option" where
  "est_recover_train_from_node_crumbs t est node = do {
     n \<leftarrow> node_at t node;
     cr \<leftarrow> aget2 (es_crumb est) (n_id n, 0);
     min_tr \<leftarrow> (if 0 < cr_num cr then crumb_scan (cr_crumb cr) 0 (nat (es_ntrains est)) None else Some None);
     min_tr \<leftarrow> (if n_type n = NODE_BRANCH then do {
                  cr \<leftarrow> aget2 (es_crumb est) (n_id n, 1);
                  crumb_scan (cr_crumb cr) 0 (nat (es_ntrains est)) min_tr }
                else Some min_tr);
     est \<leftarrow> est_mark_faulty est n;
     Some (min_tr, est) }"

abbreviation (input) SENSOR_DEPTH :: int where "SENSOR_DEPTH \<equiv> 2"

(* src/src/lib/train/estimator.c:264-300 *)
partial_function (option) est_recover_loop :: "track \<Rightarrow> estimator \<Rightarrow> scratch \<Rightarrow> node_ptr cbuf \<Rightarrow>
    (nat option \<times> estimator) option" where
  "est_recover_loop t est a q =
    (if cb_size q = 0 then Some (None, est)
     else do {
       (r, x, q) \<leftarrow> cb_pop BFS_Q_SIZE q;
       if r \<noteq> CB_E_NONE then Some (None, est)
       else do {
         node \<leftarrow> x;
         n \<leftarrow> node_at t node;
         (tr, est) \<leftarrow> est_recover_train_from_node_crumbs t est (n_reverse n);
         if tr \<noteq> None then Some (tr, est)
         else if n_type n = NODE_BRANCH then do {
           (r, a, q) \<leftarrow> bfs_visit t (\<lambda>k v. v) DIR_CURVED n (a, q);
           if r \<noteq> CB_E_NONE then Some (None, est)
           else do {
             (r, a, q) \<leftarrow> bfs_visit t (\<lambda>k v. v) DIR_STRAIGHT n (a, q);
             if r \<noteq> CB_E_NONE then Some (None, est) else est_recover_loop t est a q }}
         else if n_type n = NODE_EXIT then est_recover_loop t est a q
         else if n_type n = NODE_SENSOR then do {
           v \<leftarrow> rd_scratch a (n_id n);
           if SENSOR_DEPTH < v + 1 then est_recover_loop t est a q
           else do {
             (r, a, q) \<leftarrow> bfs_visit t (\<lambda>k v. v + 1) DIR_AHEAD n (a, q);
             if r \<noteq> CB_E_NONE then Some (None, est) else est_recover_loop t est a q }}
         else do {
           (r, a, q) \<leftarrow> bfs_visit t (\<lambda>k v. v) DIR_AHEAD n (a, q);
           if r \<noteq> CB_E_NONE then Some (None, est) else est_recover_loop t est a q }}})"

(* src/src/lib/train/estimator.c:250-303 *)
definition est_recover_from_crumbs :: "track \<Rightarrow> estimator \<Rightarrow> node_ptr \<Rightarrow> (nat option \<times> estimator) option" where
  "est_recover_from_crumbs t est node = do {
     n \<leftarrow> node_at t node;
     (a, q) \<leftarrow> bfs_start t (n_reverse n) 0;
     est_recover_loop t est a q }"

(* src/src/lib/train/estimator.c:307-346 *)
definition est_assoc_tr :: "track \<Rightarrow> estimator \<Rightarrow> pos_event \<Rightarrow> (nat option \<times> estimator) option" where
  "est_assoc_tr t est pe = do {
     n \<leftarrow> node_at t (pe_pos pe);
     kassert (n_type n = NODE_SENSOR);
     regs \<leftarrow> agetz (es_sen_reg est) (n_id n);
     if 0 < sint (cb_size regs) then do {
       (_, x, regs) \<leftarrow> cb_pop NUM_TRAINS regs;
       rs \<leftarrow> asetz (es_sen_reg est) (n_id n) regs;
       Some (x, est\<lparr>es_sen_reg := rs\<rparr>) }
     else do {
       rn \<leftarrow> node_at t (n_reverse n);
       e \<leftarrow> aget (n_edge rn) DIR_AHEAD;
       d \<leftarrow> node_at t (e_dest e);
       let prev = n_reverse d;
       dir \<leftarrow> tn_get_dir t prev (pe_pos pe);
       kassert (dir \<noteq> - 1);
       kassert (dir = int DIR_STRAIGHT \<or> dir = int DIR_CURVED);
       pn \<leftarrow> node_at t prev;
       q \<leftarrow> aget2 (es_tr_at est) (n_id pn, dir);
       pe' \<leftarrow> agetz (n_edge pn) dir;
       kassert (0 < e_dist pe');
       if 0 < sint (cb_size q) then do {
         (_, x) \<leftarrow> cb_get NUM_TRAINS 0 q;
         Some (x, est) }
       else est_recover_from_crumbs t est (pe_pos pe) } }"

(* src/src/lib/train/estimator.c:353-371 *)
definition est_find_train_rel_to_sensor :: "track \<Rightarrow> estimator \<Rightarrow> nat \<Rightarrow> node_ptr \<Rightarrow> int option" where
  "est_find_train_rel_to_sensor t est k sen = do {
     tr \<leftarrow> aget (es_train est) k;
     let p = tr_curr_pos tr;
     s \<leftarrow> node_at t sen;
     n \<leftarrow> node_at t (pe_pos p);
     r \<leftarrow> dist_to_node t (n_reverse s) (n_reverse n);
     if 0 \<le> r then Some (- r + pe_off p)
     else do {
       r \<leftarrow> dist_to_node t sen (pe_pos p);
       if 0 \<le> r then Some (r - pe_off p) else Some INT_MAX } }"

text \<open>Taking a train's crumb off one of the directions of a node: whether there was one.\<close>

(* src/src/lib/train/estimator.c:610-617 *)
definition est_clear_crumb :: "estimator \<Rightarrow> nat \<Rightarrow> int \<times> int \<Rightarrow> (int \<times> estimator) option" where
  "est_clear_crumb est k at = do {
     cr \<leftarrow> aget2 (es_crumb est) at;
     tr \<leftarrow> aget (es_train est) k;
     i \<leftarrow> agetz (es_tmap est) (tr_num tr);
     c \<leftarrow> agetz (cr_crumb cr) i;
     if tc_train c = None then Some (0, est)
     else do {
       cs \<leftarrow> asetz (cr_crumb cr) i (c\<lparr>tc_train := None\<rparr>);
       crs \<leftarrow> aset2 (es_crumb est) at \<lparr>cr_crumb = cs, cr_num = cr_num cr - 1\<rparr>;
       Some (1, est\<lparr>es_crumb := crs\<rparr>) } }"

text \<open>At a sensor the train's registration is removed, at the end of a list of passed nodes it is renewed.\<close>

(* src/src/lib/train/estimator.c:606-608 *)
definition est_unregister :: "estimator \<Rightarrow> nat \<Rightarrow> track_node \<Rightarrow> estimator option" where
  "est_unregister est k n =
     (if n_type n = NODE_SENSOR then do {
        q \<leftarrow> agetz (es_sen_reg est) (n_num n);
        (_, q) \<leftarrow> cb_rem NUM_TRAINS k q;
        rs \<leftarrow> asetz (es_sen_reg est) (n_num n) q;
        Some (est\<lparr>es_sen_reg := rs\<rparr>) }
      else Some est)"

(* src/src/lib/train/estimator.c:703-707 *)
definition est_register :: "estimator \<Rightarrow> nat \<Rightarrow> track_node \<Rightarrow> estimator option" where
  "est_register est k n =
     (if n_type n = NODE_SENSOR then do {
        q \<leftarrow> agetz (es_sen_reg est) (n_num n);
        (_, q) \<leftarrow> cb_rem NUM_TRAINS k q;
        (r, q) \<leftarrow> cb_push NUM_TRAINS k q;
        kassert (r = CB_E_NONE);
        rs \<leftarrow> asetz (es_sen_reg est) (n_num n) q;
        Some (est\<lparr>es_sen_reg := rs\<rparr>) }
      else Some est)"

(* src/src/lib/train/estimator.c:688-699 *)
definition est_drop_crumb :: "estimator \<Rightarrow> nat \<Rightarrow> int \<Rightarrow> int \<times> int \<Rightarrow> estimator option" where
  "est_drop_crumb est k ts at = do {
     cr \<leftarrow> aget2 (es_crumb est) at;
     tr \<leftarrow> aget (es_train est) k;
     i \<leftarrow> agetz (es_tmap est) (tr_num tr);
     c \<leftarrow> agetz (cr_crumb cr) i;
     if tc_train c = None then do {
       cs \<leftarrow> asetz (cr_crumb cr) i (c\<lparr>tc_train := Some k, tc_ts := ts + cr_num cr\<rparr>);
       crs \<leftarrow> aset2 (es_crumb est) at \<lparr>cr_crumb = cs, cr_num = cr_num cr + 1\<rparr>;
       Some (est\<lparr>es_crumb := crs\<rparr>) }
     else Some est }"

(* src/src/lib/train/estimator.c:599-634 *)
definition est_cleanup_node :: "track \<Rightarrow> estimator \<Rightarrow> nat \<Rightarrow> node_ptr \<Rightarrow> (int \<times> estimator) option" where
  "est_cleanup_node t est k node = do {
     n \<leftarrow> node_at t node;
     est \<leftarrow> est_unregister est k n;
     (r, est) \<leftarrow> est_clear_crumb est k (n_id n, 0);
     if n_type n = NODE_BRANCH then do {
       (r', est) \<leftarrow> est_clear_crumb est k (n_id n, 1);
       Some (r + r', est) }
     else Some (r, est) }"

definition push_dest :: "nat \<Rightarrow> track_node \<Rightarrow> node_ptr cbuf \<Rightarrow> (cb_code \<times> node_ptr cbuf) option" where
  "push_dest dir n q = do { e \<leftarrow> aget (n_edge n) dir; cb_push BFS_Q_SIZE (e_dest e) q }"

(* src/src/lib/train/estimator.c:647-673 *)
partial_function (option) est_cleanup_loop :: "track \<Rightarrow> estimator \<Rightarrow> nat \<Rightarrow> node_ptr cbuf \<Rightarrow> (int \<times> estimator) option" where
  "est_cleanup_loop t est k q =
    (if cb_size q = 0 then Some (0, est)
     else do {
       (r, x, q) \<leftarrow> cb_pop BFS_Q_SIZE q;
       if r \<noteq> CB_E_NONE then Some (- 1, est)
       else do {
         node \<leftarrow> x;
         n \<leftarrow> node_at t node;
         (r, est) \<leftarrow> est_cleanup_node t est k (n_reverse n);
         if r = 0 then est_cleanup_loop t est k q
         else if n_type n = NODE_BRANCH then do {
           (r, q) \<leftarrow> push_dest DIR_CURVED n q;
           if r \<noteq> CB_E_NONE then Some (- 1, est)
           else do {
             (r, q) \<leftarrow> push_dest DIR_STRAIGHT n q;
             if r \<noteq> CB_E_NONE then Some (- 1, est) else est_cleanup_loop t est k q }}
         else if n_type n = NODE_EXIT then est_cleanup_loop t est k q
         else do {
           (r, q) \<leftarrow> push_dest DIR_AHEAD n q;
           if r \<noteq> CB_E_NONE then Some (- 1, est) else est_cleanup_loop t est k q }}})"

definition bfs_empty :: "node_ptr cbuf" where
  "bfs_empty = cb_init \<lparr>cb_buf = replicate BFS_Q_SIZE None, cb_start = 0, cb_end = 0, cb_size = 0\<rparr>"

(* src/src/lib/train/estimator.c:637-676 *)
definition est_cleanup :: "track \<Rightarrow> estimator \<Rightarrow> nat \<Rightarrow> node_ptr \<Rightarrow> (int \<times> estimator) option" where
  "est_cleanup t est k node = do {
     n \<leftarrow> node_at t node;
     (_, q) \<leftarrow> cb_push BFS_Q_SIZE (n_reverse n) bfs_empty;
     est_cleanup_loop t est k q }"

section \<open>Progress\<close>

text \<open>One turn of the loop over the nodes that a train has passed.\<close>

(* src/src/lib/train/estimator.c:687-708 *)
definition est_pass_node :: "track \<Rightarrow> nat \<Rightarrow> int \<Rightarrow> track_node_dir \<Rightarrow> estimator \<Rightarrow> estimator option" where
  "est_pass_node t k ts nd est = do {
     kassert (nd_dir nd = 0 \<or> nd_dir nd = 1);
     n \<leftarrow> node_at t (nd_node nd);
     est \<leftarrow> est_drop_crumb est k ts (n_id n, nd_dir nd);
     est_register est k n }"

(* src/src/lib/train/estimator.c:678-711 *)
fun est_pass_nodes :: "track \<Rightarrow> nat \<Rightarrow> int \<Rightarrow> track_node_dir cbuf \<Rightarrow> nat \<Rightarrow> nat \<Rightarrow> estimator \<Rightarrow> estimator option" where
  "est_pass_nodes t k ts nodes i 0 est = Some est"
| "est_pass_nodes t k ts nodes i (Suc n) est = do {
     (_, x) \<leftarrow> cb_get TN_LIST_SIZE (int i) nodes;
     nd \<leftarrow> x;
     est \<leftarrow> est_pass_node t k ts nd est;
     est_pass_nodes t k ts nodes (i + 1) n est }"

text \<open>\<^verbatim>\<open>est_progress_train\<close> and \<^verbatim>\<open>est_update_train\<close> call each other. \<open>upd\<close> is \<^verbatim>\<open>est_update_train\<close>: it is called for
  every other train of the copied list.\<close>

(* src/src/lib/train/estimator.c:744-751 *)
fun est_update_others :: "(nat \<Rightarrow> estimator \<Rightarrow> estimator option) \<Rightarrow> nat \<Rightarrow> nat cbuf \<Rightarrow> nat \<Rightarrow> nat \<Rightarrow> estimator \<Rightarrow>
    estimator option" where
  "est_update_others upd k q i 0 est = Some est"
| "est_update_others upd k q i (Suc n) est = do {
     (_, x) \<leftarrow> cb_get NUM_TRAINS (int i) q;
     other \<leftarrow> x;
     if other = k then est_update_others upd k q (i + 1) n est
     else do {
       est \<leftarrow> upd other est;
       est_update_others upd k q (i + 1) n est } }"

definition tn_empty :: "track_node_dir cbuf" where
  "tn_empty = cb_init \<lparr>cb_buf = replicate TN_LIST_SIZE \<lparr>nd_node = None, nd_dir = 0\<rparr>, cb_start = 0, cb_end = 0, cb_size = 0\<rparr>"

(* src/src/lib/train/estimator.c:717-772 *)
definition est_progress_train :: "(nat \<Rightarrow> estimator \<Rightarrow> estimator option) \<Rightarrow> track \<Rightarrow> estimator \<Rightarrow> nat \<Rightarrow> int \<Rightarrow> int \<Rightarrow>
    estimator option" where
  "est_progress_train upd t est k dist ts = do {
     (rem, est, nodes) \<leftarrow> est_move_train_forward t est k dist True tn_empty;
     if rem = 0 then est_pass_nodes t k ts nodes 0 (nat (sint (cb_size nodes))) est
     else if 0 < rem then do {
       tr \<leftarrow> aget (es_train est) k;
       kassert (pe_dir (tr_curr_pos tr) = 0 \<or> pe_dir (tr_curr_pos tr) = 1);
       n \<leftarrow> node_at t (pe_pos (tr_curr_pos tr));
       q \<leftarrow> aget2 (es_tr_at est) (n_id n, pe_dir (tr_curr_pos tr));
       kassert (0 < sint (cb_size q));
       est \<leftarrow> est_update_others upd k q 0 (nat (sint (cb_size q))) est;
       (rem, est, nodes) \<leftarrow> est_move_train_forward t est k rem True nodes;
       if rem = 0 then est_pass_nodes t k ts nodes 0 (nat (sint (cb_size nodes))) est
       else Some est }
     else if rem = - 2 then do { kassert False; Some est }
     else Some est }"

lemma mono_case_prod:
  "(\<And>a b. mono_option (\<lambda>f. g f a b)) \<Longrightarrow> mono_option (\<lambda>f. case y of (a, b) \<Rightarrow> g f a b)"
  by (cases y) simp

lemmas mono_intros = bind_mono option.const_mono if_mono mono_case_prod

lemma est_update_others_mono:
  assumes "\<And>o' e. mono_option (\<lambda>f. U f o' e)"
  shows "mono_option (\<lambda>f. est_update_others (U f) k q i n est)"
proof (induction n arbitrary: i est)
  case (Suc n)
  show ?case
    unfolding est_update_others.simps by (intro mono_intros assms Suc.IH)
qed (simp add: option.const_mono)

lemma est_progress_train_mono [partial_function_mono]:
  assumes "\<And>o' e. mono_option (\<lambda>f. U f o' e)"
  shows "mono_option (\<lambda>f. est_progress_train (U f) t est k dist ts)"
  unfolding est_progress_train_def by (intro mono_intros est_update_others_mono assms)

(* src/src/lib/train/estimator.c:798-819 *)
partial_function (option) est_update_train :: "track \<Rightarrow> int \<Rightarrow> nat \<Rightarrow> estimator \<Rightarrow> estimator option" where
  "est_update_train t ts k est = do {
     tr \<leftarrow> aget (es_train est) k;
     let delta = ts - pe_ts (tr_curr_pos tr);
     est \<leftarrow> (if 0 < delta then do {
               (d, snap) \<leftarrow> trainUpdateDist ((tr_snapshot tr)\<lparr>sn_elapsed := delta\<rparr>) (tr_num tr);
               est \<leftarrow> mod_train k (\<lambda>tr. tr\<lparr>tr_snapshot := snap\<rparr>) est;
               est_progress_train (\<lambda>o' est. est_update_train t ts o' est) t est k (c_div d 1000) ts }
             else Some est);
     mod_pos k (\<lambda>p. p\<lparr>pe_ts := ts\<rparr>) est }"

text \<open>The distance is added after the node has been replaced: it is that of an edge of the next node.\<close>

(* src/src/lib/train/estimator.c:774-796 *)
partial_function (option) get_next_est_sensor_exc :: "track \<Rightarrow> estimator \<Rightarrow> node_ptr \<Rightarrow> int \<Rightarrow> (node_ptr \<times> int) option" where
  "get_next_est_sensor_exc t est node dist = do {
     n \<leftarrow> node_at t node;
     if n_type n = NODE_EXIT then Some (None, dist)
     else do {
       dir \<leftarrow> (if n_type n = NODE_BRANCH then est_estimate_sw_dir est (n_num n) else Some (int DIR_AHEAD));
       e \<leftarrow> agetz (n_edge n) dir;
       m \<leftarrow> node_at t (e_dest e);
       e' \<leftarrow> agetz (n_edge m) dir;
       let dist = dist + e_dist e';
       if n_type m = NODE_SENSOR then Some (e_dest e, dist)
       else get_next_est_sensor_exc t est (e_dest e) dist } }"

section \<open>Events\<close>

(* src/src/lib/train/estimator.c:837-851 *)
fun est_update_loop :: "track \<Rightarrow> int \<Rightarrow> nat \<Rightarrow> nat \<Rightarrow> estimator \<Rightarrow> estimator option" where
  "est_update_loop t ts k 0 est = Some est"
| "est_update_loop t ts k (Suc n) est = do {
     tr \<leftarrow> aget (es_train est) k;
     kassert (pe_ts (tr_curr_pos tr) \<le> ts);
     est \<leftarrow> (if pe_ts (tr_curr_pos tr) < ts then est_update_train t ts k est else Some est);
     est_update_loop t ts (k + 1) n est }"

(* src/src/lib/train/estimator.c:825-855 *)
definition est_update :: "track \<Rightarrow> estimator \<Rightarrow> int \<Rightarrow> (int \<times> estimator) option" where
  "est_update t est ts = do {
     kassert (es_last_ts est \<le> ts);
     est \<leftarrow> est_update_loop t ts 0 (nat (es_ntrains est)) est;
     Some (0, est\<lparr>es_last_ts := ts\<rparr>) }"

text \<open>What both branches for a train found before or after the sensor do: correct the speed by the distance from
  the sensor that the train hit last, and remember this one. The result of the correction is not used.\<close>

(* src/src/lib/train/estimator.c:887-908 *)
definition est_correct_speed :: "track \<Rightarrow> estimator \<Rightarrow> nat \<Rightarrow> pos_event \<Rightarrow> estimator option" where
  "est_correct_speed t est k pe = do {
     tr \<leftarrow> aget (es_train est) k;
     est \<leftarrow> (if tr_last_sen tr \<noteq> None then do {
               dist \<leftarrow> dist_to_node t (tr_last_sen tr) (pe_pos pe);
               if 0 < dist then do {
                 (_, snap) \<leftarrow> alphaUpdate (tr_snapshot tr) dist (pe_ts pe);
                 mod_train k (\<lambda>tr. tr\<lparr>tr_snapshot := snap\<rparr>) est }
               else Some est }
             else Some est);
     mod_train k (\<lambda>tr. tr\<lparr>tr_last_sen := pe_pos pe,
       tr_snapshot := (tr_snapshot tr)\<lparr>sn_last_sen_ts := pe_ts pe\<rparr>\<rparr>) est }"

(* src/src/lib/train/estimator.c:859-936 *)
definition est_update_tr_at :: "track \<Rightarrow> estimator \<Rightarrow> pos_event \<Rightarrow> (int \<times> estimator) option" where
  "est_update_tr_at t est pe = do {
     (r, est) \<leftarrow> est_update t est (pe_ts pe);
     kassert (r = 0);
     (trn, est) \<leftarrow> est_assoc_tr t est pe;
     case trn of None \<Rightarrow> Some (- 4, est)
     | Some k \<Rightarrow> do {
         rel \<leftarrow> est_find_train_rel_to_sensor t est k (pe_pos pe);
         est \<leftarrow> (if rel = INT_MAX then Some est else est_correct_speed t est k pe);
         let ret = (if rel = INT_MAX then - 1 else if rel < 0 then - 2 else - 3);
         tr \<leftarrow> aget (es_train est) k;
         (r, est) \<leftarrow> est_cleanup t est k (pe_pos (tr_curr_pos tr));
         kassert (r = 0);
         (_, est) \<leftarrow> est_move_train_to_node_unsafe t est k (pe_pos pe);
         est \<leftarrow> est_update_train t (pe_ts pe) k est;
         Some (ret, est) } }"

(* src/src/lib/train/estimator.c:939-974 *)
definition est_update_tr_gear :: "track \<Rightarrow> estimator \<Rightarrow> int \<Rightarrow> int \<Rightarrow> int \<Rightarrow> (int \<times> estimator) option" where
  "est_update_tr_gear t est num gear ts = do {
     (_, est) \<leftarrow> est_update t est ts;
     kassert (gear \<noteq> 15);
     i \<leftarrow> agetz (es_tmap est) num;
     tr \<leftarrow> agetz (es_train est) i;
     if tr_num tr \<noteq> num then Some (- 1, est)
     else do {
       let s = tr_snapshot tr;
       let c = sn_cur_gear s;
       let start = (if 5 \<le> c_mod c 10 then c_div c 10 * 10 + 5 else c_div c 10 * 10);
       est \<leftarrow> mod_train (nat i) (\<lambda>tr. tr\<lparr>tr_snapshot :=
                s\<lparr>sn_start_gear := start, sn_end_gear := gear * 10, sn_duration := 0\<rparr>\<rparr>) est;
       Some (0, est) } }"

(* src/src/lib/train/estimator.c:978-989 *)
definition est_update_sw :: "track \<Rightarrow> estimator \<Rightarrow> int \<Rightarrow> int \<Rightarrow> int \<Rightarrow> (int \<times> estimator) option" where
  "est_update_sw t est sw_num state ts = do {
     kassert (state = 0 \<or> state = 1);
     sw \<leftarrow> agetz (es_sw est) sw_num;
     est \<leftarrow> (if 50 \<le> swi_conf sw then do {
               sws \<leftarrow> asetz (es_sw est) sw_num (sw\<lparr>swi_state := state\<rparr>);
               Some (est\<lparr>es_sw := sws\<rparr>) }
             else Some est);
     est_update t est ts }"

end
