(* ===== verification/EstimatorInv.thy ===== *)
theory EstimatorInv
  imports EstimatorUpdate
begin

text \<open>
  The estimator's invariant: every train that is tracked is in exactly one list, that of the edge it is
  on, and the lists are sorted. The lemmas show what taking a train out of a list, moving it and putting
  it back keep of it.
\<close>

section \<open>Insertion by rotation is insertion\<close>

text \<open>The reference: insertion into a list that descends by \<open>f\<close>, behind equal elements.\<close>

fun ins_desc :: "(nat \<Rightarrow> int) \<Rightarrow> nat \<Rightarrow> nat list \<Rightarrow> nat list" where
  "ins_desc f k [] = [k]"
| "ins_desc f k (x # xs) = (if f x < f k then k # x # xs else x # ins_desc f k xs)"

abbreviation desc :: "(nat \<Rightarrow> int) \<Rightarrow> nat list \<Rightarrow> bool" where
  "desc f \<equiv> sorted_wrt (\<lambda>a b. f b \<le> f a)"

lemma mset_ins_desc [simp]: "mset (ins_desc f k xs) = add_mset k (mset xs)"
  by (induction xs) auto

lemma set_ins_desc [simp]: "set (ins_desc f k xs) = insert k (set xs)"
  by (induction xs) auto

lemma distinct_ins_desc [simp]: "distinct (ins_desc f k xs) \<longleftrightarrow> k \<notin> set xs \<and> distinct xs"
  by (induction xs) auto

lemma desc_ins_desc: "desc f xs \<Longrightarrow> desc f (ins_desc f k xs)"
  by (induction xs) (fastforce+)

definition off :: "train list \<Rightarrow> nat \<Rightarrow> int" where
  "off ts k = pe_off (tr_curr_pos (ts ! k))"

lemma insert_loop_rest:
  "cb_wf NUM_TRAINS q \<Longrightarrow> cb_list NUM_TRAINS q = ys @ zs \<Longrightarrow>
   \<exists>q'. tr_at_insert_loop ts (length ys) None q = Some (None, q') \<and> cb_wf NUM_TRAINS q' \<and>
     cb_list NUM_TRAINS q' = zs @ ys"
proof (induction ys arbitrary: q zs)
  case (Cons y ys)
  obtain q1 where q1: "cb_pop NUM_TRAINS q = Some (CB_E_NONE, Some y, q1)" "cb_wf NUM_TRAINS q1"
    "cb_list NUM_TRAINS q1 = ys @ zs"
    using cbq.pop_some [OF Cons.prems(1)] Cons.prems(2) by auto
  have "length (cb_list NUM_TRAINS q) \<le> NUM_TRAINS" using cbq.bound [OF Cons.prems(1)] .
  then obtain q2 where q2: "cb_push NUM_TRAINS y q1 = Some (CB_E_NONE, q2)" "cb_wf NUM_TRAINS q2"
    "cb_list NUM_TRAINS q2 = ys @ zs @ [y]"
    using cbq.push_room [OF q1(2), of y] q1(3) Cons.prems(2) by (auto simp del: length_cb_list)
  show ?case
    using Cons.IH [OF q2(2), of "zs @ [y]"] q1(1) q2 by simp
qed simp

lemma insert_loop_ins:
  "cb_wf NUM_TRAINS q \<Longrightarrow> cb_list NUM_TRAINS q = ys @ zs \<Longrightarrow> length (ys @ zs) < NUM_TRAINS \<Longrightarrow>
   k \<notin> set ys \<Longrightarrow> \<forall>x \<in> set (k # ys). x < length ts \<Longrightarrow>
   \<exists>tr q'. tr_at_insert_loop ts (length ys) (Some k) q = Some (tr, q') \<and> cb_wf NUM_TRAINS q' \<and>
     (tr = None \<and> cb_list NUM_TRAINS q' = zs @ ins_desc (off ts) k ys \<or>
      tr = Some k \<and> cb_list NUM_TRAINS q' = zs @ ys \<and> ins_desc (off ts) k ys = ys @ [k])"
proof (induction ys arbitrary: q zs)
  case (Cons y ys)
  note L = Cons.prems(3)
  obtain q1 where q1: "cb_pop NUM_TRAINS q = Some (CB_E_NONE, Some y, q1)" "cb_wf NUM_TRAINS q1"
    "cb_list NUM_TRAINS q1 = ys @ zs"
    using cbq.pop_some [OF Cons.prems(1)] Cons.prems(2) by auto
  have y: "k < length ts" "y < length ts" "y \<noteq> k" using Cons.prems by auto
  show ?case
  proof (cases "off ts y < off ts k")
    case True
    obtain q2 where q2: "cb_push NUM_TRAINS k q1 = Some (CB_E_NONE, q2)" "cb_wf NUM_TRAINS q2"
      "cb_list NUM_TRAINS q2 = ys @ zs @ [k]"
      using cbq.push_room [OF q1(2), of k] q1(3) L by (auto simp del: length_cb_list)
    obtain q3 where q3: "cb_push NUM_TRAINS y q2 = Some (CB_E_NONE, q3)" "cb_wf NUM_TRAINS q3"
      "cb_list NUM_TRAINS q3 = ys @ zs @ [k, y]"
      using cbq.push_room [OF q2(2), of y] q2(3) L by (auto simp del: length_cb_list)
    show ?thesis
      using insert_loop_rest [OF q3(2,3)] q1(1) q2(1) q3(1) y True by (auto simp: off_def)
  next
    case False
    obtain q2 where q2: "cb_push NUM_TRAINS y q1 = Some (CB_E_NONE, q2)" "cb_wf NUM_TRAINS q2"
      "cb_list NUM_TRAINS q2 = ys @ zs @ [y]"
      using cbq.push_room [OF q1(2), of y] q1(3) L by (auto simp del: length_cb_list)
    show ?thesis
      using Cons.IH [OF q2(2,3)] Cons.prems(4,5) L q1(1) q2(1) y False by (auto simp: off_def)
  qed
qed simp

lemma tr_at_list_insert_ok:
  assumes "cb_wf NUM_TRAINS q" "length (cb_list NUM_TRAINS q) < NUM_TRAINS" "k \<notin> set (cb_list NUM_TRAINS q)"
    "\<forall>x \<in> set (k # cb_list NUM_TRAINS q). x < length ts"
  shows "\<exists>q'. tr_at_list_insert ts q k = Some q' \<and> cb_wf NUM_TRAINS q' \<and>
    cb_list NUM_TRAINS q' = ins_desc (off ts) k (cb_list NUM_TRAINS q)"
proof -
  have n: "nat (sint (cb_size q)) = length (cb_list NUM_TRAINS q)" using cb_wf_sint [OF assms(1)] by simp
  obtain tr q' where l: "tr_at_insert_loop ts (nat (sint (cb_size q))) (Some k) q = Some (tr, q')"
    "cb_wf NUM_TRAINS q'"
    "tr = None \<and> cb_list NUM_TRAINS q' = ins_desc (off ts) k (cb_list NUM_TRAINS q) \<or>
     tr = Some k \<and> cb_list NUM_TRAINS q' = cb_list NUM_TRAINS q \<and>
       ins_desc (off ts) k (cb_list NUM_TRAINS q) = cb_list NUM_TRAINS q @ [k]"
    unfolding n using insert_loop_ins [OF assms(1), of "cb_list NUM_TRAINS q" "[]" k ts] assms(2-4)
    by (auto simp del: length_cb_list)
  then show ?thesis
    using cbq.push_room [OF l(2), of k] assms(2)
    by (auto simp: tr_at_list_insert_def simp del: length_cb_list)
qed

section \<open>The invariant\<close>

abbreviation pos :: "estimator \<Rightarrow> nat \<Rightarrow> pos_event" where
  "pos est k \<equiv> tr_curr_pos (es_train est ! k)"

definition trains_at :: "estimator \<Rightarrow> nat \<Rightarrow> nat \<Rightarrow> nat list" where
  "trains_at est i d = cb_list NUM_TRAINS (es_tr_at est ! i ! d)"

definition est_shape :: "estimator \<Rightarrow> bool" where
  "est_shape est \<longleftrightarrow> length (es_train est) = NUM_TRAINS \<and> length (es_tr_at est) = TRACK_MAX \<and>
     (\<forall>i<TRACK_MAX. length (es_tr_at est ! i) = 2 \<and> (\<forall>d<2. cb_wf NUM_TRAINS (es_tr_at est ! i ! d))) \<and>
     length (es_sw est) = SWITCH_SIZE \<and>
     (\<forall>sw \<in> set (es_sw est). (swi_state sw = 0 \<or> swi_state sw = 1) \<and> (50 \<le> swi_conf sw \<or> swi_conf sw = 0)) \<and>
     length (es_tmap est) = TRAIN_MAX \<and> 0 \<le> es_ntrains est \<and> es_ntrains est \<le> int NUM_TRAINS"

text \<open>\<open>on p i d\<close>: position \<open>p\<close> is on the edge \<open>d\<close> of node \<open>i\<close>.\<close>

definition on :: "pos_event \<Rightarrow> nat \<Rightarrow> nat \<Rightarrow> bool" where
  "on p i d \<longleftrightarrow> pe_pos p = Some i \<and> pe_dir p = int d"

definition pos_ok :: "track \<Rightarrow> pos_event \<Rightarrow> bool" where
  "pos_ok t p \<longleftrightarrow> (\<exists>i<TRACK_MAX. \<exists>d. on p i d \<and> n_type (t ! i) \<noteq> NODE_NONE \<and> 0 \<le> pe_off p \<and>
     (n_type (t ! i) = NODE_EXIT \<and> d = 0 \<or> d < n_edges (n_type (t ! i)) \<and> pe_off p \<le> e_dist (n_edge (t ! i) ! d)))"

definition lists_ok :: "estimator \<Rightarrow> nat set \<Rightarrow> bool" where
  "lists_ok est S \<longleftrightarrow> (\<forall>i<TRACK_MAX. \<forall>d<2. distinct (trains_at est i d) \<and>
     set (trains_at est i d) = {k \<in> S. on (pos est k) i d} \<and> desc (off (es_train est)) (trains_at est i d))"

abbreviation tracked :: "estimator \<Rightarrow> nat set" where
  "tracked est \<equiv> {..<nat (es_ntrains est)}"

definition est_ok :: "track \<Rightarrow> estimator \<Rightarrow> bool" where
  "est_ok t est \<longleftrightarrow> est_shape est \<and> (\<forall>k \<in> tracked est. pos_ok t (pos est k)) \<and> lists_ok est (tracked est)"

lemma n_edges_lt2: "d < n_edges ty \<Longrightarrow> d < 2"
  using n_edges_le [of ty] by simp

lemma pos_okI:
  "on p i d \<Longrightarrow> i < TRACK_MAX \<Longrightarrow> n_type (t ! i) \<noteq> NODE_NONE \<Longrightarrow> 0 \<le> pe_off p \<Longrightarrow>
   n_type (t ! i) = NODE_EXIT \<and> d = 0 \<or> d < n_edges (n_type (t ! i)) \<and> pe_off p \<le> e_dist (n_edge (t ! i) ! d) \<Longrightarrow>
   pos_ok t p"
  unfolding pos_ok_def by blast

lemma pos_okE:
  assumes "pos_ok t p"
  obtains i d where "i < TRACK_MAX" "d < 2" "on p i d" "pe_pos p = Some i" "pe_dir p = int d"
    "n_type (t ! i) \<noteq> NODE_NONE" "0 \<le> pe_off p"
    "n_type (t ! i) = NODE_EXIT \<and> d = 0 \<or>
     d < n_edges (n_type (t ! i)) \<and> pe_off p \<le> e_dist (n_edge (t ! i) ! d)"
  using assms n_edges_lt2 by (fastforce simp: pos_ok_def on_def)

lemma on_unique: "on p i d \<Longrightarrow> on p i' d' \<longleftrightarrow> i' = i \<and> d' = d"
  by (auto simp: on_def)

text \<open>\<open>moved est k p est'\<close>: only the position of train \<open>k\<close> and the lists differ.\<close>

definition moved :: "estimator \<Rightarrow> nat \<Rightarrow> pos_event \<Rightarrow> estimator \<Rightarrow> bool" where
  "moved est k p est' \<longleftrightarrow> (\<exists>l. est' = est\<lparr>es_train := (es_train est)[k := (es_train est ! k)\<lparr>tr_curr_pos := p\<rparr>],
     es_tr_at := l\<rparr>)"

lemma moved_trans: "moved est k p est1 \<Longrightarrow> moved est1 k p' est2 \<Longrightarrow> moved est k p' est2"
  by (cases "k < length (es_train est)") (auto simp: moved_def list_update_beyond)

lemma moved_refl: "moved est k (pos est k) est"
  by (auto simp: moved_def intro!: exI [of _ "es_tr_at est"])

lemma movedD:
  assumes "moved est k p est'"
  shows "es_sw est' = es_sw est" "es_ntrains est' = es_ntrains est" "es_tmap est' = es_tmap est"
    "es_crumb est' = es_crumb est" "es_sen_reg est' = es_sen_reg est" "es_last_ts est' = es_last_ts est"
    "length (es_train est') = length (es_train est)"
    "j \<noteq> k \<Longrightarrow> es_train est' ! j = es_train est ! j"
    "k < length (es_train est) \<Longrightarrow> pos est' k = p"
    "k < length (es_train est) \<Longrightarrow> es_train est' ! k = (es_train est ! k)\<lparr>tr_curr_pos := p\<rparr>"
  using assms by (auto simp: moved_def)

text \<open>Train \<open>k\<close> in the air: in no list, everything else as it should be.\<close>

definition air :: "track \<Rightarrow> estimator \<Rightarrow> nat \<Rightarrow> bool" where
  "air t est k \<longleftrightarrow> est_shape est \<and> k \<in> tracked est \<and> (\<forall>j \<in> tracked est - {k}. pos_ok t (pos est j)) \<and>
     lists_ok est (tracked est - {k})"

lemma aget2_in:
  "i < length xss \<Longrightarrow> d < length (xss ! i) \<Longrightarrow> aget2 xss (int i, int d) = Some (xss ! i ! d)"
  by (simp add: aget2_def agetz_def)

lemma aset2_in:
  "i < length xss \<Longrightarrow> d < length (xss ! i) \<Longrightarrow>
   aset2 xss (int i, int d) x = Some (xss[i := (xss ! i)[d := x]])"
  by (simp add: aset2_def agetz_def asetz_def)

lemma shape_at:
  assumes "est_shape est" "i < TRACK_MAX" "d < 2"
  shows "aget2 (es_tr_at est) (int i, int d) = Some (es_tr_at est ! i ! d)"
    "aset2 (es_tr_at est) (int i, int d) q = Some ((es_tr_at est)[i := (es_tr_at est ! i)[d := q]])"
    "cb_wf NUM_TRAINS (es_tr_at est ! i ! d)"
  using assms by (auto simp: est_shape_def aget2_in aset2_in)

text \<open>Replacing one list.\<close>

lemma put_list:
  assumes "est_shape est" "i < TRACK_MAX" "d < 2" "cb_wf NUM_TRAINS q"
    and est': "est' = est\<lparr>es_tr_at := (es_tr_at est)[i := (es_tr_at est ! i)[d := q]]\<rparr>"
  shows "est_shape est'" "i' < TRACK_MAX \<Longrightarrow> d' < 2 \<Longrightarrow>
    trains_at est' i' d' = (if i' = i \<and> d' = d then cb_list NUM_TRAINS q else trains_at est i' d')"
  using assms(1-4) unfolding est' by (auto simp: est_shape_def trains_at_def nth_list_update)

lemma tracked_bound: "est_shape est \<Longrightarrow> k \<in> tracked est \<Longrightarrow> k < length (es_train est)"
  by (auto simp: est_shape_def)

lemma lists_ok_cong:
  assumes "es_tr_at est' = es_tr_at est" "\<forall>j \<in> S. pos est' j = pos est j"
  shows "lists_ok est S \<Longrightarrow> lists_ok est' S"
  unfolding lists_ok_def trains_at_def assms(1)
proof (intro allI impI)
  fix i d :: nat
  let ?xs = "cb_list NUM_TRAINS (es_tr_at est ! i ! d)"
  assume l: "\<forall>i<TRACK_MAX. \<forall>d<2. distinct (cb_list NUM_TRAINS (es_tr_at est ! i ! d)) \<and>
      set (cb_list NUM_TRAINS (es_tr_at est ! i ! d)) = {k \<in> S. on (pos est k) i d} \<and>
      desc (off (es_train est)) (cb_list NUM_TRAINS (es_tr_at est ! i ! d))" and b: "i < TRACK_MAX" "d < 2"
  then have x: "distinct ?xs" "set ?xs = {k \<in> S. on (pos est k) i d}" "desc (off (es_train est)) ?xs" by blast+
  have "desc (off (es_train est')) ?xs"
    using x(3) by (rule sorted_wrt_mono_rel [rotated]) (use x(2) assms(2) in \<open>auto simp: off_def\<close>)
  then show "distinct ?xs \<and> set ?xs = {k \<in> S. on (pos est' k) i d} \<and> desc (off (es_train est')) ?xs"
    using x(1,2) assms(2) by auto
qed

lemma take_from_ok:
  assumes ok: "est_ok t est" and k: "k \<in> tracked est" "on (pos est k) i d" "i < TRACK_MAX" "d < 2"
  shows "\<exists>est'. take_from (int i, int d) k est = Some est' \<and> air t est' k \<and> moved est k (pos est k) est'"
proof -
  have sh: "est_shape est" using ok by (simp add: est_ok_def)
  have l: "lists_ok est (tracked est)" using ok by (simp add: est_ok_def)
  note A = shape_at [OF sh k(3,4)]
  have ki: "k \<in> set (trains_at est i d)" "distinct (trains_at est i d)"
    using l k by (auto simp: lists_ok_def)
  obtain q where q: "cb_rem NUM_TRAINS k (es_tr_at est ! i ! d) = Some (CB_E_NONE, q)" "cb_wf NUM_TRAINS q"
    "cb_list NUM_TRAINS q = remove1 k (trains_at est i d)"
    using cbx.rem_found [OF A(3)] ki(1) by (auto simp: trains_at_def)
  define est' where "est' = est\<lparr>es_tr_at := (es_tr_at est)[i := (es_tr_at est ! i)[d := q]]\<rparr>"
  note P = put_list [OF sh k(3,4) q(2) est'_def]
  have f: "take_from (int i, int d) k est = Some est'"
    using A q(1) by (simp add: take_from_def est'_def)
  have r: "remove1 k (trains_at est i d) = filter (\<lambda>x. k \<noteq> x) (trains_at est i d)"
    using ki(2) by (simp add: distinct_remove1_removeAll removeAll_filter_not_eq)
  have "lists_ok est' (tracked est - {k})"
    unfolding lists_ok_def
  proof (intro allI impI)
    fix i' d' :: nat assume b: "i' < TRACK_MAX" "d' < 2"
    have e: "es_train est' = es_train est" by (simp add: est'_def)
    have "distinct (trains_at est i' d')" "set (trains_at est i' d') = {j \<in> tracked est. on (pos est j) i' d'}"
      "desc (off (es_train est)) (trains_at est i' d')" using l b by (auto simp: lists_ok_def)
    then show "distinct (trains_at est' i' d') \<and>
      set (trains_at est' i' d') = {j \<in> tracked est - {k}. on (pos est' j) i' d'} \<and>
      desc (off (es_train est')) (trains_at est' i' d')"
      using on_unique [OF k(2)] unfolding P(2) [OF b] q(3) r e by (auto intro: sorted_wrt_filter)
  qed
  then have "air t est' k"
    using ok P(1) k(1) by (auto simp: air_def est_ok_def est'_def)
  moreover have "moved est k (pos est k) est'" by (auto simp: moved_def est'_def)
  ultimately show ?thesis using f by blast
qed

lemma mod_pos_air:
  assumes a: "air t est k"
  shows "\<exists>est'. mod_pos k f est = Some est' \<and> air t est' k \<and> moved est k (f (pos est k)) est' \<and>
    es_tr_at est' = es_tr_at est"
proof -
  define est' where "est' = est\<lparr>es_train := (es_train est)[k := (es_train est ! k)\<lparr>tr_curr_pos := f (pos est k)\<rparr>]\<rparr>"
  have k: "k < length (es_train est)" using a tracked_bound by (auto simp: air_def)
  have s: "j \<noteq> k \<Longrightarrow> pos est' j = pos est j" for j by (simp add: est'_def)
  have "mod_pos k f est = Some est'" using k by (simp add: mod_pos_def mod_train_def est'_def)
  moreover have "est_shape est'" using a by (simp add: air_def est_shape_def est'_def)
  moreover have "lists_ok est' (tracked est' - {k})"
    using a s by (intro lists_ok_cong [of est' est]) (auto simp: air_def est'_def)
  moreover have "k \<in> tracked est'" "\<forall>j \<in> tracked est' - {k}. pos_ok t (pos est' j)"
    using a s by (auto simp: air_def est'_def)
  moreover have "moved est k (f (pos est k)) est'" "es_tr_at est' = es_tr_at est"
    by (auto simp: moved_def est'_def intro!: exI [of _ "es_tr_at est"])
  ultimately show ?thesis by (auto simp: air_def)
qed

lemma put_at_ok:
  assumes a: "air t est k" and p: "pos_ok t (pos est k)" and on: "on (pos est k) i d"
  shows "\<exists>est'. put_at (int i, int d) k est = Some est' \<and> est_ok t est' \<and> moved est k (pos est k) est'"
proof -
  have sh: "est_shape est" and kt: "k \<in> tracked est" and l: "lists_ok est (tracked est - {k})"
    using a by (auto simp: air_def)
  have b: "i < TRACK_MAX" "d < 2" using p on by (auto elim!: pos_okE simp: on_def)
  note A = shape_at [OF sh b]
  let ?xs = "trains_at est i d"
  have xs: "distinct ?xs" "set ?xs = {j \<in> tracked est - {k}. on (pos est j) i d}" "desc (off (es_train est)) ?xs"
    using l b by (auto simp: lists_ok_def)
  have n: "nat (es_ntrains est) \<le> NUM_TRAINS" using sh by (auto simp: est_shape_def)
  have "length ?xs \<le> card (tracked est - {k})"
    unfolding distinct_card [OF xs(1), symmetric] by (rule card_mono) (use xs(2) in auto)
  then have "length ?xs < NUM_TRAINS" using kt n by simp
  then obtain q where q: "tr_at_list_insert (es_train est) (es_tr_at est ! i ! d) k = Some q" "cb_wf NUM_TRAINS q"
    "cb_list NUM_TRAINS q = ins_desc (off (es_train est)) k ?xs"
    using tr_at_list_insert_ok [OF A(3), of k "es_train est"] xs(2) kt tracked_bound [OF sh]
    by (auto simp: trains_at_def)
  define est' where "est' = est\<lparr>es_tr_at := (es_tr_at est)[i := (es_tr_at est ! i)[d := q]]\<rparr>"
  note P = put_list [OF sh b q(2) est'_def]
  have e: "es_train est' = es_train est" "es_ntrains est' = es_ntrains est" by (simp_all add: est'_def)
  have "lists_ok est' (tracked est)"
    unfolding lists_ok_def
  proof (intro allI impI)
    fix i' d' :: nat assume b': "i' < TRACK_MAX" "d' < 2"
    have "distinct (trains_at est i' d')" "set (trains_at est i' d') = {j \<in> tracked est - {k}. on (pos est j) i' d'}"
      "desc (off (es_train est)) (trains_at est i' d')" using l b' by (auto simp: lists_ok_def)
    then show "distinct (trains_at est' i' d') \<and>
      set (trains_at est' i' d') = {j \<in> tracked est. on (pos est' j) i' d'} \<and>
      desc (off (es_train est')) (trains_at est' i' d')"
      using on_unique [OF on] kt desc_ins_desc unfolding P(2) [OF b'] q(3) e by auto
  qed
  then have "est_ok t est'"
    using P(1) p a by (auto simp: est_ok_def air_def est'_def)
  moreover have "moved est k (pos est k) est'" by (auto simp: moved_def est'_def)
  moreover have "put_at (int i, int d) k est = Some est'" using A q(1) by (simp add: put_at_def est'_def)
  ultimately show ?thesis by blast
qed

section \<open>Setting up, and the simple moves\<close>

lemma est_init_ok:
  assumes "est_init est0 = Some est" "\<forall>row \<in> set (es_tr_at est0). \<forall>q \<in> set row. length (cb_buf q) = NUM_TRAINS"
  shows "est_ok t est"
proof -
  have e: "es_train est = map train_uninit (es_train est0)" "es_tr_at est = map (map cb_init) (es_tr_at est0)"
    "es_sw est = replicate SWITCH_SIZE \<lparr>swi_state = int DIR_CURVED, swi_conf = 50\<rparr>" "es_ntrains est = 0"
    "length (es_tmap est) = TRAIN_MAX"
    and l: "length (es_train est0) = NUM_TRAINS" "length (es_tr_at est0) = TRACK_MAX"
      "\<forall>row \<in> set (es_tr_at est0). length row = 2"
    using assms(1) by (auto simp: est_init_def list_all_iff)
  have c: "cb_wf NUM_TRAINS (es_tr_at est ! i ! d)" "trains_at est i d = []" if "i < TRACK_MAX" "d < 2" for i d
  proof -
    have row: "es_tr_at est0 ! i \<in> set (es_tr_at est0)" using l(2) that(1) by simp
    then have q: "es_tr_at est0 ! i ! d \<in> set (es_tr_at est0 ! i)" using l(3) that(2) by auto
    have "es_tr_at est ! i ! d = cb_init (es_tr_at est0 ! i ! d)" using e(2) l row that by auto
    then show "cb_wf NUM_TRAINS (es_tr_at est ! i ! d)" "trains_at est i d = []"
      using assms(2) row q by (auto simp: trains_at_def intro!: cb_init_wf)
  qed
  have "est_shape est" using e l c by (auto simp: est_shape_def)
  moreover have "lists_ok est (tracked est)" using c e(4) by (auto simp: lists_ok_def)
  ultimately show ?thesis using e(4) by (simp add: est_ok_def)
qed

lemma node_at_pos: "wf_track t \<Longrightarrow> i < TRACK_MAX \<Longrightarrow> node_at t (Some i) = Some (t ! i)"
  by (simp add: node_at_def)

text \<open>A node of the track without a train, as a position.\<close>

lemma node_pos_ok:
  assumes "wf_track t" "i < TRACK_MAX" "n_type (t ! i) \<noteq> NODE_NONE" "pe_pos p = Some i" "pe_off p = 0" "pe_dir p = 0"
  shows "pos_ok t p"
proof (cases "n_type (t ! i) = NODE_EXIT")
  case True
  then show ?thesis using assms by (auto simp: pos_ok_def on_def intro!: exI [of _ i])
next
  case False
  then have "0 < n_edges (n_type (t ! i))" using assms(3) by (cases "n_type (t ! i)") (auto simp: n_edges_def)
  moreover from wf_exits [OF assms(1,2) this] have "0 \<le> e_dist (n_edge (t ! i) ! 0)" by metis
  ultimately show ?thesis using assms by (auto simp: pos_ok_def on_def intro!: exI [of _ i])
qed

lemma est_place_ok:
  assumes wf: "wf_track t" and ok: "est_ok t est" and k: "k \<in> tracked est"
    and j: "j < TRACK_MAX" "n_type (t ! j) \<noteq> NODE_NONE"
  shows "\<exists>est'. est_move_train_to_node_unsafe t est k (Some j) = Some (0, est') \<and> est_ok t est' \<and>
    moved est k ((pos est k)\<lparr>pe_pos := Some j, pe_off := 0, pe_dir := 0\<rparr>) est'"
proof -
  let ?p = "(pos est k)\<lparr>pe_pos := Some j, pe_off := 0, pe_dir := 0\<rparr>"
  have kl: "k < length (es_train est)" using ok k tracked_bound by (auto simp: est_ok_def)
  have "pos_ok t (pos est k)" using ok k by (auto simp: est_ok_def)
  then obtain i d where p: "i < TRACK_MAX" "d < 2" "on (pos est k) i d" "pe_pos (pos est k) = Some i"
    "pe_dir (pos est k) = int d" by (rule pos_okE)
  obtain e1 where 1: "take_from (int i, int d) k est = Some e1" "air t e1 k" "moved est k (pos est k) e1"
    using take_from_ok [OF ok k p(3,1,2)] by blast
  obtain e2 where 2: "mod_pos k (\<lambda>p. p\<lparr>pe_pos := Some j, pe_off := 0, pe_dir := 0\<rparr>) e1 = Some e2" "air t e2 k"
    "moved e1 k ?p e2"
    using mod_pos_air [OF 1(2), of "\<lambda>p. p\<lparr>pe_pos := Some j, pe_off := 0, pe_dir := 0\<rparr>"] movedD(9) [OF 1(3) kl]
    by auto
  have p2: "pos e2 k = ?p" using movedD(9) [OF 2(3)] movedD(7) [OF 1(3)] kl by simp
  have po: "pos_ok t (pos e2 k)" "on (pos e2 k) j 0"
    using node_pos_ok [OF wf j] by (simp_all add: p2 on_def)
  obtain e3 where 3: "put_at (int j, int 0) k e2 = Some e3" "est_ok t e3" "moved e2 k (pos e2 k) e3"
    using put_at_ok [OF 2(2) po] by blast
  have d: "int d = 0 \<or> int d = 1" using p(2) by (auto simp: less_2_cases_iff)
  have "est_move_train_to_node_unsafe t est k (Some j) = Some (0, e3)"
    using kl p d 1(1) 2(1) 3(1) wf j by (simp add: est_move_train_to_node_unsafe_def node_at_pos wf_id)
  then show ?thesis
    using 3(2) moved_trans [OF moved_trans [OF 1(3) 2(3)] 3(3)] by (auto simp: p2)
qed

definition modelled_train :: "int \<Rightarrow> bool" where
  "modelled_train num \<longleftrightarrow> num \<in> {1, 2, 3, 77, 78, 79}"

lemma est_add_ok:
  assumes ok: "est_ok t est" and n: "es_ntrains est < int NUM_TRAINS" and num: "modelled_train num"
    and pe: "pos_ok t (pe\<lparr>pe_dir := 0\<rparr>)" "0 \<le> pe_ts pe" and wf: "wf_track t"
  shows "\<exists>est'. est_add_tr t est num pe = Some (0, est') \<and> est_ok t est' \<and> es_ntrains est' = es_ntrains est + 1 \<and>
    pos est' (nat (es_ntrains est)) = pe\<lparr>pe_dir := 0\<rparr> \<and> (\<forall>j \<in> tracked est. es_train est' ! j = es_train est ! j)"
proof -
  have sh: "est_shape est" and l: "lists_ok est (tracked est)" using ok by (auto simp: est_ok_def)
  define k where "k = nat (es_ntrains est)"
  have k: "k < length (es_train est)" "0 \<le> es_ntrains est" using sh n by (auto simp: est_shape_def k_def)
  obtain m where m: "getVelocityModel (sn_model (tr_snapshot (es_train est ! k))) num = Some m"
    using num by (auto simp: modelled_train_def getVelocityModel_def)
  define tr where "tr = (es_train est ! k)\<lparr>tr_num := num, tr_curr_pos := pe\<lparr>pe_dir := 0\<rparr>, tr_len := 200,
     tr_next_sen := None, tr_last_sen := None, tr_snapshot := (tr_snapshot (es_train est ! k))\<lparr>sn_cur_gear := 0,
       sn_start_gear := 0, sn_end_gear := 0, sn_duration := 0, sn_last_sen_ts := - 1, sn_model := m\<rparr>\<rparr>"
  define e1 where "e1 = est\<lparr>es_tmap := (es_tmap est)[nat num := es_ntrains est], es_ntrains := es_ntrains est + 1,
     es_train := (es_train est)[k := tr]\<rparr>"
  have num': "1 \<le> num" "num \<le> int TRAIN_MAX" "nat num < TRAIN_MAX" using num by (auto simp: modelled_train_def)
  have t1: "tracked e1 - {k} = tracked est" "k \<in> tracked e1" using k(2) by (auto simp: e1_def k_def)
  have p1: "pos e1 k = pe\<lparr>pe_dir := 0\<rparr>" "\<forall>j \<in> tracked est. es_train e1 ! j = es_train est ! j"
    using k(1) by (auto simp: e1_def tr_def k_def)
  have "est_shape e1" using sh n k by (auto simp: est_shape_def e1_def)
  moreover have "lists_ok e1 (tracked est)"
    by (rule lists_ok_cong [OF _ _ l]) (use p1(2) in \<open>auto simp: e1_def\<close>)
  ultimately have a: "air t e1 k" using t1 p1(2) ok by (auto simp: air_def est_ok_def)
  have po: "pos_ok t (pos e1 k)" using pe(1) by (simp add: p1)
  obtain i where i: "i < TRACK_MAX" "pe_pos pe = Some i" "on (pos e1 k) i 0"
    using pe(1) by (auto elim!: pos_okE simp: p1 on_def)
  obtain e2 where 2: "put_at (int i, int 0) k e1 = Some e2" "est_ok t e2" "moved e1 k (pos e1 k) e2"
    using put_at_ok [OF a po i(3)] by blast
  have "est_add_tr t est num pe = Some (0, e2)"
    using num' sh k m i wf 2(1) pe(2)
    by (simp add: est_add_tr_def asetz_def est_shape_def k_def [symmetric] mod_train_def tr_def [symmetric] e1_def
        node_at_pos wf_id)
  moreover have "es_train e2 ! j = es_train est ! j" if "j \<in> tracked est" for j
    using movedD(8) [OF 2(3), of j] p1(2) that by (auto simp: k_def)
  moreover have "pos e2 k = pe\<lparr>pe_dir := 0\<rparr>"
    using movedD(9) [OF 2(3)] k(1) by (simp add: e1_def tr_def)
  ultimately show ?thesis
    using 2(2) movedD(2) [OF 2(3)] by (auto simp: k_def [symmetric] e1_def)
qed

end
