(* ===== verification/EstimatorMove.thy ===== *)
theory EstimatorMove
  imports EstimatorInv
begin

text \<open>
  Moving a train forward: \<^verbatim>\<open>est_move_train_forward\<close>. The reference is a relation \<open>drive\<close>: the train goes
  along its edge and on over the nodes as the switches are believed to lie, and no train is in its way.
\<close>

section \<open>Where a train goes\<close>

definition way :: "track \<Rightarrow> estimator \<Rightarrow> nat \<Rightarrow> nat" where
  "way t est j = (if n_type (t ! j) = NODE_BRANCH then
     (let sw = es_sw est ! nat (n_num (t ! j)) in
      nat (if 50 \<le> swi_conf sw then swi_state sw else if swi_state sw = 0 then 1 else 0)) else 0)"

text \<open>No other train of the edge is ahead of position \<open>p\<close> by at most \<open>d\<close>.\<close>

definition clear_ahead :: "estimator \<Rightarrow> nat \<Rightarrow> pos_event \<Rightarrow> int \<Rightarrow> bool" where
  "clear_ahead est k p d \<longleftrightarrow> (\<forall>x \<in> tracked est - {k}. pe_pos (pos est x) = pe_pos p \<longrightarrow>
     pe_dir (pos est x) = pe_dir p \<longrightarrow> pe_off p < pe_off (pos est x) \<longrightarrow> pe_off p + d < pe_off (pos est x))"

definition free_node :: "estimator \<Rightarrow> nat \<Rightarrow> nat \<Rightarrow> nat \<Rightarrow> bool" where
  "free_node est k j d \<longleftrightarrow> (\<forall>x \<in> tracked est - {k}. on (pos est x) j d \<longrightarrow> pe_off (pos est x) \<noteq> 0)"

inductive drive :: "track \<Rightarrow> estimator \<Rightarrow> nat \<Rightarrow> pos_event \<Rightarrow> track_node_dir list \<Rightarrow> int \<Rightarrow> pos_event \<Rightarrow> bool" for t est k where
  along: "0 \<le> d \<Longrightarrow> clear_ahead est k p d \<Longrightarrow> drive t est k p [] d (p\<lparr>pe_off := pe_off p + d\<rparr>)"
| cross: "on p i e \<Longrightarrow> exits t i e s j \<Longrightarrow> pe_off p \<le> s \<Longrightarrow> clear_ahead est k p (s - pe_off p) \<Longrightarrow>
    free_node est k j (way t est j) \<Longrightarrow>
    drive t est k (p\<lparr>pe_pos := Some j, pe_dir := int (way t est j), pe_off := 0\<rparr>) ps d p' \<Longrightarrow>
    drive t est k p (\<lparr>nd_node = Some j, nd_dir = int (way t est j)\<rparr> # ps) (s - pe_off p + d) p'"

text \<open>What stops a train: the end of the track, or a train right ahead.\<close>

definition obstructed :: "track \<Rightarrow> estimator \<Rightarrow> nat \<Rightarrow> pos_event \<Rightarrow> bool" where
  "obstructed t est k p \<longleftrightarrow>
     (\<exists>i. pe_pos p = Some i \<and> n_type (t ! i) = NODE_EXIT) \<or>
     (\<exists>x \<in> tracked est - {k}. pe_pos (pos est x) = pe_pos p \<and> pe_dir (pos est x) = pe_dir p \<and>
        pe_off (pos est x) = pe_off p + 1) \<or>
     (\<exists>x \<in> tracked est - {k}. \<exists>i e s j. on p i e \<and> exits t i e s j \<and> pe_off p = s \<and>
        on (pos est x) j (way t est j) \<and> pe_off (pos est x) = 0)"

lemma moved_cong:
  assumes "moved est k p est'" "x \<in> tracked est - {k}"
  shows "pos est' x = pos est x" "x \<in> tracked est' - {k}"
  using assms movedD(8) [OF assms(1), of x] movedD(2) [OF assms(1)] by auto

lemma tracked_moved: "moved est k p est' \<Longrightarrow> tracked est' = tracked est"
  by (auto simp: moved_def)

lemma way_moved: "moved est k p est' \<Longrightarrow> way t est' j = way t est j"
  by (auto simp: moved_def way_def)

lemma clear_moved: "moved est k q est' \<Longrightarrow> clear_ahead est' k p d = clear_ahead est k p d"
  by (auto simp: clear_ahead_def tracked_moved moved_cong)

lemma free_moved: "moved est k q est' \<Longrightarrow> free_node est' k j d = free_node est k j d"
  by (auto simp: free_node_def tracked_moved moved_cong)

lemma drive_moved:
  assumes m: "moved est k q est'"
  shows "drive t est' k p ps d p' \<Longrightarrow> drive t est k p ps d p'"
proof (induction rule: drive.induct)
  case (along d p)
  then show ?case using clear_moved [OF m] by (intro drive.along) auto
next
  case (cross p i e s j ps d p')
  then show ?case
    using drive.cross [of p i e t s j est k ps d p'] clear_moved [OF m] free_moved [OF m] way_moved [OF m] by simp
qed

lemma obstructed_moved:
  assumes "moved est k q est'"
  shows "obstructed t est' k p = obstructed t est k p"
  using moved_cong(1) [OF assms] by (simp add: obstructed_def tracked_moved [OF assms] way_moved [OF assms])

lemma way_ok:
  assumes "est_shape est" "wf_track t" "switches_ok t" "j < TRACK_MAX"
  shows "n_type (t ! j) = NODE_BRANCH \<Longrightarrow> est_estimate_sw_dir est (n_num (t ! j)) = Some (int (way t est j))"
    "way t est j < 2" "n_type (t ! j) \<noteq> NODE_BRANCH \<Longrightarrow> way t est j = 0"
proof -
  let ?n = "nat (n_num (t ! j))"
  have b: "0 \<le> n_num (t ! j)" "?n < length (es_sw est)" if "n_type (t ! j) = NODE_BRANCH"
    using assms that by (auto simp: switches_ok_def est_shape_def)
  have sw: "swi_state (es_sw est ! ?n) = 0 \<or> swi_state (es_sw est ! ?n) = 1"
    "50 \<le> swi_conf (es_sw est ! ?n) \<or> swi_conf (es_sw est ! ?n) = 0" if "n_type (t ! j) = NODE_BRANCH"
    using assms(1) b [OF that] by (auto simp: est_shape_def)
  show "n_type (t ! j) = NODE_BRANCH \<Longrightarrow> est_estimate_sw_dir est (n_num (t ! j)) = Some (int (way t est j))"
    using b sw by (auto simp: est_estimate_sw_dir_def way_def Let_def agetz_def)
  show "way t est j < 2" using sw by (auto simp: way_def Let_def)
  show "n_type (t ! j) \<noteq> NODE_BRANCH \<Longrightarrow> way t est j = 0" by (simp add: way_def)
qed

lemma enter_pos_ok:
  assumes "est_shape est" "wf_track t" "switches_ok t" "j < TRACK_MAX" "n_type (t ! j) \<noteq> NODE_NONE"
    "on p j (way t est j)" "pe_off p = 0"
  shows "pos_ok t p"
proof (cases "n_type (t ! j) = NODE_EXIT")
  case True
  then show ?thesis
    using assms way_ok(3) [OF assms(1-4)] by (intro pos_okI [of p j 0]) auto
next
  case False
  then have w: "way t est j < n_edges (n_type (t ! j))"
    using way_ok(2,3) [OF assms(1-4)] assms(5) by (cases "n_type (t ! j)") (auto simp: n_edges_def)
  have "0 \<le> e_dist (n_edge (t ! j) ! way t est j)" using wf_exits [OF assms(2,4) w] by metis
  then show ?thesis using assms w by (intro pos_okI [of p j "way t est j"]) auto
qed

section \<open>Who is in the way\<close>

lemma drop_Suc_nth: "n < length xs \<Longrightarrow> set (drop n xs) = insert (xs ! n) (set (drop (Suc n) xs))"
  by (metis Cons_nth_drop_Suc list.simps(15))

lemma est_blocker_spec:
  assumes q: "cb_wf NUM_TRAINS q" "xs = cb_list NUM_TRAINS q"
    and ts: "k < length ts" "\<forall>x \<in> set xs. x < length ts \<and> pe_pos (tr_curr_pos (ts ! x)) = pe_pos (tr_curr_pos (ts ! k))"
    and d: "desc (off ts) xs"
  shows "n \<le> length xs \<Longrightarrow> \<forall>x \<in> set (drop n xs) - {k}. \<not> (off ts k < off ts x \<and> off ts x \<le> off ts k + dist) \<Longrightarrow>
    \<exists>b. est_blocker ts k dist q n = Some b \<and> (case b of
      None \<Rightarrow> \<forall>x \<in> set xs - {k}. \<not> (off ts k < off ts x \<and> off ts x \<le> off ts k + dist)
    | Some x \<Rightarrow> x \<in> set xs - {k} \<and> off ts k < off ts x \<and> off ts x \<le> off ts k + dist \<and>
        (\<forall>y \<in> set xs - {k}. off ts k < off ts y \<longrightarrow> off ts x \<le> off ts y))"
proof (induction n)
  case 0
  then show ?case by simp
next
  case (Suc n)
  let ?x = "xs ! n"
  have n: "n < length xs" "?x \<in> set xs" using Suc.prems(1) by auto
  have g: "cb_get NUM_TRAINS (int n) q = Some (CB_E_NONE, Some ?x)"
    using cbx.get_nth [OF q(1)] n(1) q(2) by simp
  let ?b = "\<lambda>x. off ts k < off ts x \<and> off ts x \<le> off ts k + dist"
  show ?case
  proof (cases "?x \<noteq> k \<and> ?b ?x")
    case True
    have near: "off ts ?x \<le> off ts y" if y: "y \<in> set xs - {k}" "off ts k < off ts y" for y
    proof -
      obtain m where m: "m < length xs" "y = xs ! m" using y(1) by (auto simp: in_set_conv_nth)
      show ?thesis
      proof (cases "m \<le> n")
        case True
        then show ?thesis using sorted_wrt_nth_less [OF d, of m n] n(1) m by (cases "m = n") auto
      next
        case False
        then have "y \<in> set (drop (Suc n) xs)" using m by (auto simp: in_set_conv_nth intro!: exI [of _ "m - Suc n"])
        moreover have "off ts y \<le> off ts ?x" using sorted_wrt_nth_less [OF d, of n m] False m by simp
        ultimately show ?thesis using Suc.prems(2) y True by auto
      qed
    qed
    have "est_blocker ts k dist q (Suc n) = Some (Some ?x)"
      using True g ts n by (simp add: off_def)
    then show ?thesis using True n near by auto
  next
    case False
    then have "\<forall>x \<in> set (drop n xs) - {k}. \<not> ?b x"
      using Suc.prems(2) drop_Suc_nth [OF n(1)] by auto
    moreover have "est_blocker ts k dist q (Suc n) = est_blocker ts k dist q n"
      using False g ts n by (auto simp: off_def)
    ultimately show ?thesis using Suc.IH n(1) by simp
  qed
qed

lemma est_node_taken_spec:
  assumes a: "air t est k" and b: "j < TRACK_MAX" "d < 2"
  shows "est_node_taken est (int j, int d) = Some (\<not> free_node est k j d)"
proof -
  have sh: "est_shape est" and l: "lists_ok est (tracked est - {k})" using a by (auto simp: air_def)
  note A = shape_at [OF sh b]
  let ?xs = "trains_at est j d"
  have xs: "set ?xs = {x \<in> tracked est - {k}. on (pos est x) j d}" "desc (off (es_train est)) ?xs"
    using l b by (auto simp: lists_ok_def)
  have nn: "0 \<le> off (es_train est) x" if "x \<in> set ?xs" for x
    using that xs(1) a by (auto simp: air_def off_def elim!: pos_okE)
  show ?thesis
  proof (cases "?xs = []")
    case True
    then have "cb_size (es_tr_at est ! j ! d) = 0" by (simp add: trains_at_def cb_list_empty_iff)
    moreover have "free_node est k j d" using xs(1) True by (auto simp: free_node_def)
    ultimately show ?thesis using A by (simp add: est_node_taken_def)
  next
    case False
    let ?l = "last ?xs"
    have lm: "?l \<in> set ?xs" using False by simp
    have s: "sint (cb_size (es_tr_at est ! j ! d)) - 1 = int (length ?xs - 1)" "cb_size (es_tr_at est ! j ! d) \<noteq> 0"
      using cb_wf_sint(2) [OF A(3)] False by (auto simp: trains_at_def cb_list_empty_iff of_nat_diff unat_eq_zero
        Suc_leI unat_gt_0)
    have g: "cb_get NUM_TRAINS (int (length ?xs - 1)) (es_tr_at est ! j ! d) = Some (CB_E_NONE, Some ?l)"
      using cbx.get_nth [OF A(3), of "length ?xs - 1"] False unfolding trains_at_def
      by (simp add: last_conv_nth del: length_cb_list cb_list_nth)
    have le: "off (es_train est) ?l \<le> off (es_train est) x" if x: "x \<in> set ?xs" for x
    proof -
      obtain m where m: "m < length ?xs" "x = ?xs ! m" using x by (auto simp: in_set_conv_nth)
      then show ?thesis
        using sorted_wrt_nth_less [OF xs(2), of m "length ?xs - 1"] False
        by (cases "m = length ?xs - 1") (auto simp: last_conv_nth)
    qed
    have "off (es_train est) ?l = 0 \<longleftrightarrow> \<not> free_node est k j d"
    proof -
      have "off (es_train est) ?l = 0 \<longleftrightarrow> (\<exists>x \<in> set ?xs. off (es_train est) x = 0)"
      proof
        assume "\<exists>x \<in> set ?xs. off (es_train est) x = 0"
        then show "off (es_train est) ?l = 0" using le nn [OF lm] by fastforce
      qed (use lm in blast)
      also have "\<dots> \<longleftrightarrow> \<not> free_node est k j d" by (auto simp: free_node_def xs(1) off_def)
      finally show ?thesis .
    qed
    moreover have "?l < length (es_train est)" using lm xs(1) tracked_bound [OF sh] by auto
    ultimately show ?thesis
      using A s g by (simp add: est_node_taken_def off_def)
  qed
qed

lemma est_next_node_spec:
  assumes sh: "est_shape est" and t: "wf_track t" "switches_ok t" and k: "k < length (es_train est)"
    and p: "pos_ok t (pos est k)" "on (pos est k) i d" "n_type (t ! i) \<noteq> NODE_EXIT"
  obtains s j where "exits t i d s j" "pe_off (pos est k) \<le> s" "j < TRACK_MAX" "n_type (t ! j) \<noteq> NODE_NONE"
    "est_next_node t est k = Some (s - pe_off (pos est k), Some (Some j, int (way t est j)))"
proof -
  have i: "i < TRACK_MAX" "d < 2" "d < n_edges (n_type (t ! i))" "pe_off (pos est k) \<le> e_dist (n_edge (t ! i) ! d)"
    using p by (auto elim!: pos_okE simp: on_def)
  obtain s j where e: "exits t i d s j" "j < TRACK_MAX" "n_type (t ! j) \<noteq> NODE_NONE"
    "e_dest (n_edge (t ! i) ! d) = Some j" "e_dist (n_edge (t ! i) ! d) = s"
    using wf_exits [OF t(1) i(1,3)] by metis
  have w: "(if n_type (t ! j) = NODE_BRANCH then est_estimate_sw_dir est (n_num (t ! j)) else Some (int DIR_AHEAD)) =
      Some (int (way t est j))"
    using way_ok(1,3) [OF sh t e(2)] by auto
  have "est_next_node t est k = Some (s - pe_off (pos est k), Some (Some j, int (way t est j)))"
    using p(2,3) i e w k t(1) wf_n_edge [OF t(1) i(1)]
    by (auto simp: est_next_node_def on_def node_at_pos agetz_def Let_def less_2_cases_iff)
  then show ?thesis using that e i(4) by auto
qed

section \<open>Moving forward\<close>

text \<open>At most \<open>n\<close> nodes lie within the distance \<open>dist\<close> ahead of node \<open>i\<close>.\<close>

definition within_nodes :: "track \<Rightarrow> nat \<Rightarrow> int \<Rightarrow> nat \<Rightarrow> bool" where
  "within_nodes t i dist n \<longleftrightarrow> (\<forall>m s j. walk t i m s j \<longrightarrow> s \<le> dist \<longrightarrow> m \<le> n)"

lemma within_nodes_step:
  assumes "within_nodes t i dist n" "exits t i d s j" "s \<le> dist"
  shows "0 < n" "within_nodes t j (dist - s) (n - 1)"
proof -
  have "walk t i (Suc 0) (0 + s) j" using walk.go [OF walk.stop assms(2)] .
  then show "0 < n" using assms(1,3) by (force simp: within_nodes_def)
  show "within_nodes t j (dist - s) (n - 1)"
    unfolding within_nodes_def
  proof (intro allI impI)
    fix m s' x assume "walk t j m s' x" "s' \<le> dist - s"
    then have "Suc m \<le> n" using walk_first [OF assms(2)] assms(1) by (force simp: within_nodes_def)
    then show "m \<le> n - 1" by simp
  qed
qed

text \<open>The train taken out, its position changed, put back.\<close>

lemma replace_ok:
  assumes "air t est k" "pos_ok t (f (pos est k))" "on (f (pos est k)) i d"
  shows "\<exists>e1 e2. mod_pos k f est = Some e1 \<and> put_at (int i, int d) k e1 = Some e2 \<and> est_ok t e2 \<and>
    moved est k (f (pos est k)) e2 \<and> pos e1 k = f (pos est k) \<and> k < length (es_train e1)"
proof -
  obtain e1 where 1: "mod_pos k f est = Some e1" "air t e1 k" "moved est k (f (pos est k)) e1"
    using mod_pos_air [OF assms(1)] by blast
  have p: "pos e1 k = f (pos est k)" using movedD(9) [OF 1(3)] assms(1) tracked_bound by (auto simp: air_def)
  obtain e2 where 2: "put_at (int i, int d) k e1 = Some e2" "est_ok t e2" "moved e1 k (f (pos est k)) e2"
    using put_at_ok [OF 1(2), of i d] assms(2,3) p by auto
  have "k < length (es_train e1)" using 1(2) tracked_bound by (auto simp: air_def)
  then show ?thesis using 1(1) 2(1,2) moved_trans [OF 1(3) 2(3)] p by blast
qed

definition stopped_at :: "track \<Rightarrow> estimator \<Rightarrow> nat \<Rightarrow> int \<Rightarrow> int \<times> estimator \<Rightarrow> track_node_dir list \<Rightarrow> bool" where
  "stopped_at t est k dist = (\<lambda>(r, est') ps. est_ok t est' \<and> 0 \<le> r \<and> r \<le> dist \<and>
     (\<exists>p'. moved est k p' est' \<and> drive t est k (pos est k) ps (dist - r) p' \<and> (0 < r \<longrightarrow> obstructed t est k p')))"

lemma stopped_here:
  assumes "est_ok t est" "k \<in> tracked est" "0 \<le> dist" "dist = 0 \<or> n_type (t ! i) = NODE_EXIT" "pe_pos (pos est k) = Some i"
  shows "stopped_at t est k dist (dist, est) []"
proof -
  have "drive t est k (pos est k) [] 0 ((pos est k)\<lparr>pe_off := pe_off (pos est k) + 0\<rparr>)"
    by (rule drive.along) (auto simp: clear_ahead_def)
  then have "drive t est k (pos est k) [] 0 (pos est k)" by simp
  moreover have "0 < dist \<longrightarrow> obstructed t est k (pos est k)" using assms(4,5) by (auto simp: obstructed_def)
  ultimately show ?thesis
    using assms(1,3) moved_refl [of est k] by (auto simp: stopped_at_def)
qed

lemma blocker_ok:
  assumes ok: "est_ok t est" and k: "k \<in> tracked est" "on (pos est k) i d" "i < TRACK_MAX" "d < 2"
  shows "\<exists>b. est_blocker (es_train est) k dist (es_tr_at est ! i ! d) (nat (sint (cb_size (es_tr_at est ! i ! d)))) = Some b \<and>
    (case b of None \<Rightarrow> clear_ahead est k (pos est k) dist
     | Some x \<Rightarrow> x \<in> tracked est - {k} \<and> on (pos est x) i d \<and> pe_off (pos est k) < pe_off (pos est x) \<and>
         pe_off (pos est x) \<le> pe_off (pos est k) + dist \<and>
         clear_ahead est k (pos est k) (pe_off (pos est x) - 1 - pe_off (pos est k)))"
proof -
  have sh: "est_shape est" and l: "lists_ok est (tracked est)" using ok by (auto simp: est_ok_def)
  note A = shape_at [OF sh k(3,4)]
  let ?xs = "trains_at est i d"
  have xs: "set ?xs = {x \<in> tracked est. on (pos est x) i d}" "desc (off (es_train est)) ?xs"
    using l k(3,4) by (auto simp: lists_ok_def)
  have n: "nat (sint (cb_size (es_tr_at est ! i ! d))) = length ?xs"
    using cb_wf_sint(2) [OF A(3)] by (simp add: trains_at_def)
  have "\<exists>b. est_blocker (es_train est) k dist (es_tr_at est ! i ! d) (length ?xs) = Some b \<and> (case b of
      None \<Rightarrow> \<forall>x \<in> set ?xs - {k}. \<not> (off (es_train est) k < off (es_train est) x \<and> off (es_train est) x \<le> off (es_train est) k + dist)
    | Some x \<Rightarrow> x \<in> set ?xs - {k} \<and> off (es_train est) k < off (es_train est) x \<and> off (es_train est) x \<le> off (es_train est) k + dist \<and>
        (\<forall>y \<in> set ?xs - {k}. off (es_train est) k < off (es_train est) y \<longrightarrow> off (es_train est) x \<le> off (es_train est) y))"
    by (rule est_blocker_spec [OF A(3) trains_at_def])
       (use xs k tracked_bound [OF sh] in \<open>auto simp: on_def\<close>)
  then obtain b where b: "est_blocker (es_train est) k dist (es_tr_at est ! i ! d) (length ?xs) = Some b"
    "case b of
      None \<Rightarrow> \<forall>x \<in> set ?xs - {k}. \<not> (off (es_train est) k < off (es_train est) x \<and> off (es_train est) x \<le> off (es_train est) k + dist)
    | Some x \<Rightarrow> x \<in> set ?xs - {k} \<and> off (es_train est) k < off (es_train est) x \<and> off (es_train est) x \<le> off (es_train est) k + dist \<and>
        (\<forall>y \<in> set ?xs - {k}. off (es_train est) k < off (es_train est) y \<longrightarrow> off (es_train est) x \<le> off (es_train est) y)"
    by blast
  have on: "on (pos est x) i d" if "pe_pos (pos est x) = pe_pos (pos est k)" "pe_dir (pos est x) = pe_dir (pos est k)" for x
    using that k(2) by (simp add: on_def)
  show ?thesis
    unfolding n using b
    by (auto simp: xs(1) off_def clear_ahead_def on split: option.splits intro!: exI [of _ b]; force)
qed

lemma clear_mono: "clear_ahead est k p d \<Longrightarrow> d' \<le> d \<Longrightarrow> clear_ahead est k p d'"
  by (force simp: clear_ahead_def)

lemma stopped_along:
  assumes "est_ok t est'" "moved est k ((pos est k)\<lparr>pe_off := pe_off (pos est k) + x\<rparr>) est'" "0 \<le> x" "x \<le> dist"
    "clear_ahead est k (pos est k) x"
    "x < dist \<Longrightarrow> obstructed t est k ((pos est k)\<lparr>pe_off := pe_off (pos est k) + x\<rparr>)"
  shows "stopped_at t est k dist (dist - x, est') []"
  using assms drive.along [OF assms(3,5)] by (auto simp: stopped_at_def)

text \<open>A train on the edge \<open>d\<close> of node \<open>i\<close>, ready to be moved.\<close>

definition on_edge :: "track \<Rightarrow> estimator \<Rightarrow> nat \<Rightarrow> nat \<Rightarrow> nat \<Rightarrow> bool" where
  "on_edge t est k i d \<longleftrightarrow> est_ok t est \<and> k \<in> tracked est \<and> on (pos est k) i d \<and> i < TRACK_MAX \<and> d < 2 \<and>
     wf_track t \<and> switches_ok t"

lemma on_edgeD:
  assumes "on_edge t est k i d"
  shows "est_ok t est" "k \<in> tracked est" "on (pos est k) i d" "i < TRACK_MAX" "d < 2" "wf_track t" "switches_ok t"
    "k < length (es_train est)" "pos_ok t (pos est k)" "0 \<le> pe_off (pos est k)"
proof -
  show "est_ok t est" "k \<in> tracked est" "on (pos est k) i d" "i < TRACK_MAX" "d < 2" "wf_track t" "switches_ok t"
    using assms by (simp_all add: on_edge_def)
  then show "k < length (es_train est)" "pos_ok t (pos est k)" "0 \<le> pe_off (pos est k)"
    using tracked_bound by (auto simp: est_ok_def elim: pos_okE)
qed

lemma further_ok:
  assumes A: "on_edge t est k i d" and "0 \<le> x" "d < n_edges (n_type (t ! i))" "pe_off (pos est k) + x \<le> e_dist (n_edge (t ! i) ! d)"
  shows "pos_ok t ((pos est k)\<lparr>pe_off := pe_off (pos est k) + x\<rparr>)" "on ((pos est k)\<lparr>pe_off := pe_off (pos est k) + x\<rparr>) i d"
proof -
  note B = on_edgeD [OF A]
  show on: "on ((pos est k)\<lparr>pe_off := pe_off (pos est k) + x\<rparr>) i d" using B(3) by (simp add: on_def)
  have "n_type (t ! i) \<noteq> NODE_NONE" using assms(3) by auto
  then show "pos_ok t ((pos est k)\<lparr>pe_off := pe_off (pos est k) + x\<rparr>)"
    using assms B(4) on B(10) by (intro pos_okI [OF on]) auto
qed

lemma blocked_stops:
  assumes A: "on_edge t est k i d" and x: "x \<in> tracked est - {k}" "on (pos est x) i d" "pe_off (pos est k) < pe_off (pos est x)"
      "pe_off (pos est x) \<le> pe_off (pos est k) + dist" "pe_off (pos est x) \<noteq> 1"
    and c: "clear_ahead est k (pos est k) (pe_off (pos est x) - 1 - pe_off (pos est k))"
  shows "\<exists>r est'. est_blocked t orig k True x est dist = Some (r, est') \<and> stopped_at t est k dist (r, est') []"
proof -
  note B = on_edgeD [OF A]
  let ?o = "pe_off (pos est x) - 1" let ?p = "(pos est k)\<lparr>pe_off := pe_off (pos est x) - 1\<rparr>"
  obtain e1 where 1: "take_from (int i, int d) k est = Some e1" "air t e1 k" "moved est k (pos est k) e1"
    using take_from_ok [OF B(1-5)] by blast
  have p1: "pos e1 k = pos est k" "pos e1 x = pos est x" "x < length (es_train e1)"
    using movedD(7-9) [OF 1(3)] B(8) x(1) B(1) tracked_bound by (auto simp: est_ok_def)
  have "pos_ok t (pos est x)" using B(1) x(1) by (auto simp: est_ok_def)
  then have e: "d < n_edges (n_type (t ! i)) \<and> pe_off (pos est x) \<le> e_dist (n_edge (t ! i) ! d) \<or> n_type (t ! i) = NODE_EXIT"
    using x(2) by (auto elim!: pos_okE simp: on_def)
  have "n_type (t ! i) \<noteq> NODE_NONE" "n_type (t ! i) = NODE_EXIT \<longrightarrow> d = 0"
    using B(9) B(3) by (auto elim!: pos_okE simp: on_def n_edges_def)
  then have po: "pos_ok t ?p" "on ?p i d"
    using e B(3,4,10) x(3) by (auto intro!: pos_okI [of _ i d] simp: on_def)
  obtain e2 e3 where 2: "mod_pos k (\<lambda>p. p\<lparr>pe_off := ?o\<rparr>) e1 = Some e2" "put_at (int i, int d) k e2 = Some e3"
    "est_ok t e3" "moved e1 k ?p e3"
    using replace_ok [OF 1(2), of "\<lambda>p. p\<lparr>pe_off := ?o\<rparr>" i d] po unfolding p1 by blast
  have d: "int d = 0 \<or> int d = 1" using B(5) by (auto simp: less_2_cases_iff)
  have "est_blocked t orig k True x est dist = Some (dist - (?o - pe_off (pos est k)), e3)"
    using B(3,4) d B(8) B(10) x(3,5) p1 1(1) 2(1,2) B(6)
    by (simp add: est_blocked_def on_def node_at_pos wf_id Let_def)
  moreover have "stopped_at t est k dist (dist - (?o - pe_off (pos est k)), e3) []"
  proof (rule stopped_along [OF 2(3)])
    show "moved est k ((pos est k)\<lparr>pe_off := pe_off (pos est k) + (?o - pe_off (pos est k))\<rparr>) e3"
      using moved_trans [OF 1(3) 2(4)] by simp
    show "obstructed t est k ((pos est k)\<lparr>pe_off := pe_off (pos est k) + (?o - pe_off (pos est k))\<rparr>)"
      using x(1,2) B(3) unfolding obstructed_def on_def by (intro disjI2 disjI1 bexI [of _ x]) auto
  qed (use x c in auto)
  ultimately show ?thesis by blast
qed

lemma occupied_stops:
  assumes A: "on_edge t est k i d" and e: "exits t i d s j" "pe_off (pos est k) \<le> s" "s - pe_off (pos est k) \<le> dist"
    and c: "clear_ahead est k (pos est k) dist" and taken: "\<not> free_node est k j (way t est j)"
    and a: "air t e1 k" "moved est k (pos est k) e1"
  shows "\<exists>r est'. est_occupied t orig k True e1 dist (s - pe_off (pos est k)) = Some (r, est') \<and>
    stopped_at t est k dist (r, est') []"
proof -
  note B = on_edgeD [OF A]
  let ?x = "s - pe_off (pos est k)" let ?p = "(pos est k)\<lparr>pe_off := pe_off (pos est k) + (s - pe_off (pos est k))\<rparr>"
  have p1: "pos e1 k = pos est k" using movedD(9) [OF a(2)] B(8) by simp
  have "d < n_edges (n_type (t ! i))" "e_dist (n_edge (t ! i) ! d) = s" using e(1) by (auto simp: exits_def)
  then have po: "pos_ok t ?p" "on ?p i d" using further_ok [OF A, of ?x] e(2) by auto
  obtain e2 e3 where 2: "mod_pos k (\<lambda>p. p\<lparr>pe_off := pe_off p + ?x\<rparr>) e1 = Some e2" "put_at (int i, int d) k e2 = Some e3"
    "est_ok t e3" "moved e1 k ?p e3" "pos e2 k = ?p" "k < length (es_train e2)"
    using replace_ok [OF a(1), of "\<lambda>p. p\<lparr>pe_off := pe_off p + ?x\<rparr>" i d] po unfolding p1 by blast
  have "est_occupied t orig k True e1 dist ?x = Some (dist - ?x, e3)"
    using 2(1,2,5,6) B(3,4) B(6) by (simp add: est_occupied_def on_def node_at_pos wf_id)
  moreover have "stopped_at t est k dist (dist - ?x, e3) []"
  proof (rule stopped_along [OF 2(3)])
    show "moved est k ?p e3" using moved_trans [OF a(2) 2(4)] .
    show "clear_ahead est k (pos est k) ?x" using c clear_mono e(3) by blast
    obtain x where x: "x \<in> tracked est - {k}" "on (pos est x) j (way t est j)" "pe_off (pos est x) = 0"
      using taken by (auto simp: free_node_def)
    show "obstructed t est k ?p"
      unfolding obstructed_def using x e(1) po(2) by (intro disjI2 bexI [OF _ x(1)]) auto
  qed (use e in auto)
  ultimately show ?thesis by blast
qed

lemma short_stops:
  assumes A: "on_edge t est k i d" and e: "exits t i d s j" "0 < dist" "dist < s - pe_off (pos est k)" and c: "clear_ahead est k (pos est k) dist"
    and a: "air t e1 k" "moved est k (pos est k) e1"
  obtains e2 e3 where "mod_pos k (\<lambda>p. p\<lparr>pe_off := pe_off p + dist\<rparr>) e1 = Some e2" "put_at (int i, int d) k e2 = Some e3"
    "stopped_at t est k dist (0, e3) []" "k < length (es_train e3)" "pe_pos (pos e3 k) = Some i"
proof -
  note B = on_edgeD [OF A]
  let ?p = "(pos est k)\<lparr>pe_off := pe_off (pos est k) + dist\<rparr>"
  have p1: "pos e1 k = pos est k" using movedD(9) [OF a(2)] B(8) by simp
  have "d < n_edges (n_type (t ! i))" "e_dist (n_edge (t ! i) ! d) = s" using e(1) by (auto simp: exits_def)
  then have po: "pos_ok t ?p" "on ?p i d" using further_ok [OF A, of dist] e(2,3) by auto
  obtain e2 e3 where 2: "mod_pos k (\<lambda>p. p\<lparr>pe_off := pe_off p + dist\<rparr>) e1 = Some e2" "put_at (int i, int d) k e2 = Some e3"
    "est_ok t e3" "moved e1 k ?p e3"
    using replace_ok [OF a(1), of "\<lambda>p. p\<lparr>pe_off := pe_off p + dist\<rparr>" i d] po unfolding p1 by blast
  have m: "moved est k ?p e3" using moved_trans [OF a(2) 2(4)] .
  have "stopped_at t est k dist (dist - dist, e3) []"
    by (rule stopped_along [OF 2(3) m]) (use e(2) c in auto)
  then show ?thesis
    using that [OF 2(1,2)] movedD(7,9) [OF m] B(8) B(3) by (simp add: on_def)
qed

text \<open>After crossing to the next node the rest of the move is again a move.\<close>

lemma crossed_stops:
  assumes A: "on_edge t est k i d" and e: "exits t i d s j" "pe_off (pos est k) \<le> s" "s - pe_off (pos est k) \<le> dist"
    and c: "clear_ahead est k (pos est k) dist" "free_node est k j (way t est j)"
    and m: "moved est k ((pos est k)\<lparr>pe_pos := Some j, pe_dir := int (way t est j), pe_off := 0\<rparr>) e3"
    and st: "stopped_at t e3 k (dist - (s - pe_off (pos est k))) (r, est') ps"
  shows "stopped_at t est k dist (r, est') (\<lparr>nd_node = Some j, nd_dir = int (way t est j)\<rparr> # ps)"
proof -
  note B = on_edgeD [OF A]
  let ?x = "s - pe_off (pos est k)" let ?p = "(pos est k)\<lparr>pe_pos := Some j, pe_dir := int (way t est j), pe_off := 0\<rparr>"
  have p3: "pos e3 k = ?p" using movedD(9) [OF m B(8)] .
  obtain p' where r: "est_ok t est'" "0 \<le> r" "r \<le> dist - ?x" "moved e3 k p' est'"
    "drive t e3 k ?p ps (dist - ?x - r) p'" "0 < r \<longrightarrow> obstructed t e3 k p'"
    using st by (auto simp: stopped_at_def p3)
  have "drive t est k ?p ps (dist - ?x - r) p'" using drive_moved [OF m r(5)] .
  then have "drive t est k (pos est k) (\<lparr>nd_node = Some j, nd_dir = int (way t est j)\<rparr> # ps) (?x + (dist - ?x - r)) p'"
    using B(3) e c clear_mono by (intro drive.cross) auto
  then show ?thesis
    using r e moved_trans [OF m r(4)] obstructed_moved [OF m] by (auto simp: stopped_at_def)
qed

text \<open>The crossing itself: out of the list, to the next node, noted in the nodes passed, into its list.\<close>

lemma cross_ready:
  assumes A: "on_edge t est k i d" and e: "j < TRACK_MAX" "n_type (t ! j) \<noteq> NODE_NONE"
    and a: "air t e1 k" "moved est k (pos est k) e1"
    and past: "cb_wf TN_LIST_SIZE past" "length (cb_list TN_LIST_SIZE past) < TN_LIST_SIZE"
  shows "\<exists>e2 e3 past1. mod_pos k (\<lambda>p. p\<lparr>pe_pos := Some j, pe_dir := int (way t est j), pe_off := 0\<rparr>) e1 = Some e2 \<and>
    put_at (int j, int (way t est j)) k e2 = Some e3 \<and>
    cb_push TN_LIST_SIZE \<lparr>nd_node = Some j, nd_dir = int (way t est j)\<rparr> past = Some (CB_E_NONE, past1) \<and>
    cb_wf TN_LIST_SIZE past1 \<and>
    cb_list TN_LIST_SIZE past1 = cb_list TN_LIST_SIZE past @ [\<lparr>nd_node = Some j, nd_dir = int (way t est j)\<rparr>] \<and>
    moved est k ((pos est k)\<lparr>pe_pos := Some j, pe_dir := int (way t est j), pe_off := 0\<rparr>) e3 \<and>
    on_edge t e3 k j (way t est j)"
proof -
  note B = on_edgeD [OF A]
  let ?w = "way t est j" let ?nd = "\<lparr>nd_node = Some j, nd_dir = int (way t est j)\<rparr>"
  let ?f = "\<lambda>p. p\<lparr>pe_pos := Some j, pe_dir := int ?w, pe_off := 0\<rparr>"
  have sh: "est_shape est" using B(1) by (simp add: est_ok_def)
  have p1: "pos e1 k = pos est k" using movedD(9) [OF a(2) B(8)] .
  have on: "on (?f (pos e1 k)) j ?w" by (simp add: on_def)
  have po: "pos_ok t (?f (pos e1 k))" by (rule enter_pos_ok [OF sh B(6,7) e on]) simp
  obtain e2 e3 where 2: "mod_pos k ?f e1 = Some e2" "put_at (int j, int ?w) k e2 = Some e3" "est_ok t e3"
    "moved e1 k (?f (pos est k)) e3"
    using replace_ok [where f = ?f, OF a(1) po on] unfolding p1 by blast
  have m: "moved est k (?f (pos est k)) e3" using moved_trans [OF a(2) 2(4)] .
  have p3: "pos e3 k = ?f (pos est k)" using movedD(9) [OF m B(8)] .
  have A3: "on_edge t e3 k j ?w"
    using 2(3) B tracked_moved [OF m] e(1) way_ok(2) [OF sh B(6,7) e(1)] p3 by (simp add: on_edge_def on_def)
  show ?thesis using cbq.push_room [OF past, of ?nd] 2(1,2) m A3 by blast
qed

text \<open>The state in which the code decides between the edge and the next node.\<close>

lemma at_decision:
  assumes A: "on_edge t est k i d" and x: "n_type (t ! i) \<noteq> NODE_EXIT"
  obtains s j e1 where "exits t i d s j" "pe_off (pos est k) \<le> s" "j < TRACK_MAX" "n_type (t ! j) \<noteq> NODE_NONE"
    "est_next_node t est k = Some (s - pe_off (pos est k), Some (Some j, int (way t est j)))"
    "int (way t est j) = 0 \<or> int (way t est j) = 1"
    "take_from (int i, int d) k est = Some e1" "air t e1 k" "moved est k (pos est k) e1"
    "est_node_taken e1 (int j, int (way t est j)) = Some (\<not> free_node est k j (way t est j))"
    "node_at t (Some j) = Some (t ! j)" "n_id (t ! j) = int j"
proof -
  note B = on_edgeD [OF A]
  have sh: "est_shape est" using B(1) by (simp add: est_ok_def)
  obtain s j where e: "exits t i d s j" "pe_off (pos est k) \<le> s" "j < TRACK_MAX" "n_type (t ! j) \<noteq> NODE_NONE"
    "est_next_node t est k = Some (s - pe_off (pos est k), Some (Some j, int (way t est j)))"
    using est_next_node_spec [OF sh B(6-9) B(3) x] .
  note W = way_ok(2) [OF sh B(6,7) e(3)]
  have w: "int (way t est j) = 0 \<or> int (way t est j) = 1" using W by (auto simp: less_2_cases_iff)
  obtain e1 where 1: "take_from (int i, int d) k est = Some e1" "air t e1 k" "moved est k (pos est k) e1"
    using take_from_ok [OF B(1-5)] by blast
  have "est_node_taken e1 (int j, int (way t est j)) = Some (\<not> free_node est k j (way t est j))"
    using est_node_taken_spec [OF 1(2) e(3) W] free_moved [OF 1(3)] by simp
  then show ?thesis using that [OF e w 1] B(6) e(3) by (simp add: node_at_pos wf_id)
qed

text \<open>What a turn of the loop may do: stop; go to the end of the distance on the edge; or cross to the next node.\<close>

definition turn_ok :: "track \<Rightarrow> estimator \<Rightarrow> nat \<Rightarrow> nat \<Rightarrow> nat \<Rightarrow> int \<Rightarrow> track_node_dir cbuf \<Rightarrow>
    move_result + move_state \<Rightarrow> bool" where
  "turn_ok t est k i d dist past y \<longleftrightarrow>
     (\<exists>r e'. y = Inl (r, e', past) \<and> stopped_at t est k dist (r, e') []) \<or>
     (\<exists>e'. y = Inr ((int i, int d), e', 0, past) \<and> stopped_at t est k dist (0, e') [] \<and>
        k < length (es_train e') \<and> pe_pos (pos e' k) = Some i) \<or>
     (\<exists>s j e' past'. y = Inr ((int j, int (way t est j)), e', dist - (s - pe_off (pos est k)), past') \<and>
        exits t i d s j \<and> pe_off (pos est k) \<le> s \<and> s - pe_off (pos est k) \<le> dist \<and>
        clear_ahead est k (pos est k) dist \<and> free_node est k j (way t est j) \<and>
        cb_wf TN_LIST_SIZE past' \<and>
        cb_list TN_LIST_SIZE past' = cb_list TN_LIST_SIZE past @ [\<lparr>nd_node = Some j, nd_dir = int (way t est j)\<rparr>] \<and>
        moved est k ((pos est k)\<lparr>pe_pos := Some j, pe_dir := int (way t est j), pe_off := 0\<rparr>) e' \<and>
        on_edge t e' k j (way t est j))"

lemma turn_okE:
  assumes "turn_ok t est k i d dist past y"
  obtains (stop) r e' where "y = Inl (r, e', past)" "stopped_at t est k dist (r, e') []"
  | (along) e' where "y = Inr ((int i, int d), e', 0, past)" "stopped_at t est k dist (0, e') []"
      "k < length (es_train e')" "pe_pos (pos e' k) = Some i"
  | (cross) s j e' past' where "y = Inr ((int j, int (way t est j)), e', dist - (s - pe_off (pos est k)), past')"
      "exits t i d s j" "pe_off (pos est k) \<le> s" "s - pe_off (pos est k) \<le> dist"
      "clear_ahead est k (pos est k) dist" "free_node est k j (way t est j)" "cb_wf TN_LIST_SIZE past'"
      "cb_list TN_LIST_SIZE past' = cb_list TN_LIST_SIZE past @ [\<lparr>nd_node = Some j, nd_dir = int (way t est j)\<rparr>]"
      "moved est k ((pos est k)\<lparr>pe_pos := Some j, pe_dir := int (way t est j), pe_off := 0\<rparr>) e'"
      "on_edge t e' k j (way t est j)"
  using assms unfolding turn_ok_def by blast

text \<open>A turn fails only when a train 1 mm after the node is in the way or the list of passed nodes is full.\<close>

definition turn_fails :: "track \<Rightarrow> estimator \<Rightarrow> nat \<Rightarrow> nat \<Rightarrow> nat \<Rightarrow> int \<Rightarrow> track_node_dir cbuf \<Rightarrow> bool" where
  "turn_fails t est k i d dist past \<longleftrightarrow> (\<exists>x \<in> tracked est - {k}. pe_off (pos est x) = 1) \<or>
     length (cb_list TN_LIST_SIZE past) = TN_LIST_SIZE \<and> (\<exists>s j. exits t i d s j \<and> s \<le> pe_off (pos est k) + dist)"

lemma est_advance_spec:
  assumes A: "on_edge t est k i d" and go: "0 < dist" "n_type (t ! i) \<noteq> NODE_EXIT"
    and c: "clear_ahead est k (pos est k) dist" and past: "cb_wf TN_LIST_SIZE past"
  shows "est_advance t orig k True ((int i, int d), est, dist, past) = None \<and> turn_fails t est k i d dist past \<or>
    (\<exists>y. est_advance t orig k True ((int i, int d), est, dist, past) = Some y \<and> turn_ok t est k i d dist past y)"
proof -
  obtain s j e1 where e: "exits t i d s j" "pe_off (pos est k) \<le> s" "j < TRACK_MAX" "n_type (t ! j) \<noteq> NODE_NONE"
    "est_next_node t est k = Some (s - pe_off (pos est k), Some (Some j, int (way t est j)))"
    and w: "int (way t est j) = 0 \<or> int (way t est j) = 1"
    and t1: "take_from (int i, int d) k est = Some e1" "air t e1 k" "moved est k (pos est k) e1"
    and tk: "est_node_taken e1 (int j, int (way t est j)) = Some (\<not> free_node est k j (way t est j))"
    and mj: "node_at t (Some j) = Some (t ! j)" "n_id (t ! j) = int j"
    using at_decision [OF A go(2)] by blast
  let ?x = "s - pe_off (pos est k)"
  note F = est_advance_def e(2,5) w t1(1) mj tk
  consider "dist < ?x" | "?x \<le> dist" "\<not> free_node est k j (way t est j)"
    | "?x \<le> dist" "free_node est k j (way t est j)" "length (cb_list TN_LIST_SIZE past) = TN_LIST_SIZE"
    | "?x \<le> dist" "free_node est k j (way t est j)" "length (cb_list TN_LIST_SIZE past) < TN_LIST_SIZE"
    using cbq.bound [OF past] by linarith
  then show ?thesis
  proof cases
    case 1
    obtain e2 e3 where 2: "mod_pos k (\<lambda>p. p\<lparr>pe_off := pe_off p + dist\<rparr>) e1 = Some e2"
      "put_at (int i, int d) k e2 = Some e3" "stopped_at t est k dist (0, e3) []" "k < length (es_train e3)"
      "pe_pos (pos e3 k) = Some i"
      using short_stops [OF A e(1) go(1) 1 c t1(2,3)] by blast
    then have "est_advance t orig k True ((int i, int d), est, dist, past) = Some (Inr ((int i, int d), e3, 0, past))"
      using F 1 by auto
    then show ?thesis using 2(3-5) by (simp add: turn_ok_def)
  next
    case 2
    then obtain r e' where "est_occupied t orig k True e1 dist ?x = Some (r, e')" "stopped_at t est k dist (r, e') []"
      using occupied_stops [OF A e(1,2) _ c _ t1(2,3), of orig] by blast
    moreover from this(1) have "est_advance t orig k True ((int i, int d), est, dist, past) = Some (Inl (r, e', past))"
      using F 2 by auto
    ultimately show ?thesis by (simp add: turn_ok_def)
  next
    case 3
    then have "cb_push TN_LIST_SIZE nd past = Some (CB_E_FULL, past)" for nd using cbq.push_full [OF past] by blast
    then have "est_advance t orig k True ((int i, int d), est, dist, past) = None"
      using F 3 by (auto split: option.split simp: bind_eq_None_conv)
    moreover have "s \<le> pe_off (pos est k) + dist" using 3(1) by linarith
    ultimately show ?thesis using 3(3) e(1) unfolding turn_fails_def by blast
  next
    case 4
    from cross_ready [OF A e(3,4) t1(2,3) past 4(3)] obtain e2 e3 past1 where
      2: "mod_pos k (\<lambda>p. p\<lparr>pe_pos := Some j, pe_dir := int (way t est j), pe_off := 0\<rparr>) e1 = Some e2"
        "put_at (int j, int (way t est j)) k e2 = Some e3"
        "cb_push TN_LIST_SIZE \<lparr>nd_node = Some j, nd_dir = int (way t est j)\<rparr> past = Some (CB_E_NONE, past1)"
        "cb_wf TN_LIST_SIZE past1"
        "cb_list TN_LIST_SIZE past1 = cb_list TN_LIST_SIZE past @ [\<lparr>nd_node = Some j, nd_dir = int (way t est j)\<rparr>]"
      and m: "moved est k ((pos est k)\<lparr>pe_pos := Some j, pe_dir := int (way t est j), pe_off := 0\<rparr>) e3"
        "on_edge t e3 k j (way t est j)" by blast
    then have "est_advance t orig k True ((int i, int d), est, dist, past) =
        Some (Inr ((int j, int (way t est j)), e3, dist - ?x, past1))"
      using F 4 by auto
    then show ?thesis using e(1,2) 4(1,2) c 2(4,5) m unfolding turn_ok_def by blast
  qed
qed

lemma est_turn_spec:
  assumes A: "on_edge t est k i d" and go: "0 < dist" "n_type (t ! i) \<noteq> NODE_EXIT" and past: "cb_wf TN_LIST_SIZE past"
  shows "est_turn t orig k True ((int i, int d), est, dist, past) = None \<and> turn_fails t est k i d dist past \<or>
    (\<exists>y. est_turn t orig k True ((int i, int d), est, dist, past) = Some y \<and> turn_ok t est k i d dist past y)"
proof -
  note B = on_edgeD [OF A]
  have Q: "aget2 (es_tr_at est) (int i, int d) = Some (es_tr_at est ! i ! d)"
    using shape_at(1) B(1,4,5) by (auto simp: est_ok_def)
  obtain b where b: "est_blocker (es_train est) k dist (es_tr_at est ! i ! d)
      (nat (sint (cb_size (es_tr_at est ! i ! d)))) = Some b"
    "case b of None \<Rightarrow> clear_ahead est k (pos est k) dist
     | Some x \<Rightarrow> x \<in> tracked est - {k} \<and> on (pos est x) i d \<and> pe_off (pos est k) < pe_off (pos est x) \<and>
         pe_off (pos est x) \<le> pe_off (pos est k) + dist \<and>
         clear_ahead est k (pos est k) (pe_off (pos est x) - 1 - pe_off (pos est k))"
    using blocker_ok [OF B(1-5), of dist] by blast
  show ?thesis
  proof (cases b)
    case None
    then show ?thesis using est_advance_spec [OF A go _ past, of orig] Q b by (simp add: est_turn_def)
  next
    case (Some x)
    show ?thesis
    proof (cases "pe_off (pos est x) = 1")
      case True
      have "es_train e1 ! x = es_train est ! x" if "take_from at' k est = Some e1" for e1 at'
        using that by (auto simp: take_from_def Option.bind_eq_Some_conv)
      then have "est_blocked t orig k True x est dist = None"
        using True by (auto simp: est_blocked_def bind_eq_None_conv Let_def aget_eq_Some)
      moreover have "x \<in> tracked est - {k}" using b(2) Some by simp
      ultimately show ?thesis using Q b(1) Some True unfolding turn_fails_def by (auto simp: est_turn_def)
    next
      case False
      then obtain r e' where "est_blocked t orig k True x est dist = Some (r, e')" "stopped_at t est k dist (r, e') []"
        using blocked_stops [OF A, of x dist orig] b(2) Some by auto
      then show ?thesis using Q b(1) Some by (auto simp: est_turn_def turn_ok_def)
    qed
  qed
qed

text \<open>The whole move.\<close>

definition move_ok :: "track \<Rightarrow> estimator \<Rightarrow> nat \<Rightarrow> int \<Rightarrow> track_node_dir cbuf \<Rightarrow> move_result \<Rightarrow> bool" where
  "move_ok t est k dist past = (\<lambda>(r, est', past'). cb_wf TN_LIST_SIZE past' \<and>
     (\<exists>ps. cb_list TN_LIST_SIZE past' = cb_list TN_LIST_SIZE past @ ps \<and> stopped_at t est k dist (r, est') ps))"

lemma move_okI:
  "cb_wf TN_LIST_SIZE past \<Longrightarrow> stopped_at t est k dist (r, est') [] \<Longrightarrow> move_ok t est k dist past (r, est', past)"
  by (simp add: move_ok_def)

lemma loop_ends:
  assumes "k < length (es_train est)" "pe_pos (pos est k) = Some i" "i < TRACK_MAX" "wf_track t"
  shows "est_forward_loop t orig k force (at, est, 0, past) = Some (0, est, past)"
  using assms by (subst est_forward_loop.simps) (simp add: node_at_pos)

lemma move_ok_cross:
  assumes A: "on_edge t est k i d" and e: "exits t i d s j" "pe_off (pos est k) \<le> s" "s - pe_off (pos est k) \<le> dist"
    and c: "clear_ahead est k (pos est k) dist" "free_node est k j (way t est j)"
    and m: "moved est k ((pos est k)\<lparr>pe_pos := Some j, pe_dir := int (way t est j), pe_off := 0\<rparr>) e3"
    and l: "cb_list TN_LIST_SIZE past1 = cb_list TN_LIST_SIZE past @ [\<lparr>nd_node = Some j, nd_dir = int (way t est j)\<rparr>]"
    and mr: "move_ok t e3 k (dist - (s - pe_off (pos est k))) past1 res"
  shows "move_ok t est k dist past res"
  using mr crossed_stops [OF A e c m] l by (cases res) (auto simp: move_ok_def)

lemma est_forward_loop_partial:
  assumes "est_forward_loop t orig k True ((int i, int d), est, dist, past) = Some res"
    and "on_edge t est k i d" "0 \<le> dist" "cb_wf TN_LIST_SIZE past"
  shows "move_ok t est k dist past res"
proof -
  let ?P = "\<lambda>t orig k force st res. (\<forall>at est past. st = (at, est, 0, past) \<longrightarrow> res = (0, est, past)) \<and>
      (\<forall>i d est dist past. st = ((int i, int d), est, dist, past) \<longrightarrow> on_edge t est k i d \<longrightarrow>
      0 \<le> dist \<longrightarrow> cb_wf TN_LIST_SIZE past \<longrightarrow> force \<longrightarrow> move_ok t est k dist past res)"
  have "?P t orig k True ((int i, int d), est, dist, past) res"
  proof (rule est_forward_loop.raw_induct [where P = ?P, OF _ assms(1)], intro conjI allI impI, goal_cases)
    case (1 loop t orig k force st res at est past)
    then show ?case by (auto simp: Option.bind_eq_Some_conv)
  next
    case 1: (2 loop t orig k force st res i d est dist past)
    note IH = 1(1) and A = 1(4) and past = 1(6)
    note B = on_edgeD [OF A]
    have nd: "node_at t (pe_pos (pos est k)) = Some (t ! i)" using B(3,4,6) by (simp add: on_def node_at_pos)
    note body = 1(2) [unfolded 1(3), simplified]
    show ?case
    proof (cases "dist = 0 \<or> n_type (t ! i) = NODE_EXIT")
      case True
      then have "res = (dist, est, past)" using body B(8) nd by auto
      moreover have "stopped_at t est k dist (dist, est) []"
        by (rule stopped_here [OF B(1,2) 1(5) True]) (use B(3) in \<open>simp add: on_def\<close>)
      ultimately show ?thesis using move_okI [OF past] by simp
    next
      case False
      then have go: "0 < dist" "n_type (t ! i) \<noteq> NODE_EXIT" using 1(5) by auto
      then obtain y where y: "est_turn t orig k True ((int i, int d), est, dist, past) = Some y"
          "(case y of Inl res' \<Rightarrow> Some res' | Inr st \<Rightarrow> loop t orig k True st) = Some res"
        using body B(8) nd 1(7) by (auto simp: Option.bind_eq_Some_conv)
      have "turn_ok t est k i d dist past y" using est_turn_spec [OF A go past, of orig] y(1) by auto
      then show ?thesis
      proof (cases rule: turn_okE)
        case (stop r e')
        then show ?thesis using y(2) move_okI [OF past stop(2)] by simp
      next
        case (along e')
        then have "res = (0, e', past)" using y(2) IH by fastforce
        then show ?thesis using along(2) move_okI [OF past] by simp
      next
        case (cross s j e' past')
        have "move_ok t e' k (dist - (s - pe_off (pos est k))) past' res"
          using IH [of t orig k True _ res] y(2) cross(1,4,7,10) by simp
        then show ?thesis using move_ok_cross [OF A cross(2-6,9,8)] by blast
      qed
    qed
  qed
  then show ?thesis using assms(2-4) by blast
qed

text \<open>It returns when the list of passed nodes has room for the nodes in reach and no other train is 1 mm after a node.\<close>

lemma est_forward_loop_returns:
  "on_edge t est k i d \<Longrightarrow> 0 \<le> dist \<Longrightarrow> cb_wf TN_LIST_SIZE past \<Longrightarrow>
   \<forall>x \<in> tracked est - {k}. pe_off (pos est x) \<noteq> 1 \<Longrightarrow>
   within_nodes t i (pe_off (pos est k) + dist) n \<Longrightarrow> length (cb_list TN_LIST_SIZE past) + n \<le> TN_LIST_SIZE \<Longrightarrow>
   \<exists>res. est_forward_loop t orig k True ((int i, int d), est, dist, past) = Some res"
proof (induction n arbitrary: est i d dist past rule: less_induct)
  case (less n)
  note A = less.prems(1) and past = less.prems(3) note B = on_edgeD [OF A]
  have nd: "node_at t (pe_pos (pos est k)) = Some (t ! i)" using B(3,4,6) by (simp add: on_def node_at_pos)
  note U = est_forward_loop.simps [of t orig k True "((int i, int d), est, dist, past)"]
  show ?case
  proof (cases "dist = 0 \<or> n_type (t ! i) = NODE_EXIT")
    case True
    then show ?thesis unfolding U using B(8) nd by auto
  next
    case False
    then have go: "0 < dist" "n_type (t ! i) \<noteq> NODE_EXIT" using less.prems(2) by auto
    have "\<not> turn_fails t est k i d dist past"
      using less.prems(4,6) within_nodes_step(1) [OF less.prems(5)] by (auto simp: turn_fails_def)
    then obtain y where y: "est_turn t orig k True ((int i, int d), est, dist, past) = Some y" "turn_ok t est k i d dist past y"
      using est_turn_spec [OF A go past, of orig] by blast
    have E: "est_forward_loop t orig k True ((int i, int d), est, dist, past) =
        (case y of Inl res \<Rightarrow> Some res | Inr st \<Rightarrow> est_forward_loop t orig k True st)"
      unfolding U using go B(8) nd y(1) by auto
    from y(2) show ?thesis
    proof (cases rule: turn_okE)
      case (cross s j e' past')
      have "s \<le> pe_off (pos est k) + dist" using cross(4) by simp
      note N = within_nodes_step [OF less.prems(5) cross(2) this]
      have "\<exists>res. est_forward_loop t orig k True ((int j, int (way t est j)), e', dist - (s - pe_off (pos est k)), past') = Some res"
      proof (rule less.IH [OF _ cross(10) _ cross(7)])
        show "\<forall>x \<in> tracked e' - {k}. pe_off (pos e' x) \<noteq> 1"
          using less.prems(4) moved_cong(1) [OF cross(9)] tracked_moved [OF cross(9)] by simp
        show "within_nodes t j (pe_off (pos e' k) + (dist - (s - pe_off (pos est k)))) (n - 1)"
          using N(2) movedD(9) [OF cross(9) B(8)] by (simp add: algebra_simps)
      qed (use N(1) cross(4,8) less.prems(6) in \<open>auto simp del: length_cb_list\<close>)
      then show ?thesis using E cross(1) by simp
    qed (use E loop_ends [OF _ _ B(4,6)] in auto)
  qed
qed

end
