(* ===== verification/EstimatorKeeps.thy ===== *)
theory EstimatorKeeps
  imports EstimatorMove
begin

text \<open>
  What every operation of the estimator keeps: the lists of trains, and the names in the marks.
\<close>

section \<open>The invariant with the marks\<close>

text \<open>Registrations and crumbs name trains that are tracked.\<close>

definition marks_ok :: "estimator \<Rightarrow> bool" where
  "marks_ok est \<longleftrightarrow> (\<forall>q \<in> set (es_sen_reg est). cb_wf NUM_TRAINS q \<and> set (cb_list NUM_TRAINS q) \<subseteq> tracked est) \<and>
     (\<forall>row \<in> set (es_crumb est). \<forall>cr \<in> set row. \<forall>c \<in> set (cr_crumb cr). \<forall>k. tc_train c = Some k \<longrightarrow> k \<in> tracked est)"

definition est_inv :: "track \<Rightarrow> estimator \<Rightarrow> bool" where
  "est_inv t est \<longleftrightarrow> est_ok t est \<and> marks_ok est"

text \<open>\<open>keeps t est est'\<close>: the invariant after a step, with the same trains.\<close>

definition keeps :: "track \<Rightarrow> estimator \<Rightarrow> estimator \<Rightarrow> bool" where
  "keeps t est est' \<longleftrightarrow> est_inv t est' \<and> es_ntrains est' = es_ntrains est"

lemma keeps_refl: "est_inv t est \<Longrightarrow> keeps t est est"
  by (simp add: keeps_def)

lemma keeps_trans: "keeps t a b \<Longrightarrow> keeps t b c \<Longrightarrow> keeps t a c"
  by (simp add: keeps_def)

lemma keeps_inv: "keeps t a b \<Longrightarrow> est_inv t b"
  by (simp add: keeps_def)

lemma keeps_tracked: "keeps t a b \<Longrightarrow> tracked b = tracked a"
  by (simp add: keeps_def)

text \<open>Changes that do not touch where the trains are.\<close>

definition same_place :: "pos_event \<Rightarrow> pos_event \<Rightarrow> bool" where
  "same_place p q \<longleftrightarrow> pe_pos p = pe_pos q \<and> pe_dir p = pe_dir q \<and> pe_off p = pe_off q"

definition sw_ok :: "estimator \<Rightarrow> bool" where
  "sw_ok est \<longleftrightarrow> length (es_sw est) = SWITCH_SIZE \<and>
     (\<forall>sw \<in> set (es_sw est). (swi_state sw = 0 \<or> swi_state sw = 1) \<and> (50 \<le> swi_conf sw \<or> swi_conf sw = 0))"

lemma est_sw_ok: "est_ok t est \<Longrightarrow> sw_ok est"
  by (simp add: est_ok_def est_shape_def sw_ok_def)

lemma est_ok_cong:
  assumes ok: "est_ok t est" and e: "es_tr_at est' = es_tr_at est" "es_ntrains est' = es_ntrains est"
    "length (es_train est') = length (es_train est)" "length (es_tmap est') = length (es_tmap est)" "sw_ok est'"
    "\<forall>j \<in> tracked est. same_place (pos est' j) (pos est j)"
  shows "est_ok t est'"
proof -
  have on: "on (pos est' j) i d = on (pos est j) i d" if "j \<in> tracked est" for i d j
    using e(6) that by (auto simp: on_def same_place_def)
  have "est_shape est'" using ok e by (simp add: est_ok_def est_shape_def sw_ok_def)
  moreover have "pos_ok t (pos est' j)" if j: "j \<in> tracked est" for j
  proof -
    have "pos_ok t (pos est j)" using ok j by (auto simp: est_ok_def)
    then show ?thesis using on [OF j] e(6) j by (simp add: pos_ok_def same_place_def)
  qed
  moreover have "lists_ok est' (tracked est)"
    unfolding lists_ok_def trains_at_def e(1)
  proof (intro allI impI)
    fix i d :: nat assume b: "i < TRACK_MAX" "d < 2"
    let ?xs = "cb_list NUM_TRAINS (es_tr_at est ! i ! d)"
    have x: "distinct ?xs" "set ?xs = {k \<in> tracked est. on (pos est k) i d}" "desc (off (es_train est)) ?xs"
      using ok b by (auto simp: est_ok_def lists_ok_def trains_at_def)
    have "desc (off (es_train est')) ?xs"
      using x(3) by (rule sorted_wrt_mono_rel [rotated]) (use x(2) e(6) in \<open>auto simp: off_def same_place_def\<close>)
    then show "distinct ?xs \<and> set ?xs = {k \<in> tracked est. on (pos est' k) i d} \<and> desc (off (es_train est')) ?xs"
      using x(1,2) on by auto
  qed
  ultimately show ?thesis using e(2) by (simp add: est_ok_def)
qed

lemma same_place_refl [simp]: "same_place p p"
  by (simp add: same_place_def)

lemma keeps_marks:
  assumes "est_inv t est" "es_train est' = es_train est" "es_tr_at est' = es_tr_at est" "es_ntrains est' = es_ntrains est"
    "es_tmap est' = es_tmap est" "sw_ok est'" "marks_ok est'"
  shows "keeps t est est'"
proof -
  have "est_ok t est'" by (rule est_ok_cong [of t est]) (use assms in \<open>simp_all add: est_inv_def\<close>)
  then show ?thesis using assms by (simp add: keeps_def est_inv_def)
qed

lemma keeps_mod_train:
  assumes "est_inv t est" "mod_train k f est = Some est'" "\<And>tr. same_place (tr_curr_pos (f tr)) (tr_curr_pos tr)"
  shows "keeps t est est'"
proof -
  have e: "est' = est\<lparr>es_train := (es_train est)[k := f (es_train est ! k)]\<rparr>"
    using assms(2) by (auto simp: mod_train_def fault_eq)
  have "sw_ok est'" using assms(1) est_sw_ok [of t est] by (simp add: est_inv_def e sw_ok_def)
  moreover have "same_place (pos est' j) (pos est j)" for j
    using assms(3) by (simp add: e nth_update_if)
  ultimately have "est_ok t est'"
    by (intro est_ok_cong [of t est est']) (use assms(1) in \<open>simp_all add: est_inv_def e\<close>)
  then show ?thesis using assms(1) by (simp add: keeps_def est_inv_def e marks_ok_def)
qed

lemma asetz_set: "asetz xs i v = Some ys \<Longrightarrow> set ys \<subseteq> insert v (set xs)"
  using set_update_subset_insert by (fastforce simp: asetz_eq_Some)

lemma aset2_set:
  assumes "aset2 xss at v = Some yss" "row \<in> set yss" "x \<in> set row"
  shows "x = v \<or> (\<exists>row' \<in> set xss. x \<in> set row')"
proof -
  obtain i d where "at = (i, d)" by (cases at)
  then obtain r r' where r: "agetz xss i = Some r" "asetz r d v = Some r'" "asetz xss i r' = Some yss"
    using assms(1) by (auto simp: aset2_def fault_eq)
  have "r \<in> set xss" using r(1) by (auto simp: agetz_eq_Some)
  moreover have "row \<in> insert r' (set xss)" "set r' \<subseteq> insert v (set r)"
    using asetz_set [OF r(3)] asetz_set [OF r(2)] assms(2) by auto
  ultimately show ?thesis using assms(3) by auto
qed

lemma aget2_set: "aget2 xss at = Some x \<Longrightarrow> \<exists>row \<in> set xss. x \<in> set row"
  by (cases at) (auto simp: aget2_def agetz_eq_Some Option.bind_eq_Some_conv intro!: bexI nth_mem)

text \<open>Replacing one list of registrations, and one node's crumbs.\<close>

lemma keeps_reg:
  assumes "est_inv t est" "asetz (es_sen_reg est) i q = Some rs" "cb_wf NUM_TRAINS q"
    "set (cb_list NUM_TRAINS q) \<subseteq> tracked est"
  shows "keeps t est (est\<lparr>es_sen_reg := rs\<rparr>)"
proof (rule keeps_marks [OF assms(1)])
  show "marks_ok (est\<lparr>es_sen_reg := rs\<rparr>)"
    using assms asetz_set [OF assms(2)] by (force simp: marks_ok_def est_inv_def)
  show "sw_ok (est\<lparr>es_sen_reg := rs\<rparr>)"
    using assms(1) est_sw_ok [of t est] by (simp add: est_inv_def sw_ok_def)
qed simp_all

lemma keeps_crumb:
  assumes "est_inv t est" "aset2 (es_crumb est) at cr = Some crs"
    "\<forall>c \<in> set (cr_crumb cr). \<forall>k. tc_train c = Some k \<longrightarrow> k \<in> tracked est"
  shows "keeps t est (est\<lparr>es_crumb := crs\<rparr>)"
proof (rule keeps_marks [OF assms(1)])
  have "tc_train c = Some k \<longrightarrow> k \<in> tracked est"
    if "row \<in> set crs" "cr' \<in> set row" "c \<in> set (cr_crumb cr')" for row cr' c k
    using aset2_set [OF assms(2) that(1,2)] that(3) assms(1,3) by (auto simp: est_inv_def marks_ok_def)
  then show "marks_ok (est\<lparr>es_crumb := crs\<rparr>)"
    using assms(1) by (auto simp: marks_ok_def est_inv_def)
  show "sw_ok (est\<lparr>es_crumb := crs\<rparr>)"
    using assms(1) est_sw_ok [of t est] by (simp add: est_inv_def sw_ok_def)
qed simp_all

lemma inv_reg:
  assumes "est_inv t est" "agetz (es_sen_reg est) i = Some q"
  shows "cb_wf NUM_TRAINS q" "set (cb_list NUM_TRAINS q) \<subseteq> tracked est"
proof -
  have "q \<in> set (es_sen_reg est)" using assms(2) by (auto simp: agetz_eq_Some)
  then show "cb_wf NUM_TRAINS q" "set (cb_list NUM_TRAINS q) \<subseteq> tracked est"
    using assms(1) by (auto simp: est_inv_def marks_ok_def)
qed

lemma inv_crumb:
  assumes "est_inv t est" "aget2 (es_crumb est) at = Some cr" "c \<in> set (cr_crumb cr)" "tc_train c = Some k"
  shows "k \<in> tracked est"
  using aget2_set [OF assms(2)] assms(1,3,4) unfolding est_inv_def marks_ok_def by blast

lemma rem_list:
  assumes "cb_wf m q" "cb_rem m k q = Some (r, q')"
  shows "cb_wf m q'" "set (cb_list m q') \<subseteq> set (cb_list m q)"
  using cbx.rem_cases [OF assms] assms(1) set_remove1_subset [of k "cb_list m q"] by auto

lemma push_list:
  assumes "cb_wf m q" "cb_push m k q = Some (r, q')"
  shows "cb_wf m q'" "set (cb_list m q') \<subseteq> insert k (set (cb_list m q))"
proof -
  have "length (cb_list m q) < m \<or> length (cb_list m q) = m" using cbq.bound [OF assms(1)] by linarith
  then show "cb_wf m q'" "set (cb_list m q') \<subseteq> insert k (set (cb_list m q))"
    using cbq.push_room [OF assms(1), of k] cbq.push_full [OF assms(1), of k] assms by auto
qed

section \<open>What the operations keep\<close>

lemma mark_faulty_keeps:
  assumes "est_mark_faulty est n = Some est'" "est_inv t est"
  shows "keeps t est est'"
proof (cases "n_type n = NODE_BRANCH")
  case True
  then obtain sw c sws where s: "agetz (es_sw est) (n_num n) = Some sw" "c = 0 \<or> c = 50"
    "asetz (es_sw est) (n_num n) (sw\<lparr>swi_conf := c\<rparr>) = Some sws" "est' = est\<lparr>es_sw := sws\<rparr>"
    using assms(1) by (auto simp: est_mark_faulty_def fault_eq split: if_splits)
  have w: "sw_ok est" using assms(2) est_sw_ok by (auto simp: est_inv_def)
  have "sw \<in> set (es_sw est)" using s(1) by (auto simp: agetz_eq_Some)
  then have "sw_ok est'"
    using w s(2,4) asetz_set [OF s(3)] s(3) by (force simp: sw_ok_def asetz_eq_Some)
  then show ?thesis using assms(2) s(4) by (intro keeps_marks) (auto simp: est_inv_def marks_ok_def)
next
  case False
  then show ?thesis using assms keeps_refl by (auto simp: est_mark_faulty_def)
qed

lemma crumb_scan_in:
  "crumb_scan cs i n m = Some r \<Longrightarrow> r = m \<or> (\<exists>c \<in> set cs. r = tc_train c)"
proof (induction cs i n m rule: crumb_scan.induct)
  case (2 cs i n m)
  then obtain c where c: "aget cs i = Some c" "tc_ts c \<noteq> 2147483647"
    "crumb_scan cs (i + 1) n (if tc_train c \<noteq> None \<and> tc_ts c < 2147483647 then tc_train c else m) = Some r"
    by (auto simp: Option.bind_eq_Some_conv)
  have "c \<in> set cs" using c(1) by (auto simp: aget_eq_Some)
  moreover have "r = (if tc_train c \<noteq> None \<and> tc_ts c < 2147483647 then tc_train c else m) \<or> (\<exists>c \<in> set cs. r = tc_train c)"
    using "2.IH" [OF c(1), of "()"] c(2,3) by simp
  ultimately show ?case by metis
qed simp

lemma recover_node_keeps:
  assumes "est_recover_train_from_node_crumbs t est node = Some (tr, est')" "est_inv t est"
  shows "keeps t est est' \<and> (\<forall>k. tr = Some k \<longrightarrow> k \<in> tracked est)"
proof -
  obtain n c0 m0 where 0: "node_at t node = Some n" "aget2 (es_crumb est) (n_id n, 0) = Some c0"
    "m0 = None \<or> (\<exists>c \<in> set (cr_crumb c0). m0 = tc_train c)"
    and 1: "if n_type n = NODE_BRANCH then \<exists>c1. aget2 (es_crumb est) (n_id n, 1) = Some c1 \<and>
        (tr = m0 \<or> (\<exists>c \<in> set (cr_crumb c1). tr = tc_train c)) else tr = m0"
    and m: "est_mark_faulty est n = Some est'"
    using assms(1) unfolding est_recover_train_from_node_crumbs_def
    by (elim bind_SomeE) (fastforce elim!: bind_SomeE split: if_splits dest!: crumb_scan_in)
  show ?thesis
    using mark_faulty_keeps [OF m assms(2)] 0(3) 1 inv_crumb [OF assms(2) 0(2)] inv_crumb [OF assms(2)]
    by (auto split: if_splits)
qed

lemma recover_keeps:
  assumes "est_recover_from_crumbs t est node = Some (tr, est')" "est_inv t est"
  shows "keeps t est est' \<and> (\<forall>k. tr = Some k \<longrightarrow> k \<in> tracked est)"
proof -
  let ?P = "\<lambda>t est a q res. est_inv t est \<longrightarrow> keeps t est (snd res) \<and> (\<forall>k. fst res = Some k \<longrightarrow> k \<in> tracked est)"
  have "?P t est a q res" if "est_recover_loop t est a q = Some res" for a q res
  proof (rule est_recover_loop.raw_induct [where P = ?P, OF _ that], intro impI, goal_cases)
    case (1 loop t est a q res)
    note IH = 1(1) and body = 1(2) and inv = 1(3)
    show ?case
    proof (cases "cb_size q = 0")
      case True
      then show ?thesis using body keeps_refl [OF inv] by auto
    next
      case False
      then obtain r x q1 where p: "cb_pop BFS_Q_SIZE q = Some (r, x, q1)" using body by (auto simp: Option.bind_eq_Some_conv)
      show ?thesis
      proof (cases "r = CB_E_NONE")
        case False
        then show ?thesis using body \<open>cb_size q \<noteq> 0\<close> p keeps_refl [OF inv] by auto
      next
        case True
        with body \<open>cb_size q \<noteq> 0\<close> p have "\<exists>p tr e1. est_recover_train_from_node_crumbs t est p = Some (tr, e1) \<and>
          (res = (tr, e1) \<or> res = (None, e1) \<or> (\<exists>a1 q1. loop t e1 a1 q1 = Some res))"
          by (auto elim!: bind_SomeE split: if_splits prod.splits) (blast | metis)+
        then obtain p tr e1 where c: "est_recover_train_from_node_crumbs t est p = Some (tr, e1)"
          and d: "res = (tr, e1) \<or> res = (None, e1) \<or> (\<exists>a1 q1. loop t e1 a1 q1 = Some res)" by blast
        note R = recover_node_keeps [OF c inv]
        then have R1: "keeps t est e1" by blast
        from d show ?thesis
          using R keeps_tracked [OF R1] keeps_trans [OF R1] IH [of t e1] keeps_inv [OF R1] by (cases res) auto

      qed
    qed
  qed
  then show ?thesis using assms by (fastforce simp: est_recover_from_crumbs_def Option.bind_eq_Some_conv)
qed

lemma node_at_bound:
  assumes "node_at t p = Some n" "wf_track t"
  obtains i where "p = Some i" "i < TRACK_MAX" "n = t ! i" "n_id n = int i"
  using assms wf_id [OF assms(2)] by (cases p) (auto simp: node_at_def aget_eq_Some)

text \<open>The first train of a list is a train that is tracked.\<close>

lemma first_tracked:
  assumes "est_ok t est" "i < TRACK_MAX" "d < 2" "cb_get NUM_TRAINS 0 (es_tr_at est ! i ! d) = Some (r, x)"
    "0 < sint (cb_size (es_tr_at est ! i ! d))"
  shows "\<exists>k. x = Some k \<and> k \<in> tracked est"
proof -
  let ?q = "es_tr_at est ! i ! d"
  have wf: "cb_wf NUM_TRAINS ?q" using shape_at(3) assms(1-3) by (auto simp: est_ok_def)
  have "cb_size ?q \<noteq> 0" using assms(5) by auto
  then have ne: "0 < length (cb_list NUM_TRAINS ?q)" by (simp add: unat_gt_0)
  have "cb_get NUM_TRAINS (int 0) ?q = Some (CB_E_NONE, Some (cb_list NUM_TRAINS ?q ! 0))"
    using cbx.get_nth [OF wf ne] .
  moreover have "cb_list NUM_TRAINS ?q ! 0 \<in> set (trains_at est i d)" using nth_mem [OF ne] unfolding trains_at_def .
  moreover have "set (trains_at est i d) \<subseteq> tracked est" using assms(1-3) by (auto simp: est_ok_def lists_ok_def)
  ultimately show ?thesis using assms(4) by auto
qed

lemma assoc_keeps:
  assumes "est_assoc_tr t est pe = Some (tr, est')" "est_inv t est" "wf_track t"
  shows "keeps t est est' \<and> (\<forall>k. tr = Some k \<longrightarrow> k \<in> tracked est)"
proof -
  have ok: "est_ok t est" using assms(2) by (simp add: est_inv_def)
  obtain n regs where n: "node_at t (pe_pos pe) = Some n" "agetz (es_sen_reg est) (n_id n) = Some regs"
    using assms(1) by (auto simp: est_assoc_tr_def Option.bind_eq_Some_conv)
  note body = assms(1) [unfolded est_assoc_tr_def n Let_def bind.bind_lunit]
  note R = inv_reg [OF assms(2) n(2)]
  show ?thesis
  proof (cases "0 < sint (cb_size regs)")
    case True
    then obtain r regs' rs where p: "cb_pop NUM_TRAINS regs = Some (r, tr, regs')"
      "asetz (es_sen_reg est) (n_id n) regs' = Some rs" "est' = est\<lparr>es_sen_reg := rs\<rparr>"
      using body n by (auto simp: Option.bind_eq_Some_conv)
    have ne: "cb_list NUM_TRAINS regs \<noteq> []" using True by (auto simp: cb_list_empty_iff)
    from cbq.pop_some [OF R(1) ne] p(1) have q: "tr = Some (hd (cb_list NUM_TRAINS regs))" "cb_wf NUM_TRAINS regs'"
      "cb_list NUM_TRAINS regs' = tl (cb_list NUM_TRAINS regs)" by auto
    have "set (cb_list NUM_TRAINS regs') \<subseteq> tracked est" using R(2) q(3) ne by (auto dest: list.set_sel(2))
    then show ?thesis
      using keeps_reg [OF assms(2) p(2) q(2)] p(3) q(1) R(2) ne hd_in_set by auto
  next
    case False
    then obtain prev pn dir q where d: "node_at t prev = Some pn" "dir = 0 \<or> dir = 1"
      "aget2 (es_tr_at est) (n_id pn, dir) = Some q"
      "if 0 < sint (cb_size q) then \<exists>r. cb_get NUM_TRAINS 0 q = Some (r, tr) \<and> est' = est
       else est_recover_from_crumbs t est (pe_pos pe) = Some (tr, est')"
      using body n by (force simp: Option.bind_eq_Some_conv split: if_splits)
    obtain i where i: "i < TRACK_MAX" "n_id pn = int i" using node_at_bound [OF d(1) assms(3)] by metis
    obtain e where e: "dir = int e" "e < 2" using d(2) by (auto intro: that [of 0] that [of 1])
    have "q = es_tr_at est ! i ! e" using d(3) i e shape_at(1) ok by (auto simp: est_ok_def)
    then show ?thesis
      using d(4) first_tracked [OF ok i(1) e(2)] recover_keeps [OF _ assms(2)] keeps_refl [OF assms(2)]
      by (auto split: if_splits)
  qed
qed

lemma clear_crumb_keeps:
  assumes "est_clear_crumb est k at = Some (r, est')" "est_inv t est"
  shows "keeps t est est'"
proof -
  obtain cr i c where c: "aget2 (es_crumb est) at = Some cr" "agetz (cr_crumb cr) i = Some c"
    "tc_train c = None \<and> est' = est \<or> (\<exists>cs crs. asetz (cr_crumb cr) i (c\<lparr>tc_train := None\<rparr>) = Some cs \<and>
       aset2 (es_crumb est) at \<lparr>cr_crumb = cs, cr_num = cr_num cr - 1\<rparr> = Some crs \<and> est' = est\<lparr>es_crumb := crs\<rparr>)"
    using assms(1) by (auto simp: est_clear_crumb_def Option.bind_eq_Some_conv split: if_splits)
  from c(3) show ?thesis
  proof (elim disjE exE conjE)
    fix cs crs assume s: "asetz (cr_crumb cr) i (c\<lparr>tc_train := None\<rparr>) = Some cs"
      "aset2 (es_crumb est) at \<lparr>cr_crumb = cs, cr_num = cr_num cr - 1\<rparr> = Some crs" "est' = est\<lparr>es_crumb := crs\<rparr>"
    have "k' \<in> tracked est" if "c' \<in> set cs" "tc_train c' = Some k'" for c' k'
      using asetz_set [OF s(1)] that inv_crumb [OF assms(2) c(1)] by auto
    then show ?thesis using keeps_crumb [OF assms(2) s(2)] s(3) by simp
  qed (use keeps_refl [OF assms(2)] in simp)
qed

lemma unregister_keeps:
  assumes "est_unregister est k n = Some est'" "est_inv t est"
  shows "keeps t est est'"
proof (cases "n_type n = NODE_SENSOR")
  case True
  then obtain q r q' rs where q: "agetz (es_sen_reg est) (n_num n) = Some q" "cb_rem NUM_TRAINS k q = Some (r, q')"
    "asetz (es_sen_reg est) (n_num n) q' = Some rs" "est' = est\<lparr>es_sen_reg := rs\<rparr>"
    using assms(1) by (auto simp: est_unregister_def Option.bind_eq_Some_conv)
  note R = inv_reg [OF assms(2) q(1)]
  show ?thesis using keeps_reg [OF assms(2) q(3)] rem_list [OF R(1) q(2)] R(2) q(4) by auto
qed (use assms keeps_refl in \<open>auto simp: est_unregister_def\<close>)

lemma register_keeps:
  assumes "est_register est k n = Some est'" "est_inv t est" "k \<in> tracked est"
  shows "keeps t est est'"
proof (cases "n_type n = NODE_SENSOR")
  case True
  then obtain q r q1 q2 rs where q: "agetz (es_sen_reg est) (n_num n) = Some q" "cb_rem NUM_TRAINS k q = Some (r, q1)"
    "cb_push NUM_TRAINS k q1 = Some (CB_E_NONE, q2)"
    "asetz (es_sen_reg est) (n_num n) q2 = Some rs" "est' = est\<lparr>es_sen_reg := rs\<rparr>"
    using assms(1) by (auto simp: est_register_def Option.bind_eq_Some_conv)
  note R = inv_reg [OF assms(2) q(1)]
  note R1 = rem_list [OF R(1) q(2)]
  have "set (cb_list NUM_TRAINS q2) \<subseteq> tracked est"
    using push_list(2) [OF R1(1) q(3)] R1(2) R(2) assms(3) by blast
  then show ?thesis using keeps_reg [OF assms(2) q(4) push_list(1) [OF R1(1) q(3)]] q(5) by simp
qed (use assms keeps_refl in \<open>auto simp: est_register_def\<close>)

lemma drop_crumb_keeps:
  assumes "est_drop_crumb est k ts at = Some est'" "est_inv t est" "k \<in> tracked est"
  shows "keeps t est est'"
proof -
  obtain cr i c where c: "aget2 (es_crumb est) at = Some cr" "agetz (cr_crumb cr) i = Some c"
    "est' = est \<or> (\<exists>cs crs. asetz (cr_crumb cr) i (c\<lparr>tc_train := Some k, tc_ts := ts + cr_num cr\<rparr>) = Some cs \<and>
       aset2 (es_crumb est) at \<lparr>cr_crumb = cs, cr_num = cr_num cr + 1\<rparr> = Some crs \<and> est' = est\<lparr>es_crumb := crs\<rparr>)"
    using assms(1) by (auto simp: est_drop_crumb_def Option.bind_eq_Some_conv split: if_splits)
  from c(3) show ?thesis
  proof (elim disjE exE conjE)
    fix cs crs assume s: "asetz (cr_crumb cr) i (c\<lparr>tc_train := Some k, tc_ts := ts + cr_num cr\<rparr>) = Some cs"
      "aset2 (es_crumb est) at \<lparr>cr_crumb = cs, cr_num = cr_num cr + 1\<rparr> = Some crs" "est' = est\<lparr>es_crumb := crs\<rparr>"
    have "k' \<in> tracked est" if "c' \<in> set cs" "tc_train c' = Some k'" for c' k'
      using asetz_set [OF s(1)] that inv_crumb [OF assms(2) c(1)] assms(3) by auto
    then show ?thesis using keeps_crumb [OF assms(2) s(2)] s(3) by simp
  qed (use keeps_refl [OF assms(2)] in simp)
qed

lemma cleanup_node_keeps:
  assumes "est_cleanup_node t est k node = Some (r, est')" "est_inv t est"
  shows "keeps t est est'"
proof -
  obtain n e1 r1 e2 where 1: "est_unregister est k n = Some e1" "est_clear_crumb e1 k (n_id n, 0) = Some (r1, e2)"
    "est' = e2 \<or> (\<exists>r'. est_clear_crumb e2 k (n_id n, 1) = Some (r', est'))"
    using assms(1) by (auto simp: est_cleanup_node_def Option.bind_eq_Some_conv split: if_splits)
  note k1 = unregister_keeps [OF 1(1) assms(2)]
  note k2 = keeps_trans [OF k1 clear_crumb_keeps [OF 1(2) keeps_inv [OF k1]]]
  show ?thesis using 1(3) k2 clear_crumb_keeps [OF _ keeps_inv [OF k2]] keeps_trans [OF k2] by blast
qed

lemma pass_nodes_keeps:
  "est_pass_nodes t k ts nodes i n est = Some est' \<Longrightarrow> est_inv t est \<Longrightarrow> k \<in> tracked est \<Longrightarrow> keeps t est est'"
proof (induction n arbitrary: i est)
  case (Suc n)
  then obtain nd e1 where 1: "est_pass_node t k ts nd est = Some e1" "est_pass_nodes t k ts nodes (i + 1) n e1 = Some est'"
    by (auto simp: Option.bind_eq_Some_conv)
  then obtain m e0 at where 0: "est_drop_crumb est k ts at = Some e0" "est_register e0 k m = Some e1"
    by (auto simp: est_pass_node_def Option.bind_eq_Some_conv)
  note k0 = drop_crumb_keeps [OF 0(1) Suc.prems(2,3)]
  note k1 = keeps_trans [OF k0 register_keeps [OF 0(2) keeps_inv [OF k0]]]
  show ?case
    using k1 Suc.IH [OF 1(2)] Suc.prems(3) keeps_inv keeps_trans keeps_tracked [OF k0] keeps_tracked by metis
qed (simp add: keeps_refl)

lemma cleanup_keeps:
  assumes "est_cleanup t est k node = Some (r, est')" "est_inv t est"
  shows "keeps t est est'"
proof -
  let ?P = "\<lambda>t est k q res. est_inv t est \<longrightarrow> keeps t est (snd res)"
  have "?P t est k q res" if "est_cleanup_loop t est k q = Some res" for q res
  proof (rule est_cleanup_loop.raw_induct [where P = ?P, OF _ that], intro impI, goal_cases)
    case (1 loop t est k q res)
    note IH = 1(1) and body = 1(2) and inv = 1(3)
    show ?case
    proof (cases "cb_size q = 0")
      case True
      then show ?thesis using body keeps_refl [OF inv] by auto
    next
      case False
      then obtain r x q1 where p: "cb_pop BFS_Q_SIZE q = Some (r, x, q1)" using body by (auto simp: Option.bind_eq_Some_conv)
      show ?thesis
      proof (cases "r = CB_E_NONE")
        case False
        then show ?thesis using body \<open>cb_size q \<noteq> 0\<close> p keeps_refl [OF inv] by auto
      next
        case True
        with body \<open>cb_size q \<noteq> 0\<close> p have "\<exists>p r' e1. est_cleanup_node t est k p = Some (r', e1) \<and>
          (snd res = e1 \<or> (\<exists>q1. loop t e1 k q1 = Some res))"
          by (auto elim!: bind_SomeE split: if_splits prod.splits) (blast | metis)+
        then obtain p r' e1 where c: "est_cleanup_node t est k p = Some (r', e1)"
          and d: "snd res = e1 \<or> (\<exists>q1. loop t e1 k q1 = Some res)" by blast
        note R = cleanup_node_keeps [OF c inv]
        from d show ?thesis using R keeps_trans [OF R] IH [of t e1] keeps_inv [OF R] by (cases res) auto
      qed
    qed
  qed
  then show ?thesis using assms by (fastforce simp: est_cleanup_def Option.bind_eq_Some_conv)
qed

section \<open>Moving keeps the invariant\<close>

lemma keeps_moved:
  assumes "est_inv t est" "est_ok t est'" "moved est k p est'"
  shows "keeps t est est'"
  using assms movedD [OF assms(3)] by (simp add: keeps_def est_inv_def marks_ok_def)

lemma tracked_on_edge:
  assumes "est_ok t est" "k \<in> tracked est" "wf_track t" "switches_ok t"
  obtains i d where "on_edge t est k i d"
proof -
  have "pos_ok t (pos est k)" using assms(1,2) by (auto simp: est_ok_def)
  then obtain i d where "i < TRACK_MAX" "d < 2" "on (pos est k) i d" by (rule pos_okE)
  then show ?thesis using assms that [of i d] by (simp add: on_edge_def)
qed

text \<open>A move of a train that is tracked, as its caller sees it.\<close>

lemma move_partial:
  assumes "est_move_train_forward t est k dist True past = Some (r, est', past')"
    and A: "on_edge t est k i d" and "0 \<le> dist" "cb_wf TN_LIST_SIZE past"
  shows "r = 0 \<and> est' = est \<and> past' = past \<and> n_type (t ! i) = NODE_EXIT \<or> move_ok t est k dist past (r, est', past')"
proof -
  note B = on_edgeD [OF A]
  have nd: "node_at t (pe_pos (pos est k)) = Some (t ! i)" "n_id (t ! i) = int i" "pe_dir (pos est k) = int d"
    using B(3,4,6) by (simp_all add: on_def node_at_pos wf_id)
  show ?thesis
    using assms(1) B(8) nd est_forward_loop_partial [OF _ A assms(3,4), of "pos est k"]
    by (auto simp: est_move_train_forward_def Let_def split: if_splits)
qed

lemma move_back:
  assumes "est_move_train_forward t est k dist True past = Some (r, est', past')" "dist < 0"
  shows "est' = est \<and> past' = past \<and> r \<le> 0"
  using assms by (subst (asm) est_move_train_forward_def, subst (asm) est_forward_loop.simps)
    (auto simp: Let_def elim!: bind_SomeE split: if_splits)

lemma move_keeps:
  assumes m: "est_move_train_forward t est k dist True past = Some (r, est', past')"
    and inv: "est_inv t est" "k \<in> tracked est" and t: "wf_track t" "switches_ok t" and p: "cb_wf TN_LIST_SIZE past"
  shows "keeps t est est' \<and> cb_wf TN_LIST_SIZE past'"
proof (cases "dist < 0")
  case True
  then show ?thesis using move_back [OF m] keeps_refl [OF inv(1)] p by simp
next
  case False
  have ok: "est_ok t est" using inv(1) by (simp add: est_inv_def)
  obtain i d where A: "on_edge t est k i d" using tracked_on_edge [OF ok inv(2) t] by blast
  from False have "0 \<le> dist" by simp
  from move_partial [OF m A this p] show ?thesis
  proof
    assume "move_ok t est k dist past (r, est', past')"
    then obtain p' where "cb_wf TN_LIST_SIZE past'" "est_ok t est'" "moved est k p' est'"
      by (auto simp: move_ok_def stopped_at_def)
    then show ?thesis using keeps_moved [OF inv(1)] by blast
  qed (use keeps_refl [OF inv(1)] p in simp)
qed

lemma tn_empty_wf: "cb_wf TN_LIST_SIZE tn_empty" "cb_list TN_LIST_SIZE tn_empty = []"
  using cb_init_wf [of _ "\<lparr>cb_buf = replicate TN_LIST_SIZE \<lparr>nd_node = None, nd_dir = 0\<rparr>, cb_start = 0, cb_end = 0, cb_size = 0\<rparr>"]
  by (auto simp: tn_empty_def)

section \<open>Updating the trains\<close>

text \<open>\<open>upd\<close> stands for the update of another train.\<close>

lemma others_keeps:
  assumes upd: "\<And>o' e e'. upd o' e = Some e' \<Longrightarrow> est_inv t e \<Longrightarrow> o' \<in> tracked e \<Longrightarrow> keeps t e e'"
    and q: "cb_wf NUM_TRAINS q" "set (cb_list NUM_TRAINS q) \<subseteq> tracked est"
  shows "est_update_others upd k q i n est = Some est' \<Longrightarrow> est_inv t est \<Longrightarrow> i + n \<le> length (cb_list NUM_TRAINS q) \<Longrightarrow>
    keeps t est est'"
  using q(2)
proof (induction n arbitrary: i est)
  case (Suc n)
  have i: "i < length (cb_list NUM_TRAINS q)" using Suc.prems(3) by simp
  define x where "x = cb_list NUM_TRAINS q ! i"
  have x: "cb_get NUM_TRAINS (int i) q = Some (CB_E_NONE, Some x)" "x \<in> tracked est"
    using cbx.get_nth [OF q(1) i] nth_mem [OF i] Suc.prems(4) by (auto simp: x_def)
  show ?case
  proof (cases "x = k")
    case True
    then show ?thesis using Suc.IH [of "i + 1" est] Suc.prems x(1) by simp
  next
    case False
    then obtain e1 where 1: "upd x est = Some e1" "est_update_others upd k q (i + 1) n e1 = Some est'"
      using Suc.prems(1) x(1) by (auto elim!: bind_SomeE)
    note K = upd [OF 1(1) Suc.prems(2) x(2)]
    show ?thesis
      using Suc.IH [OF 1(2) keeps_inv [OF K]] Suc.prems(3,4) keeps_tracked [OF K] keeps_trans [OF K] by simp
  qed
qed (simp add: keeps_refl)

lemma progress_keeps:
  assumes upd: "\<And>o' e e'. upd o' e = Some e' \<Longrightarrow> est_inv t e \<Longrightarrow> o' \<in> tracked e \<Longrightarrow> keeps t e e'"
    and p: "est_progress_train upd t est k dist ts = Some est'"
    and inv: "est_inv t est" "k \<in> tracked est" and t: "wf_track t" "switches_ok t"
  shows "keeps t est est'"
proof -
  obtain r e1 nodes where 1: "est_move_train_forward t est k dist True tn_empty = Some (r, e1, nodes)"
    using p by (auto simp: est_progress_train_def elim!: bind_SomeE)
  note body = p [unfolded est_progress_train_def 1 bind.bind_lunit prod.case]
  note K1 = move_keeps [OF 1 inv t tn_empty_wf(1), THEN conjunct1] 
    and W1 = move_keeps [OF 1 inv t tn_empty_wf(1), THEN conjunct2]
  note I1 = keeps_inv [OF K1] keeps_tracked [OF K1]
  consider "r = 0" | "r < 0" | "0 < r" by linarith
  then show ?thesis
  proof cases
    case 1
    then show ?thesis
      using body keeps_trans [OF K1] pass_nodes_keeps [of t k ts nodes 0 _ e1 est', OF _ I1(1)] I1(2) inv(2) by simp
  next
    case 2
    then show ?thesis using body K1 by (simp split: if_splits)
  next
    case 3
    have ok: "est_ok t e1" using I1(1) by (simp add: est_inv_def)
    have k1: "k \<in> tracked e1" using inv(2) I1(2) by simp
    obtain i d where A: "on_edge t e1 k i d" using tracked_on_edge [OF ok k1 t] by blast
    note B = on_edgeD [OF A]
    let ?q = "es_tr_at e1 ! i ! d"
    have nd: "node_at t (pe_pos (pos e1 k)) = Some (t ! i)" "n_id (t ! i) = int i" "pe_dir (pos e1 k) = int d"
      "aget2 (es_tr_at e1) (int i, int d) = Some ?q" "cb_wf NUM_TRAINS ?q"
      using B shape_at [of e1 i d] by (simp_all add: on_def node_at_pos wf_id est_ok_def)
    have l: "set (cb_list NUM_TRAINS ?q) \<subseteq> tracked e1"
      using ok B(4,5) by (auto simp: est_ok_def lists_ok_def trains_at_def)
    obtain e2 r3 e3 nodes3 where 2: "est_update_others upd k ?q 0 (nat (sint (cb_size ?q))) e1 = Some e2"
      "est_move_train_forward t e2 k r True nodes = Some (r3, e3, nodes3)"
      "est' = e3 \<or> est_pass_nodes t k ts nodes3 0 (nat (sint (cb_size nodes3))) e3 = Some est'"
      using body 3 B(8) nd by (auto elim!: bind_SomeE split: if_splits)
    have n: "0 + nat (sint (cb_size ?q)) \<le> length (cb_list NUM_TRAINS ?q)"
      using cb_wf_sint(2) [OF nd(5)] by simp
    have K2: "keeps t e1 e2" by (rule others_keeps [OF upd nd(5) l 2(1) I1(1) n])
    have k2: "k \<in> tracked e2" using k1 keeps_tracked [OF K2] by simp
    have K3: "keeps t e2 e3" using move_keeps [OF 2(2) keeps_inv [OF K2] k2 t W1] by blast
    note K = keeps_trans [OF K1 keeps_trans [OF K2 K3]]
    show ?thesis
      using 2(3) pass_nodes_keeps [OF _ keeps_inv [OF K3]] k2 keeps_tracked [OF K3] K keeps_trans [OF K] by auto
  qed
qed

lemma keeps_mod_pos:
  assumes "est_inv t est" "mod_pos k f est = Some est'" "\<And>p. same_place (f p) p"
  shows "keeps t est est'"
  by (rule keeps_mod_train [OF assms(1) assms(2) [unfolded mod_pos_def]]) (simp add: assms(3))

lemma update_train_keeps:
  assumes "est_update_train t ts k est = Some est'" "est_inv t est" "k \<in> tracked est" and t: "wf_track t" "switches_ok t"
  shows "keeps t est est'"
proof -
  let ?P = "\<lambda>t' ts k est est'. t' = t \<longrightarrow> est_inv t est \<longrightarrow> k \<in> tracked est \<longrightarrow> keeps t est est'"
  have "?P t ts k est est'"
  proof (rule est_update_train.raw_induct [where P = ?P, OF _ assms(1)], intro impI, goal_cases)
    case (1 loop t' ts k est est')
    note IH = 1(1) and body = 1(2) and inv = 1(4,5)
    have upd: "keeps t e e'" if "loop t ts o' e = Some e'" "est_inv t e" "o' \<in> tracked e" for o' e e'
      using IH [OF that(1)] that(2,3) by simp
    obtain e2 where 2: "keeps t est e2" "mod_pos k (\<lambda>p. p\<lparr>pe_ts := ts\<rparr>) e2 = Some est'"
    proof (cases "0 < ts - pe_ts (pos est k)")
      case True
      then obtain d snap e1 e2 where "mod_train k (\<lambda>tr. tr\<lparr>tr_snapshot := snap\<rparr>) est = Some e1"
        "est_progress_train (loop t ts) t e1 k (c_div d 1000) ts = Some e2" "mod_pos k (\<lambda>p. p\<lparr>pe_ts := ts\<rparr>) e2 = Some est'"
        using body 1(3) by (auto elim!: bind_SomeE simp: aget_eq_Some)
      note d = this
      have K: "keeps t est e1" by (rule keeps_mod_train [OF inv(1) d(1)]) simp
      have "keeps t e1 e2"
        by (rule progress_keeps [OF upd d(2) keeps_inv [OF K] _ t]) (use inv(2) keeps_tracked [OF K] in simp_all)
      then show ?thesis using that [OF keeps_trans [OF K] d(3)] by blast
    next
      case False
      then show ?thesis using that [of est] body keeps_refl [OF inv(1)] by (auto elim!: bind_SomeE simp: aget_eq_Some)
    qed
    show ?case
      using keeps_trans [OF 2(1)] keeps_mod_pos [OF keeps_inv [OF 2(1)] 2(2)] by (simp add: same_place_def)
  qed
  then show ?thesis using assms(2,3) by blast
qed

lemma update_loop_keeps:
  assumes t: "wf_track t" "switches_ok t"
  shows "est_update_loop t ts k n est = Some est' \<Longrightarrow> est_inv t est \<Longrightarrow> k + n \<le> nat (es_ntrains est) \<Longrightarrow> keeps t est est'"
proof (induction n arbitrary: k est)
  case (Suc n)
  have k: "k \<in> tracked est" using Suc.prems(3) by simp
  have "\<exists>e1. (e1 = est \<or> est_update_train t ts k est = Some e1) \<and> est_update_loop t ts (k + 1) n e1 = Some est'"
    using Suc.prems(1) by (auto elim!: bind_SomeE split: if_splits)
  then obtain e1 where 1: "e1 = est \<or> est_update_train t ts k est = Some e1" "est_update_loop t ts (k + 1) n e1 = Some est'"
    by blast
  have K: "keeps t est e1"
    using 1(1) keeps_refl [OF Suc.prems(2)] update_train_keeps [OF _ Suc.prems(2) _ t] k by blast
  have "k + 1 + n \<le> nat (es_ntrains e1)" using Suc.prems(3) K by (simp add: keeps_def)
  from Suc.IH [OF 1(2) keeps_inv [OF K] this] show ?case by (rule keeps_trans [OF K])
qed (simp add: keeps_refl)

lemma update_keeps:
  assumes "est_update t est ts = Some (r, est')" "est_inv t est" and t: "wf_track t" "switches_ok t"
  shows "keeps t est est'"
proof -
  obtain e1 where 1: "est_update_loop t ts 0 (nat (es_ntrains est)) est = Some e1" "est' = e1\<lparr>es_last_ts := ts\<rparr>"
    using assms(1) by (auto simp: est_update_def elim!: bind_SomeE)
  have K: "keeps t est e1" using update_loop_keeps [OF t 1(1) assms(2)] by simp
  have "keeps t e1 est'"
  proof (rule keeps_marks [OF keeps_inv [OF K]])
    show "sw_ok est'" "marks_ok est'"
      using keeps_inv [OF K] est_sw_ok [of t e1] by (simp_all add: 1(2) est_inv_def sw_ok_def marks_ok_def)
  qed (simp_all add: 1(2))
  then show ?thesis using keeps_trans [OF K] by blast
qed

lemma correct_speed_keeps:
  assumes "est_correct_speed t est k pe = Some est'" "est_inv t est"
  shows "keeps t est est'"
  using assms(1) unfolding est_correct_speed_def
proof (elim bind_SomeE, goal_cases)
  case (1 tr e1)
  have "e1 = est \<or> (\<exists>snap. mod_train k (\<lambda>tr. tr\<lparr>tr_snapshot := snap\<rparr>) est = Some e1)"
    using 1(2) by (auto elim!: bind_SomeE split: if_splits)
  then have K: "keeps t est e1" using keeps_refl [OF assms(2)] keeps_mod_train [OF assms(2)] by fastforce
  show ?case by (rule keeps_trans [OF K], rule keeps_mod_train [OF keeps_inv [OF K] 1(3)]) simp
qed

lemma place_keeps:
  assumes "est_move_train_to_node_unsafe t est k dest = Some (r, est')" "est_inv t est" "k \<in> tracked est"
    and t: "wf_track t" and n: "node_at t dest = Some n" "n_type n \<noteq> NODE_NONE"
  shows "keeps t est est'"
proof -
  obtain j where j: "dest = Some j" "j < TRACK_MAX" "n = t ! j" using node_at_bound [OF n(1) t] by metis
  have ok: "est_ok t est" using assms(2) by (simp add: est_inv_def)
  have ty: "n_type (t ! j) \<noteq> NODE_NONE" using n(2) j(3) by simp
  obtain p where "est_ok t est'" "moved est k p est'"
    using est_place_ok [OF t ok assms(3) j(2) ty] assms(1) j(1) by auto
  then show ?thesis using keeps_moved [OF assms(2)] by blast
qed

section \<open>Events keep the invariant\<close>

lemma update_tr_at_keeps:
  assumes "est_update_tr_at t est pe = Some (r, est')" "est_inv t est" and t: "wf_track t" "switches_ok t"
  shows "keeps t est est'"
proof -
  obtain r1 e1 trn e2 where 1: "est_update t est (pe_ts pe) = Some (r1, e1)" "est_assoc_tr t e1 pe = Some (trn, e2)"
    using assms(1) by (auto simp: est_update_tr_at_def elim!: bind_SomeE)
  note K1 = update_keeps [OF 1(1) assms(2) t]
  have K2: "keeps t est e2" and k: "\<forall>k. trn = Some k \<longrightarrow> k \<in> tracked e1"
    using assoc_keeps [OF 1(2) keeps_inv [OF K1] t(1)] keeps_trans [OF K1] by blast+
  show ?thesis
  proof (cases trn)
    case None
    then show ?thesis using assms(1) 1 K2 by (auto simp: est_update_tr_at_def elim!: bind_SomeE)
  next
    case (Some k)
    obtain n where n: "node_at t (pe_pos pe) = Some n" "n_type n = NODE_SENSOR"
      using 1(2) by (auto simp: est_assoc_tr_def elim!: bind_SomeE)
    obtain rel :: int and e3 node r4 e4 r5 e5 where 2: "(if rel = 2147483647 then Some e2 else est_correct_speed t e2 k pe) = Some e3"
      "est_cleanup t e3 k node = Some (r4, e4)" "est_move_train_to_node_unsafe t e4 k (pe_pos pe) = Some (r5, e5)"
      "est_update_train t (pe_ts pe) k e5 = Some est'"
      using assms(1) 1 Some by (auto simp: est_update_tr_at_def Let_def elim!: bind_SomeE)
    have K3: "keeps t est e3" using 2(1) K2 correct_speed_keeps [OF _ keeps_inv [OF K2]] keeps_trans [OF K2] by (auto split: if_splits)
    note K4 = keeps_trans [OF K3 cleanup_keeps [OF 2(2) keeps_inv [OF K3]]]
    have k4: "k \<in> tracked e4" using k Some keeps_tracked [OF K4] keeps_tracked [OF K1] by simp
    have "keeps t e4 e5" by (rule place_keeps [OF 2(3) keeps_inv [OF K4] k4 t(1) n(1)]) (simp add: n(2))
    note K5 = keeps_trans [OF K4 this]
    have "k \<in> tracked e5" using k4 keeps_tracked [OF K4] keeps_tracked [OF K5] by simp
    from update_train_keeps [OF 2(4) keeps_inv [OF K5] this t] show ?thesis by (rule keeps_trans [OF K5])
  qed
qed

lemma update_tr_gear_keeps:
  assumes "est_update_tr_gear t est num gear ts = Some (r, est')" "est_inv t est" and t: "wf_track t" "switches_ok t"
  shows "keeps t est est'"
proof -
  have "\<exists>r1 e1. est_update t est ts = Some (r1, e1) \<and>
    (est' = e1 \<or> (\<exists>i snap. mod_train (nat i) (\<lambda>tr. tr\<lparr>tr_snapshot := snap\<rparr>) e1 = Some est'))"
    using assms(1) by (auto simp: est_update_tr_gear_def Let_def elim!: bind_SomeE split: if_splits)
  then obtain r1 e1 where 1: "est_update t est ts = Some (r1, e1)"
    "est' = e1 \<or> (\<exists>i snap. mod_train (nat i) (\<lambda>tr. tr\<lparr>tr_snapshot := snap\<rparr>) e1 = Some est')" by blast
  note K = update_keeps [OF 1(1) assms(2) t]
  show ?thesis using 1(2) K keeps_trans [OF K] keeps_mod_train [OF keeps_inv [OF K]] by fastforce
qed

lemma update_sw_keeps:
  assumes "est_update_sw t est sw_num state ts = Some (r, est')" "est_inv t est" and t: "wf_track t" "switches_ok t"
  shows "keeps t est est'"
proof -
  obtain sw e1 where 1: "state = 0 \<or> state = 1" "agetz (es_sw est) sw_num = Some sw"
    "(if 50 \<le> swi_conf sw then do {
        sws \<leftarrow> asetz (es_sw est) sw_num (sw\<lparr>swi_state := state\<rparr>); Some (est\<lparr>es_sw := sws\<rparr>) }
      else Some est) = Some e1"
    "est_update t e1 ts = Some (r, est')"
    using assms(1) unfolding est_update_sw_def by (elim bind_SomeE) simp
  have w: "sw_ok est" using assms(2) est_sw_ok by (auto simp: est_inv_def)
  have sw: "sw \<in> set (es_sw est)" using 1(2) by (auto simp: agetz_eq_Some)
  have K: "keeps t est e1"
  proof (cases "e1 = est")
    case False
    then obtain sws where s: "asetz (es_sw est) sw_num (sw\<lparr>swi_state := state\<rparr>) = Some sws" "e1 = est\<lparr>es_sw := sws\<rparr>"
      using 1(3) by (auto elim!: bind_SomeE split: if_splits)
    have "sw_ok e1" using w sw 1(1) s(2) asetz_set [OF s(1)] s(1) by (fastforce simp: sw_ok_def asetz_eq_Some)
    then show ?thesis using assms(2) s(2) by (intro keeps_marks) (auto simp: est_inv_def marks_ok_def)
  qed (simp add: keeps_refl assms(2))
  show ?thesis using keeps_trans [OF K update_keeps [OF 1(4) keeps_inv [OF K] t]] .
qed

end
