(* ===== verification/EstimatorTheorems.thy ===== *)
theory EstimatorTheorems
  imports EstimatorKeeps
begin

text \<open>
  The properties of the estimator: the invariant over all sequences of events, what a forced move does,
  and the assertion that a move can fail.
\<close>

section \<open>The estimator over time\<close>

text \<open>What the events need: the arrays have their sizes; a train that is added has a model and stands on the track.\<close>

definition memory_ok :: "estimator \<Rightarrow> bool" where
  "memory_ok est \<longleftrightarrow> (\<forall>row \<in> set (es_tr_at est). \<forall>q \<in> set row. length (cb_buf q) = NUM_TRAINS) \<and>
     (\<forall>q \<in> set (es_sen_reg est). length (cb_buf q) = NUM_TRAINS)"

inductive est_run :: "track \<Rightarrow> estimator \<Rightarrow> bool" for t where
  init: "memory_ok est0 \<Longrightarrow> est_init est0 = Some est \<Longrightarrow> est_run t est"
| add: "est_run t est \<Longrightarrow> es_ntrains est < int NUM_TRAINS \<Longrightarrow> modelled_train num \<Longrightarrow> pos_ok t (pe\<lparr>pe_dir := 0\<rparr>) \<Longrightarrow>
    0 \<le> pe_ts pe \<Longrightarrow> est_add_tr t est num pe = Some (r, est') \<Longrightarrow> est_run t est'"
| tick: "est_run t est \<Longrightarrow> est_update t est ts = Some (r, est') \<Longrightarrow> est_run t est'"
| hit: "est_run t est \<Longrightarrow> est_update_tr_at t est pe = Some (r, est') \<Longrightarrow> est_run t est'"
| gear: "est_run t est \<Longrightarrow> est_update_tr_gear t est num g ts = Some (r, est') \<Longrightarrow> est_run t est'"
| switch: "est_run t est \<Longrightarrow> est_update_sw t est sw state ts = Some (r, est') \<Longrightarrow> est_run t est'"

lemma init_inv:
  assumes "memory_ok est0" "est_init est0 = Some est"
  shows "est_inv t est"
proof -
  have "est_ok t est" using est_init_ok [OF assms(2)] assms(1) by (simp add: memory_ok_def)
  moreover have "cb_wf NUM_TRAINS q \<and> cb_list NUM_TRAINS q = []" if "q \<in> set (es_sen_reg est)" for q
    using assms that by (auto simp: est_init_def memory_ok_def intro!: cb_init_wf)
  moreover have "tc_train c = None" if "row \<in> set (es_crumb est)" "cr \<in> set row" "c \<in> set (cr_crumb cr)" for row cr c
    using assms(2) that by (auto simp: est_init_def no_crumbs_def)
  ultimately show ?thesis by (fastforce simp: est_inv_def marks_ok_def)
qed

lemma add_inv:
  assumes "est_inv t est" "wf_track t" "es_ntrains est < int NUM_TRAINS" "modelled_train num" "pos_ok t (pe\<lparr>pe_dir := 0\<rparr>)"
    "0 \<le> pe_ts pe" "est_add_tr t est num pe = Some (r, est')"
  shows "est_inv t est'"
proof -
  have ok: "est_ok t est" using assms(1) by (simp add: est_inv_def)
  have "est_ok t est'" "es_ntrains est' = es_ntrains est + 1"
    using est_add_ok [OF ok assms(3-6,2)] assms(7) by auto
  moreover have "es_sen_reg est' = es_sen_reg est" "es_crumb est' = es_crumb est"
    using assms(7) by (auto simp: est_add_tr_def put_at_def mod_train_def Let_def elim!: bind_SomeE split: if_splits)
  ultimately show ?thesis using assms(1) by (fastforce simp: est_inv_def marks_ok_def)
qed

lemma est_run_inv: "est_run t est \<Longrightarrow> wf_track t \<Longrightarrow> switches_ok t \<Longrightarrow> est_inv t est"
proof (induction rule: est_run.induct)
  case (init est0 est)
  then show ?case using init_inv by blast
next
  case (add est num pe r est')
  then show ?case using add_inv [of t est] by blast
qed (auto dest: update_keeps update_tr_at_keeps update_tr_gear_keeps update_sw_keeps intro: keeps_inv)

lemma in_one_list:
  assumes "est_ok t est" "k \<in> tracked est"
  shows "\<exists>!at. fst at < TRACK_MAX \<and> snd at < 2 \<and> k \<in> set (trains_at est (fst at) (snd at))"
proof -
  have "pos_ok t (pos est k)" using assms by (auto simp: est_ok_def)
  then obtain i d where p: "i < TRACK_MAX" "d < 2" "on (pos est k) i d" by (rule pos_okE)
  have l: "k \<in> set (trains_at est i' d') \<longleftrightarrow> i' = i \<and> d' = d" if "i' < TRACK_MAX" "d' < 2" for i' d'
    using assms that on_unique [OF p(3)] by (auto simp: est_ok_def lists_ok_def)
  show ?thesis by (rule ex1I [of _ "(i, d)"]) (use p(1,2) l in \<open>auto simp: prod_eq_iff\<close>)
qed

section \<open>A concrete estimator\<close>

definition blank_pos :: pos_event where
  "blank_pos = \<lparr>pe_pos = None, pe_dir = 0, pe_off = 0, pe_ts = 0\<rparr>"

definition blank_train :: train where
  "blank_train = \<lparr>tr_num = 0, tr_len = 0, tr_next_pos = blank_pos, tr_curr_pos = blank_pos, tr_next_sen = None,
     tr_last_sen = None, tr_snapshot = \<lparr>sn_cur_gear = 0, sn_start_gear = 0, sn_end_gear = 0, sn_duration = 0,
       sn_elapsed = 0, sn_last_sen_ts = 0, sn_model = TR_77_VELO\<rparr>\<rparr>"

definition blank_list :: "nat cbuf" where
  "blank_list = \<lparr>cb_buf = replicate NUM_TRAINS 0, cb_start = 0, cb_end = 0, cb_size = 0\<rparr>"

definition blank_estimator :: estimator where
  "blank_estimator = \<lparr>es_train = replicate NUM_TRAINS blank_train, es_sw = [],
     es_sen_reg = replicate SENSOR_SIZE blank_list, es_tr_at = replicate TRACK_MAX (replicate 2 blank_list),
     es_tmap = [], es_crumb = [], es_ntrains = 0, es_last_ts = 0\<rparr>"

text \<open>Two trains on the edge of track A that leaves sensor A1, as \<^verbatim>\<open>est_init_trains\<close> puts them there.\<close>

lemma A1_pos: "pe_pos p = Some 0 \<Longrightarrow> pe_dir p = 0 \<Longrightarrow> 0 \<le> pe_off p \<Longrightarrow> pe_off p \<le> 231 \<Longrightarrow> pos_ok tracka_nodes p"
  by (intro pos_okI [of p 0 0]) (simp_all add: on_def tracka_at n_edges_def)

lemma two_trains:
  assumes "0 \<le> a" "a \<le> 231"
  shows "\<exists>est. est_run tracka_nodes est \<and> est_ok tracka_nodes est \<and> tracked est = {0, 1} \<and>
    pe_pos (pos est 0) = Some 0 \<and> pe_dir (pos est 0) = 0 \<and> pe_off (pos est 0) = a \<and>
    pe_pos (pos est 1) = Some 0 \<and> pe_dir (pos est 1) = 0 \<and> pe_off (pos est 1) = 0"
proof -
  let ?pe = "\<lambda>off. \<lparr>pe_pos = Some 0, pe_dir = 0, pe_off = off, pe_ts = 0\<rparr>"
  have m: "memory_ok blank_estimator" by (simp add: memory_ok_def blank_estimator_def blank_list_def)
  obtain e0 where e0: "est_init blank_estimator = Some e0" "es_ntrains e0 = 0"
    by (simp add: est_init_def blank_estimator_def list_all_iff)
  note r0 = est_run.init [OF m e0(1)]
  have ok0: "est_ok tracka_nodes e0" using init_inv [OF m e0(1)] by (simp add: est_inv_def)
  have p: "pos_ok tracka_nodes ((?pe a)\<lparr>pe_dir := 0\<rparr>)" "pos_ok tracka_nodes ((?pe 0)\<lparr>pe_dir := 0\<rparr>)"
    using assms by (auto intro: A1_pos)
  have t: "0 \<le> pe_ts (?pe x)" for x by simp
  have n0: "es_ntrains e0 < int NUM_TRAINS" and m1: "modelled_train 77" "modelled_train 78"
    using e0(2) by (simp_all add: modelled_train_def)
  obtain e1 where e1: "est_add_tr tracka_nodes e0 77 (?pe a) = Some (0, e1)" "est_ok tracka_nodes e1" "es_ntrains e1 = 1"
    "pos e1 0 = ?pe a" using est_add_ok [OF ok0 n0 m1(1) p(1) t wf_tracka] e0(2) by auto
  note r1 = est_run.add [OF r0 n0 m1(1) p(1) t e1(1)]
  have n1: "es_ntrains e1 < int NUM_TRAINS" using e1(3) by simp
  obtain e2 where e2: "est_add_tr tracka_nodes e1 78 (?pe 0) = Some (0, e2)" "est_ok tracka_nodes e2" "es_ntrains e2 = 2"
    "pos e2 1 = ?pe 0" "pos e2 0 = ?pe a"
    using est_add_ok [OF e1(2) n1 m1(2) p(2) t wf_tracka] e1(3,4) by auto
  note r2 = est_run.add [OF r1 n1 m1(2) p(2) t e2(1)]
  have "tracked e2 = {0, 1}" using e2(3) by auto
  with r2 e2(2,4,5) show ?thesis by (intro exI [of _ e2]) simp
qed

section \<open>The properties\<close>

text \<open>Whatever sequence of events the estimator is given (trains added, ticks of the clock, sensor hits, gear and
  switch changes), its data agree after each: the list of an edge holds exactly the trains whose position is on
  that edge, each once and the farthest first, so that each train is in exactly one list; every position is on the
  track; and the registrations at sensors and the crumbs name trains that the estimator knows.\<close>

theorem est_run_lists:
  assumes "est_run t est" "wf_track t" "switches_ok t"
  shows "est_ok t est \<and> marks_ok est \<and>
    (\<forall>k \<in> tracked est. \<exists>!at. fst at < TRACK_MAX \<and> snd at < 2 \<and> k \<in> set (trains_at est (fst at) (snd at)))"
proof -
  have "est_ok t est" "marks_ok est" using est_run_inv [OF assms] by (simp_all add: est_inv_def)
  then show ?thesis using in_one_list by blast
qed

lemma est_run_lists_witness:
  "\<exists>est. est_run tracka_nodes est \<and> tracked est = {0, 1} \<and> est_ok tracka_nodes est \<and> marks_ok est \<and>
    (\<forall>k \<in> tracked est. \<exists>!at. fst at < TRACK_MAX \<and> snd at < 2 \<and> k \<in> set (trains_at est (fst at) (snd at)))"
proof -
  have b: "(0::int) \<le> 5" "(5::int) \<le> 231" by simp_all
  from two_trains [OF b] obtain est where e: "est_run tracka_nodes est" "tracked est = {0, 1}" by blast
  then show ?thesis using est_run_lists [OF e(1) wf_tracka tracka_switches] by (intro exI [of _ est]) blast
qed

text \<open>C14: A forced move of a train over a distance returns (when the list of passed nodes has room for the nodes in
  reach, the train is not at an exit and no other train is 1 mm after a node), keeps the data of the estimator in
  agreement, and changes only that train's position: the train has driven the distance less what is returned, along
  the edges that the switches are believed to select, past no other train and onto no occupied node, the nodes it
  has passed being those of the list, in order; and when something is returned the train is obstructed: by the end
  of the track, by a train 1 mm ahead or by one on the next node.\<close>

theorem est_move_forced:
  assumes "wf_track t" "switches_ok t" "est_ok t est" "k \<in> tracked est" "pe_pos (pos est k) = Some i"
    "n_type (t ! i) \<noteq> NODE_EXIT" "0 \<le> dist" "\<forall>x \<in> tracked est - {k}. pe_off (pos est x) \<noteq> 1"
    "within_nodes t i (pe_off (pos est k) + dist) TN_LIST_SIZE"
  shows "\<exists>r est' past p'. est_move_train_forward t est k dist True tn_empty = Some (r, est', past) \<and>
    est_ok t est' \<and> moved est k p' est' \<and> 0 \<le> r \<and> r \<le> dist \<and>
    drive t est k (pos est k) (cb_list TN_LIST_SIZE past) (dist - r) p' \<and> (0 < r \<longrightarrow> obstructed t est k p')"
proof -
  obtain j d where A: "on_edge t est k j d" using tracked_on_edge [OF assms(3,4,1,2)] .
  note B = on_edgeD [OF A]
  have j: "j = i" using B(3) assms(5) by (simp add: on_def)
  have "length (cb_list TN_LIST_SIZE tn_empty) + TN_LIST_SIZE \<le> TN_LIST_SIZE" by (simp only: tn_empty_wf(2)) simp
  from est_forward_loop_returns [OF A assms(7) tn_empty_wf(1) assms(8) _ this] assms(9) j
  obtain res where res: "est_forward_loop t (pos est k) k True ((int i, int d), est, dist, tn_empty) = Some res"
    by blast
  obtain r est' past where r: "res = (r, est', past)" by (cases res)
  have "est_move_train_forward t est k dist True tn_empty = Some (r, est', past)"
    using res r B(3,4,5,6,8) assms(5,6) j
    by (auto simp: est_move_train_forward_def on_def node_at_pos wf_id less_2_cases_iff)
  then show ?thesis
    using est_forward_loop_partial [OF res [unfolded r] A [unfolded j] assms(7) tn_empty_wf(1)] tn_empty_wf(2)
    by (auto simp: move_ok_def stopped_at_def)
qed

lemma A1_within: "x < 231 \<Longrightarrow> within_nodes tracka_nodes 0 x n"
  unfolding within_nodes_def
proof (intro allI impI)
  fix m s j assume w: "walk tracka_nodes 0 m s j" "s \<le> x" and x: "x < 231"
  have e: "s' = 231" if "exits tracka_nodes 0 d s' j'" for d s' j'
    using that by (auto simp: exits_def tracka_at n_edges_def split: if_splits)
  show "m \<le> n"
  proof (cases m)
    case (Suc m')
    then obtain d s1 j' s2 where "exits tracka_nodes 0 d s1 j'" "walk tracka_nodes j' m' s2 j" "s = s1 + s2"
      using w(1) walk_SucD by blast
    then show ?thesis using e walk_nonneg [OF _ wf_tracka] w(2) x by force
  qed simp
qed

lemma est_move_forced_witness:
  "\<exists>est r est' past p'. est_run tracka_nodes est \<and> tracked est = {0, 1} \<and>
    est_move_train_forward tracka_nodes est 1 100 True tn_empty = Some (r, est', past) \<and>
    est_ok tracka_nodes est' \<and> moved est 1 p' est' \<and> 0 \<le> r \<and> r \<le> 100 \<and>
    drive tracka_nodes est 1 (pos est 1) (cb_list TN_LIST_SIZE past) (100 - r) p' \<and>
    (0 < r \<longrightarrow> obstructed tracka_nodes est 1 p')"
proof -
  have b: "(0::int) \<le> 5" "(5::int) \<le> 231" by simp_all
  from two_trains [OF b] obtain est where e: "est_run tracka_nodes est" "tracked est = {0, 1}"
    "est_ok tracka_nodes est" "pe_off (pos est 0) = 5" "pe_pos (pos est 1) = Some 0" "pe_off (pos est 1) = 0" by blast
  have ty: "n_type (tracka_nodes ! 0) \<noteq> NODE_EXIT" by (simp add: tracka_at)
  have k: "1 \<in> tracked est" using e(2) by simp
  have x: "\<forall>x \<in> tracked est - {1}. pe_off (pos est x) \<noteq> 1" unfolding e(2) using e(4) by auto
  have w: "within_nodes tracka_nodes 0 (pe_off (pos est 1) + 100) TN_LIST_SIZE" using e(6) A1_within by simp
  show ?thesis
    using est_move_forced [OF wf_tracka tracka_switches e(3) k e(5) ty _ x w] e(1,2) by (intro exI [of _ est]) simp
qed

text \<open>A forced move fails its own assertion \<^verbatim>\<open>off > 0\<close> when the train is on a node and the train in its way is
  1 mm after the node.\<close>

theorem est_move_asserts:
  assumes "wf_track t" "switches_ok t" "est_ok t est" "k \<in> tracked est" "on (pos est k) i d"
    "n_type (t ! i) \<noteq> NODE_EXIT" "pe_off (pos est k) = 0" "0 < dist"
    and x: "x \<in> tracked est" "on (pos est x) i d" "pe_off (pos est x) = 1"
  shows "est_move_train_forward t est k dist True past = None"
proof -
  obtain i' d' where A': "on_edge t est k i' d'" using tracked_on_edge [OF assms(3,4,1,2)] .
  then have A: "on_edge t est k i d" using on_unique [OF on_edgeD(3) [OF A']] assms(5) by simp
  note B = on_edgeD [OF A]
  have xk: "x \<noteq> k" using x(3) assms(7) by auto
  let ?q = "es_tr_at est ! i ! d"
  have Q: "aget2 (es_tr_at est) (int i, int d) = Some ?q" using shape_at(1) B(1,4,5) by (auto simp: est_ok_def)
  obtain b where b: "est_blocker (es_train est) k dist ?q (nat (sint (cb_size ?q))) = Some b"
    "case b of None \<Rightarrow> clear_ahead est k (pos est k) dist
     | Some y \<Rightarrow> y \<in> tracked est - {k} \<and> on (pos est y) i d \<and> pe_off (pos est k) < pe_off (pos est y) \<and>
         pe_off (pos est y) \<le> pe_off (pos est k) + dist \<and>
         clear_ahead est k (pos est k) (pe_off (pos est y) - 1 - pe_off (pos est k))"
    using blocker_ok [OF B(1-5), of dist] by blast
  have near: "\<not> clear_ahead est k (pos est k) y" if "0 < y" for y
    using x xk B(3) assms(7) that by (auto simp: clear_ahead_def on_def intro!: bexI [of _ x])
  then obtain y where y: "b = Some y" "pe_off (pos est y) = 1"
    using b(2) assms(7,8) by (cases b) force+
  have "es_train e1 = es_train est" if "take_from at' k est = Some e1" for e1 at'
    using that by (auto simp: take_from_def elim!: bind_SomeE)
  then have "est_blocked t orig k True y est dist = None" for orig
    using y(2) by (auto simp: est_blocked_def bind_eq_None_conv Let_def aget_eq_Some)
  then have "est_turn t orig k True ((int i, int d), est, dist, past) = None" for orig
    using Q b(1) y(1) by (simp add: est_turn_def)
  then show ?thesis
    using B(3,4,5,6,8) assms(6,8)
    by (subst est_move_train_forward_def, subst est_forward_loop.simps)
      (auto simp: on_def node_at_pos wf_id less_2_cases_iff Let_def)
qed

lemma est_move_asserts_witness:
  "\<exists>est. est_run tracka_nodes est \<and> est_move_train_forward tracka_nodes est 1 10 True tn_empty = None"
proof -
  have b: "(0::int) \<le> 1" "(1::int) \<le> 231" by simp_all
  from two_trains [OF b] obtain est where e: "est_run tracka_nodes est" "tracked est = {0, 1}" "est_ok tracka_nodes est"
    "on (pos est 0) 0 0" "pe_off (pos est 0) = 1" "on (pos est 1) 0 0" "pe_off (pos est 1) = 0" by (auto simp: on_def)
  have ty: "n_type (tracka_nodes ! 0) \<noteq> NODE_EXIT" by (simp add: tracka_at)
  have k: "1 \<in> tracked est" "0 \<in> tracked est" using e(2) by simp_all
  show ?thesis
    using est_move_asserts [OF wf_tracka tracka_switches e(3) k(1) e(6) ty e(7) _ k(2) e(4,5)] e(1)
    by (intro exI [of _ est]) simp
qed

end
