(* ===== verification/Parse.thy ===== *)
theory Parse
  imports BufferPack
begin

text \<open>
  The parsers of the command line: src/lib/parse.c and src/lib/parse_args.c. A \<^verbatim>\<open>char *\<close> is a position in
  the list of bytes it points into, and reading past the list is a fault; what a parser writes through
  a pointer is part of its result. \<^verbatim>\<open>int\<close> arithmetic is checked against 32 bits. The characters are
  the space (32), the minus (45), the percent sign (37) and the digits (48 to 57).
\<close>

section \<open>Numbers, words, letters\<close>

definition is_digit :: "u8 \<Rightarrow> bool" where
  "is_digit c \<longleftrightarrow> c \<le> 57 \<and> 48 \<le> c"

fun mypow_loop :: "int \<Rightarrow> nat \<Rightarrow> int \<Rightarrow> int option" where
  "mypow_loop x 0 r = Some r"
| "mypow_loop x (Suc y) r = do { r \<leftarrow> i32 (r * x); mypow_loop x y r }"

(* src/src/lib/parse.c:2-7 *)
definition mypow :: "int \<Rightarrow> int \<Rightarrow> int option" where
  "mypow x y = mypow_loop x (nat y) 1"

text \<open>\<^verbatim>\<open>while ((c = *(str++)) == ' '); str--;\<close>\<close>

(* src/src/lib/parse.c:45-46 *)
function skip_spaces :: "u8 list \<Rightarrow> nat \<Rightarrow> nat option" where
  "skip_spaces s p = do { c \<leftarrow> aget s p; if c = 32 then skip_spaces s (p + 1) else Some p }"
  by pat_completeness auto
termination by (relation "measure (\<lambda>(s, p). length s - p)") (auto simp: aget_eq_Some)

text \<open>The number of characters, and the position after the one that ends the number.\<close>

(* src/src/lib/parse.c:49-52 *)
function num_scan :: "u8 list \<Rightarrow> nat \<Rightarrow> nat \<Rightarrow> (nat \<times> nat) option" where
  "num_scan s p n = do {
     c \<leftarrow> aget s p;
     ok \<leftarrow> (if c = 0 then Some False
           else if is_digit c then Some True
           else if c = 45 then do { d \<leftarrow> aget s (p + 1); Some (is_digit d) }
           else Some False);
     if ok then num_scan s (p + 1) (n + 1) else Some (n, p + 1) }"
  by pat_completeness auto
termination by (relation "measure (\<lambda>(s, p, n). length s - p)") (auto simp: aget_eq_Some)

(* src/src/lib/parse.c:60-66 *)
fun num_value :: "u8 list \<Rightarrow> nat \<Rightarrow> nat \<Rightarrow> nat \<Rightarrow> int \<Rightarrow> int option" where
  "num_value s p 0 r i = Some i"
| "num_value s p (Suc n) r i = do {
     kassert (0 < p);
     c \<leftarrow> aget s (p - 1);
     i \<leftarrow> (if c = 45 then i32 (i * - 1)
          else do {
            m \<leftarrow> mypow 10 (int r - int (Suc n));
            m \<leftarrow> i32 ((uint c - 48) * m);
            i32 (i + m) });
     num_value s (p - 1) n r i }"

text \<open>The result: the return value, and \<^verbatim>\<open>*i\<close>.\<close>

(* src/src/lib/parse.c:38-69 *)
definition parse_ui32 :: "u8 list \<Rightarrow> nat \<Rightarrow> (int \<times> int) option" where
  "parse_ui32 s p0 = do {
     p \<leftarrow> skip_spaces s p0;
     (n, q) \<leftarrow> num_scan s p 0;
     if n < 1 then Some (0, 0)
     else do {
       i \<leftarrow> num_value s (q - 1) n n 0;
       Some (int q - int p0, i) } }"

definition is_letter :: "u8 \<Rightarrow> bool" where
  "is_letter c \<longleftrightarrow> (65 \<le> c \<and> c \<le> 90) \<or> (97 \<le> c \<and> c \<le> 122)"

text \<open>The result: the return value, and \<^verbatim>\<open>*c\<close>.\<close>

(* src/src/lib/parse.c:27-36 *)
definition parse_c :: "u8 list \<Rightarrow> nat \<Rightarrow> (int \<times> u8) option" where
  "parse_c s p0 = do {
     p \<leftarrow> skip_spaces s p0;
     c \<leftarrow> aget s p;
     if is_letter c then Some (int (p + 1) - int p0 + 1, c) else Some (0, c) }"

text \<open>What is written to \<^verbatim>\<open>buf\<close>, and the position after the word, if the word is not too long.\<close>

(* src/src/lib/parse.c:16-22 *)
function str_copy :: "u8 list \<Rightarrow> nat \<Rightarrow> int \<Rightarrow> int \<Rightarrow> u8 list \<Rightarrow> (u8 list \<times> nat option) option" where
  "str_copy s p len buf_len out = do {
     c \<leftarrow> aget s p;
     if c \<noteq> 32 \<and> c \<noteq> 0 then
       (if buf_len < len + 1 then Some (out @ [c], None)
        else str_copy s (p + 1) (len + 1) buf_len (out @ [c]))
     else Some (out @ [0], Some (p + 1)) }"
  by pat_completeness auto
termination by (relation "measure (\<lambda>(s, p, _). length s - p)") (auto simp: aget_eq_Some)

text \<open>The result: the return value, and the bytes written to \<^verbatim>\<open>buf\<close>.\<close>

(* src/src/lib/parse.c:9-24 *)
definition parse_str :: "u8 list \<Rightarrow> nat \<Rightarrow> int \<Rightarrow> (int \<times> u8 list) option" where
  "parse_str s p0 buf_len = do {
     p \<leftarrow> skip_spaces s p0;
     (out, q) \<leftarrow> str_copy s p 0 buf_len [];
     case q of None \<Rightarrow> Some (0, out) | Some q \<Rightarrow> Some (int q - int p0, out) }"

section \<open>Formats\<close>

text \<open>The variable arguments say where the results go: an \<^verbatim>\<open>int *\<close>, a \<^verbatim>\<open>char *\<close> with its length or a
  \<^verbatim>\<open>char *\<close>. Fetching one that is not there, or of another kind, is a fault. The results are those stored, in
  order; the offset is \<^verbatim>\<open>*boff\<close>.\<close>

datatype dest = DInt | DStr int | DChar
datatype parsed = PInt int | PStr "u8 list" | PChar u8

type_synonym parse_result = "int \<times> int \<times> parsed list"

(* src/src/lib/parse_args.c:4-40 *)
fun parse_args_va :: "u8 list \<Rightarrow> u8 list \<Rightarrow> int \<Rightarrow> int \<Rightarrow> dest list \<Rightarrow> parsed list \<Rightarrow> parse_result option" where
  "parse_args_va buf [] boff narg va out = None"
| "parse_args_va buf (c # args) boff narg va out =
     (if c = 0 then Some (0, boff, out)
      else if c \<noteq> 37 then parse_args_va buf args boff narg va out
      else (case args of
        [] \<Rightarrow> None
      | c # args \<Rightarrow>
          if c = 100 then
            (case va of DInt # va \<Rightarrow> do {
               (r, i) \<leftarrow> parse_ui32 buf (nat boff);
               if r \<le> 0 then Some (narg, boff, out @ [PInt i])
               else parse_args_va buf args (boff + r) (narg + 1) va (out @ [PInt i]) }
             | _ \<Rightarrow> None)
          else if c = 115 then
            (case va of DStr len # va \<Rightarrow> do {
               (r, s) \<leftarrow> parse_str buf (nat boff) len;
               if r \<le> 0 then Some (narg, boff, out @ [PStr s])
               else parse_args_va buf args (boff + r) (narg + 1) va (out @ [PStr s]) }
             | _ \<Rightarrow> None)
          else if c = 99 then
            (case va of DChar # va \<Rightarrow> do {
               (r, ch) \<leftarrow> parse_c buf (nat boff);
               if r \<le> 0 then Some (narg, boff, out @ [PChar ch])
               else parse_args_va buf args (boff + r) (narg + 1) va (out @ [PChar ch]) }
             | _ \<Rightarrow> None)
          else Some (- 1, boff, out)))"

(* src/src/lib/parse_args.c:42-57 *)
definition parse_args :: "u8 list \<Rightarrow> u8 list \<Rightarrow> dest list \<Rightarrow> (int \<times> parsed list) option" where
  "parse_args buf args va = do {
     (r, _, out) \<leftarrow> parse_args_va buf args 0 1 va [];
     Some (r, out) }"

declare skip_spaces.simps [simp del] num_scan.simps [simp del] str_copy.simps [simp del]

section \<open>Digits\<close>

lemma mypow_loop_ok:
  "0 < r \<Longrightarrow> 0 \<le> x \<Longrightarrow> r * 10 ^ n < 2147483648 \<Longrightarrow> x = 10 \<Longrightarrow> mypow_loop x n r = Some (r * x ^ n)"
proof (induction n arbitrary: r)
  case (Suc n)
  have "1 \<le> (10::int) ^ n" by simp
  from mult_left_mono [OF this, of "r * 10"] Suc.prems(1) have "r * 10 \<le> r * 10 * 10 ^ n" by simp
  moreover have "r * 10 * 10 ^ n = r * 10 ^ Suc n" by simp
  ultimately have "i32 (r * 10) = Some (r * 10)" using Suc.prems(1,3) by (intro i32_in) linarith+
  then show ?case using Suc.IH [of "r * 10"] Suc.prems by (simp add: mult.assoc)
qed simp

lemma mypow_ok: "n \<le> 9 \<Longrightarrow> mypow 10 (int n) = Some (10 ^ n)"
proof -
  assume "n \<le> 9"
  then have "(10::int) ^ n \<le> 10 ^ 9" by (intro power_increasing) auto
  then show ?thesis using mypow_loop_ok [of 1 10 n] by (simp add: mypow_def)
qed

lemma skip_spaces_ok:
  assumes "s = pre @ replicate k 32 @ c # rest" "c \<noteq> 32" "p = length pre"
  shows "skip_spaces s p = Some (p + k)"
  using assms
proof (induction k arbitrary: pre p)
  case 0
  then show ?case by (subst skip_spaces.simps) (simp add: aget_def)
next
  case (Suc k)
  have "skip_spaces s (p + 1) = Some (p + 1 + k)"
    using Suc.IH [of "pre @ [32]" "p + 1"] Suc.prems by simp
  then show ?case
    using Suc.prems by (subst skip_spaces.simps) (simp add: aget_def nth_append)
qed

lemma num_scan_digits:
  assumes "s = pre @ ds @ c # rest" "\<forall>d \<in> set ds. is_digit d" "\<not> is_digit c" "c \<noteq> 45" "p = length pre"
  shows "num_scan s p n = Some (n + length ds, p + length ds + 1)"
  using assms
proof (induction ds arbitrary: pre p n)
  case Nil
  then show ?case by (subst num_scan.simps) (simp add: aget_def)
next
  case (Cons d ds)
  have "num_scan s (p + 1) (n + 1) = Some (n + 1 + length ds, p + 1 + length ds + 1)"
    using Cons.IH [of "pre @ [d]" "p + 1" "n + 1"] Cons.prems by simp
  moreover have "d \<noteq> 0" using Cons.prems(2) by (auto simp: is_digit_def)
  ultimately show ?case
    using Cons.prems by (subst num_scan.simps) (simp add: aget_def)
qed

lemma digits_val_snoc: "digits_val b (xs @ [x]) = digits_val b xs * b + x"
  by (simp add: digits_val_def)

abbreviation dec_val :: "u8 list \<Rightarrow> int" where
  "dec_val ds \<equiv> int (digits_val 10 (map (\<lambda>d. unat d - 48) ds))"

lemma num_value_digits:
  "\<forall>d \<in> set ds. is_digit d \<Longrightarrow> s = pre @ ds @ rest \<Longrightarrow> k + length ds \<le> r \<Longrightarrow> r - k \<le> 10 \<Longrightarrow> 0 \<le> i \<Longrightarrow>
   i + 10 ^ (r - k - length ds) * dec_val ds < 2147483648 \<Longrightarrow>
   num_value s (length pre + length ds) (k + length ds) r i =
   num_value s (length pre) k r (i + 10 ^ (r - k - length ds) * dec_val ds)"
proof (induction ds arbitrary: rest i rule: rev_induct)
  case (snoc d ds)
  obtain e where e: "r - k - length ds = Suc e" "e \<le> 9" "r - k - length (ds @ [d]) = e" "r = Suc (k + length ds) + e"
    using snoc.prems(3,4) by (intro that [of "r - k - length ds - 1"]) auto
  have x: "uint d - 48 = int (unat d - 48)"
    using snoc.prems(1) by (simp add: is_digit_def word_le_nat_alt of_nat_diff)
  let ?x = "int (unat d - 48)"
  have v: "dec_val (ds @ [d]) = dec_val ds * 10 + ?x" by (simp add: digits_val_snoc)
  have sum: "i + 10 ^ e * dec_val (ds @ [d]) = (i + ?x * 10 ^ e) + 10 ^ Suc e * dec_val ds"
    unfolding v by (simp add: algebra_simps)
  have nn: "0 \<le> ?x * 10 ^ e" "0 \<le> 10 ^ Suc e * dec_val ds" by simp_all
  have lt: "i + ?x * 10 ^ e + 10 ^ Suc e * dec_val ds < 2147483648"
    using snoc.prems(6) unfolding sum [symmetric] e(3) .
  have c: "aget s (length pre + length ds) = Some d" using snoc.prems(2) by (simp add: aget_def nth_append)
  have d45: "d \<noteq> 45" using snoc.prems(1) by (auto simp: is_digit_def)
  have "int r - int (Suc (k + length ds)) = int e" unfolding e(4) by simp
  then have m: "mypow 10 (int r - int (Suc (k + length ds))) = Some (10 ^ e)"
    by (simp only: mypow_ok [OF e(2)])
  have i: "i32 (?x * 10 ^ e) = Some (?x * 10 ^ e)" "i32 (i + ?x * 10 ^ e) = Some (i + ?x * 10 ^ e)"
    using nn lt snoc.prems(5) by (intro i32_in; linarith)+
  have "num_value s (length pre + length (ds @ [d])) (k + length (ds @ [d])) r i =
      num_value s (length pre + length ds) (k + length ds) r (i + ?x * 10 ^ e)"
    using c d45 m i by (simp add: x del: int_nat_eq)
  also have "\<dots> = num_value s (length pre) k r (i + ?x * 10 ^ e + 10 ^ (r - k - length ds) * dec_val ds)"
  proof (rule snoc.IH [of "[d] @ rest"])
    show "\<forall>d \<in> set ds. is_digit d" "s = pre @ ds @ [d] @ rest" "k + length ds \<le> r" "r - k \<le> 10"
      using snoc.prems(1-4) by simp_all
    show "0 \<le> i + ?x * 10 ^ e" using snoc.prems(5) nn(1) by linarith
    show "i + ?x * 10 ^ e + 10 ^ (r - k - length ds) * dec_val ds < 2147483648" using lt unfolding e(1) .
  qed
  also have "i + ?x * 10 ^ e + 10 ^ (r - k - length ds) * dec_val ds =
      i + 10 ^ (r - k - length (ds @ [d])) * dec_val (ds @ [d])"
    unfolding e(1,3) sum ..
  finally show ?case .
qed simp

text \<open>A number in a line: spaces, an optional minus, digits, and a character that ends it.\<close>

lemma parse_ui32_number:
  assumes ds: "ds \<noteq> []" "\<forall>d \<in> set ds. is_digit d" "length ds \<le> 10" "dec_val ds < 2147483648"
    and c: "\<not> is_digit c" "c \<noteq> 45"
    and s: "s = pre @ replicate k 32 @ (if neg then [45] else []) @ ds @ c # rest"
  shows "parse_ui32 s (length pre) =
    Some (int (k + (if neg then 1 else 0) + length ds + 1), if neg then - dec_val ds else dec_val ds)"
proof -
  let ?m = "if neg then [45] else [] :: u8 list" and ?l = "if neg then 1 else 0 :: nat"
  let ?t = "pre @ replicate k 32"
  have l: "length ?m = ?l" by simp
  obtain d ds' where d: "ds = d # ds'" "is_digit d" using ds(1,2) by (cases ds) auto
  have f: "hd (?m @ ds) \<noteq> 32" "?m @ ds = hd (?m @ ds) # tl (?m @ ds)" using d by (auto simp: is_digit_def)
  have skip: "skip_spaces s (length pre) = Some (length pre + k)"
    by (rule skip_spaces_ok [of s pre k "hd (?m @ ds)" "tl (?m @ ds) @ c # rest"]) (use f s in \<open>auto simp: d\<close>)
  have scan: "num_scan s (length pre + k) 0 = Some (?l + length ds, length pre + k + ?l + length ds + 1)"
  proof (cases neg)
    case False
    then show ?thesis using num_scan_digits [of s ?t ds c rest "length pre + k" 0] ds(2) c s by simp
  next
    case True
    have "num_scan s (length pre + k) 0 = num_scan s (length pre + k + 1) 1"
      using s True d by (subst num_scan.simps) (simp add: aget_def nth_append is_digit_def)
    then show ?thesis using num_scan_digits [of s "?t @ [45]" ds c rest "length pre + k + 1" 1] ds(2) c s True by simp
  qed
  have v: "num_value s (length (?t @ ?m) + length ds) (?l + length ds) (?l + length ds) 0 =
      num_value s (length (?t @ ?m)) ?l (?l + length ds) (dec_val ds)"
    using num_value_digits [of ds s "?t @ ?m" "c # rest" ?l "?l + length ds" 0] ds s by simp
  have "num_value s (length (?t @ ?m)) ?l (?l + length ds) (dec_val ds) = Some (if neg then - dec_val ds else dec_val ds)"
    using s ds(4) by (simp add: aget_def nth_append i32_in)
  moreover have "length (?t @ ?m) = length pre + k + ?l" by simp
  ultimately have "num_value s (length pre + k + ?l + length ds) (?l + length ds) (?l + length ds) 0 =
      Some (if neg then - dec_val ds else dec_val ds)" using v by (simp only:)
  then show ?thesis using skip scan ds(1) by (simp add: parse_ui32_def del: num_value.simps)
qed

text \<open>What \<^verbatim>\<open>buf_pack_i32\<close> prints, in that form.\<close>

lemma digit_char_digit:
  assumes "x < 10"
  shows "is_digit (digit_char x)" "unat (digit_char x) - 48 = unat x"
proof -
  have x: "unat x < 10" using assms by (simp add: word_less_nat_alt)
  then have "sint x = int (unat x)" by (intro sint_u32_int) simp
  then have "sint x < 10" using x by linarith
  then have "digit_char x = ucast (x + 48)" by (simp add: digit_char_def)
  moreover have "unat (x + 48) = unat x + 48" using x by (simp add: unat_word_ariths)
  ultimately have "unat (digit_char x) = unat x + 48" using x by (simp add: unsigned_ucast_eq take_bit_nat_def)
  then show "is_digit (digit_char x)" "unat (digit_char x) - 48 = unat x"
    using x by (simp_all add: is_digit_def word_le_nat_alt)
qed

lemma packed_number:
  assumes "sint i \<noteq> - 2147483648"
  shows "\<exists>ds. buf_pack_i32 i = Some ((if sint i < 0 then [45] else []) @ ds) \<and> ds \<noteq> [] \<and> (\<forall>d \<in> set ds. is_digit d) \<and>
    length ds \<le> 10 \<and> dec_val ds = \<bar>sint i\<bar>"
proof -
  let ?j = "if sint i < 0 then - i else i"
  have j: "int (unat ?j) = \<bar>sint i\<bar>"
  proof (cases "sint i < 0")
    case True
    have "- i = word_of_int (- sint i)" by simp
    moreover have "- 2147483648 \<le> sint i" using sint_greater_eq [of i] by simp
    ultimately have "uint (- i) = - sint i"
      using True assms by (simp only: uint_word_of_int) (simp add: mod_pos_pos_trivial)
    then show ?thesis using True by simp
  next
    case False
    have "sint i < 2147483648" using sint_less [of i] by simp
    then have "uint (word_of_int (sint i) :: u32) = sint i"
      using False by (simp only: uint_word_of_int) (simp add: mod_pos_pos_trivial)
    then show ?thesis using False by simp
  qed
  obtain ds where ds: "buf_pack_ui32 ?j 10 = Some (map digit_char ds)" "digits_val 10 (map unat ds) = unat ?j"
    "\<forall>x \<in> set ds. x < 10" "ds \<noteq> []" "hd ds = 0 \<longrightarrow> ds = [0]"
    using buf_pack_ui32_digits [of 10 ?j] by auto
  have "map (\<lambda>d. unat d - 48) (map digit_char ds) = map unat ds"
    using ds(3) digit_char_digit(2) by simp
  then have "dec_val (map digit_char ds) = \<bar>sint i\<bar>" by (simp only: ds(2) j)
  moreover have "length ds \<le> 10"
  proof (rule ccontr)
    assume l: "\<not> length ds \<le> 10"
    then obtain x ds' where x: "ds = x # ds'" "x \<noteq> 0" "10 \<le> length ds'" using ds(5) by (cases ds) auto
    have "1 * 10 ^ 10 \<le> unat x * 10 ^ length ds'"
      using x(2,3) by (intro mult_le_mono power_increasing) (auto simp: Suc_le_eq unat_gt_0)
    then have "10 ^ 10 \<le> unat ?j" using ds(2) x(1) by simp
    then have "int (10 ^ 10) \<le> int (unat ?j)" by (simp only: of_nat_le_iff)
    then have "10 ^ 10 \<le> \<bar>sint i\<bar>" unfolding j by simp
    then show False using sint_less [of i] sint_greater_eq [of i] by simp
  qed
  moreover have "\<forall>d \<in> set (map digit_char ds). is_digit d" using ds(3) digit_char_digit(1) by auto
  moreover have "buf_pack_i32 i = Some ((if sint i < 0 then [45] else []) @ map digit_char ds)"
    using ds(1) by (simp add: buf_pack_i32_def buf_pack_c_def split: if_splits)
  ultimately show ?thesis using ds(4) by (intro exI [of _ "map digit_char ds"]) simp
qed

section \<open>Properties\<close>

text \<open>What \<^verbatim>\<open>%d\<close> prints is read back.\<close>

lemma parse_packed:
  assumes "sint i \<noteq> - 2147483648" "buf_pack_i32 i = Some bs" "\<not> is_digit c" "c \<noteq> 45"
  shows "parse_ui32 (pre @ replicate k 32 @ bs @ c # rest) (length pre) = Some (int (k + length bs + 1), sint i)"
proof -
  obtain ds where ds: "bs = (if sint i < 0 then [45] else []) @ ds" "ds \<noteq> []" "\<forall>d \<in> set ds. is_digit d"
    "length ds \<le> 10" "dec_val ds = \<bar>sint i\<bar>" using packed_number [OF assms(1)] assms(2) by auto
  have "dec_val ds < 2147483648" using sint_less [of i] sint_greater_eq [of i] ds(5) assms(1) by simp
  then show ?thesis
    using parse_ui32_number [OF ds(2-4) _ assms(3,4), of _ pre k "sint i < 0" rest] ds(1,5) by simp
qed

text \<open>A line of numbers, each with a space after it, and the format that reads them.\<close>

fun line :: "u32 list \<Rightarrow> u8 list option" where
  "line [] = Some []"
| "line (i # is') = do { bs \<leftarrow> buf_pack_i32 i; l \<leftarrow> line is'; Some (bs @ 32 # l) }"

definition ints_format :: "nat \<Rightarrow> u8 list" where
  "ints_format n = concat (replicate n [37, 100]) @ [0]"

lemma parse_ints:
  assumes "line is' = Some l" "\<forall>i \<in> set is'. sint i \<noteq> - 2147483648"
  shows "parse_args_va (pre @ l @ rest) (ints_format (length is')) (int (length pre)) narg
    (replicate (length is') DInt) out = Some (0, int (length pre + length l), out @ map (PInt \<circ> sint) is')"
  using assms
proof (induction is' arbitrary: l pre narg out)
  case Nil
  then show ?case by (simp add: ints_format_def)
next
  case (Cons i is')
  obtain bs l' where l: "buf_pack_i32 i = Some bs" "line is' = Some l'" "l = bs @ 32 # l'"
    using Cons.prems(1) by (auto elim!: bind_SomeE)
  have p: "parse_ui32 (pre @ l @ rest) (length pre) = Some (int (length bs + 1), sint i)"
    using parse_packed [of i bs 32 pre 0 "l' @ rest"] Cons.prems(2) l(1,3) by (simp add: is_digit_def)
  have "parse_args_va ((pre @ bs @ [32]) @ l' @ rest) (ints_format (length is')) (int (length (pre @ bs @ [32])))
      (narg + 1) (replicate (length is') DInt) (out @ [PInt (sint i)]) =
    Some (0, int (length (pre @ bs @ [32]) + length l'), (out @ [PInt (sint i)]) @ map (PInt \<circ> sint) is')"
    by (rule Cons.IH [OF l(2)]) (use Cons.prems(2) in simp)
  note IH = this
  have e: "int (length (pre @ bs @ [32])) = int (length pre) + (1 + int (length bs))" by simp
  have "parse_args_va (pre @ bs @ 32 # l' @ rest) (ints_format (length is')) (int (length pre) + (1 + int (length bs)))
      (narg + 1) (replicate (length is') DInt) (out @ [PInt (sint i)]) =
    Some (0, int (length pre + length l), out @ map (PInt \<circ> sint) (i # is'))"
    unfolding e [symmetric] l(3) using IH by (simp add: add.assoc)
  then show ?case using p l(3) by (simp add: ints_format_def)
qed

text \<open>Numbers that \<^verbatim>\<open>buf_pack_i32\<close> has printed, each followed by a space, are read back by \<^verbatim>\<open>parse_args\<close> with
  a format of as many \<^verbatim>\<open>%d\<close>: every number except the smallest \<^verbatim>\<open>int\<close>, whose digits overflow.\<close>

theorem parse_args_roundtrip:
  assumes "line is' = Some l" "\<forall>i \<in> set is'. sint i \<noteq> - 2147483648"
  shows "parse_args (l @ rest) (ints_format (length is')) (replicate (length is') DInt) = Some (0, map (PInt \<circ> sint) is')"
  using parse_ints [OF assms, of "[]" rest 1 "[]"] by (simp add: parse_args_def)

theorem parse_args_roundtrip_witness:
  "\<exists>l. line [- 45, 1000] = Some l \<and>
    parse_args (l @ [0]) (ints_format 2) [DInt, DInt] = Some (0, [PInt (- 45), PInt 1000])"
proof -
  obtain a b where "buf_pack_i32 (- 45) = Some a" "buf_pack_i32 1000 = Some b"
    using packed_number [of "- 45"] packed_number [of 1000] by auto
  then obtain l where l: "line [- 45, 1000] = Some l" by simp
  then show ?thesis using parse_args_roundtrip [OF l, of "[0]"] by (simp add: numeral_2_eq_2)
qed

text \<open>A minus inside a number negates what stands to its right, and takes a place: \<^verbatim>\<open>1-2\<close> is read as 98.\<close>

lemma mypow_small: "mypow 10 0 = Some 1" "mypow 10 1 = Some 10" "mypow 10 2 = Some 100"
  using mypow_ok [of 0] mypow_ok [of 1] mypow_ok [of 2] by simp_all

lemmas parse_eval = aget_def skip_spaces.simps [of "_ # _"] num_scan.simps [of "_ # _"]
  is_digit_def mypow_small i32_def nth_Cons'

theorem parse_ui32_inner_minus: "parse_ui32 (lit ''1-2'') 0 = Some (4, 98)"
  by (simp add: parse_ui32_def lit_def parse_eval cong: bind_weak_cong)

text \<open>The returned offset is after the character that ended the number, the terminating zero included: with a
  number missing at the end of the line, the next \<^verbatim>\<open>%d\<close> is read from after the line's end.\<close>

theorem parse_args_past_end: "parse_args (lit ''5'') (lit ''%d%d'') [DInt, DInt] = None"
proof -
  have "parse_ui32 (lit ''5'') 0 = Some (2, 5)"
    by (simp add: parse_ui32_def lit_def parse_eval cong: bind_weak_cong)
  moreover have "skip_spaces (lit ''5'') 2 = None"
    by (subst skip_spaces.simps) (simp add: lit_def)
  then have "parse_ui32 (lit ''5'') 2 = None" by (simp add: parse_ui32_def)
  moreover have "lit ''%d%d'' = [37, 100, 37, 100, 0]" by (simp add: lit_def)
  ultimately show ?thesis by (simp add: parse_args_def)
qed

section \<open>Words\<close>

lemma str_copy_ok:
  assumes "s = pre @ w @ c # rest" "\<forall>x \<in> set w. x \<noteq> 32 \<and> x \<noteq> 0" "c = 32 \<or> c = 0" "p = length pre" "0 \<le> len"
  shows "str_copy s p len n out = Some (if len + int (length w) \<le> max len n then (out @ w @ [0], Some (p + length w + 1))
    else (out @ take (nat (max 0 (n - len)) + 1) w, None))"
  using assms
proof (induction w arbitrary: pre p len out)
  case Nil
  then show ?case by (subst str_copy.simps) (auto simp: aget_def)
next
  case (Cons x w)
  have x: "aget s p = Some x" "x \<noteq> 32 \<and> x \<noteq> 0" using Cons.prems by (auto simp: aget_def)
  show ?case
  proof (cases "n < len + 1")
    case True
    then show ?thesis using x by (subst str_copy.simps) auto
  next
    case False
    have "str_copy s (p + 1) (len + 1) n (out @ [x]) = Some (if len + 1 + int (length w) \<le> max (len + 1) n
        then ((out @ [x]) @ w @ [0], Some (p + 1 + length w + 1))
        else ((out @ [x]) @ take (nat (max 0 (n - (len + 1))) + 1) w, None))"
      by (rule Cons.IH [of "pre @ [x]"]) (use Cons.prems in auto)
    moreover have "nat (max 0 (n - len)) = Suc (nat (max 0 (n - (len + 1))))" using False by simp
    ultimately show ?thesis using x False by (subst str_copy.simps) auto
  qed
qed

lemma parse_str_word:
  assumes "s = pre @ replicate k 32 @ w @ c # rest" "w \<noteq> [] \<or> c = 0" "\<forall>x \<in> set w. x \<noteq> 32 \<and> x \<noteq> 0" "c = 32 \<or> c = 0"
  shows "parse_str s (length pre) (int n) = Some (if length w \<le> n then (int (k + length w + 1), w @ [0])
    else (0, take (n + 1) w))"
proof -
  obtain x xs where x: "w @ c # rest = x # xs" "x \<noteq> 32" using assms(2,3) by (cases w) auto
  have "skip_spaces s (length pre) = Some (length pre + k)"
    by (rule skip_spaces_ok [of s pre k x xs]) (use assms(1) x in auto)
  moreover have "s = (pre @ replicate k 32) @ w @ c # rest" using assms(1) by simp
  note str_copy_ok [OF this assms(3,4), of "length pre + k" 0 "int n" "[]"]
  ultimately show ?thesis by (simp add: parse_str_def)
qed

text \<open>\<^verbatim>\<open>parse_str\<close> reads a word after spaces. A word of at most \<^verbatim>\<open>buf_len\<close> characters is copied with a
  terminating zero, so that \<^verbatim>\<open>buf_len + 1\<close> bytes can be written; of a longer one \<^verbatim>\<open>buf_len + 1\<close> characters are
  written before it is refused with 0. A buffer of \<^verbatim>\<open>buf_len\<close> bytes is too small by one either way.\<close>

theorem parse_str_writes:
  assumes "s = pre @ replicate k 32 @ w @ c # rest" "w \<noteq> []" "\<forall>x \<in> set w. x \<noteq> 32 \<and> x \<noteq> 0" "c = 32 \<or> c = 0"
  shows "parse_str s (length pre) (int n) = Some (if length w \<le> n then (int (k + length w + 1), w @ [0])
    else (0, take (n + 1) w))"
  using parse_str_word [OF assms(1) _ assms(3,4)] assms(2) by simp

theorem parse_str_writes_witness:
  "parse_str (lit ''  abcd'') 0 3 = Some (0, [97, 98, 99, 100]) \<and> parse_str (lit ''abc 1'') 0 3 = Some (4, [97, 98, 99, 0])"
proof -
  have 1: "lit ''  abcd'' = [] @ replicate 2 32 @ [97, 98, 99, 100] @ 0 # []"
    and 2: "lit ''abc 1'' = [] @ replicate 0 32 @ [97, 98, 99] @ 32 # [49, 0]"
    by (simp_all add: lit_def numeral_2_eq_2)
  show ?thesis using parse_str_writes [OF 1, of 3] parse_str_writes [OF 2, of 3] by simp
qed

end
