(* ===== verification/SmallLibs.thy ===== *)
theory SmallLibs
  imports Prelude
begin

text \<open>
  Two small libraries: the clock that the display counts with (src/lib/clock.c) and the buffer of the
  sensors that were hit last (src/lib/recency_buffer.c).
\<close>

section \<open>The clock\<close>

(* src/include/lib/clock.h:6-10 *)
record Clock =
  ck_min :: u32
  ck_sec :: u32
  ck_dsec :: u32

(* src/src/lib/clock.c:3-14 *)
definition add_dsec :: "Clock \<Rightarrow> u32 \<Rightarrow> Clock" where
  "add_dsec clk dsecs =
     (let dsec = ck_dsec clk + dsecs;
          overflow = dsec div 10;
          dsec = dsec mod 10;
          sec = ck_sec clk + overflow;
          overflow = sec div 60;
          sec = sec mod 60
      in clk\<lparr>ck_dsec := dsec, ck_sec := sec, ck_min := ck_min clk + overflow\<rparr>)"

(* src/src/lib/clock.c:16-20 *)
definition clk_init :: Clock where
  "clk_init = \<lparr>ck_min = 0, ck_sec = 0, ck_dsec = 0\<rparr>"

definition clk_total :: "Clock \<Rightarrow> nat" where
  "clk_total clk = unat (ck_min clk) * 600 + unat (ck_sec clk) * 10 + unat (ck_dsec clk)"

definition clk_ok :: "Clock \<Rightarrow> bool" where
  "clk_ok clk \<longleftrightarrow> unat (ck_sec clk) < 60 \<and> unat (ck_dsec clk) < 10"

lemma unat_add_lt: "unat (a::u32) + unat b < 4294967296 \<Longrightarrow> unat (a + b) = unat a + unat b"
  by (simp add: unat_word_ariths)

text \<open>Time is neither lost nor made, until the minutes overflow.\<close>

theorem add_dsec_total:
  assumes "clk_ok clk" "clk_total clk + unat d < 4294967296"
  shows "clk_ok (add_dsec clk d) \<and> clk_total (add_dsec clk d) = clk_total clk + unat d"
proof -
  let ?d = "ck_dsec clk + d"
  let ?s = "ck_sec clk + ?d div 10"
  have d: "unat ?d = unat (ck_dsec clk) + unat d"
    using assms(2) by (intro unat_add_lt) (simp add: clk_total_def)
  have dd: "unat (?d div 10) = unat ?d div 10" by (simp add: unat_div_distrib)
  have s: "unat ?s = unat (ck_sec clk) + unat (?d div 10)"
    using assms(2) dd d by (intro unat_add_lt) (simp add: clk_total_def)
  have ss: "unat (?s div 60) = unat ?s div 60" "unat (?s mod 60) = unat ?s mod 60" "unat (?d mod 10) = unat ?d mod 10"
    by (simp_all add: unat_div_distrib unat_mod_distrib)
  have m: "unat (ck_min clk + ?s div 60) = unat (ck_min clk) + unat (?s div 60)"
    using assms(2) ss(1) s dd d by (intro unat_add_lt) (simp add: clk_total_def)
  have 1: "unat ?d = unat ?d div 10 * 10 + unat ?d mod 10" "unat ?s = unat ?s div 60 * 60 + unat ?s mod 60" by simp_all
  have "unat ?s div 60 * 600 + unat ?s mod 60 * 10 = unat ?s * 10" using 1(2) by linarith
  moreover have "unat ?s * 10 + unat ?d mod 10 = unat (ck_sec clk) * 10 + unat ?d" using 1(1) s dd d by linarith
  moreover have "clk_total (add_dsec clk d) =
      (unat (ck_min clk) + unat ?s div 60) * 600 + unat ?s mod 60 * 10 + unat ?d mod 10"
    by (simp add: add_dsec_def clk_total_def Let_def m ss)
  ultimately have "clk_total (add_dsec clk d) = clk_total clk + unat d"
    using d by (simp add: clk_total_def add_mult_distrib)
  moreover have "clk_ok (add_dsec clk d)" by (simp add: clk_ok_def add_dsec_def Let_def ss)
  ultimately show ?thesis by simp
qed

section \<open>The recency buffer\<close>

abbreviation REC_BUF_SIZE :: nat where "REC_BUF_SIZE \<equiv> 20"

(* src/include/lib/recency_buffer.h:6-10 *)
record rec_buffer =
  rb_buf :: "int list"
  rb_start :: int
  rb_num :: int

(* src/src/lib/recency_buffer.c:3-10 *)
definition rec_buffer_init :: rec_buffer where
  "rec_buffer_init = \<lparr>rb_buf = replicate REC_BUF_SIZE (- 1), rb_start = 0, rb_num = 0\<rparr>"

(* src/src/lib/recency_buffer.c:12-16 *)
definition rec_buffer_add :: "rec_buffer \<Rightarrow> int \<Rightarrow> rec_buffer option" where
  "rec_buffer_add rb i = do {
     b \<leftarrow> asetz (rb_buf rb) (rb_start rb) i;
     Some \<lparr>rb_buf = b, rb_start = c_mod (rb_start rb + 1) (int REC_BUF_SIZE),
       rb_num = (if int REC_BUF_SIZE < rb_num rb + 1 then rb_num rb else rb_num rb + 1)\<rparr> }"

(* src/src/lib/recency_buffer.c:19-23 *)
definition rec_buffer_get :: "rec_buffer \<Rightarrow> int \<Rightarrow> int option" where
  "rec_buffer_get rb i =
     (let j = rb_start rb - 1 - i;
          x = (if j < 0 then int REC_BUF_SIZE + j else c_mod j (int REC_BUF_SIZE))
      in agetz (rb_buf rb) x)"

text \<open>\<open>rec_shows rb h\<close>: the buffer shows the first elements of \<open>h\<close>, the latest first, and -1 beyond it.\<close>

definition rec_shows :: "rec_buffer \<Rightarrow> int list \<Rightarrow> bool" where
  "rec_shows rb h \<longleftrightarrow> length (rb_buf rb) = REC_BUF_SIZE \<and> 0 \<le> rb_start rb \<and> rb_start rb < int REC_BUF_SIZE \<and>
     rb_num rb = int (min (length h) REC_BUF_SIZE) \<and>
     (\<forall>i < REC_BUF_SIZE. rb_buf rb ! nat ((rb_start rb - 1 - int i) mod int REC_BUF_SIZE) =
        (if i < length h then h ! i else - 1))"

lemma rec_get:
  assumes "rec_shows rb h" "i < REC_BUF_SIZE"
  shows "rec_buffer_get rb (int i) = Some (if i < length h then h ! i else - 1)"
proof -
  let ?j = "rb_start rb - 1 - int i"
  have s: "0 \<le> rb_start rb" "rb_start rb < 20" "length (rb_buf rb) = 20" using assms(1) by (auto simp: rec_shows_def)
  have "(if ?j < 0 then int REC_BUF_SIZE + ?j else c_mod ?j (int REC_BUF_SIZE)) = ?j mod 20"
  proof (cases "?j < 0")
    case True
    have "?j mod 20 = (?j + 20) mod 20" by (rule mod_add_self2 [symmetric])
    also have "\<dots> = ?j + 20" using True s assms(2) by (intro mod_pos_pos_trivial) auto
    finally show ?thesis using True by simp
  qed simp
  then have "rec_buffer_get rb (int i) = agetz (rb_buf rb) (?j mod 20)"
    by (simp only: rec_buffer_get_def Let_def)
  moreover have "0 \<le> ?j mod 20" "nat (?j mod 20) < 20" by (simp_all add: nat_less_iff)
  moreover have "rb_buf rb ! nat (?j mod 20) = (if i < length h then h ! i else - 1)"
    using assms by (simp add: rec_shows_def)
  ultimately show ?thesis using s(3) by (simp add: agetz_in)
qed

lemma rec_add:
  assumes "rec_shows rb h"
  shows "\<exists>rb'. rec_buffer_add rb x = Some rb' \<and> rec_shows rb' (x # h)"
proof -
  let ?s = "rb_start rb"
  have s: "0 \<le> ?s" "?s < 20" "length (rb_buf rb) = 20" "rb_num rb = int (min (length h) 20)"
    and g: "\<And>i. i < 20 \<Longrightarrow> rb_buf rb ! nat ((?s - 1 - int i) mod 20) = (if i < length h then h ! i else - 1)"
    using assms by (auto simp: rec_shows_def)
  define rb' where "rb' = \<lparr>rb_buf = (rb_buf rb)[nat ?s := x], rb_start = (?s + 1) mod 20,
    rb_num = (if 20 < rb_num rb + 1 then rb_num rb else rb_num rb + 1)\<rparr>"
  have f: "rec_buffer_add rb x = Some rb'"
    using s by (simp add: rec_buffer_add_def asetz_def aset_def rb'_def)
  have idx: "((?s + 1) mod 20 - 1 - int i) mod 20 = (?s - int i) mod 20" for i
    using mod_diff_left_eq [of "?s + 1" 20 "1 + int i"] by (simp add: algebra_simps)
  have "rb_buf rb' ! nat ((rb_start rb' - 1 - int i) mod 20) = (if i < length (x # h) then (x # h) ! i else - 1)"
    if i: "i < 20" for i
  proof (cases i)
    case 0
    then show ?thesis using s idx [of 0] by (simp add: rb'_def)
  next
    case (Suc m)
    have ne: "nat ((?s - int i) mod 20) \<noteq> nat ?s"
    proof
      assume "nat ((?s - int i) mod 20) = nat ?s"
      then have "(?s - int i) mod 20 = ?s mod 20" using s by simp
      then have "20 dvd int i" by (simp add: mod_eq_dvd_iff)
      then show False using i Suc zdvd_imp_le by fastforce
    qed
    have m: "?s - int i = ?s - 1 - int m" "m < 20" using Suc i by simp_all
    have "rb_buf rb' ! nat ((rb_start rb' - 1 - int i) mod 20) = rb_buf rb ! nat ((?s - int i) mod 20)"
      using ne idx [of i] by (simp only: rb'_def rec_buffer.select_convs nth_list_update_neq)
    also have "\<dots> = (if m < length h then h ! m else - 1)" unfolding m(1) by (rule g [OF m(2)])
    finally show ?thesis using Suc by simp
  qed
  then show ?thesis using f s by (auto simp: rec_shows_def rb'_def)
qed

fun rec_adds :: "int list \<Rightarrow> rec_buffer \<Rightarrow> rec_buffer option" where
  "rec_adds [] rb = Some rb"
| "rec_adds (x # xs) rb = do { rb \<leftarrow> rec_buffer_add rb x; rec_adds xs rb }"

lemma rec_adds_shows: "rec_shows rb h \<Longrightarrow> \<exists>rb'. rec_adds xs rb = Some rb' \<and> rec_shows rb' (rev xs @ h)"
proof (induction xs arbitrary: rb h)
  case (Cons x xs)
  then show ?case using rec_add [OF Cons.prems, of x] by fastforce
qed simp

text \<open>After any additions the buffer gives the element that was added \<open>i\<close> additions before the last.\<close>

theorem recency_buffer_latest:
  assumes "i < REC_BUF_SIZE"
  shows "\<exists>rb. rec_adds xs rec_buffer_init = Some rb \<and>
    rec_buffer_get rb (int i) = Some (if i < length xs then rev xs ! i else - 1)"
proof -
  have "rec_shows rec_buffer_init []" by (simp add: rec_shows_def rec_buffer_init_def nat_less_iff)
  from rec_adds_shows [OF this, of xs] show ?thesis using rec_get assms by fastforce
qed

end
