(* ===== verification/Events.thy ===== *)
theory Events
  imports CircBuf TrackData
begin

text \<open>
  The events of the track and the servers they come from: include/lib/train/events.h, the providers and
  publishers of user/train/ (sensor_provider.c, switch_provider.c, train_provider.c,
  virtual_provider.c), and the task that turns sensor readings into events. A server is a function from its
  state, the sender of a request and the request to what it does (in order) and its new state. Task
  numbers are \<open>int\<close>s. What a server gets from other servers (the time, the tids of its children) is an
  argument.
\<close>

section \<open>Events\<close>

abbreviation DECODER_SIZE :: nat where "DECODER_SIZE \<equiv> 5"
abbreviation MAX_SUBSCRIBERS :: nat where "MAX_SUBSCRIBERS \<equiv> 128"
abbreviation (input) SW_STRAIGHT :: int where "SW_STRAIGHT \<equiv> 33"
abbreviation (input) SW_CURVE :: int where "SW_CURVE \<equiv> 34"

(* src/include/lib/train/events.h:11-17 *)
datatype RawEventType = RE_NONE | RE_SE | RE_SW | RE_TR_CMD | RE_TR_INIT

(* src/include/lib/train/sensor.h:22-34 *)
datatype SN_Request = SN_HALT | SN_READBYTE | SN_CHECK | SN_RESET | SN_NOTIFY_READY | SN_NOTIFY | SN_SUBSCRIBE
  | SN_SUBSCRIBE_DELTA | SN_GET_ALL

(* src/include/lib/train/sensor.h:41-45 *)
record Sensor =
  se_state :: int
  se_id :: int

(* src/include/lib/train/switch.h:17-25 *)
datatype SW_Request = SW_HALT | SW_FLIP | SW_GET_ALL | SW_NOTIFY_READY | SW_NOTIFY | SW_SUBSCRIBE

(* src/include/lib/train/switch.h:27-31 *)
record SWProtocol =
  sw_swr :: SW_Request
  sw_sw :: u8
  sw_dir :: int

(* src/include/lib/train/train.h:49-55 *)
datatype Train_Command = T_MOVE | T_INIT | T_NOTIFY | T_SUBSCRIBE

(* src/include/lib/train/train.h:57-61 *)
record TrainProtocol =
  tp_tc :: Train_Command
  tp_arg1 :: u8
  tp_arg2 :: u8

(* src/include/lib/train/events.h:23-27 *)
datatype RawEvents = TrCmdEvent TrainProtocol | SeEvent Sensor | SwEvent SWProtocol

(* src/include/lib/train/events.h:29-33 *)
record RawEvent =
  re_type :: RawEventType
  re_timestamp :: int
  re_event :: RawEvents

(* src/include/lib/train/events.h:39-43 *)
datatype VirtualEventType = VE_NONE | VE_REG | VE_TR_AT

text \<open>The union of virtual events has one member, \<^verbatim>\<open>train_at\<close>.\<close>

(* src/include/lib/train/events.h:45-61 *)
record VirtualEvent =
  ve_type :: VirtualEventType
  ve_timestamp :: int
  ve_timeout :: int
  ve_key :: int
  ve_depend :: int
  ve_train_num :: int
  ve_node :: node_ptr

(* src/include/lib/train/events.h:64-69 *)
datatype EventGroupType = VRE_VE_RE | VRE_VE | VRE_RE | RE

text \<open>A part of a group that is not assigned is indeterminate: \<open>None\<close>.\<close>

(* src/include/lib/train/events.h:71-75 *)
record EventGroup =
  eg_type :: EventGroupType
  eg_re :: "RawEvent option"
  eg_ve :: "VirtualEvent option"

section \<open>Publishers\<close>

text \<open>\<^verbatim>\<open>NOTIFYBL\<close>: the data is sent to every subscriber, in order.\<close>

datatype 'a pub_out = PubReply int | PubSend int 'a

(* src/include/lib/task/tid_buffer.h:14-18 *)
fun notify_bl :: "int cbuf \<Rightarrow> 'a \<Rightarrow> nat \<Rightarrow> nat \<Rightarrow> 'a pub_out list option" where
  "notify_bl subs x i 0 = Some []"
| "notify_bl subs x i (Suc n) = do {
     (_, sub) \<leftarrow> cb_get MAX_SUBSCRIBERS (int i) subs;
     sub \<leftarrow> sub;
     outs \<leftarrow> notify_bl subs x (i + 1) n;
     Some (PubSend sub x # outs) }"

definition pub_notify :: "int cbuf \<Rightarrow> int \<Rightarrow> 'a \<Rightarrow> ('a pub_out list \<times> int cbuf) option" where
  "pub_notify subs req_tid x = do {
     outs \<leftarrow> notify_bl subs x 0 (nat (sint (cb_size subs)));
     Some (PubReply req_tid # outs, subs) }"

text \<open>The result of the push is not looked at: a subscriber too many is dropped.\<close>

definition pub_subscribe :: "int cbuf \<Rightarrow> int \<Rightarrow> ('a pub_out list \<times> int cbuf) option" where
  "pub_subscribe subs req_tid = do {
     (_, subs) \<leftarrow> cb_push MAX_SUBSCRIBERS req_tid subs;
     Some ([PubReply req_tid], subs) }"

(* src/src/user/train/sensor_provider.c:78-92 *)
definition SensorPublisher :: "int cbuf \<Rightarrow> int \<Rightarrow> SN_Request \<times> u8 list \<Rightarrow> (u8 list pub_out list \<times> int cbuf) option" where
  "SensorPublisher subs tid_req = (\<lambda>(snr, sensors).
     if snr = SN_NOTIFY then pub_notify subs tid_req sensors
     else if snr = SN_SUBSCRIBE then pub_subscribe subs tid_req
     else do { kassert False; Some ([], subs) })"

(* src/src/user/train/switch_provider.c:71-86 *)
definition SwitchPublisher :: "int cbuf \<Rightarrow> int \<Rightarrow> SW_Request \<times> RawEvent \<Rightarrow> (RawEvent pub_out list \<times> int cbuf) option" where
  "SwitchPublisher subs req_tid = (\<lambda>(swr, re).
     if swr = SW_NOTIFY then pub_notify subs req_tid re
     else if swr = SW_SUBSCRIBE then pub_subscribe subs req_tid
     else do { kassert False; Some ([], subs) })"

(* src/src/user/train/train_provider.c:15-29 *)
definition TrainPublisher :: "int cbuf \<Rightarrow> int \<Rightarrow> Train_Command \<times> RawEvent \<Rightarrow> (RawEvent pub_out list \<times> int cbuf) option" where
  "TrainPublisher subs req_tid = (\<lambda>(tc, re).
     if tc = T_NOTIFY then pub_notify subs req_tid re
     else if tc = T_SUBSCRIBE then pub_subscribe subs req_tid
     else do { kassert False; Some ([], subs) })"

(* src/include/user/train/virtual_provider.h:10-17 *)
datatype VirtualEventRequestType = VER_REGISTER | VER_EVENT | VER_NOTIFY_READY | VER_NOTIFY | VER_SUBSCRIBE

(* src/src/user/train/virtual_provider.c:17-31 *)
definition VirtualEventPublisher :: "int cbuf \<Rightarrow> int \<Rightarrow> VirtualEventRequestType \<times> VirtualEvent \<Rightarrow>
    (VirtualEvent pub_out list \<times> int cbuf) option" where
  "VirtualEventPublisher subs req_tid = (\<lambda>(ty, ve).
     if ty = VER_NOTIFY then pub_notify subs req_tid ve
     else if ty = VER_SUBSCRIBE then pub_subscribe subs req_tid
     else do { kassert False; Some ([], subs) })"

section \<open>Providers\<close>

text \<open>A registered event is announced at once and, if it has a time, happens at that time: what
  \<^verbatim>\<open>AdHocVirtualEvent\<close> sends to the publisher, with the delay before each. \<open>time\<close> is what the clock server answers.\<close>

(* src/src/user/train/virtual_provider.c:58-85 *)
definition AdHocVirtualEvent :: "VirtualEvent \<Rightarrow> int \<Rightarrow> (int \<times> VirtualEventRequestType \<times> VirtualEvent) list" where
  "AdHocVirtualEvent ve time =
     (0, VER_NOTIFY, ve\<lparr>ve_type := VE_REG\<rparr>) #
     (if ve_timestamp ve \<noteq> - 1 then
        [(if time < ve_timestamp ve then ve_timestamp ve - time else 0, VER_NOTIFY, ve)]
      else [])"

datatype vp_out = VpReply int | VpSpawn VirtualEvent

(* src/src/user/train/virtual_provider.c:102-112 *)
definition VirtualProvider :: "int \<Rightarrow> VirtualEventRequestType \<times> VirtualEvent \<Rightarrow> vp_out list option" where
  "VirtualProvider req_tid = (\<lambda>(ty, ve).
     if ty = VER_REGISTER then Some [VpSpawn ve, VpReply req_tid]
     else do { kassert False; Some [] })"

text \<open>The sensor provider collects the bytes of a reading. Its array is not initialised: it is an argument.\<close>

record sensor_provider =
  sp_scounter :: int
  sp_recFlag :: bool
  sp_courierFlag :: bool
  sp_dataFlag :: bool
  sp_sensors :: "u8 list"

datatype sp_out = SpReply int | SpReplyFlag int bool | SpReplyData "u8 list" | SpPoll

(* src/src/user/train/sensor_provider.c:140-158 *)
definition sensor_provider_init :: "u8 list \<Rightarrow> sensor_provider" where
  "sensor_provider_init sensors =
     \<lparr>sp_scounter = 0, sp_recFlag = False, sp_courierFlag = False, sp_dataFlag = False, sp_sensors = sensors\<rparr>"

text \<open>One turn of the loop: what is sent before the receipt, and what the request causes.\<close>

(* src/src/user/train/sensor_provider.c:159-201 *)
definition SensorProvider :: "sensor_provider \<Rightarrow> int \<Rightarrow> SN_Request \<times> u8 \<Rightarrow> (sp_out list \<times> sensor_provider) option" where
  "SensorProvider p tid_req = (\<lambda>(snr, byte).
     (let (outs, p) = (if sp_dataFlag p \<and> sp_courierFlag p
            then ([SpReplyData (sp_sensors p)], p\<lparr>sp_dataFlag := False, sp_courierFlag := False\<rparr>) else ([], p))
      in if snr = SN_READBYTE then do {
           ss \<leftarrow> asetz (sp_sensors p) (sp_scounter p) byte;
           let sc = c_mod (sp_scounter p + 1) (int DECODER_SIZE * 2);
           let p = p\<lparr>sp_sensors := ss, sp_scounter := sc,
                 sp_dataFlag := sp_dataFlag p \<or> sc = 0, sp_recFlag := sp_recFlag p \<or> c_mod sc 2 = 0\<rparr>;
           Some (outs @ SpReply tid_req # (if sc = 0 then [SpPoll] else []), p) }
         else if snr = SN_CHECK then Some (outs @ [SpReplyFlag tid_req (sp_recFlag p)], p\<lparr>sp_recFlag := False\<rparr>)
         else if snr = SN_RESET then
           Some (outs @ [SpReply tid_req, SpPoll], p\<lparr>sp_recFlag := False, sp_scounter := 0\<rparr>)
         else if snr = SN_NOTIFY_READY then Some (outs, p\<lparr>sp_courierFlag := True\<rparr>)
         else if snr = SN_HALT then Some (outs @ [SpReply tid_req], p)
         else do { kassert False; Some (outs, p) }))"

text \<open>The switch provider keeps one event for its courier. \<open>time\<close> is what the clock server answers.\<close>

record switch_provider =
  wp_courierFlag :: bool
  wp_switchFlag :: bool
  wp_data :: "RawEvent option"

datatype wp_out = WpReply int | WpReplyData "RawEvent option" | WpHandle SWProtocol

(* src/src/user/train/switch_provider.c:138-154 *)
definition switch_provider_init :: switch_provider where
  "switch_provider_init = \<lparr>wp_courierFlag = False, wp_switchFlag = False, wp_data = None\<rparr>"

(* src/src/user/train/switch_provider.c:156-183 *)
definition SwitchProvider :: "switch_provider \<Rightarrow> int \<Rightarrow> SWProtocol \<Rightarrow> int \<Rightarrow> (wp_out list \<times> switch_provider) option" where
  "SwitchProvider p req_tid sw time =
     (let (outs, p) = (if wp_courierFlag p \<and> wp_switchFlag p
            then ([WpReplyData (wp_data p)], p\<lparr>wp_courierFlag := False, wp_switchFlag := False\<rparr>) else ([], p))
      in if sw_swr sw = SW_FLIP then
           Some (outs @ [WpHandle sw, WpReply req_tid], p\<lparr>wp_switchFlag := True,
             wp_data := Some \<lparr>re_type = RE_SW, re_timestamp = time, re_event = SwEvent sw\<rparr>\<rparr>)
         else if sw_swr sw = SW_NOTIFY_READY then Some (outs, p\<lparr>wp_courierFlag := True\<rparr>)
         else do { kassert False; Some (outs, p) })"

datatype tp_out = TpReply int | TpWrite TrainProtocol

(* src/src/user/train/train_provider.c:111-127 *)
definition TrainProvider :: "int \<Rightarrow> TrainProtocol \<Rightarrow> tp_out list option" where
  "TrainProvider tid_req tp =
     (if tp_tc tp = T_MOVE then Some [TpReply tid_req, TpWrite tp]
      else if tp_tc tp = T_INIT then Some [TpReply tid_req, TpWrite tp]
      else do { kassert False; Some [] })"

text \<open>The bytes for the controller, and the event for the publisher.\<close>

(* src/src/user/train/train_provider.c:35-74 *)
definition TWriteTask :: "TrainProtocol \<Rightarrow> int \<Rightarrow> (u8 list \<times> RawEvent) option" where
  "TWriteTask cmd time = do {
     (bytes, ty) \<leftarrow> (if tp_tc cmd = T_MOVE then Some ([tp_arg2 cmd, tp_arg1 cmd], RE_TR_CMD)
                    else if tp_tc cmd = T_INIT then Some ([], RE_TR_INIT)
                    else do { kassert False; Some ([], RE_NONE) });
     Some (bytes, \<lparr>re_type = ty, re_timestamp = time, re_event = TrCmdEvent cmd\<rparr>) }"

section \<open>Sensor readings to events\<close>

(* src/include/lib/train/sensor.h:11-11 *)
definition GET_SENSOR :: "u8 \<Rightarrow> nat \<Rightarrow> int" where
  "GET_SENSOR dec sensor = uint (drop_bit sensor dec AND 1)"

definition sensor_event :: "int \<Rightarrow> int \<Rightarrow> int \<Rightarrow> RawEvent" where
  "sensor_event ts i st = \<lparr>re_type = RE_SE, re_timestamp = ts, re_event = SeEvent \<lparr>se_state = st, se_id = i\<rparr>\<rparr>"

(* src/src/user/train/waiting_room.c:27-33 *)
fun delta_bits :: "int \<Rightarrow> nat \<Rightarrow> u8 \<Rightarrow> u8 \<Rightarrow> nat \<Rightarrow> nat \<Rightarrow> RawEvent list" where
  "delta_bits ts i new_dec old_dec j 0 = []"
| "delta_bits ts i new_dec old_dec j (Suc n) =
     (if GET_SENSOR new_dec j \<noteq> GET_SENSOR old_dec j
      then [sensor_event ts (int (i * 8) + (7 - int j)) (GET_SENSOR new_dec j)] else []) @
     delta_bits ts i new_dec old_dec (j + 1) n"

(* src/src/user/train/waiting_room.c:20-34 *)
fun delta_decs :: "int \<Rightarrow> u8 list \<Rightarrow> u8 list \<Rightarrow> nat \<Rightarrow> nat \<Rightarrow> RawEvent list option" where
  "delta_decs ts new_sensors old_sensors i 0 = Some []"
| "delta_decs ts new_sensors old_sensors i (Suc n) = do {
     new_dec \<leftarrow> aget new_sensors i;
     old_dec \<leftarrow> aget old_sensors i;
     rest \<leftarrow> delta_decs ts new_sensors old_sensors (i + 1) n;
     Some ((if new_dec = old_dec then [] else delta_bits ts i new_dec old_dec 0 8) @ rest) }"

text \<open>The events that are sent, in order; \<open>ts\<close> is what the clock server answers.\<close>

(* src/src/user/train/waiting_room.c:9-35 *)
definition SendSensorDelta :: "int \<Rightarrow> u8 list \<Rightarrow> u8 list \<Rightarrow> RawEvent list option" where
  "SendSensorDelta ts new_sensors old_sensors = delta_decs ts new_sensors old_sensors 0 (DECODER_SIZE * 2)"

(* src/src/lib/train/sensor.c:3-8 *)
definition init_sensors :: "u8 list" where
  "init_sensors = replicate (DECODER_SIZE * 2) 0"

text \<open>Sensor \<open>s\<close> is bit \<open>7 - s mod 8\<close> of byte \<open>s div 8\<close>.\<close>

definition sensor_bit :: "u8 list \<Rightarrow> nat \<Rightarrow> int" where
  "sensor_bit xs s = GET_SENSOR (xs ! (s div 8)) (7 - s mod 8)"

definition changed :: "u8 list \<Rightarrow> u8 list \<Rightarrow> nat \<Rightarrow> nat \<Rightarrow> nat set" where
  "changed new old a b = {s. a \<le> s \<and> s < b \<and> sensor_bit new s \<noteq> sensor_bit old s}"

abbreviation id_of :: "RawEvent \<Rightarrow> int" where
  "id_of e \<equiv> (case re_event e of SeEvent x \<Rightarrow> se_id x | _ \<Rightarrow> - 1)"

definition delta_ok :: "int \<Rightarrow> u8 list \<Rightarrow> u8 list \<Rightarrow> nat set \<Rightarrow> RawEvent list \<Rightarrow> bool" where
  "delta_ok ts new old S es \<longleftrightarrow> set es = (\<lambda>s. sensor_event ts (int s) (sensor_bit new s)) ` S \<and> distinct (map id_of es)"

lemma id_sensor [simp]: "id_of (sensor_event ts i st) = i"
  by (simp add: sensor_event_def)

lemma delta_ok_Nil [simp]: "delta_ok ts new old {} []"
  by (simp add: delta_ok_def)

lemma delta_ok_append:
  assumes "delta_ok ts new old S es" "delta_ok ts new old T fs" "S \<inter> T = {}"
  shows "delta_ok ts new old (S \<union> T) (es @ fs)"
proof -
  have "id_of ` set es = int ` S" "id_of ` set fs = int ` T"
    using assms(1,2) by (simp_all add: delta_ok_def image_image)
  then have "id_of ` set es \<inter> id_of ` set fs = {}" using assms(3) by auto
  then show ?thesis using assms by (simp add: delta_ok_def image_Un)
qed

lemma delta_bits_ok:
  "j + n = 8 \<Longrightarrow> delta_ok ts new old (changed new old (i * 8) (i * 8 + n)) (delta_bits ts i (new ! i) (old ! i) j n)"
proof (induction n arbitrary: j)
  case 0
  have "changed new old (i * 8) (i * 8) = {}" by (auto simp: changed_def)
  then show ?case by simp
next
  case (Suc n)
  have d: "(i * 8 + n) div 8 = i" "7 - (i * 8 + n) mod 8 = j" using Suc.prems by auto
  have b: "sensor_bit new (i * 8 + n) = GET_SENSOR (new ! i) j" "sensor_bit old (i * 8 + n) = GET_SENSOR (old ! i) j"
    by (simp_all only: sensor_bit_def d)
  have id: "int (i * 8) + (7 - int j) = int (i * 8 + n)" using Suc.prems by simp
  let ?S = "if GET_SENSOR (new ! i) j \<noteq> GET_SENSOR (old ! i) j then {i * 8 + n} else {}"
  have "delta_ok ts new old ?S (if GET_SENSOR (new ! i) j \<noteq> GET_SENSOR (old ! i) j
      then [sensor_event ts (int (i * 8) + (7 - int j)) (GET_SENSOR (new ! i) j)] else [])"
    unfolding id by (simp add: delta_ok_def b)
  moreover have "changed new old (i * 8) (i * 8 + Suc n) = ?S \<union> changed new old (i * 8) (i * 8 + n)"
    using b by (auto simp: changed_def less_Suc_eq)
  moreover have "?S \<inter> changed new old (i * 8) (i * 8 + n) = {}" by (auto simp: changed_def)
  ultimately show ?case
    unfolding delta_bits.simps using delta_ok_append Suc.IH [of "j + 1"] Suc.prems by simp
qed

lemma delta_decs_ok:
  assumes "length new = DECODER_SIZE * 2" "length old = DECODER_SIZE * 2"
  shows "i + n = DECODER_SIZE * 2 \<Longrightarrow> \<exists>es. delta_decs ts new old i n = Some es \<and> delta_ok ts new old (changed new old (i * 8) 80) es"
proof (induction n arbitrary: i)
  case 0
  then have "changed new old (i * 8) 80 = {}" by (auto simp: changed_def)
  then show ?case by simp
next
  case (Suc n)
  obtain es where es: "delta_decs ts new old (i + 1) n = Some es" "delta_ok ts new old (changed new old ((i + 1) * 8) 80) es"
    using Suc.IH [of "i + 1"] Suc.prems by auto
  have i: "i < 10" using Suc.prems by simp
  let ?b = "if new ! i = old ! i then [] else delta_bits ts i (new ! i) (old ! i) 0 8"
  have b: "delta_ok ts new old (changed new old (i * 8) (i * 8 + 8)) ?b"
  proof (cases "new ! i = old ! i")
    case True
    have "s div 8 = i" if "i * 8 \<le> s" "s < i * 8 + 8" for s using that by auto
    then have "changed new old (i * 8) (i * 8 + 8) = {}" using True by (auto simp: changed_def sensor_bit_def)
    then show ?thesis using True by simp
  next
    case False
    then show ?thesis using delta_bits_ok [of 0 8] by simp
  qed
  have "changed new old (i * 8) 80 = changed new old (i * 8) (i * 8 + 8) \<union> changed new old ((i + 1) * 8) 80"
    using i by (auto simp: changed_def)
  moreover have "changed new old (i * 8) (i * 8 + 8) \<inter> changed new old ((i + 1) * 8) 80 = {}" by (auto simp: changed_def)
  ultimately have "delta_ok ts new old (changed new old (i * 8) 80) (?b @ es)"
    using delta_ok_append [OF b es(2)] by simp
  then show ?case using es(1) i assms by simp
qed

text \<open>Two readings of the ten decoder bytes give exactly one event for each sensor whose bit changed, with its
  number and its new state, and no other event.\<close>

theorem sensor_delta_exact:
  assumes "length new = DECODER_SIZE * 2" "length old = DECODER_SIZE * 2"
  shows "\<exists>es. SendSensorDelta ts new old = Some es \<and> distinct (map id_of es) \<and>
    set es = {sensor_event ts (int s) (sensor_bit new s) | s. s < 80 \<and> sensor_bit new s \<noteq> sensor_bit old s}"
proof -
  obtain es where "delta_decs ts new old 0 10 = Some es" "delta_ok ts new old (changed new old 0 80) es"
    using delta_decs_ok [OF assms, of 0 10 ts] by auto
  then show ?thesis by (auto simp: SendSensorDelta_def delta_ok_def changed_def)
qed

theorem sensor_delta_exact_witness:
  "\<exists>es. SendSensorDelta 7 (1 # replicate 9 0) init_sensors = Some es \<and> distinct (map id_of es) \<and>
    set es = {sensor_event 7 (int s) (sensor_bit (1 # replicate 9 0) s) | s. s < 80 \<and>
      sensor_bit (1 # replicate 9 0) s \<noteq> sensor_bit init_sensors s}"
  using sensor_delta_exact [of "1 # replicate 9 0" init_sensors 7] by (simp add: init_sensors_def)

text \<open>A switch that is thrown before the courier has asked for the one before it replaces it: that change of the
  track is never published.\<close>

theorem switch_update_lost:
  assumes "sw_swr a = SW_FLIP" "sw_swr b = SW_FLIP" "sw_swr c = SW_NOTIFY_READY"
  shows "\<exists>p1 p2 p3 o1 o2. SwitchProvider switch_provider_init t1 a ts1 = Some (o1, p1) \<and>
    SwitchProvider p1 t2 b ts2 = Some (o2, p2) \<and> SwitchProvider p2 t3 c ts3 = Some ([], p3) \<and>
    o1 = [WpHandle a, WpReply t1] \<and> o2 = [WpHandle b, WpReply t2] \<and>
    (\<forall>t4 d ts4 o4 p4. SwitchProvider p3 t4 d ts4 = Some (o4, p4) \<longrightarrow>
       hd o4 = WpReplyData (Some \<lparr>re_type = RE_SW, re_timestamp = ts2, re_event = SwEvent b\<rparr>))"
  using assms by (auto simp: SwitchProvider_def switch_provider_init_def Let_def split: if_splits)

end
