(* ===== verification/WaitingRoom.thy ===== *)
theory WaitingRoom
  imports Events EventWindow
begin

text \<open>
  The waiting room, user/train/waiting_room.c: a server that pairs what happens on the track (raw events)
  with what was expected (virtual events), and hands the groups to a courier one at a time. An expected event is
  kept in \<^verbatim>\<open>waiting\<close> at its key and the key queues at the sensor it is expected at; the event leaves when the
  sensor is hit, when it times out, or when the train's next expectation at the sensor replaces it. What the server
  logs is left out; the tids it looks up are asserted to be positive, and are the environment's.
\<close>

abbreviation EVENT_GROUP_BUFFER_SIZE :: nat where "EVENT_GROUP_BUFFER_SIZE \<equiv> 32"
abbreviation VE_KEY_BUFFER_SIZE :: nat where "VE_KEY_BUFFER_SIZE \<equiv> 8"
abbreviation MAX_LIVE_TRAINS :: nat where "MAX_LIVE_TRAINS \<equiv> 10"
abbreviation MAX_KEYS :: nat where "MAX_KEYS \<equiv> 640"
abbreviation WR_TRAIN_MAX :: nat where "WR_TRAIN_MAX \<equiv> 81"
abbreviation WR_SENSOR_SIZE :: nat where "WR_SENSOR_SIZE \<equiv> 80"

section \<open>State\<close>

(* src/src/user/train/waiting_room.c:470-478 *)
record waiting_room =
  wr_courier :: int
  wr_waiting :: "VirtualEvent list"
  wr_sensorToVE :: "int cbuf list"
  wr_live :: int
  wr_trainMap :: "int list"
  wr_liveMap :: "int list"
  wr_dataBuf :: "EventGroup cbuf"

(* src/src/user/train/waiting_room.c:447-455 *)
definition init_waiting_room :: "VirtualEvent list \<Rightarrow> int cbuf list \<Rightarrow> VirtualEvent list \<times> int cbuf list" where
  "init_waiting_room waiting mp = (map (ve_type_update (\<lambda>_. VE_NONE)) waiting, map cb_init mp)"

(* src/src/user/train/waiting_room.c:458-463 *)
definition init_train_map :: "int list" where
  "init_train_map = replicate WR_TRAIN_MAX (- 1)"

text \<open>The arrays before their initialisation are arguments.\<close>

(* src/src/user/train/waiting_room.c:470-482 *)
definition waiting_room_init :: "VirtualEvent list \<Rightarrow> int cbuf list \<Rightarrow> EventGroup cbuf \<Rightarrow> waiting_room" where
  "waiting_room_init waiting mp buf =
     (let (waiting, mp) = init_waiting_room waiting mp
      in \<lparr>wr_courier = - 1, wr_waiting = waiting, wr_sensorToVE = mp, wr_live = 0, wr_trainMap = init_train_map,
          wr_liveMap = init_train_map, wr_dataBuf = cb_init buf\<rparr>)"

section \<open>Handlers\<close>

(* src/src/user/train/waiting_room.c:162-164 *)
definition reset_waiting_room :: "int \<Rightarrow> waiting_room \<Rightarrow> waiting_room option" where
  "reset_waiting_room key s = do {
     v \<leftarrow> agetz (wr_waiting s) key;
     ws \<leftarrow> asetz (wr_waiting s) key (v\<lparr>ve_type := VE_NONE\<rparr>);
     Some (s\<lparr>wr_waiting := ws\<rparr>) }"

text \<open>\<^verbatim>\<open>r = eg_cb_push(dataBuf, eg); assert(r != CB_E_FULL);\<close>\<close>

definition eg_push :: "EventGroup \<Rightarrow> waiting_room \<Rightarrow> waiting_room option" where
  "eg_push eg s = do {
     (r, q) \<leftarrow> cb_push EVENT_GROUP_BUFFER_SIZE eg (wr_dataBuf s);
     kassert (r \<noteq> CB_E_FULL);
     Some (s\<lparr>wr_dataBuf := q\<rparr>) }"

text \<open>\<^verbatim>\<open>eg.ve.event.train_at.train_num = liveMap[eg.ve.event.train_at.train_num]\<close>\<close>

definition live_num :: "waiting_room \<Rightarrow> VirtualEvent \<Rightarrow> VirtualEvent option" where
  "live_num s ve = do {
     n \<leftarrow> agetz (wr_liveMap s) (ve_train_num ve);
     Some (ve\<lparr>ve_train_num := n\<rparr>) }"

text \<open>The queue of a sensor, and its replacement.\<close>

definition wr_key_pop :: "int \<Rightarrow> waiting_room \<Rightarrow> (cb_code \<times> int option \<times> waiting_room) option" where
  "wr_key_pop sensor s = do {
     q \<leftarrow> agetz (wr_sensorToVE s) sensor;
     (r, k, q) \<leftarrow> cb_pop VE_KEY_BUFFER_SIZE q;
     qs \<leftarrow> asetz (wr_sensorToVE s) sensor q;
     Some (r, k, s\<lparr>wr_sensorToVE := qs\<rparr>) }"

definition wr_key_push :: "int \<Rightarrow> int \<Rightarrow> waiting_room \<Rightarrow> waiting_room option" where
  "wr_key_push sensor key s = do {
     q \<leftarrow> agetz (wr_sensorToVE s) sensor;
     (r, q) \<leftarrow> cb_push VE_KEY_BUFFER_SIZE key q;
     kassert (r \<noteq> CB_E_FULL);
     qs \<leftarrow> asetz (wr_sensorToVE s) sensor q;
     Some (s\<lparr>wr_sensorToVE := qs\<rparr>) }"

definition wr_key_size :: "int \<Rightarrow> waiting_room \<Rightarrow> int option" where
  "wr_key_size sensor s = do { q \<leftarrow> agetz (wr_sensorToVE s) sensor; Some (sint (cb_size q)) }"

text \<open>A timeout task is created for an expected event that is still registered when its time comes.\<close>

(* src/src/user/train/waiting_room.c:187-203 *)
definition handle_ve_tr_at :: "VirtualEvent \<Rightarrow> waiting_room \<Rightarrow> VirtualEvent list option" where
  "handle_ve_tr_at ve s = do {
     let key = ve_train_num ve * int KEY_MAX + ve_key ve;
     kassert (0 \<le> key \<and> key < int KEY_MAX * int MAX_LIVE_TRAINS);
     w \<leftarrow> agetz (wr_waiting s) key;
     Some (if ve_type w = VE_REG then [ve] else []) }"

text \<open>The loop's bound is the size of the queue, which shrinks as keys are dropped.\<close>

(* src/src/user/train/waiting_room.c:213-232 *)
partial_function (option) drop_registrations :: "int \<Rightarrow> int \<Rightarrow> int \<Rightarrow> waiting_room \<Rightarrow> waiting_room option" where
  "drop_registrations sensor base i s = do {
     n \<leftarrow> wr_key_size sensor s;
     if i < n then do {
       (r, reged, s) \<leftarrow> wr_key_pop sensor s;
       kassert (r \<noteq> CB_E_EMPTY);
       reged \<leftarrow> reged;
       if \<not> (0 \<le> reged - base \<and> reged - base < int KEY_MAX) then do {
         s \<leftarrow> wr_key_push sensor reged s;
         drop_registrations sensor base (i + 1) s }
       else do {
         w \<leftarrow> agetz (wr_waiting s) reged;
         ve \<leftarrow> live_num s w;
         s \<leftarrow> eg_push \<lparr>eg_type = VRE_VE, eg_re = None, eg_ve = Some ve\<rparr> s;
         kassert (0 \<le> reged \<and> reged < int MAX_LIVE_TRAINS * int KEY_MAX);
         s \<leftarrow> reset_waiting_room reged s;
         drop_registrations sensor base (i + 1) s } }
     else Some s }"

(* src/src/user/train/waiting_room.c:205-236 *)
definition add_train_unique_registration :: "int \<Rightarrow> VirtualEvent \<Rightarrow> waiting_room \<Rightarrow> waiting_room option" where
  "add_train_unique_registration sensor ve s = do {
     let train_num = ve_train_num ve;
     let key = train_num * int KEY_MAX + ve_key ve;
     s \<leftarrow> drop_registrations sensor (train_num * int KEY_MAX) 0 s;
     wr_key_push sensor key s }"

(* src/src/user/train/waiting_room.c:238-257 *)
definition handle_ve_reg :: "track \<Rightarrow> VirtualEvent \<Rightarrow> waiting_room \<Rightarrow> waiting_room option" where
  "handle_ve_reg t ve s = do {
     i \<leftarrow> ve_node ve;
     n \<leftarrow> aget t i;
     let sensor = n_num n;
     let key = ve_train_num ve * int KEY_MAX + ve_key ve;
     kassert (0 \<le> sensor \<and> sensor < int WR_SENSOR_SIZE);
     kassert (0 \<le> key \<and> key < int MAX_LIVE_TRAINS * int KEY_MAX);
     s \<leftarrow> add_train_unique_registration sensor ve s;
     w \<leftarrow> agetz (wr_waiting s) key;
     kassert (ve_type w = VE_NONE);
     ws \<leftarrow> asetz (wr_waiting s) key ve;
     Some (s\<lparr>wr_waiting := ws\<rparr>) }"

text \<open>What a request makes the server do: reply to a task, hand a group to the courier, create a timeout task.\<close>

datatype wr_out = WrAck int | WrGroup int EventGroup | WrTimeout VirtualEvent

(* src/src/user/train/waiting_room.c:259-270 *)
definition HandleWR_VE :: "track \<Rightarrow> VirtualEvent \<Rightarrow> waiting_room \<Rightarrow> (wr_out list \<times> waiting_room) option" where
  "HandleWR_VE t ve s =
     (if ve_type ve = VE_TR_AT then do {
        ts \<leftarrow> handle_ve_tr_at ve s;
        Some (map WrTimeout ts, s) }
      else if ve_type ve = VE_REG then do {
        s \<leftarrow> handle_ve_reg t ve s;
        Some ([], s) }
      else do { kassert False; Some ([], s) })"

(* src/src/user/train/waiting_room.c:315-361 *)
definition handle_re_se :: "RawEvent \<Rightarrow> waiting_room \<Rightarrow> waiting_room option" where
  "handle_re_se re s = do {
     sensor \<leftarrow> (case re_event re of SeEvent se \<Rightarrow> Some (se_id se) | _ \<Rightarrow> None);
     kassert (0 \<le> sensor);
     n \<leftarrow> wr_key_size sensor s;
     if 0 < n then do {
       (r, key, s) \<leftarrow> wr_key_pop sensor s;
       kassert (r = CB_E_NONE);
       key \<leftarrow> key;
       w \<leftarrow> agetz (wr_waiting s) key;
       ve \<leftarrow> live_num s w;
       s \<leftarrow> eg_push \<lparr>eg_type = (if ve_type w = VE_REG then VRE_RE else VRE_VE_RE), eg_re = Some re, eg_ve = Some ve\<rparr> s;
       reset_waiting_room key s }
     else eg_push \<lparr>eg_type = RE, eg_re = Some re, eg_ve = None\<rparr> s }"

(* src/src/user/train/waiting_room.c:363-386 *)
definition HandleWR_RE :: "RawEvent \<Rightarrow> waiting_room \<Rightarrow> waiting_room option" where
  "HandleWR_RE re s =
     (if re_type re = RE_SE then handle_re_se re s
      else if re_type re = RE_SW \<or> re_type re = RE_TR_CMD \<or> re_type re = RE_TR_INIT then
        eg_push \<lparr>eg_type = RE, eg_re = Some re, eg_ve = None\<rparr> s
      else do { kassert False; Some s })"

text \<open>One turn of the search for the key that has timed out; the search ends with the first match.\<close>

(* src/src/user/train/waiting_room.c:402-420 *)
fun expire_key :: "int \<Rightarrow> int \<Rightarrow> VirtualEvent \<Rightarrow> nat \<Rightarrow> waiting_room \<Rightarrow> waiting_room option" where
  "expire_key sensor want ve 0 s = Some s"
| "expire_key sensor want ve (Suc n) s = do {
     (r, key, s) \<leftarrow> wr_key_pop sensor s;
     kassert (r \<noteq> CB_E_EMPTY);
     key \<leftarrow> key;
     if key = want then do {
       ve' \<leftarrow> live_num s ve;
       s \<leftarrow> eg_push \<lparr>eg_type = VRE_VE, eg_re = None, eg_ve = Some ve'\<rparr> s;
       kassert (0 \<le> key \<and> key < int MAX_LIVE_TRAINS * int KEY_MAX);
       reset_waiting_room key s }
     else do {
       s \<leftarrow> wr_key_push sensor key s;
       expire_key sensor want ve n s } }"

(* src/src/user/train/waiting_room.c:388-434 *)
definition handle_to_tr_at :: "track \<Rightarrow> VirtualEvent \<Rightarrow> waiting_room \<Rightarrow> waiting_room option" where
  "handle_to_tr_at t ve s = do {
     i \<leftarrow> ve_node ve;
     n \<leftarrow> aget t i;
     let sensor = n_num n;
     kassert (0 \<le> sensor);
     let key = ve_train_num ve * int KEY_MAX + ve_key ve;
     n \<leftarrow> wr_key_size sensor s;
     s \<leftarrow> (if 0 < n then expire_key sensor key ve (nat n) s else Some s);
     w \<leftarrow> agetz (wr_waiting s) key;
     if ve_type w \<noteq> VE_NONE then do {
       ve' \<leftarrow> live_num s ve;
       s \<leftarrow> eg_push \<lparr>eg_type = VRE_VE, eg_re = None, eg_ve = Some ve'\<rparr> s;
       reset_waiting_room key s }
     else Some s }"

(* src/src/user/train/waiting_room.c:436-445 *)
definition HandleWR_TO :: "track \<Rightarrow> VirtualEvent \<Rightarrow> waiting_room \<Rightarrow> waiting_room option" where
  "HandleWR_TO t ve s =
     (if ve_type ve = VE_TR_AT then handle_to_tr_at t ve s else do { kassert False; Some s })"

section \<open>The server\<close>

(* src/include/user/train/waiting_room.h:13-28 *)
datatype WRRequest = WR_VE VirtualEvent | WR_RE RawEvent | WR_CE | WR_TO VirtualEvent

text \<open>Trains are numbered in the order in which they are first mentioned.\<close>

(* src/src/user/train/waiting_room.c:512-522 *)
definition wr_live_train :: "VirtualEvent \<Rightarrow> waiting_room \<Rightarrow> (VirtualEvent \<times> waiting_room) option" where
  "wr_live_train ve s = do {
     kassert (1 \<le> ve_train_num ve \<and> ve_train_num ve \<le> int WR_TRAIN_MAX);
     kassert (0 \<le> ve_key ve \<and> ve_key ve < int KEY_MAX);
     l \<leftarrow> agetz (wr_trainMap s) (ve_train_num ve);
     if l = - 1 then do {
       tm \<leftarrow> asetz (wr_trainMap s) (ve_train_num ve) (wr_live s);
       lm \<leftarrow> asetz (wr_liveMap s) (wr_live s) (ve_train_num ve);
       Some (ve\<lparr>ve_train_num := wr_live s\<rparr>, s\<lparr>wr_trainMap := tm, wr_liveMap := lm, wr_live := wr_live s + 1\<rparr>) }
     else Some (ve\<lparr>ve_train_num := l\<rparr>, s) }"

(* src/src/user/train/waiting_room.c:499-504 *)
definition wr_deliver :: "waiting_room \<Rightarrow> (wr_out list \<times> waiting_room) option" where
  "wr_deliver s =
     (if 0 < sint (cb_size (wr_dataBuf s)) \<and> 0 < wr_courier s then do {
        (r, data, q) \<leftarrow> cb_pop EVENT_GROUP_BUFFER_SIZE (wr_dataBuf s);
        kassert (r \<noteq> CB_E_EMPTY);
        data \<leftarrow> data;
        Some ([WrGroup (wr_courier s) data], s\<lparr>wr_dataBuf := q, wr_courier := - 1\<rparr>) }
      else Some ([], s))"

(* src/src/user/train/waiting_room.c:506-538 *)
definition wr_handle :: "track \<Rightarrow> int \<Rightarrow> WRRequest \<Rightarrow> waiting_room \<Rightarrow> (wr_out list \<times> waiting_room) option" where
  "wr_handle t req_tid req s =
     (case req of
        WR_VE ve \<Rightarrow> do {
          (ve, s) \<leftarrow> wr_live_train ve s;
          (outs, s) \<leftarrow> HandleWR_VE t ve s;
          Some (WrAck req_tid # outs, s) }
      | WR_RE re \<Rightarrow> do { s \<leftarrow> HandleWR_RE re s; Some ([WrAck req_tid], s) }
      | WR_TO ve \<Rightarrow> do { s \<leftarrow> HandleWR_TO t ve s; Some ([WrAck req_tid], s) }
      | WR_CE \<Rightarrow> Some ([], s\<lparr>wr_courier := req_tid\<rparr>))"

(* src/src/user/train/waiting_room.c:497-539 *)
definition WaitingRoom :: "track \<Rightarrow> int \<Rightarrow> WRRequest \<Rightarrow> waiting_room \<Rightarrow> (wr_out list \<times> waiting_room) option" where
  "WaitingRoom t req_tid req s = do {
     (os, s) \<leftarrow> wr_deliver s;
     (os', s) \<leftarrow> wr_handle t req_tid req s;
     Some (os @ os', s) }"

end
