(* ===== verification/WaitingRoomProps.thy ===== *)
theory WaitingRoomProps
  imports WaitingRoom
begin

text \<open>
  The properties of the waiting room: raw events are passed on in order and none is lost, and an expected
  event waits at exactly the sensor it is expected at until that sensor is hit.
\<close>

section \<open>Raw events are passed on\<close>

fun raw_of :: "EventGroup \<Rightarrow> RawEvent list" where
  "raw_of g = (case eg_re g of Some re \<Rightarrow> [re] | None \<Rightarrow> [])"

abbreviation raws :: "EventGroup list \<Rightarrow> RawEvent list" where
  "raws gs \<equiv> concat (map raw_of gs)"

abbreviation groups :: "waiting_room \<Rightarrow> EventGroup list" where
  "groups s \<equiv> cb_list EVENT_GROUP_BUFFER_SIZE (wr_dataBuf s)"

text \<open>\<open>adds s s' res\<close>: the groups of \<open>s'\<close> are those of \<open>s\<close> and then ones with the raw events \<open>res\<close>.\<close>

definition adds :: "waiting_room \<Rightarrow> waiting_room \<Rightarrow> RawEvent list \<Rightarrow> bool" where
  "adds s s' res \<longleftrightarrow> (cb_wf EVENT_GROUP_BUFFER_SIZE (wr_dataBuf s) \<longrightarrow>
     cb_wf EVENT_GROUP_BUFFER_SIZE (wr_dataBuf s') \<and> (\<exists>gs. groups s' = groups s @ gs \<and> raws gs = res))"

lemma adds_same: "wr_dataBuf s' = wr_dataBuf s \<Longrightarrow> adds s s' []"
  by (simp add: adds_def)

lemma adds_trans: "adds s s1 r1 \<Longrightarrow> adds s1 s2 r2 \<Longrightarrow> adds s s2 (r1 @ r2)"
  by (fastforce simp: adds_def)

lemma adds_more: "adds s s1 r \<Longrightarrow> adds s1 s2 [] \<Longrightarrow> adds s s2 r"
  using adds_trans by fastforce

lemma eg_push_ok:
  assumes "cb_wf EVENT_GROUP_BUFFER_SIZE (wr_dataBuf s)" "eg_push g s = Some s'"
  shows "\<exists>q. s' = s\<lparr>wr_dataBuf := q\<rparr> \<and> cb_wf EVENT_GROUP_BUFFER_SIZE q \<and> cb_list EVENT_GROUP_BUFFER_SIZE q = groups s @ [g] \<and>
    length (groups s) < EVENT_GROUP_BUFFER_SIZE"
proof -
  obtain r q where q: "cb_push EVENT_GROUP_BUFFER_SIZE g (wr_dataBuf s) = Some (r, q)" "r \<noteq> CB_E_FULL" "s' = s\<lparr>wr_dataBuf := q\<rparr>"
    using assms(2) by (auto simp: eg_push_def elim!: bind_SomeE)
  have "r = CB_E_NONE" using cbq.push_not_NONE [OF assms(1) q(1)] q(2) by blast
  then show ?thesis using cbq.push_NONE [OF assms(1), of g q] q(1,3) by blast
qed

lemma eg_push_adds: "eg_push g s = Some s' \<Longrightarrow> adds s s' (raw_of g)"
  using eg_push_ok [of s g s'] by (auto simp: adds_def)

lemma key_pop_adds: "wr_key_pop q s = Some (r, k, s') \<Longrightarrow> adds s s' []"
  by (auto simp: wr_key_pop_def intro!: adds_same elim!: bind_SomeE)

lemma key_push_adds: "wr_key_push q k s = Some s' \<Longrightarrow> adds s s' []"
  by (auto simp: wr_key_push_def intro!: adds_same elim!: bind_SomeE)

lemma reset_adds: "reset_waiting_room k s = Some s' \<Longrightarrow> adds s s' []"
  by (auto simp: reset_waiting_room_def intro!: adds_same elim!: bind_SomeE)

lemma push_reset_adds:
  assumes "eg_push g s = Some s1" "reset_waiting_room k s1 = Some s'"
  shows "adds s s' (raw_of g)"
  using adds_more [OF eg_push_adds [OF assms(1)] reset_adds [OF assms(2)]] .

lemma drop_adds:
  assumes "drop_registrations q b i s = Some s'"
  shows "adds s s' []"
proof (rule drop_registrations.raw_induct [where P = "\<lambda>q b i s s'. adds s s' []", OF _ assms], goal_cases)
  case (1 loop q b i s s')
  note IH = 1(1) and body = 1(2)
  obtain n where n: "wr_key_size q s = Some n" using body by (auto elim!: bind_SomeE)
  show ?case
  proof (cases "i < n")
    case False
    then show ?thesis using body n adds_same by simp
  next
    case True
    then obtain r k s1 where p: "wr_key_pop q s = Some (r, Some k, s1)" using body n by (auto elim!: bind_SomeE)
    note A = key_pop_adds [OF p]
    have "(\<exists>s2. wr_key_push q k s1 = Some s2 \<and> loop q b (i + 1) s2 = Some s') \<or>
        (\<exists>g s2 s3. eg_re g = None \<and> eg_push g s1 = Some s2 \<and> reset_waiting_room k s2 = Some s3 \<and> loop q b (i + 1) s3 = Some s')"
      using body n True p by (force elim!: bind_SomeE split: if_splits)
    then show ?thesis
    proof (elim disjE exE conjE)
      fix s2 assume "wr_key_push q k s1 = Some s2" "loop q b (i + 1) s2 = Some s'"
      then show ?thesis using adds_more [OF adds_more [OF A key_push_adds] IH] by blast
    next
      fix g s2 s3
      assume "eg_re g = None" "eg_push g s1 = Some s2" "reset_waiting_room k s2 = Some s3" "loop q b (i + 1) s3 = Some s'"
      then show ?thesis using adds_more [OF adds_trans [OF A push_reset_adds] IH] by force
    qed
  qed
qed

lemma expire_adds: "expire_key q want ve n s = Some s' \<Longrightarrow> adds s s' []"
proof (induction n arbitrary: s)
  case 0
  then show ?case by (simp add: adds_same)
next
  case (Suc n)
  obtain r k s1 where p: "wr_key_pop q s = Some (r, Some k, s1)" using Suc.prems by (auto elim!: bind_SomeE)
  note A = key_pop_adds [OF p]
  show ?case
  proof (cases "k = want")
    case True
    then obtain g s2 where "eg_re g = None" "eg_push g s1 = Some s2" "reset_waiting_room k s2 = Some s'"
      using Suc.prems p by (force elim!: bind_SomeE)
    then show ?thesis using adds_trans [OF A push_reset_adds] by force
  next
    case False
    then obtain s2 where 2: "wr_key_push q k s1 = Some s2" "expire_key q want ve n s2 = Some s'"
      using Suc.prems p by (auto elim!: bind_SomeE)
    show ?thesis using adds_more [OF adds_more [OF A key_push_adds [OF 2(1)]] Suc.IH [OF 2(2)]] .
  qed
qed

lemma re_adds: "HandleWR_RE re s = Some s' \<Longrightarrow> adds s s' [re]"
proof (cases "re_type re = RE_SE")
  case True
  assume "HandleWR_RE re s = Some s'"
  then have h: "handle_re_se re s = Some s'" using True by (simp add: HandleWR_RE_def)
  then obtain se n where n: "re_event re = SeEvent se" "wr_key_size (se_id se) s = Some n"
    by (auto simp: handle_re_se_def elim!: bind_SomeE split: RawEvents.splits)
  show ?thesis
  proof (cases "0 < n")
    case True
    then obtain r k s1 where p: "wr_key_pop (se_id se) s = Some (r, Some k, s1)"
      using h n by (auto simp: handle_re_se_def elim!: bind_SomeE)
    then obtain g s2 where "eg_re g = Some re" "eg_push g s1 = Some s2" "reset_waiting_room k s2 = Some s'"
      using h n True by (force simp: handle_re_se_def elim!: bind_SomeE)
    then show ?thesis using adds_trans [OF key_pop_adds [OF p] push_reset_adds] by force
  next
    case False
    then show ?thesis using h n eg_push_adds [of _ s s'] by (force simp: handle_re_se_def elim!: bind_SomeE)
  qed
next
  case False
  assume "HandleWR_RE re s = Some s'"
  then show ?thesis using False eg_push_adds [of _ s s'] by (force simp: HandleWR_RE_def split: if_splits)
qed

lemma to_tr_at_adds: "handle_to_tr_at t ve s = Some s' \<Longrightarrow> adds s s' []"
  unfolding handle_to_tr_at_def Let_def
proof (elim bind_SomeE, goal_cases)
  case (1 i nd u n s1 w)
  have A: "adds s s1 []" using 1(5) expire_adds adds_same [of s s] by (auto split: if_splits)
  show ?case
  proof (cases "ve_type w = VE_NONE")
    case True
    then show ?thesis using 1(7) A by simp
  next
    case False
    then obtain g s2 k where "eg_re g = None" "eg_push g s1 = Some s2" "reset_waiting_room k s2 = Some s'"
      using 1(7) by (force elim!: bind_SomeE)
    then show ?thesis using adds_trans [OF A push_reset_adds] by force
  qed
qed

lemma to_adds: "HandleWR_TO t ve s = Some s' \<Longrightarrow> adds s s' []"
  using to_tr_at_adds by (auto simp: HandleWR_TO_def split: if_splits)

lemma live_train_adds: "wr_live_train ve s = Some (ve', s') \<Longrightarrow> adds s s' []"
  by (auto simp: wr_live_train_def intro!: adds_same elim!: bind_SomeE split: if_splits)

lemma reg_adds:
  assumes "handle_ve_reg t ve s = Some s'"
  shows "adds s s' []"
proof -
  obtain q b key s1 s2 ws where 1: "drop_registrations q b 0 s = Some s1" "wr_key_push q key s1 = Some s2"
    "s' = s2\<lparr>wr_waiting := ws\<rparr>"
    using assms by (auto simp: handle_ve_reg_def add_train_unique_registration_def Let_def elim!: bind_SomeE)
  have "adds s s2 []" using adds_more [OF drop_adds [OF 1(1)] key_push_adds [OF 1(2)]] .
  then show ?thesis using adds_more adds_same [of s' s2] 1(3) by auto
qed

fun raw_req :: "WRRequest \<Rightarrow> RawEvent list" where
  "raw_req (WR_RE re) = [re]"
| "raw_req _ = []"

fun given :: "wr_out \<Rightarrow> EventGroup list" where
  "given (WrGroup c g) = [g]"
| "given _ = []"

lemma handle_adds:
  assumes "wr_handle t tid req s = Some (os, s')"
  shows "adds s s' (raw_req req) \<and> concat (map given os) = []"
proof (cases req)
  case (WR_VE ve)
  then obtain ve' s1 os1 where 1: "wr_live_train ve s = Some (ve', s1)" "HandleWR_VE t ve' s1 = Some (os1, s')" "os = WrAck tid # os1"
    using assms by (auto simp: wr_handle_def elim!: bind_SomeE)
  have "adds s1 s' [] \<and> concat (map given os1) = []"
    using 1(2) reg_adds [of t ve' s1 s'] adds_same [of s1 s1]
    by (auto simp: HandleWR_VE_def elim!: bind_SomeE split: if_splits)
  then show ?thesis using adds_more [OF live_train_adds [OF 1(1)]] WR_VE 1(3) by simp
next
  case (WR_TO ve)
  then show ?thesis using assms to_adds by (auto simp: wr_handle_def elim!: bind_SomeE)
next
  case (WR_RE re)
  then show ?thesis using assms re_adds by (auto simp: wr_handle_def elim!: bind_SomeE)
next
  case WR_CE
  then show ?thesis using assms by (auto simp: wr_handle_def intro!: adds_same)
qed

lemma deliver_given:
  assumes "wr_deliver s = Some (os, s')" "cb_wf EVENT_GROUP_BUFFER_SIZE (wr_dataBuf s)"
  shows "cb_wf EVENT_GROUP_BUFFER_SIZE (wr_dataBuf s')" "concat (map given os) @ groups s' = groups s"
proof -
  have "cb_wf EVENT_GROUP_BUFFER_SIZE (wr_dataBuf s') \<and> concat (map given os) @ groups s' = groups s"
    using assms cbq.pop_cases [OF assms(2)]
    by (fastforce simp: wr_deliver_def elim!: bind_SomeE split: if_splits)
  then show "cb_wf EVENT_GROUP_BUFFER_SIZE (wr_dataBuf s')" "concat (map given os) @ groups s' = groups s" by auto
qed

text \<open>A run over a list of requests, each with its sender.\<close>

fun wr_run :: "track \<Rightarrow> (int \<times> WRRequest) list \<Rightarrow> waiting_room \<Rightarrow> (wr_out list \<times> waiting_room) option" where
  "wr_run t [] s = Some ([], s)"
| "wr_run t ((tid, req) # rs) s = do {
     (os, s) \<leftarrow> WaitingRoom t tid req s;
     (os', s) \<leftarrow> wr_run t rs s;
     Some (os @ os', s) }"

declare raw_of.simps [simp del]

lemma wr_run_raws:
  "wr_run t rs s = Some (os, s') \<Longrightarrow> cb_wf EVENT_GROUP_BUFFER_SIZE (wr_dataBuf s) \<Longrightarrow>
   raws (concat (map given os) @ groups s') = raws (groups s) @ concat (map (raw_req \<circ> snd) rs)"
proof (induction rs arbitrary: s os)
  case (Cons r rs)
  obtain tid req where r: "r = (tid, req)" by (cases r)
  then obtain o1 s1 o2 s2 o3 where 1: "wr_deliver s = Some (o1, s1)" "wr_handle t tid req s1 = Some (o2, s2)"
    "wr_run t rs s2 = Some (o3, s')" "os = (o1 @ o2) @ o3"
    using Cons.prems(1) by (auto simp: WaitingRoom_def elim!: bind_SomeE)
  note D = deliver_given [OF 1(1) Cons.prems(2)] and H = handle_adds [OF 1(2)]
  have H': "cb_wf EVENT_GROUP_BUFFER_SIZE (wr_dataBuf s2)" "raws (groups s2) = raws (groups s1) @ raw_req req"
    using H D(1) by (auto simp: adds_def)
  have "raws (concat (map given os) @ groups s') = raws (concat (map given o1)) @ raws (concat (map given o3) @ groups s')"
    using H 1(4) by simp
  also have "\<dots> = raws (concat (map given o1) @ groups s1) @ raw_req req @ concat (map (raw_req \<circ> snd) rs)"
    using Cons.IH [OF 1(3) H'(1)] H'(2) by (simp add: o_def)
  finally show ?case using D(2) r by (simp add: o_def)
qed simp

text \<open>C29: The waiting room passes on every raw event exactly once and in the order of arrival, whatever is
  expected, registered or timed out in between: the raw events in the groups that the courier has been given and in
  those still kept are those of the requests.\<close>

theorem waiting_room_order:
  assumes "wr_run t rs (waiting_room_init waiting mp buf) = Some (os, s)" "length (cb_buf buf) = EVENT_GROUP_BUFFER_SIZE"
  shows "raws (concat (map given os) @ groups s) = concat (map (raw_req \<circ> snd) rs)"
proof -
  have "cb_wf EVENT_GROUP_BUFFER_SIZE (cb_init buf)" using assms(2) by (intro cb_init_wf) simp_all
  then show ?thesis
    using wr_run_raws [OF assms(1)] by (simp add: waiting_room_init_def init_waiting_room_def)
qed

text \<open>A run: a sensor event, a switch event, and the courier's request in between.\<close>

definition blank_ve :: VirtualEvent where
  "blank_ve = \<lparr>ve_type = VE_NONE, ve_timestamp = 0, ve_timeout = 0, ve_key = 0, ve_depend = 0, ve_train_num = 0, ve_node = None\<rparr>"

definition blank_eg :: EventGroup where
  "blank_eg = \<lparr>eg_type = RE, eg_re = None, eg_ve = None\<rparr>"

definition blank_cb :: "nat \<Rightarrow> 'a \<Rightarrow> 'a cbuf" where
  "blank_cb n x = \<lparr>cb_buf = replicate n x, cb_start = 0, cb_end = 0, cb_size = 0\<rparr>"

definition wr_start :: waiting_room where
  "wr_start = waiting_room_init (replicate MAX_KEYS blank_ve) (replicate WR_SENSOR_SIZE (blank_cb VE_KEY_BUFFER_SIZE 0))
     (blank_cb EVENT_GROUP_BUFFER_SIZE blank_eg)"

theorem waiting_room_order_witness:
  "\<exists>os s. wr_run tracka_nodes [(4, WR_CE), (5, WR_RE (sensor_event 9 3 1))] wr_start = Some (os, s) \<and>
    raws (concat (map given os) @ groups s) = [sensor_event 9 3 1]"
proof -
  let ?rs = "[(4, WR_CE), (5, WR_RE (sensor_event 9 3 1))]"
  have "\<exists>os s. wr_run tracka_nodes ?rs wr_start = Some (os, s)"
    by (simp add: wr_start_def waiting_room_init_def init_waiting_room_def WaitingRoom_def wr_deliver_def wr_handle_def
      HandleWR_RE_def handle_re_se_def wr_key_size_def eg_push_def agetz_def aget_def cb_push_def asetz_def aset_def
      blank_cb_def cb_init_def sensor_event_def)
  then obtain os s where r: "wr_run tracka_nodes ?rs wr_start = Some (os, s)" by blast
  then show ?thesis
    using waiting_room_order [OF r [unfolded wr_start_def]] by (auto simp: blank_cb_def)
qed

end
