(* ===== verification/WaitingRoomInv.thy ===== *)
theory WaitingRoomInv
  imports WaitingRoomProps
begin

text \<open>
  The invariant of the waiting room: every expected event waits at exactly the sensor it is expected at, under
  its own key, and the numbers given to the trains are in use and can be turned back.
\<close>

section \<open>The invariant\<close>

abbreviation keys :: "waiting_room \<Rightarrow> nat \<Rightarrow> int list" where
  "keys s q \<equiv> cb_list VE_KEY_BUFFER_SIZE (wr_sensorToVE s ! q)"

definition wr_shape :: "waiting_room \<Rightarrow> bool" where
  "wr_shape s \<longleftrightarrow> length (wr_waiting s) = MAX_KEYS \<and> length (wr_sensorToVE s) = WR_SENSOR_SIZE \<and>
     (\<forall>q < WR_SENSOR_SIZE. cb_wf VE_KEY_BUFFER_SIZE (wr_sensorToVE s ! q)) \<and>
     cb_wf EVENT_GROUP_BUFFER_SIZE (wr_dataBuf s)"

text \<open>\<^verbatim>\<open>trainMap\<close> numbers the trains that have been mentioned, and \<^verbatim>\<open>liveMap\<close> is its inverse.\<close>

definition maps_ok :: "waiting_room \<Rightarrow> bool" where
  "maps_ok s \<longleftrightarrow> length (wr_trainMap s) = WR_TRAIN_MAX \<and> length (wr_liveMap s) = WR_TRAIN_MAX \<and>
     0 \<le> wr_live s \<and> wr_live s \<le> int WR_TRAIN_MAX \<and>
     (\<forall>n < WR_TRAIN_MAX. wr_trainMap s ! n = - 1 \<or>
        (0 \<le> wr_trainMap s ! n \<and> wr_trainMap s ! n < wr_live s \<and> wr_liveMap s ! nat (wr_trainMap s ! n) = int n)) \<and>
     (\<forall>l. int l < wr_live s \<longrightarrow> (\<exists>n. 0 < n \<and> n < WR_TRAIN_MAX \<and> wr_liveMap s ! l = int n \<and> wr_trainMap s ! n = int l))"

text \<open>\<open>waits t s q k\<close>: the event with key \<open>k\<close> is registered, for sensor \<open>q\<close>.\<close>

definition waits :: "track \<Rightarrow> waiting_room \<Rightarrow> nat \<Rightarrow> nat \<Rightarrow> bool" where
  "waits t s q k \<longleftrightarrow> k < MAX_KEYS \<and> (let w = wr_waiting s ! k in ve_type w = VE_REG \<and>
     ve_train_num w * int KEY_MAX + ve_key w = int k \<and> 0 \<le> ve_train_num w \<and> ve_train_num w < wr_live s \<and>
     (\<exists>i. ve_node w = Some i \<and> i < length t \<and> n_num (t ! i) = int q))"

definition queues_ok :: "track \<Rightarrow> waiting_room \<Rightarrow> bool" where
  "queues_ok t s \<longleftrightarrow> (\<forall>q < WR_SENSOR_SIZE. distinct (keys s q) \<and> set (keys s q) = int ` {k. waits t s q k}) \<and>
     (\<forall>k < MAX_KEYS. ve_type (wr_waiting s ! k) \<noteq> VE_NONE \<longrightarrow> (\<exists>q < WR_SENSOR_SIZE. waits t s q k))"

definition wr_ok :: "track \<Rightarrow> waiting_room \<Rightarrow> bool" where
  "wr_ok t s \<longleftrightarrow> wr_shape s \<and> maps_ok s \<and> queues_ok t s"

lemma waits_unique: "waits t s q k \<Longrightarrow> waits t s q' k \<Longrightarrow> q' = q"
  by (auto simp: waits_def Let_def)

lemma wr_okD:
  assumes "wr_ok t s"
  shows "length (wr_waiting s) = MAX_KEYS" "length (wr_sensorToVE s) = WR_SENSOR_SIZE"
    "cb_wf EVENT_GROUP_BUFFER_SIZE (wr_dataBuf s)" "maps_ok s"
    "q < WR_SENSOR_SIZE \<Longrightarrow> cb_wf VE_KEY_BUFFER_SIZE (wr_sensorToVE s ! q)"
    "q < WR_SENSOR_SIZE \<Longrightarrow> distinct (keys s q)" "q < WR_SENSOR_SIZE \<Longrightarrow> set (keys s q) = int ` {k. waits t s q k}"
    "k < MAX_KEYS \<Longrightarrow> ve_type (wr_waiting s ! k) \<noteq> VE_NONE \<Longrightarrow> \<exists>q < WR_SENSOR_SIZE. waits t s q k"
  using assms by (simp_all add: wr_ok_def wr_shape_def queues_ok_def)

lemma waits_queue [simp]: "waits t (s\<lparr>wr_sensorToVE := qs\<rparr>) = waits t s" "waits t (s\<lparr>wr_dataBuf := b\<rparr>) = waits t s"
    "waits t (s\<lparr>wr_courier := c\<rparr>) = waits t s"
  by (simp_all add: waits_def fun_eq_iff)

lemma maps_queue [simp]: "maps_ok (s\<lparr>wr_sensorToVE := qs\<rparr>) = maps_ok s" "maps_ok (s\<lparr>wr_dataBuf := b\<rparr>) = maps_ok s"
    "maps_ok (s\<lparr>wr_courier := c\<rparr>) = maps_ok s" "maps_ok (s\<lparr>wr_waiting := w\<rparr>) = maps_ok s"
  by (simp_all add: maps_ok_def)

lemma wr_ok_courier [simp]: "wr_ok t (s\<lparr>wr_courier := c\<rparr>) = wr_ok t s"
  by (simp add: wr_ok_def wr_shape_def queues_ok_def)

lemma wr_ok_buf: "wr_ok t s \<Longrightarrow> cb_wf EVENT_GROUP_BUFFER_SIZE b \<Longrightarrow> wr_ok t (s\<lparr>wr_dataBuf := b\<rparr>)"
  by (simp add: wr_ok_def wr_shape_def queues_ok_def)

text \<open>Turning a queue: the same keys in another order.\<close>

lemma wr_ok_turn:
  assumes "wr_ok t s" "q < WR_SENSOR_SIZE" "cb_wf VE_KEY_BUFFER_SIZE c" "mset (cb_list VE_KEY_BUFFER_SIZE c) = mset (keys s q)"
  shows "wr_ok t (s\<lparr>wr_sensorToVE := (wr_sensorToVE s)[q := c]\<rparr>)"
proof -
  let ?s = "s\<lparr>wr_sensorToVE := (wr_sensorToVE s)[q := c]\<rparr>"
  note D = wr_okD [OF assms(1)]
  have k: "set (keys ?s q') = set (keys s q') \<and> distinct (keys ?s q') = distinct (keys s q')" for q'
    using assms(2) D(2) mset_eq_setD [OF assms(4)] mset_eq_imp_distinct_iff [OF assms(4)] by (cases "q' = q") simp_all
  have "wr_shape ?s" using assms D(5) by (auto simp: wr_ok_def wr_shape_def nth_list_update)
  moreover have "queues_ok t ?s"
    using assms(1) k unfolding wr_ok_def queues_ok_def by (simp add: waits_queue(1))
  ultimately show ?thesis using D(4) by (simp add: wr_ok_def)
qed

text \<open>An event leaves: its key is taken from its queue, and its place is empty.\<close>

lemma wr_ok_leave:
  assumes "wr_ok t s" "waits t s q k" "q < WR_SENSOR_SIZE" "cb_wf VE_KEY_BUFFER_SIZE c"
    "mset (keys s q) = add_mset (int k) (mset (cb_list VE_KEY_BUFFER_SIZE c))"
    and w: "ve_type w = VE_NONE"
  shows "wr_ok t (s\<lparr>wr_sensorToVE := (wr_sensorToVE s)[q := c], wr_waiting := (wr_waiting s)[k := w]\<rparr>)"
proof -
  let ?s = "s\<lparr>wr_sensorToVE := (wr_sensorToVE s)[q := c], wr_waiting := (wr_waiting s)[k := w]\<rparr>"
  note D = wr_okD [OF assms(1)]
  have kb: "k < MAX_KEYS" using assms(2) by (simp add: waits_def)
  have wt: "waits t ?s q' k' \<longleftrightarrow> waits t s q' k' \<and> k' \<noteq> k" for q' k'
    using kb D(1) w by (auto simp: waits_def Let_def nth_list_update)
  have "distinct (int k # cb_list VE_KEY_BUFFER_SIZE c)"
    using mset_eq_imp_distinct_iff [of "keys s q" "int k # cb_list VE_KEY_BUFFER_SIZE c"] assms(5) D(6) [OF assms(3)] by simp
  moreover have "set (keys s q) = insert (int k) (set (cb_list VE_KEY_BUFFER_SIZE c))"
    using mset_eq_setD [of "keys s q" "int k # cb_list VE_KEY_BUFFER_SIZE c"] assms(5) by simp
  ultimately have c: "distinct (cb_list VE_KEY_BUFFER_SIZE c)" "set (cb_list VE_KEY_BUFFER_SIZE c) = set (keys s q) - {int k}"
    by auto
  have "distinct (keys ?s q') \<and> set (keys ?s q') = int ` {k. waits t ?s q' k}" if q': "q' < WR_SENSOR_SIZE" for q'
  proof (cases "q' = q")
    case True
    then show ?thesis using c D(2) D(7) [OF q'] assms(3) by (auto simp: wt)
  next
    case False
    then have "\<not> waits t s q' k" using waits_unique [OF assms(2)] by blast
    then have "{k. waits t ?s q' k} = {k. waits t s q' k}" by (auto simp: wt)
    then show ?thesis using False D(6,7) [OF q'] by simp
  qed
  moreover have "\<exists>q' < WR_SENSOR_SIZE. waits t ?s q' k'" if "k' < MAX_KEYS" "ve_type (wr_waiting ?s ! k') \<noteq> VE_NONE" for k'
    using that D(1) D(8) [of k'] w by (cases "k' = k") (auto simp: wt)
  ultimately have "queues_ok t ?s" by (simp add: queues_ok_def)
  moreover have "wr_shape ?s" using assms(1,3,4) by (auto simp: wr_ok_def wr_shape_def nth_list_update)
  ultimately show ?thesis using D(4) by (simp add: wr_ok_def)
qed

text \<open>An event enters at an empty place.\<close>

lemma wr_ok_enter:
  assumes "wr_ok t s" "q < WR_SENSOR_SIZE" "k < MAX_KEYS" "ve_type (wr_waiting s ! k) = VE_NONE"
    "cb_wf VE_KEY_BUFFER_SIZE c" "cb_list VE_KEY_BUFFER_SIZE c = keys s q @ [int k]"
    and w: "waits t (s\<lparr>wr_waiting := (wr_waiting s)[k := w]\<rparr>) q k"
  shows "wr_ok t (s\<lparr>wr_sensorToVE := (wr_sensorToVE s)[q := c], wr_waiting := (wr_waiting s)[k := w]\<rparr>)"
proof -
  let ?s = "s\<lparr>wr_sensorToVE := (wr_sensorToVE s)[q := c], wr_waiting := (wr_waiting s)[k := w]\<rparr>"
  note D = wr_okD [OF assms(1)]
  have no: "\<not> waits t s q' k" for q' using assms(4) by (simp add: waits_def Let_def)
  have wq: "waits t ?s q k" using w by (simp add: waits_def Let_def)
  have wt: "waits t ?s q' k' \<longleftrightarrow> waits t s q' k' \<or> (q' = q \<and> k' = k)" for q' k'
  proof (cases "k' = k")
    case True
    then show ?thesis using no wq waits_unique [OF wq] by blast
  next
    case False
    then show ?thesis using assms(3) D(1) by (simp add: waits_def Let_def)
  qed
  have "distinct (keys ?s q') \<and> set (keys ?s q') = int ` {k. waits t ?s q' k}" if q': "q' < WR_SENSOR_SIZE" for q'
  proof (cases "q' = q")
    case True
    have "int k \<notin> set (keys s q)" using no D(7) [OF assms(2)] by auto
    moreover have "{k'. waits t ?s q k'} = insert k {k'. waits t s q k'}" by (auto simp: wt)
    ultimately show ?thesis using True assms(2,6) D(2) D(6,7) [OF assms(2)] by simp
  next
    case False
    then have "{k. waits t ?s q' k} = {k. waits t s q' k}" by (auto simp: wt)
    then show ?thesis using False D(6,7) [OF q'] by simp
  qed
  moreover have "\<exists>q' < WR_SENSOR_SIZE. waits t ?s q' k'" if "k' < MAX_KEYS" "ve_type (wr_waiting ?s ! k') \<noteq> VE_NONE" for k'
    using that D(1) D(8) [of k'] assms(2) by (cases "k' = k") (auto simp: wt)
  ultimately have "queues_ok t ?s" by (simp add: queues_ok_def)
  moreover have "wr_shape ?s" using assms(1,2,5) by (auto simp: wr_ok_def wr_shape_def nth_list_update)
  ultimately show ?thesis using D(4) by (simp add: wr_ok_def)
qed

section \<open>The steps\<close>

definition kept :: "track \<Rightarrow> waiting_room \<Rightarrow> waiting_room \<Rightarrow> bool" where
  "kept t s s' \<longleftrightarrow> wr_ok t s' \<and> wr_trainMap s' = wr_trainMap s \<and> wr_liveMap s' = wr_liveMap s \<and> wr_live s' = wr_live s"

lemma kept_refl: "wr_ok t s \<Longrightarrow> kept t s s"
  by (simp add: kept_def)

lemma kept_trans: "kept t s s1 \<Longrightarrow> kept t s1 s2 \<Longrightarrow> kept t s s2"
  by (simp add: kept_def)

lemma key_size:
  assumes "wr_ok t s" "wr_key_size sensor s = Some n"
  obtains q where "sensor = int q" "q < WR_SENSOR_SIZE" "n = int (length (keys s q))"
proof -
  have b: "0 \<le> sensor" "nat sensor < WR_SENSOR_SIZE"
    using assms wr_okD(2) [OF assms(1)] by (auto simp: wr_key_size_def agetz_eq_Some elim!: bind_SomeE)
  moreover have "n = int (length (keys s (nat sensor)))"
    using assms(2) b wr_okD(2) [OF assms(1)] cb_wf_sint(2) [OF wr_okD(5) [OF assms(1) b(2)]]
    by (auto simp: wr_key_size_def agetz_eq_Some elim!: bind_SomeE)
  ultimately show ?thesis using that [of "nat sensor"] by simp
qed

lemma key_size_in:
  assumes "wr_ok t s" "q < WR_SENSOR_SIZE"
  shows "wr_key_size (int q) s = Some (int (length (keys s q)))"
  using wr_okD(2) [OF assms(1)] cb_wf_sint(2) [OF wr_okD(5) [OF assms]] assms(2) by (simp add: wr_key_size_def agetz_def)

lemma key_pop:
  assumes "wr_ok t s" "q < WR_SENSOR_SIZE" "keys s q = k # ks"
  shows "\<exists>c. wr_key_pop (int q) s = Some (CB_E_NONE, Some k, s\<lparr>wr_sensorToVE := (wr_sensorToVE s)[q := c]\<rparr>) \<and>
    cb_wf VE_KEY_BUFFER_SIZE c \<and> cb_list VE_KEY_BUFFER_SIZE c = ks"
proof -
  have "keys s q \<noteq> []" using assms(3) by simp
  from cbq.pop_some [OF wr_okD(5) [OF assms(1,2)] this] show ?thesis
    using assms(2,3) wr_okD(2) [OF assms(1)] by (auto simp: wr_key_pop_def agetz_def asetz_def)
qed

lemma key_push:
  assumes "length (wr_sensorToVE s) = WR_SENSOR_SIZE" "cb_wf VE_KEY_BUFFER_SIZE (wr_sensorToVE s ! q)" "q < WR_SENSOR_SIZE"
    "wr_key_push (int q) k s = Some s'"
  shows "\<exists>c. s' = s\<lparr>wr_sensorToVE := (wr_sensorToVE s)[q := c]\<rparr> \<and> cb_wf VE_KEY_BUFFER_SIZE c \<and>
    cb_list VE_KEY_BUFFER_SIZE c = keys s q @ [k]"
proof -
  obtain r c where c: "cb_push VE_KEY_BUFFER_SIZE k (wr_sensorToVE s ! q) = Some (r, c)" "r \<noteq> CB_E_FULL"
    "s' = s\<lparr>wr_sensorToVE := (wr_sensorToVE s)[q := c]\<rparr>"
    using assms(1,3,4) by (auto simp: wr_key_push_def agetz_def asetz_def elim!: bind_SomeE)
  have "r = CB_E_NONE" using cbq.push_not_NONE [OF assms(2) c(1)] c(2) by blast
  then show ?thesis using cbq.push_NONE [OF assms(2), of k c] c(1,3) by blast
qed

text \<open>A key goes from the front of its queue to the end.\<close>

lemma turn_kept:
  assumes "wr_ok t s" "q < WR_SENSOR_SIZE" "wr_key_pop (int q) s = Some (r, Some k, s1)" "wr_key_push (int q) k s1 = Some s'"
    "keys s q \<noteq> []"
  shows "kept t s s'" "keys s' q = tl (keys s q) @ [hd (keys s q)]" "k = hd (keys s q)" "wr_waiting s' = wr_waiting s"
proof -
  obtain k' ks where l: "keys s q = k' # ks" using assms(5) by (cases "keys s q") auto
  obtain c where c: "k = k'" "s1 = s\<lparr>wr_sensorToVE := (wr_sensorToVE s)[q := c]\<rparr>" "cb_wf VE_KEY_BUFFER_SIZE c"
    "cb_list VE_KEY_BUFFER_SIZE c = ks" using key_pop [OF assms(1,2) l] assms(3) by auto
  note D = wr_okD(2) [OF assms(1)]
  obtain c' where c': "s' = s1\<lparr>wr_sensorToVE := (wr_sensorToVE s1)[q := c']\<rparr>" "cb_wf VE_KEY_BUFFER_SIZE c'"
    "cb_list VE_KEY_BUFFER_SIZE c' = ks @ [k]"
    using key_push [of s1 q k s'] assms(2,4) c D by auto
  have s': "s' = s\<lparr>wr_sensorToVE := (wr_sensorToVE s)[q := c']\<rparr>" using c(2) c'(1) by simp
  have "mset (cb_list VE_KEY_BUFFER_SIZE c') = mset (keys s q)" using c'(3) c(1) l by simp
  from wr_ok_turn [OF assms(1,2) c'(2) this] show "kept t s s'" by (simp add: s' kept_def)
  show "keys s' q = tl (keys s q) @ [hd (keys s q)]" "k = hd (keys s q)" "wr_waiting s' = wr_waiting s"
    using c(1) c'(3) l D assms(2) by (simp_all add: s')
qed

text \<open>A key leaves its queue with its event, and a group is formed.\<close>

lemma leave_kept:
  assumes "wr_ok t s" "q < WR_SENSOR_SIZE" "wr_key_pop (int q) s = Some (r, Some k, s1)" "eg_push g s1 = Some s2"
    "reset_waiting_room k s2 = Some s'" "keys s q \<noteq> []"
  shows "kept t s s'" "keys s' q = tl (keys s q)" "k = hd (keys s q)" "groups s' = groups s @ [g]"
    "wr_waiting s' = (wr_waiting s)[nat k := (wr_waiting s ! nat k)\<lparr>ve_type := VE_NONE\<rparr>]"
proof -
  obtain k' ks where l: "keys s q = k' # ks" using assms(6) by (cases "keys s q") auto
  obtain c where c: "k = k'" "s1 = s\<lparr>wr_sensorToVE := (wr_sensorToVE s)[q := c]\<rparr>" "cb_wf VE_KEY_BUFFER_SIZE c"
    "cb_list VE_KEY_BUFFER_SIZE c = ks" using key_pop [OF assms(1,2) l] assms(3) by auto
  note D = wr_okD [OF assms(1)]
  have "k \<in> int ` {k. waits t s q k}" using c(1) l D(7) [OF assms(2)] by auto
  then obtain n where n: "k = int n" "waits t s q n" by auto
  obtain b where b: "s2 = s1\<lparr>wr_dataBuf := b\<rparr>" "cb_wf EVENT_GROUP_BUFFER_SIZE b"
    "cb_list EVENT_GROUP_BUFFER_SIZE b = groups s @ [g]"
    using eg_push_ok [OF _ assms(4)] D(3) c(2) by auto
  have nb: "n < MAX_KEYS" using n(2) by (simp add: waits_def)
  let ?w = "(wr_waiting s ! n)\<lparr>ve_type := VE_NONE\<rparr>"
  have s': "s' = s\<lparr>wr_sensorToVE := (wr_sensorToVE s)[q := c], wr_waiting := (wr_waiting s)[n := ?w], wr_dataBuf := b\<rparr>"
    using assms(5) b(1) c(2) n(1) nb D(1) by (auto simp: reset_waiting_room_def agetz_def asetz_def)
  have "mset (keys s q) = add_mset (int n) (mset (cb_list VE_KEY_BUFFER_SIZE c))" using l c(1,4) n(1) by simp
  note wr_ok_buf [OF wr_ok_leave [OF assms(1) n(2) assms(2) c(3) this, of ?w] b(2)]
  then show "kept t s s'" by (simp add: s' kept_def)
  show "keys s' q = tl (keys s q)" "k = hd (keys s q)" "groups s' = groups s @ [g]"
    using c(1,4) l D(2) assms(2) b(3) by (simp_all add: s')
  have "nat k = n" using n(1) by simp
  then show "wr_waiting s' = (wr_waiting s)[nat k := (wr_waiting s ! nat k)\<lparr>ve_type := VE_NONE\<rparr>]"
    by (simp add: s')
qed

text \<open>\<open>drop_registrations\<close>: what it does keeps the invariant, and fills no place.\<close>

definition no_new :: "waiting_room \<Rightarrow> waiting_room \<Rightarrow> bool" where
  "no_new s s' \<longleftrightarrow> (\<forall>k. ve_type (wr_waiting s ! k) = VE_NONE \<longrightarrow> ve_type (wr_waiting s' ! k) = VE_NONE)"

lemma no_new_same: "wr_waiting s' = wr_waiting s \<Longrightarrow> no_new s s'"
  by (simp add: no_new_def)

lemma no_new_trans: "no_new s s1 \<Longrightarrow> no_new s1 s2 \<Longrightarrow> no_new s s2"
  by (simp add: no_new_def)

lemma no_new_reset: "wr_waiting s' = (wr_waiting s)[n := w\<lparr>ve_type := VE_NONE\<rparr>] \<Longrightarrow> no_new s s'"
  by (auto simp: no_new_def nth_list_update_neq nth_update_if)

lemma drop_kept:
  assumes "drop_registrations (int q) b i s = Some s'" "wr_ok t s" "q < WR_SENSOR_SIZE" "0 \<le> i"
  shows "kept t s s' \<and> no_new s s'"
proof -
  let ?P = "\<lambda>sensor b i s s'. sensor = int q \<longrightarrow> wr_ok t s \<longrightarrow> 0 \<le> i \<longrightarrow> kept t s s' \<and> no_new s s'"
  have "?P (int q) b i s s'"
  proof (rule drop_registrations.raw_induct [where P = ?P, OF _ assms(1)], intro impI, goal_cases)
    case (1 loop sensor b i s s')
    note IH = 1(1) and body = 1(2) and ok = 1(4) and i = 1(5)
    have n: "wr_key_size sensor s = Some (int (length (keys s q)))" using key_size_in [OF ok assms(3)] 1(3) by simp
    show ?case
    proof (cases "i < int (length (keys s q))")
      case False
      then show ?thesis using body n kept_refl [OF ok] no_new_same by simp
    next
      case True
      have ne: "keys s q \<noteq> []"
      proof
        assume "keys s q = []"
        then show False using True i unfolding \<open>keys s q = []\<close> by simp
      qed
      obtain r k s1 where p: "wr_key_pop (int q) s = Some (r, Some k, s1)" using body n True 1(3) by (auto elim!: bind_SomeE)
      have "(\<exists>s2. wr_key_push (int q) k s1 = Some s2 \<and> loop (int q) b (i + 1) s2 = Some s') \<or>
          (\<exists>g s2 s3. eg_push g s1 = Some s2 \<and> reset_waiting_room k s2 = Some s3 \<and> loop (int q) b (i + 1) s3 = Some s')"
        using body n True p 1(3) by (force elim!: bind_SomeE split: if_splits)
      then show ?thesis
      proof (elim disjE exE conjE)
        fix s2 assume 2: "wr_key_push (int q) k s1 = Some s2" "loop (int q) b (i + 1) s2 = Some s'"
        note T = turn_kept [OF ok assms(3) p 2(1) ne]
        have "kept t s2 s' \<and> no_new s2 s'" using IH [OF 2(2)] T(1) i by (simp add: kept_def)
        then show ?thesis using kept_trans [OF T(1)] no_new_trans [OF no_new_same [OF T(4)]] by blast
      next
        fix g s2 s3
        assume 3: "eg_push g s1 = Some s2" "reset_waiting_room k s2 = Some s3" "loop (int q) b (i + 1) s3 = Some s'"
        note T = leave_kept [OF ok assms(3) p 3(1,2) ne]
        have "kept t s3 s' \<and> no_new s3 s'" using IH [OF 3(3)] T(1) i by (simp add: kept_def)
        then show ?thesis using kept_trans [OF T(1)] no_new_trans [OF no_new_reset [OF T(5)]] by blast
      qed
    qed
  qed
  then show ?thesis using assms by simp
qed

text \<open>A registration: the train has a number, and the event a sensor.\<close>

lemma reg_kept:
  assumes "handle_ve_reg t ve s = Some s'" "wr_ok t s" "ve_type ve = VE_REG" "0 \<le> ve_train_num ve" "ve_train_num ve < wr_live s"
  shows "kept t s s'"
proof -
  let ?key = "ve_train_num ve * int KEY_MAX + ve_key ve"
  obtain i nd s2 s1 w where h: "ve_node ve = Some i" "i < length t" "nd = t ! i" "0 \<le> n_num nd" "n_num nd < int WR_SENSOR_SIZE"
    "0 \<le> ?key" "?key < int MAX_LIVE_TRAINS * int KEY_MAX"
    "drop_registrations (n_num nd) (ve_train_num ve * int KEY_MAX) 0 s = Some s2" "wr_key_push (n_num nd) ?key s2 = Some s1"
    "agetz (wr_waiting s1) ?key = Some w" "ve_type w = VE_NONE"
    "s' = s1\<lparr>wr_waiting := (wr_waiting s1)[nat ?key := ve]\<rparr>"
    using assms(1) by (auto simp: handle_ve_reg_def add_train_unique_registration_def Let_def aget_def asetz_def aset_def
        elim!: bind_SomeE split: if_splits)
  define q where "q = nat (n_num nd)"
  define k where "k = nat ?key"
  have q: "n_num nd = int q" "q < WR_SENSOR_SIZE" using h(4,5) by (auto simp: q_def)
  have k: "?key = int k" "k < MAX_KEYS" using h(6,7) by (auto simp: k_def)
  have d: "kept t s s2" using drop_kept [of q _ 0 s s2] h(8) q assms(2) by simp
  then have ok2: "wr_ok t s2" by (simp add: kept_def)
  note D = wr_okD [OF ok2]
  obtain c where c: "s1 = s2\<lparr>wr_sensorToVE := (wr_sensorToVE s2)[q := c]\<rparr>" "cb_wf VE_KEY_BUFFER_SIZE c"
    "cb_list VE_KEY_BUFFER_SIZE c = keys s2 q @ [int k]"
    using key_push [OF D(2) D(5) [OF q(2)] q(2), of "int k" s1] h(9) q(1) k(1) by auto
  have w: "ve_type (wr_waiting s2 ! k) = VE_NONE" using h(10,11) c(1) k(1) by (simp add: agetz_eq_Some)
  have "waits t (s2\<lparr>wr_waiting := (wr_waiting s2)[k := ve]\<rparr>) q k"
    using k D(1) assms(3-5) h(1,2) q(1) d unfolding h(3) by (auto simp: waits_def kept_def)
  from wr_ok_enter [OF ok2 q(2) k(2) w c(2,3) this] show ?thesis
    using d unfolding h(12) c(1) k_def [symmetric] by (simp add: kept_def)
qed

text \<open>A train is numbered when it is first mentioned.\<close>

lemma live_train_kept:
  assumes "wr_live_train ve s = Some (ve', s')" "wr_ok t s"
  shows "wr_ok t s' \<and> 0 \<le> ve_train_num ve' \<and> ve_train_num ve' < wr_live s' \<and> ve_type ve' = ve_type ve"
proof -
  note D = wr_okD [OF assms(2)]
  define n where "n = nat (ve_train_num ve)"
  have M: "length (wr_trainMap s) = WR_TRAIN_MAX" "length (wr_liveMap s) = WR_TRAIN_MAX" "0 \<le> wr_live s"
      "\<And>n. n < WR_TRAIN_MAX \<Longrightarrow> wr_trainMap s ! n = - 1 \<or>
        (0 \<le> wr_trainMap s ! n \<and> wr_trainMap s ! n < wr_live s \<and> wr_liveMap s ! nat (wr_trainMap s ! n) = int n)"
      "\<And>l. int l < wr_live s \<Longrightarrow> \<exists>n. 0 < n \<and> n < WR_TRAIN_MAX \<and> wr_liveMap s ! l = int n \<and> wr_trainMap s ! n = int l"
    using D(4) by (auto simp: maps_ok_def)
  have n: "ve_train_num ve = int n" "0 < n" "n < WR_TRAIN_MAX"
    using assms(1) M(1) by (auto simp: wr_live_train_def n_def agetz_def aget_def elim!: bind_SomeE split: if_splits)
  show ?thesis
  proof (cases "wr_trainMap s ! n = - 1")
    case False
    then show ?thesis using assms n M(1,3) M(4) [OF n(3)] by (auto simp: wr_live_train_def agetz_def aget_def)
  next
    case True
    define l where "l = nat (wr_live s)"
    have l: "wr_live s = int l" using M(3) by (simp add: l_def)
    have s': "l < WR_TRAIN_MAX" "s' = s\<lparr>wr_trainMap := (wr_trainMap s)[n := int l], wr_liveMap := (wr_liveMap s)[l := int n],
        wr_live := int l + 1\<rparr>" "ve' = ve\<lparr>ve_train_num := int l\<rparr>"
      using assms(1) True n M(1,2) l by (auto simp: wr_live_train_def agetz_def aget_def asetz_def aset_def split: if_splits)
    have T: "wr_trainMap s' ! n' = (if n' = n then int l else wr_trainMap s ! n')"
        "wr_liveMap s' ! l' = (if l' = l then int n else wr_liveMap s ! l')" for n' l'
      using n(3) s'(1) M(1,2) by (simp_all add: s'(2))
    have L: "wr_live s' = int l + 1" by (simp add: s'(2))
    have a: "wr_trainMap s' ! n' = - 1 \<or> (0 \<le> wr_trainMap s' ! n' \<and> wr_trainMap s' ! n' < wr_live s' \<and>
        wr_liveMap s' ! nat (wr_trainMap s' ! n') = int n')" if "n' < WR_TRAIN_MAX" for n'
      using M(4) [OF that] l by (auto simp: T L nat_eq_iff)
    have b: "\<exists>n'. 0 < n' \<and> n' < WR_TRAIN_MAX \<and> wr_liveMap s' ! l' = int n' \<and> wr_trainMap s' ! n' = int l'"
      if "int l' < wr_live s'" for l'
    proof (cases "l' = l")
      case True
      then show ?thesis using n by (intro exI [of _ n]) (simp add: T)
    next
      case False
      then have "int l' < wr_live s" using that l L by simp
      from M(5) [OF this] obtain m where m: "0 < m" "m < WR_TRAIN_MAX" "wr_liveMap s ! l' = int m" "wr_trainMap s ! m = int l'" by blast
      then have "m \<noteq> n" using True by auto
      then show ?thesis using m False by (intro exI [of _ m]) (simp add: T)
    qed
    have "maps_ok s'" unfolding maps_ok_def using a b s'(1) M(1,2) by (simp add: s'(2))
    moreover have W: "waits t s' = waits t s"
    proof (intro ext iffI)
      fix q k
      show "waits t s q k \<Longrightarrow> waits t s' q k" using l by (simp add: waits_def Let_def s'(2))
      assume w: "waits t s' q k"
      then have "k < MAX_KEYS" "ve_type (wr_waiting s ! k) \<noteq> VE_NONE" by (auto simp: waits_def Let_def s'(2))
      from D(8) [OF this] obtain q' where q': "waits t s q' k" by blast
      then have "waits t s' q' k" using l by (simp add: waits_def Let_def s'(2))
      then show "waits t s q k" using q' waits_unique [OF w] by blast
    qed
    moreover have "wr_shape s'" using assms(2) by (simp add: s'(2) wr_ok_def wr_shape_def)
    moreover have "wr_waiting s' = wr_waiting s" "wr_sensorToVE s' = wr_sensorToVE s" by (simp_all add: s'(2))
    ultimately have "wr_ok t s'" using assms(2) unfolding wr_ok_def queues_ok_def by simp
    then show ?thesis by (simp add: s')
  qed
qed

text \<open>A hit: the oldest of the keys at the sensor.\<close>

lemma hit_kept:
  assumes "handle_re_se re s = Some s'" "wr_ok t s"
  shows "kept t s s'"
proof -
  obtain se n where se: "re_event re = SeEvent se" "wr_key_size (se_id se) s = Some n"
    using assms(1) by (auto simp: handle_re_se_def elim!: bind_SomeE split: RawEvents.splits)
  obtain q where q: "se_id se = int q" "q < WR_SENSOR_SIZE" "n = int (length (keys s q))" using key_size [OF assms(2) se(2)] .
  show ?thesis
  proof (cases "keys s q = []")
    case True
    then have "eg_push \<lparr>eg_type = RE, eg_re = Some re, eg_ve = None\<rparr> s = Some s'"
      using assms(1) se q by (auto simp: handle_re_se_def)
    from eg_push_ok [OF wr_okD(3) [OF assms(2)] this] show ?thesis using wr_ok_buf [OF assms(2)] by (auto simp: kept_def)
  next
    case False
    then have "0 < n" using q(3) by (simp del: length_cb_list)
    then obtain r k s1 g s2 where "wr_key_pop (int q) s = Some (r, Some k, s1)" "eg_push g s1 = Some s2"
        "reset_waiting_room k s2 = Some s'" using assms(1) se q(1) by (auto simp: handle_re_se_def elim!: bind_SomeE)
    from leave_kept(1) [OF assms(2) q(2) this False] show ?thesis .
  qed
qed

text \<open>A timeout turns the queue of its sensor until its key comes up.\<close>

lemma expire_kept:
  assumes "expire_key (int q) (int k) ve n s = Some s'" "wr_ok t s" "q < WR_SENSOR_SIZE" "n \<le> length (keys s q)"
  shows "kept t s s' \<and> no_new s s' \<and> (int k \<in> set (take n (keys s q)) \<longrightarrow> ve_type (wr_waiting s' ! k) = VE_NONE)"
  using assms
proof (induction n arbitrary: s)
  case 0
  then show ?case by (simp add: kept_refl no_new_same)
next
  case (Suc n)
  note ok = Suc.prems(2)
  obtain k' ks where l: "keys s q = k' # ks" using Suc.prems(4) by (cases "keys s q") auto
  then have ne: "keys s q \<noteq> []" by simp
  obtain r k1 s1 where p: "wr_key_pop (int q) s = Some (r, Some k1, s1)" using Suc.prems(1) by (auto elim!: bind_SomeE)
  then have k1: "k1 = k'" using key_pop [OF ok Suc.prems(3) l] by auto
  show ?case
  proof (cases "k1 = int k")
    case True
    then obtain g s2 where "eg_push g s1 = Some s2" "reset_waiting_room k1 s2 = Some s'"
      using Suc.prems(1) p by (auto elim!: bind_SomeE)
    note T = leave_kept [OF ok Suc.prems(3) p this ne]
    have "k1 \<in> int ` {k. waits t s q k}" using wr_okD(7) [OF ok Suc.prems(3)] l k1 by auto
    then have "k < length (wr_waiting s)" using True wr_okD(1) [OF ok] by (auto simp: waits_def)
    then show ?thesis using T(1) no_new_reset [OF T(5)] T(5) True by simp
  next
    case False
    then obtain s2 where 2: "wr_key_push (int q) k1 s1 = Some s2" "expire_key (int q) (int k) ve n s2 = Some s'"
      using Suc.prems(1) p by (auto elim!: bind_SomeE)
    note T = turn_kept [OF ok Suc.prems(3) p 2(1) ne]
    have k2: "keys s2 q = ks @ [k']" using T(2) l by simp
    have n: "n \<le> length ks" using Suc.prems(4) unfolding l by simp
    have "n \<le> length (keys s2 q)" unfolding k2 using n by simp
    from Suc.IH [OF 2(2) _ Suc.prems(3) this] T(1)
    have R: "kept t s2 s' \<and> no_new s2 s' \<and> (int k \<in> set (take n (keys s2 q)) \<longrightarrow> ve_type (wr_waiting s' ! k) = VE_NONE)"
      by (simp add: kept_def)
    have "take n (keys s2 q) = take n ks" unfolding k2 using n by simp
    then have "int k \<in> set (take (Suc n) (keys s q)) \<longrightarrow> int k \<in> set (take n (keys s2 q))" unfolding l using False k1 by simp
    then show ?thesis using R kept_trans [OF T(1)] no_new_trans [OF no_new_same [OF T(4)]] by blast
  qed
qed

text \<open>The timeout of an expected event is for the registration that is there: if the key waits, it waits at the event's sensor.\<close>

definition timely :: "track \<Rightarrow> VirtualEvent \<Rightarrow> waiting_room \<Rightarrow> bool" where
  "timely t ve s \<longleftrightarrow> (let k = ve_train_num ve * int KEY_MAX + ve_key ve in \<forall>q < WR_SENSOR_SIZE. waits t s q (nat k) \<longrightarrow>
     (\<exists>i. ve_node ve = Some i \<and> i < length t \<and> n_num (t ! i) = int q))"

lemma timeout_kept:
  assumes "handle_to_tr_at t ve s = Some s'" "wr_ok t s" "timely t ve s"
  shows "kept t s s'"
proof -
  let ?key = "ve_train_num ve * int KEY_MAX + ve_key ve"
  obtain i m s1 w where h: "ve_node ve = Some i" "i < length t" "wr_key_size (n_num (t ! i)) s = Some m"
    "(if 0 < m then expire_key (n_num (t ! i)) ?key ve (nat m) s else Some s) = Some s1"
    "agetz (wr_waiting s1) ?key = Some w"
    and rest: "(if ve_type w \<noteq> VE_NONE then do {
       ve' \<leftarrow> live_num s1 ve;
       s \<leftarrow> eg_push \<lparr>eg_type = VRE_VE, eg_re = None, eg_ve = Some ve'\<rparr> s1;
       reset_waiting_room ?key s } else Some s1) = Some s'"
    using assms(1) unfolding handle_to_tr_at_def Let_def aget_eq_Some by (elim bind_SomeE) (auto simp: aget_eq_Some)
  obtain q where q: "n_num (t ! i) = int q" "q < WR_SENSOR_SIZE" "m = int (length (keys s q))" using key_size [OF assms(2) h(3)] .
  define k where "k = nat ?key"
  have k: "?key = int k" "k < length (wr_waiting s1)" "w = wr_waiting s1 ! k" using h(5) by (auto simp: k_def agetz_eq_Some)
  have e: "expire_key (int q) (int k) ve (length (keys s q)) s = Some s1"
    using h(4) unfolding q(1,3) k(1) by (cases "keys s q = []") (simp_all del: length_cb_list)
  note E = expire_kept [OF e assms(2) q(2) order_refl]
  have k_max: "k < MAX_KEYS" using E wr_okD(1) k(2) by (metis kept_def)
  have "ve_type w = VE_NONE"
  proof (cases "ve_type (wr_waiting s ! k) = VE_NONE")
    case True
    then show ?thesis using E k(3) by (simp add: no_new_def)
  next
    case False
    from wr_okD(8) [OF assms(2) k_max this] obtain q' where q': "q' < WR_SENSOR_SIZE" "waits t s q' k" by blast
    then have "int q' = int q" using assms(3) h(1) q(1) unfolding timely_def k(1) by (auto simp: Let_def)
    then have "int k \<in> set (keys s q)" using q' wr_okD(7) [OF assms(2) q(2)] by auto
    then show ?thesis using E k(3) by simp
  qed
  then show ?thesis using rest E by simp
qed

section \<open>What the server is asked\<close>

text \<open>A timeout is answered by the server at the time it is created, and comes back when its task has slept: then it has to be for
  the registration that is there.\<close>

definition wr_asked :: "track \<Rightarrow> WRRequest \<Rightarrow> waiting_room \<Rightarrow> bool" where
  "wr_asked t req s \<longleftrightarrow> (case req of WR_TO ve \<Rightarrow> timely t ve s | _ \<Rightarrow> True)"

lemma deliver_kept:
  assumes "wr_deliver s = Some (os, s')" "wr_ok t s"
  shows "wr_ok t s' \<and> waits t s' = waits t s"
proof (cases "0 < sint (cb_size (wr_dataBuf s)) \<and> 0 < wr_courier s")
  case False
  then have "s' = s" using assms(1) by (auto simp: wr_deliver_def)
  then show ?thesis using assms(2) by simp
next
  case True
  then obtain r d c where c: "cb_pop EVENT_GROUP_BUFFER_SIZE (wr_dataBuf s) = Some (r, Some d, c)" "r \<noteq> CB_E_EMPTY"
    "s' = s\<lparr>wr_dataBuf := c, wr_courier := - 1\<rparr>" using assms(1) by (auto simp: wr_deliver_def elim!: bind_SomeE)
  have "cb_wf EVENT_GROUP_BUFFER_SIZE c" using cbq.pop_cases [OF wr_okD(3) [OF assms(2)] c(1)] c(2) by auto
  then show ?thesis using wr_ok_buf [OF assms(2), of c] c(3) by simp
qed

lemma handle_ve_kept:
  assumes "wr_live_train ve s = Some (ve', s1)" "HandleWR_VE t ve' s1 = Some (os, s')" "wr_ok t s"
  shows "wr_ok t s'"
proof -
  note L = live_train_kept [OF assms(1,3)]
  show ?thesis
  proof (cases "ve_type ve' = VE_REG")
    case True
    then have "handle_ve_reg t ve' s1 = Some s'" using assms(2) by (auto simp: HandleWR_VE_def elim!: bind_SomeE)
    from reg_kept [OF this _ True] L show ?thesis by (simp add: kept_def)
  next
    case False
    then show ?thesis using assms(2) L by (auto simp: HandleWR_VE_def elim!: bind_SomeE split: if_splits)
  qed
qed

lemma re_kept:
  assumes "HandleWR_RE re s = Some s'" "wr_ok t s"
  shows "wr_ok t s'"
proof (cases "re_type re = RE_SE")
  case True
  then have "handle_re_se re s = Some s'" using assms(1) by (simp add: HandleWR_RE_def)
  from hit_kept [OF this assms(2)] show ?thesis by (simp add: kept_def)
next
  case False
  then have "eg_push \<lparr>eg_type = RE, eg_re = Some re, eg_ve = None\<rparr> s = Some s'"
    using assms(1) by (auto simp: HandleWR_RE_def split: if_splits)
  from eg_push_ok [OF wr_okD(3) [OF assms(2)] this] show ?thesis using wr_ok_buf [OF assms(2)] by auto
qed

lemma wr_turn_ok:
  assumes "WaitingRoom t tid req s = Some (os, s')" "wr_ok t s" "wr_asked t req s"
  shows "wr_ok t s'"
proof -
  obtain o1 s1 o2 where 1: "wr_deliver s = Some (o1, s1)" "wr_handle t tid req s1 = Some (o2, s')"
    using assms(1) by (auto simp: WaitingRoom_def elim!: bind_SomeE)
  have ok: "wr_ok t s1" and w: "waits t s1 = waits t s" using deliver_kept [OF 1(1) assms(2)] by auto
  show ?thesis
  proof (cases req)
    case (WR_VE ve)
    then show ?thesis using 1(2) handle_ve_kept [OF _ _ ok] by (auto simp: wr_handle_def elim!: bind_SomeE)
  next
    case (WR_RE re)
    then show ?thesis using 1(2) re_kept [OF _ ok] by (auto simp: wr_handle_def elim!: bind_SomeE)
  next
    case WR_CE
    then show ?thesis using 1(2) ok by (auto simp: wr_handle_def)
  next
    case (WR_TO ve)
    then have "handle_to_tr_at t ve s1 = Some s'"
      using 1(2) by (auto simp: wr_handle_def HandleWR_TO_def elim!: bind_SomeE split: if_splits)
    from timeout_kept [OF this ok] show ?thesis using assms(3) WR_TO w by (simp add: wr_asked_def timely_def kept_def)
  qed
qed

text \<open>The states that the server gets to.\<close>

inductive wr_reach :: "track \<Rightarrow> waiting_room \<Rightarrow> bool" for t where
  start: "length waiting = MAX_KEYS \<Longrightarrow> length mp = WR_SENSOR_SIZE \<Longrightarrow> length (cb_buf buf) = EVENT_GROUP_BUFFER_SIZE \<Longrightarrow>
    (\<And>q. q \<in> set mp \<Longrightarrow> length (cb_buf q) = VE_KEY_BUFFER_SIZE) \<Longrightarrow> wr_reach t (waiting_room_init waiting mp buf)"
| turn: "wr_reach t s \<Longrightarrow> wr_asked t req s \<Longrightarrow> WaitingRoom t tid req s = Some (os, s') \<Longrightarrow> wr_reach t s'"

lemma start_ok:
  assumes "length waiting = MAX_KEYS" "length mp = WR_SENSOR_SIZE" "length (cb_buf buf) = EVENT_GROUP_BUFFER_SIZE"
    "\<And>q. q \<in> set mp \<Longrightarrow> length (cb_buf q) = VE_KEY_BUFFER_SIZE"
  shows "wr_ok t (waiting_room_init waiting mp buf)"
proof -
  let ?s = "waiting_room_init waiting mp buf"
  have s: "wr_waiting ?s = map (ve_type_update (\<lambda>_. VE_NONE)) waiting" "wr_sensorToVE ?s = map cb_init mp"
    "wr_dataBuf ?s = cb_init buf" "wr_live ?s = 0" "wr_trainMap ?s = init_train_map" "wr_liveMap ?s = init_train_map"
    by (simp_all add: waiting_room_init_def init_waiting_room_def)
  have no: "\<not> waits t ?s q k" for q k using assms(1) by (auto simp: waits_def s)
  have "wr_shape ?s" using assms by (auto simp: wr_shape_def s intro!: cb_init_wf)
  moreover have "queues_ok t ?s" using assms(1,2) by (simp add: queues_ok_def no s)
  moreover have "maps_ok ?s" by (simp add: maps_ok_def s init_train_map_def)
  ultimately show ?thesis by (simp add: wr_ok_def)
qed

lemma reach_ok: "wr_reach t s \<Longrightarrow> wr_ok t s"
  by (induction rule: wr_reach.induct) (auto intro: start_ok wr_turn_ok)

section \<open>Claims\<close>

text \<open>C30: Whatever sequence of registrations, hits and timeouts the waiting room serves, as long as a timeout comes for
  the registration that is there: the keys queued at a sensor are exactly those of the events registered there, none is queued
  twice, and every place in use belongs to an event that is registered at one sensor.\<close>

theorem waiting_room_kept:
  assumes "wr_reach t s"
  shows "(\<forall>q < WR_SENSOR_SIZE. distinct (keys s q) \<and> set (keys s q) = int ` {k. waits t s q k}) \<and>
    (\<forall>k < MAX_KEYS. ve_type (wr_waiting s ! k) \<noteq> VE_NONE \<longrightarrow> (\<exists>!q. q < WR_SENSOR_SIZE \<and> waits t s q k))"
proof (intro conjI)
  note D = wr_okD [OF reach_ok [OF assms]]
  show "\<forall>q < WR_SENSOR_SIZE. distinct (keys s q) \<and> set (keys s q) = int ` {k. waits t s q k}"
    using D(6,7) by blast
  show "\<forall>k < MAX_KEYS. ve_type (wr_waiting s ! k) \<noteq> VE_NONE \<longrightarrow> (\<exists>!q. q < WR_SENSOR_SIZE \<and> waits t s q k)"
    using D(8) waits_unique by blast
qed

lemma push_group:
  assumes "cb_wf EVENT_GROUP_BUFFER_SIZE (wr_dataBuf s)" "length (groups s) < EVENT_GROUP_BUFFER_SIZE"
  shows "\<exists>b. eg_push g s = Some (s\<lparr>wr_dataBuf := b\<rparr>) \<and> cb_list EVENT_GROUP_BUFFER_SIZE b = groups s @ [g]"
  using cbq.push_room [OF assms, of g] by (auto simp: eg_push_def)

text \<open>C31: A sensor's hit never faults while the buffer of groups has room. With nothing registered at the sensor the event is
  passed on alone; otherwise it is passed on with the event whose key is the oldest there, under the train's own number, and
  exactly this registration is gone.\<close>

theorem sensor_hit_answered:
  assumes "wr_reach t s" "length (groups s) < EVENT_GROUP_BUFFER_SIZE" "re_event re = SeEvent se" "se_id se = int q"
    "q < WR_SENSOR_SIZE"
  shows "\<exists>s'. handle_re_se re s = Some s' \<and>
    (if keys s q = [] then groups s' = groups s @ [\<lparr>eg_type = RE, eg_re = Some re, eg_ve = None\<rparr>] \<and>
       wr_waiting s' = wr_waiting s \<and> wr_sensorToVE s' = wr_sensorToVE s
     else \<exists>k n. hd (keys s q) = int k \<and> waits t s q k \<and> wr_trainMap s ! n = ve_train_num (wr_waiting s ! k) \<and>
       groups s' = groups s @ [\<lparr>eg_type = VRE_RE, eg_re = Some re, eg_ve = Some ((wr_waiting s ! k)\<lparr>ve_train_num := int n\<rparr>)\<rparr>] \<and>
       (\<forall>q' < WR_SENSOR_SIZE. keys s' q' = (if q' = q then tl (keys s q) else keys s q')) \<and>
       wr_waiting s' = (wr_waiting s)[k := (wr_waiting s ! k)\<lparr>ve_type := VE_NONE\<rparr>])"
proof -
  note ok = reach_ok [OF assms(1)]
  note D = wr_okD [OF ok]
  show ?thesis
  proof (cases "keys s q = []")
    case True
    then show ?thesis using push_group [OF D(3) assms(2)] key_size_in [OF ok assms(5)] assms(3,4) by (fastforce simp: handle_re_se_def)
  next
    case False
    then obtain k0 ks where l: "keys s q = k0 # ks" by (cases "keys s q") auto
    have "k0 \<in> int ` {k. waits t s q k}" using l D(7) [OF assms(5)] by auto
    then obtain k where k: "k0 = int k" "waits t s q k" by auto
    let ?w = "wr_waiting s ! k"
    have w: "k < MAX_KEYS" "ve_type ?w = VE_REG" "0 \<le> ve_train_num ?w" "ve_train_num ?w < wr_live s"
      using k(2) by (auto simp: waits_def Let_def)
    have live: "wr_live s \<le> int WR_TRAIN_MAX" "length (wr_liveMap s) = WR_TRAIN_MAX" using D(4) by (auto simp: maps_ok_def)
    have "int (nat (ve_train_num ?w)) < wr_live s" using w(3,4) by simp
    then obtain n where n: "wr_liveMap s ! nat (ve_train_num ?w) = int n" "wr_trainMap s ! n = ve_train_num ?w"
      using D(4) w(3) unfolding maps_ok_def by fastforce
    obtain c where c: "wr_key_pop (int q) s = Some (CB_E_NONE, Some k0, s\<lparr>wr_sensorToVE := (wr_sensorToVE s)[q := c]\<rparr>)"
      "cb_list VE_KEY_BUFFER_SIZE c = ks" using key_pop [OF ok assms(5) l] by blast
    let ?s1 = "s\<lparr>wr_sensorToVE := (wr_sensorToVE s)[q := c]\<rparr>"
    let ?g = "\<lparr>eg_type = VRE_RE, eg_re = Some re, eg_ve = Some (?w\<lparr>ve_train_num := int n\<rparr>)\<rparr>"
    obtain b where b: "eg_push ?g ?s1 = Some (?s1\<lparr>wr_dataBuf := b\<rparr>)" "cb_list EVENT_GROUP_BUFFER_SIZE b = groups s @ [?g]"
      using push_group [of ?s1 ?g] D(3) assms(2) by auto
    have "live_num ?s1 ?w = Some (?w\<lparr>ve_train_num := int n\<rparr>)" using w(3,4) live n(1) by (auto simp: live_num_def agetz_def aget_def)
    moreover have "agetz (wr_waiting s) (int k) = Some ?w" using w(1) D(1) by (simp add: agetz_def)
    moreover have "0 < int (length (keys s q))" using l by (metis length_greater_0_conv list.distinct(1) of_nat_0_less_iff)
    ultimately have h: "handle_re_se re s = Some (?s1\<lparr>wr_dataBuf := b, wr_waiting := (wr_waiting s)[k := ?w\<lparr>ve_type := VE_NONE\<rparr>]\<rparr>)"
      using key_size_in [OF ok assms(5)] assms(3,4) c(1) k(1) b(1) w(1,2) D(1)
      by (simp add: handle_re_se_def reset_waiting_room_def agetz_def asetz_def)
    show ?thesis
      unfolding h using l k c(2) b(2) n(2) D(2) assms(5) by (auto intro!: exI [of _ k] exI [of _ n])
  qed
qed

text \<open>A train's expectation at the first sensor, and the hit that it waits for.\<close>

definition reg_event :: VirtualEvent where
  "reg_event = blank_ve\<lparr>ve_type := VE_REG, ve_train_num := 24, ve_node := Some 0\<rparr>"

lemma tracka_first: "0 < length tracka_nodes" "n_num (tracka_nodes ! 0) = 0"
  by (simp_all add: tracka_at)

lemma wr_registered: "\<exists>s. wr_reach tracka_nodes s \<and> groups s = [] \<and> keys s 0 = [0]"
proof -
  have r: "wr_reach tracka_nodes wr_start" unfolding wr_start_def by (rule wr_reach.start) (auto simp: blank_cb_def)
  have "\<exists>os s. WaitingRoom tracka_nodes 4 (WR_VE reg_event) wr_start = Some (os, s) \<and> groups s = [] \<and> keys s 0 = [0]"
    using tracka_first
    by (simp add: wr_start_def waiting_room_init_def init_waiting_room_def WaitingRoom_def wr_deliver_def wr_handle_def wr_live_train_def
      HandleWR_VE_def handle_ve_reg_def add_train_unique_registration_def drop_registrations.simps wr_key_size_def wr_key_push_def
      agetz_def aget_def cb_push_def asetz_def aset_def blank_cb_def cb_init_def reg_event_def blank_ve_def init_train_map_def
      cb_list_def Let_def)
  then obtain os s where "WaitingRoom tracka_nodes 4 (WR_VE reg_event) wr_start = Some (os, s)" "groups s = []" "keys s 0 = [0]" by blast
  moreover from this have "wr_reach tracka_nodes s" using wr_reach.turn [OF r, of "WR_VE reg_event"] by (simp add: wr_asked_def)
  ultimately show ?thesis by blast
qed

theorem waiting_room_kept_witness:
  "\<exists>s. keys s 0 = [0] \<and> 0 \<in> {k. waits tracka_nodes s 0 k}"
proof -
  obtain s where s: "wr_reach tracka_nodes s" "keys s 0 = [0]" using wr_registered by blast
  have "set (keys s 0) = int ` {k. waits tracka_nodes s 0 k}" using waiting_room_kept [OF s(1)] by simp
  then have "{0} = int ` {k. waits tracka_nodes s 0 k}" unfolding s(2) by simp
  then have "(0::int) \<in> int ` {k. waits tracka_nodes s 0 k}" by blast
  then have "0 \<in> {k. waits tracka_nodes s 0 k}" by (simp add: image_iff)
  then show ?thesis using s(2) by blast
qed

theorem sensor_hit_answered_witness:
  "\<exists>s s' g. wr_reach tracka_nodes s \<and> handle_re_se (sensor_event 9 0 1) s = Some s' \<and> groups s' = [g] \<and> eg_type g = VRE_RE \<and> keys s' 0 = []"
proof -
  obtain s where s: "wr_reach tracka_nodes s" "groups s = []" "keys s 0 = [0]" using wr_registered by blast
  show ?thesis
    using sensor_hit_answered [OF s(1), of "sensor_event 9 0 1" _ 0] s by (fastforce simp: sensor_event_def)
qed

end
