(* ===== verification/IOServer.thy ===== *)
theory IOServer
  imports CircBuf
begin

text \<open>
  The servers of a serial line, user/ioserver.c. The receiving server keeps the bytes that came in and the task that waits for
  one; the transmitting server keeps the bytes that are to go out, each with the task that waits until it
  is out, and writes one whenever the line can take it. On the line to the trains it also waits for the
  line's clear-to-send to have gone away and come back since the last byte. What the two do is a
  list of replies and of writes to the data register; the byte read from that register is an argument.
\<close>

abbreviation IO_SERVER_BUFFER_SIZE :: nat where "IO_SERVER_BUFFER_SIZE \<equiv> 16192"

section \<open>Requests\<close>

(* src/include/user/ioserver.h:22-32 *)
datatype IOServerReqType = IO_GETC | IO_PUTC | IO_TX | IO_RX | IO_RT | IO_MI | IO_PUTSTR | IO_BLPUTC | IO_FLUSH

text \<open>\<^verbatim>\<open>msg\<close> points into the memory of the sender, who waits: the bytes that are there.\<close>

(* src/include/user/ioserver.h:42-46 *)
record IOServerReq =
  io_msg :: "u8 list"
  io_len :: int
  io_type :: IOServerReqType

(* src/include/lib/ioserver_buffer.h:8-11 *)
record iobuf_item =
  ib_c :: u8
  ib_btid :: int

datatype io_out = IoWrite u8 | IoReply int | IoReplyChar int u8

text \<open>The calls of the clients: what they send. The bytes of a request that only has a type are indeterminate.\<close>

(* src/src/user/ioserver.c:331-342 *)
definition GetC :: "int \<Rightarrow> u8 list \<Rightarrow> int \<Rightarrow> IOServerReq option" where
  "GetC ios_tid junk len = do {
     kassert (0 < ios_tid);
     Some \<lparr>io_msg = junk, io_len = len, io_type = IO_GETC\<rparr> }"

(* src/src/user/ioserver.c:345-359 *)
definition PutC :: "int \<Rightarrow> u8 \<Rightarrow> IOServerReq option" where
  "PutC ios_tid c = do {
     kassert (0 < ios_tid);
     Some \<lparr>io_msg = [c], io_len = 1, io_type = IO_PUTC\<rparr> }"

(* src/src/user/ioserver.c:361-375 *)
definition BLPutC :: "int \<Rightarrow> u8 \<Rightarrow> IOServerReq option" where
  "BLPutC ios_tid c = do {
     kassert (0 < ios_tid);
     Some \<lparr>io_msg = [c], io_len = 1, io_type = IO_BLPUTC\<rparr> }"

(* src/src/user/ioserver.c:377-391 *)
definition PutStr :: "int \<Rightarrow> u8 list \<Rightarrow> int \<Rightarrow> IOServerReq option" where
  "PutStr ios_tid c len = do {
     kassert (0 < ios_tid);
     Some \<lparr>io_msg = c, io_len = len, io_type = IO_PUTSTR\<rparr> }"

(* src/src/user/ioserver.c:393-405 *)
definition FlushIO :: "int \<Rightarrow> u8 list \<Rightarrow> int \<Rightarrow> IOServerReq option" where
  "FlushIO ios_tid junk len = do {
     kassert (0 < ios_tid);
     Some \<lparr>io_msg = junk, io_len = len, io_type = IO_FLUSH\<rparr> }"

text \<open>The notifier of an interrupt: it enables the interrupt in the control register, waits for the event and tells the server.\<close>

(* src/include/user/ioserver.h:34-40 *)
record IONotifierArgs =
  ina_type :: IOServerReqType
  ina_ie :: int
  ina_tid :: int
  ina_uart :: int
  ina_emask :: u32

datatype io_notify = IoAwait int | IoSend int IOServerReqType

(* src/src/user/ioserver.c:11-24 *)
definition IOServerNotifier :: "IONotifierArgs \<Rightarrow> u32 \<Rightarrow> u32 \<times> io_notify list" where
  "IOServerNotifier args ictrl = (ictrl OR ina_emask args, [IoAwait (ina_ie args), IoSend (ina_tid args) (ina_type args)])"

section \<open>Receiving\<close>

record io_rx =
  rx_buf :: "iobuf_item cbuf"
  rx_iobi :: iobuf_item
  rx_queued :: int

text \<open>What the buffers and the item hold before their initialisation is an argument.\<close>

(* src/src/user/ioserver.c:59-61 *)
definition rx_init :: "iobuf_item cbuf \<Rightarrow> iobuf_item \<Rightarrow> io_rx" where
  "rx_init buf item = \<lparr>rx_buf = cb_init buf, rx_iobi = item, rx_queued = - 1\<rparr>"

text \<open>A byte for the task \<open>tid\<close> that waits for it.\<close>

(* src/src/user/ioserver.c:70-72 *)
definition rx_give :: "int \<Rightarrow> io_rx \<Rightarrow> (io_out list \<times> io_rx) option" where
  "rx_give tid s = do {
     (r, item, q) \<leftarrow> cb_pop IO_SERVER_BUFFER_SIZE (rx_buf s);
     kassert (r = CB_E_NONE);
     item \<leftarrow> item;
     Some ([IoReplyChar tid (ib_c item)], s\<lparr>rx_buf := q, rx_iobi := item\<rparr>) }"

(* src/src/user/ioserver.c:65-104 *)
definition IOServerRX :: "u8 \<Rightarrow> int \<Rightarrow> IOServerReq \<Rightarrow> io_rx \<Rightarrow> (io_out list \<times> io_rx) option" where
  "IOServerRX data req_tid req s =
     (case io_type req of
        IO_GETC \<Rightarrow>
          if 0 < cb_size (rx_buf s) then rx_give req_tid s
          else do {
            kassert (rx_queued s \<noteq> - 1 \<longrightarrow> rx_queued s = req_tid);
            Some ([], s\<lparr>rx_queued := req_tid\<rparr>) }
      | IO_RX \<Rightarrow> do {
          let item = (rx_iobi s)\<lparr>ib_c := data\<rparr>;
          (r, q) \<leftarrow> cb_push IO_SERVER_BUFFER_SIZE item (rx_buf s);
          kassert (r = CB_E_NONE);
          let s = s\<lparr>rx_buf := q, rx_iobi := item\<rparr>;
          (os, s) \<leftarrow> (if 0 < rx_queued s \<and> 0 < cb_size (rx_buf s) then do {
                       (os, s) \<leftarrow> rx_give (rx_queued s) s;
                       Some (os, s\<lparr>rx_queued := - 1\<rparr>) }
                     else Some ([], s));
          Some (os @ [IoReply req_tid], s) }
      | IO_FLUSH \<Rightarrow> Some ([IoReply req_tid], s\<lparr>rx_buf := cb_init (rx_buf s)\<rparr>)
      | _ \<Rightarrow> do { kassert False; Some ([], s) })"

section \<open>Transmitting\<close>

record io_tx =
  tx_buf :: "iobuf_item cbuf"
  tx_iobi :: iobuf_item
  tx_not :: int
  tx_ready :: bool
  tx_cts_count :: int

(* src/src/user/ioserver.c:155-161 *)
definition tx_init :: "iobuf_item cbuf \<Rightarrow> u8 \<Rightarrow> io_tx" where
  "tx_init buf c = \<lparr>tx_buf = cb_init buf, tx_iobi = \<lparr>ib_c = c, ib_btid = - 1\<rparr>, tx_not = - 1, tx_ready = True,
     tx_cts_count = 2\<rparr>"

text \<open>The line can take a byte.\<close>

(* src/src/user/ioserver.c:174-174 *)
definition tx_can :: "bool \<Rightarrow> io_tx \<Rightarrow> bool" where
  "tx_can cts_en s \<longleftrightarrow> tx_ready s \<and> (\<not> cts_en \<or> (cts_en \<and> 1 < tx_cts_count s))"

(* src/src/user/ioserver.c:168-171 *)
definition tx_push :: "u8 \<Rightarrow> io_tx \<Rightarrow> io_tx option" where
  "tx_push c s = do {
     let item = (tx_iobi s)\<lparr>ib_c := c\<rparr>;
     (r, q) \<leftarrow> cb_push IO_SERVER_BUFFER_SIZE item (tx_buf s);
     kassert (r = CB_E_NONE);
     Some (s\<lparr>tx_buf := q, tx_iobi := item\<rparr>) }"

(* src/src/user/ioserver.c:194-198 *)
fun tx_push_str :: "u8 list \<Rightarrow> int \<Rightarrow> nat \<Rightarrow> io_tx \<Rightarrow> io_tx option" where
  "tx_push_str str i 0 s = Some s"
| "tx_push_str str i (Suc n) s = do {
     c \<leftarrow> agetz str i;
     s \<leftarrow> tx_push c s;
     tx_push_str str (i + 1) n s }"

text \<open>One byte: \<^verbatim>\<open>PUTC\<close> and \<^verbatim>\<open>BLPUTC\<close>, which differ in the task that is to wait.\<close>

(* src/src/user/ioserver.c:167-187 *)
definition tx_putc :: "bool \<Rightarrow> int \<Rightarrow> IOServerReq \<Rightarrow> io_tx \<Rightarrow> (bool \<times> io_tx) option" where
  "tx_putc cts_en btid req s = do {
     c \<leftarrow> agetz (io_msg req) 0;
     s \<leftarrow> tx_push c (s\<lparr>tx_iobi := (tx_iobi s)\<lparr>ib_btid := btid\<rparr>\<rparr>);
     kassert (io_len req = 1);
     Some (tx_can cts_en s, s) }"

text \<open>The switch over the requests: what is sent at once, whether the code goes to \<^verbatim>\<open>TX_CHAR\<close>, and the state.\<close>

(* src/src/user/ioserver.c:166-230 *)
definition tx_request :: "bool \<Rightarrow> int \<Rightarrow> IOServerReq \<Rightarrow> io_tx \<Rightarrow> (io_out list \<times> bool \<times> io_tx) option" where
  "tx_request cts_en req_tid req s =
     (case io_type req of
        IO_PUTC \<Rightarrow> do { (go, s) \<leftarrow> tx_putc cts_en (- 1) req s; Some ([], go, s) }
      | IO_BLPUTC \<Rightarrow> do { (go, s) \<leftarrow> tx_putc cts_en req_tid req s; Some ([], go, s) }
      | IO_PUTSTR \<Rightarrow> do {
          s \<leftarrow> tx_push_str (io_msg req) 0 (nat (io_len req)) (s\<lparr>tx_iobi := (tx_iobi s)\<lparr>ib_btid := - 1\<rparr>\<rparr>);
          Some ([], tx_can cts_en s, s) }
      | IO_TX \<Rightarrow> do {
          let s = s\<lparr>tx_not := req_tid, tx_ready := True\<rparr>;
          Some ([], 0 < cb_size (tx_buf s) \<and> (\<not> cts_en \<or> (cts_en \<and> 1 < tx_cts_count s)), s) }
      | IO_MI \<Rightarrow> do {
          n \<leftarrow> i32 (tx_cts_count s + 1);
          let s = s\<lparr>tx_cts_count := n\<rparr>;
          Some ([], tx_ready s \<and> 0 < cb_size (tx_buf s) \<and> 1 < tx_cts_count s, s) }
      | IO_FLUSH \<Rightarrow> Some ([IoReply req_tid], False, s\<lparr>tx_buf := cb_init (tx_buf s)\<rparr>)
      | _ \<Rightarrow> do { kassert False; Some ([], False, s) })"

text \<open>The reply to the sender, unless it is the notifier or waits for its byte.\<close>

(* src/src/user/ioserver.c:234-235 *)
definition tx_ack :: "int \<Rightarrow> io_tx \<Rightarrow> io_out list" where
  "tx_ack req_tid s = (if tx_not s \<noteq> req_tid \<and> ib_btid (tx_iobi s) \<noteq> req_tid then [IoReply req_tid] else [])"

(* src/src/user/ioserver.c:238-258 *)
definition tx_char :: "int \<Rightarrow> io_tx \<Rightarrow> (io_out list \<times> io_tx) option" where
  "tx_char req_tid s = do {
     (r, iobr, q) \<leftarrow> cb_pop IO_SERVER_BUFFER_SIZE (tx_buf s);
     kassert (r = CB_E_NONE);
     iobr \<leftarrow> iobr;
     let s = s\<lparr>tx_buf := q, tx_ready := False, tx_cts_count := 0\<rparr>;
     kassert (0 < tx_not s);
     Some ([IoWrite (ib_c iobr), IoReply (tx_not s)] @ tx_ack req_tid s @
       (if ib_btid iobr \<noteq> - 1 then [IoReply (ib_btid iobr)] else []), s) }"

(* src/src/user/ioserver.c:165-259 *)
definition IOServerTX :: "bool \<Rightarrow> int \<Rightarrow> IOServerReq \<Rightarrow> io_tx \<Rightarrow> (io_out list \<times> io_tx) option" where
  "IOServerTX cts_en req_tid req s = do {
     (os, go, s) \<leftarrow> tx_request cts_en req_tid req s;
     if go then do {
       (os', s) \<leftarrow> tx_char req_tid s;
       Some (os @ os', s) }
     else Some (os @ tx_ack req_tid s, s) }"

end
