(* ===== verification/IOServerProps.thy ===== *)
theory IOServerProps
  imports IOServer
begin

text \<open>
  The properties of the servers of a serial line: the bytes pass in order, the line is written to only when it can
  take a byte and never left idle, and every writer is answered once.
\<close>

section \<open>The queues\<close>

abbreviation tx_items :: "io_tx \<Rightarrow> iobuf_item list" where
  "tx_items s \<equiv> cb_list IO_SERVER_BUFFER_SIZE (tx_buf s)"

abbreviation rx_items :: "io_rx \<Rightarrow> iobuf_item list" where
  "rx_items s \<equiv> cb_list IO_SERVER_BUFFER_SIZE (rx_buf s)"

abbreviation io_wf :: "iobuf_item cbuf \<Rightarrow> bool" where
  "io_wf \<equiv> cb_wf IO_SERVER_BUFFER_SIZE"

lemma size_pos [simp]: "io_wf q \<Longrightarrow> 0 < cb_size q \<longleftrightarrow> cb_list IO_SERVER_BUFFER_SIZE q \<noteq> []"
  by (simp add: cb_list_empty_iff word_gt_0)

lemma io_push:
  assumes "cb_push IO_SERVER_BUFFER_SIZE x q = Some (r, q')" "r = CB_E_NONE" "io_wf q"
  shows "io_wf q'" "cb_list IO_SERVER_BUFFER_SIZE q' = cb_list IO_SERVER_BUFFER_SIZE q @ [x]"
  using cbq.push_NONE [OF assms(3)] assms(1,2) by auto

lemma io_pop:
  assumes "cb_pop IO_SERVER_BUFFER_SIZE q = Some (r, Some x, q')" "io_wf q"
  shows "io_wf q'" "cb_list IO_SERVER_BUFFER_SIZE q = x # cb_list IO_SERVER_BUFFER_SIZE q'"
  using cbq.pop_cases [OF assms(2,1)] by auto

section \<open>A turn of the transmitting server\<close>

text \<open>\<open>tx_put b cs s s'\<close>: the bytes \<open>cs\<close> have been queued, with the task \<open>b\<close> to wait for each.\<close>

definition tx_put :: "int \<Rightarrow> u8 list \<Rightarrow> io_tx \<Rightarrow> io_tx \<Rightarrow> bool" where
  "tx_put b cs s s' \<longleftrightarrow> io_wf (tx_buf s') \<and> tx_items s' = tx_items s @ map (\<lambda>c. \<lparr>ib_c = c, ib_btid = b\<rparr>) cs \<and>
     ib_btid (tx_iobi s') = b \<and> tx_not s' = tx_not s \<and> tx_ready s' = tx_ready s \<and> tx_cts_count s' = tx_cts_count s"

lemma push_put:
  assumes "tx_push c s = Some s'" "io_wf (tx_buf s)"
  shows "tx_put (ib_btid (tx_iobi s)) [c] s s'"
  using assms io_push [OF _ _ assms(2)] by (auto simp: tx_push_def tx_put_def Let_def elim!: bind_SomeE)

lemma push_str_put:
  "tx_push_str str i n s = Some s' \<Longrightarrow> io_wf (tx_buf s) \<Longrightarrow> ib_btid (tx_iobi s) = b \<Longrightarrow> 0 \<le> i \<Longrightarrow>
   tx_put b (take n (drop (nat i) str)) s s'"
proof (induction n arbitrary: i s)
  case 0
  then show ?case by (auto simp: tx_put_def)
next
  case (Suc n)
  then obtain s1 where 1: "nat i < length str" "tx_push (str ! nat i) s = Some s1" "tx_push_str str (i + 1) n s1 = Some s'"
    by (auto simp: agetz_eq_Some elim!: bind_SomeE)
  have p: "tx_put b [str ! nat i] s s1" using push_put [OF 1(2)] Suc.prems by simp
  have "tx_put b (take n (drop (nat (i + 1)) str)) s1 s'"
    using Suc.IH [OF 1(3)] p Suc.prems(4) by (simp add: tx_put_def)
  moreover have "take (Suc n) (drop (nat i) str) = str ! nat i # take n (drop (nat (i + 1)) str)"
    using 1(1) Suc.prems(4) by (simp add: Cons_nth_drop_Suc [symmetric] nat_add_distrib)
  ultimately show ?case using p by (simp add: tx_put_def)
qed

text \<open>What a request puts into the queue, and who is to wait.\<close>

definition put_bytes :: "IOServerReq \<Rightarrow> u8 list" where
  "put_bytes req = (if io_type req = IO_PUTC \<or> io_type req = IO_BLPUTC then take 1 (io_msg req)
     else if io_type req = IO_PUTSTR then take (nat (io_len req)) (io_msg req) else [])"

definition put_by :: "int \<Rightarrow> IOServerReq \<Rightarrow> int" where
  "put_by tid req = (if io_type req = IO_BLPUTC then tid else - 1)"

lemma take_1_drop: "agetz str 0 = Some c \<Longrightarrow> take 1 str = [c]"
  by (cases str) (auto simp: agetz_eq_Some)

text \<open>The state after the switch: what was asked has been recorded.\<close>

definition tx_noted :: "int \<Rightarrow> IOServerReq \<Rightarrow> io_tx \<Rightarrow> io_tx \<Rightarrow> bool" where
  "tx_noted tid req s s' \<longleftrightarrow> io_wf (tx_buf s') \<and>
     tx_items s' = (if io_type req = IO_FLUSH then []
       else tx_items s @ map (\<lambda>c. \<lparr>ib_c = c, ib_btid = put_by tid req\<rparr>) (put_bytes req)) \<and>
     ib_btid (tx_iobi s') = (if io_type req \<in> {IO_PUTC, IO_BLPUTC, IO_PUTSTR} then put_by tid req else ib_btid (tx_iobi s)) \<and>
     tx_not s' = (if io_type req = IO_TX then tid else tx_not s) \<and>
     (tx_ready s' \<longleftrightarrow> tx_ready s \<or> io_type req = IO_TX) \<and>
     tx_cts_count s' = tx_cts_count s + (if io_type req = IO_MI then 1 else 0) \<and>
     (io_type req = IO_BLPUTC \<longrightarrow> length (put_bytes req) = 1)"

lemma putc_noted:
  assumes "tx_putc cts b req s = Some (go, s')" "io_wf (tx_buf s)"
  shows "tx_put b (take 1 (io_msg req)) s s' \<and> go = tx_can cts s' \<and> length (take 1 (io_msg req)) = 1"
proof -
  obtain c where c: "agetz (io_msg req) 0 = Some c" "tx_push c (s\<lparr>tx_iobi := (tx_iobi s)\<lparr>ib_btid := b\<rparr>\<rparr>) = Some s'" "go = tx_can cts s'"
    using assms(1) by (auto simp: tx_putc_def elim!: bind_SomeE)
  from push_put [OF c(2)] assms(2) show ?thesis using c(3) unfolding take_1_drop [OF c(1)] by (simp add: tx_put_def)
qed

text \<open>After the switch the code goes on to write if the line can take a byte and there is one.\<close>

lemma request_noted:
  assumes "tx_request cts tid req s = Some (os, go, s')" "io_wf (tx_buf s)" "tx_items s \<noteq> [] \<longrightarrow> \<not> tx_can cts s"
  shows "tx_noted tid req s s' \<and> (tx_items s' \<noteq> [] \<longrightarrow> (go \<longleftrightarrow> tx_can cts s')) \<and> (go \<longrightarrow> tx_can cts s') \<and>
    os = (if io_type req = IO_FLUSH then [IoReply tid] else [])"
proof (cases "io_type req")
  case IO_PUTC
  then have "tx_putc cts (- 1) req s = Some (go, s')" "os = []" using assms(1) by (auto simp: tx_request_def elim!: bind_SomeE)
  then show ?thesis using putc_noted [OF _ assms(2)] IO_PUTC by (auto simp: tx_noted_def tx_put_def put_by_def put_bytes_def)
next
  case IO_BLPUTC
  then have "tx_putc cts tid req s = Some (go, s')" "os = []" using assms(1) by (auto simp: tx_request_def elim!: bind_SomeE)
  then show ?thesis using putc_noted [OF _ assms(2)] IO_BLPUTC by (auto simp: tx_noted_def tx_put_def put_by_def put_bytes_def)
next
  case IO_PUTSTR
  let ?s = "s\<lparr>tx_iobi := (tx_iobi s)\<lparr>ib_btid := - 1\<rparr>\<rparr>"
  have "tx_push_str (io_msg req) 0 (nat (io_len req)) ?s = Some s'" "os = []" "go = tx_can cts s'"
    using assms(1) IO_PUTSTR by (auto simp: tx_request_def elim!: bind_SomeE)
  then show ?thesis using push_str_put [of "io_msg req" 0 _ ?s s' "- 1"] assms(2) IO_PUTSTR
    by (auto simp: tx_noted_def tx_put_def put_by_def put_bytes_def)
next
  case IO_FLUSH
  then show ?thesis using assms(1,2) cb_wfD(3) [OF assms(2)]
    by (auto simp: tx_request_def tx_noted_def put_bytes_def intro!: cb_init_wf)
qed (use assms in \<open>auto simp: tx_request_def tx_noted_def tx_can_def put_by_def put_bytes_def Let_def i32_eq_Some elim!: bind_SomeE\<close>)

lemma char_written:
  assumes "tx_char tid s = Some (os, s')" "io_wf (tx_buf s)"
  shows "\<exists>x. tx_items s = x # tx_items s' \<and> io_wf (tx_buf s') \<and> 0 < tx_not s \<and> s' = s\<lparr>tx_buf := tx_buf s', tx_ready := False, tx_cts_count := 0\<rparr> \<and>
    os = [IoWrite (ib_c x), IoReply (tx_not s)] @ tx_ack tid s @ (if ib_btid x \<noteq> - 1 then [IoReply (ib_btid x)] else [])"
proof -
  obtain x q where q: "cb_pop IO_SERVER_BUFFER_SIZE (tx_buf s) = Some (CB_E_NONE, Some x, q)"
    "s' = s\<lparr>tx_buf := q, tx_ready := False, tx_cts_count := 0\<rparr>" "0 < tx_not s"
    "os = [IoWrite (ib_c x), IoReply (tx_not s)] @ tx_ack tid s @ (if ib_btid x \<noteq> - 1 then [IoReply (ib_btid x)] else [])"
    using assms(1) by (auto simp: tx_char_def tx_ack_def Let_def elim!: bind_SomeE)
  from io_pop [OF q(1) assms(2)] show ?thesis using q(2-) by (intro exI [of _ x]) simp
qed

text \<open>A whole turn: what is asked is noted, and a byte is written exactly when the line can take it.\<close>

definition tx_inv :: "bool \<Rightarrow> io_tx \<Rightarrow> bool" where
  "tx_inv cts s \<longleftrightarrow> io_wf (tx_buf s) \<and> (tx_items s \<noteq> [] \<longrightarrow> \<not> tx_can cts s)"

lemma tx_turn:
  assumes "IOServerTX cts tid req s = Some (os, s')" "tx_inv cts s"
  obtains (sent) s1 x where "tx_noted tid req s s1" "tx_can cts s1" "tx_items s1 = x # tx_items s'" "0 < tx_not s1"
      "s' = s1\<lparr>tx_buf := tx_buf s', tx_ready := False, tx_cts_count := 0\<rparr>" "io_type req \<noteq> IO_FLUSH"
      "os = [IoWrite (ib_c x), IoReply (tx_not s1)] @ tx_ack tid s1 @ (if ib_btid x \<noteq> - 1 then [IoReply (ib_btid x)] else [])"
      "tx_inv cts s'"
  | (quiet) "tx_noted tid req s s'" "os = (if io_type req = IO_FLUSH then [IoReply tid] else []) @ tx_ack tid s'" "tx_inv cts s'"
proof -
  obtain o1 go s1 where 1: "tx_request cts tid req s = Some (o1, go, s1)"
    "(if go then do { (os', s) \<leftarrow> tx_char tid s1; Some (o1 @ os', s) } else Some (o1 @ tx_ack tid s1, s1)) = Some (os, s')"
    using assms(1) by (auto simp: IOServerTX_def elim!: bind_SomeE)
  note R = request_noted [OF 1(1)] assms(2)
  have n: "tx_noted tid req s s1" and g: "tx_items s1 \<noteq> [] \<longrightarrow> (go \<longleftrightarrow> tx_can cts s1)" "go \<longrightarrow> tx_can cts s1"
    and o1: "o1 = (if io_type req = IO_FLUSH then [IoReply tid] else [])"
    using R by (auto simp: tx_inv_def)
  have wf: "io_wf (tx_buf s1)" using n by (simp add: tx_noted_def)
  show thesis
  proof (cases go)
    case True
    then obtain o2 where 2: "tx_char tid s1 = Some (o2, s')" "os = o1 @ o2" using 1(2) by (auto elim!: bind_SomeE)
    from char_written [OF 2(1) wf] obtain x where x: "tx_items s1 = x # tx_items s'" "io_wf (tx_buf s')" "0 < tx_not s1"
      "s' = s1\<lparr>tx_buf := tx_buf s', tx_ready := False, tx_cts_count := 0\<rparr>"
      "o2 = [IoWrite (ib_c x), IoReply (tx_not s1)] @ tx_ack tid s1 @ (if ib_btid x \<noteq> - 1 then [IoReply (ib_btid x)] else [])" by blast
    have nf: "io_type req \<noteq> IO_FLUSH" using n x(1) by (auto simp: tx_noted_def)
    have "\<not> tx_ready s'" by (subst x(4)) simp
    then have "tx_inv cts s'" using x(2) by (simp add: tx_inv_def tx_can_def)
    then show thesis using sent [OF n _ x(1,3,4) nf] g(2) True 2(2) o1 nf x(5) by simp
  next
    case False
    then show thesis using quiet n g(1) 1(2) o1 wf by (auto simp: tx_inv_def)
  qed
qed

section \<open>Runs\<close>

fun tx_run :: "bool \<Rightarrow> (int \<times> IOServerReq) list \<Rightarrow> io_tx \<Rightarrow> (io_out list list \<times> io_tx) option" where
  "tx_run cts [] s = Some ([], s)"
| "tx_run cts ((tid, req) # rs) s = do {
     (os, s) \<leftarrow> IOServerTX cts tid req s;
     (oss, s) \<leftarrow> tx_run cts rs s;
     Some (os # oss, s) }"

lemma tx_run_Cons:
  assumes "tx_run cts (r # rs) s = Some (oss, s')"
  obtains os s1 oss' where "IOServerTX cts (fst r) (snd r) s = Some (os, s1)" "tx_run cts rs s1 = Some (oss', s')" "oss = os # oss'"
  using assms by (cases r) (auto elim!: bind_SomeE)

lemma tx_init_inv: "length (cb_buf buf) = IO_SERVER_BUFFER_SIZE \<Longrightarrow> tx_inv cts (tx_init buf c)"
  by (simp add: tx_inv_def tx_init_def cb_init_wf)

text \<open>The bytes written to the line.\<close>

fun written :: "io_out \<Rightarrow> u8 list" where
  "written (IoWrite c) = [c]"
| "written _ = []"

abbreviation line_bytes :: "io_out list \<Rightarrow> u8 list" where
  "line_bytes os \<equiv> concat (map written os)"

lemma ack_bytes [simp]: "line_bytes (tx_ack tid s) = []"
  by (simp add: tx_ack_def)

lemma turn_bytes:
  assumes "IOServerTX cts tid req s = Some (os, s')" "tx_inv cts s" "io_type req \<noteq> IO_FLUSH"
  shows "line_bytes os @ map ib_c (tx_items s') = map ib_c (tx_items s) @ put_bytes req"
proof (cases rule: tx_turn [OF assms(1,2)])
  case (1 s1 x)
  then have "map ib_c (tx_items s1) = map ib_c (tx_items s) @ put_bytes req" using assms(3) by (simp add: tx_noted_def o_def)
  then show ?thesis using 1(3,7) by simp
next
  case 2
  then show ?thesis using assms(3) by (simp add: tx_noted_def o_def)
qed

lemma tx_run_bytes:
  "tx_run cts rs s = Some (oss, s') \<Longrightarrow> tx_inv cts s \<Longrightarrow> \<forall>r \<in> set rs. io_type (snd r) \<noteq> IO_FLUSH \<Longrightarrow>
   line_bytes (concat oss) @ map ib_c (tx_items s') = map ib_c (tx_items s) @ concat (map (\<lambda>r. put_bytes (snd r)) rs) \<and> tx_inv cts s'"
proof (induction rs arbitrary: s oss)
  case (Cons r rs)
  from tx_run_Cons [OF Cons.prems(1)] obtain os s1 oss' where
    1: "IOServerTX cts (fst r) (snd r) s = Some (os, s1)" "tx_run cts rs s1 = Some (oss', s')" "oss = os # oss'" .
  have "tx_inv cts s1" by (rule tx_turn [OF 1(1) Cons.prems(2)])
  then have "line_bytes (concat oss') @ map ib_c (tx_items s') = map ib_c (tx_items s1) @ concat (map (\<lambda>r. put_bytes (snd r)) rs) \<and> tx_inv cts s'"
    using Cons.IH [OF 1(2)] Cons.prems(3) by simp
  then show ?case using turn_bytes [OF 1(1) Cons.prems(2)] Cons.prems(3) 1(3) by simp
qed simp

section \<open>Claims\<close>

text \<open>C19: The transmitting server of a serial line loses, repeats and reorders nothing: after any run of requests other than
  flushes, the bytes that were written to the line followed by those still queued are the bytes of the requests, in the order of
  the requests.\<close>

theorem io_tx_order:
  assumes "tx_run cts rs (tx_init buf c) = Some (oss, s)" "length (cb_buf buf) = IO_SERVER_BUFFER_SIZE"
    "\<forall>r \<in> set rs. io_type (snd r) \<noteq> IO_FLUSH"
  shows "line_bytes (concat oss) @ map ib_c (tx_items s) = concat (map (\<lambda>r. put_bytes (snd r)) rs)"
  using tx_run_bytes [OF assms(1) tx_init_inv [OF assms(2)] assms(3)] by (simp add: tx_init_def)

text \<open>The line: it is empty after \<^verbatim>\<open>IO_TX\<close>, its modem status changes with \<^verbatim>\<open>IO_MI\<close>. The line to the trains may be
  written to when it is empty and has changed its status twice since the last byte.\<close>

datatype line_ev = LineTx | LineMi | LineWrite

fun line_ok :: "bool \<Rightarrow> bool \<Rightarrow> int \<Rightarrow> line_ev list \<Rightarrow> bool" where
  "line_ok cts mt n [] = True"
| "line_ok cts mt n (LineTx # es) = line_ok cts True n es"
| "line_ok cts mt n (LineMi # es) = line_ok cts mt (n + 1) es"
| "line_ok cts mt n (LineWrite # es) = (mt \<and> (cts \<longrightarrow> 2 \<le> n) \<and> line_ok cts False 0 es)"

text \<open>Whether the line can take a byte after these events.\<close>

fun line_free :: "bool \<Rightarrow> bool \<Rightarrow> int \<Rightarrow> line_ev list \<Rightarrow> bool" where
  "line_free cts mt n [] = (mt \<and> (cts \<longrightarrow> 2 \<le> n))"
| "line_free cts mt n (LineTx # es) = line_free cts True n es"
| "line_free cts mt n (LineMi # es) = line_free cts mt (n + 1) es"
| "line_free cts mt n (LineWrite # es) = line_free cts False 0 es"

fun line_in :: "IOServerReq \<Rightarrow> line_ev list" where
  "line_in req = (if io_type req = IO_TX then [LineTx] else if io_type req = IO_MI then [LineMi] else [])"

text \<open>What the line sees of a run.\<close>

fun line_trace :: "(int \<times> IOServerReq) list \<Rightarrow> io_out list list \<Rightarrow> line_ev list" where
  "line_trace (r # rs) (os # oss) = line_in (snd r) @ map (\<lambda>_. LineWrite) (line_bytes os) @ line_trace rs oss"
| "line_trace _ _ = []"

lemma tx_run_line:
  "tx_run cts rs s = Some (oss, s') \<Longrightarrow> tx_inv cts s \<Longrightarrow> line_ok cts (tx_ready s) (tx_cts_count s) (line_trace rs oss) \<and>
    line_free cts (tx_ready s) (tx_cts_count s) (line_trace rs oss) = tx_can cts s' \<and> tx_inv cts s'"
proof (induction rs arbitrary: s oss)
  case (Cons r rs)
  from tx_run_Cons [OF Cons.prems(1)] obtain os s1 oss' where
    1: "IOServerTX cts (fst r) (snd r) s = Some (os, s1)" "tx_run cts rs s1 = Some (oss', s')" "oss = os # oss'" .
  have "tx_inv cts s1" by (rule tx_turn [OF 1(1) Cons.prems(2)])
  from Cons.IH [OF 1(2) this] have ih: "line_ok cts (tx_ready s1) (tx_cts_count s1) (line_trace rs oss')"
    "line_free cts (tx_ready s1) (tx_cts_count s1) (line_trace rs oss') = tx_can cts s'" "tx_inv cts s'" by auto
  show ?case
  proof (cases rule: tx_turn [OF 1(1) Cons.prems(2)])
    case (1 s2 x)
    have "tx_ready s1 = False" "tx_cts_count s1 = 0" by (subst 1(5), simp)+
    moreover have "line_bytes os = [ib_c x]" using 1(7) by simp
    then have "line_trace (r # rs) oss = line_in (snd r) @ LineWrite # line_trace rs oss'"
      unfolding \<open>oss = os # oss'\<close> by (simp only: line_trace.simps list.map append_Cons append_Nil)
    ultimately show ?thesis using ih 1(1,2) by (auto simp: tx_noted_def tx_can_def)
  next
    case 2
    then have "line_bytes os = []" by simp
    then have "line_trace (r # rs) oss = line_in (snd r) @ line_trace rs oss'"
      unfolding \<open>oss = os # oss'\<close> by (simp only: line_trace.simps list.map append_Nil)
    then show ?thesis using ih 2(1) by (auto simp: tx_noted_def)
  qed
qed (auto simp: tx_can_def)

text \<open>C20: The transmitting server keeps the protocol of its line and does not leave it idle, by what happened on the
  line and not by the server's own flags: in any run it writes a byte only when the line is empty (its interrupt came after the
  last byte) and, to the trains, has changed clear-to-send twice since the last byte; and after each run either no byte is queued
  or the events of the run leave the line in a state in which it cannot take one.\<close>

theorem io_tx_line:
  assumes "tx_run cts rs (tx_init buf c) = Some (oss, s)" "length (cb_buf buf) = IO_SERVER_BUFFER_SIZE"
  shows "line_ok cts True 2 (line_trace rs oss) \<and> (tx_items s = [] \<or> \<not> line_free cts True 2 (line_trace rs oss))"
proof -
  have "line_ok cts True 2 (line_trace rs oss) \<and> line_free cts True 2 (line_trace rs oss) = tx_can cts s \<and> tx_inv cts s"
    using tx_run_line [OF assms(1) tx_init_inv [OF assms(2)]] by (simp add: tx_init_def)
  then show ?thesis by (auto simp: tx_inv_def)
qed

text \<open>Replies to a task, and its bytes in the queue that it waits for.\<close>

fun replies :: "int \<Rightarrow> io_out \<Rightarrow> nat" where
  "replies x (IoReply y) = (if y = x then 1 else 0)"
| "replies x (IoReplyChar y c) = (if y = x then 1 else 0)"
| "replies x (IoWrite c) = 0"

abbreviation answered :: "int \<Rightarrow> io_out list \<Rightarrow> nat" where
  "answered x os \<equiv> sum_list (map (replies x) os)"

abbreviation awaits :: "int \<Rightarrow> io_tx \<Rightarrow> nat" where
  "awaits x s \<equiv> length (filter (\<lambda>i. ib_btid i = x) (tx_items s))"

text \<open>A writer: it sends bytes, and is not the notifier.\<close>

definition writes :: "int \<Rightarrow> (int \<times> IOServerReq) \<Rightarrow> bool" where
  "writes x r \<longleftrightarrow> io_type (snd r) \<noteq> IO_FLUSH \<and>
     (fst r = x \<longrightarrow> io_type (snd r) \<in> {IO_PUTC, IO_BLPUTC, IO_PUTSTR}) \<and> (io_type (snd r) = IO_TX \<longrightarrow> 0 < fst r)"

lemma ack_answered:
  "answered x (tx_ack tid s) = (if tid = x \<and> tx_not s \<noteq> x \<and> ib_btid (tx_iobi s) \<noteq> x then 1 else 0)"
  by (simp add: tx_ack_def)

lemma noted_awaits:
  assumes "tx_noted tid req s s'" "writes x (tid, req)" "0 < x" "tx_not s \<noteq> x"
  shows "tx_not s' \<noteq> x" "awaits x s' + answered x (tx_ack tid s') = awaits x s + (if tid = x then 1 else 0)"
proof -
  show "tx_not s' \<noteq> x" using assms by (auto simp: tx_noted_def writes_def)
  show "awaits x s' + answered x (tx_ack tid s') = awaits x s + (if tid = x then 1 else 0)"
  proof (cases "io_type req = IO_BLPUTC")
    case True
    then obtain c where "put_bytes req = [c]" using assms(1) by (auto simp: tx_noted_def length_Suc_conv)
    then show ?thesis unfolding ack_answered using assms True by (auto simp: tx_noted_def put_by_def)
  next
    case False
    then have "awaits x s' = awaits x s" using assms by (auto simp: tx_noted_def put_by_def writes_def filter_empty_conv)
    then show ?thesis unfolding ack_answered using assms False by (auto simp: tx_noted_def put_by_def writes_def)
  qed
qed

lemma turn_answers:
  assumes "IOServerTX cts tid req s = Some (os, s')" "tx_inv cts s" "writes x (tid, req)" "0 < x" "tx_not s \<noteq> x"
  shows "tx_not s' \<noteq> x \<and> answered x os + awaits x s' = awaits x s + (if tid = x then 1 else 0)"
proof (cases rule: tx_turn [OF assms(1,2)])
  case (1 s1 x')
  have "tx_not s' = tx_not s1" by (subst 1(5)) simp
  then show ?thesis using noted_awaits [OF 1(1) assms(3-5)] 1(3,7) assms(4) by auto
next
  case 2
  then show ?thesis using noted_awaits [OF 2(1) assms(3-5)] assms(3) by (auto simp: writes_def)
qed

lemma tx_run_answers:
  "tx_run cts rs s = Some (oss, s') \<Longrightarrow> tx_inv cts s \<Longrightarrow> \<forall>r \<in> set rs. writes x r \<Longrightarrow> 0 < x \<Longrightarrow> tx_not s \<noteq> x \<Longrightarrow>
   answered x (concat oss) + awaits x s' = awaits x s + length (filter (\<lambda>r. fst r = x) rs)"
proof (induction rs arbitrary: s oss)
  case (Cons r rs)
  from tx_run_Cons [OF Cons.prems(1)] obtain os s1 oss' where
    1: "IOServerTX cts (fst r) (snd r) s = Some (os, s1)" "tx_run cts rs s1 = Some (oss', s')" "oss = os # oss'" .
  have i: "tx_inv cts s1" by (rule tx_turn [OF 1(1) Cons.prems(2)])
  have t: "tx_not s1 \<noteq> x \<and> answered x os + awaits x s1 = awaits x s + (if fst r = x then 1 else 0)"
    using turn_answers [OF 1(1) Cons.prems(2)] Cons.prems(3-5) by simp
  then show ?case using Cons.IH [OF 1(2) i] Cons.prems(3,4) 1(3) by auto
qed simp

text \<open>C21: Every task that writes to a serial line is answered exactly once per request, a blocking write not before its byte is
  out: in any run without flushes, the replies to a writer and its bytes that are still queued for a reply are together as many
  as its requests.\<close>

theorem io_tx_replies:
  assumes "tx_run cts rs (tx_init buf c) = Some (oss, s)" "length (cb_buf buf) = IO_SERVER_BUFFER_SIZE"
    "\<forall>r \<in> set rs. writes x r" "0 < x"
  shows "answered x (concat oss) + length (filter (\<lambda>i. ib_btid i = x) (tx_items s)) = length (filter (\<lambda>r. fst r = x) rs)"
  using tx_run_answers [OF assms(1) tx_init_inv [OF assms(2)] assms(3,4)] assms(4) by (simp add: tx_init_def)

text \<open>A run on the line to the trains: the notifier is there, a blocking write goes out at once, the next bytes wait.\<close>

definition io_blank :: "iobuf_item cbuf" where
  "io_blank = \<lparr>cb_buf = replicate IO_SERVER_BUFFER_SIZE \<lparr>ib_c = 0, ib_btid = 0\<rparr>, cb_start = 0, cb_end = 0, cb_size = 0\<rparr>"

definition io_req :: "IOServerReqType \<Rightarrow> u8 list \<Rightarrow> IOServerReq" where
  "io_req ty msg = \<lparr>io_msg = msg, io_len = int (length msg), io_type = ty\<rparr>"

definition io_session :: "(int \<times> IOServerReq) list" where
  "io_session = [(9, io_req IO_TX []), (5, io_req IO_BLPUTC [65]), (6, io_req IO_PUTSTR [66]), (9, io_req IO_TX [])]"

lemma io_blank_size [simp]: "length (cb_buf io_blank) = IO_SERVER_BUFFER_SIZE"
  by (simp add: io_blank_def)

lemma io_session_runs: "\<exists>oss s. tx_run True io_session (tx_init io_blank 0) = Some (oss, s)"
  by (simp add: io_session_def io_req_def tx_init_def IOServerTX_def tx_request_def tx_char_def tx_ack_def tx_putc_def tx_push_def
    tx_can_def cb_init_def cb_push_def cb_pop_def io_blank_def Let_def agetz_def cong: bind_weak_cong)

theorem io_tx_order_witness:
  "\<exists>oss s. tx_run True io_session (tx_init io_blank 0) = Some (oss, s) \<and> line_bytes (concat oss) @ map ib_c (tx_items s) = [65, 66]"
proof -
  obtain oss s where r: "tx_run True io_session (tx_init io_blank 0) = Some (oss, s)" using io_session_runs by blast
  show ?thesis using io_tx_order [OF r] r by (auto simp: io_session_def io_req_def put_bytes_def)
qed

theorem io_tx_line_witness:
  "\<exists>oss s. tx_run True io_session (tx_init io_blank 0) = Some (oss, s) \<and> line_ok True True 2 (line_trace io_session oss)"
proof -
  obtain oss s where r: "tx_run True io_session (tx_init io_blank 0) = Some (oss, s)" using io_session_runs by blast
  show ?thesis using io_tx_line [OF r] r by auto
qed

theorem io_tx_replies_witness:
  "\<exists>oss s. tx_run True io_session (tx_init io_blank 0) = Some (oss, s) \<and>
    answered 5 (concat oss) + length (filter (\<lambda>i. ib_btid i = 5) (tx_items s)) = 1"
proof -
  obtain oss s where r: "tx_run True io_session (tx_init io_blank 0) = Some (oss, s)" using io_session_runs by blast
  show ?thesis using io_tx_replies [OF r, of 5] r by (auto simp: io_session_def io_req_def writes_def)
qed

text \<open>Two ways in which a client stops the server: an empty string while the line is idle, and a byte before the line's
  notifier has reported for the first time.\<close>

lemma tx_char_idle:
  assumes "tx_items s = []"
  shows "tx_char tid s = None"
  using assms by (simp add: tx_char_def cb_pop_empty)

theorem io_empty_put_faults:
  assumes "tx_inv cts s" "tx_items s = []" "tx_can cts s" "io_type req = IO_PUTSTR" "io_len req = 0"
  shows "IOServerTX cts tid req s = None"
  using assms tx_char_idle [of "s\<lparr>tx_iobi := tx_iobi s\<lparr>ib_btid := - 1\<rparr>\<rparr>" tid]
  by (simp add: IOServerTX_def tx_request_def tx_can_def)

theorem io_put_before_notifier_faults:
  assumes "length (cb_buf buf) = IO_SERVER_BUFFER_SIZE" "PutC ios ch = Some req"
  shows "IOServerTX cts tid req (tx_init buf c) = None"
proof (rule ccontr)
  assume "IOServerTX cts tid req (tx_init buf c) \<noteq> None"
  then obtain os s where s: "IOServerTX cts tid req (tx_init buf c) = Some (os, s)" by auto
  have ty: "io_type req = IO_PUTC" "io_msg req = [ch]" using assms(2) by (auto simp: PutC_def)
  show False
  proof (cases rule: tx_turn [OF s tx_init_inv [OF assms(1)]])
    case (1 s1 x)
    then show False using ty by (auto simp: tx_noted_def tx_init_def)
  next
    case 2
    then show False using ty by (auto simp: tx_noted_def tx_init_def tx_inv_def tx_can_def put_bytes_def)
  qed
qed

section \<open>The receiving server\<close>

fun rx_run :: "(u8 \<times> int \<times> IOServerReq) list \<Rightarrow> io_rx \<Rightarrow> (io_out list \<times> io_rx) option" where
  "rx_run [] s = Some ([], s)"
| "rx_run ((d, tid, req) # rs) s = do {
     (os, s) \<leftarrow> IOServerRX d tid req s;
     (os', s) \<leftarrow> rx_run rs s;
     Some (os @ os', s) }"

fun chars :: "io_out \<Rightarrow> u8 list" where
  "chars (IoReplyChar tid c) = [c]"
| "chars _ = []"

abbreviation read_bytes :: "io_out list \<Rightarrow> u8 list" where
  "read_bytes os \<equiv> concat (map chars os)"

definition came :: "u8 \<times> int \<times> IOServerReq \<Rightarrow> u8 list" where
  "came = (\<lambda>(d, tid, req). if io_type req = IO_RX then [d] else [])"

definition rx_inv :: "io_rx \<Rightarrow> bool" where
  "rx_inv s \<longleftrightarrow> io_wf (rx_buf s) \<and> (rx_queued s = - 1 \<or> (0 < rx_queued s \<and> rx_items s = []))"

lemma give_ok:
  assumes "rx_give tid s = Some (os, s')" "io_wf (rx_buf s)"
  shows "read_bytes os @ map ib_c (rx_items s') = map ib_c (rx_items s) \<and> io_wf (rx_buf s') \<and> rx_queued s' = rx_queued s \<and>
    length (rx_items s) = Suc (length (rx_items s'))"
proof -
  obtain x q where q: "cb_pop IO_SERVER_BUFFER_SIZE (rx_buf s) = Some (CB_E_NONE, Some x, q)"
    "os = [IoReplyChar tid (ib_c x)]" "s' = s\<lparr>rx_buf := q, rx_iobi := x\<rparr>"
    using assms(1) by (auto simp: rx_give_def elim!: bind_SomeE)
  from io_pop [OF q(1) assms(2)] show ?thesis using q(2,3) by (simp del: length_cb_list)
qed

lemma rx_turn:
  assumes "IOServerRX d tid req s = Some (os, s')" "rx_inv s" "0 < tid" "io_type req \<noteq> IO_FLUSH"
  shows "read_bytes os @ map ib_c (rx_items s') = map ib_c (rx_items s) @ came (d, tid, req) \<and> rx_inv s'"
proof (cases "io_type req = IO_GETC")
  case True
  have wf: "io_wf (rx_buf s)" using assms(2) by (simp add: rx_inv_def)
  show ?thesis
  proof (cases "rx_items s = []")
    case False
    then have "rx_give tid s = Some (os, s')" using assms(1) True wf by (simp add: IOServerRX_def)
    from give_ok [OF this wf] show ?thesis using assms(2) True False by (auto simp: came_def rx_inv_def)
  next
    case e: True
    then show ?thesis using assms True wf by (auto simp: IOServerRX_def came_def rx_inv_def)
  qed
next
  case False
  then have ty: "io_type req = IO_RX" using assms(1,4) by (auto simp: IOServerRX_def split: IOServerReqType.splits)
  have wf: "io_wf (rx_buf s)" using assms(2) by (simp add: rx_inv_def)
  obtain q o1 s1 where q: "cb_push IO_SERVER_BUFFER_SIZE ((rx_iobi s)\<lparr>ib_c := d\<rparr>) (rx_buf s) = Some (CB_E_NONE, q)"
    and s1: "s1 = s\<lparr>rx_buf := q, rx_iobi := (rx_iobi s)\<lparr>ib_c := d\<rparr>\<rparr>" "os = o1 @ [IoReply tid]"
    and g: "(if 0 < rx_queued s1 \<and> 0 < cb_size (rx_buf s1) then do { (os, s) \<leftarrow> rx_give (rx_queued s1) s1; Some (os, s\<lparr>rx_queued := - 1\<rparr>) }
       else Some ([], s1)) = Some (o1, s')"
    using assms(1) ty by (auto simp: IOServerRX_def Let_def elim!: bind_SomeE)
  have q': "io_wf q" "cb_list IO_SERVER_BUFFER_SIZE q = rx_items s @ [(rx_iobi s)\<lparr>ib_c := d\<rparr>]"
    using io_push [OF q refl wf] by auto
  have i1: "map ib_c (rx_items s1) = map ib_c (rx_items s) @ [d]" "io_wf (rx_buf s1)" "rx_queued s1 = rx_queued s"
    "rx_items s1 \<noteq> []" using q' s1(1) by (auto simp del: length_cb_list)
  show ?thesis
  proof (cases "0 < rx_queued s")
    case False
    then show ?thesis using g i1 assms(2) ty s1(2) by (auto simp: came_def rx_inv_def)
  next
    case True
    then have e: "rx_items s = []" using assms(2) by (auto simp: rx_inv_def)
    obtain s2 where 2: "rx_give (rx_queued s1) s1 = Some (o1, s2)" "s' = s2\<lparr>rx_queued := - 1\<rparr>"
      using g True i1 by (auto elim!: bind_SomeE)
    from give_ok [OF 2(1) i1(2)] show ?thesis using i1(1) ty s1(2) 2(2) by (auto simp: came_def rx_inv_def)
  qed
qed

lemma rx_run_bytes:
  "rx_run rs s = Some (os, s') \<Longrightarrow> rx_inv s \<Longrightarrow> \<forall>(d, tid, req) \<in> set rs. 0 < tid \<and> io_type req \<noteq> IO_FLUSH \<Longrightarrow>
   read_bytes os @ map ib_c (rx_items s') = map ib_c (rx_items s) @ concat (map came rs) \<and> rx_inv s'"
proof (induction rs arbitrary: s os)
  case (Cons r rs)
  obtain d tid req where r: "r = (d, tid, req)" by (cases r)
  then obtain o1 s1 o2 where 1: "IOServerRX d tid req s = Some (o1, s1)" "rx_run rs s1 = Some (o2, s')" "os = o1 @ o2"
    using Cons.prems(1) by (auto elim!: bind_SomeE)
  have t: "read_bytes o1 @ map ib_c (rx_items s1) = map ib_c (rx_items s) @ came r \<and> rx_inv s1"
    using rx_turn [OF 1(1) Cons.prems(2)] Cons.prems(3) r by simp
  then show ?case using Cons.IH [OF 1(2)] Cons.prems(3) 1(3) by simp
qed simp

text \<open>C22: The receiving server of a serial line hands out every byte once, in the order of arrival: in any run without
  flushes the bytes handed out and those kept are the bytes that came, and a task waits for a byte only while none is kept.\<close>

theorem io_rx_order:
  assumes "rx_run rs (rx_init buf item) = Some (os, s)" "length (cb_buf buf) = IO_SERVER_BUFFER_SIZE"
    "\<forall>(d, tid, req) \<in> set rs. 0 < tid \<and> io_type req \<noteq> IO_FLUSH"
  shows "read_bytes os @ map ib_c (rx_items s) = concat (map came rs) \<and> (rx_queued s = - 1 \<or> rx_items s = [])"
proof -
  have "rx_inv (rx_init buf item)" using assms(2) by (simp add: rx_inv_def rx_init_def cb_init_wf)
  from rx_run_bytes [OF assms(1) this assms(3)] show ?thesis by (auto simp: rx_inv_def rx_init_def)
qed

theorem io_rx_order_witness:
  "\<exists>os s. rx_run [(0, 5, io_req IO_GETC []), (77, 9, io_req IO_RX []), (78, 9, io_req IO_RX [])]
     (rx_init io_blank \<lparr>ib_c = 0, ib_btid = 0\<rparr>) = Some (os, s) \<and> read_bytes os @ map ib_c (rx_items s) = [77, 78]"
proof -
  let ?rs = "[(0, 5, io_req IO_GETC []), (77, 9, io_req IO_RX []), (78, 9, io_req IO_RX [])]"
  have "\<exists>os s. rx_run ?rs (rx_init io_blank \<lparr>ib_c = 0, ib_btid = 0\<rparr>) = Some (os, s)"
    by (simp add: io_req_def rx_init_def IOServerRX_def rx_give_def cb_init_def cb_push_def cb_pop_def io_blank_def Let_def
      cong: bind_weak_cong)
  then obtain os s where r: "rx_run ?rs (rx_init io_blank \<lparr>ib_c = 0, ib_btid = 0\<rparr>) = Some (os, s)" by blast
  show ?thesis using io_rx_order [OF r] r by (auto simp: io_req_def came_def)
qed

end
