(* ===== verification/TrackState.thy ===== *)
theory TrackState
  imports WaitingRoomProps Estimator
begin

text \<open>
  What becomes of the waiting room's groups: the interpreter, user/train/interpreter.c, which keeps the state of
  lib/train/track.c and turns every raw event into an update. Only what is compiled of track.c is modelled: the functions on trains
  that its comments hold are not part of the program.
\<close>

section \<open>Updates\<close>

(* src/include/lib/train/updates.h:9-18 *)
datatype TrackEventType = TE_TR_MOVE | TE_TR_DATA | TE_TR_POSITION | TE_SW_CHANGE | TE_SE_CHANGE | TE_TR_SPEED | TE_TR_STATUS
  | MAX_TRACK_EVENT

(* src/include/lib/train/train.h:31-36 *)
datatype TrainStatus = TR_UNINIT | TR_LOST | TR_UN_SPEED | TR_KNOWN

text \<open>The union of the events' data, with the fields of its structs.\<close>

(* src/include/lib/train/updates.h:30-69 *)
datatype TrackEvents = TETRPosition int node_ptr | TETRGear int int | TESWChange int int | TESEChange int int
  | TETRSpeed int int int | TETRStatus int TrainStatus TrainStatus

(* src/include/lib/train/updates.h:71-75 *)
record TrackEvent =
  te_type :: TrackEventType
  te_ts :: int
  te_event :: TrackEvents

abbreviation UPDATE_LIST_SIZE :: nat where "UPDATE_LIST_SIZE \<equiv> 8"
abbreviation VEVENT_LIST_SIZE :: nat where "VEVENT_LIST_SIZE \<equiv> 8"

section \<open>The track's state\<close>

(* src/include/lib/train/train.h:39-48 *)
record Train =
  tn_num :: int
  tn_gear :: int
  tn_dir :: int
  tn_wm :: ev_wm
  tn_pos :: node_ptr
  tn_speed :: int
  tn_sen_ts :: int
  tn_status :: TrainStatus

text \<open>\<^verbatim>\<open>graph\<close> is the track that the functions get as an argument.\<close>

(* src/include/lib/train/track.h:33-43 *)
record Track =
  tk_train :: "Train list"
  tk_tmap :: "int list"
  tk_ntrains :: int
  tk_lost :: "nat cbuf"
  tk_active :: "nat cbuf"
  tk_sensors :: "Sensor list"
  tk_updates :: "TrackEvent cbuf"
  tk_vevents :: "VirtualEvent cbuf"

(* src/src/lib/train/track.c:27-31 *)
fun track_init_trains :: "Train list \<Rightarrow> Train list option" where
  "track_init_trains [] = Some []"
| "track_init_trains (t # ts) = do {
     wm \<leftarrow> ev_wm_init (tn_wm t);
     ts \<leftarrow> track_init_trains ts;
     Some (t\<lparr>tn_status := TR_UNINIT, tn_pos := None, tn_wm := wm\<rparr> # ts) }"

text \<open>The memory before is an argument. The loop over the sensors stops at \<^verbatim>\<open>DECODER_SIZE*2\<close>: ten of the eighty.\<close>

(* src/src/lib/train/track.c:12-36 *)
definition TrackInit :: "Track \<Rightarrow> Track option" where
  "TrackInit tr = do {
     kassert (length (tk_train tr) = NUM_TRAINS \<and> DECODER_SIZE * 2 \<le> length (tk_sensors tr));
     trains \<leftarrow> track_init_trains (tk_train tr);
     Some (tr\<lparr>tk_lost := cb_init (tk_lost tr), tk_active := cb_init (tk_active tr), tk_updates := cb_init (tk_updates tr),
       tk_vevents := cb_init (tk_vevents tr), tk_ntrains := 0,
       tk_sensors := map (se_state_update (\<lambda>_. 0)) (take (DECODER_SIZE * 2) (tk_sensors tr)) @ drop (DECODER_SIZE * 2) (tk_sensors tr),
       tk_train := trains, tk_tmap := replicate TRAIN_MAX (- 1)\<rparr>) }"

section \<open>Raw events\<close>

text \<open>\<^verbatim>\<open>r = update_list_push(&track->updates, event); assert(r == 0);\<close>\<close>

(* src/src/lib/train/track.c:183-184 *)
definition push_update :: "TrackEvent \<Rightarrow> Track \<Rightarrow> Track option" where
  "push_update ev tr = do {
     (r, q) \<leftarrow> cb_push UPDATE_LIST_SIZE ev (tk_updates tr);
     kassert (r = CB_E_NONE);
     Some (tr\<lparr>tk_updates := q\<rparr>) }"

(* src/src/lib/train/track.c:171-185 *)
definition UpdateSensor :: "int \<Rightarrow> int \<Rightarrow> int \<Rightarrow> Track \<Rightarrow> Track option" where
  "UpdateSensor sen_num state ts tr = do {
     kassert (0 \<le> sen_num \<and> sen_num < int DECODER_SIZE * 2 * 8);
     kassert (state = 0 \<or> state = 1);
     se \<leftarrow> agetz (tk_sensors tr) sen_num;
     ses \<leftarrow> asetz (tk_sensors tr) sen_num (se\<lparr>se_state := state\<rparr>);
     push_update \<lparr>te_type = TE_SE_CHANGE, te_ts = ts, te_event = TESEChange sen_num state\<rparr> (tr\<lparr>tk_sensors := ses\<rparr>) }"

(* src/src/lib/train/track.c:187-200 *)
definition UpdateSwitch :: "int \<Rightarrow> int \<Rightarrow> int \<Rightarrow> Track \<Rightarrow> Track option" where
  "UpdateSwitch sw_num state ts tr = do {
     kassert ((1 \<le> sw_num \<and> sw_num \<le> 18) \<or> (153 \<le> sw_num \<and> sw_num \<le> 156));
     push_update \<lparr>te_type = TE_SW_CHANGE, te_ts = ts, te_event = TESWChange sw_num state\<rparr> tr }"

(* src/src/lib/train/track.c:202-215 *)
definition UpdateTrainCmd :: "track \<Rightarrow> int \<Rightarrow> int \<Rightarrow> int \<Rightarrow> Track \<Rightarrow> Track option" where
  "UpdateTrainCmd t num cmd ts tr = do {
     tr \<leftarrow> (if cmd = 15 then do {
              k \<leftarrow> agetz (tk_tmap tr) num;
              train \<leftarrow> agetz (tk_train tr) k;
              i \<leftarrow> tn_pos train;
              n \<leftarrow> aget t i;
              trains \<leftarrow> asetz (tk_train tr) k (train\<lparr>tn_pos := n_reverse n\<rparr>);
              Some (tr\<lparr>tk_train := trains\<rparr>) }
            else Some tr);
     push_update \<lparr>te_type = TE_TR_MOVE, te_ts = ts, te_event = TETRGear num cmd\<rparr> tr }"

(* src/src/lib/train/track.c:492-526 *)
definition TrackHandleRawEvent :: "track \<Rightarrow> RawEvent \<Rightarrow> Track \<Rightarrow> Track option" where
  "TrackHandleRawEvent t re tr =
     (let ts = re_timestamp re in case (re_type re, re_event re) of
        (RE_SE, SeEvent se) \<Rightarrow> UpdateSensor (se_id se) (se_state se) ts tr
      | (RE_SW, SwEvent sw) \<Rightarrow> UpdateSwitch (uint (sw_sw sw)) (sw_dir sw) ts tr
      | (RE_TR_CMD, TrCmdEvent tp) \<Rightarrow> UpdateTrainCmd t (uint (tp_arg1 tp)) (uint (tp_arg2 tp)) ts tr
      | _ \<Rightarrow> None)"

(* src/src/lib/train/track.c:640-661 *)
definition TrackInterpretEventGroup :: "track \<Rightarrow> EventGroup \<Rightarrow> Track \<Rightarrow> Track option" where
  "TrackInterpretEventGroup t grp tr =
     (case eg_type grp of RE \<Rightarrow> do { re \<leftarrow> eg_re grp; TrackHandleRawEvent t re tr } | _ \<Rightarrow> None)"

section \<open>The interpreter\<close>

datatype int_out = IntRegister VirtualEvent | IntUpdate "TrackEvent cbuf" | IntReply int

(* src/src/user/train/interpreter.c:5-20 *)
partial_function (option) DispatchVirtualEvents :: "VirtualEvent cbuf \<Rightarrow> (int_out list \<times> VirtualEvent cbuf) option" where
  "DispatchVirtualEvents events =
     (if 0 < cb_size events then do {
        (r, ve, events) \<leftarrow> cb_pop VEVENT_LIST_SIZE events;
        kassert (r = CB_E_NONE);
        ve \<leftarrow> ve;
        (os, events) \<leftarrow> DispatchVirtualEvents events;
        Some (IntRegister ve # os, events) }
      else Some ([], events))"

(* src/src/user/train/interpreter.c:22-30 *)
definition DispatchTrackUpdates :: "TrackEvent cbuf \<Rightarrow> int_out list \<times> TrackEvent cbuf" where
  "DispatchTrackUpdates update = ([IntUpdate update], cb_init update)"

(* src/src/user/train/interpreter.c:68-74 *)
definition Interpreter :: "track \<Rightarrow> int \<Rightarrow> EventGroup \<Rightarrow> Track \<Rightarrow> (int_out list \<times> Track) option" where
  "Interpreter t req_tid grp tr = do {
     tr \<leftarrow> TrackInterpretEventGroup t grp tr;
     (os, ves) \<leftarrow> DispatchVirtualEvents (tk_vevents tr);
     let (os', us) = DispatchTrackUpdates (tk_updates tr);
     Some (os @ os' @ [IntReply req_tid], tr\<lparr>tk_vevents := ves, tk_updates := us\<rparr>) }"

section \<open>What an event becomes\<close>

text \<open>The events that the interpreter takes, and their updates.\<close>

fun update_of :: "RawEvent \<Rightarrow> TrackEvent option" where
  "update_of re = (case (re_type re, re_event re) of
     (RE_SE, SeEvent se) \<Rightarrow>
       if 0 \<le> se_id se \<and> se_id se < 80 \<and> (se_state se = 0 \<or> se_state se = 1) then
         Some \<lparr>te_type = TE_SE_CHANGE, te_ts = re_timestamp re, te_event = TESEChange (se_id se) (se_state se)\<rparr>
       else None
   | (RE_SW, SwEvent sw) \<Rightarrow>
       if uint (sw_sw sw) \<in> {1..18} \<union> {153..156} then
         Some \<lparr>te_type = TE_SW_CHANGE, te_ts = re_timestamp re, te_event = TESWChange (uint (sw_sw sw)) (sw_dir sw)\<rparr>
       else None
   | (RE_TR_CMD, TrCmdEvent tp) \<Rightarrow>
       if uint (tp_arg2 tp) \<noteq> 15 then
         Some \<lparr>te_type = TE_TR_MOVE, te_ts = re_timestamp re, te_event = TETRGear (uint (tp_arg1 tp)) (uint (tp_arg2 tp))\<rparr>
       else None
   | _ \<Rightarrow> None)"

declare update_of.simps [simp del]

text \<open>Between two groups both lists are empty, and no train has been entered.\<close>

definition track_idle :: "Track \<Rightarrow> bool" where
  "track_idle tr \<longleftrightarrow> cb_wf UPDATE_LIST_SIZE (tk_updates tr) \<and> cb_list UPDATE_LIST_SIZE (tk_updates tr) = [] \<and>
     cb_size (tk_vevents tr) = 0 \<and> set (tk_tmap tr) \<subseteq> {- 1} \<and> length (tk_sensors tr) = 80"

lemma push_update_idle:
  assumes "cb_wf UPDATE_LIST_SIZE (tk_updates tr)" "cb_list UPDATE_LIST_SIZE (tk_updates tr) = []"
  shows "\<exists>q. push_update ev tr = Some (tr\<lparr>tk_updates := q\<rparr>) \<and> cb_wf UPDATE_LIST_SIZE q \<and> cb_list UPDATE_LIST_SIZE q = [ev]"
proof -
  have "length (cb_list UPDATE_LIST_SIZE (tk_updates tr)) < UPDATE_LIST_SIZE" unfolding assms(2) by simp
  from cbq.push_room [OF assms(1) this, of ev] show ?thesis using assms(2) by (auto simp: push_update_def)
qed

text \<open>A group is answered by one update, or not at all.\<close>

definition group_update :: "EventGroup \<Rightarrow> TrackEvent option" where
  "group_update g = (if eg_type g = RE then Option.bind (eg_re g) update_of else None)"

lemma reverse_faults:
  assumes "set (tk_tmap tr) \<subseteq> {- 1}"
  shows "UpdateTrainCmd t num 15 ts tr = None"
proof -
  have "agetz (tk_tmap tr) num = Some k \<Longrightarrow> k = - 1" for k using assms by (force simp: agetz_eq_Some)
  then show ?thesis by (cases "agetz (tk_tmap tr) num") (auto simp: UpdateTrainCmd_def agetz_def)
qed

lemma raw_event_update:
  assumes "track_idle tr"
  shows "case update_of re of None \<Rightarrow> TrackHandleRawEvent t re tr = None
    | Some ev \<Rightarrow> \<exists>ses q. TrackHandleRawEvent t re tr = Some (tr\<lparr>tk_sensors := ses, tk_updates := q\<rparr>) \<and> length ses = 80 \<and>
        cb_wf UPDATE_LIST_SIZE q \<and> cb_list UPDATE_LIST_SIZE q = [ev]"
proof -
  have tr: "cb_wf UPDATE_LIST_SIZE (tk_updates tr)" "cb_list UPDATE_LIST_SIZE (tk_updates tr) = []"
    "set (tk_tmap tr) \<subseteq> {- 1}" "length (tk_sensors tr) = 80" using assms by (auto simp: track_idle_def)
  have put: "\<exists>ses' q. push_update ev (tr\<lparr>tk_sensors := ses\<rparr>) = Some (tr\<lparr>tk_sensors := ses', tk_updates := q\<rparr>) \<and> length ses' = 80 \<and>
      cb_wf UPDATE_LIST_SIZE q \<and> cb_list UPDATE_LIST_SIZE q = [ev]" if "length ses = 80" for ev ses
    using push_update_idle [of "tr\<lparr>tk_sensors := ses\<rparr>" ev] tr(1,2) that by auto
  have same: "tr = tr\<lparr>tk_sensors := tk_sensors tr\<rparr>" by simp
  have put': "\<exists>ses' q. push_update ev tr = Some (tr\<lparr>tk_sensors := ses', tk_updates := q\<rparr>) \<and> length ses' = 80 \<and>
      cb_wf UPDATE_LIST_SIZE q \<and> cb_list UPDATE_LIST_SIZE q = [ev]" for ev
    using put [OF tr(4), of ev] same by simp
  show ?thesis
  proof (cases "re_event re")
    case (TrCmdEvent tp)
    show ?thesis
    proof (cases "re_type re = RE_TR_CMD \<and> uint (tp_arg2 tp) \<noteq> 15")
      case True
      then show ?thesis using put' TrCmdEvent by (auto simp: update_of.simps TrackHandleRawEvent_def UpdateTrainCmd_def)
    next
      case False
      then show ?thesis using reverse_faults [OF tr(3)] TrCmdEvent
        by (cases "re_type re") (auto simp: update_of.simps TrackHandleRawEvent_def)
    qed
  next
    case (SeEvent se)
    show ?thesis
    proof (cases "re_type re = RE_SE \<and> 0 \<le> se_id se \<and> se_id se < 80 \<and> (se_state se = 0 \<or> se_state se = 1)")
      case True
      then have i: "nat (se_id se) < length (tk_sensors tr)" unfolding tr(4) by linarith
      show ?thesis using put [of "(tk_sensors tr)[nat (se_id se) := (tk_sensors tr ! nat (se_id se))\<lparr>se_state := se_state se\<rparr>]"]
          True i tr(4) SeEvent by (auto simp: update_of.simps TrackHandleRawEvent_def UpdateSensor_def agetz_in asetz_in)
    next
      case False
      then show ?thesis using SeEvent
        by (cases "re_type re") (auto simp: update_of.simps TrackHandleRawEvent_def UpdateSensor_def)
    qed
  next
    case (SwEvent sw)
    show ?thesis
    proof (cases "re_type re = RE_SW \<and> uint (sw_sw sw) \<in> {1..18} \<union> {153..156}")
      case True
      then show ?thesis using put' SwEvent by (auto simp: update_of.simps TrackHandleRawEvent_def UpdateSwitch_def)
    next
      case False
      then show ?thesis using SwEvent
        by (cases "re_type re") (auto simp: update_of.simps TrackHandleRawEvent_def UpdateSwitch_def)
    qed
  qed
qed

lemma dispatch_none: "cb_size ves = 0 \<Longrightarrow> DispatchVirtualEvents ves = Some ([], ves)"
  by (simp add: DispatchVirtualEvents.simps)

lemma interpreter_turn:
  assumes "track_idle tr"
  shows "case group_update g of None \<Rightarrow> Interpreter t req_tid g tr = None
    | Some ev \<Rightarrow> \<exists>q tr'. Interpreter t req_tid g tr = Some ([IntUpdate q, IntReply req_tid], tr') \<and>
        cb_wf UPDATE_LIST_SIZE q \<and> cb_list UPDATE_LIST_SIZE q = [ev] \<and> track_idle tr'"
proof (cases "eg_type g = RE \<and> eg_re g \<noteq> None")
  case False
  then have "TrackInterpretEventGroup t g tr = None" by (cases "eg_type g") (auto simp: TrackInterpretEventGroup_def)
  then show ?thesis using False by (auto simp: group_update_def Interpreter_def)
next
  case True
  then obtain re where re: "eg_type g = RE" "eg_re g = Some re" by auto
  have h: "TrackInterpretEventGroup t g tr = TrackHandleRawEvent t re tr" "group_update g = update_of re"
    using re by (simp_all add: TrackInterpretEventGroup_def group_update_def)
  have e: "cb_size (tk_vevents tr) = 0" using assms by (simp add: track_idle_def)
  show ?thesis
  proof (cases "update_of re")
    case None
    then show ?thesis using raw_event_update [OF assms, of t re] h by (simp add: Interpreter_def)
  next
    case (Some ev)
    then obtain ses q where q: "TrackHandleRawEvent t re tr = Some (tr\<lparr>tk_sensors := ses, tk_updates := q\<rparr>)" "length ses = 80"
      "cb_wf UPDATE_LIST_SIZE q" "cb_list UPDATE_LIST_SIZE q = [ev]" using raw_event_update [OF assms, of t re] by auto
    have "cb_wf UPDATE_LIST_SIZE (cb_init q)" using cb_wfD(3) [OF q(3)] by (intro cb_init_wf) simp_all
    then have "track_idle (tr\<lparr>tk_sensors := ses, tk_vevents := tk_vevents tr, tk_updates := cb_init q\<rparr>)"
      using assms q(2) by (simp add: track_idle_def)
    then show ?thesis using h Some q e by (auto simp: Interpreter_def dispatch_none DispatchTrackUpdates_def)
  qed
qed

section \<open>Runs of the interpreter\<close>

fun interpret_all :: "track \<Rightarrow> (int \<times> EventGroup) list \<Rightarrow> Track \<Rightarrow> (int_out list \<times> Track) option" where
  "interpret_all t [] tr = Some ([], tr)"
| "interpret_all t ((tid, g) # gs) tr = do {
     (os, tr) \<leftarrow> Interpreter t tid g tr;
     (os', tr) \<leftarrow> interpret_all t gs tr;
     Some (os @ os', tr) }"

fun sent_updates :: "int_out \<Rightarrow> TrackEvent list list" where
  "sent_updates (IntUpdate q) = [cb_list UPDATE_LIST_SIZE q]"
| "sent_updates _ = []"

lemma interpret_all_idle:
  "track_idle tr \<Longrightarrow> case those (map (group_update \<circ> snd) gs) of None \<Rightarrow> interpret_all t gs tr = None
    | Some evs \<Rightarrow> \<exists>os tr'. interpret_all t gs tr = Some (os, tr') \<and> concat (map sent_updates os) = map (\<lambda>ev. [ev]) evs \<and> track_idle tr'"
proof (induction gs arbitrary: tr)
  case (Cons g gs)
  note I = interpreter_turn [OF Cons.prems, of t "fst g" "snd g"]
  show ?case
  proof (cases "group_update (snd g)")
    case None
    then show ?thesis using I by (cases g) simp
  next
    case (Some ev)
    then obtain q tr1 where q: "Interpreter t (fst g) (snd g) tr = Some ([IntUpdate q, IntReply (fst g)], tr1)"
      "cb_list UPDATE_LIST_SIZE q = [ev]" "track_idle tr1" using I by auto
    from Cons.IH [OF q(3)] show ?thesis using q Some by (cases g) (auto split: option.splits)
  qed
qed simp

lemma init_trains_length: "track_init_trains ts = Some ts' \<Longrightarrow> length ts' = length ts"
  by (induction ts arbitrary: ts') (auto elim!: bind_SomeE)

lemma track_init_idle:
  assumes "TrackInit tr0 = Some tr" "length (tk_sensors tr0) = 80" "length (cb_buf (tk_updates tr0)) = UPDATE_LIST_SIZE"
  shows "track_idle tr"
proof -
  have "cb_size (cb_init (tk_vevents tr0)) = 0" by (simp add: cb_init_def)
  then show ?thesis using assms cb_init_wf [of UPDATE_LIST_SIZE "tk_updates tr0"]
    by (auto simp: TrackInit_def track_idle_def elim!: bind_SomeE)
qed

text \<open>C32: From its start the interpreter sends exactly one update for each group, which says what the group's raw event says,
  in the order of the groups; and it goes on if and only if every group is a raw event of its own that is a change of a sensor
  or a switch that exists or a command other than a reversal.\<close>

theorem interpreter_exact:
  assumes "TrackInit tr0 = Some tr" "length (tk_sensors tr0) = 80" "length (cb_buf (tk_updates tr0)) = UPDATE_LIST_SIZE"
  shows "(interpret_all t gs tr \<noteq> None \<longleftrightarrow> (\<forall>g \<in> set gs. group_update (snd g) \<noteq> None)) \<and>
    (\<forall>os tr'. interpret_all t gs tr = Some (os, tr') \<longrightarrow>
      map Some (concat (concat (map sent_updates os))) = map (\<lambda>g. group_update (snd g)) gs \<and>
      length (concat (map sent_updates os)) = length gs)"
proof -
  have those: "those xs = None \<longleftrightarrow> None \<in> set xs" "those xs = Some ys \<Longrightarrow> xs = map Some ys" for xs :: "'b option list" and ys
    by (induction xs arbitrary: ys) (auto split: option.splits)
  note I = interpret_all_idle [OF track_init_idle [OF assms], of t gs]
  show ?thesis
  proof (cases "those (map (group_update \<circ> snd) gs)")
    case None
    then have "None \<in> set (map (group_update \<circ> snd) gs)" using those(1) by blast
    then show ?thesis using I None by force
  next
    case (Some evs)
    then have m: "map (group_update \<circ> snd) gs = map Some evs" using those(2) by blast
    then have "\<forall>g \<in> set gs. group_update (snd g) \<noteq> None" by (metis comp_apply imageE image_eqI list.set_map option.distinct(1))
    moreover have "length gs = length evs" using m by (metis length_map)
    moreover have "concat (map (\<lambda>ev. [ev]) evs) = evs" by simp
    ultimately show ?thesis using I Some m by (auto simp: o_def)
  qed
qed

text \<open>Memory before the start, and a session of two events.\<close>

lemma init_trains_ok:
  "\<forall>t \<in> set ts. length (cb_buf (wm_avail (tn_wm t))) = TRACK_MAX \<and> length (cb_buf (wm_queue (tn_wm t))) = TRACK_MAX \<Longrightarrow>
   \<exists>ts'. track_init_trains ts = Some ts'"
proof (induction ts)
  case (Cons t ts)
  from ev_wm_init_ok [of "tn_wm t"] Cons show ?case by auto
qed simp

definition blank_Train :: Train where
  "blank_Train = \<lparr>tn_num = 0, tn_gear = 0, tn_dir = 0, tn_wm = \<lparr>wm_window = [], wm_avail = blank_cb TRACK_MAX 0,
     wm_queue = blank_cb TRACK_MAX 0, wm_map = [], wm_key = 0\<rparr>, tn_pos = None, tn_speed = 0, tn_sen_ts = 0, tn_status = TR_LOST\<rparr>"

definition blank_Track :: Track where
  "blank_Track = \<lparr>tk_train = replicate NUM_TRAINS blank_Train, tk_tmap = [], tk_ntrains = 0, tk_lost = blank_cb NUM_TRAINS 0,
     tk_active = blank_cb NUM_TRAINS 0, tk_sensors = replicate 80 \<lparr>se_state = 1, se_id = 0\<rparr>,
     tk_updates = blank_cb UPDATE_LIST_SIZE \<lparr>te_type = TE_TR_DATA, te_ts = 0, te_event = TESEChange 0 0\<rparr>,
     tk_vevents = blank_cb VEVENT_LIST_SIZE blank_ve\<rparr>"

theorem interpreter_exact_witness:
  "\<exists>tr. TrackInit blank_Track = Some tr \<and>
    interpret_all tracka_nodes [(4, \<lparr>eg_type = RE, eg_re = Some (sensor_event 9 3 1), eg_ve = None\<rparr>)] tr \<noteq> None"
proof -
  obtain ts where "track_init_trains (replicate NUM_TRAINS blank_Train) = Some ts"
    using init_trains_ok [of "replicate NUM_TRAINS blank_Train"] by (auto simp: blank_Train_def blank_cb_def)
  then obtain tr where tr: "TrackInit blank_Track = Some tr" by (simp add: TrackInit_def blank_Track_def)
  show ?thesis
    using interpreter_exact [OF tr, of tracka_nodes "[(4, \<lparr>eg_type = RE, eg_re = Some (sensor_event 9 3 1), eg_ve = None\<rparr>)]"] tr
    by (simp add: blank_Track_def blank_cb_def group_update_def update_of.simps sensor_event_def)
qed

end
