(* ===== verification/Representer.thy ===== *)
theory Representer
  imports TrackState EstimatorUpdate
begin

text \<open>
  The representer, user/train/representer.c: the server that owns the estimator. The interpreter sends it updates, a task
  of its own pokes it with the time, and tasks subscribe to the events of a kind, to a train, or to the switches:
  a subscriber waits for its reply until there is something to tell it. What the server prints is left out; a subscriber's reply is
  the event, the train or the array of the switches.
\<close>

abbreviation MAX_EVENT_SUBSCRIBERS :: nat where "MAX_EVENT_SUBSCRIBERS \<equiv> 16"
abbreviation TRACK_EVENTS :: nat where "TRACK_EVENTS \<equiv> 7"

text \<open>The events as indices of the array of subscribers.\<close>

fun te_index :: "TrackEventType \<Rightarrow> nat" where
  "te_index TE_TR_MOVE = 0" | "te_index TE_TR_DATA = 1" | "te_index TE_TR_POSITION = 2" | "te_index TE_SW_CHANGE = 3"
| "te_index TE_SE_CHANGE = 4" | "te_index TE_TR_SPEED = 5" | "te_index TE_TR_STATUS = 6" | "te_index MAX_TRACK_EVENT = 7"

(* src/include/user/train/representer.h:17-37 *)
datatype TrackRequest = TRR_SUBSCRIBE TrackEventType | TRR_FETCH | TRR_UPDATE "TrackEvent cbuf" | TRR_POKE int
  | TRR_SUBSCRIBE_TR int | TRR_SUBSCRIBE_SW

datatype rep_out = RepEvent int TrackEvents | RepTrain int train | RepSwitches int "swi list" | RepAck int

section \<open>Subscribers\<close>

text \<open>The loop over the subscribers of a train or of the switches ends when the queue is empty; the loop over those of a kind of
  event looks at the size.\<close>

(* src/src/user/train/representer.c:20-22 *)
partial_function (option) notify_popped :: "(int \<Rightarrow> rep_out) \<Rightarrow> int cbuf \<Rightarrow> (rep_out list \<times> int cbuf) option" where
  "notify_popped f subs = do {
     (r, tid, subs) \<leftarrow> cb_pop MAX_EVENT_SUBSCRIBERS subs;
     if r \<noteq> CB_E_EMPTY then do {
       tid \<leftarrow> tid;
       (os, subs) \<leftarrow> notify_popped f subs;
       Some (f tid # os, subs) }
     else Some ([], subs) }"

(* src/src/user/train/representer.c:60-64 *)
partial_function (option) notify_sized :: "(int \<Rightarrow> rep_out) \<Rightarrow> int cbuf \<Rightarrow> (rep_out list \<times> int cbuf) option" where
  "notify_sized f subs =
     (if 0 < cb_size subs then do {
        (r, tid, subs) \<leftarrow> cb_pop MAX_EVENT_SUBSCRIBERS subs;
        kassert (r = CB_E_NONE);
        tid \<leftarrow> tid;
        (os, subs) \<leftarrow> notify_sized f subs;
        Some (f tid # os, subs) }
      else Some ([], subs))"

(* src/src/user/train/representer.c:10-23 *)
definition NotifyTrainSubscribers :: "train \<Rightarrow> int cbuf list \<Rightarrow> (rep_out list \<times> int cbuf list) option" where
  "NotifyTrainSubscribers tr subs = do {
     q \<leftarrow> agetz subs (tr_num tr);
     (os, q) \<leftarrow> notify_popped (\<lambda>tid. RepTrain tid tr) q;
     subs \<leftarrow> asetz subs (tr_num tr) q;
     Some (os, subs) }"

(* src/src/user/train/representer.c:25-34 *)
definition NotifySWSubscribers :: "swi list \<Rightarrow> int cbuf \<Rightarrow> (rep_out list \<times> int cbuf) option" where
  "NotifySWSubscribers sws subs = notify_popped (\<lambda>tid. RepSwitches tid sws) subs"

text \<open>Every queue has the same push, whose result is asserted.\<close>

(* src/src/user/train/representer.c:47-51 *)
definition AddSWSubscriber :: "int \<Rightarrow> int cbuf \<Rightarrow> int cbuf option" where
  "AddSWSubscriber tid subs = do {
     (r, q) \<leftarrow> cb_push MAX_EVENT_SUBSCRIBERS tid subs;
     kassert (r = CB_E_NONE);
     Some q }"

(* src/src/user/train/representer.c:37-45 *)
definition AddTrainSubscriber :: "int \<Rightarrow> int \<Rightarrow> int cbuf list \<Rightarrow> int cbuf list option" where
  "AddTrainSubscriber tid num subs = do {
     kassert (0 \<le> num \<and> num < int TRAIN_MAX);
     q \<leftarrow> agetz subs num;
     (r, q) \<leftarrow> cb_push MAX_EVENT_SUBSCRIBERS tid q;
     kassert (r = CB_E_NONE);
     asetz subs num q }"

(* src/src/user/train/representer.c:53-65 *)
definition NotifySubscribers :: "TrackEventType \<Rightarrow> TrackEvents \<Rightarrow> int cbuf list \<Rightarrow> (rep_out list \<times> int cbuf list) option" where
  "NotifySubscribers ty ev subs = do {
     kassert (te_index ty < TRACK_EVENTS);
     q \<leftarrow> aget subs (te_index ty);
     (os, q) \<leftarrow> notify_sized (\<lambda>tid. RepEvent tid ev) q;
     subs \<leftarrow> aset subs (te_index ty) q;
     Some (os, subs) }"

(* src/src/user/train/representer.c:67-75 *)
definition AddSubscriber :: "int \<Rightarrow> TrackEventType \<Rightarrow> int cbuf list \<Rightarrow> int cbuf list option" where
  "AddSubscriber tid ty subs = do {
     kassert (te_index ty < TRACK_EVENTS);
     q \<leftarrow> aget subs (te_index ty);
     (r, q) \<leftarrow> cb_push MAX_EVENT_SUBSCRIBERS tid q;
     kassert (r = CB_E_NONE);
     aset subs (te_index ty) q }"

section \<open>Updates\<close>

text \<open>What an update makes of the estimator. \<^verbatim>\<open>pe.dir\<close> is not set, and \<^verbatim>\<open>est_update_tr_at\<close> does not read it.\<close>

(* src/src/user/train/representer.c:88-128 *)
definition apply_event :: "track \<Rightarrow> TrackEvent \<Rightarrow> estimator \<Rightarrow> estimator option" where
  "apply_event t ev est =
     (case (te_type ev, te_event ev) of
        (TE_TR_SPEED, _) \<Rightarrow> Some est
      | (TE_TR_STATUS, _) \<Rightarrow> Some est
      | (TE_SE_CHANGE, TESEChange num state) \<Rightarrow>
          if state \<noteq> 0 then do {
            kassert (0 \<le> num \<and> num \<le> int DECODER_SIZE * 16);
            (r, est) \<leftarrow> est_update_tr_at t est \<lparr>pe_pos = Some (nat num), pe_dir = 0, pe_off = 0, pe_ts = te_ts ev\<rparr>;
            Some est }
          else Some est
      | (TE_TR_MOVE, TETRGear num gear) \<Rightarrow> do {
          (r, est) \<leftarrow> est_update_tr_gear t est num gear (te_ts ev);
          Some est }
      | (TE_SW_CHANGE, TESWChange num dir) \<Rightarrow> do {
          kassert (dir = 33 \<or> dir = 34);
          (r, est) \<leftarrow> est_update_sw t est num (dir - 33) (te_ts ev);
          Some est }
      | _ \<Rightarrow> None)"

(* src/src/user/train/representer.c:85-131 *)
fun apply_updates :: "track \<Rightarrow> TrackEvent cbuf \<Rightarrow> nat \<Rightarrow> nat \<Rightarrow> int cbuf list \<Rightarrow> estimator \<Rightarrow>
    (rep_out list \<times> int cbuf list \<times> estimator) option" where
  "apply_updates t us i 0 subs est = Some ([], subs, est)"
| "apply_updates t us i (Suc n) subs est = do {
     (_, ev) \<leftarrow> cb_get UPDATE_LIST_SIZE (int i) us;
     ev \<leftarrow> ev;
     est \<leftarrow> apply_event t ev est;
     (os, subs) \<leftarrow> NotifySubscribers (te_type ev) (te_event ev) subs;
     (os', subs, est) \<leftarrow> apply_updates t us (i + 1) n subs est;
     Some (os @ os', subs, est) }"

(* src/src/user/train/representer.c:78-132 *)
definition ApplyUpdates :: "track \<Rightarrow> TrackEvent cbuf \<Rightarrow> int cbuf list \<Rightarrow> estimator \<Rightarrow>
    (rep_out list \<times> int cbuf list \<times> estimator) option" where
  "ApplyUpdates t us subs est = do {
     kassert (cb_size us < of_nat UPDATE_LIST_SIZE);
     apply_updates t us 0 (unat (cb_size us)) subs est }"

section \<open>The server\<close>

record representer =
  rep_est :: estimator
  rep_subs :: "int cbuf list"
  rep_tsubs :: "int cbuf list"
  rep_swsubs :: "int cbuf"

text \<open>The memory before is an argument.\<close>

(* src/src/user/train/representer.c:187-235 *)
definition representer_init :: "track \<Rightarrow> int \<Rightarrow> int \<Rightarrow> representer \<Rightarrow> representer option" where
  "representer_init t track ts s = do {
     est \<leftarrow> est_init (rep_est s);
     est \<leftarrow> est_init_trains t est ts track;
     Some \<lparr>rep_est = est, rep_subs = map cb_init (rep_subs s), rep_tsubs = map cb_init (rep_tsubs s),
       rep_swsubs = cb_init (rep_swsubs s)\<rparr> }"

(* src/src/user/train/representer.c:157-163 *)
fun est_notif_trains :: "train list \<Rightarrow> int cbuf list \<Rightarrow> (rep_out list \<times> int cbuf list) option" where
  "est_notif_trains [] subs = Some ([], subs)"
| "est_notif_trains (tr # trs) subs = do {
     (os, subs) \<leftarrow> NotifyTrainSubscribers tr subs;
     (os', subs) \<leftarrow> est_notif_trains trs subs;
     Some (os @ os', subs) }"

(* src/src/user/train/representer.c:237-266 *)
definition Representer :: "track \<Rightarrow> int \<Rightarrow> TrackRequest \<Rightarrow> representer \<Rightarrow> (rep_out list \<times> representer) option" where
  "Representer t req_tid req s =
     (case req of
        TRR_POKE time \<Rightarrow> do {
          kassert (0 < time);
          (r, est) \<leftarrow> est_update t (rep_est s) time;
          (os, tsubs) \<leftarrow> est_notif_trains (take (nat (es_ntrains est)) (es_train est)) (rep_tsubs s);
          (os', sw) \<leftarrow> NotifySWSubscribers (es_sw est) (rep_swsubs s);
          Some (os @ os' @ [RepAck req_tid], s\<lparr>rep_est := est, rep_tsubs := tsubs, rep_swsubs := sw\<rparr>) }
      | TRR_UPDATE us \<Rightarrow> do {
          (os, subs, est) \<leftarrow> ApplyUpdates t us (rep_subs s) (rep_est s);
          Some (os @ [RepAck req_tid], s\<lparr>rep_est := est, rep_subs := subs\<rparr>) }
      | TRR_SUBSCRIBE ty \<Rightarrow> do { subs \<leftarrow> AddSubscriber req_tid ty (rep_subs s); Some ([], s\<lparr>rep_subs := subs\<rparr>) }
      | TRR_SUBSCRIBE_TR num \<Rightarrow> do { subs \<leftarrow> AddTrainSubscriber req_tid num (rep_tsubs s); Some ([], s\<lparr>rep_tsubs := subs\<rparr>) }
      | TRR_SUBSCRIBE_SW \<Rightarrow> do { q \<leftarrow> AddSWSubscriber req_tid (rep_swsubs s); Some ([], s\<lparr>rep_swsubs := q\<rparr>) }
      | TRR_FETCH \<Rightarrow> None)"

end
