(* ===== verification/Driver.thy ===== *)
theory Driver
  imports PathFinding Reservation Representer
begin

text \<open>
  The driver, user/train/driver.c: a task per train that takes it to a node. Whenever the representer says that the
  train has come to another node, the driver plans a route if it has none, follows it, reserves the track ahead, stops in
  time, and sets the switches of the next metre. Its search is that of \<open>PathFinding\<close> with one choice of edges of its own: at a switch
  that does not do what it is told, only the edge that it lies at. The switches are the estimator's, which the driver
  reads through a pointer: what it reads is an argument. What the driver asks of other tasks is a list of requests in their order; the
  reservation manager, whose answer matters, is a function that is threaded through.
\<close>

section \<open>Data\<close>

(* src/src/user/train/driver.c:14-23 *)
record TDTrain =
  td_num :: int
  td_pos :: node_ptr
  td_stopping :: bool
  td_update_ui :: bool
  td_p :: path
  td_driver :: int
  td_speed :: int

text \<open>\<^verbatim>\<open>sw\<close> is set when the driver has subscribed; the buffers of the path before are an argument.\<close>

(* src/src/user/train/driver.c:25-33 *)
definition TDTrainInit :: "track \<Rightarrow> path \<Rightarrow> int \<Rightarrow> int \<Rightarrow> TDTrain" where
  "TDTrainInit t p num speed = \<lparr>td_num = num, td_pos = None, td_stopping = False, td_update_ui = True, td_p = path_init p t,
     td_driver = - 1, td_speed = speed\<rparr>"

datatype drv_out = DrvTrain TrainProtocol | DrvSwitch SWProtocol | DrvReserve int node_ptr int | DrvFree int node_ptr
  | DrvDelay int | DrvReply int

section \<open>The route\<close>

(* src/src/user/train/driver.c:75-90 *)
definition driver_edges :: "swi list \<Rightarrow> track_node \<Rightarrow> nat list option" where
  "driver_edges sw n =
     (if n_type n = NODE_BRANCH then do {
        s \<leftarrow> agetz sw (n_num n);
        Some (if swi_conf s < 50 then [if swi_state s = 0 then 1 else 0] else [0..<n_edges (n_type n)]) }
      else Some [0..<n_edges (n_type n)])"

(* src/src/user/train/driver.c:35-105 *)
definition driver_path_find :: "tp_queue \<Rightarrow> swi list \<Rightarrow> track \<Rightarrow> node_ptr \<Rightarrow> node_ptr \<Rightarrow> int list \<Rightarrow> int list option" where
  "driver_path_find q sw t s d prev = do { st \<leftarrow> path_search (driver_edges sw) t s d prev q; Some (d_prev st) }"

(* src/src/user/train/driver.c:107-141 *)
definition driver_generate_path :: "tp_queue \<Rightarrow> swi list \<Rightarrow> path \<Rightarrow> (int \<times> path) option" where
  "driver_generate_path q sw = path_generate_with (driver_path_find q sw)"

section \<open>Commands\<close>

(* src/src/user/train/driver.c:144-150 *)
definition StoppingDistance :: "TDTrain \<Rightarrow> int \<Rightarrow> int option" where
  "StoppingDistance tr gear = do {
     tm \<leftarrow> getStoppingDistanceModel tm_undef (td_num tr);
     d \<leftarrow> easyInterpolation tm gear;
     Some (c_div d 1000) }"

(* src/src/user/train/driver.c:173-180 *)
definition FlipSwitch :: "track \<Rightarrow> sw_config \<Rightarrow> drv_out option" where
  "FlipSwitch t cfg = do {
     n \<leftarrow> node_at t (sc_sw cfg);
     Some (DrvSwitch \<lparr>sw_swr = SW_FLIP, sw_sw = word_of_int (n_num n),
       sw_dir = (if sc_state_required cfg = int DIR_CURVED then 34 else 33)\<rparr>) }"

(* src/src/user/train/driver.c:182-189 *)
definition TrainCmd :: "int \<Rightarrow> int \<Rightarrow> drv_out" where
  "TrainCmd num cmd = DrvTrain \<lparr>tp_tc = T_MOVE, tp_arg1 = word_of_int num, tp_arg2 = word_of_int cmd\<rparr>"

(* src/src/user/train/driver.c:197-203 *)
function should_stop_loop :: "path \<Rightarrow> nat \<Rightarrow> node_ptr option \<Rightarrow> int \<Rightarrow> int option" where
  "should_stop_loop p i cur dist_to_end =
     (if i < unat (cb_size (p_ahead p)) then do {
        (_, next') \<leftarrow> cb_get TRACK_MAX (int i) (p_ahead p);
        next' \<leftarrow> next';
        cur \<leftarrow> cur;
        d \<leftarrow> track_node_dist (p_track p) cur next';
        should_stop_loop p (Suc i) (Some next') (dist_to_end + d) }
      else Some dist_to_end)"
  by pat_completeness auto
termination
  by (relation "measure (\<lambda>(p, i, cur, d). unat (cb_size (p_ahead p)) - i)") auto

declare should_stop_loop.simps [simp del]

(* src/src/user/train/driver.c:192-211 *)
definition ShouldStop :: "path \<Rightarrow> train \<Rightarrow> int \<Rightarrow> bool option" where
  "ShouldStop p raw stop_dist = do {
     (_, cur) \<leftarrow> cb_get TRACK_MAX 0 (p_ahead p);
     d \<leftarrow> should_stop_loop p 1 cur 0;
     let d = d - pe_off (tr_curr_pos raw);
     Some (if d < 0 then True else d < stop_dist + 10) }"

section \<open>An update\<close>

text \<open>The two flags that say which of the drivers' windows are in use are shared by the drivers.\<close>

datatype drv_req = AskReserve int node_ptr int | AskFree int node_ptr

text \<open>The reservation manager's answer to the two calls \<^verbatim>\<open>Reserve\<close> and \<^verbatim>\<open>Free\<close>; the path in the request is not set.\<close>

(* src/src/user/train/reservation_manager.c:101-122 *)
fun ask_manager :: "tp_queue \<Rightarrow> path \<Rightarrow> drv_req \<Rightarrow> track \<times> pather \<Rightarrow> (int \<times> track \<times> pather) option" where
  "ask_manager q junk (AskReserve num s dist) (t, p) = do {
     (r, t, p, _) \<leftarrow> rm_handle q t p \<lparr>rm_type = RM_RESERVE, rm_tr_num = num, rm_node = s, rm_dist = dist, rm_p = junk\<rparr>;
     Some (r, t, p) }"
| "ask_manager q junk (AskFree num s) (t, p) = do {
     (r, t, p, _) \<leftarrow> rm_handle q t p \<lparr>rm_type = RM_FREE, rm_tr_num = num, rm_node = s, rm_dist = 0, rm_p = junk\<rparr>;
     Some (r, t, p) }"

text \<open>The first update, or the first after the path was lost: a route from where the train is. \<open>None\<close> in the second
  place means that the code returns before it comes to the switches.\<close>

(* src/src/user/train/driver.c:228-242 *)
definition driver_plan :: "tp_queue \<Rightarrow> swi list \<Rightarrow> track \<Rightarrow> TDTrain \<Rightarrow> node_ptr \<Rightarrow> node_ptr \<Rightarrow> (bool \<times> TDTrain) option" where
  "driver_plan q sw t tr at end' = do {
     let tr = tr\<lparr>td_pos := at\<rparr>;
     (r, p) \<leftarrow> driver_generate_path q sw (path_set_destination (path_init (td_p tr) t) at end');
     if r < 0 then Some (False, tr\<lparr>td_p := p, td_pos := None, td_update_ui := False\<rparr>)
     else do {
       p \<leftarrow> path_start p at;
       Some (True, tr\<lparr>td_p := p\<rparr>) } }"

text \<open>The reservation of the track ahead, of the stopping distance and a bit more.\<close>

(* src/src/user/train/driver.c:281-295 *)
definition driver_reserve :: "(drv_req \<Rightarrow> 'r \<Rightarrow> (int \<times> 'r) option) \<Rightarrow> TDTrain \<Rightarrow> int \<Rightarrow> 'r \<Rightarrow> (drv_out list \<times> 'r) option" where
  "driver_reserve ask tr stop_dist rm = do {
     (r, rm) \<leftarrow> ask (AskReserve (td_num tr) (td_pos tr) (stop_dist + 100)) rm;
     let res = DrvReserve (td_num tr) (td_pos tr) (stop_dist + 100);
     if r \<noteq> 0 then Some ([res, TrainCmd (td_num tr) 0, DrvDelay 500, TrainCmd (td_num tr) 8], rm)
     else do {
       (_, rm) \<leftarrow> ask (AskFree (td_num tr) (td_pos tr)) rm;
       Some ([res, DrvFree (td_num tr) (td_pos tr)], rm) } }"

text \<open>Where the train's way goes on: the path is followed, or is lost. The task ends at the destination.\<close>

datatype drv_way = WayEnds | WayLost | WayGoesOn

(* src/src/user/train/driver.c:244-301 *)
definition driver_follow :: "(drv_req \<Rightarrow> 'r \<Rightarrow> (int \<times> 'r) option) \<Rightarrow> TDTrain \<Rightarrow> train \<Rightarrow> node_ptr \<Rightarrow> 'r \<Rightarrow>
    (drv_way \<times> drv_out list \<times> TDTrain \<times> 'r) option" where
  "driver_follow ask tr raw end' rm =
     (let pos = pe_pos (tr_curr_pos raw) in
      if end' = pos then Some (WayEnds, [TrainCmd (td_num tr) 0], tr\<lparr>td_stopping := False\<rparr>, rm)
      else do {
        (r, p) \<leftarrow> path_follow_to (td_p tr) pos;
        let tr = tr\<lparr>td_p := p\<rparr>;
        if r = - 1 then do {
          (_, rm) \<leftarrow> ask (AskFree (td_num tr) (td_pos tr)) rm;
          Some (WayLost, [TrainCmd (td_num tr) (td_speed tr), DrvFree (td_num tr) (td_pos tr)], tr\<lparr>td_pos := None\<rparr>, rm) }
        else do {
          kassert (\<not> path_arrived (td_p tr));
          let tr = tr\<lparr>td_pos := pos\<rparr>;
          stop_dist \<leftarrow> StoppingDistance tr (sn_cur_gear (tr_snapshot raw));
          kassert (0 \<le> stop_dist \<and> stop_dist \<le> 2000);
          (os, rm) \<leftarrow> driver_reserve ask tr stop_dist rm;
          stop \<leftarrow> (if \<not> td_stopping tr then ShouldStop (td_p tr) raw stop_dist else Some False);
          Some (WayGoesOn, os @ (if stop then [TrainCmd (td_num tr) 3] else []),
            (if stop then tr\<lparr>td_stopping := True\<rparr> else tr), rm) } })"

(* src/src/user/train/driver.c:305-308 *)
partial_function (option) driver_flips :: "track \<Rightarrow> sw_config cbuf \<Rightarrow> drv_out list option" where
  "driver_flips t cfgs =
     (if 0 < cb_size cfgs then do {
        (_, cfg, cfgs) \<leftarrow> cb_pop TRACK_MAX cfgs;
        cfg \<leftarrow> cfg;
        out \<leftarrow> FlipSwitch t cfg;
        os \<leftarrow> driver_flips t cfgs;
        Some (out # os) }
      else Some [])"

text \<open>The switches of the next \<^verbatim>\<open>LOOK_AHEAD\<close> millimetres; the list's memory is an argument.\<close>

(* src/src/user/train/driver.c:304-308 *)
definition driver_switches :: "sw_config cbuf \<Rightarrow> track \<Rightarrow> path \<Rightarrow> drv_out list option" where
  "driver_switches cfgs0 t p = do {
     cfgs \<leftarrow> path_switches_in_next_dist p (cb_init cfgs0) 1000;
     driver_flips t cfgs }"

(* src/src/user/train/driver.c:215-309 *)
definition HandleTrainUpdate :: "(drv_req \<Rightarrow> 'r \<Rightarrow> (int \<times> 'r) option) \<Rightarrow> tp_queue \<Rightarrow> sw_config cbuf \<Rightarrow> swi list \<Rightarrow> track \<Rightarrow>
    node_ptr \<Rightarrow> train \<Rightarrow> TDTrain \<Rightarrow> 'r \<Rightarrow> (bool \<times> drv_out list \<times> TDTrain \<times> 'r) option" where
  "HandleTrainUpdate ask q cfgs0 sw t end' raw tr rm =
     (if pe_pos (tr_curr_pos raw) = td_pos tr then Some (False, [], tr, rm)
      else do {
        let tr = tr\<lparr>td_update_ui := True\<rparr>;
        if td_pos tr = None then do {
          (go, tr) \<leftarrow> driver_plan q sw t tr (pe_pos (tr_curr_pos raw)) end';
          if \<not> go then Some (False, [], tr, rm)
          else do {
            os \<leftarrow> driver_switches cfgs0 t (td_p tr);
            Some (False, os, tr, rm) } }
        else do {
          (way, os, tr, rm) \<leftarrow> driver_follow ask tr raw end' rm;
          if way = WayEnds then Some (True, os, tr, rm)
          else if way = WayLost then Some (False, os, tr, rm)
          else do {
            os' \<leftarrow> driver_switches cfgs0 t (td_p tr);
            Some (False, os @ os', tr, rm) } } })"

text \<open>The flags of the windows: taken at the start, given back at the end.\<close>

(* src/src/user/train/driver.c:333-342 *)
definition driver_window :: "bool \<times> bool \<Rightarrow> TDTrain \<Rightarrow> TDTrain \<times> bool \<times> bool" where
  "driver_window flags tr = (case flags of (d1, d2) \<Rightarrow>
     if \<not> d1 then (tr\<lparr>td_driver := 1\<rparr>, True, d2)
     else if \<not> d2 then (tr\<lparr>td_driver := 2\<rparr>, d1, True)
     else (tr, d1, d2))"

(* src/src/user/train/driver.c:248-253 *)
definition driver_release :: "TDTrain \<Rightarrow> bool \<times> bool \<Rightarrow> bool \<times> bool" where
  "driver_release tr flags = (case flags of (d1, d2) \<Rightarrow>
     if td_driver tr = 1 then (False, d2) else if td_driver tr = 2 then (d1, False) else (d1, d2))"

text \<open>The start of the task: the window, and the first command to the train.\<close>

(* src/src/user/train/driver.c:319-351 *)
definition driver_start :: "track \<Rightarrow> path \<Rightarrow> int \<Rightarrow> int \<Rightarrow> bool \<times> bool \<Rightarrow> drv_out list \<times> TDTrain \<times> bool \<times> bool" where
  "driver_start t p num speed flags = ([TrainCmd num speed], driver_window flags (TDTrainInit t p num speed))"

text \<open>One turn of the task: \<open>True\<close> in the result when the task has ended. The route is written out for the window.\<close>

(* src/src/user/train/driver.c:359-369 *)
definition TrainDriver :: "(drv_req \<Rightarrow> 'r \<Rightarrow> (int \<times> 'r) option) \<Rightarrow> tp_queue \<Rightarrow> sw_config cbuf \<Rightarrow> swi list \<Rightarrow> track \<Rightarrow>
    node_ptr \<Rightarrow> int \<Rightarrow> train \<Rightarrow> TDTrain \<times> (bool \<times> bool) \<times> 'r \<Rightarrow>
    (bool \<times> drv_out list \<times> TDTrain \<times> (bool \<times> bool) \<times> 'r) option" where
  "TrainDriver ask q cfgs0 sw t end' sub_tid raw = (\<lambda>(tr, flags, rm). do {
     (ended, os, tr, rm) \<leftarrow> HandleTrainUpdate ask q cfgs0 sw t end' raw tr rm;
     if ended then Some (True, os, tr, driver_release tr flags, rm)
     else do {
       tr \<leftarrow> (if td_pos tr \<noteq> None \<and> td_update_ui tr then do {
                _ \<leftarrow> path_to_str (td_p tr);
                Some (tr\<lparr>td_update_ui := False\<rparr>) }
              else Some tr);
       Some (False, os @ [DrvReply sub_tid], tr, flags, rm) } })"

end
