(* ===== verification/RepresenterProps.thy ===== *)
theory RepresenterProps
  imports Representer EstimatorTheorems
begin

text \<open>
  The properties of the representer: the estimator that it owns goes through the events that
  \<open>EstimatorTheorems\<close> covers, and every subscriber is answered once.
\<close>

section \<open>The loops that answer\<close>

abbreviation sub_wf :: "int cbuf \<Rightarrow> bool" where
  "sub_wf \<equiv> cb_wf MAX_EVENT_SUBSCRIBERS"

abbreviation subs_of :: "int cbuf \<Rightarrow> int list" where
  "subs_of \<equiv> cb_list MAX_EVENT_SUBSCRIBERS"

lemma notify_popped_all:
  "sub_wf q \<Longrightarrow> subs_of q = xs \<Longrightarrow> \<exists>q'. notify_popped f q = Some (map f xs, q') \<and> sub_wf q' \<and> subs_of q' = []"
proof (induction xs arbitrary: q)
  case Nil
  then show ?case using cbq.pop_none [OF Nil.prems] by (simp add: notify_popped.simps)
next
  case (Cons x xs)
  from cbq.pop_some [OF Cons.prems(1)] Cons.prems(2) obtain q1 where
    q1: "cb_pop MAX_EVENT_SUBSCRIBERS q = Some (CB_E_NONE, Some x, q1)" "sub_wf q1" "subs_of q1 = xs" by auto
  from Cons.IH [OF q1(2,3)] show ?case using q1(1) by (subst notify_popped.simps) auto
qed

lemma notify_sized_all:
  "sub_wf q \<Longrightarrow> subs_of q = xs \<Longrightarrow> \<exists>q'. notify_sized f q = Some (map f xs, q') \<and> sub_wf q' \<and> subs_of q' = []"
proof (induction xs arbitrary: q)
  case Nil
  then show ?case by (subst notify_sized.simps) (simp add: cb_list_empty_iff)
next
  case (Cons x xs)
  from cbq.pop_some [OF Cons.prems(1)] Cons.prems(2) obtain q1 where
    q1: "cb_pop MAX_EVENT_SUBSCRIBERS q = Some (CB_E_NONE, Some x, q1)" "sub_wf q1" "subs_of q1 = xs" by auto
  have "cb_size q \<noteq> 0" using Cons.prems(2) cb_list_empty_iff [of MAX_EVENT_SUBSCRIBERS q] by simp
  then show ?case using Cons.IH [OF q1(2,3)] q1(1) by (subst notify_sized.simps) (auto simp: word_gt_0)
qed

section \<open>The estimator\<close>

lemma apply_event_run:
  assumes "est_run t est" "apply_event t ev est = Some est'"
  shows "est_run t est'"
  using assms
  by (auto simp: apply_event_def elim!: bind_SomeE split: TrackEventType.splits TrackEvents.splits if_splits
      intro: est_run.hit est_run.gear est_run.switch)

lemma apply_updates_run:
  "apply_updates t us i n subs est = Some (os, subs', est') \<Longrightarrow> est_run t est \<Longrightarrow> est_run t est'"
proof (induction n arbitrary: i subs est os)
  case (Suc n)
  then obtain ev est1 os1 subs1 i1 os2 where "apply_event t ev est = Some est1"
    "apply_updates t us i1 n subs1 est1 = Some (os2, subs', est')"
    by (auto elim!: bind_SomeE)
  then show ?case using Suc.IH apply_event_run [OF Suc.prems(2)] by blast
qed simp

lemma representer_run:
  assumes "Representer t tid req s = Some (os, s')" "est_run t (rep_est s)"
  shows "est_run t (rep_est s')"
proof (cases req)
  case (TRR_UPDATE us)
  then obtain o1 subs est where "apply_updates t us 0 (unat (cb_size us)) (rep_subs s) (rep_est s) = Some (o1, subs, est)"
    "rep_est s' = est" using assms(1) by (auto simp: Representer_def ApplyUpdates_def elim!: bind_SomeE)
  from apply_updates_run [OF this(1) assms(2)] this(2) show ?thesis by simp
qed (use assms in \<open>auto simp: Representer_def elim!: bind_SomeE intro: est_run.tick\<close>)

section \<open>The trains at the start\<close>

lemma add_at_run:
  assumes "add_at t ts num nm d est = Some (r, est')" "est_run t est" "es_ntrains est < int NUM_TRAINS" "modelled_train num"
    "trhr t (cstr nm) = Some (int i)" "pos_ok t \<lparr>pe_pos = Some i, pe_dir = 0, pe_off = d, pe_ts = ts\<rparr>" "0 \<le> ts"
    "wf_track t" "switches_ok t"
  shows "est_run t est' \<and> es_ntrains est' = es_ntrains est + 1"
proof -
  let ?pe = "\<lparr>pe_pos = Some i, pe_dir = 0, pe_off = d, pe_ts = ts\<rparr>"
  have a: "est_add_tr t est num ?pe = Some (r, est')" using assms(1,5) by (simp add: add_at_def)
  have p: "pos_ok t (?pe\<lparr>pe_dir := 0\<rparr>)" "0 \<le> pe_ts ?pe" using assms(6,7) by simp_all
  have "est_ok t est" using est_run_inv [OF assms(2,8,9)] by (simp add: est_inv_def)
  from est_add_ok [OF this assms(3,4) p assms(8)] a have "es_ntrains est' = es_ntrains est + 1" by auto
  then show ?thesis using est_run.add [OF assms(2,3,4) p a] by blast
qed

lemma tracka_starts:
  "trhr tracka_nodes (cstr ''A8'') = Some (int 7)" "trhr tracka_nodes (cstr ''A5'') = Some (int 4)"
  "trhr tracka_nodes (cstr ''A10'') = Some (int 9)"
  using trhr_tracka(1) [of 7] trhr_tracka(1) [of 4] trhr_tracka(1) [of 9]
  by (simp_all add: tracka_part tracka_0_def)

lemma trackb_starts:
  "trhr trackb_nodes (cstr ''A1'') = Some (int 0)" "trhr trackb_nodes (cstr ''A13'') = Some (int 12)"
  using trhr_trackb(1) [of 0] trhr_trackb(1) [of 12]
  by (simp_all add: trackb_part trackb_0_def)

lemma tracka_start_pos:
  "i \<in> {7, 4, 9} \<Longrightarrow> pos_ok tracka_nodes \<lparr>pe_pos = Some i, pe_dir = 0, pe_off = 0, pe_ts = ts\<rparr>"
  by (intro pos_okI [of _ i 0]) (auto simp: on_def tracka_at n_edges_def)

lemma trackb_start_pos:
  "i \<in> {0, 12} \<Longrightarrow> d \<in> {0, 5} \<Longrightarrow> pos_ok trackb_nodes \<lparr>pe_pos = Some i, pe_dir = 0, pe_off = d, pe_ts = ts\<rparr>"
  by (intro pos_okI [of _ i 0]) (auto simp: on_def trackb_at n_edges_def)

text \<open>The builds for the two tracks.\<close>

definition build :: "track \<Rightarrow> int \<Rightarrow> bool" where
  "build t track \<longleftrightarrow> (t = tracka_nodes \<and> track = 1) \<or> (t = trackb_nodes \<and> track = 2)"

lemma build_wf: "build t track \<Longrightarrow> wf_track t" "build t track \<Longrightarrow> switches_ok t"
  using wf_tracka wf_trackb tracka_switches trackb_switches by (auto simp: build_def)

lemma init_trains_run:
  assumes "est_init_trains t est ts track = Some est'" "build t track" "est_run t est" "es_ntrains est = 0" "0 \<le> ts"
  shows "est_run t est'"
proof -
  note W = build_wf [OF assms(2)]
  note add = add_at_run [OF _ _ _ _ _ _ assms(5) W]
  have m: "modelled_train 77" "modelled_train 78" "modelled_train 79" by (simp_all add: modelled_train_def)
  show ?thesis
  proof (cases "track = 1")
    case True
    then have t: "t = tracka_nodes" using assms(2) by (simp add: build_def)
    obtain r1 e1 r2 e2 r3 where e: "add_at t ts 78 ''A8'' 0 est = Some (r1, e1)" "add_at t ts 79 ''A5'' 0 e1 = Some (r2, e2)"
      "add_at t ts 77 ''A10'' 0 e2 = Some (r3, est')" using assms(1) True by (auto simp: est_init_trains_def elim!: bind_SomeE)
    have 1: "est_run t e1 \<and> es_ntrains e1 = 1"
      using add [OF e(1) assms(3)] assms(4) m tracka_starts tracka_start_pos [of 7 ts] t by simp
    then have 2: "est_run t e2 \<and> es_ntrains e2 = 2"
      using add [OF e(2)] m tracka_starts tracka_start_pos [of 4 ts] t by simp
    then show ?thesis using add [OF e(3)] m tracka_starts tracka_start_pos [of 9 ts] t by simp
  next
    case False
    then have t: "t = trackb_nodes" "track = 2" using assms(2) by (simp_all add: build_def)
    obtain r1 e1 r2 e2 r3 where e: "add_at t ts 77 ''A1'' 5 est = Some (r1, e1)" "add_at t ts 78 ''A1'' 0 e1 = Some (r2, e2)"
      "add_at t ts 79 ''A13'' 5 e2 = Some (r3, est')" using assms(1) t by (auto simp: est_init_trains_def elim!: bind_SomeE)
    have 1: "est_run t e1 \<and> es_ntrains e1 = 1"
      using add [OF e(1) assms(3)] assms(4) m trackb_starts trackb_start_pos [of 0 5 ts] t by simp
    then have 2: "est_run t e2 \<and> es_ntrains e2 = 2"
      using add [OF e(2)] m trackb_starts trackb_start_pos [of 0 0 ts] t by simp
    then show ?thesis using add [OF e(3)] m trackb_starts trackb_start_pos [of 12 5 ts] t by simp
  qed
qed

section \<open>Subscribers\<close>

abbreviation subscribed :: "int \<Rightarrow> int cbuf list \<Rightarrow> nat" where
  "subscribed x qs \<equiv> sum_list (map (\<lambda>q. count_list (subs_of q) x) qs)"

definition subs_inv :: "representer \<Rightarrow> bool" where
  "subs_inv s \<longleftrightarrow> list_all sub_wf (rep_subs s) \<and> list_all sub_wf (rep_tsubs s) \<and> sub_wf (rep_swsubs s)"

definition waiting :: "int \<Rightarrow> representer \<Rightarrow> nat" where
  "waiting x s = subscribed x (rep_subs s) + subscribed x (rep_tsubs s) + count_list (subs_of (rep_swsubs s)) x"

fun told :: "int \<Rightarrow> rep_out \<Rightarrow> nat" where
  "told x (RepEvent y e) = of_bool (y = x)"
| "told x (RepTrain y tr) = of_bool (y = x)"
| "told x (RepSwitches y sws) = of_bool (y = x)"
| "told x (RepAck y) = of_bool (y = x)"

abbreviation tell :: "int \<Rightarrow> rep_out list \<Rightarrow> nat" where
  "tell x os \<equiv> sum_list (map (told x) os)"

lemma subscribed_update:
  "k < length qs \<Longrightarrow> subscribed x (qs[k := q]) + count_list (subs_of (qs ! k)) x = subscribed x qs + count_list (subs_of q) x"
proof (induction qs arbitrary: k)
  case (Cons a qs)
  then show ?case by (cases k) auto
qed simp

lemma all_wf_update: "list_all sub_wf qs \<Longrightarrow> sub_wf q \<Longrightarrow> list_all sub_wf (qs[k := q])"
  by (auto simp: list_all_iff dest: set_update_subset_insert [THEN subsetD])

lemma told_all: "(\<And>y. told x (f y) = of_bool (y = x)) \<Longrightarrow> tell x (map f xs) = count_list xs x"
  by (induction xs) auto

text \<open>\<open>told_from x qs os qs'\<close>: the subscribers in \<open>os\<close> have been told and have left the queues.\<close>

definition told_from :: "int \<Rightarrow> int cbuf list \<Rightarrow> rep_out list \<Rightarrow> int cbuf list \<Rightarrow> bool" where
  "told_from x qs os qs' \<longleftrightarrow> list_all sub_wf qs' \<and> tell x os + subscribed x qs' = subscribed x qs"

lemma told_from_none: "list_all sub_wf qs \<Longrightarrow> told_from x qs [] qs"
  by (simp add: told_from_def)

lemma told_from_more: "told_from x qs os qs1 \<Longrightarrow> told_from x qs1 os' qs' \<Longrightarrow> told_from x qs (os @ os') qs'"
  by (simp add: told_from_def)

lemma told_from_queue:
  assumes "list_all sub_wf qs" "k < length qs" "sub_wf q" "subs_of q = []" "\<And>y. told x (f y) = of_bool (y = x)"
  shows "told_from x qs (map f (subs_of (qs ! k))) (qs[k := q])"
  using subscribed_update [OF assms(2), of x q] all_wf_update [OF assms(1,3)] told_all [OF assms(5)] assms(4)
  by (simp add: told_from_def)

lemma notify_train_told:
  assumes "NotifyTrainSubscribers tr qs = Some (os, qs')" "list_all sub_wf qs"
  shows "told_from x qs os qs'"
proof -
  define k where "k = nat (tr_num tr)"
  have k: "k < length qs" "0 \<le> tr_num tr" using assms(1) by (auto simp: NotifyTrainSubscribers_def agetz_eq_Some k_def elim!: bind_SomeE)
  then have "sub_wf (qs ! k)" using assms(2) by (simp add: list_all_length)
  from notify_popped_all [OF this refl, of "\<lambda>tid. RepTrain tid tr"] obtain q where
    q: "notify_popped (\<lambda>tid. RepTrain tid tr) (qs ! k) = Some (map (\<lambda>tid. RepTrain tid tr) (subs_of (qs ! k)), q)" "sub_wf q" "subs_of q = []"
    by blast
  have "os = map (\<lambda>tid. RepTrain tid tr) (subs_of (qs ! k))" "qs' = qs[k := q]"
    using assms(1) k q(1) by (auto simp: NotifyTrainSubscribers_def agetz_in asetz_in k_def)
  then show ?thesis using told_from_queue [OF assms(2) k(1) q(2,3)] by simp
qed

lemma notify_event_told:
  assumes "NotifySubscribers ty ev qs = Some (os, qs')" "list_all sub_wf qs"
  shows "told_from x qs os qs'"
proof -
  let ?k = "te_index ty"
  have k: "?k < length qs" using assms(1) by (auto simp: NotifySubscribers_def aget_eq_Some elim!: bind_SomeE)
  then have "sub_wf (qs ! ?k)" using assms(2) by (simp add: list_all_length)
  from notify_sized_all [OF this refl, of "\<lambda>tid. RepEvent tid ev"] obtain q where
    q: "notify_sized (\<lambda>tid. RepEvent tid ev) (qs ! ?k) = Some (map (\<lambda>tid. RepEvent tid ev) (subs_of (qs ! ?k)), q)" "sub_wf q" "subs_of q = []"
    by blast
  have "os = map (\<lambda>tid. RepEvent tid ev) (subs_of (qs ! ?k))" "qs' = qs[?k := q]"
    using assms(1) k q(1) by (auto simp: NotifySubscribers_def)
  then show ?thesis using told_from_queue [OF assms(2) k(1) q(2,3)] by simp
qed

lemma notif_trains_told: "est_notif_trains trs qs = Some (os, qs') \<Longrightarrow> list_all sub_wf qs \<Longrightarrow> told_from x qs os qs'"
proof (induction trs arbitrary: qs os)
  case (Cons tr trs)
  then obtain o1 q1 o2 where "NotifyTrainSubscribers tr qs = Some (o1, q1)" "est_notif_trains trs q1 = Some (o2, qs')" "os = o1 @ o2"
    by (auto elim!: bind_SomeE)
  then show ?case using notify_train_told [of tr qs o1 q1 x] Cons.IH [of q1 o2] Cons.prems(2) told_from_more
    by (fastforce simp: told_from_def)
qed (simp add: told_from_none)

lemma apply_updates_SucE:
  assumes "apply_updates t us i (Suc n) qs est = Some (os, qs', est')"
  obtains ev est1 o1 q1 o2 where "apply_event t ev est = Some est1" "NotifySubscribers (te_type ev) (te_event ev) qs = Some (o1, q1)"
    "apply_updates t us (i + 1) n q1 est1 = Some (o2, qs', est')" "o1 @ o2 = os"
  using assms by (auto elim!: bind_SomeE)

lemma apply_updates_told:
  "apply_updates t us i n qs est = Some (os, qs', est') \<Longrightarrow> list_all sub_wf qs \<Longrightarrow> told_from x qs os qs'"
proof (induction n arbitrary: i qs est os)
  case (Suc n)
  then obtain ev :: TrackEvent and o1 q1 est1 o2 where "NotifySubscribers (te_type ev) (te_event ev) qs = Some (o1, q1)"
    "apply_updates t us (i + 1) n q1 est1 = Some (o2, qs', est')" and os: "o1 @ o2 = os"
    by (elim apply_updates_SucE)
  then have "told_from x qs o1 q1" "told_from x q1 o2 qs'"
    using notify_event_told [of _ _ qs o1 q1 x] Suc.IH [of "i + 1" q1 est1 o2] Suc.prems(2) by (auto simp: told_from_def)
  then show ?case using told_from_more os by blast
qed (simp add: told_from_none)

lemma add_sub:
  assumes "cb_push MAX_EVENT_SUBSCRIBERS tid (qs ! k) = Some (CB_E_NONE, q)" "k < length qs" "list_all sub_wf qs"
  shows "list_all sub_wf (qs[k := q]) \<and> subscribed x (qs[k := q]) = subscribed x qs + of_bool (tid = x)"
proof -
  have "sub_wf (qs ! k)" using assms(2,3) by (simp add: list_all_length)
  from cbq.push_NONE [OF this assms(1)] have q: "sub_wf q" "subs_of q = subs_of (qs ! k) @ [tid]" by auto
  then show ?thesis using all_wf_update [OF assms(3)] subscribed_update [OF assms(2), of x q] by auto
qed

text \<open>A request that subscribes.\<close>

definition subscribes :: "TrackRequest \<Rightarrow> bool" where
  "subscribes req \<longleftrightarrow> (case req of TRR_SUBSCRIBE _ \<Rightarrow> True | TRR_SUBSCRIBE_TR _ \<Rightarrow> True | TRR_SUBSCRIBE_SW \<Rightarrow> True | _ \<Rightarrow> False)"

lemma turn_told:
  assumes "Representer t tid req s = Some (os, s')" "subs_inv s" "tid = x \<longrightarrow> subscribes req"
  shows "subs_inv s' \<and> tell x os + waiting x s' = waiting x s + of_bool (tid = x)"
proof (cases req)
  case (TRR_SUBSCRIBE ty)
  then obtain q where q: "cb_push MAX_EVENT_SUBSCRIBERS tid (rep_subs s ! te_index ty) = Some (CB_E_NONE, q)" "te_index ty < length (rep_subs s)"
    "os = []" "s' = s\<lparr>rep_subs := (rep_subs s)[te_index ty := q]\<rparr>"
    using assms(1) by (auto simp: Representer_def AddSubscriber_def aget_eq_Some aset_eq_Some elim!: bind_SomeE)
  from add_sub [OF q(1,2)] q(3,4) assms(2) show ?thesis by (simp add: subs_inv_def waiting_def)
next
  case (TRR_SUBSCRIBE_TR num)
  then obtain q where q: "cb_push MAX_EVENT_SUBSCRIBERS tid (rep_tsubs s ! nat num) = Some (CB_E_NONE, q)" "nat num < length (rep_tsubs s)"
    "os = []" "s' = s\<lparr>rep_tsubs := (rep_tsubs s)[nat num := q]\<rparr>"
    using assms(1) by (auto simp: Representer_def AddTrainSubscriber_def agetz_eq_Some asetz_eq_Some elim!: bind_SomeE)
  from add_sub [OF q(1,2)] q(3,4) assms(2) show ?thesis by (simp add: subs_inv_def waiting_def)
next
  case TRR_SUBSCRIBE_SW
  then obtain q where q: "cb_push MAX_EVENT_SUBSCRIBERS tid (rep_swsubs s) = Some (CB_E_NONE, q)" "os = []" "s' = s\<lparr>rep_swsubs := q\<rparr>"
    using assms(1) by (auto simp: Representer_def AddSWSubscriber_def elim!: bind_SomeE)
  have "sub_wf (rep_swsubs s)" using assms(2) by (simp add: subs_inv_def)
  from cbq.push_NONE [OF this q(1)] q(2,3) assms(2) show ?thesis by (simp add: subs_inv_def waiting_def)
next
  case (TRR_UPDATE us)
  then obtain o1 qs est where o1: "apply_updates t us 0 (unat (cb_size us)) (rep_subs s) (rep_est s) = Some (o1, qs, est)"
    "os = o1 @ [RepAck tid]" "s' = s\<lparr>rep_est := est, rep_subs := qs\<rparr>"
    using assms(1) by (auto simp: Representer_def ApplyUpdates_def elim!: bind_SomeE)
  have "list_all sub_wf (rep_subs s)" using assms(2) by (simp add: subs_inv_def)
  from apply_updates_told [OF o1(1) this, of x] o1(2,3) assms(2,3) TRR_UPDATE show ?thesis
    by (auto simp: subs_inv_def waiting_def told_from_def subscribes_def)
next
  case (TRR_POKE time)
  then obtain est o1 qs o2 q where 1: "est_notif_trains (take (nat (es_ntrains est)) (es_train est)) (rep_tsubs s) = Some (o1, qs)"
    "NotifySWSubscribers (es_sw est) (rep_swsubs s) = Some (o2, q)" "os = o1 @ o2 @ [RepAck tid]"
    "s' = s\<lparr>rep_est := est, rep_tsubs := qs, rep_swsubs := q\<rparr>"
    using assms(1) by (auto simp: Representer_def elim!: bind_SomeE)
  have wf: "list_all sub_wf (rep_tsubs s)" "sub_wf (rep_swsubs s)" using assms(2) by (simp_all add: subs_inv_def)
  from notify_popped_all [OF wf(2) refl, of "\<lambda>tid. RepSwitches tid (es_sw est)"] 1(2)
  have 2: "o2 = map (\<lambda>tid. RepSwitches tid (es_sw est)) (subs_of (rep_swsubs s))" "sub_wf q" "subs_of q = []"
    by (auto simp: NotifySWSubscribers_def)
  have "tell x o2 = count_list (subs_of (rep_swsubs s)) x" unfolding 2(1) by (rule told_all) simp
  then show ?thesis using notif_trains_told [OF 1(1) wf(1), of x] 1(3,4) 2(2,3) assms(2,3) TRR_POKE
    by (auto simp: subs_inv_def waiting_def told_from_def subscribes_def)
qed (use assms in \<open>simp add: Representer_def\<close>)

section \<open>The server's runs\<close>

fun rep_run :: "track \<Rightarrow> (int \<times> TrackRequest) list \<Rightarrow> representer \<Rightarrow> (rep_out list \<times> representer) option" where
  "rep_run t [] s = Some ([], s)"
| "rep_run t ((tid, req) # rs) s = do {
     (os, s) \<leftarrow> Representer t tid req s;
     (os', s) \<leftarrow> rep_run t rs s;
     Some (os @ os', s) }"

lemma rep_run_Cons:
  assumes "rep_run t (r # rs) s = Some (os, s')"
  obtains o1 s1 o2 where "Representer t (fst r) (snd r) s = Some (o1, s1)" "rep_run t rs s1 = Some (o2, s')" "os = o1 @ o2"
  using assms by (cases r) (auto elim!: bind_SomeE)

lemma rep_run_est: "rep_run t rs s = Some (os, s') \<Longrightarrow> est_run t (rep_est s) \<Longrightarrow> est_run t (rep_est s')"
proof (induction rs arbitrary: s os)
  case (Cons r rs)
  then show ?case by (metis rep_run_Cons representer_run)
qed simp

lemma rep_run_told:
  "rep_run t rs s = Some (os, s') \<Longrightarrow> subs_inv s \<Longrightarrow> \<forall>r \<in> set rs. fst r = x \<longrightarrow> subscribes (snd r) \<Longrightarrow>
   tell x os + waiting x s' = waiting x s + length (filter (\<lambda>r. fst r = x) rs)"
proof (induction rs arbitrary: s os)
  case (Cons r rs)
  from rep_run_Cons [OF Cons.prems(1)] obtain o1 s1 o2 where
    1: "Representer t (fst r) (snd r) s = Some (o1, s1)" "rep_run t rs s1 = Some (o2, s')" "os = o1 @ o2" .
  have "subs_inv s1 \<and> tell x o1 + waiting x s1 = waiting x s + of_bool (fst r = x)"
    using turn_told [OF 1(1) Cons.prems(2), of x] Cons.prems(3) by simp
  then show ?case using Cons.IH [OF 1(2)] Cons.prems(3) 1(3) by auto
qed simp

text \<open>The memory before the start.\<close>

definition rep_memory :: "representer \<Rightarrow> bool" where
  "rep_memory s \<longleftrightarrow> memory_ok (rep_est s) \<and> length (cb_buf (rep_swsubs s)) = MAX_EVENT_SUBSCRIBERS \<and>
     list_all (\<lambda>q. length (cb_buf q) = MAX_EVENT_SUBSCRIBERS) (rep_subs s @ rep_tsubs s)"

lemma representer_starts:
  assumes "representer_init t track ts s0 = Some s" "build t track" "0 \<le> ts" "rep_memory s0"
  shows "est_run t (rep_est s)" "subs_inv s" "waiting x s = 0"
proof -
  obtain e0 est where e: "est_init (rep_est s0) = Some e0" "est_init_trains t e0 ts track = Some est"
    "s = \<lparr>rep_est = est, rep_subs = map cb_init (rep_subs s0), rep_tsubs = map cb_init (rep_tsubs s0), rep_swsubs = cb_init (rep_swsubs s0)\<rparr>"
    using assms(1) by (auto simp: representer_init_def elim!: bind_SomeE)
  have "est_run t e0" using est_run.init [OF _ e(1)] assms(4) by (simp add: rep_memory_def)
  moreover have "es_ntrains e0 = 0" using e(1) by (auto simp: est_init_def elim!: bind_SomeE)
  ultimately show "est_run t (rep_est s)" using init_trains_run [OF e(2) assms(2) _ _ assms(3)] e(3) by simp
  show "subs_inv s" using assms(4) by (auto simp: e(3) subs_inv_def rep_memory_def list_all_iff intro!: cb_init_wf)
  show "waiting x s = 0" by (simp add: e(3) waiting_def o_def)
qed

text \<open>C12: In either build the representer starts its estimator with the trains of the track, and after any requests (updates of
  the interpreter, pokes, subscriptions) that it survives the estimator's data agree: every train stands on the track, is in
  exactly the list of the edge that it stands on, and the lists have the farthest train first.\<close>

theorem representer_lists:
  assumes "representer_init t track ts s0 = Some s" "build t track" "0 \<le> ts" "rep_memory s0" "rep_run t rs s = Some (os, s')"
  shows "est_ok t (rep_est s') \<and> marks_ok (rep_est s') \<and> (\<forall>k \<in> tracked (rep_est s').
    \<exists>!at. fst at < TRACK_MAX \<and> snd at < 2 \<and> k \<in> set (trains_at (rep_est s') (fst at) (snd at)))"
proof -
  have "est_run t (rep_est s')" using rep_run_est [OF assms(5)] representer_starts(1) [OF assms(1-4)] by blast
  then have "est_inv t (rep_est s')" using est_run_inv build_wf [OF assms(2)] by blast
  then have "est_ok t (rep_est s')" "marks_ok (rep_est s')" by (simp_all add: est_inv_def)
  then show ?thesis using in_one_list by blast
qed

text \<open>C33: The representer answers every subscription exactly once: for a task that only subscribes, in any run, the replies it got
  and the places it has in the queues of subscribers are together as many as its subscriptions, so that a waiting task is
  never forgotten and never answered twice.\<close>

theorem representer_answers:
  assumes "representer_init t track ts s0 = Some s" "build t track" "0 \<le> ts" "rep_memory s0" "rep_run t rs s = Some (os, s')"
    "\<forall>r \<in> set rs. fst r = x \<longrightarrow> subscribes (snd r)"
  shows "tell x os + waiting x s' = length (filter (\<lambda>r. fst r = x) rs)"
  using rep_run_told [OF assms(5) representer_starts(2) [OF assms(1-4)] assms(6)] representer_starts(3) [OF assms(1-4), of x]
  by simp

text \<open>The representer of track A starts, and a task subscribes to train 77 and then to the switches.\<close>

definition blank_subs :: "int cbuf" where
  "blank_subs = blank_cb MAX_EVENT_SUBSCRIBERS 0"

definition blank_representer :: representer where
  "blank_representer = \<lparr>rep_est = blank_estimator, rep_subs = replicate TRACK_EVENTS blank_subs,
     rep_tsubs = replicate TRAIN_MAX blank_subs, rep_swsubs = blank_subs\<rparr>"

lemma blank_memory: "rep_memory blank_representer" "memory_ok blank_estimator"
  by (auto simp: rep_memory_def blank_representer_def blank_subs_def blank_cb_def memory_ok_def blank_estimator_def blank_list_def
      list_all_iff)

lemma add_at_some:
  assumes "est_run t est" "es_ntrains est < int NUM_TRAINS" "modelled_train num"
    "trhr t (cstr nm) = Some (int i)" "pos_ok t \<lparr>pe_pos = Some i, pe_dir = 0, pe_off = d, pe_ts = ts\<rparr>" "0 \<le> ts"
    "wf_track t" "switches_ok t"
  shows "\<exists>r est'. add_at t ts num nm d est = Some (r, est') \<and> est_run t est' \<and> es_ntrains est' = es_ntrains est + 1"
proof -
  let ?pe = "\<lparr>pe_pos = Some i, pe_dir = 0, pe_off = d, pe_ts = ts\<rparr>"
  have p: "pos_ok t (?pe\<lparr>pe_dir := 0\<rparr>)" "0 \<le> pe_ts ?pe" using assms(5,6) by simp_all
  have "est_ok t est" using est_run_inv [OF assms(1,7,8)] by (simp add: est_inv_def)
  from est_add_ok [OF this assms(2,3) p assms(7)] obtain r est' where "add_at t ts num nm d est = Some (r, est')"
    using assms(4) by (auto simp: add_at_def)
  then show ?thesis using add_at_run [OF _ assms(1-8)] by blast
qed

lemma blank_starts: "\<exists>s. representer_init tracka_nodes 1 0 blank_representer = Some s"
proof -
  obtain e0 where e0: "est_init blank_estimator = Some e0" "es_ntrains e0 = 0"
    by (simp add: est_init_def blank_estimator_def list_all_iff)
  note r0 = est_run.init [OF blank_memory(2) e0(1), of tracka_nodes]
  have m: "modelled_train 77" "modelled_train 78" "modelled_train 79" by (simp_all add: modelled_train_def)
  note add = add_at_some [OF _ _ _ _ _ _ wf_tracka tracka_switches]
  obtain r1 e1 where 1: "add_at tracka_nodes 0 78 ''A8'' 0 e0 = Some (r1, e1)" "est_run tracka_nodes e1" "es_ntrains e1 = 1"
    using add [OF r0 _ m(2) tracka_starts(1) tracka_start_pos, of 0] e0(2) by auto
  obtain r2 e2 where 2: "add_at tracka_nodes 0 79 ''A5'' 0 e1 = Some (r2, e2)" "est_run tracka_nodes e2" "es_ntrains e2 = 2"
    using add [OF 1(2) _ m(3) tracka_starts(2) tracka_start_pos, of 0] 1(3) by auto
  obtain r3 e3 where 3: "add_at tracka_nodes 0 77 ''A10'' 0 e2 = Some (r3, e3)"
    using add [OF 2(2) _ m(1) tracka_starts(3) tracka_start_pos, of 0] 2(3) by auto
  show ?thesis using e0(1) 1(1) 2(1) 3 by (simp add: representer_init_def blank_representer_def est_init_trains_def)
qed

abbreviation rep_session :: "(int \<times> TrackRequest) list" where
  "rep_session \<equiv> [(5, TRR_SUBSCRIBE_TR 77), (5, TRR_SUBSCRIBE_SW)]"

lemma session_runs:
  "\<exists>s os s'. representer_init tracka_nodes 1 0 blank_representer = Some s \<and> rep_run tracka_nodes rep_session s = Some (os, s')"
proof -
  obtain s where s: "representer_init tracka_nodes 1 0 blank_representer = Some s" using blank_starts by blast
  then have q: "rep_tsubs s = replicate TRAIN_MAX (cb_init blank_subs)" "rep_swsubs s = cb_init blank_subs"
    by (auto simp: representer_init_def blank_representer_def elim!: bind_SomeE)
  have "\<exists>os s'. rep_run tracka_nodes rep_session s = Some (os, s')"
    by (simp add: Representer_def AddTrainSubscriber_def AddSWSubscriber_def q agetz_def asetz_def cb_push_def cb_init_def
        blank_subs_def blank_cb_def)
  then show ?thesis using s by blast
qed

theorem representer_lists_witness:
  "\<exists>s os s'. representer_init tracka_nodes 1 0 blank_representer = Some s \<and> rep_run tracka_nodes rep_session s = Some (os, s') \<and>
    est_ok tracka_nodes (rep_est s')"
proof -
  obtain s os s' where s: "representer_init tracka_nodes 1 0 blank_representer = Some s"
    "rep_run tracka_nodes rep_session s = Some (os, s')" using session_runs by blast
  then show ?thesis using representer_lists [OF s(1) _ _ blank_memory(1) s(2)] by (auto simp: build_def)
qed

theorem representer_answers_witness:
  "\<exists>s os s'. representer_init tracka_nodes 1 0 blank_representer = Some s \<and> rep_run tracka_nodes rep_session s = Some (os, s') \<and>
    tell 5 os + waiting 5 s' = 2"
proof -
  obtain s os s' where s: "representer_init tracka_nodes 1 0 blank_representer = Some s"
    "rep_run tracka_nodes rep_session s = Some (os, s')" using session_runs by blast
  have "tell 5 os + waiting 5 s' = length (filter (\<lambda>r. fst r = 5) rep_session)"
    by (rule representer_answers [OF s(1) _ _ blank_memory(1) s(2)]) (auto simp: build_def subscribes_def)
  then show ?thesis using s by simp
qed

end
