(* ===== verification/DriverProps.thy ===== *)
theory DriverProps
  imports Driver PathFollow RepresenterProps
begin

text \<open>
  The properties of the driver: the route that it plans, and the switches that it sets.
\<close>

section \<open>The search\<close>

lemma driver_edges_total:
  assumes "length sw = SWITCH_SIZE" "switches_ok t" "i < length t"
  shows "\<exists>is. driver_edges sw (t ! i) = Some is \<and> set is \<subseteq> {..<n_edges (n_type (t ! i))} \<and> length is \<le> n_edges (n_type (t ! i))"
proof (cases "n_type (t ! i) = NODE_BRANCH")
  case True
  then have "0 \<le> n_num (t ! i)" "n_num (t ! i) < int SWITCH_SIZE" using assms(2,3) by (auto simp: switches_ok_def)
  then have "nat (n_num (t ! i)) < length sw" unfolding assms(1) by linarith
  then show ?thesis using True \<open>0 \<le> n_num (t ! i)\<close> by (auto simp: driver_edges_def agetz_in n_edges_def)
next
  case False
  then show ?thesis by (auto simp: driver_edges_def)
qed

lemma build_graph:
  assumes "build t track" "length sw = SWITCH_SIZE"
  shows "search_graph (driver_edges sw) t"
proof
  show wf: "wf_track t" using build_wf [OF assms(1)] by simp
  show "\<exists>is. driver_edges sw (t ! i) = Some is \<and> set is \<subseteq> {..<n_edges (n_type (t ! i))} \<and> length is \<le> n_edges (n_type (t ! i))"
    if "i < TRACK_MAX" for i
    using driver_edges_total [OF assms(2) build_wf(2) [OF assms(1)], of i] wf_length [OF wf] that by simp
  have "t = tracka_nodes \<or> t = trackb_nodes" using assms(1) by (auto simp: build_def)
  then show "card {i. i < TRACK_MAX \<and> n_type (t ! i) = NODE_BRANCH} \<le> 71"
    using few_branches_64 [OF tracka_sensors] few_branches_64 [OF trackb_sensors] by (elim disjE) (simp_all only:)
qed

text \<open>The memory that a plan needs: the path's arrays and the queue's.\<close>

definition path_memory :: "path \<Rightarrow> tp_queue \<Rightarrow> bool" where
  "path_memory p q \<longleftrightarrow> length (cb_buf (p_ahead p)) = TRACK_MAX \<and> length (cb_buf (p_behind p)) = TRACK_MAX \<and>
     length (p_pred p) = TRACK_MAX \<and> length (tq_tree q) = MAX_TPQ_SIZE \<and> length (tq_map q) = MAX_TPQ_SIZE"

lemma driver_generates:
  assumes b: "build t track" "length sw = SWITCH_SIZE" "path_memory p0 q"
    and n: "sid < TRACK_MAX" "n_type (t ! sid) \<noteq> NODE_NONE" "did < TRACK_MAX" "sid \<noteq> did"
  defines "p \<equiv> path_set_destination (path_init p0 t) (Some sid) (Some did)"
  shows "\<exists>r p'. driver_generate_path q sw p = Some (r, p') \<and>
    (if r < 0 then \<nexists>xs k. route (driver_edges sw) t xs k \<and> hd xs = sid \<and> last xs = did
     else p_track p' = t \<and> p_start p' = Some sid \<and> p_end p' = Some did \<and> p_current p' = None \<and> p_list (p_behind p') = [] \<and>
       cb_wf TRACK_MAX (p_behind p') \<and> cb_wf TRACK_MAX (p_ahead p') \<and>
       (\<exists>xs k. route (driver_edges sw) t xs k \<and> hd xs = sid \<and> last xs = did \<and> distinct xs \<and> length xs \<le> TRACK_MAX \<and>
         2 \<le> length xs \<and> p_list (p_ahead p') = map Some xs))"
proof -
  note g = build_graph [OF b(1,2)]
  have wf: "wf_track t" using build_wf [OF b(1)] by simp
  have pp: "p_track p = t" "p_start p = Some sid" "p_end p = Some did" "p_pred p = p_pred p0" "p_current p = None"
    "p_ahead p = cb_init (p_ahead p0)" "p_behind p = cb_init (p_behind p0)"
    by (simp_all add: p_def path_set_destination_def path_init_def)
  have w: "cb_wf TRACK_MAX (p_ahead p)" "cb_wf TRACK_MAX (p_behind p)" "cb_list TRACK_MAX (p_ahead p) = []" "length (p_pred p) = TRACK_MAX"
    using b(3) by (simp_all add: pp path_memory_def cb_init_wf)
  obtain st where st: "path_search (driver_edges sw) t (Some sid) (Some did) (p_pred p) q = Some st" "length (d_prev st) = TRACK_MAX"
    "d_prev st ! sid = - 1"
    "(\<exists>xs. route (driver_edges sw) t xs (d_dist st ! did) \<and> hd xs = sid \<and> last xs = did \<and> links (d_prev st) xs \<and> distinct xs) \<or>
     d_prev st ! did = - 1 \<and> search_graph.no_route (driver_edges sw) t sid did"
    using search_graph.path_search_ok [OF g n(1-3) w(4), of q] b(3) by (auto simp: path_memory_def)
  have find: "driver_path_find q sw (p_track p) (Some sid) (Some did) (p_pred p) = Some (d_prev st)"
    using st(1) by (simp add: driver_path_find_def pp)
  have gen: "\<exists>a. cb_wf TRACK_MAX a \<and> cb_list TRACK_MAX a = map Some xs \<and>
    path_generate_with (driver_path_find q sw) p = (if length xs < 2 then Some (- 1, p\<lparr>p_pred := d_prev st, p_ahead := a\<rparr>)
      else Some (0, p\<lparr>p_pred := d_prev st, p_ahead := a, p_ready := True\<rparr>))"
    if "links (d_prev st) xs" "distinct xs" "set xs \<subseteq> {..<TRACK_MAX}" "last xs = did" for xs
    using path_generate_with_ok [of p sid did "driver_path_find q sw", OF _ pp(2,3) n(4,1,3) find st(2,3) that w(1,3)] wf
    by (simp add: pp(1))
  from st(4) show ?thesis
  proof (elim disjE exE conjE)
    fix xs assume xs: "route (driver_edges sw) t xs (d_dist st ! did)" "hd xs = sid" "last xs = did" "links (d_prev st) xs" "distinct xs"
    then have ns: "set xs \<subseteq> {..<TRACK_MAX}" using route_nodes [OF xs(1) wf] n(1) by simp
    have two: "\<not> length xs < 2" using xs(2-4) n(4) by (cases xs; cases "tl xs") (auto simp: links_def)
    obtain a where a: "cb_wf TRACK_MAX a" "cb_list TRACK_MAX a = map Some xs"
      "driver_generate_path q sw p = Some (0, p\<lparr>p_pred := d_prev st, p_ahead := a, p_ready := True\<rparr>)"
      using gen [OF xs(4,5) ns xs(3)] two by (auto simp: driver_generate_path_def)
    show ?thesis
      using a xs two links_bound [OF xs(4,5) ns] w(2)
      by (intro exI [of _ 0] exI [of _ "p\<lparr>p_pred := d_prev st, p_ahead := a, p_ready := True\<rparr>"]) (auto simp: pp p_list_def)
  next
    assume none: "d_prev st ! did = - 1" "search_graph.no_route (driver_edges sw) t sid did"
    obtain a where "driver_generate_path q sw p = Some (- 1, p\<lparr>p_pred := d_prev st, p_ahead := a\<rparr>)"
      using gen [of "[did]"] none(1) n(3) by (auto simp: links_one driver_generate_path_def)
    then show ?thesis using none(2) unfolding search_graph.no_route_def [OF g] by auto
  qed
qed

section \<open>The switches\<close>

text \<open>The length of a step of the route, and the steps of the next \<open>dist\<close> millimetres, the first of which begins at \<open>d\<close>.\<close>

definition hop :: "track \<Rightarrow> nat \<Rightarrow> nat \<Rightarrow> int" where
  "hop t u v = (if e_dest (n_edge (t ! u) ! 0) = Some v \<or> n_type (t ! u) \<noteq> NODE_BRANCH then e_dist (n_edge (t ! u) ! 0)
     else e_dist (n_edge (t ! u) ! 1))"

fun look :: "track \<Rightarrow> int \<Rightarrow> int \<Rightarrow> nat list \<Rightarrow> (nat \<times> nat) list" where
  "look t dist d (u # v # vs) = (u, v) # (if dist \<le> d + hop t u v then [] else look t dist (d + hop t u v) (v # vs))"
| "look t dist d _ = []"

text \<open>The edge that a switch has to lie at, and the command for it.\<close>

definition lie :: "track \<Rightarrow> nat \<Rightarrow> nat \<Rightarrow> int" where
  "lie t u v = (if e_dest (n_edge (t ! u) ! 0) = Some v then 0 else 1)"

definition flip_for :: "track \<Rightarrow> nat \<times> nat \<Rightarrow> drv_out" where
  "flip_for t = (\<lambda>(u, v). DrvSwitch \<lparr>sw_swr = SW_FLIP, sw_sw = word_of_int (n_num (t ! u)),
     sw_dir = (if lie t u v = 1 then 34 else 33)\<rparr>)"

abbreviation is_switch :: "track \<Rightarrow> nat \<times> nat \<Rightarrow> bool" where
  "is_switch t \<equiv> \<lambda>(u, v). n_type (t ! u) = NODE_BRANCH"

abbreviation config_for :: "nat \<times> nat \<Rightarrow> track \<Rightarrow> sw_config" where
  "config_for \<equiv> \<lambda>(u, v) t. \<lparr>sc_sw = Some u, sc_state_required = lie t u v\<rparr>"

definition step_ok :: "track \<Rightarrow> nat \<Rightarrow> nat \<Rightarrow> bool" where
  "step_ok t u v \<longleftrightarrow> (\<exists>d k. exits t u d k v)"

lemma step_facts:
  assumes "wf_track t" "step_ok t u v"
  shows "node_at t (Some u) = Some (t ! u)" "track_node_dist t (Some u) (Some v) = Some (hop t u v)"
    "n_type (t ! u) = NODE_BRANCH \<Longrightarrow> path_get_switch_config t (Some u) (Some v) = Some (lie t u v)"
proof -
  obtain d k where e: "exits t u d k v" using assms(2) by (auto simp: step_ok_def)
  have u: "u < TRACK_MAX" using exitsD(1) [OF assms(1) e] .
  then have l: "length (n_edge (t ! u)) = 2" using wf_n_edge [OF assms(1)] by simp
  show n: "node_at t (Some u) = Some (t ! u)" using assms(1) u by simp
  have d: "e_dest (n_edge (t ! u) ! 0) = Some v \<or> (n_type (t ! u) = NODE_BRANCH \<and> e_dest (n_edge (t ! u) ! 1) = Some v)"
    "n_type (t ! u) \<noteq> NODE_EXIT"
    using e by (auto simp: exits_def n_edges_def less_Suc_eq numeral_2_eq_2 split: node_type.splits)
  show c: "path_get_switch_config t (Some u) (Some v) = Some (lie t u v)" if "n_type (t ! u) = NODE_BRANCH"
    using that d(1) l n by (auto simp: path_get_switch_config_def lie_def)
  show "track_node_dist t (Some u) (Some v) = Some (hop t u v)"
    using c d l n by (auto simp: track_node_dist_def hop_def lie_def agetz_in)
qed

lemma route_steps: "route sel t xs k \<Longrightarrow> i + 1 < length xs \<Longrightarrow> step_ok t (xs ! i) (xs ! (i + 1))"
proof (induction rule: route.induct)
  case (route_snoc xs s s' v)
  show ?case
  proof (cases "i + 1 < length xs")
    case True
    then show ?thesis using route_snoc.IH by (simp add: nth_append)
  next
    case False
    then have i: "i + 1 = length xs" using route_snoc.prems by simp
    then have "last xs = xs ! i" by (cases xs rule: rev_cases) (auto simp: nth_append)
    then show ?thesis using i route_snoc.hyps(2) by (auto simp: nth_append step_ok_def picks_def)
  qed
qed simp

lemma look_size: "length (look t dist d xs) \<le> length xs"
  by (induction t dist d xs rule: look.induct) auto

lemma switches_loop_ok:
  assumes wf: "wf_track (p_track p)" "cb_wf TRACK_MAX (p_ahead p)"
  shows "p_list (p_ahead p) = map Some (pre @ vs) \<Longrightarrow> cb_wf TRACK_MAX cfgs \<Longrightarrow> length (cb_list TRACK_MAX cfgs) + length vs \<le> TRACK_MAX \<Longrightarrow>
    \<forall>i. i < length vs \<longrightarrow> step_ok (p_track p) ((u # vs) ! i) (vs ! i) \<Longrightarrow>
    \<exists>cfgs'. path_switches_loop p dist (length pre) d (Some u) cfgs = Some cfgs' \<and> cb_wf TRACK_MAX cfgs' \<and>
      cb_list TRACK_MAX cfgs' = cb_list TRACK_MAX cfgs @
        map (\<lambda>x. config_for x (p_track p)) (filter (is_switch (p_track p)) (look (p_track p) dist d (u # vs)))"
proof (induction vs arbitrary: pre u d cfgs)
  case Nil
  then have "unat (cb_size (p_ahead p)) = length pre" by (metis append_Nil2 length_cb_list length_map p_list_def)
  then show ?case using Nil by (subst path_switches_loop.simps) simp
next
  case (Cons v vs)
  let ?t = "p_track p"
  have sz: "length pre < unat (cb_size (p_ahead p))" using arg_cong [OF Cons.prems(1), of length] by (simp add: p_list_def)
  have get: "cb_get TRACK_MAX (int (length pre)) (p_ahead p) = Some (CB_E_NONE, Some (Some v))"
    using cb_get_nth [OF wf(2), of "length pre", folded p_list_def] sz unfolding Cons.prems(1) by (simp add: nth_append)
  have "step_ok ?t u v" using Cons.prems(4) [rule_format, of 0] by simp
  note F = step_facts [OF wf(1) this]
  obtain c where c: "(if n_type (?t ! u) = NODE_BRANCH then do {
                   dir \<leftarrow> path_get_switch_config ?t (Some u) (Some v);
                   (_, c) \<leftarrow> cb_push TRACK_MAX \<lparr>sc_sw = Some u, sc_state_required = dir\<rparr> cfgs;
                   Some c }
                 else Some cfgs) = Some c" "cb_wf TRACK_MAX c"
     "cb_list TRACK_MAX c = cb_list TRACK_MAX cfgs @ map (\<lambda>x. config_for x ?t) (filter (is_switch ?t) [(u, v)])"
  proof (cases "n_type (?t ! u) = NODE_BRANCH")
    case True
    have "length (cb_list TRACK_MAX cfgs) < TRACK_MAX" using Cons.prems(3) by simp
    from cbq.push_room [OF Cons.prems(2) this, of "\<lparr>sc_sw = Some u, sc_state_required = lie ?t u v\<rparr>"] show thesis
      using that True F(3) by auto
  next
    case False
    then show thesis using that Cons.prems(2) by simp
  qed
  have unf: "path_switches_loop p dist (length pre) d (Some u) cfgs =
      (if dist \<le> d + hop ?t u v then Some c else path_switches_loop p dist (length (pre @ [v])) (d + hop ?t u v) (Some v) c)"
    using sz get F(1,2) c(1) by (subst path_switches_loop.simps) (simp add: Let_def)
  show ?case
  proof (cases "dist \<le> d + hop ?t u v")
    case True
    then show ?thesis using unf c(2,3) by simp
  next
    case False
    have "length (cb_list TRACK_MAX c) \<le> length (cb_list TRACK_MAX cfgs) + 1" unfolding c(3) by simp
    then have cap: "length (cb_list TRACK_MAX c) + length vs \<le> TRACK_MAX" using Cons.prems(3) by simp
    have pl: "p_list (p_ahead p) = map Some ((pre @ [v]) @ vs)" using Cons.prems(1) by simp
    have st: "\<forall>i. i < length vs \<longrightarrow> step_ok ?t ((v # vs) ! i) (vs ! i)"
    proof (intro allI impI)
      fix i assume "i < length vs"
      then show "step_ok ?t ((v # vs) ! i) (vs ! i)" using Cons.prems(4) [rule_format, of "Suc i"] by simp
    qed
    from Cons.IH [OF pl c(2) cap st, of "d + hop ?t u v"] obtain cfgs' where
      "path_switches_loop p dist (length (pre @ [v])) (d + hop ?t u v) (Some v) c = Some cfgs'" "cb_wf TRACK_MAX cfgs'"
      "cb_list TRACK_MAX cfgs' = cb_list TRACK_MAX c @
        map (\<lambda>x. config_for x ?t) (filter (is_switch ?t) (look ?t dist (d + hop ?t u v) (v # vs)))"
      by blast
    then show ?thesis using unf False c(3) by simp
  qed
qed

lemma flips_ok:
  assumes "wf_track t"
  shows "cb_wf TRACK_MAX cfgs \<Longrightarrow> cb_list TRACK_MAX cfgs = map (\<lambda>x. config_for x t) xs \<Longrightarrow> \<forall>(u, v) \<in> set xs. u < TRACK_MAX \<Longrightarrow>
    driver_flips t cfgs = Some (map (flip_for t) xs)"
proof (induction xs arbitrary: cfgs)
  case Nil
  have "cb_size cfgs = 0" using Nil.prems(2) cb_list_empty_iff [of TRACK_MAX cfgs] by simp
  then show ?case by (subst driver_flips.simps) simp
next
  case (Cons x xs)
  obtain u v where x: "x = (u, v)" "u < TRACK_MAX" using Cons.prems(3) by (cases x) auto
  from cbq.pop_some [OF Cons.prems(1)] Cons.prems(2) obtain q where
    q: "cb_pop TRACK_MAX cfgs = Some (CB_E_NONE, Some (config_for x t), q)" "cb_wf TRACK_MAX q" "cb_list TRACK_MAX q = map (\<lambda>x. config_for x t) xs"
    by auto
  have "cb_size cfgs \<noteq> 0" using Cons.prems(2) cb_list_empty_iff [of TRACK_MAX cfgs] by simp
  moreover have "FlipSwitch t (config_for x t) = Some (flip_for t x)"
    using assms x by (auto simp: FlipSwitch_def flip_for_def lie_def)
  ultimately show ?case using Cons.IH [OF q(2,3)] Cons.prems(3) q(1) unfolding driver_flips.simps [of t cfgs]
    by (simp add: word_gt_0)
qed

lemma look_steps: "(a, b) \<in> set (look t dist d xs) \<Longrightarrow> \<exists>i. i + 1 < length xs \<and> a = xs ! i \<and> b = xs ! (i + 1)"
proof (induction t dist d xs rule: look.induct)
  case (1 t dist d u v vs)
  show ?case
  proof (cases "(a, b) = (u, v)")
    case True
    then show ?thesis by (intro exI [of _ 0]) simp
  next
    case False
    then have "\<not> dist \<le> d + hop t u v" "(a, b) \<in> set (look t dist (d + hop t u v) (v # vs))"
      using "1.prems" by (auto split: if_splits)
    from "1.IH" [OF this] obtain i where "i + 1 < length (v # vs)" "a = (v # vs) ! i" "b = (v # vs) ! (i + 1)" by blast
    then show ?thesis by (intro exI [of _ "i + 1"]) simp
  qed
qed simp_all

lemma driver_switches_ok:
  assumes "wf_track t" "p_track p = t" "cb_wf TRACK_MAX (p_ahead p)" "p_list (p_ahead p) = map Some vs" "p_current p = Some u"
    "route sel t (u # vs) k" "length vs \<le> TRACK_MAX" "length (cb_buf cfgs0) = TRACK_MAX"
  shows "driver_switches cfgs0 t p = Some (map (flip_for t) (filter (is_switch t) (look t 1000 0 (u # vs))))"
proof -
  have steps: "\<forall>i. i < length vs \<longrightarrow> step_ok t ((u # vs) ! i) (vs ! i)"
    using route_steps [OF assms(6)] by auto
  have w: "cb_wf TRACK_MAX (cb_init cfgs0)" using assms(8) by (intro cb_init_wf) simp_all
  obtain cfgs where c: "path_switches_loop p 1000 0 0 (Some u) (cb_init cfgs0) = Some cfgs" "cb_wf TRACK_MAX cfgs"
    "cb_list TRACK_MAX cfgs = map (\<lambda>x. config_for x t) (filter (is_switch t) (look t 1000 0 (u # vs)))"
    using switches_loop_ok [of p "[]" vs "cb_init cfgs0" u 1000 0] assms(1-4,7) w steps by auto
  have "\<forall>(a, b) \<in> set (filter (is_switch t) (look t 1000 0 (u # vs))). a < TRACK_MAX"
  proof clarify
    fix a b assume "(a, b) \<in> set (filter (is_switch t) (look t 1000 0 (u # vs)))"
    then obtain i where "i + 1 < length (u # vs)" "a = (u # vs) ! i" "b = (u # vs) ! (i + 1)"
      using look_steps [of a b t 1000 0 "u # vs"] by auto
    then have "step_ok t a b" using route_steps [OF assms(6)] by simp
    then show "a < TRACK_MAX" using exitsD(1) [OF assms(1)] by (auto simp: step_ok_def)
  qed
  from flips_ok [OF assms(1) c(2,3) this] show ?thesis
    using c(1) assms(5) by (simp add: driver_switches_def path_switches_in_next_dist_def)
qed

section \<open>The plan\<close>

text \<open>After \<^verbatim>\<open>path_start\<close> the train is at the head of the route and the rest of it is ahead.\<close>

lemma path_started:
  assumes "p_start p = Some u" "p_end p = Some w" "p_current p = None" "p_list (p_behind p) = []" "cb_wf TRACK_MAX (p_behind p)"
    "cb_wf TRACK_MAX (p_ahead p)" "p_list (p_ahead p) = map Some (u # vs)" "length (u # vs) \<le> TRACK_MAX"
  shows "\<exists>p'. path_start p (Some u) = Some p' \<and> p_current p' = Some u \<and> p_list (p_ahead p') = map Some vs \<and> p_track p' = p_track p \<and>
    cb_wf TRACK_MAX (p_ahead p')"
proof -
  let ?p = "p\<lparr>p_active := True\<rparr>"
  have "path_wf ?p" using assms by (auto simp: path_wf_def trail_def)
  from follow_keeps_trail [OF this, of "Some u"] obtain r p' where
    p': "path_follow_to ?p (Some u) = Some (r, p')" "path_wf p'" "p_track p' = p_track p" "p_current p' = Some u"
      "\<exists>ys. map Some (u # vs) = ys @ Some u # p_list (p_ahead p') \<and> Some u \<notin> set ys"
    using assms(7) by auto
  then obtain ys where ys: "map Some (u # vs) = ys @ Some u # p_list (p_ahead p')" "Some u \<notin> set ys" by blast
  then have "ys = []" by (cases ys) auto
  then have "p_list (p_ahead p') = map Some vs" using ys(1) by simp
  then show ?thesis using p' assms(1,2) by (auto simp: path_start_def path_wf_def)
qed

lemma lie_leads:
  assumes "wf_track t" "step_ok t u v"
  shows "e_dest (n_edge (t ! u) ! nat (lie t u v)) = Some v"
proof -
  obtain d k where e: "exits t u d k v" using assms(2) by (auto simp: step_ok_def)
  then have "d < 2" using n_edges_le [of "n_type (t ! u)"] by (auto simp: exits_def)
  then show ?thesis using e by (auto simp: exits_def lie_def less_Suc_eq numeral_2_eq_2)
qed

text \<open>C18: The first update that a driver gets, for a train at one node that is to go to another, never faults on either track. If
  a route is left that takes a switch that does not obey as it lies, the driver has such a route, no node twice, with the train
  at its head; and it commands exactly the switches on the route's next metre, in order, each so that it leads to the
  route's next node. Otherwise it commands nothing and will plan again.\<close>

theorem driver_first_update:
  assumes "build t track" "length sw = SWITCH_SIZE" "path_memory (td_p tr) q" "length (cb_buf cfgs0) = TRACK_MAX"
    "td_pos tr = None" "pe_pos (tr_curr_pos raw) = Some sid" "sid < TRACK_MAX" "n_type (t ! sid) \<noteq> NODE_NONE" "did < TRACK_MAX"
    "sid \<noteq> did"
  shows "\<exists>os tr'. HandleTrainUpdate ask q cfgs0 sw t (Some did) raw tr rm = Some (False, os, tr', rm) \<and>
    ((\<nexists>xs k. route (driver_edges sw) t xs k \<and> hd xs = sid \<and> last xs = did) \<and> os = [] \<and> td_pos tr' = None \<or>
     (\<exists>xs k. route (driver_edges sw) t xs k \<and> hd xs = sid \<and> last xs = did \<and> distinct xs \<and> td_pos tr' = Some sid \<and>
        p_current (td_p tr') = Some sid \<and> p_list (p_ahead (td_p tr')) = map Some (tl xs) \<and>
        os = map (flip_for t) (filter (is_switch t) (look t 1000 0 xs)) \<and>
        (\<forall>(u, v) \<in> set (look t 1000 0 xs). e_dest (n_edge (t ! u) ! nat (lie t u v)) = Some v)))"
proof -
  have wf: "wf_track t" using build_wf [OF assms(1)] by simp
  obtain r p where g: "driver_generate_path q sw (path_set_destination (path_init (td_p tr) t) (Some sid) (Some did)) = Some (r, p)"
    "if r < 0 then \<nexists>xs k. route (driver_edges sw) t xs k \<and> hd xs = sid \<and> last xs = did
     else p_track p = t \<and> p_start p = Some sid \<and> p_end p = Some did \<and> p_current p = None \<and> p_list (p_behind p) = [] \<and>
       cb_wf TRACK_MAX (p_behind p) \<and> cb_wf TRACK_MAX (p_ahead p) \<and>
       (\<exists>xs k. route (driver_edges sw) t xs k \<and> hd xs = sid \<and> last xs = did \<and> distinct xs \<and> length xs \<le> TRACK_MAX \<and>
         2 \<le> length xs \<and> p_list (p_ahead p) = map Some xs)"
    using driver_generates [OF assms(1-3,7-10)] by blast
  show ?thesis
  proof (cases "r < 0")
    case True
    then show ?thesis using g assms(5,6) by (auto simp: HandleTrainUpdate_def driver_plan_def Let_def)
  next
    case False
    then obtain xs k where xs: "route (driver_edges sw) t xs k" "hd xs = sid" "last xs = did" "distinct xs" "length xs \<le> TRACK_MAX"
      "2 \<le> length xs" "p_list (p_ahead p) = map Some xs" and p: "p_track p = t" "p_start p = Some sid" "p_end p = Some did"
      "p_current p = None" "p_list (p_behind p) = []" "cb_wf TRACK_MAX (p_behind p)" "cb_wf TRACK_MAX (p_ahead p)"
      using g(2) by auto
    obtain vs where vs: "xs = sid # vs" using xs(2,6) by (cases xs) auto
    obtain p' where p': "path_start p (Some sid) = Some p'" "p_current p' = Some sid" "p_list (p_ahead p') = map Some vs"
      "p_track p' = t" "cb_wf TRACK_MAX (p_ahead p')"
      using path_started [OF p(2-7), of vs] xs(5,7) p(1) vs by auto
    have sws: "driver_switches cfgs0 t p' = Some (map (flip_for t) (filter (is_switch t) (look t 1000 0 xs)))"
      using driver_switches_ok [OF wf p'(4,5,3,2) _ _ assms(4)] xs(1,5) vs by simp
    have leads: "\<forall>(u, v) \<in> set (look t 1000 0 xs). e_dest (n_edge (t ! u) ! nat (lie t u v)) = Some v"
      using look_steps route_steps [OF xs(1)] lie_leads [OF wf] by fastforce
    have h: "HandleTrainUpdate ask q cfgs0 sw t (Some did) raw tr rm =
        Some (False, map (flip_for t) (filter (is_switch t) (look t 1000 0 xs)), tr\<lparr>td_update_ui := True, td_pos := Some sid, td_p := p'\<rparr>, rm)"
      using g(1) False p'(1) sws assms(5,6) by (simp add: HandleTrainUpdate_def driver_plan_def Let_def)
    have tl: "tl xs = vs" using vs by simp
    show ?thesis
      by (intro exI, rule conjI [OF h], rule disjI2, rule exI [of _ xs], rule exI [of _ k], intro conjI)
        (use xs(1-4) p'(2,3) leads tl in simp_all)
  qed
qed

text \<open>A driver of train 78 that is at A1 of track A and is to go to C13.\<close>

definition blank_path :: path where
  "blank_path = \<lparr>p_active = False, p_ready = False, p_done = False, p_path_len = 0, p_track = [], p_start = None,
     p_end = None, p_current = None, p_ahead = blank_cb TRACK_MAX None, p_behind = blank_cb TRACK_MAX None, p_pred = replicate TRACK_MAX 0\<rparr>"

definition raw_at :: "nat \<Rightarrow> train" where
  "raw_at i = blank_train\<lparr>tr_num := 78, tr_curr_pos := \<lparr>pe_pos = Some i, pe_dir = 0, pe_off = 0, pe_ts = 0\<rparr>\<rparr>"

theorem driver_first_update_witness:
  "\<exists>os tr'. HandleTrainUpdate (\<lambda>_ _. None) tq_new (blank_cb TRACK_MAX \<lparr>sc_sw = None, sc_state_required = 0\<rparr>)
     (replicate SWITCH_SIZE \<lparr>swi_state = 0, swi_conf = 50\<rparr>) tracka_nodes (Some 44) (raw_at 0) (TDTrainInit tracka_nodes blank_path 78 10) () =
       Some (False, os, tr', ())"
proof -
  let ?tr = "TDTrainInit tracka_nodes blank_path 78 10"
  have m: "path_memory (td_p ?tr) tq_new"
    by (simp add: path_memory_def TDTrainInit_def path_init_def blank_path_def blank_cb_def cb_init_def tq_new_def)
  have b: "build tracka_nodes 1" by (simp add: build_def)
  have n: "n_type (tracka_nodes ! 0) \<noteq> NODE_NONE" using tracka_sensors [of 0] by simp
  have c: "length (cb_buf (blank_cb TRACK_MAX \<lparr>sc_sw = None, sc_state_required = 0\<rparr>)) = TRACK_MAX" by (simp add: blank_cb_def)
  have t: "td_pos ?tr = None" "pe_pos (tr_curr_pos (raw_at 0)) = Some 0" by (simp_all add: TDTrainInit_def raw_at_def)
  have k: "(0::nat) < TRACK_MAX" "(44::nat) < TRACK_MAX" "(0::nat) \<noteq> 44" by simp_all
  note D = driver_first_update [OF b length_replicate m c t k(1) n k(2,3), of "\<lambda>_ _. None" "\<lparr>swi_state = 0, swi_conf = 50\<rparr>" "()"]
  show ?thesis using D by (elim exE conjE) (intro exI)
qed

section \<open>Where the driver fails\<close>

text \<open>A driver whose train stands at the destination stops the program: \<^verbatim>\<open>generate_path\<close> asserts that start and end differ.\<close>

theorem driver_at_end_faults:
  assumes "td_pos tr = None" "pe_pos (tr_curr_pos raw) = Some did"
  shows "HandleTrainUpdate ask q cfgs0 sw t (Some did) raw tr rm = None"
  using assms by (simp add: HandleTrainUpdate_def driver_plan_def driver_generate_path_def path_generate_with_def
      path_set_destination_def kassert_def)

text \<open>When the track ahead is refused, the driver stops the train, waits, and sets off again without asking again: the last command of
  the update, unless it is to slow down for the end, is speed 8.\<close>

theorem driver_resumes_unreserved:
  assumes "ask (AskReserve (td_num tr) (td_pos tr) (d + 100)) rm = Some (r, rm')" "r \<noteq> 0"
  shows "driver_reserve ask tr d rm = Some ([DrvReserve (td_num tr) (td_pos tr) (d + 100), TrainCmd (td_num tr) 0, DrvDelay 500,
    TrainCmd (td_num tr) 8], rm')"
  using assms by (simp add: driver_reserve_def)

end
