(* ===== verification/Terminal.thy ===== *)
theory Terminal
  imports CircBuf BufferPack
begin

text \<open>
  The terminal, lib/terminal.c: windows on a screen, each with its own cursor and the task it belongs to, and
  the bytes that are to be sent to the screen. A \<^verbatim>\<open>TWindow *\<close> is the index of the window. Coordinates are
  C's \<^verbatim>\<open>int\<close> without its bounds; the initial contents of the display are an argument where the code leaves
  memory as it is. The characters are \<^verbatim>\<open>\033\<close> (27), the brackets and letters of the escape sequences, and the
  bytes of the box-drawing strings.
\<close>

section \<open>The display\<close>

abbreviation MAX_WINDOWS :: nat where "MAX_WINDOWS \<equiv> 128"
abbreviation MAX_WINDOW_TASK :: nat where "MAX_WINDOW_TASK \<equiv> 128"
abbreviation TERMINAL_BUFFER_SIZE :: nat where "TERMINAL_BUFFER_SIZE \<equiv> 4096"

(* src/include/lib/terminal.h:31-34 *)
record TCursor =
  tc_x :: int
  tc_y :: int

(* src/include/lib/terminal.h:36-44 *)
record TWindow =
  tw_wid :: int
  tw_cur :: TCursor
  tw_offsetx :: int
  tw_offsety :: int
  tw_w :: int
  tw_h :: int
  tw_tid :: int

(* src/include/lib/terminal.h:46-56 *)
record TDisplay =
  dp_cur :: TCursor
  dp_buffer :: "u8 cbuf"
  dp_avail_wids :: "int cbuf"
  dp_windows :: "TWindow list"
  dp_task_window :: "int list"
  dp_active_windows :: "bool list"
  dp_num_active_windows :: int
  dp_focused_window :: "nat option"
  dp_active_task :: int

text \<open>\<^verbatim>\<open>TID_ID(tid)\<close>, and its value as a \<^verbatim>\<open>short\<close>.\<close>

definition tid_id :: "int \<Rightarrow> int" where
  "tid_id tid = tid mod 65536"

definition short_id :: "int \<Rightarrow> int" where
  "short_id tid = (if tid_id tid < 32768 then tid_id tid else tid_id tid - 65536)"

definition TERM_TOP_R :: "u8 list" where "TERM_TOP_R = [226, 148, 147, 0]"
definition TERM_TOP_L :: "u8 list" where "TERM_TOP_L = [226, 148, 143, 0]"
definition TERM_BOT_R :: "u8 list" where "TERM_BOT_R = [226, 148, 155, 0]"
definition TERM_BOT_L :: "u8 list" where "TERM_BOT_L = [226, 148, 151, 0]"
definition TERM_HOR :: "u8 list" where "TERM_HOR = [226, 148, 129, 0]"
definition TERM_VER :: "u8 list" where "TERM_VER = [226, 148, 131, 0]"

section \<open>Bytes for the screen\<close>

definition tdisp_put :: "u8 \<Rightarrow> u8 cbuf \<Rightarrow> u8 cbuf option" where
  "tdisp_put c buf = do { (_, buf) \<leftarrow> cb_push TERMINAL_BUFFER_SIZE c buf; Some buf }"

(* src/src/lib/terminal.c:6-9 *)
fun tdisp_cb_pushstr :: "u8 list \<Rightarrow> u8 cbuf \<Rightarrow> u8 cbuf option" where
  "tdisp_cb_pushstr [] buf = None"
| "tdisp_cb_pushstr (c # str) buf =
     (if c \<noteq> 0 then do { buf \<leftarrow> tdisp_put c buf; tdisp_cb_pushstr str buf } else Some buf)"

(* src/src/lib/terminal.c:20-29 *)
function push_digits :: "nat \<Rightarrow> u32 \<Rightarrow> u32 \<Rightarrow> u8 cbuf \<Rightarrow> (nat \<times> u8 cbuf) option" where
  "push_digits n i d buf =
     (if d = 0 then Some (n, buf)
      else
        let dgt = i div d; i' = i mod d; d' = d div 10 in
        if 0 < n \<or> 0 < sint dgt \<or> d' = 0
        then do { buf \<leftarrow> tdisp_put (digit_char dgt) buf; push_digits (Suc n) i' d' buf }
        else push_digits n i' d' buf)"
  by pat_completeness auto
termination
  by (relation "measure (\<lambda>(n, i, d, buf). unat d)") (auto simp: unat_div_distrib word_greater_zero_iff unat_gt_0)

declare push_digits.simps [simp del]

text \<open>The result is the number of digits and the buffer. The first loop is that of \<^verbatim>\<open>buf_pack_ui32\<close>.\<close>

(* src/src/lib/terminal.c:11-31 *)
definition tdisp_cb_pushui32 :: "int \<Rightarrow> u8 cbuf \<Rightarrow> (nat \<times> u8 cbuf) option" where
  "tdisp_cb_pushui32 i buf = do {
     d \<leftarrow> bp_scale (word_of_int i) 10 1;
     push_digits 0 (word_of_int i) d buf }"

section \<open>Windows\<close>

(* src/src/lib/terminal.c:33-36 *)
definition tcursor_init :: "int \<Rightarrow> int \<Rightarrow> TCursor" where
  "tcursor_init x y = \<lparr>tc_x = x, tc_y = y\<rparr>"

(* src/src/lib/terminal.c:38-46 *)
definition twindow_init :: "int \<Rightarrow> int \<Rightarrow> int \<Rightarrow> int \<Rightarrow> int \<Rightarrow> int \<Rightarrow> TWindow" where
  "twindow_init wid x y w h tid =
     \<lparr>tw_wid = wid, tw_cur = tcursor_init 1 1, tw_offsetx = x, tw_offsety = y, tw_w = w, tw_h = h, tw_tid = tid\<rparr>"

(* src/src/lib/terminal.c:57-61 *)
fun tdisp_init_loop :: "nat \<Rightarrow> nat \<Rightarrow> TDisplay \<Rightarrow> TDisplay option" where
  "tdisp_init_loop i 0 td = Some td"
| "tdisp_init_loop i (Suc n) td = do {
     ws \<leftarrow> aset (dp_windows td) i (twindow_init (- 1) (- 1) (- 1) (- 1) (- 1) (- 1));
     as \<leftarrow> aset (dp_active_windows td) i False;
     (_, q) \<leftarrow> cb_push MAX_WINDOWS (int i) (dp_avail_wids td);
     tdisp_init_loop (Suc i) n (td\<lparr>dp_windows := ws, dp_active_windows := as, dp_avail_wids := q\<rparr>) }"

text \<open>\<^verbatim>\<open>task_window\<close> is not written.\<close>

(* src/src/lib/terminal.c:48-62 *)
definition tdisp_init :: "TDisplay \<Rightarrow> TDisplay option" where
  "tdisp_init td = tdisp_init_loop 0 MAX_WINDOWS
     (td\<lparr>dp_num_active_windows := 0, dp_focused_window := None, dp_active_task := - 1, dp_cur := tcursor_init (- 1) (- 1),
        dp_buffer := cb_init (dp_buffer td), dp_avail_wids := cb_init (dp_avail_wids td)\<rparr>)"

(* src/src/lib/terminal.c:65-72 *)
definition tdisp_pop :: "TDisplay \<Rightarrow> (u8 \<times> TDisplay) option" where
  "tdisp_pop td = do {
     (r, c, q) \<leftarrow> cb_pop TERMINAL_BUFFER_SIZE (dp_buffer td);
     kassert (r = CB_E_NONE);
     c \<leftarrow> c;
     Some (c, td\<lparr>dp_buffer := q\<rparr>) }"

text \<open>\<^verbatim>\<open>td->focused_window\<close>, dereferenced.\<close>

definition focused :: "TDisplay \<Rightarrow> TWindow option" where
  "focused td = do { f \<leftarrow> dp_focused_window td; aget (dp_windows td) f }"

definition set_focused :: "(TWindow \<Rightarrow> TWindow) \<Rightarrow> TDisplay \<Rightarrow> TDisplay option" where
  "set_focused g td = do {
     f \<leftarrow> dp_focused_window td;
     w \<leftarrow> aget (dp_windows td) f;
     Some (td\<lparr>dp_windows := (dp_windows td)[f := g w]\<rparr>) }"

(* src/src/lib/terminal.c:119-125 *)
definition push_cursor :: "int \<Rightarrow> int \<Rightarrow> u8 cbuf \<Rightarrow> u8 cbuf option" where
  "push_cursor x y buf = do {
     buf \<leftarrow> tdisp_put 27 buf;
     buf \<leftarrow> tdisp_put 91 buf;
     (_, buf) \<leftarrow> tdisp_cb_pushui32 y buf;
     buf \<leftarrow> tdisp_put 59 buf;
     (_, buf) \<leftarrow> tdisp_cb_pushui32 x buf;
     (ret, buf) \<leftarrow> cb_push TERMINAL_BUFFER_SIZE 72 buf;
     kassert (ret = CB_E_NONE);
     Some buf }"

text \<open>The argument \<^verbatim>\<open>wrap\<close> is not used.\<close>

(* src/src/lib/terminal.c:75-130 *)
definition tdisp_set_cursor :: "int \<Rightarrow> int \<Rightarrow> TDisplay \<Rightarrow> TDisplay option" where
  "tdisp_set_cursor x y td = do {
     w \<leftarrow> focused td;
     let x = x + tw_offsetx w;
     let y = y + tw_offsety w;
     buf \<leftarrow> (if tc_x (dp_cur td) \<noteq> x \<or> tc_y (dp_cur td) \<noteq> y then push_cursor x y (dp_buffer td)
            else Some (dp_buffer td));
     Some (td\<lparr>dp_buffer := buf, dp_cur := \<lparr>tc_x = x, tc_y = y\<rparr>\<rparr>) }"

(* src/src/lib/terminal.c:133-137 *)
definition tdisp_reset_cursor :: "TDisplay \<Rightarrow> TDisplay option" where
  "tdisp_reset_cursor td = do {
     w \<leftarrow> focused td;
     tdisp_set_cursor (tc_x (tw_cur w)) (tc_y (tw_cur w)) td }"

text \<open>The address of a window is computed without a check of the index.\<close>

(* src/src/lib/terminal.c:139-141 *)
definition tdisp_set_active_window :: "int \<Rightarrow> TDisplay \<Rightarrow> TDisplay option" where
  "tdisp_set_active_window wid td =
     (if 0 \<le> wid then Some (td\<lparr>dp_focused_window := Some (nat wid)\<rparr>) else None)"

definition tdisp_char :: "u8 \<Rightarrow> TDisplay \<Rightarrow> TDisplay option" where
  "tdisp_char c td = do { buf \<leftarrow> tdisp_put c (dp_buffer td); Some (td\<lparr>dp_buffer := buf\<rparr>) }"

definition tdisp_str :: "u8 list \<Rightarrow> TDisplay \<Rightarrow> TDisplay option" where
  "tdisp_str s td = do { buf \<leftarrow> tdisp_cb_pushstr s (dp_buffer td); Some (td\<lparr>dp_buffer := buf\<rparr>) }"

(* src/src/lib/terminal.c:161-162 *)
fun tdisp_strs :: "nat \<Rightarrow> u8 list \<Rightarrow> TDisplay \<Rightarrow> TDisplay option" where
  "tdisp_strs 0 s td = Some td"
| "tdisp_strs (Suc n) s td = do { td \<leftarrow> tdisp_str s td; tdisp_strs n s td }"

text \<open>A row of the outline: the first with the tid of the window's task, the last, or one between them.\<close>

(* src/src/lib/terminal.c:152-175 *)
definition outline_row :: "int \<Rightarrow> TWindow \<Rightarrow> TDisplay \<Rightarrow> TDisplay option" where
  "outline_row i window td =
     (let w = tw_w window; h = tw_h window in
      if i = 0 \<or> i = h then do {
        td \<leftarrow> tdisp_set_cursor 0 i td;
        td \<leftarrow> tdisp_str (if i = 0 then TERM_TOP_L else TERM_BOT_L) td;
        (n, td) \<leftarrow> (if i = 0 then do {
                     (n, buf) \<leftarrow> tdisp_cb_pushui32 (if tw_tid window = - 1 then 0 else tw_tid window) (dp_buffer td);
                     Some (int n, td\<lparr>dp_buffer := buf\<rparr>) }
                   else Some (0, td));
        td \<leftarrow> tdisp_strs (nat (w - 2 - n)) TERM_HOR td;
        tdisp_str (if i = 0 then TERM_TOP_R else TERM_BOT_R) td }
      else do {
        td \<leftarrow> tdisp_set_cursor 0 i td;
        td \<leftarrow> tdisp_str TERM_VER td;
        td \<leftarrow> tdisp_set_cursor (w - 1) i td;
        tdisp_str TERM_VER td })"

(* src/src/lib/terminal.c:151-176 *)
fun outline_rows :: "int \<Rightarrow> nat \<Rightarrow> TWindow \<Rightarrow> TDisplay \<Rightarrow> TDisplay option" where
  "outline_rows i 0 window td = Some td"
| "outline_rows i (Suc n) window td = do { td \<leftarrow> outline_row i window td; outline_rows (i + 1) n window td }"

(* src/src/lib/terminal.c:143-177 *)
definition tdisp_draw_window_outline :: "TDisplay \<Rightarrow> TDisplay option" where
  "tdisp_draw_window_outline td = do {
     window \<leftarrow> focused td;
     outline_rows 0 (nat (tw_h window + 1)) window td }"

(* src/src/lib/terminal.c:189-191 *)
fun tdisp_spaces :: "nat \<Rightarrow> TDisplay \<Rightarrow> TDisplay option" where
  "tdisp_spaces 0 td = Some td"
| "tdisp_spaces (Suc n) td = do { td \<leftarrow> tdisp_char 32 td; tdisp_spaces n td }"

(* src/src/lib/terminal.c:187-192 *)
fun clear_rows :: "int \<Rightarrow> int \<Rightarrow> nat \<Rightarrow> nat \<Rightarrow> TDisplay \<Rightarrow> TDisplay option" where
  "clear_rows x i 0 width td = Some td"
| "clear_rows x i (Suc n) width td = do {
     td \<leftarrow> tdisp_set_cursor x i td;
     td \<leftarrow> tdisp_spaces width td;
     clear_rows x (i + 1) n width td }"

(* src/src/lib/terminal.c:179-193 *)
definition tdisp_clear_window :: "TDisplay \<Rightarrow> TDisplay option" where
  "tdisp_clear_window td = do {
     window \<leftarrow> focused td;
     clear_rows 1 1 (nat (tw_h window - 1)) (nat (tw_w window - 2)) td }"

(* src/src/lib/terminal.c:195-209 *)
definition tdisp_clear_whole_window :: "TDisplay \<Rightarrow> TDisplay option" where
  "tdisp_clear_whole_window td = do {
     window \<leftarrow> focused td;
     clear_rows 0 0 (nat (tw_h window + 1)) (nat (tw_w window)) td }"

text \<open>The result: the window id, and the display. The window with index \<open>MAX_WINDOWS\<close>, which the assertion lets
  through, is out of the array.\<close>

(* src/src/lib/terminal.c:211-233 *)
definition tdisp_add_window :: "int \<Rightarrow> int \<Rightarrow> int \<Rightarrow> int \<Rightarrow> int \<Rightarrow> TDisplay \<Rightarrow> (int \<times> TDisplay) option" where
  "tdisp_add_window x y w h tid td =
     (let id = short_id tid in
      if cb_size (dp_avail_wids td) < 1 \<or> id < 0 \<or> int MAX_WINDOW_TASK - 1 < id then Some (- 1, td)
      else do {
        (r, wid, q) \<leftarrow> cb_pop MAX_WINDOWS (dp_avail_wids td);
        kassert (r = CB_E_NONE);
        wid \<leftarrow> wid;
        kassert (0 \<le> wid \<and> wid \<le> int MAX_WINDOWS);
        as \<leftarrow> asetz (dp_active_windows td) wid True;
        tw \<leftarrow> asetz (dp_task_window td) (tid_id tid) wid;
        ws \<leftarrow> asetz (dp_windows td) wid (twindow_init wid x y w h tid);
        td \<leftarrow> tdisp_set_active_window wid
          (td\<lparr>dp_avail_wids := q, dp_active_windows := as, dp_task_window := tw, dp_windows := ws\<rparr>);
        td \<leftarrow> tdisp_draw_window_outline td;
        td \<leftarrow> tdisp_reset_cursor td;
        Some (wid, td) })"

(* src/src/lib/terminal.c:235-243 *)
definition tdisp_focus_window :: "int \<Rightarrow> TDisplay \<Rightarrow> TDisplay option" where
  "tdisp_focus_window wid td = do {
     a \<leftarrow> agetz (dp_active_windows td) wid;
     if \<not> a then Some td
     else tdisp_reset_cursor (td\<lparr>dp_focused_window := Some (nat wid)\<rparr>) }"

text \<open>The index is the tid, not its id.\<close>

(* src/src/lib/terminal.c:245-249 *)
definition tdisp_set_active_task :: "int \<Rightarrow> TDisplay \<Rightarrow> TDisplay option" where
  "tdisp_set_active_task tid td = do {
     let td = td\<lparr>dp_active_task := tid\<rparr>;
     wid \<leftarrow> agetz (dp_task_window td) tid;
     kassert (wid \<noteq> - 1);
     tdisp_focus_window wid td }"

(* src/src/lib/terminal.c:269-274 *)
fun focus_first :: "nat \<Rightarrow> nat \<Rightarrow> TDisplay \<Rightarrow> TDisplay option" where
  "focus_first i 0 td = Some td"
| "focus_first i (Suc n) td = do {
     a \<leftarrow> aget (dp_active_windows td) i;
     if a then tdisp_focus_window (int i) td else focus_first (Suc i) n td }"

(* src/src/lib/terminal.c:251-275 *)
definition tdisp_delete_window :: "TDisplay \<Rightarrow> TDisplay option" where
  "tdisp_delete_window td = do {
     fwindow \<leftarrow> focused td;
     let wid = tw_wid fwindow;
     td \<leftarrow> tdisp_clear_whole_window td;
     as \<leftarrow> asetz (dp_active_windows td) wid False;
     tw \<leftarrow> asetz (dp_task_window td) (tid_id (tw_tid fwindow)) (- 1);
     (r, q) \<leftarrow> cb_push MAX_WINDOWS wid (dp_avail_wids td);
     kassert (r = CB_E_NONE);
     let td = td\<lparr>dp_active_windows := as, dp_task_window := tw, dp_avail_wids := q, dp_focused_window := None,
       dp_active_task := (if dp_active_task td = tw_tid fwindow then - 1 else dp_active_task td)\<rparr>;
     focus_first 0 MAX_WINDOWS td }"

(* src/src/lib/terminal.c:277-287 *)
definition tdisp_move_window :: "int \<Rightarrow> int \<Rightarrow> TDisplay \<Rightarrow> TDisplay option" where
  "tdisp_move_window x y td = do {
     fwindow \<leftarrow> focused td;
     td \<leftarrow> tdisp_clear_whole_window td;
     td \<leftarrow> set_focused (\<lambda>w. twindow_init (tw_wid fwindow) x y (tw_w w) (tw_h w) (tw_tid w)) td;
     td \<leftarrow> tdisp_draw_window_outline td;
     tdisp_reset_cursor td }"

section \<open>Writing\<close>

definition home :: "TWindow \<Rightarrow> TWindow" where
  "home w = w\<lparr>tw_cur := \<lparr>tc_x = 1, tc_y = 1\<rparr>\<rparr>"

definition new_line :: "TWindow \<Rightarrow> TWindow" where
  "new_line w = w\<lparr>tw_cur := \<lparr>tc_x = 1, tc_y = tc_y (tw_cur w) + 1\<rparr>\<rparr>"

text \<open>Both cursors go \<open>k\<close> columns to the right.\<close>

definition advance :: "int \<Rightarrow> TDisplay \<Rightarrow> TDisplay option" where
  "advance k td = do {
     td \<leftarrow> set_focused (\<lambda>w. w\<lparr>tw_cur := (tw_cur w)\<lparr>tc_x := tc_x (tw_cur w) + k\<rparr>\<rparr>) td;
     Some (td\<lparr>dp_cur := (dp_cur td)\<lparr>tc_x := tc_x (dp_cur td) + k\<rparr>\<rparr>) }"

text \<open>\<^verbatim>\<open>TERM_RESET\<close> is 11, \<^verbatim>\<open>TERM_RETURN\<close> 13, \<^verbatim>\<open>TERM_NEWLINE\<close> 10, \<^verbatim>\<open>BACKSPACE\<close> 8.\<close>

(* src/src/lib/terminal.c:290-326 *)
definition tdisp_writec :: "u8 \<Rightarrow> TDisplay \<Rightarrow> TDisplay option" where
  "tdisp_writec c td =
     (if dp_focused_window td = None then Some td
      else do {
        td \<leftarrow> tdisp_reset_cursor td;
        if c = 11 then do {
          td \<leftarrow> set_focused home td;
          tdisp_reset_cursor td }
        else if c = 13 then do {
          td \<leftarrow> set_focused home td;
          td \<leftarrow> tdisp_clear_window td;
          tdisp_reset_cursor td }
        else if c = 10 then do {
          td \<leftarrow> set_focused new_line td;
          tdisp_reset_cursor td }
        else if c = 8 then do {
          td \<leftarrow> advance (- 1) td;
          tdisp_char c td }
        else do {
          td \<leftarrow> advance 1 td;
          tdisp_char c td } })"

(* src/src/lib/terminal.c:328-332 *)
definition tdisp_get_task :: "TDisplay \<Rightarrow> int option" where
  "tdisp_get_task td =
     (if dp_focused_window td = None then Some (- 1) else map_option tw_tid (focused td))"

(* src/src/lib/terminal.c:334-343 *)
definition tdisp_focus_task_window :: "int \<Rightarrow> TDisplay \<Rightarrow> (int \<times> TDisplay) option" where
  "tdisp_focus_task_window tid td =
     (let id = short_id tid in
      if id < 0 \<or> int MAX_WINDOW_TASK < id then Some (- 1, td)
      else do {
        wid \<leftarrow> agetz (dp_task_window td) id;
        td \<leftarrow> tdisp_focus_window wid td;
        Some (0, td) })"

(* src/src/lib/terminal.c:345-353 *)
definition tdisp_write_task :: "int \<Rightarrow> u8 \<Rightarrow> TDisplay \<Rightarrow> TDisplay option" where
  "tdisp_write_task tid c td = do {
     kassert (dp_focused_window td \<noteq> None);
     (r, td) \<leftarrow> tdisp_focus_task_window tid td;
     kassert (r = 0);
     tdisp_writec c td }"

(* src/src/lib/terminal.c:361-363 *)
fun tdisp_writecs :: "u8 list \<Rightarrow> int \<Rightarrow> nat \<Rightarrow> TDisplay \<Rightarrow> TDisplay option" where
  "tdisp_writecs c i 0 td = Some td"
| "tdisp_writecs c i (Suc n) td = do {
     ch \<leftarrow> agetz c i;
     td \<leftarrow> tdisp_writec ch td;
     tdisp_writecs c (i + 1) n td }"

(* src/src/lib/terminal.c:355-364 *)
definition tdisp_writes_task :: "int \<Rightarrow> u8 list \<Rightarrow> int \<Rightarrow> TDisplay \<Rightarrow> TDisplay option" where
  "tdisp_writes_task tid c len td = do {
     kassert (dp_focused_window td \<noteq> None);
     (r, td) \<leftarrow> tdisp_focus_task_window tid td;
     kassert (r = 0);
     tdisp_writecs c 0 (nat len) td }"

end
