(* ===== verification/TerminalManager.thy ===== *)
theory TerminalManager
  imports Terminal
begin

text \<open>
  The terminal manager, user/terminal_manager.c: the server that owns the display. It gives the keys that are
  typed to the shell, opens windows, writes the text of tasks and of the log into them, and sends what the display has
  collected to the serial line. A request carries a pointer into the memory of its sender, who waits: the
  bytes that are there, \<open>None\<close> for a null or indeterminate pointer. What the server does is a list of
  replies and of strings for the line.
\<close>

section \<open>Requests\<close>

(* src/include/user/terminal_manager.h:16-24 *)
datatype TManReqType = TERM_IN | TERM_REG | TERM_OUT | TERM_GET | TERM_LOG_REG | TERM_LOG | TERM_EXIT

(* src/include/user/terminal_manager.h:26-30 *)
record TManReq =
  tq_type :: TManReqType
  tq_data :: "u8 list option"
  tq_len :: int

datatype tm_out = TmPut "u8 list" | TmReply int | TmReplyChar int u8

text \<open>The calls of the clients: what they send. Fields that are not set are indeterminate.\<close>

(* src/src/user/terminal_manager.c:6-22 *)
definition TerminalInputHandler :: "u8 \<Rightarrow> TManReq" where
  "TerminalInputHandler c = \<lparr>tq_type = TERM_IN, tq_data = Some [c], tq_len = 1\<rparr>"

(* src/src/user/terminal_manager.c:189-200 *)
definition TMRegister :: "int \<Rightarrow> int \<Rightarrow> int \<Rightarrow> int \<Rightarrow> int \<Rightarrow> TManReq" where
  "TMRegister offsetx offsety width height junk =
     \<lparr>tq_type = TERM_REG, tq_data = Some [word_of_int offsetx, word_of_int offsety, word_of_int width, word_of_int height], tq_len = junk\<rparr>"

(* src/src/user/terminal_manager.c:202-207 *)
definition TMExit :: "int \<Rightarrow> TManReq" where
  "TMExit junk = \<lparr>tq_type = TERM_EXIT, tq_data = None, tq_len = junk\<rparr>"

(* src/src/user/terminal_manager.c:209-216 *)
definition TMPutC :: "u8 \<Rightarrow> TManReq" where
  "TMPutC c = \<lparr>tq_type = TERM_OUT, tq_data = Some [c], tq_len = 1\<rparr>"

(* src/src/user/terminal_manager.c:218-225 *)
definition TMPutStr :: "u8 list \<Rightarrow> int \<Rightarrow> TManReq" where
  "TMPutStr c len = \<lparr>tq_type = TERM_OUT, tq_data = Some c, tq_len = len\<rparr>"

abbreviation PUT_STR_BUF_SIZE :: nat where "PUT_STR_BUF_SIZE \<equiv> 1024"

text \<open>What does not fit into the buffer is written past its end, before the assertion.\<close>

(* src/src/user/terminal_manager.c:228-245 *)
definition TMPutStrf :: "u8 list \<Rightarrow> va list \<Rightarrow> TManReq option" where
  "TMPutStrf fmt va = do {
     (buf, len) \<leftarrow> buf_pack_f fmt va;
     kassert (length buf \<le> PUT_STR_BUF_SIZE);
     kassert (len < int PUT_STR_BUF_SIZE);
     Some \<lparr>tq_type = TERM_OUT, tq_data = Some buf, tq_len = len\<rparr> }"

(* src/src/user/terminal_manager.c:247-253 *)
definition TMGetC :: "int \<Rightarrow> TManReq" where
  "TMGetC junk = \<lparr>tq_type = TERM_GET, tq_data = None, tq_len = junk\<rparr>"

(* src/src/user/terminal_manager.c:255-260 *)
definition TMLogRegister :: "int \<Rightarrow> TManReq" where
  "TMLogRegister junk = \<lparr>tq_type = TERM_LOG_REG, tq_data = None, tq_len = junk\<rparr>"

(* src/src/user/terminal_manager.c:263-280 *)
definition TMLogStrf :: "u8 list \<Rightarrow> va list \<Rightarrow> TManReq option" where
  "TMLogStrf fmt va = do {
     (buf, len) \<leftarrow> buf_pack_f fmt va;
     kassert (length buf \<le> PUT_STR_BUF_SIZE);
     kassert (len < int PUT_STR_BUF_SIZE);
     Some \<lparr>tq_type = TERM_LOG, tq_data = Some buf, tq_len = len\<rparr> }"

section \<open>The windows\<close>

(* src/src/user/terminal_manager.c:24-26 *)
definition wm_init :: "TDisplay \<Rightarrow> TDisplay option" where
  "wm_init td = tdisp_init td"

(* src/src/user/terminal_manager.c:28-31 *)
definition wm_add_window :: "int \<Rightarrow> u8 list option \<Rightarrow> TDisplay \<Rightarrow> TDisplay option" where
  "wm_add_window tid conf td = do {
     conf \<leftarrow> conf;
     x \<leftarrow> aget conf 0;
     y \<leftarrow> aget conf 1;
     w \<leftarrow> aget conf 2;
     h \<leftarrow> aget conf 3;
     (_, td) \<leftarrow> tdisp_add_window (uint x) (uint y) (uint w) (uint h) tid td;
     tdisp_focus_window 0 td }"

(* src/src/user/terminal_manager.c:33-37 *)
definition wm_delete_window :: "int \<Rightarrow> TDisplay \<Rightarrow> TDisplay option" where
  "wm_delete_window tid td = do {
     (_, td) \<leftarrow> tdisp_focus_task_window tid td;
     td \<leftarrow> tdisp_delete_window td;
     tdisp_focus_window 0 td }"

abbreviation CHUNK :: nat where "CHUNK \<equiv> 20"

text \<open>\<open>buf\<close> is what the local buffer holds, \<open>out\<close> the strings that have been sent.\<close>

(* src/src/user/terminal_manager.c:46-56 *)
function print_loop :: "u8 cbuf \<Rightarrow> u8 list \<Rightarrow> u8 list list \<Rightarrow> (u8 list list \<times> u8 cbuf) option" where
  "print_loop q buf out =
     (if cb_size q = 0 then Some (if 0 < length buf then out @ [buf] else out, q)
      else do {
        (_, c, q') \<leftarrow> cb_pop TERMINAL_BUFFER_SIZE q;
        c \<leftarrow> c;
        let buf = buf @ [c];
        if length buf = CHUNK - 1 then print_loop q' [] (out @ [buf]) else print_loop q' buf out })"
  by pat_completeness auto
termination
  by (relation "measure (\<lambda>(q, buf, out). unat (cb_size q))")
    (auto simp: cb_pop_def measure_unat elim!: bind_SomeE)

declare print_loop.simps [simp del]

(* src/src/user/terminal_manager.c:40-57 *)
definition print_tdisp :: "TDisplay \<Rightarrow> (tm_out list \<times> TDisplay) option" where
  "print_tdisp td = do {
     (out, q) \<leftarrow> print_loop (dp_buffer td) [] [];
     Some (map TmPut out, td\<lparr>dp_buffer := q\<rparr>) }"

section \<open>The server\<close>

abbreviation LOG_HEIGHT :: int where "LOG_HEIGHT \<equiv> 60"

record tman =
  tm_td :: TDisplay
  tm_buf :: "u8 cbuf"
  tm_sh_rdy :: bool
  tm_sh_tid :: int
  tm_log_tid :: int
  tm_log_line :: int

text \<open>The start: the escape sequences that prepare the screen are sent twice. What is in the memory of the display and
  the buffer before is an argument.\<close>

(* src/src/user/terminal_manager.c:73-90 *)
definition tman_init :: "TDisplay \<Rightarrow> u8 cbuf \<Rightarrow> u8 list \<Rightarrow> (tm_out list \<times> tman) option" where
  "tman_init td buf init = do {
     td \<leftarrow> wm_init td;
     (out, td) \<leftarrow> print_tdisp td;
     Some ([TmPut init, TmPut init] @ out,
       \<lparr>tm_td = td, tm_buf = cb_init buf, tm_sh_rdy = False, tm_sh_tid = - 1, tm_log_tid = - 1, tm_log_line = 0\<rparr>) }"

(* src/src/user/terminal_manager.c:104-118 *)
definition term_get :: "int \<Rightarrow> tman \<Rightarrow> (tm_out list \<times> tman) option" where
  "term_get recv_tid s = do {
     s \<leftarrow> (if tm_sh_tid s = - 1 then do {
             td \<leftarrow> tdisp_set_active_task recv_tid (tm_td s);
             Some (s\<lparr>tm_td := td, tm_sh_tid := recv_tid\<rparr>) }
           else Some s);
     if 0 < cb_size (tm_buf s) then do {
       (r, ch, q) \<leftarrow> cb_pop TERMINAL_BUFFER_SIZE (tm_buf s);
       kassert (r = CB_E_NONE);
       ch \<leftarrow> ch;
       Some ([TmReplyChar recv_tid ch], s\<lparr>tm_buf := q, tm_sh_rdy := False\<rparr>) }
     else Some ([], s\<lparr>tm_sh_rdy := True\<rparr>) }"

text \<open>A key goes to the shell if it waits for one, else it is kept.\<close>

(* src/src/user/terminal_manager.c:137-147 *)
definition key_give :: "int \<Rightarrow> u8 \<Rightarrow> tman \<Rightarrow> (tm_out list \<times> tman) option" where
  "key_give recv_tid c s =
     (if tm_sh_rdy s then Some ([TmReplyChar (tm_sh_tid s) c, TmReply recv_tid], s\<lparr>tm_sh_rdy := False\<rparr>)
      else do {
        (r, q) \<leftarrow> cb_push TERMINAL_BUFFER_SIZE c (tm_buf s);
        kassert (r = CB_E_NONE);
        Some ([TmReply recv_tid], s\<lparr>tm_buf := q\<rparr>) })"

text \<open>\<^verbatim>\<open>ESCAPE\<close> is 27, \<^verbatim>\<open>'+'\<close> 43 and \<^verbatim>\<open>'.'\<close> 46.\<close>

(* src/src/user/terminal_manager.c:119-148 *)
definition term_in :: "int \<Rightarrow> u8 list option \<Rightarrow> tman \<Rightarrow> (tm_out list \<times> tman) option" where
  "term_in recv_tid data s = do {
     data \<leftarrow> data;
     c \<leftarrow> aget data 0;
     td \<leftarrow> (if c = 43 then wm_add_window (- 1) None (tm_td s)
           else if c = 127 then tdisp_delete_window (tm_td s)
           else if c = 46 then tdisp_focus_window 0 (tm_td s)
           else Some (tm_td s));
     key_give recv_tid c (s\<lparr>tm_td := td\<rparr>) }"

(* src/src/user/terminal_manager.c:161-176 *)
definition term_log :: "int \<Rightarrow> TManReq \<Rightarrow> tman \<Rightarrow> (tm_out list \<times> tman) option" where
  "term_log recv_tid req s = do {
     let s = s\<lparr>tm_log_line := tm_log_line s + 1\<rparr>;
     s \<leftarrow> (if LOG_HEIGHT - 4 < tm_log_line s then do {
             td \<leftarrow> tdisp_write_task (tm_log_tid s) 13 (tm_td s);
             Some (s\<lparr>tm_td := td, tm_log_line := 0\<rparr>) }
           else Some s);
     tid_buf \<leftarrow> buf_pack_i32 (word_of_int recv_tid);
     kassert (length tid_buf \<le> 10 \<and> length tid_buf \<noteq> 0);
     data \<leftarrow> (if 0 < tq_len req then tq_data req else Some []);
     let text = tid_buf @ [58, 32] @ take (nat (tq_len req)) data;
     kassert (tq_len req \<le> int (length data));
     td \<leftarrow> fold (\<lambda>c td. td \<bind> tdisp_write_task (tm_log_tid s) c) text (Some (tm_td s));
     Some ([TmReply recv_tid], s\<lparr>tm_td := td\<rparr>) }"

(* src/src/user/terminal_manager.c:103-184 *)
definition term_request :: "int \<Rightarrow> TManReq \<Rightarrow> tman \<Rightarrow> (tm_out list \<times> tman) option" where
  "term_request recv_tid req s =
     (case tq_type req of
        TERM_GET \<Rightarrow> term_get recv_tid s
      | TERM_IN \<Rightarrow> term_in recv_tid (tq_data req) s
      | TERM_REG \<Rightarrow> do {
          td \<leftarrow> wm_add_window recv_tid (tq_data req) (tm_td s);
          Some ([TmReply recv_tid], s\<lparr>tm_td := td\<rparr>) }
      | TERM_OUT \<Rightarrow> do {
          data \<leftarrow> (if 0 < tq_len req then tq_data req else Some []);
          td \<leftarrow> tdisp_writes_task recv_tid data (tq_len req) (tm_td s);
          Some ([TmReply recv_tid], s\<lparr>tm_td := td\<rparr>) }
      | TERM_LOG_REG \<Rightarrow> Some ([TmReply recv_tid], s\<lparr>tm_log_tid := recv_tid\<rparr>)
      | TERM_LOG \<Rightarrow> term_log recv_tid req s
      | TERM_EXIT \<Rightarrow> do {
          td \<leftarrow> wm_delete_window recv_tid (tm_td s);
          Some ([TmReply recv_tid], s\<lparr>tm_td := td\<rparr>) })"

(* src/src/user/terminal_manager.c:99-187 *)
definition TerminalManager :: "int \<Rightarrow> TManReq \<Rightarrow> tman \<Rightarrow> (tm_out list \<times> tman) option" where
  "TerminalManager recv_tid req s = do {
     (os, s) \<leftarrow> term_request recv_tid req s;
     (ps, td) \<leftarrow> print_tdisp (tm_td s);
     Some (os @ ps, s\<lparr>tm_td := td\<rparr>) }"

end
