(* ===== verification/TerminalProps.thy ===== *)
theory TerminalProps
  imports Terminal
begin

text \<open>
  The properties of the terminal: the bytes it sends put the text of a task where the task's window is, as seen by
  a terminal that understands the cursor-position sequence, and the ids of the windows stay accounted for.
\<close>

section \<open>The screen\<close>

text \<open>A terminal: the place of its cursor, what of an escape sequence has come, and the bytes of the character in
  each cell. It has no right margin. A byte that continues a character of several bytes joins the one before it.\<close>

datatype vt_mode = Ground | Esc | Param "nat list" nat

record vt =
  vt_x :: int
  vt_y :: int
  vt_mode :: vt_mode
  vt_cells :: "int \<times> int \<Rightarrow> u8 list"

definition vt_ground :: "vt \<Rightarrow> u8 \<Rightarrow> vt" where
  "vt_ground v c =
     (let p = (vt_x v, vt_y v); q = (vt_x v - 1, vt_y v) in
      if c = 27 then v\<lparr>vt_mode := Esc\<rparr>
      else if c = 8 then v\<lparr>vt_x := vt_x v - 1\<rparr>
      else if c < 32 then v
      else if 128 \<le> c \<and> c < 192 then v\<lparr>vt_cells := (vt_cells v)(q := vt_cells v q @ [c])\<rparr>
      else v\<lparr>vt_cells := (vt_cells v)(p := [c]), vt_x := vt_x v + 1\<rparr>)"

definition vt_step :: "vt \<Rightarrow> u8 \<Rightarrow> vt" where
  "vt_step v c =
     (case vt_mode v of
        Ground \<Rightarrow> vt_ground v c
      | Esc \<Rightarrow> v\<lparr>vt_mode := (if c = 91 then Param [] 0 else Ground)\<rparr>
      | Param ps k \<Rightarrow>
          if 48 \<le> c \<and> c \<le> 57 then v\<lparr>vt_mode := Param ps (k * 10 + (unat c - 48))\<rparr>
          else if c = 59 then v\<lparr>vt_mode := Param (ps @ [k]) 0\<rparr>
          else if c = 72 \<and> length ps = 1 then v\<lparr>vt_mode := Ground, vt_x := int k, vt_y := int (hd ps)\<rparr>
          else v\<lparr>vt_mode := Ground\<rparr>)"

abbreviation tdisp_out :: "TDisplay \<Rightarrow> u8 list" where
  "tdisp_out td \<equiv> cb_list TERMINAL_BUFFER_SIZE (dp_buffer td)"

abbreviation tdisp_wf :: "TDisplay \<Rightarrow> bool" where
  "tdisp_wf td \<equiv> cb_wf TERMINAL_BUFFER_SIZE (dp_buffer td)"

text \<open>The screen once a terminal in the state \<open>v\<close> has received what is in the buffer.\<close>

definition screen :: "vt \<Rightarrow> TDisplay \<Rightarrow> vt" where
  "screen v td = foldl vt_step v (tdisp_out td)"

definition synced :: "vt \<Rightarrow> TDisplay \<Rightarrow> bool" where
  "synced v td \<longleftrightarrow> vt_mode (screen v td) = Ground \<and> vt_x (screen v td) = tc_x (dp_cur td) \<and>
     vt_y (screen v td) = tc_y (dp_cur td)"

section \<open>What is sent\<close>

text \<open>\<open>sends bs b b'\<close>: the bytes \<open>bs\<close> have been put into the buffer.\<close>

definition sends :: "u8 list \<Rightarrow> u8 cbuf \<Rightarrow> u8 cbuf \<Rightarrow> bool" where
  "sends bs b b' \<longleftrightarrow> cb_wf TERMINAL_BUFFER_SIZE b' \<and>
     cb_list TERMINAL_BUFFER_SIZE b' = cb_list TERMINAL_BUFFER_SIZE b @ bs"

definition room :: "nat \<Rightarrow> u8 cbuf \<Rightarrow> bool" where
  "room n b \<longleftrightarrow> cb_wf TERMINAL_BUFFER_SIZE b \<and> length (cb_list TERMINAL_BUFFER_SIZE b) + n \<le> TERMINAL_BUFFER_SIZE"

lemma sends_Nil [simp]: "sends [] b b \<longleftrightarrow> cb_wf TERMINAL_BUFFER_SIZE b"
  by (simp add: sends_def)

lemma sends_append: "sends as b c \<Longrightarrow> sends bs c d \<Longrightarrow> sends (as @ bs) b d"
  by (simp add: sends_def)

lemma room_wf: "room n b \<Longrightarrow> cb_wf TERMINAL_BUFFER_SIZE b"
  by (simp add: room_def)

lemma room_mono: "room n b \<Longrightarrow> m \<le> n \<Longrightarrow> room m b"
  by (simp add: room_def)

lemma sends_room: "sends as b c \<Longrightarrow> room (length as + n) b \<Longrightarrow> room n c"
  by (simp add: sends_def room_def del: length_cb_list)

text \<open>An operation of the buffer that sends \<open>bs\<close> when there is room for it.\<close>

definition sender :: "u8 list \<Rightarrow> (u8 cbuf \<Rightarrow> u8 cbuf option) \<Rightarrow> bool" where
  "sender bs f \<longleftrightarrow> (\<forall>b. room (length bs) b \<longrightarrow> (\<exists>b'. f b = Some b' \<and> sends bs b b'))"

lemma senderE:
  assumes "sender bs f" "room (length bs) b"
  obtains b' where "f b = Some b'" "sends bs b b'"
  using assms by (auto simp: sender_def)

lemma sender_Some: "sender [] Some"
  by (simp add: sender_def room_def)

lemma sender_bind: "sender as f \<Longrightarrow> sender bs g \<Longrightarrow> sender (as @ bs) (\<lambda>b. f b \<bind> g)"
  unfolding sender_def by (metis bind.bind_lunit length_append room_mono le_add1 sends_append sends_room)

lemma sender_put: "sender [c] (tdisp_put c)"
  unfolding sender_def
proof (intro allI impI)
  fix b assume r: "room (length [c]) b"
  then show "\<exists>b'. tdisp_put c b = Some b' \<and> sends [c] b b'"
    using cbq.push_room [of TERMINAL_BUFFER_SIZE b c] by (auto simp: tdisp_put_def sends_def room_def)
qed

lemma sender_str:
  "0 \<notin> set s \<Longrightarrow> sender s (tdisp_cb_pushstr (s @ [0]))"
proof (induction s)
  case Nil
  then show ?case using sender_Some by simp
next
  case (Cons c s)
  then show ?case using sender_bind [OF sender_put Cons.IH] by simp
qed

lemma push_digits_sends:
  "bp_digits n i 10 d = Some bs \<Longrightarrow> room (length bs) b \<Longrightarrow>
   \<exists>b'. push_digits n i d b = Some (n + length bs, b') \<and> sends bs b b'"
proof (induction n i d b arbitrary: bs rule: push_digits.induct)
  case (1 n i d b)
  let ?dgt = "i div d" and ?i = "i mod d" and ?d = "d div 10"
  show ?case
  proof (cases "d = 0")
    case True
    then show ?thesis using 1(3,4) by (simp add: push_digits.simps bp_digits.simps room_def)
  next
    case d: False
    show ?thesis
    proof (cases "0 < n \<or> 0 < sint ?dgt \<or> ?d = 0")
      case True
      then obtain as where as: "bp_digits (Suc n) ?i 10 ?d = Some as" "bs = digit_char ?dgt # as"
        using 1(3) d by (subst (asm) bp_digits.simps) (auto simp: Let_def buf_pack_c_def elim!: bind_SomeE)
      have r: "room (length [digit_char ?dgt] + length as) b" using 1(4) as(2) by simp
      obtain c where c: "tdisp_put (digit_char ?dgt) b = Some c" "sends [digit_char ?dgt] b c"
        using senderE [OF sender_put room_mono [OF r]] by auto
      obtain b' where b': "push_digits (Suc n) ?i ?d c = Some (Suc n + length as, b')" "sends as c b'"
        using 1(1) [OF d refl refl refl True c(1) as(1) sends_room [OF c(2) r]] by auto
      then show ?thesis
        using True d c as(2) sends_append [OF c(2) b'(2)] by (subst push_digits.simps) (simp add: Let_def)
    next
      case False
      then have as: "bp_digits n ?i 10 ?d = Some bs"
        using 1(3) d by (subst (asm) bp_digits.simps) (simp add: Let_def)
      from 1(2) [OF d refl refl refl False as 1(4)] show ?thesis
        using False d by (subst push_digits.simps) (simp add: Let_def)
    qed
  qed
qed

text \<open>The digits of a coordinate.\<close>

definition num_bytes :: "int \<Rightarrow> u8 list" where
  "num_bytes x = the (buf_pack_ui32 (word_of_int x) 10)"

lemma num_bytes_digits:
  obtains ds where "buf_pack_ui32 (word_of_int x) 10 = Some (map digit_char ds)" "num_bytes x = map digit_char ds"
    "digits_val 10 (map unat ds) = unat (word_of_int x :: u32)" "\<forall>d \<in> set ds. d < 10" "length ds \<le> 10"
proof -
  have b: "2 \<le> unat (10::u32)" "unat (10::u32) \<le> 36" by simp_all
  obtain d k where d: "bp_scale (word_of_int x) 10 1 = Some d" "unat d = unat (10::u32) ^ k"
    "unat (word_of_int x :: u32) < unat (10::u32) ^ Suc k"
    using bp_scale_ok [OF b(1), of 1 0 "word_of_int x"] by auto
  obtain ds where ds: "bp_digits 0 (word_of_int x) 10 d = Some (map digit_char ds)"
    "digits_val 10 (map unat ds) = unat (word_of_int x :: u32)" "\<forall>y\<in>set ds. y < 10" "length ds \<le> Suc k"
    using bp_digits_ok [OF b d(2,3), of 0] by auto
  have "unat d < 2 ^ 32" using unsigned_less [of d] by simp
  then have "(10::nat) ^ k < 2 ^ 32" using d(2) by simp
  also have "\<dots> \<le> 10 ^ 10" by simp
  finally have "k < 10" by (rule power_less_imp_less_exp [rotated]) simp
  then show thesis
    using that [of ds] d(1) ds by (simp add: num_bytes_def buf_pack_ui32_def)
qed

lemma length_num_bytes: "length (num_bytes x) \<le> 10"
  by (rule num_bytes_digits [of x]) simp

lemma pushui32_sends:
  assumes "room (length (num_bytes x)) b"
  shows "\<exists>b'. tdisp_cb_pushui32 x b = Some (length (num_bytes x), b') \<and> sends (num_bytes x) b b'"
proof -
  obtain ds where ds: "buf_pack_ui32 (word_of_int x) 10 = Some (map digit_char ds)" "num_bytes x = map digit_char ds"
    by (rule num_bytes_digits)
  then obtain d where d: "bp_scale (word_of_int x) 10 1 = Some d" "bp_digits 0 (word_of_int x) 10 d = Some (num_bytes x)"
    by (auto simp: buf_pack_ui32_def elim!: bind_SomeE)
  then show ?thesis
    using push_digits_sends [OF d(2) assms] by (simp add: tdisp_cb_pushui32_def)
qed

definition cursor_bytes :: "int \<Rightarrow> int \<Rightarrow> u8 list" where
  "cursor_bytes x y = [27, 91] @ num_bytes y @ [59] @ num_bytes x @ [72]"

lemma length_cursor_bytes: "length (cursor_bytes x y) \<le> 24"
  using length_num_bytes [of x] length_num_bytes [of y] by (simp add: cursor_bytes_def)

lemma push_cursor_sends: "sender (cursor_bytes x y) (push_cursor x y)"
proof -
  have n: "sender (num_bytes z) (\<lambda>b. tdisp_cb_pushui32 z b \<bind> (\<lambda>(_, b). Some b))" for z
    using pushui32_sends [of z] by (fastforce simp: sender_def)
  have h: "sender [72] (\<lambda>b. cb_push TERMINAL_BUFFER_SIZE 72 b \<bind> (\<lambda>(ret, b). kassert (ret = CB_E_NONE) \<bind> (\<lambda>_. Some b)))"
    unfolding sender_def
  proof (intro allI impI)
    fix b :: "u8 cbuf" assume r: "room (length [72::u8]) b"
    then show "\<exists>b'. cb_push TERMINAL_BUFFER_SIZE 72 b \<bind> (\<lambda>(ret, b). kassert (ret = CB_E_NONE) \<bind> (\<lambda>_. Some b)) = Some b' \<and>
        sends [72] b b'"
      using cbq.push_room [of TERMINAL_BUFFER_SIZE b 72] by (auto simp: sends_def room_def)
  qed
  have "sender ([27] @ [91] @ num_bytes y @ [59] @ num_bytes x @ [72])
    (\<lambda>b. tdisp_put 27 b \<bind> (\<lambda>b. tdisp_put 91 b \<bind> (\<lambda>b. (tdisp_cb_pushui32 y b \<bind> (\<lambda>(_, b). Some b)) \<bind>
      (\<lambda>b. tdisp_put 59 b \<bind> (\<lambda>b. (tdisp_cb_pushui32 x b \<bind> (\<lambda>(_, b). Some b)) \<bind>
      (\<lambda>b. cb_push TERMINAL_BUFFER_SIZE 72 b \<bind> (\<lambda>(ret, b). kassert (ret = CB_E_NONE) \<bind> (\<lambda>_. Some b))))))))"
    by (intro sender_bind sender_put n h)
  then show ?thesis
    unfolding sender_def push_cursor_def cursor_bytes_def by (simp add: case_prod_unfold)
qed

section \<open>The cursor\<close>

lemma digit_char_small:
  assumes "d < 10"
  shows "unat (digit_char d) = unat d + 48" "48 \<le> digit_char d" "digit_char d \<le> 57"
proof -
  have u: "unat d < 10" using assms by (simp add: word_less_nat_alt)
  then have "sint d < 10" using sint_u32_int [of d] by linarith
  then have c: "digit_char d = ucast (d + 48)" by (simp add: digit_char_def)
  have "unat (d + 48) = unat d + 48" using u by (simp add: unat_word_ariths)
  then show e: "unat (digit_char d) = unat d + 48"
    unfolding c using u by (simp add: unsigned_ucast_eq take_bit_nat_eq_self)
  show "48 \<le> digit_char d" "digit_char d \<le> 57" using u by (simp_all add: word_le_nat_alt e)
qed

lemma vt_digits:
  "vt_mode v = Param ps k \<Longrightarrow> \<forall>d \<in> set ds. d < 10 \<Longrightarrow>
   foldl vt_step v (map digit_char ds) = v\<lparr>vt_mode := Param ps (k * 10 ^ length ds + digits_val 10 (map unat ds))\<rparr>"
proof (induction ds arbitrary: v k)
  case (Cons d ds)
  have s: "vt_step v (digit_char d) = v\<lparr>vt_mode := Param ps (k * 10 + unat d)\<rparr>"
    using Cons.prems digit_char_small [of d] by (simp add: vt_step_def)
  have "foldl vt_step (v\<lparr>vt_mode := Param ps (k * 10 + unat d)\<rparr>) (map digit_char ds) =
      v\<lparr>vt_mode := Param ps ((k * 10 + unat d) * 10 ^ length ds + digits_val 10 (map unat ds))\<rparr>"
    using Cons.IH [of "v\<lparr>vt_mode := Param ps (k * 10 + unat d)\<rparr>" "k * 10 + unat d"] Cons.prems(2) by simp
  then show ?case by (simp only: list.map foldl_Cons s) (simp add: algebra_simps)
qed simp

lemma vt_number:
  assumes "vt_mode v = Param ps 0" "0 \<le> x" "x < 4294967296"
  shows "foldl vt_step v (num_bytes x) = v\<lparr>vt_mode := Param ps (nat x)\<rparr>"
proof -
  obtain ds where ds: "num_bytes x = map digit_char ds" "digits_val 10 (map unat ds) = unat (word_of_int x :: u32)"
    "\<forall>d \<in> set ds. d < 10"
    by (rule num_bytes_digits [of x])
  have "unat (word_of_int x :: u32) = nat x"
    using assms(2,3) by (simp add: unsigned_of_int take_bit_int_eq_self)
  then show ?thesis using vt_digits [OF assms(1) ds(3)] ds(1,2) by simp
qed

definition on_screen :: "int \<Rightarrow> int \<Rightarrow> bool" where
  "on_screen x y \<longleftrightarrow> 0 \<le> x \<and> x < 4294967296 \<and> 0 \<le> y \<and> y < 4294967296"

lemma vt_cursor:
  assumes "vt_mode v = Ground" "on_screen x y"
  shows "foldl vt_step v (cursor_bytes x y) = v\<lparr>vt_x := x, vt_y := y\<rparr>"
proof -
  have p: "foldl vt_step v [27, 91] = v\<lparr>vt_mode := Param [] 0\<rparr>"
    using assms(1) by (simp add: vt_step_def vt_ground_def)
  have y: "foldl vt_step (v\<lparr>vt_mode := Param [] 0\<rparr>) (num_bytes y) = v\<lparr>vt_mode := Param [] (nat y)\<rparr>"
    using vt_number [of "v\<lparr>vt_mode := Param [] 0\<rparr>" "[]" y] assms(2) by (simp add: on_screen_def)
  have m: "foldl vt_step (v\<lparr>vt_mode := Param [] (nat y)\<rparr>) [59] = v\<lparr>vt_mode := Param [nat y] 0\<rparr>" by (simp add: vt_step_def)
  have x: "foldl vt_step (v\<lparr>vt_mode := Param [nat y] 0\<rparr>) (num_bytes x) = v\<lparr>vt_mode := Param [nat y] (nat x)\<rparr>"
    using vt_number [of "v\<lparr>vt_mode := Param [nat y] 0\<rparr>" "[nat y]" x] assms(2) by (simp add: on_screen_def)
  have h: "foldl vt_step (v\<lparr>vt_mode := Param [nat y] (nat x)\<rparr>) [72] = v\<lparr>vt_x := x, vt_y := y\<rparr>"
    using assms by (simp add: on_screen_def vt_step_def)
  show ?thesis unfolding cursor_bytes_def foldl_append p y m x h ..
qed

text \<open>\<open>draws v n td td'\<close>: the display has gone from \<open>td\<close> to \<open>td'\<close> with at most \<open>n\<close> bytes, and knows where the
  cursor of the screen is.\<close>

definition draws :: "vt \<Rightarrow> nat \<Rightarrow> TDisplay \<Rightarrow> TDisplay \<Rightarrow> bool" where
  "draws v n td td' \<longleftrightarrow> tdisp_wf td' \<and> length (tdisp_out td') \<le> length (tdisp_out td) + n \<and> synced v td'"

abbreviation has_room :: "nat \<Rightarrow> TDisplay \<Rightarrow> bool" where
  "has_room n td \<equiv> room n (dp_buffer td)"

lemma draws_room: "draws v n td td' \<Longrightarrow> has_room (n + m) td \<Longrightarrow> has_room m td'"
  by (simp add: draws_def room_def del: length_cb_list)

lemma draws_trans: "draws v n td td' \<Longrightarrow> draws v m td' td'' \<Longrightarrow> draws v (n + m) td td''"
  by (simp add: draws_def del: length_cb_list)

lemma draws_mono: "draws v n td td' \<Longrightarrow> n \<le> m \<Longrightarrow> draws v m td td'"
  by (simp add: draws_def del: length_cb_list)

lemma draws_synced: "draws v n td td' \<Longrightarrow> synced v td'"
  by (simp add: draws_def)

lemma sends_draws:
  assumes "sends bs (dp_buffer td) b" "foldl vt_step (screen v td) bs = s" "vt_mode s = Ground" "length bs \<le> n"
  shows "draws v n td (td\<lparr>dp_buffer := b, dp_cur := \<lparr>tc_x = vt_x s, tc_y = vt_y s\<rparr>\<rparr>)"
    "screen v (td\<lparr>dp_buffer := b, dp_cur := \<lparr>tc_x = vt_x s, tc_y = vt_y s\<rparr>\<rparr>) = s"
  using assms by (auto simp: draws_def sends_def synced_def screen_def simp del: length_cb_list)

lemma draws_same:
  assumes "synced v td" "tdisp_wf td"
  shows "draws v 0 td td"
  using assms by (simp add: draws_def)

text \<open>A display whose cursor is known, or about to be set.\<close>

definition settable :: "vt \<Rightarrow> int \<Rightarrow> int \<Rightarrow> TDisplay \<Rightarrow> bool" where
  "settable v x y td \<longleftrightarrow> synced v td \<or>
     vt_mode (screen v td) = Ground \<and> (tc_x (dp_cur td) \<noteq> x \<or> tc_y (dp_cur td) \<noteq> y)"

lemma set_cursor_draws:
  assumes w: "focused td = Some w" and on: "on_screen (x + tw_offsetx w) (y + tw_offsety w)"
    and r: "has_room 24 td" and s: "settable v (x + tw_offsetx w) (y + tw_offsety w) td"
  obtains b where
    "tdisp_set_cursor x y td = Some (td\<lparr>dp_buffer := b, dp_cur := \<lparr>tc_x = x + tw_offsetx w, tc_y = y + tw_offsety w\<rparr>\<rparr>)"
    "draws v 24 td (td\<lparr>dp_buffer := b, dp_cur := \<lparr>tc_x = x + tw_offsetx w, tc_y = y + tw_offsety w\<rparr>\<rparr>)"
    "vt_cells (screen v (td\<lparr>dp_buffer := b, dp_cur := \<lparr>tc_x = x + tw_offsetx w, tc_y = y + tw_offsety w\<rparr>\<rparr>)) = vt_cells (screen v td)"
proof (cases "tc_x (dp_cur td) \<noteq> x + tw_offsetx w \<or> tc_y (dp_cur td) \<noteq> y + tw_offsety w")
  case True
  let ?x = "x + tw_offsetx w" and ?y = "y + tw_offsety w"
  obtain b where b: "push_cursor ?x ?y (dp_buffer td) = Some b" "sends (cursor_bytes ?x ?y) (dp_buffer td) b"
    using senderE [OF push_cursor_sends room_mono [OF r length_cursor_bytes]] by blast
  have m: "vt_mode (screen v td) = Ground" using s by (auto simp: settable_def synced_def)
  show thesis
    using that [of b] b True w sends_draws [OF b(2) vt_cursor [OF m on] _ length_cursor_bytes] m
    by (simp add: tdisp_set_cursor_def)
next
  case False
  then have c: "td\<lparr>dp_cur := \<lparr>tc_x = x + tw_offsetx w, tc_y = y + tw_offsety w\<rparr>\<rparr> = td"
    by (cases "dp_cur td") simp
  have "synced v td" using s False by (auto simp: settable_def)
  then show thesis
    using that [of "dp_buffer td"] False w c draws_mono [OF draws_same [OF _ room_wf [OF r]], of v 24]
    by (simp add: tdisp_set_cursor_def)
qed

lemma set_cursor_there:
  assumes "focused td = Some w" "dp_cur td = \<lparr>tc_x = x + tw_offsetx w, tc_y = y + tw_offsety w\<rparr>"
  shows "tdisp_set_cursor x y td = Some td"
  using assms by (simp add: tdisp_set_cursor_def)

section \<open>Characters and blanks\<close>

lemma char_sends:
  assumes "has_room 1 td"
  obtains b where "tdisp_char c td = Some (td\<lparr>dp_buffer := b\<rparr>)" "sends [c] (dp_buffer td) b"
    "screen v (td\<lparr>dp_buffer := b\<rparr>) = vt_step (screen v td) c"
proof -
  obtain b where b: "tdisp_put c (dp_buffer td) = Some b" "sends [c] (dp_buffer td) b"
    using senderE [OF sender_put] assms by auto
  then show thesis using that [of b] by (simp add: tdisp_char_def screen_def sends_def)
qed

lemma spaces_send:
  "has_room n td \<Longrightarrow> \<exists>b. tdisp_spaces n td = Some (td\<lparr>dp_buffer := b\<rparr>) \<and> sends (replicate n 32) (dp_buffer td) b"
proof (induction n arbitrary: td)
  case 0
  then show ?case by (auto simp: room_def intro!: exI [of _ "dp_buffer td"])
next
  case (Suc n)
  obtain b where b: "tdisp_char 32 td = Some (td\<lparr>dp_buffer := b\<rparr>)" "sends [32] (dp_buffer td) b"
    using char_sends [OF room_mono [OF Suc.prems]] by (metis Suc_le_mono le0 One_nat_def)
  have "has_room n (td\<lparr>dp_buffer := b\<rparr>)" using sends_room [OF b(2), of n] Suc.prems by simp
  from Suc.IH [OF this] obtain b' where
    "tdisp_spaces n (td\<lparr>dp_buffer := b\<rparr>) = Some (td\<lparr>dp_buffer := b'\<rparr>)" "sends (replicate n 32) b b'" by auto
  then show ?case using b sends_append [OF b(2), of "replicate n 32" b'] by auto
qed

definition blank :: "int \<Rightarrow> int \<Rightarrow> nat \<Rightarrow> nat \<Rightarrow> (int \<times> int \<Rightarrow> u8 list) \<Rightarrow> int \<times> int \<Rightarrow> u8 list" where
  "blank x y w h cells = (\<lambda>(a, b). if x \<le> a \<and> a < x + int w \<and> y \<le> b \<and> b < y + int h then [32] else cells (a, b))"

lemma vt_spaces:
  "vt_mode v = Ground \<Longrightarrow>
   foldl vt_step v (replicate n 32) = v\<lparr>vt_x := vt_x v + int n, vt_cells := blank (vt_x v) (vt_y v) n 1 (vt_cells v)\<rparr>"
proof (induction n arbitrary: v)
  case 0
  have "blank (vt_x v) (vt_y v) 0 1 (vt_cells v) = vt_cells v" by (auto simp: blank_def fun_eq_iff)
  then show ?case by simp
next
  case (Suc n)
  let ?v = "v\<lparr>vt_cells := (vt_cells v)((vt_x v, vt_y v) := [32]), vt_x := vt_x v + 1\<rparr>"
  have s: "vt_step v 32 = ?v" using Suc.prems by (simp add: vt_step_def vt_ground_def Let_def)
  have b: "blank (vt_x ?v) (vt_y ?v) n 1 (vt_cells ?v) = blank (vt_x v) (vt_y v) (Suc n) 1 (vt_cells v)"
    by (auto simp: blank_def fun_eq_iff)
  have "foldl vt_step ?v (replicate n 32) =
      ?v\<lparr>vt_x := vt_x ?v + int n, vt_cells := blank (vt_x v) (vt_y v) (Suc n) 1 (vt_cells v)\<rparr>"
    unfolding b [symmetric] using Suc.prems by (intro Suc.IH) simp
  then show ?case by (simp only: replicate_Suc foldl_Cons s) (simp add: add.assoc)
qed

lemma blank_rows:
  "blank x (y + 1) w n (blank x y w 1 cells) = blank x y w (Suc n) cells"
  by (auto simp: blank_def fun_eq_iff)

text \<open>A row has been cleared: the cursor of the screen is at its end.\<close>

lemma row_cleared:
  assumes w: "focused td = Some w" and on: "on_screen (x + tw_offsetx w) (y + tw_offsety w)"
    and r: "has_room (24 + n) td" and s: "settable v (x + tw_offsetx w) (y + tw_offsety w) td"
  obtains b where
    "tdisp_set_cursor x y td \<bind> tdisp_spaces n =
       Some (td\<lparr>dp_buffer := b, dp_cur := \<lparr>tc_x = x + tw_offsetx w, tc_y = y + tw_offsety w\<rparr>\<rparr>)"
    "cb_wf TERMINAL_BUFFER_SIZE b" "length (cb_list TERMINAL_BUFFER_SIZE b) \<le> length (tdisp_out td) + (24 + n)"
    "vt_mode (foldl vt_step v (cb_list TERMINAL_BUFFER_SIZE b)) = Ground"
    "vt_cells (foldl vt_step v (cb_list TERMINAL_BUFFER_SIZE b)) =
       blank (x + tw_offsetx w) (y + tw_offsety w) n 1 (vt_cells (screen v td))"
    "vt_x (foldl vt_step v (cb_list TERMINAL_BUFFER_SIZE b)) = x + tw_offsetx w + int n"
    "vt_y (foldl vt_step v (cb_list TERMINAL_BUFFER_SIZE b)) = y + tw_offsety w"
proof -
  let ?td = "\<lambda>b. td\<lparr>dp_buffer := b, dp_cur := \<lparr>tc_x = x + tw_offsetx w, tc_y = y + tw_offsety w\<rparr>\<rparr>"
  obtain a where a: "tdisp_set_cursor x y td = Some (?td a)" "draws v 24 td (?td a)"
    "vt_cells (screen v (?td a)) = vt_cells (screen v td)"
    using set_cursor_draws [OF w on room_mono [OF r] s] by auto
  have upd: "(?td a)\<lparr>dp_buffer := b\<rparr> = ?td b" for b by (cases td) simp
  have r1: "has_room n (?td a)" using draws_room [OF a(2) r] .
  obtain b where b: "tdisp_spaces n (?td a) = Some (?td b)" "sends (replicate n 32) a b"
    using spaces_send [OF r1] upd by auto
  have l: "cb_list TERMINAL_BUFFER_SIZE b = cb_list TERMINAL_BUFFER_SIZE a @ replicate n 32" "cb_wf TERMINAL_BUFFER_SIZE b"
    using b(2) by (simp_all add: sends_def)
  have m: "vt_mode (screen v (?td a)) = Ground" "vt_x (screen v (?td a)) = x + tw_offsetx w"
    "vt_y (screen v (?td a)) = y + tw_offsety w"
    using draws_synced [OF a(2)] by (simp_all add: synced_def)
  have e: "foldl vt_step v (cb_list TERMINAL_BUFFER_SIZE b) = (screen v (?td a))\<lparr>vt_x := vt_x (screen v (?td a)) + int n,
      vt_cells := blank (vt_x (screen v (?td a))) (vt_y (screen v (?td a))) n 1 (vt_cells (screen v (?td a)))\<rparr>"
    using vt_spaces [OF m(1)] l(1) by (simp add: screen_def)
  show thesis
  proof (rule that [of b])
    show "length (cb_list TERMINAL_BUFFER_SIZE b) \<le> length (tdisp_out td) + (24 + n)"
      using a(2) l(1) by (simp add: draws_def del: length_cb_list)
  qed (use a b l m e in simp_all)
qed

abbreviation curs :: "TDisplay \<Rightarrow> u8 cbuf \<Rightarrow> int \<Rightarrow> int \<Rightarrow> TDisplay" where
  "curs td b x y \<equiv> td\<lparr>dp_buffer := b, dp_cur := \<lparr>tc_x = x, tc_y = y\<rparr>\<rparr>"

text \<open>\<open>h\<close> rows of \<open>w\<close> cells have been blanked, and the display takes the cursor to be at the start of the last.\<close>

definition wiped :: "vt \<Rightarrow> nat \<Rightarrow> int \<Rightarrow> int \<Rightarrow> nat \<Rightarrow> nat \<Rightarrow> TDisplay \<Rightarrow> u8 cbuf \<Rightarrow> bool" where
  "wiped v n x y w h td b \<longleftrightarrow> cb_wf TERMINAL_BUFFER_SIZE b \<and>
     length (cb_list TERMINAL_BUFFER_SIZE b) \<le> length (tdisp_out td) + n \<and>
     vt_mode (foldl vt_step v (cb_list TERMINAL_BUFFER_SIZE b)) = Ground \<and>
     vt_cells (foldl vt_step v (cb_list TERMINAL_BUFFER_SIZE b)) = blank x y w h (vt_cells (screen v td)) \<and>
     vt_x (foldl vt_step v (cb_list TERMINAL_BUFFER_SIZE b)) = x + int w \<and>
     vt_y (foldl vt_step v (cb_list TERMINAL_BUFFER_SIZE b)) = y + int h - 1"

lemma screen_curs: "screen v (curs td b x y) = foldl vt_step v (cb_list TERMINAL_BUFFER_SIZE b)"
  by (simp add: screen_def)

lemma focused_curs [simp]: "focused (curs td b x y) = focused td"
  by (simp add: focused_def)

lemma row_wiped:
  assumes "focused td = Some w" "on_screen (x + tw_offsetx w) (y + tw_offsety w)"
    "has_room (24 + n) td" "settable v (x + tw_offsetx w) (y + tw_offsety w) td"
  obtains b where "tdisp_set_cursor x y td \<bind> tdisp_spaces n = Some (curs td b (x + tw_offsetx w) (y + tw_offsety w))"
    "wiped v (24 + n) (x + tw_offsetx w) (y + tw_offsety w) n 1 td b"
  using row_cleared [OF assms] by (auto simp: wiped_def simp del: length_cb_list)

lemma rows_cleared:
  assumes w: "focused td = Some w" and on: "on_screen (x + tw_offsetx w) (i + tw_offsety w)"
    "i + tw_offsety w + int n < 4294967296"
    and r: "has_room (Suc n * (24 + k)) td" and s: "settable v (x + tw_offsetx w) (i + tw_offsety w) td"
  shows "\<exists>b. clear_rows x i (Suc n) k td = Some (curs td b (x + tw_offsetx w) (i + tw_offsety w + int n)) \<and>
    wiped v (Suc n * (24 + k)) (x + tw_offsetx w) (i + tw_offsety w) k (Suc n) td b"
  using assms
proof (induction n arbitrary: i td)
  case 0
  obtain b where b: "tdisp_set_cursor x i td \<bind> tdisp_spaces k = Some (curs td b (x + tw_offsetx w) (i + tw_offsety w))"
    "wiped v (24 + k) (x + tw_offsetx w) (i + tw_offsety w) k 1 td b"
    using row_wiped [OF 0(1,2) _ 0(5), of k] 0(4) by auto
  then show ?case by (auto simp: bind_assoc [symmetric] intro!: exI [of _ b])
next
  case (Suc n)
  let ?x = "x + tw_offsetx w" and ?y = "i + tw_offsety w"
  obtain b where b: "tdisp_set_cursor x i td \<bind> tdisp_spaces k = Some (curs td b ?x ?y)" "wiped v (24 + k) ?x ?y k 1 td b"
    using row_wiped [OF Suc.prems(1,2) room_mono [OF Suc.prems(4), of "24 + k"] Suc.prems(5)] by auto
  let ?td = "curs td b ?x ?y"
  have r: "has_room (Suc n * (24 + k)) ?td"
    using b(2) Suc.prems(4) by (simp add: room_def wiped_def del: length_cb_list)
  have s: "settable v ?x (i + 1 + tw_offsety w) ?td"
    using b(2) by (simp add: settable_def screen_curs wiped_def)
  have on: "on_screen ?x (i + 1 + tw_offsety w)" using Suc.prems(2,3) by (simp add: on_screen_def)
  obtain b' where b': "clear_rows x (i + 1) (Suc n) k ?td = Some (curs ?td b' ?x (i + 1 + tw_offsety w + int n))"
    "wiped v (Suc n * (24 + k)) ?x (i + 1 + tw_offsety w) k (Suc n) ?td b'"
    using Suc.IH [OF _ on _ r s] Suc.prems(1,3) by auto
  have "clear_rows x i (Suc (Suc n)) k td = (tdisp_set_cursor x i td \<bind> tdisp_spaces k) \<bind> clear_rows x (i + 1) (Suc n) k"
    by (simp add: bind_assoc)
  then have "clear_rows x i (Suc (Suc n)) k td = Some (curs td b' ?x (?y + int (Suc n)))"
    unfolding b(1) bind.bind_lunit b'(1) by (simp add: algebra_simps)
  moreover have "wiped v (Suc (Suc n) * (24 + k)) ?x ?y k (Suc (Suc n)) td b'"
    using b(2) b'(2) blank_rows [of ?x ?y k "Suc n" "vt_cells (screen v td)"]
    by (simp add: wiped_def screen_curs algebra_simps del: length_cb_list)
  ultimately show ?case by blast
qed

section \<open>A character of a window\<close>

text \<open>What a window shows, without the display's bookkeeping: its cursor and the cells of the screen.\<close>

type_synonym shown = "(int \<times> int) \<times> (int \<times> int \<Rightarrow> u8 list)"

definition show_char :: "TWindow \<Rightarrow> shown \<Rightarrow> u8 \<Rightarrow> shown" where
  "show_char w st c =
     (let (p, cells) = st; (x, y) = p in
      if c = 11 then ((1, 1), cells)
      else if c = 13 then
        ((1, 1), blank (1 + tw_offsetx w) (1 + tw_offsety w) (nat (tw_w w - 2)) (nat (tw_h w - 1)) cells)
      else if c = 10 then ((1, y + 1), cells)
      else if c = 8 then ((x - 1, y), cells)
      else ((x + 1, y), cells((x + tw_offsetx w, y + tw_offsety w) := [c])))"

definition win_cur :: "TWindow \<Rightarrow> int \<times> int" where
  "win_cur w = (tc_x (tw_cur w), tc_y (tw_cur w))"

text \<open>The characters that are understood: printable ones and the controls; a window is cleared only if it has not
  exactly one row.\<close>

definition plain :: "TWindow \<Rightarrow> u8 \<Rightarrow> bool" where
  "plain w c \<longleftrightarrow> c \<in> {8, 10, 11} \<or> (c = 13 \<and> (tw_h w \<noteq> 2 \<or> tw_w w \<le> 2)) \<or> (32 \<le> c \<and> c < 127)"

definition char_cost :: "TWindow \<Rightarrow> u8 \<Rightarrow> nat" where
  "char_cost w c = (if c = 13 then nat (tw_h w - 1) * (24 + nat (tw_w w - 2)) + 24 else if c = 10 \<or> c = 11 then 24 else 1)"

text \<open>The display is about to write at the cursor of the window \<open>w\<close>, the \<open>f\<close>-th.\<close>

definition placed :: "nat \<Rightarrow> TWindow \<Rightarrow> TDisplay \<Rightarrow> bool" where
  "placed f w td \<longleftrightarrow> dp_focused_window td = Some f \<and> f < length (dp_windows td) \<and> dp_windows td ! f = w \<and>
     tdisp_wf td \<and> dp_cur td = \<lparr>tc_x = tc_x (tw_cur w) + tw_offsetx w, tc_y = tc_y (tw_cur w) + tw_offsety w\<rparr>"

definition in_range :: "TWindow \<Rightarrow> nat \<Rightarrow> bool" where
  "in_range w k \<longleftrightarrow> 0 \<le> 1 + tw_offsetx w \<and> 1 + tw_offsetx w < 4294967296 \<and> 0 \<le> 1 + tw_offsety w \<and> 0 \<le> tw_h w \<and>
     1 \<le> tc_y (tw_cur w) \<and> tw_offsety w + tw_h w + tc_y (tw_cur w) + int k < 4294967296"

definition rewritten :: "nat \<Rightarrow> TWindow \<Rightarrow> TDisplay \<Rightarrow> TDisplay \<Rightarrow> bool" where
  "rewritten f w td td' \<longleftrightarrow>
     td' = td\<lparr>dp_buffer := dp_buffer td', dp_cur := dp_cur td', dp_windows := (dp_windows td)[f := w]\<rparr>"

lemma placed_focused: "placed f w td \<Longrightarrow> focused td = Some w"
  by (simp add: placed_def focused_def)

lemma placed_set:
  "placed f w td \<Longrightarrow> set_focused g td = Some (td\<lparr>dp_windows := (dp_windows td)[f := g w]\<rparr>)"
  by (simp add: placed_def set_focused_def)

lemma screen_windows [simp]: "screen v (dp_windows_update g td) = screen v td"
  by (simp add: screen_def)

lemma synced_windows [simp]: "synced v (dp_windows_update g td) \<longleftrightarrow> synced v td"
  by (simp add: synced_def)

lemma settable_windows [simp]: "settable v x y (dp_windows_update g td) \<longleftrightarrow> settable v x y td"
  by (simp add: settable_def)

lemma reset_placed: "placed f w td \<Longrightarrow> tdisp_reset_cursor td = Some td"
  using set_cursor_there [of td w] by (simp add: tdisp_reset_cursor_def placed_focused) (simp add: placed_def)

text \<open>The cursor of the focused window has been set to \<open>w\<close>'s, and the display follows.\<close>

lemma reset_places:
  assumes f: "dp_focused_window td = Some f" "f < length (dp_windows td)" "dp_windows td ! f = w"
    and on: "on_screen (tc_x (tw_cur w) + tw_offsetx w) (tc_y (tw_cur w) + tw_offsety w)"
    and r: "has_room 24 td" and s: "settable v (tc_x (tw_cur w) + tw_offsetx w) (tc_y (tw_cur w) + tw_offsety w) td"
  obtains td' where "tdisp_reset_cursor td = Some td'" "placed f w td'" "draws v 24 td td'"
    "vt_cells (screen v td') = vt_cells (screen v td)" "rewritten f w td td'"
proof -
  have w: "focused td = Some w" using f by (simp add: focused_def)
  obtain b where b: "tdisp_set_cursor (tc_x (tw_cur w)) (tc_y (tw_cur w)) td =
      Some (curs td b (tc_x (tw_cur w) + tw_offsetx w) (tc_y (tw_cur w) + tw_offsety w))"
    "draws v 24 td (curs td b (tc_x (tw_cur w) + tw_offsetx w) (tc_y (tw_cur w) + tw_offsety w))"
    "vt_cells (screen v (curs td b (tc_x (tw_cur w) + tw_offsetx w) (tc_y (tw_cur w) + tw_offsety w))) = vt_cells (screen v td)"
    using set_cursor_draws [OF w on r s] .
  show thesis
    by (rule that [OF _ _ b(2,3)]) (use w b f in \<open>auto simp: tdisp_reset_cursor_def placed_def draws_def rewritten_def\<close>)
qed

lemma moved:
  assumes p: "placed f w td" and s: "synced v td" and r: "has_room 24 td"
    and on: "on_screen (tc_x (tw_cur (g w)) + tw_offsetx (g w)) (tc_y (tw_cur (g w)) + tw_offsety (g w))"
  obtains td' where "set_focused g td \<bind> tdisp_reset_cursor = Some td'" "placed f (g w) td'" "draws v 24 td td'"
    "vt_cells (screen v td') = vt_cells (screen v td)" "rewritten f (g w) td td'"
proof -
  let ?td = "td\<lparr>dp_windows := (dp_windows td)[f := g w]\<rparr>"
  have f: "dp_focused_window ?td = Some f" "f < length (dp_windows ?td)" "dp_windows ?td ! f = g w" "has_room 24 ?td"
    using p r by (simp_all add: placed_def)
  have "settable v (tc_x (tw_cur (g w)) + tw_offsetx (g w)) (tc_y (tw_cur (g w)) + tw_offsety (g w)) ?td"
    using s by (simp add: settable_def)
  from reset_places [OF f(1,2,3) on f(4) this] obtain td' where
    "tdisp_reset_cursor ?td = Some td'" "placed f (g w) td'" "draws v 24 ?td td'"
    "vt_cells (screen v td') = vt_cells (screen v ?td)" "rewritten f (g w) ?td td'" .
  then show thesis using that [of td'] placed_set [OF p, of g] by (simp add: draws_def rewritten_def)
qed

lemma put_printable:
  assumes p: "placed f w td" and s: "synced v td" and r: "has_room 1 td" and c: "32 \<le> c" "c < 127"
  obtains td' where "advance 1 td \<bind> tdisp_char c = Some td'" "draws v 1 td td'"
    "placed f (w\<lparr>tw_cur := (tw_cur w)\<lparr>tc_x := tc_x (tw_cur w) + 1\<rparr>\<rparr>) td'"
    "vt_cells (screen v td') = (vt_cells (screen v td))((tc_x (tw_cur w) + tw_offsetx w, tc_y (tw_cur w) + tw_offsety w) := [c])"
    "rewritten f (w\<lparr>tw_cur := (tw_cur w)\<lparr>tc_x := tc_x (tw_cur w) + 1\<rparr>\<rparr>) td td'"
proof -
  let ?g = "\<lambda>w. w\<lparr>tw_cur := (tw_cur w)\<lparr>tc_x := tc_x (tw_cur w) + 1\<rparr>\<rparr>"
  let ?td = "td\<lparr>dp_windows := (dp_windows td)[f := ?g w], dp_cur := (dp_cur td)\<lparr>tc_x := tc_x (dp_cur td) + 1\<rparr>\<rparr>"
  have a: "advance 1 td = Some ?td" using placed_set [OF p] by (simp add: advance_def)
  obtain b where b: "tdisp_char c ?td = Some (?td\<lparr>dp_buffer := b\<rparr>)" "sends [c] (dp_buffer ?td) b"
    "screen v (?td\<lparr>dp_buffer := b\<rparr>) = vt_step (screen v ?td) c"
    using char_sends [of ?td] r by auto
  have sc: "screen v ?td = screen v td" by (simp add: screen_def)
  have n: "c \<noteq> 27" "c \<noteq> 8" "\<not> c < 32" "\<not> 128 \<le> c" using c by (auto simp: word_less_nat_alt word_le_nat_alt)
  have vt: "vt_mode (screen v td) = Ground" "vt_x (screen v td) = tc_x (tw_cur w) + tw_offsetx w"
    "vt_y (screen v td) = tc_y (tw_cur w) + tw_offsety w"
    using s p by (simp_all add: synced_def placed_def)
  have step: "vt_step (screen v td) c = (screen v td)\<lparr>vt_cells := (vt_cells (screen v td))((vt_x (screen v td), vt_y (screen v td)) := [c]),
      vt_x := vt_x (screen v td) + 1\<rparr>"
    using vt(1) n by (simp add: vt_step_def vt_ground_def Let_def)
  show thesis
  proof (rule that [of "?td\<lparr>dp_buffer := b\<rparr>"])
    show "draws v 1 td (?td\<lparr>dp_buffer := b\<rparr>)"
      using b(2) p vt unfolding draws_def synced_def b(3) sc step by (simp add: sends_def placed_def del: length_cb_list)
    show "placed f (?g w) (?td\<lparr>dp_buffer := b\<rparr>)" using p b(2) by (simp add: placed_def sends_def)
    show "vt_cells (screen v (?td\<lparr>dp_buffer := b\<rparr>)) =
        (vt_cells (screen v td))((tc_x (tw_cur w) + tw_offsetx w, tc_y (tw_cur w) + tw_offsety w) := [c])"
      unfolding b(3) sc step using vt by simp
  qed (use a b(1) in \<open>simp_all add: rewritten_def\<close>)
qed

lemma put_backspace:
  assumes p: "placed f w td" and s: "synced v td" and r: "has_room 1 td"
  obtains td' where "advance (- 1) td \<bind> tdisp_char 8 = Some td'" "draws v 1 td td'"
    "placed f (w\<lparr>tw_cur := (tw_cur w)\<lparr>tc_x := tc_x (tw_cur w) - 1\<rparr>\<rparr>) td'"
    "vt_cells (screen v td') = vt_cells (screen v td)"
    "rewritten f (w\<lparr>tw_cur := (tw_cur w)\<lparr>tc_x := tc_x (tw_cur w) - 1\<rparr>\<rparr>) td td'"
proof -
  let ?g = "\<lambda>w. w\<lparr>tw_cur := (tw_cur w)\<lparr>tc_x := tc_x (tw_cur w) - 1\<rparr>\<rparr>"
  let ?td = "td\<lparr>dp_windows := (dp_windows td)[f := ?g w], dp_cur := (dp_cur td)\<lparr>tc_x := tc_x (dp_cur td) - 1\<rparr>\<rparr>"
  have a: "advance (- 1) td = Some ?td" using placed_set [OF p] by (simp add: advance_def)
  obtain b where b: "tdisp_char 8 ?td = Some (?td\<lparr>dp_buffer := b\<rparr>)" "sends [8] (dp_buffer ?td) b"
    "screen v (?td\<lparr>dp_buffer := b\<rparr>) = vt_step (screen v ?td) 8"
    using char_sends [of ?td] r by auto
  have sc: "screen v ?td = screen v td" by (simp add: screen_def)
  have vt: "vt_mode (screen v td) = Ground" "vt_x (screen v td) = tc_x (tw_cur w) + tw_offsetx w"
    "vt_y (screen v td) = tc_y (tw_cur w) + tw_offsety w"
    using s p by (simp_all add: synced_def placed_def)
  have step: "vt_step (screen v td) 8 = (screen v td)\<lparr>vt_x := vt_x (screen v td) - 1\<rparr>"
    using vt(1) by (simp add: vt_step_def vt_ground_def Let_def)
  show thesis
  proof (rule that [of "?td\<lparr>dp_buffer := b\<rparr>"])
    show "draws v 1 td (?td\<lparr>dp_buffer := b\<rparr>)"
      using b(2) p vt unfolding draws_def synced_def b(3) sc step by (simp add: sends_def placed_def del: length_cb_list)
    show "placed f (?g w) (?td\<lparr>dp_buffer := b\<rparr>)" using p b(2) by (simp add: placed_def sends_def)
    show "vt_cells (screen v (?td\<lparr>dp_buffer := b\<rparr>)) = vt_cells (screen v td)"
      unfolding b(3) sc step by simp
  qed (use a b(1) in \<open>simp_all add: rewritten_def\<close>)
qed

lemma blank_none: "w = 0 \<or> h = 0 \<Longrightarrow> blank x y w h cells = cells"
  by (auto simp: blank_def fun_eq_iff)

lemma put_clear:
  assumes p: "placed f w td" and s: "synced v td" and r: "has_room (char_cost w 13) td"
    and c: "plain w 13" "in_range w 0"
  obtains td' where "set_focused home td \<bind> (\<lambda>td. tdisp_clear_window td \<bind> tdisp_reset_cursor) = Some td'"
    "draws v (char_cost w 13) td td'" "placed f (home w) td'"
    "vt_cells (screen v td') = blank (1 + tw_offsetx w) (1 + tw_offsety w) (nat (tw_w w - 2)) (nat (tw_h w - 1)) (vt_cells (screen v td))"
    "rewritten f (home w) td td'"
proof -
  let ?td = "td\<lparr>dp_windows := (dp_windows td)[f := home w]\<rparr>"
  let ?n = "nat (tw_h w - 1)" and ?k = "nat (tw_w w - 2)" and ?x = "1 + tw_offsetx w" and ?y = "1 + tw_offsety w"
  have f: "dp_focused_window ?td = Some f" "f < length (dp_windows ?td)" "dp_windows ?td ! f = home w"
    using p by (simp_all add: placed_def)
  have w: "focused ?td = Some (home w)" using f by (simp add: focused_def)
  have geo [simp]: "tw_h (home w) = tw_h w" "tw_w (home w) = tw_w w" "tw_offsetx (home w) = tw_offsetx w"
    "tw_offsety (home w) = tw_offsety w" "tc_x (tw_cur (home w)) = 1" "tc_y (tw_cur (home w)) = 1"
    by (simp_all add: home_def)
  have set: "set_focused home td = Some ?td" using placed_set [OF p] by simp
  have on: "on_screen ?x ?y" using c(2) by (simp add: on_screen_def in_range_def)
  have cost: "char_cost w 13 = ?n * (24 + ?k) + 24" by (simp add: char_cost_def)
  show thesis
  proof (cases ?n)
    case 0
    have "settable v ?x ?y ?td" using s by (simp add: settable_def)
    moreover have "has_room 24 ?td" using r 0 by (simp add: cost)
    ultimately obtain td' where "tdisp_reset_cursor ?td = Some td'" "placed f (home w) td'" "draws v 24 ?td td'"
      "vt_cells (screen v td') = vt_cells (screen v ?td)" "rewritten f (home w) ?td td'"
      using reset_places [OF f, of v] on by auto
    then show thesis
      using that [of td'] set w 0 by (simp add: tdisp_clear_window_def cost draws_def rewritten_def blank_none)
  next
    case (Suc n)
    have "int n = tw_h w - 2" using Suc by linarith
    then have ir: "1 + tw_offsety w + int n < 4294967296" using c(2) by (simp add: in_range_def)
    have "settable v ?x ?y ?td" using s by (simp add: settable_def)
    moreover have "has_room (Suc n * (24 + ?k)) ?td" using room_mono [OF r] Suc by (simp add: cost)
    ultimately obtain b where b: "clear_rows 1 1 (Suc n) ?k ?td = Some (curs ?td b ?x (?y + int n))"
      "wiped v (Suc n * (24 + ?k)) ?x ?y ?k (Suc n) ?td b"
      using rows_cleared [OF w, of 1 1 n ?k v] on ir by auto
    let ?td' = "curs ?td b ?x (?y + int n)"
    have f': "dp_focused_window ?td' = Some f" "f < length (dp_windows ?td')" "dp_windows ?td' ! f = home w"
      using f by simp_all
    have "n \<noteq> 0 \<or> ?k = 0" using c(1) Suc by (auto simp: plain_def)
    then have "settable v ?x ?y ?td'"
      using b(2) by (auto simp: settable_def synced_def wiped_def screen_curs)
    moreover have "has_room 24 ?td'"
      using r b(2) Suc by (simp add: cost room_def wiped_def del: length_cb_list)
    ultimately obtain td' where "tdisp_reset_cursor ?td' = Some td'" "placed f (home w) td'" "draws v 24 ?td' td'"
      "vt_cells (screen v td') = vt_cells (screen v ?td')" "rewritten f (home w) ?td' td'"
      using reset_places [OF f', of v] on by auto
    moreover have "tdisp_clear_window ?td = Some ?td'"
      using w b(1) Suc by (simp add: tdisp_clear_window_def del: clear_rows.simps)
    ultimately show thesis
      using that [of td'] set b(2) Suc
      by (simp add: cost draws_def rewritten_def wiped_def screen_curs del: length_cb_list)
  qed
qed

text \<open>One character: the display does what the window shows.\<close>

definition shows_as :: "vt \<Rightarrow> nat \<Rightarrow> TWindow \<Rightarrow> u8 list \<Rightarrow> nat \<Rightarrow> TDisplay \<Rightarrow> TDisplay \<Rightarrow> bool" where
  "shows_as v f w cs n td td' \<longleftrightarrow> (\<exists>w'. placed f w' td' \<and> draws v n td td' \<and> rewritten f w' td td' \<and>
     w' = w\<lparr>tw_cur := tw_cur w'\<rparr> \<and>
     (win_cur w', vt_cells (screen v td')) = foldl (show_char w) (win_cur w, vt_cells (screen v td)) cs)"

lemma writec_shows:
  assumes p: "placed f w td" and s: "synced v td" and r: "has_room (char_cost w c) td"
    and c: "plain w c" "in_range w 1"
  shows "\<exists>td'. tdisp_writec c td = Some td' \<and> shows_as v f w [c] (char_cost w c) td td'"
proof -
  have nz: "dp_focused_window td \<noteq> None" using p by (simp add: placed_def)
  have on: "on_screen (1 + tw_offsetx w) (1 + tw_offsety w)" "on_screen (1 + tw_offsetx w) (tc_y (tw_cur w) + 1 + tw_offsety w)"
    using c(2) by (simp_all add: on_screen_def in_range_def)
  note writec = tdisp_writec_def reset_placed [OF p] nz
  note shown = shows_as_def show_char_def win_cur_def
  from c(1) consider "c = 11" | "c = 13" | "c = 10" | "c = 8" | "32 \<le> c" "c < 127" by (auto simp: plain_def)
  then show ?thesis
  proof cases
    case 1
    obtain td' where t: "set_focused home td \<bind> tdisp_reset_cursor = Some td'" "placed f (home w) td'" "draws v 24 td td'"
      "vt_cells (screen v td') = vt_cells (screen v td)" "rewritten f (home w) td td'"
      using moved [OF p s, of home] r on(1) 1 by (auto simp: char_cost_def home_def)
    have "shows_as v f w [11] (char_cost w 11) td td'"
      unfolding shown by (rule exI [of _ "home w"]) (use t in \<open>simp add: char_cost_def home_def\<close>)
    then show ?thesis using t(1) 1 by (auto simp: writec)
  next
    case 2
    have "in_range w 0" using c(2) by (simp add: in_range_def)
    then obtain td' where t: "set_focused home td \<bind> (\<lambda>td. tdisp_clear_window td \<bind> tdisp_reset_cursor) = Some td'"
      "draws v (char_cost w 13) td td'" "placed f (home w) td'"
      "vt_cells (screen v td') = blank (1 + tw_offsetx w) (1 + tw_offsety w) (nat (tw_w w - 2)) (nat (tw_h w - 1)) (vt_cells (screen v td))"
      "rewritten f (home w) td td'"
      using put_clear [OF p s] r c(1) 2 by auto
    have "shows_as v f w [13] (char_cost w 13) td td'"
      unfolding shown by (rule exI [of _ "home w"]) (use t in \<open>simp add: home_def\<close>)
    then show ?thesis using t(1) 2 by (auto simp: writec)
  next
    case 3
    obtain td' where t: "set_focused new_line td \<bind> tdisp_reset_cursor = Some td'" "placed f (new_line w) td'" "draws v 24 td td'"
      "vt_cells (screen v td') = vt_cells (screen v td)" "rewritten f (new_line w) td td'"
      using moved [OF p s, of new_line] r on(2) 3 by (auto simp: char_cost_def new_line_def)
    have "shows_as v f w [10] (char_cost w 10) td td'"
      unfolding shown by (rule exI [of _ "new_line w"]) (use t in \<open>simp add: char_cost_def new_line_def\<close>)
    then show ?thesis using t(1) 3 by (auto simp: writec)
  next
    case 4
    obtain td' where t: "advance (- 1) td \<bind> tdisp_char 8 = Some td'" "draws v 1 td td'"
      "placed f (w\<lparr>tw_cur := (tw_cur w)\<lparr>tc_x := tc_x (tw_cur w) - 1\<rparr>\<rparr>) td'"
      "vt_cells (screen v td') = vt_cells (screen v td)"
      "rewritten f (w\<lparr>tw_cur := (tw_cur w)\<lparr>tc_x := tc_x (tw_cur w) - 1\<rparr>\<rparr>) td td'"
      using put_backspace [OF p s] r 4 by (auto simp: char_cost_def)
    have "shows_as v f w [8] (char_cost w 8) td td'"
      unfolding shown by (rule exI [of _ "w\<lparr>tw_cur := (tw_cur w)\<lparr>tc_x := tc_x (tw_cur w) - 1\<rparr>\<rparr>"])
        (use t in \<open>simp add: char_cost_def\<close>)
    then show ?thesis using t(1) 4 by (auto simp: writec)
  next
    case 5
    then have n: "c \<noteq> 11" "c \<noteq> 13" "c \<noteq> 10" "c \<noteq> 8" by auto
    let ?w = "w\<lparr>tw_cur := (tw_cur w)\<lparr>tc_x := tc_x (tw_cur w) + 1\<rparr>\<rparr>"
    obtain td' where t: "advance 1 td \<bind> tdisp_char c = Some td'" "draws v 1 td td'" "placed f ?w td'"
      "vt_cells (screen v td') = (vt_cells (screen v td))((tc_x (tw_cur w) + tw_offsetx w, tc_y (tw_cur w) + tw_offsety w) := [c])"
      "rewritten f ?w td td'"
      using put_printable [OF p s _ 5] r n by (auto simp: char_cost_def)
    have "shows_as v f w [c] (char_cost w c) td td'"
      unfolding shown by (rule exI [of _ ?w]) (use t n in \<open>simp add: char_cost_def\<close>)
    then show ?thesis using t(1) n by (auto simp: writec)
  qed
qed

section \<open>The text of a task\<close>

lemma show_char_y: "snd (fst (show_char w st c)) \<le> max 1 (snd (fst st) + 1)" "1 \<le> snd (fst st) \<Longrightarrow> 1 \<le> snd (fst (show_char w st c))"
  by (auto simp: show_char_def Let_def split: prod.splits)

lemma same_geometry:
  "show_char (w\<lparr>tw_cur := k\<rparr>) = show_char w" "char_cost (w\<lparr>tw_cur := k\<rparr>) = char_cost w" "plain (w\<lparr>tw_cur := k\<rparr>) = plain w"
  by (simp_all add: fun_eq_iff show_char_def char_cost_def plain_def)

lemma in_range_step:
  assumes "in_range w (Suc k)" "w' = w\<lparr>tw_cur := tw_cur w'\<rparr>" "(win_cur w', cells') = show_char w (win_cur w, cells) c"
  shows "in_range w' k"
proof -
  have e: "snd (fst (show_char w (win_cur w, cells) c)) = tc_y (tw_cur w')"
    using assms(3) [symmetric] by (simp add: win_cur_def)
  have "tc_y (tw_cur w') \<le> max 1 (tc_y (tw_cur w) + 1)" "1 \<le> tc_y (tw_cur w) \<Longrightarrow> 1 \<le> tc_y (tw_cur w')"
    using show_char_y [where w = w and st = "(win_cur w, cells)" and c = c] unfolding e by (simp_all add: win_cur_def)
  moreover have "tw_offsetx w' = tw_offsetx w" "tw_offsety w' = tw_offsety w" "tw_h w' = tw_h w"
    by (subst assms(2); simp)+
  ultimately show ?thesis using assms(1) by (simp add: in_range_def)
qed

lemma rewritten_trans: "rewritten f u a b \<Longrightarrow> rewritten f w b c \<Longrightarrow> rewritten f w a c"
  by (cases a; cases b; cases c) (simp add: rewritten_def)

lemma writecs_show:
  "placed f w td \<Longrightarrow> synced v td \<Longrightarrow> has_room (sum_list (map (char_cost w) cs)) td \<Longrightarrow> \<forall>c \<in> set cs. plain w c \<Longrightarrow>
   in_range w (length cs) \<Longrightarrow> i = int (length pre) \<Longrightarrow>
   \<exists>td'. tdisp_writecs (pre @ cs) i (length cs) td = Some td' \<and> shows_as v f w cs (sum_list (map (char_cost w) cs)) td td'"
proof (induction cs arbitrary: w td pre i)
  case Nil
  then have "shows_as v f w [] 0 td td"
    using draws_same by (auto simp: shows_as_def placed_def rewritten_def intro!: exI [of _ w])
  then show ?case by auto
next
  case (Cons c cs)
  have ir: "in_range w 1" using Cons.prems(5) by (simp add: in_range_def)
  obtain td1 where 1: "tdisp_writec c td = Some td1" "shows_as v f w [c] (char_cost w c) td td1"
    using writec_shows [OF Cons.prems(1,2) room_mono [OF Cons.prems(3)] _ ir, of c] Cons.prems(4) by auto
  obtain w1 where w1: "placed f w1 td1" "draws v (char_cost w c) td td1" "rewritten f w1 td td1" "w1 = w\<lparr>tw_cur := tw_cur w1\<rparr>"
    "(win_cur w1, vt_cells (screen v td1)) = show_char w (win_cur w, vt_cells (screen v td)) c"
    using 1(2) by (auto simp: shows_as_def)
  have g: "show_char w1 = show_char w" "char_cost w1 = char_cost w" "plain w1 = plain w"
    by (subst w1(4), rule same_geometry)+
  have r: "has_room (sum_list (map (char_cost w1) cs)) td1"
    using draws_room [OF w1(2)] Cons.prems(3) by (simp add: g)
  have ir1: "in_range w1 (length cs)" using in_range_step [OF _ w1(4,5)] Cons.prems(5) by simp
  obtain td' where t: "tdisp_writecs ((pre @ [c]) @ cs) (i + 1) (length cs) td1 = Some td'"
    "shows_as v f w1 cs (sum_list (map (char_cost w1) cs)) td1 td'"
    using Cons.IH [OF w1(1) draws_synced [OF w1(2)] r _ ir1, of "i + 1" "pre @ [c]"] Cons.prems(4,6) by (auto simp: g)
  obtain w' where w': "placed f w' td'" "draws v (sum_list (map (char_cost w) cs)) td1 td'" "rewritten f w' td1 td'"
    "w' = w1\<lparr>tw_cur := tw_cur w'\<rparr>"
    "(win_cur w', vt_cells (screen v td')) = foldl (show_char w) (win_cur w1, vt_cells (screen v td1)) cs"
    using t(2) by (auto simp: shows_as_def g)
  have "rewritten f w' td td'" using rewritten_trans [OF w1(3) w'(3)] .
  moreover have "w' = w\<lparr>tw_cur := tw_cur w'\<rparr>" by (subst w'(4), subst w1(4)) simp
  ultimately have "shows_as v f w (c # cs) (sum_list (map (char_cost w) (c # cs))) td td'"
    unfolding shows_as_def using w'(1,5) draws_trans [OF w1(2) w'(2)] w1(5) by (intro exI [of _ w']) simp
  moreover have "agetz (pre @ c # cs) i = Some c" using Cons.prems(6) by (simp add: agetz_def)
  ultimately show ?case using 1(1) t(1) by auto
qed

lemma focus_task_places:
  assumes td: "tdisp_wf td" "synced v td" and id: "short_id tid = int i" "i < length (dp_task_window td)" "i \<le> 128"
    and f: "dp_task_window td ! i = int f" "f < length (dp_active_windows td)" "dp_active_windows td ! f"
      "f < length (dp_windows td)" "dp_windows td ! f = w"
    and on: "on_screen (tc_x (tw_cur w) + tw_offsetx w) (tc_y (tw_cur w) + tw_offsety w)" and r: "has_room 24 td"
  obtains td' where "tdisp_focus_task_window tid td = Some (0, td')" "placed f w td'" "draws v 24 td td'"
    "vt_cells (screen v td') = vt_cells (screen v td)" "dp_windows td' = dp_windows td"
proof -
  let ?td = "td\<lparr>dp_focused_window := Some f\<rparr>"
  have sc: "screen v ?td = screen v td" by (simp add: screen_def)
  have s: "settable v (tc_x (tw_cur w) + tw_offsetx w) (tc_y (tw_cur w) + tw_offsety w) ?td"
    using td(2) by (simp add: settable_def synced_def sc)
  have f': "dp_focused_window ?td = Some f" "f < length (dp_windows ?td)" "dp_windows ?td ! f = w" "has_room 24 ?td"
    using f r by simp_all
  obtain td' where t: "tdisp_reset_cursor ?td = Some td'" "placed f w td'" "draws v 24 ?td td'"
    "vt_cells (screen v td') = vt_cells (screen v ?td)" "rewritten f w ?td td'"
    using reset_places [OF f'(1-3) on f'(4) s] .
  have "tdisp_focus_task_window tid td = Some (0, td')"
    using id f t(1) by (simp add: tdisp_focus_task_window_def tdisp_focus_window_def agetz_in)
  moreover have "dp_windows td' = dp_windows td"
    using t(5) f(4,5) by (simp add: rewritten_def) (metis (no_types, lifting) TDisplay.select_convs(4) TDisplay.surjective
        TDisplay.update_convs(1,2,4) list_update_id)
  ultimately show thesis using that [of td'] t(2-4) by (simp add: draws_def sc)
qed

text \<open>The text of a task appears in its window. When a task with an open window writes printable characters, backspaces,
  new lines, resets and clearing returns, the bytes that the display sends (cursor positions only where its own
  record of the cursor says they are needed) make a terminal that receives them show what a window with a cursor of its
  own shows, cell by cell, and the cursor that the display records is the terminal's. The buffer must have room, and a
  window of exactly one row must not be cleared.\<close>

theorem terminal_shows:
  assumes "tdisp_wf td" "synced v td" "dp_focused_window td \<noteq> None"
    and "short_id tid = int i" "i < length (dp_task_window td)" "i \<le> 128"
    and "dp_task_window td ! i = int f" "f < length (dp_active_windows td)" "dp_active_windows td ! f"
      "f < length (dp_windows td)" "dp_windows td ! f = w"
    and "on_screen (tc_x (tw_cur w) + tw_offsetx w) (tc_y (tw_cur w) + tw_offsety w)"
    and "\<forall>c \<in> set cs. plain w c" "in_range w (length cs)"
    and "length (tdisp_out td) + 24 + sum_list (map (char_cost w) cs) \<le> TERMINAL_BUFFER_SIZE"
  shows "\<exists>td' w'. tdisp_writes_task tid cs (int (length cs)) td = Some td' \<and> tdisp_wf td' \<and> synced v td' \<and>
    dp_focused_window td' = Some f \<and> dp_windows td' = (dp_windows td)[f := w'] \<and> w' = w\<lparr>tw_cur := tw_cur w'\<rparr> \<and>
    (win_cur w', vt_cells (screen v td')) = foldl (show_char w) (win_cur w, vt_cells (screen v td)) cs"
proof -
  have r: "has_room (24 + sum_list (map (char_cost w) cs)) td" using assms(1,15) by (simp add: room_def del: length_cb_list)
  obtain td1 where 1: "tdisp_focus_task_window tid td = Some (0, td1)" "placed f w td1" "draws v 24 td td1"
    "vt_cells (screen v td1) = vt_cells (screen v td)" "dp_windows td1 = dp_windows td"
    using focus_task_places [OF assms(1,2,4-12) room_mono [OF r]] by auto
  obtain td' where t: "tdisp_writecs ([] @ cs) 0 (length cs) td1 = Some td'"
    "shows_as v f w cs (sum_list (map (char_cost w) cs)) td1 td'"
    using writecs_show [OF 1(2) draws_synced [OF 1(3)] draws_room [OF 1(3) r] assms(13,14), of 0 "[]"] by auto
  have "tdisp_writes_task tid cs (int (length cs)) td = Some td'"
    using assms(3) 1(1) t(1) by (auto simp: tdisp_writes_task_def)
  moreover obtain w' where w': "placed f w' td'" "draws v (sum_list (map (char_cost w) cs)) td1 td'" "rewritten f w' td1 td'"
    "w' = w\<lparr>tw_cur := tw_cur w'\<rparr>"
    "(win_cur w', vt_cells (screen v td')) = foldl (show_char w) (win_cur w, vt_cells (screen v td1)) cs"
    using t(2) by (auto simp: shows_as_def)
  moreover have "dp_windows td' = (dp_windows td)[f := w']"
    using w'(3) 1(5) unfolding rewritten_def by (metis TDisplay.select_convs(4) TDisplay.surjective TDisplay.update_convs(4))
  ultimately show ?thesis using 1(4) by (auto simp: placed_def draws_def)
qed

text \<open>An empty buffer, and a display with one window.\<close>

definition demo_window :: TWindow where
  "demo_window = twindow_init 0 2 4 69 9 7"

definition demo_display :: TDisplay where
  "demo_display = \<lparr>dp_cur = tcursor_init 3 5, dp_buffer = cb_init \<lparr>cb_buf = replicate TERMINAL_BUFFER_SIZE 0, cb_start = 0,
     cb_end = 0, cb_size = 0\<rparr>, dp_avail_wids = \<lparr>cb_buf = [], cb_start = 0, cb_end = 0, cb_size = 0\<rparr>, dp_windows = [demo_window],
     dp_task_window = replicate 8 0, dp_active_windows = [True], dp_num_active_windows = 0, dp_focused_window = Some 0,
     dp_active_task = - 1\<rparr>"

definition demo_vt :: vt where
  "demo_vt = \<lparr>vt_x = 3, vt_y = 5, vt_mode = Ground, vt_cells = (\<lambda>_. [])\<rparr>"

lemma demo_ok: "tdisp_wf demo_display" "tdisp_out demo_display = []" "synced demo_vt demo_display"
proof -
  show w: "tdisp_wf demo_display" unfolding demo_display_def by (simp add: cb_init_wf)
  show e: "tdisp_out demo_display = []" unfolding demo_display_def by simp
  show "synced demo_vt demo_display" unfolding synced_def screen_def e by (simp add: demo_vt_def demo_display_def tcursor_init_def)
qed

text \<open>A window of one row that is cleared leaves the cursor of the terminal at the end of the row while the display
  takes it to be at its start: what is written next is out of its place.\<close>

theorem clear_one_row_misplaces:
  assumes p: "placed f w td" and s: "synced v td" and r: "has_room (char_cost w 13) td"
    and w: "tw_h w = 2" "2 < tw_w w" "in_range w 0"
  shows "\<exists>td'. tdisp_writec 13 td = Some td' \<and> placed f (home w) td' \<and>
    vt_x (screen v td') = tc_x (dp_cur td') + (tw_w w - 2) \<and> \<not> synced v td'"
proof -
  let ?td = "td\<lparr>dp_windows := (dp_windows td)[f := home w]\<rparr>"
  let ?k = "nat (tw_w w - 2)" and ?x = "1 + tw_offsetx w" and ?y = "1 + tw_offsety w"
  have f: "focused ?td = Some (home w)" using p by (simp add: placed_def focused_def)
  have geo: "tw_offsetx (home w) = tw_offsetx w" "tw_offsety (home w) = tw_offsety w" "tw_cur (home w) = \<lparr>tc_x = 1, tc_y = 1\<rparr>"
    "tw_h (home w) = 2" "tw_w (home w) = tw_w w" using w(1) by (simp_all add: home_def)
  have on: "on_screen ?x ?y" "1 + tw_offsety w + int 0 < 4294967296" using w(3) by (simp_all add: on_screen_def in_range_def)
  have "settable v ?x ?y ?td" using s by (simp add: settable_def)
  moreover have "has_room (Suc 0 * (24 + ?k)) ?td" using room_mono [OF r] w(1) by (simp add: char_cost_def)
  ultimately obtain b where b: "clear_rows 1 1 (Suc 0) ?k ?td = Some (curs ?td b ?x (?y + int 0))"
    "wiped v (Suc 0 * (24 + ?k)) ?x ?y ?k (Suc 0) ?td b"
    using rows_cleared [OF f, of 1 1 0 ?k v] on by (auto simp: geo)
  let ?td' = "curs ?td b ?x ?y"
  have "tdisp_clear_window ?td = Some ?td'"
    using f b(1) by (simp add: tdisp_clear_window_def geo del: clear_rows.simps)
  moreover have "tdisp_reset_cursor ?td' = Some ?td'"
    using f by (simp add: tdisp_reset_cursor_def tdisp_set_cursor_def geo)
  ultimately have "tdisp_writec 13 td = Some ?td'"
    using p reset_placed [OF p] placed_set [OF p, of home] by (simp add: tdisp_writec_def placed_def)
  moreover have "placed f (home w) ?td'" using p b(2) by (simp add: placed_def geo wiped_def)
  moreover have "vt_x (screen v ?td') = tc_x (dp_cur ?td') + (tw_w w - 2)" using b(2) w(2) by (simp add: screen_curs wiped_def)
  ultimately show ?thesis using w(2) by (auto simp: synced_def)
qed

end
