(* ===== verification/TerminalWindows.thy ===== *)
theory TerminalWindows
  imports Terminal
begin

text \<open>
  The windows of the terminal: every window id is either free or the id of one open window, and the focused
  window is an open one.
\<close>

section \<open>What an operation leaves alone\<close>

text \<open>\<open>painted td td'\<close>: at most bytes have been sent and cursors moved.\<close>

definition painted :: "TDisplay \<Rightarrow> TDisplay \<Rightarrow> bool" where
  "painted td td' \<longleftrightarrow> dp_avail_wids td' = dp_avail_wids td \<and> dp_active_windows td' = dp_active_windows td \<and>
     dp_task_window td' = dp_task_window td \<and> dp_focused_window td' = dp_focused_window td \<and>
     map (\<lambda>w. (tw_wid w, tw_tid w)) (dp_windows td') = map (\<lambda>w. (tw_wid w, tw_tid w)) (dp_windows td)"

named_theorems painting "what sends bytes and moves cursors only"

lemma painted_refl [simp]: "painted td td"
  by (simp add: painted_def)

lemma painted_trans: "painted a b \<Longrightarrow> painted b c \<Longrightarrow> painted a c"
  by (simp add: painted_def)

lemma painted_buffer [simp]: "painted td (td\<lparr>dp_buffer := b, dp_cur := c\<rparr>)" "painted td (td\<lparr>dp_buffer := b\<rparr>)"
  "painted td (td\<lparr>dp_cur := c\<rparr>)"
  by (simp_all add: painted_def)

lemma painted_bind:
  "m \<bind> k = Some td' \<Longrightarrow> (\<And>x. m = Some x \<Longrightarrow> painted td x) \<Longrightarrow> (\<And>x. k x = Some td' \<Longrightarrow> painted x td') \<Longrightarrow> painted td td'"
  by (cases m) (auto intro: painted_trans)

lemma set_cursor_painted [painting]: "tdisp_set_cursor x y td = Some td' \<Longrightarrow> painted td td'"
  by (auto simp: tdisp_set_cursor_def Let_def elim!: bind_SomeE)

lemma reset_painted [painting]: "tdisp_reset_cursor td = Some td' \<Longrightarrow> painted td td'"
  by (auto simp: tdisp_reset_cursor_def intro: set_cursor_painted elim!: bind_SomeE)

lemma char_painted [painting]: "tdisp_char c td = Some td' \<Longrightarrow> painted td td'"
  by (auto simp: tdisp_char_def elim!: bind_SomeE)

lemma str_painted [painting]: "tdisp_str s td = Some td' \<Longrightarrow> painted td td'"
  by (auto simp: tdisp_str_def elim!: bind_SomeE)

lemma strs_painted [painting]: "tdisp_strs n s td = Some td' \<Longrightarrow> painted td td'"
  by (induction n arbitrary: td) (auto elim!: bind_SomeE intro: painted_trans str_painted)

lemma spaces_painted [painting]: "tdisp_spaces n td = Some td' \<Longrightarrow> painted td td'"
  by (induction n arbitrary: td) (auto elim!: bind_SomeE intro: painted_trans char_painted)

lemma rows_painted [painting]: "clear_rows x i n k td = Some td' \<Longrightarrow> painted td td'"
proof (induction n arbitrary: i td)
  case (Suc n)
  then obtain a b where "tdisp_set_cursor x i td = Some a" "tdisp_spaces k a = Some b" "clear_rows x (i + 1) n k b = Some td'"
    by (auto elim!: bind_SomeE)
  then show ?case using Suc.IH by (meson painted_trans set_cursor_painted spaces_painted)
qed simp

lemma clear_painted [painting]: "tdisp_clear_window td = Some td' \<Longrightarrow> painted td td'"
  by (auto simp: tdisp_clear_window_def intro: rows_painted elim!: bind_SomeE)

lemma clear_whole_painted [painting]: "tdisp_clear_whole_window td = Some td' \<Longrightarrow> painted td td'"
  by (auto simp: tdisp_clear_whole_window_def intro: rows_painted elim!: bind_SomeE)

lemma outline_row_painted [painting]:
  assumes "outline_row i w td = Some td'"
  shows "painted td td'"
proof -
  consider "i = 0" | "i \<noteq> 0" "i = tw_h w" | "i \<noteq> 0" "i \<noteq> tw_h w" by blast
  then show ?thesis
  proof cases
    case 1
    then obtain a b n buf d where t: "tdisp_set_cursor 0 i td = Some a" "tdisp_str TERM_TOP_L a = Some b"
      "tdisp_strs n TERM_HOR (b\<lparr>dp_buffer := buf\<rparr>) = Some d" "tdisp_str TERM_TOP_R d = Some td'"
      using assms by (auto simp: outline_row_def Let_def elim!: bind_SomeE)
    show ?thesis
      by (rule painted_trans [OF set_cursor_painted [OF t(1)] painted_trans [OF str_painted [OF t(2)]
        painted_trans [OF painted_buffer(2) painted_trans [OF strs_painted [OF t(3)] str_painted [OF t(4)]]]]])
  next
    case 2
    then obtain a b n d where t: "tdisp_set_cursor 0 i td = Some a" "tdisp_str TERM_BOT_L a = Some b"
      "tdisp_strs n TERM_HOR b = Some d" "tdisp_str TERM_BOT_R d = Some td'"
      using assms by (auto simp: outline_row_def Let_def elim!: bind_SomeE)
    show ?thesis
      by (rule painted_trans [OF set_cursor_painted [OF t(1)] painted_trans [OF str_painted [OF t(2)]
        painted_trans [OF strs_painted [OF t(3)] str_painted [OF t(4)]]]])
  next
    case 3
    then obtain a b c where t: "tdisp_set_cursor 0 i td = Some a" "tdisp_str TERM_VER a = Some b"
      "tdisp_set_cursor (tw_w w - 1) i b = Some c" "tdisp_str TERM_VER c = Some td'"
      using assms by (auto simp: outline_row_def Let_def elim!: bind_SomeE)
    show ?thesis
      by (rule painted_trans [OF set_cursor_painted [OF t(1)] painted_trans [OF str_painted [OF t(2)]
        painted_trans [OF set_cursor_painted [OF t(3)] str_painted [OF t(4)]]]])
  qed
qed

lemma outline_rows_painted [painting]: "outline_rows i n w td = Some td' \<Longrightarrow> painted td td'"
  by (induction n arbitrary: i td) (auto elim!: bind_SomeE intro: painted_trans outline_row_painted)

lemma outline_painted [painting]: "tdisp_draw_window_outline td = Some td' \<Longrightarrow> painted td td'"
  by (auto simp: tdisp_draw_window_outline_def intro: outline_rows_painted elim!: bind_SomeE)

lemma set_focused_painted:
  assumes "set_focused g td = Some td'" "\<And>w. tw_wid (g w) = tw_wid w \<and> tw_tid (g w) = tw_tid w"
  shows "painted td td'"
proof -
  have "map (\<lambda>w. (tw_wid w, tw_tid w)) (ws[f := g (ws ! f)]) = map (\<lambda>w. (tw_wid w, tw_tid w)) ws" if "f < length ws" for f ws
    using that assms(2) [of "ws ! f"] by (simp add: map_update) (metis (mono_tags, lifting) length_map list_update_id nth_map)
  then show ?thesis
    using assms(1) by (auto simp: set_focused_def painted_def aget_eq_Some elim!: bind_SomeE)
qed

lemma writec_painted [painting]:
  assumes "tdisp_writec c td = Some td'"
  shows "painted td td'"
proof -
  have a: "painted a b" if "advance k a = Some b" for k a b
    using that set_focused_painted [of "\<lambda>w. w\<lparr>tw_cur := (tw_cur w)\<lparr>tc_x := tc_x (tw_cur w) + k\<rparr>\<rparr>" a]
    by (auto simp: advance_def intro: painted_trans elim!: bind_SomeE)
  have h: "painted a b" if "set_focused home a = Some b \<or> set_focused new_line a = Some b" for a b
    using that set_focused_painted [of home a b] set_focused_painted [of new_line a b] by (auto simp: home_def new_line_def)
  show ?thesis
    using assms unfolding tdisp_writec_def
    by (auto split: if_splits elim!: bind_SomeE) (meson painted_trans reset_painted clear_painted char_painted a h)+
qed

lemma writecs_painted [painting]: "tdisp_writecs c i n td = Some td' \<Longrightarrow> painted td td'"
  by (induction n arbitrary: i td) (auto elim!: bind_SomeE intro: painted_trans writec_painted)

section \<open>The invariant\<close>

abbreviation free_wids :: "TDisplay \<Rightarrow> int list" where
  "free_wids td \<equiv> cb_list MAX_WINDOWS (dp_avail_wids td)"

definition wids_ok :: "TDisplay \<Rightarrow> bool" where
  "wids_ok td \<longleftrightarrow> length (dp_windows td) = MAX_WINDOWS \<and> length (dp_active_windows td) = MAX_WINDOWS \<and>
     cb_wf MAX_WINDOWS (dp_avail_wids td) \<and> distinct (free_wids td) \<and> set (free_wids td) \<subseteq> int ` {..<MAX_WINDOWS} \<and>
     (\<forall>i<MAX_WINDOWS. int i \<in> set (free_wids td) \<longleftrightarrow> \<not> dp_active_windows td ! i) \<and>
     (\<forall>i<MAX_WINDOWS. dp_active_windows td ! i \<longrightarrow> tw_wid (dp_windows td ! i) = int i)"

definition focus_ok :: "TDisplay \<Rightarrow> bool" where
  "focus_ok td \<longleftrightarrow> (case dp_focused_window td of
     None \<Rightarrow> \<forall>i<MAX_WINDOWS. \<not> dp_active_windows td ! i
   | Some f \<Rightarrow> f < MAX_WINDOWS \<and> dp_active_windows td ! f)"

definition windows_ok :: "TDisplay \<Rightarrow> bool" where
  "windows_ok td \<longleftrightarrow> wids_ok td \<and> focus_ok td"

lemma painted_wids:
  assumes "painted td td'" "wids_ok td"
  shows "wids_ok td'"
proof -
  have m: "map (\<lambda>w. (tw_wid w, tw_tid w)) (dp_windows td') = map (\<lambda>w. (tw_wid w, tw_tid w)) (dp_windows td)"
    using assms(1) by (simp add: painted_def)
  then have l: "length (dp_windows td') = length (dp_windows td)" by (metis length_map)
  have "tw_wid (dp_windows td' ! i) = tw_wid (dp_windows td ! i)" if "i < length (dp_windows td)" for i
    using arg_cong [OF m, of "\<lambda>xs. fst (xs ! i)"] that l by simp
  then show ?thesis using assms l by (simp add: painted_def wids_ok_def)
qed

lemma painted_ok: "painted td td' \<Longrightarrow> windows_ok td \<Longrightarrow> windows_ok td'"
  using painted_wids by (auto simp: windows_ok_def focus_ok_def painted_def split: option.splits)

lemma focus_window_wids:
  assumes "tdisp_focus_window wid td = Some td'" "wids_ok td"
  shows "wids_ok td'" "dp_active_windows td' = dp_active_windows td"
    "0 \<le> wid" "nat wid < MAX_WINDOWS"
    "dp_focused_window td' = (if dp_active_windows td ! nat wid then Some (nat wid) else dp_focused_window td)"
proof -
  let ?td = "td\<lparr>dp_focused_window := Some (nat wid)\<rparr>"
  have l: "0 \<le> wid" "nat wid < length (dp_active_windows td)"
    and c: "if dp_active_windows td ! nat wid then tdisp_reset_cursor ?td = Some td' else td' = td"
    using assms(1) by (auto simp: tdisp_focus_window_def agetz_eq_Some split: if_splits elim!: bind_SomeE)
  have p: "dp_active_windows td ! nat wid \<Longrightarrow> painted ?td td'" using c reset_painted by simp
  have w: "wids_ok ?td" using assms(2) by (simp add: wids_ok_def)
  show "wids_ok td'" using c p painted_wids [OF _ w] assms(2) by (cases "dp_active_windows td ! nat wid") auto
  show "dp_active_windows td' = dp_active_windows td"
    "dp_focused_window td' = (if dp_active_windows td ! nat wid then Some (nat wid) else dp_focused_window td)"
    using c p by (auto simp: painted_def split: if_splits)
  show "0 \<le> wid" "nat wid < MAX_WINDOWS" using l assms(2) by (simp_all add: wids_ok_def)
qed

lemma focus_window_ok: "tdisp_focus_window wid td = Some td' \<Longrightarrow> windows_ok td \<Longrightarrow> windows_ok td'"
  using focus_window_wids [of wid td td'] by (auto simp: windows_ok_def focus_ok_def split: option.splits if_splits)

lemma focus_task_ok: "tdisp_focus_task_window tid td = Some (r, td') \<Longrightarrow> windows_ok td \<Longrightarrow> windows_ok td'"
  by (auto simp: tdisp_focus_task_window_def Let_def intro: focus_window_ok split: if_splits elim!: bind_SomeE)

lemma set_active_ok:
  assumes "tdisp_set_active_task tid td = Some td'" "windows_ok td"
  shows "windows_ok td'"
proof -
  have "windows_ok (td\<lparr>dp_active_task := tid\<rparr>)" using assms(2) by (simp add: windows_ok_def wids_ok_def focus_ok_def split: option.splits)
  then show ?thesis
    using assms(1) by (auto simp: tdisp_set_active_task_def Let_def intro: focus_window_ok elim!: bind_SomeE)
qed

lemma write_task_ok: "tdisp_write_task tid c td = Some td' \<Longrightarrow> windows_ok td \<Longrightarrow> windows_ok td'"
  by (auto simp: tdisp_write_task_def elim!: bind_SomeE dest!: writec_painted focus_task_ok intro: painted_ok)

lemma writes_task_ok: "tdisp_writes_task tid c len td = Some td' \<Longrightarrow> windows_ok td \<Longrightarrow> windows_ok td'"
  by (auto simp: tdisp_writes_task_def elim!: bind_SomeE dest!: writecs_painted focus_task_ok intro: painted_ok)

text \<open>An opened window: its id has left the free ones.\<close>

lemma add_wids:
  assumes "cb_pop MAX_WINDOWS (dp_avail_wids td) = Some (CB_E_NONE, Some wid, q)" "wids_ok td"
  shows "0 \<le> wid" "nat wid < MAX_WINDOWS" "\<not> dp_active_windows td ! nat wid"
    "wids_ok (td\<lparr>dp_avail_wids := q, dp_active_windows := (dp_active_windows td)[nat wid := True], dp_task_window := tw,
       dp_windows := (dp_windows td)[nat wid := twindow_init wid x y w h tid], dp_focused_window := f\<rparr>)"
proof -
  have q: "cb_wf MAX_WINDOWS q" "free_wids td = wid # cb_list MAX_WINDOWS q"
    using cbq.pop_cases [OF _ assms(1)] assms(2) by (auto simp: wids_ok_def)
  then have "wid \<in> int ` {..<MAX_WINDOWS}" using assms(2) by (auto simp: wids_ok_def)
  then obtain i where i: "wid = int i" "i < MAX_WINDOWS" by auto
  then show "0 \<le> wid" "nat wid < MAX_WINDOWS" "\<not> dp_active_windows td ! nat wid"
    using q(2) assms(2) by (auto simp: wids_ok_def)
  have "int j \<in> set (cb_list MAX_WINDOWS q) \<longleftrightarrow> \<not> (dp_active_windows td)[i := True] ! j" if "j < MAX_WINDOWS" for j
    using that assms(2) i q(2) by (cases "j = i") (auto simp: wids_ok_def)
  then show "wids_ok (td\<lparr>dp_avail_wids := q, dp_active_windows := (dp_active_windows td)[nat wid := True], dp_task_window := tw,
       dp_windows := (dp_windows td)[nat wid := twindow_init wid x y w h tid], dp_focused_window := f\<rparr>)"
    using assms(2) i q by (auto simp: wids_ok_def nth_list_update twindow_init_def)
qed

lemma add_window_ok:
  assumes "tdisp_add_window x y w h tid td = Some (r, td')" "windows_ok td"
  shows "windows_ok td'"
proof (cases "cb_size (dp_avail_wids td) < 1 \<or> short_id tid < 0 \<or> int MAX_WINDOW_TASK - 1 < short_id tid")
  case True
  then show ?thesis using assms by (auto simp: tdisp_add_window_def)
next
  case False
  then obtain wid q tw td1 td2 where
    c: "cb_pop MAX_WINDOWS (dp_avail_wids td) = Some (CB_E_NONE, Some wid, q)" "0 \<le> wid"
    "tdisp_draw_window_outline (td\<lparr>dp_avail_wids := q, dp_active_windows := (dp_active_windows td)[nat wid := True],
       dp_task_window := tw, dp_windows := (dp_windows td)[nat wid := twindow_init wid x y w h tid],
       dp_focused_window := Some (nat wid)\<rparr>) = Some td1" "tdisp_reset_cursor td1 = Some td2" "td' = td2"
    using assms(1) by (auto simp: tdisp_add_window_def tdisp_set_active_window_def asetz_eq_Some Let_def elim!: bind_SomeE)
  have w: "wids_ok td" using assms(2) by (simp add: windows_ok_def)
  let ?td = "td\<lparr>dp_avail_wids := q, dp_active_windows := (dp_active_windows td)[nat wid := True],
       dp_task_window := tw, dp_windows := (dp_windows td)[nat wid := twindow_init wid x y w h tid],
       dp_focused_window := Some (nat wid)\<rparr>"
  have "windows_ok ?td"
    using add_wids [OF c(1) w] w by (simp add: windows_ok_def focus_ok_def) (simp add: wids_ok_def)
  then show ?thesis using painted_ok outline_painted [OF c(3)] reset_painted [OF c(4)] c(5) by blast
qed

text \<open>A closed window: the first open one that is left gets the focus.\<close>

lemma focus_first_ok:
  assumes "focus_first i n td = Some td'" "wids_ok td" "dp_focused_window td = None"
    "\<forall>j<i. \<not> dp_active_windows td ! j" "i + n = MAX_WINDOWS"
  shows "windows_ok td'"
  using assms
proof (induction n arbitrary: i)
  case 0
  then show ?case by (simp add: windows_ok_def focus_ok_def)
next
  case (Suc n)
  have "i < length (dp_active_windows td)" using Suc.prems(2,5) by (simp add: wids_ok_def)
  then show ?case
    using Suc.IH [of "Suc i"] Suc.prems focus_window_wids [of "int i" td td']
    by (cases "dp_active_windows td ! i") (auto simp: windows_ok_def focus_ok_def less_Suc_eq)
qed

lemma delete_wids:
  assumes "wids_ok td" "f < MAX_WINDOWS" "dp_active_windows td ! f"
    "cb_push MAX_WINDOWS (int f) (dp_avail_wids td) = Some (CB_E_NONE, q)"
  shows "wids_ok (td\<lparr>dp_active_windows := (dp_active_windows td)[f := False], dp_task_window := tw, dp_avail_wids := q,
    dp_focused_window := None, dp_active_task := t\<rparr>)"
proof -
  have q: "cb_wf MAX_WINDOWS q" "cb_list MAX_WINDOWS q = free_wids td @ [int f]"
    using cbq.push_NONE [OF _ assms(4)] assms(1) by (auto simp: wids_ok_def)
  have "int j \<in> set (cb_list MAX_WINDOWS q) \<longleftrightarrow> \<not> (dp_active_windows td)[f := False] ! j" if "j < MAX_WINDOWS" for j
    using that assms(1-3) q(2) by (cases "j = f") (auto simp: wids_ok_def)
  then show ?thesis using assms(1-3) q by (auto simp: wids_ok_def nth_list_update)
qed

lemma delete_window_ok:
  assumes "tdisp_delete_window td = Some td'" "windows_ok td"
  shows "windows_ok td'"
proof -
  obtain f fw td1 where f: "dp_focused_window td = Some f" "f < length (dp_windows td)" "fw = dp_windows td ! f"
    "tdisp_clear_whole_window td = Some td1"
    using assms(1) by (auto simp: tdisp_delete_window_def focused_def aget_eq_Some Let_def elim!: bind_SomeE)
  have p: "painted td td1" using clear_whole_painted [OF f(4)] .
  have o: "f < MAX_WINDOWS" "dp_active_windows td ! f" "tw_wid fw = int f"
    using assms(2) f by (auto simp: windows_ok_def focus_ok_def wids_ok_def)
  obtain tw q t where t: "cb_push MAX_WINDOWS (int f) (dp_avail_wids td1) = Some (CB_E_NONE, q)"
    "focus_first 0 MAX_WINDOWS (td1\<lparr>dp_active_windows := (dp_active_windows td1)[f := False], dp_task_window := tw,
       dp_avail_wids := q, dp_focused_window := None, dp_active_task := t\<rparr>) = Some td'"
    using assms(1) f o(3) by (auto simp: tdisp_delete_window_def focused_def asetz_eq_Some Let_def elim!: bind_SomeE)
  have "wids_ok td1" "dp_active_windows td1 ! f"
    using painted_wids [OF p] p assms(2) o(2) by (simp_all add: windows_ok_def painted_def)
  from focus_first_ok [OF t(2) delete_wids [OF this(1) o(1) this(2) t(1)]] show ?thesis by simp
qed

lemma move_window_ok:
  assumes "tdisp_move_window x y td = Some td'" "windows_ok td"
  shows "windows_ok td'"
proof -
  obtain f td1 td2 td3 where f: "dp_focused_window td = Some f" "f < length (dp_windows td)"
    "tdisp_clear_whole_window td = Some td1"
    "set_focused (\<lambda>w. twindow_init (tw_wid (dp_windows td ! f)) x y (tw_w w) (tw_h w) (tw_tid w)) td1 = Some td2"
    "tdisp_draw_window_outline td2 = Some td3" "tdisp_reset_cursor td3 = Some td'"
    using assms(1) by (auto simp: tdisp_move_window_def focused_def aget_eq_Some Let_def elim!: bind_SomeE)
  have w: "windows_ok td1" using painted_ok [OF clear_whole_painted [OF f(3)] assms(2)] .
  have g: "dp_focused_window td1 = Some f" using clear_whole_painted [OF f(3)] f(1) by (simp add: painted_def)
  have "tw_wid (dp_windows td ! f) = int f"
    using assms(2) f(1,2) by (auto simp: windows_ok_def focus_ok_def wids_ok_def)
  then have "windows_ok td2"
    using w f(4) g by (auto simp: set_focused_def aget_eq_Some windows_ok_def focus_ok_def wids_ok_def nth_list_update
        twindow_init_def elim!: bind_SomeE)
  then show ?thesis using painted_ok outline_painted [OF f(5)] reset_painted [OF f(6)] by blast
qed

section \<open>From the initial display on\<close>

lemma init_loop_ok:
  "tdisp_init_loop i n td = Some td' \<Longrightarrow> i + n = MAX_WINDOWS \<Longrightarrow> length (dp_windows td) = MAX_WINDOWS \<Longrightarrow>
   length (dp_active_windows td) = MAX_WINDOWS \<Longrightarrow> cb_wf MAX_WINDOWS (dp_avail_wids td) \<Longrightarrow> free_wids td = map int [0..<i] \<Longrightarrow>
   \<forall>j<i. \<not> dp_active_windows td ! j \<Longrightarrow>
   length (dp_windows td') = MAX_WINDOWS \<and> length (dp_active_windows td') = MAX_WINDOWS \<and>
   cb_wf MAX_WINDOWS (dp_avail_wids td') \<and> free_wids td' = map int [0..<MAX_WINDOWS] \<and>
   (\<forall>j<MAX_WINDOWS. \<not> dp_active_windows td' ! j) \<and> dp_focused_window td' = dp_focused_window td"
proof (induction n arbitrary: i td)
  case 0
  then show ?case by simp
next
  case (Suc n)
  obtain q where q: "cb_push MAX_WINDOWS (int i) (dp_avail_wids td) = Some (CB_E_NONE, q)" "cb_wf MAX_WINDOWS q"
    "cb_list MAX_WINDOWS q = free_wids td @ [int i]"
    using cbq.push_room [OF Suc.prems(5), of "int i"] Suc.prems(2,6) by auto
  let ?td = "td\<lparr>dp_windows := (dp_windows td)[i := twindow_init (- 1) (- 1) (- 1) (- 1) (- 1) (- 1)],
    dp_active_windows := (dp_active_windows td)[i := False], dp_avail_wids := q\<rparr>"
  have "tdisp_init_loop (Suc i) n ?td = Some td'" using Suc.prems(1-4) q(1) by simp
  from Suc.IH [OF this] show ?case
    using Suc.prems(2-4,6,7) q(2,3) by (auto simp: less_Suc_eq)
qed

lemma init_ok:
  assumes "tdisp_init td = Some td'" "length (dp_windows td) = MAX_WINDOWS" "length (dp_active_windows td) = MAX_WINDOWS"
    "length (cb_buf (dp_avail_wids td)) = MAX_WINDOWS"
  shows "windows_ok td'"
proof -
  have "cb_wf MAX_WINDOWS (cb_init (dp_avail_wids td))" using assms(4) by (intro cb_init_wf) simp_all
  then have "length (dp_windows td') = MAX_WINDOWS \<and> length (dp_active_windows td') = MAX_WINDOWS \<and>
     cb_wf MAX_WINDOWS (dp_avail_wids td') \<and> free_wids td' = map int [0..<MAX_WINDOWS] \<and>
     (\<forall>j<MAX_WINDOWS. \<not> dp_active_windows td' ! j) \<and> dp_focused_window td' = None"
    using init_loop_ok [OF assms(1) [unfolded tdisp_init_def]] assms(2,3) by simp
  then show ?thesis by (auto simp: windows_ok_def wids_ok_def focus_ok_def distinct_map)
qed

text \<open>What the users of the display may do with it, in any order.\<close>

inductive display_reach :: "TDisplay \<Rightarrow> TDisplay \<Rightarrow> bool" for td0 where
  init: "tdisp_init td0 = Some td \<Longrightarrow> display_reach td0 td"
| add: "display_reach td0 td \<Longrightarrow> tdisp_add_window x y w h tid td = Some (r, td') \<Longrightarrow> display_reach td0 td'"
| focus: "display_reach td0 td \<Longrightarrow> tdisp_focus_window wid td = Some td' \<Longrightarrow> display_reach td0 td'"
| focus_task: "display_reach td0 td \<Longrightarrow> tdisp_focus_task_window tid td = Some (r, td') \<Longrightarrow> display_reach td0 td'"
| active_task: "display_reach td0 td \<Longrightarrow> tdisp_set_active_task tid td = Some td' \<Longrightarrow> display_reach td0 td'"
| delete: "display_reach td0 td \<Longrightarrow> tdisp_delete_window td = Some td' \<Longrightarrow> display_reach td0 td'"
| move: "display_reach td0 td \<Longrightarrow> tdisp_move_window x y td = Some td' \<Longrightarrow> display_reach td0 td'"
| writec: "display_reach td0 td \<Longrightarrow> tdisp_writec c td = Some td' \<Longrightarrow> display_reach td0 td'"
| write_task: "display_reach td0 td \<Longrightarrow> tdisp_write_task tid c td = Some td' \<Longrightarrow> display_reach td0 td'"
| writes_task: "display_reach td0 td \<Longrightarrow> tdisp_writes_task tid cs len td = Some td' \<Longrightarrow> display_reach td0 td'"
| pop: "display_reach td0 td \<Longrightarrow> tdisp_pop td = Some (c, td') \<Longrightarrow> display_reach td0 td'"

lemma reach_windows_ok:
  "display_reach td0 td \<Longrightarrow> length (dp_windows td0) = MAX_WINDOWS \<Longrightarrow> length (dp_active_windows td0) = MAX_WINDOWS \<Longrightarrow>
   length (cb_buf (dp_avail_wids td0)) = MAX_WINDOWS \<Longrightarrow> windows_ok td"
proof (induction rule: display_reach.induct)
  case (pop td c td')
  then have "painted td td'" by (auto simp: tdisp_pop_def elim!: bind_SomeE)
  then show ?case using pop painted_ok by blast
next
  case (writec td c td')
  then show ?case using painted_ok writec_painted by blast
qed (blast intro: init_ok add_window_ok focus_window_ok focus_task_ok set_active_ok delete_window_ok move_window_ok
    write_task_ok writes_task_ok)+

lemma card_open:
  assumes "wids_ok td"
  shows "length (free_wids td) + card {i. i < MAX_WINDOWS \<and> dp_active_windows td ! i} = MAX_WINDOWS"
proof -
  have "set (free_wids td) = int ` {i. i < MAX_WINDOWS \<and> \<not> dp_active_windows td ! i}"
    using assms by (auto simp: wids_ok_def)
  then have "card (set (free_wids td)) = card {i. i < MAX_WINDOWS \<and> \<not> dp_active_windows td ! i}"
    by (simp add: card_image)
  then have "length (free_wids td) = card {i. i < MAX_WINDOWS \<and> \<not> dp_active_windows td ! i}"
    using assms distinct_card [of "free_wids td"] by (simp add: wids_ok_def del: length_cb_list)
  moreover have "card ({i. i < MAX_WINDOWS \<and> \<not> dp_active_windows td ! i} \<union> {i. i < MAX_WINDOWS \<and> dp_active_windows td ! i}) =
      card {i. i < MAX_WINDOWS \<and> \<not> dp_active_windows td ! i} + card {i. i < MAX_WINDOWS \<and> dp_active_windows td ! i}"
    by (rule card_Un_disjoint) auto
  moreover have "{i. i < MAX_WINDOWS \<and> \<not> dp_active_windows td ! i} \<union> {i. i < MAX_WINDOWS \<and> dp_active_windows td ! i} = {..<MAX_WINDOWS}"
    by auto
  ultimately show ?thesis by simp
qed

text \<open>The ids of the windows are accounted for, whatever the tasks do with the display (open, focus, move and close
  windows and write, in any order): the free ids are distinct, an id is free exactly if its window is closed, so that free and open
  windows are always 128 together, an open window knows its id, and the focus is on an open window whenever there is one.\<close>

theorem windows_accounted:
  assumes "display_reach td0 td" "length (dp_windows td0) = MAX_WINDOWS" "length (dp_active_windows td0) = MAX_WINDOWS"
    "length (cb_buf (dp_avail_wids td0)) = MAX_WINDOWS"
  shows "distinct (free_wids td) \<and>
    length (free_wids td) + card {i. i < MAX_WINDOWS \<and> dp_active_windows td ! i} = MAX_WINDOWS \<and>
    (\<forall>i<MAX_WINDOWS. int i \<in> set (free_wids td) \<longleftrightarrow> \<not> dp_active_windows td ! i) \<and>
    (\<forall>i<MAX_WINDOWS. dp_active_windows td ! i \<longrightarrow> tw_wid (dp_windows td ! i) = int i) \<and>
    (case dp_focused_window td of
       None \<Rightarrow> \<forall>i<MAX_WINDOWS. \<not> dp_active_windows td ! i
     | Some f \<Rightarrow> f < MAX_WINDOWS \<and> dp_active_windows td ! f)"
  using reach_windows_ok [OF assms] card_open [of td] by (simp add: windows_ok_def wids_ok_def focus_ok_def del: length_cb_list)

text \<open>A display as it is before its initialisation.\<close>

definition raw_display :: TDisplay where
  "raw_display = \<lparr>dp_cur = tcursor_init 0 0, dp_buffer = \<lparr>cb_buf = replicate TERMINAL_BUFFER_SIZE 0, cb_start = 0,
     cb_end = 0, cb_size = 0\<rparr>, dp_avail_wids = \<lparr>cb_buf = replicate MAX_WINDOWS 0, cb_start = 0, cb_end = 0, cb_size = 0\<rparr>,
     dp_windows = replicate MAX_WINDOWS (twindow_init 0 0 0 0 0 0), dp_task_window = replicate MAX_WINDOW_TASK 0,
     dp_active_windows = replicate MAX_WINDOWS True, dp_num_active_windows = 0, dp_focused_window = None, dp_active_task = 0\<rparr>"

lemma init_returns:
  "length (dp_windows td) = i + n \<Longrightarrow> length (dp_active_windows td) = i + n \<Longrightarrow> cb_wf MAX_WINDOWS (dp_avail_wids td) \<Longrightarrow>
   \<exists>td'. tdisp_init_loop i n td = Some td'"
proof (induction n arbitrary: i td)
  case (Suc n)
  then show ?case using cbq.push_returns [OF Suc.prems(3), of "int i"] by (auto simp: aset_def)
qed simp

lemma raw_display_returns: "\<exists>td. tdisp_init raw_display = Some td"
proof -
  have "cb_wf MAX_WINDOWS (cb_init (dp_avail_wids raw_display))" by (intro cb_init_wf) (simp_all add: raw_display_def)
  then show ?thesis
    using init_returns [of _ 0 MAX_WINDOWS] unfolding tdisp_init_def by (fastforce simp: raw_display_def)
qed

lemma init_loop_buffer: "tdisp_init_loop i n td = Some td' \<Longrightarrow> dp_buffer td' = dp_buffer td"
  by (induction n arbitrary: i td) (auto elim!: bind_SomeE)

lemma init_buffer: "tdisp_init td = Some td' \<Longrightarrow> dp_buffer td' = cb_init (dp_buffer td)"
  using init_loop_buffer by (fastforce simp: tdisp_init_def)

theorem windows_accounted_witness:
  "\<exists>td. display_reach raw_display td \<and> distinct (free_wids td) \<and>
    length (free_wids td) + card {i. i < MAX_WINDOWS \<and> dp_active_windows td ! i} = MAX_WINDOWS"
proof -
  obtain td where "tdisp_init raw_display = Some td" using raw_display_returns by blast
  then have r: "display_reach raw_display td" by (rule display_reach.init)
  have "length (dp_windows raw_display) = MAX_WINDOWS" "length (dp_active_windows raw_display) = MAX_WINDOWS"
    "length (cb_buf (dp_avail_wids raw_display)) = MAX_WINDOWS" by (simp_all add: raw_display_def)
  from windows_accounted [OF r this] show ?thesis using r by blast
qed

end
