(* ===== verification/Shell.thy ===== *)
theory Shell
  imports CircBuf Parse
begin

text \<open>
  The shell, user/shell.c: a line editor that echoes what is typed, and starts a task for the command in the line. Its
  output goes through a circular buffer to the terminal manager. Reading a key, creating a task and sending to it are the
  environment: a turn of the main loop takes the key and the tid of a task that would be created, and tells what
  is created, sent and printed. The string literals are lists of characters.
\<close>

section \<open>The state\<close>

abbreviation CMD_MAX :: nat where "CMD_MAX \<equiv> 41"
abbreviation CMD_BUF_MAX :: nat where "CMD_BUF_MAX \<equiv> 512"
abbreviation SH_CLEAR_COUNT :: int where "SH_CLEAR_COUNT \<equiv> 7"

datatype shell_task = Do_Quit | Do_TrainTR | Do_SwitchSW | Do_SwitchISW | Do_DummyTask | Do_TrainDR | Do_TrainMS | Do_SetTrainMS
  | Do_TrainCAL | Do_TrainACAL | Do_TrainTST | Do_TrainATST | Do_TrainTK

(* src/include/user/shell.h:24-29 *)
record shell_cmd =
  sc_cmd :: "u8 list"
  sc_task :: shell_task
  sc_pri :: int
  sc_sync :: bool

(* src/include/user/shell.h:32-40 *)
record shell =
  sh_cmd :: "u8 list"
  sh_buf :: "u8 cbuf"
  sh_cur_pos :: int
  sh_len :: int
  sh_cmd_count :: int
  sh_clear_count :: int
  sh_clear :: bool

datatype sh_out = ShCreate int shell_task "u8 list" | ShSend int

section \<open>Output\<close>

definition sh_put :: "u8 \<Rightarrow> shell \<Rightarrow> shell option" where
  "sh_put c sh = do { (_, q) \<leftarrow> cb_push CMD_BUF_MAX c (sh_buf sh); Some (sh\<lparr>sh_buf := q\<rparr>) }"

(* src/src/user/shell.c:5-9 *)
fun cmd_cb_push_str :: "u8 list \<Rightarrow> shell \<Rightarrow> shell option" where
  "cmd_cb_push_str [] sh = None"
| "cmd_cb_push_str (c # str) sh =
     (if c \<noteq> 0 then do { sh \<leftarrow> sh_put c sh; cmd_cb_push_str str sh } else Some sh)"

text \<open>The local buffer, and the strings sent to the terminal manager.\<close>

(* src/src/user/shell.c:59-70 *)
function shell_print_loop :: "u8 cbuf \<Rightarrow> u8 list \<Rightarrow> u8 list list \<Rightarrow> (u8 list list \<times> u8 cbuf) option" where
  "shell_print_loop q buf out =
     (if cb_size q = 0 then Some (if 0 < length buf then out @ [buf] else out, q)
      else do {
        (_, c, q') \<leftarrow> cb_pop CMD_BUF_MAX q;
        c \<leftarrow> c;
        let buf = buf @ [c];
        if length buf = 20 - 1 then shell_print_loop q' [] (out @ [buf]) else shell_print_loop q' buf out })"
  by pat_completeness auto
termination
  by (relation "measure (\<lambda>(q, buf, out). unat (cb_size q))")
    (auto simp: cb_pop_def measure_unat elim!: bind_SomeE)

declare shell_print_loop.simps [simp del]

(* src/src/user/shell.c:54-71 *)
definition shell_print :: "shell \<Rightarrow> (u8 list list \<times> shell) option" where
  "shell_print sh = do {
     (out, q) \<leftarrow> shell_print_loop (sh_buf sh) [] [];
     Some (out, sh\<lparr>sh_buf := q\<rparr>) }"

section \<open>The line\<close>

(* src/src/user/shell.c:14-15 *)
fun clear_cmd_loop :: "nat \<Rightarrow> nat \<Rightarrow> u8 list \<Rightarrow> u8 list option" where
  "clear_cmd_loop i 0 cmd = Some cmd"
| "clear_cmd_loop i (Suc n) cmd = do { cmd \<leftarrow> aset cmd i 0; clear_cmd_loop (Suc i) n cmd }"

(* src/src/user/shell.c:11-20 *)
definition shell_clear_cmd :: "shell \<Rightarrow> shell option" where
  "shell_clear_cmd sh = do {
     cmd \<leftarrow> clear_cmd_loop 0 CMD_MAX (sh_cmd sh);
     cmd \<leftarrow> aset cmd (CMD_MAX - 1) 0;
     Some (sh\<lparr>sh_cmd := cmd, sh_cur_pos := 0, sh_len := 0\<rparr>) }"

(* src/src/user/shell.c:22-24 *)
definition shell_prompt :: "shell \<Rightarrow> shell option" where
  "shell_prompt sh = cmd_cb_push_str (lit '' $ '') sh"

text \<open>What the structure holds before is an argument.\<close>

(* src/src/user/shell.c:26-37 *)
definition shell_init :: "shell \<Rightarrow> shell option" where
  "shell_init sh = do {
     sh \<leftarrow> shell_clear_cmd sh;
     shell_prompt (sh\<lparr>sh_cur_pos := 0, sh_len := 0, sh_cmd_count := 0, sh_clear_count := SH_CLEAR_COUNT, sh_clear := False,
       sh_buf := cb_init (sh_buf sh)\<rparr>) }"

text \<open>\<^verbatim>\<open>TERM_RETURN\<close> is 13.\<close>

(* src/src/user/shell.c:39-44 *)
definition shell_clear :: "shell \<Rightarrow> shell option" where
  "shell_clear sh = do {
     sh \<leftarrow> shell_clear_cmd sh;
     sh \<leftarrow> sh_put 13 sh;
     shell_prompt (sh\<lparr>sh_cmd_count := 0\<rparr>) }"

(* src/src/user/shell.c:46-50 *)
definition shell_pre :: "shell \<Rightarrow> shell option" where
  "shell_pre sh = (if sh_cmd_count sh = sh_clear_count sh then shell_clear sh else Some sh)"

text \<open>\<^verbatim>\<open>for (i = len; i > pos; --i) cmd[i] = cmd[i-1]\<close>.\<close>

(* src/src/user/shell.c:85-86 *)
fun shift_right :: "int \<Rightarrow> nat \<Rightarrow> u8 list \<Rightarrow> u8 list option" where
  "shift_right i 0 cmd = Some cmd"
| "shift_right i (Suc n) cmd = do {
     c \<leftarrow> agetz cmd (i - 1);
     cmd \<leftarrow> asetz cmd i c;
     shift_right (i - 1) n cmd }"

(* src/src/user/shell.c:91-93 *)
fun push_cmd :: "int \<Rightarrow> nat \<Rightarrow> shell \<Rightarrow> shell option" where
  "push_cmd i 0 sh = Some sh"
| "push_cmd i (Suc n) sh = do {
     c \<leftarrow> agetz (sh_cmd sh) i;
     sh \<leftarrow> sh_put c sh;
     push_cmd (i + 1) n sh }"

(* src/src/user/shell.c:73-95 *)
definition shell_add_c :: "u8 \<Rightarrow> shell \<Rightarrow> shell option" where
  "shell_add_c c sh =
     (if int CMD_MAX - 2 < sh_len sh then Some sh
      else do {
        sh \<leftarrow> (if sh_clear_count sh < sh_cmd_count sh then shell_clear sh else Some sh);
        let pos = sh_cur_pos sh;
        cmd \<leftarrow> shift_right (sh_len sh) (nat (sh_len sh - pos)) (sh_cmd sh);
        cmd \<leftarrow> asetz cmd pos c;
        let sh = sh\<lparr>sh_cmd := cmd, sh_len := sh_len sh + 1\<rparr>;
        sh \<leftarrow> push_cmd pos (nat (sh_len sh - pos)) sh;
        Some (sh\<lparr>sh_cur_pos := sh_cur_pos sh + 1\<rparr>) })"

(* src/src/user/shell.c:100-103 *)
fun sh_puts :: "u8 \<Rightarrow> nat \<Rightarrow> shell \<Rightarrow> shell option" where
  "sh_puts c 0 sh = Some sh"
| "sh_puts c (Suc n) sh = do { sh \<leftarrow> sh_put c sh; sh_puts c n sh }"

(* src/src/user/shell.c:104-107 *)
fun shift_left :: "int \<Rightarrow> nat \<Rightarrow> shell \<Rightarrow> shell option" where
  "shift_left i 0 sh = Some sh"
| "shift_left i (Suc n) sh = do {
     c \<leftarrow> agetz (sh_cmd sh) (i + 1);
     cmd \<leftarrow> asetz (sh_cmd sh) i c;
     d \<leftarrow> agetz cmd (i - 1);
     sh \<leftarrow> sh_put d (sh\<lparr>sh_cmd := cmd\<rparr>);
     shift_left (i + 1) n sh }"

(* src/src/user/shell.c:97-111 *)
definition shell_rm_c :: "shell \<Rightarrow> shell option" where
  "shell_rm_c sh = do {
     let pos = sh_cur_pos sh;
     sh \<leftarrow> sh_puts 32 (nat (sh_len sh - pos)) sh;
     sh \<leftarrow> sh_puts 8 (nat (sh_len sh - pos)) sh;
     sh \<leftarrow> shift_left pos (nat (sh_len sh - 1 - pos)) sh;
     cmd \<leftarrow> asetz (sh_cmd sh) (sh_len sh - 1) 0;
     Some (sh\<lparr>sh_cmd := cmd, sh_len := sh_len sh - 1\<rparr>) }"

(* src/src/user/shell.c:113-119 *)
definition shell_backspace :: "shell \<Rightarrow> shell option" where
  "shell_backspace sh =
     (if sh_cur_pos sh < 1 then Some sh
      else do {
        sh \<leftarrow> sh_put 8 (sh\<lparr>sh_cur_pos := sh_cur_pos sh - 1\<rparr>);
        shell_rm_c sh })"

section \<open>Messages\<close>

text \<open>A string literal that starts or ends with a new line (10).\<close>

(* src/src/user/shell.c:121-125 *)
definition shell_info :: "shell \<Rightarrow> shell option" where
  "shell_info sh = do {
     sh \<leftarrow> cmd_cb_push_str (10 # lit ''sh: exec `'') sh;
     sh \<leftarrow> cmd_cb_push_str (sh_cmd sh) sh;
     cmd_cb_push_str [96, 10, 0] sh }"

(* src/src/user/shell.c:127-129 *)
definition shell_skip :: "shell \<Rightarrow> shell option" where
  "shell_skip sh = cmd_cb_push_str [10, 0] sh"

(* src/src/user/shell.c:131-135 *)
definition shell_info_msg :: "u8 list \<Rightarrow> shell \<Rightarrow> shell option" where
  "shell_info_msg msg sh = do {
     sh \<leftarrow> cmd_cb_push_str (10 # map of_char ''sh: '' @ [39, 0]) sh;
     sh \<leftarrow> cmd_cb_push_str msg sh;
     cmd_cb_push_str [39, 10, 0] sh }"

(* src/src/user/shell.c:137-142 *)
definition shell_error :: "shell \<Rightarrow> shell option" where
  "shell_error sh = do {
     sh \<leftarrow> cmd_cb_push_str (10 # lit ''sh: unknown cmd `'') (sh\<lparr>sh_cmd_count := sh_cmd_count sh + 1\<rparr>);
     sh \<leftarrow> cmd_cb_push_str (sh_cmd sh) sh;
     cmd_cb_push_str [96, 10, 0] sh }"

(* src/src/user/shell.c:144-148 *)
definition shell_errorf :: "u8 list \<Rightarrow> shell \<Rightarrow> shell option" where
  "shell_errorf msg sh = do {
     sh \<leftarrow> cmd_cb_push_str (10 # map of_char ''cmd err: '' @ [39, 0]) sh;
     sh \<leftarrow> cmd_cb_push_str msg sh;
     cmd_cb_push_str [39, 10, 0] sh }"

(* src/src/user/shell.c:151-158 *)
definition shell_reset :: "shell \<Rightarrow> shell option" where
  "shell_reset sh = do {
     sh \<leftarrow> shell_clear_cmd (sh\<lparr>sh_cmd_count := sh_cmd_count sh + 1\<rparr>);
     if sh_cmd_count sh < sh_clear_count sh then shell_prompt sh else Some sh }"

section \<open>Commands\<close>

(* src/src/user/shell.c:192-197 *)
fun find_cmd :: "u8 list \<Rightarrow> shell_cmd list \<Rightarrow> shell_cmd option option" where
  "find_cmd buf [] = Some None"
| "find_cmd buf (c # path) = do {
     eq \<leftarrow> streq buf (sc_cmd c);
     if eq then Some (Some c) else find_cmd buf path }"

text \<open>\<open>tid\<close> is what \<^verbatim>\<open>CreateArgs\<close> returns. The arguments start at \<^verbatim>\<open>cmd+r\<close>.\<close>

(* src/src/user/shell.c:160-209 *)
definition shell_exec :: "shell_cmd list \<Rightarrow> int \<Rightarrow> shell \<Rightarrow> (sh_out list \<times> shell) option" where
  "shell_exec shell_path tid sh = do {
     (os, sh) \<leftarrow>
       (if sh_len sh = 0 then do { sh \<leftarrow> shell_skip sh; Some ([], sh) }
        else do {
          (r, buf) \<leftarrow> parse_str (sh_cmd sh) 0 (int CMD_BUF_MAX);
          kassert (length buf \<le> CMD_BUF_MAX);
          kassert (r \<noteq> 0);
          c \<leftarrow> find_cmd buf shell_path;
          (case c of
             Some c \<Rightarrow> do {
               n \<leftarrow> strlen (drop (nat r) (sh_cmd sh));
               let created = ShCreate (sc_pri c) (sc_task c) (take (n + 1) (drop (nat r) (sh_cmd sh)));
               if sc_sync c then do {
                 sh \<leftarrow> cmd_cb_push_str [10, 0] sh;
                 Some ([created, ShSend tid], sh) }
               else Some ([created], sh) }
           | None \<Rightarrow> do { sh \<leftarrow> shell_error sh; Some ([], sh) }) });
     sh \<leftarrow> shell_reset sh;
     Some (os, sh) }"

(* src/src/user/shell.c:408-423 *)
definition shell_path :: "shell_cmd list" where
  "shell_path =
    [\<lparr>sc_cmd = lit ''q'', sc_task = Do_Quit, sc_pri = 31, sc_sync = True\<rparr>,
     \<lparr>sc_cmd = lit ''tr'', sc_task = Do_TrainTR, sc_pri = 28, sc_sync = True\<rparr>,
     \<lparr>sc_cmd = lit ''sw'', sc_task = Do_SwitchSW, sc_pri = 28, sc_sync = True\<rparr>,
     \<lparr>sc_cmd = lit ''isw'', sc_task = Do_SwitchISW, sc_pri = 28, sc_sync = True\<rparr>,
     \<lparr>sc_cmd = lit ''dummy'', sc_task = Do_DummyTask, sc_pri = 1, sc_sync = True\<rparr>,
     \<lparr>sc_cmd = lit ''dr'', sc_task = Do_TrainDR, sc_pri = 28, sc_sync = True\<rparr>,
     \<lparr>sc_cmd = lit ''ms'', sc_task = Do_TrainMS, sc_pri = 28, sc_sync = True\<rparr>,
     \<lparr>sc_cmd = lit ''sms'', sc_task = Do_SetTrainMS, sc_pri = 28, sc_sync = True\<rparr>,
     \<lparr>sc_cmd = lit ''cal'', sc_task = Do_TrainCAL, sc_pri = 28, sc_sync = True\<rparr>,
     \<lparr>sc_cmd = lit ''acal'', sc_task = Do_TrainACAL, sc_pri = 28, sc_sync = True\<rparr>,
     \<lparr>sc_cmd = lit ''tst'', sc_task = Do_TrainTST, sc_pri = 28, sc_sync = True\<rparr>,
     \<lparr>sc_cmd = lit ''atst'', sc_task = Do_TrainATST, sc_pri = 28, sc_sync = True\<rparr>,
     \<lparr>sc_cmd = lit ''tk'', sc_task = Do_TrainTK, sc_pri = 28, sc_sync = True\<rparr>]"

text \<open>The start, and a turn of the main loop: the created tasks, the strings printed and the new state.\<close>

(* src/src/user/shell.c:435-436 *)
definition shell_start :: "shell \<Rightarrow> (u8 list list \<times> shell) option" where
  "shell_start sh = do { sh \<leftarrow> shell_init sh; shell_print sh }"

(* src/src/user/shell.c:438-453 *)
definition Shell :: "int \<Rightarrow> u8 \<Rightarrow> shell \<Rightarrow> (sh_out list \<times> u8 list list \<times> shell) option" where
  "Shell tid c sh = do {
     sh \<leftarrow> shell_pre sh;
     (os, sh) \<leftarrow>
       (if c = 13 then shell_exec shell_path tid sh
        else if c = 8 then do { sh \<leftarrow> shell_backspace sh; Some ([], sh) }
        else do { sh \<leftarrow> shell_add_c c sh; Some ([], sh) });
     (strs, sh) \<leftarrow> shell_print sh;
     Some (os, strs, sh) }"

end
