(* ===== verification/ShellProps.thy ===== *)
theory ShellProps
  imports Shell
begin

text \<open>
  The properties of the shell: the line that is executed is the one a line editor holds, what is executed is the
  command of the table that its first word names, with the rest of the line as its arguments, and each key is
  echoed so that the line is seen.
\<close>

section \<open>Output\<close>

abbreviation sh_out_list :: "shell \<Rightarrow> u8 list" where
  "sh_out_list sh \<equiv> cb_list CMD_BUF_MAX (sh_buf sh)"

definition sh_room :: "nat \<Rightarrow> shell \<Rightarrow> bool" where
  "sh_room n sh \<longleftrightarrow> cb_wf CMD_BUF_MAX (sh_buf sh) \<and> length (sh_out_list sh) + n \<le> CMD_BUF_MAX"

text \<open>\<open>prints bs f\<close>: \<open>f\<close> puts \<open>bs\<close> into the buffer when there is room, and does nothing else.\<close>

definition prints :: "u8 list \<Rightarrow> (shell \<Rightarrow> shell option) \<Rightarrow> bool" where
  "prints bs f \<longleftrightarrow> (\<forall>sh. sh_room (length bs) sh \<longrightarrow>
     (\<exists>q. f sh = Some (sh\<lparr>sh_buf := q\<rparr>) \<and> cb_wf CMD_BUF_MAX q \<and> cb_list CMD_BUF_MAX q = sh_out_list sh @ bs))"

lemma sh_room_mono: "sh_room n sh \<Longrightarrow> m \<le> n \<Longrightarrow> sh_room m sh"
  by (simp add: sh_room_def)

lemma printsE:
  assumes "prints bs f" "sh_room (length bs + n) sh"
  obtains q where "f sh = Some (sh\<lparr>sh_buf := q\<rparr>)" "cb_wf CMD_BUF_MAX q" "cb_list CMD_BUF_MAX q = sh_out_list sh @ bs"
    "sh_room n (sh\<lparr>sh_buf := q\<rparr>)"
proof -
  have "sh_room (length bs) sh" using sh_room_mono [OF assms(2)] by simp
  then obtain q where q: "f sh = Some (sh\<lparr>sh_buf := q\<rparr>)" "cb_wf CMD_BUF_MAX q" "cb_list CMD_BUF_MAX q = sh_out_list sh @ bs"
    using assms(1) by (auto simp: prints_def)
  then show thesis using that [of q] assms(2) by (simp add: sh_room_def del: length_cb_list)
qed

lemma prints_Nil: "prints [] Some"
  unfolding prints_def by (metis append.right_neutral sh_room_def shell.surjective shell.update_convs(2))

lemma prints_bind:
  assumes "prints as f" "prints bs g"
  shows "prints (as @ bs) (\<lambda>sh. f sh \<bind> g)"
  unfolding prints_def
proof (intro allI impI)
  fix sh assume "sh_room (length (as @ bs)) sh"
  then obtain q where q: "f sh = Some (sh\<lparr>sh_buf := q\<rparr>)" "cb_list CMD_BUF_MAX q = sh_out_list sh @ as"
    "sh_room (length bs + 0) (sh\<lparr>sh_buf := q\<rparr>)"
    using printsE [OF assms(1), of "length bs" sh] by auto
  obtain q' where "g (sh\<lparr>sh_buf := q\<rparr>) = Some (sh\<lparr>sh_buf := q'\<rparr>)" "cb_wf CMD_BUF_MAX q'"
    "cb_list CMD_BUF_MAX q' = cb_list CMD_BUF_MAX q @ bs"
    using printsE [OF assms(2) q(3)] by auto
  then show "\<exists>q. f sh \<bind> g = Some (sh\<lparr>sh_buf := q\<rparr>) \<and> cb_wf CMD_BUF_MAX q \<and> cb_list CMD_BUF_MAX q = sh_out_list sh @ (as @ bs)"
    using q by auto
qed

lemma prints_put: "prints [c] (sh_put c)"
  unfolding prints_def
proof (intro allI impI)
  fix sh assume "sh_room (length [c]) sh"
  then show "\<exists>q. sh_put c sh = Some (sh\<lparr>sh_buf := q\<rparr>) \<and> cb_wf CMD_BUF_MAX q \<and> cb_list CMD_BUF_MAX q = sh_out_list sh @ [c]"
    using cbq.push_room [of CMD_BUF_MAX "sh_buf sh" c] by (auto simp: sh_put_def sh_room_def)
qed

lemma prints_str: "0 \<notin> set s \<Longrightarrow> prints s (cmd_cb_push_str (s @ 0 # junk))"
proof (induction s)
  case Nil
  then show ?case using prints_Nil by simp
next
  case (Cons c s)
  then show ?case using prints_bind [OF prints_put Cons.IH, of c] by simp
qed

definition prompt :: "u8 list" where
  "prompt = [32, 36, 32]"

lemma prints_prompt: "prints prompt shell_prompt"
proof -
  have "lit '' $ '' = prompt @ 0 # []" by (simp add: lit_def prompt_def)
  then show ?thesis using prints_str [of prompt "[]"]
    by (simp add: shell_prompt_def [abs_def] prompt_def del: cmd_cb_push_str.simps)
qed

lemma shell_loop_ok:
  "cb_wf CMD_BUF_MAX q \<Longrightarrow> length buf < 19 \<Longrightarrow>
   \<exists>out' q'. shell_print_loop q buf out = Some (out', q') \<and> cb_wf CMD_BUF_MAX q' \<and> cb_list CMD_BUF_MAX q' = [] \<and>
     concat out' = concat out @ buf @ cb_list CMD_BUF_MAX q"
proof (induction q buf out rule: shell_print_loop.induct)
  case (1 q buf out)
  show ?case
  proof (cases "cb_list CMD_BUF_MAX q = []")
    case True
    then show ?thesis using 1(3) by (subst shell_print_loop.simps) (auto simp: cb_list_empty_iff)
  next
    case False
    then obtain c q' where p: "cb_pop CMD_BUF_MAX q = Some (CB_E_NONE, Some c, q')" "cb_wf CMD_BUF_MAX q'"
      "cb_list CMD_BUF_MAX q = c # cb_list CMD_BUF_MAX q'"
      using cbq.pop_some [OF 1(3)] by (metis list.collapse)
    have z: "cb_size q \<noteq> 0" using False by (simp add: cb_list_empty_iff)
    show ?thesis
    proof (cases "length (buf @ [c]) = 20 - 1")
      case True
      then show ?thesis
        using 1(1) [OF z p(1) refl refl refl refl True p(2)] z p(1,3) by (subst shell_print_loop.simps) (simp add: Let_def)
    next
      case False
      then show ?thesis
        using 1(2) [OF z p(1) refl refl refl refl False p(2)] 1(4) z p(1,3) by (subst shell_print_loop.simps) (simp add: Let_def)
    qed
  qed
qed

lemma shell_print_ok:
  assumes "cb_wf CMD_BUF_MAX (sh_buf sh)"
  obtains strs q where "shell_print sh = Some (strs, sh\<lparr>sh_buf := q\<rparr>)" "concat strs = sh_out_list sh" "cb_wf CMD_BUF_MAX q"
    "cb_list CMD_BUF_MAX q = []"
  using shell_loop_ok [OF assms, of "[]" "[]"] by (auto simp: shell_print_def)

section \<open>The line editor\<close>

definition edit_line :: "u8 list \<Rightarrow> u8 \<Rightarrow> u8 list" where
  "edit_line ln c = (if c = 8 then butlast ln else if length ln < CMD_MAX - 1 then ln @ [c] else ln)"

definition line_cmd :: "u8 list \<Rightarrow> u8 list" where
  "line_cmd ln = ln @ replicate (CMD_MAX - length ln) 0"

text \<open>The structure holds the line \<open>ln\<close>, and \<open>out\<close> is left to be printed. A line that has been started is
  not going to be cleared.\<close>

definition shell_line :: "u8 list \<Rightarrow> shell \<Rightarrow> u8 list \<Rightarrow> bool" where
  "shell_line out sh ln \<longleftrightarrow> sh_cmd sh = line_cmd ln \<and> length ln < CMD_MAX \<and> 0 \<notin> set ln \<and>
     sh_cur_pos sh = int (length ln) \<and> sh_len sh = int (length ln) \<and> sh_clear_count sh = SH_CLEAR_COUNT \<and>
     cb_wf CMD_BUF_MAX (sh_buf sh) \<and> sh_out_list sh = out"

definition shell_st :: "u8 list \<Rightarrow> shell \<Rightarrow> u8 list \<Rightarrow> bool" where
  "shell_st out sh ln \<longleftrightarrow> shell_line out sh ln \<and> (SH_CLEAR_COUNT \<le> sh_cmd_count sh \<longrightarrow> ln = [])"

abbreviation shell_rep :: "shell \<Rightarrow> u8 list \<Rightarrow> bool" where
  "shell_rep \<equiv> shell_st []"

lemma clear_loop:
  "i + n = length cmd \<Longrightarrow> clear_cmd_loop i n cmd = Some (take i cmd @ replicate n 0)"
proof (induction n arbitrary: i cmd)
  case (Suc n)
  have "take (Suc i) (cmd[i := 0]) @ replicate n 0 = take i cmd @ replicate (Suc n) 0"
    using Suc.prems by (simp add: take_Suc_conv_app_nth)
  then show ?case using Suc.IH [of "Suc i" "cmd[i := 0]"] Suc.prems by simp
qed simp

lemma clear_cmd_ok:
  assumes "length (sh_cmd sh) = CMD_MAX"
  shows "shell_clear_cmd sh = Some (sh\<lparr>sh_cmd := line_cmd [], sh_cur_pos := 0, sh_len := 0\<rparr>)"
proof -
  have "(replicate CMD_MAX (0::u8))[CMD_MAX - 1 := 0] = replicate CMD_MAX 0"
    by (metis list_update_id nth_replicate diff_less zero_less_numeral zero_less_one)
  then show ?thesis
    using clear_loop [of 0 CMD_MAX "sh_cmd sh"] assms by (simp add: shell_clear_cmd_def line_cmd_def)
qed

lemma length_line_cmd: "length ln < CMD_MAX \<Longrightarrow> length (line_cmd ln) = CMD_MAX"
  by (simp add: line_cmd_def)

lemma line_cmd_snoc:
  assumes "length ln < CMD_MAX - 1"
  shows "(line_cmd ln)[length ln := c] = line_cmd (ln @ [c])"
proof -
  obtain n where n: "CMD_MAX - length ln = Suc n" "CMD_MAX - length (ln @ [c]) = n" using assms by (cases "CMD_MAX - length ln") auto
  show ?thesis unfolding line_cmd_def n by (simp add: list_update_append)
qed

lemma line_cmd_butlast:
  assumes "ln \<noteq> []" "length ln < CMD_MAX"
  shows "(line_cmd ln)[length ln - 1 := 0] = line_cmd (butlast ln)"
proof -
  obtain cs c where l: "ln = cs @ [c]" using assms(1) by (cases ln rule: rev_cases) auto
  have "CMD_MAX - length cs = Suc (CMD_MAX - length (cs @ [c]))" using assms(2) l by simp
  then show ?thesis unfolding line_cmd_def l by (simp add: list_update_append)
qed

lemma line_room: "shell_line out sh ln \<Longrightarrow> length out + n \<le> CMD_BUF_MAX \<Longrightarrow> sh_room n sh"
  by (simp add: shell_line_def sh_room_def del: length_cb_list)

lemma line_length: "shell_line out sh ln \<Longrightarrow> length (sh_cmd sh) = CMD_MAX"
  by (simp add: shell_line_def length_line_cmd)

lemma st_room: "shell_st out sh ln \<Longrightarrow> length out + n \<le> CMD_BUF_MAX \<Longrightarrow> sh_room n sh"
  by (simp add: shell_st_def shell_line_def sh_room_def del: length_cb_list)

lemma st_length: "shell_st out sh ln \<Longrightarrow> length (sh_cmd sh) = CMD_MAX"
  by (simp add: shell_st_def shell_line_def length_line_cmd)

lemma shell_clear_ok:
  assumes "length (sh_cmd sh) = CMD_MAX" "sh_room 4 sh"
  obtains q where "shell_clear sh = Some (sh\<lparr>sh_cmd := line_cmd [], sh_cur_pos := 0, sh_len := 0, sh_cmd_count := 0, sh_buf := q\<rparr>)"
    "cb_wf CMD_BUF_MAX q" "cb_list CMD_BUF_MAX q = sh_out_list sh @ 13 # prompt"
proof -
  let ?sh = "sh\<lparr>sh_cmd := line_cmd [], sh_cur_pos := 0, sh_len := 0\<rparr>"
  have r: "sh_room (length [13 :: u8] + 3) ?sh" using assms(2) by (simp add: sh_room_def)
  obtain p where p: "sh_put 13 ?sh = Some (?sh\<lparr>sh_buf := p\<rparr>)" "cb_list CMD_BUF_MAX p = sh_out_list sh @ [13]"
    "sh_room 3 (?sh\<lparr>sh_buf := p\<rparr>)"
    using printsE [OF prints_put r] by auto
  have r2: "sh_room (length prompt + 0) (?sh\<lparr>sh_buf := p, sh_cmd_count := 0\<rparr>)" using p(3) by (simp add: sh_room_def prompt_def)
  obtain q where "shell_prompt (?sh\<lparr>sh_buf := p, sh_cmd_count := 0\<rparr>) = Some (?sh\<lparr>sh_buf := p, sh_cmd_count := 0\<rparr>\<lparr>sh_buf := q\<rparr>)"
    "cb_wf CMD_BUF_MAX q" "cb_list CMD_BUF_MAX q = cb_list CMD_BUF_MAX p @ prompt"
    using printsE [OF prints_prompt r2] by auto
  moreover have "?sh\<lparr>sh_buf := p, sh_cmd_count := 0\<rparr>\<lparr>sh_buf := q\<rparr> =
      sh\<lparr>sh_cmd := line_cmd [], sh_cur_pos := 0, sh_len := 0, sh_cmd_count := 0, sh_buf := q\<rparr>" by (cases sh) simp
  ultimately show thesis
    using that [of q] clear_cmd_ok [OF assms(1)] p(1,2) by (simp add: shell_clear_def)
qed

lemma clear_st:
  assumes "shell_st out sh ln" "length out + 4 \<le> CMD_BUF_MAX"
  obtains sh' where "shell_clear sh = Some sh'" "shell_st (out @ 13 # prompt) sh' []" "sh_cmd_count sh' = 0"
proof -
  obtain q where q: "shell_clear sh = Some (sh\<lparr>sh_cmd := line_cmd [], sh_cur_pos := 0, sh_len := 0, sh_cmd_count := 0, sh_buf := q\<rparr>)"
    "cb_wf CMD_BUF_MAX q" "cb_list CMD_BUF_MAX q = sh_out_list sh @ 13 # prompt"
    using shell_clear_ok [OF st_length [OF assms(1)] st_room [OF assms]] .
  show thesis by (rule that [OF q(1)]) (use q(2,3) assms(1) in \<open>simp_all add: shell_st_def shell_line_def\<close>)
qed

lemma pre_st:
  assumes "shell_rep sh ln"
  obtains sh' where "shell_pre sh = Some sh'"
    "shell_st (if sh_cmd_count sh = SH_CLEAR_COUNT then 13 # prompt else []) sh' ln"
    "sh_cmd_count sh' = (if sh_cmd_count sh = SH_CLEAR_COUNT then 0 else sh_cmd_count sh)"
proof (cases "sh_cmd_count sh = SH_CLEAR_COUNT")
  case True
  then have "ln = []" "sh_clear_count sh = SH_CLEAR_COUNT" using assms by (simp_all add: shell_st_def shell_line_def)
  then show thesis using clear_st [OF assms] that True by (auto simp: shell_pre_def)
next
  case False
  then show thesis using that [of sh] assms by (simp add: shell_pre_def shell_st_def shell_line_def)
qed

text \<open>What a key makes the shell print.\<close>

definition echo :: "bool \<Rightarrow> u8 list \<Rightarrow> u8 \<Rightarrow> u8 list" where
  "echo over ln c =
     (if c = 8 then (if ln = [] then [] else [8, 32, 8])
      else if length ln < CMD_MAX - 1 then (if over then 13 # prompt else []) @ [c] else [])"

lemma add_c_st:
  assumes s: "shell_st out sh ln" "length out \<le> 4" and c: "c \<noteq> 0" "c \<noteq> 8" and n: "sh_cmd_count sh \<noteq> SH_CLEAR_COUNT"
  obtains sh' where "shell_add_c c sh = Some sh'"
    "shell_st (out @ echo (SH_CLEAR_COUNT < sh_cmd_count sh) ln c) sh' (edit_line ln c)"
proof (cases "length ln < CMD_MAX - 1")
  case False
  then show thesis using that [of sh] s c by (simp add: shell_add_c_def edit_line_def echo_def shell_st_def shell_line_def)
next
  case l: True
  have cc: "sh_clear_count sh = SH_CLEAR_COUNT" "sh_len sh = int (length ln)" using s(1) by (simp_all add: shell_st_def shell_line_def)
  obtain sh1 out1 where 1: "(if sh_clear_count sh < sh_cmd_count sh then shell_clear sh else Some sh) = Some sh1"
    "shell_st out1 sh1 ln" "out1 = out @ (if SH_CLEAR_COUNT < sh_cmd_count sh then 13 # prompt else [])"
    "\<not> SH_CLEAR_COUNT \<le> sh_cmd_count sh1"
  proof (cases "SH_CLEAR_COUNT < sh_cmd_count sh")
    case True
    then have "ln = []" using s(1) by (simp add: shell_st_def shell_line_def)
    obtain sh' where sh': "shell_clear sh = Some sh'" "shell_st (out @ 13 # prompt) sh' []" "sh_cmd_count sh' = 0"
      using clear_st [OF s(1)] s(2) by auto
    show thesis by (rule that [of sh' "out @ 13 # prompt"]) (use sh' True cc(1) \<open>ln = []\<close> in simp_all)
  next
    case False
    show thesis by (rule that [of sh out]) (use False s(1) n cc(1) in simp_all)
  qed
  let ?cmd = "line_cmd (ln @ [c])"
  let ?sh = "sh1\<lparr>sh_cmd := ?cmd, sh_len := int (length ln) + 1\<rparr>"
  have f: "sh_cur_pos sh1 = int (length ln)" "sh_len sh1 = int (length ln)" "sh_cmd sh1 = line_cmd ln"
    using 1(2) by (simp_all add: shell_st_def shell_line_def)
  have set: "asetz (line_cmd ln) (int (length ln)) c = Some ?cmd"
    using l line_cmd_snoc [OF l, of c] by (simp add: asetz_def aset_def length_line_cmd)
  have get: "agetz ?cmd (int (length ln)) = Some c"
    using l by (simp add: agetz_def aget_def line_cmd_def nth_append)
  have "length out1 + 1 \<le> CMD_BUF_MAX" using 1(3) s(2) by (simp add: prompt_def)
  then have "sh_room (length [c] + 0) ?sh" using st_room [OF 1(2), of 1] by (simp add: sh_room_def)
  then obtain q where q: "sh_put c ?sh = Some (?sh\<lparr>sh_buf := q\<rparr>)" "cb_wf CMD_BUF_MAX q"
    "cb_list CMD_BUF_MAX q = sh_out_list ?sh @ [c]"
    using printsE [OF prints_put] by metis
  have "nat (int (length ln) + 1 - int (length ln)) = Suc 0" by simp
  then have "shell_add_c c sh = Some (?sh\<lparr>sh_buf := q, sh_cur_pos := int (length ln) + 1\<rparr>)"
    using l 1(1) f set get q(1) cc(2) by (simp add: shell_add_c_def Let_def)
  moreover have "shell_st (out @ echo (SH_CLEAR_COUNT < sh_cmd_count sh) ln c)
      (?sh\<lparr>sh_buf := q, sh_cur_pos := int (length ln) + 1\<rparr>) (edit_line ln c)"
    using 1(2,3,4) q(2,3) l c by (simp add: shell_st_def shell_line_def echo_def edit_line_def)
  ultimately show thesis using that by blast
qed

lemma backspace_st:
  assumes s: "shell_st out sh ln" "length out \<le> 4" and n: "sh_cmd_count sh \<noteq> SH_CLEAR_COUNT"
  obtains sh' where "shell_backspace sh = Some sh'" "shell_st (out @ echo over ln 8) sh' (edit_line ln 8)"
proof (cases "ln = []")
  case True
  then show thesis using that [of sh] s by (simp add: shell_backspace_def edit_line_def echo_def shell_st_def shell_line_def)
next
  case False
  let ?n = "int (length ln)"
  let ?sh = "sh\<lparr>sh_cur_pos := ?n - 1\<rparr>"
  have f: "sh_cur_pos sh = ?n" "sh_len sh = ?n" "sh_cmd sh = line_cmd ln" "length ln < CMD_MAX" "1 \<le> ?n"
    using s(1) False by (simp_all add: shell_st_def shell_line_def Suc_le_eq)
  have r: "sh_room (length [8, 32, 8 :: u8] + 0) ?sh" using st_room [OF s(1), of 3] s(2) by (simp add: sh_room_def)
  have "prints ([8] @ [32] @ [8]) (\<lambda>sh. sh_put 8 sh \<bind> (\<lambda>sh. sh_put 32 sh \<bind> sh_put 8))"
    by (intro prints_bind prints_put)
  from printsE [of "[8, 32, 8]", OF _ r] this obtain q where
    q: "sh_put 8 ?sh \<bind> (\<lambda>sh. sh_put 32 sh \<bind> sh_put 8) = Some (?sh\<lparr>sh_buf := q\<rparr>)" "cb_wf CMD_BUF_MAX q"
    "cb_list CMD_BUF_MAX q = out @ [8, 32, 8]"
    using s(1) by (auto simp: shell_st_def shell_line_def)
  have one: "nat (?n - (?n - 1)) = Suc 0" "nat (?n - 1 - (?n - 1)) = 0" by simp_all
  have "nat (?n - 1) = length ln - 1" by simp
  then have set: "asetz (line_cmd ln) (?n - 1) 0 = Some (line_cmd (butlast ln))"
    using line_cmd_butlast [OF False f(4)] f(4,5) length_line_cmd [OF f(4)] False by (auto simp: asetz_def aset_def)
  obtain a b where ab: "sh_put 8 ?sh = Some a" "sh_put 32 a = Some b" "sh_put 8 b = Some (?sh\<lparr>sh_buf := q\<rparr>)"
    using q(1) by (auto elim!: bind_SomeE)
  have "sh_len a = ?n \<and> sh_cur_pos a = ?n - 1 \<and> sh_len b = ?n"
    using ab(1,2) f(2) by (auto simp: sh_put_def elim!: bind_SomeE)
  then have "shell_backspace sh = Some (?sh\<lparr>sh_buf := q, sh_cmd := line_cmd (butlast ln), sh_len := ?n - 1\<rparr>)"
    using f ab set one False by (simp add: shell_backspace_def shell_rm_c_def Let_def)
  moreover have "shell_st (out @ echo over ln 8) (?sh\<lparr>sh_buf := q, sh_cmd := line_cmd (butlast ln), sh_len := ?n - 1\<rparr>) (edit_line ln 8)"
    using s(1) q(2,3) False n f(5)
    by (auto simp: shell_st_def shell_line_def echo_def edit_line_def of_nat_diff dest: in_set_butlastD)
  ultimately show thesis using that by blast
qed

section \<open>The command\<close>

definition word_of :: "u8 list \<Rightarrow> u8 list" where
  "word_of ln = takeWhile (\<lambda>c. c \<noteq> 32) (dropWhile (\<lambda>c. c = 32) ln)"

definition args_of :: "u8 list \<Rightarrow> u8 list" where
  "args_of ln = drop 1 (dropWhile (\<lambda>c. c \<noteq> 32) (dropWhile (\<lambda>c. c = 32) ln))"

text \<open>What the line \<open>ln\<close> asks for.\<close>

definition named_cmd :: "u8 list \<Rightarrow> shell_cmd option" where
  "named_cmd ln = find (\<lambda>c. sc_cmd c = word_of ln @ [0]) shell_path"

definition dispatch :: "int \<Rightarrow> u8 list \<Rightarrow> sh_out list" where
  "dispatch tid ln = (case named_cmd ln of None \<Rightarrow> []
     | Some c \<Rightarrow> [ShCreate (sc_pri c) (sc_task c) (args_of ln @ [0]), ShSend tid])"

lemma streq_strings: "0 \<notin> set a \<Longrightarrow> 0 \<notin> set b \<Longrightarrow> streq (a @ 0 # x) (b @ 0 # y) = Some (a = b)"
proof (induction a arbitrary: b)
  case Nil
  then show ?case by (cases b) auto
next
  case (Cons c a)
  then show ?case by (cases b) auto
qed

lemma find_cmd_find:
  "0 \<notin> set w \<Longrightarrow> \<forall>c \<in> set path. \<exists>z. sc_cmd c = z @ [0] \<and> 0 \<notin> set z \<Longrightarrow>
   find_cmd (w @ [0]) path = Some (find (\<lambda>c. sc_cmd c = w @ [0]) path)"
proof (induction path)
  case (Cons c path)
  then obtain z where "sc_cmd c = z @ [0]" "0 \<notin> set z" by auto
  then show ?case using Cons streq_strings [of w z "[]" "[]"] by auto
qed simp

lemma shell_path_cmds: "\<forall>c \<in> set shell_path. \<exists>z. sc_cmd c = z @ [0] \<and> 0 \<notin> set z"
  by (auto simp: shell_path_def lit_def)

lemma shell_path_sync: "\<forall>c \<in> set shell_path. sc_sync c"
  by (simp add: shell_path_def)

lemma dropWhile_spaces: "\<exists>k. ln = replicate k c @ dropWhile (\<lambda>x. x = c) ln"
proof (induction ln)
  case (Cons x ln)
  then obtain k where "ln = replicate k c @ dropWhile (\<lambda>x. x = c) ln" by blast
  then show ?case by (cases "x = c") (auto intro: exI [of _ "Suc k"] exI [of _ 0])
qed simp

text \<open>The line with the zeros after it: spaces, the word, the character after it, and the arguments.\<close>

lemma line_parts:
  assumes "length ln < CMD_MAX - 1"
  obtains k c m where "line_cmd ln = replicate k 32 @ word_of ln @ c # args_of ln @ replicate (Suc m) 0" "c = 32 \<or> c = 0"
    "word_of ln \<noteq> [] \<or> c = 0"
proof -
  obtain k where k: "ln = replicate k 32 @ dropWhile (\<lambda>c. c = 32) ln" using dropWhile_spaces [of ln 32] ..
  let ?b = "dropWhile (\<lambda>c. c = 32) ln"
  let ?r = "dropWhile (\<lambda>c. c \<noteq> 32) ?b"
  have b: "?b = word_of ln @ ?r" by (simp add: word_of_def)
  have ln: "ln = replicate k 32 @ word_of ln @ ?r" using k b by simp
  have "CMD_MAX - length ln = Suc (Suc (CMD_MAX - length ln - 2))" using assms by arith
  then obtain m where m: "CMD_MAX - length ln = Suc (Suc m)" ..
  then have "line_cmd ln = ln @ 0 # replicate (Suc m) 0" by (simp add: line_cmd_def)
  from trans [OF this arg_cong [OF ln, of "\<lambda>x. x @ 0 # replicate (Suc m) 0"]]
  have e: "line_cmd ln = replicate k 32 @ word_of ln @ ?r @ 0 # replicate (Suc m) 0" by simp
  show thesis
  proof (cases ?r)
    case Nil
    have a: "args_of ln = []" unfolding args_of_def Nil by (rule drop_Nil)
    have "line_cmd ln = replicate k 32 @ word_of ln @ 0 # args_of ln @ replicate (Suc m) 0" unfolding e Nil a by (simp only: append_Nil)
    then show thesis by (rule that) simp_all
  next
    case (Cons x xs)
    then have x: "x = 32" using hd_dropWhile [of "\<lambda>c. c \<noteq> 32" ?b] by auto
    have "word_of ln \<noteq> []"
    proof
      assume "word_of ln = []"
      then have "?b = x # xs" using b Cons by simp
      then have "x \<noteq> 32" using hd_dropWhile [of "\<lambda>c. c = 32" ln] by auto
      then show False using x by simp
    qed
    moreover have a: "args_of ln = xs" unfolding args_of_def Cons by simp
    have "line_cmd ln = replicate k 32 @ word_of ln @ 32 # args_of ln @ replicate (Suc (Suc m)) 0"
      unfolding e Cons x a by simp
    ultimately show thesis by (intro that [of k 32 "Suc m"]) simp_all
  qed
qed

lemma set_word_args: "set (word_of ln) \<subseteq> set ln" "32 \<notin> set (word_of ln)" "set (args_of ln) \<subseteq> set ln"
  unfolding word_of_def args_of_def
  by (auto dest: set_takeWhileD set_dropWhileD in_set_dropD)

lemma strlen_string: "0 \<notin> set a \<Longrightarrow> strlen (a @ 0 # x) = Some (length a)"
  by (induction a) auto

lemma parse_line:
  assumes "length ln < CMD_MAX - 1" "0 \<notin> set ln"
  obtains r where "parse_str (line_cmd ln) 0 (int CMD_BUF_MAX) = Some (int r, word_of ln @ [0])" "r \<noteq> 0"
    "length (word_of ln) < CMD_MAX"
    "strlen (drop r (line_cmd ln)) = Some (length (args_of ln))"
    "take (length (args_of ln) + 1) (drop r (line_cmd ln)) = args_of ln @ [0]"
proof -
  obtain k c m where l: "line_cmd ln = replicate k 32 @ word_of ln @ c # args_of ln @ replicate (Suc m) 0" "c = 32 \<or> c = 0"
    "word_of ln \<noteq> [] \<or> c = 0" using line_parts [OF assms(1)] .
  have z: "0 \<notin> set (word_of ln)" "0 \<notin> set (args_of ln)" "32 \<notin> set (word_of ln)" using set_word_args assms(2) by blast+
  have len: "length (word_of ln) < CMD_MAX"
    using arg_cong [OF l(1), of length] assms(1) length_line_cmd [of ln] by simp
  have w: "\<forall>x \<in> set (word_of ln). x \<noteq> 32 \<and> x \<noteq> 0" using z by auto
  have l': "line_cmd ln = [] @ replicate k 32 @ word_of ln @ c # args_of ln @ replicate (Suc m) 0" using l(1) by simp
  have "parse_str (line_cmd ln) (length ([] :: u8 list)) (int CMD_BUF_MAX) = Some (int (k + length (word_of ln) + 1), word_of ln @ [0])"
    using parse_str_word [OF l' l(3) w l(2), of CMD_BUF_MAX] len by simp
  moreover have "drop (k + length (word_of ln) + 1) (line_cmd ln) = args_of ln @ 0 # replicate m 0"
    by (subst l(1)) simp
  ultimately show thesis
    using that [of "k + length (word_of ln) + 1"] strlen_string [OF z(2), of "replicate m 0"] len by simp
qed

section \<open>Enter\<close>

definition unknown_msg :: "u8 list \<Rightarrow> u8 list" where
  "unknown_msg ln = 10 # map of_char ''sh: unknown cmd `'' @ ln @ [96, 10]"

definition enter_echo :: "int \<Rightarrow> u8 list \<Rightarrow> u8 list" where
  "enter_echo n ln =
     (let bad = ln \<noteq> [] \<and> named_cmd ln = None in
      (if bad then unknown_msg ln else [10]) @
      (if n + (if bad then 2 else 1) < SH_CLEAR_COUNT then prompt else []))"

lemma reset_st:
  assumes s: "shell_line out sh ln" "length out + 3 \<le> CMD_BUF_MAX"
  obtains sh' where "shell_reset sh = Some sh'"
    "shell_st (out @ (if sh_cmd_count sh + 1 < SH_CLEAR_COUNT then prompt else [])) sh' []"
proof -
  let ?sh = "sh\<lparr>sh_cmd_count := sh_cmd_count sh + 1, sh_cmd := line_cmd [], sh_cur_pos := 0, sh_len := 0\<rparr>"
  have c: "shell_clear_cmd (sh\<lparr>sh_cmd_count := sh_cmd_count sh + 1\<rparr>) = Some ?sh"
    using clear_cmd_ok [of "sh\<lparr>sh_cmd_count := sh_cmd_count sh + 1\<rparr>"] line_length [OF s(1)] by simp
  have st: "shell_line out ?sh []" using s(1) by (simp add: shell_line_def)
  show thesis
  proof (cases "sh_cmd_count sh + 1 < SH_CLEAR_COUNT")
    case True
    have "length prompt + 0 = 3" by (simp add: prompt_def)
    then have "sh_room (length prompt + 0) ?sh" using line_room [OF st, of 3] s(2) by (simp only:)
    from printsE [OF prints_prompt this] obtain q where q: "shell_prompt ?sh = Some (?sh\<lparr>sh_buf := q\<rparr>)" "cb_wf CMD_BUF_MAX q"
      "cb_list CMD_BUF_MAX q = sh_out_list ?sh @ prompt" by blast
    have "sh_out_list ?sh = out" using st by (simp add: shell_line_def)
    note q = q(1,2) q(3) [unfolded this]
    then show thesis
      using that [of "?sh\<lparr>sh_buf := q\<rparr>"] q c True st by (simp add: shell_reset_def shell_st_def shell_line_def)
  next
    case False
    then show thesis using that [of ?sh] c st s(1) by (simp add: shell_reset_def shell_st_def shell_line_def)
  qed
qed

lemma push_st:
  assumes s: "shell_line out sh ln" "0 \<notin> set m" "length out + length m \<le> CMD_BUF_MAX" "str = m @ 0 # junk"
  obtains sh' where "cmd_cb_push_str str sh = Some sh'" "shell_line (out @ m) sh' ln" "sh_cmd_count sh' = sh_cmd_count sh"
proof -
  obtain q where "cmd_cb_push_str (m @ 0 # junk) sh = Some (sh\<lparr>sh_buf := q\<rparr>)" "cb_wf CMD_BUF_MAX q"
    "cb_list CMD_BUF_MAX q = sh_out_list sh @ m"
    using printsE [OF prints_str [OF s(2)], of 0 sh] line_room [OF s(1), of "length m"] s(3) by auto
  then show thesis using that [of "sh\<lparr>sh_buf := q\<rparr>"] s(1,4) by (simp add: shell_line_def)
qed

lemma error_st:
  assumes s: "shell_line out sh ln" "length out \<le> 4" "0 \<notin> set ln" "length ln < CMD_MAX"
  obtains sh' where "shell_error sh = Some sh'" "shell_line (out @ unknown_msg ln) sh' ln" "sh_cmd_count sh' = sh_cmd_count sh + 1"
proof -
  let ?m = "10 # map of_char ''sh: unknown cmd `'' :: u8 list"
  let ?sh = "sh\<lparr>sh_cmd_count := sh_cmd_count sh + 1\<rparr>"
  have st: "shell_line out ?sh ln" using s(1) by (simp add: shell_line_def)
  obtain sh1 where 1: "cmd_cb_push_str (10 # lit ''sh: unknown cmd `'') ?sh = Some sh1" "shell_line (out @ ?m) sh1 ln"
    "sh_cmd_count sh1 = sh_cmd_count ?sh"
    by (rule push_st [OF st, of ?m "10 # lit ''sh: unknown cmd `''" "[]"]) (use s(2) in \<open>simp_all add: lit_def\<close>)
  have "CMD_MAX - length ln = Suc (CMD_MAX - length ln - 1)" using s(4) by simp
  then have cmd: "sh_cmd sh1 = ln @ 0 # replicate (CMD_MAX - length ln - 1) 0"
    using 1(2) unfolding shell_line_def line_cmd_def by (metis replicate_Suc)
  obtain sh2 where 2: "cmd_cb_push_str (sh_cmd sh1) sh1 = Some sh2" "shell_line ((out @ ?m) @ ln) sh2 ln" "sh_cmd_count sh2 = sh_cmd_count sh1"
    by (rule push_st [OF 1(2) s(3) _ cmd]) (use s(2,4) in simp_all)
  obtain sh3 where 3: "cmd_cb_push_str [96, 10, 0] sh2 = Some sh3" "shell_line (((out @ ?m) @ ln) @ [96, 10]) sh3 ln"
    "sh_cmd_count sh3 = sh_cmd_count sh2"
    by (rule push_st [OF 2(2), of "[96, 10]" "[96, 10, 0]" "[]"]) (use s(2,4) in simp_all)
  have "((out @ ?m) @ ln) @ [96, 10] = out @ unknown_msg ln" by (simp add: unknown_msg_def)
  then have "shell_line (out @ unknown_msg ln) sh3 ln" using 3(2) by (simp only:)
  moreover have "shell_error sh = Some sh3" unfolding shell_error_def using 1(1) 2(1) 3(1) by simp
  moreover have "sh_cmd_count sh3 = sh_cmd_count sh + 1" using 1(3) 2(3) 3(3) by simp
  ultimately show thesis using that by blast
qed

text \<open>The command of the line is executed.\<close>

lemma exec_st:
  assumes s: "shell_st out sh ln" "length out \<le> 4" "length ln < CMD_MAX - 1"
  obtains sh' where "shell_exec shell_path tid sh = Some (dispatch tid ln, sh')"
    "shell_st (out @ enter_echo (sh_cmd_count sh) ln) sh' []"
proof -
  have l: "shell_line out sh ln" "sh_cmd sh = line_cmd ln" "sh_len sh = int (length ln)" "0 \<notin> set ln"
    using s(1) by (simp_all add: shell_st_def shell_line_def)
  let ?bad = "ln \<noteq> [] \<and> named_cmd ln = None"
  let ?m = "if ?bad then unknown_msg ln else [10]"
  obtain r where r: "parse_str (line_cmd ln) 0 (int CMD_BUF_MAX) = Some (int r, word_of ln @ [0])" "r \<noteq> 0"
    "length (word_of ln) < CMD_MAX" "strlen (drop r (line_cmd ln)) = Some (length (args_of ln))"
    "take (length (args_of ln) + 1) (drop r (line_cmd ln)) = args_of ln @ [0]"
    using parse_line [OF s(3) l(4)] .
  have find: "find_cmd (word_of ln @ [0]) shell_path = Some (named_cmd ln)"
    using find_cmd_find [OF _ shell_path_cmds] set_word_args(1) l(4) by (auto simp: named_cmd_def)
  have sync: "named_cmd ln = Some c \<Longrightarrow> sc_sync c" for c
    using shell_path_sync by (auto simp: named_cmd_def find_Some_iff)
  have none: "named_cmd [] = None" by (simp add: named_cmd_def word_of_def shell_path_def lit_def)
  obtain sh1 where nl: "cmd_cb_push_str [10, 0] sh = Some sh1" "shell_line (out @ [10]) sh1 ln" "sh_cmd_count sh1 = sh_cmd_count sh"
    by (rule push_st [OF l(1), of "[10]" "[10, 0]" "[]"]) (use s(2) in simp_all)
  obtain sh2 where er: "shell_error sh = Some sh2" "shell_line (out @ unknown_msg ln) sh2 ln" "sh_cmd_count sh2 = sh_cmd_count sh + 1"
    using error_st [OF l(1) s(2) l(4)] s(3) by auto
  let ?sh = "if ?bad then sh2 else sh1"
  have m: "shell_line (out @ ?m) ?sh ln" "sh_cmd_count ?sh = sh_cmd_count sh + (if ?bad then 1 else 0)"
    by (cases ?bad, simp only: nl(2,3) er(2,3) if_True if_False simp_thms, simp only: nl(2,3) er(2,3) if_True if_False simp_thms)
      (cases ?bad, simp_all only: nl(2,3) er(2,3) if_True if_False simp_thms add_0_right)
  have "length ?m \<le> 60" using s(3) by (simp add: unknown_msg_def)
  then have lm: "length (out @ ?m) + 3 \<le> CMD_BUF_MAX" using s(2) by (simp del: if_split)
  obtain sh3 where r3: "shell_reset ?sh = Some sh3"
    "shell_st ((out @ ?m) @ (if sh_cmd_count ?sh + 1 < SH_CLEAR_COUNT then prompt else [])) sh3 []"
    using reset_st [OF m(1) lm] .
  have "(out @ ?m) @ (if sh_cmd_count ?sh + 1 < SH_CLEAR_COUNT then prompt else []) = out @ enter_echo (sh_cmd_count sh) ln"
    unfolding m(2) by (simp add: enter_echo_def Let_def add.assoc)
  moreover have "shell_exec shell_path tid sh = Some (dispatch tid ln, sh3)"
  proof (cases "ln = []")
    case True
    then show ?thesis using nl(1) r3(1) l(3) none by (simp add: shell_exec_def shell_skip_def dispatch_def)
  next
    case False
    have r': "parse_str (sh_cmd sh) 0 512 = Some (int r, word_of ln @ [0])" using r(1) l(2) by simp
    show ?thesis
    proof (cases "named_cmd ln")
      case None
      then show ?thesis using False l(3) r' r(2,3) find er(1) r3(1) by (simp add: shell_exec_def dispatch_def)
    next
      case (Some c)
      then show ?thesis
        using False l(2,3) r' r(2-5) find sync [OF Some] nl(1) r3(1) by (simp add: shell_exec_def dispatch_def)
    qed
  qed
  ultimately show thesis using that r3(2) by simp
qed

section \<open>Turns and runs\<close>

lemma shell_turn:
  assumes s: "shell_rep sh ln" and c: "c \<noteq> 0" "c = 13 \<longrightarrow> length ln < CMD_MAX - 1"
  obtains strs sh' where
    "Shell tid c sh = Some (if c = 13 then dispatch tid ln else [], strs, sh')" "shell_rep sh' (if c = 13 then [] else edit_line ln c)"
proof -
  let ?out = "if sh_cmd_count sh = SH_CLEAR_COUNT then 13 # prompt else []"
  obtain sh1 where pre: "shell_pre sh = Some sh1" "shell_st ?out sh1 ln"
    "sh_cmd_count sh1 = (if sh_cmd_count sh = SH_CLEAR_COUNT then 0 else sh_cmd_count sh)" using pre_st [OF s] .
  have n: "sh_cmd_count sh1 \<noteq> SH_CLEAR_COUNT" "length ?out \<le> 4" using pre(3) by (simp_all add: prompt_def)
  obtain sh2 out2 where 2: "(if c = 13 then shell_exec shell_path tid sh1
        else if c = 8 then do { sh \<leftarrow> shell_backspace sh1; Some ([], sh) }
        else do { sh \<leftarrow> shell_add_c c sh1; Some ([], sh) }) = Some (if c = 13 then dispatch tid ln else [], sh2)"
    "shell_st out2 sh2 (if c = 13 then [] else edit_line ln c)"
  proof -
    consider "c = 13" | "c = 8" | "c \<noteq> 13" "c \<noteq> 8" by blast
    then show thesis
    proof cases
      case 1
      have "length ln < CMD_MAX - 1" using 1 c(2) by simp
      from exec_st [OF pre(2) n(2) this, of tid] obtain sh' where
        "shell_exec shell_path tid sh1 = Some (dispatch tid ln, sh')" "shell_st (?out @ enter_echo (sh_cmd_count sh1) ln) sh' []" .
      then show thesis using that [of sh'] 1 by simp
    next
      case 2
      obtain sh' where "shell_backspace sh1 = Some sh'" "shell_st (?out @ echo False ln 8) sh' (edit_line ln 8)"
        using backspace_st [OF pre(2) n(2,1)] .
      then show thesis using that [of sh'] 2 by simp
    next
      case 3
      obtain sh' where "shell_add_c c sh1 = Some sh'" "shell_st (?out @ echo (SH_CLEAR_COUNT < sh_cmd_count sh1) ln c) sh' (edit_line ln c)"
        using add_c_st [OF pre(2) n(2) c(1) 3(2) n(1)] .
      then show thesis using that [of sh'] 3 by simp
    qed
  qed
  have wf: "cb_wf CMD_BUF_MAX (sh_buf sh2)" using 2(2) by (simp add: shell_st_def shell_line_def)
  obtain strs q where p: "shell_print sh2 = Some (strs, sh2\<lparr>sh_buf := q\<rparr>)" "cb_wf CMD_BUF_MAX q" "cb_list CMD_BUF_MAX q = []"
    using shell_print_ok [OF wf] .
  have "shell_rep (sh2\<lparr>sh_buf := q\<rparr>) (if c = 13 then [] else edit_line ln c)"
    using 2(2) p(2,3) by (simp add: shell_st_def shell_line_def)
  then show thesis using that [of strs "sh2\<lparr>sh_buf := q\<rparr>"] pre(1) 2(1) p(1) by (simp add: Shell_def)
qed

text \<open>The keys typed, each with the tid of the task that its turn would create, and what is created and sent.\<close>

fun shell_run :: "(int \<times> u8) list \<Rightarrow> shell \<Rightarrow> (sh_out list \<times> shell) option" where
  "shell_run [] sh = Some ([], sh)"
| "shell_run ((tid, c) # ks) sh = do {
     (os, _, sh) \<leftarrow> Shell tid c sh;
     (os', sh) \<leftarrow> shell_run ks sh;
     Some (os @ os', sh) }"

text \<open>What is asked for by keys typed after the line \<open>ln\<close>, the line that is left, and whether no line with a
  character in its last place is entered.\<close>

fun keys_ask :: "u8 list \<Rightarrow> (int \<times> u8) list \<Rightarrow> sh_out list" where
  "keys_ask ln [] = []"
| "keys_ask ln ((tid, c) # ks) =
     (if c = 13 then dispatch tid ln @ keys_ask [] ks else keys_ask (edit_line ln c) ks)"

fun keys_line :: "u8 list \<Rightarrow> (int \<times> u8) list \<Rightarrow> u8 list" where
  "keys_line ln [] = ln"
| "keys_line ln ((tid, c) # ks) = keys_line (if c = 13 then [] else edit_line ln c) ks"

fun keys_fit :: "u8 list \<Rightarrow> (int \<times> u8) list \<Rightarrow> bool" where
  "keys_fit ln [] = True"
| "keys_fit ln ((tid, c) # ks) =
     (c \<noteq> 0 \<and> (if c = 13 then length ln < CMD_MAX - 1 \<and> keys_fit [] ks else keys_fit (edit_line ln c) ks))"

lemma shell_run_ok:
  "shell_rep sh ln \<Longrightarrow> keys_fit ln ks \<Longrightarrow> \<exists>sh'. shell_run ks sh = Some (keys_ask ln ks, sh') \<and> shell_rep sh' (keys_line ln ks)"
proof (induction ks arbitrary: sh ln)
  case (Cons k ks)
  obtain tid c where k: "k = (tid, c)" by (cases k)
  obtain strs sh1 where 1: "Shell tid c sh = Some (if c = 13 then dispatch tid ln else [], strs, sh1)"
    "shell_rep sh1 (if c = 13 then [] else edit_line ln c)"
    using shell_turn [OF Cons.prems(1), of c tid] Cons.prems(2) k by (auto split: if_splits)
  show ?case using Cons.IH [OF 1(2)] 1(1) Cons.prems(2) k by (auto split: if_splits)
qed simp

lemma shell_start_ok:
  assumes "length (sh_cmd sh0) = CMD_MAX" "length (cb_buf (sh_buf sh0)) = CMD_BUF_MAX"
  obtains strs sh where "shell_start sh0 = Some (strs, sh)" "shell_rep sh []"
proof -
  let ?sh = "sh0\<lparr>sh_cmd := line_cmd [], sh_cur_pos := 0, sh_len := 0, sh_cmd_count := 0, sh_clear_count := SH_CLEAR_COUNT,
    sh_clear := False, sh_buf := cb_init (sh_buf sh0)\<rparr>"
  have wf: "cb_wf CMD_BUF_MAX (cb_init (sh_buf sh0))" using assms(2) by (simp add: cb_init_wf)
  have e: "cb_list CMD_BUF_MAX (cb_init (sh_buf sh0)) = []" by simp
  have "sh_room (length prompt + 0) ?sh" using wf e by (simp add: sh_room_def prompt_def del: length_cb_list)
  from printsE [OF prints_prompt this] obtain q where q: "shell_prompt ?sh = Some (?sh\<lparr>sh_buf := q\<rparr>)" "cb_wf CMD_BUF_MAX q" by blast
  have i: "shell_init sh0 = Some (?sh\<lparr>sh_buf := q\<rparr>)"
    unfolding shell_init_def clear_cmd_ok [OF assms(1)] bind.bind_lunit using q(1) by simp
  have "cb_wf CMD_BUF_MAX (sh_buf (?sh\<lparr>sh_buf := q\<rparr>))" using q(2) by simp
  from shell_print_ok [OF this] obtain strs q' where p: "shell_print (?sh\<lparr>sh_buf := q\<rparr>) = Some (strs, ?sh\<lparr>sh_buf := q\<rparr>\<lparr>sh_buf := q'\<rparr>)"
    "cb_wf CMD_BUF_MAX q'" "cb_list CMD_BUF_MAX q' = []" .
  have "shell_rep (?sh\<lparr>sh_buf := q\<rparr>\<lparr>sh_buf := q'\<rparr>) []" using p(2,3) by (simp add: shell_st_def shell_line_def)
  moreover have "shell_start sh0 = Some (strs, ?sh\<lparr>sh_buf := q\<rparr>\<lparr>sh_buf := q'\<rparr>)"
    unfolding shell_start_def i using p(1) by (simp only: bind.bind_lunit)
  ultimately show thesis by (rule that [rotated])
qed

text \<open>A line that is typed without corrections.\<close>

lemma type_line:
  "\<forall>c \<in> set w. c \<notin> {0, 8, 13} \<Longrightarrow> length ln + length w < CMD_MAX \<Longrightarrow>
   keys_ask ln (map (Pair tid) w @ ks) = keys_ask (ln @ w) ks \<and> keys_line ln (map (Pair tid) w @ ks) = keys_line (ln @ w) ks \<and>
   keys_fit ln (map (Pair tid) w @ ks) = keys_fit (ln @ w) ks"
proof (induction w arbitrary: ln)
  case (Cons c w)
  then have "edit_line ln c = ln @ [c]" "c \<noteq> 13" "c \<noteq> 0" by (auto simp: edit_line_def)
  then show ?case using Cons.IH [of "ln @ [c]"] Cons.prems by simp
qed simp

lemma enter_line:
  assumes "length (sh_cmd sh0) = CMD_MAX" "length (cb_buf (sh_buf sh0)) = CMD_BUF_MAX"
    "\<forall>c \<in> set w. c \<notin> {0, 8, 13}" "length w < CMD_MAX - 1"
  shows "\<exists>strs sh sh'. shell_start sh0 = Some (strs, sh) \<and> shell_run (map (Pair tid) w @ [(tid, 13)]) sh = Some (dispatch tid w, sh')"
proof -
  obtain strs sh where s: "shell_start sh0 = Some (strs, sh)" "shell_rep sh []" using shell_start_ok [OF assms(1,2)] .
  note t = type_line [OF assms(3), of "[]" tid "[(tid, 13)]"]
  have "keys_fit [] (map (Pair tid) w @ [(tid, 13)])" "keys_ask [] (map (Pair tid) w @ [(tid, 13)]) = dispatch tid w"
    using t assms(4) by simp_all
  then show ?thesis using s shell_run_ok [OF s(2)] by metis
qed

section \<open>Claims\<close>

text \<open>C25: The shell executes the lines that are typed. From its start, for any keys (other than NUL, and with no line of the
  full 40 characters entered), it returns to reading after each of them, and what it creates is, for each Enter and in order,
  the task of the table whose name is the first word of the line, with the table's priority and with the rest of the line
  after one space as the arguments, and it waits for that task; nothing is created for an empty line and for an unknown
  word. The line is what is left of the keys since the last Enter: a backspace takes back the last character, and what does not
  fit is dropped. All that was to be printed has been printed.\<close>

theorem shell_executes_line:
  assumes "length (sh_cmd sh0) = CMD_MAX" "length (cb_buf (sh_buf sh0)) = CMD_BUF_MAX" "keys_fit [] ks"
  shows "\<exists>strs sh sh'. shell_start sh0 = Some (strs, sh) \<and> shell_run ks sh = Some (keys_ask [] ks, sh') \<and>
    sh_cmd sh' = line_cmd (keys_line [] ks) \<and> sh_out_list sh' = []"
proof -
  obtain strs sh where s: "shell_start sh0 = Some (strs, sh)" "shell_rep sh []" using shell_start_ok [OF assms(1,2)] .
  obtain sh' where "shell_run ks sh = Some (keys_ask [] ks, sh')" "shell_rep sh' (keys_line [] ks)"
    using shell_run_ok [OF s(2) assms(3)] by blast
  then show ?thesis using s(1) by (auto simp: shell_st_def shell_line_def)
qed

definition raw_shell :: shell where
  "raw_shell = \<lparr>sh_cmd = replicate CMD_MAX 0, sh_buf = \<lparr>cb_buf = replicate CMD_BUF_MAX 0, cb_start = 0, cb_end = 0, cb_size = 0\<rparr>,
     sh_cur_pos = 0, sh_len = 0, sh_cmd_count = 0, sh_clear_count = 0, sh_clear = False\<rparr>"

text \<open>\<^verbatim>\<open>trx\<close>, a backspace, \<^verbatim>\<open> 5\<close>, Enter, and an unknown command.\<close>

definition typed_keys :: "(int \<times> u8) list" where
  "typed_keys = map (Pair 40) [116, 114, 120, 8, 32, 53, 13] @ map (Pair 41) [120, 13, 113]"

theorem shell_executes_line_witness:
  "\<exists>strs sh sh'. shell_start raw_shell = Some (strs, sh) \<and>
     shell_run typed_keys sh = Some ([ShCreate 28 Do_TrainTR [53, 0], ShSend 40], sh') \<and> sh_cmd sh' = line_cmd [113]"
proof -
  have "length (sh_cmd raw_shell) = CMD_MAX" "length (cb_buf (sh_buf raw_shell)) = CMD_BUF_MAX" by (simp_all add: raw_shell_def)
  moreover have "keys_fit [] typed_keys" "keys_line [] typed_keys = [113]"
    by (simp_all add: typed_keys_def edit_line_def)
  moreover have "keys_ask [] typed_keys = [ShCreate 28 Do_TrainTR [53, 0], ShSend 40]"
    by (simp add: typed_keys_def edit_line_def dispatch_def named_cmd_def word_of_def args_of_def shell_path_def lit_def of_char_def)
  ultimately show ?thesis using shell_executes_line [of raw_shell typed_keys] by fastforce
qed

text \<open>A line of 40 characters that ends with the name of a command: the arguments would start after the array.\<close>

theorem full_line_faults:
  assumes "shell_rep sh (replicate 38 32 @ [116, 114])"
  shows "shell_exec shell_path tid sh = None"
proof -
  let ?ln = "replicate 38 32 @ [116, 114] :: u8 list"
  have l: "line_cmd ?ln = [] @ replicate 38 32 @ [116, 114] @ 0 # []" by (simp add: line_cmd_def)
  have "parse_str (line_cmd ?ln) (length ([] :: u8 list)) (int CMD_BUF_MAX) = Some (int 41, [116, 114] @ [0])"
    using parse_str_word [OF l, of CMD_BUF_MAX] by simp
  moreover have "find_cmd [116, 114, 0] shell_path = Some (Some \<lparr>sc_cmd = lit ''tr'', sc_task = Do_TrainTR, sc_pri = 28, sc_sync = True\<rparr>)"
    by (simp add: shell_path_def lit_def of_char_def)
  moreover have "drop 41 (line_cmd ?ln) = []" by (simp add: line_cmd_def)
  moreover have "sh_cmd sh = line_cmd ?ln" "sh_len sh = 40" using assms by (simp_all add: shell_st_def shell_line_def)
  ultimately show ?thesis by (simp add: shell_exec_def)
qed

end
