(* ===== verification/TrainCommands.thy ===== *)
theory TrainCommands
  imports Shell Events TrackData
begin

text \<open>
  The commands of the shell that concern trains, user/train_commands.c. Each is a task that the shell creates with the
  text after the command's name: it waits for the shell's message, reads its arguments, refuses them or asks a
  provider or creates a task, and answers the shell. A command is a function from the text, the sender of the
  message and what it sent to what the task does, in order; what it logs is left out, and the tids that it looks up are
  asserted to be positive and are the environment's.
\<close>

section \<open>What a command does\<close>

(* src/include/user/train/driver.h:7-11 *)
record TrainDriverArgs =
  tda_train_num :: int
  tda_end :: nat
  tda_speed :: int

(* src/include/user/train/calibration.h:13-17 *)
record CalibrationArgs =
  cal_train :: int
  cal_init_gear :: int
  cal_target_node :: int

(* src/include/user/train/calibration.h:19-24 *)
record TestCalibArgs =
  tst_train :: int
  tst_gear :: int
  tst_dist :: int
  tst_target_node :: int

(* src/include/user/train/calibration.h:26-31 *)
record ATestCalibArgs =
  atst_train :: int
  atst_gear :: int
  atst_delay :: int
  atst_dist :: int

datatype cmd_task = InitSwitch | TrainDriver TrainDriverArgs | Calibration CalibrationArgs | AccelCalibration CalibrationArgs
  | MeasuringVelocity int | SetMS int | TestCalibration TestCalibArgs | ATestCalibration ATestCalibArgs

datatype cmd_out = CmdTrain TrainProtocol | CmdSwitch SWProtocol | CmdCreate int cmd_task | CmdReply int int

text \<open>The arrays for words have 10 bytes; \<^verbatim>\<open>parse_str\<close> with a limit of 10 may write 11, which is a fault.\<close>

definition word_fits :: "parsed \<Rightarrow> bool" where
  "word_fits p = (case p of PStr s \<Rightarrow> length s \<le> 10 | _ \<Rightarrow> True)"

definition cmd_args :: "u8 list \<Rightarrow> string \<Rightarrow> dest list \<Rightarrow> (int \<times> parsed list) option" where
  "cmd_args args fmt va = do {
     (r, out) \<leftarrow> parse_args args (lit fmt) va;
     kassert (list_all word_fits out);
     Some (r, out) }"

abbreviation PRI_TRAIN_DRIVER :: int where "PRI_TRAIN_DRIVER \<equiv> 15"

section \<open>The commands\<close>

(* src/src/user/train_commands.c:3-19 *)
definition SwitchISW :: "int \<Rightarrow> int \<Rightarrow> cmd_out list option" where
  "SwitchISW tid r = Some [CmdCreate 19 InitSwitch, CmdReply tid r]"

(* src/src/user/train_commands.c:21-62 *)
definition TrainDR :: "track \<Rightarrow> u8 list \<Rightarrow> int \<Rightarrow> cmd_out list option" where
  "TrainDR t args tid = do {
     (r, out) \<leftarrow> cmd_args args ''%d %d %s'' [DInt, DInt, DStr 10];
     if r \<noteq> 0 then Some [CmdReply tid (- 1)]
     else case out of [PInt tn, PInt speed, PStr stn1] \<Rightarrow> do {
         s1 \<leftarrow> trhr t stn1;
         if s1 < 0 \<or> int TRACK_MAX - 1 < s1 then Some [CmdReply tid (- 1)]
         else if speed < 1 \<or> 14 < speed then Some [CmdReply tid (- 1)]
         else Some [CmdCreate PRI_TRAIN_DRIVER (TrainDriver \<lparr>tda_train_num = tn, tda_end = nat s1, tda_speed = speed\<rparr>),
           CmdReply tid 0] }
     | _ \<Rightarrow> None }"

(* src/src/user/train_commands.c:65-95 *)
definition TrainTR :: "u8 list \<Rightarrow> int \<Rightarrow> cmd_out list option" where
  "TrainTR args tid = do {
     (r, out) \<leftarrow> cmd_args args ''%d %d'' [DInt, DInt];
     if r \<noteq> 0 then Some [CmdReply tid (- 1)]
     else case out of [PInt tn, PInt ts] \<Rightarrow>
         Some [CmdTrain \<lparr>tp_tc = T_MOVE, tp_arg1 = word_of_int tn, tp_arg2 = word_of_int ts\<rparr>, CmdReply tid 0]
     | _ \<Rightarrow> None }"

text \<open>\<^verbatim>\<open>C\<close> is 67, \<^verbatim>\<open>S\<close> is 83.\<close>

(* src/src/user/train_commands.c:127-170 *)
definition SwitchSW :: "u8 list \<Rightarrow> int \<Rightarrow> cmd_out list option" where
  "SwitchSW args tid = do {
     (r, out) \<leftarrow> cmd_args args ''%d %c'' [DInt, DChar];
     if r \<noteq> 0 then Some [CmdReply tid (- 1)]
     else case out of [PInt swn, PChar dir] \<Rightarrow>
         if dir \<noteq> 67 \<and> dir \<noteq> 83 then Some [CmdReply tid (- 1)]
         else if \<not> ((1 \<le> swn \<and> swn \<le> 18) \<or> (153 \<le> swn \<and> swn \<le> 156)) then Some [CmdReply tid (- 1)]
         else Some [CmdSwitch \<lparr>sw_swr = SW_FLIP, sw_sw = word_of_int swn,
             sw_dir = (if dir = 67 then SW_CURVE else SW_STRAIGHT)\<rparr>, CmdReply tid 0]
     | _ \<Rightarrow> None }"

(* src/src/user/train_commands.c:172-212 *)
definition TrainTK :: "track \<Rightarrow> u8 list \<Rightarrow> int \<Rightarrow> cmd_out list option" where
  "TrainTK t args tid = do {
     (r, out) \<leftarrow> cmd_args args ''%d %s'' [DInt, DStr 10];
     if r \<noteq> 0 then Some [CmdReply tid (- 1)]
     else case out of [PInt tn, PStr ps] \<Rightarrow> do {
         p \<leftarrow> trhr t ps;
         if p < 0 \<or> int TRACK_MAX - 1 < p then Some [CmdReply tid (- 1)]
         else Some [CmdTrain \<lparr>tp_tc = T_INIT, tp_arg1 = word_of_int tn, tp_arg2 = word_of_int p\<rparr>, CmdReply tid 0] }
     | _ \<Rightarrow> None }"

text \<open>The two calibrations differ in the task they create.\<close>

definition calibrate :: "(CalibrationArgs \<Rightarrow> cmd_task) \<Rightarrow> track \<Rightarrow> u8 list \<Rightarrow> int \<Rightarrow> cmd_out list option" where
  "calibrate task t args tid = do {
     (r, out) \<leftarrow> cmd_args args ''%d %d %s'' [DInt, DInt, DStr 10];
     if r \<noteq> 0 then Some [CmdReply tid (- 1)]
     else case out of [PInt tr, PInt gear, PStr node] \<Rightarrow> do {
         n \<leftarrow> trhr t node;
         if n < 0 \<or> int TRACK_MAX - 1 < n then Some [CmdReply tid (- 1)]
         else Some [CmdCreate 19 (task \<lparr>cal_train = tr, cal_init_gear = gear, cal_target_node = n\<rparr>), CmdReply tid r] }
     | _ \<Rightarrow> None }"

(* src/src/user/train_commands.c:214-244 *)
definition TrainCAL :: "track \<Rightarrow> u8 list \<Rightarrow> int \<Rightarrow> cmd_out list option" where
  "TrainCAL = calibrate Calibration"

(* src/src/user/train_commands.c:246-276 *)
definition TrainACAL :: "track \<Rightarrow> u8 list \<Rightarrow> int \<Rightarrow> cmd_out list option" where
  "TrainACAL = calibrate AccelCalibration"

(* src/src/user/train_commands.c:278-298 *)
definition TrainMS :: "u8 list \<Rightarrow> int \<Rightarrow> cmd_out list option" where
  "TrainMS args tid = do {
     (r, out) \<leftarrow> cmd_args args ''%d'' [DInt];
     if r \<noteq> 0 then Some [CmdReply tid (- 1)]
     else case out of [PInt tr] \<Rightarrow> Some [CmdCreate 19 (MeasuringVelocity tr), CmdReply tid r]
     | _ \<Rightarrow> None }"

(* src/src/user/train_commands.c:300-320 *)
definition SetTrainMS :: "u8 list \<Rightarrow> int \<Rightarrow> cmd_out list option" where
  "SetTrainMS args tid = do {
     (r, out) \<leftarrow> cmd_args args ''%d'' [DInt];
     if r \<noteq> 0 then Some [CmdReply tid (- 1)]
     else case out of [PInt ms] \<Rightarrow> Some [CmdCreate 19 (SetMS ms), CmdReply tid r]
     | _ \<Rightarrow> None }"

(* src/src/user/train_commands.c:323-354 *)
definition TrainTST :: "track \<Rightarrow> u8 list \<Rightarrow> int \<Rightarrow> cmd_out list option" where
  "TrainTST t args tid = do {
     (r, out) \<leftarrow> cmd_args args ''%d %d %d %s'' [DInt, DInt, DInt, DStr 10];
     if r \<noteq> 0 then Some [CmdReply tid (- 1)]
     else case out of [PInt tr, PInt gear, PInt dist, PStr node] \<Rightarrow> do {
         n \<leftarrow> trhr t node;
         if n < 0 \<or> int TRACK_MAX - 1 < n then Some [CmdReply tid (- 1)]
         else Some [CmdCreate 19 (TestCalibration \<lparr>tst_train = tr, tst_gear = gear, tst_dist = dist, tst_target_node = n\<rparr>),
           CmdReply tid r] }
     | _ \<Rightarrow> None }"

(* src/src/user/train_commands.c:356-377 *)
definition TrainATST :: "u8 list \<Rightarrow> int \<Rightarrow> cmd_out list option" where
  "TrainATST args tid = do {
     (r, out) \<leftarrow> cmd_args args ''%d %d %d %d'' [DInt, DInt, DInt, DInt];
     if r \<noteq> 0 then Some [CmdReply tid (- 1)]
     else case out of [PInt tr, PInt gear, PInt delay, PInt dist] \<Rightarrow>
         Some [CmdCreate 19 (ATestCalibration \<lparr>atst_train = tr, atst_gear = gear, atst_delay = delay, atst_dist = dist\<rparr>),
           CmdReply tid r]
     | _ \<Rightarrow> None }"

text \<open>What the tasks of the shell's table do: \<open>args\<close> is the text they are created with, \<open>tid\<close> the shell, \<open>r\<close> what it
  sent. The tasks that halt the board and fill a window do nothing with trains.\<close>

definition run_command :: "track \<Rightarrow> shell_task \<Rightarrow> u8 list \<Rightarrow> int \<Rightarrow> int \<Rightarrow> cmd_out list option" where
  "run_command t task args tid r = (case task of
     Do_TrainTR \<Rightarrow> TrainTR args tid
   | Do_SwitchSW \<Rightarrow> SwitchSW args tid
   | Do_SwitchISW \<Rightarrow> SwitchISW tid r
   | Do_TrainDR \<Rightarrow> TrainDR t args tid
   | Do_TrainMS \<Rightarrow> TrainMS args tid
   | Do_SetTrainMS \<Rightarrow> SetTrainMS args tid
   | Do_TrainCAL \<Rightarrow> TrainCAL t args tid
   | Do_TrainACAL \<Rightarrow> TrainACAL t args tid
   | Do_TrainTST \<Rightarrow> TrainTST t args tid
   | Do_TrainATST \<Rightarrow> TrainATST args tid
   | Do_TrainTK \<Rightarrow> TrainTK t args tid
   | Do_Quit \<Rightarrow> None
   | Do_DummyTask \<Rightarrow> None)"

section \<open>A command answers the shell\<close>

text \<open>What providers and drivers are asked for is in range.\<close>

fun asked_ok :: "cmd_out \<Rightarrow> bool" where
  "asked_ok (CmdTrain tp) \<longleftrightarrow> tp_tc tp = T_MOVE \<or> tp_tc tp = T_INIT \<and> unat (tp_arg2 tp) < TRACK_MAX"
| "asked_ok (CmdSwitch sw) \<longleftrightarrow> sw_swr sw = SW_FLIP \<and> sw_dir sw \<in> {SW_STRAIGHT, SW_CURVE} \<and>
     (1 \<le> sw_sw sw \<and> sw_sw sw \<le> 18 \<or> 153 \<le> sw_sw sw \<and> sw_sw sw \<le> 156)"
| "asked_ok (CmdCreate pri (TrainDriver a)) \<longleftrightarrow> tda_end a < TRACK_MAX \<and> 1 \<le> tda_speed a \<and> tda_speed a \<le> 14"
| "asked_ok (CmdCreate pri (Calibration a)) \<longleftrightarrow> 0 \<le> cal_target_node a \<and> cal_target_node a < int TRACK_MAX"
| "asked_ok (CmdCreate pri (AccelCalibration a)) \<longleftrightarrow> 0 \<le> cal_target_node a \<and> cal_target_node a < int TRACK_MAX"
| "asked_ok (CmdCreate pri (TestCalibration a)) \<longleftrightarrow> 0 \<le> tst_target_node a \<and> tst_target_node a < int TRACK_MAX"
| "asked_ok (CmdCreate pri _) \<longleftrightarrow> True"
| "asked_ok (CmdReply tid r) \<longleftrightarrow> False"

definition answered_cmd :: "int \<Rightarrow> int \<Rightarrow> cmd_out list \<Rightarrow> bool" where
  "answered_cmd tid r0 os \<longleftrightarrow> os = [CmdReply tid (- 1)] \<or> (\<exists>q r. os = [q, CmdReply tid r] \<and> asked_ok q \<and> r \<in> {0, r0})"

lemma answered_cmd_simps [simp]:
  "answered_cmd tid r0 [CmdReply tid (- 1)]"
  "answered_cmd tid r0 [q, CmdReply tid r] \<longleftrightarrow> asked_ok q \<and> r \<in> {0, r0}"
  by (auto simp: answered_cmd_def)

lemma switch_word:
  assumes "(1 \<le> swn \<and> swn \<le> 18) \<or> (153 \<le> swn \<and> swn \<le> (156 :: int))"
  shows "(1 \<le> (word_of_int swn :: u8) \<and> (word_of_int swn :: u8) \<le> 18) \<or> (153 \<le> (word_of_int swn :: u8) \<and> (word_of_int swn :: u8) \<le> 156)"
proof -
  have "uint (word_of_int swn :: u8) = swn" using assms by (auto simp: uint_word_of_int)
  then show ?thesis using assms by (simp add: word_le_def)
qed

lemma node_word: "0 \<le> p \<Longrightarrow> p < int TRACK_MAX \<Longrightarrow> unat (word_of_int p :: u8) < TRACK_MAX"
proof -
  assume p: "0 \<le> p" "p < int TRACK_MAX"
  then have "uint (word_of_int p :: u8) = p" by (simp add: uint_word_of_int)
  then show ?thesis using p by (simp add: unat_eq_nat_uint)
qed

text \<open>Every command answers the shell once, as the last thing it does; a refusal (-1) is all that it does, and what it asks
  for otherwise is in range: a switch that exists, a direction, a node of the track, a speed between 1 and 14. (The numbers of
  trains, and the speed of \<^verbatim>\<open>tr\<close>, are not checked: they are cut down to a byte.)\<close>

theorem commands_answer:
  assumes "run_command t task args tid r = Some os"
  shows "answered_cmd tid r os"
proof (cases task)
  case Do_TrainTR
  then show ?thesis using assms by (auto simp: run_command_def TrainTR_def split: list.splits parsed.splits if_splits elim!: bind_SomeE)
next
  case Do_SwitchSW
  then show ?thesis using assms switch_word
    by (auto simp: run_command_def SwitchSW_def split: list.splits parsed.splits if_splits elim!: bind_SomeE)
next
  case Do_SwitchISW
  then show ?thesis using assms by (auto simp: run_command_def SwitchISW_def)
next
  case Do_TrainDR
  then show ?thesis using assms
    by (auto simp: run_command_def TrainDR_def nat_less_iff split: list.splits parsed.splits if_splits elim!: bind_SomeE)
next
  case Do_TrainMS
  then show ?thesis using assms by (auto simp: run_command_def TrainMS_def split: list.splits parsed.splits if_splits elim!: bind_SomeE)
next
  case Do_SetTrainMS
  then show ?thesis using assms by (auto simp: run_command_def SetTrainMS_def split: list.splits parsed.splits if_splits elim!: bind_SomeE)
next
  case Do_TrainCAL
  then show ?thesis using assms
    by (auto simp: run_command_def TrainCAL_def calibrate_def split: list.splits parsed.splits if_splits elim!: bind_SomeE)
next
  case Do_TrainACAL
  then show ?thesis using assms
    by (auto simp: run_command_def TrainACAL_def calibrate_def split: list.splits parsed.splits if_splits elim!: bind_SomeE)
next
  case Do_TrainTST
  then show ?thesis using assms
    by (auto simp: run_command_def TrainTST_def split: list.splits parsed.splits if_splits elim!: bind_SomeE)
next
  case Do_TrainATST
  then show ?thesis using assms
    by (auto simp: run_command_def TrainATST_def split: list.splits parsed.splits if_splits elim!: bind_SomeE)
next
  case Do_TrainTK
  then show ?thesis using assms node_word
    by (auto simp: run_command_def TrainTK_def split: list.splits parsed.splits if_splits elim!: bind_SomeE)
qed (use assms in \<open>simp_all add: run_command_def\<close>)

section \<open>Two numbers\<close>

lemma two_numbers:
  assumes "buf_pack_i32 a = Some da" "buf_pack_i32 b = Some db" "sint a \<noteq> - 2147483648" "sint b \<noteq> - 2147483648"
  shows "cmd_args (da @ 32 # db @ [0]) ''%d %d'' [DInt, DInt] = Some (0, [PInt (sint a), PInt (sint b)])"
proof -
  have 1: "parse_ui32 (da @ 32 # db @ [0]) 0 = Some (int (length da + 1), sint a)"
    using parse_packed [OF assms(3,1), of 32 "[]" 0 "db @ [0]"] by (simp add: is_digit_def)
  have 2: "parse_ui32 (da @ 32 # db @ [0]) (length da + 1) = Some (int (length db + 1), sint b)"
    using parse_packed [OF assms(4,2), of 0 "da @ [32]" 0 "[]"] by (simp add: is_digit_def)
  have "nat (1 + int (length da)) = Suc (length da)" by simp
  then show ?thesis using 1 2 by (simp add: cmd_args_def parse_args_def lit_def of_char_def word_fits_def)
qed

lemma TrainTR_numbers:
  assumes "buf_pack_i32 a = Some da" "buf_pack_i32 b = Some db" "sint a \<noteq> - 2147483648" "sint b \<noteq> - 2147483648"
  shows "TrainTR (da @ 32 # db @ [0]) tid =
    Some [CmdTrain \<lparr>tp_tc = T_MOVE, tp_arg1 = word_of_int (sint a), tp_arg2 = word_of_int (sint b)\<rparr>, CmdReply tid 0]"
  using two_numbers [OF assms] by (simp add: TrainTR_def)

end
