(* ===== verification/Spec2Isabelle.thy ===== *)
theory Spec2Isabelle
  imports KernelTheorems PathExample ClockServer NameServer ReservationTheorems EventWindow
    TrainModel EstimatorTheorems Parse SmallLibs WaitingRoomInv IOServerProps DriverProps
    TerminalManagerProps TerminalWindows ShellProps TrainCommands
begin

text \<open>
  A verification development for the CS452 kernel and train control program: a microkernel for the ARM920T
  (TS-7200), its servers, and the libraries that find routes on a model railway, reserve track and estimate
  where the trains are. Paths are given relative to src/src/ and src/include/.

  \<^bold>\<open>The program and the theories.\<close> The kernel runs one task at a time; a task traps into it with a system call
  or an interrupt does, a handler changes the kernel's data, and the scheduler takes the most urgent ready task.
  Servers are tasks that loop over Receive, a change of their data and Reply. The train libraries are called by
  such tasks and keep no tasks of their own.

  \<^item> \<open>Prelude\<close>: words, C's division, the fault monad (below), array accesses, memory as bytes; the collection
    \<open>fault_eq\<close> says when a computation returns.
  \<^item> \<open>CircBuf\<close>: the circular buffers of lib/circular_buffer.h, generic in the element and the capacity, which
    the macros instantiate. Locales state what a bounded queue (\<open>bounded_fifo\<close>) and its extended operations
    promise; they are interpreted on the code's operations, and every user of a buffer rests on those facts.
  \<^item> \<open>Tasks\<close>, \<open>TaskQueue\<close>, \<open>ReadyQueue\<close>, \<open>InterruptMatrix\<close>: lib/task/: descriptors and tids, the linked queues
    through the descriptors' \<^verbatim>\<open>next\<close> fields, the ready queue with its bit mask, the waiting tasks of an event. A
    \<^verbatim>\<open>TaskDescriptor *\<close> is an index into the kernel's array.
  \<^item> \<open>Memory\<close>, \<open>BufferPack\<close>: user memory as bytes, and the formatting of lib/buffer_pack.c, lib/i2a.c,
    lib/string.c.
  \<^item> \<open>Kernel\<close>: kernel/kernel.c, kernel/kernel_task.c, kernel/system.c and kernel/handlers/: one record of the
    kernel's globals, one function per handler. \<open>KernelRun\<close>: the main loop as a transition system, the user tasks
    and the hardware being the environment. \<open>KernelInv\<close>, \<open>Handlers\<close>: the invariant (each descriptor is in exactly
    one place, as its status says) and its preservation. \<open>KernelProps\<close>, \<open>KernelTheorems\<close>: what send, receive,
    reply, creation, exit, wake-up and scheduling do.
  \<^item> \<open>ClockServer\<close>, \<open>NameServer\<close>: user/clockserver.c with lib/clockserver_queue.c, user/nameserver.c with
    lib/nameserver_store.c: the queue or store, and the server loop as a step per request.
  \<^item> \<open>TrackData\<close>: lib/train/track_data.c, both tracks entry by entry and the lookup of names. \<open>TrackNode\<close>:
    lib/train/track_node.c, the breadth-first searches. \<open>TrackSwitch\<close>: lib/train/track_switch.c, following the
    track as the switches lie. A \<^verbatim>\<open>track_node *\<close> is the node's index, \<open>None\<close> for \<^verbatim>\<open>NULL\<close>.
  \<^item> \<open>TrainQueue\<close>, \<open>PathFinding\<close>: lib/train/priority_queue.c and lib/train/path_finding.c. \<open>PathSearch\<close> proves
    the search for any choice of edges (a locale), \<open>PathTheorems\<close> what the paths promise, \<open>PathFollow\<close> the
    trail, \<open>PathExample\<close> a run with a path that is not the shortest.
  \<^item> \<open>Reservation\<close>, \<open>ReservationTheorems\<close>: lib/train/reservation.c and user/train/reservation_manager.c.
  \<^item> \<open>EventWindow\<close>: lib/train/event_window.c.
  \<^item> \<open>TrainModel\<close>: lib/train/train_model.c, the tables of measured speeds and distances, their interpolation, and
    the distance of a tick.
  \<^item> \<open>Estimator\<close>, \<open>EstimatorUpdate\<close>: lib/train/estimator.c, which moves the trains over the track by the train
    model and corrects them when a sensor is hit. \<open>EstimatorInv\<close> has the invariant of its lists, \<open>EstimatorMove\<close>
    what a move does, \<open>EstimatorKeeps\<close> that every operation keeps the invariant, \<open>EstimatorTheorems\<close> the properties.
  \<^item> \<open>Events\<close>: where the events come from, user/train/sensor_provider.c, switch_provider.c, train_provider.c,
    virtual_provider.c and lib/train/sensor.c: providers, publishers and notifiers, and the difference of two readings of
    the sensors. \<open>WaitingRoom\<close>: user/train/waiting_room.c, which holds back the sensor hits that a train is expected to
    cause; \<open>WaitingRoomProps\<close> and \<open>WaitingRoomInv\<close> have what happens to each hit and the invariant.
  \<^item> \<open>TrackState\<close>: lib/train/track.c and user/train/interpreter.c, which turn groups of events into updates of the
    track. \<open>Representer\<close>, \<open>RepresenterProps\<close>: user/train/representer.c, which applies the updates to the estimator and
    tells the subscribers.
  \<^item> \<open>Driver\<close>, \<open>DriverProps\<close>: user/train/driver.c, a train on its way to a destination: its path, the switches it throws,
    the track it asks for, and where it stops.
  \<^item> \<open>IOServer\<close>, \<open>IOServerProps\<close>: user/ioserver.c, the servers of a serial line, by the bytes they write and the replies
    they give.
  \<^item> \<open>Terminal\<close>: lib/terminal.c, windows on a screen. \<open>TerminalProps\<close> has a terminal that interprets the bytes and proves
    what it shows, \<open>TerminalWindows\<close> that windows and their ids are accounted for. \<open>TerminalManager\<close>,
    \<open>TerminalManagerProps\<close>: user/terminal_manager.c, the server of the display and the keyboard.
  \<^item> \<open>Parse\<close>: lib/parse.c and lib/parse_args.c. \<open>Shell\<close>, \<open>ShellProps\<close>: user/shell.c, the line editor and its commands.
    \<open>TrainCommands\<close>: user/train_commands.c, what each command reads and asks for. The last section of this theory
    follows a command from the keys to the bytes on the trains' line.
  \<^item> \<open>SmallLibs\<close>: lib/clock.c and lib/recency_buffer.c.

  A sensor hit goes from the line server through the sensor provider and the waiting room to the interpreter, and from
  there through the representer to the estimator and the subscribers, of which the driver is one; the driver asks the
  reservation manager for track and sends commands for trains and switches back to their providers.

  \<^bold>\<open>How the code is modelled.\<close> A struct is a record, an enum a datatype or a numeral, a pointer into an array the
  index. An operation returns an option: \<open>None\<close> means that an assertion failed or that the code read or wrote
  outside an array or through a null pointer; the debug build, in which assertions stop the run, is the one
  modelled. Machine integers are words where wrapping or width matters (kernel, buffers, servers, formatting); the
  train libraries compute with \<^verbatim>\<open>int\<close> as unbounded integers, but \<open>TrainModel\<close> checks each result against 32 bits.
  Memory that the code does not initialise is an argument or an \<open>option\<close> whose reading is a fault.

  \<^bold>\<open>Loops, bounds and fuel.\<close> Counted loops are structural recursion, loops with a measure are functions with a
  termination proof. A loop without a bound of its own (following the track, the searches over queues, moving a
  train, updating trains that wait for each other) is a partial function into option, where \<open>None\<close> is also "does
  not return"; that it returns is then proved under stated conditions: on both tracks for the search and for
  following the switches, for \<open>est_move_forced\<close> when at most 16 nodes are in reach (the capacity of the list of
  passed nodes). No fuel is used.

  \<^bold>\<open>What the properties show.\<close> Of the kernel: the invariant of the main loop, the delivery of messages, the order
  of scheduling, which requests always return, and where it fails. Of the servers: the refinement of a map (names), the
  order and time of wake-ups (clock), the order of bytes, the protocol of the line and the replies to writers (serial lines),
  and what a task writes and types (terminal, shell). Of the track: that the tables describe consistent graphs, that
  searches find routes and distances, that a reservation is refused where another train holds the track and can be
  undone. Of the trains: that a change of speed completes and that interpolation is exact at the measured points, that the
  estimator's lists agree with its positions after any sequence of events, and what a forced move does. Of the events:
  that every sensor hit is answered once, in order, with the update that it means, and that each subscriber is told. The
  remaining theorems show the defects of the code that came to light: a route that is not the shortest, a stolen
  reservation, exhausted tids and stores, requests that stop a server, lost updates, parsers that read after the end.

  \<^bold>\<open>Not modelled.\<close> The displays (user/ui/) ask a server for a value and print it; kernel/bwio.c and user/uio.c
  print for diagnosis; user/train/calibration.c has measuring programs that are run by hand. The tasks that only
  pass a message from one server to another (couriers, the subscribers of track_event_subscriber.c, the logger) appear as the
  requests of the servers' steps. The context switch, the system call stubs and the entry of interrupts are assembly, and
  are transitions of the environment in \<open>KernelRun\<close>; the kernel finds the arguments of a call on the caller's stack.
  prediction_manager.c, vevent_provider.c, m1_reset.c, writerservice.c and lib/pack.c are commented out. The first tasks
  (user/init/) create the others. The test programs (test/, user/test/) check the code and are not part of it. The
  manifest lists each of them.

  Memory is total, so that reading or writing a wrong address is not by itself a fault: where the code checks a
  pointer of a user the check is a failing assertion, and \<^verbatim>\<open>task_info\<close>, which writes a text of unknown length
  through a pointer it does not check, faults unless the text lies in its caller's stack.
\<close>

section \<open>From the keyboard to the trains\<close>

lemma packed_chars:
  assumes "buf_pack_i32 a = Some da" "sint a \<noteq> - 2147483648"
  shows "\<forall>c \<in> set da. c \<notin> {0, 8, 13}" "length da \<le> 11"
proof -
  have "\<not> is_digit 0" "\<not> is_digit 8" "\<not> is_digit 13" by (simp_all add: is_digit_def)
  then show "\<forall>c \<in> set da. c \<notin> {0, 8, 13}" "length da \<le> 11"
    using packed_number [OF assms(2)] assms(1) by auto
qed

lemma tr_dispatch:
  "dispatch tid (116 # 114 # 32 # w) = [ShCreate 28 Do_TrainTR (w @ [0]), ShSend tid]"
  by (simp add: dispatch_def named_cmd_def word_of_def args_of_def shell_path_def lit_def of_char_def)

text \<open>C26: A command that is typed reaches the trains. When the keys of \<^verbatim>\<open>tr\<close>, a space, a number, a space, a
  number and Enter are typed at the start of the shell (any two numbers that fit an \<^verbatim>\<open>int\<close> except the smallest, as
  \<^verbatim>\<open>buf_pack_i32\<close> prints them), the shell creates the task \<^verbatim>\<open>TrainTR\<close> with the text of the two numbers and
  waits for it; that task, run on this text, asks the train provider once and answers the shell; the provider answers it and
  has the command written; and the bytes written to the trains are the second number and then the first, each cut down to a byte.\<close>

theorem typed_speed_reaches_train:
  assumes "length (sh_cmd sh0) = CMD_MAX" "length (cb_buf (sh_buf sh0)) = CMD_BUF_MAX"
    and a: "buf_pack_i32 a = Some da" "sint a \<noteq> - 2147483648" and b: "buf_pack_i32 b = Some db" "sint b \<noteq> - 2147483648"
  shows "\<exists>strs sh sh' args tp ev.
    shell_start sh0 = Some (strs, sh) \<and>
    shell_run (map (Pair tid) (116 # 114 # 32 # da @ 32 # db) @ [(tid, 13)]) sh = Some ([ShCreate 28 Do_TrainTR args, ShSend tid], sh') \<and>
    TrainTR args sh_tid = Some [CmdTrain tp, CmdReply sh_tid 0] \<and>
    TrainProvider tid tp = Some [TpReply tid, TpWrite tp] \<and>
    TWriteTask tp time = Some ([word_of_int (sint b), word_of_int (sint a)], ev)"
proof -
  let ?w = "116 # 114 # 32 # da @ 32 # db :: u8 list"
  have "\<forall>c \<in> set ?w. c \<notin> {0, 8, 13}" using packed_chars(1) [OF a] packed_chars(1) [OF b] by auto
  moreover have "length ?w < CMD_MAX - 1" using packed_chars(2) [OF a] packed_chars(2) [OF b] by simp
  ultimately obtain strs sh sh' where "shell_start sh0 = Some (strs, sh)"
    "shell_run (map (Pair tid) ?w @ [(tid, 13)]) sh = Some (dispatch tid ?w, sh')"
    using enter_line [OF assms(1,2), of ?w tid] by blast
  moreover have "TrainTR (da @ 32 # db @ [0]) sh_tid =
      Some [CmdTrain \<lparr>tp_tc = T_MOVE, tp_arg1 = word_of_int (sint a), tp_arg2 = word_of_int (sint b)\<rparr>, CmdReply sh_tid 0]"
    by (rule TrainTR_numbers [OF a(1) b(1) a(2) b(2)])
  ultimately show ?thesis using tr_dispatch [of tid "da @ 32 # db"] by (simp add: TrainProvider_def TWriteTask_def)
qed

theorem typed_speed_reaches_train_witness:
  "\<exists>da db strs sh sh' args tp ev. buf_pack_i32 58 = Some da \<and> buf_pack_i32 10 = Some db \<and> shell_start raw_shell = Some (strs, sh) \<and>
     shell_run (map (Pair 40) (116 # 114 # 32 # da @ 32 # db) @ [(40, 13)]) sh = Some ([ShCreate 28 Do_TrainTR args, ShSend 40], sh') \<and>
     TrainTR args 7 = Some [CmdTrain tp, CmdReply 7 0] \<and> TWriteTask tp 0 = Some ([10, 58], ev)"
proof -
  have "length (sh_cmd raw_shell) = CMD_MAX" "length (cb_buf (sh_buf raw_shell)) = CMD_BUF_MAX" by (simp_all add: raw_shell_def)
  moreover obtain da db where "buf_pack_i32 58 = Some da" "buf_pack_i32 10 = Some db"
    using packed_number [of 58] packed_number [of 10] by auto
  ultimately show ?thesis using typed_speed_reaches_train [of raw_shell 58 da 10 db 40 7 0] by auto
qed

end
